(* ===== verification/Gcore_Prelude.thy ===== *)
theory Gcore_Prelude
  imports Main "HOL-Library.Word" "HOL-Library.Multiset"
begin

text \<open>
  Shared vocabulary of the development: the machine integer types, the faults an operation
  of the library can end in, the result type with its sequencing combinators, and the
  generic lemmas on results and lists that the component theories rest on.

  In the C code an operation either returns or ends the process: \<^verbatim>\<open>die\<close> and \<^verbatim>\<open>bye\<close>
  (common.h) log a message and call \<^verbatim>\<open>exit\<close>. An operation that can do so returns a value of
  type \<open>'a res\<close>: \<open>Inl\<close> of the fault, or \<open>Inr\<close> of the result. Faults whose names start with
  \<open>Crash\<close> stand for what the code does not check: a dereferenced NULL or an access outside an
  array or a mapped file.
\<close>

type_synonym u8 = "8 word"
type_synonym u16 = "16 word"
type_synonym u32 = "32 word"
type_synonym u64 = "64 word"

text \<open>Sizes and counters are \<open>nat\<close>; where the C arithmetic can wrap, the wrap is written.\<close>

definition wrap16 :: "nat \<Rightarrow> nat" where
  "wrap16 n = n mod 2 ^ 16"

definition wrap32 :: "nat \<Rightarrow> nat" where
  "wrap32 n = n mod 2 ^ 32"

definition wrap64 :: "nat \<Rightarrow> nat" where
  "wrap64 n = n mod 2 ^ 64"

text \<open>The conversion of an \<^verbatim>\<open>int32_t\<close> to \<^verbatim>\<open>uint32_t\<close> in a mixed comparison or a call.\<close>

definition u32_of_int :: "int \<Rightarrow> nat" where
  "u32_of_int i = nat (i mod 2 ^ 32)"

text \<open>Unsigned 32 bit subtraction.\<close>

definition sub32 :: "nat \<Rightarrow> nat \<Rightarrow> nat" where
  "sub32 a b = nat ((int a - int b) mod 2 ^ 32)"

section \<open>Faults and results\<close>

datatype fault =
    Crash_null            \<comment> \<open>a NULL pointer is dereferenced\<close>
  | Crash_bounds          \<comment> \<open>an array or a mapped file is accessed outside its bounds\<close>
  | Crash_freed           \<comment> \<open>an object is used after it was freed\<close>
  | Crash_undefined       \<comment> \<open>an operation whose result the C standard leaves undefined\<close>
  | Null_pointer          \<comment> \<open>\<^verbatim>\<open>die("pointer is NULL")\<close>\<close>
  | Out_of_range          \<comment> \<open>an id or address is refused by a range check\<close>
  | Bad_subvec
  | Bad_count             \<comment> \<open>a count or length check failed\<close>
  | Bad_format            \<comment> \<open>a file or a string does not have the expected form\<close>
  | Bad_state             \<comment> \<open>an object is in a state that does not allow the operation\<close>
  | Bad_select            \<comment> \<open>a unit select, tag or type is not allowed here\<close>
  | Capacity_exceeded
  | Not_found
  | Ambiguous             \<comment> \<open>a lookup found more than one match\<close>
  | Device_failure        \<comment> \<open>an ioctl on the driver failed\<close>
  | Database_failure      \<comment> \<open>a statement of the database could not be prepared or executed\<close>
  | Out_of_fuel           \<comment> \<open>no behaviour of the code: the bound of a recursion was too small\<close>

type_synonym 'a res = "fault + 'a"

fun bindR :: "'a res \<Rightarrow> ('a \<Rightarrow> 'b res) \<Rightarrow> 'b res" where
  "bindR (Inl e) f = Inl e"
| "bindR (Inr x) f = f x"

text \<open>A loop that threads a state, and a loop that collects results; both stop at a fault.\<close>

fun foldR :: "('a \<Rightarrow> 's \<Rightarrow> 's res) \<Rightarrow> 'a list \<Rightarrow> 's \<Rightarrow> 's res" where
  "foldR f [] s = Inr s"
| "foldR f (x # xs) s = bindR (f x s) (foldR f xs)"

fun mapR :: "('a \<Rightarrow> 'b res) \<Rightarrow> 'a list \<Rightarrow> 'b list res" where
  "mapR f [] = Inr []"
| "mapR f (x # xs) = bindR (f x) (\<lambda>y. bindR (mapR f xs) (\<lambda>ys. Inr (y # ys)))"

text \<open>A search loop with \<^verbatim>\<open>break\<close> whose test can fault.\<close>

fun anyR :: "('a \<Rightarrow> bool res) \<Rightarrow> 'a list \<Rightarrow> bool res" where
  "anyR p [] = Inr False"
| "anyR p (x # xs) = bindR (p x) (\<lambda>b. if b then Inr True else anyR p xs)"

fun filterR :: "('a \<Rightarrow> bool res) \<Rightarrow> 'a list \<Rightarrow> 'a list res" where
  "filterR p [] = Inr []"
| "filterR p (x # xs) =
     bindR (p x) (\<lambda>b. bindR (filterR p xs) (\<lambda>ys. Inr (if b then x # ys else ys)))"

text \<open>A pointer that the code dereferences without a check, and one it checks first.\<close>

fun derefR :: "'a option \<Rightarrow> 'a res" where
  "derefR None = Inl Crash_null"
| "derefR (Some x) = Inr x"

fun nonnullR :: "'a option \<Rightarrow> 'a res" where
  "nonnullR None = Inl Null_pointer"
| "nonnullR (Some x) = Inr x"

definition nthR :: "'a list \<Rightarrow> nat \<Rightarrow> 'a res" where
  "nthR xs i = (if i < length xs then Inr (xs ! i) else Inl Crash_bounds)"

definition updR :: "'a list \<Rightarrow> nat \<Rightarrow> 'a \<Rightarrow> 'a list res" where
  "updR xs i x = (if i < length xs then Inr (xs[i := x]) else Inl Crash_bounds)"

text \<open>\<^verbatim>\<open>memcpy\<close> of \<open>ys\<close> into the buffer \<open>xs\<close> at offset \<open>i\<close>.\<close>

definition blitR :: "'a list \<Rightarrow> nat \<Rightarrow> 'a list \<Rightarrow> 'a list res" where
  "blitR xs i ys =
     (if i + length ys \<le> length xs then Inr (take i xs @ ys @ drop (i + length ys) xs)
      else Inl Crash_bounds)"

named_theorems res_intros \<open>facts that conclude an \<open>Inr\<close> result\<close>
named_theorems res_dests \<open>what an \<open>Inr\<close> result says about the operation's inputs\<close>

lemma bindR_Inr_iff: "bindR m f = Inr y \<longleftrightarrow> (\<exists>x. m = Inr x \<and> f x = Inr y)"
  by (cases m) auto

lemma bindR_Inl_iff:
  "bindR m f = Inl e \<longleftrightarrow> m = Inl e \<or> (\<exists>x. m = Inr x \<and> f x = Inl e)"
  by (cases m) auto

lemma bindR_assoc: "bindR (bindR m f) g = bindR m (\<lambda>x. bindR (f x) g)"
  by (cases m) auto

lemma bindR_cong [fundef_cong]:
  assumes "m = m'" and "\<And>x. m' = Inr x \<Longrightarrow> f x = f' x"
  shows "bindR m f = bindR m' f'"
  using assms by (cases m') auto

lemma derefR_Inr_iff [simp]: "derefR p = Inr x \<longleftrightarrow> p = Some x"
  by (cases p) auto

lemma nonnullR_Inr_iff [simp]: "nonnullR p = Inr x \<longleftrightarrow> p = Some x"
  by (cases p) auto

lemma nthR_Inr_iff [simp]: "nthR xs i = Inr x \<longleftrightarrow> i < length xs \<and> x = xs ! i"
  by (auto simp: nthR_def)

lemma updR_Inr_iff [simp]: "updR xs i x = Inr ys \<longleftrightarrow> i < length xs \<and> ys = xs[i := x]"
  by (auto simp: updR_def)

lemma blitR_length: "blitR xs i ys = Inr zs \<Longrightarrow> length zs = length xs"
  by (auto simp: blitR_def split: if_splits)

lemma blitR_inside:
  "blitR xs i ys = Inr zs \<Longrightarrow> j < length ys \<Longrightarrow> zs ! (i + j) = ys ! j"
  by (auto simp: blitR_def nth_append split: if_splits)

lemma blitR_outside:
  assumes "blitR xs i ys = Inr zs" and "j < i \<or> i + length ys \<le> j" and "j < length xs"
  shows "zs ! j = xs ! j"
  using assms by (auto simp: blitR_def nth_append split: if_splits)

lemma blitR_segment:
  "blitR xs i ys = Inr zs \<Longrightarrow> take (length ys) (drop i zs) = ys"
  by (auto simp: blitR_def split: if_splits)

lemma foldR_append: "foldR f (xs @ ys) s = bindR (foldR f xs s) (foldR f ys)"
proof (induction xs arbitrary: s)
  case Nil
  then show ?case by simp
next
  case (Cons x xs)
  then show ?case by (cases "f x s") simp_all
qed

text \<open>The invariant rule of a threaded loop.\<close>

lemma foldR_inv:
  assumes "foldR f xs s = Inr t" and "P s"
    and "\<And>x s s'. x \<in> set xs \<Longrightarrow> P s \<Longrightarrow> f x s = Inr s' \<Longrightarrow> P s'"
  shows "P t"
  using assms by (induction xs arbitrary: s) (auto simp: bindR_Inr_iff)

text \<open>The loop returns when every iteration does, from any state that satisfies \<open>P\<close>.\<close>

lemma foldR_total:
  assumes "P s" and "\<And>x s. x \<in> set xs \<Longrightarrow> P s \<Longrightarrow> \<exists>s'. f x s = Inr s' \<and> P s'"
  shows "\<exists>t. foldR f xs s = Inr t \<and> P t"
  using assms
proof (induction xs arbitrary: s)
  case Nil
  then show ?case by simp
next
  case (Cons x xs)
  from Cons.prems obtain s' where s': "f x s = Inr s'" "P s'" by fastforce
  with Cons.IH [of s'] Cons.prems(2) show ?case by auto
qed

lemma mapR_Inr_iff: "mapR f xs = Inr ys \<longleftrightarrow> list_all2 (\<lambda>x y. f x = Inr y) xs ys"
  by (induction xs arbitrary: ys) (auto simp: bindR_Inr_iff list_all2_Cons1)

lemma mapR_length: "mapR f xs = Inr ys \<Longrightarrow> length ys = length xs"
  by (auto simp: mapR_Inr_iff dest: list_all2_lengthD)

lemma mapR_nth: "mapR f xs = Inr ys \<Longrightarrow> i < length xs \<Longrightarrow> f (xs ! i) = Inr (ys ! i)"
  by (auto simp: mapR_Inr_iff dest: list_all2_nthD)

lemma mapR_all: "(\<And>x. x \<in> set xs \<Longrightarrow> f x = Inr (g x)) \<Longrightarrow> mapR f xs = Inr (map g xs)"
  by (induction xs) auto

lemma foldR_map: "foldR f (map g xs) s = foldR (\<lambda>x. f (g x)) xs s"
proof (induction xs arbitrary: s)
  case Nil
  then show ?case by simp
next
  case (Cons x xs)
  then show ?case by (cases "f (g x) s") simp_all
qed

text \<open>A loop that repeats an inner loop is the loop over the repeated list.\<close>

lemma foldR_nested:
  "foldR (\<lambda>_. foldR f xs) ks s = foldR f (concat (replicate (length ks) xs)) s"
proof (induction ks arbitrary: s)
  case Nil
  then show ?case by simp
next
  case (Cons k ks)
  then show ?case by (cases "foldR f xs s") (simp_all add: foldR_append)
qed

text \<open>A loop whose body is guarded by \<^verbatim>\<open>continue\<close> is the loop over the selected elements.\<close>

lemma foldR_filter: "foldR (\<lambda>x s. if P x then f x s else Inr s) xs s = foldR f (filter P xs) s"
proof (induction xs arbitrary: s)
  case Nil
  then show ?case by simp
next
  case (Cons x xs)
  then show ?case by (cases "f x s") simp_all
qed

lemma anyR_pure: "(\<And>x. x \<in> set xs \<Longrightarrow> p x = Inr (q x)) \<Longrightarrow> anyR p xs = Inr (\<exists>x\<in>set xs. q x)"
  by (induction xs) auto

lemma filterR_pure: "(\<And>x. x \<in> set xs \<Longrightarrow> p x = Inr (q x)) \<Longrightarrow> filterR p xs = Inr (filter q xs)"
  by (induction xs) auto

section \<open>Stores of slots\<close>

text \<open>
  The contract of a buffer that is written slot by slot: what a write needs, and what a read
  of any slot returns after it. An array written by index is one; a test vector, whose slots
  are nibbles shared two to a byte, is another (theory Subvec). The client lemmas are about
  the loops that fill such a buffer.
\<close>

locale slot_store =
  fixes put :: "'s \<Rightarrow> 'k \<Rightarrow> 'v \<Rightarrow> 's res"
    and get :: "'s \<Rightarrow> 'i \<Rightarrow> 'w"
    and slot :: "'k \<Rightarrow> 'i"
    and enc :: "'v \<Rightarrow> 'w"
    and ok :: "'s \<Rightarrow> bool"
    and key :: "'k \<Rightarrow> bool"
  assumes put_total: "ok s \<Longrightarrow> key k \<Longrightarrow> \<exists>s'. put s k v = Inr s'"
    and put_ok: "ok s \<Longrightarrow> put s k v = Inr s' \<Longrightarrow> ok s'"
    and get_same: "ok s \<Longrightarrow> put s k v = Inr s' \<Longrightarrow> get s' (slot k) = enc v"
    and get_other: "ok s \<Longrightarrow> put s k v = Inr s' \<Longrightarrow> i \<noteq> slot k \<Longrightarrow> get s' i = get s i"
begin

lemma fill_total:
  assumes "ok s" and "\<And>x. x \<in> set xs \<Longrightarrow> key (f x)"
  shows "\<exists>s'. foldR (\<lambda>x s. put s (f x) (g x)) xs s = Inr s' \<and> ok s'"
proof (rule foldR_total [where P = ok, OF assms(1)])
  fix x s assume x: "x \<in> set xs" and ok: "ok s"
  from put_total [OF ok assms(2) [OF x]] obtain s' where "put s (f x) (g x) = Inr s'" by blast
  with put_ok [OF ok] show "\<exists>s'. put s (f x) (g x) = Inr s' \<and> ok s'" by blast
qed

lemma fill_ok:
  assumes "ok s" and "foldR (\<lambda>x s. put s (f x) (g x)) xs s = Inr s'"
  shows "ok s'"
  using foldR_inv [OF assms(2), of ok] assms(1) put_ok by blast

lemma fill_other:
  assumes "ok s" and "foldR (\<lambda>x s. put s (f x) (g x)) xs s = Inr s'"
    and "i \<notin> (\<lambda>x. slot (f x)) ` set xs"
  shows "get s' i = get s i"
  using assms
proof (induction xs arbitrary: s)
  case Nil
  then show ?case by simp
next
  case (Cons x xs)
  then obtain t where t: "put s (f x) (g x) = Inr t"
    "foldR (\<lambda>x s. put s (f x) (g x)) xs t = Inr s'"
    by (auto simp: bindR_Inr_iff)
  have ok_t: "ok t" using Cons.prems(1) t(1) by (rule put_ok)
  have "get s' i = get t i" using Cons.IH [OF ok_t t(2)] Cons.prems(3) by simp
  also have "\<dots> = get s i"
    using get_other [OF Cons.prems(1) t(1)] Cons.prems(3) by simp
  finally show ?case .
qed

lemma fill_same:
  assumes "ok s" and "foldR (\<lambda>x s. put s (f x) (g x)) xs s = Inr s'"
    and "distinct (map (\<lambda>x. slot (f x)) xs)" and "x \<in> set xs"
  shows "get s' (slot (f x)) = enc (g x)"
  using assms
proof (induction xs arbitrary: s)
  case Nil
  then show ?case by simp
next
  case (Cons y ys)
  then obtain t where t: "put s (f y) (g y) = Inr t"
    "foldR (\<lambda>x s. put s (f x) (g x)) ys t = Inr s'"
    by (auto simp: bindR_Inr_iff)
  have ok_t: "ok t" using Cons.prems(1) t(1) by (rule put_ok)
  show ?case
  proof (cases "x = y")
    case True
    have "slot (f y) \<notin> (\<lambda>x. slot (f x)) ` set ys" using Cons.prems(3) by simp
    with ok_t t(2) have "get s' (slot (f y)) = get t (slot (f y))" by (rule fill_other)
    also have "\<dots> = enc (g y)" using Cons.prems(1) t(1) by (rule get_same)
    finally show ?thesis using True by simp
  next
    case False
    with Cons ok_t t(2) show ?thesis by simp
  qed
qed

end

text \<open>Arrays written by index.\<close>

interpretation arr: slot_store updR nth id id "\<lambda>xs. length xs = n" "\<lambda>i. i < n"
  for n :: nat
  by (unfold_locales) (auto simp: updR_def split: if_splits)

section \<open>Sources of items\<close>

text \<open>
  The loop \<^verbatim>\<open>while((c = next(st)) != NULL) { ... }\<close> of a client that drains a source of items. The
  recursion is bounded by fuel; running out of it is reported as a fault, and the lemmas below
  show that one more than the number of items is enough.
\<close>

fun drain :: "nat \<Rightarrow> ('st \<Rightarrow> ('c option \<times> 'st) res) \<Rightarrow> ('c \<Rightarrow> 's \<Rightarrow> 's res) \<Rightarrow> 'st \<Rightarrow> 's \<Rightarrow>
    ('st \<times> 's) res" where
  "drain 0 nxt f st s = Inl Out_of_fuel"
| "drain (Suc fuel) nxt f st s =
     bindR (nxt st) (\<lambda>(r, st).
       case r of None \<Rightarrow> Inr (st, s) | Some c \<Rightarrow> bindR (f c s) (drain fuel nxt f st))"

text \<open>What every step of the client relates, the loop relates.\<close>

lemma drain_related:
  assumes "drain fuel nxt f st s = Inr (st', s')"
    and "\<And>s. R s s" and "\<And>s1 s2 s3. R s1 s2 \<Longrightarrow> R s2 s3 \<Longrightarrow> R s1 s3"
    and "\<And>c s s'. f c s = Inr s' \<Longrightarrow> R s s'"
  shows "R s s'"
  using assms(1)
proof (induction fuel arbitrary: st s)
  case 0
  then show ?case by simp
next
  case (Suc fuel)
  then obtain r st1 where n: "nxt st = Inr (r, st1)" by (auto simp: bindR_Inr_iff)
  show ?case
  proof (cases r)
    case None
    with n Suc.prems assms(2) show ?thesis by simp
  next
    case (Some c)
    with n Suc.prems obtain s1 where s1: "f c s = Inr s1" "drain fuel nxt f st1 s1 = Inr (st', s')"
      by (auto simp: bindR_Inr_iff)
    from assms(3) [OF assms(4) [OF s1(1)] Suc.IH [OF s1(2)]] show ?thesis .
  qed
qed

text \<open>What a source delivers: the items of a run from one state to the next end.\<close>

inductive yields :: "('st \<Rightarrow> ('c option \<times> 'st) res) \<Rightarrow> 'st \<Rightarrow> 'c list \<Rightarrow> 'st \<Rightarrow> bool" for nxt where
  stop: "nxt st = Inr (None, st') \<Longrightarrow> yields nxt st [] st'"
| item: "nxt st = Inr (Some c, st1) \<Longrightarrow> yields nxt st1 cs st' \<Longrightarrow> yields nxt st (c # cs) st'"

text \<open>Draining a source is the loop over the items it delivers.\<close>

lemma drain_yields:
  "yields nxt st cs st' \<Longrightarrow> length cs < fuel \<Longrightarrow>
    drain fuel nxt f st s = bindR (foldR f cs s) (\<lambda>s. Inr (st', s))"
proof (induction arbitrary: fuel s rule: yields.induct)
  case (stop st st')
  then show ?case by (cases fuel) simp_all
next
  case (item st c st1 cs st')
  then show ?case by (cases fuel; cases "f c s") simp_all
qed

text \<open>
  The contract of a source: \<open>n\<close> items that come in order from the states that satisfy \<open>inv\<close>, and
  then the end, in a state that satisfies \<open>fin\<close>.
\<close>

locale item_source =
  fixes nxt :: "'st \<Rightarrow> ('c option \<times> 'st) res"
    and inv :: "nat \<Rightarrow> 'st \<Rightarrow> bool"
    and item :: "nat \<Rightarrow> 'c"
    and n :: nat
    and fin :: "'st \<Rightarrow> bool"
  assumes more: "inv k st \<Longrightarrow> k < n \<Longrightarrow> \<exists>st'. nxt st = Inr (Some (item k), st') \<and> inv (Suc k) st'"
    and stop: "inv n st \<Longrightarrow> \<exists>st'. nxt st = Inr (None, st') \<and> fin st'"
begin

lemma yields_from: "inv k st \<Longrightarrow> k \<le> n \<Longrightarrow> \<exists>st'. yields nxt st (map item [k..<n]) st' \<and> fin st'"
proof (induction "n - k" arbitrary: k st)
  case 0
  with stop show ?case by (auto intro: yields.stop)
next
  case (Suc m)
  then have k: "k < n" by simp
  with more Suc.prems(1) obtain st1 where st1: "nxt st = Inr (Some (item k), st1)" "inv (Suc k) st1" by blast
  have "m = n - Suc k" "Suc k \<le> n" using Suc.hyps(2) k by simp_all
  from Suc.hyps(1) [OF this(1) st1(2) this(2)] obtain st' where
    "yields nxt st1 (map item [Suc k..<n]) st'" "fin st'" by blast
  moreover have "map item [k..<n] = item k # map item [Suc k..<n]" using k by (simp add: upt_conv_Cons)
  ultimately show ?case using yields.item [of nxt, OF st1(1)] by auto
qed

end

section \<open>Unsigned arithmetic\<close>

lemma wrap32_small [simp]: "n < 4294967296 \<Longrightarrow> wrap32 n = n"
  by (simp add: wrap32_def)

lemma wrap16_small [simp]: "n < 65536 \<Longrightarrow> wrap16 n = n"
  by (simp add: wrap16_def)

lemma wrap64_small [simp]: "n < 18446744073709551616 \<Longrightarrow> wrap64 n = n"
  by (simp add: wrap64_def)

lemma sub32_le [simp]: "b \<le> a \<Longrightarrow> a < 4294967296 \<Longrightarrow> sub32 a b = a - b"
  by (simp add: sub32_def flip: of_nat_diff)

lemma u32_of_int_nonneg [simp]: "0 \<le> i \<Longrightarrow> i < 4294967296 \<Longrightarrow> u32_of_int i = nat i"
  by (simp add: u32_of_int_def)

text \<open>A number is the sum of its digits; used for little endian encodings.\<close>

lemma digits_sum: "(\<Sum>k<n. (x div b ^ k mod b) * b ^ k) = x mod b ^ n" for x b n :: nat
proof (induction n)
  case 0
  then show ?case by simp
next
  case (Suc n)
  have "x mod b ^ Suc n = b ^ n * (x div b ^ n mod b) + x mod b ^ n"
    unfolding power_Suc2 by (rule mod_mult2_eq)
  with Suc show ?case by (simp add: mult.commute)
qed

lemma u32_of_int_minus1 [simp]: "u32_of_int (-1) = 4294967295"
  by (simp add: u32_of_int_def)

end
