(* ===== verification/Subvec.thy ===== *)
theory Subvec
  imports Gcore_Prelude
begin

text \<open>
  subvec.h and subvec.c: the 128 byte test vector. A subvec is a nibble that tells what one
  pin is driven with or expected at; 200 of them fill bytes 0 to 99 of a vector, byte 127
  holds the opcode and bytes 100 to 126 its operand, little endian.
\<close>

unbundle bit_operations_syntax

section \<open>Constants and codes\<close>

definition DUT_NUM_PINS :: nat where "DUT_NUM_PINS = 200"
definition DUT_TOTAL_NUM_PINS :: nat where "DUT_TOTAL_NUM_PINS = 400"
definition STIM_VEC_SIZE :: nat where "STIM_VEC_SIZE = 128"

datatype subvecs =
    DUT_SUBVEC_NONE | DUT_SUBVEC_0 | DUT_SUBVEC_1 | DUT_SUBVEC_X
  | DUT_SUBVEC_H | DUT_SUBVEC_L | DUT_SUBVEC_C

fun subvec_code :: "subvecs \<Rightarrow> u8" where
  "subvec_code DUT_SUBVEC_NONE = 0x0f"
| "subvec_code DUT_SUBVEC_0 = 0x00"
| "subvec_code DUT_SUBVEC_1 = 0x01"
| "subvec_code DUT_SUBVEC_X = 0x02"
| "subvec_code DUT_SUBVEC_H = 0x03"
| "subvec_code DUT_SUBVEC_L = 0x04"
| "subvec_code DUT_SUBVEC_C = 0x05"

datatype subvec_opcode =
    DUT_OPCODE_NOP | DUT_OPCODE_VEC | DUT_OPCODE_VECLOOP | DUT_OPCODE_VECCLK

fun opcode_code :: "subvec_opcode \<Rightarrow> u8" where
  "opcode_code DUT_OPCODE_NOP = 0xff"
| "opcode_code DUT_OPCODE_VEC = 0x01"
| "opcode_code DUT_OPCODE_VECLOOP = 0x02"
| "opcode_code DUT_OPCODE_VECCLK = 0x03"

section \<open>Operations\<close>

text \<open>The two branches that clear and load one nibble of a byte.\<close>

definition load_high_nibble :: "subvecs \<Rightarrow> u8 \<Rightarrow> u8" where
  "load_high_nibble subvec packed_subvec =
     (push_bit 4 (subvec_code subvec) OR 0x0f) AND (packed_subvec OR 0xf0)"

definition load_low_nibble :: "subvecs \<Rightarrow> u8 \<Rightarrow> u8" where
  "load_low_nibble subvec packed_subvec =
     (push_bit 0 (subvec_code subvec) OR 0xf0) AND (packed_subvec OR 0x0f)"

definition pack_subvecs_by_dut_io_id :: "u8 list \<Rightarrow> nat \<Rightarrow> subvecs \<Rightarrow> u8 list res" where
  "pack_subvecs_by_dut_io_id packed_subvecs dut_io_id subvec =
     (if dut_io_id \<ge> DUT_TOTAL_NUM_PINS - 1 then Inl Out_of_range
      else
        (let dut_io_id = dut_io_id mod DUT_NUM_PINS;
             subvec_id = dut_io_id div 2
         in bindR (nthR packed_subvecs subvec_id) (\<lambda>packed_subvec.
            updR packed_subvecs subvec_id
              (if dut_io_id mod 2 = 1
               then load_high_nibble subvec packed_subvec
               else load_low_nibble subvec packed_subvec))))"

definition operand_byte :: "u64 \<Rightarrow> nat \<Rightarrow> u8" where
  "operand_byte operand k = ucast (drop_bit (8 * k) operand)"

text \<open>
  The loop \<^verbatim>\<open>for(int i=100; i<=126; i++)\<close> and the eight stores of the operand's bytes.
\<close>

definition pack_subvecs_with_opcode_and_operand ::
    "u8 list \<Rightarrow> subvec_opcode \<Rightarrow> u64 \<Rightarrow> u8 list res" where
  "pack_subvecs_with_opcode_and_operand packed_subvecs opcode operand =
     bindR (updR packed_subvecs (STIM_VEC_SIZE - 1) (opcode_code opcode)) (\<lambda>b.
     bindR (foldR (\<lambda>i b. updR b i 0x00) [100..<127] b)
       (foldR (\<lambda>k b. updR b (100 + k) (operand_byte operand k)) [0..<8]))"

definition get_subvec_by_pin_id :: "u8 list \<Rightarrow> nat \<Rightarrow> subvecs res" where
  "get_subvec_by_pin_id packed_subvecs pin_id =
     (if wrap32 (pin_id + 1) \<ge> DUT_TOTAL_NUM_PINS then Inl Out_of_range
      else
        bindR (nthR packed_subvecs (pin_id div 2)) (\<lambda>packed_subvec.
          let packed_subvec =
                (if pin_id mod 2 = 0 then drop_bit 4 (packed_subvec AND 0xf0)
                 else drop_bit 0 (packed_subvec AND 0x0f))
          in if packed_subvec = subvec_code DUT_SUBVEC_0 then Inr DUT_SUBVEC_0
             else if packed_subvec = subvec_code DUT_SUBVEC_1 then Inr DUT_SUBVEC_1
             else if packed_subvec = subvec_code DUT_SUBVEC_X then Inr DUT_SUBVEC_X
             else if packed_subvec = subvec_code DUT_SUBVEC_H then Inr DUT_SUBVEC_H
             else if packed_subvec = subvec_code DUT_SUBVEC_L then Inr DUT_SUBVEC_L
             else if packed_subvec = subvec_code DUT_SUBVEC_C then Inr DUT_SUBVEC_C
             else Inl Bad_subvec))"

section \<open>Nibbles of a vector\<close>

text \<open>The abstract view of the pin area: a sequence of nibbles, low nibble of a byte first.\<close>

definition nibble :: "u8 list \<Rightarrow> nat \<Rightarrow> u8" where
  "nibble bs i = (if odd i then drop_bit 4 (bs ! (i div 2)) else bs ! (i div 2) AND 0x0f)"

lemma u8_eqI:
  fixes a b :: u8
  assumes "bit a 0 = bit b 0" "bit a 1 = bit b 1" "bit a 2 = bit b 2" "bit a 3 = bit b 3"
    "bit a 4 = bit b 4" "bit a 5 = bit b 5" "bit a 6 = bit b 6" "bit a 7 = bit b 7"
  shows "a = b"
proof (rule bit_word_eqI)
  fix n assume "n < LENGTH(8)"
  then have "n \<in> {0,1,2,3,4,5,6,7}" by auto
  with assms show "bit a n = bit b n" by auto
qed

lemma load_high_nibble:
  "drop_bit 4 (load_high_nibble s b) = subvec_code s"
  "load_high_nibble s b AND 0x0f = b AND 0x0f"
  unfolding load_high_nibble_def
  by (cases s; rule u8_eqI; simp add: bit_simps bit_numeral_rec impossible_bit)+

lemma load_low_nibble:
  "load_low_nibble s b AND 0x0f = subvec_code s"
  "drop_bit 4 (load_low_nibble s b) = drop_bit 4 b"
  unfolding load_low_nibble_def
  by (cases s; rule u8_eqI; simp add: bit_simps bit_numeral_rec impossible_bit)+

lemma high_nibble: "drop_bit 4 (b AND 0xf0) = drop_bit 4 (b :: u8)"
  by (rule u8_eqI; simp add: bit_simps bit_numeral_rec impossible_bit)

lemma subvec_code_inj: "subvec_code s = subvec_code t \<longleftrightarrow> s = t"
  by (cases s; cases t; simp)

text \<open>Two nibbles that are not the same either sit in different bytes or in one byte.\<close>

lemma nibble_cases:
  fixes i j :: nat
  assumes "i \<noteq> j"
  shows "i div 2 \<noteq> j div 2 \<or> (i div 2 = j div 2 \<and> (odd i \<longleftrightarrow> even j))"
  using assms by presburger

lemmas pack_defs =
  pack_subvecs_by_dut_io_id_def DUT_TOTAL_NUM_PINS_def DUT_NUM_PINS_def Let_def

lemma pack_Inr_iff:
  "pack_subvecs_by_dut_io_id bs d s = Inr bs' \<longleftrightarrow>
     d < 399 \<and> d mod 200 div 2 < length bs \<and>
     bs' = bs[d mod 200 div 2 :=
       (if odd (d mod 200) then load_high_nibble s (bs ! (d mod 200 div 2))
        else load_low_nibble s (bs ! (d mod 200 div 2)))]"
  by (auto simp: pack_defs bindR_Inr_iff odd_iff_mod_2_eq_one)

lemma pack_total:
  assumes "length bs = 128" and "d < 399"
  shows "\<exists>bs'. pack_subvecs_by_dut_io_id bs d s = Inr bs'"
proof -
  have "d mod 200 div 2 < 100" by (simp add: div_less_iff_less_mult)
  with assms show ?thesis by (simp add: pack_Inr_iff)
qed

lemma pack_length: "pack_subvecs_by_dut_io_id bs d s = Inr bs' \<Longrightarrow> length bs' = length bs"
  by (auto simp: pack_Inr_iff)

lemma pack_same:
  assumes "pack_subvecs_by_dut_io_id bs d s = Inr bs'"
  shows "nibble bs' (d mod 200) = subvec_code s"
  using assms by (auto simp: pack_Inr_iff nibble_def load_high_nibble load_low_nibble)

lemma pack_other:
  assumes "pack_subvecs_by_dut_io_id bs d s = Inr bs'" and "i \<noteq> d mod 200"
  shows "nibble bs' i = nibble bs i"
proof (cases "i div 2 = d mod 200 div 2")
  case True
  with nibble_cases [OF assms(2)] have "odd i \<longleftrightarrow> even (d mod 200)" by blast
  with True assms(1) show ?thesis
    by (auto simp: pack_Inr_iff nibble_def load_high_nibble load_low_nibble)
next
  case False
  with assms(1) show ?thesis by (auto simp: pack_Inr_iff nibble_def)
qed

text \<open>A vector is a store of nibbles, so the client lemmas of the contract apply to it.\<close>

interpretation vec: slot_store pack_subvecs_by_dut_io_id nibble "\<lambda>d. d mod 200" subvec_code
  "\<lambda>bs. length bs = 128" "\<lambda>d. d < 399"
  by unfold_locales (rule pack_total, simp, simp, simp add: pack_length,
    rule pack_same, simp, rule pack_other, simp)

lemma pack_beyond:
  assumes "pack_subvecs_by_dut_io_id bs d s = Inr bs'" and "100 \<le> j"
  shows "bs' ! j = bs ! j"
proof -
  have "d mod 200 div 2 < 100" by (simp add: div_less_iff_less_mult)
  with assms show ?thesis by (auto simp: pack_Inr_iff)
qed

lemma get_subvec_read:
  assumes "length bs = 128" and "p < 200"
  shows "get_subvec_by_pin_id bs p = Inr s \<longleftrightarrow> s \<noteq> DUT_SUBVEC_NONE \<and>
     nibble bs (if even p then p + 1 else p - 1) = subvec_code s"
proof -
  have idx: "(if even p then p + 1 else p - 1) div 2 = p div 2" by (auto elim!: oddE)
  have "p div 2 < length bs" and "wrap32 (p + 1) < 400" using assms by auto
  moreover have "nibble bs (if even p then p + 1 else p - 1) =
      (if p mod 2 = 0 then drop_bit 4 (bs ! (p div 2) AND 0xf0)
       else drop_bit 0 (bs ! (p div 2) AND 0x0f))"
    unfolding nibble_def idx high_nibble by auto
  ultimately show ?thesis
    by (cases s)
      (auto simp: get_subvec_by_pin_id_def DUT_TOTAL_NUM_PINS_def Let_def nthR_def)
qed

section \<open>Opcode and operand\<close>

definition vec_operand :: "u8 list \<Rightarrow> nat" where
  "vec_operand bs = (\<Sum>k<8. unat (bs ! (100 + k)) * 256 ^ k)"

lemma unat_operand_byte: "unat (operand_byte v k) = unat v div 256 ^ k mod 256"
proof -
  have "(256 :: nat) ^ k = 2 ^ (8 * k)" by (simp add: power_mult)
  moreover have "unat (drop_bit n v) = unat v div 2 ^ n" for n
    by (simp add: unat_drop_bit_eq drop_bit_nat_def)
  ultimately show ?thesis by (simp add: operand_byte_def unsigned_ucast_eq take_bit_eq_mod)
qed

lemma vec_operand_bytes:
  assumes "\<And>k. k < 8 \<Longrightarrow> bs ! (100 + k) = operand_byte v k"
  shows "vec_operand bs = unat v"
proof -
  have "vec_operand bs = (\<Sum>k<8. (unat v div 256 ^ k mod 256) * 256 ^ k)"
    unfolding vec_operand_def by (rule sum.cong) (simp_all add: assms unat_operand_byte)
  also have "\<dots> = unat v mod 256 ^ 8" by (rule digits_sum)
  also have "\<dots> = unat v" using unsigned_less [of v, where ?'a = nat] by simp
  finally show ?thesis .
qed

lemma pack_opcode:
  assumes len: "length bs = 128"
  shows "\<exists>bs'. pack_subvecs_with_opcode_and_operand bs op v = Inr bs' \<and> length bs' = 128 \<and>
    bs' ! 127 = opcode_code op \<and> vec_operand bs' = unat v \<and> (\<forall>j<100. bs' ! j = bs ! j) \<and>
    (\<forall>j\<in>{108..126}. bs' ! j = 0)"
proof -
  note upt_rec_numeral [simp del]
  let ?b = "bs[127 := opcode_code op]"
  have lb: "length ?b = 128" using len by simp
  obtain c where c: "foldR (\<lambda>i b. updR b i 0) [100..<127] ?b = Inr c" "length c = 128"
    using arr.fill_total [where f = "\<lambda>i. i" and g = "\<lambda>_. 0", OF lb, of "[100..<127]"]
    by (auto simp del: upt_rec_numeral)
  obtain d where d: "foldR (\<lambda>k b. updR b (100 + k) (operand_byte v k)) [0..<8] c = Inr d"
      "length d = 128"
    using arr.fill_total [where f = "\<lambda>k. 100 + k" and g = "operand_byte v", OF c(2), of "[0..<8]"]
    by (auto simp del: upt_rec_numeral)
  have same: "d ! (100 + k) = operand_byte v k" if "k < 8" for k
    using arr.fill_same [where f = "\<lambda>k. 100 + k" and x = k, OF c(2) d(1)] that
    by (simp add: distinct_map inj_on_def)
  have other: "d ! j = c ! j" if "j < 100 \<or> 108 \<le> j" for j
    using arr.fill_other [where f = "\<lambda>k. 100 + k" and i = j, OF c(2) d(1)] that
    by (auto simp del: upt_rec_numeral)
  have other': "c ! j = ?b ! j" if "j < 100 \<or> j = 127" for j
    using arr.fill_other [where f = "\<lambda>i. i" and i = j, OF lb c(1)] that
    by (auto simp del: upt_rec_numeral)
  have "pack_subvecs_with_opcode_and_operand bs op v = Inr d"
    using len c d by (simp add: pack_subvecs_with_opcode_and_operand_def STIM_VEC_SIZE_def updR_def)
  moreover have "d ! 127 = opcode_code op" using other [of 127] other' [of 127] len by simp
  moreover have "vec_operand d = unat v" by (rule vec_operand_bytes) (rule same)
  moreover have "d ! j = bs ! j" if "j < 100" for j
    using other [of j] other' [of j] that by simp
  moreover have "d ! j = 0" if "j \<in> {108..126}" for j
    using other [of j] arr.fill_same [where f = "\<lambda>i. i" and x = j, OF lb c(1)] that
    by (simp del: upt_rec_numeral)
  ultimately show ?thesis using d(2) by blast
qed

section \<open>Properties\<close>

text \<open>C38. Packing a subvec into a 128 byte vector writes the nibble of the pin within its unit
  (\<open>dut_io_id mod 200\<close>) and nothing else: every other nibble and every byte of the opcode and
  operand area keeps its value. It succeeds for every id below 399.\<close>

theorem pack_writes_one_nibble:
  assumes "length bs = 128" and "d < 399"
  shows "\<exists>bs'. pack_subvecs_by_dut_io_id bs d s = Inr bs' \<and> length bs' = 128 \<and>
    nibble bs' (d mod 200) = subvec_code s \<and>
    (\<forall>i. i \<noteq> d mod 200 \<longrightarrow> nibble bs' i = nibble bs i) \<and> (\<forall>j\<ge>100. bs' ! j = bs ! j)"
proof -
  from pack_total [OF assms] obtain bs' where "pack_subvecs_by_dut_io_id bs d s = Inr bs'" ..
  then show ?thesis using assms(1) pack_length pack_same pack_other pack_beyond by fastforce
qed

theorem pack_writes_one_nibble_witness:
  "\<exists>bs'. pack_subvecs_by_dut_io_id (replicate 128 0xff) 203 DUT_SUBVEC_H = Inr bs' \<and>
    nibble bs' 3 = 3"
  using pack_writes_one_nibble [of "replicate 128 0xff" 203 DUT_SUBVEC_H] by auto

text \<open>The highest pin of the second unit cannot be packed: id 399 is a valid dut_io id (the bus
  runs from 0 to 399), and the range check refuses it for every vector and every subvec.\<close>

theorem pack_refuses_last_pin:
  "pack_subvecs_by_dut_io_id bs 399 s = Inl Out_of_range"
  by (simp add: pack_defs)

text \<open>What \<open>get_subvec_by_pin_id\<close> reads back for a pin is not what was packed for it but
  what was packed for the other pin of the same byte: the two functions take the nibbles of a
  byte in opposite order.\<close>

theorem get_reads_the_neighbour:
  assumes "length bs = 128" and "d < 200" and "s \<noteq> DUT_SUBVEC_NONE"
    and "pack_subvecs_by_dut_io_id bs d s = Inr bs'"
  shows "get_subvec_by_pin_id bs' (if even d then d + 1 else d - 1) = Inr s"
proof -
  let ?p = "if even d then d + 1 else d - 1"
  have p: "?p < 200" and "(if even ?p then ?p + 1 else ?p - 1) = d"
    using assms(2) by (auto elim!: evenE oddE)
  moreover have "nibble bs' d = subvec_code s" using pack_same [OF assms(4)] assms(2) by simp
  moreover have "length bs' = 128" using pack_length [OF assms(4)] assms(1) by simp
  ultimately show ?thesis using assms(3) by (simp only: get_subvec_read) simp
qed

theorem get_reads_the_neighbour_witness:
  "\<exists>bs'. pack_subvecs_by_dut_io_id (replicate 128 0xff) 6 DUT_SUBVEC_L = Inr bs' \<and>
    get_subvec_by_pin_id bs' 7 = Inr DUT_SUBVEC_L"
proof -
  obtain bs' where b: "pack_subvecs_by_dut_io_id (replicate 128 0xff) 6 DUT_SUBVEC_L = Inr bs'"
    using pack_total [of "replicate 128 0xff" 6 DUT_SUBVEC_L] by auto
  then show ?thesis
    using get_reads_the_neighbour [of "replicate 128 0xff" 6 DUT_SUBVEC_L bs'] by simp
qed

text \<open>Opcode and operand are stored outside the pin area and the operand can be read back
  from its little endian bytes.\<close>

theorem pack_opcode_roundtrip:
  assumes "length bs = 128"
  shows "\<exists>bs'. pack_subvecs_with_opcode_and_operand bs op v = Inr bs' \<and> length bs' = 128 \<and>
    bs' ! 127 = opcode_code op \<and> vec_operand bs' = unat v \<and> (\<forall>i<200. nibble bs' i = nibble bs i)"
proof -
  obtain bs' where b: "pack_subvecs_with_opcode_and_operand bs op v = Inr bs'"
    "length bs' = 128" "bs' ! 127 = opcode_code op" "vec_operand bs' = unat v"
    "\<forall>j<100. bs' ! j = bs ! j"
    using pack_opcode [OF assms, of op v] by blast
  then have "\<forall>i<200. nibble bs' i = nibble bs i" by (simp add: nibble_def)
  with b show ?thesis by blast
qed

theorem pack_opcode_roundtrip_witness:
  "\<exists>bs'. pack_subvecs_with_opcode_and_operand (replicate 128 0xff) DUT_OPCODE_VECLOOP 50000 = Inr bs'
    \<and> vec_operand bs' = 50000"
  using pack_opcode_roundtrip [of "replicate 128 0xff" DUT_OPCODE_VECLOOP 50000] by auto

end
