(* ===== verification/Util.thy ===== *)
theory Util
  imports Gcore_Prelude "HOL-Library.Char_ord"
begin

text \<open>
  util.c: the string helpers, the test data generators and the token comparison used by the
  profile parser, with the functions of the C library they call. A C string is the list of its
  characters before the terminating NUL.
\<close>

unbundle bit_operations_syntax

section \<open>C library\<close>

definition c_isspace :: "char \<Rightarrow> bool" where
  "c_isspace c \<longleftrightarrow> of_char c \<in> {9, 10, 11, 12, 13, 32 :: nat}"

definition c_isdigit :: "char \<Rightarrow> bool" where
  "c_isdigit c \<longleftrightarrow> 48 \<le> (of_char c :: nat) \<and> (of_char c :: nat) \<le> 57"

definition digit_value :: "char \<Rightarrow> nat" where
  "digit_value c = of_char c - 48"

definition digits_value :: "string \<Rightarrow> nat" where
  "digits_value ds = foldl (\<lambda>v c. 10 * v + digit_value c) 0 ds"

text \<open>The parts of a number: leading white space is skipped, then an optional sign, then digits.\<close>

definition c_number :: "string \<Rightarrow> bool \<times> nat" where
  "c_number s =
     (let t = dropWhile c_isspace s;
          neg = (t \<noteq> [] \<and> hd t = CHR ''-'');
          u = (if t \<noteq> [] \<and> (hd t = CHR ''-'' \<or> hd t = CHR ''+'') then tl t else t)
      in (neg, digits_value (takeWhile c_isdigit u)))"

definition c_strtoull10 :: "string \<Rightarrow> nat" where
  "c_strtoull10 s =
     (let (neg, v) = c_number s
      in if v \<ge> 2 ^ 64 then 2 ^ 64 - 1 else if neg then (2 ^ 64 - v) mod 2 ^ 64 else v)"

definition c_atoi :: "string \<Rightarrow> int" where
  "c_atoi s =
     (let (neg, v) = c_number s;
          i = (if neg then max (- int v) (- (2 ^ 63)) else min (int v) (2 ^ 63 - 1))
      in signed_take_bit 31 i)"

lemma c_strtok_shorter:
  assumes "dropWhile (\<lambda>c. c = d) s \<noteq> []"
  shows "length (dropWhile (\<lambda>c. c \<noteq> d) (dropWhile (\<lambda>c. c = d) s)) < length s"
proof -
  from assms obtain c cs where r: "dropWhile (\<lambda>c. c = d) s = c # cs" by (cases "dropWhile (\<lambda>c. c = d) s") auto
  then have "c \<noteq> d" using hd_dropWhile [of "\<lambda>c. c = d" s] by auto
  with r have "length (dropWhile (\<lambda>c. c \<noteq> d) (dropWhile (\<lambda>c. c = d) s)) < Suc (length cs)"
    by (simp add: length_dropWhile_le le_imp_less_Suc)
  also have "\<dots> \<le> length s" using r length_dropWhile_le [of "\<lambda>c. c = d" s] by simp
  finally show ?thesis .
qed

text \<open>Successive calls of \<^verbatim>\<open>strtok\<close> with one delimiter: the maximal runs of other characters.\<close>

function c_strtok_all :: "char \<Rightarrow> string \<Rightarrow> string list" where
  "c_strtok_all d s =
     (let r = dropWhile (\<lambda>c. c = d) s
      in if r = [] then []
         else takeWhile (\<lambda>c. c \<noteq> d) r # c_strtok_all d (dropWhile (\<lambda>c. c \<noteq> d) r))"
  by pat_completeness auto

termination
  by (relation "measure (\<lambda>(d, s). length s)")
    (simp, clarsimp simp del: dropWhile_eq_Nil_conv simp: c_strtok_shorter)

declare c_strtok_all.simps [simp del]

definition c_basename :: "string \<Rightarrow> string" where
  "c_basename path =
     (if path = [] then ''.''
      else
        (let p = rev (dropWhile (\<lambda>c. c = CHR ''/'') (rev path))
         in if p = [] then ''/'' else rev (takeWhile (\<lambda>c. c \<noteq> CHR ''/'') (rev p))))"

section \<open>Files\<close>

text \<open>A path names a file or not; a file has the path that \<^verbatim>\<open>realpath\<close> gives and its content.\<close>

type_synonym file_system = "string \<Rightarrow> (string \<times> u8 list) option"

definition bytes_text :: "u8 list \<Rightarrow> string" where
  "bytes_text bs = map (\<lambda>b. char_of (unat b)) bs"

section \<open>Strings\<close>

definition util_get_file_ext_by_path :: "string \<Rightarrow> string" where
  "util_get_file_ext_by_path path =
     (let base = c_basename path;
          ext = rev (takeWhile (\<lambda>c. c \<noteq> CHR ''.'') (rev base));
          dot = length base - length ext - 1
      in if CHR ''.'' \<notin> set base \<or> dot = 0 then '''' else ext)"

fun util_str_count :: "string \<Rightarrow> char \<Rightarrow> nat" where
  "util_str_count [] c = 0"
| "util_str_count (x # s) c = (if x = c then 1 else 0) + util_str_count s c"

definition util_str_strip :: "string \<Rightarrow> string" where
  "util_str_strip s =
     (if length s = 0 then s
      else dropWhile c_isspace (rev (dropWhile c_isspace (rev s))))"

text \<open>
  The number of elements \<^verbatim>\<open>util_str_split\<close> announces: the delimiters, plus one unless the last
  delimiter is the last character (\<^verbatim>\<open>last_delim < a_str + strlen(a_str) - 1\<close>; it is NULL, below
  any address, when there is none).
\<close>

fun last_delim :: "char \<Rightarrow> string \<Rightarrow> nat option" where
  "last_delim d [] = None"
| "last_delim d (c # s) =
     (case last_delim d s of Some i \<Rightarrow> Some (Suc i)
      | None \<Rightarrow> if c = d then Some 0 else None)"

definition split_count :: "string \<Rightarrow> char \<Rightarrow> nat" where
  "split_count s d =
     util_str_count s d
     + (case last_delim d s of None \<Rightarrow> 1 | Some i \<Rightarrow> if int i < int (length s) - 1 then 1 else 0)"

definition util_str_split :: "string \<Rightarrow> char \<Rightarrow> string list res" where
  "util_str_split s d =
     (let results = c_strtok_all d s
      in if length results \<noteq> split_count s d then Inl Bad_count else Inr results)"

section \<open>JSON tokens\<close>

datatype jsmntype = JSMN_UNDEFINED | JSMN_OBJECT | JSMN_ARRAY | JSMN_STRING | JSMN_PRIMITIVE

record jsmntok =
  tok_type :: jsmntype
  tok_start :: int
  tok_end :: int
  tok_size :: nat

text \<open>\<^verbatim>\<open>strndup(data + tok.start, tok.end - tok.start)\<close>\<close>

definition tok_text :: "string \<Rightarrow> jsmntok \<Rightarrow> string" where
  "tok_text json tok = take (nat (tok_end tok - tok_start tok)) (drop (nat (tok_start tok)) json)"

definition util_jsmn_eq :: "string \<Rightarrow> jsmntok \<Rightarrow> string \<Rightarrow> int" where
  "util_jsmn_eq json tok s =
     (if tok_type tok = JSMN_STRING \<and> int (length s) = tok_end tok - tok_start tok
         \<and> tok_text json tok = s
      then 0 else -1)"

section \<open>Test data\<close>

definition static_data :: "u64 list" where
  "static_data =
    [0x0101020201010202, 0x1212131312121313, 0x2323242423232424, 0x3434353534343535,
     0x4545464645454646, 0x5656575756565757, 0x6767686867676868, 0x7878797978787979,
     0x89898a8a89898a8a, 0x9a9a9b9b9a9a9b9b, 0xababacacababacac, 0xbcbcbdbdbcbcbdbd,
     0xcdcdcececdcdcece, 0xdededfdfdededfdf, 0xf0f0f1f1f0f0f1f1, 0xffff0000ffff0000]"

definition xor_data :: "u64 list" where
  "xor_data =
    [0x80335E3657B5222D, 0x4C07BE35966A1271, 0x028C0C3490C566DF, 0xDD98D879E3DDE963,
     0x51B19498CF78C728, 0x9D85749B0EA7F774, 0x450249DAB7CFD9A8, 0xBC56F50AA15829D4,
     0x61C62A80CFC4DEB4, 0xADF2CA830E1BEEE8, 0xE379788208B49A46, 0x3C6DACCF7BAC15FA,
     0xB044E02E57093BB1, 0x7C70002D96D60BED, 0x5DA381BC3929D54D, 0x7CADD7A9F10BA91D]"

text \<open>One iteration of the loop at index \<open>i\<close>: the word stored and the next \<^verbatim>\<open>xor_count\<close>.\<close>

definition static_word :: "bool \<Rightarrow> bool \<Rightarrow> nat \<Rightarrow> nat \<Rightarrow> u64 \<times> nat" where
  "static_word include_xor_data clear_xor_results i xor_count =
     (if include_xor_data \<and> ((i + 32) mod 128 = 0 \<or> xor_count > 0)
      then (if xor_count < 16 \<or> \<not> clear_xor_results then xor_data ! (i mod 16) else 0,
            if xor_count + 1 = 32 then 0 else xor_count + 1)
      else (static_data ! (i mod 16), xor_count))"

fun static_loop :: "bool \<Rightarrow> bool \<Rightarrow> nat \<Rightarrow> nat \<Rightarrow> nat \<Rightarrow> u64 list" where
  "static_loop inc clr i xor_count 0 = []"
| "static_loop inc clr i xor_count (Suc n) =
     (let (num, xor_count') = static_word inc clr i xor_count
      in num # static_loop inc clr (Suc i) xor_count' n)"

definition util_get_static_data :: "nat \<Rightarrow> bool \<Rightarrow> bool \<Rightarrow> u64 list" where
  "util_get_static_data num_bytes include_xor_data clear_xor_results =
     static_loop include_xor_data clear_xor_results 0 0 (num_bytes div 8)"

definition util_get_inc_data :: "nat \<Rightarrow> u64 list" where
  "util_get_inc_data num_bytes = map word_of_nat [0..<num_bytes div 8]"

text \<open>\<open>rnd seed k\<close> is the \<open>k\<close>th value of \<^verbatim>\<open>rand()\<close> after \<^verbatim>\<open>srand(seed)\<close>; the C library does not fix it.\<close>

definition util_get_rand_data :: "(u32 \<Rightarrow> nat \<Rightarrow> u32) \<Rightarrow> nat \<Rightarrow> u32 \<Rightarrow> u64 list" where
  "util_get_rand_data rnd num_bytes seed =
     map (\<lambda>i. push_bit 32 (ucast (rnd seed (2 * i))) OR ucast (rnd seed (2 * i + 1)))
       [0..<num_bytes div 8]"

section \<open>Splitting\<close>

lemma count_append: "util_str_count (x @ y) d = util_str_count x d + util_str_count y d"
  by (induction x) auto

lemma count_none: "d \<notin> set x \<Longrightarrow> util_str_count x d = 0"
  by (induction x) auto

lemma last_delim_none: "last_delim d x = None \<longleftrightarrow> d \<notin> set x"
  by (induction x) (auto split: option.splits)

lemma last_delim_append:
  "last_delim d (x @ y) =
    (case last_delim d y of Some i \<Rightarrow> Some (length x + i) | None \<Rightarrow> last_delim d x)"
  by (induction x) (auto split: option.splits)

lemma split_count_no_delim: "d \<notin> set x \<Longrightarrow> split_count x d = 1"
  by (simp add: split_count_def count_none last_delim_none [THEN iffD2])

lemma split_count_step:
  assumes "d \<notin> set x"
  shows "split_count (x @ d # y) d = (if y = [] then 1 else Suc (split_count y d))"
proof (cases "last_delim d y")
  case None
  then have "d \<notin> set y" by (simp add: last_delim_none)
  with None assms show ?thesis
    by (simp add: split_count_def count_append count_none last_delim_append)
next
  case (Some i)
  then have "y \<noteq> []" by auto
  with Some assms show ?thesis
    by (auto simp: split_count_def count_append count_none last_delim_append)
qed

lemma strtok_nil: "c_strtok_all d [] = []"
  by (simp add: c_strtok_all.simps)

lemma strtok_delim: "c_strtok_all d (d # y) = c_strtok_all d y"
  by (simp add: c_strtok_all.simps [of d "d # y"] c_strtok_all.simps [of d y])

lemma strtok_step:
  assumes "d \<notin> set x" and "x \<noteq> []"
  shows "c_strtok_all d (x @ d # y) = x # c_strtok_all d y"
proof -
  have h: "hd x \<noteq> d" using assms by (cases x) auto
  then have "dropWhile (\<lambda>c. c = d) (x @ d # y) = x @ d # y" using assms(2) by (cases x) auto
  moreover have "takeWhile (\<lambda>c. c \<noteq> d) (x @ d # y) = x"
    using assms(1) by (subst takeWhile_append2) auto
  moreover have "dropWhile (\<lambda>c. c \<noteq> d) (x @ d # y) = d # y"
    using assms(1) by (subst dropWhile_append2) auto
  ultimately show ?thesis
    using assms(2) by (simp add: c_strtok_all.simps [of d "x @ d # y"] strtok_delim)
qed

lemma strtok_single:
  assumes "d \<notin> set x"
  shows "c_strtok_all d x = (if x = [] then [] else [x])"
proof (cases x)
  case Nil
  then show ?thesis by (simp add: strtok_nil)
next
  case (Cons c cs)
  then have ne: "x \<noteq> []" by simp
  have a: "dropWhile (\<lambda>c. c = d) x = x" using Cons assms by auto
  have b: "takeWhile (\<lambda>c. c \<noteq> d) x = x" "dropWhile (\<lambda>c. c \<noteq> d) x = []"
    using assms by (auto simp: takeWhile_eq_all_conv)
  show ?thesis
    unfolding c_strtok_all.simps [of d x] a b Let_def using ne by (simp add: strtok_nil)
qed

fun join_with :: "char \<Rightarrow> string list \<Rightarrow> string" where
  "join_with d [] = []"
| "join_with d [t] = t"
| "join_with d (t # ts) = t @ d # join_with d ts"

definition fields_ok :: "char \<Rightarrow> string list \<Rightarrow> bool" where
  "fields_ok d ts \<longleftrightarrow> ts \<noteq> [] \<and> (\<forall>t \<in> set ts. t \<noteq> [] \<and> d \<notin> set t)"

lemma join_with_Cons: "ts \<noteq> [] \<Longrightarrow> join_with d (t # ts) = t @ d # join_with d ts"
  by (cases ts) auto

lemma join_with_nonempty: "fields_ok d ts \<Longrightarrow> join_with d ts \<noteq> []"
  by (cases ts rule: list.exhaust [case_names Nil Cons]; cases "tl ts")
    (auto simp: fields_ok_def)

lemma fields_ok_Cons:
  "fields_ok d (t # ts) \<longleftrightarrow> t \<noteq> [] \<and> d \<notin> set t \<and> (ts = [] \<or> fields_ok d ts)"
  by (auto simp: fields_ok_def)

lemma split_join:
  assumes "fields_ok d ts" and "tail \<in> {[], [d]}"
  shows "c_strtok_all d (join_with d ts @ tail) = ts \<and>
    split_count (join_with d ts @ tail) d = length ts"
  using assms(1)
proof (induction ts)
  case Nil
  then show ?case by (simp add: fields_ok_def)
next
  case (Cons t ts)
  then have t: "t \<noteq> []" "d \<notin> set t" by (simp_all add: fields_ok_Cons)
  show ?case
  proof (cases "ts = []")
    case True
    from assms(2) show ?thesis
      using t True strtok_step [OF t(2,1), of "[]"] split_count_step [OF t(2), of "[]"]
      by (auto simp: strtok_single split_count_no_delim strtok_nil)
  next
    case False
    with Cons.prems have ok: "fields_ok d ts" by (simp add: fields_ok_Cons)
    then have ne: "join_with d ts @ tail \<noteq> []" using join_with_nonempty by simp
    from Cons.IH [OF ok] ne False t show ?thesis
      by (simp add: join_with_Cons strtok_step split_count_step)
  qed
qed

definition well_split :: "char \<Rightarrow> string \<Rightarrow> bool" where
  "well_split d s \<longleftrightarrow>
     (\<exists>ts tail. fields_ok d ts \<and> tail \<in> {[], [d]} \<and> s = join_with d ts @ tail)"

lemma well_splitI:
  "fields_ok d ts \<Longrightarrow> tail \<in> {[], [d]} \<Longrightarrow> s = join_with d ts @ tail \<Longrightarrow> well_split d s"
  unfolding well_split_def by blast

lemma well_split_field: "x \<noteq> [] \<Longrightarrow> d \<notin> set x \<Longrightarrow> well_split d x \<and> well_split d (x @ [d])"
  by (auto intro: well_splitI [of d "[x]" "[]"] well_splitI [of d "[x]" "[d]"]
      simp: fields_ok_def)

lemma well_split_Cons:
  assumes "x \<noteq> []" and "d \<notin> set x" and "well_split d y"
  shows "well_split d (x @ d # y)"
proof -
  from assms(3) obtain ts tail where y: "fields_ok d ts" "tail \<in> {[], [d]}"
    "y = join_with d ts @ tail" unfolding well_split_def by blast
  then have "ts \<noteq> []" by (simp add: fields_ok_def)
  with y assms(1,2) have "fields_ok d (x # ts)" "x @ d # y = join_with d (x # ts) @ tail"
    by (simp_all add: fields_ok_Cons join_with_Cons)
  with y(2) show ?thesis by (blast intro: well_splitI)
qed

lemma split_count_bound:
  "length (c_strtok_all d s) \<le> split_count s d \<and>
    (length (c_strtok_all d s) = split_count s d \<longrightarrow> well_split d s)"
proof (induction "length s" arbitrary: s rule: less_induct)
  case less
  show ?case
  proof (cases "d \<in> set s")
    case False
    then show ?thesis by (simp add: strtok_single split_count_no_delim well_split_field)
  next
    case True
    then obtain x y where s: "s = x @ d # y" and x: "d \<notin> set x" by (meson split_list_first)
    have tok: "c_strtok_all d s = (if x = [] then c_strtok_all d y else x # c_strtok_all d y)"
      using s x strtok_step strtok_delim by auto
    show ?thesis
    proof (cases "y = []")
      case True
      with s x tok show ?thesis by (simp add: split_count_step strtok_nil well_split_field)
    next
      case False
      have sc: "split_count s d = Suc (split_count y d)"
        using False s x by (simp add: split_count_step)
      from less [of y] s have "length (c_strtok_all d y) \<le> split_count y d \<and>
          (length (c_strtok_all d y) = split_count y d \<longrightarrow> well_split d y)" by simp
      with s x tok sc show ?thesis by (simp add: well_split_Cons)
    qed
  qed
qed

text \<open>\<open>util_str_split\<close> succeeds exactly on the strings made of non-empty fields separated by
  single delimiters, with at most one more delimiter at the end, and it returns the fields. On every
  other string (an empty one, a leading, double or second trailing delimiter) it dies.\<close>

theorem split_spec:
  "util_str_split s d = Inr ts \<longleftrightarrow>
    fields_ok d ts \<and> (s = join_with d ts \<or> s = join_with d ts @ [d])"
proof
  assume "util_str_split s d = Inr ts"
  then have len: "length (c_strtok_all d s) = split_count s d" and ts: "ts = c_strtok_all d s"
    by (auto simp: util_str_split_def Let_def split: if_splits)
  with split_count_bound [of d s] obtain us tail where
    us: "fields_ok d us" "tail \<in> {[], [d]}" "s = join_with d us @ tail"
    unfolding well_split_def by blast
  with split_join [OF us(1,2)] ts have "ts = us" by simp
  with us show "fields_ok d ts \<and> (s = join_with d ts \<or> s = join_with d ts @ [d])" by auto
next
  assume "fields_ok d ts \<and> (s = join_with d ts \<or> s = join_with d ts @ [d])"
  then obtain tail where "fields_ok d ts" "tail \<in> {[], [d]}" "s = join_with d ts @ tail" by auto
  with split_join [of d ts tail] show "util_str_split s d = Inr ts"
    by (simp add: util_str_split_def)
qed

section \<open>Stripping\<close>

text \<open>\<open>util_str_strip\<close> removes white space at both ends and only there: the argument is the
  result between two runs of white space, and the result neither starts nor ends with white space.\<close>

theorem strip_spec:
  "\<exists>pre post. s = pre @ util_str_strip s @ post \<and> (\<forall>c \<in> set pre \<union> set post. c_isspace c) \<and>
    (util_str_strip s \<noteq> [] \<longrightarrow>
      \<not> c_isspace (hd (util_str_strip s)) \<and> \<not> c_isspace (last (util_str_strip s)))"
proof -
  define t where "t = rev (dropWhile c_isspace (rev s))"
  define r where "r = dropWhile c_isspace t"
  define post where "post = rev (takeWhile c_isspace (rev s))"
  have r: "util_str_strip s = r" by (simp add: util_str_strip_def r_def t_def)
  have s: "s = t @ post"
    unfolding t_def post_def
    by (metis rev_append rev_rev_ident takeWhile_dropWhile_id)
  have t: "t = takeWhile c_isspace t @ r" by (simp add: r_def)
  have "\<not> c_isspace (hd r)" if "r \<noteq> []" using that hd_dropWhile unfolding r_def by blast
  moreover have "\<not> c_isspace (last r)" if "r \<noteq> []"
  proof -
    have "last r = last t" using t that by (metis last_appendR)
    moreover have "t \<noteq> []" using that r_def by auto
    then have "\<not> c_isspace (last t)"
      using hd_dropWhile [of c_isspace "rev s"] by (auto simp: t_def last_rev)
    ultimately show ?thesis by simp
  qed
  moreover have "\<forall>c \<in> set (takeWhile c_isspace t) \<union> set post. c_isspace c"
    by (auto simp: post_def dest: set_takeWhileD)
  moreover have "s = takeWhile c_isspace t @ r @ post" using s t by (metis append.assoc)
  ultimately show ?thesis unfolding r by blast
qed

theorem strip_spec_witness:
  "util_str_strip '' V01 '' = ''V01'' \<and> (\<exists>pre post. '' V01 '' = pre @ ''V01'' @ post)"
proof -
  have e: "util_str_strip '' V01 '' = ''V01''" by (simp add: util_str_strip_def c_isspace_def)
  then show ?thesis using strip_spec [of "'' V01 ''"] unfolding e by blast
qed

section \<open>The static test data\<close>

text \<open>The value of \<^verbatim>\<open>xor_count\<close> when the loop reaches index \<open>i\<close>.\<close>

definition xor_count_at :: "bool \<Rightarrow> nat \<Rightarrow> nat" where
  "xor_count_at inc i = (if inc then i mod 128 - 96 else 0)"

definition static_spec :: "bool \<Rightarrow> bool \<Rightarrow> nat \<Rightarrow> u64" where
  "static_spec inc clr i =
     (if inc \<and> 96 \<le> i mod 128
      then (if 112 \<le> i mod 128 \<and> clr then 0 else xor_data ! (i mod 16))
      else static_data ! (i mod 16))"

lemma static_word_step:
  "static_word inc clr i (xor_count_at inc i) =
     (static_spec inc clr i, xor_count_at inc (Suc i))"
proof -
  define m where "m = i mod 128"
  have m: "m < 128" by (simp add: m_def)
  have "(i + 32) mod 128 = (m + 32) mod 128" by (simp add: m_def mod_add_left_eq)
  also have "\<dots> = (if m < 96 then m + 32 else m - 96)" using m by (simp add: le_mod_geq)
  finally have a: "(i + 32) mod 128 = 0 \<longleftrightarrow> m = 96" by auto
  have b: "Suc i mod 128 = (if m = 127 then 0 else Suc m)"
    by (simp add: mod_Suc m_def)
  from m consider "m < 96" | "m = 96" | "96 < m" "m < 112" | "112 \<le> m" "m < 127" | "m = 127"
    by linarith
  then show ?thesis
    unfolding static_word_def static_spec_def xor_count_at_def a b m_def [symmetric]
    by cases (simp_all, auto)
qed

lemma static_loop_spec:
  "static_loop inc clr i (xor_count_at inc i) n = map (static_spec inc clr) [i..<i + n]"
proof (induction n arbitrary: i)
  case 0
  then show ?case by simp
next
  case (Suc n)
  have "[i..<i + Suc n] = i # [Suc i..<Suc i + n]" by (subst upt_rec) simp
  with Suc [of "Suc i"] show ?case by (simp add: static_word_step del: upt_Suc)
qed

text \<open>The static test data in closed form: within every burst of 128 words the first 96 come
  from the static table, the next 16 from the xor table, and the last 16 from the xor table or are
  zero when the results are cleared. Without xor data the static table repeats every 16 words.\<close>

theorem static_data_layout:
  "util_get_static_data num_bytes inc clr = map (static_spec inc clr) [0..<num_bytes div 8]"
proof -
  have "xor_count_at inc 0 = 0" by (simp add: xor_count_at_def)
  with static_loop_spec [of inc clr 0 "num_bytes div 8"] show ?thesis
    by (simp add: util_get_static_data_def)
qed

end
