(* ===== verification/Profile.thy ===== *)
theory Profile
  imports Util
begin

text \<open>
  profile.c: the pins of a mezzanine board. A profile is the array of the board's pins; the
  operations copy pins, look them up by tag, id or name, order the data pins, and tell which
  artix units a set of pins belongs to. NULL strings and array slots are \<open>None\<close>.
\<close>

section \<open>Data\<close>

definition PROFILE_NUM_DATA_PINS :: nat where "PROFILE_NUM_DATA_PINS = 32"
definition PROFILE_MAX_PINS :: nat where "PROFILE_MAX_PINS = 400"

datatype artix_selects = ARTIX_SELECT_NONE | ARTIX_SELECT_A1 | ARTIX_SELECT_A2 | ARTIX_SELECT_BOTH

datatype profile_tags =
    PROFILE_TAG_NONE | PROFILE_TAG_CCLK | PROFILE_TAG_RESET_B | PROFILE_TAG_CSI_B
  | PROFILE_TAG_RDWR_B | PROFILE_TAG_PROGRAM_B | PROFILE_TAG_INIT_B | PROFILE_TAG_DONE
  | PROFILE_TAG_DATA | PROFILE_TAG_GPIO

record profile_pin =
  pin_name :: "string option"
  comp_name :: "string option"
  net_name :: "string option"
  net_alias :: "string option"
  tag :: profile_tags
  tag_data :: int
  dut_io_id :: int
  num_dests :: nat
  dest_dut_ids :: "nat list"
  dest_pin_names :: "string option list"

text \<open>\<open>prof_pins\<close> holds the first \<^verbatim>\<open>num_pins\<close> slots of the array of 400; the rest are NULL.\<close>

record profile =
  prof_path :: "string option"
  board_name :: "string option"
  description :: "string option"
  revision :: nat
  prof_pins :: "profile_pin list"
  num_duts :: nat

section \<open>Creating and copying\<close>

definition create_profile_pin :: "nat \<Rightarrow> profile_pin" where
  "create_profile_pin n =
     \<lparr>pin_name = None, comp_name = None, net_name = None, net_alias = None,
      tag = PROFILE_TAG_NONE, tag_data = -1, dut_io_id = -1, num_dests = n,
      dest_dut_ids = replicate n 0, dest_pin_names = replicate n None\<rparr>"

text \<open>\<^verbatim>\<open>strdup\<close> dereferences its argument.\<close>

definition strdupR :: "string option \<Rightarrow> string option res" where
  "strdupR s = bindR (derefR s) (\<lambda>t. Inr (Some t))"

definition copy_dest :: "profile_pin \<Rightarrow> nat \<Rightarrow> profile_pin \<Rightarrow> profile_pin res" where
  "copy_dest copy_pin i p =
     bindR (nthR (dest_dut_ids copy_pin) i) (\<lambda>d.
     bindR (updR (dest_dut_ids p) i d) (\<lambda>ds.
     bindR (nthR (dest_pin_names copy_pin) i) (\<lambda>n.
     bindR (strdupR n) (\<lambda>n.
     bindR (updR (dest_pin_names p) i n) (\<lambda>ns.
     Inr (p\<lparr>dest_dut_ids := ds, dest_pin_names := ns\<rparr>))))))"

definition create_profile_pin_from_pin :: "profile_pin \<Rightarrow> profile_pin res" where
  "create_profile_pin_from_pin copy_pin =
     (let p = create_profile_pin (num_dests copy_pin) in
      bindR (strdupR (pin_name copy_pin)) (\<lambda>a.
      bindR (strdupR (comp_name copy_pin)) (\<lambda>b.
      bindR (strdupR (net_name copy_pin)) (\<lambda>c.
      bindR (strdupR (net_alias copy_pin)) (\<lambda>d.
      foldR (copy_dest copy_pin) [0..<num_dests copy_pin]
        (p\<lparr>pin_name := a, comp_name := b, net_name := c, net_alias := d,
           tag := tag copy_pin, tag_data := tag_data copy_pin,
           dut_io_id := dut_io_id copy_pin, num_dests := num_dests copy_pin\<rparr>))))))"

definition create_profile :: profile where
  "create_profile =
     \<lparr>prof_path = None, board_name = None, description = None, revision = 0,
      prof_pins = [], num_duts = 0\<rparr>"

section \<open>Tags\<close>

definition get_tag_by_name :: "string \<Rightarrow> profile_tags" where
  "get_tag_by_name name =
     (if name = ''NONE'' then PROFILE_TAG_NONE
      else if name = ''CCLK'' then PROFILE_TAG_CCLK
      else if name = ''RESET_B'' then PROFILE_TAG_RESET_B
      else if name = ''CSI_B'' then PROFILE_TAG_CSI_B
      else if name = ''RDWR_B'' then PROFILE_TAG_RDWR_B
      else if name = ''PROGRAM_B'' then PROFILE_TAG_PROGRAM_B
      else if name = ''INIT_B'' then PROFILE_TAG_INIT_B
      else if name = ''DONE'' then PROFILE_TAG_DONE
      else if name = ''DATA'' then PROFILE_TAG_DATA
      else if name = ''GPIO'' then PROFILE_TAG_GPIO
      else PROFILE_TAG_NONE)"

fun get_name_by_tag :: "profile_tags \<Rightarrow> string" where
  "get_name_by_tag PROFILE_TAG_NONE = ''NONE''"
| "get_name_by_tag PROFILE_TAG_CCLK = ''CCLK''"
| "get_name_by_tag PROFILE_TAG_RESET_B = ''RESET_B''"
| "get_name_by_tag PROFILE_TAG_CSI_B = ''CSI_B''"
| "get_name_by_tag PROFILE_TAG_RDWR_B = ''RDWR_B''"
| "get_name_by_tag PROFILE_TAG_PROGRAM_B = ''PROGRAM_B''"
| "get_name_by_tag PROFILE_TAG_INIT_B = ''INIT_B''"
| "get_name_by_tag PROFILE_TAG_DONE = ''DONE''"
| "get_name_by_tag PROFILE_TAG_DATA = ''DATA''"
| "get_name_by_tag PROFILE_TAG_GPIO = ''GPIO''"

section \<open>Lookups\<close>

definition bad_dut_id :: "profile \<Rightarrow> int \<Rightarrow> bool" where
  "bad_dut_id profile dut_id \<longleftrightarrow>
     dut_id < -1 \<or> (dut_id \<ge> 0 \<and> dut_id + 1 > int (num_duts profile))"

text \<open>Whether one of the pin's destinations is on the given DUT.\<close>

definition has_dest_dut :: "int \<Rightarrow> profile_pin \<Rightarrow> bool res" where
  "has_dest_dut dut_id p =
     anyR (\<lambda>j. bindR (nthR (dest_dut_ids p) j) (\<lambda>d. Inr (d = u32_of_int dut_id)))
       [0..<num_dests p]"

definition tag_and_dut :: "int \<Rightarrow> profile_tags \<Rightarrow> profile_pin \<Rightarrow> bool res" where
  "tag_and_dut dut_id t p =
     (if tag p = t then (if dut_id \<ge> 0 then has_dest_dut dut_id p else Inr True) else Inr False)"

text \<open>The second pass: the count is checked for every pin with the tag, before the DUT is.\<close>

definition collect_by_tag ::
    "int \<Rightarrow> profile_tags \<Rightarrow> nat \<Rightarrow> profile_pin \<Rightarrow> profile_pin list \<Rightarrow> profile_pin list res" where
  "collect_by_tag dut_id t found_num_pins p pins =
     (if tag p = t then
        (if length pins + 1 > found_num_pins then Inl Bad_count
         else bindR (if dut_id \<ge> 0 then has_dest_dut dut_id p else Inr True) (\<lambda>found.
                if found then bindR (create_profile_pin_from_pin p) (\<lambda>q. Inr (pins @ [q]))
                else Inr pins))
      else Inr pins)"

text \<open>
  \<open>sort_profile_pins_by_tag_data\<close>: the check of every \<^verbatim>\<open>tag_data\<close>, then the two nested loops;
  slot \<open>i\<close> gets the last pin whose \<^verbatim>\<open>tag_data\<close> is \<open>i\<close>, or stays NULL.
\<close>

definition check_tag_data :: "nat \<Rightarrow> profile_pin \<Rightarrow> unit res" where
  "check_tag_data num_pins p =
     (if tag_data p < 0 then Inl Out_of_range
      else if u32_of_int (tag_data p) \<ge> num_pins then Inl Out_of_range
      else Inr ())"

fun last_with_tag_data :: "nat \<Rightarrow> profile_pin list \<Rightarrow> profile_pin option \<Rightarrow> profile_pin option" where
  "last_with_tag_data i [] acc = acc"
| "last_with_tag_data i (p # ps) acc =
     last_with_tag_data i ps (if tag_data p = int i then Some p else acc)"

definition sort_profile_pins_by_tag_data :: "profile_pin list \<Rightarrow> profile_pin option list res" where
  "sort_profile_pins_by_tag_data pins =
     (if length pins = 0 then Inr []
      else bindR (mapR (check_tag_data (length pins)) pins) (\<lambda>_.
        Inr (map (\<lambda>i. last_with_tag_data i pins None) [0..<length pins])))"

definition get_profile_pins_by_tag ::
    "profile \<Rightarrow> int \<Rightarrow> profile_tags \<Rightarrow> profile_pin option list res" where
  "get_profile_pins_by_tag profile dut_id t =
     (if bad_dut_id profile dut_id then Inl Out_of_range
      else
        bindR (filterR (tag_and_dut dut_id t) (prof_pins profile)) (\<lambda>matching.
        let found_num_pins = length matching in
        bindR (foldR (collect_by_tag dut_id t found_num_pins) (prof_pins profile) []) (\<lambda>pins.
          case t of
            PROFILE_TAG_NONE \<Rightarrow> Inr (map Some pins)
          | PROFILE_TAG_GPIO \<Rightarrow> Inr (map Some pins)
          | PROFILE_TAG_DATA \<Rightarrow>
              (if found_num_pins \<noteq> 32 then Inl Bad_count
               else sort_profile_pins_by_tag_data pins)
          | _ \<Rightarrow> (if found_num_pins \<noteq> 1 then Inl Bad_count else Inr (map Some pins)))))"

text \<open>The loop shared by the lookups of one pin: the first match is copied, a second one is an error.\<close>

fun find_one :: "('c \<Rightarrow> bool res) \<Rightarrow> ('c \<Rightarrow> profile_pin) \<Rightarrow> 'c list \<Rightarrow> profile_pin option
    \<Rightarrow> profile_pin option res" where
  "find_one test pin [] found_pin = Inr found_pin"
| "find_one test pin (c # cs) found_pin =
     bindR (test c) (\<lambda>b.
       if b then (case found_pin of
           Some _ \<Rightarrow> Inl Ambiguous
         | None \<Rightarrow> bindR (create_profile_pin_from_pin (pin c)) (\<lambda>q. find_one test pin cs (Some q)))
       else find_one test pin cs found_pin)"

definition strcmp_eqR :: "string option \<Rightarrow> string \<Rightarrow> bool res" where
  "strcmp_eqR s t = bindR (derefR s) (\<lambda>s. Inr (s = t))"

definition get_profile_pin_by_dut_io_id :: "profile \<Rightarrow> nat \<Rightarrow> profile_pin option res" where
  "get_profile_pin_by_dut_io_id profile io_id =
     find_one (\<lambda>p. Inr (u32_of_int (dut_io_id p) = io_id)) (\<lambda>p. p) (prof_pins profile) None"

definition get_profile_pin_by_pin_name :: "profile \<Rightarrow> string \<Rightarrow> profile_pin option res" where
  "get_profile_pin_by_pin_name profile name =
     find_one (\<lambda>p. strcmp_eqR (pin_name p) name) (\<lambda>p. p) (prof_pins profile) None"

definition dest_matches :: "int \<Rightarrow> string \<Rightarrow> profile_pin \<times> nat \<Rightarrow> bool res" where
  "dest_matches dut_id name = (\<lambda>(p, j).
     bindR (if dut_id \<ge> 0 then bindR (nthR (dest_dut_ids p) j) (\<lambda>d. Inr (d \<noteq> u32_of_int dut_id))
            else Inr False) (\<lambda>skip.
       if skip then Inr False
       else bindR (nthR (dest_pin_names p) j) (\<lambda>n. strcmp_eqR n name)))"

definition get_profile_pin_by_dest_pin_name ::
    "profile \<Rightarrow> int \<Rightarrow> string \<Rightarrow> profile_pin option res" where
  "get_profile_pin_by_dest_pin_name profile dut_id dest_pin_name =
     (if bad_dut_id profile dut_id then Inl Out_of_range
      else find_one (dest_matches dut_id dest_pin_name) fst
        (concat (map (\<lambda>p. map (\<lambda>j. (p, j)) [0..<num_dests p]) (prof_pins profile))) None)"

definition get_profile_pin_by_net_name :: "profile \<Rightarrow> string \<Rightarrow> profile_pin option res" where
  "get_profile_pin_by_net_name profile name =
     find_one (\<lambda>p. strcmp_eqR (net_name p) name) (\<lambda>p. p) (prof_pins profile) None"

definition alias_matches :: "int \<Rightarrow> string \<Rightarrow> profile_pin \<Rightarrow> bool res" where
  "alias_matches dut_id name p =
     (if dut_id \<ge> 0 \<and> dut_io_id p \<noteq> dut_id then Inr False
      else strcmp_eqR (net_alias p) name)"

definition get_profile_pin_by_net_alias ::
    "profile \<Rightarrow> int \<Rightarrow> string \<Rightarrow> profile_pin option res" where
  "get_profile_pin_by_net_alias profile dut_id name =
     (if bad_dut_id profile dut_id then Inl Out_of_range
      else find_one (alias_matches dut_id name) (\<lambda>p. p) (prof_pins profile) None)"

section \<open>Units\<close>

definition get_artix_select_by_profile_pin :: "profile_pin \<Rightarrow> artix_selects res" where
  "get_artix_select_by_profile_pin pin =
     (if dut_io_id pin = -1 then Inr ARTIX_SELECT_NONE
      else if dut_io_id pin \<ge> 0 \<and> dut_io_id pin < 200 then Inr ARTIX_SELECT_A1
      else if dut_io_id pin \<ge> 200 \<and> dut_io_id pin < 400 then Inr ARTIX_SELECT_A2
      else Inl Out_of_range)"

fun artix_select_loop :: "profile_pin list \<Rightarrow> artix_selects \<Rightarrow> artix_selects res" where
  "artix_select_loop [] artix_select = Inr artix_select"
| "artix_select_loop (p # ps) artix_select =
     bindR (get_artix_select_by_profile_pin p) (\<lambda>s.
       if s = ARTIX_SELECT_A1 then
         (if artix_select = ARTIX_SELECT_A2 then Inr ARTIX_SELECT_BOTH
          else artix_select_loop ps ARTIX_SELECT_A1)
       else if s = ARTIX_SELECT_A2 then
         (if artix_select = ARTIX_SELECT_A1 then Inr ARTIX_SELECT_BOTH
          else artix_select_loop ps ARTIX_SELECT_A2)
       else artix_select_loop ps artix_select)"

definition get_artix_select_by_profile_pins :: "profile_pin list \<Rightarrow> artix_selects res" where
  "get_artix_select_by_profile_pins pins = artix_select_loop pins ARTIX_SELECT_NONE"

section \<open>Copies\<close>

text \<open>A pin whose strings are set and whose destination arrays have the announced length.\<close>

definition pin_wf :: "profile_pin \<Rightarrow> bool" where
  "pin_wf p \<longleftrightarrow> pin_name p \<noteq> None \<and> comp_name p \<noteq> None \<and> net_name p \<noteq> None \<and>
     net_alias p \<noteq> None \<and> length (dest_dut_ids p) = num_dests p \<and>
     length (dest_pin_names p) = num_dests p \<and> None \<notin> set (dest_pin_names p)"

lemma strdupR_Inr_iff [simp]: "strdupR s = Inr t \<longleftrightarrow> t = s \<and> s \<noteq> None"
  by (cases s) (auto simp: strdupR_def)

lemma take_Suc_update:
  "k < length xs \<Longrightarrow> length ys = length xs \<Longrightarrow>
    (take k xs @ drop k ys)[k := xs ! k] = take (Suc k) xs @ drop (Suc k) ys"
  by (simp add: take_Suc_conv_app_nth list_update_append flip: Cons_nth_drop_Suc)

lemma copy_dest_step:
  assumes "k < length (dest_dut_ids c)" and "k < length (dest_pin_names c)"
    and "dest_pin_names c ! k = Some n"
    and "k < length (dest_dut_ids q)" and "k < length (dest_pin_names q)"
  shows "copy_dest c k q =
    Inr (q\<lparr>dest_dut_ids := (dest_dut_ids q)[k := dest_dut_ids c ! k],
           dest_pin_names := (dest_pin_names q)[k := dest_pin_names c ! k]\<rparr>)"
  using assms by (simp add: copy_dest_def nthR_def updR_def strdupR_def)

lemma copy_dests:
  assumes "k \<le> num_dests c" and "pin_wf c"
    and "length (dest_dut_ids q) = num_dests c" and "length (dest_pin_names q) = num_dests c"
  shows "foldR (copy_dest c) [0..<k] q =
    Inr (q\<lparr>dest_dut_ids := take k (dest_dut_ids c) @ drop k (dest_dut_ids q),
           dest_pin_names := take k (dest_pin_names c) @ drop k (dest_pin_names q)\<rparr>)"
  using assms(1)
proof (induction k)
  case 0
  then show ?case by simp
next
  case (Suc k)
  then have k: "k < num_dests c" by simp
  from k assms have len: "k < length (dest_dut_ids c)" "k < length (dest_pin_names c)"
    "length (dest_dut_ids q) = length (dest_dut_ids c)"
    "length (dest_pin_names q) = length (dest_pin_names c)" by (auto simp: pin_wf_def)
  have "dest_pin_names c ! k \<in> set (dest_pin_names c)" using len(2) by simp
  then obtain n where n: "dest_pin_names c ! k = Some n"
    using assms(2) unfolding pin_wf_def by (metis not_None_eq)
  show ?case
    using Suc.IH k len copy_dest_step [OF len(1,2) n]
    by (simp add: foldR_append take_Suc_update)
qed

lemma copy_pin_wf: "pin_wf p \<Longrightarrow> create_profile_pin_from_pin p = Inr p"
proof -
  assume wf: "pin_wf p"
  then obtain a b c d where s: "pin_name p = Some a" "comp_name p = Some b"
    "net_name p = Some c" "net_alias p = Some d" by (auto simp: pin_wf_def)
  from wf have len: "length (dest_dut_ids p) = num_dests p"
    "length (dest_pin_names p) = num_dests p" by (auto simp: pin_wf_def)
  show ?thesis
    unfolding create_profile_pin_from_pin_def Let_def s strdupR_def
    using copy_dests [OF order_refl wf] len s by (simp add: create_profile_pin_def)
qed

lemma copy_dest_defined:
  assumes "copy_dest c k q = Inr q'"
  shows "k < length (dest_dut_ids c)" and "k < length (dest_pin_names c)"
    and "dest_pin_names c ! k \<noteq> None"
    and "length (dest_dut_ids q') = length (dest_dut_ids q)"
    and "length (dest_pin_names q') = length (dest_pin_names q)"
  using assms by (auto simp: copy_dest_def bindR_Inr_iff)

lemma copy_dests_defined:
  "foldR (copy_dest c) ks q = Inr q' \<Longrightarrow>
    (\<forall>k\<in>set ks. dest_pin_names c ! k \<noteq> None) \<and>
    length (dest_dut_ids q') = length (dest_dut_ids q) \<and>
    length (dest_pin_names q') = length (dest_pin_names q)"
  by (induction ks arbitrary: q) (auto simp: bindR_Inr_iff dest: copy_dest_defined)

lemma copy_pin_only_wf:
  assumes "create_profile_pin_from_pin p = Inr p"
  shows "pin_wf p"
proof -
  from assms obtain q where q: "foldR (copy_dest p) [0..<num_dests p] q = Inr p"
    "length (dest_dut_ids q) = num_dests p" "length (dest_pin_names q) = num_dests p"
    and s: "pin_name p \<noteq> None" "comp_name p \<noteq> None" "net_name p \<noteq> None" "net_alias p \<noteq> None"
    unfolding create_profile_pin_from_pin_def Let_def bindR_Inr_iff
    by (auto simp: create_profile_pin_def)
  from copy_dests_defined [OF q(1)] q(2,3) show ?thesis
    using s unfolding pin_wf_def by (auto simp: in_set_conv_nth)
qed

text \<open>Copying a pin yields an equal pin exactly when its strings are set and its destination
  arrays have the announced length; no other pin is copied faithfully.\<close>

theorem copy_pin_faithful: "create_profile_pin_from_pin p = Inr p \<longleftrightarrow> pin_wf p"
  using copy_pin_wf copy_pin_only_wf by blast

section \<open>Sorting the data pins\<close>

lemma last_with_tag_data_append:
  "last_with_tag_data i (ps @ [p]) acc =
    (if tag_data p = int i then Some p else last_with_tag_data i ps acc)"
  by (induction ps arbitrary: acc) auto

lemma last_with_tag_data_None:
  "last_with_tag_data i ps None = None \<longleftrightarrow> int i \<notin> tag_data ` set ps"
  by (induction ps rule: rev_induct) (auto simp: last_with_tag_data_append)

lemma last_with_tag_data_SomeD:
  "last_with_tag_data i ps None = Some p \<Longrightarrow> p \<in> set ps \<and> tag_data p = int i"
  by (induction ps rule: rev_induct) (auto simp: last_with_tag_data_append split: if_splits)

lemma check_tag_data_iff:
  "n < 2 ^ 32 \<Longrightarrow> check_tag_data n p = Inr () \<longleftrightarrow> 0 \<le> tag_data p \<and> u32_of_int (tag_data p) < n"
  by (auto simp: check_tag_data_def)

lemma sort_checks:
  "sort_profile_pins_by_tag_data pins = Inr qs \<Longrightarrow> pins \<noteq> [] \<Longrightarrow>
    qs = map (\<lambda>i. last_with_tag_data i pins None) [0..<length pins]"
  by (auto simp: sort_profile_pins_by_tag_data_def bindR_Inr_iff)

text \<open>The tag data of a set of pins is a permutation of the slots.\<close>

definition tag_data_perm :: "profile_pin list \<Rightarrow> bool" where
  "tag_data_perm pins \<longleftrightarrow> distinct (map tag_data pins) \<and>
     (\<forall>p\<in>set pins. 0 \<le> tag_data p \<and> tag_data p < int (length pins))"

lemma tag_data_perm_range:
  assumes "tag_data_perm pins"
  shows "tag_data ` set pins = int ` {0..<length pins}"
proof (rule card_subset_eq)
  show "tag_data ` set pins \<subseteq> int ` {0..<length pins}"
    using assms by (auto simp: tag_data_perm_def image_int_atLeastLessThan)
  have "card (tag_data ` set pins) = length pins"
    using assms distinct_card [of "map tag_data pins"] by (simp add: tag_data_perm_def)
  then show "card (tag_data ` set pins) = card (int ` {0..<length pins})"
    by (simp add: card_image)
qed simp

lemma sort_total:
  assumes "tag_data_perm pins" and "length pins < 2 ^ 32"
  shows "sort_profile_pins_by_tag_data pins =
    Inr (map (\<lambda>i. last_with_tag_data i pins None) [0..<length pins])"
proof -
  have "mapR (check_tag_data (length pins)) pins = Inr (map (\<lambda>_. ()) pins)"
  proof (rule mapR_all)
    fix p assume "p \<in> set pins"
    with assms have "0 \<le> tag_data p" "tag_data p < int (length pins)"
      by (auto simp: tag_data_perm_def)
    with assms(2) show "check_tag_data (length pins) p = Inr ()"
      by (simp add: check_tag_data_def)
  qed
  then show ?thesis by (simp add: sort_profile_pins_by_tag_data_def)
qed

lemma slots_perm:
  assumes "tag_data_perm pins"
  shows "map (\<lambda>i. last_with_tag_data i pins None) [0..<length pins] =
    map Some (map (\<lambda>i. the (last_with_tag_data i pins None)) [0..<length pins])"
  using tag_data_perm_range [OF assms] by (auto simp: last_with_tag_data_None)

lemma sort_total_some:
  assumes "tag_data_perm pins" and "length pins < 2 ^ 32"
  shows "\<exists>qs. sort_profile_pins_by_tag_data pins = Inr (map Some qs) \<and> length qs = length pins"
  unfolding sort_total [OF assms] slots_perm [OF assms(1)]
  by (intro exI conjI) (rule refl, simp)

text \<open>When the tag data of the pins are the slot numbers in some order, the sorted array has
  no NULL slot, holds exactly the given pins, and holds at slot i the pin with tag data i.\<close>

theorem sort_by_tag_data_permutes:
  assumes "tag_data_perm pins" and "length pins < 2 ^ 32"
  shows "\<exists>qs. sort_profile_pins_by_tag_data pins = Inr (map Some qs) \<and> mset qs = mset pins \<and>
    map tag_data qs = map int [0..<length pins]"
proof -
  define qs where "qs = map (\<lambda>i. the (last_with_tag_data i pins None)) [0..<length pins]"
  have slot: "the (last_with_tag_data i pins None) \<in> set pins \<and>
      tag_data (the (last_with_tag_data i pins None)) = int i" if "i < length pins" for i
  proof -
    have "int i \<in> tag_data ` set pins" using tag_data_perm_range [OF assms(1)] that by auto
    then obtain p where "last_with_tag_data i pins None = Some p"
      using last_with_tag_data_None [of i pins] by fastforce
    then show ?thesis using last_with_tag_data_SomeD by fastforce
  qed
  have tags: "map tag_data qs = map int [0..<length pins]"
    using slot by (auto simp: qs_def)
  then have "distinct (map tag_data qs)" by (simp add: distinct_map)
  then have "distinct qs" by (simp add: distinct_map)
  moreover have "distinct pins" using assms(1) by (auto simp: tag_data_perm_def distinct_map)
  moreover have "set qs \<subseteq> set pins" using slot by (auto simp: qs_def)
  moreover have "length qs = length pins" by (simp add: qs_def)
  ultimately have "mset qs = mset pins"
    by (metis card_subset_eq distinct_card set_eq_iff_mset_eq_distinct finite_set)
  with tags sort_total [OF assms] slots_perm [OF assms(1)] show ?thesis
    unfolding qs_def by metis
qed

definition data_pin :: "int \<Rightarrow> profile_pin" where
  "data_pin i = (create_profile_pin 0)\<lparr>pin_name := Some ''p'', comp_name := Some ''c'',
     net_name := Some ''n'', net_alias := Some ''a'', tag := PROFILE_TAG_DATA, tag_data := i,
     dut_io_id := i\<rparr>"

lemma sort_by_tag_data_permutes_witness:
  "\<exists>qs. sort_profile_pins_by_tag_data [data_pin 2, data_pin 0, data_pin 1] = Inr (map Some qs) \<and>
    mset qs = mset [data_pin 2, data_pin 0, data_pin 1] \<and>
    map tag_data qs = map int [0..<length [data_pin 2, data_pin 0, data_pin 1]]"
  by (rule sort_by_tag_data_permutes)
    (simp_all add: tag_data_perm_def data_pin_def create_profile_pin_def)

text \<open>Whenever the sort returns, slot i is NULL exactly when no pin has tag data i, a slot
  that is set holds one of the pins with that tag data, and some slot is NULL exactly when two
  pins have the same tag data: the checks made before sorting do not exclude that.\<close>

theorem sort_by_tag_data_slots:
  assumes "sort_profile_pins_by_tag_data pins = Inr qs"
    and "\<forall>p\<in>set pins. tag_data p < 2 ^ 31" and "length pins < 2 ^ 31"
  shows "length qs = length pins \<and>
    (\<forall>i<length pins. (qs ! i = None \<longleftrightarrow> int i \<notin> tag_data ` set pins) \<and>
       (\<forall>p. qs ! i = Some p \<longrightarrow> p \<in> set pins \<and> tag_data p = int i)) \<and>
    (None \<in> set qs \<longleftrightarrow> \<not> distinct (map tag_data pins))"
proof (cases "pins = []")
  case True
  with assms(1) show ?thesis by (simp add: sort_profile_pins_by_tag_data_def)
next
  case False
  note qs = sort_checks [OF assms(1) False]
  from assms(1) False obtain us where us: "mapR (check_tag_data (length pins)) pins = Inr us"
    by (auto simp: sort_profile_pins_by_tag_data_def bindR_Inr_iff)
  have range: "0 \<le> tag_data p \<and> tag_data p < int (length pins)" if "p \<in> set pins" for p
  proof -
    from us that have "\<exists>u. check_tag_data (length pins) p = Inr u"
      unfolding mapR_Inr_iff list_all2_conv_all_nth in_set_conv_nth by blast
    with assms that show ?thesis by (fastforce simp: check_tag_data_def split: if_splits)
  qed
  have "None \<in> set qs \<longleftrightarrow> \<not> distinct (map tag_data pins)"
  proof
    assume "None \<in> set qs"
    then have "\<exists>i<length pins. last_with_tag_data i pins None = None" by (force simp: qs)
    then obtain i where i: "i < length pins" "int i \<notin> tag_data ` set pins"
      by (auto simp: last_with_tag_data_None)
    show "\<not> distinct (map tag_data pins)"
      using tag_data_perm_range [of pins] range i by (auto simp: tag_data_perm_def)
  next
    assume dup: "\<not> distinct (map tag_data pins)"
    have "tag_data ` set pins \<noteq> int ` {0..<length pins}"
      using dup card_distinct [of "map tag_data pins"] by (auto simp: card_image)
    moreover have "tag_data ` set pins \<subseteq> int ` {0..<length pins}"
      using range by (auto simp: image_int_atLeastLessThan)
    ultimately obtain j where "j \<in> int ` {0..<length pins}" "j \<notin> tag_data ` set pins" by blast
    then obtain i where "i < length pins" "int i \<notin> tag_data ` set pins"
      by (metis atLeastLessThan_iff imageE)
    then have "i < length pins \<and> last_with_tag_data i pins None = None"
      by (simp add: last_with_tag_data_None)
    then have "None \<in> (\<lambda>i. last_with_tag_data i pins None) ` {0..<length pins}" by force
    then show "None \<in> set qs" by (simp add: qs)
  qed
  moreover have "\<forall>i<length pins. (qs ! i = None \<longleftrightarrow> int i \<notin> tag_data ` set pins) \<and>
       (\<forall>p. qs ! i = Some p \<longrightarrow> p \<in> set pins \<and> tag_data p = int i)"
    using last_with_tag_data_SomeD [of _ pins] by (simp add: qs last_with_tag_data_None)
  ultimately show ?thesis by (simp add: qs)
qed

lemma sort_by_tag_data_slots_witness:
  "sort_profile_pins_by_tag_data [data_pin 0, data_pin 0] = Inr [Some (data_pin 0), None] \<and>
    (None \<in> set [Some (data_pin 0), None] \<longleftrightarrow>
      \<not> distinct (map tag_data [data_pin 0, data_pin 0]))"
proof
  show sort: "sort_profile_pins_by_tag_data [data_pin 0, data_pin 0] = Inr [Some (data_pin 0), None]"
    by (simp add: sort_profile_pins_by_tag_data_def check_tag_data_def data_pin_def
        create_profile_pin_def)
  show "None \<in> set [Some (data_pin 0), None] \<longleftrightarrow>
      \<not> distinct (map tag_data [data_pin 0, data_pin 0])"
    by (rule sort_by_tag_data_slots [OF sort, THEN conjunct2, THEN conjunct2])
      (simp_all add: data_pin_def)
qed

section \<open>Lookups by tag\<close>

definition profile_wf :: "profile \<Rightarrow> bool" where
  "profile_wf profile \<longleftrightarrow> (\<forall>p\<in>set (prof_pins profile). pin_wf p)"

definition on_dut :: "int \<Rightarrow> profile_pin \<Rightarrow> bool" where
  "on_dut dut_id p \<longleftrightarrow> dut_id < 0 \<or> u32_of_int dut_id \<in> set (dest_dut_ids p)"

text \<open>The last pin with the tag decides whether the second pass runs past its count.\<close>

definition last_tagged_on_dut :: "int \<Rightarrow> profile_tags \<Rightarrow> profile_pin list \<Rightarrow> bool" where
  "last_tagged_on_dut dut_id t ps \<longleftrightarrow>
     (let qs = filter (\<lambda>p. tag p = t) ps in qs = [] \<or> on_dut dut_id (last qs))"

definition tagged :: "int \<Rightarrow> profile_tags \<Rightarrow> profile_pin list \<Rightarrow> profile_pin list" where
  "tagged dut_id t = filter (\<lambda>p. tag p = t \<and> on_dut dut_id p)"

lemma has_dest_dut_wf:
  "pin_wf p \<Longrightarrow> has_dest_dut d p = Inr (u32_of_int d \<in> set (dest_dut_ids p))"
  unfolding has_dest_dut_def
  by (subst anyR_pure [where q = "\<lambda>j. dest_dut_ids p ! j = u32_of_int d"])
    (auto simp: pin_wf_def nthR_def in_set_conv_nth Bex_def)

lemma dut_test_wf:
  "pin_wf p \<Longrightarrow> (if 0 \<le> d then has_dest_dut d p else Inr True) = Inr (on_dut d p)"
  by (simp add: has_dest_dut_wf on_dut_def)

lemma tag_and_dut_wf: "pin_wf p \<Longrightarrow> tag_and_dut d t p = Inr (tag p = t \<and> on_dut d p)"
  by (simp add: tag_and_dut_def dut_test_wf)

lemma last_tagged_Nil_tagged:
  "tagged d t ps = [] \<Longrightarrow> filter (\<lambda>p. tag p = t) ps \<noteq> [] \<Longrightarrow> \<not> last_tagged_on_dut d t ps"
  using last_in_set [of "filter (\<lambda>p. tag p = t) ps"]
  by (auto simp: tagged_def last_tagged_on_dut_def filter_empty_conv)

lemma last_tagged_Cons:
  "last_tagged_on_dut d t (p # ps) \<longleftrightarrow>
    (if tag p = t \<and> filter (\<lambda>p. tag p = t) ps = [] then on_dut d p
     else last_tagged_on_dut d t ps)"
  by (simp add: last_tagged_on_dut_def)

lemma collect_by_tag_loop:
  assumes "\<forall>p\<in>set ps. pin_wf p"
  shows "foldR (collect_by_tag d t (length acc + length (tagged d t ps))) ps acc =
    (if last_tagged_on_dut d t ps then Inr (acc @ tagged d t ps) else Inl Bad_count)"
  using assms
proof (induction ps arbitrary: acc)
  case Nil
  then show ?case by (simp add: last_tagged_on_dut_def tagged_def)
next
  case (Cons p ps)
  let ?n = "length acc + length (tagged d t (p # ps))"
  have wf: "pin_wf p" "\<forall>p\<in>set ps. pin_wf p" using Cons.prems by simp_all
  consider (other) "tag p \<noteq> t" | (here) "tag p = t" "on_dut d p"
    | (off) "tag p = t" "\<not> on_dut d p" by blast
  then show ?case
  proof cases
    case other
    then show ?thesis using Cons.IH [OF wf(2), of acc]
      by (simp add: collect_by_tag_def tagged_def last_tagged_Cons)
  next
    case here
    then have "last_tagged_on_dut d t (p # ps) = last_tagged_on_dut d t ps"
      by (auto simp: last_tagged_Cons last_tagged_on_dut_def)
    with here show ?thesis using Cons.IH [OF wf(2), of "acc @ [p]"]
      by (simp add: collect_by_tag_def tagged_def dut_test_wf [OF wf(1)] copy_pin_wf [OF wf(1)])
  next
    case off
    then have eq: "tagged d t (p # ps) = tagged d t ps" by (simp add: tagged_def)
    show ?thesis
    proof (cases "tagged d t ps = []")
      case True
      with eq off have "\<not> last_tagged_on_dut d t (p # ps)"
        by (intro last_tagged_Nil_tagged) auto
      with True eq off show ?thesis by (simp add: collect_by_tag_def)
    next
      case False
      then have "filter (\<lambda>p. tag p = t) ps \<noteq> []" by (auto simp: tagged_def filter_empty_conv)
      with False eq off show ?thesis using Cons.IH [OF wf(2), of acc]
        by (simp add: collect_by_tag_def dut_test_wf [OF wf(1)] last_tagged_Cons)
    qed
  qed
qed

lemma pins_by_tag:
  assumes "profile_wf profile" and "\<not> bad_dut_id profile dut_id"
  shows "get_profile_pins_by_tag profile dut_id t =
    (let pins = tagged dut_id t (prof_pins profile) in
     if \<not> last_tagged_on_dut dut_id t (prof_pins profile) then Inl Bad_count
     else if t = PROFILE_TAG_NONE \<or> t = PROFILE_TAG_GPIO then Inr (map Some pins)
     else if t = PROFILE_TAG_DATA then
       (if length pins = 32 then sort_profile_pins_by_tag_data pins else Inl Bad_count)
     else if length pins = 1 then Inr (map Some pins) else Inl Bad_count)"
proof -
  have wf: "\<forall>p\<in>set (prof_pins profile). pin_wf p" using assms(1) by (simp add: profile_wf_def)
  have "filterR (tag_and_dut dut_id t) (prof_pins profile) =
      Inr (tagged dut_id t (prof_pins profile))"
    unfolding tagged_def by (rule filterR_pure) (simp add: wf tag_and_dut_wf)
  then show ?thesis
    using assms(2) collect_by_tag_loop [OF wf, of dut_id t "[]"]
    unfolding get_profile_pins_by_tag_def by (cases t) (simp_all add: Let_def)
qed

text \<open>C30. The lookup by tag on a profile whose pins are complete (no name is NULL, as many destinations as
  \<^verbatim>\<open>num_dests\<close> says), for every DUT and tag. A DUT below -1 or not below the number of DUTs ends the
  process. The lookup succeeds only when the last pin with the tag is itself on the requested DUT: otherwise
  the second pass exceeds the count of the first and the process ends. When it succeeds it returns copies of
  the matching pins in profile order, the data pins sorted, and refuses any other number than 32 data pins
  or 1 pin of a configuration tag.\<close>

theorem get_pins_by_tag_spec:
  assumes "profile_wf profile"
  shows "get_profile_pins_by_tag profile dut_id t =
    (let pins = tagged dut_id t (prof_pins profile) in
     if dut_id < -1 \<or> int (num_duts profile) \<le> dut_id then Inl Out_of_range
     else if \<not> last_tagged_on_dut dut_id t (prof_pins profile) then Inl Bad_count
     else if t = PROFILE_TAG_NONE \<or> t = PROFILE_TAG_GPIO then Inr (map Some pins)
     else if t = PROFILE_TAG_DATA then
       (if length pins = 32 then sort_profile_pins_by_tag_data pins else Inl Bad_count)
     else if length pins = 1 then Inr (map Some pins) else Inl Bad_count)"
proof (cases "bad_dut_id profile dut_id")
  case True
  then show ?thesis by (auto simp: get_profile_pins_by_tag_def bad_dut_id_def Let_def)
next
  case False
  then show ?thesis unfolding pins_by_tag [OF assms False] by (auto simp: bad_dut_id_def Let_def)
qed

text \<open>A pin on DUT d, for the witnesses.\<close>

definition gpio_pin :: "nat \<Rightarrow> int \<Rightarrow> profile_pin" where
  "gpio_pin d io = (create_profile_pin 1)\<lparr>pin_name := Some ''p'', comp_name := Some ''c'',
     net_name := Some ''n'', net_alias := Some ''a'', tag := PROFILE_TAG_GPIO, tag_data := -1,
     dut_io_id := io, dest_dut_ids := [d], dest_pin_names := [Some ''D'']\<rparr>"

definition two_dut_profile :: profile where
  "two_dut_profile = create_profile\<lparr>prof_pins := [gpio_pin 0 3, gpio_pin 1 4], num_duts := 2\<rparr>"

lemmas sample_pin_defs = gpio_pin_def data_pin_def create_profile_pin_def two_dut_profile_def
  create_profile_def

lemma get_pins_by_tag_spec_witness:
  "get_profile_pins_by_tag two_dut_profile 0 PROFILE_TAG_GPIO = Inl Bad_count \<and>
   get_profile_pins_by_tag two_dut_profile 1 PROFILE_TAG_GPIO = Inr [Some (gpio_pin 1 4)] \<and>
   get_profile_pins_by_tag two_dut_profile (-1) PROFILE_TAG_GPIO =
     Inr [Some (gpio_pin 0 3), Some (gpio_pin 1 4)] \<and>
   get_profile_pins_by_tag two_dut_profile 2 PROFILE_TAG_GPIO = Inl Out_of_range"
proof -
  have wf: "profile_wf two_dut_profile"
    by (simp add: profile_wf_def pin_wf_def sample_pin_defs)
  show ?thesis
    unfolding get_pins_by_tag_spec [OF wf]
    by (simp add: tagged_def last_tagged_on_dut_def on_dut_def sample_pin_defs)
qed

text \<open>The lookup of the pins of one DUT ends the process although such pins exist, as soon as
  a pin with the tag that is not on the DUT follows the last one that is.\<close>

theorem get_pins_by_tag_dies_on_later_dut:
  assumes "profile_wf profile" and "\<not> bad_dut_id profile dut_id"
    and "prof_pins profile = xs @ p # ys" and "tag p = t" and "\<not> on_dut dut_id p"
    and "tagged dut_id t ys = []"
  shows "get_profile_pins_by_tag profile dut_id t = Inl Bad_count"
proof -
  have "tagged dut_id t (p # ys) = []" using assms(4-6) by (simp add: tagged_def)
  then have "\<not> last_tagged_on_dut dut_id t (p # ys)"
    using assms(4) by (intro last_tagged_Nil_tagged) auto
  then have "\<not> last_tagged_on_dut dut_id t (prof_pins profile)"
    using assms(4) by (auto simp: assms(3) last_tagged_on_dut_def)
  then show ?thesis by (simp add: pins_by_tag [OF assms(1,2)])
qed

text \<open>What a caller of the lookup relies on.\<close>

lemma pins_by_tag_result:
  assumes "profile_wf profile" and "get_profile_pins_by_tag profile d t = Inr ps"
  shows "\<forall>p. Some p \<in> set ps \<longrightarrow> pin_wf p \<and> tag p = t \<and> p \<in> set (prof_pins profile)"
proof -
  have ok: "\<not> bad_dut_id profile d"
    using assms(2) by (auto simp: get_profile_pins_by_tag_def)
  have sorted: "p \<in> set pins"
    if "sort_profile_pins_by_tag_data pins = Inr ps" "Some p \<in> set ps" for p pins
  proof (cases "pins = []")
    case True
    with that show ?thesis by (auto simp: sort_profile_pins_by_tag_data_def)
  next
    case False
    from sort_checks [OF that(1) False] that(2) show ?thesis
      by (metis (no_types, lifting) imageE last_with_tag_data_SomeD list.set_map)
  qed
  let ?pins = "tagged d t (prof_pins profile)"
  have "ps = map Some ?pins \<or> sort_profile_pins_by_tag_data ?pins = Inr ps"
    using assms(2) [unfolded pins_by_tag [OF assms(1) ok]] by (auto simp: Let_def split: if_splits)
  then have "p \<in> set ?pins" if "Some p \<in> set ps" for p
    using that sorted by auto
  then show ?thesis using assms(1) by (auto simp: tagged_def profile_wf_def)
qed

lemma pins_by_tag_count:
  assumes "profile_wf profile" and "get_profile_pins_by_tag profile d t = Inr ps"
    and "t \<noteq> PROFILE_TAG_NONE" and "t \<noteq> PROFILE_TAG_GPIO"
  shows "length ps = (if t = PROFILE_TAG_DATA then 32 else 1)"
proof -
  have ok: "\<not> bad_dut_id profile d"
    using assms(2) by (auto simp: get_profile_pins_by_tag_def)
  have "length ps = length pins" if "sort_profile_pins_by_tag_data pins = Inr ps" for pins
    using that by (auto simp: sort_profile_pins_by_tag_data_def bindR_Inr_iff split: if_splits)
  then show ?thesis
    using assms(2) [unfolded pins_by_tag [OF assms(1) ok]] assms(3,4)
    by (auto simp: Let_def split: if_splits)
qed

lemma data_pins_slot:
  assumes "profile_wf profile" and "get_profile_pins_by_tag profile d PROFILE_TAG_DATA = Inr ps"
    and "i < length ps" and "ps ! i = Some p"
  shows "tag_data p = int i"
proof -
  have ok: "\<not> bad_dut_id profile d"
    using assms(2) by (auto simp: get_profile_pins_by_tag_def)
  obtain pins where pins: "length pins = 32" "sort_profile_pins_by_tag_data pins = Inr ps"
    using assms(2) [unfolded pins_by_tag [OF assms(1) ok]]
    by (auto simp: Let_def split: if_splits)
  then have "pins \<noteq> []" by auto
  from sort_checks [OF pins(2) this] assms(3,4) show ?thesis
    by (auto dest: last_with_tag_data_SomeD)
qed

section \<open>Lookups of one pin\<close>

lemma find_one_found:
  assumes "\<And>c. c \<in> set cs \<Longrightarrow> test c = Inr (q c)" and "\<And>c. c \<in> set cs \<Longrightarrow> pin_wf (pin c)"
  shows "find_one test pin cs (Some p) =
    (if filter q cs = [] then Inr (Some p) else Inl Ambiguous)"
  using assms by (induction cs) (auto)

text \<open>What a lookup of one pin returns, given the candidates that match.\<close>

fun the_one :: "profile_pin list \<Rightarrow> profile_pin option res" where
  "the_one [] = Inr None"
| "the_one [p] = Inr (Some p)"
| "the_one (p # q # ps) = Inl Ambiguous"

lemma find_one_spec:
  assumes "\<And>c. c \<in> set cs \<Longrightarrow> test c = Inr (q c)" and "\<And>c. c \<in> set cs \<Longrightarrow> pin_wf (pin c)"
  shows "find_one test pin cs None = the_one (map pin (filter q cs))"
  using assms
proof (induction cs)
  case Nil
  then show ?case by simp
next
  case (Cons c cs)
  show ?case
  proof (cases "q c")
    case True
    have "find_one test pin cs (Some (pin c)) =
        (if filter q cs = [] then Inr (Some (pin c)) else Inl Ambiguous)"
      using Cons.prems by (intro find_one_found) auto
    with True Cons.prems show ?thesis
      by (cases "filter q cs") (auto simp: copy_pin_wf)
  next
    case False
    with Cons show ?thesis by simp
  qed
qed

lemma strcmp_eqR_Some: "s \<noteq> None \<Longrightarrow> strcmp_eqR s t = Inr (s = Some t)"
  by (auto simp: strcmp_eqR_def)

text \<open>On a profile of complete pins the lookups by id, pin name and net name return a copy of
  the only pin that matches, nothing when none does, and end the process when several do.\<close>

theorem get_pin_by_key_spec:
  assumes "profile_wf profile"
  shows "get_profile_pin_by_dut_io_id profile i =
      the_one (filter (\<lambda>p. u32_of_int (dut_io_id p) = i) (prof_pins profile)) \<and>
    get_profile_pin_by_pin_name profile name =
      the_one (filter (\<lambda>p. pin_name p = Some name) (prof_pins profile)) \<and>
    get_profile_pin_by_net_name profile name =
      the_one (filter (\<lambda>p. net_name p = Some name) (prof_pins profile))"
proof (intro conjI)
  have wf: "pin_wf p" if "p \<in> set (prof_pins profile)" for p
    using assms that by (simp add: profile_wf_def)
  note spec = find_one_spec [where pin = "\<lambda>p. p" and cs = "prof_pins profile", OF _ wf]
  show "get_profile_pin_by_dut_io_id profile i =
      the_one (filter (\<lambda>p. u32_of_int (dut_io_id p) = i) (prof_pins profile))"
    unfolding get_profile_pin_by_dut_io_id_def by (subst spec) auto
  show "get_profile_pin_by_pin_name profile name =
      the_one (filter (\<lambda>p. pin_name p = Some name) (prof_pins profile))"
    unfolding get_profile_pin_by_pin_name_def
    by (subst spec [where q = "\<lambda>p. pin_name p = Some name"])
      (use wf in \<open>auto simp: pin_wf_def intro!: strcmp_eqR_Some\<close>)
  show "get_profile_pin_by_net_name profile name =
      the_one (filter (\<lambda>p. net_name p = Some name) (prof_pins profile))"
    unfolding get_profile_pin_by_net_name_def
    by (subst spec [where q = "\<lambda>p. net_name p = Some name"])
      (use wf in \<open>auto simp: pin_wf_def intro!: strcmp_eqR_Some\<close>)
qed


lemma get_pins_by_tag_dies_on_later_dut_witness:
  "get_profile_pins_by_tag two_dut_profile 0 PROFILE_TAG_GPIO = Inl Bad_count"
  by (rule get_pins_by_tag_dies_on_later_dut [where xs = "[gpio_pin 0 3]" and p = "gpio_pin 1 4"
      and ys = "[]"])
    (simp_all add: profile_wf_def pin_wf_def bad_dut_id_def on_dut_def tagged_def sample_pin_defs)

lemma get_pin_by_key_spec_witness:
  "get_profile_pin_by_dut_io_id two_dut_profile 4 = Inr (Some (gpio_pin 1 4)) \<and>
   get_profile_pin_by_pin_name two_dut_profile ''p'' = Inl Ambiguous \<and>
   get_profile_pin_by_net_name two_dut_profile ''x'' = Inr None"
proof -
  have wf: "profile_wf two_dut_profile"
    by (simp add: profile_wf_def pin_wf_def sample_pin_defs)
  show ?thesis
    unfolding get_pin_by_key_spec [OF wf, of 4 "''p''", THEN conjunct1]
      get_pin_by_key_spec [OF wf, of 4 "''p''", THEN conjunct2, THEN conjunct1]
      get_pin_by_key_spec [OF wf, of 4 "''x''", THEN conjunct2, THEN conjunct2]
    by (simp add: sample_pin_defs)
qed

lemma dest_matches_wf:
  assumes "pin_wf p" and "j < num_dests p"
  shows "dest_matches d name (p, j) =
    Inr ((d < 0 \<or> dest_dut_ids p ! j = u32_of_int d) \<and> dest_pin_names p ! j = Some name)"
proof -
  have "dest_pin_names p ! j \<in> set (dest_pin_names p)"
    using assms by (intro nth_mem) (simp add: pin_wf_def)
  then have "dest_pin_names p ! j \<noteq> None" using assms(1) unfolding pin_wf_def by metis
  with assms show ?thesis
    by (auto simp: dest_matches_def nthR_def pin_wf_def strcmp_eqR_Some)
qed

text \<open>The destinations of a profile, in the order of the two nested loops.\<close>

definition dests :: "profile \<Rightarrow> (profile_pin \<times> nat) list" where
  "dests profile = concat (map (\<lambda>p. map (\<lambda>j. (p, j)) [0..<num_dests p]) (prof_pins profile))"

text \<open>The lookup by destination name returns a copy of the pin that has the only destination
  with this name, on the requested DUT when there is one, and ends the process when there are
  several, even if they belong to the same pin.\<close>

theorem get_pin_by_dest_name_spec:
  assumes "profile_wf profile" and "\<not> bad_dut_id profile dut_id"
  shows "get_profile_pin_by_dest_pin_name profile dut_id name =
    the_one (map fst (filter (\<lambda>(p, j). (dut_id < 0 \<or> dest_dut_ids p ! j = u32_of_int dut_id) \<and>
      dest_pin_names p ! j = Some name) (dests profile)))"
proof -
  have wf: "pin_wf (fst c) \<and> snd c < num_dests (fst c)" if "c \<in> set (dests profile)" for c
    using assms(1) that by (auto simp: dests_def profile_wf_def)
  show ?thesis
    using assms(2) unfolding get_profile_pin_by_dest_pin_name_def dests_def [symmetric]
    by (subst find_one_spec [where q = "\<lambda>(p, j).
        (dut_id < 0 \<or> dest_dut_ids p ! j = u32_of_int dut_id) \<and> dest_pin_names p ! j = Some name"])
      (use wf dest_matches_wf in fastforce)+
qed

lemma get_pin_by_dest_name_spec_witness:
  "get_profile_pin_by_dest_pin_name two_dut_profile 1 ''D'' = Inr (Some (gpio_pin 1 4)) \<and>
   get_profile_pin_by_dest_pin_name two_dut_profile (-1) ''D'' = Inl Ambiguous"
proof -
  have wf: "profile_wf two_dut_profile"
    by (simp add: profile_wf_def pin_wf_def sample_pin_defs)
  have ids: "\<not> bad_dut_id two_dut_profile 1" "\<not> bad_dut_id two_dut_profile (-1)"
    by (simp_all add: bad_dut_id_def two_dut_profile_def)
  show ?thesis
    unfolding get_pin_by_dest_name_spec [OF wf ids(1)] get_pin_by_dest_name_spec [OF wf ids(2)]
    by (simp add: dests_def sample_pin_defs)
qed

text \<open>The lookup by net alias on DUT d selects the pin whose I/O id, not whose destination
  DUT, is d.\<close>

theorem get_pin_by_net_alias_compares_io_id:
  assumes "profile_wf profile" and "\<not> bad_dut_id profile dut_id"
  shows "get_profile_pin_by_net_alias profile dut_id name =
    the_one (filter (\<lambda>p. (dut_id < 0 \<or> dut_io_id p = dut_id) \<and> net_alias p = Some name)
      (prof_pins profile))"
proof -
  have wf: "pin_wf p" if "p \<in> set (prof_pins profile)" for p
    using assms(1) that by (simp add: profile_wf_def)
  show ?thesis
    using assms(2) unfolding get_profile_pin_by_net_alias_def
    by (subst find_one_spec [where
          q = "\<lambda>p. (dut_id < 0 \<or> dut_io_id p = dut_id) \<and> net_alias p = Some name"])
      (use wf in \<open>auto simp: alias_matches_def pin_wf_def strcmp_eqR_Some\<close>)
qed

lemma get_pin_by_net_alias_compares_io_id_witness:
  "get_profile_pin_by_net_alias two_dut_profile 1 ''a'' = Inr None"
proof -
  have wf: "profile_wf two_dut_profile"
    by (simp add: profile_wf_def pin_wf_def sample_pin_defs)
  have id: "\<not> bad_dut_id two_dut_profile 1" by (simp add: bad_dut_id_def two_dut_profile_def)
  show ?thesis
    unfolding get_pin_by_net_alias_compares_io_id [OF wf id] by (simp add: sample_pin_defs)
qed

section \<open>Selecting units\<close>

text \<open>Unit selects are ordered by the units they contain.\<close>

fun sel_units :: "artix_selects \<Rightarrow> nat set" where
  "sel_units ARTIX_SELECT_NONE = {}"
| "sel_units ARTIX_SELECT_A1 = {1}"
| "sel_units ARTIX_SELECT_A2 = {2}"
| "sel_units ARTIX_SELECT_BOTH = {1, 2}"

instantiation artix_selects :: bounded_semilattice_sup_bot
begin

definition less_eq_artix_selects :: "artix_selects \<Rightarrow> artix_selects \<Rightarrow> bool" where
  "less_eq_artix_selects a b \<longleftrightarrow> sel_units a \<subseteq> sel_units b"

definition less_artix_selects :: "artix_selects \<Rightarrow> artix_selects \<Rightarrow> bool" where
  "less_artix_selects a b \<longleftrightarrow> sel_units a \<subset> sel_units b"

definition sup_artix_selects :: "artix_selects \<Rightarrow> artix_selects \<Rightarrow> artix_selects" where
  "sup_artix_selects a b =
     (if a = ARTIX_SELECT_NONE \<or> a = b then b else if b = ARTIX_SELECT_NONE then a
      else ARTIX_SELECT_BOTH)"

definition bot_artix_selects :: artix_selects where
  "bot_artix_selects = ARTIX_SELECT_NONE"

instance
proof
  fix x y z :: artix_selects
  show "x < y \<longleftrightarrow> x \<le> y \<and> \<not> y \<le> x"
    by (auto simp: less_artix_selects_def less_eq_artix_selects_def)
  show "x \<le> x" by (simp add: less_eq_artix_selects_def)
  show "x \<le> z" if "x \<le> y" "y \<le> z" using that by (simp add: less_eq_artix_selects_def)
  show "x = y" if "x \<le> y" "y \<le> x"
    using that by (cases x; cases y) (simp_all add: less_eq_artix_selects_def)
  show "x \<le> sup x y" and "y \<le> sup x y"
    by (cases x; cases y; simp add: less_eq_artix_selects_def sup_artix_selects_def)+
  show "sup y z \<le> x" if "y \<le> x" "z \<le> x"
    using that by (cases x; cases y; cases z)
      (simp_all add: less_eq_artix_selects_def sup_artix_selects_def)
  show "bot \<le> x" by (simp add: less_eq_artix_selects_def bot_artix_selects_def)
qed

end

lemma sel_units_sup: "sel_units (sup a b) = sel_units a \<union> sel_units b"
  by (cases a; cases b) (auto simp: sup_artix_selects_def)

lemma sup_selects [simp]:
  "sup ARTIX_SELECT_BOTH a = ARTIX_SELECT_BOTH" "sup a ARTIX_SELECT_BOTH = ARTIX_SELECT_BOTH"
  "sup ARTIX_SELECT_NONE a = a" "sup a ARTIX_SELECT_NONE = a"
  "sup ARTIX_SELECT_A1 ARTIX_SELECT_A2 = ARTIX_SELECT_BOTH"
  "sup ARTIX_SELECT_A2 ARTIX_SELECT_A1 = ARTIX_SELECT_BOTH"
  by (cases a; simp add: sup_artix_selects_def)+

definition valid_io_id :: "profile_pin \<Rightarrow> bool" where
  "valid_io_id p \<longleftrightarrow> -1 \<le> dut_io_id p \<and> dut_io_id p < 400"

text \<open>The unit a pin with a valid id is wired to.\<close>

definition pin_unit :: "profile_pin \<Rightarrow> artix_selects" where
  "pin_unit p = (if dut_io_id p < 0 then bot else if dut_io_id p < 200 then ARTIX_SELECT_A1
     else ARTIX_SELECT_A2)"

lemma select_of_valid: "valid_io_id p \<Longrightarrow> get_artix_select_by_profile_pin p = Inr (pin_unit p)"
  by (auto simp: get_artix_select_by_profile_pin_def valid_io_id_def pin_unit_def
      bot_artix_selects_def)

lemma fold_sup_both: "fold sup as ARTIX_SELECT_BOTH = ARTIX_SELECT_BOTH"
  by (induction as) simp_all

lemma pin_unit_single: "pin_unit p \<noteq> ARTIX_SELECT_BOTH"
  by (simp add: pin_unit_def bot_artix_selects_def)

lemma artix_select_loop_fold:
  assumes "\<forall>p\<in>set ps. valid_io_id p" and "a \<noteq> ARTIX_SELECT_BOTH"
  shows "artix_select_loop ps a = Inr (fold sup (map pin_unit ps) a)"
  using assms
proof (induction ps arbitrary: a)
  case Nil
  then show ?case by simp
next
  case (Cons p ps)
  then show ?case
    by (cases a; cases "pin_unit p")
      (simp_all add: select_of_valid fold_sup_both pin_unit_single)
qed

text \<open>For pins with valid ids, the select of a set of pins is the join of the units of its
  pins: it names exactly the units that some pin is wired to. Leaving the loop at the first
  \<^verbatim>\<open>BOTH\<close> loses nothing.\<close>

theorem select_by_pins_is_join:
  assumes "\<forall>p\<in>set pins. valid_io_id p"
  shows "\<exists>s. get_artix_select_by_profile_pins pins = Inr s \<and>
    s = fold sup (map pin_unit pins) bot \<and> sel_units s = (\<Union>p\<in>set pins. sel_units (pin_unit p))"
proof -
  have "sel_units (fold sup (map pin_unit ps) a) =
      sel_units a \<union> (\<Union>p\<in>set ps. sel_units (pin_unit p))" for ps a
    by (induction ps arbitrary: a) (auto simp: sel_units_sup)
  with artix_select_loop_fold [OF assms, of bot] show ?thesis
    by (simp add: get_artix_select_by_profile_pins_def bot_artix_selects_def)
qed

lemma select_by_pins_is_join_witness:
  "\<exists>s. get_artix_select_by_profile_pins [data_pin 3, data_pin 399, data_pin (-1)] = Inr s \<and>
    s = fold sup (map pin_unit [data_pin 3, data_pin 399, data_pin (-1)]) bot \<and>
    sel_units s = (\<Union>p\<in>set [data_pin 3, data_pin 399, data_pin (-1)]. sel_units (pin_unit p))"
  by (rule select_by_pins_is_join) (simp add: valid_io_id_def data_pin_def)

text \<open>A tag name that the parser of profiles accepts and the printer produces is the same
  tag: printing and reading a tag are inverse.\<close>

theorem tag_name_roundtrip: "get_tag_by_name (get_name_by_tag t) = t"
  by (cases t) (simp_all add: get_tag_by_name_def)

end
