(* ===== verification/Jsmn.thy ===== *)
theory Jsmn
  imports Util
begin

text \<open>
  lib/jsmn/jsmn.c, the tokenizer that profiles are read with, as it is built here: without
  \<^verbatim>\<open>JSMN_STRICT\<close> and \<^verbatim>\<open>JSMN_PARENT_LINKS\<close>, and with an array of tokens. The theory shows that the
  tokens of every input lie within it, and that the text of a JSON document, with any white space,
  is split into the tokens of its values in order.

  A cursor of the code is a position with the characters from there on. Positions are converted to
  \<^verbatim>\<open>int\<close>, so the model is that of texts below 2 GB. The array of tokens is represented by the tokens
  that were allocated.
\<close>

section \<open>The parser\<close>

datatype jsmnerr = JSMN_ERROR_NOMEM | JSMN_ERROR_INVAL | JSMN_ERROR_PART

definition tok_open :: "jsmntok \<Rightarrow> bool" where
  "tok_open t \<longleftrightarrow> tok_start t \<noteq> - 1 \<and> tok_end t = - 1"

text \<open>The loops that search the tokens from the last one on.\<close>

fun last_index :: "(jsmntok \<Rightarrow> bool) \<Rightarrow> jsmntok list \<Rightarrow> nat option" where
  "last_index P [] = None"
| "last_index P (t # ts) =
     (case last_index P ts of Some i \<Rightarrow> Some (Suc i) | None \<Rightarrow> if P t then Some 0 else None)"

fun index_or_none :: "nat option \<Rightarrow> int" where
  "index_or_none None = - 1"
| "index_or_none (Some i) = int i"

definition jsmn_alloc_token :: "nat \<Rightarrow> jsmntok \<Rightarrow> jsmntok list \<Rightarrow> jsmnerr + jsmntok list" where
  "jsmn_alloc_token num_tokens t ts = (if num_tokens \<le> length ts then Inl JSMN_ERROR_NOMEM else Inr (ts @ [t]))"

text \<open>\<^verbatim>\<open>tokens[parser->toksuper].size++\<close>\<close>

definition add_child :: "int \<Rightarrow> jsmntok list \<Rightarrow> jsmntok list" where
  "add_child toksuper ts =
     (if toksuper = - 1 then ts
      else ts[nat toksuper := (ts ! nat toksuper)\<lparr>tok_size := Suc (tok_size (ts ! nat toksuper))\<rparr>])"

definition is_blank :: "char \<Rightarrow> bool" where
  "is_blank c \<longleftrightarrow> c \<in> {CHR 0x09, CHR 0x0D, CHR 0x0A, CHR '' ''}"

text \<open>The number of characters of a primitive, from its first one.\<close>

definition ends_primitive :: "char \<Rightarrow> bool" where
  "ends_primitive c \<longleftrightarrow> is_blank c \<or> c \<in> {CHR '':'', CHR '','', CHR '']'', CHR ''}''}"

fun primitive_end :: "string \<Rightarrow> nat \<Rightarrow> jsmnerr + nat" where
  "primitive_end [] n = Inr n"
| "primitive_end (c # cs) n =
     (if ends_primitive c then Inr n
      else if (of_char c :: nat) < 32 \<or> 127 \<le> (of_char c :: nat) then Inl JSMN_ERROR_INVAL
      else primitive_end cs (Suc n))"

definition jsmn_parse_primitive :: "nat \<Rightarrow> nat \<Rightarrow> string \<Rightarrow> jsmntok list \<Rightarrow> jsmnerr + nat \<times> jsmntok list" where
  "jsmn_parse_primitive num_tokens pos cs ts =
     (case primitive_end cs 0 of
        Inl e \<Rightarrow> Inl e
      | Inr n \<Rightarrow>
          (case jsmn_alloc_token num_tokens
                  \<lparr>tok_type = JSMN_PRIMITIVE, tok_start = int pos, tok_end = int (pos + n), tok_size = 0\<rparr> ts of
             Inl e \<Rightarrow> Inl e
           | Inr ts \<Rightarrow> Inr (n, ts)))"

text \<open>The number of characters of a string, from behind its first quote to its last. A backslash that is the
  last character of the text escapes nothing.\<close>

definition hex_char :: "char \<Rightarrow> bool" where
  "hex_char c \<longleftrightarrow> of_char c \<in> {48..57 :: nat} \<union> {65..70} \<union> {97..102}"

function string_end :: "string \<Rightarrow> nat \<Rightarrow> jsmnerr + nat" where
  "string_end [] n = Inl JSMN_ERROR_PART"
| "string_end (c # cs) n =
     (if c = CHR 0x22 then Inr n
      else if c = CHR 0x5C \<and> cs \<noteq> [] then
        (if hd cs \<in> {CHR 0x22, CHR ''/'', CHR 0x5C, CHR ''b'', CHR ''f'', CHR ''r'', CHR ''n'', CHR ''t''}
         then string_end (tl cs) (n + 2)
         else if hd cs = CHR ''u'' then
           (let h = take 4 (tl cs) in
            if \<exists>x\<in>set h. \<not> hex_char x then Inl JSMN_ERROR_INVAL
            else string_end (drop (length h) (tl cs)) (n + 2 + length h))
         else Inl JSMN_ERROR_INVAL)
      else string_end cs (Suc n))"
  by pat_completeness auto

termination
  by (relation "measure (\<lambda>(cs, n). length cs)") (auto simp: less_Suc_eq_le)

declare string_end.simps(2) [simp del]

definition jsmn_parse_string :: "nat \<Rightarrow> nat \<Rightarrow> string \<Rightarrow> jsmntok list \<Rightarrow> jsmnerr + nat \<times> jsmntok list" where
  "jsmn_parse_string num_tokens pos cs ts =
     (case string_end cs 0 of
        Inl e \<Rightarrow> Inl e
      | Inr n \<Rightarrow>
          (case jsmn_alloc_token num_tokens
                  \<lparr>tok_type = JSMN_STRING, tok_start = int (pos + 1), tok_end = int (pos + 1 + n), tok_size = 0\<rparr> ts of
             Inl e \<Rightarrow> Inl e
           | Inr ts \<Rightarrow> Inr (n, ts)))"

text \<open>A closing bracket: the last open token is closed, and the one that is open below it is the parent from
  then on. A comma after a value returns to the container.\<close>

definition close_token :: "jsmntype \<Rightarrow> nat \<Rightarrow> jsmntok list \<Rightarrow> jsmnerr + int \<times> jsmntok list" where
  "close_token type end_pos ts =
     (case last_index tok_open ts of
        None \<Rightarrow> Inl JSMN_ERROR_INVAL
      | Some i \<Rightarrow>
          if tok_type (ts ! i) \<noteq> type then Inl JSMN_ERROR_INVAL
          else let ts = ts[i := (ts ! i)\<lparr>tok_end := int end_pos\<rparr>] in
            Inr (index_or_none (last_index tok_open (take i ts)), ts))"

definition is_container :: "jsmntok \<Rightarrow> bool" where
  "is_container t \<longleftrightarrow> tok_type t = JSMN_ARRAY \<or> tok_type t = JSMN_OBJECT"

definition comma_super :: "int \<Rightarrow> jsmntok list \<Rightarrow> int" where
  "comma_super toksuper ts =
     (if toksuper \<noteq> - 1 \<and> \<not> is_container (ts ! nat toksuper) then
        (case last_index (\<lambda>t. is_container t \<and> tok_open t) ts of None \<Rightarrow> toksuper | Some i \<Rightarrow> int i)
      else toksuper)"

function jsmn_loop :: "nat \<Rightarrow> nat \<Rightarrow> string \<Rightarrow> int \<Rightarrow> nat \<Rightarrow> jsmntok list \<Rightarrow> jsmnerr + nat \<times> jsmntok list" where
  "jsmn_loop num_tokens pos [] toksuper cnt ts =
     (if \<exists>t\<in>set ts. tok_open t then Inl JSMN_ERROR_PART else Inr (cnt, ts))"
| "jsmn_loop num_tokens pos (c # cs) toksuper cnt ts =
     (if c = CHR ''{'' \<or> c = CHR ''['' then
        (case jsmn_alloc_token num_tokens
                \<lparr>tok_type = (if c = CHR ''{'' then JSMN_OBJECT else JSMN_ARRAY), tok_start = int pos, tok_end = - 1,
                 tok_size = 0\<rparr> ts of
           Inl e \<Rightarrow> Inl e
         | Inr ts' \<Rightarrow> jsmn_loop num_tokens (Suc pos) cs (int (length ts)) (Suc cnt) (add_child toksuper ts'))
      else if c = CHR ''}'' \<or> c = CHR '']'' then
        (case close_token (if c = CHR ''}'' then JSMN_OBJECT else JSMN_ARRAY) (Suc pos) ts of
           Inl e \<Rightarrow> Inl e
         | Inr (toksuper, ts) \<Rightarrow> jsmn_loop num_tokens (Suc pos) cs toksuper cnt ts)
      else if c = CHR 0x22 then
        (case jsmn_parse_string num_tokens pos cs ts of
           Inl e \<Rightarrow> Inl e
         | Inr (n, ts) \<Rightarrow>
             jsmn_loop num_tokens (pos + n + 2) (drop (Suc n) cs) toksuper (Suc cnt) (add_child toksuper ts))
      else if is_blank c then jsmn_loop num_tokens (Suc pos) cs toksuper cnt ts
      else if c = CHR '':'' then jsmn_loop num_tokens (Suc pos) cs (int (length ts) - 1) cnt ts
      else if c = CHR '','' then jsmn_loop num_tokens (Suc pos) cs (comma_super toksuper ts) cnt ts
      else
        (case jsmn_parse_primitive num_tokens pos (c # cs) ts of
           Inl e \<Rightarrow> Inl e
         | Inr (n, ts) \<Rightarrow>
             jsmn_loop num_tokens (pos + n) (drop (n - 1) cs) toksuper (Suc cnt) (add_child toksuper ts)))"
  by pat_completeness auto

termination
  by (relation "measure (\<lambda>(m, p, cs, sp, c, ts). length cs)") (auto simp: less_Suc_eq_le)

declare jsmn_loop.simps(2) [simp del]

definition jsmn_parse :: "string \<Rightarrow> nat \<Rightarrow> jsmnerr + nat \<times> jsmntok list" where
  "jsmn_parse js num_tokens = jsmn_loop num_tokens 0 js (- 1) 0 []"

section \<open>Bounds\<close>

lemma primitive_end_bounds: "primitive_end cs n = Inr k \<Longrightarrow> n \<le> k \<and> k \<le> n + length cs"
  by (induction cs n rule: primitive_end.induct) (auto split: if_splits)

lemma primitive_end_pos: "primitive_end (c # cs) 0 = Inr k \<Longrightarrow> \<not> ends_primitive c \<Longrightarrow> 0 < k \<and> k \<le> Suc (length cs)"
  using primitive_end_bounds [of cs 1 k] by (auto split: if_splits)

lemma string_end_bounds: "string_end cs n = Inr k \<Longrightarrow> n \<le> k \<and> k < n + length cs"
proof (induction cs n rule: string_end.induct)
  case (2 c cs n)
  show ?case
    using 2 by (cases cs) (fastforce simp: string_end.simps(2) Let_def split: if_splits)+
qed simp

text \<open>Every token starts in the text, and one that is closed ends in the text, not before its start.\<close>

definition toks_within :: "nat \<Rightarrow> jsmntok list \<Rightarrow> bool" where
  "toks_within n ts \<longleftrightarrow> (\<forall>t\<in>set ts. 0 \<le> tok_start t \<and> tok_start t \<le> int n \<and>
     (tok_end t = - 1 \<or> tok_start t \<le> tok_end t \<and> tok_end t \<le> int n))"

lemma toks_within_mono: "toks_within n ts \<Longrightarrow> n \<le> m \<Longrightarrow> toks_within m ts"
  by (fastforce simp: toks_within_def)

lemma set_list_update_cases: "t \<in> set (ts[i := x]) \<Longrightarrow> t = x \<and> i < length ts \<or> t \<in> set ts"
  by (cases "i < length ts") (use set_update_subset_insert [of ts i x] in blast, simp add: not_less list_update_beyond)

lemma toks_within_child: "toks_within n ts \<Longrightarrow> sp = - 1 \<or> 0 \<le> sp \<and> sp < int (length ts) \<Longrightarrow> toks_within n (add_child sp ts)"
  by (auto simp: toks_within_def add_child_def dest!: set_list_update_cases)

lemma length_add_child [simp]: "length (add_child sp ts) = length ts"
  by (simp add: add_child_def)

lemma alloc_token_Inr: "jsmn_alloc_token m t ts = Inr ts' \<longleftrightarrow> length ts < m \<and> ts' = ts @ [t]"
  by (auto simp: jsmn_alloc_token_def)

lemma last_index_Some: "last_index P ts = Some i \<Longrightarrow> i < length ts \<and> P (ts ! i)"
  by (induction ts arbitrary: i) (auto split: option.splits if_splits)

lemma last_index_None: "last_index P ts = None \<longleftrightarrow> (\<forall>t\<in>set ts. \<not> P t)"
  by (induction ts) (auto split: option.splits)

definition super_ok :: "int \<Rightarrow> jsmntok list \<Rightarrow> bool" where
  "super_ok sp ts \<longleftrightarrow> sp = - 1 \<or> 0 \<le> sp \<and> sp < int (length ts)"

lemma index_super: "super_ok (index_or_none (last_index P (take i ts))) ts"
proof (cases "last_index P (take i ts)")
  case (Some j)
  then show ?thesis using last_index_Some [OF Some] by (simp add: super_ok_def)
qed (simp add: super_ok_def)

lemma close_token_within:
  assumes "close_token type p ts = Inr (sp, ts')" and "toks_within n ts" and "n \<le> p"
  shows "toks_within p ts' \<and> super_ok sp ts' \<and> length ts' = length ts"
proof -
  obtain i where i: "last_index tok_open ts = Some i" and ts': "ts' = ts[i := (ts ! i)\<lparr>tok_end := int p\<rparr>]"
    and sp: "sp = index_or_none (last_index tok_open (take i ts'))"
    using assms(1) by (auto simp: close_token_def Let_def split: option.splits if_splits)
  have "ts ! i \<in> set ts" using last_index_Some [OF i] by simp
  then have "toks_within p ts'"
    using assms(2,3) unfolding ts' toks_within_def by (fastforce dest!: set_list_update_cases)
  then show ?thesis using index_super [of tok_open i ts'] by (simp add: sp ts')
qed

lemma comma_super_ok: "super_ok sp ts \<Longrightarrow> super_ok (comma_super sp ts) ts"
  using last_index_Some by (fastforce simp: comma_super_def super_ok_def split: option.splits)

lemma jsmn_loop_within:
  assumes "jsmn_loop m p cs sp n ts = Inr (k, ts')" and "toks_within p ts" and "super_ok sp ts"
    and "n = length ts" and "length ts \<le> m" and "L = p + length cs"
  shows "k = length ts' \<and> length ts' \<le> m \<and> toks_within L ts' \<and> (\<forall>t\<in>set ts'. \<not> tok_open t)"
  using assms
proof (induction m p cs sp n ts rule: jsmn_loop.induct)
  case (1 m p sp n ts)
  then show ?case by (auto split: if_splits)
next
  case (2 m p c cs sp n ts)
  note run = 2(8) [unfolded jsmn_loop.simps(2)] and w = 2(9) and s = 2(10) and rest = 2(11-13)
  have w1: "toks_within (Suc p) ts" using toks_within_mono [OF w] by simp
  consider (opens) "c = CHR ''{'' \<or> c = CHR ''[''" | (closes) "c = CHR ''}'' \<or> c = CHR '']''" | (str) "c = CHR 0x22"
    | (blank) "is_blank c" | (colon) "c = CHR '':''" | (comma) "c = CHR '',''"
    | (prim) "c \<notin> {CHR ''{'', CHR ''['', CHR ''}'', CHR '']'', CHR 0x22, CHR '':'', CHR '',''}" "\<not> is_blank c" by blast
  then show ?case
  proof cases
    case opens
    let ?t = "\<lparr>tok_type = (if c = CHR ''{'' then JSMN_OBJECT else JSMN_ARRAY), tok_start = int p, tok_end = - 1, tok_size = 0\<rparr>"
    have a: "jsmn_alloc_token m ?t ts = Inr (ts @ [?t])" "length ts < m"
      using run opens by (auto split: sum.splits simp: alloc_token_Inr)
    have "toks_within (Suc p) (ts @ [?t])" using w1 by (simp add: toks_within_def)
    then have "toks_within (Suc p) (add_child sp (ts @ [?t]))"
      using s by (intro toks_within_child) (auto simp: super_ok_def)
    then show ?thesis using 2(1) [OF opens a(1)] run opens a rest by (simp add: super_ok_def)
  next
    case closes
    then have no: "\<not> (c = CHR ''{'' \<or> c = CHR ''['')" by auto
    obtain sp1 ts1 where a: "close_token (if c = CHR ''}'' then JSMN_OBJECT else JSMN_ARRAY) (Suc p) ts = Inr (sp1, ts1)"
      using run closes no by (auto split: sum.splits)
    from close_token_within [OF this w] have "toks_within (Suc p) ts1" "super_ok sp1 ts1" "length ts1 = length ts" by auto
    then show ?thesis using 2(2) [OF no closes a refl] run closes no a rest by simp
  next
    case str
    obtain k1 ts1 where a: "jsmn_parse_string m p cs ts = Inr (k1, ts1)" using run str by (auto split: sum.splits)
    then have k1: "string_end cs 0 = Inr k1" "length ts < m"
      "ts1 = ts @ [\<lparr>tok_type = JSMN_STRING, tok_start = int (p + 1), tok_end = int (p + 1 + k1), tok_size = 0\<rparr>]"
      by (auto simp: jsmn_parse_string_def alloc_token_Inr split: sum.splits)
    have len: "p + k1 + 2 + length (drop (Suc k1) cs) = Suc p + length cs" using string_end_bounds [OF k1(1)] by simp
    have "toks_within (p + k1 + 2) ts" by (rule toks_within_mono [OF w]) simp
    then have "toks_within (p + k1 + 2) ts1" by (simp add: k1(3) toks_within_def)
    then have "toks_within (p + k1 + 2) (add_child sp ts1)" using s by (intro toks_within_child) (auto simp: super_ok_def k1(3))
    moreover have "super_ok sp (add_child sp ts1)" using s by (auto simp: super_ok_def k1(3))
    ultimately show ?thesis using 2(3) [OF _ _ str a refl] run str a rest len k1(2) by (simp add: k1(3))
  next
    case blank
    then have "c \<noteq> CHR ''{'' \<and> c \<noteq> CHR ''['' \<and> c \<noteq> CHR ''}'' \<and> c \<noteq> CHR '']'' \<and> c \<noteq> CHR 0x22" by (auto simp: is_blank_def)
    then show ?thesis using 2(4) blank run w1 s rest by simp
  next
    case colon
    then show ?thesis using 2(5) run w1 s rest by (simp add: is_blank_def super_ok_def)
  next
    case comma
    then show ?thesis using 2(6) run w1 comma_super_ok [OF s] rest by (simp add: is_blank_def)
  next
    case prim
    then have no: "\<not> (c = CHR ''{'' \<or> c = CHR ''['')" "\<not> (c = CHR ''}'' \<or> c = CHR '']'')" "c \<noteq> CHR 0x22" "c \<noteq> CHR '':''"
      "c \<noteq> CHR '',''" by auto
    obtain k1 ts1 where a: "jsmn_parse_primitive m p (c # cs) ts = Inr (k1, ts1)" using run no prim(2) by (auto split: sum.splits)
    then have k1: "primitive_end (c # cs) 0 = Inr k1" "length ts < m"
      "ts1 = ts @ [\<lparr>tok_type = JSMN_PRIMITIVE, tok_start = int p, tok_end = int (p + k1), tok_size = 0\<rparr>]"
      by (auto simp: jsmn_parse_primitive_def alloc_token_Inr simp del: primitive_end.simps split: sum.splits)
    have "0 < k1 \<and> k1 \<le> Suc (length cs)"
      using primitive_end_pos [OF k1(1)] prim by (simp add: ends_primitive_def)
    then have len: "p + k1 + length (drop (k1 - 1) cs) = Suc p + length cs" by simp
    have "toks_within (p + k1) ts" by (rule toks_within_mono [OF w]) simp
    then have "toks_within (p + k1) ts1" by (simp add: k1(3) toks_within_def)
    then have "toks_within (p + k1) (add_child sp ts1)" using s by (intro toks_within_child) (auto simp: super_ok_def k1(3))
    moreover have "super_ok sp (add_child sp ts1)" using s by (auto simp: super_ok_def k1(3))
    moreover have "jsmn_loop m (p + k1) (drop (k1 - 1) cs) sp (Suc n) (add_child sp ts1) = Inr (k, ts')"
      using run unfolding if_not_P [OF no(1)] if_not_P [OF no(2)] if_not_P [OF no(3)] if_not_P [OF prim(2)] if_not_P [OF no(4)]
        if_not_P [OF no(5)] a by simp
    moreover have "Suc n = length (add_child sp ts1)" "length (add_child sp ts1) \<le> m" "L = p + k1 + length (drop (k1 - 1) cs)"
      using rest len k1(2) by (simp_all add: k1(3))
    ultimately show ?thesis using 2(7) [OF no(1,2,3) prim(2) no(4,5) a refl] by blast
  qed
qed

text \<open>C31. For every input below 2 GB that the tokenizer accepts, the tokens it returns are as many as it
  reports, at most as many as it was given, all closed, and each lies within the text; the conversion of
  the places from \<^verbatim>\<open>unsigned int\<close> to the \<^verbatim>\<open>int\<close> fields of a token changes none of them. (In a longer text the
  code's places wrap.)\<close>

theorem jsmn_tokens_in_bounds:
  assumes "jsmn_parse js num_tokens = Inr (n, ts)" and "length js < 2 ^ 31"
  shows "n = length ts \<and> n \<le> num_tokens \<and>
    (\<forall>t\<in>set ts. 0 \<le> tok_start t \<and> tok_start t \<le> tok_end t \<and> tok_end t \<le> int (length js) \<and>
       sint (of_int (tok_start t) :: 32 word) = tok_start t \<and> sint (of_int (tok_end t) :: 32 word) = tok_end t)"
proof -
  have "toks_within 0 []" "super_ok (- 1) []" by (simp_all add: toks_within_def super_ok_def)
  from jsmn_loop_within [OF assms(1) [unfolded jsmn_parse_def] this]
  have r: "n = length ts" "length ts \<le> num_tokens" "toks_within (length js) ts" "\<forall>t\<in>set ts. \<not> tok_open t" by simp_all
  have within: "0 \<le> tok_start t \<and> tok_start t \<le> tok_end t \<and> tok_end t \<le> int (length js)" if "t \<in> set ts" for t
    using r(3,4) that by (fastforce simp: toks_within_def tok_open_def)
  have narrow: "sint (of_int i :: 32 word) = i" if "0 \<le> i" "i \<le> int (length js)" for i
  proof -
    have "int (length js) < 2 ^ 31" using assms(2) by simp
    then have "i < 2 ^ 31" using that(2) by linarith
    with that(1) show ?thesis by (simp add: int_word_sint)
  qed
  show ?thesis using r(1,2) within narrow by force
qed

theorem jsmn_tokens_in_bounds_witness:
  "\<exists>n ts. jsmn_parse ''[1,2]'' 4 = Inr (n, ts) \<and> n = length ts \<and> n \<le> 4"
proof -
  have "jsmn_parse ''[1,2]'' 4 = Inr (3,
      [\<lparr>tok_type = JSMN_ARRAY, tok_start = 0, tok_end = 5, tok_size = 2\<rparr>,
       \<lparr>tok_type = JSMN_PRIMITIVE, tok_start = 1, tok_end = 2, tok_size = 0\<rparr>,
       \<lparr>tok_type = JSMN_PRIMITIVE, tok_start = 3, tok_end = 4, tok_size = 0\<rparr>])" by code_simp
  from jsmn_tokens_in_bounds [OF this] this show ?thesis by auto
qed

section \<open>The tokens of a document\<close>

text \<open>
  JSON values and their texts: \<open>json_doc v p s ts\<close> says that \<open>s\<close>, at position \<open>p\<close> of a text, is a text of the
  value \<open>v\<close>, with any white space between its parts, and that \<open>ts\<close> are the tokens of the value and the values
  in it, in order. Strings without escapes and primitives of printable characters are covered. The size of a
  container is the number of its members, that of a key is one.
\<close>

datatype json = J_string string | J_prim string | J_object "(string \<times> json) list" | J_array "json list"

definition blank :: "string \<Rightarrow> bool" where
  "blank w \<longleftrightarrow> (\<forall>c\<in>set w. is_blank c)"

definition plain_text :: "string \<Rightarrow> bool" where
  "plain_text s \<longleftrightarrow> (\<forall>c\<in>set s. c \<noteq> CHR 0x22 \<and> c \<noteq> CHR 0x5C)"

definition prim_text :: "string \<Rightarrow> bool" where
  "prim_text s \<longleftrightarrow> s \<noteq> [] \<and> (\<forall>c\<in>set s. 32 < (of_char c :: nat) \<and> (of_char c :: nat) < 127 \<and>
     c \<notin> {CHR 0x22, CHR '':'', CHR '','', CHR ''['', CHR '']'', CHR ''{'', CHR ''}''})"

definition quoted :: "string \<Rightarrow> string" where
  "quoted s = CHR 0x22 # s @ [CHR 0x22]"

definition string_tok :: "nat \<Rightarrow> string \<Rightarrow> nat \<Rightarrow> jsmntok" where
  "string_tok p s n = \<lparr>tok_type = JSMN_STRING, tok_start = int (p + 1), tok_end = int (p + 1 + length s), tok_size = n\<rparr>"

inductive json_doc :: "json \<Rightarrow> nat \<Rightarrow> string \<Rightarrow> jsmntok list \<Rightarrow> bool"
  and json_member :: "string \<times> json \<Rightarrow> nat \<Rightarrow> string \<Rightarrow> jsmntok list \<Rightarrow> bool"
  and json_members :: "(string \<times> json) list \<Rightarrow> nat \<Rightarrow> string \<Rightarrow> jsmntok list \<Rightarrow> bool"
  and json_elements :: "json list \<Rightarrow> nat \<Rightarrow> string \<Rightarrow> jsmntok list \<Rightarrow> bool" where
  doc_string: "plain_text s \<Longrightarrow> json_doc (J_string s) p (quoted s) [string_tok p s 0]"
| doc_prim: "prim_text s \<Longrightarrow> json_doc (J_prim s) p s
    [\<lparr>tok_type = JSMN_PRIMITIVE, tok_start = int p, tok_end = int (p + length s), tok_size = 0\<rparr>]"
| doc_object: "json_members ms (Suc p) s ts \<Longrightarrow> json_doc (J_object ms) p (CHR ''{'' # s @ ''}'')
    (\<lparr>tok_type = JSMN_OBJECT, tok_start = int p, tok_end = int (p + length s + 2), tok_size = length ms\<rparr> # ts)"
| doc_array: "json_elements vs (Suc p) s ts \<Longrightarrow> json_doc (J_array vs) p (CHR ''['' # s @ '']'')
    (\<lparr>tok_type = JSMN_ARRAY, tok_start = int p, tok_end = int (p + length s + 2), tok_size = length vs\<rparr> # ts)"
| member: "blank w1 \<Longrightarrow> blank w2 \<Longrightarrow> blank w3 \<Longrightarrow> blank w4 \<Longrightarrow> plain_text k \<Longrightarrow>
    json_doc v (p + length w1 + length k + 2 + length w2 + 1 + length w3) s ts \<Longrightarrow>
    json_member (k, v) p (w1 @ quoted k @ w2 @ '':'' @ w3 @ s @ w4) (string_tok (p + length w1) k 1 # ts)"
| no_members: "blank w \<Longrightarrow> json_members [] p w []"
| one_member: "json_member m p s ts \<Longrightarrow> json_members [m] p s ts"
| more_members: "json_member m p s ts \<Longrightarrow> ms \<noteq> [] \<Longrightarrow> json_members ms (p + length s + 1) s' ts' \<Longrightarrow>
    json_members (m # ms) p (s @ '','' @ s') (ts @ ts')"
| no_elements: "blank w \<Longrightarrow> json_elements [] p w []"
| one_element: "blank w1 \<Longrightarrow> blank w2 \<Longrightarrow> json_doc v (p + length w1) s ts \<Longrightarrow> json_elements [v] p (w1 @ s @ w2) ts"
| more_elements: "blank w1 \<Longrightarrow> blank w2 \<Longrightarrow> json_doc v (p + length w1) s ts \<Longrightarrow> vs \<noteq> [] \<Longrightarrow>
    json_elements vs (p + length w1 + length s + length w2 + 1) s' ts' \<Longrightarrow>
    json_elements (v # vs) p (w1 @ s @ w2 @ '','' @ s') (ts @ ts')"

text \<open>One lexeme of the loop at a time.\<close>

lemma loop_blank: "blank w \<Longrightarrow> jsmn_loop m p (w @ cs) sp n ts = jsmn_loop m (p + length w) cs sp n ts"
proof (induction w arbitrary: p)
  case (Cons c w)
  then have "is_blank c" "blank w" by (simp_all add: blank_def)
  moreover from this have "c \<noteq> CHR ''{'' \<and> c \<noteq> CHR ''['' \<and> c \<noteq> CHR ''}'' \<and> c \<noteq> CHR '']'' \<and> c \<noteq> CHR 0x22"
    by (auto simp: is_blank_def)
  ultimately show ?case using Cons.IH [of "Suc p"] by (simp add: jsmn_loop.simps(2))
qed simp

lemma string_end_plain: "plain_text s \<Longrightarrow> string_end (s @ CHR 0x22 # cs) n = Inr (n + length s)"
  by (induction s arbitrary: n) (simp_all add: string_end.simps(2) plain_text_def)

lemma loop_string:
  assumes "plain_text s" and "length ts < m"
  shows "jsmn_loop m p (quoted s @ cs) sp n ts =
    jsmn_loop m (p + length s + 2) cs sp (Suc n) (add_child sp (ts @ [string_tok p s 0]))"
  using assms string_end_plain [OF assms(1), of cs 0]
  by (simp add: jsmn_loop.simps(2) quoted_def jsmn_parse_string_def alloc_token_Inr string_tok_def jsmn_alloc_token_def)

definition follows :: "string \<Rightarrow> bool" where
  "follows cs \<longleftrightarrow> (case cs of [] \<Rightarrow> True | c # _ \<Rightarrow> ends_primitive c)"

lemma primitive_end_text: "\<forall>c\<in>set s. 32 < (of_char c :: nat) \<and> (of_char c :: nat) < 127 \<and> \<not> ends_primitive c \<Longrightarrow> follows cs \<Longrightarrow>
    primitive_end (s @ cs) n = Inr (n + length s)"
  by (induction s arbitrary: n) (auto simp: follows_def split: list.splits)

lemma not_blank: "32 < (of_char c :: nat) \<Longrightarrow> \<not> is_blank c"
  by (auto simp: is_blank_def)

lemma loop_prim:
  assumes "prim_text s" and "length ts < m" and "follows cs"
  shows "jsmn_loop m p (s @ cs) sp n ts = jsmn_loop m (p + length s) cs sp (Suc n)
    (add_child sp (ts @ [\<lparr>tok_type = JSMN_PRIMITIVE, tok_start = int p, tok_end = int (p + length s), tok_size = 0\<rparr>]))"
proof -
  obtain c s' where s: "s = c # s'" using assms(1) by (cases s) (auto simp: prim_text_def)
  have "\<forall>c\<in>set s. 32 < (of_char c :: nat) \<and> (of_char c :: nat) < 127 \<and> \<not> ends_primitive c"
    using assms(1) not_blank by (auto simp: prim_text_def ends_primitive_def)
  from primitive_end_text [OF this assms(3)] have "primitive_end (s @ cs) 0 = Inr (length s)" by simp
  moreover have "c \<notin> {CHR ''{'', CHR ''['', CHR ''}'', CHR '']'', CHR 0x22, CHR '':'', CHR '',''}" "\<not> is_blank c"
    using assms(1) not_blank by (auto simp: prim_text_def s)
  ultimately show ?thesis using assms(2)
    by (simp add: s jsmn_loop.simps(2) jsmn_parse_primitive_def jsmn_alloc_token_def del: primitive_end.simps)
qed

text \<open>The tokens of a value are closed; the last open token is not changed by adding a child.\<close>

lemma last_index_append:
  "last_index P (ts @ us) = (case last_index P us of Some i \<Rightarrow> Some (length ts + i) | None \<Rightarrow> last_index P ts)"
  by (induction ts) (auto split: option.splits)

lemma last_index_cong: "map P ts = map Q us \<Longrightarrow> last_index P ts = last_index Q us"
proof (induction ts arbitrary: us)
  case (Cons t ts)
  then show ?case by (cases us) auto
qed simp

lemma add_child_open: "super_ok sp ts \<Longrightarrow> last_index tok_open (add_child sp ts) = last_index tok_open ts"
  by (intro last_index_cong nth_equalityI)
    (auto simp: add_child_def super_ok_def tok_open_def nth_list_update split: if_splits)

lemma add_child_append: "super_ok sp ts \<Longrightarrow> add_child sp (ts @ us) = add_child sp ts @ us"
  by (auto simp: add_child_def super_ok_def list_update_append nth_append)

lemma json_doc_closed:
  "json_doc v p s ts \<Longrightarrow> \<forall>t\<in>set ts. \<not> tok_open t"
  "json_member m p s ts \<Longrightarrow> \<forall>t\<in>set ts. \<not> tok_open t"
  "json_members ms p s ts \<Longrightarrow> \<forall>t\<in>set ts. \<not> tok_open t"
  "json_elements vs p s ts \<Longrightarrow> \<forall>t\<in>set ts. \<not> tok_open t"
  by (induction rule: json_doc_json_member_json_members_json_elements.inducts)
    (auto simp: tok_open_def string_tok_def)

text \<open>The state of the loop inside a container \<open>t\<close>: the tokens before it, and closed tokens after it.\<close>

definition inside :: "jsmntok list \<Rightarrow> jsmntok \<Rightarrow> jsmntok list \<Rightarrow> bool" where
  "inside us t vs \<longleftrightarrow> tok_open t \<and> is_container t \<and> (\<forall>x\<in>set us. tok_open x \<longrightarrow> is_container x) \<and> (\<forall>x\<in>set vs. \<not> tok_open x)"

definition more_children :: "nat \<Rightarrow> jsmntok \<Rightarrow> jsmntok" where
  "more_children k t = t\<lparr>tok_size := tok_size t + k\<rparr>"

lemma more_children_simps [simp]:
  "more_children 0 t = t" "more_children j (more_children k t) = more_children (k + j) t"
  "tok_open (more_children k t) = tok_open t" "is_container (more_children k t) = is_container t"
  "tok_type (more_children k t) = tok_type t" "tok_start (more_children k t) = tok_start t" "tok_end (more_children k t) = tok_end t"
  by (simp_all add: more_children_def tok_open_def is_container_def ac_simps)

lemma inside_facts:
  assumes "inside us t vs"
  shows "last_index tok_open (us @ t # vs) = Some (length us)" and "inside us (more_children k t) vs"
    and "(\<forall>x\<in>set ws. \<not> tok_open x) \<Longrightarrow> inside us t (vs @ ws)" and "super_ok (int (length us)) (us @ t # vs)"
    and "add_child (int (length us)) (us @ t # vs) = us @ more_children 1 t # vs"
    and "\<forall>x\<in>set (us @ t # vs). tok_open x \<longrightarrow> is_container x"
    and "last_index (\<lambda>x. is_container x \<and> tok_open x) (us @ t # vs) = Some (length us)"
proof -
  have "last_index tok_open vs = None" "last_index (\<lambda>x. is_container x \<and> tok_open x) vs = None"
    using assms by (auto simp: inside_def last_index_None)
  then show "last_index tok_open (us @ t # vs) = Some (length us)" "last_index (\<lambda>x. is_container x \<and> tok_open x) (us @ t # vs) = Some (length us)"
    using assms by (simp_all add: inside_def last_index_append)
  show "inside us (more_children k t) vs" "(\<forall>x\<in>set ws. \<not> tok_open x) \<Longrightarrow> inside us t (vs @ ws)"
    using assms by (auto simp: inside_def)
  show "add_child (int (length us)) (us @ t # vs) = us @ more_children 1 t # vs"
    by (simp add: add_child_def more_children_def)
qed (use assms in \<open>auto simp: inside_def super_ok_def\<close>)

text \<open>After the value of a member or an element, a comma returns to the container.\<close>

lemma comma_container:
  assumes "inside us t vs"
  shows "comma_super (int (length us)) (us @ t # vs) = int (length us)"
  using assms by (simp add: comma_super_def inside_def)

lemma comma_key:
  assumes "inside us t (vs @ k # ws)" and "tok_type k = JSMN_STRING"
  shows "comma_super (int (length us + Suc (length vs))) (us @ t # vs @ k # ws) = int (length us)"
proof -
  have "(us @ t # vs @ k # ws) ! (length us + Suc (length vs)) = k"
    using nth_append_length [of "us @ t # vs" k ws] by simp
  moreover have "\<not> is_container k" using assms(2) by (simp add: is_container_def)
  ultimately show ?thesis
    using inside_facts(7) [OF assms(1)] by (simp add: comma_super_def del: of_nat_add of_nat_Suc)
qed

lemma loop_comma: "jsmn_loop m p (CHR '','' # cs) sp n ts = jsmn_loop m (Suc p) cs (comma_super sp ts) n ts"
  by (simp add: jsmn_loop.simps(2) is_blank_def)

lemma loop_colon: "jsmn_loop m p (CHR '':'' # cs) sp n ts = jsmn_loop m (Suc p) cs (int (length ts) - 1) n ts"
  by (simp add: jsmn_loop.simps(2) is_blank_def)

text \<open>A container, given what the loop does inside it.\<close>

lemma loop_container:
  assumes c: "c = CHR ''{'' \<and> c' = CHR ''}'' \<and> type = JSMN_OBJECT \<or> c = CHR ''['' \<and> c' = CHR '']'' \<and> type = JSMN_ARRAY"
    and sp: "super_ok sp ts" and m: "length ts < m" and closed: "\<forall>x\<in>set tv. \<not> tok_open x"
    and body: "\<exists>sp'. jsmn_loop m (Suc p) (s @ c' # rest) (int (length ts)) (Suc n)
        (add_child sp ts @ [\<lparr>tok_type = type, tok_start = int p, tok_end = - 1, tok_size = 0\<rparr>]) =
      jsmn_loop m (Suc p + length s) (c' # rest) sp' (Suc n + length tv)
        (add_child sp ts @ more_children k \<lparr>tok_type = type, tok_start = int p, tok_end = - 1, tok_size = 0\<rparr> # tv)"
  shows "jsmn_loop m p (c # s @ c' # rest) sp n ts = jsmn_loop m (p + length s + 2) rest (index_or_none (last_index tok_open ts))
    (n + Suc (length tv)) (add_child sp ts @ \<lparr>tok_type = type, tok_start = int p, tok_end = int (p + length s + 2), tok_size = k\<rparr> # tv)"
proof -
  let ?t = "\<lparr>tok_type = type, tok_start = int p, tok_end = - 1, tok_size = 0\<rparr>"
  let ?ts = "add_child sp ts"
  have len: "length ?ts = length ts" by simp
  have "jsmn_loop m p (c # s @ c' # rest) sp n ts =
      jsmn_loop m (Suc p) (s @ c' # rest) (int (length ts)) (Suc n) (?ts @ [?t])"
    using c m add_child_append [OF sp] by (auto simp: jsmn_loop.simps(2) jsmn_alloc_token_def)
  also obtain sp' where "\<dots> = jsmn_loop m (Suc p + length s) (c' # rest) sp' (Suc n + length tv) (?ts @ more_children k ?t # tv)"
    using body by blast
  also have "\<dots> = jsmn_loop m (p + length s + 2) rest (index_or_none (last_index tok_open ts)) (n + Suc (length tv))
      (?ts @ \<lparr>tok_type = type, tok_start = int p, tok_end = int (p + length s + 2), tok_size = k\<rparr> # tv)"
  proof -
    have "last_index tok_open tv = None" using closed by (simp add: last_index_None)
    then have i: "last_index tok_open (?ts @ more_children k ?t # tv) = Some (length ts)"
      by (simp add: last_index_append) (simp add: tok_open_def)
    have close: "close_token type (Suc (Suc p + length s)) (?ts @ more_children k ?t # tv) = Inr (index_or_none (last_index tok_open ts),
        ?ts @ \<lparr>tok_type = type, tok_start = int p, tok_end = int (p + length s + 2), tok_size = k\<rparr> # tv)"
      using add_child_open [OF sp] unfolding close_token_def i
      by (simp add: Let_def nth_append list_update_append) (simp add: more_children_def)
    have "jsmn_loop m (Suc p + length s) (c' # rest) sp' (Suc n + length tv) (?ts @ more_children k ?t # tv) =
        (case close_token type (Suc (Suc p + length s)) (?ts @ more_children k ?t # tv) of
           Inl e \<Rightarrow> Inl e | Inr (sp, ts) \<Rightarrow> jsmn_loop m (Suc (Suc p + length s)) rest sp (Suc n + length tv) ts)"
      using c by (elim disjE conjE) (simp_all only: jsmn_loop.simps(2), simp_all)
    then show ?thesis unfolding close by simp
  qed
  finally show ?thesis .
qed

lemma follows_blank: "blank w \<Longrightarrow> follows cs \<Longrightarrow> follows (w @ cs)"
  by (cases w) (auto simp: follows_def blank_def ends_primitive_def)

lemma open_in_child: "super_ok sp ts \<Longrightarrow> \<forall>x\<in>set ts. tok_open x \<longrightarrow> is_container x \<Longrightarrow> \<forall>x\<in>set (add_child sp ts). tok_open x \<longrightarrow> is_container x"
  by (auto simp: add_child_def super_ok_def tok_open_def is_container_def dest!: set_list_update_cases)

lemma loop_member:
  assumes w: "blank w1" "blank w2" "blank w3" "blank w4" and k: "plain_text k"
    and doc: "\<forall>rest sp n ts. follows rest \<and> super_ok sp ts \<and> length ts + length tv \<le> m \<and> (\<forall>x\<in>set ts. tok_open x \<longrightarrow> is_container x) \<longrightarrow>
      (\<exists>sp'. (sp' = sp \<or> sp' = index_or_none (last_index tok_open ts)) \<and>
        jsmn_loop m (p + length w1 + length k + 2 + length w2 + 1 + length w3) (s @ rest) sp n ts =
        jsmn_loop m (p + length w1 + length k + 2 + length w2 + 1 + length w3 + length s) rest sp' (n + length tv) (add_child sp ts @ tv))"
    and closed: "\<forall>x\<in>set tv. \<not> tok_open x" and rest: "follows rest" and ins: "inside us t vs"
    and len: "length us + length vs + 1 + Suc (length tv) \<le> m"
  shows "\<exists>sp'. comma_super sp' (us @ more_children 1 t # vs @ string_tok (p + length w1) k 1 # tv) = int (length us) \<and>
    jsmn_loop m p ((w1 @ quoted k @ w2 @ '':'' @ w3 @ s @ w4) @ rest) (int (length us)) n (us @ t # vs) =
    jsmn_loop m (p + length (w1 @ quoted k @ w2 @ '':'' @ w3 @ s @ w4)) rest sp' (n + Suc (length tv))
      (us @ more_children 1 t # vs @ string_tok (p + length w1) k 1 # tv)"
proof -
  let ?t = "more_children 1 t" and ?K = "int (length us + Suc (length vs))"
  let ?q = "p + length w1 + length k + 2 + length w2 + 1 + length w3"
  let ?ts = "us @ ?t # vs @ [string_tok (p + length w1) k 0]"
  have key: "add_child (int (length us)) ((us @ t # vs) @ [string_tok (p + length w1) k 0]) = ?ts"
    using add_child_append [OF inside_facts(4) [OF ins]] inside_facts(5) [OF ins] by simp
  have ins1: "inside us ?t vs" using inside_facts(2) [OF ins] .
  have no: "\<not> tok_open (string_tok (p + length w1) k j)" for j by (simp add: tok_open_def string_tok_def)
  have ins2: "inside us ?t (vs @ [string_tok (p + length w1) k 0])" using inside_facts(3) [OF ins1] no by simp
  have child: "add_child ?K ?ts = us @ ?t # vs @ [string_tok (p + length w1) k 1]"
    by (simp add: add_child_def list_update_append nth_append string_tok_def del: of_nat_add of_nat_Suc)
  have "jsmn_loop m p ((w1 @ quoted k @ w2 @ '':'' @ w3 @ s @ w4) @ rest) (int (length us)) n (us @ t # vs) =
      jsmn_loop m (p + length w1) (quoted k @ w2 @ '':'' @ w3 @ s @ w4 @ rest) (int (length us)) n (us @ t # vs)"
    using loop_blank [OF w(1)] by simp
  also have "\<dots> = jsmn_loop m (p + length w1 + length k + 2) (w2 @ '':'' @ w3 @ s @ w4 @ rest) (int (length us)) (Suc n) ?ts"
    using loop_string [OF k, of "us @ t # vs" m] len key by simp
  also have "\<dots> = jsmn_loop m ?q (s @ w4 @ rest) ?K (Suc n) ?ts"
    using loop_blank [OF w(2)] loop_blank [OF w(3)] by (simp add: loop_colon)
  finally have start: "jsmn_loop m p ((w1 @ quoted k @ w2 @ '':'' @ w3 @ s @ w4) @ rest) (int (length us)) n (us @ t # vs) =
      jsmn_loop m ?q (s @ w4 @ rest) ?K (Suc n) ?ts" .
  have pre: "follows (w4 @ rest) \<and> super_ok ?K ?ts \<and> length ?ts + length tv \<le> m \<and> (\<forall>x\<in>set ?ts. tok_open x \<longrightarrow> is_container x)"
    using follows_blank [OF w(4) rest] len inside_facts(6) [OF ins2] by (simp add: super_ok_def)
  obtain sp' where sp': "sp' = ?K \<or> sp' = index_or_none (last_index tok_open ?ts)" and
    l: "jsmn_loop m ?q (s @ w4 @ rest) ?K (Suc n) ?ts = jsmn_loop m (?q + length s) (w4 @ rest) sp' (Suc n + length tv) (add_child ?K ?ts @ tv)"
    using doc [THEN spec, THEN spec, THEN spec, THEN spec, THEN mp, OF pre] by blast
  have "last_index tok_open ?ts = Some (length us)" using inside_facts(1) [OF ins2] .
  then have sp'': "sp' = ?K \<or> sp' = int (length us)" using sp' by (simp only: index_or_none.simps)
  let ?done = "us @ ?t # vs @ string_tok (p + length w1) k 1 # tv"
  have "\<forall>x\<in>set (string_tok (p + length w1) k 1 # tv). \<not> tok_open x" using closed no by simp
  from inside_facts(3) [OF ins1 this] have ins3: "inside us ?t (vs @ string_tok (p + length w1) k 1 # tv)" .
  have "comma_super sp' ?done = int (length us)"
    using sp''
  proof
    assume "sp' = ?K"
    then show ?thesis using comma_key [OF ins3] by (simp add: string_tok_def del: of_nat_add of_nat_Suc)
  next
    assume "sp' = int (length us)"
    then show ?thesis using comma_container [OF ins3] by simp
  qed
  moreover have "jsmn_loop m (?q + length s) (w4 @ rest) sp' (Suc n + length tv) (add_child ?K ?ts @ tv) =
      jsmn_loop m (p + length (w1 @ quoted k @ w2 @ '':'' @ w3 @ s @ w4)) rest sp' (n + Suc (length tv)) ?done"
    unfolding child using loop_blank [OF w(4)] by (simp add: quoted_def ac_simps)
  ultimately show ?thesis using start l by (intro exI [of _ sp']) simp
qed

lemma loop_json:
  "json_doc v p s tv \<Longrightarrow> \<forall>rest sp n ts. follows rest \<and> super_ok sp ts \<and> length ts + length tv \<le> m \<and>
      (\<forall>x\<in>set ts. tok_open x \<longrightarrow> is_container x) \<longrightarrow>
    (\<exists>sp'. (sp' = sp \<or> sp' = index_or_none (last_index tok_open ts)) \<and>
      jsmn_loop m p (s @ rest) sp n ts = jsmn_loop m (p + length s) rest sp' (n + length tv) (add_child sp ts @ tv))"
  "json_member km p s tm \<Longrightarrow> \<forall>rest n us t vs. follows rest \<and> inside us t vs \<and> length us + length vs + 1 + length tm \<le> m \<longrightarrow>
    (\<exists>sp'. comma_super sp' (us @ more_children 1 t # vs @ tm) = int (length us) \<and> jsmn_loop m p (s @ rest) (int (length us)) n (us @ t # vs) =
      jsmn_loop m (p + length s) rest sp' (n + length tm) (us @ more_children 1 t # vs @ tm))"
  "json_members ms p s tm \<Longrightarrow> \<forall>rest n us t vs. follows rest \<and> inside us t vs \<and> length us + length vs + 1 + length tm \<le> m \<longrightarrow>
    (\<exists>sp'. jsmn_loop m p (s @ rest) (int (length us)) n (us @ t # vs) =
      jsmn_loop m (p + length s) rest sp' (n + length tm) (us @ more_children (length ms) t # vs @ tm))"
  "json_elements es p s tm \<Longrightarrow> \<forall>rest n us t vs. follows rest \<and> inside us t vs \<and> length us + length vs + 1 + length tm \<le> m \<longrightarrow>
    (\<exists>sp'. jsmn_loop m p (s @ rest) (int (length us)) n (us @ t # vs) =
      jsmn_loop m (p + length s) rest sp' (n + length tm) (us @ more_children (length es) t # vs @ tm))"
proof (induction rule: json_doc_json_member_json_members_json_elements.inducts)
  case (doc_string s p)
  have "add_child sp (ts @ [string_tok p s 0]) = add_child sp ts @ [string_tok p s 0]" if "super_ok sp ts" for sp ts
    using add_child_append [OF that] .
  moreover have "length (quoted s) = length s + 2" by (simp add: quoted_def)
  ultimately show ?case using loop_string [OF doc_string] by auto
next
  case (doc_prim s p)
  show ?case using loop_prim [OF doc_prim] add_child_append by auto
next
  case (doc_object ms p s tm)
  show ?case
  proof (intro allI impI)
    fix rest sp n and ts :: "jsmntok list"
    let ?t = "\<lparr>tok_type = JSMN_OBJECT, tok_start = int p, tok_end = - 1, tok_size = 0\<rparr>"
    let ?c = "\<lparr>tok_type = JSMN_OBJECT, tok_start = int p, tok_end = int (p + length s + 2), tok_size = length ms\<rparr>"
    assume a: "follows rest \<and> super_ok sp ts \<and> length ts + length (?c # tm) \<le> m \<and> (\<forall>x\<in>set ts. tok_open x \<longrightarrow> is_container x)"
    then have ins: "inside (add_child sp ts) ?t []" using open_in_child [of sp ts] by (simp add: inside_def tok_open_def is_container_def)
    have "\<exists>sp'. jsmn_loop m (Suc p) (s @ CHR ''}'' # rest) (int (length ts)) (Suc n) (add_child sp ts @ [?t]) =
        jsmn_loop m (Suc p + length s) (CHR ''}'' # rest) sp' (Suc n + length tm) (add_child sp ts @ more_children (length ms) ?t # tm)"
      using doc_object.IH [THEN spec, THEN spec, THEN spec, THEN spec, THEN spec, THEN mp, of "CHR ''}'' # rest" "add_child sp ts" ?t "[]" "Suc n"]
        ins a by (simp add: follows_def ends_primitive_def)
    from loop_container [OF _ _ _ json_doc_closed(3) [OF doc_object.hyps] this, of "CHR ''{''"] a
    show "\<exists>sp'. (sp' = sp \<or> sp' = index_or_none (last_index tok_open ts)) \<and>
      jsmn_loop m p ((CHR ''{'' # s @ ''}'') @ rest) sp n ts =
      jsmn_loop m (p + length (CHR ''{'' # s @ ''}'')) rest sp' (n + length (?c # tm)) (add_child sp ts @ ?c # tm)" by auto
  qed
next
  case (doc_array es p s tm)
  show ?case
  proof (intro allI impI)
    fix rest sp n and ts :: "jsmntok list"
    let ?t = "\<lparr>tok_type = JSMN_ARRAY, tok_start = int p, tok_end = - 1, tok_size = 0\<rparr>"
    let ?c = "\<lparr>tok_type = JSMN_ARRAY, tok_start = int p, tok_end = int (p + length s + 2), tok_size = length es\<rparr>"
    assume a: "follows rest \<and> super_ok sp ts \<and> length ts + length (?c # tm) \<le> m \<and> (\<forall>x\<in>set ts. tok_open x \<longrightarrow> is_container x)"
    then have ins: "inside (add_child sp ts) ?t []" using open_in_child [of sp ts] by (simp add: inside_def tok_open_def is_container_def)
    have "\<exists>sp'. jsmn_loop m (Suc p) (s @ CHR '']'' # rest) (int (length ts)) (Suc n) (add_child sp ts @ [?t]) =
        jsmn_loop m (Suc p + length s) (CHR '']'' # rest) sp' (Suc n + length tm) (add_child sp ts @ more_children (length es) ?t # tm)"
      using doc_array.IH [THEN spec, THEN spec, THEN spec, THEN spec, THEN spec, THEN mp, of "CHR '']'' # rest" "add_child sp ts" ?t "[]" "Suc n"]
        ins a by (simp add: follows_def ends_primitive_def)
    from loop_container [OF _ _ _ json_doc_closed(4) [OF doc_array.hyps] this, of "CHR ''[''"] a
    show "\<exists>sp'. (sp' = sp \<or> sp' = index_or_none (last_index tok_open ts)) \<and>
      jsmn_loop m p ((CHR ''['' # s @ '']'') @ rest) sp n ts =
      jsmn_loop m (p + length (CHR ''['' # s @ '']'')) rest sp' (n + length (?c # tm)) (add_child sp ts @ ?c # tm)" by auto
  qed
next
  case (member w1 w2 w3 w4 k v p s tv)
  show ?case
    using loop_member [OF member(1-5) member.IH json_doc_closed(1) [OF member(6)]] by simp
next
  case (no_members w p)
  show ?case using loop_blank [OF no_members] by auto
next
  case (one_member m p s ts)
  then show ?case by fastforce
next
  case (more_members km p s tm ms s' tm')
  show ?case
  proof (intro allI impI)
    fix rest n us t vs
    assume a: "follows rest \<and> inside us t vs \<and> length us + length vs + 1 + length (tm @ tm') \<le> m"
    let ?ts = "us @ more_children 1 t # vs @ tm"
    have "follows (CHR '','' # s' @ rest) \<and> inside us t vs \<and> length us + length vs + 1 + length tm \<le> m"
      using a by (simp add: follows_def ends_primitive_def)
    from more_members.IH(1) [THEN spec, THEN spec, THEN spec, THEN spec, THEN spec, THEN mp, OF this, of n] obtain sp1 where
      1: "comma_super sp1 ?ts = int (length us)" "jsmn_loop m p (s @ CHR '','' # s' @ rest) (int (length us)) n (us @ t # vs) =
        jsmn_loop m (p + length s) (CHR '','' # s' @ rest) sp1 (n + length tm) ?ts" by blast
    have "inside us (more_children 1 t) (vs @ tm)"
      using inside_facts(3) [OF inside_facts(2)] a json_doc_closed(2) [OF more_members.hyps(1)] by blast
    then have "follows rest \<and> inside us (more_children 1 t) (vs @ tm) \<and> length us + length (vs @ tm) + 1 + length tm' \<le> m" using a by simp
    from more_members.IH(2) [THEN spec, THEN spec, THEN spec, THEN spec, THEN spec, THEN mp, OF this, of "n + length tm"] obtain sp2 where
      2: "jsmn_loop m (p + length s + 1) (s' @ rest) (int (length us)) (n + length tm) ?ts =
        jsmn_loop m (p + length s + 1 + length s') rest sp2 (n + length tm + length tm') (us @ more_children (length ms) (more_children 1 t) # (vs @ tm) @ tm')"
      by auto
    show "\<exists>sp'. jsmn_loop m p ((s @ '','' @ s') @ rest) (int (length us)) n (us @ t # vs) =
      jsmn_loop m (p + length (s @ '','' @ s')) rest sp' (n + length (tm @ tm')) (us @ more_children (length (km # ms)) t # vs @ tm @ tm')"
      using 1 2 by (intro exI [of _ sp2]) (simp add: loop_comma ac_simps)
  qed
next
  case (no_elements w p)
  show ?case using loop_blank [OF no_elements] by auto
next
  case (one_element w1 w2 v p s tv)
  show ?case
  proof (intro allI impI)
    fix rest n us t vs
    assume a: "follows rest \<and> inside us t vs \<and> length us + length vs + 1 + length tv \<le> m"
    then have ins: "inside us t vs" by simp
    let ?ts = "us @ t # vs"
    have "follows (w2 @ rest) \<and> super_ok (int (length us)) ?ts \<and> length ?ts + length tv \<le> m \<and> (\<forall>x\<in>set ?ts. tok_open x \<longrightarrow> is_container x)"
      using a follows_blank [OF one_element(2)] inside_facts(4,6) [OF ins] by simp
    from one_element.IH [THEN spec, THEN spec, THEN spec, THEN spec, THEN mp, OF this, of n] obtain sp' where
      "jsmn_loop m (p + length w1) (s @ w2 @ rest) (int (length us)) n ?ts =
        jsmn_loop m (p + length w1 + length s) (w2 @ rest) sp' (n + length tv) ((us @ more_children 1 t # vs) @ tv)"
      unfolding inside_facts(5) [OF ins] by blast
    then show "\<exists>sp'. jsmn_loop m p ((w1 @ s @ w2) @ rest) (int (length us)) n ?ts =
      jsmn_loop m (p + length (w1 @ s @ w2)) rest sp' (n + length tv) (us @ more_children (length [v]) t # vs @ tv)"
      using loop_blank [OF one_element(1)] loop_blank [OF one_element(2)] by (intro exI [of _ sp']) (simp add: ac_simps)
  qed
next
  case (more_elements w1 w2 v p s tv es s' te)
  show ?case
  proof (intro allI impI)
    fix rest n us t vs
    assume a: "follows rest \<and> inside us t vs \<and> length us + length vs + 1 + length (tv @ te) \<le> m"
    then have ins: "inside us t vs" by simp
    let ?ts = "us @ t # vs" and ?us = "us @ more_children 1 t # vs @ tv"
    have "follows (w2 @ CHR '','' # s' @ rest) \<and> super_ok (int (length us)) ?ts \<and> length ?ts + length tv \<le> m \<and>
        (\<forall>x\<in>set ?ts. tok_open x \<longrightarrow> is_container x)"
      using a follows_blank [OF more_elements(2)] inside_facts(4,6) [OF ins] by (simp add: follows_def ends_primitive_def)
    from more_elements.IH(1) [THEN spec, THEN spec, THEN spec, THEN spec, THEN mp, OF this, of n] obtain sp1 where
      sp1: "sp1 = int (length us) \<or> sp1 = index_or_none (last_index tok_open ?ts)" and
      1: "jsmn_loop m (p + length w1) (s @ w2 @ CHR '','' # s' @ rest) (int (length us)) n ?ts =
        jsmn_loop m (p + length w1 + length s) (w2 @ CHR '','' # s' @ rest) sp1 (n + length tv) ?us"
      unfolding inside_facts(5) [OF ins] by auto
    have sp1: "sp1 = int (length us)" using sp1 unfolding inside_facts(1) [OF ins] by simp
    have ins1: "inside us (more_children 1 t) (vs @ tv)"
      using inside_facts(3) [OF inside_facts(2) [OF ins]] json_doc_closed(1) [OF more_elements.hyps(3)] by blast
    then have "follows rest \<and> inside us (more_children 1 t) (vs @ tv) \<and> length us + length (vs @ tv) + 1 + length te \<le> m" using a by simp
    from more_elements.IH(2) [THEN spec, THEN spec, THEN spec, THEN spec, THEN spec, THEN mp, OF this, of "n + length tv"] obtain sp2 where
      2: "jsmn_loop m (p + length w1 + length s + length w2 + 1) (s' @ rest) (int (length us)) (n + length tv) ?us =
        jsmn_loop m (p + length w1 + length s + length w2 + 1 + length s') rest sp2 (n + length tv + length te)
          (us @ more_children (length es) (more_children 1 t) # (vs @ tv) @ te)" by auto
    have "comma_super (int (length us)) ?us = int (length us)" using comma_container [OF ins1] by simp
    then show "\<exists>sp'. jsmn_loop m p ((w1 @ s @ w2 @ '','' @ s') @ rest) (int (length us)) n ?ts =
      jsmn_loop m (p + length (w1 @ s @ w2 @ '','' @ s')) rest sp' (n + length (tv @ te)) (us @ more_children (length (v # es)) t # vs @ tv @ te)"
      using 1 2 loop_blank [OF more_elements(1)] loop_blank [OF more_elements(2)]
      by (intro exI [of _ sp2]) (simp add: loop_comma sp1 ac_simps)
  qed
qed

text \<open>C21. The text of a JSON document, with any white space around and between its values, is split into exactly the
  tokens of its values, in order, each with its place and the number of its members.\<close>

theorem jsmn_reads_document:
  assumes "json_doc v (length w) s ts" and "blank w" and "blank w'" and "length ts \<le> num_tokens"
  shows "jsmn_parse (w @ s @ w') num_tokens = Inr (length ts, ts)"
proof -
  have "follows w'" using follows_blank [OF assms(3), of "[]"] by (simp add: follows_def)
  then have "follows w' \<and> super_ok (- 1) [] \<and> length ([] :: jsmntok list) + length ts \<le> num_tokens \<and>
      (\<forall>x\<in>set []. tok_open x \<longrightarrow> is_container x)" using assms(4) by (simp add: super_ok_def)
  from loop_json(1) [OF assms(1), THEN spec, THEN spec, THEN spec, THEN spec, THEN mp, OF this, of 0] obtain sp' where
    l: "jsmn_loop num_tokens (length w) (s @ w') (- 1) 0 [] = jsmn_loop num_tokens (length w + length s) w' sp' (length ts) ts"
    by (auto simp: add_child_def)
  have "jsmn_parse (w @ s @ w') num_tokens = jsmn_loop num_tokens (length w + length s) (w' @ []) sp' (length ts) ts"
    using loop_blank [OF assms(2), of num_tokens 0] l by (simp add: jsmn_parse_def)
  also have "\<dots> = Inr (length ts, ts)"
    unfolding loop_blank [OF assms(3)] using json_doc_closed(1) [OF assms(1)] by simp
  finally show ?thesis .
qed

theorem jsmn_reads_document_witness:
  "jsmn_parse ([] @ ''{ '' @ quoted ''k'' @ '' : [ 1 ]}'' @ []) 4 = Inr (4,
     [\<lparr>tok_type = JSMN_OBJECT, tok_start = 0, tok_end = 14, tok_size = 1\<rparr>, string_tok 2 ''k'' 1,
      \<lparr>tok_type = JSMN_ARRAY, tok_start = 8, tok_end = 13, tok_size = 1\<rparr>,
      \<lparr>tok_type = JSMN_PRIMITIVE, tok_start = 10, tok_end = 11, tok_size = 0\<rparr>])"
proof -
  let ?one = "\<lparr>tok_type = JSMN_PRIMITIVE, tok_start = 10, tok_end = 11, tok_size = 0\<rparr>"
  let ?arr = "\<lparr>tok_type = JSMN_ARRAY, tok_start = 8, tok_end = 13, tok_size = 1\<rparr>"
  have blanks: "blank ''''" "blank '' ''" by (simp_all add: blank_def is_blank_def)
  have "json_doc (J_prim ''1'') 10 ''1'' [?one]" using doc_prim [of "''1''" 10] by (simp add: prim_text_def)
  then have "json_elements [J_prim ''1''] 9 '' 1 '' [?one]"
    using one_element [of "'' ''" "'' ''" "J_prim ''1''" 9 "''1''"] blanks by simp
  then have "json_doc (J_array [J_prim ''1'']) 8 ''[ 1 ]'' [?arr, ?one]"
    using doc_array [of "[J_prim ''1'']" 8 "'' 1 ''" "[?one]"] by simp
  then have "json_member (''k'', J_array [J_prim ''1'']) 1 ('' '' @ quoted ''k'' @ '' : [ 1 ]'') [string_tok 2 ''k'' 1, ?arr, ?one]"
    using member [of "'' ''" "'' ''" "'' ''" "''''" "''k''" "J_array [J_prim ''1'']" 1 "''[ 1 ]''"] blanks
    by (simp add: plain_text_def eval_nat_numeral)
  from doc_object [of _ 0, unfolded One_nat_def [symmetric], OF one_member [OF this]]
  have "json_doc (J_object [(''k'', J_array [J_prim ''1''])]) (length ('''' :: string)) (''{ '' @ quoted ''k'' @ '' : [ 1 ]}'')
      [\<lparr>tok_type = JSMN_OBJECT, tok_start = 0, tok_end = 14, tok_size = 1\<rparr>, string_tok 2 ''k'' 1, ?arr, ?one]"
    by (simp add: quoted_def)
  from jsmn_reads_document [OF this blanks(1,1), of 4] show ?thesis by simp
qed

end
