(* ===== verification/Avl.thy ===== *)
theory Avl
  imports Gcore_Prelude
begin

text \<open>
  lib/avl/avl.c: the search tree that the reader of profiles looks for duplicate pins with. A node that
  is NULL is \<open>AVL_null\<close>; the comparator can fault, because it dereferences the keys. Values are pointers,
  and NULL is \<open>None\<close>. Removing and traversing are not used by the library.
\<close>

datatype ('k, 'v) avl_node = AVL_null | AVL_node 'k "'v option" nat "('k, 'v) avl_node" "('k, 'v) avl_node"

type_synonym 'k comparator = "'k \<Rightarrow> 'k \<Rightarrow> int res"

section \<open>Balancing\<close>

fun GetHeight :: "('k, 'v) avl_node \<Rightarrow> nat" where
  "GetHeight AVL_null = 0"
| "GetHeight (AVL_node k v h l r) = h"

fun GetBalance :: "('k, 'v) avl_node \<Rightarrow> int" where
  "GetBalance AVL_null = 0"
| "GetBalance (AVL_node k v h l r) = int (GetHeight r) - int (GetHeight l)"

fun set_height :: "nat \<Rightarrow> ('k, 'v) avl_node \<Rightarrow> ('k, 'v) avl_node" where
  "set_height h AVL_null = AVL_null"
| "set_height h (AVL_node k v _ l r) = AVL_node k v h l r"

text \<open>The height of the node that moves down is taken from its left child twice, as in the code.\<close>

fun RotateSingleRight :: "('k, 'v) avl_node \<Rightarrow> ('k, 'v) avl_node res" where
  "RotateSingleRight (AVL_node ke ve _ (AVL_node kd vd _ a b) c) =
     (let left = GetHeight b; right = GetHeight b; e_height = max left right + 1 in
      Inr (AVL_node kd vd (e_height + 1) a (AVL_node ke ve e_height b c)))"
| "RotateSingleRight _ = Inl Crash_null"

fun RotateSingleLeft :: "('k, 'v) avl_node \<Rightarrow> ('k, 'v) avl_node res" where
  "RotateSingleLeft (AVL_node kd vd _ a (AVL_node ke ve _ b c)) =
     (let left = GetHeight a; right = GetHeight b; d_height = max left right + 1 in
      Inr (AVL_node ke ve (d_height + 1) (AVL_node kd vd d_height a b) c))"
| "RotateSingleLeft _ = Inl Crash_null"

fun RotateDoubleRight :: "('k, 'v) avl_node \<Rightarrow> ('k, 'v) avl_node res" where
  "RotateDoubleRight (AVL_node k v h l r) = bindR (RotateSingleLeft l) (\<lambda>l. RotateSingleRight (AVL_node k v h l r))"
| "RotateDoubleRight AVL_null = Inl Crash_null"

fun RotateDoubleLeft :: "('k, 'v) avl_node \<Rightarrow> ('k, 'v) avl_node res" where
  "RotateDoubleLeft (AVL_node k v h l r) = bindR (RotateSingleRight r) (\<lambda>r. RotateSingleLeft (AVL_node k v h l r))"
| "RotateDoubleLeft AVL_null = Inl Crash_null"

fun Balance :: "('k, 'v) avl_node \<Rightarrow> ('k, 'v) avl_node res" where
  "Balance AVL_null = Inl Crash_null"
| "Balance (AVL_node k v h l r) =
     (let t = AVL_node k v h l r in
      bindR (if GetBalance t < - 1 then (if GetBalance l > 0 then RotateDoubleRight t else RotateSingleRight t)
             else if GetBalance t > 1 then (if GetBalance r < 0 then RotateDoubleLeft t else RotateSingleLeft t)
             else Inr t) (\<lambda>t.
      case t of
        AVL_null \<Rightarrow> Inl Crash_null
      | AVL_node _ _ _ l r \<Rightarrow> Inr (set_height (max (GetHeight l) (GetHeight r) + 1) t)))"

section \<open>Inserting and finding\<close>

definition new_leaf :: "'k \<Rightarrow> 'v option \<Rightarrow> ('k, 'v) avl_node" where
  "new_leaf key val = AVL_node key val 1 AVL_null AVL_null"

text \<open>The end of \<^verbatim>\<open>Insert\<close> after a new node was linked to a node.\<close>

fun linked_leaf :: "('k, 'v) avl_node \<Rightarrow> ('k, 'v) avl_node res" where
  "linked_leaf AVL_null = Inl Crash_null"
| "linked_leaf (AVL_node k v h l r) = Balance (AVL_node k v (if (r = AVL_null) \<noteq> (l = AVL_null) then Suc h else h) l r)"

fun Insert :: "'k comparator \<Rightarrow> ('k, 'v) avl_node \<Rightarrow> 'k \<Rightarrow> 'v option \<Rightarrow> ('v option \<times> ('k, 'v) avl_node) res" where
  "Insert cmp AVL_null key val = Inr (None, new_leaf key val)"
| "Insert cmp (AVL_node k v h l r) key val =
     bindR (cmp key k) (\<lambda>rc.
     if rc < 0 then
       (if l \<noteq> AVL_null then
          bindR (Insert cmp l key val) (\<lambda>(x, l). bindR (Balance (AVL_node k v h l r)) (\<lambda>t. Inr (x, t)))
        else bindR (linked_leaf (AVL_node k v h (new_leaf key val) r)) (\<lambda>t. Inr (None, t)))
     else if rc > 0 then
       (if r \<noteq> AVL_null then
          bindR (Insert cmp r key val) (\<lambda>(x, r). bindR (Balance (AVL_node k v h l r)) (\<lambda>t. Inr (x, t)))
        else bindR (linked_leaf (AVL_node k v h l (new_leaf key val))) (\<lambda>t. Inr (None, t)))
     else Inr (v, AVL_node k v h l r))"

definition InsertAVL :: "'k comparator \<Rightarrow> ('k, 'v) avl_node \<Rightarrow> 'k \<Rightarrow> 'v option \<Rightarrow> ('v option \<times> ('k, 'v) avl_node) res" where
  "InsertAVL cmp root key val =
     bindR (Insert cmp root key val) (\<lambda>(x, root). bindR (Balance root) (\<lambda>root. Inr (x, root)))"

fun FindAVL :: "'k comparator \<Rightarrow> ('k, 'v) avl_node \<Rightarrow> 'k \<Rightarrow> 'v option res" where
  "FindAVL cmp AVL_null key = Inr None"
| "FindAVL cmp (AVL_node k v h l r) key =
     bindR (cmp key k) (\<lambda>rc. if rc < 0 then FindAVL cmp l key else if rc > 0 then FindAVL cmp r key else Inr v)"

section \<open>Order\<close>

fun in_order :: "('k, 'v) avl_node \<Rightarrow> ('k \<times> 'v option) list" where
  "in_order AVL_null = []"
| "in_order (AVL_node k v h l r) = in_order l @ (k, v) # in_order r"

lemma in_order_height [simp]: "in_order (set_height h t) = in_order t"
  by (cases t) simp_all

lemma in_order_Nil [simp]: "in_order t = [] \<longleftrightarrow> t = AVL_null"
  by (cases t) simp_all

lemma rotate_right_in_order: "RotateSingleRight t = Inr t' \<Longrightarrow> in_order t' = in_order t \<and> t' \<noteq> AVL_null"
  by (cases t rule: RotateSingleRight.cases) (auto simp: Let_def)

lemma rotate_left_in_order: "RotateSingleLeft t = Inr t' \<Longrightarrow> in_order t' = in_order t \<and> t' \<noteq> AVL_null"
  by (cases t rule: RotateSingleLeft.cases) (auto simp: Let_def)

lemmas rotations_in_order = rotate_right_in_order rotate_left_in_order

lemma double_rotations_in_order:
  "RotateDoubleRight t = Inr t' \<Longrightarrow> in_order t' = in_order t \<and> t' \<noteq> AVL_null"
  "RotateDoubleLeft t = Inr t' \<Longrightarrow> in_order t' = in_order t \<and> t' \<noteq> AVL_null"
  by (cases t; auto simp: bindR_Inr_iff dest!: rotations_in_order)+

text \<open>Whatever the stored heights, a rotation has the nodes that it needs: a subtree that is NULL has height 0.\<close>

lemma rotate_right_runs: "l \<noteq> AVL_null \<Longrightarrow> \<exists>t. RotateSingleRight (AVL_node k v h l r) = Inr t"
  by (cases l) (simp_all add: Let_def)

lemma rotate_left_runs: "r \<noteq> AVL_null \<Longrightarrow> \<exists>t. RotateSingleLeft (AVL_node k v h l r) = Inr t"
  by (cases r) (simp_all add: Let_def)

lemma balance_child: "GetBalance t > 0 \<Longrightarrow> \<exists>k v h l r. t = AVL_node k v h l r \<and> r \<noteq> AVL_null"
  "GetBalance t < 0 \<Longrightarrow> \<exists>k v h l r. t = AVL_node k v h l r \<and> l \<noteq> AVL_null"
  by (cases t; auto)+

lemma Balance_runs:
  assumes "t \<noteq> AVL_null"
  shows "\<exists>t'. Balance t = Inr t' \<and> in_order t' = in_order t"
proof -
  obtain k v h l r where t: "t = AVL_node k v h l r" using assms by (cases t) auto
  let ?rot = "if GetBalance t < - 1 then (if GetBalance l > 0 then RotateDoubleRight t else RotateSingleRight t)
    else if GetBalance t > 1 then (if GetBalance r < 0 then RotateDoubleLeft t else RotateSingleLeft t) else Inr t"
  have "\<exists>t'. ?rot = Inr t' \<and> in_order t' = in_order t \<and> t' \<noteq> AVL_null"
  proof (cases "GetBalance t < - 1")
    case True
    then have l: "l \<noteq> AVL_null" by (auto simp: t)
    have "\<exists>t'. (if GetBalance l > 0 then RotateDoubleRight t else RotateSingleRight t) = Inr t'"
    proof (cases "GetBalance l > 0")
      case pos: True
      then obtain l' where "RotateSingleLeft l = Inr l'" using balance_child(1) rotate_left_runs by metis
      moreover from this have "l' \<noteq> AVL_null" using rotations_in_order(2) by blast
      ultimately show ?thesis using pos rotate_right_runs by (fastforce simp: t)
    qed (use rotate_right_runs [OF l] in \<open>simp add: t\<close>)
    then show ?thesis using True by (auto dest: rotations_in_order double_rotations_in_order split: if_splits)
  next
    case small: False
    show ?thesis
    proof (cases "GetBalance t > 1")
      case True
      then have r: "r \<noteq> AVL_null" by (auto simp: t)
      have "\<exists>t'. (if GetBalance r < 0 then RotateDoubleLeft t else RotateSingleLeft t) = Inr t'"
      proof (cases "GetBalance r < 0")
        case neg: True
        then obtain r' where "RotateSingleRight r = Inr r'" using balance_child(2) rotate_right_runs by metis
        moreover from this have "r' \<noteq> AVL_null" using rotations_in_order(1) by blast
        ultimately show ?thesis using neg rotate_left_runs by (fastforce simp: t)
      qed (use rotate_left_runs [OF r] in \<open>simp add: t\<close>)
      then show ?thesis using True small by (auto dest: rotations_in_order double_rotations_in_order split: if_splits)
    qed (use small assms in simp)
  qed
  then obtain t' where "?rot = Inr t'" "in_order t' = in_order t" "t' \<noteq> AVL_null" by blast
  then show ?thesis unfolding t by (cases t') (auto simp: Let_def simp del: GetBalance.simps)
qed

section \<open>The contract\<close>

text \<open>A comparator that orders the keys that are used, by their ranks.\<close>

locale key_order =
  fixes cmp :: "'k comparator" and valid :: "'k \<Rightarrow> bool" and rank :: "'k \<Rightarrow> 'r :: linorder"
  assumes compares: "valid a \<Longrightarrow> valid b \<Longrightarrow>
    \<exists>rc. cmp a b = Inr rc \<and> (rc < 0 \<longleftrightarrow> rank a < rank b) \<and> (rc > 0 \<longleftrightarrow> rank b < rank a)"
begin

definition search_tree :: "('k, 'v) avl_node \<Rightarrow> bool" where
  "search_tree t \<longleftrightarrow> sorted_wrt (<) (map (rank \<circ> fst) (in_order t)) \<and> (\<forall>k\<in>fst ` set (in_order t). valid k)"

definition table :: "('k, 'v) avl_node \<Rightarrow> 'r \<rightharpoonup> 'v option" where
  "table t = map_of (map (\<lambda>(k, v). (rank k, v)) (in_order t))"

lemma search_node:
  "search_tree (AVL_node k v h l r) \<longleftrightarrow> search_tree l \<and> search_tree r \<and> valid k \<and>
    (\<forall>x\<in>rank ` fst ` set (in_order l). x < rank k) \<and> (\<forall>x\<in>rank ` fst ` set (in_order r). rank k < x)"
  by (auto simp: search_tree_def sorted_wrt_append) (metis fst_conv less_trans)

lemma table_absent: "x \<notin> rank ` fst ` set (in_order t) \<Longrightarrow> table t x = None"
  by (force simp: table_def map_of_eq_None_iff)

lemma table_node:
  assumes "search_tree (AVL_node k v h l r)"
  shows "table (AVL_node k v h l r) x = (if x < rank k then table l x else if rank k < x then table r x else Some v)"
proof -
  have t: "table (AVL_node k v h l r) x = (case table l x of None \<Rightarrow> if x = rank k then Some v else table r x | y \<Rightarrow> y)"
    by (simp add: table_def map_add_def split: option.split)
  have l: "\<not> x < rank k \<Longrightarrow> table l x = None" and r: "\<not> rank k < x \<Longrightarrow> table r x = None"
    using assms by (auto simp: search_node intro!: table_absent)
  show ?thesis using l r by (auto simp: t split: option.splits)
qed

lemma table_null [simp]: "table AVL_null = Map.empty"
  by (simp add: table_def)

lemma FindAVL_table: "search_tree t \<Longrightarrow> valid key \<Longrightarrow> FindAVL cmp t key = Inr (case table t (rank key) of None \<Rightarrow> None | Some v \<Rightarrow> v)"
proof (induction t)
  case (AVL_node k v h l r)
  then have parts: "search_tree l" "search_tree r" "valid k" by (simp_all add: search_node)
  then obtain rc where "cmp key k = Inr rc" "rc < 0 \<longleftrightarrow> rank key < rank k" "rc > 0 \<longleftrightarrow> rank k < rank key"
    using compares AVL_node.prems(2) by blast
  then show ?case using AVL_node.IH parts(1,2) AVL_node.prems(2) by (simp add: table_node [OF AVL_node.prems(1)])
qed simp

lemma same_order: "in_order t = in_order t' \<Longrightarrow> search_tree t = search_tree t' \<and> table t = table t'"
  by (simp add: search_tree_def table_def)

lemma ranks_table: "rank ` fst ` set (in_order t) = dom (table t)"
  by (force simp: table_def dom_map_of_conv_image_fst)

text \<open>An insertion adds the key with its value unless the key is there, and returns the value that is there.\<close>

definition inserted :: "('k, 'v) avl_node \<Rightarrow> 'k \<Rightarrow> 'v option \<Rightarrow> 'v option \<Rightarrow> ('k, 'v) avl_node \<Rightarrow> bool" where
  "inserted t key val x t' \<longleftrightarrow> search_tree t' \<and> t' \<noteq> AVL_null \<and>
     (case table t (rank key) of
        None \<Rightarrow> x = None \<and> table t' = (table t)(rank key \<mapsto> val)
      | Some v \<Rightarrow> x = v \<and> table t' = table t)"

lemma new_leaf_search: "valid key \<Longrightarrow> search_tree (new_leaf key val)" "table (new_leaf key val) = [rank key \<mapsto> val]"
  by (simp_all add: search_tree_def table_def new_leaf_def)

lemma inserted_left:
  assumes t: "search_tree (AVL_node k v h l r)" and ins: "inserted l key val x l'" and less: "rank key < rank k"
    and bal: "in_order t' = in_order (AVL_node k v h' l' r)" and null: "t' \<noteq> AVL_null"
  shows "inserted (AVL_node k v h l r) key val x t'"
proof -
  have dom: "dom (table l') \<subseteq> insert (rank key) (dom (table l))" using ins by (auto simp: inserted_def split: option.splits if_splits)
  then have s: "search_tree (AVL_node k v h' l' r)"
    using t ins less subsetD [OF dom] unfolding search_node ranks_table by (fastforce simp: inserted_def)
  have "table t' y = (if y < rank k then table l' y else if rank k < y then table r y else Some v)" for y
    using same_order [OF bal] table_node [OF s] by simp
  then show ?thesis using same_order [OF bal] s null ins less
    by (auto simp: inserted_def table_node [OF t] fun_eq_iff split: option.splits)
qed

lemma inserted_right:
  assumes t: "search_tree (AVL_node k v h l r)" and ins: "inserted r key val x r'" and less: "rank k < rank key"
    and bal: "in_order t' = in_order (AVL_node k v h' l r')" and null: "t' \<noteq> AVL_null"
  shows "inserted (AVL_node k v h l r) key val x t'"
proof -
  have dom: "dom (table r') \<subseteq> insert (rank key) (dom (table r))" using ins by (auto simp: inserted_def split: option.splits if_splits)
  then have s: "search_tree (AVL_node k v h' l r')"
    using t ins less subsetD [OF dom] unfolding search_node ranks_table by (fastforce simp: inserted_def)
  have "table t' y = (if y < rank k then table l y else if rank k < y then table r' y else Some v)" for y
    using same_order [OF bal] table_node [OF s] by simp
  moreover have "\<not> rank key < rank k" using less by simp
  ultimately show ?thesis using same_order [OF bal] s null ins less
    by (auto simp: inserted_def table_node [OF t] fun_eq_iff split: option.splits)
qed

lemma balanced: "\<exists>t'. Balance (AVL_node k v h l r) = Inr t' \<and> in_order t' = in_order (AVL_node k v h l r) \<and> t' \<noteq> AVL_null"
proof -
  obtain t' where "Balance (AVL_node k v h l r) = Inr t'" "in_order t' = in_order (AVL_node k v h l r)"
    using Balance_runs [of "AVL_node k v h l r"] by blast
  moreover from this have "t' \<noteq> AVL_null" by (metis avl_node.distinct(1) in_order_Nil)
  ultimately show ?thesis by blast
qed

lemma linked_balanced: "\<exists>t'. linked_leaf (AVL_node k v h l r) = Inr t' \<and> in_order t' = in_order (AVL_node k v h l r) \<and> t' \<noteq> AVL_null"
proof -
  define h' where "h' = (if (r = AVL_null) \<noteq> (l = AVL_null) then Suc h else h)"
  have "linked_leaf (AVL_node k v h l r) = Balance (AVL_node k v h' l r)" by (simp add: h'_def del: Balance.simps)
  then show ?thesis using balanced [of k v h' l r] by simp
qed

lemma inserted_leaf: "valid key \<Longrightarrow> inserted AVL_null key val None (new_leaf key val)"
  using new_leaf_search [of key val] by (simp add: inserted_def) (simp add: new_leaf_def)

lemma Insert_inserted:
  assumes "search_tree t" and "valid key"
  shows "\<exists>x t'. Insert cmp t key val = Inr (x, t') \<and> inserted t key val x t'"
  using assms(1)
proof (induction t)
  case AVL_null
  then show ?case using inserted_leaf [OF assms(2)] by simp
next
  case (AVL_node k v h l r)
  then have parts: "search_tree l" "search_tree r" "valid k" by (simp_all add: search_node)
  then obtain rc where rc: "cmp key k = Inr rc" "rc < 0 \<longleftrightarrow> rank key < rank k" "rc > 0 \<longleftrightarrow> rank k < rank key"
    using compares assms(2) by blast
  consider (left) "rank key < rank k" | (right) "rank k < rank key" | (found) "rank key = rank k" by fastforce
  then show ?case
  proof cases
    case left
    then have neg: "rc < 0" using rc(2) by simp
    obtain x l' where ins: "inserted l key val x l'" and l': "l \<noteq> AVL_null \<Longrightarrow> Insert cmp l key val = Inr (x, l')"
      "l = AVL_null \<Longrightarrow> x = None \<and> l' = new_leaf key val"
      using AVL_node.IH(1) [OF parts(1)] inserted_leaf [OF assms(2)] by (cases "l = AVL_null") auto
    obtain t1 where t1: "Balance (AVL_node k v h l' r) = Inr t1" "in_order t1 = in_order (AVL_node k v h l' r)" "t1 \<noteq> AVL_null"
      using balanced [of k v h l' r] by blast
    obtain t2 where t2: "linked_leaf (AVL_node k v h l' r) = Inr t2" "in_order t2 = in_order (AVL_node k v h l' r)" "t2 \<noteq> AVL_null"
      using linked_balanced [of k v h l' r] by blast
    show ?thesis
    proof (cases "l = AVL_null")
      case True
      then show ?thesis using inserted_left [OF AVL_node.prems ins left t2(2,3)] rc(1) neg l'(2) t2(1)
        by (simp del: linked_leaf.simps)
    next
      case False
      then show ?thesis using inserted_left [OF AVL_node.prems ins left t1(2,3)] rc(1) neg l'(1) t1(1)
        by (simp del: Balance.simps)
    qed
  next
    case right
    then have pos: "\<not> rc < 0" "rc > 0" using rc(2,3) by auto
    obtain x r' where ins: "inserted r key val x r'" and r': "r \<noteq> AVL_null \<Longrightarrow> Insert cmp r key val = Inr (x, r')"
      "r = AVL_null \<Longrightarrow> x = None \<and> r' = new_leaf key val"
      using AVL_node.IH(2) [OF parts(2)] inserted_leaf [OF assms(2)] by (cases "r = AVL_null") auto
    obtain t1 where t1: "Balance (AVL_node k v h l r') = Inr t1" "in_order t1 = in_order (AVL_node k v h l r')" "t1 \<noteq> AVL_null"
      using balanced [of k v h l r'] by blast
    obtain t2 where t2: "linked_leaf (AVL_node k v h l r') = Inr t2" "in_order t2 = in_order (AVL_node k v h l r')" "t2 \<noteq> AVL_null"
      using linked_balanced [of k v h l r'] by blast
    show ?thesis
    proof (cases "r = AVL_null")
      case True
      then show ?thesis using inserted_right [OF AVL_node.prems ins right t2(2,3)] rc(1) pos r'(2) t2(1)
        by (simp del: linked_leaf.simps)
    next
      case False
      then show ?thesis using inserted_right [OF AVL_node.prems ins right t1(2,3)] rc(1) pos r'(1) t1(1)
        by (simp del: Balance.simps)
    qed
  next
    case found
    then show ?thesis using rc AVL_node.prems table_node [OF AVL_node.prems, of "rank key"] by (simp add: inserted_def)
  qed
qed

lemma InsertAVL_inserted:
  assumes "search_tree t" and "valid key"
  shows "\<exists>x t'. InsertAVL cmp t key val = Inr (x, t') \<and> inserted t key val x t'"
proof -
  obtain x t' where t': "Insert cmp t key val = Inr (x, t')" "inserted t key val x t'"
    using Insert_inserted [OF assms] by blast
  then have "t' \<noteq> AVL_null" by (simp add: inserted_def)
  then obtain t2 where t2: "Balance t' = Inr t2" "in_order t2 = in_order t'" using Balance_runs by blast
  have "t2 \<noteq> AVL_null" using t2(2) \<open>t' \<noteq> AVL_null\<close> by (metis in_order_Nil)
  then have "inserted t key val x t2" using t'(2) same_order [OF t2(2)] by (auto simp: inserted_def split: option.splits)
  then show ?thesis using t'(1) t2(1) by (simp add: InsertAVL_def)
qed

lemma search_null: "search_tree AVL_null"
  by (simp add: search_tree_def)

end

end
