(* ===== verification/Util_Time.thy ===== *)
theory Util_Time
  imports Util
begin

text \<open>
  Dates in the database: the two conversions of util.c between the seconds since 1970 and the text
  \<^verbatim>\<open>YYYY-MM-DD HH:MM:SS\<close>, with what they use of the C library (\<^verbatim>\<open>gmtime\<close>, \<^verbatim>\<open>strftime\<close>, \<^verbatim>\<open>strptime\<close>,
  \<^verbatim>\<open>mktime\<close>, as the GNU C library has them). Text is written in UTC and read in local time, so the
  offset of the local time is a parameter. So is a value that the code never sets: the structure that
  \<^verbatim>\<open>strptime\<close> fills is not initialised, and its field \<^verbatim>\<open>tm_isdst\<close>, which tells \<^verbatim>\<open>mktime\<close> whether daylight
  saving time is in effect, holds whatever the stack did.
\<close>

section \<open>Decimal numbers\<close>

definition digit_char :: "nat \<Rightarrow> char" where
  "digit_char d = char_of (48 + d)"

fun dec_nat :: "nat \<Rightarrow> string" where
  "dec_nat n = (if n < 10 then [digit_char n] else dec_nat (n div 10) @ [digit_char (n mod 10)])"

declare dec_nat.simps [simp del]

definition dec_int :: "int \<Rightarrow> string" where
  "dec_int i = (if i < 0 then CHR ''-'' # dec_nat (nat (- i)) else dec_nat (nat i))"

lemma of_char_digit [simp]: "d < 10 \<Longrightarrow> of_char (digit_char d) = 48 + d"
  by (simp add: digit_char_def)

lemma digit_char_facts [simp]:
  assumes "d < 10"
  shows "c_isdigit (digit_char d)" and "digit_value (digit_char d) = d" and "\<not> c_isspace (digit_char d)"
    and "digit_char d \<noteq> CHR 0x20" and "digit_char d \<noteq> CHR ''-''" and "digit_char d \<noteq> CHR ''+''"
    and "digit_char d \<noteq> CHR 0x27"
proof -
  have c: "of_char (digit_char d) = 48 + d" using assms by simp
  show "c_isdigit (digit_char d)" "digit_value (digit_char d) = d" "\<not> c_isspace (digit_char d)"
    using assms by (simp_all add: c_isdigit_def digit_value_def c_isspace_def)
  show "digit_char d \<noteq> CHR 0x20" "digit_char d \<noteq> CHR ''-''" "digit_char d \<noteq> CHR ''+''" "digit_char d \<noteq> CHR 0x27"
    using c by (auto dest!: arg_cong [where f = "of_char :: char \<Rightarrow> nat"])
qed

lemma digits_value_snoc: "digits_value (ds @ [c]) = 10 * digits_value ds + digit_value c"
  by (simp add: digits_value_def)

lemma dec_nat_digits: "set (dec_nat n) \<subseteq> digit_char ` {..<10}" and dec_nat_value: "digits_value (dec_nat n) = n"
  and dec_nat_not_Nil: "dec_nat n \<noteq> []"
proof -
  show "set (dec_nat n) \<subseteq> digit_char ` {..<10}"
    by (induction n rule: dec_nat.induct) (subst dec_nat.simps, auto split: if_splits)
  show "digits_value (dec_nat n) = n"
    by (induction n rule: dec_nat.induct)
      (subst dec_nat.simps, auto simp: digits_value_snoc, simp add: digits_value_def)
  show "dec_nat n \<noteq> []" by (subst dec_nat.simps) simp
qed

section \<open>Dates\<close>

definition leap :: "nat \<Rightarrow> bool" where
  "leap y \<longleftrightarrow> 4 dvd y \<and> (\<not> 100 dvd y \<or> 400 dvd y)"

definition month_days :: "nat \<Rightarrow> nat list" where
  "month_days y = [31, if leap y then 29 else 28, 31, 30, 31, 30, 31, 31, 30, 31, 30, 31]"

definition year_days :: "nat \<Rightarrow> nat" where
  "year_days y = (if leap y then 366 else 365)"

lemma year_days_pos [simp]: "0 < year_days y" "year_days y \<noteq> 0"
  by (simp_all add: year_days_def)

lemma sum_month_days: "sum_list (month_days y) = year_days y"
  by (simp add: month_days_def year_days_def)

text \<open>The year and the month that a day falls in, and the days left over.\<close>

function year_of_day :: "nat \<Rightarrow> nat \<Rightarrow> nat \<times> nat" where
  "year_of_day y d = (if d < year_days y then (y, d) else year_of_day (Suc y) (d - year_days y))"
  by pat_completeness auto

termination
  by (relation "measure snd") (auto simp: not_less year_days_def)

declare year_of_day.simps [simp del]

fun month_of_day :: "nat list \<Rightarrow> nat \<Rightarrow> nat \<times> nat" where
  "month_of_day [] d = (0, d)"
| "month_of_day (m # ms) d = (if d < m then (0, d) else let (k, r) = month_of_day ms (d - m) in (Suc k, r))"

record c_tm =
  tm_year :: nat
  tm_mon :: nat
  tm_mday :: nat
  tm_hour :: nat
  tm_min :: nat
  tm_sec :: nat

definition c_gmtime :: "nat \<Rightarrow> c_tm" where
  "c_gmtime epoch =
     (let (y, yd) = year_of_day 1970 (epoch div 86400);
          (m, md) = month_of_day (month_days y) yd;
          s = epoch mod 86400
      in \<lparr>tm_year = y, tm_mon = Suc m, tm_mday = Suc md,
          tm_hour = s div 3600, tm_min = s mod 3600 div 60, tm_sec = s mod 60\<rparr>)"

definition two_digits :: "nat \<Rightarrow> string" where
  "two_digits n = [digit_char (n div 10), digit_char (n mod 10)]"

definition c_strftime :: "c_tm \<Rightarrow> string" where
  "c_strftime tm =
     dec_nat (tm_year tm) @ ''-'' @ two_digits (tm_mon tm) @ ''-'' @ two_digits (tm_mday tm) @ '' '' @
     two_digits (tm_hour tm) @ '':'' @ two_digits (tm_min tm) @ '':'' @ two_digits (tm_sec tm)"

text \<open>A field of \<^verbatim>\<open>strptime\<close>: blanks, then at most \<open>n\<close> digits of a number between \<open>lo\<close> and \<open>hi\<close>.\<close>

fun number_loop :: "nat \<Rightarrow> nat \<Rightarrow> nat \<Rightarrow> string \<Rightarrow> nat \<times> string" where
  "number_loop hi n v [] = (v, [])"
| "number_loop hi 0 v (c # s) = (v, c # s)"
| "number_loop hi (Suc n) v (c # s) =
     (if v * 10 \<le> hi \<and> c_isdigit c then number_loop hi n (10 * v + digit_value c) s else (v, c # s))"

definition get_number :: "nat \<Rightarrow> nat \<Rightarrow> nat \<Rightarrow> string \<Rightarrow> (nat \<times> string) option" where
  "get_number lo hi n s =
     (case dropWhile (\<lambda>c. c = CHR 0x20) s of
        [] \<Rightarrow> None
      | c # s \<Rightarrow>
          if \<not> c_isdigit c then None
          else let (v, s) = number_loop hi (n - 1) (digit_value c) s in
            if v < lo \<or> v > hi then None else Some (v, s))"

definition skip_char :: "char \<Rightarrow> string \<Rightarrow> string option" where
  "skip_char c s = (case s of [] \<Rightarrow> None | d # s \<Rightarrow> if c = d then Some s else None)"

definition c_strptime :: "string \<Rightarrow> c_tm option" where
  "c_strptime s =
     Option.bind (get_number 0 9999 4 s) (\<lambda>(y, s). Option.bind (skip_char CHR ''-'' s) (\<lambda>s.
     Option.bind (get_number 1 12 2 s) (\<lambda>(m, s). Option.bind (skip_char CHR ''-'' s) (\<lambda>s.
     Option.bind (get_number 1 31 2 s) (\<lambda>(d, s).
     Option.bind (get_number 0 23 2 (dropWhile c_isspace s)) (\<lambda>(h, s). Option.bind (skip_char CHR '':'' s) (\<lambda>s.
     Option.bind (get_number 0 59 2 s) (\<lambda>(mi, s). Option.bind (skip_char CHR '':'' s) (\<lambda>s.
     Option.bind (get_number 0 61 2 s) (\<lambda>(sec, s).
     Some \<lparr>tm_year = y, tm_mon = m, tm_mday = d, tm_hour = h, tm_min = mi, tm_sec = sec\<rparr>))))))))))"

text \<open>The seconds from 1970 to a date in UTC, and \<^verbatim>\<open>mktime\<close>, which takes the date for local time.\<close>

definition days_of_years :: "nat \<Rightarrow> nat" where
  "days_of_years y = 365 * y + (y + 3) div 4 + (y + 399) div 400 - (y + 99) div 100"

definition utc_seconds :: "c_tm \<Rightarrow> int" where
  "utc_seconds tm =
     86400 * (int (days_of_years (tm_year tm)) - int (days_of_years 1970) +
       int (sum_list (take (tm_mon tm - 1) (month_days (tm_year tm)))) + int (tm_mday tm) - 1) +
     3600 * int (tm_hour tm) + 60 * int (tm_min tm) + int (tm_sec tm)"

text \<open>
  The clock that a conversion meets: \<open>zone\<close> is the offset that \<^verbatim>\<open>mktime\<close> subtracts, given the value of
  \<^verbatim>\<open>tm_isdst\<close> and the date, and \<open>stale\<close> is what the stack holds in that field when a text is converted.
\<close>

record c_clock =
  zone :: "int \<Rightarrow> int \<Rightarrow> int"
  stale :: "string \<Rightarrow> int"

definition c_mktime :: "c_clock \<Rightarrow> int \<Rightarrow> c_tm \<Rightarrow> int" where
  "c_mktime tz tm_isdst tm = utc_seconds tm - zone tz tm_isdst (utc_seconds tm)"

section \<open>The conversions\<close>

text \<open>\<^verbatim>\<open>gmtime\<close> returns NULL when the year does not fit an \<^verbatim>\<open>int\<close>, and the code does not check that.\<close>

definition util_epoch_to_dt :: "int \<Rightarrow> string res" where
  "util_epoch_to_dt epoch =
     (if epoch \<le> 0 then Inr ''''
      else let tm = c_gmtime (nat epoch) in
        if tm_year tm \<ge> 1900 + 2 ^ 31 then Inl Crash_null else Inr (c_strftime tm))"

text \<open>The field \<^verbatim>\<open>tm_isdst\<close> is read without having been written.\<close>

definition util_dt_to_epoch :: "c_clock \<Rightarrow> string option \<Rightarrow> int res" where
  "util_dt_to_epoch tz dt =
     (case dt of
        None \<Rightarrow> Inr (- 1)
      | Some s \<Rightarrow>
          if s = [] then Inr 0
          else case c_strptime s of None \<Rightarrow> Inl Bad_format | Some tm \<Rightarrow> Inr (c_mktime tz (stale tz s) tm))"

section \<open>Writing a date and reading it\<close>

lemma ceiling_div:
  assumes "0 < n"
  shows "(y + (n - 1)) div n = y div n + (if n dvd y then 0 else (1 :: nat))"
proof -
  define r where "r = y mod n"
  have "y + (n - 1) = (r + (n - 1)) + n * (y div n)" by (simp add: r_def)
  then have "(y + (n - 1)) div n = (r + (n - 1)) div n + y div n"
    using assms div_mult_self2 [of n "r + (n - 1)" "y div n"] by (simp only: add.commute)
  moreover have "(r + (n - 1)) div n = (if r = 0 then 0 else 1)"
  proof (cases "r = 0")
    case False
    then have "r + (n - 1) = (r - 1) + n" using assms by simp
    moreover have "(r - 1 + n) div n = (r - 1) div n + 1" using assms by (intro div_add_self2) simp
    moreover have "(r - 1) div n = 0" using assms by (simp add: r_def less_imp_diff_less)
    ultimately show ?thesis using False by simp
  qed (use assms in simp)
  ultimately show ?thesis by (simp add: r_def dvd_eq_mod_eq_0)
qed

lemma ceiling_div_Suc:
  assumes "0 < n"
  shows "(Suc y + (n - 1)) div n = (y + (n - 1)) div n + (if n dvd y then (1 :: nat) else 0)"
proof -
  have "Suc y + (n - 1) = y + n" using assms by simp
  then have "(Suc y + (n - 1)) div n = y div n + 1" using assms div_add_self2 [of n y] by (simp only:)
  then show ?thesis using ceiling_div [OF assms, of y] by simp
qed

lemma leap_count:
  fixes a b c y :: nat
  assumes "a' = a + (if p then 1 else 0)" and "c' = c + (if q then 1 else 0)" and "b' = b + (if r then 1 else 0)"
    and "c \<le> 365 * y" and "q \<Longrightarrow> p" and "r \<Longrightarrow> q"
  shows "365 * Suc y + a' + b' - c' = 365 * y + a + b - c + (if p \<and> (\<not> q \<or> r) then 366 else 365)"
  using assms by (cases p; cases q; cases r) simp_all

lemma days_of_years_Suc: "days_of_years (Suc y) = days_of_years y + year_days y"
proof -
  have "(Suc y + 3) div 4 = (y + 3) div 4 + (if 4 dvd y then 1 else 0)"
    using ceiling_div_Suc [of 4 y] by simp
  moreover have "(Suc y + 99) div 100 = (y + 99) div 100 + (if 100 dvd y then 1 else 0)"
    using ceiling_div_Suc [of 100 y] by simp
  moreover have "(Suc y + 399) div 400 = (y + 399) div 400 + (if 400 dvd y then 1 else 0)"
    using ceiling_div_Suc [of 400 y] by simp
  moreover have "(y + 99) div 100 \<le> 365 * y"
  proof (cases y)
    case (Suc z)
    have "(y + 99) div 100 = z div 100 + 1" using div_add_self2 [of 100 z] by (simp add: Suc)
    moreover have "z div 100 \<le> z" by simp
    ultimately have "(y + 99) div 100 \<le> z + 1" by simp
    then show ?thesis using Suc by simp
  qed simp
  moreover have "100 dvd y \<Longrightarrow> 4 dvd y" "400 dvd y \<Longrightarrow> 100 dvd y"
    using dvd_trans [of 4 100 y] dvd_trans [of 100 400 y] by simp_all
  ultimately show ?thesis unfolding days_of_years_def year_days_def leap_def by (intro leap_count) blast+
qed

lemma year_of_day_days:
  "year_of_day y d = (z, r) \<Longrightarrow> y \<le> z \<and> r < year_days z \<and> days_of_years z + r = days_of_years y + d"
proof (induction y d rule: year_of_day.induct)
  case (1 y d)
  show ?case
  proof (cases "d < year_days y")
    case True
    then show ?thesis using 1 by (simp add: year_of_day.simps [of y d])
  next
    case False
    with 1 show ?thesis by (auto simp: year_of_day.simps [of y d] days_of_years_Suc)
  qed
qed

lemma month_of_day_days:
  "month_of_day ms d = (k, r) \<Longrightarrow> d < sum_list ms \<Longrightarrow>
   k < length ms \<and> r < ms ! k \<and> sum_list (take k ms) + r = d"
proof (induction ms arbitrary: d k r)
  case (Cons m ms)
  show ?case
  proof (cases "d < m")
    case False
    then obtain j where j: "month_of_day ms (d - m) = (j, r)" "k = Suc j"
      using Cons.prems(1) by (auto split: prod.splits)
    have "d - m < sum_list ms" using Cons.prems(2) False by simp
    from Cons.IH [OF j(1) this] have "j < length ms" "r < ms ! j" "sum_list (take j ms) + r = d - m" by auto
    then show ?thesis using j(2) False by simp
  qed (use Cons.prems in simp)
qed simp

lemma month_days_le: "k < 12 \<Longrightarrow> month_days y ! k \<le> 31"
  by (auto simp: month_days_def less_Suc_eq numeral_eq_Suc)

lemma c_gmtime_bounds:
  assumes "c_gmtime epoch = tm"
  shows "1970 \<le> tm_year tm" and "1 \<le> tm_mon tm \<and> tm_mon tm \<le> 12" and "1 \<le> tm_mday tm \<and> tm_mday tm \<le> 31"
    and "tm_hour tm < 24" and "tm_min tm < 60" and "tm_sec tm < 60" and "utc_seconds tm = int epoch"
proof -
  obtain y yd where yd: "year_of_day 1970 (epoch div 86400) = (y, yd)" by fastforce
  note yd' = year_of_day_days [OF yd]
  obtain m md where md: "month_of_day (month_days y) yd = (m, md)" by fastforce
  have "yd < sum_list (month_days y)" using yd' by (simp add: sum_month_days)
  note md' = month_of_day_days [OF md this]
  have len: "length (month_days y) = 12" by (simp add: month_days_def)
  have md31: "md < 31" using md' month_days_le [of m y] len by auto
  have tm: "tm = \<lparr>tm_year = y, tm_mon = Suc m, tm_mday = Suc md, tm_hour = epoch mod 86400 div 3600,
      tm_min = epoch mod 86400 mod 3600 div 60, tm_sec = epoch mod 86400 mod 60\<rparr>"
    using assms yd md by (simp add: c_gmtime_def Let_def)
  show "1970 \<le> tm_year tm" "1 \<le> tm_mon tm \<and> tm_mon tm \<le> 12" "1 \<le> tm_mday tm \<and> tm_mday tm \<le> 31"
    using yd' md' md31 len by (simp_all add: tm)
  have "epoch mod 86400 < 86400" by simp
  then show "tm_hour tm < 24" by (simp add: tm del: mod_less_divisor)
  have "epoch mod 86400 mod 3600 < 3600" by simp
  then show "tm_min tm < 60" by (simp add: tm del: mod_less_divisor)
  show "tm_sec tm < 60" by (simp add: tm)
  have days: "int (days_of_years y) + int (sum_list (take m (month_days y))) + int md =
      int (days_of_years 1970) + int (epoch div 86400)"
    using yd' md' by linarith
  define S where "S = epoch mod 86400"
  have "int epoch = 86400 * int (epoch div 86400) + int S"
    unfolding S_def by (metis mult_div_mod_eq of_nat_add of_nat_mult of_nat_numeral)
  moreover have "int S = 3600 * int (S div 3600) + int (S mod 3600)"
    by (metis mult_div_mod_eq of_nat_add of_nat_mult of_nat_numeral)
  moreover have "int (S mod 3600) = 60 * int (S mod 3600 div 60) + int (S mod 60)"
    using mult_div_mod_eq [of 60 "S mod 3600"] mod_mod_cancel [of 60 3600 S] by simp
  moreover have "utc_seconds tm = 86400 * (int (days_of_years y) - int (days_of_years 1970) +
      int (sum_list (take m (month_days y))) + int md) + 3600 * int (S div 3600) + 60 * int (S mod 3600 div 60) + int (S mod 60)"
    by (simp add: tm utc_seconds_def S_def)
  moreover define h mi sec where "h = S div 3600" and "mi = S mod 3600 div 60" and "sec = S mod 60"
  ultimately have "utc_seconds tm = 86400 * int (epoch div 86400) + (3600 * int h + 60 * int mi + int sec)"
    and "int epoch = 86400 * int (epoch div 86400) + (3600 * int h + 60 * int mi + int sec)"
    using days by (simp_all only: h_def mi_def sec_def) (simp add: algebra_simps)
  then show "utc_seconds tm = int epoch" by simp
qed

lemma two_digits_read:
  assumes "n < 60" and "n \<le> hi" and "lo \<le> n" and "10 \<le> hi \<or> n < 10" and "s = [] \<or> \<not> c_isdigit (hd s)"
  shows "get_number lo hi 2 (two_digits n @ s) = Some (n, s)"
proof -
  have d: "n div 10 < 10" "n mod 10 < 10" using assms(1) by auto
  have n: "10 * (n div 10) + n mod 10 = n" by simp
  have le: "n div 10 * 10 \<le> hi" using assms(2) by (metis div_times_less_eq_dividend le_trans)
  show ?thesis using d assms n
    by (cases s) (simp_all add: get_number_def two_digits_def le)
qed

lemma number_loop_digits:
  assumes "\<And>c. c \<in> set ds \<Longrightarrow> c_isdigit c" and "length ds \<le> n"
    and "foldl (\<lambda>v c. 10 * v + digit_value c) v ds \<le> hi" and "s = [] \<or> \<not> c_isdigit (hd s) \<or> n = length ds"
  shows "number_loop hi n v (ds @ s) = (foldl (\<lambda>v c. 10 * v + digit_value c) v ds, s)"
  using assms
proof (induction ds arbitrary: n v)
  case Nil
  then show ?case by (cases s; cases n) auto
next
  case (Cons c ds)
  have mono: "v \<le> foldl (\<lambda>v c. 10 * v + digit_value c) v ds" for v :: nat and ds
  proof (induction ds arbitrary: v)
    case (Cons d ds)
    have "v \<le> 10 * v + digit_value d" by simp
    also have "\<dots> \<le> foldl (\<lambda>v c. 10 * v + digit_value c) (10 * v + digit_value d) ds" by (rule Cons)
    finally show ?case by simp
  qed simp
  from Cons.prems(2) obtain m where n: "n = Suc m" "length ds \<le> m" by (cases n) auto
  have "10 * v + digit_value c \<le> hi" using Cons.prems(3) mono [of "10 * v + digit_value c" ds] by simp
  then have "v * 10 \<le> hi" by simp
  moreover have "number_loop hi m (10 * v + digit_value c) (ds @ s) =
      (foldl (\<lambda>v c. 10 * v + digit_value c) (10 * v + digit_value c) ds, s)"
    by (rule Cons.IH) (use Cons.prems n in auto)
  ultimately show ?case using Cons.prems(1) by (simp add: n)
qed

lemma dec_nat_length: "0 < k \<Longrightarrow> n < 10 ^ k \<Longrightarrow> length (dec_nat n) \<le> k"
proof (induction n arbitrary: k rule: dec_nat.induct)
  case (1 n)
  show ?case
  proof (cases "n < 10")
    case False
    with 1 obtain j where k: "k = Suc j" "0 < j" by (cases k) (auto, metis One_nat_def less_numeral_extra(1) not_gr_zero power_0 mult.right_neutral False)
    have "n div 10 < 10 ^ j" using 1(3) by (simp add: k less_mult_imp_div_less mult.commute)
    with 1(1) [OF False k(2)] show ?thesis by (subst dec_nat.simps) (simp add: k False)
  qed (use 1 in \<open>subst dec_nat.simps, simp\<close>)
qed

lemma year_read:
  assumes "y \<le> 9999" and "s = [] \<or> \<not> c_isdigit (hd s)"
  shows "get_number 0 9999 4 (dec_nat y @ s) = Some (y, s)"
proof -
  obtain c ds where ds: "dec_nat y = c # ds" using dec_nat_not_Nil by (cases "dec_nat y") auto
  have "c_isdigit e \<and> e \<noteq> CHR 0x20" if "e \<in> set (dec_nat y)" for e
  proof -
    from that dec_nat_digits [of y] obtain d where "d < 10" "e = digit_char d" by blast
    then show ?thesis by simp
  qed
  then have dig: "\<And>e. e \<in> set (c # ds) \<Longrightarrow> c_isdigit e" "c \<noteq> CHR 0x20" using ds by auto
  have len: "length ds \<le> 3" using dec_nat_length [of 4 y] assms(1) ds by simp
  have val: "foldl (\<lambda>v c. 10 * v + digit_value c) (digit_value c) ds = y"
    using dec_nat_value [of y] by (simp add: ds digits_value_def)
  have "number_loop 9999 3 (digit_value c) (ds @ s) = (y, s)"
    using number_loop_digits [of ds 3 "digit_value c" 9999 s] dig len val assms by auto
  then show ?thesis using dig assms(1) by (simp add: get_number_def ds)
qed

lemma strptime_strftime:
  assumes "tm_year tm \<le> 9999" and "1 \<le> tm_mon tm \<and> tm_mon tm \<le> 12" and "1 \<le> tm_mday tm \<and> tm_mday tm \<le> 31"
    and "tm_hour tm < 24" and "tm_min tm < 60" and "tm_sec tm < 60"
  shows "c_strptime (c_strftime tm) = Some tm"
proof -
  have sep: "\<not> c_isdigit CHR ''-''" "\<not> c_isdigit CHR '':''" "\<not> c_isdigit CHR 0x20" "c_isspace CHR 0x20"
    by (simp_all add: c_isdigit_def c_isspace_def)
  have hour: "dropWhile c_isspace (two_digits n @ s) = two_digits n @ s" if "n < 60" for n s
    using that sep by (simp add: two_digits_def)
  have sec: "get_number 0 61 2 (two_digits (tm_sec tm)) = Some (tm_sec tm, [])"
    using two_digits_read [of "tm_sec tm" 61 0 "[]"] assms(6) by simp
  show ?thesis
    unfolding c_strptime_def c_strftime_def
    using assms by (simp add: year_read two_digits_read sep skip_char_def hour sec)
qed

lemma days_of_years_mono: "y \<le> z \<Longrightarrow> days_of_years y \<le> days_of_years z"
  by (rule lift_Suc_mono_le [of days_of_years]) (simp_all add: days_of_years_Suc)

lemma c_gmtime_year:
  assumes "epoch < 253402300800"
  shows "tm_year (c_gmtime epoch) \<le> 9999"
proof (rule ccontr)
  obtain y yd where yd: "year_of_day 1970 (epoch div 86400) = (y, yd)" by fastforce
  have y: "tm_year (c_gmtime epoch) = y" by (simp add: c_gmtime_def yd Let_def split: prod.split)
  assume "\<not> tm_year (c_gmtime epoch) \<le> 9999"
  then have "days_of_years 10000 \<le> days_of_years y" using y by (intro days_of_years_mono) simp
  also have "\<dots> \<le> days_of_years 1970 + epoch div 86400" using year_of_day_days [OF yd] by simp
  finally have "2932897 \<le> epoch div 86400" by (simp add: days_of_years_def)
  moreover have "epoch div 86400 < 2932897" using assms by (intro less_mult_imp_div_less) simp
  ultimately show False by simp
qed

lemma date_reads_back:
  assumes "0 < epoch" and "epoch < 253402300800"
  shows "\<exists>s. util_epoch_to_dt epoch = Inr s \<and>
    util_dt_to_epoch tz (Some s) = Inr (epoch - zone tz (stale tz s) epoch)"
proof -
  define tm where "tm = c_gmtime (nat epoch)"
  have year: "tm_year tm \<le> 9999" using c_gmtime_year [of "nat epoch"] assms by (simp add: tm_def)
  note tm = c_gmtime_bounds [OF tm_def [symmetric]]
  have "util_epoch_to_dt epoch = Inr (c_strftime tm)"
    using assms(1) year by (simp add: util_epoch_to_dt_def tm_def Let_def)
  moreover have "c_strptime (c_strftime tm) = Some tm" by (rule strptime_strftime [OF year tm(2-6)])
  moreover have "c_strftime tm \<noteq> []" using dec_nat_not_Nil by (simp add: c_strftime_def)
  ultimately show ?thesis using tm(7) assms(1) by (simp add: util_dt_to_epoch_def c_mktime_def)
qed

text \<open>C34. The date that is written for a time up to the year 9999 reads back as that time, less an offset:
  the one that \<^verbatim>\<open>mktime\<close> applies to the date for whatever value the stack holds in the field \<^verbatim>\<open>tm_isdst\<close>, which
  the code does not set. The calendar part of the two conversions is exact; the round trip is exact where
  local time is UTC whatever the field says, and otherwise not even determined by the time zone.\<close>

theorem date_roundtrip:
  assumes "0 < epoch" and "epoch < 253402300800"
  shows "\<exists>s. util_epoch_to_dt epoch = Inr s \<and>
    util_dt_to_epoch tz (Some s) = Inr (epoch - zone tz (stale tz s) epoch)"
  by (rule date_reads_back [OF assms])

theorem date_roundtrip_witness:
  "\<exists>s t. util_epoch_to_dt 1656633600 = Inr s \<and>
    util_dt_to_epoch \<lparr>zone = (\<lambda>isdst _. if isdst > 0 then 7200 else 3600), stale = (\<lambda>_. 0)\<rparr> (Some s) = Inr 1656630000 \<and>
    util_epoch_to_dt 1656633600 = Inr t \<and>
    util_dt_to_epoch \<lparr>zone = (\<lambda>isdst _. if isdst > 0 then 7200 else 3600), stale = (\<lambda>_. 32767)\<rparr> (Some t) = Inr 1656626400"
  using date_roundtrip [of 1656633600 "\<lparr>zone = (\<lambda>isdst _. if isdst > 0 then 7200 else 3600), stale = (\<lambda>_. 0)\<rparr>"]
    date_roundtrip [of 1656633600 "\<lparr>zone = (\<lambda>isdst _. if isdst > 0 then 7200 else 3600), stale = (\<lambda>_. 32767)\<rparr>"]
  by auto

end
