(* ===== verification/Profile_Json.thy ===== *)
theory Profile_Json
  imports Profile Jsmn Avl Util_Time "HOL-Library.List_Lexorder"
begin

text \<open>
  profile.c, continued: reading a profile from its file (\<open>get_profile_by_path\<close>). The loops run over the array
  of tokens by index, as in the code. The theory shows that reading a file is interpreting the JSON
  value that it holds, and what the check for duplicate pins does.
\<close>

section \<open>Duplicate pins\<close>

fun c_strcmp :: "string \<Rightarrow> string \<Rightarrow> int" where
  "c_strcmp [] [] = 0"
| "c_strcmp [] (b # t) = - 1"
| "c_strcmp (a # s) [] = 1"
| "c_strcmp (a # s) (b # t) =
     (if a = b then c_strcmp s t else if (of_char a :: nat) < of_char b then - 1 else 1)"

definition avl_comp :: "profile_pin comparator" where
  "avl_comp pin1 pin2 =
     bindR (derefR (pin_name pin1)) (\<lambda>a. bindR (derefR (pin_name pin2)) (\<lambda>b. Inr (c_strcmp a b)))"

text \<open>The tree holds the pins as keys, with NULL as their values.\<close>

definition check_pin :: "profile_pin \<Rightarrow> (profile_pin, unit) avl_node \<Rightarrow> (profile_pin, unit) avl_node res" where
  "check_pin pin tree =
     bindR (FindAVL avl_comp tree pin) (\<lambda>r.
     if r = None then bindR (InsertAVL avl_comp tree pin None) (\<lambda>(_, tree). Inr tree) else Inl Ambiguous)"

definition check_duplicates :: "profile_pin list \<Rightarrow> unit res" where
  "check_duplicates pins = bindR (foldR check_pin pins AVL_null) (\<lambda>_. Inr ())"

section \<open>Reading the tokens\<close>

text \<open>One field of a pin; the value is looked at when the key is known. Reading a token behind the last one that
  was parsed is reading what was never written.\<close>

definition set_field :: "string \<Rightarrow> string \<Rightarrow> profile_pin \<Rightarrow> profile_pin res" where
  "set_field key s pin =
     (if key = ''pin_name'' then Inr (pin\<lparr>pin_name := Some s\<rparr>)
      else if key = ''comp_name'' then Inr (pin\<lparr>comp_name := Some s\<rparr>)
      else if key = ''net_name'' then Inr (pin\<lparr>net_name := Some s\<rparr>)
      else if key = ''net_alias'' then Inr (pin\<lparr>net_alias := Some s\<rparr>)
      else if key = ''tag_name'' then Inr (pin\<lparr>tag := get_tag_by_name s\<rparr>)
      else if key = ''tag_data'' then Inr (pin\<lparr>tag_data := c_atoi s\<rparr>)
      else if key = ''dut_io_id'' then Inr (pin\<lparr>dut_io_id := c_atoi s\<rparr>)
      else if key = ''dest_dut_ids'' then
        bindR (util_str_split s CHR '','') (\<lambda>xs.
        Inr (pin\<lparr>num_dests := length xs, dest_dut_ids := map (\<lambda>x. u32_of_int (c_atoi x)) xs\<rparr>))
      else if key = ''dest_pin_names'' then
        bindR (util_str_split s CHR '','') (\<lambda>xs. Inr (pin\<lparr>num_dests := length xs, dest_pin_names := map Some xs\<rparr>))
      else Inr pin)"

definition pin_fields :: "string list" where
  "pin_fields = [''pin_name'', ''comp_name'', ''net_name'', ''net_alias'', ''tag_name'', ''tag_data'', ''dut_io_id'',
     ''dest_dut_ids'', ''dest_pin_names'']"

definition is_key :: "string \<Rightarrow> jsmntok \<Rightarrow> string \<Rightarrow> bool" where
  "is_key data tok s \<longleftrightarrow> util_jsmn_eq data tok s = 0"

definition pin_field :: "string \<Rightarrow> jsmntok list \<Rightarrow> nat \<Rightarrow> nat \<Rightarrow> profile_pin \<Rightarrow> profile_pin res" where
  "pin_field data t p k pin =
     bindR (nthR t (p + 2 * k + 1)) (\<lambda>key.
     case find (is_key data key) pin_fields of
       None \<Rightarrow> Inr pin
     | Some f \<Rightarrow> bindR (nthR t (p + 2 * k + 2)) (\<lambda>v. set_field f (tok_text data v) pin))"

text \<open>A pin is stored in the array of 400, whose end is not checked.\<close>

definition add_pin :: "profile_pin \<Rightarrow> profile \<Rightarrow> profile res" where
  "add_pin pin profile =
     (if PROFILE_MAX_PINS \<le> length (prof_pins profile) then Inl Crash_bounds
      else Inr (profile\<lparr>prof_pins := prof_pins profile @ [pin]\<rparr>))"

fun pins_loop :: "string \<Rightarrow> jsmntok list \<Rightarrow> nat \<Rightarrow> nat \<Rightarrow> profile \<Rightarrow> profile res" where
  "pins_loop data t 0 p profile = Inr profile"
| "pins_loop data t (Suc j) p profile =
     bindR (nthR t p) (\<lambda>pins.
     if tok_type pins \<noteq> JSMN_OBJECT then pins_loop data t j p profile
     else
       bindR (foldR (pin_field data t p) [0..<tok_size pins] (create_profile_pin 0)) (\<lambda>pin.
       bindR (add_pin pin profile) (\<lambda>profile.
       pins_loop data t j (p + 2 * tok_size pins + 1) profile)))"

text \<open>The strings of the head of a profile, and the loop over all tokens but the first. After the pins it goes on
  as many tokens later as there are pins, which is among the tokens of the pins.\<close>

definition set_head :: "string \<Rightarrow> string \<Rightarrow> profile \<Rightarrow> profile" where
  "set_head key s profile =
     (if key = ''board_name'' then profile\<lparr>board_name := Some s\<rparr>
      else if key = ''description'' then profile\<lparr>description := Some s\<rparr>
      else if key = ''revision'' then profile\<lparr>revision := u32_of_int (c_atoi s)\<rparr>
      else profile\<lparr>num_duts := u32_of_int (c_atoi s)\<rparr>)"

definition head_fields :: "string list" where
  "head_fields = [''board_name'', ''description'', ''revision'', ''num_duts'']"

function profile_loop :: "string \<Rightarrow> jsmntok list \<Rightarrow> nat \<Rightarrow> profile \<Rightarrow> profile res" where
  "profile_loop data t i profile =
     (if length t \<le> i then Inr profile
      else
        case find (is_key data (t ! i)) head_fields of
          Some f \<Rightarrow> bindR (nthR t (i + 1)) (\<lambda>v. profile_loop data t (i + 2) (set_head f (tok_text data v) profile))
        | None \<Rightarrow>
            if is_key data (t ! i) ''pins'' then
              bindR (nthR t (i + 1)) (\<lambda>v.
              if tok_type v \<noteq> JSMN_ARRAY then profile_loop data t (i + 1) profile
              else
                bindR (pins_loop data t (tok_size v) (i + 2) profile) (\<lambda>profile.
                profile_loop data t (i + tok_size v + 2) profile))
            else profile_loop data t (i + 1) profile)"
  by pat_completeness auto

termination
  by (relation "measure (\<lambda>(data, t, i, profile). length t - i)") auto

declare profile_loop.simps [simp del]

definition PROFILE_MAX_TOKENS :: nat where "PROFILE_MAX_TOKENS = 2048 * 2"

text \<open>
  The content of the file is read into a buffer of its size, and the length of the text is taken with
  \<^verbatim>\<open>strlen\<close>, which goes on behind the buffer when the file holds no NUL: \<open>behind\<close> is what is there.
\<close>

definition get_profile_by_path :: "file_system \<Rightarrow> string \<Rightarrow> string \<Rightarrow> profile res" where
  "get_profile_by_path files behind path =
     (if path = [] then Inl Bad_format
      else if util_get_file_ext_by_path path \<noteq> ''json'' then Inl Bad_format
      else case files path of
        None \<Rightarrow> Inl Not_found
      | Some (real_path, content) \<Rightarrow>
          let profile = create_profile\<lparr>prof_path := Some real_path\<rparr>;
              data = takeWhile (\<lambda>c. c \<noteq> CHR 0x00) (bytes_text content @ behind) in
          case jsmn_parse data PROFILE_MAX_TOKENS of
            Inl e \<Rightarrow> Inl Bad_format
          | Inr (num_tokens, t) \<Rightarrow>
              if num_tokens < 1 \<or> tok_type (t ! 0) \<noteq> JSMN_OBJECT then Inl Bad_format
              else
                bindR (profile_loop data t 1 profile) (\<lambda>profile.
                bindR (check_duplicates (prof_pins profile)) (\<lambda>_. Inr profile)))"

section \<open>No duplicate is found\<close>

lemma c_strcmp_order: "(c_strcmp a b < 0 \<longleftrightarrow> a < b) \<and> (c_strcmp a b > 0 \<longleftrightarrow> b < a)"
  by (induction a b rule: c_strcmp.induct) (auto simp flip: less_char_def)

definition has_name :: "profile_pin \<Rightarrow> bool" where
  "has_name p \<longleftrightarrow> pin_name p \<noteq> None"

definition name_of :: "profile_pin \<Rightarrow> string" where
  "name_of p = the (pin_name p)"

interpretation pins: key_order avl_comp has_name name_of
proof
  fix a b :: profile_pin
  assume "has_name a" "has_name b"
  then show "\<exists>rc. avl_comp a b = Inr rc \<and> (rc < 0 \<longleftrightarrow> name_of a < name_of b) \<and> (rc > 0 \<longleftrightarrow> name_of b < name_of a)"
    using c_strcmp_order by (auto simp: avl_comp_def has_name_def name_of_def)
qed

text \<open>The values of the tree are all NULL, so nothing is ever found in it.\<close>

definition null_values :: "(profile_pin, unit) avl_node \<Rightarrow> bool" where
  "null_values t \<longleftrightarrow> pins.search_tree t \<and> t \<noteq> AVL_null \<and> (\<forall>v\<in>ran (pins.table t). v = None)"

lemma check_named:
  assumes "null_values t \<or> t = AVL_null" and "has_name pin"
  shows "\<exists>t'. check_pin pin t = Inr t' \<and> null_values t'"
proof -
  have s: "pins.search_tree t" using assms(1) pins.search_null by (auto simp: null_values_def)
  have none: "\<forall>v\<in>ran (pins.table t). v = None" using assms(1) by (auto simp: null_values_def)
  have "FindAVL avl_comp t pin = Inr None"
    using pins.FindAVL_table [OF s assms(2)] none by (auto simp: ran_def split: option.splits)
  moreover obtain x t' where t': "InsertAVL avl_comp t pin None = Inr (x, t')" "pins.inserted t pin None x t'"
    using pins.InsertAVL_inserted [OF s assms(2)] by blast
  moreover have "null_values t'"
    using t'(2) none by (auto simp: null_values_def pins.inserted_def ran_def split: option.splits if_splits)
  ultimately show ?thesis by (simp add: check_pin_def)
qed

lemma check_all_named:
  "null_values t \<or> t = AVL_null \<Longrightarrow> \<forall>p\<in>set ps. has_name p \<Longrightarrow> \<exists>t'. foldR check_pin ps t = Inr t'"
proof (induction ps arbitrary: t)
  case (Cons p ps)
  then show ?case using check_named [of t p] by fastforce
qed simp

lemma check_unnamed:
  assumes "null_values t" and "\<not> has_name p"
  shows "check_pin p t = Inl Crash_null"
  using assms by (cases t) (auto simp: null_values_def check_pin_def avl_comp_def has_name_def)

lemma check_later_unnamed:
  "null_values t \<Longrightarrow> \<exists>p\<in>set ps. \<not> has_name p \<Longrightarrow> foldR check_pin ps t = Inl Crash_null"
proof (induction ps arbitrary: t)
  case (Cons p ps)
  show ?case
  proof (cases "has_name p")
    case False
    then show ?thesis using check_unnamed [OF Cons.prems(1)] by simp
  next
    case True
    then obtain t' where "check_pin p t = Inr t'" "null_values t'" using check_named [of t p] Cons.prems(1) by auto
    then show ?thesis using Cons True by auto
  qed
qed simp

lemma duplicates_check:
  "check_duplicates pins =
    (if length pins \<le> 1 \<or> (\<forall>p\<in>set pins. pin_name p \<noteq> None) then Inr () else Inl Crash_null)"
proof (cases "length pins \<le> 1")
  case True
  then show ?thesis
    by (cases pins) (auto simp: check_duplicates_def check_pin_def InsertAVL_def new_leaf_def)
next
  case False
  then obtain p q ps where pins: "pins = p # q # ps" by (cases pins rule: list.exhaust [case_names Nil Cons]; cases "tl pins") auto
  show ?thesis
  proof (cases "pin_name p")
    case None
    have "check_pin p AVL_null = Inr (new_leaf p None)" by (simp add: check_pin_def InsertAVL_def new_leaf_def)
    moreover have "check_pin q (new_leaf p None) = Inl Crash_null"
      using None by (cases "pin_name q") (simp_all add: check_pin_def avl_comp_def new_leaf_def)
    ultimately show ?thesis using None by (simp add: check_duplicates_def pins)
  next
    case (Some n)
    then obtain t where t: "check_pin p AVL_null = Inr t" "null_values t" using check_named [of AVL_null p] by (auto simp: has_name_def)
    show ?thesis
    proof (cases "\<forall>r\<in>set (q # ps). pin_name r \<noteq> None")
      case True
      then obtain t' where "foldR check_pin (q # ps) t = Inr t'" using check_all_named [of t "q # ps"] t(2) by (auto simp: has_name_def)
      then show ?thesis using True Some t(1) by (simp add: check_duplicates_def pins)
    next
      case False
      then have "\<exists>r\<in>set (q # ps). \<not> has_name r" by (simp add: has_name_def)
      from check_later_unnamed [OF t(2) this] show ?thesis using False t(1) by (auto simp: check_duplicates_def pins)
    qed
  qed
qed

text \<open>C32. The check for duplicate pins refuses nothing: whatever the names, it passes when all pins have one or when
  there is at most one pin, and with a pin without a name it dereferences NULL. It looks for the value that the tree
  has for a pin, and inserts NULL as that value.\<close>

theorem duplicate_pins_accepted:
  "check_duplicates pins =
    (if length pins \<le> 1 \<or> list_all (\<lambda>p. pin_name p \<noteq> None) pins then Inr () else Inl Crash_null)"
  unfolding list_all_iff
  by (rule duplicates_check)

section \<open>Reading a file is interpreting its value\<close>

text \<open>
  What a JSON value says about a profile, by recursion on the value. A document is a list of members; the pins are an
  array of objects, every other value is a string or a primitive.
\<close>

fun scalar_text :: "json \<Rightarrow> string" where
  "scalar_text (J_string s) = s"
| "scalar_text (J_prim s) = s"
| "scalar_text _ = []"

fun is_scalar :: "json \<Rightarrow> bool" where
  "is_scalar (J_string s) = True"
| "is_scalar (J_prim s) = True"
| "is_scalar _ = False"

fun json_fields :: "json \<Rightarrow> (string \<times> json) list" where
  "json_fields (J_object fs) = fs"
| "json_fields _ = []"

definition read_pin :: "(string \<times> json) list \<Rightarrow> profile_pin res" where
  "read_pin fs = foldR (\<lambda>(k, v). set_field k (scalar_text v)) fs (create_profile_pin 0)"

definition read_pins :: "json list \<Rightarrow> profile \<Rightarrow> profile res" where
  "read_pins = foldR (\<lambda>v profile. bindR (read_pin (json_fields v)) (\<lambda>pin. add_pin pin profile))"

definition read_member :: "string \<times> json \<Rightarrow> profile \<Rightarrow> profile res" where
  "read_member = (\<lambda>(k, v) profile.
     case v of
       J_array vs \<Rightarrow> if k = ''pins'' then read_pins vs profile else Inr profile
     | _ \<Rightarrow> Inr (if k \<in> set head_fields then set_head k (scalar_text v) profile else profile))"

text \<open>
  The documents that are read this way. Tokens of pins are also looked at as keys of the profile, and so is the
  value of a key that is not known; none of them may be a name of a key.
\<close>

definition is_name :: "json \<Rightarrow> bool" where
  "is_name v \<longleftrightarrow> (\<exists>n\<in>set (''pins'' # head_fields). v = J_string n)"

definition pin_object :: "json \<Rightarrow> bool" where
  "pin_object v \<longleftrightarrow> (\<exists>fs. v = J_object fs \<and> (\<forall>(k, x)\<in>set fs. is_scalar x \<and> \<not> is_name x \<and> \<not> is_name (J_string k)))"

definition profile_member :: "string \<times> json \<Rightarrow> bool" where
  "profile_member = (\<lambda>(k, v).
     if k = ''pins'' then (\<exists>vs. v = J_array vs \<and> (\<forall>x\<in>set vs. pin_object x))
     else is_scalar v \<and> (k \<in> set head_fields \<or> \<not> is_name v))"

text \<open>The tokens of a value without their places.\<close>

type_synonym flat_tok = "jsmntype \<times> string option \<times> nat"

fun flat :: "json \<Rightarrow> flat_tok list" where
  "flat (J_string s) = [(JSMN_STRING, Some s, 0)]"
| "flat (J_prim s) = [(JSMN_PRIMITIVE, Some s, 0)]"
| "flat (J_object ms) = (JSMN_OBJECT, None, length ms) # concat (map (\<lambda>(k, v). (JSMN_STRING, Some k, 1) # flat v) ms)"
| "flat (J_array vs) = (JSMN_ARRAY, None, length vs) # concat (map flat vs)"

definition flat_member :: "string \<times> json \<Rightarrow> flat_tok list" where
  "flat_member = (\<lambda>(k, v). (JSMN_STRING, Some k, 1) # flat v)"

fun tok_is :: "string \<Rightarrow> jsmntok \<Rightarrow> flat_tok \<Rightarrow> bool" where
  "tok_is data tok (ty, x, n) \<longleftrightarrow> tok_type tok = ty \<and> tok_size tok = n \<and>
     (\<forall>s. x = Some s \<longrightarrow> tok_text data tok = s \<and> tok_end tok - tok_start tok = int (length s)) \<and> (ty = JSMN_STRING \<longrightarrow> x \<noteq> None)"

lemma string_tok_is: "length pre = p \<Longrightarrow> tok_is (pre @ quoted s @ post) (string_tok p s n) (JSMN_STRING, Some s, n)"
  by (auto simp: string_tok_def tok_text_def quoted_def nat_add_distrib)

lemma doc_flat:
  "json_doc v p s ts \<Longrightarrow> \<forall>pre post. length pre = p \<longrightarrow> list_all2 (tok_is (pre @ s @ post)) ts (flat v)"
  "json_member m p s ts \<Longrightarrow> \<forall>pre post. length pre = p \<longrightarrow> list_all2 (tok_is (pre @ s @ post)) ts (flat_member m)"
  "json_members ms p s ts \<Longrightarrow> \<forall>pre post. length pre = p \<longrightarrow> list_all2 (tok_is (pre @ s @ post)) ts (concat (map flat_member ms))"
  "json_elements vs p s ts \<Longrightarrow> \<forall>pre post. length pre = p \<longrightarrow> list_all2 (tok_is (pre @ s @ post)) ts (concat (map flat vs))"
proof (induction rule: json_doc_json_member_json_members_json_elements.inducts)
  case (doc_string s p)
  show ?case using string_tok_is by simp
next
  case (doc_prim s p)
  show ?case by (simp add: tok_text_def)
next
  case (doc_object ms p s ts)
  show ?case
  proof (intro allI impI)
    fix pre post :: string
    assume "length pre = p"
    with doc_object.IH [rule_format, of "pre @ ''{''" "''}'' @ post"]
    show "list_all2 (tok_is (pre @ (CHR ''{'' # s @ ''}'') @ post))
        (\<lparr>tok_type = JSMN_OBJECT, tok_start = int p, tok_end = int (p + length s + 2), tok_size = length ms\<rparr> # ts) (flat (J_object ms))"
      by (simp add: flat_member_def)
  qed
next
  case (doc_array vs p s ts)
  show ?case
  proof (intro allI impI)
    fix pre post :: string
    assume "length pre = p"
    with doc_array.IH [rule_format, of "pre @ ''[''" "'']'' @ post"]
    show "list_all2 (tok_is (pre @ (CHR ''['' # s @ '']'') @ post))
        (\<lparr>tok_type = JSMN_ARRAY, tok_start = int p, tok_end = int (p + length s + 2), tok_size = length vs\<rparr> # ts) (flat (J_array vs))"
      by simp
  qed
next
  case (member w1 w2 w3 w4 k v p s ts)
  show ?case
  proof (intro allI impI)
    fix pre post :: string
    assume pre: "length pre = p"
    then have "length ((pre @ w1) @ quoted k @ w2 @ '':'' @ w3) = p + length w1 + length k + 2 + length w2 + 1 + length w3"
      by (simp add: quoted_def)
    from member.IH [rule_format, OF this, of "w4 @ post"] string_tok_is [of "pre @ w1" "p + length w1" k "w2 @ '':'' @ w3 @ s @ w4 @ post" 1] pre
    show "list_all2 (tok_is (pre @ (w1 @ quoted k @ w2 @ '':'' @ w3 @ s @ w4) @ post)) (string_tok (p + length w1) k 1 # ts) (flat_member (k, v))"
      by (simp add: flat_member_def del: tok_is.simps)
  qed
next
  case (more_members m p s ts ms s' ts')
  show ?case
  proof (intro allI impI)
    fix pre post :: string
    assume pre: "length pre = p"
    have "list_all2 (tok_is (pre @ s @ '','' @ s' @ post)) ts (flat_member m)"
      using more_members.IH(1) [rule_format, OF pre, of "'','' @ s' @ post"] by simp
    moreover have "list_all2 (tok_is (pre @ s @ '','' @ s' @ post)) ts' (concat (map flat_member ms))"
      using more_members.IH(2) [rule_format, of "pre @ s @ '',''" post] pre by simp
    ultimately show "list_all2 (tok_is (pre @ (s @ '','' @ s') @ post)) (ts @ ts') (concat (map flat_member (m # ms)))"
      by (simp add: list_all2_appendI)
  qed
next
  case (one_element w1 w2 v p s ts)
  show ?case
  proof (intro allI impI)
    fix pre post :: string
    assume "length pre = p"
    with one_element.IH [rule_format, of "pre @ w1" "w2 @ post"]
    show "list_all2 (tok_is (pre @ (w1 @ s @ w2) @ post)) ts (concat (map flat [v]))" by simp
  qed
next
  case (more_elements w1 w2 v p s ts vs s' ts')
  show ?case
  proof (intro allI impI)
    fix pre post :: string
    assume pre: "length pre = p"
    have "list_all2 (tok_is (pre @ w1 @ s @ w2 @ '','' @ s' @ post)) ts (flat v)"
      using more_elements.IH(1) [rule_format, of "pre @ w1" "w2 @ '','' @ s' @ post"] pre by simp
    moreover have "list_all2 (tok_is (pre @ w1 @ s @ w2 @ '','' @ s' @ post)) ts' (concat (map flat vs))"
      using more_elements.IH(2) [rule_format, of "pre @ w1 @ s @ w2 @ '',''" post] pre by simp
    ultimately show "list_all2 (tok_is (pre @ (w1 @ s @ w2 @ '','' @ s') @ post)) (ts @ ts') (concat (map flat (v # vs)))"
      by (simp add: list_all2_appendI)
  qed
qed simp_all

lemma is_key_flat: "tok_is data tok (ty, x, n) \<Longrightarrow> is_key data tok s \<longleftrightarrow> ty = JSMN_STRING \<and> x = Some s"
  by (cases x) (auto simp: is_key_def util_jsmn_eq_def)

lemma find_field:
  assumes "tok_is data tok (JSMN_STRING, Some k, n)"
  shows "find (is_key data tok) ks = (if k \<in> set ks then Some k else None)"
  using is_key_flat [OF assms] by (induction ks) auto

text \<open>The fields of a pin are pairs of tokens.\<close>

definition flat_field :: "string \<times> json \<Rightarrow> flat_tok list" where
  "flat_field = (\<lambda>(k, v). [(JSMN_STRING, Some k, 1), hd (flat v)])"

lemma flat_scalar: "is_scalar v \<Longrightarrow> flat v = [hd (flat v)] \<and> fst (snd (hd (flat v))) = Some (scalar_text v)"
  by (cases v) simp_all

lemma flat_pin_fields: "\<forall>(k, v)\<in>set fs. is_scalar v \<Longrightarrow> map flat_member fs = map flat_field fs"
  by (auto simp: flat_member_def flat_field_def dest: flat_scalar)

lemma length_flat_fields [simp]: "length (concat (map flat_field fs)) = 2 * length fs"
  by (induction fs) (auto simp: flat_field_def)

lemma nth_flat_fields:
  "k < length fs \<Longrightarrow> concat (map flat_field fs) ! (2 * k) = (JSMN_STRING, Some (fst (fs ! k)), 1) \<and>
    concat (map flat_field fs) ! Suc (2 * k) = hd (flat (snd (fs ! k)))"
proof (induction fs arbitrary: k)
  case (Cons f fs)
  then show ?case by (cases k) (auto simp: flat_field_def case_prod_unfold)
qed simp

lemma foldR_same: "(\<And>x s. x \<in> set xs \<Longrightarrow> f x s = g x s) \<Longrightarrow> foldR f xs s = foldR g xs s"
proof (induction xs arbitrary: s)
  case (Cons x xs)
  then have "foldR f xs = foldR g xs" by (intro ext) simp
  then show ?case using Cons.prems by simp
qed simp

lemma set_other_field: "k \<notin> set pin_fields \<Longrightarrow> set_field k s pin = Inr pin"
  by (simp add: pin_fields_def set_field_def)

lemma pin_loop_reads:
  assumes t: "list_all2 (tok_is data) t (pre @ (JSMN_OBJECT, None, length fs) # concat (map flat_field fs) @ post)"
    and fs: "\<forall>(k, v)\<in>set fs. is_scalar v"
  shows "foldR (pin_field data t (length pre)) [0..<length fs] (create_profile_pin 0) = read_pin fs"
proof -
  let ?fl = "pre @ (JSMN_OBJECT, None, length fs) # concat (map flat_field fs) @ post"
  have len: "length t = length ?fl" using t by (rule list_all2_lengthD)
  have nth: "tok_is data (t ! i) (?fl ! i)" if "i < length ?fl" for i using list_all2_nthD2 [OF t that] .
  have "pin_field data t (length pre) k pin = (\<lambda>(k, v). set_field k (scalar_text v)) (fs ! k) pin" if k: "k < length fs" for k pin
  proof -
    obtain key v where kv: "fs ! k = (key, v)" by fastforce
    have v: "is_scalar v" using fs k kv by (metis case_prodD nth_mem)
    have 1: "?fl ! (length pre + 2 * k + 1) = (JSMN_STRING, Some key, 1)"
      using nth_flat_fields [OF k] k kv by (simp add: nth_append nth_Cons')
    have 2: "?fl ! (length pre + 2 * k + 2) = hd (flat v)"
      using nth_flat_fields [OF k] k kv by (simp add: nth_append nth_Cons')
    have key: "tok_is data (t ! (length pre + 2 * k + 1)) (JSMN_STRING, Some key, 1)"
      using nth [of "length pre + 2 * k + 1"] k 1 by simp
    obtain ty n where "hd (flat v) = (ty, Some (scalar_text v), n)" using flat_scalar [OF v] by (metis prod.collapse)
    then have "tok_text data (t ! (length pre + 2 * k + 2)) = scalar_text v"
      using nth [of "length pre + 2 * k + 2"] k 2 by simp
    then show ?thesis using find_field [OF key, of pin_fields] set_other_field [of key "scalar_text v" pin] k len
      by (simp add: pin_field_def nthR_def kv)
  qed
  then have "foldR (pin_field data t (length pre)) [0..<length fs] s = foldR (\<lambda>k. (\<lambda>(k, v). set_field k (scalar_text v)) (fs ! k)) [0..<length fs] s" for s
    by (intro foldR_same) auto
  also have "\<dots> s = foldR (\<lambda>(k, v). set_field k (scalar_text v)) (map ((!) fs) [0..<length fs]) s" for s
    by (simp add: foldR_map)
  finally show ?thesis by (simp add: read_pin_def map_nth)
qed

lemma pins_loop_reads:
  "list_all2 (tok_is data) t (pre @ concat (map flat vs) @ post) \<Longrightarrow> \<forall>v\<in>set vs. pin_object v \<Longrightarrow>
    pins_loop data t (length vs) (length pre) profile = read_pins vs profile"
proof (induction vs arbitrary: pre profile)
  case Nil
  then show ?case by (simp add: read_pins_def)
next
  case (Cons v vs)
  from Cons.prems(2) obtain fs where v: "v = J_object fs" and "\<forall>(k, x)\<in>set fs. is_scalar x \<and> \<not> is_name x \<and> \<not> is_name (J_string k)"
    unfolding pin_object_def by auto
  then have fs: "\<forall>(k, x)\<in>set fs. is_scalar x" by fast
  have fl: "flat v = (JSMN_OBJECT, None, length fs) # concat (map flat_field fs)"
    unfolding v flat_pin_fields [OF fs, symmetric] by (simp add: flat_member_def)
  have t: "list_all2 (tok_is data) t (pre @ (JSMN_OBJECT, None, length fs) # concat (map flat_field fs) @ concat (map flat vs) @ post)"
    using Cons.prems(1) by (simp add: fl)
  have "tok_is data (t ! length pre) (JSMN_OBJECT, None, length fs)" "length pre < length t"
    using list_all2_nthD2 [OF t, of "length pre"] list_all2_lengthD [OF t] by simp_all
  moreover have "pins_loop data t (length vs) (length pre + 2 * length fs + 1) = read_pins vs"
    using Cons.IH [of "pre @ flat v"] Cons.prems by (intro ext) (simp add: fl)
  ultimately show ?case using pin_loop_reads [OF t fs]
    by (simp add: nthR_def read_pins_def v bindR_assoc)
qed

lemma profile_loop_skip:
  assumes "i \<le> j" and "j \<le> length t" and "\<forall>k. i \<le> k \<and> k < j \<longrightarrow> (\<forall>n\<in>set (''pins'' # head_fields). \<not> is_key data (t ! k) n)"
  shows "profile_loop data t i profile = profile_loop data t j profile"
  using assms
proof (induction "j - i" arbitrary: i)
  case (Suc d)
  then have "i < j" by simp
  then have "\<forall>n\<in>set (''pins'' # head_fields). \<not> is_key data (t ! i) n" using Suc.prems(3) by simp
  moreover from this have "find (is_key data (t ! i)) head_fields = None" by (simp add: find_None_iff)
  moreover have "profile_loop data t (Suc i) profile = profile_loop data t j profile" using Suc by simp
  ultimately show ?case using \<open>i < j\<close> Suc.prems(2) by (simp add: profile_loop.simps [of data t i])
qed simp

lemma profile_loop_reads:
  "list_all2 (tok_is data) t (pre @ concat (map flat_member ms)) \<Longrightarrow> \<forall>m\<in>set ms. profile_member m \<Longrightarrow>
    profile_loop data t (length pre) profile = foldR read_member ms profile"
proof (induction ms arbitrary: pre profile)
  case Nil
  then show ?case using list_all2_lengthD [OF Nil(1)] by (simp add: profile_loop.simps)
next
  case (Cons m ms)
  obtain k v where m: "m = (k, v)" by fastforce
  have pm: "profile_member (k, v)" using Cons.prems(2) m by simp
  note t = Cons.prems(1) [unfolded list.map concat.simps m]
  let ?fl = "pre @ flat_member (k, v) @ concat (map flat_member ms)"
  have len: "length t = length ?fl" using list_all2_lengthD [OF t] .
  have nth: "tok_is data (t ! i) (?fl ! i)" if "i < length ?fl" for i using list_all2_nthD2 [OF t that] .
  have IH: "profile_loop data t (length pre + length (flat_member (k, v))) p = foldR read_member ms p" for p
    using Cons.IH [of "pre @ flat_member (k, v)" p] Cons.prems t by simp
  have key: "tok_is data (t ! length pre) (JSMN_STRING, Some k, 1)" and i: "length pre < length t"
    using nth [of "length pre"] len by (simp_all add: flat_member_def nth_append del: tok_is.simps)
  note find = find_field [OF key, of head_fields]
  have pins_key: "is_key data (t ! length pre) ''pins'' \<longleftrightarrow> k = ''pins''" using is_key_flat [OF key] by simp
  show ?case
  proof (cases "k = ''pins''")
    case True
    then obtain vs where v: "v = J_array vs" "\<forall>x\<in>set vs. pin_object x" using pm by (auto simp: profile_member_def)
    have fl: "flat_member (k, v) = (JSMN_STRING, Some k, 1) # (JSMN_ARRAY, None, length vs) # concat (map flat vs)"
      by (simp add: flat_member_def v(1))
    have arr: "tok_is data (t ! Suc (length pre)) (JSMN_ARRAY, None, length vs)" "Suc (length pre) < length t"
      using nth [of "Suc (length pre)"] len by (simp_all add: fl nth_append del: tok_is.simps)
    have pins: "pins_loop data t (length vs) (length pre + 2) profile = read_pins vs profile"
      using pins_loop_reads [OF _ v(2), of data t "pre @ [(JSMN_STRING, Some k, 1), (JSMN_ARRAY, None, length vs)]"
        "concat (map flat_member ms)" profile] t by (simp add: fl)
    have inner: "\<forall>x\<in>set (concat (map flat vs)). \<forall>n\<in>set (''pins'' # head_fields). \<not> (fst x = JSMN_STRING \<and> fst (snd x) = Some n)"
    proof
      fix x assume "x \<in> set (concat (map flat vs))"
      then obtain ob where ob: "ob \<in> set vs" "x \<in> set (flat ob)" by auto
      then obtain fs where fs: "ob = J_object fs" "\<forall>(k, y)\<in>set fs. is_scalar y \<and> \<not> is_name y \<and> \<not> is_name (J_string k)"
        using v(2) unfolding pin_object_def by blast
      then consider "x = (JSMN_OBJECT, None, length fs)" | k y where "(k, y) \<in> set fs" "x = (JSMN_STRING, Some k, 1) \<or> x \<in> set (flat y)"
        using ob(2) by auto
      then show "\<forall>n\<in>set (''pins'' # head_fields). \<not> (fst x = JSMN_STRING \<and> fst (snd x) = Some n)"
      proof cases
        case 2
        then have "is_scalar y" "\<not> is_name y" "\<not> is_name (J_string k)" using fs(2) by auto
        then show ?thesis using 2(2) by (cases y) (auto simp: is_name_def)
      qed simp
    qed
    have len_vs: "length vs \<le> length (concat (map flat vs))"
    proof -
      have "\<forall>x\<in>set vs. 1 \<le> length (flat x)" using v(2) by (auto simp: pin_object_def)
      then show ?thesis by (induction vs) auto
    qed
    have skip: "profile_loop data t (length pre + length vs + 2) p = profile_loop data t (length pre + length (flat_member (k, v))) p" for p
    proof (rule profile_loop_skip)
      show "length pre + length vs + 2 \<le> length pre + length (flat_member (k, v))" using len_vs by (simp add: fl)
      show "length pre + length (flat_member (k, v)) \<le> length t" using len by simp
      show "\<forall>i. length pre + length vs + 2 \<le> i \<and> i < length pre + length (flat_member (k, v)) \<longrightarrow>
          (\<forall>n\<in>set (''pins'' # head_fields). \<not> is_key data (t ! i) n)"
      proof (intro allI impI ballI notI)
        fix i n
        assume a: "length pre + length vs + 2 \<le> i \<and> i < length pre + length (flat_member (k, v))" "n \<in> set (''pins'' # head_fields)"
          "is_key data (t ! i) n"
        let ?j = "i - length pre - 2"
        have j: "?j < length (concat (map flat vs))" "?fl ! i = concat (map flat vs) ! ?j"
          using a(1) by (auto simp: fl nth_append nth_Cons' numeral_2_eq_2 simp del: length_concat)
        obtain ty x c where x: "?fl ! i = (ty, x, c)" by (metis prod.collapse)
        have "i < length ?fl" using a(1) unfolding length_append by linarith
        from nth [OF this] have "tok_is data (t ! i) (ty, x, c)" unfolding x .
        then have "ty = JSMN_STRING \<and> x = Some n" using is_key_flat a(3) by blast
        moreover have "(ty, x, c) \<in> set (concat (map flat vs))" using j x nth_mem by metis
        ultimately show False using inner a(2) by fastforce
      qed
    qed
    have "find (is_key data (t ! length pre)) head_fields = None" using find True by (simp add: head_fields_def)
    moreover have "profile_loop data t (Suc (Suc (length pre + length vs))) = foldR read_member ms"
      using skip IH by (intro ext) simp
    moreover have "read_member (k, v) profile = read_pins vs profile" using True by (simp add: read_member_def v(1))
    ultimately show ?thesis using i arr pins pins_key True
      by (simp add: profile_loop.simps [of data t "length pre"] nthR_def m)
  next
    case False
    then have v: "is_scalar v" "k \<in> set head_fields \<or> \<not> is_name v" using pm by (auto simp: profile_member_def)
    obtain ty n where hd: "flat v = [(ty, Some (scalar_text v), n)]" using flat_scalar [OF v(1)] by (metis prod.collapse)
    then have fl: "flat_member (k, v) = [(JSMN_STRING, Some k, 1), (ty, Some (scalar_text v), n)]" by (simp add: flat_member_def)
    have val: "tok_is data (t ! Suc (length pre)) (ty, Some (scalar_text v), n)" "Suc (length pre) < length t"
      using nth [of "Suc (length pre)"] len by (simp_all add: fl nth_append del: tok_is.simps)
    have rd: "read_member (k, v) p = Inr (if k \<in> set head_fields then set_head k (scalar_text v) p else p)" for p
      using v(1) by (cases v) (simp_all add: read_member_def)
    show ?thesis
    proof (cases "k \<in> set head_fields")
      case True
      then show ?thesis using i val find IH
        by (simp add: profile_loop.simps [of data t "length pre"] nthR_def m rd fl numeral_2_eq_2)
    next
      case other: False
      have "profile_loop data t (length pre) profile = profile_loop data t (length pre + length (flat_member (k, v))) profile"
      proof (rule profile_loop_skip)
        show "\<forall>i. length pre \<le> i \<and> i < length pre + length (flat_member (k, v)) \<longrightarrow>
            (\<forall>n\<in>set (''pins'' # head_fields). \<not> is_key data (t ! i) n)"
        proof (intro allI impI ballI)
          fix i x
          assume "length pre \<le> i \<and> i < length pre + length (flat_member (k, v))" and x: "x \<in> set (''pins'' # head_fields)"
          then have "i = length pre \<or> i = Suc (length pre)" by (auto simp: fl)
          then show "\<not> is_key data (t ! i) x"
          proof
            assume "i = length pre"
            then show ?thesis using is_key_flat [OF key] False other x by auto
          next
            assume "i = Suc (length pre)"
            moreover have "\<not> (ty = JSMN_STRING \<and> scalar_text v = x)"
              using v other x hd by (cases v) (auto simp: is_name_def)
            ultimately show ?thesis using is_key_flat [OF val(1)] by auto
          qed
        qed
      qed (use len in \<open>simp_all add: fl\<close>)
      then show ?thesis using IH other by (simp add: m rd)
    qed
  qed
qed

lemma value_read:
  assumes "path \<noteq> []" and "util_get_file_ext_by_path path = ''json''" and "files path = Some (real_path, content)"
    and cont: "takeWhile (\<lambda>c. c \<noteq> CHR 0x00) (bytes_text content @ behind) = w @ s @ w'"
    and doc: "json_doc (J_object ms) (length w) s ts" "blank w" "blank w'" "length ts \<le> PROFILE_MAX_TOKENS"
    and ms: "\<forall>m\<in>set ms. profile_member m"
  shows "get_profile_by_path files behind path =
    bindR (foldR read_member ms (create_profile\<lparr>prof_path := Some real_path\<rparr>)) (\<lambda>profile.
    bindR (check_duplicates (prof_pins profile)) (\<lambda>_. Inr profile))"
proof -
  have fl: "list_all2 (tok_is (w @ s @ w')) ts ((JSMN_OBJECT, None, length ms) # concat (map flat_member ms))"
    using doc_flat(1) [OF doc(1)] by (simp add: flat_member_def)
  then have t0: "0 < length ts" "tok_type (ts ! 0) = JSMN_OBJECT"
    using list_all2_nthD2 [OF fl, of 0] list_all2_lengthD [OF fl] by auto
  have "profile_loop (w @ s @ w') ts 1 p = foldR read_member ms p" for p
    using profile_loop_reads [of "w @ s @ w'" ts "[(JSMN_OBJECT, None, length ms)]" ms] fl ms by simp
  then show ?thesis
    using assms(1-3) t0 cont jsmn_reads_document [OF doc] by (simp add: get_profile_by_path_def Let_def)
qed

text \<open>C20. Reading a profile from a file is interpreting the JSON value that the file holds: when the text of the file,
  followed by what is behind the buffer, is a document with at most 4096 tokens whose members are all \<open>profile_member\<close>
  (the pins are an array of objects with scalar fields of which neither a name nor a value is a key of the
  profile; every other value is a scalar, and that of an unknown key is not a key of the profile), the loops over the tokens yield what the recursion over its members yields, errors included.\<close>

theorem get_profile_interprets_value:
  assumes "path \<noteq> []" and "util_get_file_ext_by_path path = ''json''" and "files path = Some (real_path, content)"
    and cont: "takeWhile (\<lambda>c. c \<noteq> CHR 0x00) (bytes_text content @ behind) = w @ s @ w'"
    and doc: "json_doc (J_object ms) (length w) s ts" "blank w" "blank w'" "length ts \<le> PROFILE_MAX_TOKENS"
    and ms: "\<forall>m\<in>set ms. profile_member m"
  shows "get_profile_by_path files behind path =
    bindR (foldR read_member ms (create_profile\<lparr>prof_path := Some real_path\<rparr>)) (\<lambda>profile.
    bindR (check_duplicates (prof_pins profile)) (\<lambda>_. Inr profile))"
  using assms by (rule value_read)

section \<open>Profiles written as JSON\<close>

text \<open>A text of a value without white space.\<close>

fun render :: "json \<Rightarrow> string" where
  "render (J_string s) = quoted s"
| "render (J_prim s) = s"
| "render (J_object ms) = CHR ''{'' # join_with CHR '','' (map (\<lambda>(k, v). quoted k @ '':'' @ render v) ms) @ ''}''"
| "render (J_array vs) = CHR ''['' # join_with CHR '','' (map render vs) @ '']''"

fun renderable :: "json \<Rightarrow> bool" where
  "renderable (J_string s) \<longleftrightarrow> plain_text s"
| "renderable (J_prim s) \<longleftrightarrow> prim_text s"
| "renderable (J_object ms) \<longleftrightarrow> (\<forall>(k, v)\<in>set ms. plain_text k \<and> renderable v)"
| "renderable (J_array vs) \<longleftrightarrow> (\<forall>v\<in>set vs. renderable v)"

lemma blank_Nil: "blank []"
  by (simp add: blank_def)

lemma render_members:
  "(\<And>k v p. (k, v) \<in> set ms \<Longrightarrow> plain_text k \<and> (\<exists>ts. json_doc v p (render v) ts)) \<Longrightarrow>
    \<exists>ts. json_members ms p (join_with CHR '','' (map (\<lambda>(k, v). quoted k @ '':'' @ render v) ms)) ts"
proof (induction ms arbitrary: p)
  case Nil
  then show ?case using no_members [OF blank_Nil] by auto
next
  case (Cons m ms)
  obtain k v where m: "m = (k, v)" by fastforce
  have "plain_text k" and "\<exists>ts. json_doc v (p + length k + 2 + 1) (render v) ts" using Cons.prems [of k v] m by auto
  then obtain ts where one: "json_member m p (quoted k @ '':'' @ render v) ts"
    using member [OF blank_Nil blank_Nil blank_Nil blank_Nil, of k v p "render v"] by (auto simp: m)
  show ?case
  proof (cases "ms = []")
    case True
    then show ?thesis using one_member [OF one] by (auto simp: m)
  next
    case False
    obtain ts' where "json_members ms (p + length (quoted k @ '':'' @ render v) + 1)
        (join_with CHR '','' (map (\<lambda>(k, v). quoted k @ '':'' @ render v) ms)) ts'"
      using Cons.IH Cons.prems by (metis list.set_intros(2))
    from more_members [OF one False this] show ?thesis using False by (auto simp: m join_with_Cons)
  qed
qed

lemma render_elements:
  "(\<And>v p. v \<in> set vs \<Longrightarrow> \<exists>ts. json_doc v p (render v) ts) \<Longrightarrow>
    \<exists>ts. json_elements vs p (join_with CHR '','' (map render vs)) ts"
proof (induction vs arbitrary: p)
  case Nil
  then show ?case using no_elements [OF blank_Nil] by auto
next
  case (Cons v vs)
  obtain ts where one: "json_doc v p (render v) ts" using Cons.prems [of v] by auto
  show ?case
  proof (cases "vs = []")
    case True
    then show ?thesis using one_element [OF blank_Nil blank_Nil, of v p] one by auto
  next
    case False
    obtain ts' where "json_elements vs (p + length (render v) + 1) (join_with CHR '','' (map render vs)) ts'"
      using Cons.IH Cons.prems by (metis list.set_intros(2))
    with more_elements [OF blank_Nil blank_Nil, of v p "render v" ts vs] one False show ?thesis by (auto simp: join_with_Cons)
  qed
qed

lemma render_doc: "renderable v \<Longrightarrow> \<exists>ts. json_doc v p (render v) ts"
proof (induction v arbitrary: p rule: render.induct)
  case (3 ms)
  have "\<exists>ts. json_members ms (Suc p) (join_with CHR '','' (map (\<lambda>(k, v). quoted k @ '':'' @ render v) ms)) ts"
    using 3 by (intro render_members) auto
  then show ?case using doc_object by fastforce
next
  case (4 vs)
  have "\<exists>ts. json_elements vs (Suc p) (join_with CHR '','' (map render vs)) ts"
    using 4 by (intro render_elements) auto
  then show ?case using doc_array by fastforce
qed (auto intro: doc_string doc_prim)

text \<open>The document of a profile.\<close>

definition pin_json :: "profile_pin \<Rightarrow> json" where
  "pin_json p = J_object
     [(''pin_name'', J_string (the (pin_name p))), (''comp_name'', J_string (the (comp_name p))),
      (''net_name'', J_string (the (net_name p))), (''net_alias'', J_string (the (net_alias p))),
      (''tag_name'', J_string (get_name_by_tag (tag p))), (''tag_data'', J_prim (dec_int (tag_data p))),
      (''dut_io_id'', J_prim (dec_int (dut_io_id p))),
      (''dest_dut_ids'', J_string (join_with CHR '','' (map dec_nat (dest_dut_ids p)))),
      (''dest_pin_names'', J_string (join_with CHR '','' (map the (dest_pin_names p))))]"

definition profile_json :: "profile \<Rightarrow> (string \<times> json) list" where
  "profile_json p =
     [(''board_name'', J_string (the (board_name p))), (''description'', J_string (the (description p))),
      (''revision'', J_prim (dec_nat (revision p))), (''num_duts'', J_prim (dec_nat (num_duts p))),
      (''pins'', J_array (map pin_json (prof_pins p)))]"

definition int32 :: "int \<Rightarrow> bool" where
  "int32 i \<longleftrightarrow> - (2 ^ 31) \<le> i \<and> i < 2 ^ 31"

definition pin_file_ok :: "profile_pin \<Rightarrow> bool" where
  "pin_file_ok p \<longleftrightarrow>
     (\<forall>s\<in>{pin_name p, comp_name p, net_name p, net_alias p}. \<exists>t. s = Some t \<and> \<not> is_name (J_string t)) \<and>
     int32 (tag_data p) \<and> int32 (dut_io_id p) \<and>
     num_dests p = length (dest_pin_names p) \<and> length (dest_dut_ids p) = num_dests p \<and> num_dests p \<noteq> 0 \<and>
     (\<forall>d\<in>set (dest_dut_ids p). d < 2 ^ 32) \<and>
     (\<forall>n\<in>set (dest_pin_names p). \<exists>t. n = Some t \<and> t \<noteq> [] \<and> CHR '','' \<notin> set t) \<and>
     \<not> is_name (J_string (join_with CHR '','' (map the (dest_pin_names p))))"

definition profile_file_ok :: "profile \<Rightarrow> bool" where
  "profile_file_ok p \<longleftrightarrow> board_name p \<noteq> None \<and> description p \<noteq> None \<and> revision p < 2 ^ 32 \<and> num_duts p < 2 ^ 32 \<and>
     length (prof_pins p) \<le> PROFILE_MAX_PINS \<and> (\<forall>pin\<in>set (prof_pins p). pin_file_ok pin)"

lemma dec_nat_parts:
  "takeWhile c_isdigit (dec_nat n) = dec_nat n" "dropWhile c_isspace (dec_nat n) = dec_nat n"
  "hd (dec_nat n) \<noteq> CHR ''-''" "hd (dec_nat n) \<noteq> CHR ''+''" "c_isdigit (hd (dec_nat n))"
  "CHR '','' \<notin> set (dec_nat n)"
proof -
  have d: "\<And>c. c \<in> set (dec_nat n) \<Longrightarrow> \<exists>k<10. c = digit_char k" using dec_nat_digits [of n] by blast
  have comma: "\<not> c_isdigit CHR '',''" by (simp add: c_isdigit_def)
  obtain c cs where cs: "dec_nat n = c # cs" using dec_nat_not_Nil by (cases "dec_nat n") auto
  then obtain k where k: "k < 10" "c = digit_char k" using d [of c] by auto
  show "takeWhile c_isdigit (dec_nat n) = dec_nat n" using d by (fastforce simp: takeWhile_eq_all_conv)
  show "dropWhile c_isspace (dec_nat n) = dec_nat n" "hd (dec_nat n) \<noteq> CHR ''-''" "hd (dec_nat n) \<noteq> CHR ''+''"
    "c_isdigit (hd (dec_nat n))" using k by (simp_all add: cs)
  show "CHR '','' \<notin> set (dec_nat n)" using d comma by (metis digit_char_facts(1))
qed

lemma number_dec: "c_number (dec_nat n) = (False, n)" "c_number (CHR ''-'' # dec_nat n) = (True, n)"
  using dec_nat_parts(2-4) [of n] dec_nat_not_Nil [of n]
  by (simp_all add: c_number_def Let_def c_isspace_def dec_nat_parts(1) dec_nat_value)

lemma atoi_dec_nat: "n < 2 ^ 32 \<Longrightarrow> u32_of_int (c_atoi (dec_nat n)) = n"
proof -
  assume n: "n < 2 ^ 32"
  have "signed_take_bit 31 (int n) mod 2 ^ 32 = take_bit 32 (signed_take_bit 31 (int n))" by (simp add: take_bit_eq_mod)
  also have "\<dots> = take_bit 32 (int n)" by (simp add: take_bit_signed_take_bit)
  also have "\<dots> = int n" using n by (simp add: take_bit_eq_mod)
  finally show ?thesis using n by (simp add: c_atoi_def number_dec u32_of_int_def)
qed

lemma atoi_dec_int: "int32 i \<Longrightarrow> c_atoi (dec_int i) = i"
  by (auto simp: c_atoi_def number_dec dec_int_def int32_def signed_take_bit_int_eq_self_iff)

lemma split_fields: "fields_ok CHR '','' ts \<Longrightarrow> util_str_split (join_with CHR '','' ts) CHR '','' = Inr ts"
  using split_join [of "CHR '',''" ts "[]"] by (simp add: util_str_split_def)

lemma read_pin_json:
  assumes "pin_file_ok p"
  shows "read_pin (json_fields (pin_json p)) = Inr p"
proof -
  have dests: "dest_dut_ids p \<noteq> []" "dest_pin_names p \<noteq> []" using assms by (auto simp: pin_file_ok_def)
  then have "fields_ok CHR '','' (map dec_nat (dest_dut_ids p))" "fields_ok CHR '','' (map the (dest_pin_names p))"
    using assms dec_nat_parts(6) dec_nat_not_Nil by (auto simp: pin_file_ok_def fields_ok_def)
  then have split: "util_str_split (join_with CHR '','' (map dec_nat (dest_dut_ids p))) CHR '','' = Inr (map dec_nat (dest_dut_ids p))"
    "util_str_split (join_with CHR '','' (map the (dest_pin_names p))) CHR '','' = Inr (map the (dest_pin_names p))"
    by (simp_all only: split_fields)
  have "map (\<lambda>x. u32_of_int (c_atoi x)) (map dec_nat (dest_dut_ids p)) = dest_dut_ids p"
    using assms atoi_dec_nat by (auto simp: pin_file_ok_def intro!: map_idI)
  moreover have "map Some (map the (dest_pin_names p)) = dest_pin_names p"
    using assms by (fastforce simp: pin_file_ok_def intro: map_idI)
  moreover have "get_tag_by_name (get_name_by_tag t) = t" for t by (cases t) (simp_all add: get_tag_by_name_def)
  ultimately show ?thesis using assms atoi_dec_int split
    by (cases p) (auto simp: read_pin_def pin_json_def set_field_def create_profile_pin_def pin_file_ok_def)
qed

lemma read_pins_json:
  "\<forall>pin\<in>set ps. pin_file_ok pin \<Longrightarrow> length (prof_pins profile) + length ps \<le> PROFILE_MAX_PINS \<Longrightarrow>
    read_pins (map pin_json ps) profile = Inr (profile\<lparr>prof_pins := prof_pins profile @ ps\<rparr>)"
proof (induction ps arbitrary: profile)
  case Nil
  then show ?case by (simp add: read_pins_def)
next
  case (Cons p ps)
  from Cons.prems have "add_pin p profile = Inr (profile\<lparr>prof_pins := prof_pins profile @ [p]\<rparr>)" by (simp add: add_pin_def)
  then show ?case
    using Cons.IH [of "profile\<lparr>prof_pins := prof_pins profile @ [p]\<rparr>"] Cons.prems read_pin_json [of p]
    by (simp add: read_pins_def)
qed

lemma digits_not_name:
  assumes "ds \<noteq> []"
  shows "\<not> is_name (J_string (join_with CHR '','' (map dec_nat ds)))"
proof -
  obtain d ds' where ds: "ds = d # ds'" using assms by (cases ds) auto
  obtain c cs where c: "dec_nat d = c # cs" using dec_nat_not_Nil by (cases "dec_nat d") auto
  have "c_isdigit c" using dec_nat_parts(5) [of d] by (simp add: c)
  moreover have "\<exists>t. join_with CHR '','' (map dec_nat ds) = c # t"
    using c by (cases "ds' = []") (auto simp: ds join_with_Cons)
  ultimately show ?thesis by (auto simp: is_name_def head_fields_def c_isdigit_def)
qed

lemma pin_object_json: "pin_file_ok p \<Longrightarrow> pin_object (pin_json p)"
proof -
  assume ok: "pin_file_ok p"
  then have "dest_dut_ids p \<noteq> []" by (auto simp: pin_file_ok_def)
  moreover have "\<not> is_name (J_string (get_name_by_tag t))" for t by (cases t) (simp_all add: is_name_def head_fields_def)
  moreover have "\<not> is_name (J_prim x)" for x by (simp add: is_name_def)
  moreover have "\<forall>k\<in>set pin_fields. \<not> is_name (J_string k)" by (simp add: is_name_def head_fields_def pin_fields_def)
  ultimately show ?thesis using ok digits_not_name
    by (auto simp: pin_object_def pin_json_def pin_file_ok_def pin_fields_def)
qed

lemma read_profile_json:
  assumes "profile_file_ok p"
  shows "foldR read_member (profile_json p) (create_profile\<lparr>prof_path := r\<rparr>) = Inr (p\<lparr>prof_path := r\<rparr>)"
  using assms read_pins_json [of "prof_pins p"] atoi_dec_nat
  by (cases p) (auto simp: profile_json_def profile_file_ok_def read_member_def head_fields_def set_head_def create_profile_def)

lemma names_checked: "\<forall>p\<in>set pins. pin_name p \<noteq> None \<Longrightarrow> check_duplicates pins = Inr ()"
  using check_all_named [of AVL_null pins] by (auto simp: check_duplicates_def has_name_def)

text \<open>C14. Round trip of profiles: a file whose text is a JSON document of a profile, in any layout of blanks, reads back
  as that profile with the path of the file, when its numbers are in range, none of its strings is the name of one of the
  five keys of a profile, and its lists of destinations have one length and hold no commas.\<close>

theorem profile_file_roundtrip:
  assumes "path \<noteq> []" and "util_get_file_ext_by_path path = ''json''" and "files path = Some (real_path, content)"
    and cont: "takeWhile (\<lambda>c. c \<noteq> CHR 0x00) (bytes_text content @ behind) = w @ s @ w'"
    and doc: "json_doc (J_object (profile_json p)) (length w) s ts" "blank w" "blank w'" "length ts \<le> PROFILE_MAX_TOKENS"
    and ok: "profile_file_ok p"
  shows "get_profile_by_path files behind path = Inr (p\<lparr>prof_path := Some real_path\<rparr>)"
proof -
  have "\<forall>m\<in>set (profile_json p). profile_member m"
    using ok pin_object_json by (auto simp: profile_json_def profile_member_def head_fields_def profile_file_ok_def)
  with assms(1-4) doc have "get_profile_by_path files behind path =
    bindR (foldR read_member (profile_json p) (create_profile\<lparr>prof_path := Some real_path\<rparr>)) (\<lambda>profile.
    bindR (check_duplicates (prof_pins profile)) (\<lambda>_. Inr profile))"
    by (rule value_read)
  moreover have "check_duplicates (prof_pins p) = Inr ()"
    using ok by (intro names_checked) (auto simp: profile_file_ok_def pin_file_ok_def)
  ultimately show ?thesis
    using read_profile_json [OF ok, of "Some real_path"] by simp
qed

section \<open>Files of the examples\<close>

lemma bytes_text_of_char [simp]: "bytes_text (map of_char t) = t"
proof -
  have "char_of (unat (of_char c :: u8)) = c" for c
  proof -
    have "unat (of_char c :: u8) = of_char c" by (subst of_nat_of_char [symmetric]) (simp add: unat_of_nat)
    then show ?thesis by simp
  qed
  then show ?thesis by (induction t) (simp_all add: bytes_text_def)
qed

lemma c_text_ends: "CHR 0x00 \<notin> set t \<Longrightarrow> takeWhile (\<lambda>c. c \<noteq> CHR 0x00) (bytes_text (map of_char t) @ [CHR 0x00]) = [] @ t @ []"
  by (subst bytes_text_of_char) (induction t, auto)

lemma render_doc_short:
  assumes "renderable v" and "length (flat v) \<le> n"
  shows "\<exists>ts. json_doc v p (render v) ts \<and> length ts \<le> n"
proof -
  obtain ts where ts: "json_doc v p (render v) ts" using render_doc [OF assms(1)] by blast
  with doc_flat(1) [OF this, rule_format, of "replicate p CHR 0x20" "[]"]
  have "list_all2 (tok_is (replicate p CHR 0x20 @ render v @ [])) ts (flat v)" by simp
  from list_all2_lengthD [OF this] show ?thesis using ts assms(2) by auto
qed

definition rendered_file :: "(string \<times> json) list \<Rightarrow> file_system" where
  "rendered_file ms = (\<lambda>path. Some (''/etc/m.json'', map of_char (render (J_object ms))))"

definition plain_document :: "(string \<times> json) list" where
  "plain_document = [(''revision'', J_prim ''3''), (''pins'', J_array [J_object [(''pin_name'', J_string ''P1'')]])]"

theorem get_profile_interprets_value_witness:
  "get_profile_by_path (rendered_file plain_document) [CHR 0x00] ''m.json'' =
    Inr (create_profile\<lparr>prof_path := Some ''/etc/m.json'', revision := 3,
      prof_pins := [(create_profile_pin 0)\<lparr>pin_name := Some ''P1''\<rparr>]\<rparr>)"
proof -
  have "renderable (J_object plain_document)" by (simp add: plain_document_def plain_text_def prim_text_def ends_primitive_def)
  moreover have "length (flat (J_object plain_document)) \<le> PROFILE_MAX_TOKENS" by (simp add: plain_document_def PROFILE_MAX_TOKENS_def)
  ultimately obtain ts where ts: "json_doc (J_object plain_document) 0 (render (J_object plain_document)) ts" "length ts \<le> PROFILE_MAX_TOKENS"
    using render_doc_short by blast
  have "rendered_file plain_document ''m.json'' = Some (''/etc/m.json'', map of_char (render (J_object plain_document)))"
    by (simp add: rendered_file_def)
  moreover have "takeWhile (\<lambda>c. c \<noteq> CHR 0x00) (bytes_text (map of_char (render (J_object plain_document))) @ [CHR 0x00]) =
    [] @ render (J_object plain_document) @ []"
    by (rule c_text_ends) (simp add: plain_document_def quoted_def)
  moreover have "\<forall>m\<in>set plain_document. profile_member m"
    by (simp add: plain_document_def profile_member_def pin_object_def is_name_def head_fields_def)
  moreover have "u32_of_int (c_atoi ''3'') = 3" "util_get_file_ext_by_path ''m.json'' = ''json''" by code_simp+
  ultimately show ?thesis
    using get_profile_interprets_value [of "''m.json''" "rendered_file plain_document" "''/etc/m.json''"
        "map of_char (render (J_object plain_document))" "[CHR 0x00]" "[]" "render (J_object plain_document)" "[]" plain_document ts]
      ts blank_Nil
    by (simp add: plain_document_def read_member_def head_fields_def set_head_def read_pins_def read_pin_def set_field_def
        add_pin_def PROFILE_MAX_PINS_def create_profile_def names_checked)
qed

definition written_profile :: profile where
  "written_profile = create_profile\<lparr>board_name := Some ''B'', description := Some ''D'', revision := 2, num_duts := 1,
     prof_pins := [\<lparr>pin_name = Some ''P1'', comp_name = Some ''C'', net_name = Some ''N'', net_alias = Some ''A'',
       tag = PROFILE_TAG_DATA, tag_data = 5, dut_io_id = - 1, num_dests = 2, dest_dut_ids = [0, 1],
       dest_pin_names = [Some ''X'', Some ''Y'']\<rparr>]\<rparr>"

lemma written_json: "profile_json written_profile =
    [(''board_name'', J_string ''B''), (''description'', J_string ''D''), (''revision'', J_prim ''2''),
     (''num_duts'', J_prim ''1''), (''pins'', J_array [J_object
       [(''pin_name'', J_string ''P1''), (''comp_name'', J_string ''C''), (''net_name'', J_string ''N''),
        (''net_alias'', J_string ''A''), (''tag_name'', J_string ''DATA''), (''tag_data'', J_prim ''5''),
        (''dut_io_id'', J_prim ''-1''), (''dest_dut_ids'', J_string ''0,1''), (''dest_pin_names'', J_string ''X,Y'')]])]"
  by code_simp

theorem profile_file_roundtrip_witness:
  "get_profile_by_path (rendered_file (profile_json written_profile)) [CHR 0x00] ''m.json'' =
    Inr (written_profile\<lparr>prof_path := Some ''/etc/m.json''\<rparr>)"
proof -
  let ?s = "render (J_object (profile_json written_profile))"
  have "renderable (J_object (profile_json written_profile))" "length (flat (J_object (profile_json written_profile))) \<le> PROFILE_MAX_TOKENS"
    by (simp_all add: written_json plain_text_def prim_text_def ends_primitive_def PROFILE_MAX_TOKENS_def)
  then obtain ts where ts: "json_doc (J_object (profile_json written_profile)) 0 ?s ts" "length ts \<le> PROFILE_MAX_TOKENS"
    using render_doc_short by blast
  have stored: "rendered_file (profile_json written_profile) ''m.json'' = Some (''/etc/m.json'', map of_char ?s)"
    by (simp only: rendered_file_def)
  have "CHR 0x00 \<notin> set ?s" by (simp add: written_json quoted_def)
  then have cont: "takeWhile (\<lambda>c. c \<noteq> CHR 0x00) (bytes_text (map of_char ?s) @ [CHR 0x00]) = [] @ ?s @ []" by (rule c_text_ends)
  have ok: "profile_file_ok written_profile"
    by (simp add: profile_file_ok_def written_profile_def create_profile_def PROFILE_MAX_PINS_def pin_file_ok_def int32_def
        is_name_def head_fields_def)
  have "util_get_file_ext_by_path ''m.json'' = ''json''" by code_simp
  from profile_file_roundtrip [of _ "rendered_file (profile_json written_profile)", OF _ this stored cont _ blank_Nil blank_Nil ts(2) ok] ts(1)
  show ?thesis by simp
qed

end
