(* ===== verification/Dots.thy ===== *)
theory Dots
  imports Profile Subvec
begin

text \<open>
  dots.c: DOTS test patterns. A pattern is an array of vectors, each a string with one
  character per pin after a leading \<^verbatim>\<open>V\<close> and a repeat count. The theory models reading a
  pattern file, appending vectors, expanding a vector into subvecs, and the view of the pattern
  as the unrolled sequence of its vectors. A pointer to a vector of a pattern is its slot.
\<close>

section \<open>Data\<close>

record dots_vec =
  dv_repeat :: nat
  vec_str :: "string option"
  is_expanded :: bool
  num_subvecs :: nat
  dv_subvecs :: "subvecs list option"
  has_clk :: bool

text \<open>\<open>dots_vecs\<close> has \<^verbatim>\<open>num_dots_vecs\<close> slots; a slot that was not appended yet is NULL.\<close>

record dots =
  num_dots_vecs :: nat
  dots_vecs :: "dots_vec option list"
  dots_num_pins :: nat
  dots_pins :: "profile_pin list"
  cur_a1_dots_vec_id :: nat
  cur_a2_dots_vec_id :: nat
  cur_appended_dots_vec_id :: nat

section \<open>Creating and appending\<close>

definition create_dots_vec :: "dots \<Rightarrow> dots_vec" where
  "create_dots_vec dots =
     \<lparr>dv_repeat = 0, vec_str = None, is_expanded = False, num_subvecs = dots_num_pins dots,
      dv_subvecs = None, has_clk = False\<rparr>"

definition create_dots :: "nat \<Rightarrow> profile_pin option list \<Rightarrow> nat \<Rightarrow> dots res" where
  "create_dots n pins num_pins =
     (if num_pins = 0 then Inl Bad_count
      else let k = wrap16 num_pins in
        bindR (mapR (\<lambda>i. bindR (nthR pins i) (\<lambda>p. bindR (nonnullR p) create_profile_pin_from_pin))
          [0..<k]) (\<lambda>ps.
        Inr \<lparr>num_dots_vecs = n, dots_vecs = replicate n None, dots_num_pins = k, dots_pins = ps,
             cur_a1_dots_vec_id = 0, cur_a2_dots_vec_id = 0, cur_appended_dots_vec_id = 0\<rparr>))"

definition append_dots_vec_by_vec_str :: "dots \<Rightarrow> string \<Rightarrow> string \<Rightarrow> dots res" where
  "append_dots_vec_by_vec_str dots rep s =
     (if cur_appended_dots_vec_id dots \<ge> num_dots_vecs dots then Inl Capacity_exceeded
      else let v = (create_dots_vec dots)\<lparr>dv_repeat := c_strtoull10 rep, vec_str := Some s\<rparr> in
        bindR (updR (dots_vecs dots) (cur_appended_dots_vec_id dots) (Some v)) (\<lambda>vs.
        Inr (dots\<lparr>dots_vecs := vs,
               cur_appended_dots_vec_id := cur_appended_dots_vec_id dots + 1\<rparr>)))"

text \<open>The enlarged array of \<^verbatim>\<open>realloc\<close> has uninitialised slots; each is written before it is read.\<close>

definition nop_vec_str :: "nat \<Rightarrow> string" where
  "nop_vec_str num_pins = CHR ''V'' # replicate num_pins (CHR ''X'')"

definition append_dots_vec_by_nop_vecs :: "dots \<Rightarrow> nat \<Rightarrow> dots res" where
  "append_dots_vec_by_nop_vecs dots n =
     (let dots = (if cur_appended_dots_vec_id dots \<ge> num_dots_vecs dots
                  then dots\<lparr>num_dots_vecs := num_dots_vecs dots + n,
                            dots_vecs := dots_vecs dots @ replicate n None\<rparr>
                  else dots)
      in foldR (\<lambda>_ d. append_dots_vec_by_vec_str d ''1'' (nop_vec_str (dots_num_pins d)))
           [0..<n] dots)"

section \<open>Expanding a vector\<close>

fun char_subvec :: "char \<Rightarrow> subvecs option" where
  "char_subvec c =
     (if c = CHR ''0'' then Some DUT_SUBVEC_0
      else if c = CHR ''1'' then Some DUT_SUBVEC_1
      else if c = CHR ''X'' then Some DUT_SUBVEC_X
      else if c = CHR ''H'' then Some DUT_SUBVEC_H
      else if c = CHR ''L'' then Some DUT_SUBVEC_L
      else if c = CHR ''C'' then Some DUT_SUBVEC_C
      else None)"

definition expand_char :: "string \<Rightarrow> nat \<Rightarrow> subvecs list \<times> bool \<Rightarrow> (subvecs list \<times> bool) res" where
  "expand_char s i = (\<lambda>(arr, clk).
     bindR (nthR s (i + 1)) (\<lambda>c.
       case char_subvec c of
         None \<Rightarrow> Inr (arr, clk)
       | Some v \<Rightarrow> bindR (updR arr i v) (\<lambda>arr. Inr (arr, clk \<or> c = CHR ''C''))))"

definition expand_dots_vec_subvecs ::
    "dots \<Rightarrow> dots_vec \<Rightarrow> subvecs list option \<Rightarrow> nat \<Rightarrow> dots_vec res" where
  "expand_dots_vec_subvecs dots v data_subvecs num_data_subvecs =
     (if is_expanded v then Inl Bad_state
      else bindR (nonnullR (vec_str v)) (\<lambda>s.
        let vec_str_len = wrap32 (length s);
            num_pins = dots_num_pins dots in
        if data_subvecs \<noteq> None \<and> wrap32 (vec_str_len + PROFILE_NUM_DATA_PINS) \<noteq> num_pins
        then Inl Bad_count
        else if num_subvecs v \<noteq> num_pins then Inl Bad_count
        else if num_subvecs v \<noteq> sub32 vec_str_len 1 then Inl Bad_count
        else if dv_subvecs v \<noteq> None then Inl Bad_state
        else
          bindR (foldR (expand_char s) [0..<sub32 vec_str_len 1]
                   (replicate (num_subvecs v) DUT_SUBVEC_X, has_clk v)) (\<lambda>(arr, clk).
          bindR (case data_subvecs of
                   Some ds \<Rightarrow>
                     (if wrap32 (vec_str_len + num_data_subvecs) \<noteq> num_pins then Inl Bad_count
                      else foldR (\<lambda>i arr. bindR (nthR ds (i - vec_str_len)) (updR arr i))
                             [vec_str_len..<num_pins] arr)
                 | None \<Rightarrow> foldR (\<lambda>i arr. updR arr i DUT_SUBVEC_X) [vec_str_len..<num_pins] arr)
            (\<lambda>arr. Inr (v\<lparr>dv_subvecs := Some arr, has_clk := clk, is_expanded := True\<rparr>)))))"

definition unexpand_dots_vec_subvecs :: "dots_vec \<Rightarrow> dots_vec" where
  "unexpand_dots_vec_subvecs v =
     (if \<not> is_expanded v then v else v\<lparr>dv_subvecs := None, is_expanded := False\<rparr>)"

section \<open>The unrolled sequence\<close>

fun unrolled_loop :: "dots_vec option list \<Rightarrow> nat \<Rightarrow> nat \<Rightarrow> nat \<Rightarrow> nat option res" where
  "unrolled_loop [] slot start i = Inr None"
| "unrolled_loop (p # ps) slot start i =
     bindR (derefR p) (\<lambda>v.
       if i \<ge> start \<and> i < wrap64 (start + dv_repeat v) then Inr (Some slot)
       else unrolled_loop ps (slot + 1) (wrap64 (start + dv_repeat v)) i)"

definition get_dots_vec_by_unrolled_id :: "dots \<Rightarrow> nat \<Rightarrow> nat option res" where
  "get_dots_vec_by_unrolled_id dots i =
     unrolled_loop (take (num_dots_vecs dots) (dots_vecs dots)) 0 0 i"

definition count_unrolled ::
    "nat \<Rightarrow> dots_vec option list \<times> nat \<Rightarrow> (dots_vec option list \<times> nat) res" where
  "count_unrolled i = (\<lambda>(vs, num_unrolled_vecs).
     bindR (nthR vs i) (\<lambda>p. bindR (nonnullR p) (\<lambda>v. bindR (derefR (vec_str v)) (\<lambda>s.
     let clk = (has_clk v \<or> CHR ''C'' \<in> set (take (wrap32 (length s)) s)) in
     bindR (updR vs i (Some (v\<lparr>has_clk := clk\<rparr>))) (\<lambda>vs.
     Inr (vs, if clk then wrap64 (num_unrolled_vecs + dv_repeat v * 2)
              else wrap64 (num_unrolled_vecs + dv_repeat v)))))))"

definition get_num_unrolled_dots_vecs :: "dots \<Rightarrow> (nat \<times> dots) res" where
  "get_num_unrolled_dots_vecs dots =
     bindR (foldR count_unrolled [0..<num_dots_vecs dots] (dots_vecs dots, 0)) (\<lambda>(vs, n).
     Inr (n, dots\<lparr>dots_vecs := vs\<rparr>))"

section \<open>Reading a pattern file\<close>

text \<open>The lines \<^verbatim>\<open>getline\<close> returns, without their newlines.\<close>

fun c_getlines :: "string \<Rightarrow> string \<Rightarrow> string list" where
  "c_getlines acc [] = (if acc = [] then [] else [rev acc])"
| "c_getlines acc (c # s) =
     (if c = CHR 0x0A then rev acc # c_getlines [] s else c_getlines (c # acc) s)"

text \<open>\<^verbatim>\<open>strstr(l, p) == l\<close>.\<close>

definition starts_with :: "string \<Rightarrow> string \<Rightarrow> bool" where
  "starts_with p l \<longleftrightarrow> take (length p) l = p"

definition scan_dots_line :: "string \<Rightarrow> string list \<times> nat \<Rightarrow> (string list \<times> nat) res" where
  "scan_dots_line line = (\<lambda>(pin_names, num_vecs).
     let l = util_str_strip line in
     if starts_with ''#'' l then Inr (pin_names, num_vecs)
     else if length l = 0 then Inr (pin_names, num_vecs)
     else if starts_with ''Pins'' l then
       bindR (util_str_split (util_str_strip (drop 4 l)) (CHR '','')) (\<lambda>names.
       Inr (map util_str_strip names, num_vecs))
     else if starts_with ''V'' l \<or> starts_with ''repeat'' l then
       Inr (pin_names, wrap32 (num_vecs + 1))
     else Inl Bad_format)"

definition find_dots_pin :: "profile \<Rightarrow> string \<Rightarrow> profile_pin res" where
  "find_dots_pin profile name =
     bindR (get_profile_pin_by_dest_pin_name profile (-1) name) (\<lambda>p.
     case p of Some p \<Rightarrow> Inr p | None \<Rightarrow>
     bindR (get_profile_pin_by_net_alias profile (-1) name) (\<lambda>p.
     case p of Some p \<Rightarrow> Inr p | None \<Rightarrow>
     bindR (get_profile_pin_by_net_name profile name) (\<lambda>p.
     case p of Some p \<Rightarrow> Inr p | None \<Rightarrow> Inl Not_found)))"

definition append_dots_line :: "string \<Rightarrow> dots \<Rightarrow> dots res" where
  "append_dots_line line dots =
     (let l = util_str_strip line in
      if starts_with ''#'' l then Inr dots
      else if length l = 0 then Inr dots
      else if starts_with ''Pins'' l then Inr dots
      else if starts_with ''V'' l then append_dots_vec_by_vec_str dots ''1'' l
      else if starts_with ''repeat'' l then
        bindR (util_str_split l (CHR '' '')) (\<lambda>vec_strs.
        if length vec_strs \<noteq> 3 then Inl Bad_format
        else append_dots_vec_by_vec_str dots (vec_strs ! 1) (vec_strs ! 2))
      else Inl Bad_format)"

definition parse_dots :: "profile \<Rightarrow> string \<Rightarrow> dots res" where
  "parse_dots profile text =
     (let lines = c_getlines [] text in
      bindR (foldR scan_dots_line lines ([], 0)) (\<lambda>(pin_names, num_vecs).
      if length pin_names = 0 then Inl Bad_format
      else if num_vecs = 0 then Inl Bad_format
      else bindR (mapR (find_dots_pin profile) pin_names) (\<lambda>pins.
        bindR (create_dots num_vecs (map Some pins) (length pin_names)) (foldR append_dots_line lines))))"


section \<open>Appending\<close>

definition dots_wf :: "dots \<Rightarrow> bool" where
  "dots_wf dots \<longleftrightarrow> length (dots_vecs dots) = num_dots_vecs dots \<and>
     cur_appended_dots_vec_id dots \<le> num_dots_vecs dots"

text \<open>The vector an append creates.\<close>

definition new_vec :: "nat \<Rightarrow> string \<times> string \<Rightarrow> dots_vec" where
  "new_vec num_pins = (\<lambda>(rep, s).
     \<lparr>dv_repeat = c_strtoull10 rep, vec_str = Some s, is_expanded = False,
      num_subvecs = num_pins, dv_subvecs = None, has_clk = False\<rparr>)"

definition append_all :: "dots \<Rightarrow> (string \<times> string) list \<Rightarrow> dots" where
  "append_all d rs = d\<lparr>
     dots_vecs := take (cur_appended_dots_vec_id d) (dots_vecs d) @
       map (\<lambda>r. Some (new_vec (dots_num_pins d) r)) rs @
       drop (cur_appended_dots_vec_id d + length rs) (dots_vecs d),
     cur_appended_dots_vec_id := cur_appended_dots_vec_id d + length rs\<rparr>"

lemma append_step:
  assumes "dots_wf d"
  shows "append_dots_vec_by_vec_str d r s =
    (if cur_appended_dots_vec_id d < num_dots_vecs d then Inr (append_all d [(r, s)])
     else Inl Capacity_exceeded)"
  using assms
  by (simp add: append_dots_vec_by_vec_str_def append_all_def dots_wf_def updR_def new_vec_def
      create_dots_vec_def upd_conv_take_nth_drop)

lemma append_all_wf:
  "dots_wf d \<Longrightarrow> cur_appended_dots_vec_id d + length rs \<le> num_dots_vecs d \<Longrightarrow> dots_wf (append_all d rs)"
  by (simp add: dots_wf_def append_all_def)

lemma append_all_Nil [simp]: "append_all d [] = d"
  by (simp add: append_all_def)

lemma append_all_Cons:
  "dots_wf d \<Longrightarrow> cur_appended_dots_vec_id d < num_dots_vecs d \<Longrightarrow>
    append_all (append_all d [r]) rs = append_all d (r # rs)"
  by (simp add: append_all_def dots_wf_def min_def ac_simps)

text \<open>A run of appends succeeds exactly when the vectors fit, and then fills the next slots.\<close>

lemma append_run:
  assumes "dots_wf d"
  shows "foldR (\<lambda>(r, s) d. append_dots_vec_by_vec_str d r s) rs d =
    (if cur_appended_dots_vec_id d + length rs \<le> num_dots_vecs d then Inr (append_all d rs)
     else Inl Capacity_exceeded)"
  using assms
proof (induction rs arbitrary: d)
  case Nil
  then show ?case by (simp add: dots_wf_def)
next
  case (Cons x rs)
  obtain r s where x: "x = (r, s)" by (cases x)
  show ?case
  proof (cases "cur_appended_dots_vec_id d < num_dots_vecs d")
    case True
    let ?d = "append_all d [(r, s)]"
    have "dots_wf ?d" using Cons.prems True by (intro append_all_wf) auto
    moreover have "cur_appended_dots_vec_id ?d = Suc (cur_appended_dots_vec_id d)"
      "num_dots_vecs ?d = num_dots_vecs d" by (simp_all add: append_all_def)
    ultimately show ?thesis
      using Cons.IH [of ?d] True append_all_Cons [OF Cons.prems True, of "(r, s)" rs]
      by (simp add: x append_step [OF Cons.prems])
  next
    case False
    then show ?thesis by (simp add: x append_step [OF Cons.prems])
  qed
qed

lemma append_nops_run:
  assumes "dots_wf d"
  shows "foldR (\<lambda>_ d. append_dots_vec_by_vec_str d ''1'' (nop_vec_str (dots_num_pins d)))
      [0..<n] d =
    (if cur_appended_dots_vec_id d + n \<le> num_dots_vecs d
     then Inr (append_all d (replicate n (''1'', nop_vec_str (dots_num_pins d))))
     else Inl Capacity_exceeded)"
proof -
  define p where "p = dots_num_pins d"
  have const: "foldR (\<lambda>_ d. append_dots_vec_by_vec_str d ''1'' (nop_vec_str (dots_num_pins d))) xs e =
      foldR (\<lambda>(r, s) d. append_dots_vec_by_vec_str d r s)
        (replicate (length xs) (''1'', nop_vec_str p)) e"
    if "dots_num_pins e = p" for xs :: "nat list" and e
    using that
  proof (induction xs arbitrary: e)
    case Nil
    then show ?case by simp
  next
    case (Cons x xs)
    have "dots_num_pins e' = p"
      if "append_dots_vec_by_vec_str e ''1'' (nop_vec_str p) = Inr e'" for e'
      using that Cons.prems by (auto simp: append_dots_vec_by_vec_str_def bindR_Inr_iff split: if_splits)
    with Cons show ?case
      by (cases "append_dots_vec_by_vec_str e ''1'' (nop_vec_str p)") simp_all
  qed
  show ?thesis
    using const [of d "[0..<n]"] append_run [OF assms] by (simp add: p_def)
qed

lemma append_nops:
  assumes "dots_wf d"
  shows "append_dots_vec_by_nop_vecs d n =
    (let nop = Some (new_vec (dots_num_pins d) (''1'', nop_vec_str (dots_num_pins d)));
         k = cur_appended_dots_vec_id d in
     if k = num_dots_vecs d then
       Inr (d\<lparr>num_dots_vecs := k + n, dots_vecs := dots_vecs d @ replicate n nop,
              cur_appended_dots_vec_id := k + n\<rparr>)
     else if k + n \<le> num_dots_vecs d then
       Inr (d\<lparr>dots_vecs := take k (dots_vecs d) @ replicate n nop @ drop (k + n) (dots_vecs d),
              cur_appended_dots_vec_id := k + n\<rparr>)
     else Inl Capacity_exceeded)"
proof (cases "cur_appended_dots_vec_id d = num_dots_vecs d")
  case True
  let ?d = "d\<lparr>num_dots_vecs := num_dots_vecs d + n, dots_vecs := dots_vecs d @ replicate n None\<rparr>"
  have "dots_wf ?d" using assms by (simp add: dots_wf_def)
  from append_nops_run [OF this, of n] assms True show ?thesis
    by (simp add: append_dots_vec_by_nop_vecs_def append_all_def dots_wf_def Let_def)
next
  case False
  with assms have "cur_appended_dots_vec_id d < num_dots_vecs d" by (simp add: dots_wf_def)
  with append_nops_run [OF assms, of n] show ?thesis
    by (simp add: append_dots_vec_by_nop_vecs_def append_all_def Let_def)
qed


text \<open>Appending NOP vectors to a full pattern grows the array by exactly that many vectors,
  each repeated once and driving \<open>X\<close> on every pin; to a pattern with free slots it appends within
  the slots that are left and ends the process when they do not suffice.\<close>

theorem append_nops_spec:
  assumes "dots_wf d"
  shows "append_dots_vec_by_nop_vecs d n =
    (let nop = Some (new_vec (dots_num_pins d) (''1'', nop_vec_str (dots_num_pins d)));
         k = cur_appended_dots_vec_id d in
     if k = num_dots_vecs d then
       Inr (d\<lparr>num_dots_vecs := k + n, dots_vecs := dots_vecs d @ replicate n nop,
              cur_appended_dots_vec_id := k + n\<rparr>)
     else if k + n \<le> num_dots_vecs d then
       Inr (d\<lparr>dots_vecs := take k (dots_vecs d) @ replicate n nop @ drop (k + n) (dots_vecs d),
              cur_appended_dots_vec_id := k + n\<rparr>)
     else Inl Capacity_exceeded)"
  using assms by (rule append_nops)

lemma append_nops_spec_witness:
  "\<exists>d. create_dots 1 [Some (data_pin 0), Some (data_pin 1)] 2 = Inr d \<and>
    append_dots_vec_by_nop_vecs d 2 = Inl Capacity_exceeded"
proof -
  define d where "d = \<lparr>num_dots_vecs = 1, dots_vecs = [None], dots_num_pins = 2,
    dots_pins = [data_pin 0, data_pin 1], cur_a1_dots_vec_id = 0, cur_a2_dots_vec_id = 0,
    cur_appended_dots_vec_id = 0\<rparr>"
  have "pin_wf (data_pin i)" for i by (simp add: pin_wf_def data_pin_def create_profile_pin_def)
  then have "create_dots 1 [Some (data_pin 0), Some (data_pin 1)] 2 = Inr d"
    by (simp add: create_dots_def nthR_def copy_pin_wf d_def upt_rec)
  moreover have "dots_wf d" by (simp add: dots_wf_def d_def)
  ultimately show ?thesis using append_nops_spec [of d 2] by (simp add: d_def)
qed

section \<open>The unrolled view\<close>

text \<open>The pattern as the sequence of the slots of its vectors, each repeated.\<close>

fun unroll_from :: "nat \<Rightarrow> dots_vec list \<Rightarrow> nat list" where
  "unroll_from k [] = []"
| "unroll_from k (v # vs) = replicate (dv_repeat v) k @ unroll_from (Suc k) vs"

lemma unroll_length: "length (unroll_from k vs) = sum_list (map dv_repeat vs)"
  by (induction vs arbitrary: k) auto

lemma unrolled_loop_nth:
  assumes "start + sum_list (map dv_repeat vs) < 2 ^ 64" and "start \<le> i"
  shows "unrolled_loop (map Some vs) k start i =
    Inr (if i < start + length (unroll_from k vs) then Some (unroll_from k vs ! (i - start))
         else None)"
  using assms
proof (induction vs arbitrary: k start)
  case Nil
  then show ?case by simp
next
  case (Cons v vs)
  have next_start: "wrap64 (start + dv_repeat v) = start + dv_repeat v"
    using Cons.prems(1) by (intro wrap64_small) simp
  show ?case
  proof (cases "i < start + dv_repeat v")
    case True
    with Cons.prems(2) next_start show ?thesis by (auto simp: nth_append)
  next
    case False
    have "\<not> i - start < dv_repeat v" using False Cons.prems(2) by simp
    with False Cons.IH [of "start + dv_repeat v" "Suc k"] Cons.prems next_start show ?thesis
      by (simp add: nth_append diff_diff_left)
  qed
qed

text \<open>A complete pattern: every slot was appended.\<close>

definition dots_full :: "dots \<Rightarrow> dots_vec list \<Rightarrow> bool" where
  "dots_full dots vs \<longleftrightarrow> dots_vecs dots = map Some vs \<and> num_dots_vecs dots = length vs"

text \<open>C39. The search for a vector by unrolled id is the element at that index of the unrolled
  pattern: the pattern is stored compressed but reads like the sequence of its repeated vectors.\<close>

theorem unrolled_id_is_nth:
  assumes "dots_full dots vs" and "sum_list (map dv_repeat vs) < 2 ^ 64"
  shows "get_dots_vec_by_unrolled_id dots i =
    Inr (if i < sum_list (map dv_repeat vs) then Some (unroll_from 0 vs ! i) else None)"
  using assms unrolled_loop_nth [of 0 vs i 0]
  by (simp add: get_dots_vec_by_unrolled_id_def dots_full_def unroll_length)

definition sample_dots :: dots where
  "sample_dots = \<lparr>num_dots_vecs = 2,
     dots_vecs = [Some (new_vec 2 (''3'', ''V01'')), Some (new_vec 2 (''1'', ''VCX''))],
     dots_num_pins = 2, dots_pins = [data_pin 0, data_pin 1], cur_a1_dots_vec_id = 0,
     cur_a2_dots_vec_id = 0, cur_appended_dots_vec_id = 2\<rparr>"

lemma sample_repeats: "c_strtoull10 ''3'' = 3" "c_strtoull10 ''1'' = 1"
  by (simp_all add: c_strtoull10_def c_number_def c_isspace_def c_isdigit_def digits_value_def
      digit_value_def)

lemma sample_dots_full:
  "dots_full sample_dots [new_vec 2 (''3'', ''V01''), new_vec 2 (''1'', ''VCX'')]"
  by (simp add: dots_full_def sample_dots_def)

lemma sample_unrolled:
  "unroll_from 0 [new_vec 2 (''3'', ''V01''), new_vec 2 (''1'', ''VCX'')] = [0, 0, 0, 1]"
  by (simp add: new_vec_def sample_repeats eval_nat_numeral)

lemma unrolled_id_is_nth_witness:
  "get_dots_vec_by_unrolled_id sample_dots 2 = Inr (Some 0) \<and>
   get_dots_vec_by_unrolled_id sample_dots 3 = Inr (Some 1) \<and>
   get_dots_vec_by_unrolled_id sample_dots 4 = Inr None"
  using unrolled_id_is_nth [OF sample_dots_full, unfolded sample_unrolled, of 2]
    unrolled_id_is_nth [OF sample_dots_full, unfolded sample_unrolled, of 3]
    unrolled_id_is_nth [OF sample_dots_full, unfolded sample_unrolled, of 4]
  by (simp add: new_vec_def sample_repeats)

text \<open>A vector with its clock flag brought up to date, and the number of vectors it stands for.\<close>

definition clocked :: "dots_vec \<Rightarrow> dots_vec" where
  "clocked v = v\<lparr>has_clk := has_clk v \<or> CHR ''C'' \<in> set (the (vec_str v))\<rparr>"

definition vec_weight :: "dots_vec \<Rightarrow> nat" where
  "vec_weight v = (if has_clk (clocked v) then dv_repeat v * 2 else dv_repeat v)"

definition vec_ok :: "dots_vec \<Rightarrow> bool" where
  "vec_ok v \<longleftrightarrow> (\<exists>s. vec_str v = Some s \<and> length s < 2 ^ 32)"

lemma wrap64_add: "wrap64 (wrap64 a + b) = wrap64 (a + b)"
  by (simp add: wrap64_def mod_add_left_eq)

lemma count_unrolled_at:
  assumes "k < length xs" and "xs ! k = Some v" and "vec_ok v"
  shows "count_unrolled k (xs, n) = Inr (xs[k := Some (clocked v)], wrap64 (n + vec_weight v))"
proof -
  from assms(3) obtain s where "vec_str v = Some s" "length s < 2 ^ 32"
    unfolding vec_ok_def by blast
  with assms show ?thesis
    by (simp add: count_unrolled_def nthR_def updR_def clocked_def vec_weight_def)
qed

lemma count_unrolled_step:
  assumes "k < length vs" and "\<forall>v\<in>set vs. vec_ok v"
  shows "count_unrolled k (map (\<lambda>v. Some (clocked v)) (take k vs) @ map Some (drop k vs), n) =
    Inr (map (\<lambda>v. Some (clocked v)) (take (Suc k) vs) @ map Some (drop (Suc k) vs),
         wrap64 (n + vec_weight (vs ! k)))"
proof -
  let ?vs = "map (\<lambda>v. Some (clocked v)) (take k vs) @ map Some (drop k vs)"
  have nth: "k < length ?vs" "?vs ! k = Some (vs ! k)"
    using assms(1) by (simp_all add: nth_append)
  have "?vs[k := Some (clocked (vs ! k))] =
      map (\<lambda>v. Some (clocked v)) (take (Suc k) vs) @ map Some (drop (Suc k) vs)"
    using assms(1)
    by (simp add: take_Suc_conv_app_nth list_update_append flip: Cons_nth_drop_Suc)
  moreover have "vec_ok (vs ! k)" using assms by simp
  ultimately show ?thesis using count_unrolled_at [OF nth, of n] by (simp only:)
qed

lemma count_unrolled_run:
  assumes "k \<le> length vs" and "\<forall>v\<in>set vs. vec_ok v"
  shows "foldR count_unrolled [0..<k] (map Some vs, 0) =
    Inr (map (\<lambda>v. Some (clocked v)) (take k vs) @ map Some (drop k vs),
         wrap64 (sum_list (map vec_weight (take k vs))))"
  using assms(1)
proof (induction k)
  case 0
  then show ?case by (simp add: wrap64_def)
next
  case (Suc k)
  then have k: "k < length vs" by simp
  have sum: "sum_list (map vec_weight (take (Suc k) vs)) =
      sum_list (map vec_weight (take k vs)) + vec_weight (vs ! k)"
    using k by (simp add: take_Suc_conv_app_nth)
  have "foldR count_unrolled [0..<Suc k] (map Some vs, 0) =
      bindR (foldR count_unrolled [0..<k] (map Some vs, 0)) (\<lambda>st. count_unrolled k st)"
    by (cases "foldR count_unrolled [0..<k] (map Some vs, 0)";
        cases "count_unrolled k (projr (foldR count_unrolled [0..<k] (map Some vs, 0)))")
      (simp_all add: foldR_append)
  with Suc.IH k show ?case
    by (simp only: less_imp_le bindR.simps count_unrolled_step [OF k assms(2)] wrap64_add sum)
qed

lemma num_unrolled:
  assumes "dots_full dots vs" and "\<forall>v\<in>set vs. vec_ok v"
  shows "get_num_unrolled_dots_vecs dots =
    Inr (sum_list (map vec_weight vs) mod 2 ^ 64, dots\<lparr>dots_vecs := map (\<lambda>v. Some (clocked v)) vs\<rparr>)"
  using assms count_unrolled_run [of "length vs" vs]
  by (simp add: get_num_unrolled_dots_vecs_def dots_full_def wrap64_def)

text \<open>The number of unrolled vectors is the sum of the repeat counts, doubled for the vectors
  with a clock character; as a side effect every clock flag is brought up to date, and nothing
  else of the pattern changes.\<close>

theorem num_unrolled_spec:
  assumes "dots_full dots vs" and "\<forall>v\<in>set vs. vec_ok v"
  shows "get_num_unrolled_dots_vecs dots =
    Inr (sum_list (map vec_weight vs) mod 2 ^ 64, dots\<lparr>dots_vecs := map (\<lambda>v. Some (clocked v)) vs\<rparr>)"
  using assms by (rule num_unrolled)

lemma num_unrolled_spec_witness:
  "\<exists>d. get_num_unrolled_dots_vecs sample_dots = Inr (5, d)"
  using num_unrolled_spec [OF sample_dots_full]
  by (simp add: vec_ok_def vec_weight_def clocked_def new_vec_def sample_repeats)


section \<open>Expanding\<close>

text \<open>The subvec a character of a vector string stands for; other characters leave \<open>X\<close>.\<close>

definition subvec_of_char :: "char \<Rightarrow> subvecs" where
  "subvec_of_char c = (case char_subvec c of Some v \<Rightarrow> v | None \<Rightarrow> DUT_SUBVEC_X)"

lemma expand_char_step:
  assumes "k < n" and "length t = n"
  shows "expand_char (v # t) k
      (map subvec_of_char (take k t) @ replicate (n - k) DUT_SUBVEC_X, clk) =
    Inr (map subvec_of_char (take (Suc k) t) @ replicate (n - Suc k) DUT_SUBVEC_X,
         clk \<or> t ! k = CHR ''C'')"
proof -
  obtain m where m: "n - k = Suc m" "n - Suc k = m" using assms(1) by (cases "n - k") auto
  let ?arr = "map subvec_of_char (take k t) @ replicate (n - k) DUT_SUBVEC_X"
  have len: "length ?arr = n" using assms by simp
  have upd: "?arr[k := x] =
      map subvec_of_char (take k t) @ x # replicate (n - Suc k) DUT_SUBVEC_X" for x
    using assms m by (simp add: list_update_append)
  have c: "char_subvec (CHR ''C'') \<noteq> None" by simp
  show ?thesis
  proof (cases "char_subvec (t ! k)")
    case None
    with c have "t ! k \<noteq> CHR ''C''" by metis
    with None assms m show ?thesis
      by (simp del: char_subvec.simps
          add: expand_char_def nthR_def subvec_of_char_def take_Suc_conv_app_nth)
  next
    case (Some x)
    have u: "updR ?arr k x =
        Inr (map subvec_of_char (take k t) @ x # replicate (n - Suc k) DUT_SUBVEC_X)"
      unfolding updR_def len upd using assms(1) by simp
    have "expand_char (v # t) k (?arr, clk) =
        bindR (updR ?arr k x) (\<lambda>arr. Inr (arr, clk \<or> t ! k = CHR ''C''))"
      using Some assms by (simp del: char_subvec.simps add: expand_char_def nthR_def)
    then show ?thesis
      unfolding u using Some assms
      by (simp del: char_subvec.simps add: subvec_of_char_def take_Suc_conv_app_nth)
  qed
qed

lemma expand_run:
  assumes "k \<le> n" and "length t = n"
  shows "foldR (expand_char (v # t)) [0..<k] (replicate n DUT_SUBVEC_X, clk) =
    Inr (map subvec_of_char (take k t) @ replicate (n - k) DUT_SUBVEC_X,
         clk \<or> CHR ''C'' \<in> set (take k t))"
  using assms(1)
proof (induction k)
  case 0
  then show ?case by simp
next
  case (Suc k)
  then have k: "k < n" by simp
  have C: "CHR ''C'' \<in> set (take (Suc k) t) \<longleftrightarrow>
      CHR ''C'' \<in> set (take k t) \<or> t ! k = CHR ''C''"
    using k assms(2) by (auto simp: take_Suc_conv_app_nth)
  have "foldR (expand_char (v # t)) [0..<Suc k] (replicate n DUT_SUBVEC_X, clk) =
      foldR (expand_char (v # t)) [k]
        (map subvec_of_char (take k t) @ replicate (n - k) DUT_SUBVEC_X,
         clk \<or> CHR ''C'' \<in> set (take k t))"
    using Suc.IH k by (simp add: foldR_append del: foldR.simps)
  also have "\<dots> = Inr (map subvec_of_char (take (Suc k) t) @ replicate (n - Suc k) DUT_SUBVEC_X,
         clk \<or> CHR ''C'' \<in> set (take (Suc k) t))"
    by (simp only: foldR.simps expand_char_step [OF k assms(2)] bindR.simps C disj_assoc)
  finally show ?case .
qed

lemma expand_vec:
  assumes "vec_str v = Some (c # t)" and "\<not> is_expanded v" and "dv_subvecs v = None"
    and "num_subvecs v = dots_num_pins dots" and "length t = dots_num_pins dots"
    and "dots_num_pins dots < 2 ^ 16"
  shows "\<exists>v'. expand_dots_vec_subvecs dots v None n = Inr v' \<and>
    dv_subvecs v' = Some (map subvec_of_char t) \<and> is_expanded v' \<and>
    has_clk v' = (has_clk v \<or> CHR ''C'' \<in> set t) \<and>
    unexpand_dots_vec_subvecs v' = v\<lparr>has_clk := has_clk v'\<rparr>"
proof -
  have len: "wrap32 (length (c # t)) = Suc (dots_num_pins dots)"
    using assms(5,6) by simp
  have run: "foldR (expand_char (c # t)) [0..<dots_num_pins dots]
      (replicate (dots_num_pins dots) DUT_SUBVEC_X, has_clk v) =
      Inr (map subvec_of_char t, has_clk v \<or> CHR ''C'' \<in> set t)"
    using expand_run [OF order_refl, of t "dots_num_pins dots" c "has_clk v"] assms(5) by simp
  show ?thesis
    using assms len run
    by (simp add: expand_dots_vec_subvecs_def unexpand_dots_vec_subvecs_def Let_def)
qed

text \<open>Without injected data, a vector whose string has one character per pin after the leading
  one expands to the subvecs of these characters, in order, and its clock flag is set exactly when
  it was set or a clock character occurs. Un-expanding restores the vector but for that flag.\<close>

theorem expand_vec_spec:
  assumes "vec_str v = Some (c # t)" and "\<not> is_expanded v" and "dv_subvecs v = None"
    and "num_subvecs v = dots_num_pins dots" and "length t = dots_num_pins dots"
    and "dots_num_pins dots < 2 ^ 16"
  shows "\<exists>v'. expand_dots_vec_subvecs dots v None n = Inr v' \<and>
    dv_subvecs v' = Some (map subvec_of_char t) \<and> is_expanded v' \<and>
    has_clk v' = (has_clk v \<or> CHR ''C'' \<in> set t) \<and>
    unexpand_dots_vec_subvecs v' = v\<lparr>has_clk := has_clk v'\<rparr>"
  using assms by (rule expand_vec)

lemma expand_vec_spec_witness:
  "\<exists>v'. expand_dots_vec_subvecs sample_dots (new_vec 2 (''1'', ''VCX'')) None 0 = Inr v' \<and>
    dv_subvecs v' = Some (map subvec_of_char ''CX'') \<and> is_expanded v' \<and>
    has_clk v' = (has_clk (new_vec 2 (''1'', ''VCX'')) \<or> CHR ''C'' \<in> set ''CX'') \<and>
    unexpand_dots_vec_subvecs v' = (new_vec 2 (''1'', ''VCX''))\<lparr>has_clk := has_clk v'\<rparr>"
  by (rule expand_vec_spec) (simp_all add: new_vec_def sample_dots_def)

text \<open>With injected data the expansion never returns, whatever the vector, the pattern and the
  data: one check wants the string 32 characters shorter than the number of pins, another one
  wants it one character longer.\<close>

theorem expand_with_data_never_returns:
  "\<exists>e. expand_dots_vec_subvecs dots v (Some ds) n = Inl e"
proof -
  have "num_subvecs v \<noteq> sub32 (wrap32 l) 1"
    if "wrap32 (wrap32 l + 32) = dots_num_pins dots" "num_subvecs v = dots_num_pins dots" for l
  proof
    assume "num_subvecs v = sub32 (wrap32 l) 1"
    with that have "int (wrap32 (wrap32 l + 32)) = int (sub32 (wrap32 l) 1)" by simp
    then have "(int (wrap32 l) + 32) mod 2 ^ 32 = (int (wrap32 l) - 1) mod 2 ^ 32"
      by (simp add: wrap32_def sub32_def zmod_int)
    then have "((int (wrap32 l) + 32) - (int (wrap32 l) - 1)) mod 2 ^ 32 = 0"
      by (simp only: mod_eq_dvd_iff mod_0_imp_dvd dvd_imp_mod_0)
    then show False by simp
  qed
  then show ?thesis
    by (cases "vec_str v")
      (auto simp: expand_dots_vec_subvecs_def Let_def PROFILE_NUM_DATA_PINS_def)
qed


section \<open>Reading a pattern\<close>

definition is_vec_line :: "string \<Rightarrow> bool" where
  "is_vec_line line \<longleftrightarrow>
     (let l = util_str_strip line in
      \<not> starts_with ''#'' l \<and> l \<noteq> [] \<and> \<not> starts_with ''Pins'' l \<and>
      (starts_with ''V'' l \<or> starts_with ''repeat'' l))"

text \<open>The repeat count and the vector of a vector line.\<close>

definition vec_of_line :: "string \<Rightarrow> (string \<times> string) res" where
  "vec_of_line line =
     (let l = util_str_strip line in
      if starts_with ''V'' l then Inr (''1'', l)
      else bindR (util_str_split l (CHR '' '')) (\<lambda>vec_strs.
        if length vec_strs \<noteq> 3 then Inl Bad_format else Inr (vec_strs ! 1, vec_strs ! 2)))"

lemma wrap32_add: "wrap32 (wrap32 a + b) = wrap32 (a + b)"
  by (simp add: wrap32_def mod_add_left_eq)

lemma scan_count:
  "foldR scan_dots_line lines (ns, n) = Inr (ns', n') \<Longrightarrow> n < 2 ^ 32 \<Longrightarrow>
    n' = wrap32 (n + length (filter is_vec_line lines))"
proof (induction lines arbitrary: ns n)
  case Nil
  then show ?case by simp
next
  case (Cons line lines)
  from Cons.prems(1) obtain ns1 n1 where
    step: "scan_dots_line line (ns, n) = Inr (ns1, n1)"
    and rest: "foldR scan_dots_line lines (ns1, n1) = Inr (ns', n')"
    by (auto simp: bindR_Inr_iff)
  have n1: "n1 = (if is_vec_line line then wrap32 (n + 1) else n)"
    using step by (auto simp: scan_dots_line_def is_vec_line_def Let_def bindR_Inr_iff split: if_splits)
  then have "n1 < 2 ^ 32" using Cons.prems(2) by (simp add: wrap32_def)
  from Cons.IH [OF rest this] n1 show ?case by (simp add: wrap32_add)
qed

lemma append_line_cases:
  "append_dots_line line d =
    (if is_vec_line line then
       bindR (vec_of_line line) (\<lambda>(r, s). append_dots_vec_by_vec_str d r s)
     else if util_str_strip line = [] \<or> starts_with ''#'' (util_str_strip line) \<or>
       starts_with ''Pins'' (util_str_strip line) then Inr d
     else Inl Bad_format)"
proof -
  have "\<not> starts_with ''Pins'' l" if "starts_with ''V'' l \<or> starts_with ''repeat'' l" for l
    using that by (cases l) (auto simp: starts_with_def)
  moreover have "bindR (util_str_split l (CHR '' '')) (\<lambda>vs. if length vs \<noteq> 3 then Inl Bad_format
        else append_dots_vec_by_vec_str d (vs ! 1) (vs ! 2)) =
      bindR (bindR (util_str_split l (CHR '' '')) (\<lambda>vs. if length vs \<noteq> 3 then Inl Bad_format
        else Inr (vs ! 1, vs ! 2))) (\<lambda>(r, s). append_dots_vec_by_vec_str d r s)" for l
    by (cases "util_str_split l (CHR '' '')") auto
  ultimately show ?thesis
    by (auto simp: append_dots_line_def is_vec_line_def vec_of_line_def Let_def)
qed

lemma append_lines:
  assumes "foldR append_dots_line lines d = Inr d'" and "dots_wf d"
  shows "\<exists>rs. mapR vec_of_line (filter is_vec_line lines) = Inr rs \<and> d' = append_all d rs \<and>
    cur_appended_dots_vec_id d + length rs \<le> num_dots_vecs d"
  using assms
proof (induction lines arbitrary: d)
  case Nil
  then show ?case by (simp add: dots_wf_def)
next
  case (Cons line lines)
  then obtain d1 where d1: "append_dots_line line d = Inr d1"
    "foldR append_dots_line lines d1 = Inr d'"
    by (auto simp: bindR_Inr_iff)
  show ?case
  proof (cases "is_vec_line line")
    case False
    with d1 have "d1 = d" by (simp add: append_line_cases split: if_splits)
    with False Cons d1 show ?thesis by simp
  next
    case True
    with d1(1) obtain r s where rs: "vec_of_line line = Inr (r, s)"
      "append_dots_vec_by_vec_str d r s = Inr d1"
      by (auto simp: append_line_cases bindR_Inr_iff)
    with append_step [OF Cons.prems(2), of r s] have room:
      "cur_appended_dots_vec_id d < num_dots_vecs d" and eq: "d1 = append_all d [(r, s)]"
      by (auto split: if_splits)
    have "dots_wf d1" unfolding eq using Cons.prems(2) room by (intro append_all_wf) auto
    from Cons.IH [OF d1(2) this] obtain rs' where
      "mapR vec_of_line (filter is_vec_line lines) = Inr rs'" "d' = append_all d1 rs'"
      "cur_appended_dots_vec_id d1 + length rs' \<le> num_dots_vecs d1" by blast
    with True rs(1) append_all_Cons [OF Cons.prems(2) room, of "(r, s)" rs'] eq show ?thesis
      by (simp add: append_all_def)
  qed
qed

text \<open>C28. A pattern that is read without an error holds exactly the vectors of its file, in their
  order: as many slots as vector lines, each appended once with the repeat count and the string
  of its line, not expanded, for as many pins as the pattern has.\<close>

theorem parse_dots_spec:
  assumes "parse_dots profile text = Inr d"
    and "length (filter is_vec_line (c_getlines [] text)) < 2 ^ 32"
  shows "\<exists>rs. mapR vec_of_line (filter is_vec_line (c_getlines [] text)) = Inr rs \<and>
    dots_full d (map (new_vec (dots_num_pins d)) rs) \<and> rs \<noteq> [] \<and>
    cur_appended_dots_vec_id d = num_dots_vecs d \<and> length (dots_pins d) = dots_num_pins d"
proof -
  let ?lines = "c_getlines [] text"
  from assms(1) obtain names n pins d0 where
    scan: "foldR scan_dots_line ?lines ([], 0) = Inr (names, n)"
    and n: "n \<noteq> 0" and create: "create_dots n (map Some pins) (length names) = Inr d0"
    and fill: "foldR append_dots_line ?lines d0 = Inr d"
    by (auto simp: parse_dots_def Let_def bindR_Inr_iff split: if_splits)
  from create have d0: "num_dots_vecs d0 = n" "dots_vecs d0 = replicate n None"
    "cur_appended_dots_vec_id d0 = 0" "length (dots_pins d0) = dots_num_pins d0"
    by (auto simp: create_dots_def Let_def bindR_Inr_iff dest: mapR_length split: if_splits)
  then have "dots_wf d0" by (simp add: dots_wf_def)
  from append_lines [OF fill this] obtain rs where rs:
    "mapR vec_of_line (filter is_vec_line ?lines) = Inr rs" "d = append_all d0 rs" by blast
  have "n = length rs"
    using scan_count [OF scan] assms(2) mapR_length [OF rs(1)] by simp
  with rs d0 n show ?thesis
    by (auto simp: append_all_def dots_full_def)
qed

definition one_pin_profile :: profile where
  "one_pin_profile = create_profile\<lparr>prof_pins := [gpio_pin 0 3], num_duts := 1\<rparr>"

definition sample_text :: string where
  "sample_text = ''Pins D'' @ [CHR 0x0A] @ ''V1'' @ [CHR 0x0A] @ ''repeat 5 V0'' @ [CHR 0x0A]"

lemma sample_lines: "c_getlines [] sample_text = [''Pins D'', ''V1'', ''repeat 5 V0'']"
  by (simp add: sample_text_def)

lemma sample_strip:
  "util_str_strip ''Pins D'' = ''Pins D''" "util_str_strip '' D'' = ''D''"
  "util_str_strip ''D'' = ''D''" "util_str_strip ''V1'' = ''V1''"
  "util_str_strip ''repeat 5 V0'' = ''repeat 5 V0''"
  by (simp_all add: util_str_strip_def c_isspace_def)

lemma sample_split:
  "util_str_split ''D'' (CHR '','') = Inr [''D'']"
  "util_str_split ''repeat 5 V0'' (CHR '' '') = Inr [''repeat'', ''5'', ''V0'']"
  by (simp_all add: util_str_split_def split_count_def c_strtok_all.simps)

lemma gpio_pin_sel [simp]:
  "num_dests (gpio_pin k io) = 1" "dest_pin_names (gpio_pin k io) = [Some ''D'']"
  "pin_wf (gpio_pin k io)"
  by (simp_all add: pin_wf_def gpio_pin_def create_profile_pin_def)

lemma sample_pin: "find_dots_pin one_pin_profile ''D'' = Inr (gpio_pin 0 3)"
  by (simp add: find_dots_pin_def get_profile_pin_by_dest_pin_name_def one_pin_profile_def
      bad_dut_id_def dest_matches_def nthR_def strcmp_eqR_def copy_pin_wf)

lemma parse_dots_spec_witness:
  "\<exists>d. parse_dots one_pin_profile sample_text = Inr d \<and> num_dots_vecs d = 2"
proof -
  note line_defs = scan_dots_line_def append_dots_line_def starts_with_def sample_strip sample_split
  have "\<exists>d. parse_dots one_pin_profile sample_text = Inr d"
    by (simp add: parse_dots_def sample_lines line_defs sample_pin create_dots_def copy_pin_wf nthR_def
        updR_def append_dots_vec_by_vec_str_def numeral_2_eq_2)
  then obtain d where d: "parse_dots one_pin_profile sample_text = Inr d" ..
  have two: "length (filter is_vec_line (c_getlines [] sample_text)) = 2"
    by (simp add: sample_lines is_vec_line_def starts_with_def sample_strip)
  with parse_dots_spec [OF d] obtain rs where
    "mapR vec_of_line (filter is_vec_line (c_getlines [] sample_text)) = Inr rs"
    "dots_full d (map (new_vec (dots_num_pins d)) rs)" by auto
  with d two mapR_length show ?thesis by (fastforce simp: dots_full_def)
qed

end
