(* ===== verification/Config.thy ===== *)
theory Config
  imports Dots
begin

text \<open>
  config.c: how to drive the configuration pins of a DUT before, during and after the data of a
  bitstream. The vectors of the three phases are tables of repeat counts and strings; a config is
  a DOTS pattern built from one of them over the configuration pins of a profile.
\<close>

section \<open>Tables\<close>

definition config_tags :: "profile_tags list" where
  "config_tags = [PROFILE_TAG_CCLK, PROFILE_TAG_RESET_B, PROFILE_TAG_CSI_B, PROFILE_TAG_RDWR_B,
     PROFILE_TAG_PROGRAM_B, PROFILE_TAG_INIT_B, PROFILE_TAG_DONE, PROFILE_TAG_DATA]"

datatype config_types =
  CONFIG_TYPE_NONE | CONFIG_TYPE_HEADER | CONFIG_TYPE_BODY | CONFIG_TYPE_FOOTER

definition CONFIG_VEC_CCLK_INDEX :: nat where "CONFIG_VEC_CCLK_INDEX = 0"

definition config_header :: "string list" where
  "config_header =
     [''5'', ''011111X'', ''5'', ''001111X'', ''5'', ''011111X'', ''30'', ''011100X'',
      ''50000'', ''C11110X'', ''1'', ''C11111L'', ''30'', ''C11011L'', ''1'', ''C10011L'']"

definition config_body :: "string list" where
  "config_body = [''1'', ''C1001HX'']"

definition config_footer :: "string list" where
  "config_footer =
     [''33'', ''C1101HX'', ''50000'', ''C1101HX'', ''5'', ''C1101HH'', ''1'', ''011111X'']"

text \<open>\<^verbatim>\<open>vec_data\<close>; the type NONE is refused before it is used.\<close>

fun config_vec_data :: "config_types \<Rightarrow> string list res" where
  "config_vec_data CONFIG_TYPE_NONE = Inl Bad_select"
| "config_vec_data CONFIG_TYPE_HEADER = Inr config_header"
| "config_vec_data CONFIG_TYPE_BODY = Inr config_body"
| "config_vec_data CONFIG_TYPE_FOOTER = Inr config_footer"

definition get_config_num_vecs_by_type :: "config_types \<Rightarrow> nat res" where
  "get_config_num_vecs_by_type type =
     (case type of
        CONFIG_TYPE_NONE \<Rightarrow> Inl Bad_select
      | CONFIG_TYPE_HEADER \<Rightarrow> Inr (length config_header div 2)
      | CONFIG_TYPE_BODY \<Rightarrow> Inr (length config_body div 2)
      | CONFIG_TYPE_FOOTER \<Rightarrow> Inr (length config_footer div 2))"

text \<open>One step of the loop over pairs of table entries.\<close>

definition add_unrolled :: "string list \<Rightarrow> nat \<Rightarrow> nat \<Rightarrow> nat res" where
  "add_unrolled vec_data k unrolled_num_vecs =
     bindR (nthR vec_data (2 * k)) (\<lambda>rep.
     bindR (nthR vec_data (2 * k + 1)) (\<lambda>s.
     bindR (nthR s CONFIG_VEC_CCLK_INDEX) (\<lambda>c.
     let r = (if c = CHR ''C'' then wrap64 (c_strtoull10 rep * 2) else c_strtoull10 rep) in
     Inr (wrap64 (unrolled_num_vecs + r)))))"

definition get_config_unrolled_num_vecs_by_type :: "config_types \<Rightarrow> nat res" where
  "get_config_unrolled_num_vecs_by_type type =
     bindR (config_vec_data type) (\<lambda>vec_data.
     bindR (get_config_num_vecs_by_type type) (\<lambda>num_vecs.
     foldR (add_unrolled vec_data) [0..<num_vecs] 0))"

section \<open>Configuration pins\<close>

definition get_config_num_profile_pins_by_tag :: "profile_tags \<Rightarrow> nat res" where
  "get_config_num_profile_pins_by_tag t =
     (if t \<notin> set config_tags then Inl Bad_select
      else if t = PROFILE_TAG_DATA then Inr 32 else Inr 1)"

definition get_config_num_profile_pins :: "nat res" where
  "get_config_num_profile_pins =
     foldR (\<lambda>t n. bindR (get_config_num_profile_pins_by_tag t) (\<lambda>k. Inr (n + k))) config_tags 0"

definition copy_config_pin ::
    "nat \<Rightarrow> profile_pin option \<Rightarrow> profile_pin list \<Rightarrow> profile_pin list res" where
  "copy_config_pin num_config_pins p config_pins =
     (if length config_pins < num_config_pins then
        bindR (nonnullR p) (\<lambda>p. bindR (create_profile_pin_from_pin p) (\<lambda>q.
        Inr (config_pins @ [q])))
      else Inl Capacity_exceeded)"

definition add_config_tag ::
    "profile \<Rightarrow> int \<Rightarrow> nat \<Rightarrow> profile_tags \<Rightarrow> profile_pin list \<times> nat \<Rightarrow> (profile_pin list \<times> nat) res" where
  "add_config_tag profile dut_id num_config_pins t = (\<lambda>(config_pins, num_found_pins).
     bindR (get_profile_pins_by_tag profile dut_id t) (\<lambda>pins.
     bindR (foldR (copy_config_pin num_config_pins) pins config_pins) (\<lambda>config_pins.
     Inr (config_pins, num_found_pins + length pins))))"

definition get_config_profile_pins :: "profile \<Rightarrow> int \<Rightarrow> profile_pin list res" where
  "get_config_profile_pins profile dut_id =
     bindR get_config_num_profile_pins (\<lambda>num_config_pins.
     if bad_dut_id profile dut_id then Inl Out_of_range
     else bindR (foldR (add_config_tag profile dut_id num_config_pins) config_tags ([], 0))
       (\<lambda>(config_pins, num_found_pins).
         if num_found_pins \<noteq> num_config_pins then Inl Bad_count else Inr config_pins))"

section \<open>Configs\<close>

record config =
  config_type :: config_types
  config_dots :: dots
  config_num_tags :: nat
  config_tag_list :: "profile_tags list"

definition append_table_vec :: "string list \<Rightarrow> nat \<Rightarrow> dots \<Rightarrow> dots res" where
  "append_table_vec vec_data k dots =
     bindR (nthR vec_data (2 * k)) (\<lambda>rep.
     bindR (nthR vec_data (2 * k + 1)) (\<lambda>s.
     append_dots_vec_by_vec_str dots rep s))"

definition create_config :: "profile \<Rightarrow> config_types \<Rightarrow> nat \<Rightarrow> config res" where
  "create_config profile type num_loop_vecs =
     (if type = CONFIG_TYPE_NONE then Inl Bad_select
      else if num_loop_vecs = 0 then Inl Bad_count
      else if type \<noteq> CONFIG_TYPE_BODY \<and> num_loop_vecs \<noteq> 1 then Inl Bad_count
      else
        bindR (get_config_num_vecs_by_type type) (\<lambda>num_dots_vecs.
        if type = CONFIG_TYPE_BODY \<and> num_dots_vecs \<noteq> 1 then Inl Bad_count
        else
          bindR (get_config_profile_pins profile (-1)) (\<lambda>pins.
          bindR (create_dots (wrap32 (num_loop_vecs * num_dots_vecs)) (map Some pins) (length pins))
            (\<lambda>dots.
          bindR (config_vec_data type) (\<lambda>vec_data.
          bindR (foldR (\<lambda>_. foldR (append_table_vec vec_data) [0..<num_dots_vecs])
                   [0..<num_loop_vecs] dots) (\<lambda>dots.
          Inr \<lparr>config_type = type, config_dots = dots, config_num_tags = length config_tags,
               config_tag_list = config_tags\<rparr>))))))"

section \<open>The configuration pins\<close>

lemma config_num_pins: "get_config_num_profile_pins = Inr 39"
  by (simp add: get_config_num_profile_pins_def get_config_num_profile_pins_by_tag_def
      config_tags_def)

lemma copy_config_pin_step:
  "copy_config_pin n None acc = (if length acc < n then Inl Null_pointer else Inl Capacity_exceeded)"
  "pin_wf q \<Longrightarrow> copy_config_pin n (Some q) acc =
    (if length acc < n then Inr (acc @ [q]) else Inl Capacity_exceeded)"
  by (simp_all add: copy_config_pin_def copy_pin_wf)

lemma copy_config_pins:
  assumes "foldR (copy_config_pin n) ps acc = Inr acc'" and "\<forall>p. Some p \<in> set ps \<longrightarrow> pin_wf p"
  shows "acc' = acc @ map the ps \<and> None \<notin> set ps"
  using assms
proof (induction ps arbitrary: acc)
  case Nil
  then show ?case by simp
next
  case (Cons p ps)
  from Cons.prems(1) obtain q where q: "p = Some q"
    by (cases p) (auto simp: copy_config_pin_step split: if_splits)
  with Cons.prems have "foldR (copy_config_pin n) ps (acc @ [q]) = Inr acc'"
    by (auto simp: copy_config_pin_step split: if_splits)
  from Cons.IH [OF this] Cons.prems(2) q show ?case by auto
qed

text \<open>What the pins of one tag add.\<close>

definition tag_block :: "profile_tags \<Rightarrow> profile_pin list \<Rightarrow> bool" where
  "tag_block t qs \<longleftrightarrow> (\<forall>q\<in>set qs. tag q = t \<and> pin_wf q) \<and>
     length qs = (if t = PROFILE_TAG_DATA then 32 else 1) \<and>
     (t = PROFILE_TAG_DATA \<longrightarrow> map tag_data qs = map int [0..<32])"

lemma add_config_tag_block:
  assumes "profile_wf profile" and "t \<in> set config_tags"
    and "add_config_tag profile d n t (acc, k) = Inr (acc', k')"
  shows "\<exists>qs. acc' = acc @ qs \<and> tag_block t qs \<and> k' = k + length qs"
proof -
  from assms(3) obtain ps where ps: "get_profile_pins_by_tag profile d t = Inr ps"
    "foldR (copy_config_pin n) ps acc = Inr acc'" "k' = k + length ps"
    by (auto simp: add_config_tag_def bindR_Inr_iff)
  note wf = pins_by_tag_result [OF assms(1) ps(1)]
  have "\<forall>p. Some p \<in> set ps \<longrightarrow> pin_wf p" using wf by blast
  note copied = copy_config_pins [OF ps(2) this]
  then have acc': "acc' = acc @ map the ps" "None \<notin> set ps" by blast+
  have some: "ps = map Some (map the ps)" using acc'(2) by (induction ps) auto
  have "t \<noteq> PROFILE_TAG_NONE" "t \<noteq> PROFILE_TAG_GPIO"
    using assms(2) by (auto simp: config_tags_def)
  from pins_by_tag_count [OF assms(1) ps(1) this]
  have len: "length ps = (if t = PROFILE_TAG_DATA then 32 else 1)" .
  have "map tag_data (map the ps) = map int [0..<32]" if "t = PROFILE_TAG_DATA"
  proof (rule nth_equalityI)
    show "length (map tag_data (map the ps)) = length (map int [0..<32])" using len that by simp
    fix i assume "i < length (map tag_data (map the ps))"
    then have i: "i < length ps" by simp
    moreover from this some have "ps ! i = Some (map the ps ! i)" by (metis length_map nth_map)
    ultimately have "tag_data (map the ps ! i) = int i"
      using data_pins_slot assms(1) ps(1) that by blast
    with i len that show "map tag_data (map the ps) ! i = map int [0..<32] ! i"
      by (simp del: upt_rec_numeral)
  qed
  moreover have "\<forall>q\<in>set (map the ps). tag q = t \<and> pin_wf q" using wf acc'(2)
    by (metis (no_types, lifting) imageE list.set_map option.collapse)
  ultimately have "tag_block t (map the ps)" using len by (simp add: tag_block_def)
  then show ?thesis using acc' ps(3) by (metis length_map)
qed

lemma add_config_tags_blocks:
  assumes "profile_wf profile" and "set ts \<subseteq> set config_tags"
    and "foldR (add_config_tag profile d n) ts (acc, k) = Inr (acc', k')"
  shows "\<exists>qss. acc' = acc @ concat qss \<and> list_all2 tag_block ts qss"
  using assms(2,3)
proof (induction ts arbitrary: acc k)
  case Nil
  then show ?case by simp
next
  case (Cons t ts)
  from Cons.prems(2) obtain acc1 k1 where step:
    "add_config_tag profile d n t (acc, k) = Inr (acc1, k1)"
    "foldR (add_config_tag profile d n) ts (acc1, k1) = Inr (acc', k')"
    by (auto simp: bindR_Inr_iff)
  from add_config_tag_block [OF assms(1) _ step(1)] Cons.prems(1) obtain qs where
    qs: "acc1 = acc @ qs" "tag_block t qs" by auto
  from Cons.IH [OF _ step(2)] Cons.prems(1) obtain qss where
    "acc' = acc1 @ concat qss" "list_all2 tag_block ts qss" by auto
  with qs have "acc' = acc @ concat (qs # qss)" "list_all2 tag_block (t # ts) (qs # qss)" by auto
  then show ?case by blast
qed

lemma config_pins_blocks:
  assumes "profile_wf profile" and "get_config_profile_pins profile d = Inr ps"
  shows "\<exists>qss. ps = concat qss \<and> list_all2 tag_block config_tags qss"
  using assms(2) add_config_tags_blocks [OF assms(1) subset_refl]
  by (fastforce simp: get_config_profile_pins_def config_num_pins bindR_Inr_iff split: if_splits)

lemma config_pins_facts:
  assumes "profile_wf profile" and "get_config_profile_pins profile d = Inr ps"
  shows "length ps = 39 \<and> (\<forall>p\<in>set ps. pin_wf p) \<and>
    map tag ps = butlast config_tags @ replicate 32 PROFILE_TAG_DATA \<and>
    map tag_data (drop 7 ps) = map int [0..<32]"
proof -
  from config_pins_blocks [OF assms] obtain a b c e f g h ds where
    ps: "ps = concat [a, b, c, e, f, g, h, ds]"
    and blocks: "tag_block PROFILE_TAG_CCLK a" "tag_block PROFILE_TAG_RESET_B b"
      "tag_block PROFILE_TAG_CSI_B c" "tag_block PROFILE_TAG_RDWR_B e"
      "tag_block PROFILE_TAG_PROGRAM_B f" "tag_block PROFILE_TAG_INIT_B g"
      "tag_block PROFILE_TAG_DONE h" "tag_block PROFILE_TAG_DATA ds"
    unfolding config_tags_def by (auto simp: list_all2_Cons1)
  have one: "\<exists>q. qs = [q] \<and> tag q = t \<and> pin_wf q" if "tag_block t qs" "t \<noteq> PROFILE_TAG_DATA" for t qs
    using that by (auto simp: tag_block_def length_Suc_conv)
  from one [OF blocks(1)] one [OF blocks(2)] one [OF blocks(3)] one [OF blocks(4)]
    one [OF blocks(5)] one [OF blocks(6)] one [OF blocks(7)]
  obtain p1 p2 p3 p4 p5 p6 p7 where
    "a = [p1]" "b = [p2]" "c = [p3]" "e = [p4]" "f = [p5]" "g = [p6]" "h = [p7]"
    and tags: "tag p1 = PROFILE_TAG_CCLK" "tag p2 = PROFILE_TAG_RESET_B" "tag p3 = PROFILE_TAG_CSI_B"
      "tag p4 = PROFILE_TAG_RDWR_B" "tag p5 = PROFILE_TAG_PROGRAM_B" "tag p6 = PROFILE_TAG_INIT_B"
      "tag p7 = PROFILE_TAG_DONE"
    and wf: "pin_wf p1" "pin_wf p2" "pin_wf p3" "pin_wf p4" "pin_wf p5" "pin_wf p6" "pin_wf p7"
    by auto
  then have eq: "ps = [p1, p2, p3, p4, p5, p6, p7] @ ds" using ps by simp
  have "map tag ds = replicate 32 PROFILE_TAG_DATA"
    using blocks(8) by (auto simp: tag_block_def intro!: replicate_eqI)
  then show ?thesis
    using blocks(8) wf tags unfolding eq config_tags_def
    by (auto simp: tag_block_def simp del: upt_rec_numeral)
qed


text \<open>The configuration pins, when the lookup succeeds, are 39 complete pins: the seven control
  pins in the order of the table, then the 32 data pins in the order of their tag data.\<close>

theorem config_pins_order:
  assumes "profile_wf profile" and "get_config_profile_pins profile d = Inr ps"
  shows "length ps = 39 \<and> (\<forall>p\<in>set ps. pin_wf p) \<and>
    map tag ps = butlast config_tags @ replicate 32 PROFILE_TAG_DATA \<and>
    map tag_data (drop 7 ps) = map int [0..<32]"
  using assms by (rule config_pins_facts)

text \<open>A profile that holds what the configuration needs: one pin of each control tag and 32 data
  pins numbered 0 to 31.\<close>

definition config_complete :: "profile \<Rightarrow> bool" where
  "config_complete profile \<longleftrightarrow> profile_wf profile \<and>
     (\<forall>t\<in>set (butlast config_tags). length (tagged (-1) t (prof_pins profile)) = 1) \<and>
     length (tagged (-1) PROFILE_TAG_DATA (prof_pins profile)) = 32 \<and>
     tag_data_perm (tagged (-1) PROFILE_TAG_DATA (prof_pins profile))"

lemma copy_config_pins_total:
  "\<forall>q\<in>set qs. pin_wf q \<Longrightarrow> length acc + length qs \<le> n \<Longrightarrow>
    foldR (copy_config_pin n) (map Some qs) acc = Inr (acc @ qs)"
  by (induction qs arbitrary: acc) (auto simp: copy_config_pin_step)

lemma add_config_tag_total:
  assumes "config_complete profile" and "t \<in> set config_tags"
    and "length acc + (if t = PROFILE_TAG_DATA then 32 else 1) \<le> n"
  shows "\<exists>qs. add_config_tag profile (-1) n t (acc, k) = Inr (acc @ qs, k + length qs) \<and>
    length qs = (if t = PROFILE_TAG_DATA then 32 else 1)"
proof -
  let ?pins = "tagged (-1) t (prof_pins profile)"
  have wf: "profile_wf profile" and id: "\<not> bad_dut_id profile (-1)"
    using assms(1) by (simp_all add: config_complete_def bad_dut_id_def)
  have last: "last_tagged_on_dut (-1) t (prof_pins profile)"
    by (simp add: last_tagged_on_dut_def on_dut_def Let_def)
  have tags: "t \<noteq> PROFILE_TAG_NONE" "t \<noteq> PROFILE_TAG_GPIO"
    using assms(2) by (auto simp: config_tags_def)
  have "\<exists>qs. get_profile_pins_by_tag profile (-1) t = Inr (map Some qs) \<and>
      length qs = (if t = PROFILE_TAG_DATA then 32 else 1)"
  proof (cases "t = PROFILE_TAG_DATA")
    case True
    with assms(1) have perm: "tag_data_perm ?pins" "length ?pins = 32"
      by (simp_all add: config_complete_def)
    from sort_total_some [OF perm(1)] perm(2) obtain qs where
      "sort_profile_pins_by_tag_data ?pins = Inr (map Some qs)" "length qs = 32" by auto
    with True perm(2) last show ?thesis by (simp add: pins_by_tag [OF wf id] Let_def)
  next
    case False
    with assms(1,2) have "length ?pins = 1" by (auto simp: config_complete_def config_tags_def)
    then show ?thesis using False tags last by (auto simp: pins_by_tag [OF wf id] Let_def)
  qed
  then obtain qs where qs: "get_profile_pins_by_tag profile (-1) t = Inr (map Some qs)"
    "length qs = (if t = PROFILE_TAG_DATA then 32 else 1)" by blast
  have "\<forall>q\<in>set qs. pin_wf q" using pins_by_tag_result [OF wf qs(1)] by auto
  from copy_config_pins_total [OF this] qs assms(3)
  have "add_config_tag profile (-1) n t (acc, k) = Inr (acc @ qs, k + length qs)"
    by (simp add: add_config_tag_def)
  with qs(2) show ?thesis by blast
qed

definition tag_pins :: "profile_tags \<Rightarrow> nat" where
  "tag_pins t = (if t = PROFILE_TAG_DATA then 32 else 1)"

lemma add_config_tags_total:
  assumes "config_complete profile" and "set ts \<subseteq> set config_tags"
    and "length acc + sum_list (map tag_pins ts) \<le> n"
  shows "\<exists>acc'. foldR (add_config_tag profile (-1) n) ts (acc, k) =
    Inr (acc', k + sum_list (map tag_pins ts))"
  using assms(2,3)
proof (induction ts arbitrary: acc k)
  case Nil
  then show ?case by simp
next
  case (Cons t ts)
  have t: "t \<in> set config_tags" and ts: "set ts \<subseteq> set config_tags" using Cons.prems(1) by auto
  have "length acc + (if t = PROFILE_TAG_DATA then 32 else 1) \<le> n"
    using Cons.prems(2) by (simp add: tag_pins_def)
  from add_config_tag_total [OF assms(1) t this, of k] obtain qs where
    qs: "add_config_tag profile (-1) n t (acc, k) = Inr (acc @ qs, k + length qs)"
    "length qs = tag_pins t" unfolding tag_pins_def by blast
  have "length (acc @ qs) + sum_list (map tag_pins ts) \<le> n" using Cons.prems(2) qs(2) by simp
  from Cons.IH [OF ts this, of "k + length qs"] obtain acc' where
    "foldR (add_config_tag profile (-1) n) ts (acc @ qs, k + length qs) =
      Inr (acc', k + length qs + sum_list (map tag_pins ts))" by blast
  with qs show ?case by simp
qed

lemma config_pins_total:
  assumes "config_complete profile"
  shows "\<exists>ps. get_config_profile_pins profile (-1) = Inr ps"
proof -
  have "sum_list (map tag_pins config_tags) = 39" by (simp add: config_tags_def tag_pins_def)
  with add_config_tags_total [OF assms subset_refl, of "[]" 39 0] obtain ps where
    "foldR (add_config_tag profile (-1) 39) config_tags ([], 0) = Inr (ps, 39)" by auto
  then show ?thesis
    by (simp add: get_config_profile_pins_def config_num_pins bad_dut_id_def)
qed

definition ctl_pin :: "profile_tags \<Rightarrow> profile_pin" where
  "ctl_pin t = (data_pin 0)\<lparr>tag := t, tag_data := -1\<rparr>"

definition config_profile :: profile where
  "config_profile = create_profile\<lparr>
     prof_pins := map data_pin (rev (map int [0..<32])) @ map ctl_pin (butlast config_tags),
     num_duts := 1\<rparr>"

lemma sample_config_sel [simp]:
  "pin_wf (data_pin i)" "tag (data_pin i) = PROFILE_TAG_DATA" "tag_data (data_pin i) = i"
  "pin_wf (ctl_pin t)" "tag (ctl_pin t) = t"
  by (simp_all add: pin_wf_def data_pin_def ctl_pin_def create_profile_pin_def)

lemma config_profile_complete: "config_complete config_profile"
proof -
  have data: "tagged (-1) PROFILE_TAG_DATA (prof_pins config_profile) =
      map data_pin (rev (map int [0..<32]))"
    by (simp add: tagged_def config_profile_def on_dut_def filter_map o_def config_tags_def
        del: upt_rec_numeral)
  have "length (tagged (-1) t (prof_pins config_profile)) = 1" if "t \<in> set (butlast config_tags)" for t
    using that by (auto simp: tagged_def config_profile_def on_dut_def filter_map o_def config_tags_def
        simp del: upt_rec_numeral)
  moreover have "profile_wf config_profile" by (auto simp: profile_wf_def config_profile_def)
  moreover have "tag_data_perm (map data_pin (rev (map int [0..<32])))"
    by (auto simp: tag_data_perm_def o_def distinct_map rev_map simp del: upt_rec_numeral)
  ultimately show ?thesis by (simp add: config_complete_def data del: upt_rec_numeral)
qed

lemma config_pins_order_witness:
  "\<exists>ps. get_config_profile_pins config_profile (-1) = Inr ps \<and> length ps = 39 \<and>
    map tag_data (drop 7 ps) = map int [0..<32]"
proof -
  have wf: "profile_wf config_profile"
    using config_profile_complete by (simp add: config_complete_def)
  from config_pins_total [OF config_profile_complete] obtain ps where
    ps: "get_config_profile_pins config_profile (-1) = Inr ps" ..
  from config_pins_order [OF wf ps] show ?thesis using ps by blast
qed


section \<open>Building a config\<close>

text \<open>The repeat counts and strings of a table.\<close>

fun table_vecs :: "string list \<Rightarrow> (string \<times> string) list" where
  "table_vecs (r # s # rest) = (r, s) # table_vecs rest"
| "table_vecs _ = []"

lemma table_vecs_length: "length (table_vecs xs) = length xs div 2"
  by (induction xs rule: table_vecs.induct) auto

lemma table_vecs_nth:
  "k < length (table_vecs xs) \<Longrightarrow> 2 * k + 1 < length xs \<and>
    table_vecs xs ! k = (xs ! (2 * k), xs ! (2 * k + 1))"
  by (induction xs arbitrary: k rule: table_vecs.induct) (auto simp: nth_Cons' less_Suc_eq_0_disj)

lemma append_table_vec_eq:
  "k < length (table_vecs xs) \<Longrightarrow>
    append_table_vec xs k d = (\<lambda>(r, s). append_dots_vec_by_vec_str d r s) (table_vecs xs ! k)"
  using table_vecs_nth [of k xs] by (simp add: append_table_vec_def nthR_def)

lemma foldR_upt_nth:
  assumes "\<And>k s. k < length xs \<Longrightarrow> f k s = g (xs ! k) s"
  shows "foldR f [0..<length xs] s = foldR g xs s"
proof -
  have "foldR f ks s = foldR g (map (nth xs) ks) s" if "\<forall>k\<in>set ks. k < length xs" for ks
    using that
  proof (induction ks arbitrary: s)
    case Nil
    then show ?case by simp
  next
    case (Cons k ks)
    then show ?case using assms by (cases "g (xs ! k) s") simp_all
  qed
  from this [of "[0..<length xs]"] show ?thesis by (simp add: map_nth)
qed

lemma append_table:
  "foldR (append_table_vec xs) [0..<length (table_vecs xs)] =
    foldR (\<lambda>(r, s) d. append_dots_vec_by_vec_str d r s) (table_vecs xs)"
  by (rule ext, rule foldR_upt_nth) (simp add: append_table_vec_eq split_beta)

definition config_table :: "config_types \<Rightarrow> string list" where
  "config_table type = (case type of CONFIG_TYPE_NONE \<Rightarrow> [] | CONFIG_TYPE_HEADER \<Rightarrow> config_header
     | CONFIG_TYPE_BODY \<Rightarrow> config_body | CONFIG_TYPE_FOOTER \<Rightarrow> config_footer)"

lemma config_table_simps:
  assumes "type \<noteq> CONFIG_TYPE_NONE"
  shows "config_vec_data type = Inr (config_table type)"
    and "get_config_num_vecs_by_type type = Inr (length (table_vecs (config_table type)))"
  using assms
  by (cases type; simp add: config_table_def get_config_num_vecs_by_type_def table_vecs_length)+

lemma create_dots_wf_pins:
  assumes "\<forall>p\<in>set ps. pin_wf p" and "ps \<noteq> []" and "length ps < 2 ^ 16"
  shows "create_dots n (map Some ps) (length ps) =
    Inr \<lparr>num_dots_vecs = n, dots_vecs = replicate n None, dots_num_pins = length ps,
         dots_pins = ps, cur_a1_dots_vec_id = 0, cur_a2_dots_vec_id = 0,
         cur_appended_dots_vec_id = 0\<rparr>"
proof -
  have "mapR (\<lambda>i. bindR (nthR (map Some ps) i) (\<lambda>p. bindR (nonnullR p) create_profile_pin_from_pin))
      [0..<length ps] = Inr (map (nth ps) [0..<length ps])"
    by (rule mapR_all) (simp add: nthR_def copy_pin_wf assms(1))
  with assms(2,3) show ?thesis by (simp add: create_dots_def map_nth)
qed

text \<open>The vectors of a config: the table, repeated.\<close>

definition config_vecs :: "config_types \<Rightarrow> nat \<Rightarrow> (string \<times> string) list" where
  "config_vecs type n = concat (replicate n (table_vecs (config_table type)))"

lemma config_vecs_length:
  "length (config_vecs type n) = n * length (table_vecs (config_table type))"
  by (induction n) (simp_all add: config_vecs_def)

lemma config_created:
  assumes "create_config profile type n = Inr c" and "profile_wf profile"
    and "n * length (table_vecs (config_table type)) < 2 ^ 32"
  shows "cur_a1_dots_vec_id (config_dots c) = 0 \<and> cur_a2_dots_vec_id (config_dots c) = 0 \<and>
    type \<noteq> CONFIG_TYPE_NONE \<and> n \<noteq> 0 \<and> (type \<noteq> CONFIG_TYPE_BODY \<longrightarrow> n = 1) \<and>
    (\<exists>ps. get_config_profile_pins profile (-1) = Inr ps \<and> length ps = 39 \<and>
      dots_pins (config_dots c) = ps \<and> dots_num_pins (config_dots c) = 39 \<and>
      dots_full (config_dots c) (map (new_vec 39) (config_vecs type n)))"
proof -
  from assms(1) have t: "type \<noteq> CONFIG_TYPE_NONE" "n \<noteq> 0" "type \<noteq> CONFIG_TYPE_BODY \<longrightarrow> n = 1"
    by (auto simp: create_config_def split: if_splits)
  note tab = config_table_simps [OF t(1)]
  have "\<exists>ps d0 d. get_config_profile_pins profile (-1) = Inr ps \<and>
      create_dots (wrap32 (n * length (table_vecs (config_table type)))) (map Some ps)
        (length ps) = Inr d0 \<and>
      foldR (\<lambda>_. foldR (append_table_vec (config_table type))
        [0..<length (table_vecs (config_table type))]) [0..<n] d0 = Inr d \<and> config_dots c = d"
    using assms(1) unfolding create_config_def tab bindR.simps
    by (simp only: bindR_Inr_iff split: if_splits) auto
  then obtain ps d0 d where ps: "get_config_profile_pins profile (-1) = Inr ps"
    and d0: "create_dots (wrap32 (n * length (table_vecs (config_table type)))) (map Some ps)
        (length ps) = Inr d0"
    and d: "foldR (\<lambda>_. foldR (append_table_vec (config_table type))
        [0..<length (table_vecs (config_table type))]) [0..<n] d0 = Inr d"
    and c: "config_dots c = d" by blast
  have pins': "length ps = 39" "\<forall>p\<in>set ps. pin_wf p"
    using config_pins_facts [OF assms(2) ps] by blast+
  have d0_eq: "d0 = \<lparr>num_dots_vecs = length (config_vecs type n),
      dots_vecs = replicate (length (config_vecs type n)) None, dots_num_pins = 39,
      dots_pins = ps, cur_a1_dots_vec_id = 0, cur_a2_dots_vec_id = 0,
      cur_appended_dots_vec_id = 0\<rparr>"
  proof -
    have "ps \<noteq> []" using pins'(1) by auto
    from d0 create_dots_wf_pins [OF pins'(2) this] pins'(1) assms(3) show ?thesis
      by (simp add: config_vecs_length)
  qed
  have "foldR (\<lambda>(r, s) d. append_dots_vec_by_vec_str d r s) (config_vecs type n) d0 = Inr d"
    using d unfolding append_table foldR_nested config_vecs_def by simp
  moreover have "dots_wf d0" by (simp add: d0_eq dots_wf_def)
  ultimately have "d = append_all d0 (config_vecs type n)"
    using append_run [of d0 "config_vecs type n"] by (simp add: d0_eq)
  then show ?thesis
    using t ps pins'(1) c by (auto simp: d0_eq append_all_def dots_full_def)
qed


text \<open>C29. A config that is built holds, for 39 pins, exactly the vectors of its table, looped as
  often as asked, and its pins are the configuration pins of the profile.\<close>

theorem create_config_spec:
  assumes "create_config profile type n = Inr c" and "profile_wf profile"
    and "n * length (table_vecs (config_table type)) < 2 ^ 32"
  shows "type \<noteq> CONFIG_TYPE_NONE \<and> (type \<noteq> CONFIG_TYPE_BODY \<longrightarrow> n = 1) \<and>
    (\<exists>ps. get_config_profile_pins profile (-1) = Inr ps \<and> length ps = 39 \<and>
      dots_pins (config_dots c) = ps \<and> dots_num_pins (config_dots c) = 39 \<and>
      dots_full (config_dots c) (map (new_vec 39) (config_vecs type n)))"
  using config_created [OF assms] by blast

lemma config_vecs_run:
  assumes "dots_wf d" and "cur_appended_dots_vec_id d + length (config_vecs type n) \<le> num_dots_vecs d"
  shows "foldR (\<lambda>_. foldR (append_table_vec (config_table type))
      [0..<length (table_vecs (config_table type))]) [0..<n] d =
    Inr (append_all d (config_vecs type n))"
  using append_run [OF assms(1), of "config_vecs type n"] assms(2)
  unfolding append_table foldR_nested config_vecs_def by simp

lemma create_config_total:
  assumes "config_complete profile" and "type \<noteq> CONFIG_TYPE_NONE" and "n \<noteq> 0"
    and "type \<noteq> CONFIG_TYPE_BODY \<longrightarrow> n = 1"
    and "n * length (table_vecs (config_table type)) < 2 ^ 32"
  shows "\<exists>c. create_config profile type n = Inr c"
proof -
  have wf: "profile_wf profile" using assms(1) by (simp add: config_complete_def)
  from config_pins_total [OF assms(1)] obtain ps where
    ps: "get_config_profile_pins profile (-1) = Inr ps" ..
  note facts = config_pins_facts [OF wf ps]
  then have "ps \<noteq> []" by auto
  with facts have create: "create_dots m (map Some ps) (length ps) =
    Inr \<lparr>num_dots_vecs = m, dots_vecs = replicate m None, dots_num_pins = length ps,
         dots_pins = ps, cur_a1_dots_vec_id = 0, cur_a2_dots_vec_id = 0,
         cur_appended_dots_vec_id = 0\<rparr>" for m
    by (intro create_dots_wf_pins) auto
  have body: "length (table_vecs (config_table CONFIG_TYPE_BODY)) = 1"
    by (simp add: config_table_def config_body_def)
  let ?m = "length (table_vecs (config_table type))"
  define d where "d = \<lparr>num_dots_vecs = length (config_vecs type n),
      dots_vecs = replicate (length (config_vecs type n)) None, dots_num_pins = length ps,
      dots_pins = ps, cur_a1_dots_vec_id = 0, cur_a2_dots_vec_id = 0,
      cur_appended_dots_vec_id = 0\<rparr>"
  have len: "wrap32 (n * ?m) = length (config_vecs type n)"
    using assms(5) by (simp add: config_vecs_length)
  have d: "create_dots (wrap32 (n * ?m)) (map Some ps) (length ps) = Inr d"
    unfolding len create d_def ..
  have "dots_wf d" by (simp add: d_def dots_wf_def)
  then have fill: "foldR (\<lambda>_. foldR (append_table_vec (config_table type)) [0..<?m]) [0..<n] d =
      Inr (append_all d (config_vecs type n))"
    by (rule config_vecs_run) (simp add: d_def)
  have "\<not> (type = CONFIG_TYPE_BODY \<and> ?m \<noteq> 1)" "\<not> (type \<noteq> CONFIG_TYPE_BODY \<and> n \<noteq> 1)"
    using body assms(4) by auto
  then show ?thesis
    unfolding create_config_def config_table_simps [OF assms(2)] bindR.simps ps d fill
    using assms(2,3) by (simp only: if_False) simp
qed

lemma create_config_spec_witness:
  "\<exists>c. create_config config_profile CONFIG_TYPE_BODY 3 = Inr c \<and>
    dots_full (config_dots c) (map (new_vec 39) (config_vecs CONFIG_TYPE_BODY 3))"
proof -
  have wf: "profile_wf config_profile"
    using config_profile_complete by (simp add: config_complete_def)
  have small: "3 * length (table_vecs (config_table CONFIG_TYPE_BODY)) < 2 ^ 32"
    by (simp add: config_table_def config_body_def)
  obtain c where c: "create_config config_profile CONFIG_TYPE_BODY 3 = Inr c"
    using create_config_total [OF config_profile_complete _ _ _ small] by auto
  from create_config_spec [OF c wf small] c show ?thesis by blast
qed

text \<open>None of the vectors of a config can be expanded: the strings have 7 characters, without a
  leading \<^verbatim>\<open>V\<close>, for 39 pins, and the expansion refuses every other length than 40. So a stimulus
  that is filled from a config ends the process at its first configuration vector.\<close>

theorem config_vecs_never_expand:
  assumes "create_config profile type n = Inr c" and "profile_wf profile"
    and "n * length (table_vecs (config_table type)) < 2 ^ 32"
    and "Some v \<in> set (dots_vecs (config_dots c))"
  shows "expand_dots_vec_subvecs (config_dots c) v None k = Inl Bad_count"
proof -
  have strs: "length s = 7" if "(r, s) \<in> set (table_vecs (config_table type))" for r s
    using that by (cases type) (auto simp: config_table_def config_header_def config_body_def
        config_footer_def)
  from config_created [OF assms(1-3)] have full: "dots_num_pins (config_dots c) = 39"
    "dots_full (config_dots c) (map (new_vec 39) (config_vecs type n))" by blast+
  with assms(4) obtain rs where v: "rs \<in> set (config_vecs type n)" "v = new_vec 39 rs"
    by (auto simp: dots_full_def)
  then have "length (snd rs) = 7"
    using strs [of "fst rs" "snd rs"] by (auto simp: config_vecs_def split: if_splits)
  with v(2) full(1) show ?thesis
    by (simp add: expand_dots_vec_subvecs_def new_vec_def split_beta Let_def)
qed

lemma config_vecs_never_expand_witness:
  "\<exists>c v. create_config config_profile CONFIG_TYPE_BODY 1 = Inr c \<and>
    Some v \<in> set (dots_vecs (config_dots c)) \<and>
    expand_dots_vec_subvecs (config_dots c) v None 0 = Inl Bad_count"
proof -
  have wf: "profile_wf config_profile"
    using config_profile_complete by (simp add: config_complete_def)
  have small: "1 * length (table_vecs (config_table CONFIG_TYPE_BODY)) < 2 ^ 32"
    by (simp add: config_table_def config_body_def)
  obtain c where c: "create_config config_profile CONFIG_TYPE_BODY 1 = Inr c"
    using create_config_total [OF config_profile_complete _ _ _ small] by auto
  have "dots_full (config_dots c) (map (new_vec 39) (config_vecs CONFIG_TYPE_BODY 1))"
    using config_created [OF c wf small] by blast
  then obtain v where "Some v \<in> set (dots_vecs (config_dots c))"
    by (auto simp: dots_full_def config_vecs_def config_table_def config_body_def)
  with config_vecs_never_expand [OF c wf small] c show ?thesis by blast
qed

text \<open>The numbers of unrolled configuration vectors. The footer takes 100077, about twice
  what the comment at its table says.\<close>

theorem config_unrolled_counts:
  "get_config_unrolled_num_vecs_by_type CONFIG_TYPE_HEADER = Inr 100109 \<and>
   get_config_unrolled_num_vecs_by_type CONFIG_TYPE_BODY = Inr 2 \<and>
   get_config_unrolled_num_vecs_by_type CONFIG_TYPE_FOOTER = Inr 100077 \<and>
   get_config_unrolled_num_vecs_by_type CONFIG_TYPE_NONE = Inl Bad_select"
proof -
  have rep: "c_strtoull10 ''5'' = 5" "c_strtoull10 ''30'' = 30" "c_strtoull10 ''50000'' = 50000"
    "c_strtoull10 ''33'' = 33" "c_strtoull10 ''1'' = 1"
    by (simp_all add: c_strtoull10_def c_number_def c_isspace_def c_isdigit_def digits_value_def
        digit_value_def)
  show ?thesis
    by (simp add: get_config_unrolled_num_vecs_by_type_def get_config_num_vecs_by_type_def
        config_header_def config_body_def config_footer_def add_unrolled_def nthR_def
        CONFIG_VEC_CCLK_INDEX_def rep)
qed

end
