(* ===== verification/Stim.thy ===== *)
theory Stim
  imports Config
begin

text \<open>
  stim.c: stimuli. A stimulus is a pattern compiled into vectors of 128 bytes, cut into chunks for
  each artix unit, and loaded and filled one chunk at a time. This theory models the data, the
  planning of the chunks (\<open>init_stim\<close>), the filling of a chunk from a DOTS pattern or a bitstream,
  and the iteration over the chunks (\<open>stim_load_next_chunk\<close>). A pointer to a chunk of a stimulus
  is its index. The LZ4 decompressor is a parameter of the operations that reach it.
\<close>

section \<open>Data\<close>

definition BURST_BYTES :: nat where "BURST_BYTES = 1024"
definition STIM_CHUNK_SIZE :: nat where "STIM_CHUNK_SIZE = 268435456"
definition STIM_NUM_VECS_PER_BURST :: nat where "STIM_NUM_VECS_PER_BURST = 8"
definition MAX_NUM_VECS :: nat where "MAX_NUM_VECS = 67108864"
definition MAX_NUM_UNROLLED_VECS :: nat where "MAX_NUM_UNROLLED_VECS = 137438953472"

lemmas stim_sizes = BURST_BYTES_def STIM_CHUNK_SIZE_def STIM_NUM_VECS_PER_BURST_def
  MAX_NUM_VECS_def MAX_NUM_UNROLLED_VECS_def STIM_VEC_SIZE_def DUT_NUM_PINS_def
  DUT_TOTAL_NUM_PINS_def

datatype stim_types =
  STIM_TYPE_NONE | STIM_TYPE_RBT | STIM_TYPE_BIN | STIM_TYPE_BIT | STIM_TYPE_DOTS | STIM_TYPE_RAW

datatype stim_modes = STIM_MODE_NONE | STIM_MODE_A1 | STIM_MODE_A2 | STIM_MODE_DUAL

record vec_chunk =
  chunk_id :: nat
  chunk_select :: artix_selects
  chunk_num_vecs :: nat
  cur_vec_id :: nat
  vec_data :: "u8 list option"
  vec_data_size :: nat
  vec_data_compressed :: "u8 list option"
  is_loaded :: bool
  is_filled :: bool

record stim =
  stim_path :: "string option"
  stim_type :: stim_types
  stim_pins :: "profile_pin list"
  num_vecs :: nat
  num_unrolled_vecs :: nat
  num_a1_vec_chunks :: nat
  num_a2_vec_chunks :: nat
  a1_vec_chunks :: "vec_chunk list"
  a2_vec_chunks :: "vec_chunk list"
  cur_a1_vec_chunk_id :: int
  cur_a2_vec_chunk_id :: int
  num_padding_vecs :: nat
  is_open :: bool
  file_size :: nat
  map_data :: "u8 list"
  cur_map_byte :: nat
  start_map_byte :: nat
  is_little_endian :: bool
  stim_profile :: "profile option"
  stim_dots :: "dots option"

text \<open>\<^verbatim>\<open>num_pins\<close> is the length of \<open>stim_pins\<close>.\<close>

definition stim_num_pins :: "stim \<Rightarrow> nat" where
  "stim_num_pins stim = length (stim_pins stim)"

section \<open>Creating\<close>

definition calc_num_padding_vecs :: "nat \<Rightarrow> nat" where
  "calc_num_padding_vecs n =
     (if n mod STIM_NUM_VECS_PER_BURST \<noteq> 0
      then STIM_NUM_VECS_PER_BURST - n mod STIM_NUM_VECS_PER_BURST else 0)"

definition create_vec :: "u8 list" where
  "create_vec = replicate STIM_VEC_SIZE 0xff"

definition create_vec_chunk :: "nat \<Rightarrow> artix_selects \<Rightarrow> nat \<Rightarrow> vec_chunk res" where
  "create_vec_chunk i sel n =
     (if sel = ARTIX_SELECT_NONE then Inl Bad_select
      else if sel = ARTIX_SELECT_BOTH then Inl Bad_select
      else if n = 0 then Inl Bad_count
      else if n mod 8 \<noteq> 0 then Inl Bad_count
      else Inr \<lparr>chunk_id = i mod 256, chunk_select = sel, chunk_num_vecs = n, cur_vec_id = 0,
                vec_data = None, vec_data_size = (n div 8) * BURST_BYTES,
                vec_data_compressed = None, is_loaded = False, is_filled = False\<rparr>)"

definition create_stim :: stim where
  "create_stim =
     \<lparr>stim_path = None, stim_type = STIM_TYPE_NONE, stim_pins = [], num_vecs = 0,
      num_unrolled_vecs = 0, num_a1_vec_chunks = 0, num_a2_vec_chunks = 0, a1_vec_chunks = [],
      a2_vec_chunks = [], cur_a1_vec_chunk_id = -1, cur_a2_vec_chunk_id = -1,
      num_padding_vecs = 0, is_open = False, file_size = 0, map_data = [], cur_map_byte = 0,
      start_map_byte = 0, is_little_endian = True, stim_profile = None, stim_dots = None\<rparr>"

text \<open>The plan of the chunks: how many, whether the last one is partial, and their lengths.\<close>

definition num_vec_chunks :: "nat \<Rightarrow> nat" where
  "num_vec_chunks vecs_size =
     (if vecs_size > STIM_CHUNK_SIZE
      then wrap32 (vecs_size div STIM_CHUNK_SIZE) +
        (if vecs_size mod STIM_CHUNK_SIZE \<noteq> 0 then 1 else 0)
      else 1)"

definition last_chunk_partial :: "nat \<Rightarrow> bool" where
  "last_chunk_partial vecs_size \<longleftrightarrow>
     (if vecs_size > STIM_CHUNK_SIZE then vecs_size mod STIM_CHUNK_SIZE \<noteq> 0 else True)"

definition vecs_per_chunk :: "nat \<Rightarrow> nat \<Rightarrow> nat" where
  "vecs_per_chunk vecs_size i =
     (if i = num_vec_chunks vecs_size - 1 \<and> last_chunk_partial vecs_size
      then if vecs_size > STIM_CHUNK_SIZE
           then vecs_size mod STIM_CHUNK_SIZE div STIM_VEC_SIZE
           else vecs_size div STIM_VEC_SIZE
      else STIM_CHUNK_SIZE div STIM_VEC_SIZE)"

definition create_chunk_pair ::
    "artix_selects \<Rightarrow> nat \<Rightarrow> nat \<Rightarrow> (vec_chunk list \<times> vec_chunk list) res" where
  "create_chunk_pair artix_select n i =
     (case artix_select of
        ARTIX_SELECT_A1 \<Rightarrow> bindR (create_vec_chunk i ARTIX_SELECT_A1 n) (\<lambda>a. Inr ([a], []))
      | ARTIX_SELECT_A2 \<Rightarrow> bindR (create_vec_chunk i ARTIX_SELECT_A2 n) (\<lambda>b. Inr ([], [b]))
      | ARTIX_SELECT_BOTH \<Rightarrow>
          bindR (create_vec_chunk i ARTIX_SELECT_A1 n) (\<lambda>a.
          bindR (create_vec_chunk i ARTIX_SELECT_A2 n) (\<lambda>b. Inr ([a], [b])))
      | ARTIX_SELECT_NONE \<Rightarrow> Inl Bad_select)"

definition copy_stim_pin :: "profile_pin \<Rightarrow> profile_pin res" where
  "copy_stim_pin p = (if dut_io_id p \<ge> 0 then create_profile_pin_from_pin p else Inl Out_of_range)"

definition init_stim :: "stim \<Rightarrow> profile_pin list \<Rightarrow> nat \<Rightarrow> nat \<Rightarrow> stim res" where
  "init_stim stim pins nvecs nunrolled =
     (let num_pins = wrap16 (length pins) in
      if num_pins = 0 then Inl Bad_count
      else if num_pins > DUT_TOTAL_NUM_PINS then Inl Bad_count
      else if nvecs > MAX_NUM_VECS then Inl Capacity_exceeded
      else if nunrolled > MAX_NUM_UNROLLED_VECS then Inl Capacity_exceeded
      else
        bindR (get_artix_select_by_profile_pins pins) (\<lambda>artix_select.
        if artix_select = ARTIX_SELECT_NONE then Inl Bad_select
        else
          bindR (mapR copy_stim_pin (take num_pins pins)) (\<lambda>ps.
          if nvecs = 0 then Inl Bad_count
          else
            let padding = calc_num_padding_vecs nvecs;
                vecs_size = (nvecs + padding) * STIM_VEC_SIZE;
                n = num_vec_chunks vecs_size
            in bindR (mapR (\<lambda>i. create_chunk_pair artix_select (vecs_per_chunk vecs_size i) i)
                 [0..<n]) (\<lambda>chunks.
               Inr (stim\<lparr>stim_pins := ps, num_vecs := nvecs, num_unrolled_vecs := nunrolled,
                 num_padding_vecs := padding,
                 num_a1_vec_chunks := (if artix_select = ARTIX_SELECT_A2 then 0 else n),
                 num_a2_vec_chunks := (if artix_select = ARTIX_SELECT_A1 then 0 else n),
                 a1_vec_chunks := concat (map fst chunks),
                 a2_vec_chunks := concat (map snd chunks)\<rparr>)))))"

definition get_stim_by_dots :: "profile \<Rightarrow> dots \<Rightarrow> stim res" where
  "get_stim_by_dots profile dots =
     (if dots_num_pins dots = 0 then Inl Bad_count
      else if num_dots_vecs dots = 0 then Inl Bad_count
      else if None \<in> set (take (num_dots_vecs dots) (dots_vecs dots)) then Inl Null_pointer
      else
        let dots = dots\<lparr>cur_a1_dots_vec_id := 0, cur_a2_dots_vec_id := 0\<rparr> in
        bindR (get_num_unrolled_dots_vecs dots) (\<lambda>(nunrolled, dots).
        init_stim (create_stim\<lparr>stim_profile := Some profile, stim_type := STIM_TYPE_DOTS,
            stim_dots := Some dots\<rparr>)
          (dots_pins dots) (num_dots_vecs dots) nunrolled))"

definition get_stim_type_by_path :: "string \<Rightarrow> stim_types" where
  "get_stim_type_by_path path =
     (let file_ext = util_get_file_ext_by_path path in
      if file_ext = ''rbt'' then STIM_TYPE_RBT
      else if file_ext = ''bin'' then STIM_TYPE_BIN
      else if file_ext = ''bit'' then STIM_TYPE_BIT
      else if file_ext = ''s'' then STIM_TYPE_DOTS
      else if file_ext = ''stim'' then STIM_TYPE_RAW
      else STIM_TYPE_NONE)"

definition stim_get_mode :: "stim \<Rightarrow> stim_modes" where
  "stim_get_mode stim =
     (if num_a1_vec_chunks stim > 0 \<and> num_a2_vec_chunks stim > 0 then STIM_MODE_DUAL
      else if num_a1_vec_chunks stim > 0 then STIM_MODE_A1
      else if num_a2_vec_chunks stim > 0 then STIM_MODE_A2
      else STIM_MODE_NONE)"

section \<open>Bitstream words\<close>

text \<open>The bits of a word go to the subvecs with the bits of each byte reversed.\<close>

definition word_bit_step :: "u32 \<Rightarrow> nat \<Rightarrow> nat \<times> subvecs list \<Rightarrow> (nat \<times> subvecs list) res" where
  "word_bit_step w i = (\<lambda>(byte, subvecs).
     let byte = (if i mod 8 = 0 then byte + 1 else byte);
         b = 8 * byte - 1 - i mod 8
     in bindR (updR subvecs b (if bit w i then DUT_SUBVEC_1 else DUT_SUBVEC_0)) (\<lambda>s.
        Inr (byte, s)))"

definition convert_bitstream_word_to_subvecs :: "u32 \<Rightarrow> subvecs list res" where
  "convert_bitstream_word_to_subvecs w =
     bindR (foldR (word_bit_step w) [0..<32] (0, replicate 32 DUT_SUBVEC_0)) (\<lambda>(_, s). Inr s)"

definition read_map_8 :: "stim \<Rightarrow> (u8 \<times> stim) res" where
  "read_map_8 stim =
     bindR (nthR (map_data stim) (cur_map_byte stim)) (\<lambda>b.
     Inr (b, stim\<lparr>cur_map_byte := cur_map_byte stim + 1\<rparr>))"

text \<open>The machine is little endian; \<^verbatim>\<open>bswap\<close> reverses the bytes.\<close>

fun le_word :: "u8 list \<Rightarrow> u32" where
  "le_word [] = 0"
| "le_word (b # bs) = ucast b + 256 * le_word bs"

definition read_map_n :: "nat \<Rightarrow> stim \<Rightarrow> bool \<Rightarrow> (u32 \<times> stim) res" where
  "read_map_n n stim swap_endian =
     (let i = cur_map_byte stim in
      if i + n \<le> length (map_data stim) then
        let bs = take n (drop i (map_data stim)) in
        Inr (le_word (if swap_endian then rev bs else bs), stim\<lparr>cur_map_byte := i + n\<rparr>)
      else Inl Crash_bounds)"

definition read_map_16 :: "stim \<Rightarrow> bool \<Rightarrow> (nat \<times> stim) res" where
  "read_map_16 stim swap_endian =
     bindR (read_map_n 2 stim swap_endian) (\<lambda>(w, stim). Inr (unat w, stim))"

definition read_map_32 :: "stim \<Rightarrow> bool \<Rightarrow> (u32 \<times> stim) res" where
  "read_map_32 stim swap_endian = read_map_n 4 stim swap_endian"

definition BUFFER_LENGTH :: nat where "BUFFER_LENGTH = 4096"

text \<open>
  A line of the mapped file: the characters from the current byte up to the next newline. The scan
  does not stop at the end of the file.
\<close>

definition map_line :: "stim \<Rightarrow> u8 list res" where
  "map_line stim =
     (let rest = drop (cur_map_byte stim) (map_data stim);
          line = takeWhile (\<lambda>b. b \<noteq> 0x0A) rest
      in if line = rest then Inl Crash_bounds else Inr line)"

text \<open>The loop over the characters of an rbt word, from the last one to the first.\<close>

definition rbt_char :: "u8 list \<Rightarrow> nat \<Rightarrow> u32 \<Rightarrow> u32 res" where
  "rbt_char buffer c w =
     (if buffer ! c = 0x30 then Inr w
      else if buffer ! c = 0x31 then Inr (w + push_bit (length buffer - 1 - c) 1)
      else Inl Bad_format)"

definition rbt_word :: "u8 list \<Rightarrow> u32 res" where
  "rbt_word line = foldR (rbt_char line) (rev [0..<length line]) 0"

definition stim_get_next_bitstream_word :: "stim \<Rightarrow> (u32 \<times> stim) res" where
  "stim_get_next_bitstream_word stim =
     (case stim_type stim of
        STIM_TYPE_RBT \<Rightarrow>
          (if cur_map_byte stim < file_size stim then
             bindR (map_line stim) (\<lambda>line.
             if length line > BUFFER_LENGTH then Inl Capacity_exceeded
             else if length line \<noteq> 32 then Inl Bad_format
             else bindR (rbt_word line) (\<lambda>w.
               Inr (w, stim\<lparr>cur_map_byte := cur_map_byte stim + (length line + 1)\<rparr>)))
           else Inr (0, stim))
      | STIM_TYPE_BIN \<Rightarrow>
          (if int (cur_map_byte stim) > int (file_size stim) - 1 then Inr (0, stim)
           else read_map_32 stim (\<not> is_little_endian stim))
      | STIM_TYPE_BIT \<Rightarrow>
          (if int (cur_map_byte stim) > int (file_size stim) - 1 then Inr (0, stim)
           else read_map_32 stim (\<not> is_little_endian stim))
      | _ \<Rightarrow> Inl Bad_state)"

definition stim_get_next_bitstream_subvecs :: "stim \<Rightarrow> (subvecs list \<times> stim) res" where
  "stim_get_next_bitstream_subvecs stim =
     bindR (stim_get_next_bitstream_word stim) (\<lambda>(w, stim).
     bindR (convert_bitstream_word_to_subvecs w) (\<lambda>s. Inr (s, stim)))"


section \<open>The plan of the chunks\<close>

lemma padding_spec: "(n + calc_num_padding_vecs n) mod 8 = 0 \<and> calc_num_padding_vecs n < 8"
proof (cases "n mod 8 = 0")
  case True
  then show ?thesis by (simp add: calc_num_padding_vecs_def stim_sizes)
next
  case False
  have "(n + (8 - n mod 8)) mod 8 = 0" by presburger
  with False show ?thesis by (simp add: calc_num_padding_vecs_def stim_sizes)
qed

text \<open>The vectors of a unit, with their padding, cut into chunks.\<close>

definition chunk_plan :: "artix_selects \<Rightarrow> nat \<Rightarrow> vec_chunk list \<Rightarrow> bool" where
  "chunk_plan sel nall cs \<longleftrightarrow>
     sum_list (map chunk_num_vecs cs) = nall \<and> length cs \<le> 32 \<and>
     (\<forall>i<length cs. chunk_id (cs ! i) = i \<and> chunk_select (cs ! i) = sel \<and>
        0 < chunk_num_vecs (cs ! i) \<and> chunk_num_vecs (cs ! i) mod 8 = 0 \<and>
        vec_data_size (cs ! i) = chunk_num_vecs (cs ! i) * STIM_VEC_SIZE \<and>
        vec_data_size (cs ! i) \<le> STIM_CHUNK_SIZE \<and>
        (i + 1 < length cs \<longrightarrow> vec_data_size (cs ! i) = STIM_CHUNK_SIZE) \<and>
        cur_vec_id (cs ! i) = 0 \<and> vec_data (cs ! i) = None \<and>
        \<not> is_loaded (cs ! i) \<and> \<not> is_filled (cs ! i))"

text \<open>The lengths of the chunks: full ones of \<open>2 ^ 21\<close> vectors and what is left.\<close>

lemma chunk_lengths:
  assumes "0 < nall" and "nall \<le> 2 ^ 26" and "nall mod 8 = 0"
  defines "bytes \<equiv> nall * STIM_VEC_SIZE"
  defines "n \<equiv> num_vec_chunks bytes"
  shows "0 < n" and "n \<le> 32" and "sum_list (map (vecs_per_chunk bytes) [0..<n]) = nall"
    and "\<And>i. i < n \<Longrightarrow> 0 < vecs_per_chunk bytes i \<and> vecs_per_chunk bytes i mod 8 = 0 \<and>
      vecs_per_chunk bytes i \<le> 2 ^ 21 \<and> (i + 1 < n \<longrightarrow> vecs_per_chunk bytes i = 2 ^ 21)"
proof -
  define q r where "q = nall div 2 ^ 21" and "r = nall mod 2 ^ 21"
  have nall: "nall = q * 2 ^ 21 + r" "r < 2 ^ 21" by (simp_all add: q_def r_def)
  have q: "q \<le> 32" using assms(2) unfolding q_def by (simp add: div_le_mono [of _ "2 ^ 26" "2 ^ 21", simplified])
  have r8: "r mod 8 = 0"
    using assms(3) unfolding r_def by (simp add: mod_mod_cancel)
  have big: "bytes > STIM_CHUNK_SIZE \<longleftrightarrow> nall > 2 ^ 21" by (auto simp: bytes_def stim_sizes)
  have div: "bytes div STIM_CHUNK_SIZE = q"
    using div_mult_mult2 [of "128 :: nat" nall "2097152"] by (simp add: bytes_def stim_sizes q_def)
  have mod: "bytes mod STIM_CHUNK_SIZE = r * 128"
    using mult_mod_left [of nall "2097152" "128 :: nat"] by (simp add: bytes_def stim_sizes r_def)
  have n: "n = (if r = 0 then q else q + 1)"
  proof (cases "nall > 2 ^ 21")
    case True
    then show ?thesis using q div mod big by (simp add: n_def num_vec_chunks_def)
  next
    case False
    then have "nall = 2 ^ 21 \<or> nall < 2 ^ 21" by auto
    with False assms(1) big show ?thesis
      by (auto simp: n_def num_vec_chunks_def q_def r_def)
  qed
  have per: "vecs_per_chunk bytes i = (if i < q then 2 ^ 21 else r)" if "i < n" for i
  proof (cases "nall > 2 ^ 21")
    case True
    then show ?thesis using that n big mod
      by (auto simp: vecs_per_chunk_def last_chunk_partial_def n_def [symmetric] stim_sizes
          split: if_splits)
  next
    case False
    then have one: "n = 1" using big by (simp add: n_def num_vec_chunks_def)
    have "bytes div STIM_VEC_SIZE = nall" by (simp add: bytes_def stim_sizes)
    with False one that big have "vecs_per_chunk bytes i = nall"
      by (simp add: vecs_per_chunk_def last_chunk_partial_def n_def [symmetric])
    moreover have "nall = 2 ^ 21 \<or> nall < 2 ^ 21" using False by auto
    ultimately show ?thesis using one that assms(1) by (auto simp: q_def r_def)
  qed
  show "0 < n" using n nall assms(1) by (auto split: if_splits)
  have "q = 32 \<Longrightarrow> r = 0" using nall assms(2) by simp
  then show "n \<le> 32" using q n by (cases "q = 32") auto
  have "sum_list (map (vecs_per_chunk bytes) [0..<n]) =
      sum_list (map (\<lambda>i. if i < q then 2 ^ 21 else r) [0..<n])"
    using per by (intro arg_cong [where f = sum_list] map_cong) auto
  also have "\<dots> = nall"
  proof -
    have "sum_list (map (\<lambda>i. if i < q then 2 ^ 21 else r) [0..<q]) = q * 2 ^ 21" for r :: nat
      by (subst map_cong [OF refl, of _ _ "\<lambda>_. 2 ^ 21"]) (simp_all add: sum_list_triv)
    then show ?thesis using n nall by simp
  qed
  finally show "sum_list (map (vecs_per_chunk bytes) [0..<n]) = nall" .
  show "0 < vecs_per_chunk bytes i \<and> vecs_per_chunk bytes i mod 8 = 0 \<and>
      vecs_per_chunk bytes i \<le> 2 ^ 21 \<and> (i + 1 < n \<longrightarrow> vecs_per_chunk bytes i = 2 ^ 21)"
    if "i < n" for i
    using per [OF that] that n r8 nall(2) by (auto split: if_splits)
qed


definition new_chunk :: "artix_selects \<Rightarrow> (nat \<Rightarrow> nat) \<Rightarrow> nat \<Rightarrow> vec_chunk" where
  "new_chunk sel len i =
     \<lparr>chunk_id = i mod 256, chunk_select = sel, chunk_num_vecs = len i, cur_vec_id = 0,
      vec_data = None, vec_data_size = (len i div 8) * BURST_BYTES, vec_data_compressed = None,
      is_loaded = False, is_filled = False\<rparr>"

lemma create_vec_chunk_new:
  "create_vec_chunk i sel (len i) = Inr c \<Longrightarrow> c = new_chunk sel len i"
  by (auto simp: create_vec_chunk_def new_chunk_def split: if_splits)

lemma create_chunk_pairs:
  assumes "mapR (\<lambda>i. create_chunk_pair sel (len i) i) xs = Inr chunks"
  shows "concat (map fst chunks) = (if sel = ARTIX_SELECT_A2 then [] else map (new_chunk ARTIX_SELECT_A1 len) xs)"
    and "concat (map snd chunks) = (if sel = ARTIX_SELECT_A1 then [] else map (new_chunk ARTIX_SELECT_A2 len) xs)"
  using assms
  by (induction xs arbitrary: chunks)
    (auto simp: create_chunk_pair_def bindR_Inr_iff simp del: concat_eq_Nil_conv
      dest!: create_vec_chunk_new split: artix_selects.splits)

lemma init_stim_parts:
  assumes "init_stim stim pins nv nu = Inr s"
  shows "\<exists>sel chunks. get_artix_select_by_profile_pins pins = Inr sel \<and> sel \<noteq> ARTIX_SELECT_NONE \<and>
    0 < nv \<and> nv \<le> MAX_NUM_VECS \<and> num_vecs s = nv \<and> num_unrolled_vecs s = nu \<and>
    num_padding_vecs s = calc_num_padding_vecs nv \<and>
    mapR (\<lambda>i. create_chunk_pair sel
        (vecs_per_chunk ((nv + calc_num_padding_vecs nv) * STIM_VEC_SIZE) i) i)
      [0..<num_vec_chunks ((nv + calc_num_padding_vecs nv) * STIM_VEC_SIZE)] = Inr chunks \<and>
    a1_vec_chunks s = concat (map fst chunks) \<and> a2_vec_chunks s = concat (map snd chunks) \<and>
    num_a1_vec_chunks s = (if sel = ARTIX_SELECT_A2 then 0
      else num_vec_chunks ((nv + calc_num_padding_vecs nv) * STIM_VEC_SIZE)) \<and>
    num_a2_vec_chunks s = (if sel = ARTIX_SELECT_A1 then 0
      else num_vec_chunks ((nv + calc_num_padding_vecs nv) * STIM_VEC_SIZE)) \<and>
    mapR copy_stim_pin (take (wrap16 (length pins)) pins) = Inr (stim_pins s) \<and>
    stim_type s = stim_type stim \<and> stim_dots s = stim_dots stim \<and>
    cur_a1_vec_chunk_id s = cur_a1_vec_chunk_id stim \<and>
    cur_a2_vec_chunk_id s = cur_a2_vec_chunk_id stim"
  using assms
  by (clarsimp simp: init_stim_def Let_def bindR_Inr_iff split: if_split_asm) auto

lemma new_chunks_plan:
  assumes "0 < nv" and "nv \<le> MAX_NUM_VECS"
  defines "bytes \<equiv> (nv + calc_num_padding_vecs nv) * STIM_VEC_SIZE"
  shows "chunk_plan sel (nv + calc_num_padding_vecs nv)
    (map (new_chunk sel (vecs_per_chunk bytes)) [0..<num_vec_chunks bytes])"
proof -
  let ?nall = "nv + calc_num_padding_vecs nv"
  note pad = padding_spec [of nv]
  have "nv \<le> 2 ^ 26" using assms(2) by (simp add: stim_sizes)
  then have "?nall \<le> 2 ^ 26"
  proof (cases "nv = 2 ^ 26")
    case True
    then show ?thesis by (simp add: calc_num_padding_vecs_def stim_sizes)
  next
    case False
    with \<open>nv \<le> 2 ^ 26\<close> have "?nall < 2 ^ 26 + 8" using pad by simp
    moreover from pad obtain m where "?nall = 8 * m" by (auto simp: mod_eq_0_iff_dvd elim: dvdE)
    ultimately show ?thesis by simp
  qed
  with assms(1) pad have tot: "0 < ?nall" "?nall \<le> 2 ^ 26" "?nall mod 8 = 0" by simp_all
  note plan = chunk_lengths [OF tot, folded bytes_def]
  have sum: "sum_list (map chunk_num_vecs (map (new_chunk sel (vecs_per_chunk bytes))
      [0..<num_vec_chunks bytes])) = ?nall"
    using plan(3) by (simp add: new_chunk_def o_def)
  have bytes: "vecs_per_chunk bytes i div 8 * BURST_BYTES = vecs_per_chunk bytes i * STIM_VEC_SIZE"
    if "i < num_vec_chunks bytes" for i
    using plan(4) [OF that] by (auto simp: stim_sizes dvd_div_mult_self mod_eq_0_iff_dvd)
  have "vecs_per_chunk bytes i div 8 \<le> 262144" if "i < num_vec_chunks bytes" for i
    using plan(4) [OF that] by auto
  with sum plan(2,4) bytes show ?thesis
    unfolding chunk_plan_def by (simp add: new_chunk_def stim_sizes)
qed

lemma init_plan:
  assumes "init_stim stim pins nv nu = Inr s"
  shows "\<exists>sel. get_artix_select_by_profile_pins pins = Inr sel \<and>
    num_padding_vecs s < 8 \<and> (nv + num_padding_vecs s) mod 8 = 0 \<and>
    num_a1_vec_chunks s = length (a1_vec_chunks s) \<and>
    num_a2_vec_chunks s = length (a2_vec_chunks s) \<and>
    (if 1 \<in> sel_units sel then chunk_plan ARTIX_SELECT_A1 (nv + num_padding_vecs s) (a1_vec_chunks s)
     else a1_vec_chunks s = []) \<and>
    (if 2 \<in> sel_units sel then chunk_plan ARTIX_SELECT_A2 (nv + num_padding_vecs s) (a2_vec_chunks s)
     else a2_vec_chunks s = [])"
proof -
  from init_stim_parts [OF assms] obtain sel chunks where parts:
    "get_artix_select_by_profile_pins pins = Inr sel" "sel \<noteq> ARTIX_SELECT_NONE"
    "0 < nv" "nv \<le> MAX_NUM_VECS" "num_padding_vecs s = calc_num_padding_vecs nv"
    "mapR (\<lambda>i. create_chunk_pair sel
        (vecs_per_chunk ((nv + calc_num_padding_vecs nv) * STIM_VEC_SIZE) i) i)
      [0..<num_vec_chunks ((nv + calc_num_padding_vecs nv) * STIM_VEC_SIZE)] = Inr chunks"
    "a1_vec_chunks s = concat (map fst chunks)" "a2_vec_chunks s = concat (map snd chunks)"
    "num_a1_vec_chunks s = (if sel = ARTIX_SELECT_A2 then 0
      else num_vec_chunks ((nv + calc_num_padding_vecs nv) * STIM_VEC_SIZE))"
    "num_a2_vec_chunks s = (if sel = ARTIX_SELECT_A1 then 0
      else num_vec_chunks ((nv + calc_num_padding_vecs nv) * STIM_VEC_SIZE))" by blast
  note pairs = create_chunk_pairs [OF parts(6)]
  show ?thesis
    using parts pairs padding_spec [of nv] new_chunks_plan [OF parts(3,4)]
    by (cases sel) simp_all
qed

text \<open>C27. When a stimulus is initialised, each unit that its pins select gets the same plan of
  chunks, and the other one none: at most 32 chunks, numbered from 0, whose lengths are positive
  multiples of 8, add up to the vectors and their padding, and fit the chunk size, all but the
  last filling it. The padding is the least that completes the last burst.\<close>

theorem init_stim_plan:
  assumes "init_stim stim pins nv nu = Inr s"
  shows "\<exists>sel. get_artix_select_by_profile_pins pins = Inr sel \<and>
    num_padding_vecs s < 8 \<and> (nv + num_padding_vecs s) mod 8 = 0 \<and>
    num_a1_vec_chunks s = length (a1_vec_chunks s) \<and>
    num_a2_vec_chunks s = length (a2_vec_chunks s) \<and>
    (if 1 \<in> sel_units sel then chunk_plan ARTIX_SELECT_A1 (nv + num_padding_vecs s) (a1_vec_chunks s)
     else a1_vec_chunks s = []) \<and>
    (if 2 \<in> sel_units sel then chunk_plan ARTIX_SELECT_A2 (nv + num_padding_vecs s) (a2_vec_chunks s)
     else a2_vec_chunks s = [])"
  using assms by (rule init_plan)

lemma init_stim_plan_witness:
  "\<exists>s. init_stim create_stim [data_pin 3, data_pin 300] 9 20 = Inr s \<and>
    chunk_plan ARTIX_SELECT_A1 16 (a1_vec_chunks s) \<and> num_padding_vecs s = 7"
proof -
  have pins: "get_artix_select_by_profile_pins [data_pin 3, data_pin 300] = Inr ARTIX_SELECT_BOTH"
    by (simp add: get_artix_select_by_profile_pins_def get_artix_select_by_profile_pin_def data_pin_def)
  have "\<exists>s. init_stim create_stim [data_pin 3, data_pin 300] 9 20 = Inr s"
    unfolding init_stim_def pins
    by (simp add: stim_sizes copy_stim_pin_def copy_pin_wf calc_num_padding_vecs_def
        num_vec_chunks_def vecs_per_chunk_def last_chunk_partial_def create_chunk_pair_def
        create_vec_chunk_def) (simp add: data_pin_def)
  then obtain s where s: "init_stim create_stim [data_pin 3, data_pin 300] 9 20 = Inr s" ..
  from init_stim_plan [OF s] pins have "num_padding_vecs s < 8" "(9 + num_padding_vecs s) mod 8 = 0"
    "chunk_plan ARTIX_SELECT_A1 (9 + num_padding_vecs s) (a1_vec_chunks s)" by auto
  moreover from this have "num_padding_vecs s = 7" by presburger
  ultimately show ?thesis using s by simp
qed

section \<open>Words of a bitstream\<close>

text \<open>The position of bit i after the first passes of the loop.\<close>

lemma bit_position:
  fixes k :: nat
  shows "(if k mod 8 = 0 then (k + 7) div 8 + 1 else (k + 7) div 8) = (Suc k + 7) div 8"
    and "8 * ((Suc k + 7) div 8) - 1 - k mod 8 = 8 * (k div 8) + (7 - k mod 8)"
    and "k < 32 \<Longrightarrow> 8 * (k div 8) + (7 - k mod 8) < 32"
proof -
  define q m where "q = k div 8" and "m = k mod 8"
  have k: "k = 8 * q + m" "m < 8" by (simp_all add: q_def m_def)
  have next_byte: "(Suc k + 7) div 8 = Suc q" using k by simp
  have "(k + 7) div 8 = q" if "m = 0" using k that by simp
  moreover have "(k + 7) div 8 = Suc q" if "m \<noteq> 0"
  proof -
    from that obtain l where "m = Suc l" by (cases m) auto
    then show ?thesis using k by simp
  qed
  ultimately show "(if k mod 8 = 0 then (k + 7) div 8 + 1 else (k + 7) div 8) = (Suc k + 7) div 8"
    using next_byte by (simp add: m_def [symmetric])
  show "8 * ((Suc k + 7) div 8) - 1 - k mod 8 = 8 * (k div 8) + (7 - k mod 8)"
    unfolding next_byte q_def [symmetric] m_def [symmetric] using k(2) by simp
  show "8 * (k div 8) + (7 - k mod 8) < 32" if "k < 32"
  proof -
    have "q < 4" using k that by linarith
    then show ?thesis unfolding q_def [symmetric] m_def [symmetric] by linarith
  qed
qed

lemma bit_position_inj:
  fixes i k :: nat
  assumes "8 * (i div 8) + (7 - i mod 8) = 8 * (k div 8) + (7 - k mod 8)"
  shows "i = k"
proof -
  have "i div 8 = k div 8"
    using assms arg_cong [OF assms, where f = "\<lambda>x. x div 8"] by simp
  moreover from this assms have "7 - i mod 8 = 7 - k mod 8" by linarith
  moreover have "i mod 8 < 8" "k mod 8 < 8" by simp_all
  ultimately have "i div 8 = k div 8" "i mod 8 = k mod 8" by linarith+
  then show ?thesis by (metis div_mult_mod_eq)
qed

lemma word_bit_loop:
  assumes "k \<le> 32"
  shows "\<exists>s. foldR (word_bit_step w) [0..<k] (0, replicate 32 DUT_SUBVEC_0) = Inr ((k + 7) div 8, s) \<and>
    length s = 32 \<and>
    (\<forall>i<k. s ! (8 * (i div 8) + (7 - i mod 8)) = (if bit w i then DUT_SUBVEC_1 else DUT_SUBVEC_0))"
  using assms
proof (induction k)
  case 0
  then show ?case by simp
next
  case (Suc k)
  then obtain s where s: "foldR (word_bit_step w) [0..<k] (0, replicate 32 DUT_SUBVEC_0) =
      Inr ((k + 7) div 8, s)" "length s = 32"
    "\<forall>i<k. s ! (8 * (i div 8) + (7 - i mod 8)) = (if bit w i then DUT_SUBVEC_1 else DUT_SUBVEC_0)"
    by auto
  define b where "b = 8 * (k div 8) + (7 - k mod 8)"
  have byte: "(if k mod 8 = 0 then (k + 7) div 8 + 1 else (k + 7) div 8) = (Suc k + 7) div 8"
    "8 * ((Suc k + 7) div 8) - 1 - k mod 8 = b" "b < 32"
    unfolding b_def using bit_position(1,2) [of k] bit_position(3) [of k] Suc.prems
    by (blast, blast, linarith)
  define s' where "s' = s[b := (if bit w k then DUT_SUBVEC_1 else DUT_SUBVEC_0)]"
  have "word_bit_step w k ((k + 7) div 8, s) = Inr ((Suc k + 7) div 8, s')"
    unfolding word_bit_step_def split Let_def byte(1) byte(2) using byte(3) s(2)
    by (simp add: updR_def s'_def)
  then have "foldR (word_bit_step w) [0..<Suc k] (0, replicate 32 DUT_SUBVEC_0) =
      Inr ((Suc k + 7) div 8, s')"
    using s(1) by (simp add: foldR_append)
  moreover have "s' ! (8 * (i div 8) + (7 - i mod 8)) =
      (if bit w i then DUT_SUBVEC_1 else DUT_SUBVEC_0)" if "i < Suc k" for i
  proof (cases "i = k")
    case True
    then show ?thesis using byte(3) s(2) by (simp add: s'_def b_def)
  next
    case False
    then have "8 * (i div 8) + (7 - i mod 8) \<noteq> b" unfolding b_def using bit_position_inj by blast
    then show ?thesis using False that s(3) by (simp add: s'_def)
  qed
  ultimately show ?case using s(2) by (auto simp: s'_def)
qed

lemma bit_index_involution:
  fixes j :: nat
  defines "i \<equiv> 8 * (j div 8) + (7 - j mod 8)"
  shows "(i < 32 \<longleftrightarrow> j < 32) \<and> i div 8 = j div 8 \<and> i mod 8 = 7 - j mod 8 \<and> 8 * (j div 8) + (7 - (7 - j mod 8)) = j"
proof -
  obtain b r where j: "j = 8 * b + r" "r < 8" "b = j div 8" "r = j mod 8"
    by (rule that [of "j div 8" "j mod 8"]) simp_all
  have "i = 8 * b + (7 - r)" by (simp only: i_def j(3) [symmetric] j(4) [symmetric])
  moreover have "(8 * b + (7 - r)) div 8 = b" "(8 * b + (7 - r)) mod 8 = 7 - r" by simp_all
  moreover have "8 * b + (7 - r) < 32 \<longleftrightarrow> 8 * b + r < 32" using j(2) by arith
  moreover have "8 * b + (7 - (7 - r)) = j" using j(1,2) by simp
  ultimately show ?thesis using j(1) by (simp only: j(3) [symmetric] j(4) [symmetric]) simp
qed

text \<open>The subvecs of a bitstream word: byte by byte, with the bits of each byte reversed.\<close>

theorem convert_word_spec:
  "convert_bitstream_word_to_subvecs w =
     Inr (map (\<lambda>j. if bit w (8 * (j div 8) + (7 - j mod 8)) then DUT_SUBVEC_1 else DUT_SUBVEC_0) [0..<32])"
proof -
  define n where "n = (32 :: nat)"
  have "n \<le> 32" by (simp add: n_def)
  from word_bit_loop [OF this, of w] obtain s where s:
    "foldR (word_bit_step w) [0..<n] (0, replicate 32 DUT_SUBVEC_0) = Inr ((n + 7) div 8, s)"
    "length s = 32"
    "\<forall>i<n. s ! (8 * (i div 8) + (7 - i mod 8)) = (if bit w i then DUT_SUBVEC_1 else DUT_SUBVEC_0)"
    by blast
  have "convert_bitstream_word_to_subvecs w = Inr s"
    unfolding convert_bitstream_word_to_subvecs_def s(1) [unfolded n_def]
    by (simp only: bindR.simps split)
  moreover have "s = map (\<lambda>j. if bit w (8 * (j div 8) + (7 - j mod 8)) then DUT_SUBVEC_1
      else DUT_SUBVEC_0) [0..<n]"
  proof (rule nth_equalityI)
    fix j assume "j < length s"
    then have j: "j < n" using s(2) by (simp add: n_def)
    let ?i = "8 * (j div 8) + (7 - j mod 8)"
    have i: "?i < n" "?i div 8 = j div 8" "?i mod 8 = 7 - j mod 8"
      "8 * (j div 8) + (7 - (7 - j mod 8)) = j"
      using j bit_index_involution [of j] by (simp_all add: n_def)
    then show "s ! j = map (\<lambda>j. if bit w (8 * (j div 8) + (7 - j mod 8)) then DUT_SUBVEC_1
      else DUT_SUBVEC_0) [0..<n] ! j"
      using s(3) [rule_format, OF i(1)] j unfolding i by (simp del: upt_rec_numeral)
  qed (use s(2) n_def in simp)
  ultimately show ?thesis unfolding n_def by (simp del: upt_rec_numeral)
qed


text \<open>The line of an rbt file that renders a word.\<close>

definition rbt_line :: "u32 \<Rightarrow> u8 list" where
  "rbt_line w = map (\<lambda>c. if bit w (31 - c) then 0x31 else 0x30) [0..<32]"

lemma take_bit_step:
  fixes w :: u32
  assumes "k < 32"
  shows "take_bit (Suc k) w = (if bit w k then take_bit k w + push_bit k 1 else take_bit k w)"
proof (cases "bit w k")
  case True
  have "take_bit k w + push_bit k 1 = or (take_bit k w) (push_bit k 1)"
    by (rule disjunctive_add_eq_or, rule bit_word_eqI) (auto simp: bit_simps)
  also have "\<dots> = take_bit (Suc k) w"
    using True by (intro bit_word_eqI) (auto simp: bit_simps less_Suc_eq)
  finally show ?thesis using True by simp
next
  case False
  then have "take_bit (Suc k) w = take_bit k w"
    by (intro bit_word_eqI) (auto simp: bit_simps less_Suc_eq)
  with False show ?thesis by simp
qed

lemma rbt_loop:
  assumes "k \<le> 32"
  shows "foldR (rbt_char (rbt_line w)) (rev [32 - k..<32]) 0 = Inr (take_bit k w)"
  using assms
proof (induction k)
  case 0
  then show ?case by simp
next
  case (Suc k)
  then have k: "k < 32" by simp
  let ?c = "31 - k"
  have upt: "[32 - Suc k..<32] = ?c # [32 - k..<32]"
  proof -
    have "32 - Suc k = ?c" "Suc ?c = 32 - k" "?c < 32" using k by simp_all
    then show ?thesis using upt_conv_Cons [of ?c 32] by (simp only:)
  qed
  have len: "length (rbt_line w) = 32"
    unfolding rbt_line_def length_map length_upt by simp
  have nth: "rbt_line w ! ?c = (if bit w k then 0x31 else 0x30)"
    using k by (simp add: rbt_line_def del: upt_rec_numeral)
  have step: "rbt_char (rbt_line w) ?c (take_bit k w) = Inr (take_bit (Suc k) w)"
    using k nth len
    by (simp add: rbt_char_def take_bit_step [OF k] del: push_bit_of_1)
  show ?case unfolding upt rev.simps foldR_append using Suc.IH k step by simp
qed

text \<open>A line of 32 characters \<^verbatim>\<open>0\<close> and \<^verbatim>\<open>1\<close>, most significant bit first, reads as the word it
  renders.\<close>

theorem rbt_word_roundtrip: "rbt_word (rbt_line w) = Inr w"
proof -
  have len: "length (rbt_line w) = 32"
    unfolding rbt_line_def length_map length_upt by simp
  have "foldR (rbt_char (rbt_line w)) (rev [0..<32]) 0 = Inr (take_bit 32 w)"
    using rbt_loop [OF order_refl, of w] by (simp only: diff_self_eq_0)
  moreover have "take_bit 32 w = w" by (rule take_bit_word_eq_self) simp
  ultimately show ?thesis unfolding rbt_word_def len by (simp only:)
qed

end
