(* ===== verification/Stim_Fill.thy ===== *)
theory Stim_Fill
  imports Stim
begin

text \<open>
  stim.c, continued: filling a chunk and iterating over the chunks of a stimulus. The state that
  the C code keeps in the objects \<^verbatim>\<open>stim\<close>, \<^verbatim>\<open>chunk\<close> and \<^verbatim>\<open>dots\<close> is passed explicitly.
\<close>

section \<open>Filling from a pattern\<close>

text \<open>The I/O ids of a unit; the comparison with a pin's id is unsigned.\<close>

fun artix_range :: "artix_selects \<Rightarrow> (nat \<times> nat) res" where
  "artix_range ARTIX_SELECT_A1 = Inr (0, DUT_NUM_PINS - 1)"
| "artix_range ARTIX_SELECT_A2 = Inr (DUT_NUM_PINS, DUT_TOTAL_NUM_PINS - 1)"
| "artix_range _ = Inl Bad_select"

fun get_cur_dots_vec_id :: "artix_selects \<Rightarrow> dots \<Rightarrow> nat" where
  "get_cur_dots_vec_id ARTIX_SELECT_A1 dots = cur_a1_dots_vec_id dots"
| "get_cur_dots_vec_id _ dots = cur_a2_dots_vec_id dots"

fun set_cur_dots_vec_id :: "artix_selects \<Rightarrow> nat \<Rightarrow> dots \<Rightarrow> dots" where
  "set_cur_dots_vec_id ARTIX_SELECT_A1 k dots = dots\<lparr>cur_a1_dots_vec_id := k\<rparr>"
| "set_cur_dots_vec_id _ k dots = dots\<lparr>cur_a2_dots_vec_id := k\<rparr>"

definition in_range :: "nat \<Rightarrow> nat \<Rightarrow> profile_pin \<Rightarrow> bool" where
  "in_range lo hi p \<longleftrightarrow> \<not> (u32_of_int (dut_io_id p) < lo \<or> u32_of_int (dut_io_id p) > hi)"

definition pack_pin ::
    "nat \<times> nat \<Rightarrow> profile_pin list \<Rightarrow> subvecs list \<Rightarrow> nat \<Rightarrow> u8 list \<times> bool \<Rightarrow> (u8 list \<times> bool) res" where
  "pack_pin rng pins subs pin_id = (\<lambda>(packed_subvecs, is_nop_vec).
     bindR (nthR pins pin_id) (\<lambda>pin.
     if \<not> in_range (fst rng) (snd rng) pin then Inr (packed_subvecs, is_nop_vec)
     else
       bindR (nthR subs pin_id) (\<lambda>subvec.
       bindR (pack_subvecs_by_dut_io_id packed_subvecs (nat (dut_io_id pin)) subvec) (\<lambda>ps.
       Inr (ps, is_nop_vec \<and> subvec = DUT_SUBVEC_X)))))"

definition vec_opcode :: "dots_vec \<Rightarrow> bool \<Rightarrow> subvec_opcode" where
  "vec_opcode v is_nop_vec =
     (if has_clk v then DUT_OPCODE_VECCLK
      else if dv_repeat v > 1 then DUT_OPCODE_VECLOOP
      else if is_nop_vec then DUT_OPCODE_NOP
      else DUT_OPCODE_VEC)"

text \<open>The cleared chunk vector, packed with the subvecs of the unit's pins and the opcode.\<close>

definition pack_chunk_vec ::
    "artix_selects \<Rightarrow> profile_pin list \<Rightarrow> dots_vec \<Rightarrow> subvecs list \<Rightarrow> u8 list res" where
  "pack_chunk_vec sel pins v subs =
     bindR (artix_range sel) (\<lambda>rng.
     bindR (foldR (pack_pin rng pins subs) [0..<num_subvecs v] (create_vec, True))
       (\<lambda>(packed_subvecs, is_nop_vec).
     pack_subvecs_with_opcode_and_operand packed_subvecs (vec_opcode v is_nop_vec)
       (of_nat (dv_repeat v))))"

text \<open>The data subvecs of the next word, when the vectors are the body of a bitstream.\<close>

definition next_data_subvecs :: "bool \<Rightarrow> dots_vec \<Rightarrow> stim \<Rightarrow> (subvecs list option \<times> stim) res" where
  "next_data_subvecs body v stim =
     (if \<not> body then Inr (None, stim)
      else if dv_repeat v \<noteq> 1 then Inl Bad_count
      else bindR (stim_get_next_bitstream_subvecs stim) (\<lambda>(s, stim). Inr (Some s, stim)))"

text \<open>One pass of the loop: dots vector \<open>cur\<close> into the next vector of the chunk.\<close>

definition fill_vec ::
    "bool \<Rightarrow> nat \<Rightarrow> stim \<times> vec_chunk \<times> dots \<Rightarrow> (stim \<times> vec_chunk \<times> dots) res" where
  "fill_vec body cur = (\<lambda>(stim, chunk, dots).
     bindR (bindR (nthR (dots_vecs dots) cur) nonnullR) (\<lambda>v.
     if num_subvecs v \<noteq> stim_num_pins stim then Inl Bad_count
     else if cur_vec_id chunk > sub32 (chunk_num_vecs chunk) 1 then Inl Capacity_exceeded
     else
       bindR (next_data_subvecs body v stim) (\<lambda>(data, stim).
       bindR (expand_dots_vec_subvecs dots v data (case data of None \<Rightarrow> 0 | Some s \<Rightarrow> length s)) (\<lambda>v.
       bindR (nonnullR (dv_subvecs v)) (\<lambda>subs.
       bindR (pack_chunk_vec (chunk_select chunk) (dots_pins dots) v subs) (\<lambda>packed_subvecs.
       bindR (derefR (vec_data chunk)) (\<lambda>vdata.
       bindR (blitR vdata (cur_vec_id chunk * STIM_VEC_SIZE) packed_subvecs) (\<lambda>vdata.
       let chunk = chunk\<lparr>vec_data := Some vdata, cur_vec_id := cur_vec_id chunk + 1\<rparr>;
           dots = dots\<lparr>dots_vecs := (dots_vecs dots)[cur := Some (unexpand_dots_vec_subvecs v)]\<rparr>
       in Inr (stim, chunk, set_cur_dots_vec_id (chunk_select chunk) (cur + 1) dots)))))))))"

text \<open>
  The loop \<^verbatim>\<open>while(1)\<close>. Each pass advances \<open>cur\<close> towards \<^verbatim>\<open>num_dots_vecs\<close>, where the loop breaks,
  so the number of vectors that are left is enough fuel.
\<close>

fun fill_loop ::
    "nat \<Rightarrow> bool \<Rightarrow> nat \<Rightarrow> stim \<times> vec_chunk \<times> dots \<Rightarrow> (stim \<times> vec_chunk \<times> dots) res" where
  "fill_loop 0 body cur st = Inr st"
| "fill_loop (Suc fuel) body cur (stim, chunk, dots) =
     (if cur \<ge> num_dots_vecs dots then Inr (stim, chunk, dots)
      else if cur_vec_id chunk \<ge> chunk_num_vecs chunk then Inr (stim, chunk, dots)
      else bindR (fill_vec body cur (stim, chunk, dots)) (fill_loop fuel body (cur + 1)))"

definition stim_fill_chunk_by_dots ::
    "stim \<Rightarrow> vec_chunk \<Rightarrow> dots \<Rightarrow> bool \<Rightarrow> (stim \<times> vec_chunk \<times> dots) res" where
  "stim_fill_chunk_by_dots stim chunk dots body =
     (if is_filled chunk then Inl Bad_state
      else
        bindR (artix_range (chunk_select chunk)) (\<lambda>_.
        let cur = get_cur_dots_vec_id (chunk_select chunk) dots in
        bindR (fill_loop (num_dots_vecs dots - cur) body cur (stim, chunk, dots))
          (\<lambda>(stim, chunk, dots).
        Inr (stim,
             (if cur_vec_id chunk + 1 \<ge> chunk_num_vecs chunk
              then chunk\<lparr>is_filled := True\<rparr> else chunk),
             dots))))"

section \<open>Filling a chunk\<close>

text \<open>\<open>lz4 src n\<close> is what the decompressor writes for \<open>src\<close> into a buffer of \<open>n\<close> bytes, or an error.\<close>

type_synonym lz4_decompressor = "u8 list \<Rightarrow> nat \<Rightarrow> u8 list option"

definition stim_decompress_vec_chunk :: "lz4_decompressor \<Rightarrow> vec_chunk \<Rightarrow> vec_chunk res" where
  "stim_decompress_vec_chunk lz4 chunk =
     bindR (nonnullR (vec_data chunk)) (\<lambda>vdata.
     if vec_data_size chunk = 0 then Inl Bad_count
     else
       bindR (nonnullR (vec_data_compressed chunk)) (\<lambda>src.
       if length src = 0 then Inl Bad_count
       else
         (case lz4 src (vec_data_size chunk) of
            None \<Rightarrow> Inl Bad_format
          | Some out \<Rightarrow>
              if length out = 0 then Inl Bad_format
              else bindR (blitR vdata 0 out) (\<lambda>vdata. Inr (chunk\<lparr>vec_data := Some vdata\<rparr>)))))"

definition is_last_chunk :: "stim \<Rightarrow> vec_chunk \<Rightarrow> bool res" where
  "is_last_chunk stim chunk =
     (case chunk_select chunk of
        ARTIX_SELECT_A1 \<Rightarrow> Inr (chunk_id chunk = sub32 (num_a1_vec_chunks stim) 1)
      | ARTIX_SELECT_A2 \<Rightarrow> Inr (chunk_id chunk = sub32 (num_a2_vec_chunks stim) 1)
      | _ \<Rightarrow> Inl Bad_select)"

text \<open>The three phases of a bitstream; \<open>pad\<close> appends the padding to the footer.\<close>

definition fill_config ::
    "config_types \<Rightarrow> nat \<Rightarrow> nat \<Rightarrow> stim \<times> vec_chunk \<Rightarrow> (stim \<times> vec_chunk) res" where
  "fill_config type n pad = (\<lambda>(stim, chunk).
     bindR (derefR (stim_profile stim)) (\<lambda>profile.
     bindR (create_config profile type n) (\<lambda>config.
     bindR (if type = CONFIG_TYPE_FOOTER then append_dots_vec_by_nop_vecs (config_dots config) pad
            else Inr (config_dots config)) (\<lambda>dots.
     bindR (stim_fill_chunk_by_dots stim chunk dots (type = CONFIG_TYPE_BODY))
       (\<lambda>(stim, chunk, _). Inr (stim, chunk))))))"

definition fill_bitstream :: "stim \<Rightarrow> vec_chunk \<Rightarrow> bool \<Rightarrow> (stim \<times> vec_chunk) res" where
  "fill_bitstream stim chunk is_last =
     bindR (if chunk_id chunk = 0 then fill_config CONFIG_TYPE_HEADER 1 0 (stim, chunk)
            else Inr (stim, chunk)) (\<lambda>(stim, chunk).
     bindR (get_config_num_vecs_by_type CONFIG_TYPE_FOOTER) (\<lambda>footer_num_vecs.
     let end_num_vecs =
           (if is_last
            then sub32 (sub32 (chunk_num_vecs chunk) footer_num_vecs) (num_padding_vecs stim)
            else chunk_num_vecs chunk)
     in bindR (fill_config CONFIG_TYPE_BODY (sub32 end_num_vecs (cur_vec_id chunk)) 0 (stim, chunk))
          (\<lambda>(stim, chunk).
        if is_last
        then fill_config CONFIG_TYPE_FOOTER 1 (num_padding_vecs stim) (stim, chunk)
        else Inr (stim, chunk))))"

definition stim_fill_chunk :: "lz4_decompressor \<Rightarrow> stim \<Rightarrow> vec_chunk \<Rightarrow> (stim \<times> vec_chunk) res" where
  "stim_fill_chunk lz4 stim chunk =
     (if is_filled chunk then Inl Bad_state
      else if stim_type stim = STIM_TYPE_NONE then Inl Bad_state
      else
        bindR (is_last_chunk stim chunk) (\<lambda>is_last.
        case stim_type stim of
          STIM_TYPE_DOTS \<Rightarrow>
            (case stim_dots stim of
               None \<Rightarrow> Inl Bad_state
             | Some dots \<Rightarrow>
                 bindR (if is_last then append_dots_vec_by_nop_vecs dots (num_padding_vecs stim)
                        else Inr dots) (\<lambda>dots.
                 bindR (stim_fill_chunk_by_dots stim chunk dots False) (\<lambda>(stim, chunk, dots).
                 Inr (stim\<lparr>stim_dots := Some dots\<rparr>, chunk))))
        | STIM_TYPE_RAW \<Rightarrow>
            bindR (stim_decompress_vec_chunk lz4 chunk) (\<lambda>chunk. Inr (stim, chunk))
        | _ \<Rightarrow> fill_bitstream stim chunk is_last))"

section \<open>Iterating over the chunks\<close>

definition stim_unload_chunk :: "vec_chunk \<Rightarrow> vec_chunk" where
  "stim_unload_chunk chunk =
     (if \<not> is_loaded chunk then chunk
      else chunk\<lparr>cur_vec_id := 0, vec_data := None, is_loaded := False, is_filled := False\<rparr>)"

text \<open>Access to the fields of one unit.\<close>

fun unit_chunks :: "artix_selects \<Rightarrow> stim \<Rightarrow> vec_chunk list" where
  "unit_chunks ARTIX_SELECT_A1 stim = a1_vec_chunks stim"
| "unit_chunks _ stim = a2_vec_chunks stim"

fun set_unit_chunks :: "artix_selects \<Rightarrow> vec_chunk list \<Rightarrow> stim \<Rightarrow> stim" where
  "set_unit_chunks ARTIX_SELECT_A1 cs stim = stim\<lparr>a1_vec_chunks := cs\<rparr>"
| "set_unit_chunks _ cs stim = stim\<lparr>a2_vec_chunks := cs\<rparr>"

fun unit_num_chunks :: "artix_selects \<Rightarrow> stim \<Rightarrow> nat" where
  "unit_num_chunks ARTIX_SELECT_A1 stim = num_a1_vec_chunks stim"
| "unit_num_chunks _ stim = num_a2_vec_chunks stim"

fun unit_cur :: "artix_selects \<Rightarrow> stim \<Rightarrow> int" where
  "unit_cur ARTIX_SELECT_A1 stim = cur_a1_vec_chunk_id stim"
| "unit_cur _ stim = cur_a2_vec_chunk_id stim"

fun set_unit_cur :: "artix_selects \<Rightarrow> int \<Rightarrow> stim \<Rightarrow> stim" where
  "set_unit_cur ARTIX_SELECT_A1 k stim = stim\<lparr>cur_a1_vec_chunk_id := k\<rparr>"
| "set_unit_cur _ k stim = stim\<lparr>cur_a2_vec_chunk_id := k\<rparr>"

fun other_unit :: "artix_selects \<Rightarrow> artix_selects" where
  "other_unit ARTIX_SELECT_A1 = ARTIX_SELECT_A2"
| "other_unit _ = ARTIX_SELECT_A1"

text \<open>One of the two units.\<close>

definition one_unit :: "artix_selects \<Rightarrow> bool" where
  "one_unit sel \<longleftrightarrow> sel = ARTIX_SELECT_A1 \<or> sel = ARTIX_SELECT_A2"

text \<open>The chunk as it is before it is filled: allocated and set to \<^verbatim>\<open>0xff\<close>.\<close>

definition alloc_chunk :: "vec_chunk \<Rightarrow> vec_chunk" where
  "alloc_chunk c = c\<lparr>vec_data := Some (replicate (vec_data_size c) 0xff), is_loaded := True\<rparr>"

text \<open>The two steps of loading: leave the current chunk, then allocate and fill the next one.\<close>

definition unload_current :: "artix_selects \<Rightarrow> stim \<Rightarrow> stim res" where
  "unload_current sel stim =
     (let cur = u32_of_int (unit_cur sel stim) in
      if cur = u32_of_int (-1) then Inr (stim\<lparr>cur_map_byte := start_map_byte stim\<rparr>)
      else bindR (nthR (unit_chunks sel stim) cur) (\<lambda>c.
        Inr (set_unit_chunks sel ((unit_chunks sel stim)[cur := stim_unload_chunk c]) stim)))"

definition next_chunk_id :: "artix_selects \<Rightarrow> stim \<Rightarrow> nat option" where
  "next_chunk_id sel stim =
     (let cur = u32_of_int (unit_cur sel stim) in
      if cur = sub32 (unit_num_chunks sel stim) 1 then None else Some (wrap32 (cur + 1)))"

definition stim_load_next_chunk ::
    "lz4_decompressor \<Rightarrow> stim \<Rightarrow> artix_selects \<Rightarrow> (nat option \<times> stim) res" where
  "stim_load_next_chunk lz4 stim sel =
     (if stim_type stim = STIM_TYPE_NONE then Inl Bad_state
      else if sel = ARTIX_SELECT_NONE then Inl Bad_select
      else if sel = ARTIX_SELECT_BOTH then Inl Bad_select
      else if unit_cur (other_unit sel) stim \<ge> 0 then Inl Bad_state
      else
        bindR (unload_current sel stim) (\<lambda>stim.
        case next_chunk_id sel stim of
          None \<Rightarrow> Inr (None, set_unit_cur sel (-1) stim)
        | Some k \<Rightarrow>
            let stim = set_unit_cur sel (int k) stim in
            bindR (nthR (unit_chunks sel stim) k) (\<lambda>c.
            let stim = set_unit_chunks sel ((unit_chunks sel stim)[k := alloc_chunk c]) stim in
            bindR (stim_fill_chunk lz4 stim (alloc_chunk c)) (\<lambda>(stim, c).
            Inr (Some k, set_unit_chunks sel ((unit_chunks sel stim)[k := c]) stim)))))"

section \<open>Enabling pins\<close>

definition enable_pin :: "nat \<times> nat \<Rightarrow> profile_pin \<Rightarrow> u8 list \<Rightarrow> u8 list res" where
  "enable_pin rng pin enable_pins =
     (if \<not> in_range (fst rng) (snd rng) pin then Inr enable_pins
      else updR enable_pins (nat (dut_io_id pin) mod DUT_NUM_PINS mod 256) 0x00)"

definition stim_get_enable_pins_data :: "stim \<Rightarrow> artix_selects \<Rightarrow> u8 list res" where
  "stim_get_enable_pins_data stim sel =
     (if sel = ARTIX_SELECT_NONE then Inl Bad_select
      else
        let rng = (case sel of
              ARTIX_SELECT_A1 \<Rightarrow> (0, DUT_NUM_PINS - 1)
            | ARTIX_SELECT_A2 \<Rightarrow> (DUT_NUM_PINS, DUT_TOTAL_NUM_PINS - 1)
            | _ \<Rightarrow> (0, 0))
        in foldR (enable_pin rng) (stim_pins stim)
             (replicate 256 0xff @ replicate (BURST_BYTES - 256) 0x00))"


section \<open>A compiled vector\<close>

definition pin_io :: "profile_pin \<Rightarrow> nat" where
  "pin_io p = nat (dut_io_id p)"

text \<open>The pins of a unit that a vector drives.\<close>

definition unit_ids :: "nat \<times> nat \<Rightarrow> profile_pin list \<Rightarrow> nat list" where
  "unit_ids rng pins = filter (\<lambda>i. in_range (fst rng) (snd rng) (pins ! i)) [0..<length pins]"

lemma pack_pin_loop:
  assumes "\<forall>i\<in>set ids. i < length pins \<and> i < length subs"
  shows "foldR (pack_pin rng pins subs) ids (ps, nop) =
    (let sel = filter (\<lambda>i. in_range (fst rng) (snd rng) (pins ! i)) ids in
     bindR (foldR (\<lambda>i ps. pack_subvecs_by_dut_io_id ps (pin_io (pins ! i)) (subs ! i)) sel ps)
       (\<lambda>ps. Inr (ps, nop \<and> (\<forall>i\<in>set sel. subs ! i = DUT_SUBVEC_X))))"
  using assms
proof (induction ids arbitrary: ps nop)
  case Nil
  then show ?case by simp
next
  case (Cons i ids)
  then have i: "i < length pins" "i < length subs" and rest: "\<forall>i\<in>set ids. i < length pins \<and> i < length subs"
    by simp_all
  show ?case
  proof (cases "in_range (fst rng) (snd rng) (pins ! i)")
    case False
    then show ?thesis using Cons.IH [OF rest] i by (simp add: pack_pin_def nthR_def)
  next
    case True
    then show ?thesis using Cons.IH [OF rest] i
      by (cases "pack_subvecs_by_dut_io_id ps (pin_io (pins ! i)) (subs ! i)")
        (simp_all add: pack_pin_def nthR_def pin_io_def Let_def conj_assoc)
  qed
qed

text \<open>What the pins must satisfy: the packing accepts the unit's pins, each on its own position.\<close>

definition unit_pins_ok :: "nat \<times> nat \<Rightarrow> profile_pin list \<Rightarrow> bool" where
  "unit_pins_ok rng pins \<longleftrightarrow>
     (\<forall>i\<in>set (unit_ids rng pins). pin_io (pins ! i) < 399)"

definition unit_pins_distinct :: "nat \<times> nat \<Rightarrow> profile_pin list \<Rightarrow> bool" where
  "unit_pins_distinct rng pins \<longleftrightarrow>
     distinct (map (\<lambda>i. pin_io (pins ! i) mod 200) (unit_ids rng pins))"

lemma create_vec_bytes: "length create_vec = 128" "j < 128 \<Longrightarrow> create_vec ! j = 0xff"
  by (simp_all add: create_vec_def STIM_VEC_SIZE_def)

lemma create_vec_nibble: "i < 200 \<Longrightarrow> nibble create_vec i = 0xf"
proof -
  assume "i < 200"
  then have "create_vec ! (i div 2) = 0xff" by (intro create_vec_bytes) auto
  moreover have "drop_bit 4 (0xff :: u8) = 0xf" "(0xff :: u8) AND 0xf = 0xf" by simp_all
  ultimately show ?thesis by (simp add: nibble_def)
qed

lemma pack_chunk_vec_total:
  assumes "artix_range sel = Inr rng" and "unit_pins_ok rng pins"
    and "num_subvecs v = length pins" and "length subs = length pins"
  shows "\<exists>ps bs. foldR (\<lambda>i ps. pack_subvecs_by_dut_io_id ps (pin_io (pins ! i)) (subs ! i))
      (unit_ids rng pins) create_vec = Inr ps \<and> length ps = 128 \<and>
    pack_chunk_vec sel pins v subs = Inr bs \<and> length bs = 128 \<and>
    bs ! 127 = opcode_code (vec_opcode v (\<forall>i\<in>set (unit_ids rng pins). subs ! i = DUT_SUBVEC_X)) \<and>
    vec_operand bs = dv_repeat v mod 2 ^ 64 \<and> (\<forall>j<100. bs ! j = ps ! j) \<and>
    (\<forall>j\<in>{108..126}. bs ! j = 0)"
proof -
  have "\<exists>ps. foldR (\<lambda>i ps. pack_subvecs_by_dut_io_id ps (pin_io (pins ! i)) (subs ! i))
      (unit_ids rng pins) create_vec = Inr ps \<and> length ps = 128"
    by (rule vec.fill_total)
      (use assms(2) in \<open>auto simp: create_vec_bytes unit_pins_ok_def\<close>)
  then obtain ps where ps: "foldR (\<lambda>i ps. pack_subvecs_by_dut_io_id ps (pin_io (pins ! i)) (subs ! i))
      (unit_ids rng pins) create_vec = Inr ps" "length ps = 128" by blast
  have "foldR (pack_pin rng pins subs) [0..<num_subvecs v] (create_vec, True) =
      Inr (ps, \<forall>i\<in>set (unit_ids rng pins). subs ! i = DUT_SUBVEC_X)"
    using ps(1) assms(3,4) by (subst pack_pin_loop) (auto simp: unit_ids_def Let_def)
  moreover from pack_opcode [OF ps(2), of "vec_opcode v (\<forall>i\<in>set (unit_ids rng pins). subs ! i = DUT_SUBVEC_X)"
      "of_nat (dv_repeat v)"] obtain bs where
    "pack_subvecs_with_opcode_and_operand ps
       (vec_opcode v (\<forall>i\<in>set (unit_ids rng pins). subs ! i = DUT_SUBVEC_X)) (of_nat (dv_repeat v)) = Inr bs"
    "length bs = 128"
    "bs ! 127 = opcode_code (vec_opcode v (\<forall>i\<in>set (unit_ids rng pins). subs ! i = DUT_SUBVEC_X))"
    "vec_operand bs = unat (of_nat (dv_repeat v) :: u64)" "\<forall>j<100. bs ! j = ps ! j"
    "\<forall>j\<in>{108..126}. bs ! j = 0"
    by blast
  moreover have "unat (of_nat (dv_repeat v) :: u64) = dv_repeat v mod 2 ^ 64" by (simp add: unat_of_nat)
  ultimately show ?thesis using ps assms(1) by (simp add: pack_chunk_vec_def)
qed

text \<open>C8. The 128 bytes a vector compiles to for a unit, for pins of the unit with places below 399 and
  different from each other within the unit. Of the 200 nibbles of the pin area (bytes 0 to 99), the one
  of each of the unit's pins holds the code of its subvec (\<^verbatim>\<open>0\<close> 0, \<^verbatim>\<open>1\<close> 1, \<^verbatim>\<open>X\<close> 2, \<^verbatim>\<open>H\<close> 3, \<^verbatim>\<open>L\<close> 4, \<^verbatim>\<open>C\<close> 5) and every
  other one \<^verbatim>\<open>0xf\<close>, which the unit does not process. Bytes 100 to 107 are the repeat count, little
  endian and cut to 64 bits, and bytes 108 to 126 are 0. Byte 127 is the opcode: 3 for a clocked vector, else 2
  when the vector repeats more than once, else \<^verbatim>\<open>0xff\<close> (a NOP) when each of the unit's pins is \<open>X\<close>, else 1.\<close>

theorem compiled_vec_spec:
  assumes "artix_range sel = Inr rng" and "unit_pins_ok rng pins" and "unit_pins_distinct rng pins"
    and "num_subvecs v = length pins" and "length subs = length pins"
  shows "\<exists>bs. pack_chunk_vec sel pins v subs = Inr bs \<and> length bs = STIM_VEC_SIZE \<and>
    (\<forall>i\<in>set (unit_ids rng pins). nibble bs (pin_io (pins ! i) mod 200) =
      (case subs ! i of DUT_SUBVEC_0 \<Rightarrow> 0 | DUT_SUBVEC_1 \<Rightarrow> 1 | DUT_SUBVEC_X \<Rightarrow> 2 | DUT_SUBVEC_H \<Rightarrow> 3
       | DUT_SUBVEC_L \<Rightarrow> 4 | DUT_SUBVEC_C \<Rightarrow> 5 | DUT_SUBVEC_NONE \<Rightarrow> 0xf)) \<and>
    (\<forall>j<200. j \<notin> (\<lambda>i. pin_io (pins ! i) mod 200) ` set (unit_ids rng pins) \<longrightarrow> nibble bs j = 0xf) \<and>
    vec_operand bs = dv_repeat v mod 2 ^ 64 \<and> (\<forall>j\<in>{108..126}. bs ! j = 0) \<and>
    bs ! 127 = (if has_clk v then 3 else if 1 < dv_repeat v then 2
      else if \<forall>i\<in>set (unit_ids rng pins). subs ! i = DUT_SUBVEC_X then 0xff else 1)"
proof -
  from pack_chunk_vec_total [OF assms(1,2,4,5)] obtain ps bs where
    ps: "foldR (\<lambda>i ps. pack_subvecs_by_dut_io_id ps (pin_io (pins ! i)) (subs ! i))
      (unit_ids rng pins) create_vec = Inr ps"
    and bs: "pack_chunk_vec sel pins v subs = Inr bs" "length bs = 128"
      "bs ! 127 = opcode_code (vec_opcode v (\<forall>i\<in>set (unit_ids rng pins). subs ! i = DUT_SUBVEC_X))"
      "vec_operand bs = dv_repeat v mod 2 ^ 64" "\<forall>j<100. bs ! j = ps ! j" "\<forall>j\<in>{108..126}. bs ! j = 0"
    by blast
  have same: "nibble bs j = nibble ps j" if "j < 200" for j
  proof -
    have "j div 2 < 100" using that by auto
    then show ?thesis using bs(5) by (simp add: nibble_def)
  qed
  have "nibble ps (pin_io (pins ! i) mod 200) = subvec_code (subs ! i)" if "i \<in> set (unit_ids rng pins)" for i
    using vec.fill_same [OF create_vec_bytes(1) ps assms(3) [unfolded unit_pins_distinct_def] that] .
  moreover have "nibble ps j = 0xf"
    if "j < 200" "j \<notin> (\<lambda>i. pin_io (pins ! i) mod 200) ` set (unit_ids rng pins)" for j
    using vec.fill_other [OF create_vec_bytes(1) ps that(2)] create_vec_nibble [OF that(1)] by simp
  moreover have "bs ! 127 = (if has_clk v then 3 else if 1 < dv_repeat v then 2
      else if \<forall>i\<in>set (unit_ids rng pins). subs ! i = DUT_SUBVEC_X then 0xff else 1)"
    using bs(3) by (simp add: vec_opcode_def)
  moreover have "subvec_code s = (case s of DUT_SUBVEC_0 \<Rightarrow> 0 | DUT_SUBVEC_1 \<Rightarrow> 1 | DUT_SUBVEC_X \<Rightarrow> 2
      | DUT_SUBVEC_H \<Rightarrow> 3 | DUT_SUBVEC_L \<Rightarrow> 4 | DUT_SUBVEC_C \<Rightarrow> 5 | DUT_SUBVEC_NONE \<Rightarrow> 0xf)" for s
    by (cases s) simp_all
  ultimately show ?thesis using bs(1,2,4,6) same by (auto simp: STIM_VEC_SIZE_def)
qed

lemma compiled_vec_spec_witness:
  "\<exists>bs. pack_chunk_vec ARTIX_SELECT_A2 [data_pin 3, data_pin 207] (new_vec 2 (''3'', ''V1L''))
      [DUT_SUBVEC_1, DUT_SUBVEC_L] = Inr bs \<and> nibble bs 7 = 4 \<and> nibble bs 3 = 0xf \<and>
    bs ! 120 = 0 \<and> bs ! 127 = 2"
proof -
  have rng: "artix_range ARTIX_SELECT_A2 = Inr (200, 399)"
    by (simp add: DUT_NUM_PINS_def DUT_TOTAL_NUM_PINS_def)
  have ids: "unit_ids (200, 399) [data_pin 3, data_pin 207] = [1]"
    by (simp add: unit_ids_def in_range_def data_pin_def upt_rec)
  let ?pins = "[data_pin 3, data_pin 207]" and ?v = "new_vec 2 (''3'', ''V1L'')"
  have io: "pin_io (data_pin 207) = 207" by (simp add: pin_io_def data_pin_def)
  have ok: "unit_pins_ok (200, 399) ?pins" "unit_pins_distinct (200, 399) ?pins"
    by (simp_all add: unit_pins_ok_def unit_pins_distinct_def ids io)
  have "num_subvecs ?v = length ?pins" by (simp add: new_vec_def)
  from compiled_vec_spec [OF rng ok this, of "[DUT_SUBVEC_1, DUT_SUBVEC_L]"] obtain bs where
    "pack_chunk_vec ARTIX_SELECT_A2 ?pins ?v [DUT_SUBVEC_1, DUT_SUBVEC_L] = Inr bs"
    "nibble bs (pin_io (?pins ! 1) mod 200) = 4"
    "\<forall>j<200. j \<notin> (\<lambda>i. pin_io (?pins ! i) mod 200) ` set [1] \<longrightarrow> nibble bs j = 0xf"
    "bs ! 120 = 0" "bs ! 127 = (if has_clk ?v then 3 else 2)"
    unfolding ids by (auto simp: new_vec_def sample_repeats)
  then show ?thesis by (intro exI [of _ bs]) (simp add: io new_vec_def)
qed


section \<open>Filling from a complete pattern\<close>

text \<open>A vector as \<open>get_stim_by_dots\<close> leaves it: not expanded, of the right length, with its clock flag
  up to date.\<close>

definition vec_fits :: "nat \<Rightarrow> dots_vec \<Rightarrow> bool" where
  "vec_fits np v \<longleftrightarrow> \<not> is_expanded v \<and> dv_subvecs v = None \<and> num_subvecs v = np \<and>
     (\<exists>c t. vec_str v = Some (c # t) \<and> length t = np \<and> (CHR ''C'' \<in> set t \<longrightarrow> has_clk v))"

text \<open>The bytes a vector compiles to.\<close>

definition compile_vec :: "artix_selects \<Rightarrow> profile_pin list \<Rightarrow> dots_vec \<Rightarrow> u8 list" where
  "compile_vec sel pins v =
     (case pack_chunk_vec sel pins v (map subvec_of_char (tl (the (vec_str v)))) of
        Inr bs \<Rightarrow> bs | Inl _ \<Rightarrow> [])"

text \<open>The pattern, the pins and the stimulus agree.\<close>

definition pattern_ok :: "artix_selects \<Rightarrow> nat \<Rightarrow> dots_vec list \<Rightarrow> dots \<Rightarrow> bool" where
  "pattern_ok sel np vs dots \<longleftrightarrow> dots_full dots vs \<and> (\<forall>v\<in>set vs. vec_fits np v) \<and>
     dots_num_pins dots = np \<and> length (dots_pins dots) = np \<and> np < 2 ^ 16 \<and>
     (\<exists>rng. artix_range sel = Inr rng \<and> unit_pins_ok rng (dots_pins dots))"

lemma set_cur_simps [simp]:
  "num_dots_vecs (set_cur_dots_vec_id sel k dots) = num_dots_vecs dots"
  "dots_vecs (set_cur_dots_vec_id sel k dots) = dots_vecs dots"
  "dots_num_pins (set_cur_dots_vec_id sel k dots) = dots_num_pins dots"
  "dots_pins (set_cur_dots_vec_id sel k dots) = dots_pins dots"
  "cur_appended_dots_vec_id (set_cur_dots_vec_id sel k dots) = cur_appended_dots_vec_id dots"
  "get_cur_dots_vec_id sel (set_cur_dots_vec_id sel k dots) = k"
  "set_cur_dots_vec_id sel l (set_cur_dots_vec_id sel k dots) = set_cur_dots_vec_id sel l dots"
  "set_cur_dots_vec_id sel (get_cur_dots_vec_id sel dots) dots = dots"
  by (cases sel; simp)+

lemma pattern_ok_set_cur [simp]:
  "pattern_ok sel np vs (set_cur_dots_vec_id sel' k dots) = pattern_ok sel np vs dots"
  by (simp add: pattern_ok_def dots_full_def)

lemma compile_vec_ok:
  assumes "pattern_ok sel np vs dots" and "v \<in> set vs"
  shows "length (compile_vec sel (dots_pins dots) v) = 128" and
    "pack_chunk_vec sel (dots_pins dots) v (map subvec_of_char (tl (the (vec_str v)))) =
      Inr (compile_vec sel (dots_pins dots) v)"
proof -
  from assms obtain rng c t where rng: "artix_range sel = Inr rng" "unit_pins_ok rng (dots_pins dots)"
    and v: "num_subvecs v = length (dots_pins dots)" "vec_str v = Some (c # t)"
      "length t = length (dots_pins dots)"
    by (fastforce simp: pattern_ok_def vec_fits_def)
  have len: "length (map subvec_of_char (tl (the (vec_str v)))) = length (dots_pins dots)"
    using v by simp
  from pack_chunk_vec_total [OF rng v(1) len] obtain bs where
    "pack_chunk_vec sel (dots_pins dots) v (map subvec_of_char (tl (the (vec_str v)))) = Inr bs"
    "length bs = 128" by blast
  then show "length (compile_vec sel (dots_pins dots) v) = 128" and
    "pack_chunk_vec sel (dots_pins dots) v (map subvec_of_char (tl (the (vec_str v)))) =
      Inr (compile_vec sel (dots_pins dots) v)" by (simp_all add: compile_vec_def)
qed

lemma pack_chunk_vec_cong:
  "num_subvecs v = num_subvecs w \<Longrightarrow> has_clk v = has_clk w \<Longrightarrow> dv_repeat v = dv_repeat w \<Longrightarrow>
    pack_chunk_vec sel pins v subs = pack_chunk_vec sel pins w subs"
proof -
  assume eq: "num_subvecs v = num_subvecs w" "has_clk v = has_clk w" "dv_repeat v = dv_repeat w"
  have "vec_opcode v = vec_opcode w" by (rule ext) (simp add: vec_opcode_def eq)
  then show ?thesis by (simp add: pack_chunk_vec_def eq)
qed

lemma fill_vec_step:
  assumes ok: "pattern_ok sel np vs dots" and "stim_num_pins stim = np"
    and "chunk_select chunk = sel" and cur: "cur < length vs"
    and d: "vec_data chunk = Some d" "length d = chunk_num_vecs chunk * 128"
    and j: "cur_vec_id chunk < chunk_num_vecs chunk" "chunk_num_vecs chunk < 2 ^ 32"
  shows "fill_vec False cur (stim, chunk, dots) =
    Inr (stim, chunk\<lparr>vec_data := Some (take (128 * cur_vec_id chunk) d @
        compile_vec sel (dots_pins dots) (vs ! cur) @ drop (128 * (cur_vec_id chunk + 1)) d),
      cur_vec_id := cur_vec_id chunk + 1\<rparr>, set_cur_dots_vec_id sel (cur + 1) dots)"
proof -
  let ?v = "vs ! cur"
  have v: "?v \<in> set vs" using cur by simp
  from ok v have fits: "vec_fits np ?v" and full: "dots_full dots vs"
    and np: "dots_num_pins dots = np" "np < 2 ^ 16"
    by (simp_all add: pattern_ok_def)
  then obtain c t where str: "vec_str ?v = Some (c # t)" "length t = np"
    "CHR ''C'' \<in> set t \<longrightarrow> has_clk ?v"
    and unexp: "\<not> is_expanded ?v" "dv_subvecs ?v = None" "num_subvecs ?v = np"
    by (auto simp: vec_fits_def)
  have "num_subvecs ?v = dots_num_pins dots" "length t = dots_num_pins dots"
    "dots_num_pins dots < 2 ^ 16" using unexp(3) str(2) np by simp_all
  from expand_vec [OF str(1) unexp(1,2) this, of 0] obtain v' where
    v': "expand_dots_vec_subvecs dots ?v None 0 = Inr v'"
    "dv_subvecs v' = Some (map subvec_of_char t)"
    "has_clk v' = (has_clk ?v \<or> CHR ''C'' \<in> set t)"
    "unexpand_dots_vec_subvecs v' = ?v\<lparr>has_clk := has_clk v'\<rparr>" by blast
  have clk: "has_clk v' = has_clk ?v" using v'(3) str(3) by auto
  then have unexpanded: "unexpand_dots_vec_subvecs v' = ?v" using v'(4) by simp
  have same: "num_subvecs v' = num_subvecs ?v" "dv_repeat v' = dv_repeat ?v"
    using arg_cong [OF unexpanded, of num_subvecs] arg_cong [OF unexpanded, of dv_repeat]
    by (simp_all add: unexpand_dots_vec_subvecs_def split: if_splits)
  have pack: "pack_chunk_vec sel (dots_pins dots) v' (map subvec_of_char t) =
      Inr (compile_vec sel (dots_pins dots) ?v)"
    using compile_vec_ok(2) [OF ok v] str(1) pack_chunk_vec_cong [OF same(1) clk same(2)] by simp
  have slot: "nthR (dots_vecs dots) cur = Inr (Some ?v)"
    "(dots_vecs dots)[cur := Some ?v] = dots_vecs dots"
    using full cur by (simp_all add: dots_full_def nthR_def list_update_same_conv)
  have blit: "blitR d (cur_vec_id chunk * STIM_VEC_SIZE) (compile_vec sel (dots_pins dots) ?v) =
      Inr (take (128 * cur_vec_id chunk) d @ compile_vec sel (dots_pins dots) ?v @
        drop (128 * (cur_vec_id chunk + 1)) d)"
    using d(2) j(1) compile_vec_ok(1) [OF ok v]
    by (simp add: blitR_def STIM_VEC_SIZE_def mult.commute add.commute)
  have "sub32 (chunk_num_vecs chunk) 1 = chunk_num_vecs chunk - 1" using j by (intro sub32_le) auto
  moreover have "bindR (nthR (dots_vecs dots) cur) nonnullR = Inr ?v" unfolding slot(1) by simp
  ultimately show ?thesis
    unfolding fill_vec_def split
    using assms(2,3) j(1) d(1) slot(2) v'(1,2) pack blit unexpanded unexp(3)
    by (simp add: next_data_subvecs_def)
qed

lemma compile_concat_length:
  assumes "\<forall>v\<in>set vs. length (compile_vec sel pins v) = 128"
  shows "length (concat (map (compile_vec sel pins) vs)) = 128 * length vs"
  using assms by (induction vs) auto

text \<open>The loop fills the rest of the chunk, or as much of it as the pattern has vectors left.\<close>

lemma fill_loop_run:
  assumes "pattern_ok sel np vs dots" and "stim_num_pins stim = np"
    and "chunk_select chunk = sel" and "fuel = length vs - cur"
    and "vec_data chunk = Some d" "length d = chunk_num_vecs chunk * 128"
    and "cur_vec_id chunk \<le> chunk_num_vecs chunk" "chunk_num_vecs chunk < 2 ^ 32"
    and "m = min fuel (chunk_num_vecs chunk - cur_vec_id chunk)" and "get_cur_dots_vec_id sel dots = cur"
  shows "fill_loop fuel False cur (stim, chunk, dots) =
    Inr (stim, chunk\<lparr>vec_data := Some (take (128 * cur_vec_id chunk) d @
        concat (map (compile_vec sel (dots_pins dots)) (take m (drop cur vs))) @
        drop (128 * (cur_vec_id chunk + m)) d),
      cur_vec_id := cur_vec_id chunk + m\<rparr>, set_cur_dots_vec_id sel (cur + m) dots)"
  using assms
proof (induction fuel arbitrary: cur chunk d dots m)
  case 0
  have "dots = set_cur_dots_vec_id sel cur dots" using "0.prems"(10) by (metis set_cur_simps(8))
  with 0 show ?case by simp
next
  case (Suc fuel)
  have N: "num_dots_vecs dots = length vs" using Suc.prems(1) by (simp add: pattern_ok_def dots_full_def)
  have cur: "cur < length vs" using Suc.prems(4) by simp
  show ?case
  proof (cases "cur_vec_id chunk < chunk_num_vecs chunk")
    case False
    then have "m = 0" "cur_vec_id chunk = chunk_num_vecs chunk" using Suc.prems(7,9) by simp_all
    moreover have "dots = set_cur_dots_vec_id sel cur dots" using Suc.prems(10) by (metis set_cur_simps(8))
    ultimately show ?thesis using False Suc.prems(5) N cur by simp
  next
    case True
    let ?b = "compile_vec sel (dots_pins dots) (vs ! cur)"
    let ?d = "take (128 * cur_vec_id chunk) d @ ?b @ drop (128 * (cur_vec_id chunk + 1)) d"
    let ?chunk = "chunk\<lparr>vec_data := Some ?d, cur_vec_id := cur_vec_id chunk + 1\<rparr>"
    let ?dots = "set_cur_dots_vec_id sel (cur + 1) dots"
    note step = fill_vec_step [OF Suc.prems(1-3) cur Suc.prems(5,6) True Suc.prems(8)]
    have b: "length ?b = 128" using compile_vec_ok(1) [OF Suc.prems(1)] cur by simp
    then have len: "length ?d = chunk_num_vecs ?chunk * 128" using Suc.prems(6) True by simp
    obtain m' where m': "m = Suc m'" "m' = min fuel (chunk_num_vecs ?chunk - cur_vec_id ?chunk)"
      using Suc.prems(9) True by (cases m) auto
    have "fill_loop fuel False (cur + 1) (stim, ?chunk, ?dots) =
      Inr (stim, ?chunk\<lparr>vec_data := Some (take (128 * cur_vec_id ?chunk) ?d @
          concat (map (compile_vec sel (dots_pins ?dots)) (take m' (drop (cur + 1) vs))) @
          drop (128 * (cur_vec_id ?chunk + m')) ?d),
        cur_vec_id := cur_vec_id ?chunk + m'\<rparr>, set_cur_dots_vec_id sel (cur + 1 + m') ?dots)"
      by (rule Suc.IH) (use Suc.prems(1-4,8) True len m' in simp_all)
    moreover have "take (128 * (cur_vec_id chunk + 1)) ?d = take (128 * cur_vec_id chunk) d @ ?b"
      using b Suc.prems(6) True by simp
    moreover have "drop (128 * (cur_vec_id chunk + 1 + m')) ?d = drop (128 * (cur_vec_id chunk + m)) d"
      using b Suc.prems(6) True m'(1) by (simp add: ac_simps)
    moreover have "take m (drop cur vs) = vs ! cur # take m' (drop (cur + 1) vs)"
      using cur m'(1) by (simp add: Cons_nth_drop_Suc [symmetric])
    ultimately show ?thesis
      using N cur True step m'(1) by simp
  qed
qed


section \<open>The chunks of a pattern\<close>

lemma unit_simps [simp]:
  "unit_chunks sel (set_unit_chunks sel cs st) = cs"
  "unit_num_chunks sel (set_unit_chunks sel cs st) = unit_num_chunks sel st"
  "unit_cur sel (set_unit_chunks sel cs st) = unit_cur sel st"
  "unit_cur (other_unit sel) (set_unit_chunks sel cs st) = unit_cur (other_unit sel) st"
  "unit_chunks sel (set_unit_cur sel k st) = unit_chunks sel st"
  "unit_num_chunks sel (set_unit_cur sel k st) = unit_num_chunks sel st"
  "unit_cur sel (set_unit_cur sel k st) = k"
  "unit_cur (other_unit sel) (set_unit_cur sel k st) = unit_cur (other_unit sel) st"
  "stim_type (set_unit_chunks sel cs st) = stim_type st"
  "stim_type (set_unit_cur sel k st) = stim_type st"
  "stim_dots (set_unit_chunks sel cs st) = stim_dots st"
  "stim_dots (set_unit_cur sel k st) = stim_dots st"
  "stim_pins (set_unit_chunks sel cs st) = stim_pins st"
  "stim_pins (set_unit_cur sel k st) = stim_pins st"
  "num_padding_vecs (set_unit_chunks sel cs st) = num_padding_vecs st"
  "num_padding_vecs (set_unit_cur sel k st) = num_padding_vecs st"
  "unit_chunks sel (st\<lparr>stim_dots := d\<rparr>) = unit_chunks sel st"
  "unit_num_chunks sel (st\<lparr>stim_dots := d\<rparr>) = unit_num_chunks sel st"
  "unit_cur sel (st\<lparr>stim_dots := d\<rparr>) = unit_cur sel st"
  "unit_chunks sel (st\<lparr>cur_map_byte := b\<rparr>) = unit_chunks sel st"
  "unit_num_chunks sel (st\<lparr>cur_map_byte := b\<rparr>) = unit_num_chunks sel st"
  "unit_cur sel (st\<lparr>cur_map_byte := b\<rparr>) = unit_cur sel st"
  by (cases sel; simp)+

lemma stim_num_pins_simps [simp]:
  "stim_num_pins (set_unit_chunks sel cs st) = stim_num_pins st"
  "stim_num_pins (set_unit_cur sel k st) = stim_num_pins st"
  "stim_num_pins (st\<lparr>stim_dots := d\<rparr>) = stim_num_pins st"
  "stim_num_pins (st\<lparr>cur_map_byte := b\<rparr>) = stim_num_pins st"
  by (simp_all add: stim_num_pins_def)

text \<open>The chunks of the other unit stay as they are while a unit is loaded.\<close>

definition other_kept :: "artix_selects \<Rightarrow> stim \<Rightarrow> stim \<Rightarrow> bool" where
  "other_kept sel st st' \<longleftrightarrow>
     unit_chunks (other_unit sel) st' = unit_chunks (other_unit sel) st \<and>
     unit_num_chunks (other_unit sel) st' = unit_num_chunks (other_unit sel) st \<and>
     unit_cur (other_unit sel) st' = unit_cur (other_unit sel) st"

lemma other_kept_simps [simp]:
  "other_kept sel st st"
  "other_kept sel st0 (set_unit_chunks sel cs st) = other_kept sel st0 st"
  "other_kept sel st0 (set_unit_cur sel k st) = other_kept sel st0 st"
  "other_kept sel st0 (st\<lparr>stim_dots := d\<rparr>) = other_kept sel st0 st"
  "other_kept sel st0 (st\<lparr>cur_map_byte := b\<rparr>) = other_kept sel st0 st"
  by (cases sel; simp add: other_kept_def)+

definition nop_vec :: "nat \<Rightarrow> dots_vec" where
  "nop_vec np = new_vec np (''1'', nop_vec_str np)"

lemma nop_vec_fits: "vec_fits np (nop_vec np)"
  by (auto simp: vec_fits_def nop_vec_def new_vec_def nop_vec_str_def)

text \<open>The pattern after the padding is appended.\<close>

definition padded :: "nat \<Rightarrow> dots \<Rightarrow> dots" where
  "padded p d = d\<lparr>num_dots_vecs := num_dots_vecs d + p,
     dots_vecs := dots_vecs d @ replicate p (Some (nop_vec (dots_num_pins d))),
     cur_appended_dots_vec_id := num_dots_vecs d + p\<rparr>"

lemma append_nops_full:
  assumes "dots_full d vs" and "cur_appended_dots_vec_id d = num_dots_vecs d"
  shows "append_dots_vec_by_nop_vecs d p = Inr (padded p d)"
proof -
  have "dots_wf d" using assms by (simp add: dots_wf_def dots_full_def)
  from append_nops [OF this, of p] assms(2) show ?thesis
    by (simp add: Let_def padded_def nop_vec_def)
qed

lemma pattern_ok_padded:
  assumes "pattern_ok sel np vs d"
  shows "pattern_ok sel np (vs @ replicate p (nop_vec np)) (padded p d)"
  using assms nop_vec_fits [of np] by (auto simp: pattern_ok_def dots_full_def padded_def map_replicate_const)

text \<open>
  A stimulus over a complete pattern, before the chunks of a unit are loaded. The planned chunks
  take all the vectors of the pattern and at most its padding.
\<close>

definition dots_stim :: "artix_selects \<Rightarrow> dots_vec list \<Rightarrow> dots \<Rightarrow> stim \<Rightarrow> bool" where
  "dots_stim sel vs d st \<longleftrightarrow>
     stim_type st = STIM_TYPE_DOTS \<and> stim_dots st = Some d \<and>
     pattern_ok sel (stim_num_pins st) vs d \<and>
     cur_appended_dots_vec_id d = num_dots_vecs d \<and> get_cur_dots_vec_id sel d = 0 \<and>
     unit_cur sel st = -1 \<and> unit_cur (other_unit sel) st < 0 \<and>
     unit_num_chunks sel st = length (unit_chunks sel st) \<and> unit_chunks sel st \<noteq> [] \<and>
     num_padding_vecs st < 8 \<and>
     (\<exists>nall. chunk_plan sel nall (unit_chunks sel st) \<and> nall \<le> length vs + num_padding_vecs st)"

definition chunk_offset :: "vec_chunk list \<Rightarrow> nat \<Rightarrow> nat" where
  "chunk_offset cs k = sum_list (map chunk_num_vecs (take k cs))"

lemma chunk_offset_Suc: "k < length cs \<Longrightarrow> chunk_offset cs (Suc k) = chunk_offset cs k + chunk_num_vecs (cs ! k)"
  by (simp add: chunk_offset_def take_Suc_conv_app_nth)

lemma chunk_offset_0 [simp]: "chunk_offset cs 0 = 0"
  by (simp add: chunk_offset_def)

lemma chunk_offset_mono: "k \<le> l \<Longrightarrow> chunk_offset cs k \<le> chunk_offset cs l"
proof (induction l)
  case 0
  then show ?case by simp
next
  case (Suc l)
  have "chunk_offset cs l \<le> chunk_offset cs (Suc l)"
    by (cases "l < length cs") (simp_all add: chunk_offset_Suc, simp add: chunk_offset_def)
  then show ?case using Suc by (cases "k = Suc l") auto
qed

text \<open>The vectors of chunk k, and the chunk filled with them.\<close>

definition chunk_slice :: "artix_selects \<Rightarrow> dots_vec list \<Rightarrow> stim \<Rightarrow> nat \<Rightarrow> dots_vec list" where
  "chunk_slice sel vs st k =
     take (chunk_num_vecs (unit_chunks sel st ! k))
       (drop (chunk_offset (unit_chunks sel st) k)
         (vs @ replicate (num_padding_vecs st) (nop_vec (stim_num_pins st))))"

definition filled_chunk :: "artix_selects \<Rightarrow> dots_vec list \<Rightarrow> dots \<Rightarrow> stim \<Rightarrow> nat \<Rightarrow> vec_chunk" where
  "filled_chunk sel vs d st k = (unit_chunks sel st ! k)
     \<lparr>vec_data := Some (concat (map (compile_vec sel (dots_pins d)) (chunk_slice sel vs st k))),
      cur_vec_id := chunk_num_vecs (unit_chunks sel st ! k), is_loaded := True, is_filled := True\<rparr>"

text \<open>The state before chunk k is loaded.\<close>

definition load_inv ::
    "artix_selects \<Rightarrow> dots_vec list \<Rightarrow> dots \<Rightarrow> stim \<Rightarrow> nat \<Rightarrow> stim \<Rightarrow> bool" where
  "load_inv sel vs d s0 k st \<longleftrightarrow>
     dots_stim sel vs d s0 \<and> other_kept sel s0 st \<and> stim_type st = STIM_TYPE_DOTS \<and>
     stim_num_pins st = stim_num_pins s0 \<and> num_padding_vecs st = num_padding_vecs s0 \<and>
     unit_num_chunks sel st = length (unit_chunks sel s0) \<and>
     unit_cur sel st = int k - 1 \<and> unit_cur (other_unit sel) st < 0 \<and>
     unit_chunks sel st = (if k = 0 then unit_chunks sel s0
       else (unit_chunks sel s0)[k - 1 := filled_chunk sel vs d s0 (k - 1)]) \<and>
     stim_dots st = Some (set_cur_dots_vec_id sel (chunk_offset (unit_chunks sel s0) k)
       (if k < length (unit_chunks sel s0) then d else padded (num_padding_vecs s0) d))"

text \<open>The state after the last chunk was unloaded.\<close>

definition load_done :: "artix_selects \<Rightarrow> dots_vec list \<Rightarrow> dots \<Rightarrow> stim \<Rightarrow> stim \<Rightarrow> bool" where
  "load_done sel vs d s0 st \<longleftrightarrow>
     other_kept sel s0 st \<and> stim_type st = STIM_TYPE_DOTS \<and> stim_num_pins st = stim_num_pins s0 \<and>
     num_padding_vecs st = num_padding_vecs s0 \<and>
     unit_num_chunks sel st = length (unit_chunks sel s0) \<and>
     unit_cur sel st = -1 \<and> unit_cur (other_unit sel) st < 0 \<and>
     unit_chunks sel st = unit_chunks sel s0 \<and>
     stim_dots st = Some (set_cur_dots_vec_id sel
       (chunk_offset (unit_chunks sel s0) (length (unit_chunks sel s0)))
       (padded (num_padding_vecs s0) d))"


lemma dots_stim_offsets:
  assumes "dots_stim sel vs d s0" and "k < length (unit_chunks sel s0)"
  shows "chunk_offset (unit_chunks sel s0) (Suc k) \<le> length vs + num_padding_vecs s0"
    and "Suc k < length (unit_chunks sel s0) \<Longrightarrow> chunk_offset (unit_chunks sel s0) (Suc k) \<le> length vs"
proof -
  let ?cs = "unit_chunks sel s0"
  from assms(1) obtain nall where plan: "chunk_plan sel nall ?cs" "nall \<le> length vs + num_padding_vecs s0"
    and p: "num_padding_vecs s0 < 8" by (auto simp: dots_stim_def)
  have all: "chunk_offset ?cs (length ?cs) = nall" using plan(1) by (simp add: chunk_offset_def chunk_plan_def)
  have "chunk_offset ?cs (Suc k) \<le> nall"
    using chunk_offset_mono [of "Suc k" "length ?cs" ?cs] assms(2) all by simp
  then show "chunk_offset ?cs (Suc k) \<le> length vs + num_padding_vecs s0" using plan(2) by simp
  show "chunk_offset ?cs (Suc k) \<le> length vs" if "Suc k < length ?cs"
  proof -
    let ?l = "length ?cs - 1"
    have l: "?l < length ?cs" "Suc ?l = length ?cs" using that by simp_all
    have "0 < chunk_num_vecs (?cs ! ?l)" "chunk_num_vecs (?cs ! ?l) mod 8 = 0"
      using plan(1) l(1) by (auto simp: chunk_plan_def)
    then have "8 \<le> chunk_num_vecs (?cs ! ?l)" by (auto intro: dvd_imp_le)
    moreover have "chunk_offset ?cs ?l + chunk_num_vecs (?cs ! ?l) = nall"
      using chunk_offset_Suc [OF l(1)] l(2) all by simp
    moreover have "chunk_offset ?cs (Suc k) \<le> chunk_offset ?cs ?l"
      using that by (intro chunk_offset_mono) simp
    ultimately show ?thesis using plan(2) p by linarith
  qed
qed

lemma fill_dots_chunk:
  assumes "dots_stim sel vs d s0" and "k < length (unit_chunks sel s0)"
    and "stim_type st = STIM_TYPE_DOTS" and "stim_num_pins st = stim_num_pins s0"
    and "num_padding_vecs st = num_padding_vecs s0"
    and "unit_num_chunks sel st = length (unit_chunks sel s0)"
    and "stim_dots st = Some (set_cur_dots_vec_id sel (chunk_offset (unit_chunks sel s0) k) d)"
  shows "stim_fill_chunk lz4 st (alloc_chunk (unit_chunks sel s0 ! k)) =
    Inr (st\<lparr>stim_dots := Some (set_cur_dots_vec_id sel (chunk_offset (unit_chunks sel s0) (Suc k))
        (if Suc k < length (unit_chunks sel s0) then d else padded (num_padding_vecs s0) d))\<rparr>,
      filled_chunk sel vs d s0 k)"
proof -
  let ?cs = "unit_chunks sel s0" and ?p = "num_padding_vecs s0" and ?np = "stim_num_pins s0"
  let ?c = "?cs ! k"
  define e where "e = (if Suc k < length ?cs then d else padded ?p d)"
  define ws where "ws = (if Suc k < length ?cs then vs else vs @ replicate ?p (nop_vec ?np))"
  have ok: "pattern_ok sel ?np vs d" and app: "cur_appended_dots_vec_id d = num_dots_vecs d"
    using assms(1) by (simp_all add: dots_stim_def)
  then have full: "dots_full d vs" by (simp add: pattern_ok_def)
  have sel: "sel = ARTIX_SELECT_A1 \<or> sel = ARTIX_SELECT_A2"
    using ok by (cases sel) (auto simp: pattern_ok_def)
  from assms(1) obtain nall where plan: "chunk_plan sel nall ?cs" by (auto simp: dots_stim_def)
  then have c: "chunk_id ?c = k" "chunk_select ?c = sel" "0 < chunk_num_vecs ?c"
    "vec_data_size ?c = chunk_num_vecs ?c * 128" "vec_data_size ?c \<le> STIM_CHUNK_SIZE"
    "cur_vec_id ?c = 0" "\<not> is_filled ?c" and n32: "length ?cs \<le> 32"
    using assms(2) by (auto simp: chunk_plan_def STIM_VEC_SIZE_def)
  then have small: "chunk_num_vecs ?c < 2 ^ 32" by (simp add: STIM_CHUNK_SIZE_def)
  have "sub32 (length ?cs) 1 = length ?cs - 1" using n32 assms(2) by (intro sub32_le) auto
  then have last: "is_last_chunk st (alloc_chunk ?c) = Inr (Suc k = length ?cs)"
    using sel c(1,2) assms(2,6) by (auto simp: is_last_chunk_def alloc_chunk_def)
  have pad: "(if Suc k = length ?cs
      then append_dots_vec_by_nop_vecs (set_cur_dots_vec_id sel (chunk_offset ?cs k) d) ?p
      else Inr (set_cur_dots_vec_id sel (chunk_offset ?cs k) d)) =
    Inr (set_cur_dots_vec_id sel (chunk_offset ?cs k) e)"
  proof (cases "Suc k = length ?cs")
    case True
    have "dots_full (set_cur_dots_vec_id sel (chunk_offset ?cs k) d) vs"
      "cur_appended_dots_vec_id (set_cur_dots_vec_id sel (chunk_offset ?cs k) d) =
        num_dots_vecs (set_cur_dots_vec_id sel (chunk_offset ?cs k) d)"
      using full app by (simp_all add: dots_full_def)
    from append_nops_full [OF this, of ?p] True show ?thesis
      using sel by (auto simp: e_def padded_def)
  next
    case False
    then show ?thesis using assms(2) by (simp add: e_def)
  qed
  have ok_e: "pattern_ok sel ?np ws (set_cur_dots_vec_id sel (chunk_offset ?cs k) e)"
    using ok pattern_ok_padded [OF ok] by (simp add: ws_def e_def)
  have enough: "chunk_offset ?cs k + chunk_num_vecs ?c \<le> length ws"
    using dots_stim_offsets [OF assms(1,2)] chunk_offset_Suc [OF assms(2)] assms(2)
    by (auto simp: ws_def)
  have len_ws: "num_dots_vecs (set_cur_dots_vec_id sel (chunk_offset ?cs k) e) = length ws"
    using ok_e by (simp add: pattern_ok_def dots_full_def)
  have slice: "take (chunk_num_vecs ?c) (drop (chunk_offset ?cs k) ws) = chunk_slice sel vs s0 k"
    using enough by (auto simp: ws_def chunk_slice_def)
  have pins: "dots_pins e = dots_pins d" by (simp add: e_def padded_def)
  have "fill_loop (length ws - chunk_offset ?cs k) False (chunk_offset ?cs k)
      (st, alloc_chunk ?c, set_cur_dots_vec_id sel (chunk_offset ?cs k) e) =
    Inr (st, (alloc_chunk ?c)\<lparr>vec_data := Some (take (128 * cur_vec_id (alloc_chunk ?c)) (replicate (vec_data_size ?c) 0xff) @
        concat (map (compile_vec sel (dots_pins (set_cur_dots_vec_id sel (chunk_offset ?cs k) e)))
          (take (chunk_num_vecs ?c) (drop (chunk_offset ?cs k) ws))) @
        drop (128 * (cur_vec_id (alloc_chunk ?c) + chunk_num_vecs ?c)) (replicate (vec_data_size ?c) 0xff)),
      cur_vec_id := cur_vec_id (alloc_chunk ?c) + chunk_num_vecs ?c\<rparr>,
      set_cur_dots_vec_id sel (chunk_offset ?cs k + chunk_num_vecs ?c)
        (set_cur_dots_vec_id sel (chunk_offset ?cs k) e))"
    by (rule fill_loop_run [OF ok_e])
      (use assms(4) c small enough in \<open>simp_all add: alloc_chunk_def\<close>)
  then have loop: "fill_loop (length ws - chunk_offset ?cs k) False (chunk_offset ?cs k)
      (st, alloc_chunk ?c, set_cur_dots_vec_id sel (chunk_offset ?cs k) e) =
    Inr (st, (alloc_chunk ?c)\<lparr>vec_data := Some (concat (map (compile_vec sel (dots_pins d))
        (chunk_slice sel vs s0 k))), cur_vec_id := chunk_num_vecs ?c\<rparr>,
      set_cur_dots_vec_id sel (chunk_offset ?cs (Suc k)) e)"
    using c by (simp add: alloc_chunk_def slice pins chunk_offset_Suc [OF assms(2)])
  obtain rng where "artix_range sel = Inr rng" using ok by (auto simp: pattern_ok_def)
  with loop c len_ws have by_dots: "stim_fill_chunk_by_dots st (alloc_chunk ?c)
      (set_cur_dots_vec_id sel (chunk_offset ?cs k) e) False =
    Inr (st, filled_chunk sel vs d s0 k, set_cur_dots_vec_id sel (chunk_offset ?cs (Suc k)) e)"
    by (simp add: stim_fill_chunk_by_dots_def alloc_chunk_def filled_chunk_def)
  have "\<not> is_filled (alloc_chunk ?c)" using c by (simp add: alloc_chunk_def)
  then show ?thesis
    unfolding stim_fill_chunk_def last bindR.simps assms(3) stim_types.case assms(7) option.case
      assms(5) pad by_dots split e_def [symmetric]
    by simp
qed

lemma unload_filled:
  assumes "cur_vec_id c = 0" "vec_data c = None" "\<not> is_loaded c" "\<not> is_filled c"
  shows "stim_unload_chunk (c\<lparr>vec_data := x, cur_vec_id := n, is_loaded := True, is_filled := b\<rparr>) = c"
  using assms by (cases c) (simp add: stim_unload_chunk_def)

lemma plan_pristine:
  assumes "chunk_plan sel nall cs" and "k < length cs"
  shows "cur_vec_id (cs ! k) = 0" "vec_data (cs ! k) = None" "\<not> is_loaded (cs ! k)"
    "\<not> is_filled (cs ! k)"
  using assms by (auto simp: chunk_plan_def)

text \<open>Leaving the current chunk restores the planned chunks.\<close>

lemma unload_current_inv:
  assumes "load_inv sel vs d s0 k st" and "k \<le> length (unit_chunks sel s0)"
  shows "\<exists>st'. unload_current sel st = Inr st' \<and> unit_chunks sel st' = unit_chunks sel s0 \<and>
    stim_type st' = stim_type st \<and> stim_num_pins st' = stim_num_pins st \<and>
    num_padding_vecs st' = num_padding_vecs st \<and> unit_num_chunks sel st' = unit_num_chunks sel st \<and>
    unit_cur sel st' = unit_cur sel st \<and> unit_cur (other_unit sel) st' = unit_cur (other_unit sel) st \<and>
    stim_dots st' = stim_dots st \<and> other_kept sel s0 st'"
proof (cases k)
  case 0
  then show ?thesis
    using assms(1) by (simp add: unload_current_def load_inv_def)
next
  case (Suc l)
  let ?cs = "unit_chunks sel s0"
  from assms(1) obtain nall where plan: "chunk_plan sel nall ?cs"
    by (auto simp: load_inv_def dots_stim_def)
  have l: "l < length ?cs" using assms(2) Suc by simp
  have "length ?cs \<le> 32" using plan by (simp add: chunk_plan_def)
  with l assms(1) Suc have cur: "u32_of_int (unit_cur sel st) = l" "l \<noteq> u32_of_int (-1)"
    by (simp_all add: load_inv_def)
  have chunks: "unit_chunks sel st = ?cs[l := filled_chunk sel vs d s0 l]"
    using assms(1) Suc by (simp add: load_inv_def)
  have "stim_unload_chunk (filled_chunk sel vs d s0 l) = ?cs ! l"
    unfolding filled_chunk_def by (rule unload_filled [OF plan_pristine [OF plan l]])
  then have "unload_current sel st = Inr (set_unit_chunks sel ?cs st)"
    using cur l by (simp add: unload_current_def chunks nthR_def)
  moreover have "other_kept sel s0 st" using assms(1) by (simp add: load_inv_def)
  ultimately show ?thesis by simp
qed

lemma load_more:
  assumes "load_inv sel vs d s0 k st" and "k < length (unit_chunks sel s0)"
  shows "\<exists>st'. stim_load_next_chunk lz4 st sel = Inr (Some k, st') \<and> load_inv sel vs d s0 (Suc k) st' \<and>
    unit_chunks sel st' ! k = filled_chunk sel vs d s0 k"
proof -
  let ?cs = "unit_chunks sel s0"
  from unload_current_inv [OF assms(1)] assms(2) obtain st1 where st1: "unload_current sel st = Inr st1"
    "unit_chunks sel st1 = ?cs" "stim_type st1 = stim_type st" "stim_num_pins st1 = stim_num_pins st"
    "num_padding_vecs st1 = num_padding_vecs st" "unit_num_chunks sel st1 = unit_num_chunks sel st"
    "unit_cur sel st1 = unit_cur sel st" "unit_cur (other_unit sel) st1 = unit_cur (other_unit sel) st"
    "stim_dots st1 = stim_dots st" "other_kept sel s0 st1" by auto
  have s0: "dots_stim sel vs d s0" using assms(1) by (simp add: load_inv_def)
  then have sel: "sel \<noteq> ARTIX_SELECT_NONE" "sel \<noteq> ARTIX_SELECT_BOTH"
    by (auto simp: dots_stim_def pattern_ok_def)
  from s0 have n: "0 < length ?cs" "length ?cs \<le> 32" by (auto simp: dots_stim_def chunk_plan_def)
  have sub: "sub32 (length ?cs) (Suc 0) = length ?cs - Suc 0"
    by (rule sub32_le) (use n in linarith)+
  have "next_chunk_id sel st1 = Some k"
  proof (cases k)
    case 0
    then show ?thesis using assms(1) st1 n sub
      by (auto simp: next_chunk_id_def load_inv_def wrap32_def)
  next
    case (Suc l)
    then show ?thesis using assms st1 n sub by (auto simp: next_chunk_id_def load_inv_def)
  qed
  let ?st2 = "set_unit_chunks sel (?cs[k := alloc_chunk (?cs ! k)]) (set_unit_cur sel (int k) st1)"
  let ?d' = "set_cur_dots_vec_id sel (chunk_offset ?cs (Suc k))
      (if Suc k < length ?cs then d else padded (num_padding_vecs s0) d)"
  have "stim_fill_chunk lz4 ?st2 (alloc_chunk (?cs ! k)) =
      Inr (?st2\<lparr>stim_dots := Some ?d'\<rparr>, filled_chunk sel vs d s0 k)"
    by (rule fill_dots_chunk [OF s0 assms(2)]) (use assms st1 in \<open>simp_all add: load_inv_def\<close>)
  with assms st1 sel \<open>next_chunk_id sel st1 = Some k\<close> have load:
    "stim_load_next_chunk lz4 st sel = Inr (Some k,
      set_unit_chunks sel (?cs[k := filled_chunk sel vs d s0 k]) (?st2\<lparr>stim_dots := Some ?d'\<rparr>))"
    by (simp add: stim_load_next_chunk_def load_inv_def nthR_def Let_def)
  show ?thesis
    unfolding load using assms st1 s0 by (simp add: load_inv_def)
qed

lemma load_stop:
  assumes "load_inv sel vs d s0 (length (unit_chunks sel s0)) st"
  shows "\<exists>st'. stim_load_next_chunk lz4 st sel = Inr (None, st') \<and> load_done sel vs d s0 st'"
proof -
  let ?cs = "unit_chunks sel s0"
  from unload_current_inv [OF assms order_refl] obtain st1 where st1: "unload_current sel st = Inr st1"
    "unit_chunks sel st1 = ?cs" "stim_type st1 = stim_type st" "stim_num_pins st1 = stim_num_pins st"
    "num_padding_vecs st1 = num_padding_vecs st" "unit_num_chunks sel st1 = unit_num_chunks sel st"
    "unit_cur sel st1 = unit_cur sel st" "unit_cur (other_unit sel) st1 = unit_cur (other_unit sel) st"
    "stim_dots st1 = stim_dots st" "other_kept sel s0 st1" by auto
  have s0: "dots_stim sel vs d s0" using assms(1) by (simp add: load_inv_def)
  then have sel: "sel \<noteq> ARTIX_SELECT_NONE" "sel \<noteq> ARTIX_SELECT_BOTH"
    by (auto simp: dots_stim_def pattern_ok_def)
  from s0 have n: "0 < length ?cs" "length ?cs \<le> 32" by (auto simp: dots_stim_def chunk_plan_def)
  have sub: "sub32 (length ?cs) (Suc 0) = length ?cs - Suc 0"
    by (rule sub32_le) (use n in linarith)+
  have cur: "unit_cur sel st1 = int (length ?cs - 1)"
  proof -
    have "unit_cur sel st1 = int (length ?cs) - 1" using assms st1 by (simp add: load_inv_def)
    then show ?thesis using n(1) by linarith
  qed
  have "u32_of_int (int (length ?cs - 1)) = length ?cs - 1" using n by (subst u32_of_int_nonneg) auto
  then have "next_chunk_id sel st1 = None"
    using assms st1 sub unfolding next_chunk_id_def cur by (simp add: load_inv_def)
  then show ?thesis
    using assms st1 sel n by (simp add: stim_load_next_chunk_def load_inv_def load_done_def)
qed

text \<open>The next chunk itself, as the clients of the loop see it.\<close>

definition next_chunk ::
    "lz4_decompressor \<Rightarrow> artix_selects \<Rightarrow> stim \<Rightarrow> (vec_chunk option \<times> stim) res" where
  "next_chunk lz4 sel stim =
     bindR (stim_load_next_chunk lz4 stim sel) (\<lambda>(r, stim).
       case r of
         None \<Rightarrow> Inr (None, stim)
       | Some k \<Rightarrow> bindR (nthR (unit_chunks sel stim) k) (\<lambda>c. Inr (Some c, stim)))"

interpretation dots_chunks: item_source "next_chunk lz4 sel" "load_inv sel vs d s0"
  "filled_chunk sel vs d s0" "length (unit_chunks sel s0)" "load_done sel vs d s0"
  for lz4 sel vs d s0
proof (unfold_locales)
  fix k st
  assume inv: "load_inv sel vs d s0 k st" and k: "k < length (unit_chunks sel s0)"
  from load_more [OF this] obtain st' where st': "stim_load_next_chunk lz4 st sel = Inr (Some k, st')"
    "load_inv sel vs d s0 (Suc k) st'" "unit_chunks sel st' ! k = filled_chunk sel vs d s0 k" by blast
  have "length (unit_chunks sel st') = length (unit_chunks sel s0)"
    using st'(2) by (simp add: load_inv_def)
  with st' k show "\<exists>st'. next_chunk lz4 sel st = Inr (Some (filled_chunk sel vs d s0 k), st') \<and>
      load_inv sel vs d s0 (Suc k) st'"
    by (simp add: next_chunk_def nthR_def)
next
  fix st assume "load_inv sel vs d s0 (length (unit_chunks sel s0)) st"
  from load_stop [OF this, of lz4] show "\<exists>st'. next_chunk lz4 sel st = Inr (None, st') \<and> load_done sel vs d s0 st'"
    by (auto simp: next_chunk_def)
qed


section \<open>From a pattern to its chunks\<close>

text \<open>A vector as it is appended: one character per pin after the first.\<close>

definition vec_plain :: "nat \<Rightarrow> dots_vec \<Rightarrow> bool" where
  "vec_plain np v \<longleftrightarrow> \<not> is_expanded v \<and> dv_subvecs v = None \<and> num_subvecs v = np \<and>
     (\<exists>s. vec_str v = Some s \<and> length s = Suc np)"

lemma clocked_fits: "vec_plain np v \<Longrightarrow> vec_fits np (clocked v)"
  by (auto simp: vec_plain_def vec_fits_def clocked_def length_Suc_conv)

lemma dots_stim_created:
  assumes st: "get_stim_by_dots profile dots = Inr st"
    and full: "dots_full dots vs" and plain: "\<forall>v\<in>set vs. vec_plain (dots_num_pins dots) v"
    and np: "length (dots_pins dots) = dots_num_pins dots" "dots_num_pins dots < 2 ^ 16"
    and app: "cur_appended_dots_vec_id dots = num_dots_vecs dots"
    and sel: "get_artix_select_by_profile_pins (dots_pins dots) = Inr asel" "sel = ARTIX_SELECT_A1 \<or> sel = ARTIX_SELECT_A2" "sel \<le> asel"
    and pins: "artix_range sel = Inr rng" "unit_pins_ok rng (dots_pins dots)"
  shows "\<exists>d. dots_pins d = dots_pins dots \<and> stim_num_pins st = dots_num_pins dots \<and>
    dots_stim sel (map clocked vs) d st \<and>
    chunk_offset (unit_chunks sel st) (length (unit_chunks sel st)) = length vs + num_padding_vecs st"
proof -
  let ?reset = "dots\<lparr>cur_a1_dots_vec_id := 0, cur_a2_dots_vec_id := 0\<rparr>"
  let ?d = "?reset\<lparr>dots_vecs := map (\<lambda>v. Some (clocked v)) vs\<rparr>"
  have full0: "dots_full ?reset vs" using full by (simp add: dots_full_def)
  have ok: "\<forall>v\<in>set vs. vec_ok v"
    using plain np(2) by (fastforce simp: vec_plain_def vec_ok_def)
  have count: "get_num_unrolled_dots_vecs ?reset = Inr (sum_list (map vec_weight vs) mod 2 ^ 64, ?d)"
    using num_unrolled [OF full0 ok] by simp
  have init: "init_stim (create_stim\<lparr>stim_profile := Some profile, stim_type := STIM_TYPE_DOTS,
      stim_dots := Some ?d\<rparr>) (dots_pins dots) (length vs) (sum_list (map vec_weight vs) mod 2 ^ 64) = Inr st"
    using st full unfolding get_stim_by_dots_def Let_def count
    by (simp add: dots_full_def split: if_splits)
  from init_stim_parts [OF init] np have parts: "stim_type st = STIM_TYPE_DOTS" "stim_dots st = Some ?d"
    "cur_a1_vec_chunk_id st = -1" "cur_a2_vec_chunk_id st = -1" "0 < length vs"
    "mapR copy_stim_pin (dots_pins dots) = Inr (stim_pins st)"
    by (auto simp: create_stim_def)
  have num: "stim_num_pins st = dots_num_pins dots"
    using mapR_length [OF parts(6)] np(1) by (simp add: stim_num_pins_def)
  have "asel \<noteq> ARTIX_SELECT_NONE" using sel(2,3) by (auto simp: less_eq_artix_selects_def)
  from init_plan [OF init] sel(1) have plan: "num_padding_vecs st < 8"
    "num_a1_vec_chunks st = length (a1_vec_chunks st)" "num_a2_vec_chunks st = length (a2_vec_chunks st)"
    "1 \<in> sel_units asel \<Longrightarrow> chunk_plan ARTIX_SELECT_A1 (length vs + num_padding_vecs st) (a1_vec_chunks st)"
    "2 \<in> sel_units asel \<Longrightarrow> chunk_plan ARTIX_SELECT_A2 (length vs + num_padding_vecs st) (a2_vec_chunks st)"
    by auto
  have chunks: "chunk_plan sel (length vs + num_padding_vecs st) (unit_chunks sel st)"
    "unit_num_chunks sel st = length (unit_chunks sel st)"
    using sel(2,3) plan by (auto simp: less_eq_artix_selects_def)
  then have off: "chunk_offset (unit_chunks sel st) (length (unit_chunks sel st)) =
      length vs + num_padding_vecs st" by (simp add: chunk_plan_def chunk_offset_def)
  then have "unit_chunks sel st \<noteq> []" using parts(5) by auto
  moreover have "pattern_ok sel (stim_num_pins st) (map clocked vs) ?d"
    using full np pins plain clocked_fits by (auto simp: pattern_ok_def dots_full_def num o_def)
  ultimately have "dots_stim sel (map clocked vs) ?d st"
    using parts(1-4) app chunks plan(1) sel(2) full
    by (auto simp: dots_stim_def dots_full_def)
  with num off show ?thesis by (intro exI [of _ ?d]) simp
qed

text \<open>The bytes a client collects that appends the data of each chunk.\<close>

definition collect_chunk :: "vec_chunk \<Rightarrow> u8 list \<Rightarrow> u8 list res" where
  "collect_chunk c out = bindR (derefR (vec_data c)) (\<lambda>bs. Inr (out @ bs))"

lemma collect_filled:
  "foldR collect_chunk (map (filled_chunk sel vs d s0) ks) out =
    Inr (out @ concat (map (compile_vec sel (dots_pins d)) (concat (map (chunk_slice sel vs s0) ks))))"
  by (induction ks arbitrary: out) (simp_all add: collect_chunk_def filled_chunk_def)

lemma slices_concat:
  "k \<le> length (unit_chunks sel s0) \<Longrightarrow> concat (map (chunk_slice sel vs s0) [0..<k]) =
    take (chunk_offset (unit_chunks sel s0) k)
      (vs @ replicate (num_padding_vecs s0) (nop_vec (stim_num_pins s0)))"
proof (induction k)
  case 0
  then show ?case by simp
next
  case (Suc k)
  then have "concat (map (chunk_slice sel vs s0) [0..<Suc k]) =
      take (chunk_offset (unit_chunks sel s0) k)
        (vs @ replicate (num_padding_vecs s0) (nop_vec (stim_num_pins s0))) @ chunk_slice sel vs s0 k"
    by simp
  also have "\<dots> = take (chunk_offset (unit_chunks sel s0) (Suc k))
      (vs @ replicate (num_padding_vecs s0) (nop_vec (stim_num_pins s0)))"
    using Suc.prems by (simp only: chunk_slice_def chunk_offset_Suc Suc_le_eq take_add)
  finally show ?case .
qed

lemma dots_stim_load_inv: "dots_stim sel vs d s0 \<Longrightarrow> load_inv sel vs d s0 0 s0"
  by (auto simp: dots_stim_def load_inv_def) (metis set_cur_simps(8))

text \<open>The units a stimulus is loaded into, one after the other, and the chunks they deliver.\<close>

fun select_units :: "artix_selects \<Rightarrow> artix_selects list" where
  "select_units ARTIX_SELECT_NONE = []"
| "select_units ARTIX_SELECT_A1 = [ARTIX_SELECT_A1]"
| "select_units ARTIX_SELECT_A2 = [ARTIX_SELECT_A2]"
| "select_units ARTIX_SELECT_BOTH = [ARTIX_SELECT_A1, ARTIX_SELECT_A2]"

fun serves :: "lz4_decompressor \<Rightarrow> artix_selects list \<Rightarrow> stim \<Rightarrow> vec_chunk list list \<Rightarrow> bool" where
  "serves lz4 [] st css \<longleftrightarrow> css = []"
| "serves lz4 (u # us) st css \<longleftrightarrow> (\<exists>cs css' st'. css = cs # css' \<and> length cs = unit_num_chunks u st \<and>
     yields (next_chunk lz4 u) st cs st' \<and> (\<forall>w. unit_num_chunks w st' = unit_num_chunks w st) \<and>
     serves lz4 us st' css')"

text \<open>The size of a chunk, and of its data once it is filled.\<close>

lemma filled_chunk_bytes:
  assumes "dots_stim sel vs d s0" and "k < length (unit_chunks sel s0)"
  shows "length (concat (map (compile_vec sel (dots_pins d)) (chunk_slice sel vs s0 k))) =
      vec_data_size (filled_chunk sel vs d s0 k)"
    and "vec_data_size (filled_chunk sel vs d s0 k) mod 1024 = 0"
    and "0 < vec_data_size (filled_chunk sel vs d s0 k)"
    and "vec_data_size (filled_chunk sel vs d s0 k) \<le> STIM_CHUNK_SIZE"
proof -
  let ?c = "unit_chunks sel s0 ! k" and ?all = "vs @ replicate (num_padding_vecs s0) (nop_vec (stim_num_pins s0))"
  from assms have c: "0 < chunk_num_vecs ?c" "chunk_num_vecs ?c mod 8 = 0"
    "vec_data_size ?c = chunk_num_vecs ?c * 128" "vec_data_size ?c \<le> STIM_CHUNK_SIZE"
    by (auto simp: dots_stim_def chunk_plan_def STIM_VEC_SIZE_def)
  have ok: "pattern_ok sel (stim_num_pins s0) vs d" using assms(1) by (simp add: dots_stim_def)
  have "chunk_offset (unit_chunks sel s0) (Suc k) \<le> length ?all"
    using dots_stim_offsets(1) [OF assms] by simp
  then have "length (chunk_slice sel vs s0 k) = chunk_num_vecs ?c"
    using assms(2) by (simp add: chunk_slice_def chunk_offset_Suc)
  moreover have "set (chunk_slice sel vs s0 k) \<subseteq> set ?all"
    unfolding chunk_slice_def by (meson set_drop_subset set_take_subset subset_trans)
  moreover have "length (compile_vec sel (dots_pins d) v) = 128" if "v \<in> set ?all" for v
    using compile_vec_ok(1) [OF pattern_ok_padded [OF ok, of "num_padding_vecs s0"] that]
    by (simp add: padded_def)
  ultimately have "map length (map (compile_vec sel (dots_pins d)) (chunk_slice sel vs s0 k)) =
      replicate (chunk_num_vecs ?c) 128"
    by (intro nth_equalityI) (auto simp: subset_iff)
  then have "length (concat (map (compile_vec sel (dots_pins d)) (chunk_slice sel vs s0 k))) =
      chunk_num_vecs ?c * 128"
    by (simp only: length_concat sum_list_replicate) simp
  with c(3) show "length (concat (map (compile_vec sel (dots_pins d)) (chunk_slice sel vs s0 k))) =
      vec_data_size (filled_chunk sel vs d s0 k)" by (simp add: filled_chunk_def)
  obtain q where "chunk_num_vecs ?c = 8 * q" using c(2) by (metis mod_0_imp_dvd dvdE)
  with c show "vec_data_size (filled_chunk sel vs d s0 k) mod 1024 = 0"
    "0 < vec_data_size (filled_chunk sel vs d s0 k)"
    "vec_data_size (filled_chunk sel vs d s0 k) \<le> STIM_CHUNK_SIZE"
    by (simp_all add: filled_chunk_def)
qed

text \<open>A chunk that is completely filled with whole bursts, and the bytes of such chunks.\<close>

definition whole_chunk :: "vec_chunk \<Rightarrow> bool" where
  "whole_chunk c \<longleftrightarrow>
     (\<exists>bs. vec_data c = Some bs \<and> length bs = vec_data_size c) \<and> vec_data_size c mod 1024 = 0 \<and>
     0 < vec_data_size c \<and> vec_data_size c \<le> STIM_CHUNK_SIZE"

definition chunks_bytes :: "vec_chunk list \<Rightarrow> u8 list" where
  "chunks_bytes cs = concat (map (\<lambda>c. the (vec_data c)) cs)"

lemma chunks_bytes_simps [simp]:
  "chunks_bytes [] = []" "chunks_bytes (cs @ ds) = chunks_bytes cs @ chunks_bytes ds"
  "chunks_bytes (c # cs) = the (vec_data c) @ chunks_bytes cs"
  by (simp_all add: chunks_bytes_def)

lemma filled_chunk_whole:
  assumes "dots_stim sel vs d s0" and "k < length (unit_chunks sel s0)"
  shows "whole_chunk (filled_chunk sel vs d s0 k)"
  using filled_chunk_bytes [OF assms] by (simp add: whole_chunk_def filled_chunk_def)

lemma filled_chunks_bytes:
  "chunks_bytes (map (filled_chunk sel vs d s0) ks) =
    concat (map (compile_vec sel (dots_pins d)) (concat (map (chunk_slice sel vs s0) ks)))"
  by (induction ks) (simp_all add: filled_chunk_def)


text \<open>The chunks a unit of a stimulus delivers, and their bytes.\<close>

lemma dots_stim_yields:
  assumes "dots_stim sel vs d s0"
  shows "\<exists>st. yields (next_chunk lz4 sel) s0 (map (filled_chunk sel vs d s0) [0..<length (unit_chunks sel s0)]) st \<and>
    load_done sel vs d s0 st"
  using dots_chunks.yields_from [OF dots_stim_load_inv [OF assms] le0] .

lemma dots_stim_bytes:
  assumes "chunk_offset (unit_chunks sel s0) (length (unit_chunks sel s0)) = length vs + num_padding_vecs s0"
  shows "chunks_bytes (map (filled_chunk sel vs d s0) [0..<length (unit_chunks sel s0)]) =
    concat (map (compile_vec sel (dots_pins d))
      (vs @ replicate (num_padding_vecs s0) (nop_vec (stim_num_pins s0))))"
  unfolding filled_chunks_bytes slices_concat [OF order_refl] assms by simp

lemma load_all:
  assumes "dots_stim sel vs d s0"
    and "chunk_offset (unit_chunks sel s0) (length (unit_chunks sel s0)) = length vs + num_padding_vecs s0"
  shows "\<exists>st. drain (Suc (unit_num_chunks sel s0)) (next_chunk lz4 sel) collect_chunk s0 [] =
      Inr (st, concat (map (compile_vec sel (dots_pins d))
        (vs @ replicate (num_padding_vecs s0) (nop_vec (stim_num_pins s0))))) \<and>
    load_done sel vs d s0 st"
proof -
  let ?cs = "map (filled_chunk sel vs d s0) [0..<length (unit_chunks sel s0)]"
  from dots_stim_yields [OF assms(1)] obtain st where st: "yields (next_chunk lz4 sel) s0 ?cs st"
    "load_done sel vs d s0 st" by blast
  have "unit_num_chunks sel s0 = length ?cs" using assms(1) by (simp add: dots_stim_def)
  moreover have "foldR collect_chunk ?cs [] = Inr (chunks_bytes ?cs)"
    by (simp add: collect_filled filled_chunks_bytes)
  ultimately have "drain (Suc (unit_num_chunks sel s0)) (next_chunk lz4 sel) collect_chunk s0 [] =
      Inr (st, chunks_bytes ?cs)" using drain_yields [OF st(1), of "Suc (unit_num_chunks sel s0)" collect_chunk "[]"] by simp
  with st(2) show ?thesis unfolding dots_stim_bytes [OF assms(2)] by blast
qed

text \<open>When both units hold a pattern, the second one still delivers its chunks after the first was
  loaded: the counters of the units are separate, and the padding that the first unit appended is
  what the second one reads.\<close>

lemma slice_padded:
  assumes "chunk_offset (unit_chunks sel s0) (Suc k) \<le> length vs + num_padding_vecs s0"
    and "k < length (unit_chunks sel s0)"
    and "unit_chunks sel st = unit_chunks sel s0" and "num_padding_vecs st = num_padding_vecs s0"
    and "stim_num_pins st = stim_num_pins s0"
  shows "chunk_slice sel (vs @ replicate (num_padding_vecs s0) (nop_vec (stim_num_pins s0))) st k =
    chunk_slice sel vs s0 k"
  using assms by (simp add: chunk_slice_def chunk_offset_Suc)

lemma second_unit:
  assumes first: "dots_stim ARTIX_SELECT_A1 vs d s0" and second: "dots_stim ARTIX_SELECT_A2 vs d s0"
    and finished: "load_done ARTIX_SELECT_A1 vs d s0 st"
  shows "\<exists>vs' d'. dots_stim ARTIX_SELECT_A2 vs' d' st \<and> unit_chunks ARTIX_SELECT_A2 st = unit_chunks ARTIX_SELECT_A2 s0 \<and>
    (\<forall>k<length (unit_chunks ARTIX_SELECT_A2 s0).
      filled_chunk ARTIX_SELECT_A2 vs' d' st k = filled_chunk ARTIX_SELECT_A2 vs d s0 k)"
proof -
  let ?A1 = ARTIX_SELECT_A1 and ?A2 = ARTIX_SELECT_A2 and ?p = "num_padding_vecs s0" and ?np = "stim_num_pins s0"
  let ?vs = "vs @ replicate ?p (nop_vec ?np)"
  let ?d = "set_cur_dots_vec_id ?A1 (chunk_offset (unit_chunks ?A1 s0) (length (unit_chunks ?A1 s0))) (padded ?p d)"
  note fin = finished [unfolded load_done_def]
  have kept: "unit_chunks ?A2 st = unit_chunks ?A2 s0" "unit_num_chunks ?A2 st = unit_num_chunks ?A2 s0"
    "unit_cur ?A2 st = unit_cur ?A2 s0" using fin by (simp_all add: other_kept_def)
  have ok: "pattern_ok ?A2 ?np vs d" using second by (simp add: dots_stim_def)
  from second obtain nall where plan: "chunk_plan ?A2 nall (unit_chunks ?A2 s0)" "nall \<le> length vs + ?p"
    by (auto simp: dots_stim_def)
  have "pattern_ok ?A2 ?np ?vs ?d" using pattern_ok_padded [OF ok, of ?p] by (simp add: pattern_ok_def dots_full_def)
  moreover have "cur_appended_dots_vec_id ?d = num_dots_vecs ?d" using second by (simp add: dots_stim_def padded_def)
  moreover have "get_cur_dots_vec_id ?A2 ?d = 0" using second by (simp add: dots_stim_def padded_def)
  ultimately have "dots_stim ?A2 ?vs ?d st"
    using fin second kept plan by (auto simp: dots_stim_def)
  moreover have "filled_chunk ?A2 ?vs ?d st k = filled_chunk ?A2 vs d s0 k" if "k < length (unit_chunks ?A2 s0)" for k
    using slice_padded [OF dots_stim_offsets(1) [OF second that] that kept(1)] fin kept(1)
    by (simp add: filled_chunk_def padded_def)
  ultimately show ?thesis using kept(1) by blast
qed

lemma servesI:
  assumes "yields (next_chunk lz4 u) st cs st'" and "\<And>w. unit_num_chunks w st' = unit_num_chunks w st"
    and "length cs = unit_num_chunks u st" and "serves lz4 us st' css"
  shows "serves lz4 (u # us) st (cs # css)"
  using assms by auto

lemma load_done_nums:
  assumes "dots_stim u vs d s0" and "load_done u vs d s0 st"
  shows "unit_num_chunks w st = unit_num_chunks w s0"
  using assms by (cases u; cases w) (simp_all add: dots_stim_def load_done_def other_kept_def pattern_ok_def)

lemma dots_units_serve:
  assumes "\<forall>u\<in>set (select_units asel). dots_stim u vs d st"
  shows "serves lz4 (select_units asel) st
    (map (\<lambda>u. map (filled_chunk u vs d st) [0..<length (unit_chunks u st)]) (select_units asel))"
proof -
  have one: "\<exists>st'. yields (next_chunk lz4 u) st (map (filled_chunk u vs d st) [0..<length (unit_chunks u st)]) st' \<and>
      (\<forall>w. unit_num_chunks w st' = unit_num_chunks w st)" and num: "unit_num_chunks u st = length (unit_chunks u st)"
    if "dots_stim u vs d st" for u vs d st
    using dots_stim_yields [OF that] load_done_nums [OF that] that by (blast, simp add: dots_stim_def)
  let ?A1 = ARTIX_SELECT_A1 and ?A2 = ARTIX_SELECT_A2
  show ?thesis
  proof (cases asel)
    case ARTIX_SELECT_BOTH
    with assms have units: "dots_stim ?A1 vs d st" "dots_stim ?A2 vs d st" by simp_all
    from dots_stim_yields [OF units(1)] obtain st1 where
      1: "yields (next_chunk lz4 ?A1) st (map (filled_chunk ?A1 vs d st) [0..<length (unit_chunks ?A1 st)]) st1"
        "load_done ?A1 vs d st st1" by blast
    from second_unit [OF units 1(2)] obtain vs' d' where
      2: "dots_stim ?A2 vs' d' st1" "unit_chunks ?A2 st1 = unit_chunks ?A2 st"
        "\<forall>k<length (unit_chunks ?A2 st). filled_chunk ?A2 vs' d' st1 k = filled_chunk ?A2 vs d st k" by blast
    have "map (filled_chunk ?A2 vs' d' st1) [0..<length (unit_chunks ?A2 st1)] =
        map (filled_chunk ?A2 vs d st) [0..<length (unit_chunks ?A2 st)]" unfolding 2(2) using 2(3) by simp
    with one [OF 2(1)] obtain st2 where
      3: "yields (next_chunk lz4 ?A2) st1 (map (filled_chunk ?A2 vs d st) [0..<length (unit_chunks ?A2 st)]) st2"
        "\<forall>w. unit_num_chunks w st2 = unit_num_chunks w st1" by metis
    have "serves lz4 [?A2] st1 [map (filled_chunk ?A2 vs d st) [0..<length (unit_chunks ?A2 st)]]"
      by (rule servesI [OF 3(1)]) (use 3(2) num [OF 2(1)] 2(2) in auto)
    from servesI [OF 1(1) load_done_nums [OF units(1) 1(2)] _ this] num [OF units(1)] ARTIX_SELECT_BOTH
    show ?thesis by simp
  next
    case ARTIX_SELECT_A1
    with assms have u: "dots_stim ?A1 vs d st" by simp
    show ?thesis using one [OF u] num [OF u] ARTIX_SELECT_A1 by auto
  next
    case ARTIX_SELECT_A2
    with assms have u: "dots_stim ?A2 vs d st" by simp
    show ?thesis using one [OF u] num [OF u] ARTIX_SELECT_A2 by auto
  qed simp
qed

text \<open>The stimulus of a pattern on all its units.\<close>

lemma dots_units_created:
  assumes "get_stim_by_dots profile dots = Inr st"
    and "dots_full dots vs" and "\<forall>v\<in>set vs. vec_plain (dots_num_pins dots) v"
    and "length (dots_pins dots) = dots_num_pins dots" and "dots_num_pins dots < 2 ^ 16"
    and "cur_appended_dots_vec_id dots = num_dots_vecs dots"
    and "get_artix_select_by_profile_pins (dots_pins dots) = Inr asel"
    and "\<forall>u\<in>set (select_units asel). \<forall>rng. artix_range u = Inr rng \<longrightarrow> unit_pins_ok rng (dots_pins dots)"
  shows "\<exists>d. dots_pins d = dots_pins dots \<and> (\<forall>u\<in>set (select_units asel).
    stim_num_pins st = dots_num_pins dots \<and> dots_stim u (map clocked vs) d st \<and>
    chunk_offset (unit_chunks u st) (length (unit_chunks u st)) = length (map clocked vs) + num_padding_vecs st)"
proof -
  have unit: "\<exists>d. dots_pins d = dots_pins dots \<and> stim_dots st = Some d \<and> stim_num_pins st = dots_num_pins dots \<and>
      dots_stim u (map clocked vs) d st \<and>
      chunk_offset (unit_chunks u st) (length (unit_chunks u st)) = length (map clocked vs) + num_padding_vecs st"
    if u: "u \<in> set (select_units asel)" for u
  proof -
    have sel: "u = ARTIX_SELECT_A1 \<or> u = ARTIX_SELECT_A2" "u \<le> asel"
      using u by (cases asel; auto simp: less_eq_artix_selects_def)+
    then obtain rng where rng: "artix_range u = Inr rng" by fastforce
    with assms(8) u have "unit_pins_ok rng (dots_pins dots)" by blast
    from dots_stim_created [OF assms(1-7) sel rng this] show ?thesis by (auto simp: dots_stim_def)
  qed
  show ?thesis
  proof (cases "select_units asel")
    case Nil
    then show ?thesis by auto
  next
    case (Cons u us)
    with unit [of u] obtain d where "dots_pins d = dots_pins dots" "stim_dots st = Some d" by auto
    with unit show ?thesis by fastforce
  qed
qed

text \<open>C5. Loading a unit's chunks one after the other, until there are none left, yields the whole
  compiled pattern: the bytes of all chunks in order are the compiled vectors of the pattern, in
  order and each exactly once, followed by the NOP vectors that complete the last burst. No
  load fails, and one more load than there are chunks is enough.\<close>

theorem pattern_loads_completely:
  assumes "get_stim_by_dots profile dots = Inr st"
    and "dots_full dots vs" and "\<forall>v\<in>set vs. vec_plain (dots_num_pins dots) v"
    and "length (dots_pins dots) = dots_num_pins dots" and "dots_num_pins dots < 2 ^ 16"
    and "cur_appended_dots_vec_id dots = num_dots_vecs dots"
    and "get_artix_select_by_profile_pins (dots_pins dots) = Inr asel"
    and "sel = ARTIX_SELECT_A1 \<or> sel = ARTIX_SELECT_A2" and "sel \<le> asel"
    and "artix_range sel = Inr rng" and "unit_pins_ok rng (dots_pins dots)"
  shows "\<exists>st'. drain (Suc (unit_num_chunks sel st)) (next_chunk lz4 sel) collect_chunk st [] =
    Inr (st', concat (map (compile_vec sel (dots_pins dots))
      (map clocked vs @ replicate (num_padding_vecs st) (nop_vec (dots_num_pins dots)))))"
proof -
  from dots_stim_created [OF assms] obtain d where d: "dots_pins d = dots_pins dots"
    "stim_num_pins st = dots_num_pins dots" "dots_stim sel (map clocked vs) d st"
    "chunk_offset (unit_chunks sel st) (length (unit_chunks sel st)) =
      length (map clocked vs) + num_padding_vecs st" by auto
  from load_all [OF d(3,4)] d(1,2) show ?thesis by auto
qed


lemma sample_stim_on:
  assumes pins: "get_artix_select_by_profile_pins [data_pin i, data_pin j] = Inr sel" and sel: "sel \<noteq> ARTIX_SELECT_NONE"
    and ids: "0 \<le> i" "0 \<le> j"
  shows "\<exists>st. get_stim_by_dots config_profile (sample_dots\<lparr>dots_pins := [data_pin i, data_pin j]\<rparr>) = Inr st"
proof -
  let ?vs = "[new_vec 2 (''3'', ''V01''), new_vec 2 (''1'', ''VCX'')]"
  let ?dots = "sample_dots\<lparr>dots_pins := [data_pin i, data_pin j]\<rparr>"
  let ?reset = "?dots\<lparr>cur_a1_dots_vec_id := 0, cur_a2_dots_vec_id := 0\<rparr>"
  have full: "dots_full ?dots ?vs" using sample_dots_full by (simp add: dots_full_def)
  then have "dots_full ?reset ?vs" by (simp add: dots_full_def)
  moreover have "\<forall>v\<in>set ?vs. vec_ok v" by (simp add: vec_ok_def new_vec_def)
  ultimately have count: "get_num_unrolled_dots_vecs ?reset =
      Inr (5, ?reset\<lparr>dots_vecs := map (\<lambda>v. Some (clocked v)) ?vs\<rparr>)"
    using num_unrolled [of ?reset ?vs] by (simp add: vec_weight_def clocked_def new_vec_def sample_repeats)
  have slots: "dots_num_pins sample_dots = 2" "num_dots_vecs sample_dots = 2"
    "None \<notin> set (dots_vecs ?dots)" "dots_pins ?dots = [data_pin i, data_pin j]"
    by (simp_all add: sample_dots_def)
  have copies: "copy_stim_pin (data_pin i) = Inr (data_pin i)" "copy_stim_pin (data_pin j) = Inr (data_pin j)"
    using ids by (simp add: copy_stim_pin_def copy_pin_wf, simp add: data_pin_def)+
  have "\<exists>st. init_stim (create_stim\<lparr>stim_profile := Some config_profile, stim_type := STIM_TYPE_DOTS,
      stim_dots := Some d\<rparr>) [data_pin i, data_pin j] 2 5 = Inr st" for d
    unfolding init_stim_def pins using sel copies
    by (cases sel) (simp_all add: stim_sizes calc_num_padding_vecs_def
        num_vec_chunks_def vecs_per_chunk_def last_chunk_partial_def create_chunk_pair_def create_vec_chunk_def)
  then show ?thesis
    using slots by (simp add: get_stim_by_dots_def Let_def count take_all full [unfolded dots_full_def]
        numeral_2_eq_2)
qed

lemma sample_stim:
  "\<exists>st. get_stim_by_dots config_profile sample_dots = Inr st"
proof -
  have "sample_dots\<lparr>dots_pins := [data_pin 0, data_pin 1]\<rparr> = sample_dots" by (simp add: sample_dots_def)
  moreover have "get_artix_select_by_profile_pins [data_pin 0, data_pin 1] = Inr ARTIX_SELECT_A1"
    by (simp add: get_artix_select_by_profile_pins_def get_artix_select_by_profile_pin_def data_pin_def)
  ultimately show ?thesis using sample_stim_on [of 0 1 ARTIX_SELECT_A1] by simp
qed

lemma pattern_loads_completely_witness:
  "\<exists>st st'. get_stim_by_dots config_profile sample_dots = Inr st \<and>
    drain (Suc (num_a1_vec_chunks st)) (next_chunk (\<lambda>_ _. None) ARTIX_SELECT_A1) collect_chunk st [] =
      Inr (st', concat (map (compile_vec ARTIX_SELECT_A1 [data_pin 0, data_pin 1])
        (map clocked [new_vec 2 (''3'', ''V01''), new_vec 2 (''1'', ''VCX'')] @
          replicate (num_padding_vecs st) (nop_vec 2))))"
proof -
  from sample_stim obtain st where st: "get_stim_by_dots config_profile sample_dots = Inr st" ..
  have pins: "get_artix_select_by_profile_pins [data_pin 0, data_pin 1] = Inr ARTIX_SELECT_A1"
    by (simp add: get_artix_select_by_profile_pins_def get_artix_select_by_profile_pin_def data_pin_def)
  have rng: "artix_range ARTIX_SELECT_A1 = Inr (0, 199)" by (simp add: DUT_NUM_PINS_def)
  have ids: "unit_ids (0, 199) [data_pin 0, data_pin 1] = [0, 1]"
    by (simp add: unit_ids_def in_range_def data_pin_def upt_rec)
  have ok: "unit_pins_ok (0, 199) (dots_pins sample_dots)"
    by (simp add: sample_dots_def unit_pins_ok_def ids) (simp add: pin_io_def data_pin_def)
  have plain: "\<forall>v\<in>set [new_vec 2 (''3'', ''V01''), new_vec 2 (''1'', ''VCX'')].
      vec_plain (dots_num_pins sample_dots) v"
    by (simp add: vec_plain_def new_vec_def sample_dots_def)
  from pattern_loads_completely [OF st sample_dots_full plain _ _ _ _ _ _ rng ok, of ARTIX_SELECT_A1
      "\<lambda>_ _. None"] st pins show ?thesis
    by (auto simp: sample_dots_def)
qed

section \<open>Enabling the pins of a unit\<close>

lemma enable_pins_run:
  assumes "length e = 1024" and "hi < 400"
  shows "\<exists>e'. foldR (enable_pin (lo, hi)) ps e = Inr e' \<and> length e' = 1024 \<and>
    (\<forall>j<1024. e' ! j = (if j \<in> (\<lambda>p. pin_io p mod 200) ` {p\<in>set ps. in_range lo hi p} then 0 else e ! j))"
  using assms(1)
proof (induction ps arbitrary: e)
  case Nil
  then show ?case by simp
next
  case (Cons p ps)
  show ?case
  proof (cases "in_range lo hi p")
    case False
    with Cons.IH [OF Cons.prems] show ?thesis by (auto simp: enable_pin_def)
  next
    case True
    let ?k = "pin_io p mod 200"
    have k: "?k < 200" by simp
    then have "?k mod 256 = ?k" by simp
    then have step: "enable_pin (lo, hi) p e = Inr (e[?k := 0])"
      using True Cons.prems k by (simp add: enable_pin_def updR_def pin_io_def DUT_NUM_PINS_def)
    have "length (e[?k := 0]) = 1024" using Cons.prems by simp
    from Cons.IH [OF this] obtain e' where e': "foldR (enable_pin (lo, hi)) ps (e[?k := 0]) = Inr e'"
      "length e' = 1024"
      "\<forall>j<1024. e' ! j = (if j \<in> (\<lambda>p. pin_io p mod 200) ` {p\<in>set ps. in_range lo hi p} then 0
        else e[?k := 0] ! j)" by blast
    have "e' ! j = (if j \<in> (\<lambda>p. pin_io p mod 200) ` {q\<in>set (p # ps). in_range lo hi q} then 0 else e ! j)"
      if "j < 1024" for j
      using e'(3) that True Cons.prems by (cases "j = ?k") (auto simp: image_iff)
    with e' step show ?thesis by simp
  qed
qed

lemma enable_pins_total:
  assumes "artix_range sel = Inr (lo, hi)"
  shows "\<exists>e. stim_get_enable_pins_data stim sel = Inr e \<and> length e = BURST_BYTES"
proof -
  let ?e = "replicate 256 0xff @ replicate (BURST_BYTES - 256) 0x00 :: u8 list"
  have "length ?e = 1024" "hi < 400" and sel: "sel = ARTIX_SELECT_A1 \<or> sel = ARTIX_SELECT_A2"
    using assms by (cases sel; auto simp: BURST_BYTES_def DUT_NUM_PINS_def DUT_TOTAL_NUM_PINS_def)+
  from enable_pins_run [OF this(1,2), of lo "stim_pins stim"] obtain e where
    "foldR (enable_pin (lo, hi)) (stim_pins stim) ?e = Inr e" "length e = 1024" by blast
  with sel assms show ?thesis by (auto simp: stim_get_enable_pins_data_def BURST_BYTES_def)
qed

text \<open>The enable bytes of a unit: byte k of the first 256 is 0 exactly when a pin of the stimulus
  sits at position k of the unit and \<^verbatim>\<open>0xff\<close> otherwise; the rest of the burst is 0. No pin of the
  other unit has an effect.\<close>

theorem enable_pins_spec:
  assumes "artix_range sel = Inr (lo, hi)"
  shows "\<exists>e. stim_get_enable_pins_data stim sel = Inr e \<and> length e = BURST_BYTES \<and>
    (\<forall>j<1024. e ! j = (if \<exists>p\<in>set (stim_pins stim). in_range lo hi p \<and> pin_io p mod 200 = j then 0
      else if j < 256 then 0xff else 0))"
proof -
  let ?e = "replicate 256 0xff @ replicate (BURST_BYTES - 256) 0x00 :: u8 list"
  have len: "length ?e = 1024" by (simp add: BURST_BYTES_def)
  have hi: "hi < 400" and sel: "sel = ARTIX_SELECT_A1 \<or> sel = ARTIX_SELECT_A2"
    using assms by (cases sel; auto simp: DUT_NUM_PINS_def DUT_TOTAL_NUM_PINS_def)+
  from enable_pins_run [OF len hi, of lo "stim_pins stim"] obtain e where
    e: "foldR (enable_pin (lo, hi)) (stim_pins stim) ?e = Inr e" "length e = 1024"
    "\<forall>j<1024. e ! j = (if j \<in> (\<lambda>p. pin_io p mod 200) ` {p\<in>set (stim_pins stim). in_range lo hi p}
      then 0 else ?e ! j)" by blast
  have "stim_get_enable_pins_data stim sel = Inr e"
    using sel assms e(1) by (auto simp: stim_get_enable_pins_data_def)
  moreover have "e ! j = (if \<exists>p\<in>set (stim_pins stim). in_range lo hi p \<and> pin_io p mod 200 = j then 0
      else if j < 256 then 0xff else 0)" if "j < 1024" for j
  proof -
    have "?e ! j = (if j < 256 then 0xff else 0)"
      using that by (simp add: nth_append BURST_BYTES_def)
    then show ?thesis using e(3) that by (auto simp: image_iff)
  qed
  ultimately show ?thesis using e(2) by (auto simp: BURST_BYTES_def)
qed

lemma enable_pins_spec_witness:
  "\<exists>e. stim_get_enable_pins_data (create_stim\<lparr>stim_pins := [data_pin 3, data_pin 207]\<rparr>) ARTIX_SELECT_A2 = Inr e \<and>
    e ! 7 = 0 \<and> e ! 3 = 0xff"
proof -
  have rng: "artix_range ARTIX_SELECT_A2 = Inr (200, 399)"
    by (simp add: DUT_NUM_PINS_def DUT_TOTAL_NUM_PINS_def)
  let ?stim = "create_stim\<lparr>stim_pins := [data_pin 3, data_pin 207]\<rparr>"
  from enable_pins_spec [OF rng, of ?stim] obtain e where e:
    "stim_get_enable_pins_data ?stim ARTIX_SELECT_A2 = Inr e"
    "\<forall>j<1024. e ! j = (if \<exists>p\<in>set (stim_pins ?stim). in_range 200 399 p \<and> pin_io p mod 200 = j then 0
      else if j < 256 then 0xff else 0)" by blast
  then show ?thesis
    by (intro exI [of _ e]) (simp add: in_range_def pin_io_def data_pin_def)
qed

end
