(* ===== verification/Stim_Faults.thy ===== *)
theory Stim_Faults
  imports Stim_Fill
begin

text \<open>
  What the filling of a stimulus does not do: a pattern is compiled in the first pass over the
  chunks of a unit only, and a bitstream is never compiled.
\<close>

section \<open>Loading the first chunk of a pattern again\<close>

lemma is_last_unit:
  assumes "sel = ARTIX_SELECT_A1 \<or> sel = ARTIX_SELECT_A2" and "chunk_select c = sel"
  shows "is_last_chunk st c = Inr (chunk_id c = sub32 (unit_num_chunks sel st) 1)"
  using assms by (auto simp: is_last_chunk_def)

lemma compile_nop_length:
  assumes "pattern_ok sel np vs d"
  shows "length (compile_vec sel (dots_pins d) (nop_vec np)) = 128"
  using compile_vec_ok(1) [OF pattern_ok_padded [OF assms, of 1], of "nop_vec np"]
  by (simp add: padded_def)

text \<open>C35. Once all chunks of a unit were loaded, the next call does not compile the pattern again: the first
  chunk, which it loads a second time, holds no vector of the pattern, but only bytes
  \<^verbatim>\<open>0xff\<close>, after the padding NOPs when it is also the last chunk. The cursor of the pattern is
  never reset.\<close>

theorem second_pass_is_empty:
  assumes "dots_stim sel vs d s0" and "load_done sel vs d s0 st"
    and "chunk_offset (unit_chunks sel s0) (length (unit_chunks sel s0)) = length vs + num_padding_vecs s0"
  shows "\<exists>st'. stim_load_next_chunk lz4 st sel = Inr (Some 0, st') \<and>
    vec_data (unit_chunks sel st' ! 0) =
      Some (concat (replicate (if length (unit_chunks sel s0) = 1 then num_padding_vecs s0 else 0)
          (compile_vec sel (dots_pins d) (nop_vec (stim_num_pins s0)))) @
        replicate (vec_data_size (unit_chunks sel s0 ! 0) -
          128 * (if length (unit_chunks sel s0) = 1 then num_padding_vecs s0 else 0)) 0xff)"
proof -
  let ?cs = "unit_chunks sel s0" and ?p = "num_padding_vecs s0" and ?np = "stim_num_pins s0"
  let ?c = "?cs ! 0" and ?T = "length vs + num_padding_vecs s0"
  let ?e = "set_cur_dots_vec_id sel ?T (padded ?p d)"
  define q where "q = (if length ?cs = 1 then ?p else 0)"
  define f where "f = (if length ?cs = 1 then padded ?p ?e else ?e)"
  define ws where "ws = vs @ replicate (?p + q) (nop_vec ?np)"
  have ok: "pattern_ok sel ?np vs d" and p8: "?p < 8" using assms(1) by (simp_all add: dots_stim_def)
  have sel: "sel = ARTIX_SELECT_A1 \<or> sel = ARTIX_SELECT_A2"
    using ok by (cases sel) (auto simp: pattern_ok_def)
  obtain nall where plan: "chunk_plan sel nall ?cs" using assms(1) by (auto simp: dots_stim_def)
  have n: "0 < length ?cs" "length ?cs \<le> 32" using assms(1) plan by (auto simp: dots_stim_def chunk_plan_def)
  have c: "chunk_id ?c = 0" "chunk_select ?c = sel" "0 < chunk_num_vecs ?c" "chunk_num_vecs ?c mod 8 = 0"
    "vec_data_size ?c = chunk_num_vecs ?c * 128" "vec_data_size ?c \<le> STIM_CHUNK_SIZE"
    "cur_vec_id ?c = 0" "\<not> is_filled ?c"
    using plan n(1) by (auto simp: chunk_plan_def STIM_VEC_SIZE_def)
  have "8 \<le> chunk_num_vecs ?c" using c(3,4) by (auto intro: dvd_imp_le)
  with p8 have q: "q \<le> chunk_num_vecs ?c" by (simp add: q_def)
  have small: "chunk_num_vecs ?c < 2 ^ 32" using c(5,6) by (simp add: STIM_CHUNK_SIZE_def)
  have ok1: "pattern_ok sel ?np (vs @ replicate ?p (nop_vec ?np)) ?e" using pattern_ok_padded [OF ok] by simp
  have app: "cur_appended_dots_vec_id ?e = num_dots_vecs ?e" using sel by (auto simp: padded_def)
  have ok2: "pattern_ok sel ?np ws f"
    using ok1 pattern_ok_padded [OF ok1, of ?p] by (auto simp: ws_def f_def q_def replicate_add)
  have cur: "get_cur_dots_vec_id sel f = ?T" using sel by (auto simp: f_def padded_def)
  have pins: "dots_pins f = dots_pins d" using sel by (auto simp: f_def padded_def)
  have pad: "(if length ?cs = 1 then append_dots_vec_by_nop_vecs ?e ?p else Inr ?e) = Inr f"
    using append_nops_full [OF _ app, of "vs @ replicate ?p (nop_vec ?np)" ?p] ok1
    by (auto simp: pattern_ok_def f_def)
  let ?st1 = "set_unit_chunks sel (?cs[0 := alloc_chunk ?c])
    (set_unit_cur sel 0 (st\<lparr>cur_map_byte := start_map_byte st\<rparr>))"
  have sub: "sub32 (length ?cs) (Suc 0) = length ?cs - Suc 0"
    by (rule sub32_le) (use n in linarith)+
  have "chunk_select (alloc_chunk ?c) = sel" using c(2) by (simp add: alloc_chunk_def)
  from is_last_unit [OF sel this, of ?st1] have "is_last_chunk ?st1 (alloc_chunk ?c) =
      Inr (0 = length ?cs - Suc 0)"
    using c(1) sub assms(2) by (simp add: alloc_chunk_def load_done_def)
  moreover have "(0 = length ?cs - Suc 0) = (length ?cs = 1)" using n(1) by linarith
  ultimately have last: "is_last_chunk ?st1 (alloc_chunk ?c) = Inr (length ?cs = 1)" by (simp only:)
  have "length ?cs - Suc 0 \<noteq> 4294967295" using n by linarith
  then have nxt: "next_chunk_id sel (st\<lparr>cur_map_byte := start_map_byte st\<rparr>) = Some 0"
    using sub assms(2) by (simp add: load_done_def next_chunk_id_def wrap32_def)
  let ?data = "concat (replicate q (compile_vec sel (dots_pins d) (nop_vec ?np))) @
      replicate (vec_data_size ?c - 128 * q) 0xff"
  have "fill_loop (length ws - ?T) False ?T (?st1, alloc_chunk ?c, f) =
    Inr (?st1, (alloc_chunk ?c)\<lparr>vec_data := Some (take (128 * cur_vec_id (alloc_chunk ?c)) (replicate (vec_data_size ?c) 0xff) @
        concat (map (compile_vec sel (dots_pins f)) (take q (drop ?T ws))) @
        drop (128 * (cur_vec_id (alloc_chunk ?c) + q)) (replicate (vec_data_size ?c) 0xff)),
      cur_vec_id := cur_vec_id (alloc_chunk ?c) + q\<rparr>, set_cur_dots_vec_id sel (?T + q) f)"
    by (rule fill_loop_run [OF ok2])
      (use c small q cur assms(2) in \<open>simp_all add: alloc_chunk_def ws_def load_done_def\<close>)
  then have loop: "fill_loop (length ws - ?T) False ?T (?st1, alloc_chunk ?c, f) =
    Inr (?st1, (alloc_chunk ?c)\<lparr>vec_data := Some ?data, cur_vec_id := q\<rparr>, set_cur_dots_vec_id sel (?T + q) f)"
    using c by (simp add: alloc_chunk_def pins ws_def)
  have len: "num_dots_vecs f = length ws" using ok2 by (simp add: pattern_ok_def dots_full_def)
  obtain rng where "artix_range sel = Inr rng" using ok by (auto simp: pattern_ok_def)
  then have "\<exists>c' f'. stim_fill_chunk_by_dots ?st1 (alloc_chunk ?c) f False = Inr (?st1, c', f') \<and>
      vec_data c' = Some ?data"
    using loop c cur len by (simp add: stim_fill_chunk_by_dots_def alloc_chunk_def)
  then obtain c' f' where by_dots:
    "stim_fill_chunk_by_dots ?st1 (alloc_chunk ?c) f False = Inr (?st1, c', f')" "vec_data c' = Some ?data"
    by blast
  have type: "stim_type ?st1 = STIM_TYPE_DOTS" and dots: "stim_dots ?st1 = Some ?e"
    and padding: "num_padding_vecs ?st1 = ?p" and empty: "\<not> is_filled (alloc_chunk ?c)"
    using assms(2,3) c by (simp_all add: load_done_def alloc_chunk_def)
  have "stim_fill_chunk lz4 ?st1 (alloc_chunk ?c) = Inr (?st1\<lparr>stim_dots := Some f'\<rparr>, c')"
    unfolding stim_fill_chunk_def last bindR.simps type stim_types.case dots option.case padding pad
      by_dots(1) split
    using empty by simp
  then have "stim_load_next_chunk lz4 st sel = Inr (Some 0,
      set_unit_chunks sel (?cs[0 := c']) (?st1\<lparr>stim_dots := Some f'\<rparr>))"
    using sel assms(2) nxt n
    by (auto simp: stim_load_next_chunk_def load_done_def unload_current_def nthR_def Let_def)
  then show ?thesis using by_dots(2) [unfolded q_def] n by simp
qed


text \<open>The state of the sample stimulus after its only pass.\<close>

lemma second_pass_is_empty_witness:
  "\<exists>vs d s0 st st' size. get_stim_by_dots config_profile sample_dots = Inr s0 \<and>
    load_done ARTIX_SELECT_A1 vs d s0 st \<and>
    stim_load_next_chunk (\<lambda>_ _. None) st ARTIX_SELECT_A1 = Inr (Some 0, st') \<and>
    vec_data (unit_chunks ARTIX_SELECT_A1 st' ! 0) =
      Some (concat (replicate (if length (unit_chunks ARTIX_SELECT_A1 s0) = 1 then num_padding_vecs s0 else 0)
          (compile_vec ARTIX_SELECT_A1 (dots_pins d) (nop_vec (stim_num_pins s0)))) @
        replicate size 0xff)"
proof -
  from sample_stim obtain s0 where s0: "get_stim_by_dots config_profile sample_dots = Inr s0" ..
  have sel: "get_artix_select_by_profile_pins (dots_pins sample_dots) = Inr ARTIX_SELECT_A1"
    by (simp add: sample_dots_def get_artix_select_by_profile_pins_def
        get_artix_select_by_profile_pin_def data_pin_def)
  have rng: "artix_range ARTIX_SELECT_A1 = Inr (0, 199)" by (simp add: DUT_NUM_PINS_def)
  have "unit_ids (0, 199) [data_pin 0, data_pin 1] = [0, 1]"
    by (simp add: unit_ids_def in_range_def data_pin_def upt_rec)
  then have ok: "unit_pins_ok (0, 199) (dots_pins sample_dots)"
    by (simp add: sample_dots_def unit_pins_ok_def) (simp add: pin_io_def data_pin_def)
  have plain: "\<forall>v\<in>set [new_vec 2 (''3'', ''V01''), new_vec 2 (''1'', ''VCX'')].
      vec_plain (dots_num_pins sample_dots) v"
    by (simp add: vec_plain_def new_vec_def sample_dots_def)
  have misc: "length (dots_pins sample_dots) = dots_num_pins sample_dots"
    "dots_num_pins sample_dots < 2 ^ 16" "cur_appended_dots_vec_id sample_dots = num_dots_vecs sample_dots"
    by (simp_all add: sample_dots_def)
  from dots_stim_created [OF s0 sample_dots_full plain misc sel _ order_refl rng ok] obtain d where
    d: "dots_stim ARTIX_SELECT_A1 (map clocked [new_vec 2 (''3'', ''V01''), new_vec 2 (''1'', ''VCX'')]) d s0"
    "chunk_offset (unit_chunks ARTIX_SELECT_A1 s0) (length (unit_chunks ARTIX_SELECT_A1 s0)) =
      length (map clocked [new_vec 2 (''3'', ''V01''), new_vec 2 (''1'', ''VCX'')]) + num_padding_vecs s0"
    by auto
  from load_all [OF d, of "\<lambda>_ _. None"] obtain st where
    "load_done ARTIX_SELECT_A1 (map clocked [new_vec 2 (''3'', ''V01''), new_vec 2 (''1'', ''VCX'')]) d s0 st"
    by blast
  from second_pass_is_empty [OF d(1) this d(2), of "\<lambda>_ _. None"] this s0 show ?thesis by blast
qed

section \<open>Bitstreams\<close>

lemma fill_vec_config_dies:
  assumes "dots_full dots vs" and "cur < length vs" and "dots_num_pins dots = 39"
    and "\<exists>s. vs ! cur = new_vec 39 s \<and> length (snd s) = 7"
  shows "\<exists>e. fill_vec False cur (stim, chunk, dots) = Inl e"
proof -
  from assms(4) obtain s where s: "vs ! cur = new_vec 39 s" "length (snd s) = 7" by blast
  then have "expand_dots_vec_subvecs dots (vs ! cur) None 0 = Inl Bad_count"
    using assms(3) by (simp add: expand_dots_vec_subvecs_def new_vec_def split_beta Let_def)
  moreover have "bindR (nthR (dots_vecs dots) cur) nonnullR = Inr (vs ! cur)"
    using assms(1,2) by (simp add: dots_full_def nthR_def)
  ultimately show ?thesis
    unfolding fill_vec_def split by (simp add: next_data_subvecs_def)
qed

lemma fill_loop_dies:
  assumes "0 < fuel" and "cur < num_dots_vecs dots" and "cur_vec_id chunk < chunk_num_vecs chunk"
    and "fill_vec body cur (stim, chunk, dots) = Inl e"
  shows "fill_loop fuel body cur (stim, chunk, dots) = Inl e"
  using assms by (cases fuel) simp_all

text \<open>C36. A stimulus made from a bitstream cannot be filled: the first vector of the configuration
  header never expands, so filling the first chunk ends the process whatever the bitstream and the
  profile are.\<close>

theorem bitstream_never_fills:
  assumes "stim_type stim \<in> {STIM_TYPE_RBT, STIM_TYPE_BIN, STIM_TYPE_BIT}"
    and "stim_profile stim = Some profile" and "profile_wf profile"
    and "chunk_id chunk = 0" and "cur_vec_id chunk < chunk_num_vecs chunk"
  shows "\<exists>e. stim_fill_chunk lz4 stim chunk = Inl e"
proof -
  have "\<exists>e. fill_config CONFIG_TYPE_HEADER 1 0 (stim, chunk) = Inl e"
  proof (cases "create_config profile CONFIG_TYPE_HEADER 1")
    case (Inl e)
    then show ?thesis using assms(2) by (simp add: fill_config_def)
  next
    case (Inr c)
    let ?vs = "map (new_vec 39) (config_vecs CONFIG_TYPE_HEADER 1)"
    have small: "1 * length (table_vecs (config_table CONFIG_TYPE_HEADER)) < 2 ^ 32"
      by (simp add: config_table_def config_header_def)
    note created = config_created [OF Inr assms(3) small]
    have full: "dots_full (config_dots c) ?vs" using created by (elim conjE exE) assumption
    have np: "dots_num_pins (config_dots c) = 39" using created by (elim conjE exE) assumption
    have "cur_a1_dots_vec_id (config_dots c) = 0 \<and> cur_a2_dots_vec_id (config_dots c) = 0"
      using created by (elim conjE) (intro conjI)
    then have cur: "get_cur_dots_vec_id (chunk_select chunk) (config_dots c) = 0"
      by (cases "chunk_select chunk") auto
    have vs: "length ?vs = 8" "?vs ! 0 = new_vec 39 (''5'', ''011111X'')"
      by (simp_all add: config_vecs_def config_table_def config_header_def)
    have "\<exists>s. ?vs ! 0 = new_vec 39 s \<and> length (snd s) = 7"
      unfolding vs(2) by (intro exI [of _ "(''5'', ''011111X'')"]) simp
    moreover have "0 < length ?vs" unfolding vs(1) by simp
    ultimately have "\<exists>e. fill_vec False 0 (stim, chunk, config_dots c) = Inl e"
      by (intro fill_vec_config_dies [OF full _ np])
    then obtain e where "fill_vec False 0 (stim, chunk, config_dots c) = Inl e" ..
    moreover have "0 < num_dots_vecs (config_dots c)" using full vs by (simp add: dots_full_def)
    ultimately have "fill_loop (num_dots_vecs (config_dots c)) False 0 (stim, chunk, config_dots c) = Inl e"
      using assms(5) by (intro fill_loop_dies) simp_all
    then have "\<exists>e. stim_fill_chunk_by_dots stim chunk (config_dots c) False = Inl e"
      using cur
      by (cases "artix_range (chunk_select chunk)") (auto simp: stim_fill_chunk_by_dots_def)
    then show ?thesis using Inr assms(2) by (auto simp: fill_config_def)
  qed
  then show ?thesis
    using assms(1,4) by (cases "is_last_chunk stim chunk") (auto simp: stim_fill_chunk_def fill_bitstream_def)
qed


lemma bitstream_never_fills_witness:
  "\<exists>c e. create_vec_chunk 0 ARTIX_SELECT_A1 16 = Inr c \<and>
    stim_fill_chunk (\<lambda>_ _. None) (create_stim\<lparr>stim_type := STIM_TYPE_BIN,
      stim_profile := Some config_profile\<rparr>) c = Inl e"
proof -
  have wf: "profile_wf config_profile" using config_profile_complete by (simp add: config_complete_def)
  obtain c where c: "create_vec_chunk 0 ARTIX_SELECT_A1 16 = Inr c" "chunk_id c = 0"
    "cur_vec_id c < chunk_num_vecs c" by (simp add: create_vec_chunk_def)
  from bitstream_never_fills [OF _ _ wf c(2,3), of "create_stim\<lparr>stim_type := STIM_TYPE_BIN,
      stim_profile := Some config_profile\<rparr>" "\<lambda>_ _. None"] c(1) show ?thesis by auto
qed

end
