(* ===== verification/Board.thy ===== *)
theory Board
  imports Profile
begin

text \<open>
  The board below the test units: the interface of the kernel driver (board/driver.h), the requests
  to the subcore (board/subcore.c) and the DMA transfers through the memory that is shared with the
  driver (board/dma.c), as they are built for the tester (not for the simulator).

  The driver is not part of the repository, so it is a parameter: a function that answers a request,
  given everything that was requested before. That history is part of the state; it is all that a
  deterministic driver can depend on, and it is what the properties of the protocol are about.
\<close>

section \<open>The interface of the driver\<close>

datatype subcore_states = SUBCORE_IDLE | SUBCORE_PAUSED | CONFIG_SETUP | CONFIG_LOAD | CONFIG_WAIT
  | AGENT_STARTUP | SETUP_BURST | SETUP_WRITE | SETUP_READ | SETUP_CLEANUP | CTRL_WRITE | CTRL_READ
  | CTRL_RUN | DMA_WRITE | DMA_READ | GPIO_DNA

datatype agent_states = AGENT_INIT | AGENT_IDLE | AGENT_PAUSED | STATUS | BURST_LOAD | GVPU_LOAD
  | GVPU_RUN | GVPU_WRITE | GVPU_READ | GVPU_STATUS | GVPU_RESET

fun agent_code :: "agent_states \<Rightarrow> u32" where
  "agent_code AGENT_INIT = 0x0"
| "agent_code AGENT_IDLE = 0x1"
| "agent_code AGENT_PAUSED = 0x2"
| "agent_code STATUS = 0x3"
| "agent_code BURST_LOAD = 0x4"
| "agent_code GVPU_LOAD = 0x5"
| "agent_code GVPU_RUN = 0x6"
| "agent_code GVPU_WRITE = 0x7"
| "agent_code GVPU_READ = 0x8"
| "agent_code GVPU_STATUS = 0x9"
| "agent_code GVPU_RESET = 0xA"

datatype gvpu_states = GVPU_IDLE | GVPU_PAUSED | MEM_BURST | MEM_LOAD | MEM_RUN | MEM_WRITE | MEM_READ
  | MEM_TEST | TEST_INIT | TEST_SETUP | TEST_RUN | TEST_FAIL_PINS | TEST_CLEANUP

fun gvpu_code :: "gvpu_states \<Rightarrow> u32" where
  "gvpu_code GVPU_IDLE = 0x0"
| "gvpu_code GVPU_PAUSED = 0x1"
| "gvpu_code MEM_BURST = 0x2"
| "gvpu_code MEM_LOAD = 0x3"
| "gvpu_code MEM_RUN = 0x4"
| "gvpu_code MEM_WRITE = 0x5"
| "gvpu_code MEM_READ = 0x6"
| "gvpu_code MEM_TEST = 0x7"
| "gvpu_code TEST_INIT = 0x8"
| "gvpu_code TEST_SETUP = 0x9"
| "gvpu_code TEST_RUN = 0xA"
| "gvpu_code TEST_FAIL_PINS = 0xB"
| "gvpu_code TEST_CLEANUP = 0xC"

datatype memcore_states = MEMCORE_IDLE | MEMCORE_PAUSED | MEMCORE_SETUP_BURST | MEMCORE_WRITE_BURST
  | MEMCORE_READ_BURST

fun memcore_code :: "memcore_states \<Rightarrow> u32" where
  "memcore_code MEMCORE_IDLE = 0"
| "memcore_code MEMCORE_PAUSED = 1"
| "memcore_code MEMCORE_SETUP_BURST = 2"
| "memcore_code MEMCORE_WRITE_BURST = 3"
| "memcore_code MEMCORE_READ_BURST = 4"

record gcore_cfg =
  subcore_state :: subcore_states
  cfg_select :: artix_selects

record gcore_registers =
  control :: u32
  status :: u32
  reg_addr :: u32
  reg_data :: u32
  a1_status :: u32
  a2_status :: u32

record gcore_ctrl_packet =
  rank_select :: u32
  packet_addr :: u32
  packet_data :: u32

datatype gcore_direction = GCORE_MEM_TO_DEV | GCORE_DEV_TO_MEM | GCORE_TRANS_NONE

record gcore_userdev =
  tx_chan :: u32
  tx_cmp :: u32
  rx_chan :: u32
  rx_cmp :: u32

record gcore_chan_cfg =
  cfg_chan :: u32
  cfg_dir :: gcore_direction
  buf_offset :: nat
  buf_size :: nat
  completion :: u32
  cookie :: u32

record gcore_transfer =
  tr_chan :: u32
  tr_completion :: u32
  tr_cookie :: u32
  tr_wait :: bool
  wait_time_msecs :: nat
  tr_buf_size :: nat

text \<open>The requests, each with the structure that its \<^verbatim>\<open>ioctl\<close> passes.\<close>

datatype request =
    GCORE_REGS_READ
  | GCORE_USERDEVS_READ
  | GCORE_SUBCORE_LOAD gcore_cfg
  | GCORE_SUBCORE_RUN
  | GCORE_SUBCORE_IDLE
  | GCORE_SUBCORE_STATE
  | GCORE_SUBCORE_RESET
  | GCORE_ARTIX_SYNC gcore_ctrl_packet
  | GCORE_CTRL_WRITE gcore_ctrl_packet
  | GCORE_CTRL_READ gcore_ctrl_packet
  | GCORE_DMA_CONFIG gcore_chan_cfg
  | GCORE_DMA_PREP gcore_chan_cfg
  | GCORE_DMA_START gcore_transfer
  | GCORE_DMA_STOP u32

text \<open>
  An answer: the value \<^verbatim>\<open>ioctl\<close> returns, and what the driver stores into the structure that was
  passed, by its type. \<open>rx_data\<close> is what a receive transfer writes into the shared memory.
\<close>

record reply =
  ret :: int
  out_regs :: gcore_registers
  out_userdev :: gcore_userdev
  out_packet :: gcore_ctrl_packet
  out_cfg :: gcore_chan_cfg
  rx_data :: "nat \<Rightarrow> u8"

text \<open>A request is recorded with the content of the shared memory at that moment.\<close>

type_synonym history = "(request \<times> u8 list) list"
type_synonym driver = "history \<Rightarrow> reply"

text \<open>The static variables of board/dev.c and board/dma.c, and the history.\<close>

record board =
  hist :: history
  gcore_map :: "u8 list"
  alloc_offset :: nat
  userdev :: gcore_userdev
  rx_config :: gcore_chan_cfg
  tx_config :: gcore_chan_cfg
  is_rx_prepared :: bool
  is_tx_prepared :: bool

section \<open>Operations on the board\<close>

type_synonym 'a io = "board \<Rightarrow> ('a \<times> board) res"

definition returnB :: "'a \<Rightarrow> 'a io" where
  "returnB x = (\<lambda>st. Inr (x, st))"

definition failB :: "fault \<Rightarrow> 'a io" where
  "failB e = (\<lambda>st. Inl e)"

definition liftB :: "'a res \<Rightarrow> 'a io" where
  "liftB r = (\<lambda>st. bindR r (\<lambda>x. Inr (x, st)))"

definition bindB :: "'a io \<Rightarrow> ('a \<Rightarrow> 'b io) \<Rightarrow> 'b io" where
  "bindB m f = (\<lambda>st. bindR (m st) (\<lambda>(x, st). f x st))"

definition getB :: "(board \<Rightarrow> 'a) \<Rightarrow> 'a io" where
  "getB f = (\<lambda>st. Inr (f st, st))"

definition modifyB :: "(board \<Rightarrow> board) \<Rightarrow> unit io" where
  "modifyB f = (\<lambda>st. Inr ((), f st))"

text \<open>A sequence of statements, and a loop that threads a value.\<close>

fun doB :: "unit io list \<Rightarrow> unit io" where
  "doB [] = returnB ()"
| "doB (m # ms) = bindB m (\<lambda>_. doB ms)"

fun foldB :: "('a \<Rightarrow> 's \<Rightarrow> 's io) \<Rightarrow> 'a list \<Rightarrow> 's \<Rightarrow> 's io" where
  "foldB f [] s = returnB s"
| "foldB f (x # xs) s = bindB (f x s) (foldB f xs)"

definition whenB :: "bool \<Rightarrow> unit io \<Rightarrow> unit io" where
  "whenB b m = (if b then m else returnB ())"

text \<open>
  A request whose return value the caller compares with a test \<open>bad\<close>; the file descriptor is always
  valid, since \<^verbatim>\<open>gcore_dev_get_fd\<close> returns an unsigned byte and the comparison with -1 is never true.
\<close>

definition ioctl :: "driver \<Rightarrow> (int \<Rightarrow> bool) \<Rightarrow> request \<Rightarrow> reply io" where
  "ioctl drv bad r = (\<lambda>st.
     let h = hist st @ [(r, gcore_map st)]; a = drv h in
     if bad (ret a) then Inl Device_failure else Inr (a, st\<lparr>hist := h\<rparr>))"

definition ioctl_neg :: "driver \<Rightarrow> request \<Rightarrow> reply io" where
  "ioctl_neg drv = ioctl drv (\<lambda>n. n < 0)"

definition ioctl_nz :: "driver \<Rightarrow> request \<Rightarrow> reply io" where
  "ioctl_nz drv = ioctl drv (\<lambda>n. n \<noteq> 0)"

definition voidB :: "'a io \<Rightarrow> unit io" where
  "voidB m = bindB m (\<lambda>_. returnB ())"

section \<open>Subcore\<close>

definition subcore_load :: "driver \<Rightarrow> gcore_cfg \<Rightarrow> unit io" where
  "subcore_load drv gcfg = voidB (ioctl_neg drv (GCORE_SUBCORE_LOAD gcfg))"

definition subcore_run :: "driver \<Rightarrow> unit io" where
  "subcore_run drv = voidB (ioctl_neg drv GCORE_SUBCORE_RUN)"

definition subcore_idle :: "driver \<Rightarrow> unit io" where
  "subcore_idle drv = voidB (ioctl_neg drv GCORE_SUBCORE_IDLE)"

definition subcore_get_regs :: "driver \<Rightarrow> gcore_registers io" where
  "subcore_get_regs drv = bindB (ioctl_neg drv GCORE_REGS_READ) (\<lambda>a. returnB (out_regs a))"

definition subcore_mode_state :: "driver \<Rightarrow> u32 io" where
  "subcore_mode_state drv =
     bindB (ioctl_neg drv GCORE_SUBCORE_STATE) (\<lambda>_.
     bindB (subcore_get_regs drv) (\<lambda>regs. returnB (reg_data regs)))"

definition subcore_reset :: "driver \<Rightarrow> unit io" where
  "subcore_reset drv = voidB (ioctl_neg drv GCORE_SUBCORE_RESET)"

definition subcore_write_packet :: "driver \<Rightarrow> gcore_ctrl_packet \<Rightarrow> unit io" where
  "subcore_write_packet drv packet = voidB (ioctl_neg drv (GCORE_CTRL_WRITE packet))"

definition subcore_read_packet :: "driver \<Rightarrow> gcore_ctrl_packet \<Rightarrow> gcore_ctrl_packet io" where
  "subcore_read_packet drv packet =
     bindB (ioctl_neg drv (GCORE_CTRL_READ packet)) (\<lambda>a. returnB (out_packet a))"

definition subcore_artix_sync :: "driver \<Rightarrow> bool \<Rightarrow> unit io" where
  "subcore_artix_sync drv sync =
     voidB (ioctl_neg drv (GCORE_ARTIX_SYNC
       \<lparr>rank_select = 0, packet_addr = 0, packet_data = (if sync then 1 else 0)\<rparr>))"

section \<open>DMA\<close>

definition BUS_IN_BYTES :: nat where "BUS_IN_BYTES = 8"
definition BUS_BURST :: nat where "BUS_BURST = 16"
definition DMA_SIZE :: nat where "DMA_SIZE = 8384512"

datatype gcore_wait = GCORE_WAIT_NONE | GCORE_WAIT_TX | GCORE_WAIT_RX | GCORE_WAIT_BOTH

definition wait_tx :: "gcore_wait \<Rightarrow> bool" where
  "wait_tx w \<longleftrightarrow> w = GCORE_WAIT_TX \<or> w = GCORE_WAIT_BOTH"

definition wait_rx :: "gcore_wait \<Rightarrow> bool" where
  "wait_rx w \<longleftrightarrow> w = GCORE_WAIT_RX \<or> w = GCORE_WAIT_BOTH"

text \<open>A pointer into the shared memory is its offset; the size is rounded up to bus bursts.\<close>

definition gcore_dma_calc_offset :: "nat \<Rightarrow> nat" where
  "gcore_dma_calc_offset ptr = wrap32 ptr"

definition gcore_dma_calc_size :: "nat \<Rightarrow> nat \<Rightarrow> nat" where
  "gcore_dma_calc_size len byte_num =
     (let block = BUS_IN_BYTES * BUS_BURST; len = len * byte_num in
      if len mod block \<noteq> 0 then len + (block - len mod block) else len)"

definition gcore_dma_alloc :: "nat \<Rightarrow> nat \<Rightarrow> nat io" where
  "gcore_dma_alloc len byte_num =
     bindB (getB alloc_offset) (\<lambda>ptr.
     bindB (modifyB (\<lambda>st. st\<lparr>alloc_offset := wrap32 (alloc_offset st + gcore_dma_calc_size len byte_num)\<rparr>))
       (\<lambda>_. returnB ptr))"

definition gcore_dma_alloc_reset :: "unit io" where
  "gcore_dma_alloc_reset = modifyB (\<lambda>st. st\<lparr>alloc_offset := 0\<rparr>)"

definition config_tx :: "driver \<Rightarrow> nat \<Rightarrow> nat \<Rightarrow> unit io" where
  "config_tx drv tx_ptr tx_size =
     bindB (getB (\<lambda>st. (tx_config st)\<lparr>cfg_chan := tx_chan (userdev st),
       buf_offset := gcore_dma_calc_offset tx_ptr, buf_size := wrap32 tx_size,
       cfg_dir := GCORE_MEM_TO_DEV\<rparr>)) (\<lambda>c.
     bindB (ioctl_neg drv (GCORE_DMA_CONFIG c)) (\<lambda>a. modifyB (\<lambda>st. st\<lparr>tx_config := out_cfg a\<rparr>)))"

definition config_rx :: "driver \<Rightarrow> nat \<Rightarrow> nat \<Rightarrow> unit io" where
  "config_rx drv rx_ptr rx_size =
     bindB (getB (\<lambda>st. (rx_config st)\<lparr>cfg_chan := rx_chan (userdev st),
       buf_offset := gcore_dma_calc_offset rx_ptr, buf_size := wrap32 rx_size,
       cfg_dir := GCORE_DEV_TO_MEM\<rparr>)) (\<lambda>c.
     bindB (ioctl_neg drv (GCORE_DMA_CONFIG c)) (\<lambda>a. modifyB (\<lambda>st. st\<lparr>rx_config := out_cfg a\<rparr>)))"

definition prep_tx :: "driver \<Rightarrow> unit io" where
  "prep_tx drv =
     bindB (getB (\<lambda>st. (tx_config st)\<lparr>completion := tx_cmp (userdev st)\<rparr>)) (\<lambda>c.
     bindB (ioctl_nz drv (GCORE_DMA_PREP c)) (\<lambda>a. modifyB (\<lambda>st. st\<lparr>tx_config := out_cfg a\<rparr>)))"

definition prep_rx :: "driver \<Rightarrow> unit io" where
  "prep_rx drv =
     bindB (getB (\<lambda>st. (rx_config st)\<lparr>completion := rx_cmp (userdev st)\<rparr>)) (\<lambda>c.
     bindB (ioctl_nz drv (GCORE_DMA_PREP c)) (\<lambda>a. modifyB (\<lambda>st. st\<lparr>rx_config := out_cfg a\<rparr>)))"

text \<open>A direction is used when its pointer is not NULL and its size is not 0.\<close>

definition gcore_dma_prep :: "driver \<Rightarrow> nat option \<Rightarrow> nat \<Rightarrow> nat option \<Rightarrow> nat \<Rightarrow> unit io" where
  "gcore_dma_prep drv tx_ptr tx_size rx_ptr rx_size =
     (let tx_used = (tx_ptr \<noteq> None \<and> tx_size \<noteq> 0); rx_used = (rx_ptr \<noteq> None \<and> rx_size \<noteq> 0) in
      doB
       [bindB (ioctl_neg drv GCORE_USERDEVS_READ) (\<lambda>a. modifyB (\<lambda>st. st\<lparr>userdev := out_userdev a\<rparr>)),
        whenB tx_used (config_tx drv (the tx_ptr) tx_size),
        whenB rx_used (config_rx drv (the rx_ptr) rx_size),
        whenB tx_used (prep_tx drv),
        whenB rx_used (prep_rx drv),
        modifyB (\<lambda>st. st\<lparr>is_tx_prepared := tx_used\<rparr>),
        modifyB (\<lambda>st. st\<lparr>is_rx_prepared := rx_used\<rparr>)])"

definition start_tx :: "driver \<Rightarrow> gcore_wait \<Rightarrow> unit io" where
  "start_tx drv wait =
     bindB (getB (\<lambda>st. \<lparr>tr_chan = tx_chan (userdev st), tr_completion = tx_cmp (userdev st),
       tr_cookie = cookie (tx_config st), tr_wait = wait_tx wait, wait_time_msecs = 3000,
       tr_buf_size = buf_size (tx_config st)\<rparr>)) (\<lambda>t.
     bindB (ioctl_nz drv (GCORE_DMA_START t)) (\<lambda>_.
     modifyB (\<lambda>st. st\<lparr>is_tx_prepared := False\<rparr>)))"

text \<open>A receive transfer writes into the shared memory, at the place its channel is configured for.\<close>

definition start_rx :: "driver \<Rightarrow> gcore_wait \<Rightarrow> unit io" where
  "start_rx drv wait =
     bindB (getB (\<lambda>st. \<lparr>tr_chan = rx_chan (userdev st), tr_completion = rx_cmp (userdev st),
       tr_cookie = cookie (rx_config st), tr_wait = wait_rx wait, wait_time_msecs = 3000,
       tr_buf_size = buf_size (rx_config st)\<rparr>)) (\<lambda>t.
     bindB (ioctl_nz drv (GCORE_DMA_START t)) (\<lambda>a.
     bindB (getB (\<lambda>st. blitR (gcore_map st) (buf_offset (rx_config st))
       (map (rx_data a) [0..<buf_size (rx_config st)]))) (\<lambda>r.
     bindB (liftB r) (\<lambda>m.
     modifyB (\<lambda>st. st\<lparr>gcore_map := m, is_rx_prepared := False\<rparr>)))))"

definition gcore_dma_start :: "driver \<Rightarrow> gcore_wait \<Rightarrow> unit io" where
  "gcore_dma_start drv wait =
     bindB (getB (\<lambda>st. (is_tx_prepared st, is_rx_prepared st))) (\<lambda>(tx, rx).
     if \<not> (tx \<or> rx) then failB Bad_state
     else doB [whenB tx (start_tx drv wait), whenB rx (start_rx drv wait)])"

definition gcore_dma_stop :: "driver \<Rightarrow> unit io" where
  "gcore_dma_stop drv =
     bindB (getB (\<lambda>st. (is_tx_prepared st, is_rx_prepared st))) (\<lambda>(tx, rx).
     if \<not> (tx \<or> rx) then failB Bad_state
     else doB
       [whenB tx (bindB (getB (\<lambda>st. tx_chan (userdev st))) (\<lambda>c.
          doB [voidB (ioctl_nz drv (GCORE_DMA_STOP c)), modifyB (\<lambda>st. st\<lparr>is_tx_prepared := False\<rparr>)])),
        whenB rx (bindB (getB (\<lambda>st. rx_chan (userdev st))) (\<lambda>c.
          doB [voidB (ioctl_nz drv (GCORE_DMA_STOP c)), modifyB (\<lambda>st. st\<lparr>is_rx_prepared := False\<rparr>)]))])"

definition gcore_dma_prep_start ::
    "driver \<Rightarrow> gcore_wait \<Rightarrow> nat option \<Rightarrow> nat \<Rightarrow> nat option \<Rightarrow> nat \<Rightarrow> unit io" where
  "gcore_dma_prep_start drv wait tx_ptr tx_size rx_ptr rx_size =
     doB [gcore_dma_prep drv tx_ptr tx_size rx_ptr rx_size, gcore_dma_start drv wait]"

text \<open>\<^verbatim>\<open>memcpy\<close> and \<^verbatim>\<open>memset\<close> into the shared memory, and reading from it.\<close>

definition map_write :: "nat \<Rightarrow> u8 list \<Rightarrow> unit io" where
  "map_write ptr bs =
     bindB (getB (\<lambda>st. blitR (gcore_map st) ptr bs)) (\<lambda>r.
     bindB (liftB r) (\<lambda>m. modifyB (\<lambda>st. st\<lparr>gcore_map := m\<rparr>)))"

definition map_read :: "nat \<Rightarrow> nat \<Rightarrow> u8 list io" where
  "map_read ptr n =
     bindB (getB gcore_map) (\<lambda>m.
     if ptr + n \<le> length m then returnB (take n (drop ptr m)) else failB Crash_bounds)"

end
