(* ===== verification/Board_Helper.thy ===== *)
theory Board_Helper
  imports Board
begin

text \<open>
  board/helper.c: driving the state machines of the subcore, the agent, the gvpu and the memory core.
  Each layer proxies the next: the subcore is loaded with a state and run, in that state packets
  reach the agent, and through the agent the gvpu and the memory core. Log output is left out,
  except for the functions that produce text.
\<close>

definition GCORE_STATUS_INIT_ERROR_MASK :: u32 where "GCORE_STATUS_INIT_ERROR_MASK = push_bit 31 1"
definition GCORE_STATUS_DONE_ERROR_MASK :: u32 where "GCORE_STATUS_DONE_ERROR_MASK = push_bit 29 1"
definition GCORE_AGENT_STARTUP_DONE_MASK :: u32 where "GCORE_AGENT_STARTUP_DONE_MASK = push_bit 19 1"
definition GCORE_AGENT_DONE_MASK :: u32 where "GCORE_AGENT_DONE_MASK = push_bit 18 1"
definition GCORE_AGENT_GVPU_STAGE_MASK :: u32 where "GCORE_AGENT_GVPU_STAGE_MASK = 0x0000F000"
definition GCORE_AGENT_MEMCORE_STATE_MASK :: u32 where "GCORE_AGENT_MEMCORE_STATE_MASK = 0x00000F00"
definition GCORE_AGENT_GVPU_STATE_MASK :: u32 where "GCORE_AGENT_GVPU_STATE_MASK = 0x000000F0"
definition GCORE_AGENT_STATE_MASK :: u32 where "GCORE_AGENT_STATE_MASK = 0x0000000F"
definition ARTIX_READ_FIFO_BYTES :: nat where "ARTIX_READ_FIFO_BYTES = 2097152"

definition GET_START_RANK :: "u64 \<Rightarrow> u32" where
  "GET_START_RANK addr = ucast (drop_bit 32 (and addr 0x0000000100000000))"

definition GET_START_ADDR :: "u64 \<Rightarrow> u32" where
  "GET_START_ADDR addr = ucast (and addr 0x00000000ffffffff)"

definition packet :: "u32 \<Rightarrow> u32 \<Rightarrow> u32 \<Rightarrow> gcore_ctrl_packet" where
  "packet r a d = \<lparr>rank_select = r, packet_addr = a, packet_data = d\<rparr>"

text \<open>The test of a mask in the source, \<^verbatim>\<open>(x & m) == m\<close>.\<close>

definition has_mask :: "u32 \<Rightarrow> u32 \<Rightarrow> bool" where
  "has_mask x m \<longleftrightarrow> and x m = m"

section \<open>Subcore\<close>

definition helper_subcore_load :: "driver \<Rightarrow> artix_selects \<Rightarrow> subcore_states \<Rightarrow> unit io" where
  "helper_subcore_load drv sel s =
     (if sel = ARTIX_SELECT_BOTH then failB Bad_select
      else doB
        [subcore_idle drv,
         subcore_load drv \<lparr>subcore_state = s, cfg_select = sel\<rparr>,
         subcore_run drv])"

definition helper_subcore_set_boot_done :: "driver \<Rightarrow> unit io" where
  "helper_subcore_set_boot_done drv =
     doB
      [helper_subcore_load drv ARTIX_SELECT_NONE GPIO_DNA,
       subcore_write_packet drv (packet 0 1 1),
       subcore_idle drv]"

datatype subcore_leds = SUBCORE_RED_LED | SUBCORE_GREEN_LED

definition helper_subcore_set_led :: "driver \<Rightarrow> subcore_leds \<Rightarrow> bool \<Rightarrow> unit io" where
  "helper_subcore_set_led drv led on =
     doB
      [helper_subcore_load drv ARTIX_SELECT_NONE GPIO_DNA,
       subcore_write_packet drv
         (packet 0 (case led of SUBCORE_RED_LED \<Rightarrow> 2 | SUBCORE_GREEN_LED \<Rightarrow> 3) (if on then 1 else 0)),
       subcore_idle drv]"

definition helper_subcore_get_dna_id :: "driver \<Rightarrow> u64 io" where
  "helper_subcore_get_dna_id drv =
     bindB (helper_subcore_load drv ARTIX_SELECT_NONE GPIO_DNA) (\<lambda>_.
     bindB (subcore_write_packet drv (packet 0 4 1)) (\<lambda>_.
     bindB (subcore_read_packet drv (packet 0 0 0)) (\<lambda>p.
     bindB (subcore_idle drv) (\<lambda>_.
     returnB (or (or 0 (push_bit 0 (ucast (packet_data p))))
       (push_bit 32 (ucast (packet_addr p))))))))"

section \<open>Agent\<close>

text \<open>The status register of a unit.\<close>

definition unit_status :: "artix_selects \<Rightarrow> gcore_registers \<Rightarrow> u32" where
  "unit_status sel regs = (if sel = ARTIX_SELECT_A1 then a1_status regs else a2_status regs)"

definition agent_startup :: "driver \<Rightarrow> artix_selects \<Rightarrow> unit io" where
  "agent_startup drv sel =
     bindB (helper_subcore_load drv sel AGENT_STARTUP) (\<lambda>_.
     bindB (subcore_read_packet drv (packet 0 0 0)) (\<lambda>_.
     bindB (subcore_get_regs drv) (\<lambda>regs.
     if has_mask (status regs) GCORE_STATUS_INIT_ERROR_MASK then failB Device_failure
     else returnB ())))"

definition helper_agent_load :: "driver \<Rightarrow> artix_selects \<Rightarrow> agent_states \<Rightarrow> unit io" where
  "helper_agent_load drv sel s =
     (if sel = ARTIX_SELECT_BOTH then failB Bad_select
      else if sel = ARTIX_SELECT_NONE then failB Bad_select
      else
        bindB (subcore_get_regs drv) (\<lambda>regs.
        let agent_did_startup = has_mask (unit_status sel regs) GCORE_AGENT_STARTUP_DONE_MASK in
        doB
         [whenB (\<not> agent_did_startup) (agent_startup drv sel),
          helper_subcore_load drv sel CTRL_WRITE,
          subcore_write_packet drv (packet 0 0 (agent_code s)),
          subcore_idle drv,
          helper_subcore_load drv sel CTRL_RUN,
          subcore_idle drv]))"

text \<open>The packet is cleared, and then read through the agent.\<close>

definition helper_get_agent_status :: "driver \<Rightarrow> artix_selects \<Rightarrow> gcore_ctrl_packet io" where
  "helper_get_agent_status drv sel =
     bindB (helper_agent_load drv sel STATUS) (\<lambda>_.
     bindB (helper_subcore_load drv sel CTRL_READ) (\<lambda>_.
     bindB (subcore_read_packet drv (packet 0 0 0)) (\<lambda>p.
     bindB (subcore_idle drv) (\<lambda>_. returnB p))))"

definition helper_print_agent_status :: "driver \<Rightarrow> artix_selects \<Rightarrow> unit io" where
  "helper_print_agent_status drv sel =
     bindB (helper_get_agent_status drv sel) (\<lambda>_.
     if sel = ARTIX_SELECT_A1 \<or> sel = ARTIX_SELECT_A2 then returnB () else failB Bad_select)"

section \<open>Gvpu and memory core\<close>

definition helper_gvpu_packet_write :: "driver \<Rightarrow> artix_selects \<Rightarrow> gcore_ctrl_packet \<Rightarrow> unit io" where
  "helper_gvpu_packet_write drv sel p =
     doB
      [helper_agent_load drv sel GVPU_LOAD,
       helper_subcore_load drv sel CTRL_WRITE,
       subcore_write_packet drv p,
       subcore_idle drv]"

definition helper_gvpu_load :: "driver \<Rightarrow> artix_selects \<Rightarrow> gvpu_states \<Rightarrow> unit io" where
  "helper_gvpu_load drv sel s =
     doB
      [helper_gvpu_packet_write drv sel (packet 0 0 (gvpu_code s)),
       helper_agent_load drv sel GVPU_RUN,
       subcore_idle drv]"

definition check_mem_load :: "driver \<Rightarrow> artix_selects \<Rightarrow> unit io" where
  "check_mem_load drv sel =
     bindB (helper_get_agent_status drv sel) (\<lambda>p.
     if and (packet_data p) 0x000000f0 \<noteq> 0x00000030 then failB Device_failure else returnB ())"

definition helper_memcore_load :: "driver \<Rightarrow> artix_selects \<Rightarrow> memcore_states \<Rightarrow> unit io" where
  "helper_memcore_load drv sel s =
     doB
      [helper_gvpu_load drv sel MEM_LOAD,
       helper_print_agent_status drv sel,
       check_mem_load drv sel,
       helper_gvpu_packet_write drv sel (packet 0 0 (memcore_code s)),
       helper_gvpu_load drv sel MEM_RUN]"

definition helper_memcore_check_state :: "driver \<Rightarrow> artix_selects \<Rightarrow> memcore_states \<Rightarrow> nat \<Rightarrow> unit io" where
  "helper_memcore_check_state drv sel s num_bursts =
     (if (s = MEMCORE_READ_BURST \<and> wrap32 (num_bursts * 1024) > ARTIX_READ_FIFO_BYTES)
         \<or> s \<noteq> MEMCORE_READ_BURST
      then
        bindB (helper_get_agent_status drv sel) (\<lambda>p.
        if and (packet_data p) 0x00000f00 \<noteq> push_bit 8 (memcore_code s) then failB Device_failure
        else returnB ())
      else returnB ())"

definition helper_burst_setup :: "driver \<Rightarrow> artix_selects \<Rightarrow> u64 \<Rightarrow> u32 \<Rightarrow> unit io" where
  "helper_burst_setup drv sel start_addr num_bursts =
     doB
      [helper_memcore_load drv sel MEMCORE_SETUP_BURST,
       helper_gvpu_load drv sel MEM_BURST,
       helper_agent_load drv sel BURST_LOAD,
       helper_subcore_load drv sel CTRL_WRITE,
       subcore_write_packet drv
         (packet (GET_START_RANK start_addr) (GET_START_ADDR start_addr) num_bursts),
       subcore_idle drv]"

datatype gvpu_status_selects = GVPU_STATUS_SELECT_NONE | GVPU_STATUS_SELECT_MEM_TEST
  | GVPU_STATUS_SELECT_DUT_TEST | GVPU_STATUS_SELECT_MEM_RW

fun select_code :: "gvpu_status_selects \<Rightarrow> u32" where
  "select_code GVPU_STATUS_SELECT_NONE = 0"
| "select_code GVPU_STATUS_SELECT_MEM_TEST = 1"
| "select_code GVPU_STATUS_SELECT_DUT_TEST = 2"
| "select_code GVPU_STATUS_SELECT_MEM_RW = 3"

datatype gvpu_status_cmds = GVPU_STATUS_CMD_NONE | GVPU_STATUS_CMD_GET_CYCLE

fun cmd_code :: "gvpu_status_cmds \<Rightarrow> u32" where
  "cmd_code GVPU_STATUS_CMD_NONE = 0"
| "cmd_code GVPU_STATUS_CMD_GET_CYCLE = 1"

definition helper_get_agent_gvpu_status ::
    "driver \<Rightarrow> artix_selects \<Rightarrow> gvpu_status_selects \<Rightarrow> gvpu_status_cmds \<Rightarrow> u64 io" where
  "helper_get_agent_gvpu_status drv sel select cmd =
     bindB (helper_agent_load drv sel GVPU_STATUS) (\<lambda>_.
     bindB (helper_subcore_load drv sel CTRL_WRITE) (\<lambda>_.
     let p = packet 0 (select_code select) (cmd_code cmd) in
     bindB (subcore_write_packet drv p) (\<lambda>_.
     bindB (helper_subcore_load drv sel CTRL_READ) (\<lambda>_.
     bindB (subcore_read_packet drv p) (\<lambda>p.
     bindB (subcore_idle drv) (\<lambda>_.
     returnB (or (or 0 (push_bit 32 (ucast (packet_addr p))))
       (push_bit 0 (ucast (packet_data p)))))))))) "

section \<open>Reading the status registers\<close>

text \<open>The states and the stage in the status register of a unit, as the code extracts them.\<close>

definition status_field :: "u32 \<Rightarrow> nat \<Rightarrow> artix_selects \<Rightarrow> gcore_registers option \<Rightarrow> u32 res" where
  "status_field m shift sel regs =
     (if sel = ARTIX_SELECT_BOTH then Inl Bad_select
      else if sel = ARTIX_SELECT_NONE then Inl Bad_select
      else bindR (nonnullR regs) (\<lambda>regs. Inr (drop_bit shift (and (unit_status sel regs) m))))"

definition get_agent_state :: "artix_selects \<Rightarrow> gcore_registers option \<Rightarrow> u32 res" where
  "get_agent_state = status_field GCORE_AGENT_STATE_MASK 0"

definition get_gvpu_state :: "artix_selects \<Rightarrow> gcore_registers option \<Rightarrow> u32 res" where
  "get_gvpu_state = status_field GCORE_AGENT_GVPU_STATE_MASK 0"

definition get_memcore_state :: "artix_selects \<Rightarrow> gcore_registers option \<Rightarrow> u32 res" where
  "get_memcore_state = status_field GCORE_AGENT_MEMCORE_STATE_MASK 0"

definition get_gvpu_stage :: "artix_selects \<Rightarrow> gcore_registers option \<Rightarrow> u32 res" where
  "get_gvpu_stage = status_field GCORE_AGENT_GVPU_STAGE_MASK 12"

section \<open>Names\<close>

text \<open>The text that is logged for a state; nothing is logged without a prefix.\<close>

fun agent_state_name :: "agent_states \<Rightarrow> string" where
  "agent_state_name AGENT_INIT = ''agent_init''"
| "agent_state_name AGENT_IDLE = ''agent_idle''"
| "agent_state_name AGENT_PAUSED = ''agent_paused''"
| "agent_state_name STATUS = ''status''"
| "agent_state_name BURST_LOAD = ''burst_load''"
| "agent_state_name GVPU_LOAD = ''gvpu_load''"
| "agent_state_name GVPU_RUN = ''gvpu_run''"
| "agent_state_name GVPU_WRITE = ''gvpu_write''"
| "agent_state_name GVPU_READ = ''gvpu_read''"
| "agent_state_name GVPU_STATUS = ''gvpu_status''"
| "agent_state_name GVPU_RESET = ''gvpu_reset''"

definition print_agent_state :: "agent_states \<Rightarrow> string option \<Rightarrow> string option" where
  "print_agent_state s pre = map_option (\<lambda>p. p @ agent_state_name s) pre"

fun gvpu_state_name :: "gvpu_states \<Rightarrow> string" where
  "gvpu_state_name GVPU_IDLE = ''gvpu_idle''"
| "gvpu_state_name GVPU_PAUSED = ''gvpu_paused''"
| "gvpu_state_name MEM_BURST = ''mem_burst''"
| "gvpu_state_name MEM_LOAD = ''mem_load''"
| "gvpu_state_name MEM_RUN = ''mem_run''"
| "gvpu_state_name MEM_WRITE = ''mem_write''"
| "gvpu_state_name MEM_READ = ''mem_read''"
| "gvpu_state_name MEM_TEST = ''mem_test''"
| "gvpu_state_name TEST_INIT = ''test_init''"
| "gvpu_state_name TEST_SETUP = ''test_setup''"
| "gvpu_state_name TEST_RUN = ''test_run''"
| "gvpu_state_name TEST_FAIL_PINS = ''test_fail_pins''"
| "gvpu_state_name TEST_CLEANUP = ''test_cleanup''"

definition print_gvpu_state :: "gvpu_states \<Rightarrow> string option \<Rightarrow> string option" where
  "print_gvpu_state s pre = map_option (\<lambda>p. p @ gvpu_state_name s) pre"

fun memcore_state_name :: "memcore_states \<Rightarrow> string" where
  "memcore_state_name MEMCORE_IDLE = ''memcore_idle''"
| "memcore_state_name MEMCORE_PAUSED = ''memcore_paused''"
| "memcore_state_name MEMCORE_SETUP_BURST = ''memcore_setup_burst''"
| "memcore_state_name MEMCORE_WRITE_BURST = ''memcore_write_burst''"
| "memcore_state_name MEMCORE_READ_BURST = ''memcore_read_burst''"

definition print_memcore_state :: "memcore_states \<Rightarrow> string option \<Rightarrow> string option" where
  "print_memcore_state s pre = map_option (\<lambda>p. p @ memcore_state_name s) pre"

text \<open>
  The line that describes the mode and state of the subcore. For a state that is not in the table
  the code prints an uninitialised array: None.
\<close>

definition mode_name :: "u32 \<Rightarrow> string" where
  "mode_name ms =
     (let m = and ms 0xf0000000 in
      if m = 0x00000000 then ''none''
      else if m = 0x40000000 then ''A1''
      else if m = 0x80000000 then ''A2''
      else ''invalid unit'')"

definition subcore_state_names :: "string list" where
  "subcore_state_names =
     [''idle'', ''paused'', ''config_setup'', ''config_load'', ''config_wait'', ''agent_startup'',
      ''setup_burst'', ''setup_write'', ''setup_read'', ''setup_cleanup'', ''ctrl_write'', ''ctrl_read'',
      ''ctrl_run'', ''dma_write'', ''dma_read'', ''gpio_dna'']"

definition sprint_subcore_mode_state :: "driver \<Rightarrow> string option io" where
  "sprint_subcore_mode_state drv =
     bindB (subcore_mode_state drv) (\<lambda>ms.
     let k = unat (and ms 0x0fffffff) in
     returnB (if k < length subcore_state_names
       then Some (''subcore: mode='' @ mode_name ms @ '' state='' @ subcore_state_names ! k @ [CHR 0x0A])
       else None))"

end
