(* ===== verification/Artix.thy ===== *)
theory Artix
  imports Board_Helper Stim_Fill
begin

text \<open>
  board/artix.c: the operations on the test units. Writing and reading tester memory by DMA, loading
  a stimulus, running it and fetching the failing pins, and configuring a unit.
\<close>

definition MAX_CHUNK_SIZE :: nat where "MAX_CHUNK_SIZE = 536870912"

text \<open>\<^verbatim>\<open>memcpy\<close> of \<open>n\<close> bytes from offset \<open>i\<close> of a caller's buffer.\<close>

definition bytes_at :: "u8 list \<Rightarrow> nat \<Rightarrow> nat \<Rightarrow> u8 list res" where
  "bytes_at bs i n =
     (if i + n \<le> length bs then Inr (take n (drop i bs)) else Inl Crash_bounds)"

definition num_bursts_of :: "nat \<Rightarrow> nat" where
  "num_bursts_of n =
     (let num_bursts = wrap32 (n div BURST_BYTES) in
      if n mod BURST_BYTES \<noteq> 0 then wrap32 (num_bursts + 1) else num_bursts)"

section \<open>Writing tester memory\<close>

definition subcore_prep_dma_write :: "driver \<Rightarrow> artix_selects \<Rightarrow> nat \<Rightarrow> unit io" where
  "subcore_prep_dma_write drv sel num_bursts =
     doB
      [subcore_idle drv,
       helper_subcore_load drv sel SETUP_BURST,
       subcore_write_packet drv (packet 0 0 (of_nat num_bursts)),
       subcore_idle drv,
       helper_subcore_load drv sel DMA_WRITE]"

text \<open>The bytes from \<open>i\<close> on are copied into the DMA buffer and sent.\<close>

definition send_bytes :: "driver \<Rightarrow> nat \<Rightarrow> u8 list \<Rightarrow> nat \<Rightarrow> nat \<Rightarrow> unit io" where
  "send_bytes drv dma_buf write_data i n =
     bindB (liftB (bytes_at write_data i n)) (\<lambda>bs.
     doB
      [map_write dma_buf bs,
       gcore_dma_prep drv (Some dma_buf) n None 0,
       gcore_dma_start drv GCORE_WAIT_TX])"

definition write_in_chunks :: "driver \<Rightarrow> u8 list \<Rightarrow> nat \<Rightarrow> unit io" where
  "write_in_chunks drv write_data write_size =
     bindB (gcore_dma_alloc DMA_SIZE 1) (\<lambda>dma_buf.
     let num_chunks = write_size div DMA_SIZE; data_mod = write_size mod DMA_SIZE in
     doB
      [map_write dma_buf (replicate DMA_SIZE 0),
       doB (map (\<lambda>i. doB
         [map_write dma_buf (replicate DMA_SIZE 0),
          send_bytes drv dma_buf write_data (i * DMA_SIZE) DMA_SIZE]) [0..<num_chunks]),
       whenB (data_mod \<noteq> 0)
         (send_bytes drv dma_buf write_data (write_size - data_mod) data_mod)])"

definition write_at_once :: "driver \<Rightarrow> u8 list \<Rightarrow> nat \<Rightarrow> nat \<Rightarrow> unit io" where
  "write_at_once drv write_data write_size num_bursts =
     (let n = wrap32 (num_bursts * BURST_BYTES) in
      bindB (gcore_dma_alloc n 1) (\<lambda>dma_buf.
      bindB (map_write dma_buf (replicate n 0)) (\<lambda>_.
      bindB (liftB (bytes_at write_data 0 write_size)) (\<lambda>bs.
      doB
       [map_write dma_buf bs,
        gcore_dma_prep_start drv GCORE_WAIT_TX (Some dma_buf) n None 0]))))"

text \<open>The gvpu's burst count; it is only logged.\<close>

definition log_burst_count :: "driver \<Rightarrow> artix_selects \<Rightarrow> unit io" where
  "log_burst_count drv sel =
     voidB (helper_get_agent_gvpu_status drv sel GVPU_STATUS_SELECT_MEM_RW GVPU_STATUS_CMD_GET_CYCLE)"

definition artix_mem_write :: "driver \<Rightarrow> artix_selects \<Rightarrow> u64 \<Rightarrow> u8 list \<Rightarrow> nat \<Rightarrow> unit io" where
  "artix_mem_write drv sel addr write_data write_size =
     (if unat addr > 0x1ffffffff - BURST_BYTES then failB Out_of_range
      else if write_size > MAX_CHUNK_SIZE then failB Out_of_range
      else
        let num_bursts = num_bursts_of write_size in
        doB
         [helper_burst_setup drv sel addr (of_nat num_bursts),
          helper_print_agent_status drv sel,
          helper_memcore_load drv sel MEMCORE_WRITE_BURST,
          helper_memcore_check_state drv sel MEMCORE_WRITE_BURST num_bursts,
          helper_print_agent_status drv sel,
          helper_gvpu_load drv sel MEM_WRITE,
          helper_print_agent_status drv sel,
          helper_agent_load drv sel GVPU_WRITE,
          gcore_dma_alloc_reset,
          subcore_prep_dma_write drv sel num_bursts,
          (if write_size > DMA_SIZE then write_in_chunks drv write_data write_size
           else write_at_once drv write_data write_size num_bursts),
          log_burst_count drv sel,
          subcore_idle drv,
          helper_gvpu_load drv sel TEST_CLEANUP,
          helper_print_agent_status drv sel])"

section \<open>Reading tester memory\<close>

definition subcore_prep_dma_read :: "driver \<Rightarrow> artix_selects \<Rightarrow> nat \<Rightarrow> unit io" where
  "subcore_prep_dma_read drv sel num_bursts =
     (if num_bursts > 65504 then failB Out_of_range
      else doB
       [subcore_idle drv,
        helper_subcore_load drv sel SETUP_BURST,
        subcore_write_packet drv (packet 0 0 (of_nat num_bursts)),
        subcore_idle drv,
        helper_subcore_load drv sel DMA_READ])"

text \<open>One receive transfer of \<open>n\<close> bytes through the DMA buffer.\<close>

definition receive_bytes :: "driver \<Rightarrow> artix_selects \<Rightarrow> nat \<Rightarrow> nat \<Rightarrow> nat \<Rightarrow> unit io" where
  "receive_bytes drv sel dma_buf n num_bursts =
     doB
      [gcore_dma_prep drv None 0 (Some dma_buf) n,
       subcore_prep_dma_read drv sel num_bursts,
       gcore_dma_start drv GCORE_WAIT_RX]"

text \<open>The \<open>n\<close> bytes at the DMA buffer are copied to offset \<open>i\<close> of the caller's buffer.\<close>

definition copy_out :: "nat \<Rightarrow> nat \<Rightarrow> nat \<Rightarrow> u8 list \<Rightarrow> u8 list io" where
  "copy_out dma_buf i n read_data =
     bindB (map_read dma_buf n) (\<lambda>bs. liftB (blitR read_data i bs))"

definition read_in_chunks :: "driver \<Rightarrow> artix_selects \<Rightarrow> u8 list \<Rightarrow> nat \<Rightarrow> u8 list io" where
  "read_in_chunks drv sel read_data read_size =
     bindB (gcore_dma_alloc DMA_SIZE 1) (\<lambda>dma_buf.
     let num_chunks = read_size div DMA_SIZE; data_mod = read_size mod DMA_SIZE in
     bindB (map_write dma_buf (replicate DMA_SIZE 0)) (\<lambda>_.
     bindB (foldB (\<lambda>i read_data.
         bindB (map_write dma_buf (replicate DMA_SIZE 0)) (\<lambda>_.
         bindB (receive_bytes drv sel dma_buf DMA_SIZE (DMA_SIZE div BURST_BYTES)) (\<lambda>_.
         copy_out dma_buf (i * DMA_SIZE) DMA_SIZE read_data))) [0..<num_chunks] read_data)
       (\<lambda>read_data.
     if data_mod \<noteq> 0 then
       bindB (receive_bytes drv sel dma_buf data_mod (data_mod div BURST_BYTES)) (\<lambda>_.
       copy_out dma_buf (read_size - data_mod) data_mod read_data)
     else returnB read_data)))"

definition read_at_once :: "driver \<Rightarrow> artix_selects \<Rightarrow> u8 list \<Rightarrow> nat \<Rightarrow> nat \<Rightarrow> u8 list io" where
  "read_at_once drv sel read_data read_size num_bursts =
     (let n = wrap32 (num_bursts * BURST_BYTES) in
      bindB (gcore_dma_alloc n 1) (\<lambda>dma_buf.
      bindB (map_write dma_buf (replicate n 0)) (\<lambda>_.
      bindB (receive_bytes drv sel dma_buf n num_bursts) (\<lambda>_.
      copy_out dma_buf 0 read_size read_data))))"

definition artix_mem_read :: "driver \<Rightarrow> artix_selects \<Rightarrow> u64 \<Rightarrow> u8 list \<Rightarrow> nat \<Rightarrow> u8 list io" where
  "artix_mem_read drv sel addr read_data read_size =
     (if read_size > MAX_CHUNK_SIZE then failB Out_of_range
      else
        let num_bursts = num_bursts_of read_size in
        bindB (doB
         [helper_burst_setup drv sel addr (of_nat num_bursts),
          helper_print_agent_status drv sel,
          helper_memcore_load drv sel MEMCORE_READ_BURST,
          helper_memcore_check_state drv sel MEMCORE_READ_BURST num_bursts,
          helper_print_agent_status drv sel,
          helper_gvpu_load drv sel MEM_READ,
          helper_agent_load drv sel GVPU_READ,
          gcore_dma_alloc_reset]) (\<lambda>_.
        bindB (if read_size > DMA_SIZE then read_in_chunks drv sel read_data read_size
               else read_at_once drv sel read_data read_size num_bursts) (\<lambda>read_data.
        bindB (doB
         [log_burst_count drv sel,
          subcore_idle drv,
          helper_gvpu_load drv sel TEST_CLEANUP,
          helper_print_agent_status drv sel]) (\<lambda>_.
        returnB read_data))))"

section \<open>Loading a stimulus\<close>

definition load_addr_ok :: "u64 \<Rightarrow> bool" where
  "load_addr_ok addr \<longleftrightarrow> unat addr \<le> 0x40000000 - 1 \<and> unat addr mod BURST_BYTES = 0"

text \<open>The units that are loaded, in the order of the loop.\<close>

definition load_units :: "stim_modes \<Rightarrow> artix_selects list" where
  "load_units mode =
     (case mode of
        STIM_MODE_DUAL \<Rightarrow> [ARTIX_SELECT_A1, ARTIX_SELECT_A2]
      | STIM_MODE_A1 \<Rightarrow> [ARTIX_SELECT_A1]
      | STIM_MODE_A2 \<Rightarrow> [ARTIX_SELECT_A2]
      | STIM_MODE_NONE \<Rightarrow> [])"

text \<open>The body of the loop over the chunks: the address is that of the first chunk, each time.\<close>

definition write_chunk :: "driver \<Rightarrow> artix_selects \<Rightarrow> u64 \<Rightarrow> vec_chunk \<Rightarrow> nat \<times> board \<Rightarrow> (nat \<times> board) res" where
  "write_chunk drv sel load_addr chunk = (\<lambda>(num_loaded_bytes, st).
     bindR (derefR (vec_data chunk)) (\<lambda>vdata.
     bindR (artix_mem_write drv sel load_addr vdata (vec_data_size chunk) st) (\<lambda>(_, st).
     Inr (wrap64 (num_loaded_bytes + vec_data_size chunk), st))))"

text \<open>The loop ends after the last chunk, so one more than their number is enough fuel.\<close>

definition load_unit ::
    "lz4_decompressor \<Rightarrow> driver \<Rightarrow> (artix_selects \<Rightarrow> u64) \<Rightarrow> artix_selects \<Rightarrow> stim \<times> nat \<Rightarrow> (stim \<times> nat) io" where
  "load_unit lz4 drv load_addr sel = (\<lambda>(stim, _) st.
     bindR (drain (Suc (unit_num_chunks sel stim)) (next_chunk lz4 sel) (write_chunk drv sel (load_addr sel))
       stim (0, st)) (\<lambda>(stim, num_loaded_bytes, st).
     bindR (helper_gvpu_load drv sel TEST_CLEANUP st) (\<lambda>(_, st).
     Inr ((stim, num_loaded_bytes), st))))"

definition artix_load_stim ::
    "lz4_decompressor \<Rightarrow> driver \<Rightarrow> stim \<Rightarrow> u64 \<Rightarrow> u64 \<Rightarrow> (stim \<times> nat) io" where
  "artix_load_stim lz4 drv stim a1_load_addr a2_load_addr =
     (if \<not> load_addr_ok a1_load_addr then failB Out_of_range
      else if \<not> load_addr_ok a2_load_addr then failB Out_of_range
      else
        foldB (load_unit lz4 drv (\<lambda>sel. if sel = ARTIX_SELECT_A1 then a1_load_addr else a2_load_addr))
          (load_units (stim_get_mode stim)) (stim, 0))"

section \<open>Running a stimulus\<close>

definition artix_setup_stim :: "driver \<Rightarrow> stim \<Rightarrow> artix_selects \<Rightarrow> u64 \<Rightarrow> unit io" where
  "artix_setup_stim drv stim sel start_addr =
     bindB (doB
      [helper_gvpu_load drv sel TEST_INIT,
       helper_gvpu_packet_write drv sel
         (packet (GET_START_RANK start_addr) (GET_START_ADDR start_addr)
           (of_nat (num_vecs stim + num_padding_vecs stim))),
       helper_gvpu_load drv sel TEST_SETUP,
       helper_agent_load drv sel GVPU_WRITE,
       gcore_dma_alloc_reset,
       subcore_prep_dma_write drv sel 1]) (\<lambda>_.
     bindB (liftB (stim_get_enable_pins_data stim sel)) (\<lambda>enable_pins.
     bindB (gcore_dma_alloc BURST_BYTES 1) (\<lambda>dma_buf.
     bindB (map_write dma_buf (replicate BURST_BYTES 0xff)) (\<lambda>_.
     bindB (liftB (bytes_at enable_pins 0 BURST_BYTES)) (\<lambda>bs.
     doB
      [map_write dma_buf bs,
       gcore_dma_prep_start drv GCORE_WAIT_TX (Some dma_buf) BURST_BYTES None 0,
       helper_gvpu_load drv sel TEST_CLEANUP])))))"

text \<open>The test is polled at most \<open>n + 1\<close> times; the counter of the code counts up to \<^verbatim>\<open>0x000fffff\<close>.\<close>

definition print_units :: "driver \<Rightarrow> artix_selects list \<Rightarrow> unit io" where
  "print_units drv sels = doB (map (helper_print_agent_status drv) sels)"

definition get_cycle :: "driver \<Rightarrow> artix_selects \<Rightarrow> u64 io" where
  "get_cycle drv sel =
     helper_get_agent_gvpu_status drv sel GVPU_STATUS_SELECT_DUT_TEST GVPU_STATUS_CMD_GET_CYCLE"

definition test_running :: "gcore_ctrl_packet \<Rightarrow> bool" where
  "test_running p \<longleftrightarrow> and (packet_data p) 0x000000f0 = push_bit 4 (gvpu_code TEST_RUN)"

definition test_failed :: "gcore_ctrl_packet \<Rightarrow> bool" where
  "test_failed p \<longleftrightarrow> has_mask (packet_data p) 0x00010000"

fun poll_test :: "driver \<Rightarrow> artix_selects \<Rightarrow> artix_selects list \<Rightarrow> nat \<Rightarrow> unit io" where
  "poll_test drv sel shown 0 =
     bindB (helper_get_agent_status drv sel) (\<lambda>p.
     if \<not> test_running p then print_units drv shown
     else doB [voidB (get_cycle drv sel), print_units drv shown])"
| "poll_test drv sel shown (Suc n) =
     bindB (helper_get_agent_status drv sel) (\<lambda>p.
     if \<not> test_running p then print_units drv shown
     else poll_test drv sel shown n)"

text \<open>
  The verdict: the cycle that is reported, and whether the test failed. A unit that did not flag a
  failure but did not execute all vectors has failed as well, unless the other one flagged it.
\<close>

definition dual_verdict :: "nat \<Rightarrow> bool \<Rightarrow> nat \<Rightarrow> bool \<Rightarrow> nat \<Rightarrow> nat \<times> bool" where
  "dual_verdict num_total master_failed master_cycle slave_failed slave_cycle =
     (let cycle =
        (if master_cycle = slave_cycle then master_cycle
         else if master_cycle < slave_cycle then master_cycle else slave_cycle);
        (master_failed, slave_failed) =
          (if master_failed \<or> slave_failed then (master_failed, slave_failed)
           else (master_cycle < num_total \<or> master_cycle > num_total, slave_cycle < num_total \<or> slave_cycle > num_total))
      in (cycle, master_failed \<or> slave_failed))"

definition solo_verdict :: "nat \<Rightarrow> bool \<Rightarrow> nat \<Rightarrow> nat \<times> bool" where
  "solo_verdict num_total failed cycle =
     (cycle, if failed then True else cycle < num_total \<or> cycle > num_total)"

definition artix_run_stim :: "driver \<Rightarrow> stim \<Rightarrow> u64 \<Rightarrow> u64 \<Rightarrow> (nat \<times> bool) io" where
  "artix_run_stim drv stim a1_start_addr a2_start_addr =
     (if stim_profile stim = None then failB Null_pointer
      else if num_a1_vec_chunks stim = 0 \<and> num_a2_vec_chunks stim = 0 then failB Bad_count
      else
        let num_total = wrap64 (num_unrolled_vecs stim + num_padding_vecs stim);
            mode = stim_get_mode stim; dual = (mode = STIM_MODE_DUAL);
            sel = (if mode = STIM_MODE_A2 then ARTIX_SELECT_A2 else ARTIX_SELECT_A1);
            units = load_units mode in
        bindB (doB
         [(case mode of
             STIM_MODE_DUAL \<Rightarrow>
               doB [artix_setup_stim drv stim ARTIX_SELECT_A1 a1_start_addr,
                    artix_setup_stim drv stim ARTIX_SELECT_A2 a2_start_addr]
           | STIM_MODE_A1 \<Rightarrow> artix_setup_stim drv stim ARTIX_SELECT_A1 a1_start_addr
           | STIM_MODE_A2 \<Rightarrow> artix_setup_stim drv stim ARTIX_SELECT_A2 a2_start_addr
           | STIM_MODE_NONE \<Rightarrow> failB Out_of_range),
          subcore_artix_sync drv dual,
          helper_print_agent_status drv sel,
          (if dual then
             doB [helper_gvpu_load drv ARTIX_SELECT_A1 TEST_RUN, helper_gvpu_load drv ARTIX_SELECT_A2 TEST_RUN]
           else doB [helper_gvpu_load drv sel TEST_RUN, helper_print_agent_status drv sel]),
          poll_test drv sel units 0x000fffff]) (\<lambda>_.
        bindB (get_cycle drv sel) (\<lambda>master_cycle.
        bindB (helper_get_agent_status drv sel) (\<lambda>master.
        if dual then
          bindB (helper_get_agent_status drv ARTIX_SELECT_A2) (\<lambda>slave.
          bindB (get_cycle drv ARTIX_SELECT_A2) (\<lambda>slave_cycle.
          returnB (dual_verdict num_total (test_failed master) (unat master_cycle)
            (test_failed slave) (unat slave_cycle))))
        else
          bindB (get_cycle drv sel) (\<lambda>master_cycle.
          returnB (solo_verdict num_total (test_failed master) (unat master_cycle)))))))"

section \<open>Failing pins\<close>

definition fail_pins_of_unit :: "driver \<Rightarrow> artix_selects \<times> nat \<Rightarrow> u8 list \<Rightarrow> u8 list io" where
  "fail_pins_of_unit drv = (\<lambda>(sel, first) fail_pins.
     bindB (doB
      [helper_gvpu_load drv sel TEST_FAIL_PINS,
       helper_agent_load drv sel GVPU_READ,
       gcore_dma_alloc_reset,
       subcore_prep_dma_read drv sel 1]) (\<lambda>_.
     bindB (gcore_dma_alloc BURST_BYTES 1) (\<lambda>dma_buf.
     bindB (doB
      [map_write dma_buf (replicate BURST_BYTES 0xff),
       gcore_dma_prep drv None 0 (Some dma_buf) BURST_BYTES,
       gcore_dma_start drv GCORE_WAIT_RX]) (\<lambda>_.
     bindB (map_read dma_buf 200) (\<lambda>bs.
     liftB (foldR (\<lambda>i fp. updR fp (i + first) (if bs ! i \<noteq> 0 then 1 else 0)) [0..<200] fail_pins))))))"

definition artix_get_stim_fail_pins :: "driver \<Rightarrow> u8 list io" where
  "artix_get_stim_fail_pins drv =
     foldB (fail_pins_of_unit drv) [(ARTIX_SELECT_A1, 0), (ARTIX_SELECT_A2, 200)] (replicate 400 0)"

text \<open>
  The second line of the printed table, a character and a blank for each pin and then as many blanks
  as its name is long. The pin's id indexes the array without a check.
\<close>

definition fail_pin_mark :: "u8 list \<Rightarrow> profile_pin \<Rightarrow> string res" where
  "fail_pin_mark fail_pins pin =
     bindR (nthR fail_pins (u32_of_int (dut_io_id pin))) (\<lambda>b.
     bindR (derefR (net_name pin)) (\<lambda>name.
     Inr ((if b \<noteq> 0 then ''F '' else ''. '') @ replicate (length name) (CHR 0x20))))"

definition artix_print_stim_fail_pins :: "stim \<Rightarrow> u8 list \<Rightarrow> string res" where
  "artix_print_stim_fail_pins stim fail_pins =
     bindR (mapR (\<lambda>pin. derefR (net_name pin)) (stim_pins stim)) (\<lambda>names.
     bindR (mapR (fail_pin_mark fail_pins) (stim_pins stim)) (\<lambda>marks.
     Inr (''   pins: '' @ concat (map (\<lambda>n. n @ '' '') names) @ [CHR 0x0A] @
       replicate 16 (CHR 0x20) @ concat marks @ [CHR 0x0A])))"

section \<open>Configuring a unit\<close>

text \<open>
  \<open>file\<close> is the content of the bit file, None when it cannot be opened. It is read into the DMA buffer
  whatever its size. What happens after the transfer only selects log messages.
\<close>

definition artix_config :: "driver \<Rightarrow> (string \<Rightarrow> u8 list option) \<Rightarrow> artix_selects \<Rightarrow> string \<Rightarrow> unit io" where
  "artix_config drv file sel bit_path =
     (if get_stim_type_by_path bit_path \<noteq> STIM_TYPE_BIN then failB Bad_format
      else
        case file bit_path of
          None \<Rightarrow> failB Not_found
        | Some bs \<Rightarrow>
            bindB (gcore_dma_alloc (length bs) 1) (\<lambda>dma_buf.
            bindB (map_write dma_buf bs) (\<lambda>_.
            bindB (helper_subcore_load drv sel CONFIG_SETUP) (\<lambda>_.
            bindB (subcore_get_regs drv) (\<lambda>regs.
            if has_mask (status regs) GCORE_STATUS_INIT_ERROR_MASK then failB Device_failure
            else if sel \<noteq> ARTIX_SELECT_A1 \<and> sel \<noteq> ARTIX_SELECT_A2 then failB Bad_select
            else
              doB
               [gcore_dma_prep_start drv GCORE_WAIT_TX (Some dma_buf) (length bs) None 0,
                voidB (subcore_mode_state drv),
                voidB (subcore_get_regs drv),
                subcore_idle drv])))))"

end
