(* ===== verification/Board_Protocol.thy ===== *)
theory Board_Protocol
  imports Artix
begin

text \<open>
  The protocol between the library and the driver, as an automaton over the requests, and the proof
  that the operations of board/helper.c and board/artix.c keep to it whatever the driver answers.

  The subcore is loaded only after it was seen idle and never into the two states of the configuration
  that follow CONFIG_SETUP (the note of \<open>subcore_states\<close> in board/driver.h), it is run only when it was loaded, packets are
  exchanged only in the states that proxy them, and data is transferred only in the state for its
  direction. The automaton also keeps the transfers that are prepared and not yet started.
\<close>

section \<open>The automaton\<close>

datatype phase =
    Busy                      \<comment> \<open>nothing is known about the subcore\<close>
  | Idle
  | Loaded subcore_states
  | Running subcore_states

text \<open>board/driver.h: never place the subcore into config load or wait directly, always call setup.\<close>

definition placeable :: "subcore_states set" where
  "placeable = - {CONFIG_LOAD, CONFIG_WAIT}"

definition writable :: "subcore_states set" where
  "writable = {CTRL_WRITE, SETUP_BURST, GPIO_DNA}"

definition readable :: "subcore_states set" where
  "readable = {CTRL_READ, GPIO_DNA, AGENT_STARTUP}"

fun dma_states :: "gcore_direction \<Rightarrow> subcore_states set" where
  "dma_states GCORE_MEM_TO_DEV = {DMA_WRITE, CONFIG_SETUP}"
| "dma_states GCORE_DEV_TO_MEM = {DMA_READ}"
| "dma_states GCORE_TRANS_NONE = {}"

fun phase_step :: "request \<Rightarrow> phase \<times> gcore_chan_cfg list \<Rightarrow> (phase \<times> gcore_chan_cfg list) option" where
  "phase_step GCORE_SUBCORE_IDLE (ph, cs) = Some (Idle, cs)"
| "phase_step (GCORE_SUBCORE_LOAD cfg) (ph, cs) =
     (if ph = Idle \<and> cfg_select cfg \<noteq> ARTIX_SELECT_BOTH \<and> subcore_state cfg \<in> placeable
      then Some (Loaded (subcore_state cfg), cs) else None)"
| "phase_step GCORE_SUBCORE_RUN (ph, cs) =
     (case ph of Loaded s \<Rightarrow> Some (Running s, cs) | _ \<Rightarrow> None)"
| "phase_step GCORE_SUBCORE_RESET (ph, cs) = Some (Busy, cs)"
| "phase_step (GCORE_CTRL_WRITE p) (ph, cs) =
     (if ph \<in> Running ` writable then Some (ph, cs) else None)"
| "phase_step (GCORE_CTRL_READ p) (ph, cs) =
     (if ph \<in> Running ` readable then Some (ph, cs) else None)"
| "phase_step GCORE_USERDEVS_READ (ph, cs) = Some (ph, [])"
| "phase_step (GCORE_DMA_PREP c) (ph, cs) = Some (ph, cs @ [c])"
| "phase_step (GCORE_DMA_START t) (ph, cs) =
     (case cs of
        [] \<Rightarrow> None
      | c # cs \<Rightarrow> if ph \<in> Running ` dma_states (cfg_dir c) then Some (ph, cs) else None)"
| "phase_step (GCORE_DMA_STOP n) (ph, cs) = (case cs of [] \<Rightarrow> None | c # cs \<Rightarrow> Some (ph, cs))"
| "phase_step _ (ph, cs) = Some (ph, cs)"

fun run_phases :: "(request \<times> u8 list) list \<Rightarrow> phase \<times> gcore_chan_cfg list \<Rightarrow>
    (phase \<times> gcore_chan_cfg list) option" where
  "run_phases [] s = Some s"
| "run_phases ((r, _) # h) s = Option.bind (phase_step r s) (run_phases h)"

definition follows_protocol :: "history \<Rightarrow> bool" where
  "follows_protocol h \<longleftrightarrow> run_phases h (Busy, []) \<noteq> None"

lemma run_phases_append:
  "run_phases (h @ h') s = Option.bind (run_phases h s) (run_phases h')"
  by (induction h s rule: run_phases.induct) (auto split: option.splits bind_splits)

text \<open>What the transfers to the device carried: the bytes at the prepared place when each was started.\<close>

fun sent :: "gcore_chan_cfg list \<Rightarrow> history \<Rightarrow> u8 list" where
  "sent cs [] = []"
| "sent cs ((GCORE_USERDEVS_READ, m) # h) = sent [] h"
| "sent cs ((GCORE_DMA_PREP c, m) # h) = sent (cs @ [c]) h"
| "sent cs ((GCORE_DMA_START t, m) # h) =
     (case cs of
        [] \<Rightarrow> sent [] h
      | c # cs \<Rightarrow>
          (if cfg_dir c = GCORE_MEM_TO_DEV then take (buf_size c) (drop (buf_offset c) m) else []) @ sent cs h)"
| "sent cs ((GCORE_DMA_STOP n, m) # h) = sent (tl cs) h"
| "sent cs ((r, m) # h) = sent cs h"

text \<open>
  What the transfers from the device delivered: the bytes the driver answered with when each was
  started, where \<open>pre\<close> is the history before.
\<close>

fun received :: "driver \<Rightarrow> history \<Rightarrow> gcore_chan_cfg list \<Rightarrow> history \<Rightarrow> u8 list" where
  "received drv pre cs [] = []"
| "received drv pre cs ((GCORE_USERDEVS_READ, m) # h) = received drv (pre @ [(GCORE_USERDEVS_READ, m)]) [] h"
| "received drv pre cs ((GCORE_DMA_PREP c, m) # h) = received drv (pre @ [(GCORE_DMA_PREP c, m)]) (cs @ [c]) h"
| "received drv pre cs ((GCORE_DMA_START t, m) # h) =
     (let pre = pre @ [(GCORE_DMA_START t, m)] in
      case cs of
        [] \<Rightarrow> received drv pre [] h
      | c # cs \<Rightarrow>
          (if cfg_dir c = GCORE_DEV_TO_MEM then map (rx_data (drv pre)) [0..<buf_size c] else []) @
          received drv pre cs h)"
| "received drv pre cs ((GCORE_DMA_STOP n, m) # h) = received drv (pre @ [(GCORE_DMA_STOP n, m)]) (tl cs) h"
| "received drv pre cs ((r, m) # h) = received drv (pre @ [(r, m)]) cs h"

text \<open>The transfers that are prepared and not started.\<close>

fun pend :: "gcore_chan_cfg list \<Rightarrow> history \<Rightarrow> gcore_chan_cfg list" where
  "pend cs [] = cs"
| "pend cs ((GCORE_USERDEVS_READ, m) # h) = pend [] h"
| "pend cs ((GCORE_DMA_PREP c, m) # h) = pend (cs @ [c]) h"
| "pend cs ((GCORE_DMA_START t, m) # h) = pend (tl cs) h"
| "pend cs ((GCORE_DMA_STOP n, m) # h) = pend (tl cs) h"
| "pend cs ((r, m) # h) = pend cs h"

lemma sent_append: "sent cs (h @ h') = sent cs h @ sent (pend cs h) h'"
  by (induction cs h rule: sent.induct) (auto split: list.splits)

lemma received_append:
  "received drv pre cs (h @ h') = received drv pre cs h @ received drv (pre @ h) (pend cs h) h'"
  by (induction drv pre cs h rule: received.induct) (auto simp: Let_def split: list.splits)

section \<open>Operations that only control\<close>

text \<open>
  The requests that do not concern DMA. An operation \<open>controls\<close> from \<open>P\<close> to \<open>Q\<close> when it makes only such
  requests, keeps everything but the history, and takes the automaton from any phase in \<open>P\<close> to one in \<open>Q\<close>.
\<close>

fun control_request :: "request \<Rightarrow> bool" where
  "control_request GCORE_USERDEVS_READ = False"
| "control_request (GCORE_DMA_CONFIG c) = False"
| "control_request (GCORE_DMA_PREP c) = False"
| "control_request (GCORE_DMA_START t) = False"
| "control_request (GCORE_DMA_STOP n) = False"
| "control_request _ = True"

lemma control_sent: "list_all (\<lambda>r. control_request (fst r)) h \<Longrightarrow> sent cs h = []"
  by (induction cs h rule: sent.induct) auto

lemma control_received: "list_all (\<lambda>r. control_request (fst r)) h \<Longrightarrow> received drv pre cs h = []"
  by (induction drv pre cs h rule: received.induct) auto

definition controls :: "'a io \<Rightarrow> phase set \<Rightarrow> phase set \<Rightarrow> bool" where
  "controls m P Q \<longleftrightarrow> (\<forall>st x st'. m st = Inr (x, st') \<longrightarrow>
     (\<exists>h. st' = st\<lparr>hist := hist st @ h\<rparr> \<and> list_all (\<lambda>r. control_request (fst r)) h \<and>
       (\<forall>ph\<in>P. \<forall>cs. \<exists>ph'\<in>Q. run_phases h (ph, cs) = Some (ph', cs))))"

named_theorems controls \<open>operations that only control the subcore\<close>

lemma controls_bind [controls]:
  assumes "controls m P Q" and "\<And>x. controls (f x) Q R"
  shows "controls (bindB m f) P R"
  unfolding controls_def
proof (intro allI impI)
  fix st y st'' assume "bindB m f st = Inr (y, st'')"
  then obtain x st' where m: "m st = Inr (x, st')" and f: "f x st' = Inr (y, st'')"
    by (auto simp: bindB_def bindR_Inr_iff)
  from assms(1) m obtain h where h: "st' = st\<lparr>hist := hist st @ h\<rparr>"
    "list_all (\<lambda>r. control_request (fst r)) h"
    "\<forall>ph\<in>P. \<forall>cs. \<exists>ph'\<in>Q. run_phases h (ph, cs) = Some (ph', cs)" unfolding controls_def by blast
  from assms(2) [of x] f obtain h' where h': "st'' = st'\<lparr>hist := hist st' @ h'\<rparr>"
    "list_all (\<lambda>r. control_request (fst r)) h'"
    "\<forall>ph\<in>Q. \<forall>cs. \<exists>ph'\<in>R. run_phases h' (ph, cs) = Some (ph', cs)" unfolding controls_def by blast
  have "\<exists>ph'\<in>R. run_phases (h @ h') (ph, cs) = Some (ph', cs)" if ph: "ph \<in> P" for ph cs
  proof -
    obtain ph1 where "ph1 \<in> Q" "run_phases h (ph, cs) = Some (ph1, cs)" using h(3) ph by blast
    moreover obtain ph2 where "ph2 \<in> R" "run_phases h' (ph1, cs) = Some (ph2, cs)"
      using h'(3) calculation(1) by blast
    ultimately show ?thesis by (auto simp: run_phases_append)
  qed
  with h(1,2) h'(1,2) show "\<exists>h. st'' = st\<lparr>hist := hist st @ h\<rparr> \<and>
      list_all (\<lambda>r. control_request (fst r)) h \<and>
      (\<forall>ph\<in>P. \<forall>cs. \<exists>ph'\<in>R. run_phases h (ph, cs) = Some (ph', cs))"
    by (intro exI [of _ "h @ h'"]) simp
qed

lemma controls_return [controls]: "controls (returnB x) P P"
  by (auto simp: controls_def returnB_def intro!: exI [of _ "[]"])

lemma controls_Nil [controls]: "controls (doB []) P P"
  by (simp add: controls_return)

lemma controls_Cons [controls]:
  "controls m P Q \<Longrightarrow> controls (doB ms) Q R \<Longrightarrow> controls (doB (m # ms)) P R"
  by (simp add: controls_bind)

lemma controls_fail [controls]: "controls (failB e) P Q"
  by (simp add: controls_def failB_def)

lemma controls_void [controls]: "controls m P Q \<Longrightarrow> controls (voidB m) P Q"
  unfolding voidB_def by (rule controls_bind) (auto intro: controls_return)

lemma controls_mono: "controls m P Q \<Longrightarrow> P' \<subseteq> P \<Longrightarrow> Q \<subseteq> Q' \<Longrightarrow> controls m P' Q'"
  unfolding controls_def by (meson subsetD)

lemma controls_if:
  "(b \<Longrightarrow> controls m P Q) \<Longrightarrow> (\<not> b \<Longrightarrow> controls n P Q) \<Longrightarrow> controls (if b then m else n) P Q"
  by simp

lemma controls_when: "controls m P Q \<Longrightarrow> controls (whenB b m) P UNIV"
  by (auto simp: whenB_def intro: controls_mono [of _ P Q] controls_mono [OF controls_return])

lemma controls_ioctl:
  assumes "control_request r" and "\<And>ph cs. ph \<in> P \<Longrightarrow> \<exists>ph'\<in>Q. phase_step r (ph, cs) = Some (ph', cs)"
  shows "controls (ioctl drv bad r) P Q"
  unfolding controls_def
proof (intro allI impI)
  fix st x st' assume "ioctl drv bad r st = Inr (x, st')"
  then have "st' = st\<lparr>hist := hist st @ [(r, gcore_map st)]\<rparr>"
    by (auto simp: ioctl_def Let_def split: if_splits)
  moreover have "\<exists>ph'\<in>Q. run_phases [(r, gcore_map st)] (ph, cs) = Some (ph', cs)" if "ph \<in> P" for ph cs
    using assms(2) [OF that, of cs] by auto
  ultimately show "\<exists>h. st' = st\<lparr>hist := hist st @ h\<rparr> \<and> list_all (\<lambda>r. control_request (fst r)) h \<and>
      (\<forall>ph\<in>P. \<forall>cs. \<exists>ph'\<in>Q. run_phases h (ph, cs) = Some (ph', cs))"
    using assms(1) by (intro exI [of _ "[(r, gcore_map st)]"]) simp
qed

lemma controls_idle [controls]: "controls (subcore_idle drv) P {Idle}"
  unfolding subcore_idle_def ioctl_neg_def by (intro controls_void controls_ioctl) auto

lemma controls_regs [controls]: "controls (subcore_get_regs drv) P P"
  unfolding subcore_get_regs_def ioctl_neg_def
  by (rule controls_bind, rule controls_ioctl [where Q = P]) (auto intro: controls_return)

lemma controls_mode_state [controls]: "controls (subcore_mode_state drv) P P"
  unfolding subcore_mode_state_def ioctl_neg_def
  by (rule controls_bind, rule controls_ioctl [where Q = P])
    (auto intro: controls_bind [OF controls_regs] controls_return)

lemma controls_sync [controls]: "controls (subcore_artix_sync drv b) P P"
  unfolding subcore_artix_sync_def ioctl_neg_def by (intro controls_void controls_ioctl) auto

lemma controls_reset [controls]: "controls (subcore_reset drv) P {Busy}"
  unfolding subcore_reset_def ioctl_neg_def by (intro controls_void controls_ioctl) auto

lemma controls_write:
  "s \<in> writable \<Longrightarrow> controls (subcore_write_packet drv p) {Running s} {Running s}"
  unfolding subcore_write_packet_def ioctl_neg_def by (intro controls_void controls_ioctl) auto

lemma controls_read:
  "s \<in> readable \<Longrightarrow> controls (subcore_read_packet drv p) {Running s} {Running s}"
  unfolding subcore_read_packet_def ioctl_neg_def
  by (rule controls_bind, rule controls_ioctl [where Q = "{Running s}"]) (auto intro: controls_return)

lemma exchange_states [simp]: "CTRL_WRITE \<in> writable" "SETUP_BURST \<in> writable" "GPIO_DNA \<in> writable"
  "CTRL_READ \<in> readable" "GPIO_DNA \<in> readable" "AGENT_STARTUP \<in> readable"
  by (simp_all add: writable_def readable_def)

lemmas controls_packets [controls] =
  controls_write [OF exchange_states(1)] controls_write [OF exchange_states(2)]
  controls_write [OF exchange_states(3)] controls_read [OF exchange_states(4)]
  controls_read [OF exchange_states(5)] controls_read [OF exchange_states(6)]

lemma placed_states [simp]: "CTRL_WRITE \<in> placeable" "CTRL_READ \<in> placeable"
  "CTRL_RUN \<in> placeable" "SETUP_BURST \<in> placeable" "DMA_WRITE \<in> placeable" "DMA_READ \<in> placeable"
  "CONFIG_SETUP \<in> placeable" "GPIO_DNA \<in> placeable" "AGENT_STARTUP \<in> placeable"
  by (simp_all add: placeable_def)

lemma controls_subcore_load:
  assumes "s \<in> placeable"
  shows "controls (helper_subcore_load drv sel s) P {Running s}"
  unfolding helper_subcore_load_def
proof (rule controls_if)
  assume "sel \<noteq> ARTIX_SELECT_BOTH"
  then have load: "controls (subcore_load drv \<lparr>subcore_state = s, cfg_select = sel\<rparr>) {Idle} {Loaded s}"
    unfolding subcore_load_def ioctl_neg_def using assms by (intro controls_void controls_ioctl) auto
  have run: "controls (subcore_run drv) {Loaded s} {Running s}"
    unfolding subcore_run_def ioctl_neg_def by (intro controls_void controls_ioctl) auto
  show "controls (doB [subcore_idle drv,
      subcore_load drv \<lparr>subcore_state = s, cfg_select = sel\<rparr>, subcore_run drv]) P {Running s}"
    by (rule load run controls)+
qed (rule controls_fail)

lemmas controls_loads [controls] = placed_states [THEN controls_subcore_load]

lemma controls_agent_load [controls]: "controls (helper_agent_load drv sel s) P {Idle}"
proof -
  have startup: "controls (agent_startup drv sel) P {Running AGENT_STARTUP}"
    unfolding agent_startup_def by (rule controls controls_if)+
  show ?thesis
    unfolding helper_agent_load_def Let_def
    by (rule controls controls_if controls_when [OF startup])+
qed

lemma controls_get_agent_status [controls]: "controls (helper_get_agent_status drv sel) P {Idle}"
  unfolding helper_get_agent_status_def by (rule controls)+

lemma controls_print_agent_status [controls]: "controls (helper_print_agent_status drv sel) P {Idle}"
  unfolding helper_print_agent_status_def by (rule controls controls_if)+

lemma controls_gvpu_packet_write [controls]: "controls (helper_gvpu_packet_write drv sel p) P {Idle}"
  unfolding helper_gvpu_packet_write_def by (rule controls)+

lemma controls_gvpu_load [controls]: "controls (helper_gvpu_load drv sel s) P {Idle}"
  unfolding helper_gvpu_load_def by (rule controls)+

lemma controls_memcore_load [controls]: "controls (helper_memcore_load drv sel s) P {Idle}"
  unfolding helper_memcore_load_def check_mem_load_def by (rule controls controls_if)+

lemma controls_check_state [controls]:
  "controls (helper_memcore_check_state drv sel s n) {Idle} {Idle}"
  unfolding helper_memcore_check_state_def by (rule controls controls_if)+

lemma controls_burst_setup [controls]: "controls (helper_burst_setup drv sel a n) P {Idle}"
  unfolding helper_burst_setup_def by (rule controls)+

lemma controls_gvpu_status [controls]: "controls (helper_get_agent_gvpu_status drv sel s c) P {Idle}"
  unfolding helper_get_agent_gvpu_status_def Let_def by (rule controls)+

lemma controls_boot_done [controls]: "controls (helper_subcore_set_boot_done drv) P {Idle}"
  unfolding helper_subcore_set_boot_done_def by (rule controls)+

lemma controls_set_led [controls]: "controls (helper_subcore_set_led drv l b) P {Idle}"
  unfolding helper_subcore_set_led_def by (rule controls)+

lemma controls_dna_id [controls]: "controls (helper_subcore_get_dna_id drv) P {Idle}"
  unfolding helper_subcore_get_dna_id_def by (rule controls)+

lemma controls_prep_write [controls]: "controls (subcore_prep_dma_write drv sel n) P {Running DMA_WRITE}"
  unfolding subcore_prep_dma_write_def by (rule controls)+

lemma controls_prep_read [controls]: "controls (subcore_prep_dma_read drv sel n) P {Running DMA_READ}"
  unfolding subcore_prep_dma_read_def by (rule controls_if controls)+

lemma controls_log_burst_count [controls]: "controls (log_burst_count drv sel) P {Idle}"
  unfolding log_burst_count_def by (rule controls)+

lemma controls_get_cycle [controls]: "controls (get_cycle drv sel) P {Idle}"
  unfolding get_cycle_def by (rule controls)+

lemma controls_print_units [controls]: "controls (print_units drv sels) {Idle} {Idle}"
  unfolding print_units_def by (induction sels) (auto intro: controls simp del: doB.simps)

lemma controls_poll_test [controls]: "controls (poll_test drv sel shown n) P {Idle}"
proof (induction n arbitrary: P)
  case 0
  show ?case by (simp only: poll_test.simps) (rule controls_if controls)+
next
  case (Suc n)
  show ?case by (simp only: poll_test.simps) (rule controls_if controls Suc.IH)+
qed

section \<open>Transfers\<close>

text \<open>
  The documented behaviour of the driver that the transfers rely on: configuring and preparing a
  channel fills in its cookie, and leaves its direction and buffer as they were requested.
\<close>

definition same_transfer :: "gcore_chan_cfg \<Rightarrow> gcore_chan_cfg \<Rightarrow> bool" where
  "same_transfer c c' \<longleftrightarrow>
     cfg_dir c' = cfg_dir c \<and> buf_offset c' = buf_offset c \<and> buf_size c' = buf_size c"

definition keeps_config :: "driver \<Rightarrow> bool" where
  "keeps_config drv \<longleftrightarrow>
     (\<forall>h c m. same_transfer c (out_cfg (drv (h @ [(GCORE_DMA_CONFIG c, m)]))) \<and>
       same_transfer c (out_cfg (drv (h @ [(GCORE_DMA_PREP c, m)]))))"

text \<open>The requests of preparing one direction.\<close>

definition prep_requests :: "gcore_chan_cfg \<Rightarrow> gcore_chan_cfg \<Rightarrow> u8 list \<Rightarrow> history" where
  "prep_requests c0 c m = [(GCORE_USERDEVS_READ, m), (GCORE_DMA_CONFIG c0, m), (GCORE_DMA_PREP c, m)]"

lemmas io_simps = bindB_def modifyB_def getB_def returnB_def failB_def liftB_def whenB_def voidB_def
  ioctl_neg_def ioctl_nz_def ioctl_def Let_def

lemma prep_tx_only:
  assumes "keeps_config drv" and "gcore_dma_prep drv (Some p) n None 0 st = Inr (u, st')" and "n \<noteq> 0"
  obtains c0 c where "hist st' = hist st @ prep_requests c0 c (gcore_map st)"
    "cfg_dir c = GCORE_MEM_TO_DEV" "buf_offset c = wrap32 p" "buf_size c = wrap32 n"
    "gcore_map st' = gcore_map st" "alloc_offset st' = alloc_offset st"
    "is_tx_prepared st'" "\<not> is_rx_prepared st'"
proof -
  define m where "m = gcore_map st"
  define a where "a = drv (hist st @ [(GCORE_USERDEVS_READ, m)])"
  define c0 where "c0 = (tx_config st)\<lparr>cfg_chan := tx_chan (out_userdev a), buf_offset := wrap32 p,
    buf_size := wrap32 n, cfg_dir := GCORE_MEM_TO_DEV\<rparr>"
  define c1 where "c1 = out_cfg (drv (hist st @ [(GCORE_USERDEVS_READ, m), (GCORE_DMA_CONFIG c0, m)]))"
  have "same_transfer c0 c1"
    using assms(1) unfolding keeps_config_def c1_def
    by (metis append.assoc append_Cons append_Nil)
  then have c1: "cfg_dir c1 = GCORE_MEM_TO_DEV" "buf_offset c1 = wrap32 p" "buf_size c1 = wrap32 n"
    by (simp_all add: same_transfer_def c0_def)
  have st': "hist st' = hist st @ prep_requests c0 (c1\<lparr>completion := tx_cmp (out_userdev a)\<rparr>) m \<and>
      gcore_map st' = m \<and> alloc_offset st' = alloc_offset st \<and> is_tx_prepared st' \<and> \<not> is_rx_prepared st'"
    using assms(2,3) unfolding gcore_dma_prep_def
    by (auto simp: io_simps config_tx_def prep_tx_def gcore_dma_calc_offset_def prep_requests_def
        m_def a_def c0_def c1_def bindR_Inr_iff split: if_splits)
  show thesis
    by (rule that [of c0 "c1\<lparr>completion := tx_cmp (out_userdev a)\<rparr>"]) (use st' c1 m_def in auto)
qed

lemma prep_rx_only:
  assumes "keeps_config drv" and "gcore_dma_prep drv None 0 (Some p) n st = Inr (u, st')" and "n \<noteq> 0"
  obtains c0 c where "hist st' = hist st @ prep_requests c0 c (gcore_map st)"
    "cfg_dir c = GCORE_DEV_TO_MEM" "buf_offset (rx_config st') = wrap32 p" "buf_size (rx_config st') = wrap32 n"
    "gcore_map st' = gcore_map st" "alloc_offset st' = alloc_offset st"
    "\<not> is_tx_prepared st'" "is_rx_prepared st'" "buf_size c = wrap32 n"
proof -
  define m where "m = gcore_map st"
  define a where "a = drv (hist st @ [(GCORE_USERDEVS_READ, m)])"
  define c0 where "c0 = (rx_config st)\<lparr>cfg_chan := rx_chan (out_userdev a), buf_offset := wrap32 p,
    buf_size := wrap32 n, cfg_dir := GCORE_DEV_TO_MEM\<rparr>"
  define c1 where "c1 = out_cfg (drv (hist st @ [(GCORE_USERDEVS_READ, m), (GCORE_DMA_CONFIG c0, m)]))"
  define c2 where "c2 = c1\<lparr>completion := rx_cmp (out_userdev a)\<rparr>"
  define c3 where "c3 = out_cfg (drv (hist st @ prep_requests c0 c2 m))"
  have "same_transfer c0 c1" "same_transfer c2 c3"
    using assms(1) unfolding keeps_config_def c1_def c3_def prep_requests_def
    by (metis append.assoc append_Cons append_Nil)+
  then have c: "cfg_dir c2 = GCORE_DEV_TO_MEM" "buf_size c2 = wrap32 n" "buf_offset c3 = wrap32 p" "buf_size c3 = wrap32 n"
    by (simp_all add: same_transfer_def c0_def c2_def)
  have st': "hist st' = hist st @ prep_requests c0 c2 m \<and> rx_config st' = c3 \<and>
      gcore_map st' = m \<and> alloc_offset st' = alloc_offset st \<and> \<not> is_tx_prepared st' \<and> is_rx_prepared st'"
    using assms(2,3) unfolding gcore_dma_prep_def
    by (auto simp: io_simps config_rx_def prep_rx_def gcore_dma_calc_offset_def prep_requests_def
        m_def a_def c0_def c1_def c2_def c3_def bindR_Inr_iff split: if_splits)
  show thesis
    by (rule that [of c0 c2]) (use st' c m_def in auto)
qed

lemma prep_nothing:
  assumes "gcore_dma_prep drv tx 0 rx 0 st = Inr (u, st')"
  shows "\<not> is_tx_prepared st' \<and> \<not> is_rx_prepared st'"
  using assms by (auto simp: gcore_dma_prep_def io_simps bindR_Inr_iff split: if_splits)

lemma start_tx_only:
  assumes "gcore_dma_start drv w st = Inr (u, st')" and "is_tx_prepared st" "\<not> is_rx_prepared st"
  obtains t where "st' = st\<lparr>hist := hist st @ [(GCORE_DMA_START t, gcore_map st)], is_tx_prepared := False\<rparr>"
  using assms by (auto simp: gcore_dma_start_def start_tx_def io_simps bindR_Inr_iff split: if_splits)

lemma start_rx_only:
  assumes "gcore_dma_start drv w st = Inr (u, st')" and "\<not> is_tx_prepared st" "is_rx_prepared st"
  obtains t m where
    "st' = st\<lparr>hist := hist st @ [(GCORE_DMA_START t, gcore_map st)], gcore_map := m, is_rx_prepared := False\<rparr>"
    "blitR (gcore_map st) (buf_offset (rx_config st))
       (map (rx_data (drv (hist st'))) [0..<buf_size (rx_config st)]) = Inr m"
  using assms by (auto simp: gcore_dma_start_def start_rx_def io_simps bindR_Inr_iff split: if_splits)

lemma start_unprepared:
  "\<not> is_tx_prepared st \<Longrightarrow> \<not> is_rx_prepared st \<Longrightarrow> gcore_dma_start drv w st = Inl Bad_state"
  by (simp add: gcore_dma_start_def io_simps)

text \<open>A transmission, from preparing to starting it.\<close>

lemma transmit:
  assumes "keeps_config drv"
    and "doB [gcore_dma_prep drv (Some p) n None 0, gcore_dma_start drv w] st = Inr (u, st')"
  obtains h where "hist st' = hist st @ h"
    "gcore_map st' = gcore_map st" "alloc_offset st' = alloc_offset st"
    "\<And>s cs. s \<in> dma_states GCORE_MEM_TO_DEV \<Longrightarrow> run_phases h (Running s, cs) = Some (Running s, [])"
    "\<And>cs. sent cs h = take (wrap32 n) (drop (wrap32 p) (gcore_map st))"
    "\<And>cs. received drv (hist st) cs h = []"
proof -
  from assms(2) obtain v st1 where prep: "gcore_dma_prep drv (Some p) n None 0 st = Inr (v, st1)"
    and start: "gcore_dma_start drv w st1 = Inr ((), st')"
    by (auto simp: bindB_def returnB_def bindR_Inr_iff)
  have n: "n \<noteq> 0"
  proof
    assume "n = 0"
    with prep have "\<not> is_tx_prepared st1 \<and> \<not> is_rx_prepared st1" using prep_nothing by metis
    with start show False by (simp add: start_unprepared)
  qed
  obtain c0 c where c: "hist st1 = hist st @ prep_requests c0 c (gcore_map st)"
    "cfg_dir c = GCORE_MEM_TO_DEV" "buf_offset c = wrap32 p" "buf_size c = wrap32 n"
    "gcore_map st1 = gcore_map st" "alloc_offset st1 = alloc_offset st"
    "is_tx_prepared st1" "\<not> is_rx_prepared st1"
    using prep_tx_only [OF assms(1) prep n] by metis
  from start_tx_only [OF start c(7,8)] obtain t where
    t: "st' = st1\<lparr>hist := hist st1 @ [(GCORE_DMA_START t, gcore_map st1)], is_tx_prepared := False\<rparr>" .
  show thesis
    by (rule that [of "prep_requests c0 c (gcore_map st) @ [(GCORE_DMA_START t, gcore_map st)]"])
      (use c t in \<open>auto simp: prep_requests_def\<close>)
qed

text \<open>What was moved between two states, whatever was prepared before.\<close>

definition moved :: "driver \<Rightarrow> board \<Rightarrow> board \<Rightarrow> u8 list \<Rightarrow> u8 list \<Rightarrow> bool" where
  "moved drv st st' out inp \<longleftrightarrow>
     (\<exists>h. hist st' = hist st @ h \<and> (\<forall>cs. sent cs h = out \<and> received drv (hist st) cs h = inp))"

lemma moved_refl: "hist st' = hist st \<Longrightarrow> moved drv st st' [] []"
  by (auto simp: moved_def)

lemma moved_trans:
  assumes "moved drv st st1 o1 i1" and "moved drv st1 st2 o2 i2"
  shows "moved drv st st2 (o1 @ o2) (i1 @ i2)"
proof -
  from assms obtain h h' where "hist st1 = hist st @ h" "hist st2 = hist st1 @ h'"
    "\<forall>cs. sent cs h = o1 \<and> received drv (hist st) cs h = i1"
    "\<forall>cs. sent cs h' = o2 \<and> received drv (hist st1) cs h' = i2" by (auto simp: moved_def)
  then show ?thesis
    unfolding moved_def by (intro exI [of _ "h @ h'"]) (simp add: sent_append received_append)
qed

lemma controls_moved:
  assumes "controls m P Q" and "m st = Inr (x, st')"
  shows "moved drv st st' [] []" "gcore_map st' = gcore_map st" "alloc_offset st' = alloc_offset st"
    "is_tx_prepared st' = is_tx_prepared st" "is_rx_prepared st' = is_rx_prepared st"
    "rx_config st' = rx_config st"
proof -
  from assms obtain h where h: "st' = st\<lparr>hist := hist st @ h\<rparr>"
    "list_all (\<lambda>r. control_request (fst r)) h" unfolding controls_def by blast
  then show "moved drv st st' [] []"
    by (auto simp: moved_def control_sent control_received intro!: exI [of _ h])
  from h(1) show "gcore_map st' = gcore_map st" "alloc_offset st' = alloc_offset st"
    "is_tx_prepared st' = is_tx_prepared st" "is_rx_prepared st' = is_rx_prepared st"
    "rx_config st' = rx_config st" by simp_all
qed

lemma transmit_moved:
  assumes "keeps_config drv"
    and "doB [gcore_dma_prep drv (Some p) n None 0, gcore_dma_start drv w] st = Inr (u, st')"
  shows "moved drv st st' (take (wrap32 n) (drop (wrap32 p) (gcore_map st))) []"
    "gcore_map st' = gcore_map st" "alloc_offset st' = alloc_offset st"
proof -
  from transmit [OF assms] obtain h where "hist st' = hist st @ h"
    "gcore_map st' = gcore_map st" "alloc_offset st' = alloc_offset st"
    "\<And>cs. sent cs h = take (wrap32 n) (drop (wrap32 p) (gcore_map st))"
    "\<And>cs. received drv (hist st) cs h = []" by metis
  then show "moved drv st st' (take (wrap32 n) (drop (wrap32 p) (gcore_map st))) []"
    "gcore_map st' = gcore_map st" "alloc_offset st' = alloc_offset st"
    by (auto simp: moved_def)
qed

text \<open>A reception: preparing, handing the subcore over to the device, and starting.\<close>

lemma reception:
  assumes "keeps_config drv" and "controls m P {Running DMA_READ}"
    and "doB [gcore_dma_prep drv None 0 (Some p) n, m, gcore_dma_start drv w] st = Inr (u, st')"
  obtains h bs where "hist st' = hist st @ h"
    "blitR (gcore_map st) (wrap32 p) bs = Inr (gcore_map st')" "length bs = wrap32 n"
    "\<And>ph cs. ph \<in> P \<Longrightarrow> run_phases h (ph, cs) = Some (Running DMA_READ, [])"
    "\<And>cs. sent cs h = []" "\<And>cs. received drv (hist st) cs h = bs"
    "alloc_offset st' = alloc_offset st"
proof -
  from assms(3) obtain v st1 st2 where prep: "gcore_dma_prep drv None 0 (Some p) n st = Inr (v, st1)"
    and load: "m st1 = Inr ((), st2)" and start: "gcore_dma_start drv w st2 = Inr ((), st')"
    by (auto simp: bindB_def returnB_def bindR_Inr_iff)
  note frame = controls_moved(2-6) [OF assms(2) load]
  from load assms(2) obtain g where g: "st2 = st1\<lparr>hist := hist st1 @ g\<rparr>"
    "list_all (\<lambda>r. control_request (fst r)) g"
    "\<forall>ph\<in>P. \<forall>cs. \<exists>ph'\<in>{Running DMA_READ}. run_phases g (ph, cs) = Some (ph', cs)"
    unfolding controls_def by blast
  have n: "n \<noteq> 0"
  proof
    assume "n = 0"
    with prep have "\<not> is_tx_prepared st1 \<and> \<not> is_rx_prepared st1" using prep_nothing by metis
    with start frame show False by (simp add: start_unprepared)
  qed
  obtain c0 c where c: "hist st1 = hist st @ prep_requests c0 c (gcore_map st)"
    "cfg_dir c = GCORE_DEV_TO_MEM" "buf_offset (rx_config st1) = wrap32 p" "buf_size (rx_config st1) = wrap32 n"
    "gcore_map st1 = gcore_map st" "alloc_offset st1 = alloc_offset st"
    "\<not> is_tx_prepared st1" "is_rx_prepared st1" "buf_size c = wrap32 n"
    using prep_rx_only [OF assms(1) prep n] by metis
  from start_rx_only [OF start] frame c(7,8) obtain t m where
    t: "st' = st2\<lparr>hist := hist st2 @ [(GCORE_DMA_START t, gcore_map st2)], gcore_map := m, is_rx_prepared := False\<rparr>"
    "blitR (gcore_map st2) (buf_offset (rx_config st2))
       (map (rx_data (drv (hist st'))) [0..<buf_size (rx_config st2)]) = Inr m" by metis
  let ?h = "prep_requests c0 c (gcore_map st) @ g @ [(GCORE_DMA_START t, gcore_map st)]"
  have hist: "hist st' = hist st @ ?h" using t(1) g(1) c(1,5) frame(1) by simp
  show thesis
  proof (rule that [of ?h "map (rx_data (drv (hist st'))) [0..<wrap32 n]"])
    show "blitR (gcore_map st) (wrap32 p) (map (rx_data (drv (hist st'))) [0..<wrap32 n]) =
        Inr (gcore_map st')"
      using t c(3-5) frame by simp
    show "run_phases ?h (ph, cs) = Some (Running DMA_READ, [])" if "ph \<in> P" for ph cs
      using g(3) that c(2) by (auto simp: prep_requests_def run_phases_append)
    have pend: "pend cs (g @ h') = pend cs h'" for cs h'
      using g(2) by (induction cs g rule: pend.induct) auto
    show "sent cs ?h = []" for cs
      using c(2) g(2) by (simp add: prep_requests_def sent_append control_sent pend [of _ "[]", simplified])
    show "received drv (hist st) cs ?h = map (rx_data (drv (hist st'))) [0..<wrap32 n]" for cs
      using c(2,9) g(2) hist
      by (simp add: prep_requests_def received_append control_received pend [of _ "[]", simplified])
  qed (use hist t frame c in simp_all)
qed


lemma reception_moved:
  assumes "keeps_config drv" and "controls m P {Running DMA_READ}"
    and "doB [gcore_dma_prep drv None 0 (Some 0) n, m, gcore_dma_start drv w] st = Inr (u, st')"
  obtains bs where "moved drv st st' [] bs" "length bs = wrap32 n"
    "gcore_map st' = bs @ drop (wrap32 n) (gcore_map st)" "alloc_offset st' = alloc_offset st"
proof -
  from reception [OF assms] obtain h bs where h: "hist st' = hist st @ h"
    "blitR (gcore_map st) (wrap32 0) bs = Inr (gcore_map st')" "length bs = wrap32 n"
    "\<And>cs. sent cs h = []" "\<And>cs. received drv (hist st) cs h = bs"
    "alloc_offset st' = alloc_offset st" by metis
  have "gcore_map st' = bs @ drop (wrap32 n) (gcore_map st)"
    using h(2,3) by (auto simp: blitR_def wrap32_def split: if_splits)
  with h show thesis by (intro that [of bs]) (auto simp: moved_def)
qed

end
