(* ===== verification/Artix_Safety.thy ===== *)
theory Artix_Safety
  imports Board_Protocol
begin

text \<open>
  The operations of board/artix.c keep to the protocol of theory \<^theory_text>\<open>Board_Protocol\<close>, whatever
  the driver answers.
\<close>

definition obeys :: "'a io \<Rightarrow> phase set \<Rightarrow> phase set \<Rightarrow> bool" where
  "obeys m P Q \<longleftrightarrow> (\<forall>st x st'. m st = Inr (x, st') \<longrightarrow>
     (\<exists>h. hist st' = hist st @ h \<and>
       (\<forall>ph\<in>P. \<forall>cs. \<exists>ph'\<in>Q. \<exists>cs'. run_phases h (ph, cs) = Some (ph', cs'))))"

named_theorems obeys \<open>operations that obey the protocol\<close>

lemma obeys_controls: "controls m P Q \<Longrightarrow> obeys m P Q"
  unfolding controls_def obeys_def by (metis board.select_convs(1) board.surjective board.update_convs(1))

lemma obeys_bind [obeys]:
  assumes "obeys m P Q" and "\<And>x. obeys (f x) Q R"
  shows "obeys (bindB m f) P R"
  unfolding obeys_def
proof (intro allI impI)
  fix st y st'' assume "bindB m f st = Inr (y, st'')"
  then obtain x st' where m: "m st = Inr (x, st')" and f: "f x st' = Inr (y, st'')"
    by (auto simp: bindB_def bindR_Inr_iff)
  from assms(1) m obtain h where h: "hist st' = hist st @ h"
    "\<forall>ph\<in>P. \<forall>cs. \<exists>ph'\<in>Q. \<exists>cs'. run_phases h (ph, cs) = Some (ph', cs')" unfolding obeys_def by blast
  from assms(2) [of x] f obtain h' where h': "hist st'' = hist st' @ h'"
    "\<forall>ph\<in>Q. \<forall>cs. \<exists>ph'\<in>R. \<exists>cs'. run_phases h' (ph, cs) = Some (ph', cs')" unfolding obeys_def by blast
  have "\<exists>ph'\<in>R. \<exists>cs'. run_phases (h @ h') (ph, cs) = Some (ph', cs')" if ph: "ph \<in> P" for ph cs
  proof -
    obtain ph1 cs1 where "ph1 \<in> Q" "run_phases h (ph, cs) = Some (ph1, cs1)" using h(2) ph by blast
    moreover obtain ph2 cs2 where "ph2 \<in> R" "run_phases h' (ph1, cs1) = Some (ph2, cs2)"
      using h'(2) calculation(1) by blast
    ultimately show ?thesis by (auto simp: run_phases_append)
  qed
  with h(1) h'(1) show "\<exists>h. hist st'' = hist st @ h \<and>
      (\<forall>ph\<in>P. \<forall>cs. \<exists>ph'\<in>R. \<exists>cs'. run_phases h (ph, cs) = Some (ph', cs'))"
    by (intro exI [of _ "h @ h'"]) simp
qed

lemma obeys_mono: "obeys m P Q \<Longrightarrow> P' \<subseteq> P \<Longrightarrow> Q \<subseteq> Q' \<Longrightarrow> obeys m P' Q'"
  unfolding obeys_def by (meson subsetD)

text \<open>Operations that leave the history alone.\<close>

lemma obeys_local: "(\<And>st x st'. m st = Inr (x, st') \<Longrightarrow> hist st' = hist st) \<Longrightarrow> obeys m P P"
  unfolding obeys_def by (metis append_Nil2 run_phases.simps(1))

lemma obeys_simple [obeys]:
  "obeys (returnB x) P P" "obeys (doB []) P P" "obeys (liftB r) P P" "obeys (map_write p bs) P P"
  "obeys (map_read p n) P P" "obeys (gcore_dma_alloc n b) P P" "obeys gcore_dma_alloc_reset P P"
  "obeys (copy_out p i n bs) P P"
  by (rule obeys_local; auto simp: io_simps map_write_def map_read_def gcore_dma_alloc_def
      gcore_dma_alloc_reset_def copy_out_def bindR_Inr_iff split: if_splits)+

lemma obeys_Cons [obeys]: "obeys m P Q \<Longrightarrow> obeys (doB ms) Q R \<Longrightarrow> obeys (doB (m # ms)) P R"
  by (simp add: obeys_bind)

lemma obeys_fail [obeys]: "obeys (failB e) P Q"
  by (simp add: obeys_def failB_def)

lemma obeys_if: "(b \<Longrightarrow> obeys m P Q) \<Longrightarrow> (\<not> b \<Longrightarrow> obeys n P Q) \<Longrightarrow> obeys (if b then m else n) P Q"
  by simp

lemma obeys_when: "obeys m P P \<Longrightarrow> obeys (whenB b m) P P"
  by (simp add: whenB_def obeys_simple)

lemma obeys_void: "obeys m P Q \<Longrightarrow> obeys (voidB m) P Q"
  unfolding voidB_def by (rule obeys_bind) (auto intro: obeys_simple)

lemma obeys_loop: "(\<And>x. x \<in> set xs \<Longrightarrow> obeys (f x) P P) \<Longrightarrow> obeys (doB (map f xs)) P P"
  by (induction xs) (auto intro: obeys_simple obeys_bind)

lemma obeys_foldB: "(\<And>x s. x \<in> set xs \<Longrightarrow> obeys (f x s) P P) \<Longrightarrow> obeys (foldB f xs s) P P"
  by (induction xs arbitrary: s) (auto intro: obeys_simple obeys_bind)

lemmas obeys_helpers [obeys] = controls [THEN obeys_controls]

section \<open>The transfers\<close>

lemma obeys_transmit:
  assumes "keeps_config drv" and "s \<in> dma_states GCORE_MEM_TO_DEV"
  shows "obeys (doB [gcore_dma_prep drv (Some p) n None 0, gcore_dma_start drv w]) {Running s} {Running s}"
  unfolding obeys_def
proof (intro allI impI)
  fix st x st'
  assume run: "doB [gcore_dma_prep drv (Some p) n None 0, gcore_dma_start drv w] st = Inr (x, st')"
  from transmit [OF assms(1) run] obtain h where "hist st' = hist st @ h"
    "\<And>s cs. s \<in> dma_states GCORE_MEM_TO_DEV \<Longrightarrow> run_phases h (Running s, cs) = Some (Running s, [])"
    by metis
  with assms(2) show "\<exists>h. hist st' = hist st @ h \<and>
      (\<forall>ph\<in>{Running s}. \<forall>cs. \<exists>ph'\<in>{Running s}. \<exists>cs'. run_phases h (ph, cs) = Some (ph', cs'))"
    by blast
qed

lemma obeys_receive:
  assumes "keeps_config drv"
  shows "obeys (receive_bytes drv sel p n nb) P {Running DMA_READ}"
  unfolding obeys_def
proof (intro allI impI)
  fix st x st' assume run: "receive_bytes drv sel p n nb st = Inr (x, st')"
  from reception [OF assms controls_prep_read [where P = UNIV] run [unfolded receive_bytes_def]]
  obtain h where "hist st' = hist st @ h"
    "\<And>ph cs. run_phases h (ph, cs) = Some (Running DMA_READ, [])" by (metis UNIV_I)
  then show "\<exists>h. hist st' = hist st @ h \<and>
      (\<forall>ph\<in>P. \<forall>cs. \<exists>ph'\<in>{Running DMA_READ}. \<exists>cs'. run_phases h (ph, cs) = Some (ph', cs'))"
    by blast
qed

lemma dma_write_state [simp]: "DMA_WRITE \<in> dma_states GCORE_MEM_TO_DEV" by simp

lemma obeys_prep_start:
  assumes "keeps_config drv" and "s \<in> dma_states GCORE_MEM_TO_DEV"
  shows "obeys (gcore_dma_prep_start drv w (Some p) n None 0) {Running s} {Running s}"
  unfolding gcore_dma_prep_start_def using assms by (rule obeys_transmit)

lemma obeys_send_bytes:
  assumes "keeps_config drv"
  shows "obeys (send_bytes drv p bs i n) {Running DMA_WRITE} {Running DMA_WRITE}"
  unfolding send_bytes_def doB.simps(2) [of "map_write _ _"]
  by (rule obeys obeys_transmit [OF assms dma_write_state])+

lemma obeys_write_data:
  assumes "keeps_config drv"
  shows "obeys (write_in_chunks drv bs n) {Running DMA_WRITE} {Running DMA_WRITE}"
    and "obeys (write_at_once drv bs n nb) {Running DMA_WRITE} {Running DMA_WRITE}"
  unfolding write_in_chunks_def write_at_once_def Let_def
  by (rule obeys_loop obeys_when obeys obeys_send_bytes [OF assms]
      obeys_prep_start [OF assms dma_write_state])+

lemma obeys_read_data:
  assumes "keeps_config drv"
  shows "obeys (read_in_chunks drv sel bs n) P UNIV"
    and "obeys (read_at_once drv sel bs n nb) P UNIV"
proof -
  have receive: "obeys (receive_bytes drv sel p n nb) UNIV UNIV" for p n nb
    using obeys_receive [OF assms] by (rule obeys_mono) auto
  show "obeys (read_in_chunks drv sel bs n) P UNIV" "obeys (read_at_once drv sel bs n nb) P UNIV"
    unfolding read_in_chunks_def read_at_once_def Let_def
    by (rule obeys_mono [OF _ subset_UNIV subset_refl], (rule obeys_foldB obeys_if obeys receive)+)+
qed

section \<open>The operations of the units\<close>

lemma obeys_mem_write [obeys]:
  assumes "keeps_config drv"
  shows "obeys (artix_mem_write drv sel a bs n) P {Idle}"
  unfolding artix_mem_write_def Let_def
  by (rule obeys_if obeys obeys_write_data [OF assms])+

lemma obeys_mem_read [obeys]:
  assumes "keeps_config drv"
  shows "obeys (artix_mem_read drv sel a bs n) P {Idle}"
  unfolding artix_mem_read_def Let_def
  by (rule obeys_if obeys obeys_read_data [OF assms])+

lemma obeys_setup_stim:
  assumes "keeps_config drv"
  shows "obeys (artix_setup_stim drv stim sel a) P {Idle}"
  unfolding artix_setup_stim_def
  by (rule obeys obeys_prep_start [OF assms dma_write_state])+

lemma obeys_run_stim [obeys]:
  assumes "keeps_config drv"
  shows "obeys (artix_run_stim drv stim a1 a2) P UNIV"
proof -
  have prepare: "obeys (case mode of
      STIM_MODE_DUAL \<Rightarrow> doB [artix_setup_stim drv stim ARTIX_SELECT_A1 a1,
        artix_setup_stim drv stim ARTIX_SELECT_A2 a2]
    | STIM_MODE_A1 \<Rightarrow> artix_setup_stim drv stim ARTIX_SELECT_A1 a1
    | STIM_MODE_A2 \<Rightarrow> artix_setup_stim drv stim ARTIX_SELECT_A2 a2
    | STIM_MODE_NONE \<Rightarrow> failB Out_of_range) P {Idle}" for mode
    by (cases mode) (simp_all only: stim_modes.simps, (rule obeys obeys_setup_stim [OF assms])+)
  show ?thesis
    unfolding artix_run_stim_def Let_def
    by (rule obeys_mono [OF _ subset_refl subset_UNIV], (rule prepare obeys_if obeys)+)
qed

lemma obeys_fail_pins [obeys]:
  assumes "keeps_config drv"
  shows "obeys (artix_get_stim_fail_pins drv) UNIV UNIV"
  unfolding artix_get_stim_fail_pins_def
proof (rule obeys_foldB)
  fix x :: "artix_selects \<times> nat" and fp
  obtain sel first where x: "x = (sel, first)" by (cases x)
  have rx: "obeys (doB [map_write p bs, gcore_dma_prep drv None 0 (Some p) n, gcore_dma_start drv w])
      {Running DMA_READ} UNIV" for p bs n w
  proof -
    have "obeys (doB [gcore_dma_prep drv None 0 (Some p) n, returnB (), gcore_dma_start drv w])
        {Running DMA_READ} UNIV"
      unfolding obeys_def
    proof (intro allI impI)
      fix st u st'
      assume "doB [gcore_dma_prep drv None 0 (Some p) n, returnB (), gcore_dma_start drv w] st = Inr (u, st')"
      from reception [OF assms controls_return this] obtain h where "hist st' = hist st @ h"
        "\<And>cs. run_phases h (Running DMA_READ, cs) = Some (Running DMA_READ, [])"
        by (metis singletonI)
      then show "\<exists>h. hist st' = hist st @ h \<and>
          (\<forall>ph\<in>{Running DMA_READ}. \<forall>cs. \<exists>ph'\<in>UNIV. \<exists>cs'. run_phases h (ph, cs) = Some (ph', cs'))"
        by blast
    qed
    moreover have "doB [gcore_dma_prep drv None 0 (Some p) n, returnB (), gcore_dma_start drv w] =
        doB [gcore_dma_prep drv None 0 (Some p) n, gcore_dma_start drv w]"
      by (simp add: bindB_def returnB_def)
    ultimately show ?thesis by (simp only: doB.simps(2) [of "map_write _ _"]) (rule obeys, rule obeys)
  qed
  show "obeys (fail_pins_of_unit drv x fp) UNIV UNIV"
    unfolding fail_pins_of_unit_def x split
    by (rule rx obeys)+
qed

lemma obeys_config [obeys]:
  assumes "keeps_config drv"
  shows "obeys (artix_config drv file sel path) UNIV UNIV"
proof -
  have "CONFIG_SETUP \<in> dma_states GCORE_MEM_TO_DEV" by simp
  note tx = obeys_prep_start [OF assms this]
  have "obeys (case file path of None \<Rightarrow> failB Not_found | Some bs \<Rightarrow> f bs) P Q"
    if "\<And>bs. obeys (f bs) P Q" for f :: "u8 list \<Rightarrow> unit io" and P Q
    using that by (cases "file path") (auto intro: obeys_fail)
  note opened = this
  show ?thesis
    unfolding artix_config_def
    by (rule obeys_mono [OF _ subset_refl subset_UNIV], (rule obeys_if opened obeys_void tx obeys)+)
qed

lemma obeys_load_stim [obeys]:
  assumes "keeps_config drv"
  shows "obeys (artix_load_stim lz4 drv stim a1 a2) UNIV UNIV"
proof -
  define R where "R s s' \<longleftrightarrow> (\<exists>h. hist (snd s') = hist (snd s) @ h \<and>
    (\<forall>ph cs. run_phases h (ph, cs) \<noteq> None))" for s s' :: "nat \<times> board"
  have refl: "R s s" for s by (simp add: R_def)
  have trans: "R s1 s2 \<Longrightarrow> R s2 s3 \<Longrightarrow> R s1 s3" for s1 s2 s3
    unfolding R_def by (metis (no_types, opaque_lifting) append.assoc bind.bind_lunit
        not_Some_eq old.prod.exhaust run_phases_append)
  have step: "R s s'" if "write_chunk drv sel a c s = Inr s'" for sel a c s s'
  proof -
    from that obtain bs where "artix_mem_write drv sel a bs (vec_data_size c) (snd s) = Inr ((), snd s')"
      by (auto simp: write_chunk_def bindR_Inr_iff split_beta)
    with obeys_mem_write [OF assms, of sel a bs _ UNIV] show ?thesis
      unfolding obeys_def R_def by fastforce
  qed
  have unit: "obeys (load_unit lz4 drv a sel x) UNIV UNIV" for a sel x
    unfolding obeys_def
  proof (intro allI impI)
    fix st y st' assume run: "load_unit lz4 drv a sel x st = Inr (y, st')"
    obtain stim k where x: "x = (stim, k)" by (cases x)
    from run obtain stim' n st1 where drain: "drain (Suc (unit_num_chunks sel stim)) (next_chunk lz4 sel)
        (write_chunk drv sel (a sel)) stim (0, st) = Inr (stim', n, st1)"
      and fin: "helper_gvpu_load drv sel TEST_CLEANUP st1 = Inr ((), st')"
      by (auto simp: load_unit_def x bindR_Inr_iff)
    from drain_related [of _ _ _ _ _ _ _ R, OF drain refl trans step] have "R (0, st) (n, st1)" .
    moreover from fin have "R (n, st1) (n, st')"
      using obeys_controls [OF controls_gvpu_load, of drv sel TEST_CLEANUP UNIV]
      unfolding obeys_def R_def by fastforce
    ultimately have "R (0, st) (n, st')" by (rule trans)
    then show "\<exists>h. hist st' = hist st @ h \<and>
        (\<forall>ph\<in>UNIV. \<forall>cs. \<exists>ph'\<in>UNIV. \<exists>cs'. run_phases h (ph, cs) = Some (ph', cs'))"
      unfolding R_def by auto
  qed
  show ?thesis
    unfolding artix_load_stim_def by (rule obeys_if obeys_foldB obeys unit)+
qed

section \<open>A driver\<close>

text \<open>A driver that accepts every request and answers with the same status.\<close>

definition steady_driver :: "u32 \<Rightarrow> driver" where
  "steady_driver packet_status h =
     \<lparr>ret = 0,
      out_regs = \<lparr>control = 0, status = 0, reg_addr = 0, reg_data = 0,
        a1_status = GCORE_AGENT_STARTUP_DONE_MASK, a2_status = GCORE_AGENT_STARTUP_DONE_MASK\<rparr>,
      out_userdev = \<lparr>tx_chan = 1, tx_cmp = 2, rx_chan = 3, rx_cmp = 4\<rparr>,
      out_packet = packet 0 0 packet_status,
      out_cfg = (case fst (last h) of GCORE_DMA_CONFIG c \<Rightarrow> c | GCORE_DMA_PREP c \<Rightarrow> c
        | _ \<Rightarrow> \<lparr>cfg_chan = 0, cfg_dir = GCORE_TRANS_NONE, buf_offset = 0, buf_size = 0,
            completion = 0, cookie = 0\<rparr>),
      rx_data = (\<lambda>_. 0)\<rparr>"

definition fresh_board :: "u8 list \<Rightarrow> board" where
  "fresh_board mem =
     (let c = \<lparr>cfg_chan = 0, cfg_dir = GCORE_MEM_TO_DEV, buf_offset = 0, buf_size = 0,
        completion = 0, cookie = 0\<rparr> in
      \<lparr>hist = [], gcore_map = mem, alloc_offset = 0,
       userdev = \<lparr>tx_chan = 0, tx_cmp = 0, rx_chan = 0, rx_cmp = 0\<rparr>,
       rx_config = c, tx_config = c, is_rx_prepared = False, is_tx_prepared = False\<rparr>)"

lemma steady_keeps_config: "keeps_config (steady_driver d)"
  by (simp add: keeps_config_def same_transfer_def steady_driver_def)

end
