(* ===== verification/Artix_Transfer.thy ===== *)
theory Artix_Transfer
  imports Artix_Safety
begin

text \<open>
  What the operations of board/artix.c move between a caller's buffer and the device, byte for byte,
  and that they return when the driver answers as the hardware is expected to.
\<close>

lemma bindB_assoc: "bindB (bindB m f) g = bindB m (\<lambda>x. bindB (f x) g)"
  by (simp add: bindB_def bindR_assoc case_prod_unfold fun_eq_iff)

lemma doB_append: "doB (xs @ ys) = bindB (doB xs) (\<lambda>_. doB ys)"
  by (induction xs) (simp_all add: bindB_assoc, simp add: bindB_def returnB_def fun_eq_iff)

lemma doB_Inr_iff:
  "doB [] st = Inr (u, st') \<longleftrightarrow> st' = st"
  "doB (m # ms) st = Inr (u, st') \<longleftrightarrow> (\<exists>st1. m st = Inr ((), st1) \<and> doB ms st1 = Inr (u, st'))"
  by (auto simp: bindB_def returnB_def bindR_Inr_iff)

lemma bindB_Inr_iff:
  "bindB m f st = Inr (y, st') \<longleftrightarrow> (\<exists>x st1. m st = Inr (x, st1) \<and> f x st1 = Inr (y, st'))"
  by (auto simp: bindB_def bindR_Inr_iff)

lemma map_write_Inr:
  "map_write p bs st = Inr (u, st') \<longleftrightarrow>
     (\<exists>m. blitR (gcore_map st) p bs = Inr m \<and> st' = st\<lparr>gcore_map := m\<rparr>)"
  by (auto simp: map_write_def io_simps bindR_Inr_iff)

lemma map_write_moved: "map_write p bs st = Inr (u, st') \<Longrightarrow> moved drv st st' [] []"
  by (auto simp: map_write_Inr intro: moved_refl)

lemma blit_front: "blitR m 0 bs = Inr m' \<Longrightarrow> m' = bs @ drop (length bs) m \<and> length bs \<le> length m"
  by (auto simp: blitR_def split: if_splits)

lemma wrap32_0 [simp]: "wrap32 0 = 0"
  by simp

lemma alloc_reset_Inr: "gcore_dma_alloc_reset st = Inr (u, st') \<longleftrightarrow> st' = st\<lparr>alloc_offset := 0\<rparr>"
  by (auto simp: gcore_dma_alloc_reset_def io_simps)

lemma alloc_Inr:
  "gcore_dma_alloc n b st = Inr (p, st') \<longleftrightarrow> p = alloc_offset st \<and>
     st' = st\<lparr>alloc_offset := wrap32 (alloc_offset st + gcore_dma_calc_size n b)\<rparr>"
  by (auto simp: gcore_dma_alloc_def io_simps)

section \<open>Writing\<close>

lemma send_bytes_moved:
  assumes "keeps_config drv" and "send_bytes drv 0 bs i n st = Inr (u, st')" and "n < 2 ^ 32"
  shows "moved drv st st' (take n (drop i bs)) [] \<and> i + n \<le> length bs"
proof -
  from assms(2) obtain st1 where n: "i + n \<le> length bs"
    and w: "map_write 0 (take n (drop i bs)) st = Inr ((), st1)"
    and tx: "doB [gcore_dma_prep drv (Some 0) n None 0, gcore_dma_start drv GCORE_WAIT_TX] st1 = Inr (u, st')"
    by (auto simp: send_bytes_def bytes_at_def bindB_Inr_iff liftB_def simp del: doB.simps
        simp: doB_Inr_iff(2) [of "map_write _ _"] split: if_splits)
  have "take n (gcore_map st1) = take n (drop i bs)"
    using w n by (auto simp: map_write_Inr dest!: blit_front)
  with moved_trans [OF map_write_moved [OF w] transmit_moved(1) [OF assms(1) tx]] assms(3) n
  show ?thesis by simp
qed

lemma send_loop_moved:
  assumes "keeps_config drv"
    and "doB (map (\<lambda>i. doB [map_write 0 z, send_bytes drv 0 bs (i * S) S]) [0..<k]) st = Inr (u, st')"
    and "S < 2 ^ 32"
  shows "moved drv st st' (take (k * S) bs) [] \<and> k * S \<le> length bs"
  using assms(2)
proof (induction k arbitrary: u st')
  case 0
  then show ?case by (simp add: returnB_def moved_refl)
next
  case (Suc k)
  from Suc.prems obtain st1 st2 st3 where
    1: "doB (map (\<lambda>i. doB [map_write 0 z, send_bytes drv 0 bs (i * S) S]) [0..<k]) st = Inr ((), st1)"
    and 2: "map_write 0 z st1 = Inr ((), st2)" and 3: "send_bytes drv 0 bs (k * S) S st2 = Inr ((), st')"
    by (auto simp: doB_append bindB_Inr_iff returnB_def)
  have sum: "take (k * S) bs @ take S (drop (k * S) bs) = take (Suc k * S) bs"
    by (simp add: take_add [symmetric] add.commute)
  note m3 = send_bytes_moved [OF assms(1) 3 assms(3)]
  from moved_trans [OF conjunct1 [OF Suc.IH [OF 1]] moved_trans [OF map_write_moved [OF 2] conjunct1 [OF m3]]]
  show ?case using m3 sum by (simp add: add.commute)
qed

lemma write_in_chunks_moved:
  assumes "keeps_config drv" and "write_in_chunks drv bs n st = Inr (u, st')" and "alloc_offset st = 0"
    and "n < 2 ^ 32"
  shows "moved drv st st' (take n bs) [] \<and> n \<le> length bs"
proof -
  let ?k = "n div DMA_SIZE" and ?r = "n mod DMA_SIZE"
  have S: "DMA_SIZE < 2 ^ 32" "?r < 2 ^ 32" by (simp_all add: DMA_SIZE_def)
  have n: "?k * DMA_SIZE + ?r = n" "n - ?r = ?k * DMA_SIZE"
    by (simp_all add: minus_mod_eq_div_mult)
  define st1 where "st1 = st\<lparr>alloc_offset := wrap32 (gcore_dma_calc_size DMA_SIZE 1)\<rparr>"
  have 1: "hist st1 = hist st" by (simp add: st1_def)
  from assms(2,3) obtain st2 st3 where
    2: "map_write 0 (replicate DMA_SIZE 0) st1 = Inr ((), st2)"
    and 3: "doB (map (\<lambda>i. doB [map_write 0 (replicate DMA_SIZE 0), send_bytes drv 0 bs (i * DMA_SIZE) DMA_SIZE])
      [0..<?k]) st2 = Inr ((), st3)"
    and 4: "whenB (?r \<noteq> 0) (send_bytes drv 0 bs (?k * DMA_SIZE) ?r) st3 = Inr ((), st')"
    unfolding write_in_chunks_def Let_def bindB_Inr_iff doB_Inr_iff alloc_Inr n(2) st1_def
    by (auto simp del: doB.simps)
  note loop = send_loop_moved [OF assms(1) 3 S(1)]
  have "moved drv st3 st' (take ?r (drop (?k * DMA_SIZE) bs)) [] \<and> n \<le> length bs"
  proof (cases "?r = 0")
    case True
    then show ?thesis using 4 loop n by (auto simp: whenB_def returnB_def intro: moved_refl)
  next
    case False
    then have "send_bytes drv 0 bs (?k * DMA_SIZE) ?r st3 = Inr ((), st')" using 4 by (simp add: whenB_def)
    from send_bytes_moved [OF assms(1) this S(2)] show ?thesis by (simp only: n(1))
  qed
  moreover have "take (?k * DMA_SIZE) bs @ take ?r (drop (?k * DMA_SIZE) bs) = take n bs"
    using n(1) by (metis take_add)
  moreover note moved_trans [OF moved_refl [OF 1] moved_trans [OF map_write_moved [OF 2]
      moved_trans [OF conjunct1 [OF loop] conjunct1 [OF calculation(1)]]]]
  ultimately show ?thesis by simp
qed

lemma write_at_once_moved:
  assumes "keeps_config drv" and "write_at_once drv bs n k st = Inr (u, st')" and "alloc_offset st = 0"
    and "k * 1024 < 2 ^ 32" and "n \<le> k * 1024"
  shows "moved drv st st' (take n bs @ replicate (k * 1024 - n) 0) [] \<and> n \<le> length bs"
proof -
  have k: "wrap32 (k * BURST_BYTES) = k * 1024" using assms(4) by (simp add: BURST_BYTES_def)
  define st1 where "st1 = st\<lparr>alloc_offset := wrap32 (gcore_dma_calc_size (k * 1024) 1)\<rparr>"
  have 1: "hist st1 = hist st" by (simp add: st1_def)
  from assms(2,3) obtain st2 st3 where
    2: "map_write 0 (replicate (k * 1024) 0) st1 = Inr ((), st2)" and n: "n \<le> length bs"
    and 3: "map_write 0 (take n bs) st2 = Inr ((), st3)"
    and 4: "doB [gcore_dma_prep drv (Some 0) (k * 1024) None 0, gcore_dma_start drv GCORE_WAIT_TX] st3 = Inr ((), st')"
    unfolding write_at_once_def Let_def k bindB_Inr_iff alloc_Inr doB_Inr_iff gcore_dma_prep_start_def st1_def
    by (auto simp: bytes_at_def liftB_def doB_Inr_iff simp del: doB.simps split: if_splits)
  have "take (k * 1024) (gcore_map st3) = take n bs @ replicate (k * 1024 - n) 0"
    using 2 3 n assms(5) by (auto simp: map_write_Inr dest!: blit_front)
  with moved_trans [OF moved_refl [OF 1] moved_trans [OF map_write_moved [OF 2]
      moved_trans [OF map_write_moved [OF 3] transmit_moved(1) [OF assms(1) 4]]]] assms(4) n
  show ?thesis by simp
qed

lemma num_bursts_small:
  assumes "n \<le> MAX_CHUNK_SIZE"
  shows "num_bursts_of n = (n + 1023) div 1024"
proof -
  have "n div 1024 + 1 < 4294967296" using div_le_mono [OF assms, of 1024] by (simp add: MAX_CHUNK_SIZE_def)
  moreover have "(n + 1023) div 1024 = (if n mod 1024 = 0 then n div 1024 else n div 1024 + 1)"
    using div_add1_eq [of n 1023 1024] mod_less_divisor [of 1024 n] by (auto simp: div_eq_0_iff)
  ultimately show ?thesis by (simp add: num_bursts_of_def BURST_BYTES_def)
qed

text \<open>The zeros that complete the last burst; a write in several transfers has none.\<close>

definition write_padding :: "nat \<Rightarrow> nat" where
  "write_padding n = (if n > DMA_SIZE then 0 else num_bursts_of n * 1024 - n)"

lemma mem_write_moved:
  assumes "keeps_config drv" and "artix_mem_write drv sel a bs n st = Inr (u, st')"
  shows "moved drv st st' (take n bs @ replicate (write_padding n) 0) [] \<and> n \<le> length bs"
proof -
  define nb where "nb = num_bursts_of n"
  define before where "before = doB
    [helper_burst_setup drv sel a (of_nat nb), helper_print_agent_status drv sel,
     helper_memcore_load drv sel MEMCORE_WRITE_BURST,
     helper_memcore_check_state drv sel MEMCORE_WRITE_BURST nb,
     helper_print_agent_status drv sel, helper_gvpu_load drv sel MEM_WRITE,
     helper_print_agent_status drv sel, helper_agent_load drv sel GVPU_WRITE]"
  define after where "after = doB [log_burst_count drv sel, subcore_idle drv,
    helper_gvpu_load drv sel TEST_CLEANUP, helper_print_agent_status drv sel]"
  define w where "w = (if n > DMA_SIZE then write_in_chunks drv bs n else write_at_once drv bs n nb)"
  have n: "n \<le> MAX_CHUNK_SIZE" using assms(2)
    by (auto simp: artix_mem_write_def failB_def split: if_splits)
  obtain st1 st2 st3 st4 where 1: "before st = Inr ((), st1)" and 2: "st2 = st1\<lparr>alloc_offset := 0\<rparr>"
    and 3: "subcore_prep_dma_write drv sel nb st2 = Inr ((), st3)" and 4: "w st3 = Inr ((), st4)"
    and 5: "after st4 = Inr (u, st')"
    using assms(2) unfolding artix_mem_write_def before_def after_def w_def nb_def
    by (auto simp: doB_Inr_iff alloc_reset_Inr failB_def Let_def simp del: doB.simps split: if_split_asm)
  have "controls before UNIV {Idle}" unfolding before_def by (rule controls)+
  from controls_moved(1) [OF this 1] have m1: "moved drv st st1 [] []" .
  have m2: "moved drv st1 st2 [] []" using 2 by (intro moved_refl) simp
  note m3 = controls_moved [OF controls_prep_write 3]
  have "alloc_offset st3 = 0" using m3(3) 2 by simp
  moreover have "n < 2 ^ 32" "nb * 1024 < 2 ^ 32" "n \<le> nb * 1024"
    using n num_bursts_small [OF n] by (auto simp: MAX_CHUNK_SIZE_def nb_def)
  ultimately have m4: "moved drv st3 st4 (take n bs @ replicate (write_padding n) 0) [] \<and> n \<le> length bs"
    using 4 write_in_chunks_moved [OF assms(1), of bs n st3 "()" st4]
      write_at_once_moved [OF assms(1), of bs n nb st3 "()" st4]
    by (auto simp: w_def nb_def write_padding_def split: if_splits)
  have "controls after UNIV {Idle}" unfolding after_def by (rule controls)+
  from controls_moved(1) [OF this 5] have m5: "moved drv st4 st' [] []" .
  from moved_trans [OF m1 moved_trans [OF m2 moved_trans [OF m3(1) moved_trans [OF conjunct1 [OF m4] m5]]]] m4
  show ?thesis by simp
qed

text \<open>C9. A write sends the caller's bytes: the DMA transmissions of \<^verbatim>\<open>artix_mem_write\<close> carry, in order,
  exactly the first \<open>n\<close> bytes of the buffer, completed with zeros to whole bursts when it takes a
  single transfer; nothing is received. It only returns when the buffer has \<open>n\<close> bytes.\<close>

theorem mem_write_sends:
  assumes "keeps_config drv" and "artix_mem_write drv sel addr write_data n st = Inr (u, st')"
  shows "n \<le> length write_data \<and>
    moved drv st st' (take n write_data @ replicate (write_padding n) 0) []"
  using mem_write_moved [OF assms] by blast

section \<open>Reading\<close>

lemma receive_moved:
  assumes "keeps_config drv" and "receive_bytes drv sel 0 n nb st = Inr (u, st')" and "n < 2 ^ 32"
  obtains bs where "moved drv st st' [] bs" "length bs = n" "gcore_map st' = bs @ drop n (gcore_map st)"
proof -
  from reception_moved [OF assms(1) controls_prep_read [where P = UNIV] assms(2) [unfolded receive_bytes_def]]
  obtain bs where "moved drv st st' [] bs" "length bs = wrap32 n"
    "gcore_map st' = bs @ drop (wrap32 n) (gcore_map st)" by metis
  with that assms(3) show thesis by simp
qed

lemma copy_out_Inr:
  "copy_out p i n d st = Inr (out, st') \<longleftrightarrow> st' = st \<and> p + n \<le> length (gcore_map st) \<and>
     blitR d i (take n (drop p (gcore_map st))) = Inr out"
  by (auto simp: copy_out_def map_read_def io_simps bindR_Inr_iff split: if_splits)

lemma receive_copy_moved:
  assumes "keeps_config drv" and "receive_bytes drv sel 0 n nb st = Inr (u, st1)" and "n < 2 ^ 32"
    and "copy_out 0 i k d st1 = Inr (out, st')" and "k \<le> n"
  obtains bs where "moved drv st st' [] bs" "length bs = n" "blitR d i (take k bs) = Inr out"
proof -
  obtain bs where "moved drv st st1 [] bs" "length bs = n" "gcore_map st1 = bs @ drop n (gcore_map st)"
    using receive_moved [OF assms(1-3)] .
  with assms(4,5) that show thesis by (auto simp: copy_out_Inr)
qed

lemma foldB_append: "foldB f (xs @ ys) s = bindB (foldB f xs s) (foldB f ys)"
proof (induction xs arbitrary: s)
  case Nil
  show ?case by (simp add: bindB_def returnB_def fun_eq_iff)
next
  case (Cons x xs)
  have "foldB f (xs @ ys) = (\<lambda>s. bindB (foldB f xs s) (foldB f ys))" using Cons.IH by blast
  then show ?case by (simp add: bindB_assoc)
qed

lemma blit_append:
  "blitR d 0 xs = Inr d1 \<Longrightarrow> blitR d1 (length xs) ys = Inr d2 \<Longrightarrow> blitR d 0 (xs @ ys) = Inr d2"
  by (auto simp: blitR_def add.commute split: if_splits)

lemma read_loop_moved:
  assumes "keeps_config drv" and "S < 2 ^ 32"
    and "foldB (\<lambda>i d. bindB (map_write 0 z) (\<lambda>_. bindB (receive_bytes drv sel 0 S nb) (\<lambda>_.
      copy_out 0 (i * S) S d))) [0..<k] d st = Inr (out, st')"
  shows "\<exists>bs. moved drv st st' [] bs \<and> length bs = k * S \<and> blitR d 0 bs = Inr out"
  using assms(3)
proof (induction k arbitrary: out st')
  case 0
  then show ?case by (intro exI [of _ "[]"]) (simp add: returnB_def moved_refl blitR_def)
next
  case (Suc k)
  from Suc.prems obtain d1 st1 st2 st3 where
    1: "foldB (\<lambda>i d. bindB (map_write 0 z) (\<lambda>_. bindB (receive_bytes drv sel 0 S nb) (\<lambda>_.
      copy_out 0 (i * S) S d))) [0..<k] d st = Inr (d1, st1)"
    and 2: "map_write 0 z st1 = Inr ((), st2)" and 3: "receive_bytes drv sel 0 S nb st2 = Inr ((), st3)"
    and 4: "copy_out 0 (k * S) S d1 st3 = Inr (out, st')"
    by (auto simp: foldB_append bindB_Inr_iff returnB_def)
  from Suc.IH [OF 1] obtain bs where bs: "moved drv st st1 [] bs" "length bs = k * S" "blitR d 0 bs = Inr d1"
    by blast
  obtain cs where cs: "moved drv st2 st' [] cs" "length cs = S" "blitR d1 (k * S) (take S cs) = Inr out"
    using receive_copy_moved [OF assms(1) 3 assms(2) 4 order_refl] .
  from moved_trans [OF bs(1) moved_trans [OF map_write_moved [OF 2] cs(1)]]
    blit_append [OF bs(3), of cs] bs(2) cs(2,3)
  show ?case by (intro exI [of _ "bs @ cs"]) simp
qed

lemma read_in_chunks_moved:
  assumes "keeps_config drv" and "read_in_chunks drv sel d n st = Inr (out, st')" and "alloc_offset st = 0"
    and "n < 2 ^ 32"
  shows "\<exists>bs. moved drv st st' [] bs \<and> length bs = n \<and> blitR d 0 bs = Inr out"
proof -
  let ?k = "n div DMA_SIZE" and ?r = "n mod DMA_SIZE"
  have S: "DMA_SIZE < 2 ^ 32" "?r < 2 ^ 32" by (simp_all add: DMA_SIZE_def)
  have n: "?k * DMA_SIZE + ?r = n" "n - ?r = ?k * DMA_SIZE"
    by (simp_all add: minus_mod_eq_div_mult)
  define st1 where "st1 = st\<lparr>alloc_offset := wrap32 (gcore_dma_calc_size DMA_SIZE 1)\<rparr>"
  have 1: "moved drv st st1 [] []" by (rule moved_refl) (simp add: st1_def)
  from assms(2,3) obtain st2 d1 st3 where
    2: "map_write 0 (replicate DMA_SIZE 0) st1 = Inr ((), st2)"
    and 3: "foldB (\<lambda>i d. bindB (map_write 0 (replicate DMA_SIZE 0)) (\<lambda>_.
        bindB (receive_bytes drv sel 0 DMA_SIZE (DMA_SIZE div BURST_BYTES)) (\<lambda>_.
        copy_out 0 (i * DMA_SIZE) DMA_SIZE d))) [0..<?k] d st2 = Inr (d1, st3)"
    and 4: "(if ?r \<noteq> 0 then bindB (receive_bytes drv sel 0 ?r (?r div BURST_BYTES)) (\<lambda>_.
        copy_out 0 (?k * DMA_SIZE) ?r d1) else returnB d1) st3 = Inr (out, st')"
    unfolding read_in_chunks_def Let_def bindB_Inr_iff alloc_Inr n(2) st1_def by auto
  from read_loop_moved [OF assms(1) S(1) 3] obtain bs where
    bs: "moved drv st2 st3 [] bs" "length bs = ?k * DMA_SIZE" "blitR d 0 bs = Inr d1" by blast
  have "\<exists>cs. moved drv st3 st' [] cs \<and> length cs = ?r \<and> blitR d1 (?k * DMA_SIZE) cs = Inr out"
  proof (cases "?r = 0")
    case True
    then have "out = d1" "st' = st3" using 4 by (simp_all add: returnB_def)
    moreover have "?k * DMA_SIZE \<le> length d1" using bs(2,3) by (auto simp: blitR_def split: if_splits)
    ultimately show ?thesis using True by (intro exI [of _ "[]"]) (simp add: moved_refl blitR_def)
  next
    case False
    with 4 obtain st4 where "receive_bytes drv sel 0 ?r (?r div BURST_BYTES) st3 = Inr ((), st4)"
      "copy_out 0 (?k * DMA_SIZE) ?r d1 st4 = Inr (out, st')" by (auto simp: bindB_Inr_iff)
    from receive_copy_moved [OF assms(1) this(1) S(2) this(2) order_refl] show ?thesis by (metis take_all_iff order_refl)
  qed
  then obtain cs where cs: "moved drv st3 st' [] cs" "length cs = ?r"
    "blitR d1 (?k * DMA_SIZE) cs = Inr out" by blast
  have "length (bs @ cs) = n" using bs(2) cs(2) n(1) by (simp only: length_append)
  with moved_trans [OF 1 moved_trans [OF map_write_moved [OF 2] moved_trans [OF bs(1) cs(1)]]]
    blit_append [OF bs(3) cs(3) [folded bs(2)]]
  show ?thesis by (intro exI [of _ "bs @ cs"]) simp
qed

lemma read_at_once_moved:
  assumes "keeps_config drv" and "read_at_once drv sel d n k st = Inr (out, st')" and "alloc_offset st = 0"
    and "k * 1024 < 2 ^ 32" and "n \<le> k * 1024"
  shows "\<exists>bs. moved drv st st' [] bs \<and> length bs = k * 1024 \<and> blitR d 0 (take n bs) = Inr out"
proof -
  have k: "wrap32 (k * BURST_BYTES) = k * 1024" using assms(4) by (simp add: BURST_BYTES_def)
  define st1 where "st1 = st\<lparr>alloc_offset := wrap32 (gcore_dma_calc_size (k * 1024) 1)\<rparr>"
  have 1: "moved drv st st1 [] []" by (rule moved_refl) (simp add: st1_def)
  from assms(2,3) obtain st2 st3 where
    2: "map_write 0 (replicate (k * 1024) 0) st1 = Inr ((), st2)"
    and 3: "receive_bytes drv sel 0 (k * 1024) k st2 = Inr ((), st3)"
    and 4: "copy_out 0 0 n d st3 = Inr (out, st')"
    unfolding read_at_once_def Let_def k bindB_Inr_iff alloc_Inr st1_def by auto
  obtain bs where bs: "moved drv st2 st' [] bs" "length bs = k * 1024" "blitR d 0 (take n bs) = Inr out"
    using receive_copy_moved [OF assms(1) 3 assms(4) 4 assms(5)] .
  with moved_trans [OF 1 moved_trans [OF map_write_moved [OF 2] bs(1)]] show ?thesis by auto
qed

lemma mem_read_moved:
  assumes "keeps_config drv" and "artix_mem_read drv sel a d n st = Inr (out, st')"
  shows "\<exists>bs. moved drv st st' [] bs \<and> length bs = n + write_padding n \<and>
    blitR d 0 (take n bs) = Inr out"
proof -
  define nb where "nb = num_bursts_of n"
  define before where "before =
    [helper_burst_setup drv sel a (of_nat nb), helper_print_agent_status drv sel,
     helper_memcore_load drv sel MEMCORE_READ_BURST,
     helper_memcore_check_state drv sel MEMCORE_READ_BURST nb,
     helper_print_agent_status drv sel, helper_gvpu_load drv sel MEM_READ,
     helper_agent_load drv sel GVPU_READ]"
  define after where "after = doB [log_burst_count drv sel, subcore_idle drv,
    helper_gvpu_load drv sel TEST_CLEANUP, helper_print_agent_status drv sel]"
  define r where "r = (if n > DMA_SIZE then read_in_chunks drv sel d n else read_at_once drv sel d n nb)"
  have n: "n \<le> MAX_CHUNK_SIZE" using assms(2)
    by (auto simp: artix_mem_read_def failB_def split: if_splits)
  have "artix_mem_read drv sel a d n = bindB (doB (before @ [gcore_dma_alloc_reset])) (\<lambda>_.
      bindB r (\<lambda>out. bindB after (\<lambda>_. returnB out)))"
    using n unfolding artix_mem_read_def before_def after_def r_def nb_def Let_def
    by (simp only: append_Cons append_Nil not_le [symmetric] if_False simp_thms)
  with assms(2) obtain st1 st2 st3 where 1: "doB before st = Inr ((), st1)" and
    2: "st2 = st1\<lparr>alloc_offset := 0\<rparr>" and 3: "r st2 = Inr (out, st3)" and 4: "after st3 = Inr ((), st')"
    by (auto simp: doB_append bindB_Inr_iff alloc_reset_Inr returnB_def)
  have "controls (doB before) UNIV {Idle}" unfolding before_def by (rule controls)+
  from controls_moved(1) [OF this 1] have m1: "moved drv st st1 [] []" .
  have m2: "moved drv st1 st2 [] []" using 2 by (intro moved_refl) simp
  have "n < 2 ^ 32" "nb * 1024 < 2 ^ 32" "n \<le> nb * 1024"
    using n num_bursts_small [OF n] by (auto simp: MAX_CHUNK_SIZE_def nb_def)
  then obtain bs where bs: "moved drv st2 st3 [] bs" "length bs = n + write_padding n"
    "blitR d 0 (take n bs) = Inr out"
    using 2 3 read_in_chunks_moved [OF assms(1), of sel d n st2 out st3]
      read_at_once_moved [OF assms(1), of sel d n nb st2 out st3]
    by (auto simp: r_def nb_def write_padding_def split: if_splits)
  have "controls after UNIV {Idle}" unfolding after_def by (rule controls)+
  from controls_moved(1) [OF this 4] have m4: "moved drv st3 st' [] []" .
  from moved_trans [OF m1 moved_trans [OF m2 moved_trans [OF bs(1) m4]]] bs(2,3) show ?thesis
    by (intro exI [of _ bs]) simp
qed

text \<open>C10. A read delivers what the device sent: the receptions of \<^verbatim>\<open>artix_mem_read\<close> bring as many bytes
  as were asked for, completed to whole bursts when it takes a single transfer, nothing is sent, and
  the first \<open>n\<close> of those bytes are the first \<open>n\<close> of the caller's buffer, whose rest is untouched.\<close>

theorem mem_read_delivers:
  assumes "keeps_config drv" and "artix_mem_read drv sel addr read_data n st = Inr (out, st')"
  shows "\<exists>bs. moved drv st st' [] bs \<and> length bs = n + write_padding n \<and>
    out = take n bs @ drop n read_data \<and> length out = length read_data"
proof -
  from mem_read_moved [OF assms] obtain bs where bs: "moved drv st st' [] bs"
    "length bs = n + write_padding n" "blitR read_data 0 (take n bs) = Inr out" by blast
  from blitR_length [OF bs(3)] blit_front [OF bs(3)] bs show ?thesis
    by (intro exI [of _ bs]) (simp add: min_def)
qed

end
