(* ===== verification/Board_Device.thy ===== *)
theory Board_Device
  imports Artix_Transfer
begin

text \<open>
  What the board is told. The operations of the board return when the driver accepts their requests;
  and the requests, read as instructions to the device, leave each unit in a known state: which
  states its agent, its gvpu and its memory core were told to enter, and which data its memory was
  given, under which address. That reading is the automaton \<open>device_of\<close>; the states and the way
  packets are passed on are those that driver.h and the comments of helper.c describe.
\<close>

section \<open>Operations that return\<close>

text \<open>A driver that accepts every request.\<close>

definition accepting :: "driver \<Rightarrow> bool" where
  "accepting drv \<longleftrightarrow> keeps_config drv \<and>
     (\<forall>h. ret (drv h) = 0 \<and> \<not> has_mask (status (out_regs (drv h))) GCORE_STATUS_INIT_ERROR_MASK)"

definition returns :: "'a io \<Rightarrow> bool" where
  "returns m \<longleftrightarrow> (\<forall>st. \<exists>x st'. m st = Inr (x, st'))"

named_theorems returns \<open>operations that return on an accepting driver\<close>

lemma returns_bind [returns]: "returns m \<Longrightarrow> (\<And>x. returns (f x)) \<Longrightarrow> returns (bindB m f)"
  unfolding returns_def bindB_def by (metis bindR.simps(2) case_prod_conv)

lemma returns_return [returns]: "returns (returnB x)"
  by (simp add: returns_def returnB_def)

lemma returns_Nil [returns]: "returns (doB [])"
  by (simp add: returns_return)

lemma returns_Cons [returns]: "returns m \<Longrightarrow> returns (doB ms) \<Longrightarrow> returns (doB (m # ms))"
  by (simp add: returns_bind)

lemma returns_void [returns]: "returns m \<Longrightarrow> returns (voidB m)"
  by (simp add: voidB_def returns_bind returns_return)

lemma returns_when [returns]: "returns m \<Longrightarrow> returns (whenB b m)"
  by (simp add: whenB_def returns_return)

lemma returns_if: "(b \<Longrightarrow> returns m) \<Longrightarrow> (\<not> b \<Longrightarrow> returns n) \<Longrightarrow> returns (if b then m else n)"
  by simp

lemma returns_ioctl:
  assumes "accepting drv"
  shows "returns (ioctl_neg drv r)" and "returns (ioctl_nz drv r)"
  using assms by (auto simp: returns_def ioctl_neg_def ioctl_nz_def ioctl_def accepting_def Let_def)

lemma returns_regs:
  assumes "accepting drv"
  shows "returns (subcore_get_regs drv)"
  unfolding subcore_get_regs_def by (rule returns returns_ioctl [OF assms])+

lemma returns_subcore:
  assumes "accepting drv"
  shows "returns (subcore_idle drv)" and "returns (subcore_write_packet drv p)"
    and "returns (subcore_read_packet drv p)" and "returns (subcore_artix_sync drv b)"
    and "sel \<noteq> ARTIX_SELECT_BOTH \<Longrightarrow> returns (helper_subcore_load drv sel s)"
  unfolding subcore_idle_def subcore_write_packet_def subcore_read_packet_def subcore_artix_sync_def
    helper_subcore_load_def subcore_load_def subcore_run_def
  by (auto intro!: returns returns_ioctl [OF assms] simp del: doB.simps)

lemma returns_agent_load:
  assumes "accepting drv" and "one_unit sel"
  shows "returns (helper_agent_load drv sel s)"
proof -
  have sel: "sel \<noteq> ARTIX_SELECT_BOTH" "sel \<noteq> ARTIX_SELECT_NONE" using assms(2) by (auto simp: one_unit_def)
  note sub = returns_subcore(1-4) [OF assms(1)] returns_subcore(5) [OF assms(1) sel(1)]
  have "\<exists>x st'. agent_startup drv sel st = Inr (x, st')" for st
  proof -
    have "returns (bindB (helper_subcore_load drv sel AGENT_STARTUP) (\<lambda>_. subcore_read_packet drv (packet 0 0 0)))"
      by (rule returns sub)+
    then obtain p st1 where 1: "bindB (helper_subcore_load drv sel AGENT_STARTUP)
        (\<lambda>_. subcore_read_packet drv (packet 0 0 0)) st = Inr (p, st1)" unfolding returns_def by blast
    have "\<exists>st2 h. subcore_get_regs drv st1 = Inr (out_regs (drv h), st2)"
      using assms(1) by (auto simp: subcore_get_regs_def io_simps accepting_def)
    then obtain st2 h where "subcore_get_regs drv st1 = Inr (out_regs (drv h), st2)" by blast
    moreover have "\<not> has_mask (status (out_regs (drv h))) GCORE_STATUS_INIT_ERROR_MASK"
      using assms(1) by (simp add: accepting_def)
    ultimately have "agent_startup drv sel st = Inr ((), st2)"
      using 1 unfolding agent_startup_def by (auto simp: bindB_def returnB_def bindR_Inr_iff split: prod.splits)
    then show ?thesis by blast
  qed
  then have "returns (agent_startup drv sel)" by (simp add: returns_def)
  then show ?thesis
    unfolding helper_agent_load_def Let_def using sel
    by (auto intro!: returns sub returns_regs [OF assms(1)] simp del: doB.simps)
qed

lemma returns_units:
  assumes "accepting drv" and "one_unit sel"
  shows "returns (helper_get_agent_status drv sel)" and "returns (helper_print_agent_status drv sel)"
    and "returns (helper_gvpu_packet_write drv sel p)" and "returns (helper_gvpu_load drv sel g)"
    and "returns (helper_get_agent_gvpu_status drv sel c d)" and "returns (get_cycle drv sel)"
    and "returns (log_burst_count drv sel)" and "returns (subcore_prep_dma_write drv sel n)"
    and "n \<le> 65504 \<Longrightarrow> returns (subcore_prep_dma_read drv sel n)"
proof -
  have sel: "sel \<noteq> ARTIX_SELECT_BOTH" using assms(2) by (auto simp: one_unit_def)
  note sub = returns returns_subcore(1-4) [OF assms(1)] returns_subcore(5) [OF assms(1) sel]
    returns_agent_load [OF assms]
  show status: "returns (helper_get_agent_status drv sel)"
    unfolding helper_get_agent_status_def by (rule sub)+
  show "returns (helper_print_agent_status drv sel)"
    unfolding helper_print_agent_status_def using assms(2)
    by (auto intro!: sub status simp: one_unit_def)
  show written: "returns (helper_gvpu_packet_write drv sel p)" for p
    unfolding helper_gvpu_packet_write_def by (rule sub)+
  show "returns (helper_gvpu_load drv sel g)"
    unfolding helper_gvpu_load_def by (rule sub written)+
  show cycle: "returns (helper_get_agent_gvpu_status drv sel c d)" for c d
    unfolding helper_get_agent_gvpu_status_def Let_def by (rule sub)+
  show "returns (get_cycle drv sel)" unfolding get_cycle_def by (rule cycle)
  show "returns (log_burst_count drv sel)" unfolding log_burst_count_def by (rule returns_void cycle)+
  show "returns (subcore_prep_dma_write drv sel n)" unfolding subcore_prep_dma_write_def by (rule sub)+
  show "n \<le> 65504 \<Longrightarrow> returns (subcore_prep_dma_read drv sel n)"
    unfolding subcore_prep_dma_read_def by (auto intro!: sub simp del: doB.simps)
qed

section \<open>The device, as it is told\<close>

text \<open>
  A unit: the state that its agent has received and not run yet, the state its agent was told to run,
  and the same for its gvpu and its memory core.
\<close>

record unit_view =
  agent_next :: u32
  agent_in :: u32
  gvpu_next :: u32
  gvpu_in :: u32
  memcore_next :: u32
  memcore_in :: u32

text \<open>
  The device: what the subcore was loaded with and whether it runs, its units, the DMA channels that
  are prepared, and the bursts in the order they were set up: the unit, the packet with the address and
  the number of bursts, and the data that followed.
\<close>

record device =
  stage :: "(subcore_states \<times> artix_selects \<times> bool) option"
  unit_of :: "artix_selects \<Rightarrow> unit_view"
  prepared :: "gcore_chan_cfg list"
  bursts :: "(artix_selects \<times> gcore_ctrl_packet \<times> u8 list) list"

definition fresh_unit :: unit_view where
  "fresh_unit = \<lparr>agent_next = 0, agent_in = 0, gvpu_next = 0, gvpu_in = 0, memcore_next = 0, memcore_in = 0\<rparr>"

definition fresh_device :: device where
  "fresh_device = \<lparr>stage = None, unit_of = (\<lambda>_. fresh_unit), prepared = [], bursts = []\<rparr>"

definition set_unit :: "artix_selects \<Rightarrow> unit_view \<Rightarrow> device \<Rightarrow> device" where
  "set_unit sel v d = d\<lparr>unit_of := (unit_of d)(sel := v)\<rparr>"

text \<open>
  The agent runs the state it received; in \<^verbatim>\<open>GVPU_RUN\<close> the gvpu runs the state it received, and in
  \<^verbatim>\<open>MEM_RUN\<close> the memory core.
\<close>

definition run_agent :: "unit_view \<Rightarrow> unit_view" where
  "run_agent v =
     (let v = v\<lparr>agent_in := agent_next v\<rparr> in
      if agent_in v \<noteq> agent_code GVPU_RUN then v
      else let v = v\<lparr>gvpu_in := gvpu_next v\<rparr> in
        if gvpu_in v \<noteq> gvpu_code MEM_RUN then v else v\<lparr>memcore_in := memcore_next v\<rparr>)"

text \<open>
  A packet for the agent is its next state, unless the agent waits for one: in \<^verbatim>\<open>GVPU_LOAD\<close> it passes
  it on to the gvpu, in \<^verbatim>\<open>BURST_LOAD\<close> it sets up a burst, in \<^verbatim>\<open>GVPU_STATUS\<close> it selects what is read next.
  A packet for the gvpu is its next state, unless the gvpu waits for one: in \<^verbatim>\<open>MEM_LOAD\<close> for the next
  state of the memory core, in \<^verbatim>\<open>TEST_INIT\<close> for the parameters of the test.
\<close>

definition give_gvpu :: "u32 \<Rightarrow> unit_view \<Rightarrow> unit_view" where
  "give_gvpu c v =
     (if gvpu_in v = gvpu_code MEM_LOAD then v\<lparr>memcore_next := c, gvpu_in := gvpu_code GVPU_IDLE\<rparr>
      else if gvpu_in v = gvpu_code TEST_INIT then v\<lparr>gvpu_in := gvpu_code GVPU_IDLE\<rparr>
      else v\<lparr>gvpu_next := c\<rparr>)"

definition give_packet :: "artix_selects \<Rightarrow> gcore_ctrl_packet \<Rightarrow> device \<Rightarrow> device" where
  "give_packet sel p d =
     (let v = unit_of d sel; idle = (\<lambda>v. v\<lparr>agent_in := agent_code AGENT_IDLE\<rparr>) in
      if agent_in v = agent_code GVPU_LOAD then set_unit sel (idle (give_gvpu (packet_data p) v)) d
      else if agent_in v = agent_code BURST_LOAD then
        (set_unit sel (idle v) d)\<lparr>bursts := bursts d @ [(sel, p, [])]\<rparr>
      else if agent_in v = agent_code GVPU_STATUS then d
      else set_unit sel (v\<lparr>agent_next := packet_data p\<rparr>) d)"

text \<open>A read answers an agent that was asked for a status.\<close>

definition answer :: "artix_selects \<Rightarrow> device \<Rightarrow> device" where
  "answer sel d =
     (let v = unit_of d sel in
      if agent_in v = agent_code STATUS \<or> agent_in v = agent_code GVPU_STATUS
      then set_unit sel (v\<lparr>agent_in := agent_code AGENT_IDLE\<rparr>) d else d)"

text \<open>Data goes to the memory of the unit that was told to write, to the burst that was set up last.\<close>

definition add_bytes :: "u8 list \<Rightarrow> (artix_selects \<times> gcore_ctrl_packet \<times> u8 list) list \<Rightarrow>
    (artix_selects \<times> gcore_ctrl_packet \<times> u8 list) list" where
  "add_bytes ds bs = (case rev bs of [] \<Rightarrow> [] | (u, p, xs) # r \<Rightarrow> rev r @ [(u, p, xs @ ds)])"

definition writes_memory :: "device \<Rightarrow> bool" where
  "writes_memory d \<longleftrightarrow> (case stage d of
      Some (DMA_WRITE, sel, True) \<Rightarrow> bursts d \<noteq> [] \<and> fst (last (bursts d)) = sel \<and>
        agent_in (unit_of d sel) = agent_code GVPU_WRITE \<and> gvpu_in (unit_of d sel) = gvpu_code MEM_WRITE
    | _ \<Rightarrow> False)"

definition take_data :: "gcore_chan_cfg \<Rightarrow> u8 list \<Rightarrow> device \<Rightarrow> device" where
  "take_data c m d =
     (if cfg_dir c = GCORE_MEM_TO_DEV \<and> writes_memory d
      then d\<lparr>bursts := add_bytes (take (buf_size c) (drop (buf_offset c) m)) (bursts d)\<rparr> else d)"

definition run_subcore :: "device \<Rightarrow> device" where
  "run_subcore d = (case stage d of
      None \<Rightarrow> d
    | Some (s, sel, _) \<Rightarrow>
        (if s = CTRL_RUN then set_unit sel (run_agent (unit_of d sel)) d else d)\<lparr>stage := Some (s, sel, True)\<rparr>)"

fun dev_step :: "request \<times> u8 list \<Rightarrow> device \<Rightarrow> device" where
  "dev_step (GCORE_SUBCORE_IDLE, m) d = d\<lparr>stage := None\<rparr>"
| "dev_step (GCORE_SUBCORE_RESET, m) d = d\<lparr>stage := None\<rparr>"
| "dev_step (GCORE_SUBCORE_LOAD cfg, m) d = d\<lparr>stage := Some (subcore_state cfg, cfg_select cfg, False)\<rparr>"
| "dev_step (GCORE_SUBCORE_RUN, m) d = run_subcore d"
| "dev_step (GCORE_CTRL_WRITE p, m) d =
     (case stage d of Some (CTRL_WRITE, sel, True) \<Rightarrow> give_packet sel p d | _ \<Rightarrow> d)"
| "dev_step (GCORE_CTRL_READ p, m) d =
     (case stage d of Some (CTRL_READ, sel, True) \<Rightarrow> answer sel d | _ \<Rightarrow> d)"
| "dev_step (GCORE_USERDEVS_READ, m) d = d\<lparr>prepared := []\<rparr>"
| "dev_step (GCORE_DMA_PREP c, m) d = d\<lparr>prepared := prepared d @ [c]\<rparr>"
| "dev_step (GCORE_DMA_START t, m) d =
     (case prepared d of [] \<Rightarrow> d | c # cs \<Rightarrow> take_data c m (d\<lparr>prepared := cs\<rparr>))"
| "dev_step (GCORE_DMA_STOP n, m) d = d\<lparr>prepared := tl (prepared d)\<rparr>"
| "dev_step (_, m) d = d"

definition device_of :: "history \<Rightarrow> device" where
  "device_of h = fold dev_step h fresh_device"

lemma device_of_append: "device_of (h @ h') = fold dev_step h' (device_of h)"
  by (simp add: device_of_def)

text \<open>
  The status of a unit that waits for the library: a gvpu in \<^verbatim>\<open>MEM_LOAD\<close> waits for the state of the
  memory core, and a memory core that the gvpu has just run in \<^verbatim>\<open>MEMCORE_WRITE_BURST\<close> waits for the
  data. These are the two states that helper.c checks; a unit leaves all others by itself, so nothing
  is assumed about the rest of the status, nor about the status of a unit in any other state.
\<close>

definition awaits :: "unit_view \<Rightarrow> u32 \<Rightarrow> bool" where
  "awaits v x \<longleftrightarrow>
     (gvpu_in v = gvpu_code MEM_LOAD \<longrightarrow> and x 0x000000f0 = push_bit 4 (gvpu_code MEM_LOAD)) \<and>
     (gvpu_in v = gvpu_code MEM_RUN \<and> memcore_in v = memcore_code MEMCORE_WRITE_BURST \<longrightarrow>
       and x 0x00000f00 = push_bit 8 (memcore_code MEMCORE_WRITE_BURST))"

definition reports_states :: "driver \<Rightarrow> bool" where
  "reports_states drv \<longleftrightarrow> accepting drv \<and>
     (\<forall>h p m sel. stage (device_of h) = Some (CTRL_READ, sel, True) \<and>
        agent_in (unit_of (device_of h) sel) = agent_code STATUS \<longrightarrow>
        awaits (unit_of (device_of h) sel) (packet_data (out_packet (drv (h @ [(GCORE_CTRL_READ p, m)])))))"

text \<open>No unit is in the middle of an exchange of packets; so it is at the start and after each operation.\<close>

definition settled :: "unit_view \<Rightarrow> bool" where
  "settled v \<longleftrightarrow> agent_in v \<notin> {agent_code GVPU_LOAD, agent_code BURST_LOAD, agent_code GVPU_STATUS} \<and>
     gvpu_in v \<notin> {gvpu_code MEM_LOAD, gvpu_code TEST_INIT}"

definition at_rest :: "history \<Rightarrow> bool" where
  "at_rest h \<longleftrightarrow> (\<forall>sel. settled (unit_of (device_of h) sel))"

lemma fresh_at_rest: "at_rest []"
  by (simp add: at_rest_def device_of_def fresh_device_def fresh_unit_def settled_def)

section \<open>What the operations tell the device\<close>

text \<open>From the device \<open>d\<close>, an operation returns, and the result and the device after it satisfy \<open>Q\<close>.\<close>

definition tells :: "'a io \<Rightarrow> ('a \<Rightarrow> device \<Rightarrow> bool) \<Rightarrow> device \<Rightarrow> bool" where
  "tells m Q d \<longleftrightarrow> (\<forall>st. device_of (hist st) = d \<longrightarrow>
     (\<exists>x st'. m st = Inr (x, st') \<and> Q x (device_of (hist st'))))"

lemma tells_bind: "tells m (\<lambda>x. tells (f x) Q) d \<Longrightarrow> tells (bindB m f) Q d"
  unfolding tells_def bindB_def by (metis bindR.simps(2) case_prod_conv)

lemma tells_return: "Q x d \<Longrightarrow> tells (returnB x) Q d"
  by (simp add: tells_def returnB_def)

lemma tells_Nil: "Q () d \<Longrightarrow> tells (doB []) Q d"
  by (simp add: tells_return)

lemma tells_Cons: "tells m (\<lambda>_. tells (doB ms) Q) d \<Longrightarrow> tells (doB (m # ms)) Q d"
  by (simp add: tells_bind)

lemma tells_void: "tells m (\<lambda>_. Q ()) d \<Longrightarrow> tells (voidB m) Q d"
  unfolding voidB_def by (rule tells_bind) (auto simp: tells_def returnB_def)

lemma tells_when: "(b \<Longrightarrow> tells m Q d) \<Longrightarrow> (\<not> b \<Longrightarrow> Q () d) \<Longrightarrow> tells (whenB b m) Q d"
  by (simp add: whenB_def tells_return)

lemma tells_if: "(b \<Longrightarrow> tells m Q d) \<Longrightarrow> (\<not> b \<Longrightarrow> tells n Q d) \<Longrightarrow> tells (if b then m else n) Q d"
  by simp

lemma tells_mono: "tells m P d \<Longrightarrow> (\<And>x d'. P x d' \<Longrightarrow> Q x d') \<Longrightarrow> tells m Q d"
  unfolding tells_def by metis

lemma tells_run: "tells m Q (device_of (hist st)) \<Longrightarrow> \<exists>st'. m st = Inr ((), st') \<and> Q () (device_of (hist st'))"
  unfolding tells_def by (metis old.unit.exhaust)

lemma tells_ioctl:
  assumes "accepting drv" and "\<And>h m. device_of h = d \<Longrightarrow> Q (drv (h @ [(r, m)])) (dev_step (r, m) d)"
  shows "tells (ioctl_neg drv r) Q d"
  using assms by (auto simp: tells_def ioctl_neg_def ioctl_def accepting_def Let_def device_of_append)

lemma tells_idle:
  assumes "accepting drv" and "Q () (d\<lparr>stage := None\<rparr>)"
  shows "tells (subcore_idle drv) Q d"
  unfolding subcore_idle_def by (rule tells_void, rule tells_ioctl [OF assms(1)]) (use assms(2) in simp)

lemma tells_regs:
  assumes "accepting drv" and "\<And>regs. \<not> has_mask (status regs) GCORE_STATUS_INIT_ERROR_MASK \<Longrightarrow> Q regs d"
  shows "tells (subcore_get_regs drv) Q d"
  unfolding subcore_get_regs_def
  by (rule tells_bind, rule tells_ioctl [OF assms(1)], rule tells_return)
    (use assms in \<open>auto simp: accepting_def\<close>)

lemma tells_write:
  assumes "accepting drv" and "stage d = Some (CTRL_WRITE, sel, True)" and "Q () (give_packet sel p d)"
  shows "tells (subcore_write_packet drv p) Q d"
  unfolding subcore_write_packet_def by (rule tells_void, rule tells_ioctl [OF assms(1)]) (use assms in simp)

text \<open>Running the subcore in a state for a unit.\<close>

definition proxied :: "subcore_states \<Rightarrow> artix_selects \<Rightarrow> device \<Rightarrow> device" where
  "proxied s sel d = (if s = CTRL_RUN then set_unit sel (run_agent (unit_of d sel)) d else d)\<lparr>stage := Some (s, sel, True)\<rparr>"

lemma tells_subcore:
  assumes "accepting drv" and "sel \<noteq> ARTIX_SELECT_BOTH" and "Q () (proxied s sel d)"
  shows "tells (helper_subcore_load drv sel s) Q d"
proof -
  have "tells (subcore_run drv) Q (d\<lparr>stage := Some (s, sel, False)\<rparr>)"
    unfolding subcore_run_def
    by (rule tells_void, rule tells_ioctl [OF assms(1)])
      (use assms(3) in \<open>simp add: run_subcore_def proxied_def set_unit_def split: if_splits\<close>)
  then have "tells (subcore_load drv \<lparr>subcore_state = s, cfg_select = sel\<rparr>) (\<lambda>_. tells (subcore_run drv) Q) (d\<lparr>stage := None\<rparr>)"
    unfolding subcore_load_def by (intro tells_void tells_ioctl [OF assms(1)]) simp
  then show ?thesis unfolding helper_subcore_load_def using assms(2)
    by (simp only: if_False simp_thms)
      (intro tells_Cons tells_idle [OF assms(1)], erule tells_mono, rule tells_Cons, erule tells_mono, rule tells_Nil, simp)
qed

lemma tells_read:
  assumes "accepting drv" and "\<And>x. Q x (dev_step (GCORE_CTRL_READ p, []) d)"
  shows "tells (subcore_read_packet drv p) Q d"
  unfolding subcore_read_packet_def
  by (rule tells_bind, rule tells_ioctl [OF assms(1)], rule tells_return) (use assms(2) in simp)

lemma tells_status:
  assumes "reports_states drv" and "stage d = Some (CTRL_READ, sel, True)"
    and "agent_in (unit_of d sel) = agent_code STATUS"
    and "\<And>x. awaits (unit_of d sel) (packet_data x) \<Longrightarrow> Q x (answer sel d)"
  shows "tells (subcore_read_packet drv p) Q d"
proof -
  have acc: "accepting drv" using assms(1) by (simp add: reports_states_def)
  show ?thesis
    unfolding subcore_read_packet_def
    by (rule tells_bind, rule tells_ioctl [OF acc], rule tells_return)
      (use assms in \<open>auto simp: reports_states_def\<close>)
qed

text \<open>Loading the agent: its state is received and run.\<close>

definition loaded_agent :: "agent_states \<Rightarrow> artix_selects \<Rightarrow> device \<Rightarrow> device" where
  "loaded_agent s sel d =
     (set_unit sel (run_agent ((unit_of d sel)\<lparr>agent_next := agent_code s\<rparr>)) d)\<lparr>stage := None\<rparr>"

lemma stage_set_unit [simp]: "stage (set_unit sel v d) = stage d" "unit_of (set_unit sel v d) = (unit_of d)(sel := v)"
  "prepared (set_unit sel v d) = prepared d" "bursts (set_unit sel v d) = bursts d"
  by (simp_all add: set_unit_def)

lemma tells_agent_load:
  assumes acc: "accepting drv" and one: "one_unit sel"
    and free: "agent_in (unit_of d sel) \<notin> {agent_code GVPU_LOAD, agent_code BURST_LOAD, agent_code GVPU_STATUS}"
    and Q: "Q () (loaded_agent s sel d)"
  shows "tells (helper_agent_load drv sel s) Q d"
proof -
  have sel: "sel \<noteq> ARTIX_SELECT_BOTH" "sel \<noteq> ARTIX_SELECT_NONE" using one by (auto simp: one_unit_def)
  have rest: "tells (doB [helper_subcore_load drv sel CTRL_WRITE, subcore_write_packet drv (packet 0 0 (agent_code s)),
      subcore_idle drv, helper_subcore_load drv sel CTRL_RUN, subcore_idle drv]) Q d'"
    if "d' = d\<lparr>stage := stage d'\<rparr>" for d'
  proof -
    have "agent_in (unit_of d' sel) = agent_in (unit_of d sel)" by (subst that) simp
    then have "Q () (proxied CTRL_RUN sel ((give_packet sel (packet 0 0 (agent_code s)) (proxied CTRL_WRITE sel d'))
        \<lparr>stage := None\<rparr>)\<lparr>stage := None\<rparr>)"
      using Q free by (subst that) (simp add: proxied_def give_packet_def loaded_agent_def set_unit_def Let_def packet_def)
    then show ?thesis
      by (intro tells_Cons tells_Nil tells_subcore [OF acc sel(1)] tells_idle [OF acc] tells_write [OF acc])
        (simp_all add: proxied_def)
  qed
  have start: "tells (agent_startup drv sel) (\<lambda>_ d'. d' = d\<lparr>stage := stage d'\<rparr>) d"
    unfolding agent_startup_def
    by (intro tells_bind tells_subcore [OF acc sel(1)] tells_read [OF acc] tells_regs [OF acc] tells_if tells_return)
      (simp_all add: proxied_def)
  show ?thesis
    unfolding helper_agent_load_def Let_def using sel
    by (simp only: if_False simp_thms)
      (intro tells_bind tells_regs [OF acc] tells_Cons [where m = "whenB _ _"] tells_when,
        rule tells_mono [OF start], erule rest, rule rest, simp)
qed

text \<open>The status: what the unit waits for is seen in it.\<close>

definition asked :: "unit_view \<Rightarrow> unit_view" where
  "asked v = v\<lparr>agent_next := agent_code STATUS, agent_in := agent_code AGENT_IDLE\<rparr>"

lemma tells_get_status:
  assumes rep: "reports_states drv" and one: "one_unit sel"
    and free: "agent_in (unit_of d sel) \<notin> {agent_code GVPU_LOAD, agent_code BURST_LOAD, agent_code GVPU_STATUS}"
    and Q: "\<And>x. awaits (unit_of d sel) (packet_data x) \<Longrightarrow>
      Q x ((set_unit sel (asked (unit_of d sel)) d)\<lparr>stage := None\<rparr>)"
  shows "tells (helper_get_agent_status drv sel) Q d"
proof -
  have acc: "accepting drv" using rep by (simp add: reports_states_def)
  have sel: "sel \<noteq> ARTIX_SELECT_BOTH" using one by (auto simp: one_unit_def)
  let ?d = "proxied CTRL_READ sel (loaded_agent STATUS sel d)"
  have d: "stage ?d = Some (CTRL_READ, sel, True)" "agent_in (unit_of ?d sel) = agent_code STATUS"
    "awaits (unit_of ?d sel) x = awaits (unit_of d sel) x"
    "(answer sel ?d)\<lparr>stage := None\<rparr> =
      (set_unit sel (asked (unit_of d sel)) d)\<lparr>stage := None\<rparr>" for x
    by (simp_all add: proxied_def loaded_agent_def run_agent_def set_unit_def answer_def awaits_def asked_def Let_def)
  show ?thesis
    unfolding helper_get_agent_status_def
    by (intro tells_bind tells_agent_load [OF acc one free] tells_subcore [OF acc sel]
        tells_status [OF rep d(1,2)] tells_idle [OF acc] tells_return) (simp only: d(3,4) Q)
qed

lemma tells_print_status:
  assumes "reports_states drv" and "one_unit sel"
    and "agent_in (unit_of d sel) \<notin> {agent_code GVPU_LOAD, agent_code BURST_LOAD, agent_code GVPU_STATUS}"
    and "Q () ((set_unit sel (asked (unit_of d sel)) d)\<lparr>stage := None\<rparr>)"
  shows "tells (helper_print_agent_status drv sel) Q d"
  unfolding helper_print_agent_status_def
  by (intro tells_bind tells_get_status [OF assms(1-3)])
    (use assms(2,4) in \<open>auto simp: one_unit_def intro!: tells_return\<close>)

text \<open>A packet for the gvpu, and loading the gvpu, as what they do to the unit.\<close>

definition gvpu_packet :: "u32 \<Rightarrow> unit_view \<Rightarrow> unit_view" where
  "gvpu_packet c v = (give_gvpu c v)\<lparr>agent_next := agent_code GVPU_LOAD, agent_in := agent_code AGENT_IDLE\<rparr>"

lemma tells_gvpu_packet:
  assumes acc: "accepting drv" and one: "one_unit sel"
    and free: "agent_in (unit_of d sel) \<notin> {agent_code GVPU_LOAD, agent_code BURST_LOAD, agent_code GVPU_STATUS}"
    and Q: "Q () ((set_unit sel (gvpu_packet (packet_data p) (unit_of d sel)) d)\<lparr>stage := None\<rparr>)"
  shows "tells (helper_gvpu_packet_write drv sel p) Q d"
proof -
  have sel: "sel \<noteq> ARTIX_SELECT_BOTH" using one by (auto simp: one_unit_def)
  let ?d = "proxied CTRL_WRITE sel (loaded_agent GVPU_LOAD sel d)"
  have d: "stage ?d = Some (CTRL_WRITE, sel, True)"
    "(give_packet sel p ?d)\<lparr>stage := None\<rparr> =
      (set_unit sel (gvpu_packet (packet_data p) (unit_of d sel)) d)\<lparr>stage := None\<rparr>"
    by (simp add: proxied_def)
      (cases "unit_of d sel", simp add: proxied_def loaded_agent_def run_agent_def set_unit_def give_packet_def
        gvpu_packet_def give_gvpu_def Let_def)
  show ?thesis
    unfolding helper_gvpu_packet_write_def
    by (intro tells_Cons tells_Nil tells_agent_load [OF acc one free] tells_subcore [OF acc sel]
        tells_write [OF acc d(1)] tells_idle [OF acc]) (simp only: d(2) Q)
qed

definition gvpu_running :: "gvpu_states \<Rightarrow> unit_view \<Rightarrow> unit_view" where
  "gvpu_running s v = run_agent ((gvpu_packet (gvpu_code s) v)\<lparr>agent_next := agent_code GVPU_RUN\<rparr>)"

lemma tells_gvpu_load:
  assumes acc: "accepting drv" and one: "one_unit sel"
    and free: "agent_in (unit_of d sel) \<notin> {agent_code GVPU_LOAD, agent_code BURST_LOAD, agent_code GVPU_STATUS}"
    and Q: "Q () ((set_unit sel (gvpu_running s (unit_of d sel)) d)\<lparr>stage := None\<rparr>)"
  shows "tells (helper_gvpu_load drv sel s) Q d"
proof -
  let ?d = "(set_unit sel (gvpu_packet (gvpu_code s) (unit_of d sel)) d)\<lparr>stage := None\<rparr>"
  have d: "agent_in (unit_of ?d sel) \<notin> {agent_code GVPU_LOAD, agent_code BURST_LOAD, agent_code GVPU_STATUS}"
    "(loaded_agent GVPU_RUN sel ?d)\<lparr>stage := None\<rparr> =
      (set_unit sel (gvpu_running s (unit_of d sel)) d)\<lparr>stage := None\<rparr>"
    by (simp_all add: loaded_agent_def gvpu_packet_def gvpu_running_def set_unit_def)
  have "tells (helper_agent_load drv sel GVPU_RUN) (\<lambda>_. tells (doB [subcore_idle drv]) Q) ?d"
    by (intro tells_agent_load [OF acc one d(1)] tells_Cons tells_Nil tells_idle [OF acc]) (simp only: d(2) Q)
  then show ?thesis
    unfolding helper_gvpu_load_def
    by (intro tells_Cons tells_gvpu_packet [OF acc one free]) (simp only: packet_def gcore_ctrl_packet.simps)
qed

text \<open>
  The gvpu runs \<open>s\<close> when it did not wait for a packet before; the memory core runs \<open>m\<close> when it was loaded
  with it through \<^verbatim>\<open>MEM_LOAD\<close> and \<^verbatim>\<open>MEM_RUN\<close>.
\<close>

definition gvpu_ran :: "gvpu_states \<Rightarrow> unit_view \<Rightarrow> unit_view" where
  "gvpu_ran s v = v\<lparr>agent_next := agent_code GVPU_RUN, agent_in := agent_code GVPU_RUN,
     gvpu_next := gvpu_code s, gvpu_in := gvpu_code s\<rparr>"

lemma gvpu_running_ran:
  "gvpu_in v \<notin> {gvpu_code MEM_LOAD, gvpu_code TEST_INIT} \<Longrightarrow> s \<noteq> MEM_RUN \<Longrightarrow> gvpu_running s v = gvpu_ran s v"
  by (cases s) (simp_all add: gvpu_running_def gvpu_ran_def gvpu_packet_def give_gvpu_def run_agent_def Let_def)

definition memcore_ran :: "memcore_states \<Rightarrow> unit_view \<Rightarrow> unit_view" where
  "memcore_ran m v = (gvpu_ran MEM_RUN v)\<lparr>memcore_next := memcore_code m, memcore_in := memcore_code m\<rparr>"

lemma tells_memcore_load:
  assumes rep: "reports_states drv" and one: "one_unit sel" and settled: "settled (unit_of d sel)"
    and Q: "Q () ((set_unit sel (memcore_ran m (unit_of d sel)) d)\<lparr>stage := None\<rparr>)"
  shows "tells (helper_memcore_load drv sel m) Q d"
proof -
  have acc: "accepting drv" using rep by (simp add: reports_states_def)
  let ?v = "unit_of d sel"
  have v: "agent_in ?v \<notin> {agent_code GVPU_LOAD, agent_code BURST_LOAD, agent_code GVPU_STATUS}"
    "gvpu_in ?v \<notin> {gvpu_code MEM_LOAD, gvpu_code TEST_INIT}" using settled by (auto simp: settled_def)
  have load: "gvpu_running MEM_LOAD ?v = gvpu_ran MEM_LOAD ?v" using gvpu_running_ran [OF v(2)] by simp
  let ?e = "\<lambda>w. (set_unit sel w d)\<lparr>stage := None\<rparr>"
  have merge: "(set_unit sel w (?e w'))\<lparr>stage := None\<rparr> = ?e w" for w w' by (simp add: set_unit_def)
  have unit: "unit_of (?e w) sel = w" for w by simp
  have run: "gvpu_running MEM_RUN (gvpu_packet (memcore_code m) (asked (asked (gvpu_ran MEM_LOAD ?v)))) = memcore_ran m ?v"
    by (simp add: gvpu_running_def gvpu_packet_def give_gvpu_def asked_def gvpu_ran_def memcore_ran_def run_agent_def Let_def)
  have after: "tells (doB [helper_gvpu_packet_write drv sel (packet 0 0 (memcore_code m)), helper_gvpu_load drv sel MEM_RUN])
      Q (?e (asked (asked (gvpu_ran MEM_LOAD ?v))))"
    by (intro tells_gvpu_packet [OF acc one] tells_Cons tells_Nil tells_gvpu_load [OF acc one])
      (simp_all only: merge unit packet_def gcore_ctrl_packet.simps run Q, simp_all add: asked_def gvpu_packet_def)
  have check: "tells (check_mem_load drv sel) (\<lambda>_. tells (doB [helper_gvpu_packet_write drv sel
      (packet 0 0 (memcore_code m)), helper_gvpu_load drv sel MEM_RUN]) Q) (?e (asked (gvpu_ran MEM_LOAD ?v)))"
    unfolding check_mem_load_def
    by (intro tells_bind tells_get_status [OF rep one])
      (use after in \<open>auto simp: merge unit awaits_def gvpu_ran_def asked_def intro!: tells_return simp del: doB.simps\<close>)
  show ?thesis
    unfolding helper_memcore_load_def
    by (intro tells_Cons [where m = "helper_gvpu_load drv sel MEM_LOAD"] tells_gvpu_load [OF acc one v(1)]
        tells_Cons [where m = "helper_print_agent_status drv sel"] tells_print_status [OF rep one]
        tells_Cons [where m = "check_mem_load drv sel"])
      (simp_all only: load merge unit check, simp_all add: gvpu_ran_def)
qed

lemma tells_check_write:
  assumes rep: "reports_states drv" and one: "one_unit sel"
    and free: "agent_in (unit_of d sel) \<notin> {agent_code GVPU_LOAD, agent_code BURST_LOAD, agent_code GVPU_STATUS}"
    and mem: "gvpu_in (unit_of d sel) = gvpu_code MEM_RUN" "memcore_in (unit_of d sel) = memcore_code MEMCORE_WRITE_BURST"
    and Q: "Q () ((set_unit sel (asked (unit_of d sel)) d)\<lparr>stage := None\<rparr>)"
  shows "tells (helper_memcore_check_state drv sel MEMCORE_WRITE_BURST n) Q d"
  unfolding helper_memcore_check_state_def using mem Q
  by (auto simp: awaits_def intro!: tells_bind tells_get_status [OF rep one free] tells_return)

text \<open>A device whose unit is replaced, with a burst set up or not.\<close>

definition with_unit :: "artix_selects \<Rightarrow> unit_view \<Rightarrow> device \<Rightarrow> device" where
  "with_unit sel v d = (set_unit sel v d)\<lparr>stage := None\<rparr>"

lemma with_unit [simp]: "unit_of (with_unit sel v d) sel = v" "with_unit sel w (with_unit sel v d) = with_unit sel w d"
  "bursts (with_unit sel v d) = bursts d" "stage (with_unit sel v d) = None"
  "(with_unit sel v d)\<lparr>stage := None\<rparr> = with_unit sel v d"
  "(set_unit sel w (with_unit sel v d))\<lparr>stage := None\<rparr> = with_unit sel w d"
  by (simp_all add: with_unit_def set_unit_def)

lemma tells_burst_setup:
  assumes rep: "reports_states drv" and one: "one_unit sel" and settled: "settled (unit_of d sel)"
    and Q: "\<And>v. settled v \<Longrightarrow> Q () ((with_unit sel v d)\<lparr>bursts := bursts d @
      [(sel, packet (GET_START_RANK a) (GET_START_ADDR a) n, [])]\<rparr>)"
  shows "tells (helper_burst_setup drv sel a n) Q d"
proof -
  have acc: "accepting drv" using rep by (simp add: reports_states_def)
  have sel: "sel \<noteq> ARTIX_SELECT_BOTH" using one by (auto simp: one_unit_def)
  let ?p = "packet (GET_START_RANK a) (GET_START_ADDR a) n"
  let ?v = "memcore_ran MEMCORE_SETUP_BURST (unit_of d sel)"
  have burst: "gvpu_running MEM_BURST ?v = gvpu_ran MEM_BURST ?v"
    by (rule gvpu_running_ran) (simp_all add: memcore_ran_def gvpu_ran_def)
  have free: "agent_in ?v \<notin> {agent_code GVPU_LOAD, agent_code BURST_LOAD, agent_code GVPU_STATUS}"
    "agent_in (gvpu_ran MEM_BURST ?v) \<notin> {agent_code GVPU_LOAD, agent_code BURST_LOAD, agent_code GVPU_STATUS}"
    by (simp_all add: memcore_ran_def gvpu_ran_def)
  define w where "w = (gvpu_ran MEM_BURST ?v)\<lparr>agent_next := agent_code BURST_LOAD, agent_in := agent_code AGENT_IDLE\<rparr>"
  have "settled w" by (simp add: w_def settled_def gvpu_ran_def)
  let ?d = "proxied CTRL_WRITE sel (loaded_agent BURST_LOAD sel (with_unit sel (gvpu_ran MEM_BURST ?v) d))"
  have d: "stage ?d = Some (CTRL_WRITE, sel, True)"
    "(give_packet sel ?p ?d)\<lparr>stage := None\<rparr> = (with_unit sel w d)\<lparr>bursts := bursts d @ [(sel, ?p, [])]\<rparr>"
    by (simp_all add: proxied_def loaded_agent_def run_agent_def set_unit_def give_packet_def with_unit_def w_def Let_def)
  have "tells (doB [helper_agent_load drv sel BURST_LOAD, helper_subcore_load drv sel CTRL_WRITE, subcore_write_packet drv ?p,
      subcore_idle drv]) Q (with_unit sel (gvpu_ran MEM_BURST ?v) d)"
    using free Q [OF \<open>settled w\<close>]
    by (intro tells_Cons tells_Nil tells_agent_load [OF acc one] tells_subcore [OF acc sel] tells_write [OF acc d(1)]
        tells_idle [OF acc]) (simp_all only: with_unit d(2) not_False_eq_True)
  then show ?thesis
    unfolding helper_burst_setup_def using free
    by (intro tells_Cons [where m = "helper_memcore_load drv sel MEMCORE_SETUP_BURST"] tells_memcore_load [OF rep one settled]
        tells_Cons [where m = "helper_gvpu_load drv sel MEM_BURST"] tells_gvpu_load [OF acc one])
      (simp_all only: with_unit_def [symmetric] with_unit burst not_False_eq_True)
qed

text \<open>Before the data: the burst is set up, and the unit told to write it.\<close>

definition before_write :: "driver \<Rightarrow> artix_selects \<Rightarrow> u64 \<Rightarrow> nat \<Rightarrow> unit io" where
  "before_write drv sel a nb = doB
    [helper_burst_setup drv sel a (of_nat nb), helper_print_agent_status drv sel,
     helper_memcore_load drv sel MEMCORE_WRITE_BURST,
     helper_memcore_check_state drv sel MEMCORE_WRITE_BURST nb,
     helper_print_agent_status drv sel, helper_gvpu_load drv sel MEM_WRITE,
     helper_print_agent_status drv sel, helper_agent_load drv sel GVPU_WRITE]"

lemma tells_before_write:
  assumes rep: "reports_states drv" and one: "one_unit sel" and settled: "settled (unit_of d sel)"
    and Q: "\<And>v. agent_in v = agent_code GVPU_WRITE \<Longrightarrow> gvpu_in v = gvpu_code MEM_WRITE \<Longrightarrow>
      Q () ((with_unit sel v d)\<lparr>bursts := bursts d @ [(sel, packet (GET_START_RANK a) (GET_START_ADDR a) (of_nat nb), [])]\<rparr>)"
  shows "tells (before_write drv sel a nb) Q d"
proof -
  have acc: "accepting drv" using rep by (simp add: reports_states_def)
  define e where "e = d\<lparr>bursts := bursts d @ [(sel, packet (GET_START_RANK a) (GET_START_ADDR a) (of_nat nb), [])]\<rparr>"
  have e: "(with_unit sel v d)\<lparr>bursts := bursts d @ [(sel, packet (GET_START_RANK a) (GET_START_ADDR a) (of_nat nb), [])]\<rparr> =
      with_unit sel v e" for v by (simp add: e_def with_unit_def set_unit_def)
  have run: "tells (doB
    [helper_print_agent_status drv sel, helper_memcore_load drv sel MEMCORE_WRITE_BURST,
     helper_memcore_check_state drv sel MEMCORE_WRITE_BURST nb,
     helper_print_agent_status drv sel, helper_gvpu_load drv sel MEM_WRITE,
     helper_print_agent_status drv sel, helper_agent_load drv sel GVPU_WRITE]) Q (with_unit sel v e)"
    if v: "settled v" for v
  proof -
    define v1 where "v1 = memcore_ran MEMCORE_WRITE_BURST (asked v)"
    have "gvpu_running MEM_WRITE (asked (asked v1)) = gvpu_ran MEM_WRITE (asked (asked v1))"
      by (rule gvpu_running_ran) (simp_all add: v1_def asked_def memcore_ran_def gvpu_ran_def)
    moreover define v2 where "v2 = gvpu_ran MEM_WRITE (asked (asked v1))"
    moreover define v3 where "v3 = run_agent ((asked v2)\<lparr>agent_next := agent_code GVPU_WRITE\<rparr>)"
    moreover have "loaded_agent GVPU_WRITE sel (with_unit sel (asked v2) e) = with_unit sel v3 e"
      by (simp add: loaded_agent_def v3_def)
    moreover have "Q () (with_unit sel v3 e)" unfolding e [symmetric]
      by (rule Q) (simp_all add: v3_def v2_def v1_def asked_def gvpu_ran_def run_agent_def Let_def)
    ultimately show ?thesis
      using v by (intro tells_Cons tells_Nil tells_print_status [OF rep one] tells_memcore_load [OF rep one]
        tells_check_write [OF rep one] tells_gvpu_load [OF acc one] tells_agent_load [OF acc one])
        (simp_all add: with_unit_def [symmetric] v1_def [symmetric],
         simp_all add: settled_def v1_def v2_def asked_def gvpu_ran_def memcore_ran_def)
  qed
  have "tells (helper_burst_setup drv sel a (of_nat nb)) (\<lambda>_. tells (doB
    [helper_print_agent_status drv sel, helper_memcore_load drv sel MEMCORE_WRITE_BURST,
     helper_memcore_check_state drv sel MEMCORE_WRITE_BURST nb,
     helper_print_agent_status drv sel, helper_gvpu_load drv sel MEM_WRITE,
     helper_print_agent_status drv sel, helper_agent_load drv sel GVPU_WRITE]) Q) d"
    by (rule tells_burst_setup [OF rep one settled]) (use run in \<open>simp only: e\<close>)
  then show ?thesis unfolding before_write_def by (rule tells_Cons)
qed

lemma tells_prep_write:
  assumes acc: "accepting drv" and one: "one_unit sel" and Q: "Q () (d\<lparr>stage := Some (DMA_WRITE, sel, True)\<rparr>)"
  shows "tells (subcore_prep_dma_write drv sel nb) Q d"
proof -
  have sel: "sel \<noteq> ARTIX_SELECT_BOTH" using one by (auto simp: one_unit_def)
  have burst: "tells (subcore_write_packet drv p) R e" if "stage e = Some (SETUP_BURST, sel, True)" "R () e" for p R e
    unfolding subcore_write_packet_def by (rule tells_void, rule tells_ioctl [OF acc]) (use that in simp)
  show ?thesis
    unfolding subcore_prep_dma_write_def
    by (intro tells_Cons tells_Nil tells_idle [OF acc] tells_subcore [OF acc sel] burst)
      (use Q in \<open>simp_all add: proxied_def\<close>)
qed

text \<open>After the data, the unit is at rest.\<close>

definition after_write :: "driver \<Rightarrow> artix_selects \<Rightarrow> unit io" where
  "after_write drv sel = doB [log_burst_count drv sel, subcore_idle drv,
     helper_gvpu_load drv sel TEST_CLEANUP, helper_print_agent_status drv sel]"

lemma tells_burst_count:
  assumes acc: "accepting drv" and one: "one_unit sel"
    and free: "agent_in (unit_of d sel) \<notin> {agent_code GVPU_LOAD, agent_code BURST_LOAD, agent_code GVPU_STATUS}"
    and Q: "Q () (with_unit sel ((unit_of d sel)\<lparr>agent_next := agent_code GVPU_STATUS, agent_in := agent_code AGENT_IDLE\<rparr>) d)"
  shows "tells (log_burst_count drv sel) Q d"
proof -
  have sel: "sel \<noteq> ARTIX_SELECT_BOTH" using one by (auto simp: one_unit_def)
  let ?e = "proxied CTRL_WRITE sel (loaded_agent GVPU_STATUS sel d)"
  have d: "stage ?e = Some (CTRL_WRITE, sel, True)" "give_packet sel p ?e = ?e"
    "(dev_step (GCORE_CTRL_READ p, []) (proxied CTRL_READ sel ?e))\<lparr>stage := None\<rparr> =
      with_unit sel ((unit_of d sel)\<lparr>agent_next := agent_code GVPU_STATUS, agent_in := agent_code AGENT_IDLE\<rparr>) d" for p
    by (simp_all add: proxied_def loaded_agent_def run_agent_def set_unit_def give_packet_def with_unit_def answer_def Let_def)
  show ?thesis
    unfolding log_burst_count_def helper_get_agent_gvpu_status_def Let_def
    by (intro tells_void tells_bind tells_agent_load [OF acc one free] tells_subcore [OF acc sel]
        tells_write [OF acc d(1)] tells_read [OF acc] tells_idle [OF acc] tells_return) (simp only: d Q)
qed

lemma tells_after_write:
  assumes rep: "reports_states drv" and one: "one_unit sel"
    and writing: "agent_in (unit_of d sel) = agent_code GVPU_WRITE" "gvpu_in (unit_of d sel) = gvpu_code MEM_WRITE"
    and Q: "\<And>v. settled v \<Longrightarrow> Q () (with_unit sel v d)"
  shows "tells (after_write drv sel) Q d"
proof -
  have acc: "accepting drv" using rep by (simp add: reports_states_def)
  define v1 where "v1 = (unit_of d sel)\<lparr>agent_next := agent_code GVPU_STATUS, agent_in := agent_code AGENT_IDLE\<rparr>"
  have "gvpu_running TEST_CLEANUP v1 = gvpu_ran TEST_CLEANUP v1"
    by (rule gvpu_running_ran) (simp_all add: v1_def writing)
  moreover have "Q () (with_unit sel (asked (gvpu_ran TEST_CLEANUP v1)) d)"
    by (rule Q) (simp add: settled_def asked_def gvpu_ran_def)
  ultimately show ?thesis
    unfolding after_write_def
    by (intro tells_Cons tells_Nil tells_burst_count [OF acc one] tells_idle [OF acc] tells_gvpu_load [OF acc one]
        tells_print_status [OF rep one])
      (simp_all add: with_unit_def [symmetric] v1_def [symmetric] writing, simp_all add: v1_def gvpu_ran_def)
qed

section \<open>Transfers of data\<close>

text \<open>Operations that only make the requests of DMA.\<close>

definition transfers :: "'a io \<Rightarrow> bool" where
  "transfers m \<longleftrightarrow> (\<forall>st x st'. m st = Inr (x, st') \<longrightarrow>
     (\<exists>h. hist st' = hist st @ h \<and> list_all (\<lambda>r. \<not> control_request (fst r)) h))"

named_theorems transfers \<open>operations that only transfer data\<close>

lemma transfers_bind [transfers]:
  assumes "transfers m" and "\<And>x. transfers (f x)"
  shows "transfers (bindB m f)"
  unfolding transfers_def
proof (intro allI impI)
  fix st y st' assume "bindB m f st = Inr (y, st')"
  then obtain x st1 where "m st = Inr (x, st1)" "f x st1 = Inr (y, st')" by (auto simp: bindB_Inr_iff)
  with assms obtain h h' where "hist st1 = hist st @ h" "list_all (\<lambda>r. \<not> control_request (fst r)) h"
    "hist st' = hist st1 @ h'" "list_all (\<lambda>r. \<not> control_request (fst r)) h'" unfolding transfers_def by metis
  then show "\<exists>h. hist st' = hist st @ h \<and> list_all (\<lambda>r. \<not> control_request (fst r)) h"
    by (intro exI [of _ "h @ h'"]) simp
qed

lemma transfers_return [transfers]: "transfers (returnB x)"
  by (simp add: transfers_def returnB_def)

lemma transfers_fail [transfers]: "transfers (failB e)"
  by (simp add: transfers_def failB_def)

lemma transfers_get [transfers]: "transfers (getB f)"
  by (simp add: transfers_def getB_def)

lemma transfers_lift [transfers]: "transfers (liftB r)"
  by (auto simp: transfers_def liftB_def bindR_Inr_iff)

lemma transfers_modify [transfers]: "(\<And>st. hist (f st) = hist st) \<Longrightarrow> transfers (modifyB f)"
  by (simp add: transfers_def modifyB_def)

lemma transfers_Nil [transfers]: "transfers (doB [])"
  by (simp add: transfers_return)

lemma transfers_Cons [transfers]: "transfers m \<Longrightarrow> transfers (doB ms) \<Longrightarrow> transfers (doB (m # ms))"
  by (simp add: transfers_bind)

lemma transfers_doB: "(\<And>m. m \<in> set ms \<Longrightarrow> transfers m) \<Longrightarrow> transfers (doB ms)"
  by (induction ms) (simp_all add: transfers_return transfers_bind)

lemma transfers_when [transfers]: "transfers m \<Longrightarrow> transfers (whenB b m)"
  by (simp add: whenB_def transfers_return)

lemma transfers_void [transfers]: "transfers m \<Longrightarrow> transfers (voidB m)"
  unfolding voidB_def by (intro transfers_bind transfers_return)

lemma transfers_ioctl [transfers]:
  "\<not> control_request r \<Longrightarrow> transfers (ioctl_neg drv r)" "\<not> control_request r \<Longrightarrow> transfers (ioctl_nz drv r)"
  by (auto simp: transfers_def ioctl_neg_def ioctl_nz_def ioctl_def Let_def split: if_splits)

lemma transfers_prep [transfers]: "transfers (gcore_dma_prep drv p n q k)"
  unfolding gcore_dma_prep_def config_tx_def config_rx_def prep_tx_def prep_rx_def Let_def
  by (intro transfers control_request.simps(1-5) [THEN eq_False [THEN iffD1]]) simp_all

lemma transfers_start [transfers]: "transfers (gcore_dma_start drv w)"
proof -
  have "transfers (if \<not> (tx \<or> rx) then failB Bad_state else doB [whenB tx (start_tx drv w), whenB rx (start_rx drv w)])" for tx rx
    unfolding start_tx_def start_rx_def by (auto intro!: transfers simp del: doB.simps)
  then show ?thesis unfolding gcore_dma_start_def by (intro transfers) (simp add: split_beta)
qed

lemma transfers_map_write [transfers]: "transfers (map_write p bs)"
  unfolding map_write_def by (intro transfers) simp

lemma transfers_alloc [transfers]: "transfers (gcore_dma_alloc n k)"
  unfolding gcore_dma_alloc_def by (intro transfers) simp

lemma transfers_send [transfers]: "transfers (send_bytes drv p bs i n)"
  unfolding send_bytes_def by (intro transfers)

lemma transfers_write: "transfers (if n > DMA_SIZE then write_in_chunks drv bs n else write_at_once drv bs n nb)"
  unfolding write_in_chunks_def write_at_once_def gcore_dma_prep_start_def Let_def
  by (auto intro!: transfers transfers_doB simp del: doB.simps)

text \<open>The data goes to the burst that was set up last, if the unit was told to write.\<close>

lemma add_bytes_Nil: "add_bytes [] bs = bs"
  by (cases bs rule: rev_cases) (auto simp: add_bytes_def)

lemma add_bytes_snoc [simp]: "add_bytes ds (bs @ [(u, p, xs)]) = bs @ [(u, p, xs @ ds)]"
  by (simp add: add_bytes_def)

lemma add_bytes_add: "add_bytes ys (add_bytes xs bs) = add_bytes (xs @ ys) bs"
  by (cases bs rule: rev_cases) (auto simp: add_bytes_def)

lemma writes_memory_frame: "writes_memory (d\<lparr>prepared := cs\<rparr>) = writes_memory d"
  "writes_memory d \<Longrightarrow> writes_memory (d\<lparr>bursts := add_bytes xs (bursts d)\<rparr>)"
  by (auto simp: writes_memory_def add_bytes_def rev_swap split: option.splits prod.splits list.splits subcore_states.splits bool.splits)

lemma device_takes:
  assumes "list_all (\<lambda>r. \<not> control_request (fst r)) h" and "writes_memory d" and "prepared d = cs"
  shows "\<exists>ps. fold dev_step h d = d\<lparr>prepared := ps, bursts := add_bytes (sent cs h) (bursts d)\<rparr>"
  using assms
proof (induction cs h arbitrary: d rule: sent.induct)
  case (1 cs)
  then show ?case by (intro exI [of _ "prepared d"]) (simp add: add_bytes_Nil)
next
  case (4 cs t m h)
  show ?case
  proof (cases cs)
    case Nil
    with 4 show ?thesis by auto
  next
    case (Cons c cs')
    define e where "e = take_data c m (d\<lparr>prepared := cs'\<rparr>)"
    have e: "e = d\<lparr>prepared := cs', bursts := add_bytes (if cfg_dir c = GCORE_MEM_TO_DEV
        then take (buf_size c) (drop (buf_offset c) m) else []) (bursts d)\<rparr>"
      using 4(4) by (simp add: e_def take_data_def writes_memory_frame add_bytes_Nil)
    have "writes_memory e" "prepared e = cs'"
      using 4(4) writes_memory_frame(2) [of "d\<lparr>prepared := cs'\<rparr>"] by (simp_all add: e writes_memory_frame)
    with 4(2) [OF Cons, of e] 4(3) obtain ps where
      "fold dev_step h e = e\<lparr>prepared := ps, bursts := add_bytes (sent cs' h) (bursts e)\<rparr>" by auto
    moreover have "fold dev_step ((GCORE_DMA_START t, m) # h) d = fold dev_step h e"
      using 4(5) Cons by (simp add: e_def)
    ultimately show ?thesis using Cons by (intro exI [of _ ps]) (simp add: e add_bytes_add)
  qed
next
  case (2 cs m h)
  from 2(1) [of "d\<lparr>prepared := []\<rparr>"] 2(2,3) show ?case by (auto simp: writes_memory_frame)
next
  case (3 cs c m h)
  from 3(1) [of "d\<lparr>prepared := cs @ [c]\<rparr>"] 3(2-4) show ?case by (auto simp: writes_memory_frame)
next
  case (5 cs n m h)
  from 5(1) [of "d\<lparr>prepared := tl cs\<rparr>"] 5(2-4) show ?case by (auto simp: writes_memory_frame)
qed simp_all

section \<open>A driver that reports the states\<close>

text \<open>A driver with units that show the states they were told to run, for the witnesses.\<close>

definition reported_status :: "unit_view \<Rightarrow> u32" where
  "reported_status v = or (and (agent_in v) 0xf)
     (or (push_bit 4 (and (gvpu_in v) 0xf)) (push_bit 8 (and (memcore_in v) 0xf)))"

definition reporting_driver :: driver where
  "reporting_driver h = steady_driver (case stage (device_of (butlast h)) of
      Some (_, sel, _) \<Rightarrow> reported_status (unit_of (device_of (butlast h)) sel) | None \<Rightarrow> 0) h"

lemma steady_accepting: "accepting (steady_driver d)"
proof -
  have "\<not> has_mask 0 GCORE_STATUS_INIT_ERROR_MASK"
    by (simp add: has_mask_def GCORE_STATUS_INIT_ERROR_MASK_def)
  then show ?thesis using steady_keeps_config by (simp add: accepting_def steady_driver_def)
qed

lemma reported_awaits: "awaits v (reported_status v)"
proof -
  have low: "and (reported_status v) 0xf0 = push_bit 4 (and (gvpu_in v) 0xf)"
    and high: "and (reported_status v) 0xf00 = push_bit 8 (and (memcore_in v) 0xf)"
    by (simp_all add: reported_status_def push_bit_and bit.conj_disj_distrib2 and.assoc)
  show ?thesis by (simp add: awaits_def low high)
qed

lemma reporting_keeps_config: "keeps_config reporting_driver"
  by (simp add: keeps_config_def same_transfer_def reporting_driver_def steady_driver_def)

lemma reporting_accepting: "accepting reporting_driver"
  using steady_accepting reporting_keeps_config by (simp add: accepting_def reporting_driver_def)

lemma reporting_driver_reports: "reports_states reporting_driver"
  using reporting_accepting reported_awaits
  by (auto simp: reports_states_def reporting_driver_def steady_driver_def packet_def)

end
