(* ===== verification/Artix_Load.thy ===== *)
theory Artix_Load
  imports Board_Device
begin

text \<open>
  The operations of the board return when the driver accepts its requests, and loading a stimulus
  transfers its compiled pattern. Runs, verdicts and failing pins.
\<close>

section \<open>Transfers that return\<close>

lemma transmit_returns:
  assumes "accepting drv" and "n \<noteq> 0"
  shows "\<exists>st'. doB [gcore_dma_prep drv (Some p) n None 0, gcore_dma_start drv w] st = Inr ((), st')"
proof -
  note ioctls = returns_ioctl [OF assms(1), unfolded returns_def]
  have ok: "ret (drv h) = 0" for h using assms(1) by (simp add: accepting_def)
  have "\<exists>st1. gcore_dma_prep drv (Some p) n None 0 st = Inr ((), st1) \<and>
      is_tx_prepared st1 \<and> \<not> is_rx_prepared st1"
    using assms(2) by (auto simp: gcore_dma_prep_def io_simps config_tx_def prep_tx_def ok)
  then obtain st1 where "gcore_dma_prep drv (Some p) n None 0 st = Inr ((), st1)"
    "is_tx_prepared st1" "\<not> is_rx_prepared st1" by blast
  moreover from this have "\<exists>st'. gcore_dma_start drv w st1 = Inr ((), st')"
    by (auto simp: gcore_dma_start_def start_tx_def io_simps ok)
  ultimately show ?thesis by (auto simp: doB_Inr_iff simp del: doB.simps)
qed

lemma blit_fits: "length ys \<le> length xs \<Longrightarrow> blitR xs 0 ys = Inr (ys @ drop (length ys) xs)"
  by (simp add: blitR_def)

lemma map_write_returns:
  "length bs \<le> length (gcore_map st) \<Longrightarrow> \<exists>st'. map_write 0 bs st = Inr ((), st') \<and>
     length (gcore_map st') = length (gcore_map st) \<and> alloc_offset st' = alloc_offset st"
  by (simp add: map_write_Inr blit_fits)

lemma bindB_run: "m st = Inr (x, st1) \<Longrightarrow> bindB m f st = f x st1"
  by (simp add: bindB_def)

text \<open>A loop of statements that each keep a condition under which they return.\<close>

lemma doB_returns:
  assumes "P st" and "\<And>m st. m \<in> set ms \<Longrightarrow> P st \<Longrightarrow> \<exists>st'. m st = Inr ((), st') \<and> P st'"
  shows "\<exists>st'. doB ms st = Inr ((), st') \<and> P st'"
  using assms
proof (induction ms arbitrary: st)
  case Nil
  then show ?case by (simp add: returnB_def)
next
  case (Cons m ms)
  then obtain st1 where "m st = Inr ((), st1)" "P st1" by (meson list.set_intros(1))
  with Cons show ?case by (auto simp: doB_Inr_iff simp del: doB.simps)
qed

lemma transmit_keeps_map:
  assumes "keeps_config drv"
    and "doB [gcore_dma_prep drv (Some p) n None 0, gcore_dma_start drv w] st = Inr (u, st')"
  shows "length (gcore_map st') = length (gcore_map st)"
  using transmit_moved(2) [OF assms] by simp

lemma send_bytes_returns:
  assumes "accepting drv" and "n \<noteq> 0" and "i + n \<le> length bs" and "n \<le> length (gcore_map st)"
  shows "\<exists>st'. send_bytes drv 0 bs i n st = Inr ((), st') \<and> length (gcore_map st') = length (gcore_map st)"
proof -
  from map_write_returns [of "take n (drop i bs)" st] assms(3,4) obtain st1 where
    w: "map_write 0 (take n (drop i bs)) st = Inr ((), st1)" "length (gcore_map st1) = length (gcore_map st)"
    by auto
  from transmit_returns [OF assms(1,2)] obtain st' where
    tx: "doB [gcore_dma_prep drv (Some 0) n None 0, gcore_dma_start drv GCORE_WAIT_TX] st1 = Inr ((), st')"
    by blast
  have "keeps_config drv" using assms(1) by (simp add: accepting_def)
  from transmit_keeps_map [OF this tx] w tx assms(3) show ?thesis
    unfolding send_bytes_def bytes_at_def liftB_def doB.simps(2) [of "map_write _ _"]
    by (simp add: bindB_def)
qed

lemma write_data_returns:
  assumes "accepting drv" and "0 < n" and "n \<le> length bs" and "n \<le> MAX_CHUNK_SIZE"
    and "alloc_offset st = 0" and "DMA_SIZE \<le> length (gcore_map st)"
  shows "\<exists>st'. (if n > DMA_SIZE then write_in_chunks drv bs n else write_at_once drv bs n (num_bursts_of n)) st =
    Inr ((), st') \<and> length (gcore_map st') = length (gcore_map st)"
proof (cases "n > DMA_SIZE")
  case True
  let ?k = "n div DMA_SIZE" and ?r = "n mod DMA_SIZE"
  have n: "?k * DMA_SIZE + ?r = n" "n - ?r = ?k * DMA_SIZE"
    by (simp_all add: minus_mod_eq_div_mult)
  let ?M = "length (gcore_map st)"
  let ?z = "replicate DMA_SIZE (0 :: u8)"
  define ms where "ms = [map_write 0 ?z, doB (map (\<lambda>i. doB [map_write 0 ?z,
      send_bytes drv 0 bs (i * DMA_SIZE) DMA_SIZE]) [0..<?k]),
    whenB (?r \<noteq> 0) (send_bytes drv 0 bs (?k * DMA_SIZE) ?r)]"
  define st1 where "st1 = st\<lparr>alloc_offset := wrap32 (gcore_dma_calc_size DMA_SIZE 1)\<rparr>"
  have zero: "\<exists>st'. map_write 0 ?z st = Inr ((), st') \<and> length (gcore_map st') = ?M"
    if "length (gcore_map st) = ?M" for st
    using map_write_returns [of ?z st] that assms(6) by auto
  have sends: "\<exists>st'. send_bytes drv 0 bs i k st = Inr ((), st') \<and> length (gcore_map st') = ?M"
    if "length (gcore_map st) = ?M" "i + k \<le> length bs" "k \<noteq> 0" "k \<le> DMA_SIZE" for i k st
    using send_bytes_returns [OF assms(1) that(3,2), of st] that assms(6) by auto
  have r: "?r \<le> DMA_SIZE" by (simp add: DMA_SIZE_def)
  have "\<exists>st'. doB ms st1 = Inr ((), st') \<and> length (gcore_map st') = ?M"
  proof (rule doB_returns [where P = "\<lambda>s. length (gcore_map s) = ?M"])
    fix m and s :: board assume m: "m \<in> set ms" and s: "length (gcore_map s) = ?M"
    have "\<exists>st'. doB (map (\<lambda>i. doB [map_write 0 ?z, send_bytes drv 0 bs (i * DMA_SIZE) DMA_SIZE]) [0..<?k]) s =
        Inr ((), st') \<and> length (gcore_map st') = ?M"
    proof (rule doB_returns [where P = "\<lambda>s. length (gcore_map s) = ?M", OF s])
      fix m and s :: board assume "m \<in> set (map (\<lambda>i. doB [map_write 0 ?z, send_bytes drv 0 bs (i * DMA_SIZE) DMA_SIZE]) [0..<?k])"
        and s: "length (gcore_map s) = ?M"
      then obtain i where i: "i < ?k" and m: "m = doB [map_write 0 ?z, send_bytes drv 0 bs (i * DMA_SIZE) DMA_SIZE]"
        by (auto simp del: doB.simps)
      have "Suc i * DMA_SIZE \<le> ?k * DMA_SIZE" using i by (intro mult_le_mono1) simp
      then have "i * DMA_SIZE + DMA_SIZE \<le> ?k * DMA_SIZE" by simp
      then have fits: "i * DMA_SIZE + DMA_SIZE \<le> length bs" using n(1) assms(3) by linarith
      from zero [OF s] obtain s1 where "map_write 0 ?z s = Inr ((), s1)" "length (gcore_map s1) = ?M" by blast
      moreover from sends [OF this(2) fits] obtain s2 where
        "send_bytes drv 0 bs (i * DMA_SIZE) DMA_SIZE s1 = Inr ((), s2)" "length (gcore_map s2) = ?M"
        by (auto simp: DMA_SIZE_def)
      ultimately show "\<exists>st'. m s = Inr ((), st') \<and> length (gcore_map st') = ?M"
        unfolding m by (auto simp: doB_Inr_iff simp del: doB.simps)
    qed
    moreover have "?r \<noteq> 0 \<Longrightarrow> \<exists>st'. send_bytes drv 0 bs (?k * DMA_SIZE) ?r s = Inr ((), st') \<and> length (gcore_map st') = ?M"
      using sends [OF s _ _ r] n(1) assms(3) by simp
    ultimately show "\<exists>st'. m s = Inr ((), st') \<and> length (gcore_map st') = ?M"
      using m zero [OF s] s unfolding ms_def by (auto simp: whenB_def returnB_def simp del: doB.simps)
  qed (simp add: st1_def)
  moreover have "write_in_chunks drv bs n st = doB ms st1"
    unfolding write_in_chunks_def Let_def ms_def n(2)
    by (rule bindB_run [THEN trans]) (auto simp: alloc_Inr st1_def assms(5) simp del: doB.simps)
  ultimately show ?thesis using True by simp
next
  case False
  let ?n = "num_bursts_of n * 1024"
  have n: "n \<le> DMA_SIZE" using False by simp
  have nb: "?n \<le> DMA_SIZE" "n \<le> ?n" "wrap32 (num_bursts_of n * BURST_BYTES) = ?n"
  proof -
    have "num_bursts_of n = (n + 1023) div 1024" using num_bursts_small [OF assms(4)] .
    moreover have "(n + 1023) div 1024 \<le> 8188" using div_le_mono [of "n + 1023" "8384512 + 1023" 1024] n
      by (simp add: DMA_SIZE_def)
    ultimately show "?n \<le> DMA_SIZE" "n \<le> ?n" "wrap32 (num_bursts_of n * BURST_BYTES) = ?n"
      by (auto simp: DMA_SIZE_def BURST_BYTES_def)
  qed
  define st1 where "st1 = st\<lparr>alloc_offset := wrap32 (gcore_dma_calc_size ?n 1)\<rparr>"
  from map_write_returns [of "replicate ?n 0" st1] nb(1) assms(6) obtain st2 where
    2: "map_write 0 (replicate ?n 0) st1 = Inr ((), st2)" "length (gcore_map st2) = length (gcore_map st)"
    by (auto simp: st1_def)
  from map_write_returns [of "take n bs" st2] 2(2) n assms(3,6) obtain st3 where
    3: "map_write 0 (take n bs) st2 = Inr ((), st3)" "length (gcore_map st3) = length (gcore_map st)" by auto
  have "?n \<noteq> 0" using nb(2) assms(2) by simp
  from transmit_returns [OF assms(1) this] obtain st' where
    4: "doB [gcore_dma_prep drv (Some 0) ?n None 0, gcore_dma_start drv GCORE_WAIT_TX] st3 = Inr ((), st')" by blast
  have "keeps_config drv" using assms(1) by (simp add: accepting_def)
  from transmit_keeps_map [OF this 4] False 2 3 4 assms(3,5) show ?thesis
    unfolding write_at_once_def Let_def nb(3) gcore_dma_prep_start_def bytes_at_def liftB_def
      doB.simps(2) [of "map_write _ _"]
    by (simp add: gcore_dma_alloc_def bindB_def getB_def modifyB_def returnB_def st1_def)
qed

lemma write_data_moved:
  assumes "keeps_config drv" and "n \<le> MAX_CHUNK_SIZE" and "alloc_offset st = 0"
    and "(if n > DMA_SIZE then write_in_chunks drv bs n else write_at_once drv bs n (num_bursts_of n)) st = Inr (u, st')"
  shows "moved drv st st' (take n bs @ replicate (write_padding n) 0) []"
proof -
  have "n < 2 ^ 32" "num_bursts_of n * 1024 < 2 ^ 32" "n \<le> num_bursts_of n * 1024"
    using assms(2) num_bursts_small [OF assms(2)] by (auto simp: MAX_CHUNK_SIZE_def)
  then show ?thesis
    using assms(3,4) write_in_chunks_moved [OF assms(1), of bs n st u st']
      write_at_once_moved [OF assms(1), of bs n "num_bursts_of n" st u st']
    by (auto simp: write_padding_def split: if_splits)
qed

lemma bindB_unit: "bindB m returnB = m"
proof
  fix st show "bindB m returnB st = m st"
    by (cases "m st") (auto simp: bindB_def returnB_def)
qed

lemma doB_nested: "doB (ms @ [doB ns]) = doB (ms @ ns)"
  by (simp add: doB_append bindB_unit)

text \<open>The burst that a write leaves in the log of the device.\<close>

definition burst_of :: "artix_selects \<Rightarrow> u64 \<Rightarrow> u8 list \<Rightarrow> artix_selects \<times> gcore_ctrl_packet \<times> u8 list" where
  "burst_of sel a bs =
     (sel, packet (GET_START_RANK a) (GET_START_ADDR a) (of_nat (num_bursts_of (length bs))), bs)"

lemma mem_write_total:
  assumes rep: "reports_states drv" and one: "one_unit sel" and n: "0 < n" "n \<le> length bs" "n \<le> MAX_CHUNK_SIZE"
    and addr: "unat a \<le> 0x1ffffffff - BURST_BYTES" and map: "DMA_SIZE \<le> length (gcore_map st)"
    and rest: "at_rest (hist st)"
  shows "\<exists>st'. artix_mem_write drv sel a bs n st = Inr ((), st') \<and>
    length (gcore_map st') = length (gcore_map st) \<and> at_rest (hist st') \<and>
    bursts (device_of (hist st')) = bursts (device_of (hist st)) @
      [(sel, packet (GET_START_RANK a) (GET_START_ADDR a) (of_nat (num_bursts_of n)),
        take n bs @ replicate (write_padding n) 0)]"
proof -
  define nb where "nb = num_bursts_of n"
  define p where "p = packet (GET_START_RANK a) (GET_START_ADDR a) (of_nat nb)"
  define d where "d = device_of (hist st)"
  define w where "w = (if n > DMA_SIZE then write_in_chunks drv bs n else write_at_once drv bs n nb)"
  have acc: "accepting drv" and keeps: "keeps_config drv" using rep by (simp_all add: reports_states_def accepting_def)
  have op: "artix_mem_write drv sel a bs n = bindB (before_write drv sel a nb)
      (\<lambda>_. doB ([gcore_dma_alloc_reset, subcore_prep_dma_write drv sel nb, w] @ [after_write drv sel]))"
    using n(3) addr unfolding artix_mem_write_def before_write_def after_write_def doB_nested w_def nb_def Let_def
    by (simp only: doB_append [symmetric] append_Cons append_Nil not_le [symmetric] if_False simp_thms)
  have "settled (unit_of d sel)" using rest by (simp add: at_rest_def d_def)
  then have "tells (before_write drv sel a nb) (\<lambda>_ d'. \<exists>v. agent_in v = agent_code GVPU_WRITE \<and>
      gvpu_in v = gvpu_code MEM_WRITE \<and> d' = (with_unit sel v d)\<lparr>bursts := bursts d @ [(sel, p, [])]\<rparr>) (device_of (hist st))"
    unfolding p_def d_def by (rule tells_before_write [OF rep one]) blast
  from tells_run [OF this] obtain v st1 where 1: "before_write drv sel a nb st = Inr ((), st1)"
    and v: "agent_in v = agent_code GVPU_WRITE" "gvpu_in v = gvpu_code MEM_WRITE"
    and d1: "device_of (hist st1) = (with_unit sel v d)\<lparr>bursts := bursts d @ [(sel, p, [])]\<rparr>"
    by blast
  have "controls (before_write drv sel a nb) UNIV {Idle}" unfolding before_write_def by (rule controls)+
  note m1 = controls_moved [OF this 1]
  define st2 where "st2 = st1\<lparr>alloc_offset := 0\<rparr>"
  have "tells (subcore_prep_dma_write drv sel nb) (\<lambda>_ d'. d' = (device_of (hist st1))\<lparr>stage := Some (DMA_WRITE, sel, True)\<rparr>)
      (device_of (hist st2))"
    by (rule tells_prep_write [OF acc one]) (simp add: st2_def)
  from tells_run [OF this] obtain st3 where 3: "subcore_prep_dma_write drv sel nb st2 = Inr ((), st3)"
    and d3: "device_of (hist st3) = (device_of (hist st1))\<lparr>stage := Some (DMA_WRITE, sel, True)\<rparr>"
    by blast
  note m3 = controls_moved [OF controls_prep_write 3]
  have "alloc_offset st3 = 0" "DMA_SIZE \<le> length (gcore_map st3)"
    using m1(2) m3(2,3) map by (simp_all add: st2_def)
  moreover from write_data_returns [OF acc n this] obtain st4 where
    4: "w st3 = Inr ((), st4)" "length (gcore_map st4) = length (gcore_map st3)" unfolding w_def nb_def by blast
  ultimately have "moved drv st3 st4 (take n bs @ replicate (write_padding n) 0) []"
    using write_data_moved [OF keeps n(3)] unfolding w_def nb_def by blast
  moreover have "transfers w" unfolding w_def by (rule transfers_write)
  ultimately obtain h where h: "hist st4 = hist st3 @ h" "list_all (\<lambda>r. \<not> control_request (fst r)) h"
    "\<And>cs. sent cs h = take n bs @ replicate (write_padding n) 0"
    using 4(1) unfolding moved_def transfers_def by (metis append_same_eq same_append_eq)
  have "writes_memory (device_of (hist st3))" using v by (simp add: d3 d1 writes_memory_def)
  from device_takes [OF h(2) this refl] obtain ps where
    d4: "device_of (hist st4) = (device_of (hist st3))\<lparr>prepared := ps,
      bursts := bursts d @ [(sel, p, take n bs @ replicate (write_padding n) 0)]\<rparr>"
    by (auto simp: h device_of_append d3 d1)
  have "agent_in (unit_of (device_of (hist st4)) sel) = agent_code GVPU_WRITE"
    "gvpu_in (unit_of (device_of (hist st4)) sel) = gvpu_code MEM_WRITE" using v by (simp_all add: d4 d3 d1)
  then have "tells (after_write drv sel) (\<lambda>_ d'. \<exists>u. settled u \<and> d' = with_unit sel u (device_of (hist st4)))
      (device_of (hist st4))"
    by (rule tells_after_write [OF rep one]) blast
  from tells_run [OF this] obtain u st' where 5: "after_write drv sel st4 = Inr ((), st')" "settled u"
    and d5: "device_of (hist st') = with_unit sel u (device_of (hist st4))"
    by blast
  have "controls (after_write drv sel) UNIV {Idle}" unfolding after_write_def by (rule controls)+
  from controls_moved(2) [OF this 5(1)] have "gcore_map st' = gcore_map st4" .
  moreover have "artix_mem_write drv sel a bs n st = Inr ((), st')"
    unfolding op append_Cons append_Nil bindB_Inr_iff doB_Inr_iff alloc_reset_Inr
    using 1 3 4(1) 5(1) by (auto simp: st2_def)
  moreover have "at_rest (hist st')"
    using rest 5(2) by (auto simp: at_rest_def d5 d4 d3 d1 d_def with_unit_def)
  ultimately show ?thesis using m1(2) m3(2) 4(2) by (auto simp: st2_def d5 d4 d_def p_def nb_def)
qed

section \<open>Loading a stimulus\<close>

lemma write_padding_bursts: "n mod 1024 = 0 \<Longrightarrow> n \<le> MAX_CHUNK_SIZE \<Longrightarrow> write_padding n = 0"
  by (auto simp: write_padding_def num_bursts_small)

text \<open>Writing whole chunks one after the other: each is a burst of its own, at the same address.\<close>

definition chunk_bursts :: "artix_selects \<Rightarrow> u64 \<Rightarrow> vec_chunk list \<Rightarrow> (artix_selects \<times> gcore_ctrl_packet \<times> u8 list) list" where
  "chunk_bursts sel a cs = map (\<lambda>c. burst_of sel a (the (vec_data c))) cs"

lemma write_chunks_run:
  assumes "reports_states drv" and "one_unit sel" and "load_addr_ok a"
    and "DMA_SIZE \<le> length (gcore_map st)" and "at_rest (hist st)" and "\<forall>c\<in>set cs. whole_chunk c"
  shows "\<exists>n st'. foldR (write_chunk drv sel a) cs (0, st) = Inr (n, st') \<and>
    length (gcore_map st') = length (gcore_map st) \<and> at_rest (hist st') \<and>
    bursts (device_of (hist st')) = bursts (device_of (hist st)) @ chunk_bursts sel a cs \<and>
    moved drv st st' (chunks_bytes cs) []"
  using assms(6)
proof (induction cs rule: rev_induct)
  case Nil
  then show ?case using assms(5) by (auto intro: moved_refl simp: chunk_bursts_def)
next
  case (snoc c cs)
  then obtain n st1 where 1: "foldR (write_chunk drv sel a) cs (0, st) = Inr (n, st1)"
    "length (gcore_map st1) = length (gcore_map st)" "moved drv st st1 (chunks_bytes cs) []" "at_rest (hist st1)"
    "bursts (device_of (hist st1)) = bursts (device_of (hist st)) @ chunk_bursts sel a cs" by auto
  from snoc.prems obtain bs where chunk: "vec_data c = Some bs" and size: "length bs = vec_data_size c"
    "vec_data_size c mod 1024 = 0" "0 < vec_data_size c" "vec_data_size c \<le> STIM_CHUNK_SIZE"
    by (auto simp: whole_chunk_def)
  have small: "vec_data_size c \<le> MAX_CHUNK_SIZE" using size(4) by (simp add: MAX_CHUNK_SIZE_def STIM_CHUNK_SIZE_def)
  have addr: "unat a \<le> 0x1ffffffff - BURST_BYTES" using assms(3) by (simp add: load_addr_ok_def BURST_BYTES_def)
  from mem_write_total [OF assms(1,2) size(3) _ small addr, of bs st1] size(1) 1(2,4) assms(4)
  obtain st2 where 2: "artix_mem_write drv sel a bs (vec_data_size c) st1 = Inr ((), st2)"
    "length (gcore_map st2) = length (gcore_map st)" "at_rest (hist st2)"
    "bursts (device_of (hist st2)) = bursts (device_of (hist st1)) @ [burst_of sel a bs]"
    using write_padding_bursts [OF size(2) small] by (auto simp: burst_of_def)
  have "keeps_config drv" using assms(1) by (simp add: reports_states_def accepting_def)
  from mem_write_moved [OF this 2(1)] have "moved drv st1 st2 bs []"
    using size(1,2) write_padding_bursts [OF _ small] by simp
  from moved_trans [OF 1(3) this] have "moved drv st st2 (chunks_bytes (cs @ [c])) []" by (simp add: chunk)
  moreover have "foldR (write_chunk drv sel a) (cs @ [c]) (0, st) = Inr (wrap64 (n + vec_data_size c), st2)"
    using 1(1) 2(1) chunk by (simp add: foldR_append write_chunk_def)
  moreover have "bursts (device_of (hist st2)) = bursts (device_of (hist st)) @ chunk_bursts sel a (cs @ [c])"
    using 2(4) 1(5) chunk by (simp add: chunk_bursts_def)
  ultimately show ?case using 2(2,3) by blast
qed

text \<open>Loading the gvpu of a unit at rest.\<close>

lemma gvpu_load_rest:
  assumes acc: "accepting drv" and one: "one_unit sel" and rest: "at_rest (hist st)"
  shows "\<exists>st'. helper_gvpu_load drv sel TEST_CLEANUP st = Inr ((), st') \<and> at_rest (hist st') \<and>
    bursts (device_of (hist st')) = bursts (device_of (hist st))"
proof -
  let ?d = "device_of (hist st)"
  have v: "agent_in (unit_of ?d sel) \<notin> {agent_code GVPU_LOAD, agent_code BURST_LOAD, agent_code GVPU_STATUS}"
    "gvpu_in (unit_of ?d sel) \<notin> {gvpu_code MEM_LOAD, gvpu_code TEST_INIT}" using rest by (auto simp: at_rest_def settled_def)
  have "settled (gvpu_ran TEST_CLEANUP (unit_of ?d sel))" by (simp add: settled_def gvpu_ran_def)
  moreover have "tells (helper_gvpu_load drv sel TEST_CLEANUP)
      (\<lambda>_ d'. d' = with_unit sel (gvpu_ran TEST_CLEANUP (unit_of ?d sel)) ?d) ?d"
    by (rule tells_gvpu_load [OF acc one v(1)]) (simp add: gvpu_running_ran [OF v(2)] with_unit_def)
  from tells_run [OF this] obtain st' where "helper_gvpu_load drv sel TEST_CLEANUP st = Inr ((), st')"
    "device_of (hist st') = with_unit sel (gvpu_ran TEST_CLEANUP (unit_of ?d sel)) ?d" by blast
  ultimately show ?thesis using rest by (auto simp: at_rest_def with_unit_def)
qed

text \<open>Loading the units from sources of whole chunks.\<close>

lemma load_unit_chunks:
  assumes ready: "reports_states drv" and one: "one_unit sel"
    and addr: "load_addr_ok (a sel)" and map: "DMA_SIZE \<le> length (gcore_map st)" and rest: "at_rest (hist st)"
    and whole: "\<forall>c\<in>set cs. whole_chunk c"
    and src: "yields (next_chunk lz4 sel) s0 cs s1" "length cs = unit_num_chunks sel s0"
  shows "\<exists>n st'. load_unit lz4 drv a sel (s0, n0) st = Inr ((s1, n), st') \<and>
    length (gcore_map st') = length (gcore_map st) \<and> at_rest (hist st') \<and>
    bursts (device_of (hist st')) = bursts (device_of (hist st)) @ chunk_bursts sel (a sel) cs \<and>
    moved drv st st' (chunks_bytes cs) []"
proof -
  from write_chunks_run [OF ready one addr map rest whole] obtain n st1 where
    1: "foldR (write_chunk drv sel (a sel)) cs (0, st) = Inr (n, st1)"
    and len: "length (gcore_map st1) = length (gcore_map st)" and m1: "moved drv st st1 (chunks_bytes cs) []"
    and log: "at_rest (hist st1)"
      "bursts (device_of (hist st1)) = bursts (device_of (hist st)) @ chunk_bursts sel (a sel) cs" by blast
  have 2: "drain (Suc (unit_num_chunks sel s0)) (next_chunk lz4 sel) (write_chunk drv sel (a sel)) s0 (0, st) =
      Inr (s1, n, st1)"
    using drain_yields [OF src(1), of "Suc (unit_num_chunks sel s0)" "write_chunk drv sel (a sel)" "(0, st)"] 1 src(2)
    by simp
  have acc: "accepting drv" using ready by (simp add: reports_states_def)
  from gvpu_load_rest [OF acc one log(1)] obtain st2 where
    3: "helper_gvpu_load drv sel TEST_CLEANUP st1 = Inr ((), st2)" "at_rest (hist st2)"
      "bursts (device_of (hist st2)) = bursts (device_of (hist st1))" by blast
  have "load_unit lz4 drv a sel (s0, n0) st = Inr ((s1, n), st2)"
    unfolding load_unit_def split 2 bindR.simps 3(1) ..
  moreover have "moved drv st st2 (chunks_bytes cs) []"
    using moved_trans [OF m1 controls_moved(1) [OF controls_gvpu_load 3(1)]] unfolding append_Nil2 .
  moreover have "length (gcore_map st2) = length (gcore_map st)"
    using controls_moved(2) [OF controls_gvpu_load 3(1)] len by simp
  ultimately show ?thesis using 3(2,3) log(2) by auto
qed

lemma load_units_chunks:
  assumes "reports_states drv" and "DMA_SIZE \<le> length (gcore_map st)" and "at_rest (hist st)"
    and "\<forall>u\<in>set us. one_unit u \<and> load_addr_ok (a u)" and "serves lz4 us s0 css"
    and "\<forall>cs\<in>set css. \<forall>c\<in>set cs. whole_chunk c"
  shows "\<exists>s1 n st'. foldB (load_unit lz4 drv a) us (s0, n0) st = Inr ((s1, n), st') \<and>
    length (gcore_map st') = length (gcore_map st) \<and> at_rest (hist st') \<and>
    bursts (device_of (hist st')) = bursts (device_of (hist st)) @
      concat (map (\<lambda>(u, cs). chunk_bursts u (a u) cs) (zip us css)) \<and>
    moved drv st st' (concat (map chunks_bytes css)) []"
  using assms(2-)
proof (induction us arbitrary: s0 n0 css st)
  case Nil
  then show ?case by (auto simp: returnB_def intro: moved_refl)
next
  case (Cons u us)
  from Cons.prems(4) obtain cs css' s1 where css: "css = cs # css'" "length cs = unit_num_chunks u s0"
    "yields (next_chunk lz4 u) s0 cs s1" "serves lz4 us s1 css'" by auto
  have u: "one_unit u" "load_addr_ok (a u)" "\<forall>c\<in>set cs. whole_chunk c" using Cons.prems(3,5) css(1) by simp_all
  from load_unit_chunks [where a = a, OF assms(1) u(1,2) Cons.prems(1,2) u(3) css(3,2)] obtain n st1 where
    1: "load_unit lz4 drv a u (s0, n0) st = Inr ((s1, n), st1)" "length (gcore_map st1) = length (gcore_map st)"
      "moved drv st st1 (chunks_bytes cs) []" "at_rest (hist st1)"
      "bursts (device_of (hist st1)) = bursts (device_of (hist st)) @ chunk_bursts u (a u) cs" by blast
  from Cons.IH [OF _ _ _ css(4), of st1 n] Cons.prems(1,3,5) 1(2,4) css(1) obtain s2 n' st' where
    2: "foldB (load_unit lz4 drv a) us (s1, n) st1 = Inr ((s2, n'), st')" "length (gcore_map st') = length (gcore_map st1)"
      "moved drv st1 st' (concat (map chunks_bytes css')) []" "at_rest (hist st')"
      "bursts (device_of (hist st')) = bursts (device_of (hist st1)) @
        concat (map (\<lambda>(u, cs). chunk_bursts u (a u) cs) (zip us css'))" by auto
  from moved_trans [OF 1(3) 2(3)] have "moved drv st st' (concat (map chunks_bytes css)) []" using css(1) by simp
  with 1(1,2,5) 2(1,2,4,5) css(1) show ?case by (auto simp: bindB_def)
qed

text \<open>A stimulus that serves its units with whole chunks is loaded, each unit at its address.\<close>

definition load_address :: "u64 \<Rightarrow> u64 \<Rightarrow> artix_selects \<Rightarrow> u64" where
  "load_address a1 a2 sel = (if sel = ARTIX_SELECT_A1 then a1 else a2)"

lemma load_stim_chunks:
  assumes "reports_states drv" and "DMA_SIZE \<le> length (gcore_map st)" and "at_rest (hist st)"
    and "load_addr_ok a1" and "load_addr_ok a2"
    and "serves lz4 (load_units (stim_get_mode stim)) stim css" and "\<forall>cs\<in>set css. \<forall>c\<in>set cs. whole_chunk c"
  shows "\<exists>stim' n st'. artix_load_stim lz4 drv stim a1 a2 st = Inr ((stim', n), st') \<and>
    length (gcore_map st') = length (gcore_map st) \<and> at_rest (hist st') \<and>
    bursts (device_of (hist st')) = bursts (device_of (hist st)) @ concat (map (\<lambda>(u, cs).
      chunk_bursts u (load_address a1 a2 u) cs) (zip (load_units (stim_get_mode stim)) css)) \<and>
    moved drv st st' (concat (map chunks_bytes css)) []"
proof -
  have "\<forall>u\<in>set (load_units (stim_get_mode stim)). one_unit u \<and> load_addr_ok (load_address a1 a2 u)"
    using assms(4,5) by (auto simp: load_units_def one_unit_def load_address_def split: stim_modes.splits)
  moreover have "load_address a1 a2 = (\<lambda>sel. if sel = ARTIX_SELECT_A1 then a1 else a2)"
    by (simp add: fun_eq_iff load_address_def)
  ultimately show ?thesis using load_units_chunks [OF assms(1-3) _ assms(6,7), of "load_address a1 a2"] assms(4,5)
    by (simp add: artix_load_stim_def)
qed

lemma num_unrolled_frame:
  "get_num_unrolled_dots_vecs d = Inr (n, d') \<Longrightarrow> dots_pins d' = dots_pins d \<and> num_dots_vecs d' = num_dots_vecs d"
  by (auto simp: get_num_unrolled_dots_vecs_def bindR_Inr_iff)

text \<open>A pattern is loaded into the units of its pins.\<close>

lemma dots_load_units:
  assumes "get_stim_by_dots profile dots = Inr stim"
    and "get_artix_select_by_profile_pins (dots_pins dots) = Inr asel"
  shows "load_units (stim_get_mode stim) = select_units asel"
proof -
  from assms(1) obtain st nv nu where init: "init_stim st (dots_pins dots) nv nu = Inr stim" and nv: "0 < nv"
    unfolding get_stim_by_dots_def Let_def by (auto simp: bindR_Inr_iff dest!: num_unrolled_frame split: if_split_asm)
  have "asel \<noteq> ARTIX_SELECT_NONE" using init_stim_parts [OF init] assms(2) by auto
  with init_plan [OF init] assms(2) nv show ?thesis
    by (cases asel) (auto simp: stim_get_mode_def chunk_plan_def load_units_def)
qed

text \<open>
  The data of the chunks of a unit: as long as the chunks that the stimulus reserved, and together the
  compiled vectors.
\<close>

definition pattern_chunks :: "artix_selects \<Rightarrow> stim \<Rightarrow> profile_pin list \<Rightarrow> dots_vec list \<Rightarrow> u8 list list \<Rightarrow> bool" where
  "pattern_chunks u stim pins vs bss \<longleftrightarrow> map length bss = map vec_data_size (unit_chunks u stim) \<and>
     concat bss = concat (map (compile_vec u pins) vs)"

text \<open>The vectors of a pattern with its padding, as they are compiled.\<close>

definition padded_vecs :: "dots \<Rightarrow> dots_vec list \<Rightarrow> stim \<Rightarrow> dots_vec list" where
  "padded_vecs dots vs stim = map clocked vs @ replicate (num_padding_vecs stim) (nop_vec (dots_num_pins dots))"

lemma dots_load_transmits:
  assumes "get_stim_by_dots profile dots = Inr stim"
    and "dots_full dots vs" and "\<forall>v\<in>set vs. vec_plain (dots_num_pins dots) v"
    and "length (dots_pins dots) = dots_num_pins dots" and "dots_num_pins dots < 2 ^ 16"
    and "cur_appended_dots_vec_id dots = num_dots_vecs dots"
    and "get_artix_select_by_profile_pins (dots_pins dots) = Inr asel"
    and "\<forall>u\<in>set (select_units asel). \<forall>rng. artix_range u = Inr rng \<longrightarrow> unit_pins_ok rng (dots_pins dots)"
    and "reports_states drv" and "at_rest (hist st)" and "load_addr_ok a1" and "load_addr_ok a2"
    and "DMA_SIZE \<le> length (gcore_map st)"
  shows "\<exists>stim' n st' bss. artix_load_stim lz4 drv stim a1 a2 st = Inr ((stim', n), st') \<and>
    length (gcore_map st') = length (gcore_map st) \<and> at_rest (hist st') \<and>
    moved drv st st' (concat (map (\<lambda>u. concat (map (compile_vec u (dots_pins dots)) (padded_vecs dots vs stim)))
      (select_units asel))) [] \<and>
    (\<forall>u\<in>set (select_units asel). pattern_chunks u stim (dots_pins dots) (padded_vecs dots vs stim) (bss u)) \<and>
    bursts (device_of (hist st')) = bursts (device_of (hist st)) @
      concat (map (\<lambda>u. map (burst_of u (load_address a1 a2 u)) (bss u)) (select_units asel))"
proof -
  from dots_units_created [OF assms(1-8)] obtain d where d: "dots_pins d = dots_pins dots" and
    units: "\<forall>u\<in>set (select_units asel). stim_num_pins stim = dots_num_pins dots \<and> dots_stim u (map clocked vs) d stim \<and>
      chunk_offset (unit_chunks u stim) (length (unit_chunks u stim)) = length (map clocked vs) + num_padding_vecs stim"
    by blast
  define cs where "cs u = map (filled_chunk u (map clocked vs) d stim) [0..<length (unit_chunks u stim)]" for u
  define bss where "bss u = map (\<lambda>c. the (vec_data c)) (cs u)" for u
  have serves: "serves lz4 (load_units (stim_get_mode stim)) stim (map cs (select_units asel))"
    unfolding dots_load_units [OF assms(1,7)] cs_def using units by (intro dots_units_serve) blast
  have whole: "\<forall>xs\<in>set (map cs (select_units asel)). \<forall>c\<in>set xs. whole_chunk c"
    unfolding cs_def using units filled_chunk_whole by fastforce
  have bytes: "chunks_bytes (cs u) = concat (map (compile_vec u (dots_pins dots)) (padded_vecs dots vs stim))"
    if "u \<in> set (select_units asel)" for u
    unfolding cs_def padded_vecs_def using units d that dots_stim_bytes [of u stim "map clocked vs" d] by simp
  have chunks: "pattern_chunks u stim (dots_pins dots) (padded_vecs dots vs stim) (bss u)" if u: "u \<in> set (select_units asel)" for u
  proof -
    have "length (the (vec_data (filled_chunk u (map clocked vs) d stim k))) = vec_data_size (unit_chunks u stim ! k)"
      if "k < length (unit_chunks u stim)" for k
      using filled_chunk_whole [of u "map clocked vs" d stim k] units u that by (auto simp: whole_chunk_def filled_chunk_def)
    then have "map length (bss u) = map vec_data_size (unit_chunks u stim)"
      unfolding bss_def cs_def list_eq_iff_nth_eq by (simp del: map_eq_conv)
    then show ?thesis using bytes [OF u] by (simp add: pattern_chunks_def bss_def chunks_bytes_def)
  qed
  have same: "map chunks_bytes (map cs (select_units asel)) = map (\<lambda>u. concat (map (compile_vec u (dots_pins dots))
      (padded_vecs dots vs stim))) (select_units asel)" using bytes by simp
  have log: "concat (map (\<lambda>(u, cs). chunk_bursts u (load_address a1 a2 u) cs)
      (zip (load_units (stim_get_mode stim)) (map cs (select_units asel)))) =
      concat (map (\<lambda>u. map (burst_of u (load_address a1 a2 u)) (bss u)) (select_units asel))"
    unfolding dots_load_units [OF assms(1,7)]
    by (cases asel) (simp_all add: chunk_bursts_def bss_def)
  obtain stim' n st' where "artix_load_stim lz4 drv stim a1 a2 st = Inr ((stim', n), st')"
    "length (gcore_map st') = length (gcore_map st)" "at_rest (hist st')"
    "moved drv st st' (concat (map chunks_bytes (map cs (select_units asel)))) []"
    "bursts (device_of (hist st')) = bursts (device_of (hist st)) @ concat (map (\<lambda>(u, cs).
      chunk_bursts u (load_address a1 a2 u) cs) (zip (load_units (stim_get_mode stim)) (map cs (select_units asel))))"
    using load_stim_chunks [OF assms(9,13,10-12) serves whole] by blast
  with chunks show ?thesis unfolding same log by blast
qed

text \<open>C1. Loading a stimulus brings its pattern to the device. On a driver that accepts the requests
  and whose units, when the library asks for their status while they wait for it, show the state they
  wait in, \<^verbatim>\<open>artix_load_stim\<close> returns for a pattern on the pins of one unit or of both. The DMA
  transmissions of the whole load carry, for the first unit and then for the second, exactly the vectors
  of the pattern compiled for that unit, in order and each once, followed by the NOP vectors of the
  padding; nothing else is sent and nothing received. And the device is told where each chunk
  belongs: there is one burst for each chunk, for the unit whose data it is, with the number of bursts
  of the chunk and with the load address of that unit, which is the same for all of its chunks.\<close>

theorem load_stim_transmits_pattern:
  assumes "get_stim_by_dots profile dots = Inr stim"
    and "dots_full dots vs" and "\<forall>v\<in>set vs. vec_plain (dots_num_pins dots) v"
    and "length (dots_pins dots) = dots_num_pins dots" and "dots_num_pins dots < 2 ^ 16"
    and "cur_appended_dots_vec_id dots = num_dots_vecs dots"
    and "get_artix_select_by_profile_pins (dots_pins dots) = Inr asel"
    and "\<forall>u\<in>set (select_units asel). \<forall>rng. artix_range u = Inr rng \<longrightarrow> unit_pins_ok rng (dots_pins dots)"
    and "reports_states drv" and "at_rest (hist st)" and "load_addr_ok a1" and "load_addr_ok a2"
    and "DMA_SIZE \<le> length (gcore_map st)"
  shows "\<exists>stim' n st' bss. artix_load_stim lz4 drv stim a1 a2 st = Inr ((stim', n), st') \<and> at_rest (hist st') \<and>
    moved drv st st' (concat (map (\<lambda>u. concat (map (compile_vec u (dots_pins dots)) (padded_vecs dots vs stim)))
      (select_units asel))) [] \<and>
    (\<forall>u\<in>set (select_units asel). pattern_chunks u stim (dots_pins dots) (padded_vecs dots vs stim) (bss u)) \<and>
    bursts (device_of (hist st')) = bursts (device_of (hist st)) @
      concat (map (\<lambda>u. map (burst_of u (load_address a1 a2 u)) (bss u)) (select_units asel))"
  using dots_load_transmits [OF assms] by blast

lemma fresh_board_map [simp]: "gcore_map (fresh_board mem) = mem" "hist (fresh_board mem) = []"
  by (simp_all add: fresh_board_def Let_def)

lemma load_stim_transmits_pattern_witness:
  "\<exists>st st' n b' bs. get_stim_by_dots config_profile sample_dots = Inr st \<and>
    artix_load_stim (\<lambda>_ _. None) reporting_driver st 0 1024 (fresh_board (replicate DMA_SIZE 0)) =
      Inr ((st', n), b') \<and>
    moved reporting_driver (fresh_board (replicate DMA_SIZE 0)) b'
      (concat (map (compile_vec ARTIX_SELECT_A1 [data_pin 0, data_pin 1])
        (padded_vecs sample_dots [new_vec 2 (''3'', ''V01''), new_vec 2 (''1'', ''VCX'')] st))) [] \<and>
    pattern_chunks ARTIX_SELECT_A1 st [data_pin 0, data_pin 1]
      (padded_vecs sample_dots [new_vec 2 (''3'', ''V01''), new_vec 2 (''1'', ''VCX'')] st) bs \<and>
    bursts (device_of (hist b')) = map (burst_of ARTIX_SELECT_A1 0) bs"
proof -
  from sample_stim obtain st where st: "get_stim_by_dots config_profile sample_dots = Inr st" ..
  have pins: "get_artix_select_by_profile_pins (dots_pins sample_dots) = Inr ARTIX_SELECT_A1"
    by (simp add: get_artix_select_by_profile_pins_def get_artix_select_by_profile_pin_def data_pin_def
        sample_dots_def)
  have rng: "artix_range ARTIX_SELECT_A1 = Inr (0, 199)" by (simp add: DUT_NUM_PINS_def)
  have ids: "unit_ids (0, 199) [data_pin 0, data_pin 1] = [0, 1]"
    by (simp add: unit_ids_def in_range_def data_pin_def upt_rec)
  have ok: "unit_pins_ok (0, 199) (dots_pins sample_dots)"
    by (simp add: sample_dots_def unit_pins_ok_def ids) (simp add: pin_io_def data_pin_def)
  have plain: "\<forall>v\<in>set [new_vec 2 (''3'', ''V01''), new_vec 2 (''1'', ''VCX'')].
      vec_plain (dots_num_pins sample_dots) v"
    by (simp add: vec_plain_def new_vec_def sample_dots_def)
  have addr: "load_addr_ok 0" "load_addr_ok 1024" by (simp_all add: load_addr_ok_def BURST_BYTES_def)
  have dots: "length (dots_pins sample_dots) = dots_num_pins sample_dots"
    "dots_num_pins sample_dots < 2 ^ 16"
    "cur_appended_dots_vec_id sample_dots = num_dots_vecs sample_dots"
    "dots_pins sample_dots = [data_pin 0, data_pin 1]" "dots_num_pins sample_dots = 2"
    by (simp_all add: sample_dots_def)
  have units: "\<forall>u\<in>set (select_units ARTIX_SELECT_A1). \<forall>r. artix_range u = Inr r \<longrightarrow>
      unit_pins_ok r (dots_pins sample_dots)" using ok rng by auto
  have mem: "DMA_SIZE \<le> length (gcore_map (fresh_board (replicate DMA_SIZE 0)))"
    "at_rest (hist (fresh_board (replicate DMA_SIZE 0)))" using fresh_at_rest by simp_all
  have none: "bursts (device_of (hist (fresh_board (replicate DMA_SIZE 0)))) = []"
    by (simp add: device_of_def fresh_device_def)
  from load_stim_transmits_pattern [OF st sample_dots_full plain dots(1-3) pins units
      reporting_driver_reports mem(2) addr mem(1), of "\<lambda>_ _. None"] st
  show ?thesis unfolding dots(4) none select_units.simps list.map concat.simps append_Nil2 append_Nil load_address_def
    by (simp only: refl if_True list.set ball_simps) blast
qed

section \<open>Running a stimulus\<close>

lemma print_units_returns:
  assumes "accepting drv" and "\<forall>sel\<in>set sels. one_unit sel"
  shows "returns (print_units drv sels)"
  using assms(2) unfolding print_units_def
  by (induction sels) (auto intro: returns_bind returns_return returns_units(2) [OF assms(1)])

text \<open>The polling ends: after at most \<open>n + 1\<close> answers, whatever they are.\<close>

lemma poll_test_returns:
  assumes "accepting drv" and "one_unit sel" and "\<forall>sel\<in>set sels. one_unit sel"
  shows "returns (poll_test drv sel sels n)"
proof (induction n)
  case 0
  show ?case
    by (simp only: poll_test.simps)
      (rule returns_if returns returns_units [OF assms(1,2)] print_units_returns [OF assms(1,3)])+
next
  case (Suc n)
  show ?case
    by (simp only: poll_test.simps)
      (rule Suc.IH returns_if returns returns_units [OF assms(1,2)] print_units_returns [OF assms(1,3)])+
qed

lemma setup_stim_total:
  assumes "accepting drv" and "one_unit sel" and "BURST_BYTES \<le> length (gcore_map st)"
  shows "\<exists>st'. artix_setup_stim drv stim sel a st = Inr ((), st') \<and>
    length (gcore_map st') = length (gcore_map st)"
proof -
  define p where "p = packet (GET_START_RANK a) (GET_START_ADDR a)
    (of_nat (num_vecs stim + num_padding_vecs stim))"
  define before where "before = [helper_gvpu_load drv sel TEST_INIT, helper_gvpu_packet_write drv sel p,
    helper_gvpu_load drv sel TEST_SETUP, helper_agent_load drv sel GVPU_WRITE]"
  note units = returns returns_units [OF assms(1,2)] returns_agent_load [OF assms(1,2)]
  have acc: "keeps_config drv" using assms(1) by (simp add: accepting_def)
  have "returns (doB before)" unfolding before_def by (rule units)+
  then obtain st1 where 1: "doB before st = Inr ((), st1)" unfolding returns_def by (metis old.unit.exhaust)
  have "controls (doB before) UNIV {Idle}" unfolding before_def by (rule controls)+
  note m1 = controls_moved [OF this 1]
  define st2 where "st2 = st1\<lparr>alloc_offset := 0\<rparr>"
  obtain st3 where 3: "subcore_prep_dma_write drv sel 1 st2 = Inr ((), st3)"
    using returns_units(8) [OF assms(1,2)] unfolding returns_def by (metis old.unit.exhaust)
  note m3 = controls_moved [OF controls_prep_write 3]
  obtain lo hi where "artix_range sel = Inr (lo, hi)" using assms(2) by (auto simp: one_unit_def)
  from enable_pins_total [OF this, of stim] obtain e where
    e: "stim_get_enable_pins_data stim sel = Inr e" "length e = BURST_BYTES" by blast
  define st4 where "st4 = st3\<lparr>alloc_offset := wrap32 (gcore_dma_calc_size BURST_BYTES 1)\<rparr>"
  have len: "BURST_BYTES \<le> length (gcore_map st4)" "length (gcore_map st4) = length (gcore_map st)"
    using m1(2) m3(2) assms(3) by (simp_all add: st2_def st4_def)
  from map_write_returns [of "replicate BURST_BYTES 0xff" st4] len obtain st5 where
    5: "map_write 0 (replicate BURST_BYTES 0xff) st4 = Inr ((), st5)" "length (gcore_map st5) = length (gcore_map st)"
    by auto
  from map_write_returns [of e st5] e(2) 5(2) len obtain st6 where
    6: "map_write 0 e st5 = Inr ((), st6)" "length (gcore_map st6) = length (gcore_map st)" by auto
  have "BURST_BYTES \<noteq> 0" by (simp add: BURST_BYTES_def)
  from transmit_returns [OF assms(1) this] obtain st7 where
    7: "doB [gcore_dma_prep drv (Some 0) BURST_BYTES None 0, gcore_dma_start drv GCORE_WAIT_TX] st6 = Inr ((), st7)"
    by blast
  from units(10) obtain st' where 8: "helper_gvpu_load drv sel TEST_CLEANUP st7 = Inr ((), st')"
    using returns_units(4) [OF assms(1,2)] unfolding returns_def by (metis old.unit.exhaust)
  have "doB (before @ [gcore_dma_alloc_reset, subcore_prep_dma_write drv sel 1]) st = Inr ((), st3)"
    unfolding doB_append bindB_Inr_iff doB_Inr_iff alloc_reset_Inr using 1 3 by (auto simp: st2_def)
  moreover have "gcore_dma_alloc BURST_BYTES 1 st3 = Inr (0, st4)"
    unfolding alloc_Inr using m3(3) by (simp add: st2_def st4_def)
  moreover have "bytes_at e 0 BURST_BYTES = Inr e" by (simp add: bytes_at_def e(2))
  ultimately have "artix_setup_stim drv stim sel a st = Inr ((), st')"
    using 5(1) 6(1) 7 8 e(1)
    unfolding artix_setup_stim_def before_def p_def append_Cons append_Nil gcore_dma_prep_start_def
    by (simp add: bindB_run liftB_def doB_Inr_iff del: doB.simps) blast
  moreover have "length (gcore_map st') = length (gcore_map st)"
    using controls_moved(2) [OF controls_gvpu_load 8] transmit_keeps_map [OF acc 7] 6(2) by simp
  ultimately show ?thesis by blast
qed

lemma run_stim_total:
  assumes "accepting drv" and "stim_profile stim \<noteq> None"
    and "num_a1_vec_chunks stim \<noteq> 0 \<or> num_a2_vec_chunks stim \<noteq> 0"
    and "BURST_BYTES \<le> length (gcore_map st)"
  shows "\<exists>cycle failed st'. artix_run_stim drv stim a1 a2 st = Inr ((cycle, failed), st')"
proof -
  let ?mode = "stim_get_mode stim" let ?A1 = ARTIX_SELECT_A1 and ?A2 = ARTIX_SELECT_A2
  define sel where "sel = (if ?mode = STIM_MODE_A2 then ?A2 else ?A1)"
  have one: "one_unit ?A1" "one_unit ?A2" "one_unit sel" by (simp_all add: one_unit_def sel_def)
  have units: "\<forall>s\<in>set (load_units ?mode). one_unit s"
    by (auto simp: load_units_def one_unit_def split: stim_modes.splits)
  define prep where "prep = (case ?mode of
      STIM_MODE_DUAL \<Rightarrow> doB [artix_setup_stim drv stim ?A1 a1, artix_setup_stim drv stim ?A2 a2]
    | STIM_MODE_A1 \<Rightarrow> artix_setup_stim drv stim ?A1 a1
    | STIM_MODE_A2 \<Rightarrow> artix_setup_stim drv stim ?A2 a2
    | STIM_MODE_NONE \<Rightarrow> failB Out_of_range)"
  note setup1 = setup_stim_total [OF assms(1) one(1), of _ stim a1]
    and setup2 = setup_stim_total [OF assms(1) one(2), of _ stim a2]
  obtain st0 where st0: "artix_setup_stim drv stim ?A1 a1 st = Inr ((), st0)"
    "length (gcore_map st0) = length (gcore_map st)" using setup1 [OF assms(4)] by blast
  have "?mode \<noteq> STIM_MODE_NONE" using assms(3) by (auto simp: stim_get_mode_def)
  then have "\<exists>st1. prep st = Inr ((), st1)"
    using setup2 [OF assms(4)] setup2 [of st0] st0 assms(4) unfolding prep_def
    by (cases ?mode) (auto simp: doB_Inr_iff simp del: doB.simps)
  then obtain st1 where 1: "prep st = Inr ((), st1)" by blast
  define rest where "rest = bindB (doB
     [subcore_artix_sync drv (?mode = STIM_MODE_DUAL), helper_print_agent_status drv sel,
      (if ?mode = STIM_MODE_DUAL then doB [helper_gvpu_load drv ?A1 TEST_RUN, helper_gvpu_load drv ?A2 TEST_RUN]
       else doB [helper_gvpu_load drv sel TEST_RUN, helper_print_agent_status drv sel]),
      poll_test drv sel (load_units ?mode) 0x000fffff]) (\<lambda>_.
    bindB (get_cycle drv sel) (\<lambda>master_cycle.
    bindB (helper_get_agent_status drv sel) (\<lambda>master.
    if ?mode = STIM_MODE_DUAL then
      bindB (helper_get_agent_status drv ?A2) (\<lambda>slave.
      bindB (get_cycle drv ?A2) (\<lambda>slave_cycle.
      returnB (dual_verdict (wrap64 (num_unrolled_vecs stim + num_padding_vecs stim)) (test_failed master)
        (unat master_cycle) (test_failed slave) (unat slave_cycle))))
    else
      bindB (get_cycle drv sel) (\<lambda>master_cycle.
      returnB (solo_verdict (wrap64 (num_unrolled_vecs stim + num_padding_vecs stim)) (test_failed master)
        (unat master_cycle))))))"
  have "returns rest"
    unfolding rest_def
    by (rule returns_if returns returns_subcore(4) [OF assms(1)] returns_units [OF assms(1) one(3)]
        returns_units [OF assms(1) one(1)] returns_units [OF assms(1) one(2)]
        poll_test_returns [OF assms(1) one(3) units])+
  then obtain v st' where 2: "rest st1 = Inr (v, st')" unfolding returns_def by blast
  have "artix_run_stim drv stim a1 a2 = bindB prep (\<lambda>_. rest)"
    using assms(2,3) unfolding artix_run_stim_def prep_def rest_def sel_def Let_def
    by (auto simp: bindB_assoc)
  with 1 2 show ?thesis by (cases v) (auto simp: bindB_run)
qed

text \<open>C26. A run always ends: on a driver that accepts the requests, \<^verbatim>\<open>artix_run_stim\<close> returns for every
  stimulus with vectors and every status the units report, even when they never leave the running
  state, since they are polled a bounded number of times.\<close>

theorem run_stim_returns:
  assumes "accepting drv" and "stim_profile stim \<noteq> None"
    and "num_a1_vec_chunks stim \<noteq> 0 \<or> num_a2_vec_chunks stim \<noteq> 0"
    and "BURST_BYTES \<le> length (gcore_map st)"
  shows "\<exists>cycle failed st'. artix_run_stim drv stim a1 a2 st = Inr ((cycle, failed), st')"
  by (rule run_stim_total [OF assms])

lemma run_stim_returns_witness:
  "\<exists>cycle failed st'. artix_run_stim (steady_driver 0xA0)
     (create_stim\<lparr>stim_profile := Some config_profile, num_a1_vec_chunks := 1\<rparr>) 0 0
     (fresh_board (replicate BURST_BYTES 0)) = Inr ((cycle, failed), st')"
  by (rule run_stim_returns [OF steady_accepting]) simp_all

text \<open>A run of a dual stimulus passes exactly when no unit flagged a failure and both executed all
  the vectors; it reports the smaller of the two cycle counts.\<close>

theorem dual_verdict_spec:
  "dual_verdict num_total f1 c1 f2 c2 =
     (min c1 c2, \<not> (\<not> f1 \<and> \<not> f2 \<and> c1 = num_total \<and> c2 = num_total))"
  by (auto simp: dual_verdict_def Let_def)

section \<open>Receptions that return\<close>

lemma reception_returns:
  assumes "accepting drv" and "returns m" and "controls m P Q" and "n \<noteq> 0"
    and "n < 2 ^ 32" and "n \<le> length (gcore_map st)"
  shows "\<exists>st'. doB [gcore_dma_prep drv None 0 (Some 0) n, m, gcore_dma_start drv w] st = Inr ((), st')"
proof -
  have ok: "ret (drv h) = 0" for h using assms(1) by (simp add: accepting_def)
  have "\<exists>st1. gcore_dma_prep drv None 0 (Some 0) n st = Inr ((), st1)"
    using assms(4) by (auto simp: gcore_dma_prep_def io_simps config_rx_def prep_rx_def ok)
  then obtain st1 where 1: "gcore_dma_prep drv None 0 (Some 0) n st = Inr ((), st1)" by blast
  have "keeps_config drv" using assms(1) by (simp add: accepting_def)
  have n: "wrap32 n = n" using assms(5) by simp
  have p: "\<not> is_tx_prepared st1 \<and> is_rx_prepared st1 \<and> buf_offset (rx_config st1) = 0 \<and>
      buf_size (rx_config st1) = n \<and> gcore_map st1 = gcore_map st"
    by (rule prep_rx_only [OF \<open>keeps_config drv\<close> 1 assms(4)]) (simp add: n)
  from assms(2) obtain st2 where 2: "m st1 = Inr ((), st2)" unfolding returns_def by (metis old.unit.exhaust)
  note frame = controls_moved [OF assms(3) 2]
  have "blitR (gcore_map st2) 0 (map (rx_data (drv h)) [0..<n]) =
      Inr (map (rx_data (drv h)) [0..<n] @ drop n (gcore_map st2))" for h
    using frame(2) p assms(6) by (simp add: blitR_def)
  then have "\<exists>st'. gcore_dma_start drv w st2 = Inr ((), st')"
    using frame p by (auto simp: gcore_dma_start_def start_rx_def io_simps ok)
  with 1 2 show ?thesis by (auto simp: doB_Inr_iff simp del: doB.simps)
qed

section \<open>Failing pins\<close>

definition fail_mark :: "u8 \<Rightarrow> u8" where
  "fail_mark b = (if b \<noteq> 0 then 1 else 0)"

lemma fail_pins_of_unit_moved:
  assumes "keeps_config drv" and "fail_pins_of_unit drv (sel, first) fp st = Inr (fp', st')"
  shows "\<exists>bs. moved drv st st' [] bs \<and> length bs = 1024 \<and> length fp' = length fp \<and>
    (\<forall>j<length fp. fp' ! j = (if first \<le> j \<and> j < first + 200 then fail_mark (bs ! (j - first)) else fp ! j))"
proof -
  define before where "before = [helper_gvpu_load drv sel TEST_FAIL_PINS, helper_agent_load drv sel GVPU_READ]"
  have pre: "doB [helper_gvpu_load drv sel TEST_FAIL_PINS, helper_agent_load drv sel GVPU_READ,
      gcore_dma_alloc_reset, subcore_prep_dma_read drv sel 1] =
    doB (before @ [gcore_dma_alloc_reset, subcore_prep_dma_read drv sel 1])" by (simp add: before_def)
  from assms(2) obtain st1 st3 p st4 st5 st6 bs where 1: "doB before st = Inr ((), st1)"
    and 3: "subcore_prep_dma_read drv sel 1 (st1\<lparr>alloc_offset := 0\<rparr>) = Inr ((), st3)"
    and 4: "gcore_dma_alloc BURST_BYTES 1 st3 = Inr (p, st4)"
    and 5: "map_write p (replicate BURST_BYTES 0xff) st4 = Inr ((), st5)"
    and 6: "doB [gcore_dma_prep drv None 0 (Some p) BURST_BYTES, gcore_dma_start drv GCORE_WAIT_RX] st5 = Inr ((), st6)"
    and 7: "map_read p 200 st6 = Inr (bs, st')"
    and 8: "foldR (\<lambda>i fp. updR fp (i + first) (if bs ! i \<noteq> 0 then 1 else 0)) [0..<200] fp = Inr fp'"
    unfolding fail_pins_of_unit_def pre split
    by (auto simp: bindB_Inr_iff doB_append doB_Inr_iff alloc_reset_Inr liftB_def bindR_Inr_iff map_read_def
        getB_def returnB_def failB_def simp del: doB.simps upt_rec_numeral split: if_splits)
  have "controls (doB before) UNIV {Idle}" unfolding before_def by (rule controls)+
  note m1 = controls_moved(1) [OF this 1]
  note m3 = controls_moved [OF controls_prep_read [where P = UNIV] 3]
  have "p = 0" using 4 m3(3) by (simp add: alloc_Inr)
  have m4: "moved drv st3 st4 [] []" using 4 by (intro moved_refl) (simp add: alloc_Inr)
  have "doB [gcore_dma_prep drv None 0 (Some 0) BURST_BYTES, returnB (), gcore_dma_start drv GCORE_WAIT_RX] st5 =
      Inr ((), st6)"
    using 6 \<open>p = 0\<close> by (simp add: bindB_def returnB_def)
  from reception_moved [OF assms(1) controls_return this] obtain rx where
    rx: "moved drv st5 st6 [] rx" "length rx = wrap32 BURST_BYTES"
    "gcore_map st6 = rx @ drop (wrap32 BURST_BYTES) (gcore_map st5)" by metis
  have len: "length rx = 1024" using rx(2) by (simp add: BURST_BYTES_def)
  have bs: "bs = take 200 rx" "st' = st6" using 7 \<open>p = 0\<close> rx(3) len
    by (auto simp: map_read_def bindB_Inr_iff getB_def returnB_def failB_def split: if_splits)
  have "moved drv st1 (st1\<lparr>alloc_offset := 0\<rparr>) [] []" by (rule moved_refl) simp
  from moved_trans [OF m1 moved_trans [OF this moved_trans [OF m3(1) moved_trans [OF m4
      moved_trans [OF map_write_moved [OF 5] rx(1)]]]]]
  have moved: "moved drv st st' [] rx" by (simp add: bs(2))
  have fp: "length fp' = length fp" using arr.fill_ok [OF refl 8] by simp
  have "fp' ! j = (if first \<le> j \<and> j < first + 200 then fail_mark (rx ! (j - first)) else fp ! j)"
    if "j < length fp" for j
  proof (cases "first \<le> j \<and> j < first + 200")
    case True
    then have j: "j - first \<in> set [0..<200]" "j - first + first = j" "j - first < 200" by auto
    have "distinct (map (\<lambda>i. id (i + first)) [0..<200])" by (simp add: distinct_map inj_on_def del: upt_rec_numeral)
    from arr.fill_same [OF refl 8 this j(1)] have "fp' ! j = (if bs ! (j - first) \<noteq> 0 then 1 else 0)"
      by (simp only: id_apply j(2))
    with True j(3) len show ?thesis by (simp add: fail_mark_def bs(1))
  next
    case False
    then have "j \<notin> (\<lambda>i. id (i + first)) ` set [0..<200]" by (auto simp del: upt_rec_numeral)
    from arr.fill_other [OF refl 8 this] show ?thesis using False by auto
  qed
  with moved len fp show ?thesis by blast
qed

text \<open>C33. The failing pins are those the units flag: pin k of the first 200 has the mark 1 exactly when
  byte k of the burst from unit A1 is not zero, and pin 200 + k when byte k of the burst from A2 is not.\<close>

theorem fail_pins_spec:
  assumes "keeps_config drv" and "artix_get_stim_fail_pins drv st = Inr (fail_pins, st')"
  shows "\<exists>b1 b2. length b1 = 1024 \<and> length b2 = 1024 \<and> moved drv st st' [] (b1 @ b2) \<and>
    fail_pins = map fail_mark (take 200 b1 @ take 200 b2)"
proof -
  from assms(2) obtain fp st1 where
    1: "fail_pins_of_unit drv (ARTIX_SELECT_A1, 0) (replicate 400 0) st = Inr (fp, st1)"
    and 2: "fail_pins_of_unit drv (ARTIX_SELECT_A2, 200) fp st1 = Inr (fail_pins, st')"
    by (auto simp: artix_get_stim_fail_pins_def bindB_Inr_iff returnB_def)
  from fail_pins_of_unit_moved [OF assms(1) 1] obtain b1 where b1: "moved drv st st1 [] b1" "length b1 = 1024"
    "length fp = 400" "\<forall>j<400. fp ! j = (if j < 200 then fail_mark (b1 ! j) else 0)" by auto
  from fail_pins_of_unit_moved [OF assms(1) 2] b1(3) obtain b2 where b2: "moved drv st1 st' [] b2"
    "length b2 = 1024" "length fail_pins = 400"
    "\<forall>j<400. fail_pins ! j = (if 200 \<le> j then fail_mark (b2 ! (j - 200)) else fp ! j)" by auto
  have "fail_pins = map fail_mark (take 200 b1 @ take 200 b2)"
    using b1(2-4) b2(2-4) by (intro nth_equalityI) (auto simp: nth_append)
  with moved_trans [OF b1(1) b2(1)] b1(2) b2(2) show ?thesis by auto
qed

lemma fail_pins_of_unit_total:
  assumes "accepting drv" and "one_unit sel" and "BURST_BYTES \<le> length (gcore_map st)"
    and "first + 200 \<le> length fp"
  shows "\<exists>fp' st'. fail_pins_of_unit drv (sel, first) fp st = Inr (fp', st') \<and>
    length fp' = length fp \<and> length (gcore_map st') = length (gcore_map st)"
proof -
  define before where "before = [helper_gvpu_load drv sel TEST_FAIL_PINS, helper_agent_load drv sel GVPU_READ]"
  note units = returns returns_units [OF assms(1,2)] returns_agent_load [OF assms(1,2)]
  have keeps: "keeps_config drv" using assms(1) by (simp add: accepting_def)
  have "returns (doB before)" unfolding before_def by (rule units)+
  then obtain st1 where 1: "doB before st = Inr ((), st1)" unfolding returns_def by (metis old.unit.exhaust)
  have "controls (doB before) UNIV {Idle}" unfolding before_def by (rule controls)+
  note m1 = controls_moved [OF this 1]
  have "returns (subcore_prep_dma_read drv sel 1)" by (rule returns_units(9) [OF assms(1,2)]) simp
  then obtain st3 where 3: "subcore_prep_dma_read drv sel 1 (st1\<lparr>alloc_offset := 0\<rparr>) = Inr ((), st3)"
    unfolding returns_def by (metis old.unit.exhaust)
  note m3 = controls_moved [OF controls_prep_read [where P = UNIV] 3]
  define st4 where "st4 = st3\<lparr>alloc_offset := wrap32 (gcore_dma_calc_size BURST_BYTES 1)\<rparr>"
  have 4: "gcore_dma_alloc BURST_BYTES 1 st3 = Inr (0, st4)"
    unfolding alloc_Inr using m3(3) by (simp add: st4_def)
  have len: "length (gcore_map st4) = length (gcore_map st)" using m1(2) m3(2) by (simp add: st4_def)
  from map_write_returns [of "replicate BURST_BYTES 0xff" st4] len assms(3) obtain st5 where
    5: "map_write 0 (replicate BURST_BYTES 0xff) st4 = Inr ((), st5)" "length (gcore_map st5) = length (gcore_map st)"
    by auto
  have "BURST_BYTES \<noteq> 0" "BURST_BYTES < 2 ^ 32" "BURST_BYTES \<le> length (gcore_map st5)"
    using 5(2) assms(3) by (simp_all add: BURST_BYTES_def)
  from reception_returns [OF assms(1) returns_return controls_return [where P = UNIV] this] obtain st6 where
    6: "doB [gcore_dma_prep drv None 0 (Some 0) BURST_BYTES, returnB (), gcore_dma_start drv GCORE_WAIT_RX] st5 = Inr ((), st6)"
    by blast
  obtain rx where rx: "length rx = wrap32 BURST_BYTES"
    "gcore_map st6 = rx @ drop (wrap32 BURST_BYTES) (gcore_map st5)"
    using reception_moved [OF keeps controls_return 6] by metis
  have map6: "length (gcore_map st6) = length (gcore_map st)"
    using rx 5(2) assms(3) by (simp add: BURST_BYTES_def)
  have "200 \<le> length (gcore_map st6)" using map6 assms(3) by (simp add: BURST_BYTES_def)
  then obtain bs where 7: "map_read 0 200 st6 = Inr (bs, st6)"
    by (auto simp: map_read_def io_simps)
  have "\<exists>fp'. foldR (\<lambda>i fp. updR fp (i + first) (if bs ! i \<noteq> 0 then 1 else 0)) [0..<200] fp = Inr fp' \<and>
      length fp' = length fp"
    by (rule arr.fill_total [OF refl]) (use assms(4) in \<open>simp del: upt_rec_numeral\<close>)
  then obtain fp' where 8: "foldR (\<lambda>i fp. updR fp (i + first) (if bs ! i \<noteq> 0 then 1 else 0)) [0..<200] fp = Inr fp'"
    "length fp' = length fp" by blast
  have pre: "doB [helper_gvpu_load drv sel TEST_FAIL_PINS, helper_agent_load drv sel GVPU_READ,
      gcore_dma_alloc_reset, subcore_prep_dma_read drv sel 1] st = Inr ((), st3)"
    using 1 3 unfolding before_def doB_Inr_iff alloc_reset_Inr by blast
  have "doB [map_write 0 (replicate BURST_BYTES 0xff), gcore_dma_prep drv None 0 (Some 0) BURST_BYTES,
      gcore_dma_start drv GCORE_WAIT_RX] st4 = Inr ((), st6)"
    using 5(1) 6 by (auto simp: doB_Inr_iff returnB_def simp del: doB.simps)
  with pre 4 7 8 map6 show ?thesis
    unfolding fail_pins_of_unit_def split
    by (simp add: bindB_run liftB_def del: doB.simps upt_rec_numeral)
qed

lemma fail_pins_spec_witness:
  "\<exists>fail_pins st'. artix_get_stim_fail_pins (steady_driver 0) (fresh_board (replicate BURST_BYTES 0)) =
      Inr (fail_pins, st') \<and> length fail_pins = 400"
proof -
  let ?d = "steady_driver 0" and ?st = "fresh_board (replicate BURST_BYTES 0)"
  have one: "one_unit ARTIX_SELECT_A1" "one_unit ARTIX_SELECT_A2" by (simp_all add: one_unit_def)
  from fail_pins_of_unit_total [OF steady_accepting one(1), of ?st 0 "replicate 400 0" 0] obtain fp st1 where
    1: "fail_pins_of_unit ?d (ARTIX_SELECT_A1, 0) (replicate 400 0) ?st = Inr (fp, st1)"
    "length fp = 400" "length (gcore_map st1) = BURST_BYTES" by auto
  from fail_pins_of_unit_total [OF steady_accepting one(2), of st1 200 fp 0] 1(2,3) obtain fp2 st2 where
    2: "fail_pins_of_unit ?d (ARTIX_SELECT_A2, 200) fp st1 = Inr (fp2, st2)" by auto
  from 1(1) 2 have run: "artix_get_stim_fail_pins ?d ?st = Inr (fp2, st2)"
    by (simp add: artix_get_stim_fail_pins_def bindB_def returnB_def)
  with fail_pins_spec [OF steady_keeps_config run] show ?thesis by auto
qed

lemma mem_write_sends_witness:
  "\<exists>st'. artix_mem_write reporting_driver ARTIX_SELECT_A1 0 [1, 2, 3] 3
      (fresh_board (replicate DMA_SIZE 0)) = Inr ((), st') \<and>
    moved reporting_driver (fresh_board (replicate DMA_SIZE 0)) st' ([1, 2, 3] @ replicate 1021 0) []"
proof -
  have "one_unit ARTIX_SELECT_A1" by (simp add: one_unit_def)
  from mem_write_total [OF reporting_driver_reports this, of 3 "[1, 2, 3]" 0 "fresh_board (replicate DMA_SIZE 0)"]
  obtain st' where run: "artix_mem_write reporting_driver ARTIX_SELECT_A1 0 [1, 2, 3] 3
      (fresh_board (replicate DMA_SIZE 0)) = Inr ((), st')"
    using fresh_at_rest by (auto simp: MAX_CHUNK_SIZE_def BURST_BYTES_def)
  have "write_padding 3 = 1021"
    by (simp add: write_padding_def num_bursts_of_def DMA_SIZE_def BURST_BYTES_def)
  with mem_write_sends [OF reporting_keeps_config run] run show ?thesis by auto
qed

lemma mem_read_total:
  assumes "reports_states drv" and "one_unit sel" and "0 < n" and "n \<le> length d" and "n \<le> 1024"
    and "DMA_SIZE \<le> length (gcore_map st)" and "at_rest (hist st)"
  shows "\<exists>out st'. artix_mem_read drv sel a d n st = Inr (out, st')"
proof -
  have acc: "accepting drv" using assms(1) by (simp add: reports_states_def)
  have keeps: "keeps_config drv" using acc by (simp add: accepting_def)
  have small: "n \<le> MAX_CHUNK_SIZE" "\<not> n > DMA_SIZE" using assms(5) by (simp_all add: MAX_CHUNK_SIZE_def DMA_SIZE_def)
  have nb: "num_bursts_of n = 1" "wrap32 (1 * BURST_BYTES) = 1024"
    using assms(3,5) num_bursts_small [OF small(1)] by (auto simp: BURST_BYTES_def)
  define before where "before =
    [helper_burst_setup drv sel a 1, helper_print_agent_status drv sel,
     helper_memcore_load drv sel MEMCORE_READ_BURST, helper_memcore_check_state drv sel MEMCORE_READ_BURST 1,
     helper_print_agent_status drv sel, helper_gvpu_load drv sel MEM_READ, helper_agent_load drv sel GVPU_READ]"
  define after where "after = doB [log_burst_count drv sel, subcore_idle drv,
    helper_gvpu_load drv sel TEST_CLEANUP, helper_print_agent_status drv sel]"
  note units = returns returns_units [OF acc assms(2)] returns_subcore(1-4) [OF acc]
    returns_agent_load [OF acc assms(2)]
  have "helper_memcore_check_state drv sel MEMCORE_READ_BURST 1 = returnB ()"
    by (simp add: helper_memcore_check_state_def ARTIX_READ_FIFO_BYTES_def)
  then have before: "before = [helper_burst_setup drv sel a 1, helper_print_agent_status drv sel,
     helper_memcore_load drv sel MEMCORE_READ_BURST, returnB (),
     helper_print_agent_status drv sel, helper_gvpu_load drv sel MEM_READ, helper_agent_load drv sel GVPU_READ]"
    by (simp only: before_def)
  have "settled (unit_of (device_of (hist st)) sel)" using assms(7) by (simp add: at_rest_def)
  then have "tells (doB before) (\<lambda>_ _. True) (device_of (hist st))"
    unfolding before
    by (intro tells_Cons tells_Nil tells_burst_setup [OF assms(1,2)] tells_print_status [OF assms(1,2)] tells_return
        tells_memcore_load [OF assms(1,2)] tells_gvpu_load [OF acc assms(2)] tells_agent_load [OF acc assms(2)])
      (simp_all, simp_all add: settled_def asked_def memcore_ran_def gvpu_ran_def gvpu_running_def gvpu_packet_def
        run_agent_def give_gvpu_def with_unit_def set_unit_def Let_def)
  from tells_run [OF this] obtain st1 where 1: "doB before st = Inr ((), st1)" by blast
  have "controls (doB before) UNIV {Idle}" unfolding before_def by (rule controls)+
  note m1 = controls_moved [OF this 1]
  define st2 where "st2 = st1\<lparr>alloc_offset := wrap32 (gcore_dma_calc_size 1024 1)\<rparr>"
  from map_write_returns [of "replicate 1024 0" st2] m1(2) assms(6) obtain st3 where
    3: "map_write 0 (replicate 1024 0) st2 = Inr ((), st3)" "length (gcore_map st3) = length (gcore_map st)"
    by (auto simp: st2_def DMA_SIZE_def)
  have "returns (subcore_prep_dma_read drv sel 1)" by (rule returns_units(9) [OF acc assms(2)]) simp
  moreover have "(1024 :: nat) \<noteq> 0" "(1024 :: nat) < 2 ^ 32" "1024 \<le> length (gcore_map st3)"
    using 3(2) assms(6) by (simp_all add: DMA_SIZE_def)
  ultimately obtain st4 where 4: "receive_bytes drv sel 0 1024 1 st3 = Inr ((), st4)"
    using reception_returns [OF acc _ controls_prep_read [where P = UNIV]] unfolding receive_bytes_def by metis
  obtain bs where "length bs = 1024" "gcore_map st4 = bs @ drop 1024 (gcore_map st3)"
    using receive_moved [OF keeps 4] by auto
  then have "\<exists>out. copy_out 0 0 n d st4 = Inr (out, st4)"
    using assms(4,5) by (simp add: copy_out_Inr blitR_def)
  then obtain out where 5: "copy_out 0 0 n d st4 = Inr (out, st4)" ..
  have "returns after" unfolding after_def by (intro units)
  then obtain st' where 6: "after st4 = Inr ((), st')" unfolding returns_def by (metis old.unit.exhaust)
  have "artix_mem_read drv sel a d n = bindB (doB (before @ [gcore_dma_alloc_reset])) (\<lambda>_.
      bindB (read_at_once drv sel d n 1) (\<lambda>out. bindB after (\<lambda>_. returnB out)))"
    using small unfolding artix_mem_read_def before_def after_def Let_def nb(1)
    by (simp only: append_Cons append_Nil not_le [symmetric] if_False simp_thms of_nat_1)
  moreover have "doB (before @ [gcore_dma_alloc_reset]) st = Inr ((), st1\<lparr>alloc_offset := 0\<rparr>)"
    unfolding doB_append bindB_Inr_iff doB_Inr_iff alloc_reset_Inr using 1 by blast
  moreover have "read_at_once drv sel d n 1 (st1\<lparr>alloc_offset := 0\<rparr>) = Inr (out, st4)"
    using 3(1) 4 5 unfolding read_at_once_def Let_def nb(2)
    by (simp add: bindB_def gcore_dma_alloc_def getB_def modifyB_def returnB_def st2_def)
  ultimately show ?thesis using 6 by (simp add: bindB_run returnB_def)
qed

lemma mem_read_delivers_witness:
  "\<exists>out st'. artix_mem_read reporting_driver ARTIX_SELECT_A2 0 [7, 7, 7] 2
      (fresh_board (replicate DMA_SIZE 0)) = Inr (out, st') \<and> length out = 3 \<and> out ! 2 = 7"
proof -
  have "one_unit ARTIX_SELECT_A2" by (simp add: one_unit_def)
  from mem_read_total [OF reporting_driver_reports this, of 2 "[7, 7, 7]" "fresh_board (replicate DMA_SIZE 0)" 0]
  obtain out st' where run: "artix_mem_read reporting_driver ARTIX_SELECT_A2 0 [7, 7, 7] 2
      (fresh_board (replicate DMA_SIZE 0)) = Inr (out, st')" using fresh_at_rest by auto
  from mem_read_delivers [OF reporting_keeps_config run] obtain bs where
    "length bs = 2 + write_padding 2" "out = take 2 bs @ drop 2 [7, 7, 7]" "length out = 3" by auto
  with run show ?thesis by (auto simp: nth_append)
qed

end
