(* ===== verification/Artix_Memtest.thy ===== *)
theory Artix_Memtest
  imports Artix_Load
begin

text \<open>
  board/artix.c, continued: the memory test. Pseudo random bursts are written to tester memory, the
  gvpu optionally checks them against the checksum they carry, and they are read back and compared.
  The C library's generator is a parameter, as in theory Util: \<open>rnd seed k\<close> is the \<open>k\<close>th value of
  \<^verbatim>\<open>rand()\<close> after \<^verbatim>\<open>srand(seed)\<close>. The clock is a parameter as well: \<open>clock h\<close> is what \<^verbatim>\<open>time()\<close> returns
  after the requests \<open>h\<close>.
\<close>

definition ARTIX_MEM_BYTES :: nat where "ARTIX_MEM_BYTES = 8589934592"

section \<open>Test data\<close>

text \<open>\<^verbatim>\<open>RAND_MAX\<close> has 31 bits, so three values make 64 random bits.\<close>

definition rand64 :: "(nat \<Rightarrow> u32) \<Rightarrow> nat \<Rightarrow> u64" where
  "rand64 r k = fold (\<lambda>j acc. xor (push_bit 31 acc) (ucast (r (3 * k + j)))) [0..<3] 0"

definition word_byte :: "u64 \<Rightarrow> nat \<Rightarrow> u8" where
  "word_byte w j = ucast (drop_bit (8 * j) w)"

text \<open>The checksum that runs along with the words of a burst.\<close>

definition bxor_step :: "u64 \<Rightarrow> nat \<Rightarrow> u64 \<Rightarrow> u64" where
  "bxor_step num i bxor =
     (let bxor = (if i mod 16 = 0 then xor bxor bxor else bxor);
          bxor = fold (\<lambda>j b. xor b (ucast (word_byte num j))) [0..<8] bxor
      in if (i + 1) mod 16 = 0 then push_bit 8 bxor else bxor)"

definition burst_step :: "(nat \<Rightarrow> u32) \<Rightarrow> nat \<Rightarrow> u64 list \<times> u64 \<Rightarrow> u64 list \<times> u64" where
  "burst_step r i = (\<lambda>(burst, bxor).
     if i \<ge> 96 then (burst @ [bxor], bxor)
     else let num = rand64 r i in (burst @ [num], bxor_step num i bxor))"

definition get_mem_test_burst :: "(u32 \<Rightarrow> nat \<Rightarrow> u32) \<Rightarrow> u32 \<Rightarrow> u64 list" where
  "get_mem_test_burst rnd seed = fst (fold (burst_step (rnd seed)) [0..<128] ([], - 1))"

text \<open>The word of beat \<open>j\<close>: the last beat is cleared when the gvpu is to fill it in.\<close>

definition mem_test_word :: "bool \<Rightarrow> bool \<Rightarrow> nat \<Rightarrow> u64 \<Rightarrow> u64" where
  "mem_test_word include_crc_data clear_crc_results j w =
     (if include_crc_data \<and> (j = 6 \<or> j = 7)
      then (if j = 6 then w else if clear_crc_results then 0 else w)
      else w)"

definition get_mem_test_data :: "(u32 \<Rightarrow> nat \<Rightarrow> u32) \<Rightarrow> nat \<Rightarrow> nat \<Rightarrow> bool \<Rightarrow> bool \<Rightarrow> u64 list" where
  "get_mem_test_data rnd start_burst num_bursts include_crc_data clear_crc_results =
     concat (map (\<lambda>i.
       let burst = get_mem_test_burst rnd (of_nat (i + 1)) in
       map (\<lambda>idx. mem_test_word include_crc_data clear_crc_results (idx div 16) (burst ! idx)) [0..<128])
     [start_burst..<start_burst + num_bursts])"

section \<open>Writing and checking\<close>

definition words_bytes :: "u64 list \<Rightarrow> u8 list" where
  "words_bytes ws = concat (map (\<lambda>w. map (word_byte w) [0..<8]) ws)"

definition bytes_word :: "u8 list \<Rightarrow> nat \<Rightarrow> u64" where
  "bytes_word bs j = foldr (\<lambda>k acc. or (push_bit 8 acc) (ucast (bs ! (8 * j + k)))) [0..<8] 0"

definition artix_load_mem_test_data ::
    "(u32 \<Rightarrow> nat \<Rightarrow> u32) \<Rightarrow> driver \<Rightarrow> artix_selects \<Rightarrow> bool \<Rightarrow> nat \<Rightarrow> nat \<Rightarrow> unit io" where
  "artix_load_mem_test_data rnd drv sel run_crc num_chunks chunk_size =
     (if chunk_size mod BURST_BYTES \<noteq> 0 then failB Bad_count
      else
        let num_bursts = chunk_size div BURST_BYTES in
        doB (map (\<lambda>i. doB
          [artix_mem_write drv sel (of_nat (i * chunk_size))
             (words_bytes (get_mem_test_data rnd (i * num_bursts) num_bursts True run_crc)) chunk_size,
           helper_print_agent_status drv sel]) [0..<num_chunks]))"

record mem_test_check =
  first_fail_chunk :: int
  first_fail_word :: nat
  total_fail_words :: nat

definition check_word :: "nat \<Rightarrow> nat \<Rightarrow> u64 list \<Rightarrow> u8 list \<Rightarrow> nat \<Rightarrow> mem_test_check \<Rightarrow> mem_test_check res" where
  "check_word i num_words write_data read_data j tc =
     bindR (nthR write_data j) (\<lambda>w.
     if w \<noteq> bytes_word read_data j
     then Inr (tc\<lparr>first_fail_chunk := int i,
       first_fail_word := (if first_fail_word tc = 0 then i * num_words + j else first_fail_word tc),
       total_fail_words := total_fail_words tc + 1\<rparr>)
     else Inr tc)"

definition check_chunk ::
    "(u32 \<Rightarrow> nat \<Rightarrow> u32) \<Rightarrow> driver \<Rightarrow> artix_selects \<Rightarrow> nat \<Rightarrow> nat \<Rightarrow>
     u8 list \<times> mem_test_check \<Rightarrow> (u8 list \<times> mem_test_check) io" where
  "check_chunk rnd drv sel chunk_size i = (\<lambda>(read_data, tc).
     let num_bursts = chunk_size div BURST_BYTES; num_words = chunk_size div 8 in
     bindB (artix_mem_read drv sel (of_nat (i * chunk_size)) read_data chunk_size) (\<lambda>read_data.
     let write_data = get_mem_test_data rnd (i * num_bursts) num_bursts True False in
     bindB (liftB (foldR (check_word i num_words write_data read_data) [0..<num_words] tc)) (\<lambda>tc.
     returnB (read_data, tc))))"

definition artix_check_mem_test_data ::
    "(u32 \<Rightarrow> nat \<Rightarrow> u32) \<Rightarrow> driver \<Rightarrow> artix_selects \<Rightarrow> nat \<Rightarrow> nat \<Rightarrow> mem_test_check io" where
  "artix_check_mem_test_data rnd drv sel num_chunks chunk_size =
     bindB (foldB (check_chunk rnd drv sel chunk_size) [0..<num_chunks]
       (replicate chunk_size 0, \<lparr>first_fail_chunk = -1, first_fail_word = 0, total_fail_words = 0\<rparr>))
       (\<lambda>(_, tc). returnB tc)"

section \<open>The test\<close>

definition mem_test_cycle :: "driver \<Rightarrow> artix_selects \<Rightarrow> u64 io" where
  "mem_test_cycle drv sel =
     helper_get_agent_gvpu_status drv sel GVPU_STATUS_SELECT_MEM_TEST GVPU_STATUS_CMD_GET_CYCLE"

text \<open>
  The loop that waits for the checksum test: it ends when the gvpu is idle or the last cycle is
  reached, and the process ends when no progress is seen for ten seconds. The bound of the recursion
  is given by the caller.
\<close>

fun wait_crc :: "nat \<Rightarrow> driver \<Rightarrow> (history \<Rightarrow> int) \<Rightarrow> artix_selects \<Rightarrow> nat \<Rightarrow> nat \<Rightarrow> int \<Rightarrow> unit io" where
  "wait_crc 0 drv clock sel num_bursts counter since = failB Out_of_fuel"
| "wait_crc (Suc fuel) drv clock sel num_bursts counter since =
     bindB (subcore_get_regs drv) (\<lambda>regs.
     bindB (liftB (get_gvpu_state sel (Some regs))) (\<lambda>state.
     if state = gvpu_code GVPU_IDLE then returnB ()
     else
       bindB (mem_test_cycle drv sel) (\<lambda>crc_cycle.
       bindB (getB (\<lambda>st. clock (hist st))) (\<lambda>now.
       if unat crc_cycle > counter then
         (if unat crc_cycle = num_bursts then returnB ()
          else wait_crc fuel drv clock sel num_bursts (unat crc_cycle) now)
       else if now - since \<ge> 10 then failB Device_failure
       else if unat crc_cycle = num_bursts then returnB ()
       else wait_crc fuel drv clock sel num_bursts counter since))))"

definition run_crc_test ::
    "nat \<Rightarrow> driver \<Rightarrow> (history \<Rightarrow> int) \<Rightarrow> artix_selects \<Rightarrow> nat \<Rightarrow> bool io" where
  "run_crc_test fuel drv clock sel num_bursts =
     bindB (doB
      [helper_burst_setup drv sel 0 (of_nat num_bursts),
       helper_gvpu_load drv sel MEM_TEST,
       helper_print_agent_status drv sel]) (\<lambda>_.
     bindB (getB (\<lambda>st. clock (hist st))) (\<lambda>now.
     bindB (wait_crc fuel drv clock sel num_bursts 0 now) (\<lambda>_.
     bindB (mem_test_cycle drv sel) (\<lambda>_.
     bindB (helper_get_agent_status drv sel) (\<lambda>p.
     returnB (test_failed p))))))"

definition artix_mem_test ::
    "nat \<Rightarrow> (u32 \<Rightarrow> nat \<Rightarrow> u32) \<Rightarrow> driver \<Rightarrow> (history \<Rightarrow> int) \<Rightarrow> artix_selects \<Rightarrow> bool \<Rightarrow> bool \<Rightarrow> bool io" where
  "artix_mem_test fuel rnd drv clock sel run_crc full_test =
     (let chunk_size = MAX_CHUNK_SIZE;
          num_chunks = (if full_test then ARTIX_MEM_BYTES div MAX_CHUNK_SIZE else 1) in
      if chunk_size mod BURST_BYTES \<noteq> 0 then failB Bad_count
      else if full_test \<and> ARTIX_MEM_BYTES mod MAX_CHUNK_SIZE \<noteq> 0 then failB Bad_count
      else
        bindB (artix_load_mem_test_data rnd drv sel run_crc num_chunks chunk_size) (\<lambda>_.
        bindB (if run_crc then run_crc_test fuel drv clock sel ((num_chunks * chunk_size) div BURST_BYTES)
               else returnB False) (\<lambda>crc_failed.
        bindB (doB
         [helper_print_agent_status drv sel,
          helper_gvpu_load drv sel TEST_CLEANUP,
          helper_print_agent_status drv sel]) (\<lambda>_.
        bindB (artix_check_mem_test_data rnd drv sel (num_chunks * 2) (chunk_size div 2)) (\<lambda>tc.
        returnB
          (if run_crc then \<not> (crc_failed \<or> total_fail_words tc > 0)
           else \<not> total_fail_words tc > 0))))))"

section \<open>The test data\<close>

lemma fold_xor_bytes:
  "fold (\<lambda>j b. xor b (f j)) js (x :: u64) = xor x (fold (\<lambda>j b. xor b (f j)) js 0)"
proof (induction js arbitrary: x)
  case Nil
  then show ?case by simp
next
  case (Cons j js)
  show ?case using Cons [of "xor x (f j)"] Cons [of "f j"] by (simp add: xor.assoc)
qed

text \<open>The checksum of a beat: the bytes of its words combined by exclusive or, shifted by a byte.\<close>

definition beat_crc :: "u64 list \<Rightarrow> u64" where
  "beat_crc ws =
     push_bit 8 (fold (\<lambda>w b. fold (\<lambda>j b. xor b (ucast (word_byte w j))) [0..<8] b) ws 0)"

lemma burst_words:
  "k \<le> 96 \<Longrightarrow> fst (fold (burst_step r) [0..<k] ([], x)) = map (rand64 r) [0..<k]"
  by (induction k) (auto simp: burst_step_def split_beta Let_def)

lemma bxor_beat:
  assumes "m < 16"
  shows "snd (fold (burst_step r) [80..<80 + m] (b, x)) =
    (if m = 0 then x
     else fold (\<lambda>w b. fold (\<lambda>j b. xor b (ucast (word_byte w j))) [0..<8] b) (map (rand64 r) [80..<80 + m]) 0)"
  using assms
proof (induction m)
  case 0
  then show ?case by simp
next
  case (Suc m)
  let ?s = "snd (fold (burst_step r) [80..<80 + m] (b, x))"
  have upt: "[80..<80 + Suc m] = [80..<80 + m] @ [80 + m]"
    unfolding add_Suc_right by (rule upt_Suc_append) simp
  have step: "fold (burst_step r) [80..<80 + Suc m] (b, x) =
      burst_step r (80 + m) (fold (burst_step r) [80..<80 + m] (b, x))" unfolding upt by simp
  have "(80 + m) mod 16 = m" "(80 + m + 1) mod 16 = m + 1"
    using Suc.prems mod_mult_self4 [of 16 5 m] mod_mult_self4 [of 16 5 "m + 1"]
    by (simp_all add: add.assoc)
  then have "snd (fold (burst_step r) [80..<80 + Suc m] (b, x)) =
      fold (\<lambda>j b. xor b (ucast (word_byte (rand64 r (80 + m)) j))) [0..<8] (if m = 0 then xor ?s ?s else ?s)"
    unfolding step using Suc.prems by (simp add: burst_step_def bxor_step_def split_beta Let_def)
  moreover have "?s = fold (\<lambda>w b. fold (\<lambda>j b. xor b (ucast (word_byte w j))) [0..<8] b)
      (map (rand64 r) [80..<80 + m]) 0" if "m \<noteq> 0"
    using Suc that by simp
  ultimately show ?case unfolding upt by (cases "m = 0") (simp_all del: upt_rec_numeral)
qed

lemma crc_beats: "fold (burst_step r) [96..<96 + m] (b, c) = (b @ replicate m c, c)"
proof (induction m)
  case 0
  then show ?case by simp
next
  case (Suc m)
  have upt: "[96..<96 + Suc m] = [96..<96 + m] @ [96 + m]"
    unfolding add_Suc_right by (rule upt_Suc_append) simp
  show ?case
    unfolding upt fold_append o_apply Suc.IH
    by (simp add: burst_step_def replicate_append_same del: upt_rec_numeral)
qed

text \<open>A burst of the memory test: 96 random words, and the two last beats filled with one checksum.
  The checksum is that of the sixth beat alone: it starts again at each beat, so the first five
  beats of a burst have no influence on it.\<close>

theorem mem_test_burst_layout:
  "get_mem_test_burst rnd seed =
     (let ws = map (rand64 (rnd seed)) [0..<96] in ws @ replicate 32 (beat_crc (drop 80 ws)))"
proof -
  let ?r = "rnd seed"
  obtain b x where st: "fold (burst_step ?r) [0..<80] ([], - 1) = (b, x)" by force
  obtain b2 x2 where st2: "fold (burst_step ?r) [80..<95] (b, x) = (b2, x2)" by force
  have x2: "x2 = fold (\<lambda>w b. fold (\<lambda>j b. xor b (ucast (word_byte w j))) [0..<8] b) (map (rand64 ?r) [80..<95]) 0"
    using bxor_beat [of 15 ?r b x] st2 by simp
  have last: "snd (burst_step ?r 95 (b2, x2)) = beat_crc (map (rand64 ?r) [80..<96])"
  proof -
    define n :: nat where "n = 95"
    have "[80..<96] = [80..<n] @ [n]" by (simp add: n_def upt_rec)
    then show ?thesis
      unfolding beat_crc_def x2 by (simp add: burst_step_def bxor_step_def Let_def n_def)
  qed
  have split: "[0..<128] = [0..<80] @ [80..<95] @ [95] @ [96..<(128 :: nat)]" by (simp add: upt_rec)
  define b3 where "b3 = fst (burst_step ?r 95 (b2, x2))"
  let ?c = "beat_crc (map (rand64 ?r) [80..<96])"
  have step95: "burst_step ?r 95 (b2, x2) = (b3, ?c)" using last by (simp add: b3_def prod_eq_iff)
  have "fold (burst_step ?r) [0..<96] ([], - 1) = (b3, ?c)"
  proof -
    have "[0..<96] = [0..<80] @ [80..<95] @ [95 :: nat]" by (simp add: upt_rec)
    then show ?thesis by (simp add: st st2 step95 del: upt_rec_numeral)
  qed
  with burst_words [of 96 ?r "- 1"] have b3: "b3 = map (rand64 ?r) [0..<96]" by simp
  note tail = crc_beats [of ?r _ b3 ?c]
  have "get_mem_test_burst rnd seed = b3 @ replicate 32 ?c"
    unfolding get_mem_test_burst_def split using tail [of 32]
    by (simp add: st st2 step95 del: upt_rec_numeral)
  moreover have "drop 80 (map (rand64 ?r) [0..<96]) = map (rand64 ?r) [80..<96]"
    by (simp add: drop_map del: upt_rec_numeral)
  ultimately show ?thesis unfolding Let_def b3 by (simp only:)
qed

section \<open>Bytes and words\<close>

lemma word_byte_step:
  "or (push_bit 8 (drop_bit (8 * Suc k) w)) (ucast (word_byte w k)) = drop_bit (8 * k) (w :: u64)"
proof (rule bit_word_eqI)
  fix n assume "n < LENGTH(64)"
  have "bit w (8 * Suc k + (n - 8)) = bit w (8 * k + n)" if "8 \<le> n"
    using that by (intro arg_cong [of _ _ "bit w"]) simp
  then show "bit (or (push_bit 8 (drop_bit (8 * Suc k) w)) (ucast (word_byte w k))) n = bit (drop_bit (8 * k) w) n"
    using \<open>n < LENGTH(64)\<close>
    by (cases "8 \<le> n") (auto simp: word_byte_def bit_simps not_le dest: bit_imp_le_length)
qed

lemma word_bytes_nth:
  "j < length ws \<Longrightarrow> k < 8 \<Longrightarrow> words_bytes ws ! (8 * j + k) = word_byte (ws ! j) k"
proof (induction ws arbitrary: j)
  case Nil
  then show ?case by simp
next
  case (Cons w ws)
  show ?case
  proof (cases j)
    case 0
    then show ?thesis using Cons.prems by (simp add: words_bytes_def nth_append del: upt_rec_numeral)
  next
    case (Suc i)
    have "8 * j + k = length (map (word_byte w) [0..<8]) + (8 * i + k)" using Suc by simp
    then have "words_bytes (w # ws) ! (8 * j + k) = words_bytes ws ! (8 * i + k)"
      unfolding words_bytes_def list.map concat.simps by (simp only: nth_append_length_plus)
    then show ?thesis using Cons Suc by simp
  qed
qed

lemma bytes_word_from:
  assumes "j < length ws" and "k \<le> 8"
  shows "foldr (\<lambda>k acc. or (push_bit 8 acc) (ucast (words_bytes ws ! (8 * j + k)))) [k..<8] 0 =
    drop_bit (8 * k) (ws ! j)"
  using assms(2)
proof (induction k rule: inc_induct)
  case base
  have "drop_bit 64 (ws ! j) = 0"
    by (rule bit_word_eqI) (auto simp: bit_simps dest: bit_imp_le_length)
  then show ?case by simp
next
  case (step k)
  have upt: "[k..<8] = k # [Suc k..<8]" using step by (simp add: upt_conv_Cons)
  show ?case
    unfolding upt foldr.simps o_apply step.IH word_bytes_nth [OF assms(1) step(2)]
    by (rule word_byte_step)
qed

lemma bytes_word_words:
  "j < length ws \<Longrightarrow> bytes_word (words_bytes ws) j = ws ! j"
  using bytes_word_from [of j ws 0] by (simp add: bytes_word_def)

text \<open>The words that are written read back as themselves: the byte order in which the test data is
  sent is the one in which it is compared.\<close>

theorem mem_test_words_roundtrip:
  "map (bytes_word (words_bytes ws)) [0..<length ws] = ws"
  by (rule nth_equalityI) (simp_all add: bytes_word_words)

section \<open>Counting differences\<close>

lemma check_words_run:
  assumes "k \<le> length ws"
  shows "foldR (check_word i n ws bs) [0..<k] tc = Inr
    (let bad = filter (\<lambda>j. ws ! j \<noteq> bytes_word bs j) [0..<k] in
     \<lparr>first_fail_chunk = (if bad = [] then first_fail_chunk tc else int i),
      first_fail_word = foldl (\<lambda>f j. if f = 0 then i * n + j else f) (first_fail_word tc) bad,
      total_fail_words = total_fail_words tc + length bad\<rparr>)"
  using assms
proof (induction k)
  case 0
  then show ?case by simp
next
  case (Suc k)
  then have "k < length ws" by simp
  then show ?case
    using Suc by (auto simp: foldR_append check_word_def nthR_def Let_def)
qed

text \<open>The comparison of a chunk counts the words that differ. The chunk it reports as the first
  failing one is overwritten at each chunk with a difference, so it is in fact the last one; and a
  first failing word with number 0 is overwritten by the next one.\<close>

theorem check_chunk_counts:
  "foldR (check_word i (length ws) ws bs) [0..<length ws] tc = Inr
    (let bad = filter (\<lambda>j. ws ! j \<noteq> bytes_word bs j) [0..<length ws] in
     \<lparr>first_fail_chunk = (if bad = [] then first_fail_chunk tc else int i),
      first_fail_word = foldl (\<lambda>f j. if f = 0 then i * length ws + j else f) (first_fail_word tc) bad,
      total_fail_words = total_fail_words tc + length bad\<rparr>)"
  by (rule check_words_run) simp

end
