(* ===== verification/Board_Reachable.thy ===== *)
theory Board_Reachable
  imports Artix_Memtest
begin

text \<open>
  The states of the board that a client of board/artix.h and board/helper.h can reach, and the proof
  that all of them come from a sequence of requests that follows the protocol of the driver.
\<close>

section \<open>The memory test\<close>

lemma obeys_wait_crc: "obeys (wait_crc fuel drv clock sel n c t) UNIV UNIV"
proof (induction fuel arbitrary: c t)
  case 0
  show ?case by (simp add: obeys_fail)
next
  case (Suc fuel)
  have cycle: "obeys (mem_test_cycle drv sel) UNIV UNIV"
    unfolding mem_test_cycle_def
    by (rule obeys_controls [OF controls_mono [OF controls_gvpu_status [where P = UNIV]]]) auto
  have now: "obeys (getB f) UNIV UNIV" for f by (rule obeys_local) (simp add: getB_def)
  show ?case
    by (simp only: wait_crc.simps) (rule Suc.IH cycle now obeys_if obeys)+
qed

lemma obeys_mem_test:
  assumes "keeps_config drv"
  shows "obeys (artix_mem_test fuel rnd drv clock sel run_crc full_test) UNIV UNIV"
proof -
  note weaken = obeys_mono [OF _ subset_refl subset_UNIV]
  have now: "obeys (getB f) UNIV UNIV" for f by (rule obeys_local) (simp add: getB_def)
  have read: "obeys (artix_mem_read drv sel a bs n) UNIV UNIV" for a bs n
    using obeys_mem_read [OF assms] by (rule weaken)
  have load: "obeys (artix_load_mem_test_data rnd drv sel b k n) UNIV UNIV" for b k n
    unfolding artix_load_mem_test_data_def Let_def
    by (rule obeys_if obeys_loop obeys_fail | rule weaken [OF obeys_Cons [OF obeys_mem_write [OF assms]
        obeys_Cons [OF obeys_controls [OF controls_print_agent_status] obeys_simple(2)]]])+
  have check: "obeys (artix_check_mem_test_data rnd drv sel k n) UNIV UNIV" for k n
  proof -
    have "obeys (check_chunk rnd drv sel n i x) UNIV UNIV" for i x
      unfolding check_chunk_def Let_def by (cases x) (simp only: split, (rule read obeys)+)
    then have "obeys (foldB (check_chunk rnd drv sel n) is x) UNIV UNIV" for "is" x
      by (intro obeys_foldB)
    then show ?thesis unfolding artix_check_mem_test_data_def split_def by (rule obeys_bind) (rule obeys)
  qed
  have crc: "obeys (run_crc_test fuel drv clock sel n) UNIV UNIV" for n
  proof -
    have cycle: "obeys (mem_test_cycle drv sel) P {Idle}" for P
      unfolding mem_test_cycle_def by (rule obeys)
    have start: "obeys (doB [helper_burst_setup drv sel 0 (of_nat n), helper_gvpu_load drv sel MEM_TEST,
        helper_print_agent_status drv sel]) UNIV UNIV"
      by (rule weaken, (rule obeys)+)
    show ?thesis
      unfolding run_crc_test_def
      by (rule weaken, (rule start now obeys_wait_crc cycle obeys)+)
  qed
  have clean: "obeys (doB [helper_print_agent_status drv sel, helper_gvpu_load drv sel TEST_CLEANUP,
      helper_print_agent_status drv sel]) UNIV UNIV"
    by (rule weaken, (rule obeys)+)
  have skip: "obeys (returnB False) UNIV UNIV" by (rule obeys)
  show ?thesis
    unfolding artix_mem_test_def Let_def
    by (rule load crc check clean skip obeys_if obeys)+
qed

section \<open>Reachable states of the board\<close>

text \<open>
  The operations that board/artix.h and board/helper.h offer on the board, and their closure. The
  caller of \<open>helper_subcore_load\<close> chooses the state; board/driver.h tells it never to place the subcore
  into config load or wait directly. The raw operations of board/subcore.h and board/dma.h, with which a
  caller composes requests of its own, are not among them.
\<close>

inductive api_call :: "driver \<Rightarrow> unit io \<Rightarrow> bool" for drv where
  "s \<notin> {CONFIG_LOAD, CONFIG_WAIT} \<Longrightarrow> api_call drv (helper_subcore_load drv sel s)"
| "api_call drv (helper_subcore_set_boot_done drv)"
| "api_call drv (helper_subcore_set_led drv led on)"
| "api_call drv (voidB (helper_subcore_get_dna_id drv))"
| "api_call drv (helper_agent_load drv sel agent)"
| "api_call drv (helper_memcore_load drv sel memcore)"
| "api_call drv (helper_memcore_check_state drv sel memcore n)"
| "api_call drv (helper_burst_setup drv sel a n_bursts)"
| "api_call drv (helper_gvpu_load drv sel gvpu)"
| "api_call drv (helper_gvpu_packet_write drv sel p)"
| "api_call drv (voidB (helper_get_agent_gvpu_status drv sel select cmd))"
| "api_call drv (voidB (helper_get_agent_status drv sel))"
| "api_call drv (helper_print_agent_status drv sel)"
| "api_call drv (artix_mem_write drv sel a bs n)"
| "api_call drv (voidB (artix_mem_read drv sel a bs n))"
| "api_call drv (voidB (artix_load_stim lz4 drv stim a1 a2))"
| "api_call drv (voidB (artix_run_stim drv stim a1 a2))"
| "api_call drv (voidB (artix_get_stim_fail_pins drv))"
| "api_call drv (artix_config drv file sel path)"
| "api_call drv (voidB (artix_mem_test fuel rnd drv clock sel run_crc full_test))"

inductive reachable :: "driver \<Rightarrow> board \<Rightarrow> bool" for drv where
  start: "hist st = [] \<Longrightarrow> reachable drv st"
| call: "reachable drv st \<Longrightarrow> api_call drv m \<Longrightarrow> m st = Inr (u, st') \<Longrightarrow> reachable drv st'"

lemma api_call_obeys:
  assumes "api_call drv m" and "keeps_config drv"
  shows "obeys m UNIV UNIV"
proof -
  have check: "controls (helper_memcore_check_state drv sel s n) UNIV UNIV" for sel s n
    unfolding helper_memcore_check_state_def
    by (rule controls_if controls_mono [OF controls_bind [OF controls_get_agent_status] subset_refl subset_UNIV]
        controls)+
  have helper: "obeys m UNIV UNIV" if "controls m UNIV Q" for m :: "'b io" and Q
    using that by (intro obeys_controls) (auto elim: controls_mono)
  note transfers = obeys_mem_write [OF assms(2), of _ _ _ _ UNIV]
    obeys_mem_read [OF assms(2), of _ _ _ _ UNIV]
  from assms show ?thesis
    by (cases rule: api_call.cases)
      (auto simp: placeable_def intro: helper [OF check] helper [OF controls_void]
        helper [OF controls_subcore_load]
        helper [OF controls_boot_done] helper [OF controls_set_led] helper [OF controls_agent_load]
        helper [OF controls_memcore_load] helper [OF controls_burst_setup]
        helper [OF controls_gvpu_load] helper [OF controls_gvpu_packet_write]
        helper [OF controls_print_agent_status] controls obeys_void obeys_load_stim
        obeys_run_stim obeys_fail_pins obeys_config obeys_mem_test
        obeys_mono [OF transfers(1)] obeys_void [OF obeys_mono [OF transfers(2)]])
qed

text \<open>C2. The operations of board/artix.h and board/helper.h that make requests (those \<open>api_call\<close> lists; a
  caller that loads the subcore itself keeps to the note of board/driver.h and does not ask for config
  load or config wait) never break the protocol of the driver, in whatever order they are called and
  whatever the driver answers, as long as it reports the subcore configuration it was given
  (\<open>keeps_config\<close>): the subcore is loaded only right after it was waited for, with one unit selected at
  most, and never directly into config load or config wait; it is run only when it was loaded; control packets are written and read only
  while it runs in a state that proxies them; and a DMA transfer is started only when it was prepared
  and the subcore runs in the state for its direction.\<close>

theorem requests_follow_protocol:
  assumes "reachable drv st" and "keeps_config drv"
  shows "follows_protocol (hist st)"
  using assms(1)
proof induction
  case (start st)
  then show ?case by (simp add: follows_protocol_def)
next
  case (call st m u st')
  from api_call_obeys [OF call.hyps(2) assms(2)] call.hyps(3) obtain h where
    "hist st' = hist st @ h" "\<forall>ph cs. \<exists>ph' cs'. run_phases h (ph, cs) = Some (ph', cs')"
    unfolding obeys_def by fastforce
  with call.IH show ?case
    by (auto simp: follows_protocol_def run_phases_append split: bind_splits)
qed

lemma requests_follow_protocol_witness:
  "\<exists>st. reachable (steady_driver 0) st \<and> length (hist st) = 3 \<and> follows_protocol (hist st)"
proof -
  let ?m = "helper_subcore_load (steady_driver 0) ARTIX_SELECT_A1 CTRL_WRITE"
  have "\<exists>st. ?m (fresh_board []) = Inr ((), st) \<and> length (hist st) = 3"
    by (simp add: helper_subcore_load_def subcore_idle_def subcore_load_def subcore_run_def io_simps
        steady_driver_def fresh_board_def)
  then obtain st where st: "?m (fresh_board []) = Inr ((), st)" "length (hist st) = 3" by blast
  have "reachable (steady_driver 0) (fresh_board [])"
    by (rule reachable.start) (simp add: fresh_board_def Let_def)
  then have "reachable (steady_driver 0) st"
    using api_call.intros(1) [of CTRL_WRITE] st(1) by (rule reachable.call) simp_all
  with requests_follow_protocol [OF this steady_keeps_config] st(2) show ?thesis by blast
qed

end
