(* ===== verification/Board_Files.thy ===== *)
theory Board_Files
  imports Board Util_Time
begin

text \<open>
  The files of the operating system that the board is reached through: board/gpio.c, board/i2c.c and
  board/dev.c (as built for the tester). The kernel is a parameter: it answers each call, given all calls
  before with their answers. The theory shows which calls are made, and that every file that is opened is closed.
\<close>

section \<open>Calls of the kernel\<close>

datatype file_call =
    File_open string
  | File_write int "u8 list"
  | File_read int nat
  | I2C_slave int u8
  | File_close int
  | File_map int nat
  | File_unmap nat

record file_answer =
  answer :: int
  file_bytes :: "u8 list"

type_synonym file_history = "(file_call \<times> file_answer) list"
type_synonym kernel = "file_history \<Rightarrow> file_call \<Rightarrow> file_answer"
type_synonym 'a file_io = "file_history \<Rightarrow> ('a \<times> file_history) res"

definition bindF :: "'a file_io \<Rightarrow> ('a \<Rightarrow> 'b file_io) \<Rightarrow> 'b file_io" where
  "bindF m f = (\<lambda>h. bindR (m h) (\<lambda>(x, h). f x h))"

definition returnF :: "'a \<Rightarrow> 'a file_io" where
  "returnF x = (\<lambda>h. Inr (x, h))"

definition dieF :: "fault \<Rightarrow> 'a file_io" where
  "dieF e = (\<lambda>h. Inl e)"

definition syscall :: "kernel \<Rightarrow> file_call \<Rightarrow> file_answer file_io" where
  "syscall os c = (\<lambda>h. let a = os h c in Inr (a, h @ [(c, a)]))"

text \<open>Opening a file, where failing ends the process; a call whose answer the code does not look at.\<close>

definition open_file :: "kernel \<Rightarrow> string \<Rightarrow> int file_io" where
  "open_file os path =
     bindF (syscall os (File_open path)) (\<lambda>a. if answer a < 0 then dieF Device_failure else returnF (answer a))"

definition plain_call :: "kernel \<Rightarrow> file_call \<Rightarrow> unit file_io" where
  "plain_call os c = bindF (syscall os c) (\<lambda>_. returnF ())"

text \<open>A call that ends the process unless its answer is the expected one.\<close>

definition checked_call :: "kernel \<Rightarrow> file_call \<Rightarrow> (int \<Rightarrow> bool) \<Rightarrow> u8 list file_io" where
  "checked_call os c ok =
     bindF (syscall os c) (\<lambda>a. if ok (answer a) then returnF (file_bytes a) else dieF Device_failure)"

definition c_string :: "string \<Rightarrow> u8 list" where
  "c_string s = map of_char s @ [0]"

section \<open>gpio.c\<close>

datatype gcore_gpio_dir = GCORE_GPIO_NONE | GCORE_GPIO_READ | GCORE_GPIO_WRITE

definition GCORE_GPIO_MIN :: nat where "GCORE_GPIO_MIN = 0"
definition GCORE_GPIO_MAX :: nat where "GCORE_GPIO_MAX = 117"
definition GCORE_GPIO_START :: u32 where "GCORE_GPIO_START = 906"

text \<open>The second half of the check of the index compares the limit with itself.\<close>

definition gpio_path :: "string \<Rightarrow> string \<Rightarrow> string" where
  "gpio_path pin_str name = take 49 (''/sys/class/gpio/gpio'' @ pin_str @ ''/'' @ name)"

definition gpio_level :: "u8 list \<Rightarrow> bool file_io" where
  "gpio_level read_str =
     (if take 1 read_str = [0x30] then returnF False
      else if take 1 read_str = [0x31] then returnF True
      else dieF Bad_format)"

definition gcore_gpio :: "kernel \<Rightarrow> u32 \<Rightarrow> gcore_gpio_dir \<Rightarrow> bool \<Rightarrow> bool file_io" where
  "gcore_gpio os index dir val =
     (if unat index < GCORE_GPIO_MIN \<or> GCORE_GPIO_MAX > GCORE_GPIO_MAX then dieF Out_of_range
      else
        let pin_str = take 49 (dec_int (sint (index + GCORE_GPIO_START))) in
        bindF (open_file os ''/sys/class/gpio/export'') (\<lambda>fd.
        bindF (plain_call os (File_write fd (c_string pin_str))) (\<lambda>_.
        bindF (plain_call os (File_close fd)) (\<lambda>_.
        bindF (open_file os (gpio_path pin_str ''direction'')) (\<lambda>fd.
        bindF
          (case dir of
             GCORE_GPIO_READ \<Rightarrow>
               bindF (plain_call os (File_write fd (c_string ''in''))) (\<lambda>_. plain_call os (File_close fd))
           | GCORE_GPIO_WRITE \<Rightarrow>
               bindF (plain_call os (File_write fd (c_string ''out''))) (\<lambda>_. plain_call os (File_close fd))
           | GCORE_GPIO_NONE \<Rightarrow> returnF ()) (\<lambda>_.
        bindF (open_file os (gpio_path pin_str ''value'')) (\<lambda>fd.
        bindF
          (case dir of
             GCORE_GPIO_READ \<Rightarrow> bindF (checked_call os (File_read fd 1) (\<lambda>n. 0 \<le> n)) gpio_level
           | GCORE_GPIO_WRITE \<Rightarrow>
               bindF (plain_call os (File_write fd (c_string (if val then ''1'' else ''0'')))) (\<lambda>_. returnF val)
           | GCORE_GPIO_NONE \<Rightarrow> dieF Bad_select) (\<lambda>val.
        bindF (plain_call os (File_close fd)) (\<lambda>_. returnF val)))))))))"

section \<open>i2c.c\<close>

text \<open>The buffer that a read fills holds the number of the register before.\<close>

datatype gcore_i2c_dir = GCORE_I2C_NONE | GCORE_I2C_READ | GCORE_I2C_WRITE

datatype gcore_i2c_devs =
    GCORE_I2C_DEV_Z_EEPROM | GCORE_I2C_DEV_A1_DDR_EEPROM | GCORE_I2C_DEV_A2_DDR_EEPROM | GCORE_I2C_DEV_Z_USRCLK
  | GCORE_I2C_DEV_A1_USRCLK | GCORE_I2C_DEV_A2_USRCLK | GCORE_I2C_DEV_Z_EXT0 | GCORE_I2C_DEV_Z_EXT1

fun i2c_dev_code :: "gcore_i2c_devs \<Rightarrow> u8" where
  "i2c_dev_code GCORE_I2C_DEV_Z_EEPROM = 0x01"
| "i2c_dev_code GCORE_I2C_DEV_A1_DDR_EEPROM = 0x02"
| "i2c_dev_code GCORE_I2C_DEV_A2_DDR_EEPROM = 0x04"
| "i2c_dev_code GCORE_I2C_DEV_Z_USRCLK = 0x08"
| "i2c_dev_code GCORE_I2C_DEV_A1_USRCLK = 0x10"
| "i2c_dev_code GCORE_I2C_DEV_A2_USRCLK = 0x20"
| "i2c_dev_code GCORE_I2C_DEV_Z_EXT0 = 0x40"
| "i2c_dev_code GCORE_I2C_DEV_Z_EXT1 = 0x80"

definition GCORE_I2C_SWITCH_ADDR :: u8 where "GCORE_I2C_SWITCH_ADDR = 0x76"

definition gcore_i2c :: "kernel \<Rightarrow> u8 \<Rightarrow> u8 \<Rightarrow> gcore_i2c_dir \<Rightarrow> u8 \<Rightarrow> u8 file_io" where
  "gcore_i2c os addr reg dir val =
     bindF (open_file os (take 18 (''/dev/i2c-'' @ dec_int 0))) (\<lambda>fd.
     bindF (checked_call os (I2C_slave fd addr) (\<lambda>n. 0 \<le> n)) (\<lambda>_.
     bindF
       (case dir of
          GCORE_I2C_READ \<Rightarrow>
            bindF (checked_call os (File_write fd [reg]) (\<lambda>n. n = 1)) (\<lambda>_.
            bindF (checked_call os (File_read fd 1) (\<lambda>n. n = 1)) (\<lambda>buf. returnF (hd (buf @ [reg]))))
        | GCORE_I2C_WRITE \<Rightarrow>
            bindF (checked_call os (File_write fd [reg, val]) (\<lambda>n. n = 2)) (\<lambda>_. returnF val)
        | GCORE_I2C_NONE \<Rightarrow> dieF Bad_select) (\<lambda>val.
     bindF (plain_call os (File_close fd)) (\<lambda>_. returnF val))))"

definition gcore_i2c_set_dev :: "kernel \<Rightarrow> gcore_i2c_devs \<Rightarrow> unit file_io" where
  "gcore_i2c_set_dev os dev =
     bindF (gcore_i2c os GCORE_I2C_SWITCH_ADDR 0 GCORE_I2C_WRITE (i2c_dev_code dev)) (\<lambda>_. returnF ())"

section \<open>dev.c\<close>

record gcore_dev =
  gcore_fd :: int
  gcore_map :: "nat option"

definition MMAP_SIZE :: nat where "MMAP_SIZE = DMA_SIZE * 1"

definition gcore_dev_init :: "kernel \<Rightarrow> gcore_dev file_io" where
  "gcore_dev_init os =
     bindF (syscall os (File_open ''/dev/gcore'')) (\<lambda>a.
     let fd = answer a in
     if fd = - 1 then dieF Device_failure
     else
       bindF (syscall os (File_map fd MMAP_SIZE)) (\<lambda>m.
       if answer m = - 1 then bindF (plain_call os (File_close fd)) (\<lambda>_. dieF Device_failure)
       else returnF \<lparr>gcore_fd = fd, gcore_map = Some (nat (answer m))\<rparr>))"

definition gcore_dev_destroy :: "kernel \<Rightarrow> gcore_dev \<Rightarrow> unit file_io" where
  "gcore_dev_destroy os dev =
     bindF (syscall os (File_unmap MMAP_SIZE)) (\<lambda>a.
     if answer a = - 1 then dieF Device_failure else plain_call os (File_close (gcore_fd dev)))"

definition gcore_dev_get_fd :: "gcore_dev \<Rightarrow> u8" where
  "gcore_dev_get_fd dev = word_of_int (gcore_fd dev)"

definition gcore_dev_get_map :: "gcore_dev \<Rightarrow> nat option" where
  "gcore_dev_get_map dev = gcore_map dev"

section \<open>Files are closed\<close>

fun opened_files :: "file_history \<Rightarrow> int list" where
  "opened_files [] = []"
| "opened_files ((File_open path, a) # h) = (if 0 \<le> answer a then answer a # opened_files h else opened_files h)"
| "opened_files (_ # h) = opened_files h"

fun closed_files :: "file_history \<Rightarrow> int list" where
  "closed_files [] = []"
| "closed_files ((File_close fd, a) # h) = fd # closed_files h"
| "closed_files (_ # h) = closed_files h"

lemma opened_append [simp]: "opened_files (h @ h') = opened_files h @ opened_files h'"
  by (induction h rule: opened_files.induct) simp_all

lemma closed_append [simp]: "closed_files (h @ h') = closed_files h @ closed_files h'"
  by (induction h rule: closed_files.induct) simp_all

lemmas file_io_defs = bindF_def returnF_def dieF_def syscall_def plain_call_def checked_call_def open_file_def gpio_level_def

text \<open>Rules for the calls that an operation makes when it returns, and for operations that always return.\<close>

definition calls :: "'a file_io \<Rightarrow> ('a \<Rightarrow> file_history \<Rightarrow> bool) \<Rightarrow> bool" where
  "calls m Q \<longleftrightarrow> (\<forall>h v h'. m h = Inr (v, h') \<longrightarrow> (\<exists>t. h' = h @ t \<and> Q v t))"

definition succeeds :: "'a file_io \<Rightarrow> ('a \<Rightarrow> bool) \<Rightarrow> bool" where
  "succeeds m Q \<longleftrightarrow> (\<forall>h. \<exists>v h'. m h = Inr (v, h') \<and> Q v)"

named_theorems file_rules

lemma calls_return [file_rules]: "Q v [] \<Longrightarrow> calls (returnF v) Q"
  by (simp add: calls_def returnF_def)

lemma calls_die [file_rules]: "calls (dieF e) Q"
  by (simp add: calls_def dieF_def)

lemma calls_syscall [file_rules]: "(\<And>a. Q a [(c, a)]) \<Longrightarrow> calls (syscall os c) Q"
  by (simp add: calls_def syscall_def Let_def)

lemma calls_bind [file_rules]: "calls m (\<lambda>v t. calls (f v) (\<lambda>w u. Q w (t @ u))) \<Longrightarrow> calls (bindF m f) Q"
  unfolding calls_def bindF_def bindR_Inr_iff by (fastforce simp: bindR_Inr_iff)

lemma calls_if [file_rules]: "(b \<Longrightarrow> calls m Q) \<Longrightarrow> (\<not> b \<Longrightarrow> calls n Q) \<Longrightarrow> calls (if b then m else n) Q"
  by simp

lemma calls_open [file_rules]: "(\<And>a. 0 \<le> answer a \<Longrightarrow> Q (answer a) [(File_open p, a)]) \<Longrightarrow> calls (open_file os p) Q"
  unfolding open_file_def by (intro file_rules) auto

lemma calls_plain [file_rules]: "(\<And>a. Q () [(c, a)]) \<Longrightarrow> calls (plain_call os c) Q"
  unfolding plain_call_def by (intro file_rules) auto

lemma calls_checked [file_rules]: "(\<And>a. Q (file_bytes a) [(c, a)]) \<Longrightarrow> calls (checked_call os c ok) Q"
  unfolding checked_call_def by (intro file_rules) auto

lemma calls_level [file_rules]: "(\<And>b. Q b []) \<Longrightarrow> calls (gpio_level bs) Q"
  unfolding gpio_level_def by (intro file_rules) auto

lemma gpio_calls: "calls (gcore_gpio os index dir val) (\<lambda>v t. opened_files t = closed_files t \<and> dir \<noteq> GCORE_GPIO_NONE)"
  by (cases dir; unfold gcore_gpio_def Let_def; simp only: gcore_gpio_dir.case; intro file_rules; simp)

lemma i2c_calls: "calls (gcore_i2c os addr reg dir val) (\<lambda>v t. opened_files t = closed_files t \<and>
    (\<forall>c\<in>fst ` set t. \<forall>fd a. c = I2C_slave fd a \<longrightarrow> a = addr) \<and>
    (\<forall>c\<in>fst ` set t. \<forall>fd bs. c = File_write fd bs \<longrightarrow> bs = (if dir = GCORE_I2C_WRITE then [reg, val] else [reg])))"
  by (cases dir; unfold gcore_i2c_def Let_def; simp only: gcore_i2c_dir.case; intro file_rules; simp)

lemma succeeds_return: "Q v \<Longrightarrow> succeeds (returnF v) Q"
  by (simp add: succeeds_def returnF_def)

lemma succeeds_syscall: "(\<And>a. Q a) \<Longrightarrow> succeeds (syscall os c) Q"
  by (simp add: succeeds_def syscall_def Let_def)

lemma succeeds_bind:
  assumes m: "succeeds m (\<lambda>v. succeeds (f v) Q)"
  shows "succeeds (bindF m f) Q"
  unfolding succeeds_def bindF_def
proof
  fix h
  obtain v h1 where "m h = Inr (v, h1)" "succeeds (f v) Q" using m unfolding succeeds_def by blast
  moreover from this(2) obtain w h2 where "f v h1 = Inr (w, h2)" "Q w" unfolding succeeds_def by blast
  ultimately show "\<exists>w h'. bindR (m h) (\<lambda>(x, h). f x h) = Inr (w, h') \<and> Q w" by simp
qed

lemmas succeeds_basic = succeeds_return succeeds_syscall succeeds_bind

lemma succeeds_plain: "Q () \<Longrightarrow> succeeds (plain_call os c) Q"
  unfolding plain_call_def by (intro succeeds_basic)

lemma succeeds_open:
  assumes "\<And>h path. 0 \<le> answer (os h (File_open path))" and "\<And>fd. Q fd"
  shows "succeeds (open_file os p) Q"
proof -
  have "\<not> answer (os h (File_open p)) < 0" for h using assms(1) by (simp add: not_less)
  then show ?thesis using assms(2) by (simp add: succeeds_def open_file_def bindF_def syscall_def Let_def returnF_def)
qed

text \<open>No index is refused: writing a level to a pin succeeds whenever the kernel opens the files, whatever the number.\<close>

lemma gpio_index_unchecked:
  assumes "\<And>h path. 0 \<le> answer (os h (File_open path))"
  shows "succeeds (gcore_gpio os index GCORE_GPIO_WRITE val) (\<lambda>v. v = val)"
proof -
  have "\<not> (unat index < GCORE_GPIO_MIN \<or> GCORE_GPIO_MAX > GCORE_GPIO_MAX)" by (simp add: GCORE_GPIO_MIN_def)
  then show ?thesis unfolding gcore_gpio_def Let_def
    by (simp only: if_False gcore_gpio_dir.case) (intro succeeds_basic succeeds_plain succeeds_open assms refl)
qed

text \<open>C40. Every file that reading or writing a pin or a register opens is closed again when it returns, in the order
  of opening, whatever the kernel answers.\<close>

theorem files_are_closed:
  assumes "gcore_gpio os index dir val h = Inr (v, h1)" and "gcore_i2c os addr reg dir' val' h1 = Inr (v', h2)"
  shows "\<exists>t. h2 = h @ t \<and> opened_files t = closed_files t"
  using gpio_calls i2c_calls assms unfolding calls_def by fastforce

text \<open>A kernel that opens every file with the number 3 and carries out every call.\<close>

definition willing_kernel :: kernel where
  "willing_kernel h c =
     (case c of
        File_open path \<Rightarrow> \<lparr>answer = 3, file_bytes = []\<rparr>
      | File_write fd bs \<Rightarrow> \<lparr>answer = int (length bs), file_bytes = []\<rparr>
      | File_read fd n \<Rightarrow> \<lparr>answer = int n, file_bytes = replicate n 0x31\<rparr>
      | _ \<Rightarrow> \<lparr>answer = 0, file_bytes = []\<rparr>)"

theorem files_are_closed_witness:
  "\<exists>h1 h2 t. gcore_gpio willing_kernel 4000 GCORE_GPIO_READ False [] = Inr (True, h1) \<and>
    gcore_i2c willing_kernel 0x55 7 GCORE_I2C_READ 0 h1 = Inr (0x31, h2) \<and> h2 = [] @ t \<and> opened_files t = closed_files t"
proof -
  note defs = file_io_defs willing_kernel_def GCORE_GPIO_MIN_def
  obtain h1 where h1: "gcore_gpio willing_kernel 4000 GCORE_GPIO_READ False [] = Inr (True, h1)"
    by (simp add: gcore_gpio_def defs Let_def)
  obtain h2 where h2: "gcore_i2c willing_kernel 0x55 7 GCORE_I2C_READ 0 h1 = Inr (0x31, h2)"
    by (simp add: gcore_i2c_def defs Let_def)
  from files_are_closed [OF h1 h2] h1 h2 show ?thesis by blast
qed

end
