(* ===== verification/Stim_Archive.thy ===== *)
theory Stim_Archive
  imports Stim_Fill
begin

text \<open>
  The archive of a stimulus (src/stim.c, src/serialize/stim_serdes.capnp): a stimulus of any type
  is written with its compressed vectors as a Cap'n Proto message, and read back as a raw stimulus.

  The message is a value of type \<open>SerialStim\<close>, one record per structure of the schema. The
  bytes of a message are the business of the Cap'n Proto library: writing yields the message, and
  reading takes the function that decodes the mapped file. LZ4 is a parameter as well: the
  compressor returns no bytes when it fails. The field \<^verbatim>\<open>dutId\<close> of a pin and the field
  \<^verbatim>\<open>vecDataCompressedSize\<close> of a chunk are never set nor read and are left out.
\<close>

section \<open>The schema\<close>

datatype ProfileTags =
    profileTagNone | profileTagCclk | profileTagResetB | profileTagCsiB | profileTagRdwrB
  | profileTagProgramB | profileTagInitB | profileTagDone | profileTagData | profileTagGpio

datatype VecChunk_ArtixSelects = artixSelectNone | artixSelectA1 | artixSelectA2

datatype StimTypes =
    stimTypeNone | stimTypeRbt | stimTypeBin | stimTypeBit | stimTypeDots | stimTypeRaw

record ProfilePin =
  pinName :: string
  compName :: string
  netName :: string
  netAlias :: string
  pp_tag :: ProfileTags
  tagData :: int
  dutIoId :: int
  numDests :: nat
  destDutIds :: "nat list"
  destPinNames :: "string list"

record VecChunk =
  vc_id :: nat
  artixSelect :: VecChunk_ArtixSelects
  numVecs :: nat
  vecData :: "u8 list option"
  vecDataSize :: nat

record SerialStim =
  ss_type :: StimTypes
  numPins :: nat
  ss_pins :: "ProfilePin list"
  ss_numVecs :: nat
  numUnrolledVecs :: nat
  numPaddingVecs :: nat
  numA1VecChunks :: nat
  numA2VecChunks :: nat
  a1VecChunks :: "VecChunk list"
  a2VecChunks :: "VecChunk list"

text \<open>What a list of the message holds before its elements are set, and what reads of elements it
  does not have return.\<close>

definition new_VecChunk :: VecChunk where
  "new_VecChunk = \<lparr>vc_id = 0, artixSelect = artixSelectNone, numVecs = 0, vecData = None, vecDataSize = 0\<rparr>"

definition new_ProfilePin :: ProfilePin where
  "new_ProfilePin =
     \<lparr>pinName = [], compName = [], netName = [], netAlias = [], pp_tag = profileTagNone, tagData = 0,
      dutIoId = 0, numDests = 0, destDutIds = [], destPinNames = []\<rparr>"

definition capn_at :: "'a \<Rightarrow> 'a list \<Rightarrow> nat \<Rightarrow> 'a" where
  "capn_at x xs i = (if i < length xs then xs ! i else x)"

section \<open>Writing\<close>

fun serial_tag :: "profile_tags \<Rightarrow> ProfileTags" where
  "serial_tag PROFILE_TAG_NONE = profileTagNone"
| "serial_tag PROFILE_TAG_CCLK = profileTagCclk"
| "serial_tag PROFILE_TAG_RESET_B = profileTagResetB"
| "serial_tag PROFILE_TAG_CSI_B = profileTagCsiB"
| "serial_tag PROFILE_TAG_RDWR_B = profileTagRdwrB"
| "serial_tag PROFILE_TAG_PROGRAM_B = profileTagProgramB"
| "serial_tag PROFILE_TAG_INIT_B = profileTagInitB"
| "serial_tag PROFILE_TAG_DONE = profileTagDone"
| "serial_tag PROFILE_TAG_DATA = profileTagData"
| "serial_tag PROFILE_TAG_GPIO = profileTagGpio"

text \<open>\<^verbatim>\<open>chars_to_text\<close> takes the length of its argument, which must not be NULL.\<close>

definition chars_to_text :: "string option \<Rightarrow> string res" where
  "chars_to_text chars = derefR chars"

definition serialize_dest :: "profile_pin \<Rightarrow> nat \<Rightarrow> (nat \<times> string) res" where
  "serialize_dest pin j =
     bindR (nthR (dest_dut_ids pin) j) (\<lambda>dut_id.
     bindR (nthR (dest_pin_names pin) j) (\<lambda>name.
     bindR (chars_to_text name) (\<lambda>text. Inr (dut_id, text))))"

definition serialize_pin :: "profile_pin \<Rightarrow> ProfilePin res" where
  "serialize_pin pin =
     bindR (chars_to_text (pin_name pin)) (\<lambda>a.
     bindR (chars_to_text (comp_name pin)) (\<lambda>b.
     bindR (chars_to_text (net_name pin)) (\<lambda>c.
     bindR (chars_to_text (net_alias pin)) (\<lambda>d.
     bindR (mapR (serialize_dest pin) [0..<num_dests pin]) (\<lambda>ds.
     Inr \<lparr>pinName = a, compName = b, netName = c, netAlias = d, pp_tag = serial_tag (tag pin),
          tagData = tag_data pin, dutIoId = dut_io_id pin, numDests = num_dests pin,
          destDutIds = map fst ds, destPinNames = map snd ds\<rparr>)))))"

text \<open>\<open>lz4c src\<close> is what the compressor writes for \<open>src\<close>, nothing when it fails.\<close>

type_synonym lz4_compressor = "u8 list \<Rightarrow> u8 list"

definition select_to_serial :: "artix_selects \<Rightarrow> VecChunk_ArtixSelects" where
  "select_to_serial sel =
     (case sel of ARTIX_SELECT_A1 \<Rightarrow> artixSelectA1 | ARTIX_SELECT_A2 \<Rightarrow> artixSelectA2
      | _ \<Rightarrow> artixSelectNone)"

text \<open>One round of the loop over the chunks of a unit: the list of the message it fills, and the
  number of bytes saved.\<close>

definition serialize_vec_chunk ::
    "lz4_compressor \<Rightarrow> vec_chunk \<Rightarrow> VecChunk list \<times> nat \<Rightarrow> (VecChunk list \<times> nat) res" where
  "serialize_vec_chunk lz4c chunk = (\<lambda>(chunks, total_saved_size).
     if chunk_select chunk = ARTIX_SELECT_BOTH then Inl Bad_select
     else
       bindR (derefR (vec_data chunk)) (\<lambda>vdata.
       let compressed_data = lz4c (take (vec_data_size chunk) vdata) in
       if length compressed_data = 0 then Inl Bad_format
       else Inr
         (chunks[chunk_id chunk := \<lparr>vc_id = chunk_id chunk,
            artixSelect = select_to_serial (chunk_select chunk), numVecs = chunk_num_vecs chunk,
            vecData = Some compressed_data, vecDataSize = wrap32 (vec_data_size chunk)\<rparr>],
          wrap64 (total_saved_size + wrap64 (vec_data_size chunk + 2 ^ 64 - length compressed_data)))))"

definition stim_serialize_chunk ::
    "lz4_compressor \<Rightarrow> lz4_decompressor \<Rightarrow> stim \<Rightarrow> artix_selects \<Rightarrow> VecChunk list \<Rightarrow> (stim \<times> VecChunk list \<times> nat) res"
    where
  "stim_serialize_chunk lz4c lz4d stim sel chunks =
     (if sel = ARTIX_SELECT_NONE then Inl Bad_select
      else if sel = ARTIX_SELECT_BOTH then Inl Bad_select
      else drain (Suc (unit_num_chunks sel stim)) (next_chunk lz4d sel) (serialize_vec_chunk lz4c) stim (chunks, 0))"

text \<open>The message that is written to the file, and the stimulus after its chunks were loaded.\<close>

definition stim_serialize_to_path ::
    "lz4_compressor \<Rightarrow> lz4_decompressor \<Rightarrow> stim \<Rightarrow> (SerialStim \<times> stim) res" where
  "stim_serialize_to_path lz4c lz4d stim =
     bindR (mapR serialize_pin (stim_pins stim)) (\<lambda>pins.
     let a1 = replicate (num_a1_vec_chunks stim) new_VecChunk;
         a2 = replicate (num_a2_vec_chunks stim) new_VecChunk;
         serialStim = \<lparr>ss_type = stimTypeRaw, numPins = stim_num_pins stim, ss_pins = pins,
           ss_numVecs = num_vecs stim, numUnrolledVecs = num_unrolled_vecs stim,
           numPaddingVecs = num_padding_vecs stim, numA1VecChunks = num_a1_vec_chunks stim,
           numA2VecChunks = num_a2_vec_chunks stim, a1VecChunks = a1, a2VecChunks = a2\<rparr>
     in
       bindR (if num_a1_vec_chunks stim > 0 then stim_serialize_chunk lz4c lz4d stim ARTIX_SELECT_A1 a1
              else Inr (stim, a1, 0)) (\<lambda>(stim, a1, saved1).
       bindR (if num_a2_vec_chunks stim > 0 then stim_serialize_chunk lz4c lz4d stim ARTIX_SELECT_A2 a2
              else Inr (stim, a2, 0)) (\<lambda>(stim, a2, saved2).
       Inr (serialStim\<lparr>a1VecChunks := a1, a2VecChunks := a2\<rparr>, stim))))"

section \<open>Reading\<close>

fun tag_of_serial :: "ProfileTags \<Rightarrow> profile_tags" where
  "tag_of_serial profileTagNone = PROFILE_TAG_NONE"
| "tag_of_serial profileTagCclk = PROFILE_TAG_CCLK"
| "tag_of_serial profileTagResetB = PROFILE_TAG_RESET_B"
| "tag_of_serial profileTagCsiB = PROFILE_TAG_CSI_B"
| "tag_of_serial profileTagRdwrB = PROFILE_TAG_RDWR_B"
| "tag_of_serial profileTagProgramB = PROFILE_TAG_PROGRAM_B"
| "tag_of_serial profileTagInitB = PROFILE_TAG_INIT_B"
| "tag_of_serial profileTagDone = PROFILE_TAG_DONE"
| "tag_of_serial profileTagData = PROFILE_TAG_DATA"
| "tag_of_serial profileTagGpio = PROFILE_TAG_GPIO"

fun select_of_serial :: "VecChunk_ArtixSelects \<Rightarrow> artix_selects" where
  "select_of_serial artixSelectNone = ARTIX_SELECT_NONE"
| "select_of_serial artixSelectA1 = ARTIX_SELECT_A1"
| "select_of_serial artixSelectA2 = ARTIX_SELECT_A2"

fun type_of_serial :: "StimTypes \<Rightarrow> stim_types" where
  "type_of_serial stimTypeNone = STIM_TYPE_NONE"
| "type_of_serial stimTypeRbt = STIM_TYPE_RBT"
| "type_of_serial stimTypeBin = STIM_TYPE_BIN"
| "type_of_serial stimTypeBit = STIM_TYPE_BIT"
| "type_of_serial stimTypeDots = STIM_TYPE_DOTS"
| "type_of_serial stimTypeRaw = STIM_TYPE_RAW"

definition deserialize_dest :: "ProfilePin \<Rightarrow> nat \<Rightarrow> profile_pin \<Rightarrow> profile_pin res" where
  "deserialize_dest p j pin =
     bindR (updR (dest_dut_ids pin) j (capn_at 0 (destDutIds p) j)) (\<lambda>ids.
     bindR (updR (dest_pin_names pin) j (Some (capn_at [] (destPinNames p) j))) (\<lambda>names.
     Inr (pin\<lparr>dest_dut_ids := ids, dest_pin_names := names\<rparr>)))"

definition deserialize_pin :: "ProfilePin \<Rightarrow> profile_pin res" where
  "deserialize_pin p =
     foldR (deserialize_dest p) [0..<numDests p]
       ((create_profile_pin (numDests p))
          \<lparr>pin_name := Some (pinName p), comp_name := Some (compName p), net_name := Some (netName p),
           net_alias := Some (netAlias p), tag := tag_of_serial (pp_tag p), tag_data := tagData p,
           dut_io_id := dutIoId p, num_dests := numDests p\<rparr>)"

definition deserialize_vec_chunk :: "VecChunk list \<Rightarrow> nat \<Rightarrow> vec_chunk res" where
  "deserialize_vec_chunk chunks i =
     (let v = capn_at new_VecChunk chunks i in
      bindR (create_vec_chunk i (select_of_serial (artixSelect v)) (numVecs v)) (\<lambda>chunk.
      Inr (chunk\<lparr>chunk_id := vc_id v, chunk_select := select_of_serial (artixSelect v),
        chunk_num_vecs := numVecs v, vec_data := None, vec_data_size := vecDataSize v,
        vec_data_compressed := vecData v\<rparr>)))"

definition deserialize_chunk :: "stim \<Rightarrow> artix_selects \<Rightarrow> SerialStim \<Rightarrow> stim res" where
  "deserialize_chunk stim sel s =
     (case sel of
        ARTIX_SELECT_A1 \<Rightarrow>
          bindR (mapR (deserialize_vec_chunk (a1VecChunks s)) [0..<num_a1_vec_chunks stim]) (\<lambda>cs.
          Inr (stim\<lparr>a1_vec_chunks := cs\<rparr>))
      | ARTIX_SELECT_A2 \<Rightarrow>
          bindR (mapR (deserialize_vec_chunk (a2VecChunks s)) [0..<num_a2_vec_chunks stim]) (\<lambda>cs.
          Inr (stim\<lparr>a2_vec_chunks := cs\<rparr>))
      | _ \<Rightarrow> Inl Bad_select)"

text \<open>\<open>decode\<close> is what the Cap'n Proto library reads from the bytes of a file, if it accepts them.\<close>

type_synonym capn_decoder = "u8 list \<Rightarrow> SerialStim option"

definition stim_deserialize :: "capn_decoder \<Rightarrow> stim \<Rightarrow> stim res" where
  "stim_deserialize decode stim =
     (if \<not> is_open stim then Inl Bad_state
      else
        (case decode (take (file_size stim) (map_data stim)) of
           None \<Rightarrow> Inl Bad_format
         | Some s \<Rightarrow>
             bindR (mapR (\<lambda>i. deserialize_pin (capn_at new_ProfilePin (ss_pins s) i)) [0..<numPins s]) (\<lambda>pins.
             let stim = stim\<lparr>stim_type := type_of_serial (ss_type s), stim_pins := pins,
                   num_vecs := ss_numVecs s, num_unrolled_vecs := numUnrolledVecs s,
                   num_padding_vecs := numPaddingVecs s, num_a1_vec_chunks := numA1VecChunks s,
                   num_a2_vec_chunks := numA2VecChunks s\<rparr>
             in
               bindR (if num_a1_vec_chunks stim > 0 then deserialize_chunk stim ARTIX_SELECT_A1 s
                      else Inr stim) (\<lambda>stim.
               if num_a2_vec_chunks stim > 0 then deserialize_chunk stim ARTIX_SELECT_A2 s
               else Inr stim))))"

section \<open>Pins\<close>

lemma tag_roundtrip [simp]: "tag_of_serial (serial_tag t) = t"
  by (cases t) simp_all

lemma select_roundtrip [simp]: "sel \<noteq> ARTIX_SELECT_BOTH \<Longrightarrow> select_of_serial (select_to_serial sel) = sel"
  by (cases sel) (simp_all add: select_to_serial_def)

text \<open>A successful copy is complete.\<close>

lemma copy_dests_names:
  assumes "foldR (copy_dest c) [0..<k] q = Inr q'" and "i < k"
  shows "dest_pin_names q' ! i \<noteq> None"
  using assms
proof (induction k arbitrary: q')
  case 0
  then show ?case by simp
next
  case (Suc k)
  then obtain r where r: "foldR (copy_dest c) [0..<k] q = Inr r" "copy_dest c k r = Inr q'"
    by (auto simp: foldR_append bindR_Inr_iff)
  from r(2) have "k < length (dest_pin_names r)" "dest_pin_names q' = (dest_pin_names r)[k := dest_pin_names c ! k]"
    "dest_pin_names c ! k \<noteq> None" by (auto simp: copy_dest_def bindR_Inr_iff)
  with Suc.IH [OF r(1)] Suc.prems(2) show ?case by (cases "i = k") (simp_all add: nth_list_update)
qed

lemma copied_pin_wf:
  assumes "create_profile_pin_from_pin p = Inr q"
  shows "pin_wf q"
proof -
  let ?n = "num_dests p"
  from assms obtain q0 where q0: "foldR (copy_dest p) [0..<?n] q0 = Inr q"
    "length (dest_dut_ids q0) = ?n" "length (dest_pin_names q0) = ?n" "num_dests q0 = ?n"
    "pin_name q0 \<noteq> None" "comp_name q0 \<noteq> None" "net_name q0 \<noteq> None" "net_alias q0 \<noteq> None"
    by (auto simp: create_profile_pin_from_pin_def create_profile_pin_def bindR_Inr_iff)
  let ?P = "\<lambda>q. num_dests q = ?n \<and> pin_name q \<noteq> None \<and> comp_name q \<noteq> None \<and> net_name q \<noteq> None \<and> net_alias q \<noteq> None"
  have "?P q"
    by (rule foldR_inv [where P = ?P, OF q0(1)]) (use q0 in \<open>auto simp: copy_dest_def bindR_Inr_iff\<close>)
  moreover have "length (dest_dut_ids q) = ?n" "length (dest_pin_names q) = ?n"
    using copy_dests_defined [OF q0(1)] q0(2,3) by simp_all
  moreover from this have "None \<notin> set (dest_pin_names q)"
    using copy_dests_names [OF q0(1)] by (auto simp: in_set_conv_nth)
  ultimately show ?thesis by (simp add: pin_wf_def)
qed

lemma deserialize_dests:
  assumes "k \<le> n" and "length (dest_dut_ids pin) = n" and "length (dest_pin_names pin) = n"
    and "length (destDutIds p) = n" and "length (destPinNames p) = n"
  shows "foldR (deserialize_dest p) [0..<k] pin =
    Inr (pin\<lparr>dest_dut_ids := take k (destDutIds p) @ drop k (dest_dut_ids pin),
      dest_pin_names := take k (map Some (destPinNames p)) @ drop k (dest_pin_names pin)\<rparr>)"
  using assms(1)
proof (induction k)
  case 0
  then show ?case by simp
next
  case (Suc k)
  then have k: "k < length (destDutIds p)" "k < length (map Some (destPinNames p))" using assms by simp_all
  have "take (Suc k) (destDutIds p) @ drop (Suc k) (dest_dut_ids pin) =
      (take k (destDutIds p) @ drop k (dest_dut_ids pin))[k := destDutIds p ! k]"
    "take (Suc k) (map Some (destPinNames p)) @ drop (Suc k) (dest_pin_names pin) =
      (take k (map Some (destPinNames p)) @ drop k (dest_pin_names pin))[k := map Some (destPinNames p) ! k]"
    using take_Suc_update [OF k(1), of "dest_dut_ids pin"] take_Suc_update [OF k(2), of "dest_pin_names pin"]
      assms by simp_all
  with Suc.IH k assms Suc.prems show ?case
    by (simp add: foldR_append deserialize_dest_def capn_at_def updR_def)
qed

lemma pin_roundtrip:
  assumes "pin_wf p"
  shows "\<exists>q. serialize_pin p = Inr q \<and> deserialize_pin q = Inr p"
proof -
  let ?n = "num_dests p"
  from assms obtain a b c d where s: "pin_name p = Some a" "comp_name p = Some b" "net_name p = Some c"
    "net_alias p = Some d" by (auto simp: pin_wf_def)
  have len: "length (dest_dut_ids p) = ?n" "length (dest_pin_names p) = ?n"
    and names: "None \<notin> set (dest_pin_names p)" using assms by (simp_all add: pin_wf_def)
  have name: "dest_pin_names p ! i = Some (the (dest_pin_names p ! i))" if "i < ?n" for i
  proof -
    have "dest_pin_names p ! i \<in> set (dest_pin_names p)" using that len(2) by simp
    with names have "dest_pin_names p ! i \<noteq> None" by metis
    then show ?thesis by simp
  qed
  define ds where "ds = map (\<lambda>j. (dest_dut_ids p ! j, the (dest_pin_names p ! j))) [0..<?n]"
  have dests: "mapR (serialize_dest p) [0..<?n] = Inr ds"
    unfolding ds_def
  proof (rule mapR_all)
    fix j assume "j \<in> set [0..<?n]"
    then have j: "j < ?n" by simp
    have "chars_to_text (dest_pin_names p ! j) = Inr (the (dest_pin_names p ! j))"
      unfolding chars_to_text_def derefR_Inr_iff by (rule name [OF j])
    with j len show "serialize_dest p j = Inr (dest_dut_ids p ! j, the (dest_pin_names p ! j))"
      by (simp add: serialize_dest_def nthR_def)
  qed
  have ids: "map fst ds = dest_dut_ids p" "map Some (map snd ds) = dest_pin_names p"
    using len name by (auto simp: ds_def o_def intro!: nth_equalityI)
  define q where "q = \<lparr>pinName = a, compName = b, netName = c, netAlias = d, pp_tag = serial_tag (tag p),
    tagData = tag_data p, dutIoId = dut_io_id p, numDests = ?n, destDutIds = map fst ds, destPinNames = map snd ds\<rparr>"
  have q: "serialize_pin p = Inr q"
    using dests by (simp add: serialize_pin_def s chars_to_text_def q_def)
  have lens: "length (destDutIds q) = ?n" "length (destPinNames q) = ?n" by (simp_all add: q_def ds_def)
  have "deserialize_pin q = Inr p"
    unfolding deserialize_pin_def
    by (subst deserialize_dests [where n = ?n])
      (use ids s len lens in \<open>simp_all add: q_def create_profile_pin_def\<close>)
  with q show ?thesis by blast
qed

section \<open>The chunks of a raw stimulus\<close>

text \<open>A chunk as it is read back: not loaded, with the compressed bytes of its vectors.\<close>

definition raw_chunk :: "lz4_decompressor \<Rightarrow> artix_selects \<Rightarrow> u8 list \<Rightarrow> vec_chunk \<Rightarrow> bool" where
  "raw_chunk lz4d sel bs c \<longleftrightarrow>
     chunk_select c = sel \<and> cur_vec_id c = 0 \<and> vec_data c = None \<and> \<not> is_loaded c \<and> \<not> is_filled c \<and>
     vec_data_size c = length bs \<and> bs \<noteq> [] \<and>
     (\<exists>src. vec_data_compressed c = Some src \<and> src \<noteq> [] \<and> lz4d src (length bs) = Some bs)"

definition loaded_raw :: "u8 list \<Rightarrow> vec_chunk \<Rightarrow> vec_chunk" where
  "loaded_raw bs c = c\<lparr>vec_data := Some bs, is_loaded := True\<rparr>"

definition raw_stim :: "lz4_decompressor \<Rightarrow> artix_selects \<Rightarrow> u8 list list \<Rightarrow> stim \<Rightarrow> bool" where
  "raw_stim lz4d sel bss st \<longleftrightarrow>
     one_unit sel \<and> stim_type st = STIM_TYPE_RAW \<and> unit_cur sel st = -1 \<and> unit_cur (other_unit sel) st < 0 \<and>
     unit_num_chunks sel st = length bss \<and> bss \<noteq> [] \<and> length bss \<le> 32 \<and>
     list_all2 (raw_chunk lz4d sel) bss (unit_chunks sel st)"

definition raw_inv ::
    "lz4_decompressor \<Rightarrow> artix_selects \<Rightarrow> u8 list list \<Rightarrow> stim \<Rightarrow> nat \<Rightarrow> stim \<Rightarrow> bool" where
  "raw_inv lz4d sel bss s0 k st \<longleftrightarrow>
     raw_stim lz4d sel bss s0 \<and> other_kept sel s0 st \<and> stim_type st = STIM_TYPE_RAW \<and>
     unit_num_chunks sel st = length bss \<and> unit_cur sel st = int k - 1 \<and> unit_cur (other_unit sel) st < 0 \<and>
     unit_chunks sel st = (if k = 0 then unit_chunks sel s0
       else (unit_chunks sel s0)[k - 1 := loaded_raw (bss ! (k - 1)) (unit_chunks sel s0 ! (k - 1))])"

definition raw_done :: "artix_selects \<Rightarrow> stim \<Rightarrow> stim \<Rightarrow> bool" where
  "raw_done sel s0 st \<longleftrightarrow>
     other_kept sel s0 st \<and> stim_type st = STIM_TYPE_RAW \<and> unit_cur sel st = -1 \<and>
     unit_chunks sel st = unit_chunks sel s0 \<and> unit_num_chunks sel st = unit_num_chunks sel s0"

lemma raw_stimD:
  assumes "raw_stim lz4d sel bss st"
  shows "sel = ARTIX_SELECT_A1 \<or> sel = ARTIX_SELECT_A2" and "length (unit_chunks sel st) = length bss"
    and "0 < length bss" and "length bss \<le> 32"
    and "k < length bss \<Longrightarrow> raw_chunk lz4d sel (bss ! k) (unit_chunks sel st ! k)"
  using assms by (auto simp: raw_stim_def one_unit_def list_all2_conv_all_nth)

lemma raw_fill:
  assumes "raw_chunk lz4d sel bs c" and "one_unit sel" and "stim_type st = STIM_TYPE_RAW"
  shows "stim_fill_chunk lz4d st (alloc_chunk c) = Inr (st, loaded_raw bs c)"
  using assms by (auto simp: stim_fill_chunk_def raw_chunk_def alloc_chunk_def loaded_raw_def is_last_chunk_def
      stim_decompress_vec_chunk_def blitR_def one_unit_def)

lemma unload_loaded_raw: "raw_chunk lz4d sel bs c \<Longrightarrow> stim_unload_chunk (loaded_raw bs' c) = c"
  by (cases c) (simp add: raw_chunk_def loaded_raw_def stim_unload_chunk_def)

lemma raw_unload_current:
  assumes "raw_inv lz4d sel bss s0 k st" and "k \<le> length bss"
  shows "\<exists>st'. unload_current sel st = Inr st' \<and> unit_chunks sel st' = unit_chunks sel s0 \<and>
    stim_type st' = STIM_TYPE_RAW \<and> unit_num_chunks sel st' = length bss \<and>
    unit_cur sel st' = int k - 1 \<and> unit_cur (other_unit sel) st' < 0 \<and> other_kept sel s0 st'"
proof (cases k)
  case 0
  then show ?thesis using assms(1) by (simp add: unload_current_def raw_inv_def)
next
  case (Suc l)
  from assms(1) have raw: "raw_stim lz4d sel bss s0" by (simp add: raw_inv_def)
  note D = raw_stimD [OF raw]
  have l: "l < length bss" using assms(2) Suc by simp
  with D(4) assms(1) Suc have cur: "u32_of_int (unit_cur sel st) = l" "l \<noteq> u32_of_int (-1)"
    by (simp_all add: raw_inv_def)
  have chunks: "unit_chunks sel st = (unit_chunks sel s0)[l := loaded_raw (bss ! l) (unit_chunks sel s0 ! l)]"
    using assms(1) Suc by (simp add: raw_inv_def)
  have "unload_current sel st = Inr (set_unit_chunks sel (unit_chunks sel s0) st)"
    using cur l D(2) unload_loaded_raw [OF D(5) [OF l]] by (simp add: unload_current_def chunks nthR_def)
  then show ?thesis using assms(1) Suc by (simp add: raw_inv_def)
qed

lemma raw_next_id:
  assumes "unit_cur sel st = int k - 1" and "unit_num_chunks sel st = n" and "0 < n" and "n \<le> 32" and "k \<le> n"
  shows "next_chunk_id sel st = (if k = n then None else Some k)"
proof (cases k)
  case 0
  have "sub32 n (Suc 0) = n - Suc 0" by (rule sub32_le) (use assms in linarith)+
  then show ?thesis using 0 assms by (auto simp: next_chunk_id_def wrap32_def)
next
  case (Suc l)
  have "sub32 n (Suc 0) = n - Suc 0" by (rule sub32_le) (use assms in linarith)+
  then show ?thesis using Suc assms by (auto simp: next_chunk_id_def)
qed

interpretation raw_chunks: item_source "next_chunk lz4d sel" "raw_inv lz4d sel bss s0"
  "\<lambda>k. loaded_raw (bss ! k) (unit_chunks sel s0 ! k)" "length bss" "raw_done sel s0"
  for lz4d sel bss s0
proof (unfold_locales)
  fix k st
  assume inv: "raw_inv lz4d sel bss s0 k st" and k: "k < length bss"
  from raw_unload_current [OF inv] k obtain st1 where st1: "unload_current sel st = Inr st1"
    "unit_chunks sel st1 = unit_chunks sel s0" "stim_type st1 = STIM_TYPE_RAW" "unit_num_chunks sel st1 = length bss"
    "unit_cur sel st1 = int k - 1" "unit_cur (other_unit sel) st1 < 0" "other_kept sel s0 st1" by auto
  have raw: "raw_stim lz4d sel bss s0" using inv by (simp add: raw_inv_def)
  note D = raw_stimD [OF raw]
  have one: "one_unit sel" using raw by (simp add: raw_stim_def)
  let ?cs = "unit_chunks sel s0"
  let ?st2 = "set_unit_chunks sel (?cs[k := alloc_chunk (?cs ! k)]) (set_unit_cur sel (int k) st1)"
  have "next_chunk_id sel st1 = Some k" using raw_next_id [OF st1(5,4) D(3,4)] k by simp
  moreover have "stim_fill_chunk lz4d ?st2 (alloc_chunk (?cs ! k)) = Inr (?st2, loaded_raw (bss ! k) (?cs ! k))"
    by (rule raw_fill [OF D(5) [OF k] one]) (simp add: st1(3))
  ultimately have "stim_load_next_chunk lz4d st sel = Inr (Some k,
      set_unit_chunks sel (?cs[k := loaded_raw (bss ! k) (?cs ! k)]) ?st2)"
    using inv st1 D(1,2) k by (auto simp: stim_load_next_chunk_def raw_inv_def nthR_def Let_def)
  then show "\<exists>st'. next_chunk lz4d sel st = Inr (Some (loaded_raw (bss ! k) (?cs ! k)), st') \<and>
      raw_inv lz4d sel bss s0 (Suc k) st'"
    using inv st1 D(2) k by (simp add: next_chunk_def nthR_def raw_inv_def)
next
  fix st assume inv: "raw_inv lz4d sel bss s0 (length bss) st"
  from raw_unload_current [OF inv order_refl] obtain st1 where st1: "unload_current sel st = Inr st1"
    "unit_chunks sel st1 = unit_chunks sel s0" "stim_type st1 = STIM_TYPE_RAW" "unit_num_chunks sel st1 = length bss"
    "unit_cur sel st1 = int (length bss) - 1" "unit_cur (other_unit sel) st1 < 0" "other_kept sel s0 st1" by auto
  have raw: "raw_stim lz4d sel bss s0" using inv by (simp add: raw_inv_def)
  note D = raw_stimD [OF raw]
  have "next_chunk_id sel st1 = None" using raw_next_id [OF st1(5,4) D(3,4) order_refl] by simp
  then have "stim_load_next_chunk lz4d st sel = Inr (None, set_unit_cur sel (-1) st1)"
    using inv st1 D(1) by (auto simp: stim_load_next_chunk_def raw_inv_def)
  then show "\<exists>st'. next_chunk lz4d sel st = Inr (None, st') \<and> raw_done sel s0 st'"
    using st1 raw by (simp add: next_chunk_def raw_done_def raw_stim_def)
qed

lemma raw_stim_inv: "raw_stim lz4d sel bss s0 \<Longrightarrow> raw_inv lz4d sel bss s0 0 s0"
  by (simp add: raw_inv_def raw_stim_def)

text \<open>What a raw stimulus serves.\<close>

definition raw_items :: "u8 list list \<Rightarrow> stim \<Rightarrow> artix_selects \<Rightarrow> vec_chunk list" where
  "raw_items bss st u = map (\<lambda>k. loaded_raw (bss ! k) (unit_chunks u st ! k)) [0..<length bss]"

lemma raw_yields:
  assumes "raw_stim lz4d u bss st"
  shows "\<exists>st'. yields (next_chunk lz4d u) st (raw_items bss st u) st' \<and> raw_done u st st'"
  using raw_chunks.yields_from [OF raw_stim_inv [OF assms] le0] by (simp add: raw_items_def)

lemma raw_second:
  assumes "raw_stim lz4d ARTIX_SELECT_A1 bs1 s0" and "raw_stim lz4d ARTIX_SELECT_A2 bs2 s0"
    and "raw_done ARTIX_SELECT_A1 s0 st"
  shows "raw_stim lz4d ARTIX_SELECT_A2 bs2 st" and "unit_chunks ARTIX_SELECT_A2 st = unit_chunks ARTIX_SELECT_A2 s0"
  using assms by (simp_all add: raw_stim_def raw_done_def other_kept_def)

lemma raw_done_nums: "raw_done u s0 st \<Longrightarrow> one_unit u \<Longrightarrow> unit_num_chunks w st = unit_num_chunks w s0"
  by (cases u; cases w) (simp_all add: raw_done_def other_kept_def one_unit_def)

lemma raw_units_serve:
  assumes "\<forall>u\<in>set (select_units asel). raw_stim lz4d u (bss u) st"
  shows "serves lz4d (select_units asel) st (map (\<lambda>u. raw_items (bss u) st u) (select_units asel))"
proof -
  let ?A1 = ARTIX_SELECT_A1 and ?A2 = ARTIX_SELECT_A2
  have num: "length (raw_items bs st u) = unit_num_chunks u st" if "raw_stim lz4d u bs st" for u bs st
    using that by (simp add: raw_items_def raw_stim_def)
  show ?thesis
  proof (cases asel)
    case ARTIX_SELECT_BOTH
    with assms have units: "raw_stim lz4d ?A1 (bss ?A1) st" "raw_stim lz4d ?A2 (bss ?A2) st" by simp_all
    from raw_yields [OF units(1)] obtain st1 where 1: "yields (next_chunk lz4d ?A1) st (raw_items (bss ?A1) st ?A1) st1"
      "raw_done ?A1 st st1" by blast
    note second = raw_second [OF units 1(2)]
    have same: "raw_items (bss ?A2) st1 ?A2 = raw_items (bss ?A2) st ?A2" unfolding raw_items_def second(2) ..
    from raw_yields [OF second(1)] obtain st2 where
      2: "yields (next_chunk lz4d ?A2) st1 (raw_items (bss ?A2) st ?A2) st2" "raw_done ?A2 st1 st2"
      unfolding same by blast
    have one: "one_unit ?A1" "one_unit ?A2" by (simp_all add: one_unit_def)
    have "serves lz4d [?A2] st1 [raw_items (bss ?A2) st ?A2]"
      by (rule servesI [OF 2(1) raw_done_nums [OF 2(2) one(2)]]) (use num [OF second(1), unfolded same] in auto)
    from servesI [OF 1(1) raw_done_nums [OF 1(2) one(1)] _ this] num [OF units(1)] ARTIX_SELECT_BOTH
    show ?thesis by simp
  next
    case ARTIX_SELECT_A1
    with assms have u: "raw_stim lz4d ?A1 (bss ?A1) st" by simp
    show ?thesis using raw_yields [OF u] num [OF u] raw_done_nums ARTIX_SELECT_A1
      by (fastforce simp: one_unit_def)
  next
    case ARTIX_SELECT_A2
    with assms have u: "raw_stim lz4d ?A2 (bss ?A2) st" by simp
    show ?thesis using raw_yields [OF u] num [OF u] raw_done_nums ARTIX_SELECT_A2
      by (fastforce simp: one_unit_def)
  qed simp
qed

lemma raw_items_bytes:
  assumes "raw_stim lz4d u bss st"
  shows "chunks_bytes (raw_items bss st u) = concat bss"
proof -
  have "map (\<lambda>c. the (vec_data c)) (raw_items bss st u) = map (\<lambda>k. bss ! k) [0..<length bss]"
    by (simp add: raw_items_def loaded_raw_def o_def)
  then show ?thesis by (simp add: chunks_bytes_def map_nth)
qed

lemma raw_items_whole:
  assumes "raw_stim lz4d u bss st" and "\<forall>bs\<in>set bss. length bs mod 1024 = 0 \<and> length bs \<le> STIM_CHUNK_SIZE"
    and "c \<in> set (raw_items bss st u)"
  shows "whole_chunk c"
proof -
  from assms(3) obtain k where k: "k < length bss" "c = loaded_raw (bss ! k) (unit_chunks u st ! k)"
    by (auto simp: raw_items_def)
  with assms(2) raw_stimD(5) [OF assms(1) k(1)] show ?thesis
    by (auto simp: whole_chunk_def loaded_raw_def raw_chunk_def)
qed

section \<open>The archive of one unit\<close>

text \<open>What the code relies on: compression of a block that is not empty and not larger than LZ4 takes
  yields some bytes, from which the block is restored when its size is known.\<close>

definition lz4_restores :: "lz4_compressor \<Rightarrow> lz4_decompressor \<Rightarrow> bool" where
  "lz4_restores lz4c lz4d \<longleftrightarrow>
     (\<forall>bs. bs \<noteq> [] \<and> length bs \<le> 0x7e000000 \<longrightarrow> lz4c bs \<noteq> [] \<and> lz4d (lz4c bs) (length bs) = Some bs)"

text \<open>The message of a filled chunk.\<close>

definition archived :: "lz4_compressor \<Rightarrow> vec_chunk \<Rightarrow> VecChunk" where
  "archived lz4c c = \<lparr>vc_id = chunk_id c, artixSelect = select_to_serial (chunk_select c),
     numVecs = chunk_num_vecs c, vecData = Some (lz4c (the (vec_data c))), vecDataSize = vec_data_size c\<rparr>"

lemma whole_chunkE:
  assumes "whole_chunk c"
  obtains bs where "vec_data c = Some bs" and "length bs = vec_data_size c" and "bs \<noteq> []"
    and "vec_data_size c mod 1024 = 0" and "0 < vec_data_size c" and "vec_data_size c \<le> STIM_CHUNK_SIZE"
proof -
  from assms obtain bs where bs: "vec_data c = Some bs" "length bs = vec_data_size c" "0 < vec_data_size c"
    unfolding whole_chunk_def by blast
  then have "bs \<noteq> []" by auto
  show thesis by (rule that) (use bs \<open>bs \<noteq> []\<close> assms in \<open>simp_all add: whole_chunk_def\<close>)
qed

lemma serialize_vec_chunk_run:
  assumes "whole_chunk c" and "chunk_select c \<noteq> ARTIX_SELECT_BOTH" and "lz4_restores lz4c lz4d"
  shows "\<exists>saved'. serialize_vec_chunk lz4c c (chunks, saved) = Inr (chunks[chunk_id c := archived lz4c c], saved')"
proof -
  obtain bs where bs: "vec_data c = Some bs" "length bs = vec_data_size c" "bs \<noteq> []"
    "vec_data_size c \<le> STIM_CHUNK_SIZE" using whole_chunkE [OF assms(1)] .
  from bs(2,4) have "length bs \<le> 0x7e000000" "vec_data_size c < 2 ^ 32" by (simp_all add: STIM_CHUNK_SIZE_def)
  moreover from this have "lz4c bs \<noteq> []" using assms(3) bs(3) by (simp add: lz4_restores_def)
  ultimately show ?thesis
    using assms(2) bs(1,2) by (simp add: serialize_vec_chunk_def archived_def Let_def)
qed

lemma serialize_vec_chunks_run:
  assumes "\<And>k. k < n \<Longrightarrow> whole_chunk (f k) \<and> chunk_select (f k) \<noteq> ARTIX_SELECT_BOTH \<and> chunk_id (f k) = k"
    and "lz4_restores lz4c lz4d" and "length chunks = n" and "k \<le> n"
  shows "\<exists>saved'. foldR (serialize_vec_chunk lz4c) (map f [0..<k]) (chunks, saved) =
    Inr (map (\<lambda>i. archived lz4c (f i)) [0..<k] @ drop k chunks, saved')"
  using assms(4)
proof (induction k)
  case 0
  then show ?case by simp
next
  case (Suc k)
  then obtain saved1 where 1: "foldR (serialize_vec_chunk lz4c) (map f [0..<k]) (chunks, saved) =
    Inr (map (\<lambda>i. archived lz4c (f i)) [0..<k] @ drop k chunks, saved1)" by auto
  have k: "k < n" using Suc.prems by simp
  from serialize_vec_chunk_run [OF _ _ assms(2)] assms(1) [OF k] obtain saved2 where
    2: "serialize_vec_chunk lz4c (f k) (map (\<lambda>i. archived lz4c (f i)) [0..<k] @ drop k chunks, saved1) =
      Inr ((map (\<lambda>i. archived lz4c (f i)) [0..<k] @ drop k chunks)[chunk_id (f k) := archived lz4c (f k)], saved2)"
    by blast
  have "(map (\<lambda>i. archived lz4c (f i)) [0..<k] @ drop k chunks)[k := archived lz4c (f k)] =
      map (\<lambda>i. archived lz4c (f i)) [0..<Suc k] @ drop (Suc k) chunks"
    using k assms(3) by (simp add: list_update_append flip: Cons_nth_drop_Suc)
  with 1 2 assms(1) [OF k] show ?case by (simp add: foldR_append)
qed

text \<open>Reading such a message back.\<close>

lemma deserialize_archived:
  assumes "whole_chunk c" and "one_unit (chunk_select c)" and "chunk_num_vecs c * 128 = vec_data_size c"
    and "lz4_restores lz4c lz4d" and "k < length ms" and "ms ! k = archived lz4c c"
  shows "\<exists>c'. deserialize_vec_chunk ms k = Inr c' \<and> raw_chunk lz4d (chunk_select c) (the (vec_data c)) c' \<and>
    chunk_id c' = chunk_id c \<and> chunk_num_vecs c' = chunk_num_vecs c"
proof -
  obtain bs where bs: "vec_data c = Some bs" "length bs = vec_data_size c" "bs \<noteq> []"
    "vec_data_size c mod 1024 = 0" "0 < vec_data_size c" "vec_data_size c \<le> STIM_CHUNK_SIZE"
    using assms(1) by (rule whole_chunkE)
  have "length bs \<le> 0x7e000000" using bs(2,6) by (simp add: STIM_CHUNK_SIZE_def)
  with assms(4) bs(3) have lz4: "lz4c bs \<noteq> []" "lz4d (lz4c bs) (length bs) = Some bs"
    unfolding lz4_restores_def by blast+
  have "chunk_num_vecs c * 128 mod (8 * 128) = chunk_num_vecs c mod 8 * 128" by (rule mod_mult_mult2)
  then have "chunk_num_vecs c mod 8 = 0" using bs(4) assms(3) by simp
  moreover have "0 < chunk_num_vecs c" using bs(5) assms(3) by (cases "chunk_num_vecs c") simp_all
  moreover have "chunk_select c \<noteq> ARTIX_SELECT_BOTH" "chunk_select c \<noteq> ARTIX_SELECT_NONE"
    using assms(2) by (auto simp: one_unit_def)
  ultimately show ?thesis
    using bs lz4 assms(5,6)
    by (simp add: deserialize_vec_chunk_def capn_at_def archived_def create_vec_chunk_def raw_chunk_def)
qed

section \<open>The archive of a pattern\<close>

text \<open>The chunks a unit delivers, as the archive needs them.\<close>

definition unit_delivers :: "artix_selects \<Rightarrow> vec_chunk list \<Rightarrow> bool" where
  "unit_delivers u cs \<longleftrightarrow> one_unit u \<and> cs \<noteq> [] \<and> length cs \<le> 32 \<and>
     (\<forall>k<length cs. whole_chunk (cs ! k) \<and> chunk_select (cs ! k) = u \<and> chunk_id (cs ! k) = k \<and>
       chunk_num_vecs (cs ! k) * 128 = vec_data_size (cs ! k))"

lemma filled_unit_delivers:
  assumes "dots_stim u vs d st"
  shows "unit_delivers u (map (filled_chunk u vs d st) [0..<length (unit_chunks u st)])"
proof -
  from assms obtain nall where "chunk_plan u nall (unit_chunks u st)" "unit_chunks u st \<noteq> []"
    by (auto simp: dots_stim_def)
  moreover have "one_unit u" using assms by (cases u) (auto simp: dots_stim_def pattern_ok_def one_unit_def)
  ultimately show ?thesis
    using filled_chunk_whole [OF assms]
    by (simp add: unit_delivers_def chunk_plan_def filled_chunk_def STIM_VEC_SIZE_def)
qed

lemma serialize_unit:
  assumes "unit_delivers u cs" and "yields (next_chunk lz4d u) st cs st'" and "length cs = unit_num_chunks u st"
    and "lz4_restores lz4c lz4d"
  shows "\<exists>saved. stim_serialize_chunk lz4c lz4d st u (replicate (length cs) new_VecChunk) =
    Inr (st', map (archived lz4c) cs, saved)"
proof -
  let ?new = "replicate (length cs) new_VecChunk"
  have "one_unit u" and cs: "\<And>k. k < length cs \<Longrightarrow> whole_chunk (cs ! k) \<and>
      chunk_select (cs ! k) \<noteq> ARTIX_SELECT_BOTH \<and> chunk_id (cs ! k) = k"
    using assms(1) by (auto simp: unit_delivers_def one_unit_def)
  have "\<exists>saved. foldR (serialize_vec_chunk lz4c) (map ((!) cs) [0..<length cs]) (?new, 0) =
      Inr (map (\<lambda>i. archived lz4c (cs ! i)) [0..<length cs] @ drop (length cs) ?new, saved)"
    by (rule serialize_vec_chunks_run [OF cs assms(4) length_replicate order_refl])
  moreover have "map (\<lambda>i. archived lz4c (cs ! i)) [0..<length cs] = map (archived lz4c) cs"
    by (rule nth_equalityI) simp_all
  ultimately obtain saved where "foldR (serialize_vec_chunk lz4c) cs (?new, 0) = Inr (map (archived lz4c) cs, saved)"
    by (auto simp: map_nth)
  with drain_yields [OF assms(2), of "Suc (unit_num_chunks u st)" "serialize_vec_chunk lz4c" "(?new, 0)"]
    assms(3) \<open>one_unit u\<close> show ?thesis
    by (auto simp: stim_serialize_chunk_def one_unit_def)
qed

text \<open>The message that is written.\<close>

definition archive_message ::
    "lz4_compressor \<Rightarrow> stim \<Rightarrow> ProfilePin list \<Rightarrow> artix_selects \<Rightarrow> (artix_selects \<Rightarrow> vec_chunk list) \<Rightarrow> SerialStim" where
  "archive_message lz4c st pins asel cs =
     (let units = (\<lambda>u. if u \<in> set (select_units asel) then map (archived lz4c) (cs u) else []) in
      \<lparr>ss_type = stimTypeRaw, numPins = stim_num_pins st, ss_pins = pins, ss_numVecs = num_vecs st,
       numUnrolledVecs = num_unrolled_vecs st, numPaddingVecs = num_padding_vecs st,
       numA1VecChunks = num_a1_vec_chunks st, numA2VecChunks = num_a2_vec_chunks st,
       a1VecChunks = units ARTIX_SELECT_A1, a2VecChunks = units ARTIX_SELECT_A2\<rparr>)"

text \<open>A stimulus that serves exactly the units of a select.\<close>

definition serves_select ::
    "lz4_decompressor \<Rightarrow> artix_selects \<Rightarrow> (artix_selects \<Rightarrow> vec_chunk list) \<Rightarrow> stim \<Rightarrow> bool" where
  "serves_select lz4d asel cs st \<longleftrightarrow>
     serves lz4d (select_units asel) st (map cs (select_units asel)) \<and>
     (\<forall>u. one_unit u \<longrightarrow> (if u \<in> set (select_units asel) then unit_delivers u (cs u) \<and> unit_num_chunks u st = length (cs u)
        else unit_num_chunks u st = 0))"

lemma serves_selectD:
  assumes "serves_select lz4d asel cs st"
  shows "num_a1_vec_chunks st = (if ARTIX_SELECT_A1 \<in> set (select_units asel) then length (cs ARTIX_SELECT_A1) else 0)"
    and "num_a2_vec_chunks st = (if ARTIX_SELECT_A2 \<in> set (select_units asel) then length (cs ARTIX_SELECT_A2) else 0)"
    and "u \<in> set (select_units asel) \<Longrightarrow> unit_delivers u (cs u)"
proof -
  note D = assms [unfolded serves_select_def, THEN conjunct2, rule_format]
  show "num_a1_vec_chunks st = (if ARTIX_SELECT_A1 \<in> set (select_units asel) then length (cs ARTIX_SELECT_A1) else 0)"
    using D [of ARTIX_SELECT_A1] by (simp add: one_unit_def split: if_splits)
  show "num_a2_vec_chunks st = (if ARTIX_SELECT_A2 \<in> set (select_units asel) then length (cs ARTIX_SELECT_A2) else 0)"
    using D [of ARTIX_SELECT_A2] by (simp add: one_unit_def split: if_splits)
  assume u: "u \<in> set (select_units asel)"
  then have "one_unit u" by (cases asel) (auto simp: one_unit_def)
  with D [of u] u show "unit_delivers u (cs u)" by simp
qed

lemma serialize_run:
  assumes "serves_select lz4d asel cs st" and "mapR serialize_pin (stim_pins st) = Inr pins"
    and "lz4_restores lz4c lz4d"
  shows "\<exists>st'. stim_serialize_to_path lz4c lz4d st = Inr (archive_message lz4c st pins asel cs, st')"
proof -
  let ?A1 = ARTIX_SELECT_A1 and ?A2 = ARTIX_SELECT_A2
  note num = serves_selectD(1,2) [OF assms(1)] and del = serves_selectD(3) [OF assms(1)]
  have serves: "serves lz4d (select_units asel) st (map cs (select_units asel))"
    using assms(1) by (simp add: serves_select_def)
  note defs = stim_serialize_to_path_def archive_message_def Let_def
  show ?thesis
  proof (cases asel)
    case ARTIX_SELECT_NONE
    with assms(2) num show ?thesis by (simp add: defs)
  next
    case ARTIX_SELECT_A1
    with serves obtain st1 where 1: "yields (next_chunk lz4d ?A1) st (cs ?A1) st1"
      "length (cs ?A1) = unit_num_chunks ?A1 st" and same: "\<forall>w. unit_num_chunks w st1 = unit_num_chunks w st" by auto
    have u: "unit_delivers ?A1 (cs ?A1)" using del ARTIX_SELECT_A1 by simp
    from serialize_unit [OF u 1 assms(3)] obtain saved where
      "stim_serialize_chunk lz4c lz4d st ?A1 (replicate (length (cs ?A1)) new_VecChunk) =
        Inr (st1, map (archived lz4c) (cs ?A1), saved)" by blast
    with assms(2) num u ARTIX_SELECT_A1 same [rule_format, of ?A1] same [rule_format, of ?A2] show ?thesis
      by (simp add: defs unit_delivers_def)
  next
    case ARTIX_SELECT_A2
    with serves obtain st1 where 1: "yields (next_chunk lz4d ?A2) st (cs ?A2) st1"
      "length (cs ?A2) = unit_num_chunks ?A2 st" and same: "\<forall>w. unit_num_chunks w st1 = unit_num_chunks w st" by auto
    have u: "unit_delivers ?A2 (cs ?A2)" using del ARTIX_SELECT_A2 by simp
    from serialize_unit [OF u 1 assms(3)] obtain saved where
      "stim_serialize_chunk lz4c lz4d st ?A2 (replicate (length (cs ?A2)) new_VecChunk) =
        Inr (st1, map (archived lz4c) (cs ?A2), saved)" by blast
    with assms(2) num u ARTIX_SELECT_A2 same [rule_format, of ?A1] same [rule_format, of ?A2] show ?thesis
      by (simp add: defs unit_delivers_def)
  next
    case ARTIX_SELECT_BOTH
    with serves obtain st1 st2 where 1: "yields (next_chunk lz4d ?A1) st (cs ?A1) st1"
      "length (cs ?A1) = unit_num_chunks ?A1 st" and 2: "yields (next_chunk lz4d ?A2) st1 (cs ?A2) st2"
      "length (cs ?A2) = unit_num_chunks ?A2 st1" by auto
    have u1: "unit_delivers ?A1 (cs ?A1)" and u2: "unit_delivers ?A2 (cs ?A2)"
      using del ARTIX_SELECT_BOTH by simp_all
    from serialize_unit [OF u1 1 assms(3)] serialize_unit [OF u2 2 assms(3)] obtain saved1 saved2 where
      "stim_serialize_chunk lz4c lz4d st ?A1 (replicate (length (cs ?A1)) new_VecChunk) =
        Inr (st1, map (archived lz4c) (cs ?A1), saved1)"
      "stim_serialize_chunk lz4c lz4d st1 ?A2 (replicate (length (cs ?A2)) new_VecChunk) =
        Inr (st2, map (archived lz4c) (cs ?A2), saved2)" by blast
    moreover have pos: "0 < length (cs ?A1)" "0 < length (cs ?A2)"
      using u1 u2 by (simp_all add: unit_delivers_def)
    moreover from pos(2) have "0 < num_a2_vec_chunks st1" unfolding 2(2) by simp
    ultimately show ?thesis using assms(2) num 2(2) ARTIX_SELECT_BOTH by (simp add: defs)
  qed
qed

text \<open>Reading the message back.\<close>

lemma deserialize_unit:
  assumes "unit_delivers u cs" and "lz4_restores lz4c lz4d"
  shows "\<exists>cs'. mapR (deserialize_vec_chunk (map (archived lz4c) cs)) [0..<length cs] = Inr cs' \<and>
    list_all2 (raw_chunk lz4d u) (map (\<lambda>c. the (vec_data c)) cs) cs'"
proof -
  have "\<exists>c'. deserialize_vec_chunk (map (archived lz4c) cs) k = Inr c' \<and> raw_chunk lz4d u (the (vec_data (cs ! k))) c'"
    if "k < length cs" for k
    using deserialize_archived [of "cs ! k" lz4c lz4d k "map (archived lz4c) cs"] assms that
    by (auto simp: unit_delivers_def)
  then obtain f where f: "\<And>k. k < length cs \<Longrightarrow> deserialize_vec_chunk (map (archived lz4c) cs) k = Inr (f k) \<and>
      raw_chunk lz4d u (the (vec_data (cs ! k))) (f k)" by metis
  have "mapR (deserialize_vec_chunk (map (archived lz4c) cs)) [0..<length cs] = Inr (map f [0..<length cs])"
    by (rule mapR_all) (simp add: f)
  moreover have "list_all2 (raw_chunk lz4d u) (map (\<lambda>c. the (vec_data c)) cs) (map f [0..<length cs])"
    using f by (simp add: list_all2_conv_all_nth)
  ultimately show ?thesis by blast
qed

lemma deserialize_pins:
  assumes "\<forall>p\<in>set ps. pin_wf p"
  shows "\<exists>qs. mapR serialize_pin ps = Inr qs \<and>
    mapR (\<lambda>i. deserialize_pin (capn_at new_ProfilePin qs i)) [0..<length ps] = Inr ps"
proof -
  from assms obtain f where f: "\<And>p. p \<in> set ps \<Longrightarrow> serialize_pin p = Inr (f p) \<and> deserialize_pin (f p) = Inr p"
    using pin_roundtrip by metis
  have "mapR serialize_pin ps = Inr (map f ps)" by (rule mapR_all) (simp add: f)
  moreover have "mapR (\<lambda>i. deserialize_pin (capn_at new_ProfilePin (map f ps) i)) [0..<length ps] =
      Inr (map ((!) ps) [0..<length ps])"
    by (rule mapR_all) (simp add: capn_at_def f)
  ultimately show ?thesis by (auto simp: map_nth)
qed

text \<open>The fields of a stimulus that the archive keeps.\<close>

definition same_stim :: "stim \<Rightarrow> stim \<Rightarrow> bool" where
  "same_stim st r \<longleftrightarrow>
     stim_pins r = stim_pins st \<and> num_vecs r = num_vecs st \<and> num_unrolled_vecs r = num_unrolled_vecs st \<and>
     num_padding_vecs r = num_padding_vecs st \<and> num_a1_vec_chunks r = num_a1_vec_chunks st \<and>
     num_a2_vec_chunks r = num_a2_vec_chunks st"

text \<open>A stimulus file that was opened and mapped, and not read yet.\<close>

definition opened :: "u8 list \<Rightarrow> stim \<Rightarrow> bool" where
  "opened bytes s0 \<longleftrightarrow> is_open s0 \<and> map_data s0 = bytes \<and> file_size s0 = length bytes \<and>
     cur_a1_vec_chunk_id s0 = -1 \<and> cur_a2_vec_chunk_id s0 = -1"

lemma deserialize_run:
  assumes "serves_select lz4d asel cs st" and "mapR serialize_pin (stim_pins st) = Inr qs"
    and "mapR (\<lambda>i. deserialize_pin (capn_at new_ProfilePin qs i)) [0..<length (stim_pins st)] = Inr (stim_pins st)"
    and "lz4_restores lz4c lz4d"
    and "opened bytes s0" and "decode bytes = Some (archive_message lz4c st qs asel cs)"
  shows "\<exists>r. stim_deserialize decode s0 = Inr r \<and> same_stim st r \<and>
    (\<forall>u\<in>set (select_units asel). raw_stim lz4d u (map (\<lambda>c. the (vec_data c)) (cs u)) r)"
proof -
  let ?A1 = ARTIX_SELECT_A1 and ?A2 = ARTIX_SELECT_A2 and ?m = "archive_message lz4c st qs asel cs"
  note num = serves_selectD(1,2) [OF assms(1)] and del = serves_selectD(3) [OF assms(1)]
  let ?units = "set (select_units asel)"
  let ?ms = "\<lambda>u. if u \<in> ?units then map (archived lz4c) (cs u) else []"
  have chunks: "\<exists>cs'. mapR (deserialize_vec_chunk (?ms u)) [0..<if u \<in> ?units then length (cs u) else 0] = Inr cs' \<and>
      (u \<in> ?units \<longrightarrow> list_all2 (raw_chunk lz4d u) (map (\<lambda>c. the (vec_data c)) (cs u)) cs')" for u
    using deserialize_unit [OF del assms(4), of u] by auto
  from chunks [of ?A1] obtain c1 where c1: "mapR (deserialize_vec_chunk (?ms ?A1)) [0..<num_a1_vec_chunks st] = Inr c1"
    "?A1 \<in> ?units \<longrightarrow> list_all2 (raw_chunk lz4d ?A1) (map (\<lambda>c. the (vec_data c)) (cs ?A1)) c1" unfolding num by blast
  from chunks [of ?A2] obtain c2 where c2: "mapR (deserialize_vec_chunk (?ms ?A2)) [0..<num_a2_vec_chunks st] = Inr c2"
    "?A2 \<in> ?units \<longrightarrow> list_all2 (raw_chunk lz4d ?A2) (map (\<lambda>c. the (vec_data c)) (cs ?A2)) c2" unfolding num by blast
  define r0 where "r0 = s0\<lparr>stim_type := STIM_TYPE_RAW, stim_pins := stim_pins st, num_vecs := num_vecs st,
    num_unrolled_vecs := num_unrolled_vecs st, num_padding_vecs := num_padding_vecs st,
    num_a1_vec_chunks := num_a1_vec_chunks st, num_a2_vec_chunks := num_a2_vec_chunks st\<rparr>"
  define r1 where "r1 = (if num_a1_vec_chunks st > 0 then r0\<lparr>a1_vec_chunks := c1\<rparr> else r0)"
  define r where "r = (if num_a2_vec_chunks st > 0 then r1\<lparr>a2_vec_chunks := c2\<rparr> else r1)"
  have fields: "ss_type ?m = stimTypeRaw" "numPins ?m = length (stim_pins st)" "ss_pins ?m = qs"
    "ss_numVecs ?m = num_vecs st" "numUnrolledVecs ?m = num_unrolled_vecs st" "numPaddingVecs ?m = num_padding_vecs st"
    "numA1VecChunks ?m = num_a1_vec_chunks st" "numA2VecChunks ?m = num_a2_vec_chunks st"
    "a1VecChunks ?m = ?ms ?A1" "a2VecChunks ?m = ?ms ?A2"
    by (simp_all add: archive_message_def stim_num_pins_def)
  have d1: "deserialize_chunk r0 ?A1 ?m = Inr (r0\<lparr>a1_vec_chunks := c1\<rparr>)"
    using c1(1) by (simp add: deserialize_chunk_def fields r0_def)
  have d2: "deserialize_chunk r1 ?A2 ?m = Inr (r1\<lparr>a2_vec_chunks := c2\<rparr>)"
    using c2(1) by (simp add: deserialize_chunk_def fields r0_def r1_def)
  have n1: "num_a1_vec_chunks r0 = num_a1_vec_chunks st" "num_a2_vec_chunks r1 = num_a2_vec_chunks st"
    by (simp_all add: r0_def r1_def)
  have "stim_deserialize decode s0 =
      bindR (if num_a1_vec_chunks r0 > 0 then deserialize_chunk r0 ?A1 ?m else Inr r0) (\<lambda>s.
        if num_a2_vec_chunks s > 0 then deserialize_chunk s ?A2 ?m else Inr s)"
    using assms(3,5,6) by (simp add: stim_deserialize_def opened_def fields r0_def)
  also have "\<dots> = bindR (Inr r1) (\<lambda>s. if num_a2_vec_chunks s > 0 then deserialize_chunk s ?A2 ?m else Inr s)"
    unfolding d1 n1 by (simp add: r1_def)
  also have "\<dots> = Inr r" using d2 n1 by (simp add: r_def)
  finally have run: "stim_deserialize decode s0 = Inr r" .
  have same: "same_stim st r" "stim_type r = STIM_TYPE_RAW" "cur_a1_vec_chunk_id r = -1" "cur_a2_vec_chunk_id r = -1"
    using assms(5) by (simp_all add: same_stim_def r_def r1_def r0_def opened_def)
  have "raw_stim lz4d u (map (\<lambda>c. the (vec_data c)) (cs u)) r" if u: "u \<in> ?units" for u
  proof -
    have d: "one_unit u" "cs u \<noteq> []" "length (cs u) \<le> 32" using del [OF u] by (simp_all add: unit_delivers_def)
    then have "u = ?A1 \<or> u = ?A2" by (simp add: one_unit_def)
    then show ?thesis
    proof
      assume 1: "u = ?A1"
      then have "num_a1_vec_chunks st = length (cs ?A1)" using num u by simp
      moreover from this 1 d have "0 < num_a1_vec_chunks st" by simp
      ultimately show ?thesis
        using 1 d c1(2) u same by (simp add: raw_stim_def same_stim_def) (simp add: r_def r1_def)
    next
      assume 2: "u = ?A2"
      then have "num_a2_vec_chunks st = length (cs ?A2)" using num u by simp
      moreover from this 2 d have "0 < num_a2_vec_chunks st" by simp
      ultimately show ?thesis
        using 2 d c2(2) u same by (simp add: raw_stim_def same_stim_def) (simp add: r_def)
    qed
  qed
  with run same(1) show ?thesis by blast
qed

text \<open>The pins of a stimulus are complete copies.\<close>

lemma stim_pins_wf:
  assumes "get_stim_by_dots profile dots = Inr st"
  shows "\<forall>p\<in>set (stim_pins st). pin_wf p"
proof -
  from assms obtain s0 ps nv nu where "init_stim s0 ps nv nu = Inr st"
    unfolding get_stim_by_dots_def Let_def by (auto simp: bindR_Inr_iff split: if_split_asm)
  from init_stim_parts [OF this] have copied: "mapR copy_stim_pin (take (wrap16 (length ps)) ps) = Inr (stim_pins st)"
    by blast
  have "pin_wf q" if "copy_stim_pin p = Inr q" for p q
    using that copied_pin_wf by (simp add: copy_stim_pin_def split: if_split_asm)
  with mapR_nth [OF copied] mapR_length [OF copied] show ?thesis by (auto simp: in_set_conv_nth) metis
qed

text \<open>The stimulus of a pattern serves the units of its pins.\<close>

lemma dots_serves_select:
  assumes "get_stim_by_dots profile dots = Inr st" and "get_artix_select_by_profile_pins (dots_pins dots) = Inr asel"
    and "\<forall>u\<in>set (select_units asel). dots_stim u vs d st"
  shows "serves_select lz4d asel (\<lambda>u. map (filled_chunk u vs d st) [0..<length (unit_chunks u st)]) st"
proof -
  from assms(1) obtain s0 nv nu where init: "init_stim s0 (dots_pins dots) nv nu = Inr st"
    unfolding get_stim_by_dots_def Let_def
    by (auto simp: bindR_Inr_iff get_num_unrolled_dots_vecs_def split: if_split_asm)
  have other: "unit_num_chunks u st = 0" if "one_unit u" "u \<notin> set (select_units asel)" for u
    using init_plan [OF init] assms(2) that by (cases asel) (auto simp: one_unit_def)
  have "unit_num_chunks u st = length (unit_chunks u st)" if "u \<in> set (select_units asel)" for u
    using assms(3) that by (simp add: dots_stim_def)
  with other show ?thesis
    unfolding serves_select_def using dots_units_serve [OF assms(3)] filled_unit_delivers assms(3) by auto
qed

lemma archive_restores:
  assumes "get_stim_by_dots profile dots = Inr st" and "get_artix_select_by_profile_pins (dots_pins dots) = Inr asel"
    and "\<forall>u\<in>set (select_units asel). dots_stim u vs d st" and "lz4_restores lz4c lz4d"
  shows "\<exists>m st'. stim_serialize_to_path lz4c lz4d st = Inr (m, st') \<and>
    (\<forall>bytes decode s0. opened bytes s0 \<and> decode bytes = Some m \<longrightarrow>
      (\<exists>r. stim_deserialize decode s0 = Inr r \<and> same_stim st r \<and> (\<forall>u\<in>set (select_units asel).
        raw_stim lz4d u (map (\<lambda>k. the (vec_data (filled_chunk u vs d st k))) [0..<length (unit_chunks u st)]) r)))"
proof -
  let ?cs = "\<lambda>u. map (filled_chunk u vs d st) [0..<length (unit_chunks u st)]"
  have serves: "serves_select lz4d asel ?cs st" using assms(1-3) by (rule dots_serves_select)
  from deserialize_pins [OF stim_pins_wf [OF assms(1)]] obtain qs where qs: "mapR serialize_pin (stim_pins st) = Inr qs"
    "mapR (\<lambda>i. deserialize_pin (capn_at new_ProfilePin qs i)) [0..<length (stim_pins st)] = Inr (stim_pins st)" by blast
  from serialize_run [OF serves qs(1) assms(4)] obtain st' where
    m: "stim_serialize_to_path lz4c lz4d st = Inr (archive_message lz4c st qs asel ?cs, st')" by blast
  from deserialize_run [OF serves qs assms(4)] have
    "\<exists>r. stim_deserialize decode s0 = Inr r \<and> same_stim st r \<and>
      (\<forall>u\<in>set (select_units asel). raw_stim lz4d u (map (\<lambda>c. the (vec_data c)) (?cs u)) r)"
    if "opened bytes s0 \<and> decode bytes = Some (archive_message lz4c st qs asel ?cs)" for bytes s0 and decode :: capn_decoder
    using that by blast
  with m show ?thesis unfolding map_map o_def by blast
qed

lemma raw_drain:
  assumes "raw_stim lz4d u bss r"
  shows "\<exists>r'. drain (Suc (unit_num_chunks u r)) (next_chunk lz4d u) collect_chunk r [] = Inr (r', concat bss)"
proof -
  from raw_yields [OF assms] obtain r' where r': "yields (next_chunk lz4d u) r (raw_items bss r u) r'" by blast
  have "length (raw_items bss r u) < Suc (unit_num_chunks u r)" using assms by (simp add: raw_items_def raw_stim_def)
  note run = drain_yields [OF r' this, of collect_chunk "[]"]
  have "foldR collect_chunk (raw_items bss r u) out = Inr (out @ chunks_bytes (raw_items bss r u))" for out
  proof -
    have "foldR collect_chunk cs out = Inr (out @ chunks_bytes cs)" if "\<forall>c\<in>set cs. vec_data c \<noteq> None" for cs out
      using that by (induction cs arbitrary: out) (auto simp: collect_chunk_def)
    then show ?thesis by (auto simp: raw_items_def loaded_raw_def)
  qed
  with run raw_items_bytes [OF assms] show ?thesis by simp
qed

lemma filled_concat:
  assumes "chunk_offset (unit_chunks u st) (length (unit_chunks u st)) = length vs + num_padding_vecs st"
  shows "concat (map (\<lambda>k. the (vec_data (filled_chunk u vs d st k))) [0..<length (unit_chunks u st)]) =
    concat (map (compile_vec u (dots_pins d)) (vs @ replicate (num_padding_vecs st) (nop_vec (stim_num_pins st))))"
  using dots_stim_bytes [OF assms, of d] by (simp add: chunks_bytes_def o_def)

text \<open>C17. An archive keeps the stimulus: writing the stimulus of a pattern never fails, and whatever file the
  message ends up in, opening it gives a stimulus with the same pins, lengths and numbers of chunks, whose
  chunks, when they are loaded, hold for each unit exactly the compiled vectors of the pattern and
  its padding.\<close>

theorem archive_keeps_pattern:
  assumes "get_stim_by_dots profile dots = Inr st"
    and "dots_full dots vs" and "\<forall>v\<in>set vs. vec_plain (dots_num_pins dots) v"
    and "length (dots_pins dots) = dots_num_pins dots" and "dots_num_pins dots < 2 ^ 16"
    and "cur_appended_dots_vec_id dots = num_dots_vecs dots"
    and "get_artix_select_by_profile_pins (dots_pins dots) = Inr asel"
    and "\<forall>u\<in>set (select_units asel). \<forall>rng. artix_range u = Inr rng \<longrightarrow> unit_pins_ok rng (dots_pins dots)"
    and "lz4_restores lz4c lz4d"
  shows "\<exists>m st'. stim_serialize_to_path lz4c lz4d st = Inr (m, st') \<and>
    (\<forall>bytes decode s0. opened bytes s0 \<and> decode bytes = Some m \<longrightarrow>
      (\<exists>r. stim_deserialize decode s0 = Inr r \<and> same_stim st r \<and> (\<forall>u\<in>set (select_units asel). \<exists>r'.
        drain (Suc (unit_num_chunks u r)) (next_chunk lz4d u) collect_chunk r [] = Inr (r', concat (map
          (compile_vec u (dots_pins dots))
          (map clocked vs @ replicate (num_padding_vecs st) (nop_vec (dots_num_pins dots))))))))"
proof -
  from dots_units_created [OF assms(1-8)] obtain d where d: "dots_pins d = dots_pins dots" and
    units: "\<forall>u\<in>set (select_units asel). stim_num_pins st = dots_num_pins dots \<and> dots_stim u (map clocked vs) d st \<and>
      chunk_offset (unit_chunks u st) (length (unit_chunks u st)) = length (map clocked vs) + num_padding_vecs st"
    by blast
  then have "\<forall>u\<in>set (select_units asel). dots_stim u (map clocked vs) d st" by blast
  from archive_restores [OF assms(1,7) this assms(9)] obtain m st' where
    m: "stim_serialize_to_path lz4c lz4d st = Inr (m, st')" and
    r: "\<And>bytes decode s0. opened bytes s0 \<and> decode bytes = Some m \<Longrightarrow> \<exists>r. stim_deserialize decode s0 = Inr r \<and>
      same_stim st r \<and> (\<forall>u\<in>set (select_units asel).
        raw_stim lz4d u (map (\<lambda>k. the (vec_data (filled_chunk u (map clocked vs) d st k))) [0..<length (unit_chunks u st)]) r)"
    by blast
  have bytes: "concat (map (\<lambda>k. the (vec_data (filled_chunk u (map clocked vs) d st k))) [0..<length (unit_chunks u st)]) =
      concat (map (compile_vec u (dots_pins dots))
        (map clocked vs @ replicate (num_padding_vecs st) (nop_vec (dots_num_pins dots))))"
    if "u \<in> set (select_units asel)" for u
    using filled_concat [of u st "map clocked vs" d] units that d by simp
  have "\<exists>r. stim_deserialize decode s0 = Inr r \<and> same_stim st r \<and> (\<forall>u\<in>set (select_units asel). \<exists>r'.
      drain (Suc (unit_num_chunks u r)) (next_chunk lz4d u) collect_chunk r [] = Inr (r', concat (map
        (compile_vec u (dots_pins dots))
        (map clocked vs @ replicate (num_padding_vecs st) (nop_vec (dots_num_pins dots))))))"
    if "opened bytes s0 \<and> decode bytes = Some m" for bytes decode s0
  proof -
    from r [where bytes = bytes and decode = decode and ?s0.0 = s0, OF that] obtain r where r: "stim_deserialize decode s0 = Inr r" "same_stim st r" and
      raw: "\<forall>u\<in>set (select_units asel). raw_stim lz4d u
        (map (\<lambda>k. the (vec_data (filled_chunk u (map clocked vs) d st k))) [0..<length (unit_chunks u st)]) r" by blast
    have "\<exists>r'. drain (Suc (unit_num_chunks u r)) (next_chunk lz4d u) collect_chunk r [] = Inr (r', concat (map
        (compile_vec u (dots_pins dots))
        (map clocked vs @ replicate (num_padding_vecs st) (nop_vec (dots_num_pins dots)))))"
      if u: "u \<in> set (select_units asel)" for u
      using raw_drain [OF raw [rule_format, OF u]] unfolding bytes [OF u] .
    with r show ?thesis by blast
  qed
  with m show ?thesis by blast
qed

end
