(* ===== verification/Stim_Open.thy ===== *)
theory Stim_Open
  imports Stim_Archive
begin

text \<open>
  Opening a stimulus by its path (\<^verbatim>\<open>get_stim_by_path\<close> of src/stim.c): the headers of the bitstream
  formats, the sizes of the configuration, and the dispatch to patterns and archives.

  The file system is a parameter: \<open>files path\<close> is the resolved path and the bytes of a regular file
  that can be opened, if there is one. Mapping a file gives its bytes; what lies behind them is
  \<^verbatim>\<open>Crash_bounds\<close>.
\<close>

section \<open>Headers\<close>

text \<open>The search for the synchronisation word, at every byte of the file. Its byte order is that of the
  file: \<open>True\<close> for little endian. The search has no other end than the end of the mapped file.\<close>

fun find_sync_word :: "u8 list \<Rightarrow> bool res" where
  "find_sync_word (a # b # c # d # rest) =
     (let word = le_word [a, b, c, d] in
      if word = 0xaa995566 then Inr True
      else if word = 0x665599aa then Inr False
      else find_sync_word (b # c # d # rest))"
| "find_sync_word _ = Inl Crash_bounds"

definition find_endian :: "stim \<Rightarrow> stim res" where
  "find_endian stim =
     (case stim_type stim of
        STIM_TYPE_RBT \<Rightarrow> Inr (stim\<lparr>is_little_endian := False\<rparr>)
      | STIM_TYPE_BIN \<Rightarrow>
          bindR (find_sync_word (map_data stim)) (\<lambda>little.
          Inr (stim\<lparr>is_little_endian := little, cur_map_byte := 0, start_map_byte := 0\<rparr>))
      | STIM_TYPE_BIT \<Rightarrow>
          bindR (find_sync_word (map_data stim)) (\<lambda>little.
          Inr (stim\<lparr>is_little_endian := little, cur_map_byte := 0, start_map_byte := 0\<rparr>))
      | _ \<Rightarrow> Inr stim)"

text \<open>The size in line 7 of an rbt file: the first number of the line.\<close>

definition rbt_size :: "u8 list \<Rightarrow> int" where
  "rbt_size line = c_atoi (dropWhile (\<lambda>c. \<not> c_isdigit c) (bytes_text line))"

text \<open>A line of the header, unless the file has ended.\<close>

definition header_line :: "stim \<Rightarrow> (u8 list option \<times> stim) res" where
  "header_line stim =
     (if cur_map_byte stim < file_size stim then
        bindR (map_line stim) (\<lambda>line.
        if length line > BUFFER_LENGTH then Inl Capacity_exceeded
        else Inr (Some line, stim\<lparr>cur_map_byte := cur_map_byte stim + (length line + 1)\<rparr>))
      else Inr (None, stim))"

text \<open>The loop over the lines, of which \<open>n\<close> are skipped; without a line for the size it is 0.\<close>

fun rbt_header :: "nat \<Rightarrow> stim \<Rightarrow> (int \<times> stim) res" where
  "rbt_header 0 stim =
     bindR (header_line stim) (\<lambda>(line, stim).
     Inr (case line of None \<Rightarrow> 0 | Some l \<Rightarrow> rbt_size l, stim))"
| "rbt_header (Suc n) stim =
     bindR (header_line stim) (\<lambda>(line, stim).
     case line of None \<Rightarrow> Inr (0, stim) | Some _ \<Rightarrow> rbt_header n stim)"

text \<open>A string of a bit file: its length, and its bytes, which are copied for the log.\<close>

definition skip_string :: "stim \<Rightarrow> stim res" where
  "skip_string stim =
     bindR (read_map_16 stim True) (\<lambda>(halfword, stim).
     if halfword > BUFFER_LENGTH then Inl Capacity_exceeded
     else if cur_map_byte stim + halfword > length (map_data stim) then Inl Crash_bounds
     else Inr (stim\<lparr>cur_map_byte := cur_map_byte stim + halfword\<rparr>))"

text \<open>The sections of a bit file up to the data; every round reads some bytes, so the length of the
  file is enough fuel.\<close>

fun bit_sections :: "nat \<Rightarrow> stim \<Rightarrow> (int \<times> stim) res" where
  "bit_sections 0 stim = Inl Out_of_fuel"
| "bit_sections (Suc fuel) stim =
     bindR (read_map_8 stim) (\<lambda>(byte, stim).
     if byte = 0x65 then bindR (read_map_32 stim True) (\<lambda>(w, stim). Inr (uint w, stim))
     else if byte = 0x62 \<or> byte = 0x63 \<or> byte = 0x64 then bindR (skip_string stim) (bit_sections fuel)
     else Inl Bad_format)"

definition bit_header :: "stim \<Rightarrow> (int \<times> stim) res" where
  "bit_header stim =
     bindR (read_map_16 stim True) (\<lambda>(halfword, stim).
     if halfword \<noteq> 9 then Inl Bad_format
     else
       let stim = stim\<lparr>cur_map_byte := cur_map_byte stim + halfword\<rparr> in
       bindR (read_map_16 stim True) (\<lambda>(halfword, stim).
       if halfword \<noteq> 1 then Inl Bad_format
       else
         bindR (read_map_8 stim) (\<lambda>(byte, stim).
         if byte \<noteq> 0x61 then Inl Bad_format
         else bindR (skip_string stim) (\<lambda>stim. bit_sections (Suc (length (map_data stim))) stim))))"

text \<open>The size of the bitstream, and the position of its first word.\<close>

definition read_header :: "stim \<Rightarrow> (int \<times> stim) res" where
  "read_header stim =
     (case stim_type stim of
        STIM_TYPE_RBT \<Rightarrow>
          bindR (rbt_header 6 stim) (\<lambda>(bitstream_size, stim).
          if bitstream_size = 0 then Inl Bad_format
          else Inr (bitstream_size, stim\<lparr>start_map_byte := cur_map_byte stim\<rparr>))
      | STIM_TYPE_BIN \<Rightarrow> Inr (int (file_size stim), stim)
      | STIM_TYPE_BIT \<Rightarrow>
          bindR (bit_header stim) (\<lambda>(bitstream_size, stim).
          Inr (bitstream_size, stim\<lparr>start_map_byte := cur_map_byte stim\<rparr>))
      | _ \<Rightarrow> Inr (0, stim))"

section \<open>Bitstreams\<close>

definition check_config_size :: "config_types \<Rightarrow> unit res" where
  "check_config_size type =
     bindR (get_config_num_vecs_by_type type) (\<lambda>n.
     if n * STIM_VEC_SIZE > STIM_CHUNK_SIZE then Inl Capacity_exceeded else Inr ())"

text \<open>A signed size in an operation with \<^verbatim>\<open>sizeof\<close>.\<close>

definition u64_of_int :: "int \<Rightarrow> nat" where
  "u64_of_int i = nat (i mod 2 ^ 64)"

text \<open>The numbers of vectors of a bitstream of a size in bytes: those of the header, one group for
  each word, and those of the footer.\<close>

definition bitstream_lengths :: "int \<Rightarrow> (nat \<times> nat) res" where
  "bitstream_lengths bitstream_size =
     bindR (get_config_num_vecs_by_type CONFIG_TYPE_HEADER) (\<lambda>header.
     bindR (get_config_num_vecs_by_type CONFIG_TYPE_FOOTER) (\<lambda>footer.
     bindR (get_config_unrolled_num_vecs_by_type CONFIG_TYPE_HEADER) (\<lambda>uheader.
     bindR (get_config_unrolled_num_vecs_by_type CONFIG_TYPE_FOOTER) (\<lambda>ufooter.
     let size = u64_of_int bitstream_size; num_file_vecs = wrap32 (size div 4) in
     if size mod 4 \<noteq> 0 then Inl Bad_format
     else
       bindR (get_config_num_vecs_by_type CONFIG_TYPE_BODY) (\<lambda>body.
       bindR (get_config_unrolled_num_vecs_by_type CONFIG_TYPE_BODY) (\<lambda>ubody.
       Inr (wrap32 (header + footer + wrap32 (num_file_vecs * body)),
            wrap64 (uheader + ufooter + wrap64 (num_file_vecs * ubody)))))))))"

definition init_bitstream :: "stim \<Rightarrow> int \<Rightarrow> stim res" where
  "init_bitstream stim bitstream_size =
     (if bitstream_size = 0 then Inl Bad_count
      else
        bindR (nonnullR (stim_profile stim)) (\<lambda>profile.
        bindR (get_config_profile_pins profile (-1)) (\<lambda>pins.
        bindR (mapR check_config_size [CONFIG_TYPE_HEADER, CONFIG_TYPE_BODY, CONFIG_TYPE_FOOTER]) (\<lambda>_.
        bindR (bitstream_lengths bitstream_size) (\<lambda>(nvecs, nunrolled).
        if length pins = 0 then Inl Null_pointer
        else init_stim stim pins nvecs nunrolled)))))"

section \<open>Opening by path\<close>

definition open_stim :: "file_system \<Rightarrow> profile \<Rightarrow> stim_types \<Rightarrow> string \<Rightarrow> stim res" where
  "open_stim files profile type path =
     (case files path of
        None \<Rightarrow> Inl Not_found
      | Some (real_path, bytes) \<Rightarrow>
          Inr (create_stim\<lparr>stim_type := type, stim_profile := Some profile, stim_path := Some real_path,
            is_open := True, file_size := length bytes, map_data := bytes, cur_map_byte := 0, start_map_byte := 0\<rparr>))"

definition open_dots :: "file_system \<Rightarrow> profile \<Rightarrow> string \<Rightarrow> stim res" where
  "open_dots files profile path =
     (case files path of
        None \<Rightarrow> Inl Not_found
      | Some (real_path, bytes) \<Rightarrow>
          bindR (parse_dots profile (bytes_text bytes)) (\<lambda>dots.
          bindR (get_stim_by_dots profile dots) (\<lambda>stim. Inr (stim\<lparr>stim_path := Some path\<rparr>))))"

definition get_stim_by_path :: "file_system \<Rightarrow> capn_decoder \<Rightarrow> profile \<Rightarrow> string \<Rightarrow> stim res" where
  "get_stim_by_path files decode profile path =
     (let type = get_stim_type_by_path path in
      if type = STIM_TYPE_NONE then Inl Bad_format
      else
        bindR (if type = STIM_TYPE_DOTS then open_dots files profile path
               else open_stim files profile type path) (\<lambda>stim.
        bindR (find_endian stim) (\<lambda>stim.
        bindR (read_header stim) (\<lambda>(bitstream_size, stim).
        case stim_type stim of
          STIM_TYPE_NONE \<Rightarrow> Inl Bad_state
        | STIM_TYPE_RAW \<Rightarrow> stim_deserialize decode stim
        | STIM_TYPE_DOTS \<Rightarrow> Inr stim
        | _ \<Rightarrow> init_bitstream stim bitstream_size))))"

section \<open>The header of a bit file\<close>

text \<open>The parts of the file format: numbers in big endian byte order and strings with their length.\<close>

definition be16 :: "nat \<Rightarrow> u8 list" where
  "be16 n = [of_nat (n div 256), of_nat n]"

definition be32 :: "nat \<Rightarrow> u8 list" where
  "be32 n = [of_nat (n div 256 ^ 3), of_nat (n div 256 ^ 2), of_nat (n div 256), of_nat n]"

definition be_string :: "u8 list \<Rightarrow> u8 list" where
  "be_string s = be16 (length s) @ s"

definition bit_section :: "u8 \<times> u8 list \<Rightarrow> u8 list" where
  "bit_section = (\<lambda>(k, s). k # be_string s)"

definition bit_file_header :: "u8 list \<Rightarrow> u8 list \<Rightarrow> (u8 \<times> u8 list) list \<Rightarrow> nat \<Rightarrow> u8 list" where
  "bit_file_header nine name sections n =
     be16 9 @ nine @ be16 1 @ [0x61] @ be_string name @ concat (map bit_section sections) @ [0x65] @ be32 n"

lemma ucast_byte: "(ucast (of_nat n :: u8) :: u32) = of_nat (n mod 256)"
  by (simp add: word_unat_eq_iff unsigned_ucast_eq unsigned_of_nat take_bit_eq_mod mod_less_eq_dividend)

lemma le_word_be16: "n < 65536 \<Longrightarrow> le_word (rev (be16 n)) = of_nat n"
proof -
  assume n: "n < 65536"
  have "le_word (rev (be16 n)) = of_nat (n mod 256 + 256 * (n div 256 mod 256))"
    by (simp add: be16_def ucast_byte)
  also have "n mod 256 + 256 * (n div 256 mod 256) = n" using n by simp
  finally show ?thesis .
qed

lemma le_word_be32: "n < 2 ^ 32 \<Longrightarrow> le_word (rev (be32 n)) = of_nat n"
proof -
  assume n: "n < 2 ^ 32"
  have "le_word (rev (be32 n)) =
      of_nat (n mod 256 + 256 * (n div 256 mod 256 + 256 * (n div 256 ^ 2 mod 256 + 256 * (n div 256 ^ 3 mod 256))))"
    by (simp add: be32_def ucast_byte)
  also have "n mod 256 + 256 * (n div 256 mod 256 + 256 * (n div 256 ^ 2 mod 256 + 256 * (n div 256 ^ 3 mod 256))) =
      (\<Sum>k<4. (n div 256 ^ k mod 256) * 256 ^ k)"
    by (simp add: lessThan_nat_numeral lessThan_Suc algebra_simps)
  also have "\<dots> = n" unfolding digits_sum using n by simp
  finally show ?thesis .
qed

text \<open>A position in the file: the bytes before it and the bytes from it on.\<close>

definition at_bytes :: "stim \<Rightarrow> u8 list \<Rightarrow> bool" where
  "at_bytes st rest \<longleftrightarrow> cur_map_byte st \<le> length (map_data st) \<and> drop (cur_map_byte st) (map_data st) = rest"

abbreviation advance :: "nat \<Rightarrow> stim \<Rightarrow> stim" where
  "advance n st \<equiv> st\<lparr>cur_map_byte := cur_map_byte st + n\<rparr>"

lemma at_bytes_advance:
  assumes "at_bytes st (bs @ rest)" and "n = length bs"
  shows "at_bytes (advance n st) rest"
proof -
  have "length (drop (cur_map_byte st) (map_data st)) = length (bs @ rest)" using assms(1) by (simp add: at_bytes_def)
  then have "cur_map_byte st + n \<le> length (map_data st)" using assms unfolding at_bytes_def length_drop length_append by linarith
  moreover have "drop n (drop (cur_map_byte st) (map_data st)) = rest" using assms by (simp add: at_bytes_def)
  ultimately show ?thesis by (simp add: at_bytes_def add.commute)
qed

lemma at_bytes_fits:
  assumes "at_bytes st (bs @ rest)"
  shows "cur_map_byte st + length bs \<le> length (map_data st)"
    and "take (length bs) (drop (cur_map_byte st) (map_data st)) = bs"
proof -
  have "length (drop (cur_map_byte st) (map_data st)) = length (bs @ rest)" using assms by (simp add: at_bytes_def)
  then show "cur_map_byte st + length bs \<le> length (map_data st)"
    using assms unfolding at_bytes_def length_drop length_append by linarith
  show "take (length bs) (drop (cur_map_byte st) (map_data st)) = bs" using assms by (simp add: at_bytes_def)
qed

lemma read_8_at:
  assumes "at_bytes st (b # rest)"
  shows "read_map_8 st = Inr (b, advance 1 st)"
proof -
  from at_bytes_fits [of st "[b]" rest] assms have "cur_map_byte st < length (map_data st)" by simp
  moreover from this assms have "map_data st ! cur_map_byte st = b"
    by (simp add: at_bytes_def flip: Cons_nth_drop_Suc)
  ultimately show ?thesis by (simp add: read_map_8_def nthR_def)
qed

lemma read_16_at:
  assumes "at_bytes st (be16 n @ rest)" and "n < 65536"
  shows "read_map_16 st True = Inr (n, advance 2 st)"
proof -
  have "length (be16 n) = 2" by (simp add: be16_def)
  with at_bytes_fits [OF assms(1)] le_word_be16 [OF assms(2)] assms(2) show ?thesis
    by (simp add: read_map_16_def read_map_n_def Let_def unsigned_of_nat take_bit_eq_mod)
qed

lemma read_32_at:
  assumes "at_bytes st (be32 n @ rest)" and "n < 2 ^ 32"
  shows "read_map_32 st True = Inr (of_nat n, advance 4 st)"
proof -
  have "length (be32 n) = 4" by (simp add: be32_def)
  with at_bytes_fits [OF assms(1)] le_word_be32 [OF assms(2)] show ?thesis
    by (simp add: read_map_32_def read_map_n_def Let_def)
qed

lemma skip_string_at:
  assumes "at_bytes st (be_string s @ rest)" and "length s \<le> BUFFER_LENGTH"
  shows "skip_string st = Inr (advance (length (be_string s)) st)"
proof -
  have l: "length s < 65536" using assms(2) by (simp add: BUFFER_LENGTH_def)
  have at: "at_bytes st (be16 (length s) @ s @ rest)" using assms(1) by (simp add: be_string_def)
  have at2: "at_bytes (advance 2 st) (s @ rest)" by (rule at_bytes_advance [OF at]) (simp add: be16_def)
  from read_16_at [OF at l] at_bytes_fits(1) [OF at2] assms(2) show ?thesis
    by (simp add: skip_string_def be_string_def be16_def add.assoc)
qed

lemma bit_sections_at:
  assumes "at_bytes st (concat (map bit_section sections) @ 0x65 # be32 n @ rest)"
    and "\<forall>(k, s)\<in>set sections. k \<in> {0x62, 0x63, 0x64} \<and> length s \<le> BUFFER_LENGTH"
    and "n < 2 ^ 32" and "length sections < fuel"
  shows "bit_sections fuel st = Inr (int n, advance (length (concat (map bit_section sections)) + 5) st)"
  using assms
proof (induction sections arbitrary: st fuel)
  case Nil
  then obtain f where f: "fuel = Suc f" by (cases fuel) auto
  from Nil.prems(1) have at: "at_bytes st (0x65 # be32 n @ rest)" by simp
  then have at1: "at_bytes (advance 1 st) (be32 n @ rest)" by (intro at_bytes_advance [of st "[0x65]"]) simp_all
  have "uint (of_nat n :: u32) = int n" using Nil.prems(3) by (simp add: unsigned_of_nat take_bit_eq_mod)
  with read_8_at [OF at] read_32_at [OF at1 Nil.prems(3)] f show ?case by simp
next
  case (Cons ks sections)
  then obtain f where f: "fuel = Suc f" "length sections < f" by (cases fuel) auto
  obtain k s where ks: "ks = (k, s)" by (cases ks)
  with Cons.prems(2) have k: "k \<in> {0x62, 0x63, 0x64}" and s: "length s \<le> BUFFER_LENGTH" by auto
  let ?rest = "concat (map bit_section sections) @ 0x65 # be32 n @ rest"
  have at: "at_bytes st (k # be_string s @ ?rest)" using Cons.prems(1) by (simp add: ks bit_section_def)
  then have at1: "at_bytes (advance 1 st) (be_string s @ ?rest)" by (intro at_bytes_advance [of st "[k]"]) simp_all
  have at2: "at_bytes (advance (length (be_string s)) (advance 1 st)) ?rest" by (rule at_bytes_advance [OF at1 refl])
  have "\<forall>(k, s)\<in>set sections. k \<in> {0x62, 0x63, 0x64} \<and> length s \<le> BUFFER_LENGTH" using Cons.prems(2) by simp
  note IH = Cons.IH [OF at2 this Cons.prems(3) f(2)]
  have "k \<noteq> 0x65" "k = 0x62 \<or> k = 0x63 \<or> k = 0x64" using k by auto
  with read_8_at [OF at] skip_string_at [OF at1 s] IH f(1) show ?case
    by (simp add: ks bit_section_def add.assoc)
qed

text \<open>C37. The header of a bit file is read as it is written: for every design name, every list of
  sections and every size, the parser returns the size and stops at the first byte of the data.\<close>

theorem bit_header_reads:
  assumes "map_data st = bit_file_header nine name sections n @ rest" and "cur_map_byte st = 0"
    and "length nine = 9" and "length name \<le> BUFFER_LENGTH"
    and "\<forall>(k, s)\<in>set sections. k \<in> {0x62, 0x63, 0x64} \<and> length s \<le> BUFFER_LENGTH" and "n < 2 ^ 32"
  shows "bit_header st = Inr (int n, st\<lparr>cur_map_byte := length (bit_file_header nine name sections n)\<rparr>)"
proof -
  let ?secs = "concat (map bit_section sections) @ 0x65 # be32 n @ rest"
  have at0: "at_bytes st (be16 9 @ nine @ be16 1 @ 0x61 # be_string name @ ?secs)"
    using assms(1,2) by (simp add: at_bytes_def bit_file_header_def)
  have at1: "at_bytes (advance 2 st) (nine @ be16 1 @ 0x61 # be_string name @ ?secs)"
    by (rule at_bytes_advance [OF at0]) (simp add: be16_def)
  have at2: "at_bytes (advance 9 (advance 2 st)) (be16 1 @ 0x61 # be_string name @ ?secs)"
    by (rule at_bytes_advance [OF at1]) (simp add: assms(3))
  have at3: "at_bytes (advance 2 (advance 9 (advance 2 st))) (0x61 # be_string name @ ?secs)"
    by (rule at_bytes_advance [OF at2]) (simp add: be16_def)
  then have at4: "at_bytes (advance 1 (advance 2 (advance 9 (advance 2 st)))) (be_string name @ ?secs)"
    using at_bytes_advance [of "advance 2 (advance 9 (advance 2 st))" "[0x61]" "be_string name @ ?secs" 1] by simp
  have at5: "at_bytes (advance (length (be_string name)) (advance 1 (advance 2 (advance 9 (advance 2 st))))) ?secs"
    by (rule at_bytes_advance [OF at4 refl])
  have "length sections \<le> length (concat (map bit_section sections))"
    by (induction sections) (auto simp: bit_section_def)
  then have "length sections < Suc (length (map_data st))" using assms(1) by (simp add: bit_file_header_def)
  from bit_sections_at [OF at5 assms(5,6) this] read_16_at [OF at0] read_16_at [OF at2] read_8_at [OF at3]
    skip_string_at [OF at4 assms(4)] assms(2,3)
  show ?thesis
    by (simp add: bit_header_def bit_file_header_def be16_def be32_def add.assoc del: bit_sections.simps)
qed

lemma bit_header_reads_witness:
  "bit_header (create_stim\<lparr>map_data := bit_file_header (replicate 9 0) [0x61, 0] [(0x62, [0x37, 0])] 4 @ [0xaa, 0x99, 0x55, 0x66]\<rparr>) =
    Inr (4, create_stim\<lparr>map_data := bit_file_header (replicate 9 0) [0x61, 0] [(0x62, [0x37, 0])] 4 @ [0xaa, 0x99, 0x55, 0x66],
      cur_map_byte := length (bit_file_header (replicate 9 0) [0x61, 0] [(0x62, [0x37, 0])] 4)\<rparr>)"
  using bit_header_reads [of "create_stim\<lparr>map_data := bit_file_header (replicate 9 0) [0x61, 0] [(0x62, [0x37, 0])] 4 @
    [0xaa, 0x99, 0x55, 0x66]\<rparr>" "replicate 9 0" "[0x61, 0]" "[(0x62, [0x37, 0])]" 4 "[0xaa, 0x99, 0x55, 0x66]"]
  by (simp add: BUFFER_LENGTH_def create_stim_def)

text \<open>The loop over the sections ends for every file.\<close>

lemma skip_string_cases:
  shows "skip_string st = Inr st' \<Longrightarrow> map_data st' = map_data st \<and> cur_map_byte st \<le> cur_map_byte st' \<and>
      cur_map_byte st' \<le> length (map_data st')"
    and "skip_string st \<noteq> Inl Out_of_fuel"
  by (auto simp: skip_string_def read_map_16_def read_map_n_def bindR_Inr_iff bindR_Inl_iff Let_def split: if_split_asm)

lemma bit_sections_ends:
  assumes "cur_map_byte st \<le> length (map_data st)" and "length (map_data st) < fuel + cur_map_byte st"
  shows "bit_sections fuel st \<noteq> Inl Out_of_fuel"
  using assms
proof (induction fuel arbitrary: st)
  case 0
  then show ?case by simp
next
  case (Suc fuel)
  show ?case
  proof (cases "cur_map_byte st < length (map_data st)")
    case True
    define b where "b = map_data st ! cur_map_byte st"
    have read: "read_map_8 st = Inr (b, advance 1 st)" using True by (simp add: read_map_8_def b_def nthR_def)
    have "bindR (skip_string (advance 1 st)) (bit_sections fuel) \<noteq> Inl Out_of_fuel"
    proof
      assume "bindR (skip_string (advance 1 st)) (bit_sections fuel) = Inl Out_of_fuel"
      then obtain st' where st': "skip_string (advance 1 st) = Inr st'" "bit_sections fuel st' = Inl Out_of_fuel"
        using skip_string_cases(2) by (auto simp: bindR_Inl_iff)
      from skip_string_cases(1) [OF st'(1)] Suc.prems have "cur_map_byte st' \<le> length (map_data st')"
        "length (map_data st') < fuel + cur_map_byte st'" by auto
      from Suc.IH [OF this] st'(2) show False by simp
    qed
    then show ?thesis
      by (auto simp: read read_map_32_def read_map_n_def bindR_Inl_iff Let_def split: if_split_asm)
  next
    case False
    then show ?thesis by (simp add: read_map_8_def nthR_def)
  qed
qed

text \<open>Opening a bit file always gets through its header: the loop over the sections ends, with the
  size, an error or an access behind the file, for every content, within as many rounds as
  the file has bytes.\<close>

theorem bit_header_ends: "bit_header st \<noteq> Inl Out_of_fuel"
proof -
  have "bit_sections (Suc (length (map_data s))) s \<noteq> Inl Out_of_fuel" if "cur_map_byte s \<le> length (map_data s)" for s
    by (rule bit_sections_ends) (use that in simp_all)
  then show ?thesis
    using skip_string_cases
    by (auto simp: bit_header_def read_map_16_def read_map_8_def nthR_def read_map_n_def bindR_Inl_iff Let_def split: if_split_asm)
qed

section \<open>The lengths of a bitstream\<close>

text \<open>The lengths that are derived from the size of a bitstream: twelve vectors of the configuration and one
  for every four units of the size, doubled when unrolled, in the width of the counters; sizes
  that are no multiple of four are refused. The size of an rbt file counts bits where the
  size of the binary formats counts bytes, so its 32 bits make eight vectors.\<close>

theorem bitstream_lengths_spec:
  "bitstream_lengths (int n) =
    (let size = n mod 2 ^ 64; words = size div 4 mod 2 ^ 32 in
     if size mod 4 \<noteq> 0 then Inl Bad_format
     else Inr ((12 + words) mod 2 ^ 32, 200186 + 2 * words))"
proof -
  have unrolled: "get_config_unrolled_num_vecs_by_type CONFIG_TYPE_HEADER = Inr 100109"
    "get_config_unrolled_num_vecs_by_type CONFIG_TYPE_BODY = Inr 2"
    "get_config_unrolled_num_vecs_by_type CONFIG_TYPE_FOOTER = Inr 100077"
    using config_unrolled_counts by simp_all
  have lens: "get_config_num_vecs_by_type CONFIG_TYPE_HEADER = Inr 8"
    "get_config_num_vecs_by_type CONFIG_TYPE_BODY = Inr 1" "get_config_num_vecs_by_type CONFIG_TYPE_FOOTER = Inr 4"
    by (simp_all add: get_config_num_vecs_by_type_def config_header_def config_body_def config_footer_def)
  have "u64_of_int (int n) = n mod 2 ^ 64"
    by (simp add: u64_of_int_def nat_mod_distrib)
  moreover have "2 * (n mod 2 ^ 64 div 4 mod 2 ^ 32) + 200186 < 2 ^ 64"
    using mod_less_divisor [of "2 ^ 32" "n mod 2 ^ 64 div 4"] by simp
  ultimately show ?thesis
    by (simp add: bitstream_lengths_def unrolled lens wrap32_def wrap64_def Let_def mod_simps)
qed

end
