(* ===== verification/Artix_Archive.thy ===== *)
theory Artix_Archive
  imports Artix_Load Stim_Open
begin

text \<open>
  Archives and the device together: a stimulus that was written to an archive, opened again by its
  path and loaded brings the same vectors to the device as the pattern it was made from.
\<close>

lemma open_archive:
  assumes "get_stim_type_by_path path = STIM_TYPE_RAW" and "files path = Some (real_path, bytes)"
  shows "\<exists>s0. opened bytes s0 \<and> get_stim_by_path files decode profile path = stim_deserialize decode s0"
proof -
  let ?s0 = "create_stim\<lparr>stim_type := STIM_TYPE_RAW, stim_profile := Some profile, stim_path := Some real_path,
    is_open := True, file_size := length bytes, map_data := bytes, cur_map_byte := 0, start_map_byte := 0\<rparr>"
  have "opened bytes ?s0" by (simp add: opened_def create_stim_def)
  moreover have "get_stim_by_path files decode profile path = stim_deserialize decode ?s0"
    using assms by (simp add: get_stim_by_path_def open_stim_def find_endian_def read_header_def Let_def)
  ultimately show ?thesis by blast
qed

lemma whole_chunk_bytes:
  "whole_chunk c \<Longrightarrow> length (the (vec_data c)) mod 1024 = 0 \<and> length (the (vec_data c)) \<le> STIM_CHUNK_SIZE"
  by (auto simp: whole_chunk_def)

text \<open>C13. An archive loads like its pattern. Writing the stimulus of a pattern to an archive succeeds; for
  every file system that returns the archive under a path with the extension \<^verbatim>\<open>.stim\<close>, and every
  driver that accepts the requests and whose units show the states they wait in, opening that path and
  loading the stimulus returns, and sends exactly the compiled vectors of the pattern and its padding
  for each of its units; the bursts are set up for those units, at their load addresses, and hold the
  same chunks as those of the pattern.\<close>

theorem archived_stim_transmits_pattern:
  assumes "get_stim_by_dots profile dots = Inr stim"
    and "dots_full dots vs" and "\<forall>v\<in>set vs. vec_plain (dots_num_pins dots) v"
    and "length (dots_pins dots) = dots_num_pins dots" and "dots_num_pins dots < 2 ^ 16"
    and "cur_appended_dots_vec_id dots = num_dots_vecs dots"
    and "get_artix_select_by_profile_pins (dots_pins dots) = Inr asel"
    and "\<forall>u\<in>set (select_units asel). \<forall>rng. artix_range u = Inr rng \<longrightarrow> unit_pins_ok rng (dots_pins dots)"
    and "reports_states drv" and "at_rest (hist b)" and "load_addr_ok a1" and "load_addr_ok a2"
    and "DMA_SIZE \<le> length (gcore_map b)"
    and "lz4_restores lz4c lz4d" and "get_stim_type_by_path path = STIM_TYPE_RAW"
  shows "\<exists>m st'. stim_serialize_to_path lz4c lz4d stim = Inr (m, st') \<and>
    (\<forall>files decode real_path bytes. files path = Some (real_path, bytes) \<and> decode bytes = Some m \<longrightarrow>
      (\<exists>r r' n b' bss. get_stim_by_path files decode profile path = Inr r \<and>
        artix_load_stim lz4d drv r a1 a2 b = Inr ((r', n), b') \<and>
        moved drv b b' (concat (map (\<lambda>u. concat (map (compile_vec u (dots_pins dots)) (padded_vecs dots vs stim)))
          (select_units asel))) [] \<and>
        (\<forall>u\<in>set (select_units asel). pattern_chunks u stim (dots_pins dots) (padded_vecs dots vs stim) (bss u)) \<and>
        bursts (device_of (hist b')) = bursts (device_of (hist b)) @
          concat (map (\<lambda>u. map (burst_of u (load_address a1 a2 u)) (bss u)) (select_units asel))))"
proof -
  from dots_units_created [OF assms(1-8)] obtain d where d: "dots_pins d = dots_pins dots" and
    units: "\<forall>u\<in>set (select_units asel). stim_num_pins stim = dots_num_pins dots \<and> dots_stim u (map clocked vs) d stim \<and>
      chunk_offset (unit_chunks u stim) (length (unit_chunks u stim)) = length (map clocked vs) + num_padding_vecs stim"
    by blast
  define bss where "bss u = map (\<lambda>k. the (vec_data (filled_chunk u (map clocked vs) d stim k)))
    [0..<length (unit_chunks u stim)]" for u
  from units have "\<forall>u\<in>set (select_units asel). dots_stim u (map clocked vs) d stim" by blast
  from archive_restores [OF assms(1,7) this assms(14), folded bss_def] obtain m st' where
    m: "stim_serialize_to_path lz4c lz4d stim = Inr (m, st')" and
    restored: "\<And>bytes decode s0. opened bytes s0 \<and> decode bytes = Some m \<Longrightarrow> \<exists>r. stim_deserialize decode s0 = Inr r \<and>
      same_stim stim r \<and> (\<forall>u\<in>set (select_units asel). raw_stim lz4d u (bss u) r)" by blast
  have bytes: "concat (bss u) = concat (map (compile_vec u (dots_pins dots)) (padded_vecs dots vs stim))"
    if "u \<in> set (select_units asel)" for u
    unfolding bss_def padded_vecs_def using filled_concat [of u stim "map clocked vs" d] units d that by simp
  have chunks: "\<forall>u\<in>set (select_units asel). pattern_chunks u stim (dots_pins dots) (padded_vecs dots vs stim) (bss u)"
  proof
    fix u assume u: "u \<in> set (select_units asel)"
    have "length (the (vec_data (filled_chunk u (map clocked vs) d stim k))) = vec_data_size (unit_chunks u stim ! k)"
      if "k < length (unit_chunks u stim)" for k
      using filled_chunk_whole [of u "map clocked vs" d stim k] units u that by (auto simp: whole_chunk_def filled_chunk_def)
    then have "map length (bss u) = map vec_data_size (unit_chunks u stim)"
      unfolding bss_def list_eq_iff_nth_eq by (simp del: map_eq_conv)
    then show "pattern_chunks u stim (dots_pins dots) (padded_vecs dots vs stim) (bss u)"
      using bytes [OF u] by (simp add: pattern_chunks_def)
  qed
  have sizes: "\<forall>bs\<in>set (bss u). length bs mod 1024 = 0 \<and> length bs \<le> STIM_CHUNK_SIZE" if "u \<in> set (select_units asel)" for u
    using whole_chunk_bytes [OF filled_chunk_whole [of u "map clocked vs" d stim]] units that by (auto simp: bss_def)
  have loads: "\<exists>r r' n b'. get_stim_by_path files decode profile path = Inr r \<and>
      artix_load_stim lz4d drv r a1 a2 b = Inr ((r', n), b') \<and>
      moved drv b b' (concat (map (\<lambda>u. concat (bss u)) (select_units asel))) [] \<and>
      bursts (device_of (hist b')) = bursts (device_of (hist b)) @
        concat (map (\<lambda>u. map (burst_of u (load_address a1 a2 u)) (bss u)) (select_units asel))"
    if stored: "files path = Some (real_path, bytes) \<and> decode bytes = Some m" for files decode real_path bytes
  proof -
    from open_archive [OF assms(15), of files real_path bytes decode profile] stored obtain s0 where
      s0: "opened bytes s0" "get_stim_by_path files decode profile path = stim_deserialize decode s0" by blast
    from restored [of bytes s0 decode] s0 stored obtain r where r: "get_stim_by_path files decode profile path = Inr r"
      "same_stim stim r" "\<forall>u\<in>set (select_units asel). raw_stim lz4d u (bss u) r" by auto
    have "stim_get_mode r = stim_get_mode stim" using r(2) by (simp add: same_stim_def stim_get_mode_def)
    then have mode: "load_units (stim_get_mode r) = select_units asel" using dots_load_units [OF assms(1,7)] by simp
    then have serves: "serves lz4d (load_units (stim_get_mode r)) r (map (\<lambda>u. raw_items (bss u) r u) (select_units asel))"
      using raw_units_serve [OF r(3)] by simp
    have whole: "\<forall>cs\<in>set (map (\<lambda>u. raw_items (bss u) r u) (select_units asel)). \<forall>c\<in>set cs. whole_chunk c"
      using raw_items_whole r(3) sizes by fastforce
    have same: "map chunks_bytes (map (\<lambda>u. raw_items (bss u) r u) (select_units asel)) =
        map (\<lambda>u. concat (bss u)) (select_units asel)" using raw_items_bytes r(3) by auto
    have one: "chunk_bursts u a (raw_items (bss u) r u) = map (burst_of u a) (bss u)" for u a
      unfolding chunk_bursts_def raw_items_def loaded_raw_def map_map o_def
      by (rule nth_equalityI) simp_all
    have log: "concat (map (\<lambda>(u, cs). chunk_bursts u (load_address a1 a2 u) cs)
        (zip (select_units asel) (map (\<lambda>u. raw_items (bss u) r u) (select_units asel)))) =
        concat (map (\<lambda>u. map (burst_of u (load_address a1 a2 u)) (bss u)) (select_units asel))"
      by (cases asel) (simp_all add: one)
    show ?thesis using load_stim_chunks [OF assms(9,13,10-12) serves whole] r(1) unfolding same mode log by blast
  qed
  have same: "map (\<lambda>u. concat (bss u)) (select_units asel) =
      map (\<lambda>u. concat (map (compile_vec u (dots_pins dots)) (padded_vecs dots vs stim))) (select_units asel)"
    using bytes by simp
  show ?thesis
  proof (rule exI [of _ m], rule exI [of _ st'], intro conjI [OF m] allI impI)
    fix files :: "string \<Rightarrow> (string \<times> u8 list) option" and decode real_path bytes
    assume "files path = Some (real_path, bytes) \<and> decode bytes = Some m"
    with loads [of files real_path bytes decode] chunks show "\<exists>r r' n b' bss. get_stim_by_path files decode profile path = Inr r \<and>
        artix_load_stim lz4d drv r a1 a2 b = Inr ((r', n), b') \<and>
        moved drv b b' (concat (map (\<lambda>u. concat (map (compile_vec u (dots_pins dots)) (padded_vecs dots vs stim)))
          (select_units asel))) [] \<and>
        (\<forall>u\<in>set (select_units asel). pattern_chunks u stim (dots_pins dots) (padded_vecs dots vs stim) (bss u)) \<and>
        bursts (device_of (hist b')) = bursts (device_of (hist b)) @
          concat (map (\<lambda>u. map (burst_of u (load_address a1 a2 u)) (bss u)) (select_units asel))"
      unfolding same by blast
  qed
qed

text \<open>A compressor that stores its input satisfies the assumption on LZ4.\<close>

lemma stored_restores: "lz4_restores (\<lambda>bs. bs) (\<lambda>src n. Some src)"
  by (simp add: lz4_restores_def)

lemma sample_units:
  "\<forall>u\<in>set (select_units ARTIX_SELECT_A1). \<forall>r. artix_range u = Inr r \<longrightarrow> unit_pins_ok r (dots_pins sample_dots)"
proof -
  have ids: "unit_ids (0, 199) [data_pin 0, data_pin 1] = [0, 1]"
    by (simp add: unit_ids_def in_range_def data_pin_def upt_rec)
  have "unit_pins_ok (0, 199) (dots_pins sample_dots)"
    by (simp add: sample_dots_def unit_pins_ok_def ids) (simp add: pin_io_def data_pin_def)
  then show ?thesis by (simp add: DUT_NUM_PINS_def)
qed

lemma sample_fields:
  "get_artix_select_by_profile_pins (dots_pins sample_dots) = Inr ARTIX_SELECT_A1"
  "\<forall>v\<in>set [new_vec 2 (''3'', ''V01''), new_vec 2 (''1'', ''VCX'')]. vec_plain (dots_num_pins sample_dots) v"
  "length (dots_pins sample_dots) = dots_num_pins sample_dots" "dots_num_pins sample_dots < 2 ^ 16"
  "cur_appended_dots_vec_id sample_dots = num_dots_vecs sample_dots"
  "dots_pins sample_dots = [data_pin 0, data_pin 1]" "dots_num_pins sample_dots = 2"
  by (simp_all add: sample_dots_def get_artix_select_by_profile_pins_def get_artix_select_by_profile_pin_def
      data_pin_def vec_plain_def new_vec_def)

lemma archived_stim_transmits_pattern_witness:
  "\<exists>st m st' r r' n b'. get_stim_by_dots config_profile sample_dots = Inr st \<and>
    stim_serialize_to_path (\<lambda>bs. bs) (\<lambda>src n. Some src) st = Inr (m, st') \<and>
    get_stim_by_path (\<lambda>p. Some (p, [0])) (\<lambda>bs. Some m) config_profile ''a.stim'' = Inr r \<and>
    artix_load_stim (\<lambda>src n. Some src) reporting_driver r 0 1024 (fresh_board (replicate DMA_SIZE 0)) =
      Inr ((r', n), b') \<and>
    moved reporting_driver (fresh_board (replicate DMA_SIZE 0)) b'
      (concat (map (compile_vec ARTIX_SELECT_A1 [data_pin 0, data_pin 1])
        (padded_vecs sample_dots [new_vec 2 (''3'', ''V01''), new_vec 2 (''1'', ''VCX'')] st))) []"
proof -
  from sample_stim obtain st where st: "get_stim_by_dots config_profile sample_dots = Inr st" ..
  have addr: "load_addr_ok 0" "load_addr_ok 1024" by (simp_all add: load_addr_ok_def BURST_BYTES_def)
  have mem: "DMA_SIZE \<le> length (gcore_map (fresh_board (replicate DMA_SIZE 0)))"
    "at_rest (hist (fresh_board (replicate DMA_SIZE 0)))" using fresh_at_rest by simp_all
  let ?b = "fresh_board (replicate DMA_SIZE 0)" and ?vs = "[new_vec 2 (''3'', ''V01''), new_vec 2 (''1'', ''VCX'')]"
  have raw: "get_stim_type_by_path ''a.stim'' = STIM_TYPE_RAW"
    by (simp add: get_stim_type_by_path_def util_get_file_ext_by_path_def c_basename_def Let_def)
  from archived_stim_transmits_pattern [OF st sample_dots_full sample_fields(2-5,1) sample_units reporting_driver_reports
      mem(2) addr mem(1) stored_restores raw] obtain m st' where m: "stim_serialize_to_path (\<lambda>bs. bs) (\<lambda>src n. Some src) st = Inr (m, st')"
    and opens: "\<forall>files decode real_path bytes. files ''a.stim'' = Some (real_path, bytes) \<and> decode bytes = Some m \<longrightarrow>
      (\<exists>r r' n b' bss. get_stim_by_path files decode config_profile ''a.stim'' = Inr r \<and>
        artix_load_stim (\<lambda>src n. Some src) reporting_driver r 0 1024 ?b = Inr ((r', n), b') \<and>
        moved reporting_driver ?b b' (concat (map (\<lambda>u. concat (map (compile_vec u (dots_pins sample_dots))
          (padded_vecs sample_dots ?vs st))) (select_units ARTIX_SELECT_A1))) [] \<and>
        (\<forall>u\<in>set (select_units ARTIX_SELECT_A1). pattern_chunks u st (dots_pins sample_dots) (padded_vecs sample_dots ?vs st) (bss u)) \<and>
        bursts (device_of (hist b')) = bursts (device_of (hist ?b)) @
          concat (map (\<lambda>u. map (burst_of u (load_address 0 1024 u)) (bss u)) (select_units ARTIX_SELECT_A1)))" by (elim exE conjE)
  from opens [THEN spec [of _ "\<lambda>p. Some (p, [0])"], THEN spec [of _ "\<lambda>bs. Some m"], THEN spec [of _ "''a.stim''"], THEN spec [of _ "[0]"]] obtain r r' n b' bss where
    r: "get_stim_by_path (\<lambda>p. Some (p, [0])) (\<lambda>bs. Some m) config_profile ''a.stim'' = Inr r"
      "artix_load_stim (\<lambda>src n. Some src) reporting_driver r 0 1024 ?b = Inr ((r', n), b')"
      "moved reporting_driver ?b b' (concat (map (\<lambda>u. concat (map (compile_vec u (dots_pins sample_dots))
        (padded_vecs sample_dots ?vs st))) (select_units ARTIX_SELECT_A1))) []" by blast
  from r(3) have "moved reporting_driver ?b b' (concat (map (compile_vec ARTIX_SELECT_A1 [data_pin 0, data_pin 1])
      (padded_vecs sample_dots ?vs st))) []" by (simp only: sample_fields(6) select_units.simps list.map concat.simps append_Nil2)
  with st m r(1,2) show ?thesis by blast
qed

lemma archive_keeps_pattern_witness:
  "\<exists>st m st' r r'. get_stim_by_dots config_profile sample_dots = Inr st \<and>
    stim_serialize_to_path (\<lambda>bs. bs) (\<lambda>src n. Some src) st = Inr (m, st') \<and>
    stim_deserialize (\<lambda>bs. Some m) (create_stim\<lparr>is_open := True\<rparr>) = Inr r \<and> same_stim st r \<and>
    drain (Suc (unit_num_chunks ARTIX_SELECT_A1 r)) (next_chunk (\<lambda>src n. Some src) ARTIX_SELECT_A1) collect_chunk r [] =
      Inr (r', concat (map (compile_vec ARTIX_SELECT_A1 [data_pin 0, data_pin 1])
        (map clocked [new_vec 2 (''3'', ''V01''), new_vec 2 (''1'', ''VCX'')] @
          replicate (num_padding_vecs st) (nop_vec 2))))"
proof -
  from sample_stim obtain st where st: "get_stim_by_dots config_profile sample_dots = Inr st" ..
  have opened: "opened [] (create_stim\<lparr>is_open := True\<rparr>)" by (simp add: opened_def create_stim_def)
  from archive_keeps_pattern [OF st sample_dots_full sample_fields(2-5,1) sample_units stored_restores] obtain m st' where
    m: "stim_serialize_to_path (\<lambda>bs. bs) (\<lambda>src n. Some src) st = Inr (m, st')"
    and reads: "\<And>bytes decode s0. opened bytes s0 \<and> decode bytes = Some m \<Longrightarrow>
      \<exists>r r'. stim_deserialize decode s0 = Inr r \<and> same_stim st r \<and>
        drain (Suc (unit_num_chunks ARTIX_SELECT_A1 r)) (next_chunk (\<lambda>src n. Some src) ARTIX_SELECT_A1) collect_chunk r [] =
          Inr (r', concat (map (compile_vec ARTIX_SELECT_A1 [data_pin 0, data_pin 1])
            (map clocked [new_vec 2 (''3'', ''V01''), new_vec 2 (''1'', ''VCX'')] @
              replicate (num_padding_vecs st) (nop_vec 2))))"
    unfolding sample_fields(6,7) select_units.simps by fastforce
  from reads [of "[]" "create_stim\<lparr>is_open := True\<rparr>" "\<lambda>bs. Some m"] opened st m show ?thesis by blast
qed

end
