(* ===== verification/Sha256.thy ===== *)
theory Sha256
  imports Gcore_Prelude
begin

unbundle bit_operations_syntax

text \<open>
  lib/sha2/sha-256.c, the hash of passwords: the compression of a chunk with sixteen words of the
  message schedule, and hashing data that arrives in pieces. The theory states SHA-256 as FIPS 180-4
  does, on a whole padded message with the schedule of 64 words, and shows that the code computes it however
  the data is divided. The round constants are one table, the one of the source, for both. \<^verbatim>\<open>size_t\<close> has 64 bits here.
\<close>

section \<open>The code\<close>

definition right_rot :: "u32 \<Rightarrow> nat \<Rightarrow> u32" where
  "right_rot val cnt = drop_bit cnt val OR push_bit (32 - cnt) val"

text \<open>The table of constants, by the rows that the source writes it in.\<close>

definition round_constants :: "u32 list" where
  "round_constants = concat
    [[0x428a2f98, 0x71374491, 0xb5c0fbcf, 0xe9b5dba5, 0x3956c25b, 0x59f111f1, 0x923f82a4],
     [0xab1c5ed5, 0xd807aa98, 0x12835b01, 0x243185be, 0x550c7dc3, 0x72be5d74, 0x80deb1fe],
     [0x9bdc06a7, 0xc19bf174, 0xe49b69c1, 0xefbe4786, 0x0fc19dc6, 0x240ca1cc, 0x2de92c6f],
     [0x4a7484aa, 0x5cb0a9dc, 0x76f988da, 0x983e5152, 0xa831c66d, 0xb00327c8, 0xbf597fc7],
     [0xc6e00bf3, 0xd5a79147, 0x06ca6351, 0x14292967, 0x27b70a85, 0x2e1b2138, 0x4d2c6dfc],
     [0x53380d13, 0x650a7354, 0x766a0abb, 0x81c2c92e, 0x92722c85, 0xa2bfe8a1, 0xa81a664b],
     [0xc24b8b70, 0xc76c51a3, 0xd192e819, 0xd6990624, 0xf40e3585, 0x106aa070, 0x19a4c116],
     [0x1e376c08, 0x2748774c, 0x34b0bcb5, 0x391c0cb3, 0x4ed8aa4a, 0x5b9cca4f, 0x682e6ff3],
     [0x748f82ee, 0x78a5636f, 0x84c87814, 0x8cc70208, 0x90befffa, 0xa4506ceb, 0xbef9a3f7],
     [0xc67178f2]]"

text \<open>The word that a round reads from the chunk or makes from the sixteen words. \<open>w\<close> starts unset in the code;
  the rounds of \<open>i = 0\<close> set all of it.\<close>

definition chunk_word :: "u8 list \<Rightarrow> nat \<Rightarrow> u32" where
  "chunk_word p n =
     push_bit 24 (ucast (p ! n)) OR push_bit 16 (ucast (p ! (n + 1))) OR push_bit 8 (ucast (p ! (n + 2))) OR ucast (p ! (n + 3))"

definition update_w :: "u8 list \<Rightarrow> nat \<Rightarrow> nat \<Rightarrow> u32 list \<Rightarrow> u32 list" where
  "update_w p i j w =
     (if i = 0 then w[j := chunk_word p (4 * j)]
      else
        let x = w ! ((j + 1) mod 16); y = w ! ((j + 14) mod 16);
            s0 = right_rot x 7 XOR right_rot x 18 XOR drop_bit 3 x;
            s1 = right_rot y 17 XOR right_rot y 19 XOR drop_bit 10 y in
        w[j := w ! j + s0 + w ! ((j + 9) mod 16) + s1])"

definition sha_round :: "u32 \<Rightarrow> u32 \<Rightarrow> u32 list \<Rightarrow> u32 list" where
  "sha_round k wj ah =
     (let s1 = right_rot (ah ! 4) 6 XOR right_rot (ah ! 4) 11 XOR right_rot (ah ! 4) 25;
          ch = (ah ! 4 AND ah ! 5) XOR (NOT (ah ! 4) AND ah ! 6);
          temp1 = ah ! 7 + s1 + ch + k + wj;
          s0 = right_rot (ah ! 0) 2 XOR right_rot (ah ! 0) 13 XOR right_rot (ah ! 0) 22;
          maj = (ah ! 0 AND ah ! 1) XOR (ah ! 0 AND ah ! 2) XOR (ah ! 1 AND ah ! 2);
          temp2 = s0 + maj in
      [temp1 + temp2, ah ! 0, ah ! 1, ah ! 2, ah ! 3 + temp1, ah ! 4, ah ! 5, ah ! 6])"

definition inner_loop :: "u8 list \<Rightarrow> nat \<Rightarrow> nat \<Rightarrow> u32 list \<times> u32 list \<Rightarrow> u32 list \<times> u32 list" where
  "inner_loop p i j = (\<lambda>(ah, w).
     let w = update_w p i j w in (sha_round (round_constants ! (16 * i + j)) (w ! j) ah, w))"

definition consume_chunk :: "u32 list \<Rightarrow> u8 list \<Rightarrow> u32 list" where
  "consume_chunk h p =
     (let (ah, w) = foldl (\<lambda>s i. foldl (\<lambda>s j. inner_loop p i j s) s [0..<16]) (h, replicate 16 0) [0..<4] in
      map2 (+) h ah)"

text \<open>The chunk is represented by its bytes before \<^verbatim>\<open>chunk_pos\<close>.\<close>

record Sha_256 =
  sha_chunk :: "u8 list"
  space_left :: nat
  total_len :: u64
  sha_h :: "u32 list"

definition SIZE_OF_SHA_256_CHUNK :: nat where "SIZE_OF_SHA_256_CHUNK = 64"

definition sha_256_init :: Sha_256 where
  "sha_256_init =
     \<lparr>sha_chunk = [], space_left = SIZE_OF_SHA_256_CHUNK, total_len = 0,
      sha_h = [0x6a09e667, 0xbb67ae85, 0x3c6ef372, 0xa54ff53a, 0x510e527f, 0x9b05688c, 0x1f83d9ab, 0x5be0cd19]\<rparr>"

function write_loop :: "u8 list \<Rightarrow> Sha_256 \<Rightarrow> Sha_256" where
  "write_loop p s =
     (if p = [] then s
      else if space_left s = SIZE_OF_SHA_256_CHUNK \<and> SIZE_OF_SHA_256_CHUNK \<le> length p then
        write_loop (drop SIZE_OF_SHA_256_CHUNK p)
          (s\<lparr>sha_h := consume_chunk (sha_h s) (take SIZE_OF_SHA_256_CHUNK p)\<rparr>)
      else
        let consumed_len = (if length p < space_left s then length p else space_left s);
            full = sha_chunk s @ take consumed_len p;
            left = space_left s - consumed_len in
        if left = 0 then
          write_loop (drop consumed_len p)
            (s\<lparr>sha_h := consume_chunk (sha_h s) full, sha_chunk := [], space_left := SIZE_OF_SHA_256_CHUNK\<rparr>)
        else write_loop (drop consumed_len p) (s\<lparr>sha_chunk := full, space_left := left\<rparr>))"
  by pat_completeness auto

termination
  by (relation "measure (\<lambda>(p, s). 2 * length p + (if space_left s = 0 then 1 else 0))")
    (auto simp: SIZE_OF_SHA_256_CHUNK_def)

declare write_loop.simps [simp del]

definition sha_256_write :: "Sha_256 \<Rightarrow> u8 list \<Rightarrow> Sha_256" where
  "sha_256_write s p = write_loop p (s\<lparr>total_len := total_len s + of_nat (length p)\<rparr>)"

definition TOTAL_LEN_LEN :: nat where "TOTAL_LEN_LEN = 8"

text \<open>The last eight bytes are the length in bits: the lowest of them, then the others from the lowest.\<close>

definition len_bytes :: "u64 \<Rightarrow> u8 list" where
  "len_bytes len = rev (ucast (push_bit 3 len) # map (\<lambda>k. ucast (drop_bit (8 * k) (drop_bit 5 len))) [0..<7])"

definition hash_bytes :: "u32 list \<Rightarrow> u8 list" where
  "hash_bytes h = concat (map (\<lambda>x. [ucast (drop_bit 24 x), ucast (drop_bit 16 x), ucast (drop_bit 8 x), ucast x]) h)"

definition sha_256_close :: "Sha_256 \<Rightarrow> u8 list" where
  "sha_256_close s =
     (let chunk = sha_chunk s @ [0x80]; space_left = space_left s - 1;
          (h, chunk, space_left) =
            (if space_left < TOTAL_LEN_LEN then
               (consume_chunk (sha_h s) (chunk @ replicate space_left 0), [], SIZE_OF_SHA_256_CHUNK)
             else (sha_h s, chunk, space_left));
          left = space_left - TOTAL_LEN_LEN in
      hash_bytes (consume_chunk h (chunk @ replicate left 0 @ len_bytes (total_len s))))"

definition calc_sha_256 :: "u8 list \<Rightarrow> u8 list" where
  "calc_sha_256 input = sha_256_close (sha_256_write sha_256_init input)"

section \<open>The standard\<close>

text \<open>FIPS 180-4: functions on words, the message schedule, padding, and the iteration over the blocks.\<close>

definition big_sigma0 :: "u32 \<Rightarrow> u32" where
  "big_sigma0 x = word_rotr 2 x XOR word_rotr 13 x XOR word_rotr 22 x"

definition big_sigma1 :: "u32 \<Rightarrow> u32" where
  "big_sigma1 x = word_rotr 6 x XOR word_rotr 11 x XOR word_rotr 25 x"

definition small_sigma0 :: "u32 \<Rightarrow> u32" where
  "small_sigma0 x = word_rotr 7 x XOR word_rotr 18 x XOR drop_bit 3 x"

definition small_sigma1 :: "u32 \<Rightarrow> u32" where
  "small_sigma1 x = word_rotr 17 x XOR word_rotr 19 x XOR drop_bit 10 x"

definition choose_bits :: "u32 \<Rightarrow> u32 \<Rightarrow> u32 \<Rightarrow> u32" where
  "choose_bits x y z = (x AND y) XOR (NOT x AND z)"

definition majority_bits :: "u32 \<Rightarrow> u32 \<Rightarrow> u32 \<Rightarrow> u32" where
  "majority_bits x y z = (x AND y) XOR (x AND z) XOR (y AND z)"

definition block_word :: "u8 list \<Rightarrow> nat \<Rightarrow> u32" where
  "block_word block t =
     word_rcat [block ! (4 * t), block ! (4 * t + 1), block ! (4 * t + 2), block ! (4 * t + 3)]"

fun schedule :: "u8 list \<Rightarrow> nat \<Rightarrow> u32" where
  "schedule block t =
     (if t < 16 then block_word block t
      else small_sigma1 (schedule block (t - 2)) + schedule block (t - 7) +
        small_sigma0 (schedule block (t - 15)) + schedule block (t - 16))"

declare schedule.simps [simp del]

type_synonym hash_words = "u32 \<times> u32 \<times> u32 \<times> u32 \<times> u32 \<times> u32 \<times> u32 \<times> u32"

fun standard_round :: "u32 \<Rightarrow> u32 \<Rightarrow> hash_words \<Rightarrow> hash_words" where
  "standard_round k w (a, b, c, d, e, f, g, h) =
     (let t1 = h + big_sigma1 e + choose_bits e f g + k + w; t2 = big_sigma0 a + majority_bits a b c in
      (t1 + t2, a, b, c, d + t1, e, f, g))"

fun standard_rounds :: "u8 list \<Rightarrow> nat \<Rightarrow> hash_words \<Rightarrow> hash_words" where
  "standard_rounds block 0 s = s"
| "standard_rounds block (Suc t) s =
     standard_round (round_constants ! t) (schedule block t) (standard_rounds block t s)"

fun words_list :: "hash_words \<Rightarrow> u32 list" where
  "words_list (a, b, c, d, e, f, g, h) = [a, b, c, d, e, f, g, h]"

fun add_words :: "hash_words \<Rightarrow> hash_words \<Rightarrow> hash_words" where
  "add_words (a, b, c, d, e, f, g, h) (a', b', c', d', e', f', g', h') =
     (a + a', b + b', c + c', d + d', e + e', f + f', g + g', h + h')"

definition compress :: "hash_words \<Rightarrow> u8 list \<Rightarrow> hash_words" where
  "compress s block = add_words s (standard_rounds block 64 s)"

function blocks :: "u8 list \<Rightarrow> u8 list list" where
  "blocks m = (if length m < 64 then [] else take 64 m # blocks (drop 64 m))"
  by pat_completeness auto

termination
  by (relation "measure length") auto

declare blocks.simps [simp del]

definition initial_words :: hash_words where
  "initial_words = (0x6a09e667, 0xbb67ae85, 0x3c6ef372, 0xa54ff53a, 0x510e527f, 0x9b05688c, 0x1f83d9ab, 0x5be0cd19)"

definition padded_message :: "u8 list \<Rightarrow> u8 list" where
  "padded_message m = m @ 0x80 # replicate ((119 - length m mod 64) mod 64) 0 @
     map (\<lambda>k. of_nat (8 * length m div 256 ^ k)) (rev [0..<8])"

definition word_bytes :: "u32 \<Rightarrow> u8 list" where
  "word_bytes x = map (\<lambda>k. of_nat (unat x div 256 ^ k)) [3, 2, 1, 0]"

definition SHA256 :: "u8 list \<Rightarrow> u8 list" where
  "SHA256 m = concat (map word_bytes (words_list (foldl compress initial_words (blocks (padded_message m)))))"

section \<open>A chunk\<close>

lemma right_rot_rotr:
  assumes "0 < n" and "n < 32"
  shows "right_rot x n = word_rotr n x"
proof (rule bit_word_eqI)
  fix k assume "k < LENGTH(32)"
  then have k: "k < 32" by simp
  show "bit (right_rot x n) k = bit (word_rotr n x) k"
  proof (cases "k + n < 32")
    case True
    then have "\<not> 32 - n \<le> k" by linarith
    then show ?thesis using assms k True
      by (simp add: right_rot_def bit_or_iff bit_drop_bit_eq bit_push_bit_iff bit_word_rotr_iff add.commute)
  next
    case False
    then have "(k + n) mod 32 = k + n - 32" using assms k by (simp add: mod_if)
    then show ?thesis using assms k False
      by (auto simp: right_rot_def bit_or_iff bit_drop_bit_eq bit_push_bit_iff bit_word_rotr_iff dest: bit_imp_le_length)
  qed
qed

lemma chunk_block_word: "chunk_word p (4 * t) = block_word p t"
proof (rule bit_word_eqI)
  fix n assume "n < LENGTH(32)"
  then have n: "n < 32" by simp
  have r: "bit (block_word p t) n =
      bit ([p ! (4 * t + 3), p ! (4 * t + 2), p ! (4 * t + 1), p ! (4 * t)] ! (n div 8)) (n mod 8)"
    using n bit_horner_sum_uint_exp_iff [of "[p ! (4 * t + 3), p ! (4 * t + 2), p ! (4 * t + 1), p ! (4 * t)]" n]
    by (simp add: block_word_def word_rcat_def bit_word_of_int_iff less_mult_imp_div_less del: horner_sum_simps)
  consider "n < 8" | "8 \<le> n" "n < 16" | "16 \<le> n" "n < 24" | "24 \<le> n" by linarith
  then show "bit (chunk_word p (4 * t)) n = bit (block_word p t) n"
  proof cases
    case 1
    then show ?thesis unfolding r by (simp add: chunk_word_def bit_or_iff bit_push_bit_iff bit_ucast_iff)
  next
    case 2
    then have "n div 8 = 1" "n mod 8 = n - 8" by (auto simp: mod_if div_if)
    then show ?thesis using 2 n unfolding r
      by (auto simp: chunk_word_def bit_or_iff bit_push_bit_iff bit_ucast_iff dest: bit_imp_le_length)
  next
    case 3
    then have "n div 8 = 2" "n mod 8 = n - 16" by (auto simp: mod_if div_if)
    then show ?thesis using 3 n unfolding r
      by (auto simp: chunk_word_def bit_or_iff bit_push_bit_iff bit_ucast_iff dest: bit_imp_le_length)
  next
    case 4
    then have "n div 8 = 3" "n mod 8 = n - 24" using n by (auto simp: mod_if div_if)
    then show ?thesis using 4 n unfolding r
      by (auto simp: chunk_word_def bit_or_iff bit_push_bit_iff bit_ucast_iff dest: bit_imp_le_length)
  qed
qed

lemma foldl_less_induct:
  assumes "P 0 s" and "\<And>k s. k < n \<Longrightarrow> P k s \<Longrightarrow> P (Suc k) (f s k)"
  shows "P n (foldl f s [0..<n])"
proof -
  have "k \<le> n \<Longrightarrow> P k (foldl f s [0..<k])" for k
    by (induction k) (simp_all add: assms)
  then show ?thesis by simp
qed

text \<open>After some rounds, the sixteen words are the last sixteen of the schedule.\<close>

definition after_rounds :: "u8 list \<Rightarrow> hash_words \<Rightarrow> nat \<Rightarrow> u32 list \<times> u32 list \<Rightarrow> bool" where
  "after_rounds p s r st \<longleftrightarrow> fst st = words_list (standard_rounds p r s) \<and> length (snd st) = 16 \<and>
     (\<forall>t<r. r \<le> t + 16 \<longrightarrow> snd st ! (t mod 16) = schedule p t)"

lemma round_words:
  "words_list (standard_round k w s) = sha_round k w (words_list s)"
  by (cases s rule: words_list.cases) (simp add: sha_round_def Let_def big_sigma0_def big_sigma1_def choose_bits_def majority_bits_def right_rot_rotr)

lemma round_step:
  assumes "after_rounds p s (16 * i + j) st" and "j < 16"
  shows "after_rounds p s (Suc (16 * i + j)) (inner_loop p i j st)"
proof -
  obtain ah w where st: "st = (ah, w)" by fastforce
  let ?t = "16 * i + j"
  have ah: "ah = words_list (standard_rounds p ?t s)" and len: "length w = 16"
    and w: "\<And>t. t < ?t \<Longrightarrow> ?t \<le> t + 16 \<Longrightarrow> w ! (t mod 16) = schedule p t"
    using assms(1) by (auto simp: after_rounds_def st)
  have new: "update_w p i j w = w[j := schedule p ?t]"
  proof (cases "i = 0")
    case True
    then show ?thesis using assms(2) by (simp add: update_w_def schedule.simps [of p j] chunk_block_word)
  next
    case False
    then obtain i' where i: "i = Suc i'" by (cases i) auto
    have "w ! ((j + d) mod 16) = schedule p (16 * i' + (j + d))" if "d < 16" for d
      using w [of "16 * i' + (j + d)"] that assms(2) unfolding mod_mult_self4 i by simp
    from this [of 1] this [of 14] this [of 9] this [of 0]
    have "w ! ((j + 1) mod 16) = schedule p (?t - 15)" "w ! ((j + 14) mod 16) = schedule p (?t - 2)"
      "w ! ((j + 9) mod 16) = schedule p (?t - 7)" "w ! j = schedule p (?t - 16)"
      using assms(2) by (simp_all add: i ac_simps)
    note words = this
    have "schedule p ?t = schedule p (?t - 16) + small_sigma0 (schedule p (?t - 15)) + schedule p (?t - 7) + small_sigma1 (schedule p (?t - 2))"
      using schedule.simps [of p ?t] by (simp add: i add.commute add.left_commute)
    moreover have "update_w p i j w = w[j := w ! j + small_sigma0 (w ! ((j + 1) mod 16)) + w ! ((j + 9) mod 16) + small_sigma1 (w ! ((j + 14) mod 16))]"
      using False by (simp add: update_w_def Let_def right_rot_rotr small_sigma0_def small_sigma1_def)
    ultimately show ?thesis by (simp only: words)
  qed
  have "w[j := schedule p ?t] ! (t mod 16) = schedule p t" if "t < Suc ?t" "Suc ?t \<le> t + 16" for t
  proof (cases "t = ?t")
    case True
    then show ?thesis using assms(2) len by simp
  next
    case False
    then have "t mod 16 \<noteq> j"
    proof -
      have "?t - t < 16" "t < ?t" using that False by auto
      then show ?thesis using assms(2) by (metis less_imp_le mod_mult_self4 mod_less mod_eq_dvd_iff_nat nat_dvd_not_less zero_less_diff)
    qed
    then show ?thesis using w [of t] that False by simp
  qed
  then show ?thesis using assms(2) len ah
    by (simp add: after_rounds_def inner_loop_def st new round_words)
qed

lemma inner_rounds:
  assumes "after_rounds p s (16 * i) st"
  shows "after_rounds p s (16 * Suc i) (foldl (\<lambda>s j. inner_loop p i j s) st [0..<16])"
proof -
  have "after_rounds p s (16 * i + 16) (foldl (\<lambda>s j. inner_loop p i j s) st [0..<16])"
    by (rule foldl_less_induct [where P = "\<lambda>k. after_rounds p s (16 * i + k)"]) (use assms round_step in auto)
  then show ?thesis by (simp add: add.commute)
qed

lemma consume_compress: "consume_chunk (words_list s) p = words_list (compress s p)"
proof -
  have "after_rounds p s (16 * 0) (words_list s, replicate 16 0)" by (simp add: after_rounds_def)
  then have "after_rounds p s (16 * 4) (foldl (\<lambda>s i. foldl (\<lambda>s j. inner_loop p i j s) s [0..<16]) (words_list s, replicate 16 0) [0..<4])"
    by (intro foldl_less_induct [where P = "\<lambda>k. after_rounds p s (16 * k)"] inner_rounds)
  then have "consume_chunk (words_list s) p = map2 (+) (words_list s) (words_list (standard_rounds p 64 s))"
    by (simp add: consume_chunk_def after_rounds_def case_prod_unfold)
  also have "\<dots> = words_list (compress s p)"
    unfolding compress_def
    by (cases s rule: words_list.cases; cases "standard_rounds p 64 s" rule: words_list.cases) simp
  finally show ?thesis .
qed

section \<open>Data in pieces\<close>

text \<open>What a state stands for: the message that was written so far.\<close>

definition hashes :: "Sha_256 \<Rightarrow> u8 list \<Rightarrow> bool" where
  "hashes s m \<longleftrightarrow> (\<exists>pre. m = pre @ sha_chunk s \<and> length pre mod 64 = 0 \<and> length (sha_chunk s) < 64 \<and>
     sha_h s = words_list (foldl compress initial_words (blocks pre)) \<and> space_left s = 64 - length (sha_chunk s))"

lemma blocks_append: "length m mod 64 = 0 \<Longrightarrow> blocks (m @ d) = blocks m @ blocks d"
proof (induction m rule: blocks.induct)
  case (1 m)
  show ?case
  proof (cases "length m < 64")
    case True
    then show ?thesis using 1(2) by (simp add: blocks.simps)
  next
    case False
    then have "length (drop 64 m) mod 64 = 0" using 1(2) by (simp add: mod_eq_0_iff_dvd)
    then show ?thesis using False 1(1) by (simp add: blocks.simps [of "m @ d"] blocks.simps [of m])
  qed
qed

lemma blocks_one: "length b = 64 \<Longrightarrow> blocks (b @ m) = b # blocks m"
  by (simp add: blocks.simps [of "b @ m"])

lemma blocks_Nil: "blocks [] = []"
  by (simp add: blocks.simps)

lemma hashes_chunk:
  assumes "m = pre @ b" and "length pre mod 64 = 0" and "length b = 64"
    and "sha_h s = consume_chunk (words_list (foldl compress initial_words (blocks pre))) b"
    and "sha_chunk s = []" and "space_left s = 64"
  shows "hashes s m"
proof -
  have "blocks (pre @ b) = blocks pre @ [b]" using blocks_append [OF assms(2)] blocks_one [OF assms(3), of "[]"] by (simp add: blocks_Nil)
  then show ?thesis using assms unfolding hashes_def by (intro exI [of _ m]) (simp add: consume_compress)
qed

lemma write_loop_hashes: "hashes s m \<Longrightarrow> hashes (write_loop p s) (m @ p)"
proof (induction p s arbitrary: m rule: write_loop.induct)
  case (1 p s)
  from 1(4) obtain pre where pre: "m = pre @ sha_chunk s" "length pre mod 64 = 0" "length (sha_chunk s) < 64"
    "sha_h s = words_list (foldl compress initial_words (blocks pre))" "space_left s = 64 - length (sha_chunk s)"
    unfolding hashes_def by (elim exE conjE) (rule that)
  consider "p = []" | "p \<noteq> []" "space_left s = 64" "64 \<le> length p" | "p \<noteq> []" "\<not> (space_left s = 64 \<and> 64 \<le> length p)" by blast
  then show ?case
  proof cases
    case 1
    then show ?thesis using \<open>hashes s m\<close> by (simp add: write_loop.simps)
  next
    case 2
    let ?s = "s\<lparr>sha_h := consume_chunk (sha_h s) (take SIZE_OF_SHA_256_CHUNK p)\<rparr>"
    have empty: "sha_chunk s = []" using pre(3,5) 2(2) by (cases "sha_chunk s") auto
    have "hashes ?s (m @ take 64 p)"
      by (rule hashes_chunk [of _ m "take 64 p"]) (use pre 2 empty in \<open>simp_all add: SIZE_OF_SHA_256_CHUNK_def\<close>)
    with 1(1) [of "m @ take 64 p"] 2 have "hashes (write_loop (drop 64 p) ?s) ((m @ take 64 p) @ drop 64 p)"
      by (simp add: SIZE_OF_SHA_256_CHUNK_def)
    then show ?thesis using 2 by (simp add: write_loop.simps [of p s] SIZE_OF_SHA_256_CHUNK_def)
  next
    case 3
    let ?n = "if length p < space_left s then length p else space_left s"
    show ?thesis
    proof (cases "space_left s - ?n = 0")
      case True
      then have n: "?n = space_left s" "space_left s \<le> length p" by (auto split: if_splits)
      let ?s = "s\<lparr>sha_h := consume_chunk (sha_h s) (sha_chunk s @ take (space_left s) p), sha_chunk := [], space_left := SIZE_OF_SHA_256_CHUNK\<rparr>"
      have "length (sha_chunk s @ take (space_left s) p) = 64" using n(2) pre(3,5) by simp
      then have "hashes ?s (m @ take (space_left s) p)"
        by (intro hashes_chunk [of _ pre "sha_chunk s @ take (space_left s) p"]) (simp_all add: pre SIZE_OF_SHA_256_CHUNK_def)
      from 1(2) [OF 3(1) _ refl refl refl True, unfolded n(1), OF _ this] 3
      have "hashes (write_loop (drop (space_left s) p) ?s) ((m @ take (space_left s) p) @ drop (space_left s) p)"
        by (simp add: SIZE_OF_SHA_256_CHUNK_def)
      then show ?thesis using 3 n by (simp add: write_loop.simps [of p s] SIZE_OF_SHA_256_CHUNK_def Let_def)
    next
      case False
      then have n: "?n = length p" "length p < space_left s" by (auto split: if_splits)
      let ?s = "s\<lparr>sha_chunk := sha_chunk s @ take ?n p, space_left := space_left s - ?n\<rparr>"
      have "hashes ?s (m @ p)"
        unfolding hashes_def using pre n(2) by (intro exI [of _ pre]) auto
      then show ?thesis using 3 n(2) by (auto simp: write_loop.simps SIZE_OF_SHA_256_CHUNK_def Let_def)
    qed
  qed
qed

lemma write_loop_len: "total_len (write_loop p s) = total_len s"
proof (induction p s rule: write_loop.induct)
  case (1 p s)
  then show ?case by (simp add: write_loop.simps [of p s] Let_def)
qed

definition received_all :: "Sha_256 \<Rightarrow> u8 list \<Rightarrow> bool" where
  "received_all s m \<longleftrightarrow> hashes s m \<and> total_len s = of_nat (length m)"

lemma init_received: "received_all sha_256_init []"
  by (simp add: received_all_def hashes_def sha_256_init_def SIZE_OF_SHA_256_CHUNK_def initial_words_def blocks_Nil)

lemma write_received: "received_all s m \<Longrightarrow> received_all (sha_256_write s p) (m @ p)"
proof -
  assume "received_all s m"
  then have "hashes (s\<lparr>total_len := total_len s + of_nat (length p)\<rparr>) m" by (simp add: received_all_def hashes_def)
  then show ?thesis using write_loop_hashes \<open>received_all s m\<close> by (simp add: sha_256_write_def received_all_def write_loop_len)
qed

lemma writes_received: "received_all s m \<Longrightarrow> received_all (foldl sha_256_write s ds) (m @ concat ds)"
proof (induction ds arbitrary: s m)
  case (Cons d ds)
  then show ?case using Cons.IH [OF write_received [OF Cons.prems]] by simp
qed simp

section \<open>The end of the data\<close>

lemma ucast_unat: "ucast x = of_nat (unat x)"
  by simp

lemma ucast_of_nat_u8: "n < 2 ^ 64 \<Longrightarrow> (ucast (of_nat n :: u64) :: u8) = of_nat n"
  by (simp add: unsigned_of_nat take_bit_nat_eq_self)

lemma len_bytes_value:
  assumes "n < 2 ^ 61"
  shows "len_bytes (of_nat n) = map (\<lambda>k. of_nat (8 * n div 256 ^ k)) (rev [0..<8])"
proof -
  have "push_bit 3 (of_nat n :: u64) = of_nat (8 * n)" by (simp add: push_bit_eq_mult)
  then have low: "ucast (push_bit 3 (of_nat n :: u64)) = (of_nat (8 * n) :: u8)"
    using ucast_of_nat_u8 [of "8 * n"] assms by simp
  have high: "ucast (drop_bit (8 * k) (drop_bit 5 (of_nat n :: u64))) = (of_nat (8 * n div 256 ^ Suc k) :: u8)" for k
  proof -
    have "unat (drop_bit (8 * k) (drop_bit 5 (of_nat n :: u64))) = drop_bit (8 * k) (drop_bit 5 (unat (of_nat n :: u64)))"
      by (simp only: unat_drop_bit_eq)
    also have "unat (of_nat n :: u64) = n" using assms by (simp add: unat_of_nat)
    also have "drop_bit (8 * k) (drop_bit 5 n) = n div 2 ^ (8 * k + 5)" unfolding drop_bit_drop_bit by (rule drop_bit_eq_div)
    also have "\<dots> = 8 * n div (8 * 2 ^ (8 * k + 5))" by simp
    also have "8 * 2 ^ (8 * k + 5) = (256 ^ Suc k :: nat)" by (simp add: power_add power_mult)
    finally show ?thesis by (simp add: ucast_unat del: of_nat_unat)
  qed
  have "map (\<lambda>k. ucast (drop_bit (8 * k) (drop_bit 5 (of_nat n :: u64)))) [0..<7] = map (\<lambda>k. of_nat (8 * n div 256 ^ Suc k) :: u8) [0..<7]"
    by (simp only: high)
  also have "\<dots> = map (\<lambda>k. of_nat (8 * n div 256 ^ k)) [1..<8]"
    by (rule nth_equalityI) simp_all
  finally show ?thesis unfolding len_bytes_def low by (simp add: rev_map upt_rec)
qed

lemma hash_bytes_words: "hash_bytes h = concat (map word_bytes h)"
proof -
  have "unat (drop_bit k x) = unat x div 2 ^ k" for k and x :: u32
    unfolding unat_drop_bit_eq by (rule drop_bit_eq_div)
  moreover have "word_bytes = (\<lambda>x. [of_nat (unat x div 2 ^ 24), of_nat (unat x div 2 ^ 16), of_nat (unat x div 2 ^ 8), of_nat (unat x)])"
    by (rule ext) (simp add: word_bytes_def)
  ultimately show ?thesis by (simp add: hash_bytes_def ucast_unat del: of_nat_unat)
qed

lemma close_received:
  assumes "received_all s m" and "length m < 2 ^ 61"
  shows "sha_256_close s = SHA256 m"
proof -
  from assms(1) obtain pre where pre: "m = pre @ sha_chunk s" "length pre mod 64 = 0" "length (sha_chunk s) < 64"
    "sha_h s = words_list (foldl compress initial_words (blocks pre))" "space_left s = 64 - length (sha_chunk s)"
    unfolding received_all_def hashes_def by (elim exE conjE) (rule that)
  let ?r = "length (sha_chunk s)"
  let ?len = "len_bytes (total_len s)"
  have len: "?len = map (\<lambda>k. of_nat (8 * length m div 256 ^ k)) (rev [0..<8])" "length ?len = 8"
    using assms len_bytes_value by (simp_all add: received_all_def len_bytes_def)
  have r: "length m mod 64 = ?r" using pre(1-3) by (simp add: mod_add_left_eq [symmetric])
  have padded: "blocks (padded_message m) = blocks pre @ blocks (sha_chunk s @ 0x80 # replicate ((119 - ?r) mod 64) 0 @ ?len)"
  proof -
    have "padded_message m = pre @ sha_chunk s @ 0x80 # replicate ((119 - ?r) mod 64) 0 @ ?len"
      unfolding padded_message_def r len(1) by (subst (1) pre(1)) simp
    then show ?thesis using blocks_append [OF pre(2)] by simp
  qed
  show ?thesis
  proof (cases "?r < 56")
    case True
    then have "\<not> 64 - ?r - 1 < 8" "(119 - ?r) mod 64 = 55 - ?r" "64 - ?r - 1 - 8 = 55 - ?r" by (simp_all add: mod_if)
    moreover have "blocks (sha_chunk s @ 0x80 # replicate (55 - ?r) 0 @ ?len) = [sha_chunk s @ 0x80 # replicate (55 - ?r) 0 @ ?len]"
      using True len(2) blocks_one [of "sha_chunk s @ 0x80 # replicate (55 - ?r) 0 @ ?len" "[]"] by (simp add: blocks_Nil)
    ultimately show ?thesis
      by (simp add: sha_256_close_def Let_def pre(4,5) TOTAL_LEN_LEN_def consume_compress hash_bytes_words SHA256_def padded
        del: diff_diff_left)
  next
    case False
    let ?one = "sha_chunk s @ 0x80 # replicate (63 - ?r) 0"
    have few: "64 - ?r - 1 < 8" "64 - ?r - 1 = 63 - ?r" using False pre(3) by linarith+
    have z: "(119 - ?r) mod 64 = (63 - ?r) + 56" using False pre(3) by (simp add: mod_if)
    have b: "blocks (?one @ replicate 56 0 @ ?len) = [?one, replicate 56 0 @ ?len]"
      using False pre(3) len(2) blocks_one [of ?one] blocks_one [of "replicate 56 0 @ ?len" "[]"] by (simp add: blocks_Nil)
    have "blocks (padded_message m) = blocks pre @ [?one, replicate 56 0 @ ?len]"
      using b unfolding padded z replicate_add by simp
    then show ?thesis using few
      by (simp add: sha_256_close_def Let_def pre(4,5) TOTAL_LEN_LEN_def SIZE_OF_SHA_256_CHUNK_def consume_compress hash_bytes_words SHA256_def)
  qed
qed

text \<open>C22. The hash that the code computes is SHA-256 of FIPS 180-4, for all data shorter than the standard's limit, however it
  is divided into the pieces that are written: the sixteen words that the rounds rotate through hold the message schedule,
  the fast path for whole chunks and the buffer yield the blocks of the message, and closing pads them.\<close>

theorem sha_256_is_standard:
  assumes "length (concat ds) < 2 ^ 61"
  shows "sha_256_close (foldl sha_256_write sha_256_init ds) = SHA256 (concat ds)"
  using close_received [OF _ assms] writes_received [OF init_received, of ds] by simp

theorem sha_256_is_standard_witness:
  "length (concat [[0x61, 0x62], [], [0x63 :: u8]]) < 2 ^ 61 \<and>
    sha_256_close (foldl sha_256_write sha_256_init [[0x61, 0x62], [], [0x63]]) = SHA256 [0x61, 0x62, 0x63]"
  using sha_256_is_standard [of "[[0x61, 0x62], [], [0x63]]"] by simp

lemma calc_sha_256_standard: "length m < 2 ^ 61 \<Longrightarrow> calc_sha_256 m = SHA256 m"
  using close_received [OF write_received [OF init_received]] by (simp add: calc_sha_256_def)

lemma calc_sha_256_length: "length (calc_sha_256 m) = 32"
proof -
  let ?s = "sha_256_write sha_256_init m"
  have h: "hashes ?s m" using write_received [OF init_received, of m] by (simp add: received_all_def)
  have words: "\<exists>t. sha_h ?s = words_list t" using h unfolding hashes_def by metis
  have len: "length (hash_bytes (words_list t)) = 32" for t by (cases t rule: words_list.cases) (simp add: hash_bytes_def)
  from words obtain t where "sha_h ?s = words_list t" by (elim exE)
  then show ?thesis by (simp add: calc_sha_256_def sha_256_close_def Let_def consume_compress len)
qed

end
