(* ===== verification/Db.thy ===== *)
theory Db
  imports Util_Time Sha256
begin

text \<open>
  The database of jobs, programs and results: db.c, with the schema of sql.h. Every function of db.c
  prepares a statement from its text, binds values to it and steps through its rows; the model keeps
  the text and the values as the code builds them.

  SQLite is a parameter: whether a text can be prepared, and what stepping a statement yields, given
  all statements that were stepped before. A deterministic library can depend on nothing else that
  this process does. A database that is NULL, which every function refuses first, is not an argument
  of the model's functions.
\<close>

section \<open>Statements\<close>

datatype sql_value = Sql_null | Sql_int int | Sql_text string

text \<open>\<open>finished\<close>: after the rows, stepping reports \<^verbatim>\<open>SQLITE_DONE\<close> and no error.\<close>

record sql_reply =
  rows :: "sql_value list list"
  finished :: bool
  last_rowid :: int

type_synonym db_history = "(string \<times> sql_value list) list"

record sqlite =
  prepares :: "db_history \<Rightarrow> string \<Rightarrow> bool"
  steps :: "db_history \<Rightarrow> sql_reply"

datatype connection = No_connection | Connected | Closed

record database =
  is_open :: bool
  conn :: connection
  log :: db_history

text \<open>A statement on a connection that is NULL is not prepared; one that was closed is freed memory.\<close>

definition db_prepare :: "sqlite \<Rightarrow> string \<Rightarrow> database \<Rightarrow> bool res" where
  "db_prepare sqlite sql db =
     (case conn db of
        No_connection \<Rightarrow> Inr False
      | Connected \<Rightarrow> Inr (prepares sqlite (log db) sql)
      | Closed \<Rightarrow> Inl Crash_freed)"

definition db_step :: "sqlite \<Rightarrow> string \<Rightarrow> sql_value list \<Rightarrow> database \<Rightarrow> sql_reply \<times> database" where
  "db_step sqlite sql vals db =
     (let l = log db @ [(sql, vals)] in (steps sqlite l, db\<lparr>log := l\<rparr>))"

text \<open>Columns: SQLite converts between text and numbers, and a 32 bit read keeps the lower bits.\<close>

definition sql_text_int :: "string \<Rightarrow> int" where
  "sql_text_int s =
     (let (neg, v) = c_number s
      in if neg then max (- int v) (- (2 ^ 63)) else min (int v) (2 ^ 63 - 1))"

definition column :: "sql_value list \<Rightarrow> nat \<Rightarrow> sql_value" where
  "column row i = (if i < length row then row ! i else Sql_null)"

definition column_int64 :: "sql_value list \<Rightarrow> nat \<Rightarrow> int" where
  "column_int64 row i = (case column row i of Sql_null \<Rightarrow> 0 | Sql_int v \<Rightarrow> v | Sql_text s \<Rightarrow> sql_text_int s)"

text \<open>A parameter of type \<^verbatim>\<open>int32_t\<close>, read with \<open>sint\<close>.\<close>

type_synonym i32 = "32 word"

definition int32_of :: "int \<Rightarrow> int" where
  "int32_of i = signed_take_bit 31 i"

definition column_int :: "sql_value list \<Rightarrow> nat \<Rightarrow> int" where
  "column_int row i = int32_of (column_int64 row i)"

definition column_text :: "sql_value list \<Rightarrow> nat \<Rightarrow> string option" where
  "column_text row i =
     (case column row i of Sql_null \<Rightarrow> None | Sql_int v \<Rightarrow> Some (dec_int v) | Sql_text s \<Rightarrow> Some s)"

text \<open>The macro \<^verbatim>\<open>STRDUP\<close>.\<close>

definition STRDUP :: "string option \<Rightarrow> string option" where
  "STRDUP s = Some (case s of None \<Rightarrow> '''' | Some t \<Rightarrow> t)"

text \<open>A string that is bound: a NULL is replaced by the empty string before, or not.\<close>

definition text_or_empty :: "string option \<Rightarrow> sql_value" where
  "text_or_empty s = Sql_text (case s of None \<Rightarrow> '''' | Some t \<Rightarrow> t)"

definition textR :: "string option \<Rightarrow> sql_value res" where
  "textR s = bindR (derefR s) (\<lambda>t. Inr (Sql_text t))"

text \<open>The three shapes of a function: one row by a key, an insertion and an update.\<close>

definition select_one ::
    "sqlite \<Rightarrow> string \<Rightarrow> sql_value list \<Rightarrow> (sql_value list \<Rightarrow> 'a res) \<Rightarrow> database \<Rightarrow> ('a option \<times> database) res" where
  "select_one sqlite sql vals mk db =
     bindR (db_prepare sqlite sql db) (\<lambda>ok.
     if \<not> ok then Inr (None, db)
     else let (r, db) = db_step sqlite sql vals db in
       case rows r of
         [] \<Rightarrow> Inr (None, db)
       | row # _ \<Rightarrow> bindR (mk row) (\<lambda>x. Inr (Some x, db)))"

definition execute :: "sqlite \<Rightarrow> string \<Rightarrow> sql_value list res \<Rightarrow> database \<Rightarrow> (sql_reply \<times> database) res" where
  "execute sqlite sql vals db =
     bindR (db_prepare sqlite sql db) (\<lambda>ok.
     if \<not> ok then Inl Database_failure
     else bindR vals (\<lambda>vals.
       let (r, db) = db_step sqlite sql vals db in
       if rows r \<noteq> [] \<or> \<not> finished r then Inl Database_failure else Inr (r, db)))"

definition insert_row :: "sqlite \<Rightarrow> string \<Rightarrow> sql_value list res \<Rightarrow> database \<Rightarrow> (int \<times> database) res" where
  "insert_row sqlite sql vals db = bindR (execute sqlite sql vals db) (\<lambda>(r, db). Inr (last_rowid r, db))"

definition update_row :: "sqlite \<Rightarrow> string \<Rightarrow> sql_value list res \<Rightarrow> int \<Rightarrow> database \<Rightarrow> (int \<times> database) res" where
  "update_row sqlite sql vals key db = bindR (execute sqlite sql vals db) (\<lambda>(_, db). Inr (key, db))"

text \<open>Parts of the texts that contain quotes.\<close>

definition sql_now :: string where
  "sql_now = ''datetime('' @ [CHR 0x27] @ ''now'' @ [CHR 0x27] @ '')''"

definition sql_quoted :: "string \<Rightarrow> string" where
  "sql_quoted s = [CHR 0x27] @ s @ [CHR 0x27]"

section \<open>The connection\<close>

definition nl :: string where "nl = [CHR 0x0A]"

definition create_table :: "string \<Rightarrow> string list \<Rightarrow> string" where
  "create_table head cols = concat (map (\<lambda>l. l @ nl) (head # cols))"

definition DB_SQL :: string where
  "DB_SQL =
     ''    PRAGMA journal_mode=WAL;'' @
     create_table ''    CREATE TABLE IF NOT EXISTS users (''
      [''        id INTEGER PRIMARY KEY,'', ''        date_created DATETIME CURRENT_TIMESTAMP,'',
       ''        u_username TEXT,'', ''        password TEXT,'', ''        email TEXT,'',
       ''        session TEXT,'', ''        is_admin INTEGER,'', ''        state INTEGER'', ''    );''] @
     create_table ''    CREATE TABLE IF NOT EXISTS boards (''
      [''        id INTEGER PRIMARY KEY,'', ''        u_dna TEXT,'', ''        u_name TEXT,'',
       ''        u_ip_addr TEXT,'', ''        cur_dut_board_id INTEGER,'', ''        is_master INTEGER'', ''    );''] @
     create_table ''    CREATE TABLE IF NOT EXISTS dut_boards (''
      [''        id INTEGER PRIMARY KEY,'', ''        u_dna TEXT,'', ''        u_name TEXT,'',
       ''        mount_id INTEGER,'', ''        profile_path TEXT'', ''    );''] @
     create_table ''    CREATE TABLE IF NOT EXISTS jobs (''
      [''        id INTEGER PRIMARY KEY,'', ''        board_id INTEGER,'', ''        dut_board_id INTEGER,'',
       ''        user_id INTEGER,'', ''        date_created DATETIME CURRENT_TIMESTAMP,'', ''        state INTEGER'', ''    );''] @
     create_table ''    CREATE TABLE IF NOT EXISTS prgms (''
      [''        id INTEGER PRIMARY KEY,'', ''        job_id INTEGER,'', ''        mount_id INTEGER,'',
       ''        date_created DATETIME CURRENT_TIMESTAMP,'', ''        date_start DATETIME,'', ''        date_end DATETIME,'',
       ''        path TEXT,'', ''        body TEXT,'', ''        return_code INTEGER,'', ''        error_msg TEXT,'',
       ''        last_stim_id INTEGER,'', ''        did_fail INTEGER,'', ''        failing_vec INTEGER,'',
       ''        state INTEGER'', ''    );''] @
     create_table ''   CREATE TABLE IF NOT EXISTS prgm_logs (''
      [''        id INTEGER PRIMARY KEY,'', ''        prgm_id INTEGER,'',
       ''        date_created DATETIME CURRENT_TIMESTAMP,'', ''        line TEXT'', ''   );''] @
     create_table ''   CREATE TABLE IF NOT EXISTS stims (''
      [''       id INTEGER PRIMARY KEY,'', ''       prgm_id INTEGER,'', ''       date_created DATETIME CURRENT_TIMESTAMP,'',
       ''       path TEXT,'', ''       did_fail INTEGER,'', ''       failing_vec INTEGER,'', ''       state INTEGER'', ''   );''] @
     create_table ''   CREATE TABLE IF NOT EXISTS fail_pins (''
      [''       id INTEGER PRIMARY KEY,'', ''       stim_id INTEGER,'', ''       dut_io_id INTEGER,'',
       ''       did_fail INTEGER'', ''   );''] @
     create_table ''   CREATE TABLE IF NOT EXISTS mounts (''
      [''       id INTEGER PRIMARY KEY,'', ''       date_created DATETIME CURRENT_TIMESTAMP,'', ''       u_name TEXT,'',
       ''       ip_addr TEXT,'', ''       remote_path TEXT,'', ''       local_point TEXT,'', ''       message TEXT,'',
       ''       state INTEGER'', ''   );'']"

definition db_create :: database where
  "db_create = \<lparr>is_open = False, conn = No_connection, log = []\<rparr>"

definition db_free :: "database \<Rightarrow> unit res" where
  "db_free db = (if is_open db then Inl Bad_state else Inr ())"

datatype open_result = Open_null | Open_error | Open_ok

text \<open>
  \<open>opens path\<close> is what \<^verbatim>\<open>sqlite3_open_v2\<close> does. The texts of the schema are run as one statement each
  time a database is opened.
\<close>

definition db_open :: "sqlite \<Rightarrow> (string \<Rightarrow> open_result) \<Rightarrow> string \<Rightarrow> database \<Rightarrow> database res" where
  "db_open sqlite opens path db =
     (if is_open db then Inr db
      else case opens path of
        Open_null \<Rightarrow> Inl Database_failure
      | Open_error \<Rightarrow> Inl Database_failure
      | Open_ok \<Rightarrow>
          let db = db\<lparr>conn := Connected, is_open := True\<rparr> in
          if \<not> prepares sqlite (log db) DB_SQL then Inl Database_failure
          else let (r, db) = db_step sqlite DB_SQL [] db in
            if finished r then Inr db else Inl Database_failure)"

definition db_close :: "database \<Rightarrow> database" where
  "db_close db = (if \<not> is_open db then db else db\<lparr>conn := Closed, is_open := False\<rparr>)"

section \<open>Rows\<close>

record db_user =
  usr_id :: int
  usr_username :: "string option"
  usr_password :: "string option"
  usr_email :: "string option"
  usr_session :: "string option"
  usr_is_admin :: int
  usr_state :: int

record db_board =
  brd_id :: int
  brd_dna :: "string option"
  brd_name :: "string option"
  brd_ip_addr :: "string option"
  brd_cur_dut_board_id :: int
  brd_is_master :: int

record db_dut_board =
  dbd_id :: int
  dbd_dna :: "string option"
  dbd_name :: "string option"
  dbd_mount_id :: int
  dbd_profile_path :: "string option"

record db_job =
  job_id :: int
  job_board_id :: int
  job_dut_board_id :: int
  job_user_id :: int
  job_state :: int

record db_prgm =
  prg_id :: int
  prg_job_id :: int
  prg_mount_id :: int
  prg_path :: "string option"
  prg_body :: "string option"
  prg_date_start :: int
  prg_date_end :: int
  prg_return_code :: int
  prg_error_msg :: "string option"
  prg_last_stim_id :: int
  prg_did_fail :: int
  prg_failing_vec :: int
  prg_state :: int

record db_prgm_log =
  log_id :: int
  log_prgm_id :: int
  log_date_created :: int
  log_line :: "string option"

record db_stim =
  stm_id :: int
  stm_prgm_id :: int
  stm_path :: "string option"
  stm_did_fail :: int
  stm_failing_vec :: int
  stm_state :: int

record db_fail_pin =
  fpn_id :: int
  fpn_stim_id :: int
  fpn_dut_io_id :: int
  fpn_did_fail :: int

record db_mount =
  mnt_id :: int
  mnt_name :: "string option"
  mnt_ip_addr :: "string option"
  mnt_remote_path :: "string option"
  mnt_local_point :: "string option"
  mnt_message :: "string option"
  mnt_state :: int

text \<open>A state is one bit. The values are the same for jobs, programs and stimuli.\<close>

definition STIM_PENDING :: int where "STIM_PENDING = 4"
definition STIM_DONE :: int where "STIM_DONE = 64"

text \<open>The states that the queries know: idle to done, and all states of a mount.\<close>

definition JOB_STATES :: "int list" where "JOB_STATES = [2, 4, 8, 16, 32, 64]"
definition MOUNT_STATES :: "int list" where "MOUNT_STATES = [1, 2, 4, 8, 16, 32]"

text \<open>The column of an enumeration is cast to its 32 bits.\<close>

definition db_make_user :: "sql_value list \<Rightarrow> db_user" where
  "db_make_user res =
     \<lparr>usr_id = column_int64 res 0, usr_username = STRDUP (column_text res 2), usr_password = STRDUP (column_text res 3),
      usr_email = STRDUP (column_text res 4), usr_session = STRDUP (column_text res 5),
      usr_is_admin = column_int res 6, usr_state = column_int res 7\<rparr>"

definition db_make_board :: "sql_value list \<Rightarrow> db_board" where
  "db_make_board res =
     \<lparr>brd_id = column_int64 res 0, brd_dna = STRDUP (column_text res 1), brd_name = STRDUP (column_text res 2),
      brd_ip_addr = STRDUP (column_text res 3), brd_cur_dut_board_id = column_int res 4,
      brd_is_master = column_int res 5\<rparr>"

definition db_make_dut_board :: "sql_value list \<Rightarrow> db_dut_board" where
  "db_make_dut_board res =
     \<lparr>dbd_id = column_int64 res 0, dbd_dna = STRDUP (column_text res 1), dbd_name = STRDUP (column_text res 2),
      dbd_mount_id = column_int res 3, dbd_profile_path = STRDUP (column_text res 4)\<rparr>"

definition db_make_job :: "sql_value list \<Rightarrow> db_job" where
  "db_make_job res =
     \<lparr>job_id = column_int64 res 0, job_board_id = column_int64 res 1, job_dut_board_id = column_int64 res 2,
      job_user_id = column_int64 res 3, job_state = column_int res 5\<rparr>"

text \<open>The dates of a row are converted under the clock of their column.\<close>

definition db_make_prgm :: "(nat \<Rightarrow> c_clock) \<Rightarrow> sql_value list \<Rightarrow> db_prgm res" where
  "db_make_prgm tz res =
     bindR (util_dt_to_epoch (tz 4) (STRDUP (column_text res 4))) (\<lambda>date_start.
     bindR (util_dt_to_epoch (tz 5) (STRDUP (column_text res 5))) (\<lambda>date_end.
     Inr \<lparr>prg_id = column_int64 res 0, prg_job_id = column_int64 res 1, prg_mount_id = column_int64 res 2,
          prg_path = STRDUP (column_text res 6), prg_body = STRDUP (column_text res 7),
          prg_date_start = date_start, prg_date_end = date_end, prg_return_code = column_int res 8,
          prg_error_msg = STRDUP (column_text res 9), prg_last_stim_id = column_int res 10,
          prg_did_fail = column_int res 11, prg_failing_vec = column_int res 12, prg_state = column_int res 13\<rparr>))"

definition db_make_prgm_log :: "(nat \<Rightarrow> c_clock) \<Rightarrow> sql_value list \<Rightarrow> db_prgm_log res" where
  "db_make_prgm_log tz res =
     bindR (util_dt_to_epoch (tz 2) (STRDUP (column_text res 2))) (\<lambda>date_created.
     Inr \<lparr>log_id = column_int64 res 0, log_prgm_id = column_int64 res 1, log_date_created = date_created,
          log_line = STRDUP (column_text res 3)\<rparr>)"

definition db_make_stim :: "sql_value list \<Rightarrow> db_stim" where
  "db_make_stim res =
     \<lparr>stm_id = column_int64 res 0, stm_prgm_id = column_int64 res 1, stm_path = STRDUP (column_text res 3),
      stm_did_fail = column_int res 4, stm_failing_vec = column_int64 res 5, stm_state = column_int res 6\<rparr>"

definition db_make_fail_pin :: "sql_value list \<Rightarrow> db_fail_pin" where
  "db_make_fail_pin res =
     \<lparr>fpn_id = column_int64 res 0, fpn_stim_id = column_int64 res 1, fpn_dut_io_id = column_int64 res 2,
      fpn_did_fail = column_int res 3\<rparr>"

definition db_make_mount :: "sql_value list \<Rightarrow> db_mount" where
  "db_make_mount res =
     \<lparr>mnt_id = column_int64 res 0, mnt_name = STRDUP (column_text res 2), mnt_ip_addr = STRDUP (column_text res 3),
      mnt_remote_path = STRDUP (column_text res 4), mnt_local_point = STRDUP (column_text res 5),
      mnt_message = STRDUP (column_text res 6), mnt_state = column_int res 7\<rparr>"

section \<open>Users, boards, jobs\<close>

text \<open>The stored password is the hash of the salt and the password, in upper case hexadecimal.\<close>

definition PASS_SALT :: string where
  "PASS_SALT = ''1DE4CFC74A5F9AC2CC834E029E5D95D1''"

definition hex_digit :: "nat \<Rightarrow> char" where
  "hex_digit d = (if d < 10 then digit_char d else char_of (55 + d))"

definition hex_byte :: "u8 \<Rightarrow> string" where
  "hex_byte b = [hex_digit (unat b div 16), hex_digit (unat b mod 16)]"

definition db_pass_hash :: "string \<Rightarrow> string" where
  "db_pass_hash password =
     (let hash_bytes = calc_sha_256 (map of_char (PASS_SALT @ password)) in concat (map hex_byte (take 32 hash_bytes)))"

lemma pass_hash_standard:
  assumes "length password < 2 ^ 60"
  shows "db_pass_hash password = concat (map hex_byte (SHA256 (map of_char (PASS_SALT @ password))))"
proof -
  have "length (map of_char (PASS_SALT @ password) :: u8 list) < 2 ^ 61" using assms by (simp add: PASS_SALT_def)
  from calc_sha_256_standard [OF this] show ?thesis
    using calc_sha_256_length [of "map of_char (PASS_SALT @ password)"] by (simp add: db_pass_hash_def Let_def)
qed

definition db_get_user_by_id :: "sqlite \<Rightarrow> int \<Rightarrow> database \<Rightarrow> (db_user option \<times> database) res" where
  "db_get_user_by_id sqlite user_id =
     select_one sqlite ''SELECT * FROM users WHERE id=? LIMIT 1'' [Sql_int user_id] (\<lambda>r. Inr (db_make_user r))"

definition db_get_user_by_username :: "sqlite \<Rightarrow> string option \<Rightarrow> database \<Rightarrow> (db_user option \<times> database) res" where
  "db_get_user_by_username sqlite username db =
     bindR (nonnullR username) (\<lambda>username.
     select_one sqlite ''SELECT * FROM users WHERE u_username = ? LIMIT 1'' [Sql_text username]
       (\<lambda>r. Inr (db_make_user r)) db)"

definition db_insert_user ::
    "sqlite \<Rightarrow> string option \<Rightarrow> string option \<Rightarrow> string option \<Rightarrow> string option \<Rightarrow> int \<Rightarrow> int \<Rightarrow>
     database \<Rightarrow> (int \<times> database) res" where
  "db_insert_user sqlite username password email session is_admin state =
     insert_row sqlite
       (''INSERT INTO users(date_created, u_username, password, email, session, is_admin, state)'' @
        ''VALUES('' @ sql_now @ '', ?, ?, ?, ?, ?, ?)'')
       (Inr [text_or_empty username,
             Sql_text (db_pass_hash (case password of None \<Rightarrow> '''' | Some p \<Rightarrow> p)),
             text_or_empty email, text_or_empty session, Sql_int is_admin, Sql_int state])"

definition db_get_board_by_id :: "sqlite \<Rightarrow> int \<Rightarrow> database \<Rightarrow> (db_board option \<times> database) res" where
  "db_get_board_by_id sqlite board_id =
     select_one sqlite ''SELECT * FROM boards WHERE id=? LIMIT 1'' [Sql_int board_id] (\<lambda>r. Inr (db_make_board r))"

definition db_get_board_by_dna :: "sqlite \<Rightarrow> string option \<Rightarrow> database \<Rightarrow> (db_board option \<times> database) res" where
  "db_get_board_by_dna sqlite dna db =
     bindR (nonnullR dna) (\<lambda>dna.
     select_one sqlite ''SELECT * FROM boards WHERE u_dna = ?'' [Sql_text dna] (\<lambda>r. Inr (db_make_board r)) db)"

definition db_insert_board ::
    "sqlite \<Rightarrow> string option \<Rightarrow> string option \<Rightarrow> string option \<Rightarrow> int \<Rightarrow> int \<Rightarrow> database \<Rightarrow> (int \<times> database) res" where
  "db_insert_board sqlite dna name ip_addr cur_dut_board_id is_master =
     insert_row sqlite
       ''INSERT INTO boards(u_dna, u_name, u_ip_addr, cur_dut_board_id, is_master) VALUES(?, ?, ?, ?, ?)''
       (Inr [text_or_empty dna, text_or_empty name, text_or_empty ip_addr, Sql_int cur_dut_board_id, Sql_int is_master])"

definition db_update_board :: "sqlite \<Rightarrow> db_board \<Rightarrow> database \<Rightarrow> (int \<times> database) res" where
  "db_update_board sqlite board =
     update_row sqlite ''UPDATE boards SET u_dna=?, u_name=?, u_ip_addr=?, cur_dut_board_id=?, is_master=? WHERE id=?''
       (bindR (mapR textR [brd_dna board, brd_name board, brd_ip_addr board]) (\<lambda>ts.
        Inr (ts @ [Sql_int (brd_cur_dut_board_id board), Sql_int (brd_is_master board), Sql_int (brd_id board)])))
       (brd_id board)"

definition db_get_dut_board_by_id :: "sqlite \<Rightarrow> int \<Rightarrow> database \<Rightarrow> (db_dut_board option \<times> database) res" where
  "db_get_dut_board_by_id sqlite dut_board_id =
     select_one sqlite ''SELECT * FROM dut_boards WHERE id=? LIMIT 1'' [Sql_int dut_board_id]
       (\<lambda>r. Inr (db_make_dut_board r))"

definition db_insert_dut_board ::
    "sqlite \<Rightarrow> string option \<Rightarrow> string option \<Rightarrow> int \<Rightarrow> string option \<Rightarrow> database \<Rightarrow> (int \<times> database) res" where
  "db_insert_dut_board sqlite dna name mount_id profile_path =
     insert_row sqlite ''INSERT INTO dut_boards(u_dna, u_name, mount_id, profile_path) VALUES(?, ?, ?, ?)''
       (Inr [text_or_empty dna, text_or_empty name, Sql_int mount_id, text_or_empty profile_path])"

definition db_get_job_by_id :: "sqlite \<Rightarrow> int \<Rightarrow> database \<Rightarrow> (db_job option \<times> database) res" where
  "db_get_job_by_id sqlite key =
     select_one sqlite ''SELECT * FROM jobs WHERE id=? LIMIT 1'' [Sql_int key] (\<lambda>r. Inr (db_make_job r))"

definition db_insert_job :: "sqlite \<Rightarrow> int \<Rightarrow> int \<Rightarrow> int \<Rightarrow> int \<Rightarrow> database \<Rightarrow> (int \<times> database) res" where
  "db_insert_job sqlite board_id dut_board_id user_id state =
     insert_row sqlite
       (''INSERT INTO jobs(board_id, dut_board_id, user_id, date_created, state) '' @
        ''VALUES(?, ?, ?, '' @ sql_now @ '', ?)'')
       (Inr [Sql_int board_id, Sql_int dut_board_id, Sql_int user_id, Sql_int state])"

definition db_update_job :: "sqlite \<Rightarrow> db_job \<Rightarrow> database \<Rightarrow> (int \<times> database) res" where
  "db_update_job sqlite job =
     update_row sqlite ''UPDATE jobs SET board_id=?, dut_board_id=?, user_id=?, state=? WHERE id=?''
       (Inr [Sql_int (job_board_id job), Sql_int (job_dut_board_id job), Sql_int (job_user_id job),
             Sql_int (job_state job), Sql_int (job_id job)])
       (job_id job)"

section \<open>Programs, their log, stimuli, failing pins, mounts\<close>

definition db_get_prgm_by_id :: "sqlite \<Rightarrow> (nat \<Rightarrow> c_clock) \<Rightarrow> int \<Rightarrow> database \<Rightarrow> (db_prgm option \<times> database) res" where
  "db_get_prgm_by_id sqlite tz prgm_id =
     select_one sqlite ''SELECT * FROM prgms WHERE id=? LIMIT 1'' [Sql_int prgm_id] (db_make_prgm tz)"

text \<open>Four of the parameters have 32 bits, although two of them go into fields of 64.\<close>

definition db_insert_prgm ::
    "sqlite \<Rightarrow> int \<Rightarrow> int \<Rightarrow> string option \<Rightarrow> string option \<Rightarrow> i32 \<Rightarrow> string option \<Rightarrow> i32 \<Rightarrow> i32 \<Rightarrow> i32 \<Rightarrow> int \<Rightarrow>
     database \<Rightarrow> (int \<times> database) res" where
  "db_insert_prgm sqlite job mount_id path body return_code error_msg last_stim_id did_fail failing_vec state =
     insert_row sqlite
       (''INSERT INTO prgms(job_id, mount_id, date_created, date_start, date_end, path, body, return_code, '' @
        ''error_msg, last_stim_id, did_fail, failing_vec, state)'' @
        ''VALUES(?, ?, '' @ sql_now @ '', '' @ sql_quoted '''' @ '', '' @ sql_quoted '''' @
        '', ?, ?, ?, ?, ?, ?, ?, ?)'')
       (Inr [Sql_int job, Sql_int mount_id, text_or_empty path, text_or_empty body, Sql_int (sint return_code),
             text_or_empty error_msg, Sql_int (sint last_stim_id), Sql_int (sint did_fail), Sql_int (sint failing_vec),
             Sql_int state])"

text \<open>The dates are converted whether or not the statement could be prepared.\<close>

definition db_update_prgm :: "sqlite \<Rightarrow> db_prgm \<Rightarrow> database \<Rightarrow> (int \<times> database) res" where
  "db_update_prgm sqlite prgm db =
     bindR (util_epoch_to_dt (prg_date_start prgm)) (\<lambda>date_start.
     bindR (util_epoch_to_dt (prg_date_end prgm)) (\<lambda>date_end.
     update_row sqlite
       (''UPDATE prgms SET job_id=?, mount_id=?, date_start=?, date_end=?, path=?, body=?, return_code=?, '' @
        ''error_msg=?, last_stim_id=?, did_fail=?, failing_vec=?, state=? WHERE id=?'')
       (bindR (textR (prg_path prgm)) (\<lambda>path.
        bindR (textR (prg_body prgm)) (\<lambda>body.
        bindR (textR (prg_error_msg prgm)) (\<lambda>error_msg.
        Inr [Sql_int (prg_job_id prgm), Sql_int (prg_mount_id prgm), Sql_text date_start, Sql_text date_end,
             path, body, Sql_int (prg_return_code prgm), error_msg, Sql_int (prg_last_stim_id prgm),
             Sql_int (prg_did_fail prgm), Sql_int (prg_failing_vec prgm), Sql_int (prg_state prgm),
             Sql_int (prg_id prgm)]))))
       (prg_id prgm) db))"

definition db_get_prgm_log_by_id ::
    "sqlite \<Rightarrow> (nat \<Rightarrow> c_clock) \<Rightarrow> int \<Rightarrow> database \<Rightarrow> (db_prgm_log option \<times> database) res" where
  "db_get_prgm_log_by_id sqlite tz prgm_log_id =
     select_one sqlite ''SELECT * FROM prgm_logs WHERE id=? LIMIT 1'' [Sql_int prgm_log_id] (db_make_prgm_log tz)"

definition db_insert_prgm_log :: "sqlite \<Rightarrow> int \<Rightarrow> string option \<Rightarrow> database \<Rightarrow> (int \<times> database) res" where
  "db_insert_prgm_log sqlite prgm_id line =
     insert_row sqlite (''INSERT INTO prgm_logs(prgm_id, date_created, line)'' @ ''VALUES(?, '' @ sql_now @ '', ?)'')
       (Inr [Sql_int prgm_id, text_or_empty line])"

definition db_get_stim_by_id :: "sqlite \<Rightarrow> int \<Rightarrow> database \<Rightarrow> (db_stim option \<times> database) res" where
  "db_get_stim_by_id sqlite stim_id =
     select_one sqlite ''SELECT * FROM stims WHERE id=? LIMIT 1'' [Sql_int stim_id] (\<lambda>r. Inr (db_make_stim r))"

definition db_insert_stim ::
    "sqlite \<Rightarrow> int \<Rightarrow> string option \<Rightarrow> int \<Rightarrow> int \<Rightarrow> int \<Rightarrow> database \<Rightarrow> (int \<times> database) res" where
  "db_insert_stim sqlite prgm_id path did_fail failing_vec state =
     insert_row sqlite
       (''INSERT INTO stims(prgm_id, date_created, path, did_fail, failing_vec, state)'' @
        ''VALUES(?, '' @ sql_now @ '', ?, ?, ?, ?)'')
       (Inr [Sql_int prgm_id, text_or_empty path, Sql_int did_fail, Sql_int failing_vec, Sql_int state])"

definition db_update_stim :: "sqlite \<Rightarrow> db_stim \<Rightarrow> database \<Rightarrow> (int \<times> database) res" where
  "db_update_stim sqlite stim =
     update_row sqlite ''UPDATE stims SET prgm_id=?, path=?, did_fail=?, failing_vec=?, state=? WHERE id=?''
       (bindR (textR (stm_path stim)) (\<lambda>path.
        Inr [Sql_int (stm_prgm_id stim), path, Sql_int (stm_did_fail stim), Sql_int (stm_failing_vec stim),
             Sql_int (stm_state stim), Sql_int (stm_id stim)]))
       (stm_id stim)"

definition db_get_fail_pin_by_id :: "sqlite \<Rightarrow> int \<Rightarrow> database \<Rightarrow> (db_fail_pin option \<times> database) res" where
  "db_get_fail_pin_by_id sqlite fail_pin_id =
     select_one sqlite ''SELECT * FROM fail_pins WHERE id=? LIMIT 1'' [Sql_int fail_pin_id]
       (\<lambda>r. Inr (db_make_fail_pin r))"

definition db_insert_fail_pin :: "sqlite \<Rightarrow> int \<Rightarrow> int \<Rightarrow> int \<Rightarrow> database \<Rightarrow> (int \<times> database) res" where
  "db_insert_fail_pin sqlite stim_id dut_io did_fail =
     insert_row sqlite ''INSERT INTO fail_pins(stim_id, dut_io_id, did_fail) VALUES(?, ?, ?)''
       (Inr [Sql_int stim_id, Sql_int dut_io, Sql_int did_fail])"

definition db_get_mount_by_id :: "sqlite \<Rightarrow> int \<Rightarrow> database \<Rightarrow> (db_mount option \<times> database) res" where
  "db_get_mount_by_id sqlite mount_id =
     select_one sqlite ''SELECT * FROM mounts WHERE id=? LIMIT 1'' [Sql_int mount_id] (\<lambda>r. Inr (db_make_mount r))"

text \<open>The address is the one string that may not be NULL here: it is not replaced.\<close>

definition db_insert_mount ::
    "sqlite \<Rightarrow> string option \<Rightarrow> string option \<Rightarrow> string option \<Rightarrow> string option \<Rightarrow> string option \<Rightarrow> int \<Rightarrow>
     database \<Rightarrow> (int \<times> database) res" where
  "db_insert_mount sqlite name ip_addr remote_path local_point message state =
     insert_row sqlite
       (''INSERT INTO mounts(date_created, u_name, ip_addr, remote_path, local_point, message, state)'' @
        ''VALUES('' @ sql_now @ '', ?, ?, ?, ?, ?, ?)'')
       (bindR (textR ip_addr) (\<lambda>ip_addr.
        Inr [text_or_empty name, ip_addr, text_or_empty remote_path, text_or_empty local_point,
             text_or_empty message, Sql_int state]))"

definition db_update_mount :: "sqlite \<Rightarrow> db_mount \<Rightarrow> database \<Rightarrow> (int \<times> database) res" where
  "db_update_mount sqlite mount =
     update_row sqlite
       (''UPDATE mounts SET u_name=?, ip_addr=?, remote_path=?, local_point=?, message=?, state=? WHERE id=?'')
       (bindR (mapR textR [mnt_name mount, mnt_ip_addr mount, mnt_remote_path mount, mnt_local_point mount,
                           mnt_message mount]) (\<lambda>ts.
        Inr (ts @ [Sql_int (mnt_state mount), Sql_int (mnt_id mount)])))
       (mnt_id mount)"

section \<open>Queries\<close>

text \<open>The states that are set in a mask, as a list of numbers; \<open>f\<close> tells that one was written.\<close>

fun state_list :: "bool \<Rightarrow> int \<Rightarrow> int list \<Rightarrow> string" where
  "state_list f states [] = ''''"
| "state_list f states (s # ss) =
     (if and states s = s then (if f then '', '' else '''') @ dec_int s @ state_list True states ss
      else state_list f states ss)"

definition states_cond :: "int \<Rightarrow> int list \<Rightarrow> string" where
  "states_cond states known = ''state in ( '' @ state_list False states known @ '')''"

definition if_set :: "bool \<Rightarrow> string \<Rightarrow> string" where
  "if_set b s = (if b then s else '''')"

definition int_cond :: "string \<Rightarrow> int \<Rightarrow> string" where
  "int_cond col v = if_set (v \<noteq> - 1) (col @ dec_int v @ '' '')"

text \<open>A string is written into the text between quotes as it is.\<close>

definition text_cond :: "string \<Rightarrow> string option \<Rightarrow> string" where
  "text_cond col v = (case v of None \<Rightarrow> '''' | Some s \<Rightarrow> col @ sql_quoted s @ '' '')"

text \<open>
  A count: the first column of the first row, 0 when the statement is not prepared. A query prepares
  its statement, counts the rows with a second one, and steps through the first only when the count
  is not 0; every row is stored at the next place of an array that has as many places as were counted.
\<close>

definition count_rows :: "sqlite \<Rightarrow> string \<Rightarrow> sql_value list \<Rightarrow> database \<Rightarrow> (nat \<times> database) res" where
  "count_rows sqlite sql vals db =
     bindR (db_prepare sqlite sql db) (\<lambda>ok.
     if \<not> ok then Inr (0, db)
     else let (r, db) = db_step sqlite sql vals db in
       let num = (case rows r of [] \<Rightarrow> 0 | row # _ \<Rightarrow> column_int64 row 0) in
       if num < 0 then Inl Bad_count else Inr (nat num, db))"

definition store_row ::
    "(sql_value list \<Rightarrow> 'a res) \<Rightarrow> nat \<times> sql_value list \<Rightarrow> 'a option list \<Rightarrow> 'a option list res" where
  "store_row mk = (\<lambda>(i, row) arr. bindR (mk row) (\<lambda>x. updR arr i (Some x)))"

definition query_rows ::
    "sqlite \<Rightarrow> string \<Rightarrow> sql_value list \<Rightarrow> (sql_value list \<Rightarrow> 'a res) \<Rightarrow> (database \<Rightarrow> (nat \<times> database) res) \<Rightarrow>
     database \<Rightarrow> ('a option list option \<times> database) res" where
  "query_rows sqlite sql vals mk counts db =
     bindR (db_prepare sqlite sql db) (\<lambda>ok.
     bindR (counts db) (\<lambda>(num, db).
     if num = 0 then Inr (None, db)
     else if \<not> ok then Inr (Some (replicate num None), db)
     else let (r, db) = db_step sqlite sql vals db in
       bindR (foldR (store_row mk) (enumerate 0 (rows r)) (replicate num None)) (\<lambda>arr. Inr (Some arr, db))))"

definition jobs_where :: "int \<Rightarrow> int \<Rightarrow> int \<Rightarrow> string" where
  "jobs_where dut_board_id user_id states =
     ''board_id = ? '' @ int_cond ''AND dut_board_id = '' dut_board_id @ int_cond ''AND user_id != '' user_id @
     if_set (states \<noteq> - 1) (''AND '' @ states_cond states JOB_STATES)"

definition db_get_num_jobs :: "sqlite \<Rightarrow> int \<Rightarrow> int \<Rightarrow> int \<Rightarrow> int \<Rightarrow> database \<Rightarrow> (nat \<times> database) res" where
  "db_get_num_jobs sqlite board_id dut_board_id user_id states db =
     (if board_id < 0 then Inl Out_of_range
      else count_rows sqlite (''SELECT COUNT(*) FROM jobs WHERE '' @ jobs_where dut_board_id user_id states)
        [Sql_int board_id] db)"

definition db_get_jobs ::
    "sqlite \<Rightarrow> int \<Rightarrow> int \<Rightarrow> int \<Rightarrow> int \<Rightarrow> database \<Rightarrow> (db_job option list option \<times> database) res" where
  "db_get_jobs sqlite board_id dut_board_id user_id states db =
     (if board_id < 0 then Inl Out_of_range
      else query_rows sqlite (''SELECT * FROM jobs WHERE '' @ jobs_where dut_board_id user_id states)
        [Sql_int board_id] (\<lambda>r. Inr (db_make_job r)) (db_get_num_jobs sqlite board_id dut_board_id user_id states) db)"

text \<open>The filters of the queries on programs; the two queries differ in one blank and one letter case.\<close>

record prgm_filter =
  pf_mount_id :: int
  pf_path :: "string option"
  pf_body :: "string option"
  pf_return_code :: int
  pf_error_msg :: "string option"
  pf_last_stim_id :: int
  pf_did_fail :: int
  pf_failing_vec :: int
  pf_states :: int

definition prgms_where :: "string \<Rightarrow> string \<Rightarrow> prgm_filter \<Rightarrow> string" where
  "prgms_where job_cond return_cond f =
     job_cond @ int_cond ''AND mount_id = '' (pf_mount_id f) @ text_cond ''AND path = '' (pf_path f) @
     text_cond ''AND body = '' (pf_body f) @ int_cond return_cond (pf_return_code f) @
     text_cond ''AND error_msg = '' (pf_error_msg f) @ int_cond ''AND last_stim_id = '' (pf_last_stim_id f) @
     int_cond ''AND did_fail = '' (pf_did_fail f) @ int_cond ''AND failing_vec = '' (pf_failing_vec f) @
     if_set (pf_states f \<noteq> - 1) (''AND '' @ states_cond (pf_states f) JOB_STATES)"

definition db_get_num_prgms :: "sqlite \<Rightarrow> int \<Rightarrow> prgm_filter \<Rightarrow> database \<Rightarrow> (nat \<times> database) res" where
  "db_get_num_prgms sqlite job f db =
     (if job < 0 then Inl Out_of_range
      else count_rows sqlite
        (''SELECT COUNT(*) FROM prgms WHERE '' @ prgms_where ''job_id = ?'' ''AND return_code = '' f) [Sql_int job] db)"

definition db_get_prgms ::
    "sqlite \<Rightarrow> (nat \<Rightarrow> c_clock) \<Rightarrow> int \<Rightarrow> prgm_filter \<Rightarrow> database \<Rightarrow> (db_prgm option list option \<times> database) res" where
  "db_get_prgms sqlite tz job f db =
     (if job < 0 then Inl Out_of_range
      else query_rows sqlite
        (''SELECT * FROM prgms WHERE '' @ prgms_where ''job_id = ? '' ''and return_code = '' f) [Sql_int job]
        (db_make_prgm tz) (db_get_num_prgms sqlite job f) db)"

text \<open>The conditions on mounts are bound; \<open>first\<close> tells that no condition was written yet.\<close>

fun mount_conds :: "bool \<Rightarrow> (string \<times> string option) list \<Rightarrow> string \<Rightarrow> string" where
  "mount_conds first [] last_cond = (if last_cond = '''' then '''' else if_set (\<not> first) ''AND '' @ last_cond)"
| "mount_conds first ((cond, v) # cs) last_cond =
     (case v of None \<Rightarrow> mount_conds first cs last_cond
      | Some _ \<Rightarrow> if_set (\<not> first) ''AND '' @ cond @ mount_conds False cs last_cond)"

record mount_filter =
  mf_name :: "string option"
  mf_ip_addr :: "string option"
  mf_remote_path :: "string option"
  mf_local_point :: "string option"
  mf_message :: "string option"
  mf_states :: int

definition mount_fields :: "mount_filter \<Rightarrow> (string \<times> string option) list" where
  "mount_fields f =
     [(''u_name = ? '', mf_name f), (''ip_addr = ? '', mf_ip_addr f), (''remote_path = ?'', mf_remote_path f),
      (''local_point = ? '', mf_local_point f), (''message = ? '', mf_message f)]"

definition mounts_where :: "mount_filter \<Rightarrow> string" where
  "mounts_where f =
     mount_conds True (mount_fields f) (if_set (mf_states f \<noteq> - 1) (states_cond (mf_states f) MOUNT_STATES)) @ '';''"

definition mount_vals :: "mount_filter \<Rightarrow> sql_value list" where
  "mount_vals f = map (\<lambda>(_, v). Sql_text (the v)) (filter (\<lambda>(_, v). v \<noteq> None) (mount_fields f))"

definition db_get_num_mounts :: "sqlite \<Rightarrow> mount_filter \<Rightarrow> database \<Rightarrow> (nat \<times> database) res" where
  "db_get_num_mounts sqlite f =
     count_rows sqlite (''SELECT COUNT(*) FROM mounts WHERE '' @ mounts_where f) (mount_vals f)"

definition db_get_mounts :: "sqlite \<Rightarrow> mount_filter \<Rightarrow> database \<Rightarrow> (db_mount option list option \<times> database) res" where
  "db_get_mounts sqlite f =
     query_rows sqlite (''SELECT * FROM mounts WHERE '' @ mounts_where f) (mount_vals f)
       (\<lambda>r. Inr (db_make_mount r)) (db_get_num_mounts sqlite f)"

end
