(* ===== verification/Db_Sql.thy ===== *)
theory Db_Sql
  imports Db
begin

text \<open>
  What the code relies on of SQLite, as far as its texts go: a reference semantics of the statements
  that db.c builds, from their text. A text is split into tokens and parsed; the tables are those of
  the schema; an insertion gets the next free \<^verbatim>\<open>id\<close>, fills the columns it names and leaves the others
  NULL; parameters are taken in the order in which they occur.

  \<open>follows_sql now sqlite\<close> is the hypothesis of the properties: the parameter \<open>sqlite\<close> prepares what
  the reference parses and steps it as the reference does, as long as the history is made of such
  statements. This is the documented behaviour of SQLite on a database that only this process writes;
  \<open>now\<close> is its clock. The reference keeps values as they are bound: the code binds numbers to INTEGER
  columns and text to TEXT columns, for which SQLite does the same.
\<close>

section \<open>Tokens\<close>

datatype token = T_word string | T_num int | T_text string | T_param | T_ne | T_sym char

definition word_char :: "char \<Rightarrow> bool" where
  "word_char c \<longleftrightarrow> (let n = of_char c :: nat in
     65 \<le> n \<and> n \<le> 90 \<or> 97 \<le> n \<and> n \<le> 122 \<or> n = 95 \<or> 48 \<le> n \<and> n \<le> 57)"

definition not_quote :: "char \<Rightarrow> bool" where
  "not_quote c \<longleftrightarrow> c \<noteq> CHR 0x27"

lemma length_dropWhile_Cons: "dropWhile P s = q # s' \<Longrightarrow> length s' < length s"
  using length_dropWhile_le [of P s] by simp

text \<open>A text that is not closed, or in which a quote is doubled, is not in the fragment.\<close>

function tokens :: "string \<Rightarrow> token list option" where
  "tokens [] = Some []"
| "tokens (c # s) =
     (if c_isspace c then tokens s
      else if c_isdigit c then
        map_option ((#) (T_num (int (digits_value (takeWhile c_isdigit (c # s)))))) (tokens (dropWhile c_isdigit s))
      else if c = CHR ''-'' \<and> s \<noteq> [] \<and> c_isdigit (hd s) then
        map_option ((#) (T_num (- int (digits_value (takeWhile c_isdigit s))))) (tokens (dropWhile c_isdigit s))
      else if word_char c then
        map_option ((#) (T_word (takeWhile word_char (c # s)))) (tokens (dropWhile word_char s))
      else if c = CHR ''?'' then map_option ((#) T_param) (tokens s)
      else if c = CHR ''!'' then (if s \<noteq> [] \<and> hd s = CHR ''='' then map_option ((#) T_ne) (tokens (tl s)) else None)
      else if c = CHR 0x27 then
        (case dropWhile not_quote s of
           [] \<Rightarrow> None
         | q # s' \<Rightarrow> if s' \<noteq> [] \<and> hd s' = CHR 0x27 then None
             else map_option ((#) (T_text (takeWhile not_quote s))) (tokens s'))
      else if c \<in> {CHR ''('', CHR '')'', CHR '','', CHR ''='', CHR ''*'', CHR '';''} then map_option ((#) (T_sym c)) (tokens s)
      else None)"
  by pat_completeness auto

termination
  by (relation "measure length")
    (auto simp: le_imp_less_Suc length_dropWhile_le less_SucI dest!: length_dropWhile_Cons)

declare tokens.simps(2) [simp del]

section \<open>Statements\<close>

datatype sql_expr = E_param | E_val sql_value | E_now

datatype sql_cond = C_eq string sql_expr | C_ne string sql_expr | C_in string "int list"

datatype sql_stmt =
    S_create "(string \<times> string list) list"
  | S_insert string "string list" "sql_expr list"
  | S_update string "(string \<times> sql_expr) list" "sql_cond list"
  | S_select bool string "sql_cond list" "nat option"

fun parse_names :: "token list \<Rightarrow> (string list \<times> token list) option" where
  "parse_names (T_word w # T_sym c # ts) =
     (if c = CHR '','' then map_option (\<lambda>(ws, ts). (w # ws, ts)) (parse_names ts)
      else if c = CHR '')'' then Some ([w], ts) else None)"
| "parse_names _ = None"

fun parse_expr :: "token list \<Rightarrow> (sql_expr \<times> token list) option" where
  "parse_expr (T_param # ts) = Some (E_param, ts)"
| "parse_expr (T_num i # ts) = Some (E_val (Sql_int i), ts)"
| "parse_expr (T_text s # ts) = Some (E_val (Sql_text s), ts)"
| "parse_expr (T_word w # T_sym o1 # T_text t # T_sym o2 # ts) =
     (if w = ''datetime'' \<and> o1 = CHR ''('' \<and> t = ''now'' \<and> o2 = CHR '')'' then Some (E_now, ts) else None)"
| "parse_expr _ = None"

text \<open>Lists are parsed with as much fuel as there are tokens.\<close>

fun parse_exprs :: "nat \<Rightarrow> token list \<Rightarrow> (sql_expr list \<times> token list) option" where
  "parse_exprs 0 ts = None"
| "parse_exprs (Suc n) ts =
     (case parse_expr ts of
        Some (e, T_sym c # ts) \<Rightarrow>
          if c = CHR '','' then map_option (\<lambda>(es, ts). (e # es, ts)) (parse_exprs n ts)
          else if c = CHR '')'' then Some ([e], ts) else None
      | _ \<Rightarrow> None)"

fun parse_sets :: "token list \<Rightarrow> ((string \<times> sql_expr) list \<times> token list) option" where
  "parse_sets (T_word w # T_sym c # T_param # T_sym d # ts) =
     (if c = CHR ''='' \<and> d = CHR '','' then map_option (\<lambda>(ss, ts). ((w, E_param) # ss, ts)) (parse_sets ts) else None)"
| "parse_sets (T_word w # T_sym c # T_param # T_word v # ts) =
     (if c = CHR ''='' \<and> v = ''WHERE'' then Some ([(w, E_param)], ts) else None)"
| "parse_sets _ = None"

fun parse_ints :: "token list \<Rightarrow> (int list \<times> token list) option" where
  "parse_ints (T_num i # T_sym c # ts) =
     (if c = CHR '','' then map_option (\<lambda>(is, ts). (i # is, ts)) (parse_ints ts)
      else if c = CHR '')'' then Some ([i], ts) else None)"
| "parse_ints (T_sym c # ts) = (if c = CHR '')'' then Some ([], ts) else None)"
| "parse_ints _ = None"

definition is_and :: "string \<Rightarrow> bool" where
  "is_and w \<longleftrightarrow> w = ''AND'' \<or> w = ''and''"

definition parse_cond :: "token list \<Rightarrow> (sql_cond \<times> token list) option" where
  "parse_cond ts =
     (case ts of
        T_word w # T_sym c # ts' \<Rightarrow>
          if c = CHR ''='' then map_option (\<lambda>(e, ts). (C_eq w e, ts)) (parse_expr ts') else None
      | T_word w # T_ne # ts' \<Rightarrow> map_option (\<lambda>(e, ts). (C_ne w e, ts)) (parse_expr ts')
      | T_word w # T_word v # T_sym c # ts' \<Rightarrow>
          if v = ''in'' \<and> c = CHR ''('' then map_option (\<lambda>(is, ts). (C_in w is, ts)) (parse_ints ts') else None
      | _ \<Rightarrow> None)"

text \<open>The conditions up to the end of the statement, and its limit.\<close>

fun parse_conds :: "nat \<Rightarrow> token list \<Rightarrow> (sql_cond list \<times> nat option) option" where
  "parse_conds 0 ts = None"
| "parse_conds (Suc n) ts =
     (case parse_cond ts of
        None \<Rightarrow> None
      | Some (c, ts) \<Rightarrow>
          (case ts of
             [] \<Rightarrow> Some ([c], None)
           | [T_sym s] \<Rightarrow> if s = CHR '';'' then Some ([c], None) else None
           | [T_word l, T_num i] \<Rightarrow> if l = ''LIMIT'' then Some ([c], Some (nat i)) else None
           | T_word a # ts \<Rightarrow> if is_and a then map_option (\<lambda>(cs, l). (c # cs, l)) (parse_conds n ts) else None
           | _ \<Rightarrow> None))"

text \<open>The columns of a table: the first words of the parts between the commas.\<close>

fun parse_columns :: "bool \<Rightarrow> token list \<Rightarrow> (string list \<times> token list) option" where
  "parse_columns start (T_word w # ts) =
     map_option (\<lambda>(ws, ts). (if start then w # ws else ws, ts)) (parse_columns False ts)"
| "parse_columns start (T_sym c # ts) =
     (if c = CHR '','' then parse_columns True ts
      else if c = CHR '')'' then
        (case ts of T_sym d # ts \<Rightarrow> if d = CHR '';'' then Some ([], ts) else None | _ \<Rightarrow> None)
      else None)"
| "parse_columns start _ = None"

fun parse_creates :: "nat \<Rightarrow> token list \<Rightarrow> (string \<times> string list) list option" where
  "parse_creates n [] = Some []"
| "parse_creates 0 (t # ts) = None"
| "parse_creates (Suc n) (T_word k # ts) =
     (if k = ''PRAGMA'' then
        (case ts of T_word a # T_sym b # T_word c # T_sym d # ts \<Rightarrow> parse_creates n ts | _ \<Rightarrow> None)
      else case ts of
        T_word a # T_word b # T_word c # T_word d # T_word t # T_sym p # ts \<Rightarrow>
          if [k, a, b, c, d] = [''CREATE'', ''TABLE'', ''IF'', ''NOT'', ''EXISTS''] \<and> p = CHR ''('' then
            Option.bind (parse_columns True ts) (\<lambda>(cs, ts). map_option ((#) (t, cs)) (parse_creates n ts))
          else None
      | _ \<Rightarrow> None)"
| "parse_creates (Suc n) (t # ts) = None"

definition parse_stmt :: "token list \<Rightarrow> sql_stmt option" where
  "parse_stmt ts =
     (case ts of
        T_word k # ts' \<Rightarrow>
          if k = ''INSERT'' then
            (case ts' of
               T_word i # T_word t # T_sym p # ts'' \<Rightarrow>
                 Option.bind (parse_names ts'') (\<lambda>(cols, ts).
                 case ts of T_word v # T_sym q # ts \<Rightarrow>
                   Option.bind (parse_exprs (length ts) ts) (\<lambda>(es, ts).
                   if i = ''INTO'' \<and> p = CHR ''('' \<and> v = ''VALUES'' \<and> q = CHR ''('' \<and> ts = [] then Some (S_insert t cols es)
                   else None)
                 | _ \<Rightarrow> None)
             | _ \<Rightarrow> None)
          else if k = ''UPDATE'' then
            (case ts' of
               T_word t # T_word s # ts'' \<Rightarrow>
                 Option.bind (parse_sets ts'') (\<lambda>(sets, ts).
                 Option.bind (parse_conds (length ts) ts) (\<lambda>(cs, l).
                 if s = ''SET'' \<and> l = None then Some (S_update t sets cs) else None))
             | _ \<Rightarrow> None)
          else if k = ''SELECT'' then
            (case ts' of
               T_sym a # T_word f # T_word t # T_word w # ts'' \<Rightarrow>
                 Option.bind (parse_conds (length ts'') ts'') (\<lambda>(cs, l).
                 if a = CHR ''*'' \<and> f = ''FROM'' \<and> w = ''WHERE'' then Some (S_select False t cs l) else None)
             | T_word cnt # T_sym p # T_sym a # T_sym q # T_word f # T_word t # T_word w # ts'' \<Rightarrow>
                 Option.bind (parse_conds (length ts'') ts'') (\<lambda>(cs, l).
                 if cnt = ''COUNT'' \<and> p = CHR ''('' \<and> a = CHR ''*'' \<and> q = CHR '')'' \<and> f = ''FROM'' \<and> w = ''WHERE''
                 then Some (S_select True t cs l) else None)
             | _ \<Rightarrow> None)
          else map_option S_create (parse_creates (length ts) ts)
      | _ \<Rightarrow> None)"

definition parse_sql :: "string \<Rightarrow> sql_stmt option" where
  "parse_sql s = Option.bind (tokens s) parse_stmt"

section \<open>Execution\<close>

record sql_table =
  tab_cols :: "string list"
  tab_rows :: "sql_value list list"

record sql_db =
  sql_tables :: "string \<rightharpoonup> sql_table"
  sql_rowid :: int

definition sql_init :: sql_db where
  "sql_init = \<lparr>sql_tables = Map.empty, sql_rowid = 0\<rparr>"

text \<open>The value of a column in a row, and of an expression, which may take a parameter.\<close>

definition cell :: "string list \<Rightarrow> sql_value list \<Rightarrow> string \<Rightarrow> sql_value" where
  "cell cols row col = (case map_of (zip cols row) col of None \<Rightarrow> Sql_null | Some v \<Rightarrow> v)"

fun eval_exprs :: "string \<Rightarrow> sql_expr list \<Rightarrow> sql_value list \<Rightarrow> sql_value list" where
  "eval_exprs now [] ps = []"
| "eval_exprs now (E_param # es) ps = (case ps of [] \<Rightarrow> Sql_null # eval_exprs now es [] | p # ps \<Rightarrow> p # eval_exprs now es ps)"
| "eval_exprs now (E_val v # es) ps = v # eval_exprs now es ps"
| "eval_exprs now (E_now # es) ps = Sql_text now # eval_exprs now es ps"

definition num_params :: "sql_expr list \<Rightarrow> nat" where
  "num_params es = length (filter (\<lambda>e. e = E_param) es)"

fun cond_expr :: "sql_cond \<Rightarrow> sql_expr list" where
  "cond_expr (C_eq c e) = [e]"
| "cond_expr (C_ne c e) = [e]"
| "cond_expr (C_in c is) = []"

fun cond_col :: "sql_cond \<Rightarrow> string" where
  "cond_col (C_eq c e) = c"
| "cond_col (C_ne c e) = c"
| "cond_col (C_in c is) = c"

fun holds :: "string list \<Rightarrow> sql_value list \<Rightarrow> sql_cond list \<Rightarrow> sql_value list \<Rightarrow> bool" where
  "holds cols row [] vs = True"
| "holds cols row (C_eq c e # cs) vs =
     (cell cols row c = hd vs \<and> hd vs \<noteq> Sql_null \<and> holds cols row cs (tl vs))"
| "holds cols row (C_ne c e # cs) vs =
     (cell cols row c \<noteq> hd vs \<and> cell cols row c \<noteq> Sql_null \<and> hd vs \<noteq> Sql_null \<and> holds cols row cs (tl vs))"
| "holds cols row (C_in c is # cs) vs =
     (cell cols row c \<in> set (map Sql_int is) \<and> holds cols row cs vs)"

definition row_id :: "sql_value list \<Rightarrow> int" where
  "row_id row = (case row of Sql_int i # _ \<Rightarrow> i | _ \<Rightarrow> 0)"

definition next_rowid :: "sql_table \<Rightarrow> int" where
  "next_rowid t = fold max (map row_id (tab_rows t)) 0 + 1"

definition new_row :: "string list \<Rightarrow> int \<Rightarrow> string list \<Rightarrow> sql_value list \<Rightarrow> sql_value list" where
  "new_row cols i names vs =
     map (\<lambda>c. if c = ''id'' then Sql_int i else case map_of (zip names vs) c of None \<Rightarrow> Sql_null | Some v \<Rightarrow> v) cols"

definition set_cells :: "string list \<Rightarrow> (string \<times> sql_value) list \<Rightarrow> sql_value list \<Rightarrow> sql_value list" where
  "set_cells cols sets row =
     map (\<lambda>(c, v). case map_of sets c of None \<Rightarrow> v | Some w \<Rightarrow> w) (zip cols row)"

definition select_rows :: "string list \<Rightarrow> sql_cond list \<Rightarrow> sql_value list \<Rightarrow> sql_value list list \<Rightarrow> sql_value list list" where
  "select_rows cols cs vs = filter (\<lambda>row. holds cols row cs vs)"

text \<open>The names that a statement uses must be there, and it must be given all its parameters.\<close>

fun stmt_ok :: "sql_db \<Rightarrow> sql_stmt \<Rightarrow> bool" where
  "stmt_ok st (S_create ts) \<longleftrightarrow> True"
| "stmt_ok st (S_insert t names es) \<longleftrightarrow>
     (case sql_tables st t of None \<Rightarrow> False | Some tb \<Rightarrow> set names \<subseteq> set (tab_cols tb) \<and> length names = length es)"
| "stmt_ok st (S_update t sets cs) \<longleftrightarrow>
     (case sql_tables st t of None \<Rightarrow> False
      | Some tb \<Rightarrow> fst ` set sets \<union> cond_col ` set cs \<subseteq> set (tab_cols tb))"
| "stmt_ok st (S_select cnt t cs l) \<longleftrightarrow>
     (case sql_tables st t of None \<Rightarrow> False | Some tb \<Rightarrow> cond_col ` set cs \<subseteq> set (tab_cols tb))"

fun stmt_params :: "sql_stmt \<Rightarrow> nat" where
  "stmt_params (S_create ts) = 0"
| "stmt_params (S_insert t names es) = num_params es"
| "stmt_params (S_update t sets cs) = num_params (map snd sets @ concat (map cond_expr cs))"
| "stmt_params (S_select cnt t cs l) = num_params (concat (map cond_expr cs))"

definition sql_done :: "sql_db \<Rightarrow> sql_reply" where
  "sql_done st = \<lparr>rows = [], finished = True, last_rowid = sql_rowid st\<rparr>"

definition create_missing :: "string \<times> string list \<Rightarrow> sql_db \<Rightarrow> sql_db" where
  "create_missing = (\<lambda>(t, cols) st.
     if t \<in> dom (sql_tables st) then st
     else st\<lparr>sql_tables := (sql_tables st)(t \<mapsto> \<lparr>tab_cols = cols, tab_rows = []\<rparr>)\<rparr>)"

fun exec_stmt :: "string \<Rightarrow> sql_stmt \<Rightarrow> sql_value list \<Rightarrow> sql_db \<Rightarrow> sql_reply \<times> sql_db" where
  "exec_stmt now (S_create ts) ps st = (let st = fold create_missing ts st in (sql_done st, st))"
| "exec_stmt now (S_insert t names es) ps st =
     (let tb = the (sql_tables st t); i = next_rowid tb;
          tb = tb\<lparr>tab_rows := tab_rows tb @ [new_row (tab_cols tb) i names (eval_exprs now es ps)]\<rparr>;
          st = st\<lparr>sql_tables := (sql_tables st)(t \<mapsto> tb), sql_rowid := i\<rparr>
      in (sql_done st, st))"
| "exec_stmt now (S_update t sets cs) ps st =
     (let tb = the (sql_tables st t);
          vs = eval_exprs now (map snd sets @ concat (map cond_expr cs)) ps;
          ws = zip (map fst sets) (take (length sets) vs); cvs = drop (length sets) vs;
          tb = tb\<lparr>tab_rows := map (\<lambda>row. if holds (tab_cols tb) row cs cvs then set_cells (tab_cols tb) ws row else row)
                 (tab_rows tb)\<rparr>;
          st = st\<lparr>sql_tables := (sql_tables st)(t \<mapsto> tb)\<rparr>
      in (sql_done st, st))"
| "exec_stmt now (S_select cnt t cs l) ps st =
     (let tb = the (sql_tables st t);
          rs = select_rows (tab_cols tb) cs (eval_exprs now (concat (map cond_expr cs)) ps) (tab_rows tb);
          rs = (if cnt then [[Sql_int (int (length rs))]] else rs)
      in ((sql_done st)\<lparr>rows := (case l of None \<Rightarrow> rs | Some n \<Rightarrow> take n rs)\<rparr>, st))"

text \<open>The reference: the state after a history, which statements it takes, and its answers.\<close>

definition exec_sql :: "string \<Rightarrow> string \<times> sql_value list \<Rightarrow> sql_db \<Rightarrow> sql_reply \<times> sql_db" where
  "exec_sql now = (\<lambda>(sql, vals) st. exec_stmt now (the (parse_sql sql)) vals st)"

definition sql_state :: "(nat \<Rightarrow> string) \<Rightarrow> db_history \<Rightarrow> sql_db" where
  "sql_state now h = fold (\<lambda>(i, s) st. snd (exec_sql (now i) s st)) (enumerate 0 h) sql_init"

definition sql_prepares :: "(nat \<Rightarrow> string) \<Rightarrow> db_history \<Rightarrow> string \<Rightarrow> bool" where
  "sql_prepares now h sql =
     (case parse_sql sql of None \<Rightarrow> False | Some s \<Rightarrow> stmt_ok (sql_state now h) s)"

definition sql_steps :: "(nat \<Rightarrow> string) \<Rightarrow> db_history \<Rightarrow> sql_reply" where
  "sql_steps now h = fst (exec_sql (now (length h - 1)) (last h) (sql_state now (butlast h)))"

definition reference :: "(nat \<Rightarrow> string) \<Rightarrow> sqlite" where
  "reference now = \<lparr>prepares = sql_prepares now, steps = sql_steps now\<rparr>"

text \<open>A history of statements that the reference takes, each with all its parameters.\<close>

definition takes :: "(nat \<Rightarrow> string) \<Rightarrow> db_history \<Rightarrow> string \<times> sql_value list \<Rightarrow> bool" where
  "takes now h = (\<lambda>(sql, vals).
     case parse_sql sql of None \<Rightarrow> False
     | Some s \<Rightarrow> stmt_ok (sql_state now h) s \<and> length vals = stmt_params s)"

inductive in_fragment :: "(nat \<Rightarrow> string) \<Rightarrow> db_history \<Rightarrow> bool" where
  empty: "in_fragment now []"
| step: "in_fragment now h \<Longrightarrow> takes now h s \<Longrightarrow> in_fragment now (h @ [s])"

definition follows_sql :: "(nat \<Rightarrow> string) \<Rightarrow> sqlite \<Rightarrow> bool" where
  "follows_sql now sqlite \<longleftrightarrow>
     (\<forall>h sql. in_fragment now h \<longrightarrow> prepares sqlite h sql \<or> \<not> sql_prepares now h sql) \<and>
     (\<forall>h sql vals. in_fragment now h \<longrightarrow> takes now h (sql, vals) \<longrightarrow>
        steps sqlite (h @ [(sql, vals)]) = sql_steps now (h @ [(sql, vals)]))"

lemma reference_follows: "follows_sql now (reference now)"
  by (simp add: follows_sql_def reference_def)

lemma sql_state_snoc: "sql_state now (h @ [s]) = snd (exec_sql (now (length h)) s (sql_state now h))"
  by (simp add: sql_state_def enumerate_append_eq split: prod.split)

lemma sql_steps_snoc: "sql_steps now (h @ [s]) = fst (exec_sql (now (length h)) s (sql_state now h))"
  by (simp add: sql_steps_def)

end
