(* ===== verification/Db_Texts.thy ===== *)
theory Db_Texts
  imports Db_Sql
begin

text \<open>
  What the texts of db.c parse to. The schema of sql.h and every text with its parameters marked is
  parsed here once; a text that is put together from parts is split at a character that ends a token.
\<close>

section \<open>Classes of characters, by their bits\<close>

lemma char_class_code [code]:
  "c_isdigit (Char b0 b1 b2 b3 b4 b5 b6 b7) \<longleftrightarrow> \<not> b7 \<and> \<not> b6 \<and> b5 \<and> b4 \<and> (b3 \<longrightarrow> \<not> b2 \<and> \<not> b1)"
  "c_isspace (Char b0 b1 b2 b3 b4 b5 b6 b7) \<longleftrightarrow> \<not> b7 \<and> \<not> b6 \<and> \<not> b4 \<and>
     (if b5 then \<not> b3 \<and> \<not> b2 \<and> \<not> b1 \<and> \<not> b0 else b3 \<and> (if b2 then \<not> b1 else b1 \<or> b0))"
  "word_char (Char b0 b1 b2 b3 b4 b5 b6 b7) \<longleftrightarrow> \<not> b7 \<and>
     (if b6 then (if b4 then (b3 \<longrightarrow> \<not> b2 \<and> (\<not> b1 \<or> \<not> b0)) \<or> \<not> b5 \<and> b3 \<and> b2 \<and> b1 \<and> b0
                  else b0 \<or> b1 \<or> b2 \<or> b3)
      else b5 \<and> b4 \<and> (b3 \<longrightarrow> \<not> b2 \<and> \<not> b1))"
  by (cases b0; cases b1; cases b2; cases b3; cases b4; cases b5; cases b6; cases b7;
      simp add: c_isdigit_def c_isspace_def word_char_def of_char_def)+

section \<open>Texts in parts\<close>

text \<open>
  A text can be split before a character that ends every token: then the tokens of the parts are
  those of the whole.
\<close>

definition breaks :: "char \<Rightarrow> bool" where
  "breaks c \<longleftrightarrow> \<not> word_char c \<and> c \<noteq> CHR 0x27 \<and> c \<noteq> CHR ''=''"

lemma digit_is_word: "c_isdigit c \<Longrightarrow> word_char c"
  by (simp add: c_isdigit_def word_char_def Let_def)

lemma takeWhile_breaks:
  assumes "\<not> P c"
  shows "takeWhile P (s @ c # t) = takeWhile P s" and "dropWhile P (s @ c # t) = dropWhile P s @ c # t"
  using assms by (induction s) auto

lemma tokens_append:
  assumes c: "breaks c"
  shows "tokens s = Some ts \<Longrightarrow> tokens (s @ c # t) = map_option ((@) ts) (tokens (c # t))"
proof (induction s arbitrary: ts rule: tokens.induct)
  case 1
  then show ?case by (cases "tokens (c # t)") auto
next
  case (2 d s)
  have c': "\<not> word_char c" "\<not> c_isdigit c" "c \<noteq> CHR 0x27" "c \<noteq> CHR ''=''"
    using c digit_is_word by (auto simp: breaks_def)
  note tw = takeWhile_breaks [of c_isdigit c, OF c'(2)] takeWhile_breaks [of word_char c, OF c'(1)]
  have hd: "P (hd (s @ c # t)) \<longleftrightarrow> s \<noteq> [] \<and> P (hd s)" if "\<not> P c" for P
    using that by (cases s) auto
  note unf = tokens.simps(2) [of d "s @ c # t"] tokens.simps(2) [of d s]
  consider (space) "c_isspace d" | (digit) "\<not> c_isspace d" "c_isdigit d"
    | (minus) "\<not> c_isspace d" "\<not> c_isdigit d" "d = CHR ''-'' \<and> s \<noteq> [] \<and> c_isdigit (hd s)"
    | (word) "\<not> c_isspace d" "\<not> c_isdigit d" "\<not> (d = CHR ''-'' \<and> s \<noteq> [] \<and> c_isdigit (hd s))" "word_char d"
    | (rest) "\<not> c_isspace d" "\<not> c_isdigit d" "\<not> (d = CHR ''-'' \<and> s \<noteq> [] \<and> c_isdigit (hd s))" "\<not> word_char d"
    by blast
  then show ?case
  proof cases
    case space
    with 2 show ?thesis by (simp add: unf)
  next
    case digit
    then obtain us where us: "tokens (dropWhile c_isdigit s) = Some us"
      "ts = T_num (int (digits_value (takeWhile c_isdigit (d # s)))) # us"
      using "2.prems" by (auto simp: unf)
    from "2.IH"(2) [OF digit us(1)] show ?thesis
      using digit us(2) by (simp add: unf tw option.map_comp o_def)
  next
    case minus
    then obtain us where us: "tokens (dropWhile c_isdigit s) = Some us"
      "ts = T_num (- int (digits_value (takeWhile c_isdigit s))) # us"
      using "2.prems" unfolding unf(2) by auto
    from "2.IH"(3) [OF minus us(1)] show ?thesis
      unfolding append_Cons unf(1) using minus us(2) hd [of c_isdigit, OF c'(2)] by (simp add: tw option.map_comp o_def)
  next
    case word
    then obtain us where us: "tokens (dropWhile word_char s) = Some us" "ts = T_word (takeWhile word_char (d # s)) # us"
      using "2.prems" by (auto simp: unf)
    from "2.IH"(4) [OF word us(1)] show ?thesis
      using word us(2) hd [of c_isdigit, OF c'(2)] by (auto simp: unf tw option.map_comp o_def)
  next
    case rest
    have nm: "\<not> (d = CHR ''-'' \<and> s @ c # t \<noteq> [] \<and> c_isdigit (hd (s @ c # t)))"
      using rest(3) hd [of c_isdigit, OF c'(2)] by auto
    consider (par) "d = CHR ''?''" | (ne) "d \<noteq> CHR ''?''" "d = CHR ''!''"
      | (quote) "d \<noteq> CHR ''?''" "d \<noteq> CHR ''!''" "d = CHR 0x27"
      | (sym) "d \<noteq> CHR ''?''" "d \<noteq> CHR ''!''" "d \<noteq> CHR 0x27" by blast
    then show ?thesis
    proof cases
      case par
      then obtain us where us: "tokens s = Some us" "ts = T_param # us"
        using "2.prems" rest unfolding unf(2) by auto
      from "2.IH"(5) [OF rest par us(1)] show ?thesis
        unfolding append_Cons unf(1) using rest nm par us(2) by (simp add: option.map_comp o_def)
    next
      case ne
      then have s: "s \<noteq> [] \<and> hd s = CHR ''=''" using "2.prems" rest unfolding unf(2) by (auto split: if_splits)
      then obtain us where us: "tokens (tl s) = Some us" "ts = T_ne # us"
        using "2.prems" rest ne unfolding unf(2) by auto
      from "2.IH"(6) [OF rest ne s us(1)] show ?thesis
        unfolding append_Cons unf(1) using rest nm ne s us(2) by (simp add: option.map_comp o_def)
    next
      case quote
      have dw: "dropWhile not_quote s \<noteq> []"
      proof
        assume "dropWhile not_quote s = []"
        then have "tokens (d # s) = None"
          using rest quote unfolding unf(2) by (simp del: dropWhile_eq_Nil_conv)
        then show False using "2.prems" by simp
      qed
      then obtain q s' where s': "dropWhile not_quote s = q # s'" by (cases "dropWhile not_quote s") auto
      then have nq: "\<not> not_quote q" using hd_dropWhile [of not_quote s] by auto
      then obtain us where us: "\<not> (s' \<noteq> [] \<and> hd s' = CHR 0x27)" "tokens s' = Some us" "ts = T_text (takeWhile not_quote s) # us"
        using "2.prems" rest quote s' unfolding unf(2) by (auto split: if_splits)
      have "dropWhile not_quote (s @ c # t) = q # s' @ c # t" "takeWhile not_quote (s @ c # t) = takeWhile not_quote s"
        using s' nq set_dropWhileD [of q not_quote s] by (simp_all add: dropWhile_append1 takeWhile_append1)
      moreover have "\<not> (s' @ c # t \<noteq> [] \<and> hd (s' @ c # t) = CHR 0x27)" using us(1) c'(3) by (cases s') auto
      ultimately show ?thesis
        unfolding append_Cons unf(1) using "2.IH"(7) [OF rest quote s' us(1,2)] rest nm quote us(3) by (simp add: option.map_comp o_def)
    next
      case sym
      then have d: "d \<in> {CHR ''('', CHR '')'', CHR '','', CHR ''='', CHR ''*'', CHR '';''}"
        using "2.prems" rest unfolding unf(2) by (auto split: if_splits)
      then obtain us where us: "tokens s = Some us" "ts = T_sym d # us"
        using "2.prems" rest sym unfolding unf(2) by auto
      have "d \<noteq> CHR ''-''" using d by auto
      from "2.IH"(8) [OF rest sym d us(1)] show ?thesis
        unfolding append_Cons unf(1) using \<open>d \<noteq> CHR ''-''\<close> rest nm sym d us(2) by (simp add: option.map_comp o_def)
    qed
  qed
qed

lemma tokens_space: "c_isspace c \<Longrightarrow> tokens (c # t) = tokens t"
  by (simp add: tokens.simps(2))

lemma tokens_lines:
  assumes "list_all2 (\<lambda>l ts. tokens l = Some ts) ls tss"
  shows "tokens (concat (map (\<lambda>l. l @ nl) ls) @ s) = map_option ((@) (concat tss)) (tokens s)"
  using assms
proof (induction ls tss rule: list_all2_induct)
  case Nil
  then show ?case by (cases "tokens s") auto
next
  case (Cons l ls ts tss)
  have br: "breaks CHR 0x0A" "c_isspace CHR 0x0A" by (simp_all add: breaks_def word_char_def c_isspace_def)
  show ?case
    using tokens_append [OF br(1) Cons.hyps(1)] Cons.IH
    by (simp add: nl_def tokens_space br(2) option.map_comp o_def)
qed

section \<open>The texts\<close>

definition schema :: "(string \<times> string list) list" where
  "schema =
    [(''users'', [''id'', ''date_created'', ''u_username'', ''password'', ''email'', ''session'', ''is_admin'', ''state'']),
     (''boards'', [''id'', ''u_dna'', ''u_name'', ''u_ip_addr'', ''cur_dut_board_id'', ''is_master'']),
     (''dut_boards'', [''id'', ''u_dna'', ''u_name'', ''mount_id'', ''profile_path'']),
     (''jobs'', [''id'', ''board_id'', ''dut_board_id'', ''user_id'', ''date_created'', ''state'']),
     (''prgms'', [''id'', ''job_id'', ''mount_id'', ''date_created'', ''date_start'', ''date_end'', ''path'', ''body'',
       ''return_code'', ''error_msg'', ''last_stim_id'', ''did_fail'', ''failing_vec'', ''state'']),
     (''prgm_logs'', [''id'', ''prgm_id'', ''date_created'', ''line'']),
     (''stims'', [''id'', ''prgm_id'', ''date_created'', ''path'', ''did_fail'', ''failing_vec'', ''state'']),
     (''fail_pins'', [''id'', ''stim_id'', ''dut_io_id'', ''did_fail'']),
     (''mounts'', [''id'', ''date_created'', ''u_name'', ''ip_addr'', ''remote_path'', ''local_point'', ''message'', ''state''])]"

lemma tokens_create_table:
  assumes "list_all (\<lambda>l. tokens l \<noteq> None) (h # cols)"
  shows "tokens (create_table h cols @ s) = map_option ((@) (concat (map (\<lambda>l. the (tokens l)) (h # cols)))) (tokens s)"
proof -
  have "list_all2 (\<lambda>l ts. tokens l = Some ts) (h # cols) (map (\<lambda>l. the (tokens l)) (h # cols))"
    unfolding list_all2_map2 list_all2_same using assms by (auto simp: list_all_iff)
  from tokens_lines [OF this] show ?thesis by (simp add: create_table_def)
qed

lemma tokens_create_table_end:
  "list_all (\<lambda>l. tokens l \<noteq> None) (h # cols) \<Longrightarrow>
   tokens (create_table h cols) = Some (concat (map (\<lambda>l. the (tokens l)) (h # cols)))"
  using tokens_create_table [of h cols "[]"] by simp

lemma tokens_pragma:
  "tokens (''    PRAGMA journal_mode=WAL;'' @ create_table (CHR 0x20 # h) cols @ s) =
     map_option ((@) [T_word ''PRAGMA'', T_word ''journal_mode'', T_sym CHR ''='', T_word ''WAL'', T_sym CHR '';''])
       (tokens (create_table (CHR 0x20 # h) cols @ s))"
proof -
  have "tokens ''    PRAGMA journal_mode=WAL;'' =
      Some [T_word ''PRAGMA'', T_word ''journal_mode'', T_sym CHR ''='', T_word ''WAL'', T_sym CHR '';'']"
    by code_simp
  moreover have "breaks CHR 0x20" by (simp add: breaks_def word_char_def)
  moreover have "\<exists>r. create_table (CHR 0x20 # h) cols @ s = CHR 0x20 # r" by (simp add: create_table_def)
  ultimately show ?thesis using tokens_append by fastforce
qed

lemma parse_DB_SQL: "parse_sql DB_SQL = Some (S_create schema)"
proof -
  have "\<exists>ts. tokens DB_SQL = Some ts \<and> parse_stmt ts = Some (S_create schema)"
    unfolding DB_SQL_def
    apply (subst tokens_pragma)
    apply (subst tokens_create_table, code_simp)+
    apply (subst tokens_create_table_end, code_simp)
    apply (simp only: option.map option.inject ex_simps simp_thms)
    apply code_simp
    done
  then show ?thesis by (auto simp: parse_sql_def)
qed

abbreviation select_id :: "string \<Rightarrow> sql_stmt" where
  "select_id t \<equiv> S_select False t [C_eq ''id'' E_param] (Some 1)"

named_theorems sql_texts \<open>what the texts of the statements parse to\<close>

lemma parse_selects [sql_texts]:
  "parse_sql ''SELECT * FROM users WHERE id=? LIMIT 1'' = Some (select_id ''users'')"
  "parse_sql ''SELECT * FROM boards WHERE id=? LIMIT 1'' = Some (select_id ''boards'')"
  "parse_sql ''SELECT * FROM dut_boards WHERE id=? LIMIT 1'' = Some (select_id ''dut_boards'')"
  "parse_sql ''SELECT * FROM jobs WHERE id=? LIMIT 1'' = Some (select_id ''jobs'')"
  "parse_sql ''SELECT * FROM prgms WHERE id=? LIMIT 1'' = Some (select_id ''prgms'')"
  "parse_sql ''SELECT * FROM prgm_logs WHERE id=? LIMIT 1'' = Some (select_id ''prgm_logs'')"
  "parse_sql ''SELECT * FROM stims WHERE id=? LIMIT 1'' = Some (select_id ''stims'')"
  "parse_sql ''SELECT * FROM fail_pins WHERE id=? LIMIT 1'' = Some (select_id ''fail_pins'')"
  "parse_sql ''SELECT * FROM mounts WHERE id=? LIMIT 1'' = Some (select_id ''mounts'')"
  by code_simp+

lemma parse_inserts [sql_texts]:
  "parse_sql (''INSERT INTO users(date_created, u_username, password, email, session, is_admin, state)'' @
      ''VALUES('' @ sql_now @ '', ?, ?, ?, ?, ?, ?)'') =
    Some (S_insert ''users'' [''date_created'', ''u_username'', ''password'', ''email'', ''session'', ''is_admin'', ''state'']
      [E_now, E_param, E_param, E_param, E_param, E_param, E_param])"
  "parse_sql ''INSERT INTO boards(u_dna, u_name, u_ip_addr, cur_dut_board_id, is_master) VALUES(?, ?, ?, ?, ?)'' =
    Some (S_insert ''boards'' [''u_dna'', ''u_name'', ''u_ip_addr'', ''cur_dut_board_id'', ''is_master'']
      [E_param, E_param, E_param, E_param, E_param])"
  "parse_sql ''INSERT INTO dut_boards(u_dna, u_name, mount_id, profile_path) VALUES(?, ?, ?, ?)'' =
    Some (S_insert ''dut_boards'' [''u_dna'', ''u_name'', ''mount_id'', ''profile_path''] [E_param, E_param, E_param, E_param])"
  "parse_sql (''INSERT INTO jobs(board_id, dut_board_id, user_id, date_created, state) '' @
      ''VALUES(?, ?, ?, '' @ sql_now @ '', ?)'') =
    Some (S_insert ''jobs'' [''board_id'', ''dut_board_id'', ''user_id'', ''date_created'', ''state'']
      [E_param, E_param, E_param, E_now, E_param])"
  "parse_sql (''INSERT INTO prgms(job_id, mount_id, date_created, date_start, date_end, path, body, return_code, '' @
      ''error_msg, last_stim_id, did_fail, failing_vec, state)'' @
      ''VALUES(?, ?, '' @ sql_now @ '', '' @ sql_quoted '''' @ '', '' @ sql_quoted '''' @ '', ?, ?, ?, ?, ?, ?, ?, ?)'') =
    Some (S_insert ''prgms'' [''job_id'', ''mount_id'', ''date_created'', ''date_start'', ''date_end'', ''path'', ''body'',
      ''return_code'', ''error_msg'', ''last_stim_id'', ''did_fail'', ''failing_vec'', ''state'']
      [E_param, E_param, E_now, E_val (Sql_text ''''), E_val (Sql_text ''''), E_param, E_param, E_param, E_param,
       E_param, E_param, E_param, E_param])"
  "parse_sql (''INSERT INTO prgm_logs(prgm_id, date_created, line)'' @ ''VALUES(?, '' @ sql_now @ '', ?)'') =
    Some (S_insert ''prgm_logs'' [''prgm_id'', ''date_created'', ''line''] [E_param, E_now, E_param])"
  "parse_sql (''INSERT INTO stims(prgm_id, date_created, path, did_fail, failing_vec, state)'' @
      ''VALUES(?, '' @ sql_now @ '', ?, ?, ?, ?)'') =
    Some (S_insert ''stims'' [''prgm_id'', ''date_created'', ''path'', ''did_fail'', ''failing_vec'', ''state'']
      [E_param, E_now, E_param, E_param, E_param, E_param])"
  "parse_sql ''INSERT INTO fail_pins(stim_id, dut_io_id, did_fail) VALUES(?, ?, ?)'' =
    Some (S_insert ''fail_pins'' [''stim_id'', ''dut_io_id'', ''did_fail''] [E_param, E_param, E_param])"
  "parse_sql (''INSERT INTO mounts(date_created, u_name, ip_addr, remote_path, local_point, message, state)'' @
      ''VALUES('' @ sql_now @ '', ?, ?, ?, ?, ?, ?)'') =
    Some (S_insert ''mounts'' [''date_created'', ''u_name'', ''ip_addr'', ''remote_path'', ''local_point'', ''message'', ''state'']
      [E_now, E_param, E_param, E_param, E_param, E_param, E_param])"
  by code_simp+

lemma parse_updates [sql_texts]:
  "parse_sql ''UPDATE boards SET u_dna=?, u_name=?, u_ip_addr=?, cur_dut_board_id=?, is_master=? WHERE id=?'' =
    Some (S_update ''boards'' (map (\<lambda>c. (c, E_param)) [''u_dna'', ''u_name'', ''u_ip_addr'', ''cur_dut_board_id'', ''is_master''])
      [C_eq ''id'' E_param])"
  "parse_sql ''UPDATE jobs SET board_id=?, dut_board_id=?, user_id=?, state=? WHERE id=?'' =
    Some (S_update ''jobs'' (map (\<lambda>c. (c, E_param)) [''board_id'', ''dut_board_id'', ''user_id'', ''state'']) [C_eq ''id'' E_param])"
  "parse_sql (''UPDATE prgms SET job_id=?, mount_id=?, date_start=?, date_end=?, path=?, body=?, return_code=?, '' @
      ''error_msg=?, last_stim_id=?, did_fail=?, failing_vec=?, state=? WHERE id=?'') =
    Some (S_update ''prgms'' (map (\<lambda>c. (c, E_param)) [''job_id'', ''mount_id'', ''date_start'', ''date_end'', ''path'', ''body'',
      ''return_code'', ''error_msg'', ''last_stim_id'', ''did_fail'', ''failing_vec'', ''state'']) [C_eq ''id'' E_param])"
  "parse_sql ''UPDATE stims SET prgm_id=?, path=?, did_fail=?, failing_vec=?, state=? WHERE id=?'' =
    Some (S_update ''stims'' (map (\<lambda>c. (c, E_param)) [''prgm_id'', ''path'', ''did_fail'', ''failing_vec'', ''state''])
      [C_eq ''id'' E_param])"
  "parse_sql ''UPDATE mounts SET u_name=?, ip_addr=?, remote_path=?, local_point=?, message=?, state=? WHERE id=?'' =
    Some (S_update ''mounts'' (map (\<lambda>c. (c, E_param)) [''u_name'', ''ip_addr'', ''remote_path'', ''local_point'', ''message'', ''state''])
      [C_eq ''id'' E_param])"
  by code_simp+

end
