(* ===== verification/Db_Rows.thy ===== *)
theory Db_Rows
  imports Db_Texts
begin

text \<open>
  Rows that were written read back. The texts of the insertions, updates and lookups are run by the
  reference semantics on the tables of the schema, so a value that is bound at the wrong place, a
  column that is read at the wrong index or a name that the schema does not have would show here.
\<close>

section \<open>An open database\<close>

text \<open>\<open>db_ready\<close>: the connection is open, and what was executed since is the schema and then
  statements that the reference takes.\<close>

definition db_ready :: "(nat \<Rightarrow> string) \<Rightarrow> database \<Rightarrow> bool" where
  "db_ready now db \<longleftrightarrow> conn db = Connected \<and> in_fragment now (log db) \<and> (\<exists>h. log db = (DB_SQL, []) # h)"

definition db_state :: "(nat \<Rightarrow> string) \<Rightarrow> database \<Rightarrow> sql_db" where
  "db_state now db = sql_state now (log db)"

definition db_clock :: "(nat \<Rightarrow> string) \<Rightarrow> database \<Rightarrow> string" where
  "db_clock now db = now (length (log db))"

definition has_schema :: "sql_db \<Rightarrow> bool" where
  "has_schema st \<longleftrightarrow> (\<forall>(t, cols)\<in>set schema. \<exists>tb. sql_tables st t = Some tb \<and> tab_cols tb = cols \<and>
     (\<forall>row\<in>set (tab_rows tb). length row = length cols))"

lemma has_schemaD:
  "has_schema st \<Longrightarrow> (t, cols) \<in> set schema \<Longrightarrow>
   \<exists>tb. sql_tables st t = Some tb \<and> tab_cols tb = cols \<and> (\<forall>row\<in>set (tab_rows tb). length row = length cols)"
  by (auto simp: has_schema_def dest!: bspec [of "set schema" _ "(t, cols)"])

lemma create_missing_other: "t' \<noteq> t \<or> t' \<in> dom (sql_tables st) \<Longrightarrow>
    sql_tables (create_missing (t, cols) st) t' = sql_tables st t'"
  by (auto simp: create_missing_def)

lemma create_missing_fold:
  "t \<in> dom (sql_tables st) \<Longrightarrow> sql_tables (fold create_missing ts st) t = sql_tables st t"
proof (induction ts arbitrary: st)
  case (Cons a ts)
  obtain t' cols where a: "a = (t', cols)" by fastforce
  have "sql_tables (create_missing a st) t = sql_tables st t"
    using Cons.prems unfolding a by (intro create_missing_other) auto
  with Cons show ?case by (simp add: domIff)
qed simp

lemma create_schema: "has_schema (fold create_missing schema sql_init)"
  by (simp add: has_schema_def schema_def create_missing_def sql_init_def)

lemma set_cells_length: "length (set_cells cols ws row) = min (length cols) (length row)"
  by (simp add: set_cells_def)

text \<open>No statement changes the columns of a table or the number of values in a row.\<close>

lemma exec_keeps_schema:
  assumes "has_schema st"
  shows "has_schema (snd (exec_stmt now s ps st))"
  unfolding has_schema_def
proof (intro ballI, clarify)
  fix t cols assume "(t, cols) \<in> set schema"
  with has_schemaD [OF assms] obtain tb where tb: "sql_tables st t = Some tb" "tab_cols tb = cols"
    "\<forall>row\<in>set (tab_rows tb). length row = length cols" by blast
  show "\<exists>tb. sql_tables (snd (exec_stmt now s ps st)) t = Some tb \<and> tab_cols tb = cols \<and>
      (\<forall>row\<in>set (tab_rows tb). length row = length cols)"
  proof (cases s)
    case (S_create ts)
    then show ?thesis using tb create_missing_fold [of t st ts] by (simp add: Let_def domI)
  next
    case (S_insert u names es)
    then show ?thesis using tb by (cases "u = t") (auto simp: Let_def new_row_def)
  next
    case (S_update u sets cs)
    then show ?thesis using tb by (cases "u = t") (auto simp: Let_def set_cells_length)
  next
    case (S_select c u cs l)
    then show ?thesis using tb by (simp add: Let_def)
  qed
qed

lemma ready_schema:
  assumes "db_ready now db"
  shows "has_schema (db_state now db)"
proof -
  from assms obtain h where h: "log db = (DB_SQL, []) # h" by (auto simp: db_ready_def)
  have "has_schema (sql_state now ((DB_SQL, []) # h))"
  proof (induction h rule: rev_induct)
    case Nil
    have "sql_state now [(DB_SQL, [])] = fold create_missing schema sql_init"
      using sql_state_snoc [of now "[]" "(DB_SQL, [])"]
      by (simp add: exec_sql_def parse_DB_SQL sql_state_def Let_def)
    then show ?case using create_schema by simp
  next
    case (snoc s h)
    then show ?case using sql_state_snoc [of now "(DB_SQL, []) # h" s] exec_keeps_schema
      by (simp add: exec_sql_def split: prod.split)
  qed
  then show ?thesis by (simp add: db_state_def h)
qed

section \<open>One statement\<close>

lemma db_step_reference:
  assumes fs: "follows_sql now sqlite" and ready: "db_ready now db" and p: "parse_sql sql = Some s"
    and ok: "stmt_ok (db_state now db) s" and len: "length vals = stmt_params s"
  obtains db' where "db_prepare sqlite sql db = Inr True"
    and "db_step sqlite sql vals db = (fst (exec_stmt (db_clock now db) s vals (db_state now db)), db')"
    and "db_ready now db'" and "db_state now db' = snd (exec_stmt (db_clock now db) s vals (db_state now db))"
proof
  let ?db = "db\<lparr>log := log db @ [(sql, vals)]\<rparr>"
  have frag: "in_fragment now (log db)" and conn: "conn db = Connected"
    using ready by (auto simp: db_ready_def)
  have takes: "takes now (log db) (sql, vals)" using p ok len by (simp add: takes_def db_state_def)
  have "sql_prepares now (log db) sql" using p ok by (simp add: sql_prepares_def db_state_def)
  then show "db_prepare sqlite sql db = Inr True"
    using fs frag conn by (auto simp: follows_sql_def db_prepare_def)
  have "steps sqlite (log db @ [(sql, vals)]) = sql_steps now (log db @ [(sql, vals)])"
    using fs frag takes by (auto simp: follows_sql_def)
  then show "db_step sqlite sql vals db = (fst (exec_stmt (db_clock now db) s vals (db_state now db)), ?db)"
    using p by (simp add: db_step_def sql_steps_snoc exec_sql_def db_clock_def db_state_def Let_def)
  show "db_state now ?db = snd (exec_stmt (db_clock now db) s vals (db_state now db))"
    using p by (simp add: db_state_def sql_state_snoc exec_sql_def db_clock_def)
  show "db_ready now ?db"
    using ready in_fragment.step [OF frag takes] by (auto simp: db_ready_def)
qed

lemma insert_row_reference:
  assumes fs: "follows_sql now sqlite" and ready: "db_ready now db"
    and p: "parse_sql sql = Some (S_insert t names es)" and t: "(t, cols) \<in> set schema"
    and names: "set names \<subseteq> set cols" "length names = length es" and len: "length vals = num_params es"
  obtains tb db' where "sql_tables (db_state now db) t = Some tb" and "tab_cols tb = cols"
    and "insert_row sqlite sql (Inr vals) db = Inr (next_rowid tb, db')" and "db_ready now db'"
    and "sql_tables (db_state now db') t =
       Some (tb\<lparr>tab_rows := tab_rows tb @ [new_row cols (next_rowid tb) names (eval_exprs (db_clock now db) es vals)]\<rparr>)"
proof -
  from has_schemaD [OF ready_schema [OF ready] t] obtain tb where
    tb: "sql_tables (db_state now db) t = Some tb" "tab_cols tb = cols" by blast
  have "stmt_ok (db_state now db) (S_insert t names es)" using tb names by simp
  from db_step_reference [OF fs ready p this] len obtain db' where
    db': "db_prepare sqlite sql db = Inr True"
    "db_step sqlite sql vals db = (fst (exec_stmt (db_clock now db) (S_insert t names es) vals (db_state now db)), db')"
    "db_ready now db'" "db_state now db' = snd (exec_stmt (db_clock now db) (S_insert t names es) vals (db_state now db))"
    by auto
  have "insert_row sqlite sql (Inr vals) db = Inr (next_rowid tb, db')"
    using db'(1,2) tb by (simp add: insert_row_def execute_def Let_def sql_done_def)
  then show thesis using that [OF tb] db'(3,4) tb by (simp add: Let_def)
qed

definition has_id :: "int \<Rightarrow> sql_value list \<Rightarrow> bool" where
  "has_id i row \<longleftrightarrow> row \<noteq> [] \<and> hd row = Sql_int i"

lemma select_one_reference:
  assumes fs: "follows_sql now sqlite" and ready: "db_ready now db"
    and p: "parse_sql sql = Some (select_id t)" and t: "(t, ''id'' # cols) \<in> set schema"
    and tb: "sql_tables (db_state now db) t = Some tb"
  obtains db' where "db_ready now db'" and "db_state now db' = db_state now db"
    and "select_one sqlite sql [Sql_int i] mk db =
      (case find (has_id i) (tab_rows tb) of None \<Rightarrow> Inr (None, db') | Some row \<Rightarrow> bindR (mk row) (\<lambda>x. Inr (Some x, db')))"
proof -
  have cols: "tab_cols tb = ''id'' # cols" using has_schemaD [OF ready_schema [OF ready] t] tb by auto
  have ok: "stmt_ok (db_state now db) (select_id t)" using tb cols by simp
  have len: "length [Sql_int i] = stmt_params (select_id t)" by (simp add: num_params_def)
  from db_step_reference [OF fs ready p ok len] obtain db' where
    db': "db_prepare sqlite sql db = Inr True"
    "db_step sqlite sql [Sql_int i] db = (fst (exec_stmt (db_clock now db) (select_id t) [Sql_int i] (db_state now db)), db')"
    "db_ready now db'" "db_state now db' = snd (exec_stmt (db_clock now db) (select_id t) [Sql_int i] (db_state now db))"
    by auto
  have "holds (''id'' # cols) row [C_eq ''id'' E_param] [Sql_int i] = has_id i row" for row
    by (cases row) (auto simp: cell_def has_id_def)
  then have rows: "rows (fst (exec_stmt (db_clock now db) (select_id t) [Sql_int i] (db_state now db))) =
      take 1 (filter (has_id i) (tab_rows tb))"
    using tb cols by (simp add: Let_def select_rows_def)
  have "find (has_id i) rs = (case filter (has_id i) rs of [] \<Rightarrow> None | r # _ \<Rightarrow> Some r)" for rs
    by (induction rs) auto
  then have "select_one sqlite sql [Sql_int i] mk db =
      (case find (has_id i) (tab_rows tb) of None \<Rightarrow> Inr (None, db') | Some row \<Rightarrow> bindR (mk row) (\<lambda>x. Inr (Some x, db')))"
    using db'(1,2) rows by (simp add: select_one_def Let_def split: list.split)
  moreover have "db_state now db' = db_state now db" using db'(4) by (simp add: Let_def)
  ultimately show thesis using that db'(3) by blast
qed

text \<open>The new row is the only one with its number.\<close>

lemma fold_max_ge: "(a :: int) \<le> fold max xs a"
proof (induction xs arbitrary: a)
  case (Cons b xs)
  show ?case using Cons [of "max b a"] by simp
qed simp

lemma fold_max_le: "x \<in> set xs \<Longrightarrow> (x :: int) \<le> fold max xs a"
proof (induction xs arbitrary: a)
  case (Cons b xs)
  then show ?case using fold_max_ge [of "max b a" xs] by auto
qed simp

lemma find_new_row:
  assumes "hd row = Sql_int (next_rowid tb)" and "row \<noteq> []"
  shows "find (has_id (next_rowid tb)) (tab_rows tb @ [row]) = Some row"
proof -
  have "\<not> has_id (next_rowid tb) r" if "r \<in> set (tab_rows tb)" for r
  proof
    assume h: "has_id (next_rowid tb) r"
    then have "row_id r = next_rowid tb" by (cases r) (auto simp: has_id_def row_id_def)
    moreover have "row_id r \<le> fold max (map row_id (tab_rows tb)) 0" using that by (intro fold_max_le) auto
    ultimately show False by (simp add: next_rowid_def)
  qed
  then have "find (has_id (next_rowid tb)) (tab_rows tb) = None" by (auto simp: find_None_iff)
  moreover have "find P (xs @ [row]) = Some row" if "find P xs = None" "P row" for P and xs :: "sql_value list list"
    using that by (induction xs) (auto split: if_splits)
  ultimately show ?thesis using assms by (simp add: has_id_def)
qed

lemma insert_then_get:
  assumes fs: "follows_sql now sqlite" and ready: "db_ready now db"
    and p: "parse_sql ins = Some (S_insert t names es)" and q: "parse_sql sel = Some (select_id t)"
    and t: "(t, ''id'' # cols) \<in> set schema" and names: "set names \<subseteq> set (''id'' # cols)" "length names = length es"
    and len: "length vals = num_params es"
  shows "\<exists>i db1 db2. insert_row sqlite ins (Inr vals) db = Inr (i, db1) \<and>
    select_one sqlite sel [Sql_int i] mk db1 =
      bindR (mk (new_row (''id'' # cols) i names (eval_exprs (db_clock now db) es vals))) (\<lambda>x. Inr (Some x, db2)) \<and>
    db_ready now db1 \<and> db_ready now db2"
proof -
  obtain tb db1 where tb: "tab_cols tb = ''id'' # cols"
    and ins: "insert_row sqlite ins (Inr vals) db = Inr (next_rowid tb, db1)" and r1: "db_ready now db1"
    and st1: "sql_tables (db_state now db1) t = Some (tb\<lparr>tab_rows := tab_rows tb @
      [new_row (''id'' # cols) (next_rowid tb) names (eval_exprs (db_clock now db) es vals)]\<rparr>)"
    using insert_row_reference [OF fs ready p t names len] by metis
  obtain db2 where r2: "db_ready now db2" and sel: "select_one sqlite sel [Sql_int (next_rowid tb)] mk db1 =
      (case find (has_id (next_rowid tb)) (tab_rows tb @
        [new_row (''id'' # cols) (next_rowid tb) names (eval_exprs (db_clock now db) es vals)]) of
         None \<Rightarrow> Inr (None, db2) | Some row \<Rightarrow> bindR (mk row) (\<lambda>x. Inr (Some x, db2)))"
    using select_one_reference [OF fs r1 q t st1, of "next_rowid tb" mk] by auto
  have "find (has_id (next_rowid tb)) (tab_rows tb @
        [new_row (''id'' # cols) (next_rowid tb) names (eval_exprs (db_clock now db) es vals)]) =
      Some (new_row (''id'' # cols) (next_rowid tb) names (eval_exprs (db_clock now db) es vals))"
    by (rule find_new_row) (simp_all add: new_row_def)
  then show ?thesis using ins sel r1 r2 by auto
qed

section \<open>Updating a row\<close>

lemma find_map_if:
  assumes "\<And>x. P x \<Longrightarrow> P (f x)"
  shows "find P (map (\<lambda>x. if P x then f x else x) xs) = map_option f (find P xs)"
  using assms by (induction xs) auto

lemma holds_id: "holds (''id'' # cols) row [C_eq ''id'' E_param] [Sql_int i] = has_id i row"
  by (cases row) (auto simp: cell_def has_id_def)

lemma cell_id: "cell (''id'' # cols) row ''id'' = Sql_int i \<longleftrightarrow> has_id i row"
  by (cases row) (auto simp: cell_def has_id_def)

lemma map_fst_params: "map fst (map (\<lambda>c. (c, e)) xs) = xs"
  by (induction xs) auto

lemma set_cells_keeps_id:
  assumes "''id'' \<notin> fst ` set ws"
  shows "has_id i (set_cells (''id'' # cols) ws row) = has_id i row"
proof (cases row)
  case (Cons x xs)
  have "map_of ws ''id'' = None" using assms by (simp add: map_of_eq_None_iff)
  then show ?thesis using Cons by (simp add: set_cells_def has_id_def)
qed (simp add: set_cells_def has_id_def)

lemma eval_params: "length vals = k \<Longrightarrow> eval_exprs now (replicate k E_param) vals = vals"
  by (induction k arbitrary: vals) (auto simp: length_Suc_conv)

lemma update_row_reference:
  assumes fs: "follows_sql now sqlite" and ready: "db_ready now db"
    and p: "parse_sql sql = Some (S_update t (map (\<lambda>c. (c, E_param)) names) [C_eq ''id'' E_param])"
    and t: "(t, ''id'' # cols) \<in> set schema" and names: "set names \<subseteq> set cols" "''id'' \<notin> set names"
    and len: "length vals = length names" and tb: "sql_tables (db_state now db) t = Some tb"
  obtains db' where "update_row sqlite sql (Inr (vals @ [Sql_int i])) k db = Inr (k, db')" and "db_ready now db'"
    and "sql_tables (db_state now db') t = Some (tb\<lparr>tab_rows := map (\<lambda>row. if has_id i row
        then set_cells (''id'' # cols) (zip names vals) row else row) (tab_rows tb)\<rparr>)"
proof -
  define s where "s = S_update t (map (\<lambda>c. (c, E_param)) names) [C_eq ''id'' E_param]"
  have cols: "tab_cols tb = ''id'' # cols" using has_schemaD [OF ready_schema [OF ready] t] tb by auto
  have ok: "stmt_ok (db_state now db) s" using tb cols names by (auto simp: s_def image_image)
  have es: "map snd (map (\<lambda>c. (c, E_param)) names) @ concat (map cond_expr [C_eq ''id'' E_param]) =
      replicate (Suc (length names)) E_param"
    by (simp add: o_def map_replicate_const replicate_append_same)
  have ln: "length (vals @ [Sql_int i]) = stmt_params s"
    using len es by (simp only: s_def stmt_params.simps num_params_def) simp
  have vs: "eval_exprs c (replicate (Suc (length names)) E_param) (vals @ [Sql_int i]) = vals @ [Sql_int i]" for c
    using len by (intro eval_params) simp
  from db_step_reference [OF fs ready p [folded s_def] ok ln] obtain db' where
    db': "db_prepare sqlite sql db = Inr True"
    "db_step sqlite sql (vals @ [Sql_int i]) db = (fst (exec_stmt (db_clock now db) s (vals @ [Sql_int i]) (db_state now db)), db')"
    "db_ready now db'" "db_state now db' = snd (exec_stmt (db_clock now db) s (vals @ [Sql_int i]) (db_state now db))"
    by auto
  have "update_row sqlite sql (Inr (vals @ [Sql_int i])) k db = Inr (k, db')"
    using db'(1,2) by (simp add: update_row_def execute_def s_def Let_def sql_done_def)
  moreover have "sql_tables (db_state now db') t = Some (tb\<lparr>tab_rows := map (\<lambda>row. if has_id i row
        then set_cells (''id'' # cols) (zip names vals) row else row) (tab_rows tb)\<rparr>)"
    using db'(4) tb cols vs len
    by (simp only: s_def exec_stmt.simps es Let_def length_map option.sel map_fst_params) (simp add: cell_id)
  ultimately show thesis using that db'(3) by blast
qed

text \<open>An update of a row that a lookup finds is what the next lookup finds.\<close>

lemma update_then_get:
  assumes fs: "follows_sql now sqlite" and ready: "db_ready now db"
    and u: "parse_sql upd = Some (S_update t (map (\<lambda>c. (c, E_param)) names) [C_eq ''id'' E_param])"
    and q: "parse_sql sel = Some (select_id t)" and t: "(t, ''id'' # cols) \<in> set schema"
    and names: "set names \<subseteq> set cols" "''id'' \<notin> set names" and len: "length vals = length names"
    and found: "select_one sqlite sel [Sql_int i] mk0 db = Inr (Some x, db0)"
  shows "\<exists>row db1 db2. length row = Suc (length cols) \<and> has_id i row \<and>
    update_row sqlite upd (Inr (vals @ [Sql_int i])) k db0 = Inr (k, db1) \<and>
    select_one sqlite sel [Sql_int i] mk db1 =
      bindR (mk (set_cells (''id'' # cols) (zip names vals) row)) (\<lambda>x. Inr (Some x, db2)) \<and>
    db_ready now db1 \<and> db_ready now db2"
proof -
  from has_schemaD [OF ready_schema [OF ready] t] obtain tb where
    tb: "sql_tables (db_state now db) t = Some tb" "\<forall>row\<in>set (tab_rows tb). length row = Suc (length cols)" by auto
  obtain db0' where r0: "db_ready now db0'" and s0: "db_state now db0' = db_state now db"
    and sel0: "select_one sqlite sel [Sql_int i] mk0 db =
      (case find (has_id i) (tab_rows tb) of None \<Rightarrow> Inr (None, db0') | Some row \<Rightarrow> bindR (mk0 row) (\<lambda>x. Inr (Some x, db0')))"
    using select_one_reference [OF fs ready q t tb(1)] by blast
  obtain row where row: "find (has_id i) (tab_rows tb) = Some row" and eq: "db0' = db0"
    using found unfolding sel0 by (auto split: option.splits simp: bindR_Inr_iff)
  have in_row: "row \<in> set (tab_rows tb)" "has_id i row" using row by (auto simp: find_Some_iff)
  obtain db1 where db1: "update_row sqlite upd (Inr (vals @ [Sql_int i])) k db0 = Inr (k, db1)" "db_ready now db1"
    "sql_tables (db_state now db1) t = Some (tb\<lparr>tab_rows := map (\<lambda>row. if has_id i row
        then set_cells (''id'' # cols) (zip names vals) row else row) (tab_rows tb)\<rparr>)"
    using update_row_reference [OF fs r0 [unfolded eq] u t names len, of tb i k] tb(1) s0 unfolding eq by auto
  obtain db2 where db2: "db_ready now db2" "select_one sqlite sel [Sql_int i] mk db1 =
      (case find (has_id i) (map (\<lambda>row. if has_id i row then set_cells (''id'' # cols) (zip names vals) row else row) (tab_rows tb)) of
         None \<Rightarrow> Inr (None, db2) | Some row \<Rightarrow> bindR (mk row) (\<lambda>x. Inr (Some x, db2)))"
    using select_one_reference [OF fs db1(2) q t db1(3), of i mk] by auto
  have "''id'' \<notin> fst ` set (zip names vals)" using names(2) by (auto dest: set_zip_leftD)
  then have "find (has_id i) (map (\<lambda>row. if has_id i row then set_cells (''id'' # cols) (zip names vals) row else row) (tab_rows tb)) =
      Some (set_cells (''id'' # cols) (zip names vals) row)"
    using row by (subst find_map_if) (simp_all add: set_cells_keeps_id)
  then show ?thesis using db1(1,2) db2 in_row tb(2) by (intro exI [of _ row] exI [of _ db1] exI [of _ db2]) simp
qed

end
