(* ===== verification/Db_Tables.thy ===== *)
theory Db_Tables
  imports Db_Rows
begin

text \<open>
  The round trips of the tables: what a function of db.c inserts or updates is what its lookup reads
  back, with the width to which a column is read. A column that is read with \<^verbatim>\<open>sqlite3_column_int\<close>
  keeps 32 bits, although the field and the bound value have 64.
\<close>

lemmas row_defs =
  new_row_def column_int_def column_int64_def column_text_def column_def STRDUP_def text_or_empty_def

definition or_empty :: "string option \<Rightarrow> string option" where
  "or_empty s = Some (case s of None \<Rightarrow> '''' | Some t \<Rightarrow> t)"

text \<open>The tables and their columns, each as a member of the schema.\<close>

lemma in_schema:
  "(''users'', ''id'' # [''date_created'', ''u_username'', ''password'', ''email'', ''session'', ''is_admin'', ''state'']) \<in> set schema"
  "(''boards'', ''id'' # [''u_dna'', ''u_name'', ''u_ip_addr'', ''cur_dut_board_id'', ''is_master'']) \<in> set schema"
  "(''dut_boards'', ''id'' # [''u_dna'', ''u_name'', ''mount_id'', ''profile_path'']) \<in> set schema"
  "(''jobs'', ''id'' # [''board_id'', ''dut_board_id'', ''user_id'', ''date_created'', ''state'']) \<in> set schema"
  "(''prgms'', ''id'' # [''job_id'', ''mount_id'', ''date_created'', ''date_start'', ''date_end'', ''path'', ''body'',
       ''return_code'', ''error_msg'', ''last_stim_id'', ''did_fail'', ''failing_vec'', ''state'']) \<in> set schema"
  "(''prgm_logs'', ''id'' # [''prgm_id'', ''date_created'', ''line'']) \<in> set schema"
  "(''stims'', ''id'' # [''prgm_id'', ''date_created'', ''path'', ''did_fail'', ''failing_vec'', ''state'']) \<in> set schema"
  "(''fail_pins'', ''id'' # [''stim_id'', ''dut_io_id'', ''did_fail'']) \<in> set schema"
  "(''mounts'', ''id'' # [''date_created'', ''u_name'', ''ip_addr'', ''remote_path'', ''local_point'', ''message'', ''state'']) \<in> set schema"
  by (simp_all add: schema_def)

lemma stim_row_roundtrip:
  assumes fs: "follows_sql now sqlite" and ready: "db_ready now db"
  shows "\<exists>i db1 db2.
    db_insert_stim sqlite prgm_id path did_fail failing_vec state db = Inr (i, db1) \<and>
    db_get_stim_by_id sqlite i db1 = Inr (Some
      \<lparr>stm_id = i, stm_prgm_id = prgm_id, stm_path = or_empty path, stm_did_fail = int32_of did_fail,
       stm_failing_vec = failing_vec, stm_state = int32_of state\<rparr>, db2) \<and>
    db_ready now db1 \<and> db_ready now db2"
  using insert_then_get [OF fs ready sql_texts(16) sql_texts(7) in_schema(7),
      of "[Sql_int prgm_id, text_or_empty path, Sql_int did_fail, Sql_int failing_vec, Sql_int state]" "\<lambda>r. Inr (db_make_stim r)"]
  unfolding db_insert_stim_def db_get_stim_by_id_def
  by (simp add: row_defs num_params_def db_make_stim_def or_empty_def)

lemma user_row_roundtrip:
  assumes fs: "follows_sql now sqlite" and ready: "db_ready now db"
  shows "\<exists>i db1 db2.
    db_insert_user sqlite username password email session is_admin state db = Inr (i, db1) \<and>
    db_get_user_by_id sqlite i db1 = Inr (Some
      \<lparr>usr_id = i, usr_username = or_empty username, usr_password = Some (db_pass_hash (the (or_empty password))),
       usr_email = or_empty email, usr_session = or_empty session, usr_is_admin = int32_of is_admin,
       usr_state = int32_of state\<rparr>, db2) \<and>
    db_ready now db1 \<and> db_ready now db2"
  using insert_then_get [OF fs ready sql_texts(10) sql_texts(1) in_schema(1),
      of "[text_or_empty username, Sql_text (db_pass_hash (case password of None \<Rightarrow> '''' | Some p \<Rightarrow> p)), text_or_empty email, text_or_empty session, Sql_int is_admin, Sql_int state]" "\<lambda>r. Inr (db_make_user r)"]
  unfolding db_insert_user_def db_get_user_by_id_def db_make_user_def
  by (simp add: row_defs num_params_def or_empty_def)

lemma board_row_roundtrip:
  assumes fs: "follows_sql now sqlite" and ready: "db_ready now db"
  shows "\<exists>i db1 db2.
    db_insert_board sqlite dna name ip_addr dut_board is_master db = Inr (i, db1) \<and>
    db_get_board_by_id sqlite i db1 = Inr (Some
      \<lparr>brd_id = i, brd_dna = or_empty dna, brd_name = or_empty name, brd_ip_addr = or_empty ip_addr,
       brd_cur_dut_board_id = int32_of dut_board, brd_is_master = int32_of is_master\<rparr>, db2) \<and>
    db_ready now db1 \<and> db_ready now db2"
  using insert_then_get [OF fs ready sql_texts(11) sql_texts(2) in_schema(2),
      of "[text_or_empty dna, text_or_empty name, text_or_empty ip_addr, Sql_int dut_board, Sql_int is_master]" "\<lambda>r. Inr (db_make_board r)"]
  unfolding db_insert_board_def db_get_board_by_id_def db_make_board_def
  by (simp add: row_defs num_params_def or_empty_def)

lemma dut_board_row_roundtrip:
  assumes fs: "follows_sql now sqlite" and ready: "db_ready now db"
  shows "\<exists>i db1 db2.
    db_insert_dut_board sqlite dna name mount_id profile_path db = Inr (i, db1) \<and>
    db_get_dut_board_by_id sqlite i db1 = Inr (Some
      \<lparr>dbd_id = i, dbd_dna = or_empty dna, dbd_name = or_empty name, dbd_mount_id = int32_of mount_id,
       dbd_profile_path = or_empty profile_path\<rparr>, db2) \<and>
    db_ready now db1 \<and> db_ready now db2"
  using insert_then_get [OF fs ready sql_texts(12) sql_texts(3) in_schema(3),
      of "[text_or_empty dna, text_or_empty name, Sql_int mount_id, text_or_empty profile_path]" "\<lambda>r. Inr (db_make_dut_board r)"]
  unfolding db_insert_dut_board_def db_get_dut_board_by_id_def db_make_dut_board_def
  by (simp add: row_defs num_params_def or_empty_def)

lemma job_row_roundtrip:
  assumes fs: "follows_sql now sqlite" and ready: "db_ready now db"
  shows "\<exists>i db1 db2.
    db_insert_job sqlite board_id dut_board_id user_id state db = Inr (i, db1) \<and>
    db_get_job_by_id sqlite i db1 = Inr (Some
      \<lparr>job_id = i, job_board_id = board_id, job_dut_board_id = dut_board_id, job_user_id = user_id,
       job_state = int32_of state\<rparr>, db2) \<and>
    db_ready now db1 \<and> db_ready now db2"
  using insert_then_get [OF fs ready sql_texts(13) sql_texts(4) in_schema(4),
      of "[Sql_int board_id, Sql_int dut_board_id, Sql_int user_id, Sql_int state]" "\<lambda>r. Inr (db_make_job r)"]
  unfolding db_insert_job_def db_get_job_by_id_def db_make_job_def
  by (simp add: row_defs num_params_def or_empty_def)

lemma fail_pin_row_roundtrip:
  assumes fs: "follows_sql now sqlite" and ready: "db_ready now db"
  shows "\<exists>i db1 db2.
    db_insert_fail_pin sqlite stim dut_io did_fail db = Inr (i, db1) \<and>
    db_get_fail_pin_by_id sqlite i db1 = Inr (Some
      \<lparr>fpn_id = i, fpn_stim_id = stim, fpn_dut_io_id = dut_io, fpn_did_fail = int32_of did_fail\<rparr>, db2) \<and>
    db_ready now db1 \<and> db_ready now db2"
  using insert_then_get [OF fs ready sql_texts(17) sql_texts(8) in_schema(8),
      of "[Sql_int stim, Sql_int dut_io, Sql_int did_fail]" "\<lambda>r. Inr (db_make_fail_pin r)"]
  unfolding db_insert_fail_pin_def db_get_fail_pin_by_id_def db_make_fail_pin_def
  by (simp add: row_defs num_params_def or_empty_def)

lemma mount_row_roundtrip:
  assumes fs: "follows_sql now sqlite" and ready: "db_ready now db"
  shows "\<exists>i db1 db2.
    db_insert_mount sqlite name (Some ip_addr) remote_path local_point message state db = Inr (i, db1) \<and>
    db_get_mount_by_id sqlite i db1 = Inr (Some
      \<lparr>mnt_id = i, mnt_name = or_empty name, mnt_ip_addr = Some ip_addr, mnt_remote_path = or_empty remote_path,
       mnt_local_point = or_empty local_point, mnt_message = or_empty message, mnt_state = int32_of state\<rparr>, db2) \<and>
    db_ready now db1 \<and> db_ready now db2"
  using insert_then_get [OF fs ready sql_texts(18) sql_texts(9) in_schema(9),
      of "[text_or_empty name, Sql_text ip_addr, text_or_empty remote_path, text_or_empty local_point, text_or_empty message, Sql_int state]" "\<lambda>r. Inr (db_make_mount r)"]
  unfolding db_insert_mount_def db_get_mount_by_id_def db_make_mount_def textR_def
  by (simp add: row_defs num_params_def or_empty_def)

lemma int32_of_sint [simp]: "int32_of (sint (x :: i32)) = sint x"
  by (simp add: int32_of_def sint_uint)

lemma prgm_inserted:
  assumes fs: "follows_sql now sqlite" and ready: "db_ready now db"
  shows "\<exists>i db1 db2.
    db_insert_prgm sqlite job mount_id path body return_code error_msg last_stim_id did_fail failing_vec state db = Inr (i, db1) \<and>
    db_get_prgm_by_id sqlite tz i db1 = Inr (Some
      \<lparr>prg_id = i, prg_job_id = job, prg_mount_id = mount_id, prg_path = or_empty path, prg_body = or_empty body,
       prg_date_start = 0, prg_date_end = 0, prg_return_code = sint return_code, prg_error_msg = or_empty error_msg,
       prg_last_stim_id = sint last_stim_id, prg_did_fail = sint did_fail,
       prg_failing_vec = sint failing_vec, prg_state = int32_of state\<rparr>, db2) \<and>
    db_ready now db1 \<and> db_ready now db2"
  using insert_then_get [OF fs ready sql_texts(14) sql_texts(5) in_schema(5),
      of "[Sql_int job, Sql_int mount_id, text_or_empty path, text_or_empty body, Sql_int (sint return_code),
           text_or_empty error_msg, Sql_int (sint last_stim_id), Sql_int (sint did_fail), Sql_int (sint failing_vec),
           Sql_int state]" "db_make_prgm tz"]
  unfolding db_insert_prgm_def db_get_prgm_by_id_def
  by (simp add: row_defs num_params_def db_make_prgm_def util_dt_to_epoch_def or_empty_def)

text \<open>C16. A program that is inserted reads back with the values it was given: the strings, where NULL became
  empty, no start and no end, the two keys, and the four numbers of 32 bits with their sign.\<close>

theorem prgm_row_roundtrip:
  assumes fs: "follows_sql now sqlite" and ready: "db_ready now db"
  shows "\<exists>i db1 db2.
    db_insert_prgm sqlite job mount_id path body return_code error_msg last_stim_id did_fail failing_vec state db = Inr (i, db1) \<and>
    db_get_prgm_by_id sqlite tz i db1 = Inr (Some
      \<lparr>prg_id = i, prg_job_id = job, prg_mount_id = mount_id, prg_path = or_empty path, prg_body = or_empty body,
       prg_date_start = 0, prg_date_end = 0, prg_return_code = sint return_code, prg_error_msg = or_empty error_msg,
       prg_last_stim_id = sint last_stim_id, prg_did_fail = sint did_fail,
       prg_failing_vec = sint failing_vec, prg_state = int32_of state\<rparr>, db2) \<and>
    db_ready now db1 \<and> db_ready now db2"
  by (rule prgm_inserted [OF assms])

lemma prgm_log_row_roundtrip:
  assumes fs: "follows_sql now sqlite" and ready: "db_ready now db"
    and date: "util_dt_to_epoch (tz 2) (Some (db_clock now db)) = Inr d"
  shows "\<exists>i db1 db2.
    db_insert_prgm_log sqlite prgm_id line db = Inr (i, db1) \<and>
    db_get_prgm_log_by_id sqlite tz i db1 = Inr (Some
      \<lparr>log_id = i, log_prgm_id = prgm_id, log_date_created = d, log_line = or_empty line\<rparr>, db2) \<and>
    db_ready now db1 \<and> db_ready now db2"
  using insert_then_get [OF fs ready sql_texts(15) sql_texts(6) in_schema(6),
      of "[Sql_int prgm_id, text_or_empty line]" "db_make_prgm_log tz"] date
  unfolding db_insert_prgm_log_def db_get_prgm_log_by_id_def
  by (simp add: row_defs num_params_def db_make_prgm_log_def or_empty_def)

section \<open>Updates\<close>

lemma board_update_roundtrip:
  assumes fs: "follows_sql now sqlite" and ready: "db_ready now db"
    and found: "db_get_board_by_id sqlite i db = Inr (Some s0, db0)"
    and key: "brd_id s = i"
    and texts: "brd_dna s \<noteq> None" "brd_name s \<noteq> None" "brd_ip_addr s \<noteq> None"
  shows "\<exists>db1 db2. db_update_board sqlite s db0 = Inr (i, db1) \<and>
    db_get_board_by_id sqlite i db1 =
      Inr (Some (s\<lparr>brd_cur_dut_board_id := int32_of (brd_cur_dut_board_id s), brd_is_master := int32_of (brd_is_master s)\<rparr>), db2) \<and>
    db_ready now db1 \<and> db_ready now db2"
proof -
  from texts obtain t0 t1 t2 where texts: "brd_dna s = Some t0" "brd_name s = Some t1" "brd_ip_addr s = Some t2"
    by blast
  obtain row db1 db2 where row: "length row = Suc (length [''u_dna'', ''u_name'', ''u_ip_addr'', ''cur_dut_board_id'', ''is_master''])"
      "has_id i row"
    and u: "db_update_board sqlite s db0 = Inr (i, db1)" and r: "db_ready now db1" "db_ready now db2"
    and g: "db_get_board_by_id sqlite i db1 = Inr (Some (db_make_board (set_cells (''id'' # [''u_dna'', ''u_name'', ''u_ip_addr'', ''cur_dut_board_id'', ''is_master''])
      (zip [''u_dna'', ''u_name'', ''u_ip_addr'', ''cur_dut_board_id'', ''is_master'']
        [Sql_text t0, Sql_text t1, Sql_text t2, Sql_int (brd_cur_dut_board_id s), Sql_int (brd_is_master s)]) row)), db2)"
    using update_then_get [OF fs ready sql_texts(19) sql_texts(2) in_schema(2) _ _ _ found [unfolded db_get_board_by_id_def],
        of "[Sql_text t0, Sql_text t1, Sql_text t2, Sql_int (brd_cur_dut_board_id s), Sql_int (brd_is_master s)]"
          i "\<lambda>r. Inr (db_make_board r)"] key texts
    unfolding db_update_board_def db_get_board_by_id_def by (auto simp: textR_def)
  from row obtain x0 x1 x2 x3 x4 where "row = [Sql_int i, x0, x1, x2, x3, x4]"
    by (auto simp: length_Suc_conv has_id_def)
  then show ?thesis using u g r key texts
    by (intro exI [of _ db1] exI [of _ db2]) (simp add: set_cells_def db_make_board_def row_defs)
qed

lemma job_update_roundtrip:
  assumes fs: "follows_sql now sqlite" and ready: "db_ready now db"
    and found: "db_get_job_by_id sqlite i db = Inr (Some s0, db0)"
    and key: "job_id s = i"
  shows "\<exists>db1 db2. db_update_job sqlite s db0 = Inr (i, db1) \<and>
    db_get_job_by_id sqlite i db1 =
      Inr (Some (s\<lparr>job_state := int32_of (job_state s)\<rparr>), db2) \<and>
    db_ready now db1 \<and> db_ready now db2"
proof -
  obtain row db1 db2 where row: "length row = Suc (length [''board_id'', ''dut_board_id'', ''user_id'', ''date_created'', ''state''])"
      "has_id i row"
    and u: "db_update_job sqlite s db0 = Inr (i, db1)" and r: "db_ready now db1" "db_ready now db2"
    and g: "db_get_job_by_id sqlite i db1 = Inr (Some (db_make_job (set_cells (''id'' # [''board_id'', ''dut_board_id'', ''user_id'', ''date_created'', ''state''])
      (zip [''board_id'', ''dut_board_id'', ''user_id'', ''state'']
        [Sql_int (job_board_id s), Sql_int (job_dut_board_id s), Sql_int (job_user_id s), Sql_int (job_state s)]) row)), db2)"
    using update_then_get [OF fs ready sql_texts(20) sql_texts(4) in_schema(4) _ _ _ found [unfolded db_get_job_by_id_def],
        of "[Sql_int (job_board_id s), Sql_int (job_dut_board_id s), Sql_int (job_user_id s), Sql_int (job_state s)]"
          i "\<lambda>r. Inr (db_make_job r)"] key
    unfolding db_update_job_def db_get_job_by_id_def by (auto simp: textR_def)
  from row obtain x0 x1 x2 x3 x4 where "row = [Sql_int i, x0, x1, x2, x3, x4]"
    by (auto simp: length_Suc_conv has_id_def)
  then show ?thesis using u g r key
    by (intro exI [of _ db1] exI [of _ db2]) (simp add: set_cells_def db_make_job_def row_defs)
qed

lemma mount_update_roundtrip:
  assumes fs: "follows_sql now sqlite" and ready: "db_ready now db"
    and found: "db_get_mount_by_id sqlite i db = Inr (Some s0, db0)"
    and key: "mnt_id s = i"
    and texts: "mnt_name s \<noteq> None" "mnt_ip_addr s \<noteq> None" "mnt_remote_path s \<noteq> None" "mnt_local_point s \<noteq> None" "mnt_message s \<noteq> None"
  shows "\<exists>db1 db2. db_update_mount sqlite s db0 = Inr (i, db1) \<and>
    db_get_mount_by_id sqlite i db1 =
      Inr (Some (s\<lparr>mnt_state := int32_of (mnt_state s)\<rparr>), db2) \<and>
    db_ready now db1 \<and> db_ready now db2"
proof -
  from texts obtain t0 t1 t2 t3 t4 where texts: "mnt_name s = Some t0" "mnt_ip_addr s = Some t1" "mnt_remote_path s = Some t2" "mnt_local_point s = Some t3" "mnt_message s = Some t4"
    by blast
  obtain row db1 db2 where row: "length row = Suc (length [''date_created'', ''u_name'', ''ip_addr'', ''remote_path'', ''local_point'', ''message'', ''state''])"
      "has_id i row"
    and u: "db_update_mount sqlite s db0 = Inr (i, db1)" and r: "db_ready now db1" "db_ready now db2"
    and g: "db_get_mount_by_id sqlite i db1 = Inr (Some (db_make_mount (set_cells (''id'' # [''date_created'', ''u_name'', ''ip_addr'', ''remote_path'', ''local_point'', ''message'', ''state''])
      (zip [''u_name'', ''ip_addr'', ''remote_path'', ''local_point'', ''message'', ''state'']
        [Sql_text t0, Sql_text t1, Sql_text t2, Sql_text t3, Sql_text t4, Sql_int (mnt_state s)]) row)), db2)"
    using update_then_get [OF fs ready sql_texts(23) sql_texts(9) in_schema(9) _ _ _ found [unfolded db_get_mount_by_id_def],
        of "[Sql_text t0, Sql_text t1, Sql_text t2, Sql_text t3, Sql_text t4, Sql_int (mnt_state s)]"
          i "\<lambda>r. Inr (db_make_mount r)"] key texts
    unfolding db_update_mount_def db_get_mount_by_id_def by (auto simp: textR_def)
  from row obtain x0 x1 x2 x3 x4 x5 x6 where "row = [Sql_int i, x0, x1, x2, x3, x4, x5, x6]"
    by (auto simp: length_Suc_conv has_id_def)
  then show ?thesis using u g r key texts
    by (intro exI [of _ db1] exI [of _ db2]) (simp add: set_cells_def db_make_mount_def row_defs)
qed

text \<open>A date that is written by an update and read by a lookup.\<close>

definition date_back :: "c_clock \<Rightarrow> int \<Rightarrow> int" where
  "date_back tz d = (if d \<le> 0 then 0 else d - zone tz (stale tz (c_strftime (c_gmtime (nat d)))) d)"

lemma date_back:
  assumes "d < 253402300800"
  obtains t where "util_epoch_to_dt d = Inr t" and "util_dt_to_epoch tz (Some t) = Inr (date_back tz d)"
proof (cases "d \<le> 0")
  case True
  then show thesis using that [of "''''"] by (simp add: util_epoch_to_dt_def util_dt_to_epoch_def date_back_def)
next
  case False
  moreover have "util_epoch_to_dt d = Inr s \<Longrightarrow> s = c_strftime (c_gmtime (nat d))" for s
    using False by (auto simp: util_epoch_to_dt_def Let_def split: if_splits)
  ultimately show thesis using that date_reads_back [of d tz] assms by (auto simp: date_back_def)
qed

text \<open>C15. A program that is updated reads back with its new values, except that a date that is set comes back
  shifted by the offset that \<^verbatim>\<open>mktime\<close> applies for the local time and for whatever the stack holds in \<^verbatim>\<open>tm_isdst\<close>,
  which the conversion of dates leaves unset, that an unset date comes back as 0, and that the last stimulus and
  the failing vector, which have 64 bits, come back with their lower 32 bits.\<close>

theorem prgm_update_roundtrip:
  assumes fs: "follows_sql now sqlite" and ready: "db_ready now db"
    and found: "db_get_prgm_by_id sqlite tz i db = Inr (Some s0, db0)"
    and key: "prg_id s = i"
    and texts: "prg_path s \<noteq> None" "prg_body s \<noteq> None" "prg_error_msg s \<noteq> None"
    and dates: "prg_date_start s < 253402300800" "prg_date_end s < 253402300800"
  shows "\<exists>db1 db2. db_update_prgm sqlite s db0 = Inr (i, db1) \<and>
    db_get_prgm_by_id sqlite tz i db1 = Inr (Some (s
      \<lparr>prg_date_start := date_back (tz 4) (prg_date_start s), prg_date_end := date_back (tz 5) (prg_date_end s),
       prg_return_code := int32_of (prg_return_code s), prg_last_stim_id := int32_of (prg_last_stim_id s),
       prg_did_fail := int32_of (prg_did_fail s), prg_failing_vec := int32_of (prg_failing_vec s),
       prg_state := int32_of (prg_state s)\<rparr>), db2) \<and>
    db_ready now db1 \<and> db_ready now db2"
proof -
  from texts obtain t0 t1 t2 where texts: "prg_path s = Some t0" "prg_body s = Some t1" "prg_error_msg s = Some t2"
    by blast
  obtain d1 where d1: "util_epoch_to_dt (prg_date_start s) = Inr d1"
    "util_dt_to_epoch (tz 4) (Some d1) = Inr (date_back (tz 4) (prg_date_start s))" using date_back [OF dates(1)] .
  obtain d2 where d2: "util_epoch_to_dt (prg_date_end s) = Inr d2"
    "util_dt_to_epoch (tz 5) (Some d2) = Inr (date_back (tz 5) (prg_date_end s))" using date_back [OF dates(2)] .
  define vals where "vals = [Sql_int (prg_job_id s), Sql_int (prg_mount_id s), Sql_text d1, Sql_text d2, Sql_text t0,
    Sql_text t1, Sql_int (prg_return_code s), Sql_text t2, Sql_int (prg_last_stim_id s), Sql_int (prg_did_fail s),
    Sql_int (prg_failing_vec s), Sql_int (prg_state s)]"
  obtain row db1 db2 where row: "length row = Suc (length [''job_id'', ''mount_id'', ''date_created'', ''date_start'',
      ''date_end'', ''path'', ''body'', ''return_code'', ''error_msg'', ''last_stim_id'', ''did_fail'', ''failing_vec'', ''state''])"
      "has_id i row"
    and u: "db_update_prgm sqlite s db0 = Inr (i, db1)" and r: "db_ready now db1" "db_ready now db2"
    and g: "db_get_prgm_by_id sqlite tz i db1 = bindR (db_make_prgm tz (set_cells (''id'' # [''job_id'', ''mount_id'',
      ''date_created'', ''date_start'', ''date_end'', ''path'', ''body'', ''return_code'', ''error_msg'', ''last_stim_id'',
      ''did_fail'', ''failing_vec'', ''state'']) (zip [''job_id'', ''mount_id'', ''date_start'', ''date_end'', ''path'',
      ''body'', ''return_code'', ''error_msg'', ''last_stim_id'', ''did_fail'', ''failing_vec'', ''state''] vals) row))
      (\<lambda>x. Inr (Some x, db2))"
    using update_then_get [OF fs ready sql_texts(21) sql_texts(5) in_schema(5) _ _ _ found [unfolded db_get_prgm_by_id_def],
        of vals i "db_make_prgm tz"] key texts d1(1) d2(1)
    unfolding db_update_prgm_def db_get_prgm_by_id_def vals_def by (auto simp: textR_def)
  from row obtain x0 x1 x2 x3 x4 x5 x6 x7 x8 x9 y0 y1 y2 where
    "row = [Sql_int i, x0, x1, x2, x3, x4, x5, x6, x7, x8, x9, y0, y1, y2]"
    by (auto simp: length_Suc_conv has_id_def)
  then show ?thesis using u g r key texts d1(2) d2(2)
    by (intro exI [of _ db1] exI [of _ db2]) (simp add: set_cells_def db_make_prgm_def row_defs vals_def)
qed

section \<open>Opening\<close>

text \<open>Opening a database runs the schema and leaves it ready; a second call of open changes nothing.\<close>

theorem open_makes_ready:
  assumes "follows_sql now sqlite" and "opens path = Open_ok"
  shows "\<exists>db. db_open sqlite opens path db_create = Inr db \<and> db_ready now db \<and> is_open db \<and>
    log db = [(DB_SQL, [])] \<and> db_open sqlite opens path' db = Inr db"
proof -
  have p: "sql_prepares now [] DB_SQL" by (simp add: sql_prepares_def parse_DB_SQL)
  have t: "takes now [] (DB_SQL, [])" by (simp add: takes_def parse_DB_SQL)
  have "prepares sqlite [] DB_SQL" "steps sqlite [(DB_SQL, [])] = sql_steps now [(DB_SQL, [])]"
    using assms(1) p t in_fragment.empty unfolding follows_sql_def by (auto dest: spec [of _ "[]"])
  moreover have "finished (sql_steps now [(DB_SQL, [])])"
    using sql_steps_snoc [of now "[]" "(DB_SQL, [])"] by (simp add: exec_sql_def parse_DB_SQL Let_def sql_done_def)
  moreover have "in_fragment now [(DB_SQL, [])]" using in_fragment.step [OF in_fragment.empty t] by simp
  ultimately show ?thesis using assms(2)
    by (simp add: db_open_def db_create_def db_step_def Let_def db_ready_def)
qed

theorem open_makes_ready_witness:
  "\<exists>db. db_open (reference (\<lambda>_. '''')) (\<lambda>_. Open_ok) ''/tmp/db'' db_create = Inr db \<and> is_open db"
  using open_makes_ready [OF reference_follows, of "\<lambda>_. Open_ok" "''/tmp/db''"] by blast

lemma opened_reference: "\<exists>db. db_ready (\<lambda>_. []) db"
proof -
  have t: "takes (\<lambda>_. []) [] (DB_SQL, [])" by (simp add: takes_def parse_DB_SQL)
  have "in_fragment (\<lambda>_. []) [(DB_SQL, [])]" using in_fragment.step [OF in_fragment.empty t] by simp
  then have "db_ready (\<lambda>_. []) \<lparr>is_open = True, conn = Connected, log = [(DB_SQL, [])]\<rparr>"
    by (simp add: db_ready_def)
  then show ?thesis by blast
qed

text \<open>A clock one hour ahead of UTC, whatever the field says.\<close>

definition hour_ahead :: "nat \<Rightarrow> c_clock" where
  "hour_ahead = (\<lambda>_. \<lparr>zone = (\<lambda>_ _. 3600), stale = (\<lambda>_. 0)\<rparr>)"

theorem prgm_row_roundtrip_witness:
  "\<exists>db i db1 db2. db_insert_prgm (reference (\<lambda>_. [])) 1 2 (Some ''a'') None (- 1) None 3 1 7 64 db = Inr (i, db1) \<and>
    db_get_prgm_by_id (reference (\<lambda>_. [])) hour_ahead i db1 = Inr (Some
      \<lparr>prg_id = i, prg_job_id = 1, prg_mount_id = 2, prg_path = Some ''a'', prg_body = Some [],
       prg_date_start = 0, prg_date_end = 0, prg_return_code = - 1, prg_error_msg = Some [],
       prg_last_stim_id = 3, prg_did_fail = 1, prg_failing_vec = 7, prg_state = 64\<rparr>, db2)"
proof -
  obtain db where db: "db_ready (\<lambda>_. []) db" using opened_reference by blast
  have "sint (- 1 :: i32) = - 1" "sint (3 :: i32) = 3" "sint (1 :: i32) = 1" "sint (7 :: i32) = 7" "int32_of 64 = 64"
    by (simp_all add: int32_of_def)
  moreover note prgm_row_roundtrip [OF reference_follows db, of 1 2 "Some ''a''" None "- 1" None 3 1 7 64 hour_ahead]
  ultimately show ?thesis by (simp only: or_empty_def option.case) blast
qed

theorem prgm_update_roundtrip_witness:
  "\<exists>db0 i s db1 db2. prg_date_start s = 1646092800 \<and> db_update_prgm (reference (\<lambda>_. [])) s db0 = Inr (i, db1) \<and>
    (\<exists>p. db_get_prgm_by_id (reference (\<lambda>_. [])) hour_ahead i db1 = Inr (Some p, db2) \<and> prg_date_start p = 1646089200)"
proof -
  obtain db where db: "db_ready (\<lambda>_. []) db" using opened_reference by blast
  define s where "s i = \<lparr>prg_id = i, prg_job_id = 1, prg_mount_id = 1, prg_path = Some [], prg_body = Some [],
    prg_date_start = 1646092800, prg_date_end = 0, prg_return_code = 0, prg_error_msg = Some [], prg_last_stim_id = 0,
    prg_did_fail = 0, prg_failing_vec = 0, prg_state = 64\<rparr>" for i
  obtain i db1 s0 db2 where r: "db_ready (\<lambda>_. []) db1"
    and g: "db_get_prgm_by_id (reference (\<lambda>_. [])) hour_ahead i db1 = Inr (Some s0, db2)"
    using prgm_inserted [OF reference_follows db, of 1 1 None None 0 None 0 0 0 4 hour_ahead] by blast
  obtain d1 d2 where d: "db_update_prgm (reference (\<lambda>_. [])) (s i) db2 = Inr (i, d1)"
    and p: "db_get_prgm_by_id (reference (\<lambda>_. [])) hour_ahead i d1 = Inr (Some ((s i)
      \<lparr>prg_date_start := date_back (hour_ahead 4) 1646092800, prg_date_end := date_back (hour_ahead 5) 0,
       prg_return_code := int32_of 0, prg_last_stim_id := int32_of 0, prg_did_fail := int32_of 0,
       prg_failing_vec := int32_of 0, prg_state := int32_of 64\<rparr>), d2)"
    using prgm_update_roundtrip [OF reference_follows r g, of "s i"] by (auto simp: s_def)
  have "prg_date_start (s i) = 1646092800" by (simp add: s_def)
  with d p show ?thesis
    by (intro exI [of _ db2] exI [of _ i] exI [of _ "s i"] exI [of _ d1] exI [of _ d2]) (simp add: date_back_def hour_ahead_def)
qed

text \<open>A stimulus that is looked up and updated reads back with its new values: its flag and its state with their
  lower 32 bits, the failing vector whole.\<close>

theorem stim_update_roundtrip:
  assumes fs: "follows_sql now sqlite" and ready: "db_ready now db"
    and found: "db_get_stim_by_id sqlite i db = Inr (Some s0, db0)"
    and key: "stm_id s = i" and path: "stm_path s \<noteq> None"
  shows "\<exists>db1 db2. db_update_stim sqlite s db0 = Inr (i, db1) \<and>
    db_get_stim_by_id sqlite i db1 =
      Inr (Some (s\<lparr>stm_did_fail := int32_of (stm_did_fail s), stm_state := int32_of (stm_state s)\<rparr>), db2) \<and>
    db_ready now db1 \<and> db_ready now db2"
proof -
  from path obtain p where p: "stm_path s = Some p" by blast
  obtain row db1 db2 where row: "length row = Suc (length [''prgm_id'', ''date_created'', ''path'', ''did_fail'', ''failing_vec'', ''state''])"
      "has_id i row"
    and u: "db_update_stim sqlite s db0 = Inr (i, db1)" and r: "db_ready now db1" "db_ready now db2"
    and g: "db_get_stim_by_id sqlite i db1 = Inr (Some (db_make_stim (set_cells
      [''id'', ''prgm_id'', ''date_created'', ''path'', ''did_fail'', ''failing_vec'', ''state'']
      (zip [''prgm_id'', ''path'', ''did_fail'', ''failing_vec'', ''state'']
        [Sql_int (stm_prgm_id s), Sql_text p, Sql_int (stm_did_fail s), Sql_int (stm_failing_vec s), Sql_int (stm_state s)]) row)), db2)"
    using update_then_get [OF fs ready sql_texts(22) sql_texts(7) in_schema(7) _ _ _ found [unfolded db_get_stim_by_id_def],
        of "[Sql_int (stm_prgm_id s), Sql_text p, Sql_int (stm_did_fail s), Sql_int (stm_failing_vec s), Sql_int (stm_state s)]"
          i "\<lambda>r. Inr (db_make_stim r)"] key p
    unfolding db_update_stim_def db_get_stim_by_id_def by (auto simp: textR_def)
  from row obtain b c d e f h where "row = [Sql_int i, b, c, d, e, f, h]"
    by (auto simp: length_Suc_conv has_id_def)
  then show ?thesis using u g r key p
    by (intro exI [of _ db1] exI [of _ db2]) (simp add: set_cells_def db_make_stim_def row_defs)
qed

theorem stim_update_roundtrip_witness:
  "\<exists>i s db0 db1 db2. db_update_stim (reference (\<lambda>_. [])) s db0 = Inr (i, db1) \<and> stm_state s = STIM_DONE \<and>
    db_get_stim_by_id (reference (\<lambda>_. [])) i db1 = Inr (Some s, db2)"
proof -
  obtain db where db: "db_ready (\<lambda>_. []) db" using opened_reference by blast
  define s where "s i = \<lparr>stm_id = i, stm_prgm_id = 1, stm_path = Some [], stm_did_fail = 1, stm_failing_vec = 7,
    stm_state = STIM_DONE\<rparr>" for i
  obtain i db1 s0 db2 where r: "db_ready (\<lambda>_. []) db1"
    and g: "db_get_stim_by_id (reference (\<lambda>_. [])) i db1 = Inr (Some s0, db2)"
    using stim_row_roundtrip [OF reference_follows db, of 1 None 0 0 4] by blast
  have "int32_of 1 = 1" "int32_of STIM_DONE = STIM_DONE" by (simp_all add: int32_of_def STIM_DONE_def)
  then obtain d1 d2 where "db_update_stim (reference (\<lambda>_. [])) (s i) db2 = Inr (i, d1)"
    "db_get_stim_by_id (reference (\<lambda>_. [])) i d1 = Inr (Some (s i), d2)"
    using stim_update_roundtrip [OF reference_follows r g, of "s i"] by (auto simp: s_def)
  moreover have "stm_state (s i) = STIM_DONE" by (simp add: s_def)
  ultimately show ?thesis by blast
qed

section \<open>Error paths\<close>

text \<open>When SQLite refuses to prepare a statement, insertions and updates end the process, lookups and lists
  find nothing; the database is left as it was.\<close>

theorem refused_statements:
  assumes "conn db = Connected" and "\<forall>sql. \<not> prepares sqlite (log db) sql" and "0 \<le> board_id"
  shows "db_insert_stim sqlite prgm_id path did_fail failing_vec state db = Inl Database_failure \<and>
    db_update_stim sqlite s db = Inl Database_failure \<and>
    db_insert_mount sqlite name ip_addr remote_path local_point message state db = Inl Database_failure \<and>
    db_get_prgm_by_id sqlite tz i db = Inr (None, db) \<and> db_get_mounts sqlite f db = Inr (None, db) \<and>
    db_get_jobs sqlite board_id dut_board_id user_id states db = Inr (None, db)"
  using assms
  by (simp_all add: db_insert_stim_def db_update_stim_def db_insert_mount_def db_get_prgm_by_id_def db_get_mounts_def
    db_get_jobs_def db_get_num_mounts_def db_get_num_jobs_def insert_row_def update_row_def execute_def select_one_def
    query_rows_def count_rows_def db_prepare_def)

theorem refused_statements_witness:
  "db_insert_stim \<lparr>prepares = \<lambda>_ _. False, steps = sql_steps (\<lambda>_. [])\<rparr> 1 None 0 0 4
      \<lparr>is_open = True, conn = Connected, log = []\<rparr> = Inl Database_failure"
  using refused_statements [of "\<lparr>is_open = True, conn = Connected, log = []\<rparr>" "\<lparr>prepares = \<lambda>_ _. False, steps = sql_steps (\<lambda>_. [])\<rparr>" 0]
  by simp

text \<open>After a close every statement uses freed memory; a mount with no address is a NULL pointer.\<close>

lemma closed_database:
  assumes "is_open db"
  shows "db_get_stim_by_id sqlite i (db_close db) = Inl Crash_freed"
    and "db_insert_stim sqlite prgm_id path did_fail failing_vec state (db_close db) = Inl Crash_freed"
  using assms
  by (simp_all add: db_close_def db_get_stim_by_id_def db_insert_stim_def select_one_def insert_row_def execute_def db_prepare_def)

lemma mount_without_address:
  assumes "follows_sql now sqlite" and "db_ready now db"
  shows "db_insert_mount sqlite name None remote_path local_point message state db = Inl Crash_null"
proof -
  have "stmt_ok (db_state now db) (S_insert ''mounts'' [''date_created'', ''u_name'', ''ip_addr'', ''remote_path'',
      ''local_point'', ''message'', ''state''] [E_now, E_param, E_param, E_param, E_param, E_param, E_param])"
    using has_schemaD [OF ready_schema [OF assms(2)] in_schema(9)] by auto
  then obtain db' where "db_prepare sqlite (''INSERT INTO mounts(date_created, u_name, ip_addr, remote_path, local_point, message, state)'' @
      ''VALUES('' @ sql_now @ '', ?, ?, ?, ?, ?, ?)'') db = Inr True"
    using db_step_reference [OF assms sql_texts(18) _, of "replicate 6 Sql_null"] by (force simp: num_params_def)
  then show ?thesis
    unfolding db_insert_mount_def insert_row_def execute_def textR_def by (simp only: bindR.simps derefR.simps if_False not_True_eq_False)
qed

text \<open>With no filter the text ends in \<^verbatim>\<open>WHERE ;\<close>, which SQLite refuses: no mount is listed.\<close>

lemma mounts_without_filter:
  assumes "conn db = Connected"
    and "\<not> prepares sqlite (log db) ''SELECT * FROM mounts WHERE ;''"
    and "\<not> prepares sqlite (log db) ''SELECT COUNT(*) FROM mounts WHERE ;''"
  shows "db_get_mounts sqlite \<lparr>mf_name = None, mf_ip_addr = None, mf_remote_path = None, mf_local_point = None,
      mf_message = None, mf_states = - 1\<rparr> db = Inr (None, db)"
  using assms
  by (simp add: db_get_mounts_def db_get_num_mounts_def query_rows_def count_rows_def db_prepare_def mounts_where_def
    mount_fields_def if_set_def)

end
