(* ===== verification/Db_Queries.thy ===== *)
theory Db_Queries
  imports Db_Rows
begin

text \<open>
  The queries whose text is put together from parts: which rows the lists of jobs and of programs
  hold. A query counts its rows with one statement and reads them with another; the array that is
  returned has one place per counted row and is filled exactly.
\<close>

section \<open>Numbers and lists of numbers in a text\<close>

lemma tokens_Nil_append: "map_option ((@) []) t = t"
  by (cases t) auto

lemma breaks_facts: "breaks CHR 0x20" "breaks CHR '','' " "breaks CHR '')''" "breaks CHR ''?''" "breaks CHR '';''"
  by (simp_all add: breaks_def word_char_def)

lemma dec_nat_all_digits:
  assumes "dec_nat n = c # ds"
  shows "takeWhile c_isdigit ds = ds" and "dropWhile c_isdigit ds = []" and "c_isdigit c" and "\<not> c_isspace c"
proof -
  have "\<forall>x\<in>set (c # ds). c_isdigit x \<and> \<not> c_isspace x" using dec_nat_digits [of n] unfolding assms by auto
  then show "takeWhile c_isdigit ds = ds" "dropWhile c_isdigit ds = []" "c_isdigit c" "\<not> c_isspace c"
    by (simp_all add: takeWhile_eq_all_conv)
qed

lemma tokens_dec_nat: "tokens (dec_nat n) = Some [T_num (int n)]"
proof -
  obtain c ds where ds: "dec_nat n = c # ds" using dec_nat_not_Nil by (cases "dec_nat n") auto
  with dec_nat_all_digits [OF this] dec_nat_value [of n] show ?thesis
    by (simp add: tokens.simps(2) del: takeWhile_eq_all_conv dropWhile_eq_Nil_conv)
qed

lemma tokens_dec_int: "tokens (dec_int v) = Some [T_num v]"
proof (cases "v < 0")
  case True
  obtain c ds where ds: "dec_nat (nat (- v)) = c # ds" using dec_nat_not_Nil by (cases "dec_nat (nat (- v))") auto
  moreover have "\<not> c_isspace CHR ''-''" "\<not> c_isdigit CHR ''-''" by (simp_all add: c_isspace_def c_isdigit_def)
  moreover note dec_nat_all_digits [OF ds] dec_nat_value [of "nat (- v)"]
  ultimately show ?thesis using True by (simp add: dec_int_def tokens.simps(2) [of "CHR ''-''"]
      del: takeWhile_eq_all_conv dropWhile_eq_Nil_conv)
next
  case False
  then show ?thesis by (simp add: dec_int_def tokens_dec_nat)
qed

lemma tokens_piece: "tokens p = Some ts \<Longrightarrow> tokens (p @ CHR 0x20 # s) = map_option ((@) ts) (tokens s)"
  using tokens_append [OF breaks_facts(1)] by (simp add: tokens_space c_isspace_def)

lemma tokens_int_cond:
  assumes "tokens col = Some ts"
  shows "tokens (int_cond (col @ '' '') v @ s) = map_option ((@) (if v = - 1 then [] else ts @ [T_num v])) (tokens s)"
proof (cases "v = - 1")
  case False
  have "tokens (int_cond (col @ '' '') v @ s) = tokens (col @ CHR 0x20 # dec_int v @ CHR 0x20 # s)"
    using False by (simp add: int_cond_def if_set_def)
  also have "\<dots> = map_option ((@) ts) (map_option ((@) [T_num v]) (tokens s))"
    by (simp only: tokens_piece [OF assms] tokens_piece [OF tokens_dec_int])
  finally show ?thesis using False by (cases "tokens s") simp_all
qed (simp add: int_cond_def if_set_def tokens_Nil_append)

definition states_set :: "int \<Rightarrow> int list \<Rightarrow> int list" where
  "states_set states known = filter (\<lambda>s. and states s = s) known"

fun list_tokens :: "bool \<Rightarrow> int list \<Rightarrow> token list" where
  "list_tokens f [] = []"
| "list_tokens f (i # is) = (if f then [T_sym CHR '','', T_num i] else [T_num i]) @ list_tokens True is"

lemma tokens_state_list:
  assumes "breaks c"
  shows "tokens (state_list f states known @ c # s) =
     map_option ((@) (list_tokens f (states_set states known))) (tokens (c # s))"
proof (induction known arbitrary: f)
  case (Cons i known)
  show ?case
  proof (cases "and states i = i")
    case True
    define r where "r = state_list True states known @ c # s"
    have "breaks (hd r)"
    proof -
      have "state_list True states known = [] \<or> hd (state_list True states known) = CHR '',''"
        by (induction known) auto
      then show ?thesis using assms breaks_facts(2) by (cases "state_list True states known") (auto simp: r_def)
    qed
    moreover have "r \<noteq> []" by (simp add: r_def)
    ultimately have n: "tokens (dec_int i @ r) = map_option ((#) (T_num i)) (tokens r)"
      using tokens_append [of "hd r" "dec_int i" "[T_num i]" "tl r"] by (cases "tokens r") (simp_all add: tokens_dec_int)
    have comma: "tokens (CHR '','' # CHR 0x20 # u) = map_option ((#) (T_sym CHR '','')) (tokens u)" for u
      by (simp add: tokens.simps(2) c_isspace_def c_isdigit_def word_char_def)
    have "state_list f states (i # known) @ c # s = (if f then '', '' else []) @ dec_int i @ r"
      using True by (simp add: r_def)
    then show ?thesis using True Cons.IH [of True] n comma [of "dec_int i @ r"]
      by (simp add: r_def states_set_def option.map_comp o_def)
  qed (use Cons in \<open>simp add: states_set_def\<close>)
qed (simp add: states_set_def tokens_Nil_append)

lemma tokens_states_cond:
  "tokens (''AND '' @ states_cond states known) =
     Some ([T_word ''AND'', T_word ''state'', T_word ''in'', T_sym CHR ''(''] @
       list_tokens False (states_set states known) @ [T_sym CHR '')''])"
proof -
  have a: "tokens ''AND state in ('' = Some [T_word ''AND'', T_word ''state'', T_word ''in'', T_sym CHR ''('']" by code_simp
  have p: "tokens '')'' = Some [T_sym CHR '')'']" by code_simp
  have "''AND '' @ states_cond states known = ''AND state in ('' @ CHR 0x20 # state_list False states known @ '')''"
    by (simp add: states_cond_def)
  then have "tokens (''AND '' @ states_cond states known) =
      map_option ((@) [T_word ''AND'', T_word ''state'', T_word ''in'', T_sym CHR ''(''])
        (tokens (state_list False states known @ '')''))"
    by (simp only: tokens_piece [OF a])
  then show ?thesis using tokens_state_list [OF breaks_facts(3), of False states known "[]"] p by simp
qed

section \<open>Conditions\<close>

fun cond_tokens :: "sql_cond \<Rightarrow> token list" where
  "cond_tokens (C_eq w E_param) = [T_word w, T_sym CHR ''='', T_param]"
| "cond_tokens (C_eq w (E_val (Sql_int i))) = [T_word w, T_sym CHR ''='', T_num i]"
| "cond_tokens (C_eq w (E_val (Sql_text t))) = [T_word w, T_sym CHR ''='', T_text t]"
| "cond_tokens (C_ne w (E_val (Sql_int i))) = [T_word w, T_ne, T_num i]"
| "cond_tokens (C_in w is) = [T_word w, T_word ''in'', T_sym CHR ''(''] @ list_tokens False is @ [T_sym CHR '')'']"
| "cond_tokens _ = []"

text \<open>The words between the conditions are AND in either case.\<close>

fun more_tokens :: "(string \<times> sql_cond) list \<Rightarrow> token list" where
  "more_tokens [] = []"
| "more_tokens ((a, c) # cs) = T_word a # cond_tokens c @ more_tokens cs"

lemma parse_ints_more:
  "is \<noteq> [] \<Longrightarrow> parse_ints (tl (list_tokens True is) @ T_sym CHR '')'' # ts) = Some (is, ts)"
proof (induction "is")
  case (Cons i "is")
  then show ?case by (cases "is") auto
qed simp

lemma parse_ints_tokens: "parse_ints (list_tokens False is @ T_sym CHR '')'' # ts) = Some (is, ts)"
proof (cases "is")
  case (Cons i js)
  then show ?thesis using parse_ints_more [of "is" ts] by simp
qed simp

lemma parse_cond_tokens: "cond_tokens c \<noteq> [] \<Longrightarrow> parse_cond (cond_tokens c @ ts) = Some (c, ts)"
  by (cases c rule: cond_tokens.cases) (auto simp: parse_cond_def parse_ints_tokens)

lemma parse_conds_tokens:
  assumes "cond_tokens c \<noteq> []" and "\<forall>(a, d)\<in>set cs. is_and a \<and> cond_tokens d \<noteq> []" and "length cs < n"
  shows "parse_conds n (cond_tokens c @ more_tokens cs) = Some (c # map snd cs, None)"
  using assms
proof (induction cs arbitrary: c n)
  case Nil
  then show ?case using parse_cond_tokens [of c "[]"] by (cases n) auto
next
  case (Cons ad cs)
  obtain a d where ad: "ad = (a, d)" by fastforce
  obtain m where n: "n = Suc m" using Cons.prems(3) by (cases n) auto
  have "parse_conds m (cond_tokens d @ more_tokens cs) = Some (d # map snd cs, None)"
    using Cons.prems ad n by (intro Cons.IH) auto
  moreover obtain t u where "cond_tokens d @ more_tokens cs = t # u"
    using Cons.prems(2) ad by (cases "cond_tokens d @ more_tokens cs") auto
  moreover have "t \<noteq> T_num i \<or> u \<noteq> []" for i
    using calculation(2) Cons.prems(2) ad by (cases d rule: cond_tokens.cases) auto
  ultimately show ?case
    using parse_cond_tokens [of c "more_tokens (ad # cs)"] Cons.prems(1,2) ad n
    by (auto split: token.splits list.splits simp: is_and_def)
qed

lemma more_tokens_length: "length cs \<le> length (more_tokens cs)"
  by (induction cs rule: more_tokens.induct) auto

lemma parse_select:
  assumes "tokens w = Some (cond_tokens c @ more_tokens cs)" and "cond_tokens c \<noteq> []"
    and "\<forall>(a, d)\<in>set cs. is_and a \<and> cond_tokens d \<noteq> []"
    and "tokens hd_text = Some (T_word ''SELECT'' # pre @ [T_word ''FROM'', T_word t, T_word ''WHERE''])"
    and "pre = (if cnt then [T_word ''COUNT'', T_sym CHR ''('', T_sym CHR ''*'', T_sym CHR '')''] else [T_sym CHR ''*''])"
  shows "parse_sql (hd_text @ CHR 0x20 # w) = Some (S_select cnt t (c # map snd cs) None)"
proof -
  have "length cs < length (cond_tokens c @ more_tokens cs)"
    using assms(2) more_tokens_length [of cs] by (cases "cond_tokens c") auto
  note p = parse_conds_tokens [OF assms(2,3) this]
  then show ?thesis
    using assms(1,5) tokens_piece [OF assms(4), of w] by (cases cnt) (simp_all add: parse_sql_def parse_stmt_def)
qed

section \<open>Counting and reading\<close>

lemma foldR_store_row:
  "foldR (store_row mk) (enumerate (length ys) rs) (ys @ replicate (length rs) None) =
     bindR (mapR mk rs) (\<lambda>xs. Inr (ys @ map Some xs))"
proof (induction rs arbitrary: ys)
  case (Cons r rs)
  show ?case
  proof (cases "mk r")
    case (Inr x)
    then show ?thesis using Cons.IH [of "ys @ [Some x]"]
      by (cases "mapR mk rs") (simp_all add: store_row_def updR_def list_update_append)
  qed (simp add: store_row_def)
qed simp

definition table_rows :: "sql_db \<Rightarrow> string \<Rightarrow> sql_value list list" where
  "table_rows st t = (case sql_tables st t of None \<Rightarrow> [] | Some tb \<Rightarrow> tab_rows tb)"

text \<open>What a query returns: nothing when no row matches, otherwise an array that is filled.\<close>

definition query_result :: "(sql_value list \<Rightarrow> 'a res) \<Rightarrow> sql_value list list \<Rightarrow> 'a option list option res" where
  "query_result mk rs = (if rs = [] then Inr None else bindR (mapR mk rs) (\<lambda>xs. Inr (Some (map Some xs))))"

lemma eval_exprs_clock: "E_now \<notin> set es \<Longrightarrow> eval_exprs c es vs = eval_exprs c' es vs"
  by (induction c es vs rule: eval_exprs.induct) (auto split: list.split)

lemma query_conforming:
  assumes fs: "follows_sql now sqlite" and ready: "db_ready now db"
    and p: "parse_sql sel = Some (S_select False t cs None)" and q: "parse_sql cnt = Some (S_select True t cs None)"
    and t: "(t, cols) \<in> set schema" and cs: "cond_col ` set cs \<subseteq> set cols"
    and len: "length vals = num_params (concat (map cond_expr cs))"
    and rs: "rs = select_rows cols cs (eval_exprs c (concat (map cond_expr cs)) vals) (table_rows (db_state now db) t)"
    and now: "E_now \<notin> set (concat (map cond_expr cs))"
  shows "\<exists>db1 db2. count_rows sqlite cnt vals db = Inr (length rs, db1) \<and>
    query_rows sqlite sel vals mk (count_rows sqlite cnt vals) db = bindR (query_result mk rs) (\<lambda>r. Inr (r, db2)) \<and>
    db_ready now db1 \<and> db_ready now db2"
proof -
  from has_schemaD [OF ready_schema [OF ready] t] obtain tb where
    tb: "sql_tables (db_state now db) t = Some tb" "tab_cols tb = cols" by blast
  have ok: "stmt_ok (db_state now db) (S_select c t cs None)" for c using tb cs by auto
  from db_step_reference [OF fs ready p ok] len obtain d where
    sel: "db_prepare sqlite sel db = Inr True" by auto
  from db_step_reference [OF fs ready q ok] len obtain db1 where
    cnt: "db_prepare sqlite cnt db = Inr True"
    "db_step sqlite cnt vals db = (fst (exec_stmt (db_clock now db) (S_select True t cs None) vals (db_state now db)), db1)"
    "db_ready now db1" "db_state now db1 = snd (exec_stmt (db_clock now db) (S_select True t cs None) vals (db_state now db))"
    by auto
  have st1: "db_state now db1 = db_state now db" using cnt(4) by (simp add: Let_def)
  from db_step_reference [OF fs cnt(3) p, unfolded st1, OF ok] len obtain db2 where
    get: "db_step sqlite sel vals db1 = (fst (exec_stmt (db_clock now db1) (S_select False t cs None) vals (db_state now db)), db2)"
    "db_ready now db2"
    by auto
  note clock = eval_exprs_clock [OF now, of "db_clock now db" vals c] eval_exprs_clock [OF now, of "db_clock now db1" vals c]
  have count: "count_rows sqlite cnt vals db = Inr (length rs, db1)"
    using cnt(1,2) tb clock by (simp add: count_rows_def rs table_rows_def Let_def column_int64_def column_def)
  moreover have "query_rows sqlite sel vals mk (count_rows sqlite cnt vals) db =
      (if rs = [] then Inr (None, db1) else bindR (mapR mk rs) (\<lambda>xs. Inr (Some (map Some xs), db2)))"
    using sel count get(1) tb clock foldR_store_row [of mk "[]" rs]
    by (cases "mapR mk rs") (simp_all add: query_rows_def rs table_rows_def Let_def)
  then have "query_rows sqlite sel vals mk (count_rows sqlite cnt vals) db =
      bindR (query_result mk rs) (\<lambda>r. Inr (r, if rs = [] then db1 else db2))"
    by (cases "mapR mk rs") (simp_all add: query_result_def)
  ultimately show ?thesis using cnt(3) get(2)
    by (intro exI [of _ db1] exI [of _ "if rs = [] then db1 else db2"]) simp
qed

section \<open>Jobs\<close>

text \<open>The rows that the query for jobs keeps, by the cells of a row.\<close>

definition wanted_states :: "int \<Rightarrow> int list \<Rightarrow> sql_value \<Rightarrow> bool" where
  "wanted_states states known v \<longleftrightarrow> states = - 1 \<or> (\<exists>s\<in>set known. and states s = s \<and> v = Sql_int s)"

definition job_wanted :: "int \<Rightarrow> int \<Rightarrow> int \<Rightarrow> int \<Rightarrow> sql_value list \<Rightarrow> bool" where
  "job_wanted board_id dut_board_id user_id states row \<longleftrightarrow>
     row ! 1 = Sql_int board_id \<and> (dut_board_id = - 1 \<or> row ! 2 = Sql_int dut_board_id) \<and>
     (user_id = - 1 \<or> row ! 3 \<noteq> Sql_int user_id \<and> row ! 3 \<noteq> Sql_null) \<and> wanted_states states JOB_STATES (row ! 5)"

definition int_conds :: "string \<Rightarrow> bool \<Rightarrow> string \<Rightarrow> int \<Rightarrow> (string \<times> sql_cond) list" where
  "int_conds a eq col v =
     (if v = - 1 then [] else [(a, (if eq then C_eq else C_ne) col (E_val (Sql_int v)))])"

definition state_conds :: "int \<Rightarrow> int list \<Rightarrow> (string \<times> sql_cond) list" where
  "state_conds states known = (if states = - 1 then [] else [(''AND'', C_in ''state'' (states_set states known))])"

lemma tokens_if_states:
  "tokens (if_set (states \<noteq> - 1) (''AND '' @ states_cond states known)) = Some (more_tokens (state_conds states known))"
  using tokens_states_cond [of states known] by (simp add: if_set_def state_conds_def)

lemma more_tokens_append: "more_tokens (cs @ ds) = more_tokens cs @ more_tokens ds"
  by (induction cs rule: more_tokens.induct) auto

lemma tokens_int_conds:
  assumes "tokens col = Some (T_word a # T_word w # (if eq then T_sym CHR ''='' else T_ne) # [])"
  shows "tokens (int_cond (col @ '' '') v @ s) = map_option ((@) (more_tokens (int_conds a eq w v))) (tokens s)"
  using tokens_int_cond [OF assms, of v s] by (auto simp: int_conds_def)

definition job_conds :: "int \<Rightarrow> int \<Rightarrow> int \<Rightarrow> (string \<times> sql_cond) list" where
  "job_conds dut_board_id user_id states =
     int_conds ''AND'' True ''dut_board_id'' dut_board_id @ int_conds ''AND'' False ''user_id'' user_id @
     state_conds states JOB_STATES"

lemma tokens_jobs_where:
  "tokens (jobs_where dut_board_id user_id states) =
     Some (cond_tokens (C_eq ''board_id'' E_param) @ more_tokens (job_conds dut_board_id user_id states))"
proof -
  have d: "tokens ''AND dut_board_id ='' = Some [T_word ''AND'', T_word ''dut_board_id'', T_sym CHR ''='']"
    and u: "tokens ''AND user_id !='' = Some [T_word ''AND'', T_word ''user_id'', T_ne]"
    and b: "tokens ''board_id = ?'' = Some [T_word ''board_id'', T_sym CHR ''='', T_param]" by code_simp+
  show ?thesis
    using tokens_piece [OF b] tokens_int_conds [of "''AND dut_board_id =''" "''AND''" "''dut_board_id''" True]
      tokens_int_conds [of "''AND user_id !=''" "''AND''" "''user_id''" False] d u
    by (simp add: jobs_where_def job_conds_def more_tokens_append tokens_if_states [simplified])
qed

lemma jobs_cond_facts:
  "\<forall>(a, d)\<in>set (job_conds dut_board_id user_id states). is_and a \<and> cond_tokens d \<noteq> []"
  "cond_col ` set (map snd (job_conds dut_board_id user_id states)) \<subseteq> {''dut_board_id'', ''user_id'', ''state''}"
  "E_now \<notin> set (concat (map cond_expr (map snd (job_conds dut_board_id user_id states))))"
  "E_param \<notin> set (concat (map cond_expr (map snd (job_conds dut_board_id user_id states))))"
  by (auto simp: job_conds_def int_conds_def state_conds_def is_and_def split: if_splits)

lemma parse_jobs:
  "parse_sql (''SELECT * FROM jobs WHERE '' @ jobs_where dut_board_id user_id states) =
     Some (S_select False ''jobs'' (C_eq ''board_id'' E_param # map snd (job_conds dut_board_id user_id states)) None)"
  "parse_sql (''SELECT COUNT(*) FROM jobs WHERE '' @ jobs_where dut_board_id user_id states) =
     Some (S_select True ''jobs'' (C_eq ''board_id'' E_param # map snd (job_conds dut_board_id user_id states)) None)"
proof -
  have "tokens ''SELECT * FROM jobs WHERE'' = Some (T_word ''SELECT'' # [T_sym CHR ''*''] @
      [T_word ''FROM'', T_word ''jobs'', T_word ''WHERE''])"
    "tokens ''SELECT COUNT(*) FROM jobs WHERE'' = Some (T_word ''SELECT'' #
      [T_word ''COUNT'', T_sym CHR ''('', T_sym CHR ''*'', T_sym CHR '')''] @ [T_word ''FROM'', T_word ''jobs'', T_word ''WHERE''])"
    by code_simp+
  note h = this
  note w = parse_select [OF tokens_jobs_where _ jobs_cond_facts(1)]
  show "parse_sql (''SELECT * FROM jobs WHERE '' @ jobs_where dut_board_id user_id states) =
     Some (S_select False ''jobs'' (C_eq ''board_id'' E_param # map snd (job_conds dut_board_id user_id states)) None)"
    using w [OF _ h(1), of False dut_board_id user_id states] by simp
  show "parse_sql (''SELECT COUNT(*) FROM jobs WHERE '' @ jobs_where dut_board_id user_id states) =
     Some (S_select True ''jobs'' (C_eq ''board_id'' E_param # map snd (job_conds dut_board_id user_id states)) None)"
    using w [OF _ h(2), of True dut_board_id user_id states] by simp
qed

lemma holds_jobs:
  assumes "length row = 6"
  shows "holds [''id'', ''board_id'', ''dut_board_id'', ''user_id'', ''date_created'', ''state''] row
      (C_eq ''board_id'' E_param # map snd (job_conds dut_board_id user_id states))
      (eval_exprs c (concat (map cond_expr (C_eq ''board_id'' E_param # map snd (job_conds dut_board_id user_id states))))
        [Sql_int board_id]) =
    job_wanted board_id dut_board_id user_id states row"
proof -
  from assms obtain a0 a1 a2 a3 a4 a5 where row: "row = [a0, a1, a2, a3, a4, a5]"
    by (auto simp: length_Suc_conv numeral_eq_Suc)
  show ?thesis
    by (auto simp: row job_wanted_def job_conds_def int_conds_def state_conds_def cell_def wanted_states_def states_set_def)
qed

text \<open>C12. The list of jobs holds exactly the jobs of the board, filtered by the board under test, by the states in
  the mask and by users, in the order of the table; it is NULL when there is none. The filter on the user keeps the jobs
  of all other users. The count of jobs is the length of the list.\<close>

theorem get_jobs_spec:
  assumes "follows_sql now sqlite" and "db_ready now db" and "0 \<le> board_id"
  shows "\<exists>rs db1 db2. rs = filter (job_wanted board_id dut_board_id user_id states) (table_rows (db_state now db) ''jobs'') \<and>
    db_get_num_jobs sqlite board_id dut_board_id user_id states db = Inr (length rs, db1) \<and>
    db_get_jobs sqlite board_id dut_board_id user_id states db =
      Inr (if rs = [] then None else Some (map (\<lambda>r. Some (db_make_job r)) rs), db2)"
proof -
  have t: "(''jobs'', [''id'', ''board_id'', ''dut_board_id'', ''user_id'', ''date_created'', ''state'']) \<in> set schema"
    by (simp add: schema_def)
  from has_schemaD [OF ready_schema [OF assms(2)] t] have
    len: "\<forall>row\<in>set (table_rows (db_state now db) ''jobs''). length row = 6"
    by (auto simp: table_rows_def)
  have par: "num_params (concat (map cond_expr (C_eq ''board_id'' E_param # map snd (job_conds dut_board_id user_id states)))) = 1"
    using jobs_cond_facts(4) [of dut_board_id user_id states] by (auto simp: num_params_def filter_empty_conv)
  define rs where "rs = filter (job_wanted board_id dut_board_id user_id states) (table_rows (db_state now db) ''jobs'')"
  have rs: "rs = select_rows [''id'', ''board_id'', ''dut_board_id'', ''user_id'', ''date_created'', ''state'']
      (C_eq ''board_id'' E_param # map snd (job_conds dut_board_id user_id states))
      (eval_exprs [] (concat (map cond_expr (C_eq ''board_id'' E_param # map snd (job_conds dut_board_id user_id states))))
        [Sql_int board_id]) (table_rows (db_state now db) ''jobs'')"
    unfolding rs_def select_rows_def using len holds_jobs by (intro filter_cong refl) (simp only: mem_Collect_eq)
  have "mapR (\<lambda>r. Inr (db_make_job r)) rs = Inr (map db_make_job rs)" by (rule mapR_all) simp
  then have "query_result (\<lambda>r. Inr (db_make_job r)) rs =
      Inr (if rs = [] then None else Some (map (\<lambda>r. Some (db_make_job r)) rs))"
    by (simp add: query_result_def)
  then show ?thesis
    using query_conforming [OF assms(1,2) parse_jobs t _ _ rs, of "\<lambda>r. Inr (db_make_job r)"] par assms(3)
      jobs_cond_facts(2,3) [of dut_board_id user_id states] rs_def
    unfolding db_get_jobs_def db_get_num_jobs_def by fastforce
qed

definition two_jobs :: database where
  "two_jobs = \<lparr>is_open = True, conn = Connected, log = [(DB_SQL, []),
     (''INSERT INTO jobs(board_id, dut_board_id, user_id, date_created, state) '' @
       ''VALUES(?, ?, ?, '' @ sql_now @ '', ?)'', [Sql_int 1, Sql_int 2, Sql_int 7, Sql_int 4]),
     (''INSERT INTO jobs(board_id, dut_board_id, user_id, date_created, state) '' @
       ''VALUES(?, ?, ?, '' @ sql_now @ '', ?)'', [Sql_int 1, Sql_int 2, Sql_int 8, Sql_int 4])]\<rparr>"

lemma two_jobs_log:
  assumes "log db = [(DB_SQL, []), (s1, v1), (s2, v2)]" and "parse_sql s1 = Some p1" and "parse_sql s2 = Some p2"
    and "conn db = Connected" and "snd (exec_stmt [] (S_create schema) [] sql_init) = t0"
    and "stmt_ok t0 p1" and "length v1 = stmt_params p1" and "snd (exec_stmt [] p1 v1 t0) = t1"
    and "stmt_ok t1 p2" and "length v2 = stmt_params p2" and "snd (exec_stmt [] p2 v2 t1) = t2"
  shows "db_ready (\<lambda>_. []) db" and "db_state (\<lambda>_. []) db = t2"
proof -
  have s0: "sql_state (\<lambda>_. []) [(DB_SQL, [])] = t0"
    using sql_state_snoc [of "\<lambda>_. []" "[]" "(DB_SQL, [])"] assms(5) by (simp add: exec_sql_def parse_DB_SQL sql_state_def)
  have s1: "sql_state (\<lambda>_. []) [(DB_SQL, []), (s1, v1)] = t1"
    using sql_state_snoc [of "\<lambda>_. []" "[(DB_SQL, [])]" "(s1, v1)"] assms(2,8) s0 by (simp add: exec_sql_def)
  show "db_state (\<lambda>_. []) db = t2"
    using sql_state_snoc [of "\<lambda>_. []" "[(DB_SQL, []), (s1, v1)]" "(s2, v2)"] assms(1,3,11) s1
    by (simp add: exec_sql_def db_state_def)
  have "in_fragment (\<lambda>_. []) [(DB_SQL, [])]"
    using in_fragment.step [OF in_fragment.empty, of "\<lambda>_. []" "(DB_SQL, [])"] by (simp add: takes_def parse_DB_SQL)
  then have "in_fragment (\<lambda>_. []) [(DB_SQL, []), (s1, v1)]"
    using in_fragment.step [of "\<lambda>_. []" "[(DB_SQL, [])]" "(s1, v1)"] assms(2,6,7) s0 by (simp add: takes_def)
  then have "in_fragment (\<lambda>_. []) [(DB_SQL, []), (s1, v1), (s2, v2)]"
    using in_fragment.step [of "\<lambda>_. []" "[(DB_SQL, []), (s1, v1)]" "(s2, v2)"] assms(3,9,10) s1 by (simp add: takes_def)
  then show "db_ready (\<lambda>_. []) db" using assms(1,4) by (simp add: db_ready_def)
qed

lemma two_jobs_state:
  "db_ready (\<lambda>_. []) two_jobs"
  "table_rows (db_state (\<lambda>_. []) two_jobs) ''jobs'' =
     [[Sql_int 1, Sql_int 1, Sql_int 2, Sql_int 7, Sql_text [], Sql_int 4],
      [Sql_int 2, Sql_int 1, Sql_int 2, Sql_int 8, Sql_text [], Sql_int 4]]"
proof -
  note facts = two_jobs_log [OF _ sql_texts(13) sql_texts(13) _ refl _ _ refl _ _ refl, of two_jobs
    "[Sql_int 1, Sql_int 2, Sql_int 7, Sql_int 4]" "[Sql_int 1, Sql_int 2, Sql_int 8, Sql_int 4]"]
  show "db_ready (\<lambda>_. []) two_jobs"
    by (rule facts(1)) (simp_all add: two_jobs_def num_params_def schema_def create_missing_def sql_init_def Let_def)
  have "db_state (\<lambda>_. []) two_jobs =
      snd (exec_stmt [] (S_insert ''jobs'' [''board_id'', ''dut_board_id'', ''user_id'', ''date_created'', ''state'']
        [E_param, E_param, E_param, E_now, E_param]) [Sql_int 1, Sql_int 2, Sql_int 8, Sql_int 4]
      (snd (exec_stmt [] (S_insert ''jobs'' [''board_id'', ''dut_board_id'', ''user_id'', ''date_created'', ''state'']
        [E_param, E_param, E_param, E_now, E_param]) [Sql_int 1, Sql_int 2, Sql_int 7, Sql_int 4]
      (snd (exec_stmt [] (S_create schema) [] sql_init)))))"
    by (rule facts(2)) (simp_all add: two_jobs_def num_params_def schema_def create_missing_def sql_init_def Let_def)
  then show "table_rows (db_state (\<lambda>_. []) two_jobs) ''jobs'' =
     [[Sql_int 1, Sql_int 1, Sql_int 2, Sql_int 7, Sql_text [], Sql_int 4],
      [Sql_int 2, Sql_int 1, Sql_int 2, Sql_int 8, Sql_text [], Sql_int 4]]"
    by (simp add: table_rows_def schema_def create_missing_def sql_init_def Let_def new_row_def next_rowid_def row_id_def)
qed

theorem get_jobs_spec_witness:
  "\<exists>db1 db2. db_get_num_jobs (reference (\<lambda>_. [])) 1 (- 1) 7 4 two_jobs = Inr (1, db1) \<and>
    db_get_jobs (reference (\<lambda>_. [])) 1 (- 1) 7 4 two_jobs =
      Inr (Some [Some \<lparr>job_id = 2, job_board_id = 1, job_dut_board_id = 2, job_user_id = 8, job_state = 4\<rparr>], db2)"
proof -
  have "filter (job_wanted 1 (- 1) 7 4) (table_rows (db_state (\<lambda>_. []) two_jobs) ''jobs'') =
      [[Sql_int 2, Sql_int 1, Sql_int 2, Sql_int 8, Sql_text [], Sql_int 4]]"
    by (simp add: two_jobs_state job_wanted_def wanted_states_def JOB_STATES_def)
  then show ?thesis
    using get_jobs_spec [OF reference_follows two_jobs_state(1), of 1 "- 1" 7 4]
    by (simp add: db_make_job_def column_int64_def column_int_def column_def int32_of_def)
qed

end
