(* ===== verification/Uthash.thy ===== *)
theory Uthash
  imports Gcore_Prelude
begin

text \<open>
  The hash tables that the test programs keep their loaded stimuli in: the macros of
  lib/uthash/uthash.h that prgm.c uses (\<^verbatim>\<open>HASH_FIND_INT\<close>, \<^verbatim>\<open>HASH_ADD_INT\<close>, \<^verbatim>\<open>HASH_DEL\<close> and what
  they expand to).

  A table is intrusive: every element carries one handle \<^verbatim>\<open>hh\<close> with the links of the list in
  insertion order (\<^verbatim>\<open>prev\<close>, \<^verbatim>\<open>next\<close>), those of its bucket (\<^verbatim>\<open>hh_prev\<close>, \<^verbatim>\<open>hh_next\<close>), the table it
  was last added to, and its key; the variable that names the table points at its first element.
  The model keeps that layout, one function from elements to values per field of the handle, since
  the program adds one element to two tables through the same handle, and what happens then depends
  on it. Elements are numbered in the order they are allocated, tables likewise; a table or an
  element that was freed is no longer there, and using it is the fault \<open>Crash_freed\<close>.
\<close>

unbundle bit_operations_syntax

section \<open>The hash function\<close>

text \<open>\<^verbatim>\<open>HASH_JEN\<close> of a key of four bytes, which \<^verbatim>\<open>sizeof(int)\<close> is.\<close>

definition HASH_JEN_MIX :: "u32 \<times> u32 \<times> u32 \<Rightarrow> u32 \<times> u32 \<times> u32" where
  "HASH_JEN_MIX = (\<lambda>(a, b, c).
     let a = (a - b - c) XOR drop_bit 13 c; b = (b - c - a) XOR push_bit 8 a; c = (c - a - b) XOR drop_bit 13 b;
         a = (a - b - c) XOR drop_bit 12 c; b = (b - c - a) XOR push_bit 16 a; c = (c - a - b) XOR drop_bit 5 b;
         a = (a - b - c) XOR drop_bit 3 c; b = (b - c - a) XOR push_bit 10 a; c = (c - a - b) XOR drop_bit 15 b
     in (a, b, c))"

definition HASH_JEN :: "u32 \<Rightarrow> u32" where
  "HASH_JEN key = snd (snd (HASH_JEN_MIX (0x9e3779b9 + key, 0x9e3779b9, 0xfeedbeef + 4)))"

text \<open>The number of buckets is a power of two, so the mask of \<^verbatim>\<open>HASH_TO_BKT\<close> is a remainder.\<close>

definition HASH_TO_BKT :: "u32 \<Rightarrow> nat \<Rightarrow> nat" where
  "HASH_TO_BKT hashv num_buckets = unat hashv mod num_buckets"

section \<open>Tables and handles\<close>

record bucket =
  hh_head :: "nat option"
  bkt_count :: nat
  expand_mult :: nat

record hash_table =
  buckets :: "bucket list"
  num_items :: nat
  tail :: nat
  ideal_chain_maxlen :: nat
  nonideal_items :: nat
  ineff_expands :: nat
  noexpand :: bool

record hash_store =
  alive :: "nat \<Rightarrow> bool"
  brk :: nat
  hh_tbl :: "nat \<Rightarrow> nat"
  app_prev :: "nat \<Rightarrow> nat option"
  app_next :: "nat \<Rightarrow> nat option"
  hh_prev :: "nat \<Rightarrow> nat option"
  hh_next :: "nat \<Rightarrow> nat option"
  hh_key :: "nat \<Rightarrow> u32"
  hh_hashv :: "nat \<Rightarrow> u32"
  tables :: "nat \<Rightarrow> hash_table option"
  next_table :: nat

definition empty_bucket :: bucket where
  "empty_bucket = \<lparr>hh_head = None, bkt_count = 0, expand_mult = 0\<rparr>"

definition HASH_MAKE_TABLE :: "nat \<Rightarrow> hash_table" where
  "HASH_MAKE_TABLE p =
     \<lparr>buckets = replicate 32 empty_bucket, num_items = 0, tail = p, ideal_chain_maxlen = 0,
      nonideal_items = 0, ineff_expands = 0, noexpand = False\<rparr>"

definition empty_store :: hash_store where
  "empty_store =
     \<lparr>alive = (\<lambda>_. False), brk = 0, hh_tbl = (\<lambda>_. 0), app_prev = (\<lambda>_. None), app_next = (\<lambda>_. None),
      hh_prev = (\<lambda>_. None), hh_next = (\<lambda>_. None), hh_key = (\<lambda>_. 0), hh_hashv = (\<lambda>_. 0),
      tables = (\<lambda>_. None), next_table = 0\<rparr>"

text \<open>An element is allocated (its handle is not initialised) and freed.\<close>

definition new_element :: "hash_store \<Rightarrow> nat \<times> hash_store" where
  "new_element u = (brk u, u\<lparr>alive := (alive u)(brk u := True), brk := Suc (brk u)\<rparr>)"

definition free_element :: "nat \<Rightarrow> hash_store \<Rightarrow> hash_store res" where
  "free_element p u = (if alive u p then Inr (u\<lparr>alive := (alive u)(p := False)\<rparr>) else Inl Crash_freed)"

text \<open>A dereference of an element and of a table.\<close>

definition live :: "hash_store \<Rightarrow> nat \<Rightarrow> unit res" where
  "live u p = (if alive u p then Inr () else Inl Crash_freed)"

definition tableR :: "hash_store \<Rightarrow> nat \<Rightarrow> hash_table res" where
  "tableR u t = (case tables u t of None \<Rightarrow> Inl Crash_freed | Some tb \<Rightarrow> Inr tb)"

section \<open>The operations\<close>

text \<open>
  The search along a bucket. A chain without a cycle has at most as many elements as were ever
  allocated, so one more is enough fuel.
\<close>

fun HASH_FIND_IN_BKT :: "nat \<Rightarrow> hash_store \<Rightarrow> u32 \<Rightarrow> u32 \<Rightarrow> nat option \<Rightarrow> nat option res" where
  "HASH_FIND_IN_BKT fuel u key hashval None = Inr None"
| "HASH_FIND_IN_BKT 0 u key hashval (Some p) = Inl Out_of_fuel"
| "HASH_FIND_IN_BKT (Suc fuel) u key hashval (Some p) =
     bindR (live u p) (\<lambda>_.
     if hh_hashv u p = hashval \<and> hh_key u p = key then Inr (Some p)
     else HASH_FIND_IN_BKT fuel u key hashval (hh_next u p))"

definition HASH_FIND :: "hash_store \<Rightarrow> nat option \<Rightarrow> u32 \<Rightarrow> nat option res" where
  "HASH_FIND u head key =
     (case head of
        None \<Rightarrow> Inr None
      | Some h \<Rightarrow>
          bindR (live u h) (\<lambda>_.
          bindR (tableR u (hh_tbl u h)) (\<lambda>tb.
          HASH_FIND_IN_BKT (Suc (brk u)) u key (HASH_JEN key)
            (hh_head (buckets tb ! HASH_TO_BKT (HASH_JEN key) (length (buckets tb)))))))"

text \<open>An element goes to the front of a bucket.\<close>

definition push_bkt :: "nat \<Rightarrow> bucket \<Rightarrow> hash_store \<Rightarrow> (bucket \<times> hash_store) res" where
  "push_bkt p bk u =
     (let u = u\<lparr>hh_next := (hh_next u)(p := hh_head bk), hh_prev := (hh_prev u)(p := None)\<rparr> in
      bindR
       (case hh_head bk of
          None \<Rightarrow> Inr u
        | Some q \<Rightarrow> bindR (live u q) (\<lambda>_. Inr (u\<lparr>hh_prev := (hh_prev u)(q := Some p)\<rparr>))) (\<lambda>u.
      Inr (bk\<lparr>hh_head := Some p, bkt_count := Suc (bkt_count bk)\<rparr>, u)))"

text \<open>
  \<^verbatim>\<open>HASH_EXPAND_BUCKETS\<close>: every chain is walked and its elements are pushed to the buckets of a table
  of twice the size. \<open>ideal\<close> is the bound above which an element counts as not ideally placed.
\<close>

definition count_bkt :: "nat \<Rightarrow> bucket \<Rightarrow> nat \<Rightarrow> bucket \<times> nat" where
  "count_bkt ideal bk nonideal =
     (if bkt_count bk > ideal
      then (bk\<lparr>expand_mult :=
              (if bkt_count bk > expand_mult bk * ideal then Suc (expand_mult bk) else expand_mult bk)\<rparr>,
            Suc nonideal)
      else (bk, nonideal))"

fun rehash_chain ::
    "nat \<Rightarrow> nat \<Rightarrow> nat option \<Rightarrow> bucket list \<times> nat \<times> hash_store \<Rightarrow> (bucket list \<times> nat \<times> hash_store) res" where
  "rehash_chain fuel ideal None s = Inr s"
| "rehash_chain 0 ideal (Some p) s = Inl Out_of_fuel"
| "rehash_chain (Suc fuel) ideal (Some p) (bks, nonideal, u) =
     bindR (live u p) (\<lambda>_.
     let nx = hh_next u p; b = HASH_TO_BKT (hh_hashv u p) (length bks) in
     bindR (push_bkt p (bks ! b) u) (\<lambda>(bk, u).
     let (bk, nonideal) = count_bkt ideal bk nonideal in
     rehash_chain fuel ideal nx (bks[b := bk], nonideal, u)))"

definition HASH_EXPAND_BUCKETS :: "nat \<Rightarrow> hash_store \<Rightarrow> hash_store res" where
  "HASH_EXPAND_BUCKETS t u =
     bindR (tableR u t) (\<lambda>tb.
     let n = length (buckets tb);
         ideal = num_items tb div (2 * n) + (if num_items tb mod (2 * n) \<noteq> 0 then 1 else 0) in
     bindR (foldR (\<lambda>bk s. rehash_chain (Suc (brk u)) ideal (hh_head bk) s) (buckets tb)
        (replicate (2 * n) empty_bucket, 0, u)) (\<lambda>(bks, nonideal, u).
     let ineff = (if nonideal > num_items tb div 2 then Suc (ineff_expands tb) else 0) in
     Inr (u\<lparr>tables := (tables u)(t \<mapsto>
       tb\<lparr>buckets := bks, ideal_chain_maxlen := ideal, nonideal_items := nonideal,
          ineff_expands := ineff, noexpand := (noexpand tb \<or> ineff > 1)\<rparr>)\<rparr>)))"

text \<open>\<^verbatim>\<open>HASH_ADD_TO_TABLE\<close> counts the element and adds it to its bucket of the table \<open>t\<close>.\<close>

definition HASH_ADD_TO_TABLE :: "nat \<Rightarrow> nat \<Rightarrow> hash_store \<Rightarrow> hash_store res" where
  "HASH_ADD_TO_TABLE t p u =
     bindR (tableR u t) (\<lambda>tb.
     let b = HASH_TO_BKT (hh_hashv u p) (length (buckets tb)) in
     bindR (push_bkt p (buckets tb ! b) u) (\<lambda>(bk, u).
     let tb = tb\<lparr>num_items := Suc (num_items tb), buckets := (buckets tb)[b := bk]\<rparr>;
         u = u\<lparr>tables := (tables u)(t \<mapsto> tb)\<rparr> in
     if bkt_count bk \<ge> (expand_mult bk + 1) * 10 \<and> \<not> noexpand tb
     then HASH_EXPAND_BUCKETS t u else Inr u))"

definition HASH_APPEND_LIST :: "nat \<Rightarrow> nat \<Rightarrow> hash_store \<Rightarrow> hash_store res" where
  "HASH_APPEND_LIST t p u =
     bindR (tableR u t) (\<lambda>tb.
     let q = tail tb in
     bindR (live u q) (\<lambda>_.
     Inr (u\<lparr>app_prev := (app_prev u)(p := Some q), app_next := (app_next u)(p := None, q := Some p),
            tables := (tables u)(t \<mapsto> tb\<lparr>tail := p\<rparr>)\<rparr>)))"

definition HASH_ADD :: "hash_store \<Rightarrow> nat option \<Rightarrow> u32 \<Rightarrow> nat \<Rightarrow> (hash_store \<times> nat option) res" where
  "HASH_ADD u head key p =
     bindR (live u p) (\<lambda>_.
     let u = u\<lparr>hh_hashv := (hh_hashv u)(p := HASH_JEN key), hh_key := (hh_key u)(p := key)\<rparr> in
     case head of
       None \<Rightarrow>
         let t = next_table u;
             u = u\<lparr>app_next := (app_next u)(p := None), app_prev := (app_prev u)(p := None),
                   hh_tbl := (hh_tbl u)(p := t), tables := (tables u)(t \<mapsto> HASH_MAKE_TABLE p),
                   next_table := Suc t\<rparr> in
         bindR (HASH_ADD_TO_TABLE t p u) (\<lambda>u. Inr (u, Some p))
     | Some h \<Rightarrow>
         bindR (live u h) (\<lambda>_.
         let t = hh_tbl u h; u = u\<lparr>hh_tbl := (hh_tbl u)(p := t)\<rparr> in
         bindR (HASH_APPEND_LIST t p u) (\<lambda>u.
         bindR (HASH_ADD_TO_TABLE t p u) (\<lambda>u. Inr (u, Some h)))))"

text \<open>A link of a neighbour is changed.\<close>

definition set_app_next :: "nat \<Rightarrow> nat option \<Rightarrow> hash_store \<Rightarrow> hash_store res" where
  "set_app_next q v u = bindR (live u q) (\<lambda>_. Inr (u\<lparr>app_next := (app_next u)(q := v)\<rparr>))"

definition set_app_prev :: "nat \<Rightarrow> nat option \<Rightarrow> hash_store \<Rightarrow> hash_store res" where
  "set_app_prev q v u = bindR (live u q) (\<lambda>_. Inr (u\<lparr>app_prev := (app_prev u)(q := v)\<rparr>))"

definition set_hh_next :: "nat \<Rightarrow> nat option \<Rightarrow> hash_store \<Rightarrow> hash_store res" where
  "set_hh_next q v u = bindR (live u q) (\<lambda>_. Inr (u\<lparr>hh_next := (hh_next u)(q := v)\<rparr>))"

definition set_hh_prev :: "nat \<Rightarrow> nat option \<Rightarrow> hash_store \<Rightarrow> hash_store res" where
  "set_hh_prev q v u = bindR (live u q) (\<lambda>_. Inr (u\<lparr>hh_prev := (hh_prev u)(q := v)\<rparr>))"

definition HASH_DEL_IN_BKT :: "bucket \<Rightarrow> nat \<Rightarrow> hash_store \<Rightarrow> (bucket \<times> hash_store) res" where
  "HASH_DEL_IN_BKT bk p u =
     bindR (case hh_prev u p of None \<Rightarrow> Inr u | Some q \<Rightarrow> set_hh_next q (hh_next u p) u) (\<lambda>u.
     bindR (case hh_next u p of None \<Rightarrow> Inr u | Some q \<Rightarrow> set_hh_prev q (hh_prev u p) u) (\<lambda>u.
     Inr (bk\<lparr>hh_head := (if hh_head bk = Some p then hh_next u p else hh_head bk),
             bkt_count := bkt_count bk - 1\<rparr>, u)))"

text \<open>
  \<^verbatim>\<open>HASH_DELETE\<close>: the element without neighbours is taken for the only one, and the table that the
  head belongs to is freed. Otherwise its links are bypassed in the list and in the bucket; the table
  is found through the head once more after it was changed.
\<close>

definition HASH_DELETE :: "hash_store \<Rightarrow> nat option \<Rightarrow> nat \<Rightarrow> (hash_store \<times> nat option) res" where
  "HASH_DELETE u head p =
     bindR (live u p) (\<lambda>_.
     bindR (derefR head) (\<lambda>h.
     bindR (live u h) (\<lambda>_.
     bindR (tableR u (hh_tbl u h)) (\<lambda>tb.
     if app_prev u p = None \<and> app_next u p = None
     then Inr (u\<lparr>tables := (tables u)(hh_tbl u h := None)\<rparr>, None)
     else
       bindR (if p = tail tb then
                bindR (case app_prev u p of None \<Rightarrow> Inl Crash_undefined | Some q \<Rightarrow> Inr q) (\<lambda>q.
                Inr (u\<lparr>tables := (tables u)(hh_tbl u h \<mapsto> tb\<lparr>tail := q\<rparr>)\<rparr>))
              else Inr u) (\<lambda>u.
       bindR (case app_prev u p of
                None \<Rightarrow> Inr (u, app_next u p)
              | Some q \<Rightarrow> bindR (set_app_next q (app_next u p) u) (\<lambda>u. Inr (u, head))) (\<lambda>(u, head).
       bindR (case app_next u p of
                None \<Rightarrow> Inr u
              | Some r \<Rightarrow> set_app_prev r (app_prev u p) u) (\<lambda>u.
       bindR (derefR head) (\<lambda>h.
       bindR (live u h) (\<lambda>_.
       let t = hh_tbl u h in
       bindR (tableR u t) (\<lambda>tb.
       let b = HASH_TO_BKT (hh_hashv u p) (length (buckets tb)) in
       bindR (HASH_DEL_IN_BKT (buckets tb ! b) p u) (\<lambda>(bk, u).
       Inr (u\<lparr>tables := (tables u)(t \<mapsto>
              tb\<lparr>buckets := (buckets tb)[b := bk], num_items := num_items tb - 1\<rparr>)\<rparr>, head))))))))))))"

section \<open>Doubly linked lists\<close>

text \<open>
  Both orders of a table are doubly linked lists: \<open>dseg nx pv a p xs q\<close> says that the links \<open>nx\<close> lead
  from \<open>p\<close> through exactly \<open>xs\<close> to \<open>q\<close>, and \<open>pv\<close> back to \<open>a\<close>.
\<close>

fun dseg ::
    "(nat \<Rightarrow> nat option) \<Rightarrow> (nat \<Rightarrow> nat option) \<Rightarrow> nat option \<Rightarrow> nat option \<Rightarrow> nat list \<Rightarrow> nat option \<Rightarrow> bool" where
  "dseg nx pv a p [] q \<longleftrightarrow> p = q"
| "dseg nx pv a p (x # xs) q \<longleftrightarrow> p = Some x \<and> pv x = a \<and> dseg nx pv (Some x) (nx x) xs q"

abbreviation dll ::
    "(nat \<Rightarrow> nat option) \<Rightarrow> (nat \<Rightarrow> nat option) \<Rightarrow> nat option \<Rightarrow> nat list \<Rightarrow> bool" where
  "dll nx pv p xs \<equiv> dseg nx pv None p xs None"

definition last_link :: "nat option \<Rightarrow> nat list \<Rightarrow> nat option" where
  "last_link a xs = (if xs = [] then a else Some (last xs))"

lemma last_link_simps [simp]:
  "last_link a [] = a" "last_link a (x # xs) = last_link (Some x) xs" "last_link a (xs @ [x]) = Some x"
  by (auto simp: last_link_def)

definition head_link :: "nat list \<Rightarrow> nat option \<Rightarrow> nat option" where
  "head_link xs q = (case xs of [] \<Rightarrow> q | x # _ \<Rightarrow> Some x)"

lemma head_link_simps [simp]: "head_link [] q = q" "head_link (x # xs) q = Some x"
  by (auto simp: head_link_def)

lemma dseg_append:
  "dseg nx pv a p (xs @ ys) q \<longleftrightarrow> (\<exists>m. dseg nx pv a p xs m \<and> dseg nx pv (last_link a xs) m ys q)"
  by (induction xs arbitrary: a p) auto

lemma dseg_cong:
  "(\<And>x. x \<in> set xs \<Longrightarrow> nx x = nx' x \<and> pv x = pv' x) \<Longrightarrow> dseg nx pv a p xs q \<longleftrightarrow> dseg nx' pv' a p xs q"
  by (induction xs arbitrary: a p) auto

lemma dseg_same:
  assumes "dseg nx pv a p xs q" and "\<And>x. x \<in> set xs \<Longrightarrow> nx' x = nx x"
    and "\<And>x. x \<in> set xs \<Longrightarrow> pv' x = pv x"
  shows "dseg nx' pv' a p xs q"
  using assms(1) dseg_cong [of xs nx nx' pv pv'] assms(2,3) by metis

lemma dseg_frame [simp]:
  assumes "x \<notin> set xs"
  shows "dseg (nx(x := v)) pv a p xs q \<longleftrightarrow> dseg nx pv a p xs q"
    and "dseg nx (pv(x := w)) a p xs q \<longleftrightarrow> dseg nx pv a p xs q"
  using assms by (auto intro!: dseg_cong)

lemma dseg_head: "dseg nx pv a p xs q \<Longrightarrow> p = head_link xs q"
  by (cases xs) auto

text \<open>The first link back, and the last link, can be redirected.\<close>

definition relink :: "(nat \<Rightarrow> nat option) \<Rightarrow> nat option \<Rightarrow> nat option \<Rightarrow> nat \<Rightarrow> nat option" where
  "relink f p v = (case p of None \<Rightarrow> f | Some x \<Rightarrow> f(x := v))"

lemma relink_simps [simp]: "relink f None v = f" "relink f (Some x) v = f(x := v)"
  by (auto simp: relink_def)

lemma dseg_first:
  "dseg nx pv a p xs q \<Longrightarrow> distinct xs \<Longrightarrow> xs \<noteq> [] \<or> p = None \<Longrightarrow> dseg nx (relink pv p b) b p xs q"
  by (cases xs) auto

lemma dseg_last:
  assumes "dseg nx pv a p xs m" and "distinct xs" and "xs \<noteq> []"
  shows "dseg (nx(last xs := q)) pv a p xs q"
proof -
  from assms(3) obtain ys y where xs: "xs = ys @ [y]" by (cases xs rule: rev_cases) auto
  from assms show ?thesis by (auto simp: xs dseg_append)
qed

lemma dseg_at:
  assumes "dseg nx pv a p (xs @ x # ys) q"
  shows "pv x = last_link a xs" and "nx x = head_link ys q"
  using assms by (auto simp: dseg_append dest: dseg_head)

text \<open>The three ways a list changes: an element is put to the front, appended, or taken out.\<close>

lemma dll_push:
  assumes "dll nx pv p xs" and "x \<notin> set xs" and "distinct xs"
  shows "dll (nx(x := p)) (relink (pv(x := None)) p (Some x)) (Some x) (x # xs)"
  using assms by (cases xs) auto

lemma dll_snoc:
  assumes "dll nx pv p xs" and "x \<notin> set xs" and "distinct xs" and "xs \<noteq> []"
  shows "dll (nx(x := None, last xs := Some x)) (pv(x := Some (last xs))) p (xs @ [x])"
proof -
  from assms(4) obtain ys y where xs: "xs = ys @ [y]" by (cases xs rule: rev_cases) auto
  from assms show ?thesis by (auto simp: xs dseg_append fun_upd_twist)
qed

lemma dll_remove:
  assumes "dll nx pv p (xs @ x # ys)" and "distinct (xs @ x # ys)"
  shows "dll (relink nx (pv x) (nx x)) (relink pv (nx x) (pv x)) (if pv x = None then nx x else p) (xs @ ys)"
proof -
  from assms(1) have seg: "dll nx pv p (xs @ x # ys)" .
  note at = dseg_at [OF seg]
  show ?thesis
  proof (cases xs rule: rev_cases)
    case Nil
    then show ?thesis using assms at by (cases ys) auto
  next
    case (snoc zs z)
    then show ?thesis using assms at by (cases ys) (auto simp: dseg_append)
  qed
qed

section \<open>What a table represents\<close>

text \<open>
  \<open>chains u bks S\<close>: the buckets hold exactly the elements \<open>S\<close>, each in the bucket of its hash value.
  \<open>represents u head xs\<close>: the table that \<open>head\<close> names has the elements \<open>xs\<close> in this order, with
  different keys.
\<close>

definition chains :: "hash_store \<Rightarrow> bucket list \<Rightarrow> nat set \<Rightarrow> bool" where
  "chains u bks S \<longleftrightarrow> bks \<noteq> [] \<and> (\<forall>b<length bks. \<exists>cs. dll (hh_next u) (hh_prev u) (hh_head (bks ! b)) cs \<and>
     distinct cs \<and> set cs = {x \<in> S. HASH_TO_BKT (hh_hashv u x) (length bks) = b})"

definition table_of :: "hash_store \<Rightarrow> nat list \<Rightarrow> nat" where
  "table_of u xs = hh_tbl u (hd xs)"

definition represents :: "hash_store \<Rightarrow> nat option \<Rightarrow> nat list \<Rightarrow> bool" where
  "represents u head xs \<longleftrightarrow>
     distinct xs \<and> inj_on (hh_key u) (set xs) \<and> dll (app_next u) (app_prev u) head xs \<and>
     (\<forall>x\<in>set xs. alive u x \<and> hh_hashv u x = HASH_JEN (hh_key u x) \<and> hh_tbl u x = table_of u xs) \<and>
     (xs \<noteq> [] \<longrightarrow> (\<exists>tb. tables u (table_of u xs) = Some tb \<and> tail tb = last xs \<and>
        num_items tb = length xs \<and> chains u (buckets tb) (set xs)))"

definition store_ok :: "hash_store \<Rightarrow> bool" where
  "store_ok u \<longleftrightarrow> (\<forall>x. alive u x \<longrightarrow> x < brk u) \<and> (\<forall>t tb. tables u t = Some tb \<longrightarrow> t < next_table u)"

lemma HASH_TO_BKT_less [simp]: "0 < n \<Longrightarrow> HASH_TO_BKT h n < n"
  by (simp add: HASH_TO_BKT_def)

lemma live_Inr [simp]: "alive u x \<Longrightarrow> live u x = Inr ()"
  by (simp add: live_def)

lemma tableR_Some [simp]: "tables u t = Some tb \<Longrightarrow> tableR u t = Inr tb"
  by (simp add: tableR_def)

lemma represents_head: "represents u head xs \<Longrightarrow> head = head_link xs None"
  by (auto simp: represents_def dest: dseg_head)

lemma represents_Nil [simp]: "represents u head [] \<longleftrightarrow> head = None"
  by (auto simp: represents_def)

lemma length_le_brk:
  assumes "store_ok u" and "distinct cs" and "\<And>x. x \<in> set cs \<Longrightarrow> alive u x"
  shows "length cs < Suc (brk u)"
proof -
  have "set cs \<subseteq> {..<brk u}" using assms(1,3) by (auto simp: store_ok_def)
  then have "card (set cs) \<le> brk u" using card_mono [of "{..<brk u}"] by simp
  then show ?thesis using assms(2) by (simp add: distinct_card)
qed

section \<open>Lookup\<close>

lemma HASH_FIND_IN_BKT_chain:
  "dseg (hh_next u) pv a p cs None \<Longrightarrow> (\<And>x. x \<in> set cs \<Longrightarrow> alive u x) \<Longrightarrow> length cs < fuel \<Longrightarrow>
   HASH_FIND_IN_BKT fuel u k hv p = Inr (find (\<lambda>x. hh_hashv u x = hv \<and> hh_key u x = k) cs)"
proof (induction cs arbitrary: fuel a p)
  case Nil
  then show ?case by simp
next
  case (Cons c cs)
  from Cons.prems(3) obtain f where fuel: "fuel = Suc f" "length cs < f" by (cases fuel) auto
  have "HASH_FIND_IN_BKT f u k hv (hh_next u c) = Inr (find (\<lambda>x. hh_hashv u x = hv \<and> hh_key u x = k) cs)"
    by (rule Cons.IH [OF _ _ fuel(2)]) (use Cons.prems in auto)
  then show ?case using Cons.prems(1,2) by (simp add: fuel)
qed

lemma find_append: "find P (xs @ ys) = (case find P xs of None \<Rightarrow> find P ys | Some x \<Rightarrow> Some x)"
  by (induction xs) auto

lemma find_unique:
  assumes "\<And>x. x \<in> set xs \<and> P x \<longleftrightarrow> x \<in> set ys \<and> Q x"
    and "\<And>x y. x \<in> set ys \<Longrightarrow> y \<in> set ys \<Longrightarrow> Q x \<Longrightarrow> Q y \<Longrightarrow> x = y"
  shows "find P xs = find Q ys"
proof (cases "find Q ys")
  case None
  then have "find P xs = None" using assms(1) by (auto simp: find_None_iff)
  then show ?thesis using None by simp
next
  case (Some y)
  then have y: "y \<in> set ys" "Q y" by (auto simp: find_Some_iff)
  show ?thesis
  proof (cases "find P xs")
    case None
    then show ?thesis using assms(1) [of y] y by (auto simp: find_None_iff)
  next
    case (Some x)
    then have "x \<in> set xs" "P x" by (auto simp: find_Some_iff)
    then show ?thesis using assms y Some \<open>find Q ys = Some y\<close> by auto
  qed
qed

lemma HASH_FIND_represents:
  assumes ok: "store_ok u" and rep: "represents u head xs"
  shows "HASH_FIND u head k = Inr (find (\<lambda>x. hh_key u x = k) xs)"
proof (cases xs)
  case Nil
  then show ?thesis using rep by (simp add: HASH_FIND_def)
next
  case (Cons h ys)
  then have head: "head = Some h" and h: "alive u h" "hh_tbl u h = table_of u xs"
    using rep represents_head by (auto simp: represents_def)
  from rep Cons obtain tb where tb: "tables u (table_of u xs) = Some tb" "chains u (buckets tb) (set xs)"
    by (auto simp: represents_def)
  define n where "n = length (buckets tb)"
  let ?b = "HASH_TO_BKT (HASH_JEN k) n"
  have "?b < n" using tb(2) by (simp add: chains_def n_def)
  then obtain cs where cs: "dll (hh_next u) (hh_prev u) (hh_head (buckets tb ! ?b)) cs" "distinct cs"
    "set cs = {x \<in> set xs. HASH_TO_BKT (hh_hashv u x) n = ?b}"
    using tb(2) unfolding chains_def n_def by blast
  have al: "\<And>x. x \<in> set cs \<Longrightarrow> alive u x" using cs(3) rep by (auto simp: represents_def)
  have "HASH_FIND u head k = Inr (find (\<lambda>x. hh_hashv u x = HASH_JEN k \<and> hh_key u x = k) cs)"
    using HASH_FIND_IN_BKT_chain [OF cs(1) al length_le_brk [OF ok cs(2) al]] head h tb(1)
    by (simp add: HASH_FIND_def n_def)
  also have "find (\<lambda>x. hh_hashv u x = HASH_JEN k \<and> hh_key u x = k) cs = find (\<lambda>x. hh_key u x = k) xs"
    by (rule find_unique) (use rep cs(3) in \<open>auto simp: represents_def dest: inj_onD\<close>)
  finally show ?thesis .
qed

section \<open>Insertion into the buckets\<close>

text \<open>What an operation leaves alone: everything but the elements \<open>X\<close> and the table \<open>t\<close>.\<close>

definition touches :: "nat set \<Rightarrow> nat \<Rightarrow> hash_store \<Rightarrow> hash_store \<Rightarrow> bool" where
  "touches X t u u' \<longleftrightarrow> alive u' = alive u \<and> brk u' = brk u \<and> next_table u \<le> next_table u' \<and>
     (\<forall>s. s \<noteq> t \<longrightarrow> tables u' s = tables u s) \<and>
     (\<forall>x. x \<notin> X \<longrightarrow> hh_tbl u' x = hh_tbl u x \<and> app_prev u' x = app_prev u x \<and> app_next u' x = app_next u x \<and>
        hh_prev u' x = hh_prev u x \<and> hh_next u' x = hh_next u x \<and> hh_key u' x = hh_key u x \<and>
        hh_hashv u' x = hh_hashv u x)"

text \<open>A change of the bucket links of the elements \<open>X\<close> only.\<close>

definition relinks :: "nat set \<Rightarrow> hash_store \<Rightarrow> hash_store \<Rightarrow> bool" where
  "relinks X u u' \<longleftrightarrow> (\<exists>nx pv. u' = u\<lparr>hh_next := nx, hh_prev := pv\<rparr> \<and>
     (\<forall>x. x \<notin> X \<longrightarrow> pv x = hh_prev u x \<and> nx x = hh_next u x))"

lemma relinks_refl [simp]: "relinks X u u"
  unfolding relinks_def by (intro exI [of _ "hh_next u"] exI [of _ "hh_prev u"]) simp

lemma relinks_fields:
  assumes "relinks X u u'"
  shows "alive u' = alive u" "brk u' = brk u" "hh_tbl u' = hh_tbl u" "app_prev u' = app_prev u"
    "app_next u' = app_next u" "hh_key u' = hh_key u" "hh_hashv u' = hh_hashv u" "tables u' = tables u"
    "next_table u' = next_table u" "\<And>x. x \<notin> X \<Longrightarrow> hh_next u' x = hh_next u x"
    "\<And>x. x \<notin> X \<Longrightarrow> hh_prev u' x = hh_prev u x"
  using assms by (auto simp: relinks_def)

lemma relinks_trans:
  assumes "relinks X u v" and "relinks X v w"
  shows "relinks X u w"
proof -
  from assms(1) obtain nx pv where v: "v = u\<lparr>hh_next := nx, hh_prev := pv\<rparr>"
    "\<forall>x. x \<notin> X \<longrightarrow> pv x = hh_prev u x \<and> nx x = hh_next u x"
    unfolding relinks_def by blast
  from assms(2) obtain nx' pv' where w: "w = v\<lparr>hh_next := nx', hh_prev := pv'\<rparr>"
    "\<forall>x. x \<notin> X \<longrightarrow> pv' x = hh_prev v x \<and> nx' x = hh_next v x"
    unfolding relinks_def by blast
  from v w show ?thesis unfolding relinks_def by (intro exI [of _ nx'] exI [of _ pv']) simp
qed

lemma relinks_mono: "relinks X u v \<Longrightarrow> X \<subseteq> Y \<Longrightarrow> relinks Y u v"
  unfolding relinks_def by blast

lemma push_bkt_links:
  assumes "hh_head bk = None \<or> alive u (the (hh_head bk))"
  shows "push_bkt p bk u = Inr (bk\<lparr>hh_head := Some p, bkt_count := Suc (bkt_count bk)\<rparr>,
     u\<lparr>hh_next := (hh_next u)(p := hh_head bk),
       hh_prev := relink ((hh_prev u)(p := None)) (hh_head bk) (Some p)\<rparr>)"
  using assms by (cases "hh_head bk") (auto simp: push_bkt_def live_def)

lemma push_chains:
  assumes ch: "chains u bks S" and p: "p \<notin> S" and al: "\<And>x. x \<in> S \<Longrightarrow> alive u x"
    and b: "b = HASH_TO_BKT (hh_hashv u p) (length bks)"
  obtains bk u' where "push_bkt p (bks ! b) u = Inr (bk, u')"
    and "\<And>bk'. hh_head bk' = hh_head bk \<Longrightarrow> chains u' (bks[b := bk']) (insert p S)"
    and "relinks (insert p S) u u'"
proof -
  let ?n = "length bks"
  have "b < ?n" using ch by (simp add: b chains_def)
  with ch obtain cs where cs: "dll (hh_next u) (hh_prev u) (hh_head (bks ! b)) cs" "distinct cs"
    "set cs = {x \<in> S. HASH_TO_BKT (hh_hashv u x) ?n = b}"
    unfolding chains_def by blast
  let ?h = "hh_head (bks ! b)"
  define u' where "u' = u\<lparr>hh_next := (hh_next u)(p := ?h), hh_prev := relink ((hh_prev u)(p := None)) ?h (Some p)\<rparr>"
  define bk where "bk = (bks ! b)\<lparr>hh_head := Some p, bkt_count := Suc (bkt_count (bks ! b))\<rparr>"
  have h: "?h = head_link cs None" using cs(1) by (rule dseg_head)
  have hS: "?h = None \<or> the ?h \<in> set cs" by (cases cs) (auto simp: h)
  then have "?h = None \<or> alive u (the ?h)" using al cs(3) by auto
  then have push: "push_bkt p (bks ! b) u = Inr (bk, u')"
    by (simp add: push_bkt_links bk_def u'_def)
  have "p \<notin> set cs" using p cs(3) by auto
  then have pushed: "dll (hh_next u') (hh_prev u') (Some p) (p # cs)"
    unfolding u'_def using dll_push [OF cs(1) _ cs(2)] by simp
  have same: "hh_next u' x = hh_next u x \<and> hh_prev u' x = hh_prev u x" if "x \<notin> insert p (set cs)" for x
    using that hS by (cases ?h) (auto simp: u'_def)
  have "chains u' (bks[b := bk']) (insert p S)" if bk': "hh_head bk' = hh_head bk" for bk'
    unfolding chains_def
  proof (intro conjI allI impI)
    show "bks[b := bk'] \<noteq> []" using \<open>b < ?n\<close> by auto
    fix c assume c: "c < length (bks[b := bk'])"
    show "\<exists>cs. dll (hh_next u') (hh_prev u') (hh_head (bks[b := bk'] ! c)) cs \<and> distinct cs \<and>
        set cs = {x \<in> insert p S. HASH_TO_BKT (hh_hashv u' x) (length (bks[b := bk'])) = c}"
    proof (cases "c = b")
      case True
      have "set (p # cs) = {x \<in> insert p S. HASH_TO_BKT (hh_hashv u' x) (length (bks[b := bk'])) = c}"
        using cs(3) b True by (auto simp: u'_def)
      then show ?thesis using pushed \<open>p \<notin> set cs\<close> cs(2) True bk' \<open>b < ?n\<close>
        by (intro exI [of _ "p # cs"]) (simp add: bk_def)
    next
      case False
      from ch c obtain ds where ds: "dll (hh_next u) (hh_prev u) (hh_head (bks ! c)) ds" "distinct ds"
        "set ds = {x \<in> S. HASH_TO_BKT (hh_hashv u x) ?n = c}"
        unfolding chains_def by auto
      have "x \<notin> insert p (set cs)" if "x \<in> set ds" for x using that ds(3) cs(3) False p by auto
      then have "dll (hh_next u') (hh_prev u') (hh_head (bks ! c)) ds"
        using ds(1) same dseg_cong [of ds "hh_next u'" "hh_next u" "hh_prev u'" "hh_prev u"] by blast
      moreover have "set ds = {x \<in> insert p S. HASH_TO_BKT (hh_hashv u' x) (length (bks[b := bk'])) = c}"
        using ds(3) b False by (auto simp: u'_def)
      ultimately show ?thesis using ds(2) False by (intro exI [of _ ds]) simp
    qed
  qed
  moreover have "relinks (insert p S) u u'"
    unfolding relinks_def using same cs(3)
    by (intro exI [of _ "hh_next u'"] exI [of _ "hh_prev u'"]) (auto simp: u'_def)
  ultimately show thesis using push that by blast
qed

lemma count_bkt_head: "count_bkt ideal bk non = (bk', non') \<Longrightarrow> hh_head bk' = hh_head bk"
  by (auto simp: count_bkt_def split: if_splits)

lemma rehash_chain_moves:
  assumes "dseg (hh_next u) pv a p cs None" and "distinct cs" and "set cs \<inter> S = {}"
    and "\<And>x. x \<in> set cs \<union> S \<Longrightarrow> alive u x" and "chains u bks S" and "length cs < fuel"
  shows "\<exists>bks' non' u'. rehash_chain fuel ideal p (bks, non, u) = Inr (bks', non', u') \<and>
     length bks' = length bks \<and> chains u' bks' (S \<union> set cs) \<and> relinks (S \<union> set cs) u u'"
  using assms
proof (induction cs arbitrary: a p fuel bks non u S)
  case Nil
  then show ?case by simp
next
  case (Cons c cs)
  from Cons.prems(6) obtain f where fuel: "fuel = Suc f" "length cs < f" by (cases fuel) auto
  let ?b = "HASH_TO_BKT (hh_hashv u c) (length bks)"
  have p: "p = Some c" and seg: "dseg (hh_next u) pv (Some c) (hh_next u c) cs None"
    using Cons.prems(1) by auto
  have c: "c \<notin> S" "c \<notin> set cs" using Cons.prems(2,3) by auto
  obtain bk v where push: "push_bkt c (bks ! ?b) u = Inr (bk, v)"
    and ch: "\<And>bk'. hh_head bk' = hh_head bk \<Longrightarrow> chains v (bks[?b := bk']) (insert c S)"
    and re: "relinks (insert c S) u v"
    using push_chains [OF Cons.prems(5) c(1) _ refl] Cons.prems(4) by blast
  obtain bk' non1 where cnt: "count_bkt ideal bk non = (bk', non1)" by (cases "count_bkt ideal bk non")
  note fields = relinks_fields [OF re]
  have seg': "dseg (hh_next v) pv (Some c) (hh_next u c) cs None"
    by (rule dseg_same [OF seg], rule fields(10)) (use Cons.prems(3) c(2) in auto)
  have ch': "chains v (bks[?b := bk']) (insert c S)" using ch count_bkt_head [OF cnt] by blast
  have "\<exists>bks' non' u'. rehash_chain f ideal (hh_next u c) (bks[?b := bk'], non1, v) = Inr (bks', non', u') \<and>
     length bks' = length (bks[?b := bk']) \<and> chains u' bks' (insert c S \<union> set cs) \<and>
     relinks (insert c S \<union> set cs) v u'"
    by (rule Cons.IH [OF seg' _ _ _ ch' fuel(2)]) (use Cons.prems c fields(1) in auto)
  then obtain bks' non' u' where rest: "rehash_chain f ideal (hh_next u c) (bks[?b := bk'], non1, v) = Inr (bks', non', u')"
    "length bks' = length bks" "chains u' bks' (insert c S \<union> set cs)" "relinks (insert c S \<union> set cs) v u'"
    by auto
  have "relinks (S \<union> set (c # cs)) u u'"
    by (rule relinks_trans [OF relinks_mono [OF re] relinks_mono [OF rest(4)]]) auto
  moreover have "rehash_chain fuel ideal p (bks, non, u) = Inr (bks', non', u')"
    using Cons.prems(4) push cnt rest(1) by (simp add: p fuel(1) Let_def)
  moreover have "insert c S \<union> set cs = S \<union> set (c # cs)" by auto
  ultimately show ?case using rest(2,3) by metis
qed

lemma rehash_all:
  assumes "list_all2 (\<lambda>bk cs. dseg (hh_next u) pv None (hh_head bk) cs None) bs css"
    and "distinct (concat css)" and "set (concat css) \<inter> S = {}"
    and "\<And>x. x \<in> set (concat css) \<union> S \<Longrightarrow> alive u x" and "chains u bks S" and "store_ok u"
  shows "\<exists>bks' non' u'. foldR (\<lambda>bk s. rehash_chain (Suc (brk u)) ideal (hh_head bk) s) bs (bks, non, u) =
     Inr (bks', non', u') \<and> length bks' = length bks \<and> chains u' bks' (S \<union> set (concat css)) \<and>
     relinks (S \<union> set (concat css)) u u'"
  using assms
proof (induction css arbitrary: bs bks non u S rule: list.induct)
  case Nil
  from Nil.prems(1) have "bs = []" by (cases bs) simp_all
  then show ?case using Nil by auto
next
  case (Cons cs css bs0 bks non u S)
  from Cons.prems(1) obtain bk bs where bs0: "bs0 = bk # bs"
    and seg: "dseg (hh_next u) pv None (hh_head bk) cs None"
    and all: "list_all2 (\<lambda>bk cs. dseg (hh_next u) pv None (hh_head bk) cs None) bs css"
    by (auto simp: list_all2_Cons2)
  have len: "length cs < Suc (brk u)"
    by (rule length_le_brk [OF Cons.prems(6)]) (use Cons.prems in auto)
  have "set cs \<inter> S = {}" "distinct cs" "\<And>x. x \<in> set cs \<union> S \<Longrightarrow> alive u x"
    using Cons.prems(2,3,4) by auto
  note moves = rehash_chain_moves [OF seg this(2,1,3) Cons.prems(5) len]
  obtain bks1 non1 v where one: "rehash_chain (Suc (brk u)) ideal (hh_head bk) (bks, non, u) = Inr (bks1, non1, v)"
    "length bks1 = length bks" "chains v bks1 (S \<union> set cs)" and re: "relinks (S \<union> set cs) u v"
    using moves [of ideal non] by blast
  note fields = relinks_fields [OF re]
  have segs: "list_all2 (\<lambda>bk cs. dseg (hh_next v) pv None (hh_head bk) cs None) bs css"
  proof (rule list.rel_mono_strong [OF all])
    fix bk' cs' assume "cs' \<in> set css" "dseg (hh_next u) pv None (hh_head bk') cs' None"
    moreover have "x \<notin> S \<union> set cs" if "x \<in> set cs'" for x
      using that \<open>cs' \<in> set css\<close> Cons.prems(2,3) by auto
    ultimately show "dseg (hh_next v) pv None (hh_head bk') cs' None"
      using fields(10) by (auto elim!: dseg_same)
  qed
  have "store_ok v" using Cons.prems(6) fields by (simp add: store_ok_def)
  then have "\<exists>bks' non' u'. foldR (\<lambda>bk s. rehash_chain (Suc (brk v)) ideal (hh_head bk) s) bs (bks1, non1, v) =
     Inr (bks', non', u') \<and> length bks' = length bks1 \<and> chains u' bks' ((S \<union> set cs) \<union> set (concat css)) \<and>
     relinks ((S \<union> set cs) \<union> set (concat css)) v u'"
    by (intro Cons.IH [OF segs _ _ _ one(3)]) (use Cons.prems fields(1) in auto)
  then obtain bks' non' u' where rest:
    "foldR (\<lambda>bk s. rehash_chain (Suc (brk u)) ideal (hh_head bk) s) bs (bks1, non1, v) = Inr (bks', non', u')"
    "length bks' = length bks" "chains u' bks' (S \<union> set (concat (cs # css)))"
    "relinks (S \<union> set (concat (cs # css))) v u'"
    using one(2) fields(2) by (auto simp: Un_assoc)
  have "relinks (S \<union> set (concat (cs # css))) u u'"
    by (rule relinks_trans [OF relinks_mono [OF re] rest(4)]) auto
  then show ?case using one(1) rest(1,2,3) by (auto simp: bs0)
qed

text \<open>
  Every list of buckets that holds elements has its chains side by side; they partition the elements.
\<close>

lemma chains_lists:
  assumes "chains u bks S"
  obtains css where "list_all2 (\<lambda>bk cs. dll (hh_next u) (hh_prev u) (hh_head bk) cs) bks css"
    and "distinct (concat css)" and "set (concat css) = S"
proof -
  let ?n = "length bks"
  from assms have "\<forall>b. \<exists>cs. b < ?n \<longrightarrow> dll (hh_next u) (hh_prev u) (hh_head (bks ! b)) cs \<and> distinct cs \<and>
      set cs = {x \<in> S. HASH_TO_BKT (hh_hashv u x) ?n = b}"
    unfolding chains_def by blast
  from choice [OF this] obtain f where f: "\<And>b. b < ?n \<Longrightarrow> dll (hh_next u) (hh_prev u) (hh_head (bks ! b)) (f b)"
    "\<And>b. b < ?n \<Longrightarrow> distinct (f b)" "\<And>b. b < ?n \<Longrightarrow> set (f b) = {x \<in> S. HASH_TO_BKT (hh_hashv u x) ?n = b}"
    by blast
  let ?css = "map f [0..<?n]"
  have "list_all2 (\<lambda>bk cs. dll (hh_next u) (hh_prev u) (hh_head bk) cs) bks ?css"
    using f(1) by (simp add: list_all2_conv_all_nth)
  moreover have "distinct (concat (map f [0..<m]))" if "m \<le> ?n" for m
    using that
  proof (induction m)
    case 0
    then show ?case by simp
  next
    case (Suc m)
    have "set (concat (map f [0..<m])) \<inter> set (f m) = {}" using f(3) Suc.prems by fastforce
    then show ?case using Suc f(2) by simp
  qed
  moreover have "set (concat ?css) = S"
  proof -
    have "0 < ?n" using assms by (auto simp: chains_def)
    then show ?thesis using f(3) by fastforce
  qed
  ultimately show thesis using that [of ?css] by blast
qed

lemma chains_empty: "chains u (replicate n empty_bucket) {}" if "0 < n"
  using that by (auto simp: chains_def empty_bucket_def intro!: exI [of _ "[]"])

lemma chains_tables [simp]: "chains (u\<lparr>tables := ts\<rparr>) bks S = chains u bks S"
  by (simp add: chains_def)

lemma HASH_EXPAND_BUCKETS_chains:
  assumes ok: "store_ok u" and tb: "tables u t = Some tb" and ch: "chains u (buckets tb) S"
    and al: "\<And>x. x \<in> S \<Longrightarrow> alive u x"
  shows "\<exists>u' tb'. HASH_EXPAND_BUCKETS t u = Inr (u'\<lparr>tables := (tables u)(t \<mapsto> tb')\<rparr>) \<and>
     relinks S u u' \<and> tail tb' = tail tb \<and> num_items tb' = num_items tb \<and> chains u' (buckets tb') S"
proof -
  from chains_lists [OF ch] obtain css where
    css: "list_all2 (\<lambda>bk cs. dll (hh_next u) (hh_prev u) (hh_head bk) cs) (buckets tb) css"
    and dist: "distinct (concat css)" and S: "set (concat css) = S" by blast
  let ?n = "2 * length (buckets tb)"
  define ideal where "ideal = num_items tb div ?n + (if num_items tb mod ?n \<noteq> 0 then 1 else 0)"
  have "0 < ?n" using ch by (auto simp: chains_def)
  from rehash_all [OF css dist _ _ chains_empty [OF this] ok, of ideal 0] al S
  obtain bks' non' u' where rest:
    "foldR (\<lambda>bk s. rehash_chain (Suc (brk u)) ideal (hh_head bk) s) (buckets tb) (replicate ?n empty_bucket, 0, u) =
      Inr (bks', non', u')" "chains u' bks' S" "relinks S u u'"
    by auto
  define ineff where "ineff = (if non' > num_items tb div 2 then Suc (ineff_expands tb) else 0)"
  define tb' where "tb' = tb\<lparr>buckets := bks', ideal_chain_maxlen := ideal, nonideal_items := non',
    ineff_expands := ineff, noexpand := (noexpand tb \<or> ineff > 1)\<rparr>"
  have "HASH_EXPAND_BUCKETS t u = Inr (u'\<lparr>tables := (tables u)(t \<mapsto> tb')\<rparr>)"
    using rest(1) relinks_fields(8) [OF rest(3)] tb
    unfolding HASH_EXPAND_BUCKETS_def ideal_def [symmetric] tb'_def ineff_def
    by (simp add: Let_def ideal_def)
  then show ?thesis using rest(2,3) by (intro exI [of _ u'] exI [of _ tb']) (simp add: tb'_def)
qed

lemma HASH_ADD_TO_TABLE_chains:
  assumes ok: "store_ok u" and tb: "tables u t = Some tb" and ch: "chains u (buckets tb) S"
    and al: "\<And>x. x \<in> insert p S \<Longrightarrow> alive u x" and p: "p \<notin> S"
  shows "\<exists>u' tb'. HASH_ADD_TO_TABLE t p u = Inr (u'\<lparr>tables := (tables u)(t \<mapsto> tb')\<rparr>) \<and>
     relinks (insert p S) u u' \<and> tail tb' = tail tb \<and> num_items tb' = Suc (num_items tb) \<and>
     chains u' (buckets tb') (insert p S)"
proof -
  let ?b = "HASH_TO_BKT (hh_hashv u p) (length (buckets tb))"
  obtain bk v where push: "push_bkt p (buckets tb ! ?b) u = Inr (bk, v)"
    and chv: "\<And>bk'. hh_head bk' = hh_head bk \<Longrightarrow> chains v ((buckets tb)[?b := bk']) (insert p S)"
    and re: "relinks (insert p S) u v"
    using push_chains [OF ch p _ refl] al by blast
  define tb1 where "tb1 = tb\<lparr>num_items := Suc (num_items tb), buckets := (buckets tb)[?b := bk]\<rparr>"
  define w where "w = v\<lparr>tables := (tables u)(t \<mapsto> tb1)\<rparr>"
  note fields = relinks_fields [OF re]
  have run: "HASH_ADD_TO_TABLE t p u =
      (if bkt_count bk \<ge> (expand_mult bk + 1) * 10 \<and> \<not> noexpand tb1 then HASH_EXPAND_BUCKETS t w else Inr w)"
    using push tb fields(8) by (simp add: HASH_ADD_TO_TABLE_def Let_def tb1_def w_def)
  show ?thesis
  proof (cases "bkt_count bk \<ge> (expand_mult bk + 1) * 10 \<and> \<not> noexpand tb1")
    case False
    then show ?thesis using run re chv [OF refl]
      by (intro exI [of _ v] exI [of _ tb1]) (auto simp: w_def tb1_def)
  next
    case True
    have okw: "store_ok w" using ok tb fields by (auto simp: store_ok_def w_def)
    have tw: "tables w t = Some tb1" by (simp add: w_def)
    have chw: "chains w (buckets tb1) (insert p S)" using chv [OF refl] by (simp add: w_def tb1_def)
    have alw: "\<And>x. x \<in> insert p S \<Longrightarrow> alive w x" using al fields(1) by (simp add: w_def)
    from HASH_EXPAND_BUCKETS_chains [OF okw tw chw alw] obtain x tb' where
      ex: "HASH_EXPAND_BUCKETS t w = Inr (x\<lparr>tables := (tables w)(t \<mapsto> tb')\<rparr>)" "relinks (insert p S) w x"
      "tail tb' = tail tb1" "num_items tb' = num_items tb1" "chains x (buckets tb') (insert p S)" by blast
    define x' where "x' = x\<lparr>tables := tables u\<rparr>"
    have "relinks (insert p S) v x'"
    proof -
      from ex(2) obtain nx pv where x: "x = w\<lparr>hh_next := nx, hh_prev := pv\<rparr>"
        "\<forall>y. y \<notin> insert p S \<longrightarrow> pv y = hh_prev w y \<and> nx y = hh_next w y"
        unfolding relinks_def by blast
      then show ?thesis unfolding relinks_def using fields(8)
        by (intro exI [of _ nx] exI [of _ pv]) (simp add: x'_def w_def)
    qed
    from relinks_trans [OF re this] have "relinks (insert p S) u x'" .
    moreover have "x\<lparr>tables := (tables w)(t \<mapsto> tb')\<rparr> = x'\<lparr>tables := (tables u)(t \<mapsto> tb')\<rparr>"
      by (simp add: x'_def w_def)
    ultimately show ?thesis using True run ex
      by (intro exI [of _ x'] exI [of _ tb']) (simp add: x'_def tb1_def)
  qed
qed

definition added_table :: "hash_store \<Rightarrow> nat list \<Rightarrow> nat" where
  "added_table u xs = (if xs = [] then next_table u else table_of u xs)"

text \<open>The state of the handle's fields when the element is about to enter its bucket.\<close>

lemma HASH_ADD_finish:
  assumes ok: "store_ok v" and t: "tables v t = Some tb"
    and ch: "chains v (buckets tb) (set xs)" and n: "num_items tb = length xs"
    and al: "\<And>x. x \<in> set (xs @ [p]) \<Longrightarrow> alive v x" and p: "p \<notin> set xs" and dist: "distinct xs"
    and inj: "inj_on (hh_key v) (set (xs @ [p]))" and seg: "dll (app_next v) (app_prev v) head (xs @ [p])"
    and hv: "\<And>x. x \<in> set (xs @ [p]) \<Longrightarrow> hh_hashv v x = HASH_JEN (hh_key v x) \<and> hh_tbl v x = t"
    and tl: "tail tb = p"
  shows "\<exists>u'. HASH_ADD_TO_TABLE t p v = Inr u' \<and> represents u' head (xs @ [p]) \<and> store_ok u' \<and>
     hh_key u' = hh_key v \<and> touches (insert p (set xs)) t v u' \<and> table_of u' (xs @ [p]) = t"
proof -
  from HASH_ADD_TO_TABLE_chains [OF ok t ch _ p] al obtain w tb' where
    w: "HASH_ADD_TO_TABLE t p v = Inr (w\<lparr>tables := (tables v)(t \<mapsto> tb')\<rparr>)" "relinks (insert p (set xs)) v w"
    "tail tb' = tail tb" "num_items tb' = Suc (num_items tb)" "chains w (buckets tb') (insert p (set xs))"
    by auto
  note f = relinks_fields [OF w(2)]
  let ?u = "w\<lparr>tables := (tables v)(t \<mapsto> tb')\<rparr>"
  have tbl: "table_of ?u (xs @ [p]) = t" using hv f(3) by (cases xs) (auto simp: table_of_def)
  have "store_ok ?u" using ok t f by (auto simp: store_ok_def)
  moreover have "represents ?u head (xs @ [p])"
    unfolding represents_def tbl using dist p inj seg al hv f w(3-5) n tl by (auto simp: inj_on_def)
  moreover have "touches (insert p (set xs)) t v ?u" using f by (auto simp: touches_def)
  ultimately show ?thesis using w(1) f(6) tbl by auto
qed

lemma touches_trans: "touches X t u v \<Longrightarrow> touches X t v w \<Longrightarrow> touches X t u w"
  unfolding touches_def by (auto intro: order_trans)

lemma HASH_ADD_represents:
  assumes ok: "store_ok u" and rep: "represents u head xs" and al: "alive u p" and p: "p \<notin> set xs"
    and k: "k \<notin> hh_key u ` set xs"
  shows "\<exists>u' head'. HASH_ADD u head k p = Inr (u', head') \<and> represents u' head' (xs @ [p]) \<and> store_ok u' \<and>
     hh_key u' = (hh_key u)(p := k) \<and> touches (insert p (set xs)) (added_table u xs) u u' \<and>
     table_of u' (xs @ [p]) = added_table u xs"
proof (cases "xs = []")
  case True
  define t where "t = next_table u"
  define v where "v = u\<lparr>hh_hashv := (hh_hashv u)(p := HASH_JEN k), hh_key := (hh_key u)(p := k),
    app_next := (app_next u)(p := None), app_prev := (app_prev u)(p := None), hh_tbl := (hh_tbl u)(p := t),
    tables := (tables u)(t \<mapsto> HASH_MAKE_TABLE p), next_table := Suc t\<rparr>"
  have head: "head = None" using rep True by simp
  have run: "HASH_ADD u head k p = bindR (HASH_ADD_TO_TABLE t p v) (\<lambda>u. Inr (u, Some p))"
    using al by (simp add: HASH_ADD_def head v_def t_def Let_def)
  have okv: "store_ok v" using ok by (auto simp: store_ok_def v_def t_def less_SucI)
  have "\<exists>u'. HASH_ADD_TO_TABLE t p v = Inr u' \<and> represents u' (Some p) ([] @ [p]) \<and> store_ok u' \<and>
     hh_key u' = hh_key v \<and> touches (insert p (set [])) t v u' \<and> table_of u' ([] @ [p]) = t"
    (is "\<exists>u'. ?done u'")
    by (rule HASH_ADD_finish [OF okv, where tb = "HASH_MAKE_TABLE p"])
      (use al in \<open>auto simp: v_def HASH_MAKE_TABLE_def chains_empty\<close>)
  then obtain u' where u': "?done u'" by (elim exE)
  have "touches (insert p (set [])) t u v" by (auto simp: touches_def v_def t_def)
  with u' have "touches (insert p (set [])) t u u'" using touches_trans by blast
  with u' show ?thesis using True run
    by (intro exI [of _ u'] exI [of _ "Some p"]) (simp add: added_table_def t_def v_def)
next
  case False
  then obtain h where h: "head = Some h" "h \<in> set xs" "h = hd xs"
    using represents_head [OF rep] by (cases xs) auto
  let ?t = "table_of u xs"
  from rep False obtain tb where tb: "tables u ?t = Some tb" "tail tb = last xs" "num_items tb = length xs"
    "chains u (buckets tb) (set xs)" by (auto simp: represents_def)
  define v where "v = u\<lparr>hh_hashv := (hh_hashv u)(p := HASH_JEN k), hh_key := (hh_key u)(p := k),
    hh_tbl := (hh_tbl u)(p := ?t), app_prev := (app_prev u)(p := Some (last xs)),
    app_next := (app_next u)(p := None, last xs := Some p), tables := (tables u)(?t \<mapsto> tb\<lparr>tail := p\<rparr>)\<rparr>"
  have live: "alive u h" "alive u (last xs)" "hh_tbl u h = ?t" "h \<noteq> p"
    using rep h False p by (auto simp: represents_def)
  have run: "HASH_ADD u head k p = bindR (HASH_ADD_TO_TABLE ?t p v) (\<lambda>u. Inr (u, head))"
    using al live tb(1,2) by (simp add: HASH_ADD_def HASH_APPEND_LIST_def h(1) v_def Let_def live_def tableR_def)
  have okv: "store_ok v" using ok tb(1) by (auto simp: store_ok_def v_def)
  have seg: "dll (app_next v) (app_prev v) head (xs @ [p])"
    using dll_snoc [of "app_next u" "app_prev u" head xs p] rep p False by (simp add: represents_def v_def)
  have inj: "inj_on (hh_key v) (set (xs @ [p]))"
    using rep p k by (auto simp: represents_def v_def inj_on_def)
  have ch: "chains v (buckets (tb\<lparr>tail := p\<rparr>)) (set xs)"
  proof -
    have "{x \<in> set xs. HASH_TO_BKT (hh_hashv v x) n = b} = {x \<in> set xs. HASH_TO_BKT (hh_hashv u x) n = b}" for n b
      using p by (auto simp: v_def)
    then show ?thesis using tb(4) by (simp add: chains_def v_def)
  qed
  have "\<exists>u'. HASH_ADD_TO_TABLE ?t p v = Inr u' \<and> represents u' head (xs @ [p]) \<and> store_ok u' \<and>
     hh_key u' = hh_key v \<and> touches (insert p (set xs)) ?t v u' \<and> table_of u' (xs @ [p]) = ?t"
    (is "\<exists>u'. ?done u'")
    by (rule HASH_ADD_finish [OF okv _ ch _ _ p _ inj seg])
      (use rep tb p al in \<open>auto simp: represents_def v_def\<close>)
  then obtain u' where u': "?done u'" by (elim exE)
  have "touches (insert p (set xs)) ?t u v" using False by (auto simp: touches_def v_def)
  with u' have "touches (insert p (set xs)) ?t u u'" using touches_trans by blast
  with u' show ?thesis using False run
    by (intro exI [of _ u'] exI [of _ head]) (simp add: added_table_def v_def)
qed

section \<open>Deletion\<close>

lemma HASH_DEL_IN_BKT_links:
  assumes "\<And>q. hh_prev u p = Some q \<Longrightarrow> alive u q \<and> q \<noteq> p" and "\<And>q. hh_next u p = Some q \<Longrightarrow> alive u q \<and> q \<noteq> p"
  shows "HASH_DEL_IN_BKT bk p u =
     Inr (bk\<lparr>hh_head := (if hh_head bk = Some p then hh_next u p else hh_head bk), bkt_count := bkt_count bk - 1\<rparr>,
          u\<lparr>hh_next := relink (hh_next u) (hh_prev u p) (hh_next u p),
            hh_prev := relink (hh_prev u) (hh_next u p) (hh_prev u p)\<rparr>)"
  using assms by (cases "hh_prev u p"; cases "hh_next u p")
    (auto simp: HASH_DEL_IN_BKT_def set_hh_next_def set_hh_prev_def live_def)

text \<open>An element inside a list has its neighbours in it.\<close>

lemma dll_neighbours:
  assumes "dll nx pv h (xs @ x # ys)" and "distinct (xs @ x # ys)"
  shows "pv x = None \<or> (\<exists>q\<in>set xs. pv x = Some q \<and> q = last xs \<and> q \<noteq> x)"
    and "nx x = None \<or> (\<exists>q\<in>set ys. nx x = Some q \<and> q = hd ys \<and> q \<noteq> x)"
    and "pv x = None \<longleftrightarrow> xs = []" and "nx x = None \<longleftrightarrow> ys = []"
  using dseg_at [OF assms(1)] assms(2) by (auto simp: last_link_def head_link_def split: list.splits)

lemma remove_chains:
  assumes ch: "chains u bks S" and p: "p \<in> S" and al: "\<And>x. x \<in> S \<Longrightarrow> alive u x"
    and b: "b = HASH_TO_BKT (hh_hashv u p) (length bks)"
  obtains bk u' where "HASH_DEL_IN_BKT (bks ! b) p u = Inr (bk, u')"
    and "chains u' (bks[b := bk]) (S - {p})" and "relinks S u u'"
proof -
  let ?n = "length bks"
  have "b < ?n" using ch by (simp add: b chains_def)
  with ch obtain cs where cs: "dll (hh_next u) (hh_prev u) (hh_head (bks ! b)) cs" "distinct cs"
    "set cs = {x \<in> S. HASH_TO_BKT (hh_hashv u x) ?n = b}"
    unfolding chains_def by blast
  from p b cs(3) have "p \<in> set cs" by simp
  then obtain ds es where split: "cs = ds @ p # es" by (auto simp: in_set_conv_decomp)
  note near = dll_neighbours [OF cs(1,2) [unfolded split]]
  define u' where "u' = u\<lparr>hh_next := relink (hh_next u) (hh_prev u p) (hh_next u p),
    hh_prev := relink (hh_prev u) (hh_next u p) (hh_prev u p)\<rparr>"
  define bk where "bk = (bks ! b)\<lparr>hh_head := (if hh_head (bks ! b) = Some p then hh_next u p else hh_head (bks ! b)),
    bkt_count := bkt_count (bks ! b) - 1\<rparr>"
  have alcs: "\<And>x. x \<in> set cs \<Longrightarrow> alive u x" using al cs(3) by auto
  have del: "HASH_DEL_IN_BKT (bks ! b) p u = Inr (bk, u')"
    unfolding u'_def bk_def by (rule HASH_DEL_IN_BKT_links) (use near(1,2) alcs split in auto)
  have front: "hh_head (bks ! b) = Some p \<longleftrightarrow> hh_prev u p = None"
    using near(3) dseg_head [OF cs(1)] cs(2) split by (cases ds) auto
  have removed: "dll (hh_next u') (hh_prev u') (hh_head bk) (ds @ es)"
    using dll_remove [OF cs(1,2) [unfolded split]] front by (simp add: u'_def bk_def)
  have same: "hh_next u' x = hh_next u x \<and> hh_prev u' x = hh_prev u x" if "x \<notin> set cs" for x
    using that near(1,2) split by (auto simp: u'_def relink_def split: option.splits)
  have "chains u' (bks[b := bk]) (S - {p})"
    unfolding chains_def
  proof (intro conjI allI impI)
    show "bks[b := bk] \<noteq> []" using \<open>b < ?n\<close> by auto
    fix c assume c: "c < length (bks[b := bk])"
    show "\<exists>cs. dll (hh_next u') (hh_prev u') (hh_head (bks[b := bk] ! c)) cs \<and> distinct cs \<and>
        set cs = {x \<in> S - {p}. HASH_TO_BKT (hh_hashv u' x) (length (bks[b := bk])) = c}"
    proof (cases "c = b")
      case True
      have "set (ds @ es) = set cs - {p}" using cs(2) split by auto
      then have "set (ds @ es) = {x \<in> S - {p}. HASH_TO_BKT (hh_hashv u' x) (length (bks[b := bk])) = c}"
        using cs(3) True by (auto simp: u'_def)
      then show ?thesis using removed cs(2) split True \<open>b < ?n\<close> by (intro exI [of _ "ds @ es"]) simp
    next
      case False
      from ch c obtain fs where fs: "dll (hh_next u) (hh_prev u) (hh_head (bks ! c)) fs" "distinct fs"
        "set fs = {x \<in> S. HASH_TO_BKT (hh_hashv u x) ?n = c}"
        unfolding chains_def by auto
      have out: "x \<notin> set cs" if "x \<in> set fs" for x using that fs(3) cs(3) False by auto
      have "dll (hh_next u') (hh_prev u') (hh_head (bks ! c)) fs"
        by (rule dseg_same [OF fs(1)]) (use same out in auto)
      moreover have "set fs = {x \<in> S - {p}. HASH_TO_BKT (hh_hashv u' x) (length (bks[b := bk])) = c}"
        using fs(3) b False by (auto simp: u'_def)
      ultimately show ?thesis using fs(2) False by (intro exI [of _ fs]) simp
    qed
  qed
  moreover have "relinks S u u'"
    unfolding relinks_def using same cs(3)
    by (intro exI [of _ "hh_next u'"] exI [of _ "hh_prev u'"]) (auto simp: u'_def)
  ultimately show thesis using del that by blast
qed

lemma relink_other: "p \<noteq> Some x \<Longrightarrow> relink f p v x = f x"
  by (cases p) auto

lemma HASH_DELETE_represents:
  assumes ok: "store_ok u" and rep: "represents u head (xs @ x # ys)"
  shows "\<exists>u' head'. HASH_DELETE u head x = Inr (u', head') \<and> represents u' head' (xs @ ys) \<and> store_ok u' \<and>
     hh_key u' = hh_key u \<and> touches (set (xs @ x # ys)) (table_of u (xs @ x # ys)) u u' \<and>
     (xs @ ys \<noteq> [] \<longrightarrow> table_of u' (xs @ ys) = table_of u (xs @ x # ys))"
proof -
  let ?zs = "xs @ x # ys" let ?t = "table_of u ?zs"
  from rep have seg: "dll (app_next u) (app_prev u) head ?zs" and dist: "distinct ?zs"
    and inj: "inj_on (hh_key u) (set ?zs)"
    and at: "\<And>z. z \<in> set ?zs \<Longrightarrow> alive u z \<and> hh_hashv u z = HASH_JEN (hh_key u z) \<and> hh_tbl u z = ?t"
    by (auto simp: represents_def)
  from rep obtain tb where tb: "tables u ?t = Some tb" "tail tb = last ?zs" "num_items tb = length ?zs"
    "chains u (buckets tb) (set ?zs)" by (auto simp: represents_def)
  note near = dll_neighbours [OF seg dist]
  obtain h where h: "head = Some h" "h \<in> set ?zs" using represents_head [OF rep] by (cases xs) auto
  show ?thesis
  proof (cases "xs = [] \<and> ys = []")
    case True
    then have "HASH_DELETE u head x = Inr (u\<lparr>tables := (tables u)(?t := None)\<rparr>, None)"
      using near(3,4) at [of x] at [OF h(2)] tb(1) by (simp add: HASH_DELETE_def h(1))
    moreover have "store_ok (u\<lparr>tables := (tables u)(?t := None)\<rparr>)" using ok by (auto simp: store_ok_def)
    ultimately show ?thesis using True by (auto simp: touches_def)
  next
    case False
    define tb1 where "tb1 = (if ys = [] then tb\<lparr>tail := last xs\<rparr> else tb)"
    define v where "v = u\<lparr>app_next := relink (app_next u) (app_prev u x) (app_next u x),
      app_prev := relink (app_prev u) (app_next u x) (app_prev u x), tables := (tables u)(?t \<mapsto> tb1)\<rparr>"
    define head' where "head' = (if app_prev u x = None then app_next u x else head)"
    have seg': "dll (app_next v) (app_prev v) head' (xs @ ys)"
      using dll_remove [OF seg dist] by (simp add: v_def head'_def)
    obtain h' where h': "head' = Some h'" "h' \<in> set (xs @ ys)"
      using dseg_head [OF seg'] False by (cases xs; cases ys) auto
    have tail: "x = tail tb \<longleftrightarrow> ys = []" using tb(2) dist by (cases ys rule: rev_cases) auto
    let ?b = "HASH_TO_BKT (hh_hashv v x) (length (buckets tb))"
    have run: "HASH_DELETE u head x = bindR (HASH_DEL_IN_BKT (buckets tb1 ! ?b) x v) (\<lambda>(bk, w).
        Inr (w\<lparr>tables := (tables w)(?t \<mapsto> tb1\<lparr>buckets := (buckets tb1)[?b := bk], num_items := num_items tb1 - 1\<rparr>)\<rparr>, head'))"
    proof -
      have lv: "alive u x" "alive u h" "hh_tbl u h = ?t" "tableR u ?t = Inr tb" "alive u h'" "hh_tbl u h' = ?t"
        using at h(2) h'(2) tb(1) by (auto simp: tableR_def)
      have b: "length (buckets tb1) = length (buckets tb)" "buckets tb1 = buckets tb" by (simp_all add: tb1_def)
      have vt: "tableR v ?t = Inr tb1" "hh_tbl v = hh_tbl u" "alive v = alive u" "hh_hashv v = hh_hashv u"
        by (simp_all add: v_def tableR_def)
      have triv: "(tables u)(?t \<mapsto> tb) = tables u" using tb(1) by (simp add: fun_upd_idem)
      show ?thesis
      proof (cases "app_prev u x")
        case None
        then have "ys \<noteq> []" using near(3) False by auto
        with near(2,4) obtain r where r: "app_next u x = Some r" "r \<in> set ys" "r \<noteq> x" by auto
        have v: "v = u\<lparr>app_prev := (app_prev u)(r := None)\<rparr>"
          using None r(1) \<open>ys \<noteq> []\<close> triv by (simp add: v_def tb1_def)
        have "h' = r" using h'(1) None r(1) by (simp add: head'_def)
        then show ?thesis
          using lv vt None r tail \<open>ys \<noteq> []\<close> at [of r] unfolding HASH_DELETE_def h(1) h'(1)
          by (simp add: Let_def b v [symmetric] set_app_prev_def)
      next
        case (Some q)
        with near(1) have q: "q \<in> set xs" "q \<noteq> x" by auto
        have hd': "head' = head" using Some by (simp add: head'_def)
        show ?thesis
        proof (cases "app_next u x")
          case None
          then have "ys = []" using near(4) by simp
          have "q = last xs" using near(1) Some by auto
          with \<open>ys = []\<close> have v: "v = u\<lparr>tables := (tables u)(?t \<mapsto> tb\<lparr>tail := q\<rparr>), app_next := (app_next u)(q := None)\<rparr>"
            using None Some by (simp add: v_def tb1_def)
          have tl: "tail tb = x" using tail \<open>ys = []\<close> by simp
          have t1: "tb1 = tb\<lparr>tail := q\<rparr>" using \<open>ys = []\<close> \<open>q = last xs\<close> by (simp add: tb1_def)
          show ?thesis
            using lv None Some q tl at [of q] h'(1) h(1) unfolding HASH_DELETE_def hd' v t1
            by (simp add: Let_def b set_app_next_def tableR_def live_def)
        next
          case (Some r)
          then have "ys \<noteq> []" using near(4) by auto
          have r: "r \<in> set ys" "r \<noteq> x" using near(2) Some by auto
          have v: "v = u\<lparr>app_next := (app_next u)(q := Some r), app_prev := (app_prev u)(r := Some q)\<rparr>"
            using Some \<open>app_prev u x = Some q\<close> \<open>ys \<noteq> []\<close> triv by (simp add: v_def tb1_def)
          show ?thesis
            using lv vt Some \<open>app_prev u x = Some q\<close> q r tail \<open>ys \<noteq> []\<close> at [of q] at [of r] h'(1) h(1)
            unfolding HASH_DELETE_def hd'
            by (simp add: Let_def b v [symmetric] set_app_next_def set_app_prev_def)
        qed
      qed
    qed
    have chv: "chains v (buckets tb1) (set ?zs)" 
      using tb(4) by (cases "ys = []") (simp_all add: chains_def v_def tb1_def)
    obtain bk w where del: "HASH_DEL_IN_BKT (buckets tb1 ! ?b) x v = Inr (bk, w)"
      and chw: "chains w ((buckets tb1)[?b := bk]) (set ?zs - {x})" and re: "relinks (set ?zs) v w"
    proof (rule remove_chains [OF chv])
      show "x \<in> set ?zs" by simp
      show "?b = HASH_TO_BKT (hh_hashv v x) (length (buckets tb1))" by (simp add: tb1_def)
      show "alive v z" if "z \<in> set ?zs" for z using at [OF that] by (simp add: v_def)
    qed
    note f = relinks_fields [OF re]
    define u' where "u' = w\<lparr>tables := (tables w)(?t \<mapsto> tb1\<lparr>buckets := (buckets tb1)[?b := bk], num_items := num_items tb1 - 1\<rparr>)\<rparr>"
    have res: "HASH_DELETE u head x = Inr (u', head')" using run del by (simp add: u'_def)
    have "hd (xs @ ys) \<in> set (xs @ ys)" using False by (intro hd_in_set) auto
    then have tbl: "table_of u' (xs @ ys) = ?t" using at f(3) by (simp add: table_of_def u'_def v_def)
    have set_eq: "set ?zs - {x} = set (xs @ ys)" using dist by auto
    have rest: "distinct (xs @ ys)" "inj_on (hh_key u') (set (xs @ ys))" "dll (app_next u') (app_prev u') head' (xs @ ys)"
      using dist inj seg' f by (auto simp: u'_def v_def inj_on_def)
    have pts: "\<forall>z\<in>set (xs @ ys). alive u' z \<and> hh_hashv u' z = HASH_JEN (hh_key u' z) \<and> hh_tbl u' z = ?t"
      using at f by (simp add: u'_def v_def)
    have tb': "tail tb1 = last (xs @ ys)" "num_items tb1 - 1 = length (xs @ ys)"
      using tb(2,3) by (simp_all add: tb1_def)
    have "represents u' head' (xs @ ys)"
      unfolding represents_def tbl using rest pts tb' chw [unfolded set_eq] by (simp add: u'_def)
    moreover have "store_ok u'" using ok tb(1) f by (auto simp: store_ok_def u'_def v_def)
    moreover have "touches (set ?zs) ?t u u'"
      using f near(1,2) by (auto simp: touches_def u'_def v_def relink_other)
    moreover have "hh_key u' = hh_key u" using f by (simp add: u'_def v_def)
    ultimately show ?thesis using res tbl by auto
  qed
qed

text \<open>Another table, with other elements, is as it was.\<close>

lemma represents_frame:
  assumes t: "touches X t u u'" and rep: "represents u head xs" and X: "set xs \<inter> X = {}"
    and other: "xs = [] \<or> table_of u xs \<noteq> t"
  shows "represents u' head xs" and "xs \<noteq> [] \<Longrightarrow> table_of u' xs = table_of u xs"
proof -
  have out: "\<And>x. x \<in> set xs \<Longrightarrow> x \<notin> X" using X by auto
  note f = t [unfolded touches_def]
  have tbl: "xs \<noteq> [] \<Longrightarrow> table_of u' xs = table_of u xs" using f out by (cases xs) (auto simp: table_of_def)
  then show "xs \<noteq> [] \<Longrightarrow> table_of u' xs = table_of u xs" .
  show "represents u' head xs"
  proof (cases "xs = []")
    case True
    then show ?thesis using rep by simp
  next
    case False
    with rep obtain tb where tb: "tables u (table_of u xs) = Some tb" "tail tb = last xs"
      "num_items tb = length xs" "chains u (buckets tb) (set xs)" by (auto simp: represents_def)
    have "chains u' (buckets tb) (set xs)"
      unfolding chains_def
    proof (intro conjI allI impI)
      show "buckets tb \<noteq> []" using tb(4) by (simp add: chains_def)
      fix b assume "b < length (buckets tb)"
      with tb(4) obtain cs where cs: "dll (hh_next u) (hh_prev u) (hh_head (buckets tb ! b)) cs" "distinct cs"
        "set cs = {x \<in> set xs. HASH_TO_BKT (hh_hashv u x) (length (buckets tb)) = b}"
        unfolding chains_def by blast
      have "dll (hh_next u') (hh_prev u') (hh_head (buckets tb ! b)) cs"
        by (rule dseg_same [OF cs(1)]) (use cs(3) f out in auto)
      moreover have "set cs = {x \<in> set xs. HASH_TO_BKT (hh_hashv u' x) (length (buckets tb)) = b}"
        using cs(3) f out by auto
      ultimately show "\<exists>cs. dll (hh_next u') (hh_prev u') (hh_head (buckets tb ! b)) cs \<and> distinct cs \<and>
          set cs = {x \<in> set xs. HASH_TO_BKT (hh_hashv u' x) (length (buckets tb)) = b}"
        using cs(2) by blast
    qed
    moreover have "dll (app_next u') (app_prev u') head xs"
      by (rule dseg_same) (use rep f out in \<open>auto simp: represents_def\<close>)
    moreover have "inj_on (hh_key u') (set xs)"
      using rep f out by (auto simp: represents_def inj_on_def)
    moreover have "tables u' (table_of u xs) = Some tb" using f tb(1) other False by auto
    ultimately show ?thesis
      unfolding represents_def tbl [OF False] using rep f out tb(2,3) by (auto simp: represents_def)
  qed
qed

text \<open>A table does not change when an element that is not in it is allocated or freed.\<close>

lemma represents_alive:
  assumes "represents u head xs" and "\<And>x. x \<in> set xs \<Longrightarrow> a x"
  shows "represents (u\<lparr>alive := a\<rparr>) head xs" and "represents (u\<lparr>alive := a, brk := n\<rparr>) head xs"
    and "table_of (u\<lparr>alive := a\<rparr>) xs = table_of u xs" and "table_of (u\<lparr>alive := a, brk := n\<rparr>) xs = table_of u xs"
proof -
  have tbl: "table_of (u\<lparr>alive := a\<rparr>) xs = table_of u xs" "table_of (u\<lparr>alive := a, brk := n\<rparr>) xs = table_of u xs"
    by (simp_all add: table_of_def)
  have ch: "chains (u\<lparr>alive := a\<rparr>) bks S = chains u bks S" "chains (u\<lparr>alive := a, brk := n\<rparr>) bks S = chains u bks S"
    for bks S by (simp_all add: chains_def)
  show "represents (u\<lparr>alive := a\<rparr>) head xs" "represents (u\<lparr>alive := a, brk := n\<rparr>) head xs"
    using assms unfolding represents_def tbl ch by auto
qed (simp_all add: table_of_def)

lemma new_element_represents:
  assumes "store_ok u" and "new_element u = (p, u')"
  shows "store_ok u'" and "alive u' p" and "\<not> alive u p" and "represents u head xs \<Longrightarrow> represents u' head xs"
    and "represents u head xs \<Longrightarrow> p \<notin> set xs" and "hh_key u' = hh_key u" and "tables u' = tables u"
    and "table_of u' xs = table_of u xs" and "added_table u' xs = added_table u xs"
proof -
  from assms(2) have p: "p = brk u" and u': "u' = u\<lparr>alive := (alive u)(brk u := True), brk := Suc (brk u)\<rparr>"
    by (auto simp: new_element_def)
  show "\<not> alive u p" using assms(1) by (auto simp: store_ok_def p)
  then show out: "represents u head xs \<Longrightarrow> p \<notin> set xs" for head xs by (auto simp: represents_def)
  show "represents u head xs \<Longrightarrow> represents u' head xs" for head xs
    unfolding u' by (rule represents_alive) (auto simp: represents_def)
  show "store_ok u'" using assms(1) by (auto simp: store_ok_def u' less_SucI)
qed (use assms(2) in \<open>auto simp: new_element_def table_of_def added_table_def\<close>)

lemma free_element_represents:
  assumes "store_ok u" and "alive u p"
  obtains u' where "free_element p u = Inr u'" and "store_ok u'"
    and "\<And>head xs. represents u head xs \<Longrightarrow> p \<notin> set xs \<Longrightarrow> represents u' head xs"
    and "hh_key u' = hh_key u" and "\<And>xs. table_of u' xs = table_of u xs" and "alive u' = (alive u)(p := False)"
proof
  let ?u = "u\<lparr>alive := (alive u)(p := False)\<rparr>"
  show "free_element p u = Inr ?u" using assms(2) by (simp add: free_element_def)
  show "store_ok ?u" using assms(1) by (auto simp: store_ok_def)
  show "represents ?u head xs" if "represents u head xs" "p \<notin> set xs" for head xs
    by (rule represents_alive) (use that in \<open>auto simp: represents_def\<close>)
qed (simp_all add: table_of_def)

section \<open>The contract\<close>

text \<open>
  What the programs rely on: a table is a finite map from keys to elements, listed in the order of
  insertion. The client lemmas are the ways the programs use it: an element is looked up by the key
  it was added with, a key is added once, and the elements are deleted one after the other from the
  first.
\<close>

locale keyed_table =
  fixes rep :: "'s \<Rightarrow> 'h \<Rightarrow> nat list \<Rightarrow> bool"
    and ok :: "'s \<Rightarrow> bool"
    and allocated :: "'s \<Rightarrow> nat \<Rightarrow> bool"
    and key_of :: "'s \<Rightarrow> nat \<Rightarrow> 'k"
    and lookup :: "'s \<Rightarrow> 'h \<Rightarrow> 'k \<Rightarrow> nat option res"
    and add :: "'s \<Rightarrow> 'h \<Rightarrow> 'k \<Rightarrow> nat \<Rightarrow> ('s \<times> 'h) res"
    and remove :: "'s \<Rightarrow> 'h \<Rightarrow> nat \<Rightarrow> ('s \<times> 'h) res"
  assumes rep_keys: "rep s h xs \<Longrightarrow> distinct xs \<and> inj_on (key_of s) (set xs)"
    and lookup_find: "ok s \<Longrightarrow> rep s h xs \<Longrightarrow> lookup s h k = Inr (find (\<lambda>x. key_of s x = k) xs)"
    and add_rep: "ok s \<Longrightarrow> rep s h xs \<Longrightarrow> allocated s p \<Longrightarrow> p \<notin> set xs \<Longrightarrow> k \<notin> key_of s ` set xs \<Longrightarrow>
      \<exists>s' h'. add s h k p = Inr (s', h') \<and> rep s' h' (xs @ [p]) \<and> ok s' \<and> key_of s' = (key_of s)(p := k)"
    and remove_rep: "ok s \<Longrightarrow> rep s h (xs @ x # ys) \<Longrightarrow>
      \<exists>s' h'. remove s h x = Inr (s', h') \<and> rep s' h' (xs @ ys) \<and> ok s' \<and> key_of s' = key_of s"
begin

definition entries :: "'s \<Rightarrow> nat list \<Rightarrow> 'k \<rightharpoonup> nat" where
  "entries s xs = map_of (map (\<lambda>x. (key_of s x, x)) xs)"

lemma entries_find: "entries s xs k = find (\<lambda>x. key_of s x = k) xs"
  by (induction xs) (auto simp: entries_def)

lemma lookup_entries: "ok s \<Longrightarrow> rep s h xs \<Longrightarrow> lookup s h k = Inr (entries s xs k)"
  by (simp add: lookup_find entries_find)

lemma entries_None_iff: "entries s xs k = None \<longleftrightarrow> k \<notin> key_of s ` set xs"
  by (auto simp: entries_find find_None_iff)

lemma entries_Some: "rep s h xs \<Longrightarrow> x \<in> set xs \<Longrightarrow> entries s xs (key_of s x) = Some x"
  using rep_keys unfolding entries_def
  by (intro map_of_is_SomeI) (auto simp: distinct_map o_def)

lemma entries_add:
  assumes "rep s h xs" and "p \<notin> set xs" and "k \<notin> key_of s ` set xs" and "key_of s' = (key_of s)(p := k)"
  shows "entries s' (xs @ [p]) = (entries s xs)(k \<mapsto> p)"
proof
  fix j
  have same: "find (\<lambda>x. key_of s' x = j) xs = find (\<lambda>x. key_of s x = j) xs"
    using assms(2,4) by (intro find_cong) auto
  have kp: "key_of s' p = k" using assms(4) by simp
  have new: "find (\<lambda>x. key_of s x = k) xs = None" using assms(3) by (auto simp: find_None_iff)
  show "entries s' (xs @ [p]) j = ((entries s xs)(k \<mapsto> p)) j"
    unfolding entries_find find_append same using kp new by (auto split: option.split)
qed

lemma entries_remove:
  assumes "rep s h (xs @ x # ys)" and "key_of s' = key_of s"
  shows "entries s' (xs @ ys) = (entries s (xs @ x # ys))(key_of s x := None)"
proof
  fix k
  have "distinct (map (key_of s) (xs @ x # ys))" using rep_keys [OF assms(1)] by (simp only: distinct_map)
  then have out: "key_of s x \<notin> key_of s ` (set xs \<union> set ys)" by auto
  show "entries s' (xs @ ys) k = ((entries s (xs @ x # ys))(key_of s x := None)) k"
  proof (cases "k = key_of s x")
    case True
    then have "find (\<lambda>x. key_of s x = k) (xs @ ys) = None"
      using out unfolding find_None_iff by (metis UnI1 UnI2 image_eqI set_append UnE)
    then show ?thesis using True assms(2) by (simp add: entries_find)
  next
    case False
    then have "find (\<lambda>x. key_of s x = k) (xs @ ys) = find (\<lambda>x. key_of s x = k) (xs @ x # ys)"
      by (induction xs) auto
    then show ?thesis using False assms(2) by (simp add: entries_find)
  qed
qed

text \<open>A refinement of the updates of a map.\<close>

lemma add_refines:
  assumes "ok s" and "rep s h xs" and "allocated s p" and "p \<notin> set xs" and "entries s xs k = None"
  shows "\<exists>s' h'. add s h k p = Inr (s', h') \<and> rep s' h' (xs @ [p]) \<and> ok s' \<and>
    (\<forall>j. lookup s' h' j = Inr (((entries s xs)(k \<mapsto> p)) j))"
proof -
  have k: "k \<notin> key_of s ` set xs" using assms(5) by (simp add: entries_None_iff)
  from add_rep [OF assms(1-4) k] obtain s' h' where "add s h k p = Inr (s', h')" "rep s' h' (xs @ [p])"
    "ok s'" "key_of s' = (key_of s)(p := k)" by blast
  moreover from this have "entries s' (xs @ [p]) = (entries s xs)(k \<mapsto> p)"
    by (intro entries_add [OF assms(2,4) k])
  ultimately show ?thesis using lookup_entries by metis
qed

lemma remove_refines:
  assumes "ok s" and "rep s h xs" and "entries s xs k = Some x"
  shows "\<exists>s' h' zs. remove s h x = Inr (s', h') \<and> rep s' h' zs \<and> ok s' \<and>
    (\<forall>j. lookup s' h' j = Inr (((entries s xs)(k := None)) j))"
proof -
  from assms(3) have x: "x \<in> set xs" "key_of s x = k" by (auto simp: entries_find find_Some_iff)
  then obtain ys zs where xs: "xs = ys @ x # zs" by (auto simp: in_set_conv_decomp)
  from remove_rep [OF assms(1) assms(2) [unfolded xs]] obtain s' h' where
    "remove s h x = Inr (s', h')" "rep s' h' (ys @ zs)" "ok s'" "key_of s' = key_of s" by blast
  moreover from this have "entries s' (ys @ zs) = (entries s xs)(k := None)"
    using entries_remove [OF assms(2) [unfolded xs]] x(2) by (simp add: xs)
  ultimately show ?thesis using lookup_entries by metis
qed

end

interpretation uthash: keyed_table represents store_ok alive hh_key HASH_FIND HASH_ADD HASH_DELETE
proof unfold_locales
  show "distinct xs \<and> inj_on (hh_key s) (set xs)" if "represents s h xs" for s h xs
    using that by (simp add: represents_def)
  show "HASH_FIND s h k = Inr (find (\<lambda>x. hh_key s x = k) xs)" if "store_ok s" "represents s h xs" for s h xs k
    using HASH_FIND_represents [OF that] .
  show "\<exists>s' h'. HASH_ADD s h k p = Inr (s', h') \<and> represents s' h' (xs @ [p]) \<and> store_ok s' \<and>
      hh_key s' = (hh_key s)(p := k)"
    if "store_ok s" "represents s h xs" "alive s p" "p \<notin> set xs" "k \<notin> hh_key s ` set xs" for s h xs p k
    using HASH_ADD_represents [OF that] by blast
  show "\<exists>s' h'. HASH_DELETE s h x = Inr (s', h') \<and> represents s' h' (xs @ ys) \<and> store_ok s' \<and> hh_key s' = hh_key s"
    if "store_ok s" "represents s h (xs @ x # ys)" for s h xs x ys
    using HASH_DELETE_represents [OF that] by blast
qed

text \<open>C7. A hash table refines a map from the keys to the elements: a lookup is the map's, adding an element under a
  new key updates it there, deleting an element removes its key, and both leave a table that later operations can use.\<close>

theorem table_refines_map:
  assumes "store_ok u" and "represents u head xs"
  shows "HASH_FIND u head k = Inr (map_of (map (\<lambda>x. (hh_key u x, x)) xs) k) \<and>
    (alive u p \<and> p \<notin> set xs \<and> map_of (map (\<lambda>x. (hh_key u x, x)) xs) k = None \<longrightarrow>
      (\<exists>u' head'. HASH_ADD u head k p = Inr (u', head') \<and> represents u' head' (xs @ [p]) \<and> store_ok u' \<and>
        (\<forall>j. HASH_FIND u' head' j = Inr (((map_of (map (\<lambda>x. (hh_key u x, x)) xs))(k \<mapsto> p)) j)))) \<and>
    (map_of (map (\<lambda>x. (hh_key u x, x)) xs) k = Some p \<longrightarrow>
      (\<exists>u' head' ys. HASH_DELETE u head p = Inr (u', head') \<and> represents u' head' ys \<and> store_ok u' \<and>
        (\<forall>j. HASH_FIND u' head' j = Inr (((map_of (map (\<lambda>x. (hh_key u x, x)) xs))(k := None)) j))))"
  using uthash.lookup_entries [OF assms] uthash.add_refines [OF assms] uthash.remove_refines [OF assms]
  unfolding uthash.entries_def by blast

theorem table_refines_map_witness:
  "\<exists>u head. HASH_ADD (snd (new_element empty_store)) None 5 (fst (new_element empty_store)) = Inr (u, head) \<and>
    HASH_FIND u head 5 = Inr (Some (fst (new_element empty_store))) \<and> HASH_FIND u head 7 = Inr None"
proof -
  obtain p u where new: "new_element empty_store = (p, u)" by fastforce
  have "store_ok empty_store" by (simp add: store_ok_def empty_store_def)
  note el = new_element_represents [OF this new]
  from table_refines_map [OF el(1), of None "[]" 5 p] el(2) show ?thesis by (simp add: new) fastforce
qed

end
