(* ===== verification/Prgm.thy ===== *)
theory Prgm
  imports Complex_Main Uthash Db Stim_Open Artix Profile_Json
begin

text \<open>
  The test programs: prgm.c. A program is a script of the language lib/fe, which calls the functions
  below to open stimuli, load them into the memory of the tester, run them and read the failing pins;
  the results go to the database.

  The interpreter itself is not modelled. What it passes to a function and takes from it are values
  of \<open>fe_object\<close>; lib/fe's accessors are modelled, since their type errors end a function. The error
  that a script raises (\<^verbatim>\<open>fe_error\<close>) is a value: what was changed before it stays, because the REPL
  returns to its caller with a long jump.

  Stimuli, profiles and the entries of the tables of loaded stimuli are objects on a heap, numbered
  in the order of their allocation, since the code shares them: a stimulus by all entries that it was
  loaded to, a profile by the program and by all stimuli that were opened with it. Using an object
  after it was freed is \<open>Crash_freed\<close>.
\<close>

section \<open>Values of the script language\<close>

text \<open>A number is a double. One that is not finite has no value.\<close>

datatype fe_num = Finite rat | Not_finite

datatype fe_types =
  FE_TPAIR | FE_TNIL | FE_TNUMBER | FE_TSYMBOL | FE_TSTRING | FE_TFUNC | FE_TMACRO | FE_TPRIM | FE_TCFUNC | FE_TPTR

datatype fe_ref = Prgm_ref | Stim_ref nat

datatype fe_object =
    Fe_nil
  | Fe_number fe_num
  | Fe_symbol string
  | Fe_string string
  | Fe_pair fe_object fe_object
  | Fe_code fe_types
  | Fe_ptr fe_ref

fun fe_type :: "fe_object \<Rightarrow> fe_types" where
  "fe_type Fe_nil = FE_TNIL"
| "fe_type (Fe_number n) = FE_TNUMBER"
| "fe_type (Fe_symbol s) = FE_TSYMBOL"
| "fe_type (Fe_string s) = FE_TSTRING"
| "fe_type (Fe_pair a d) = FE_TPAIR"
| "fe_type (Fe_code t) = t"
| "fe_type (Fe_ptr r) = FE_TPTR"

text \<open>An integer becomes the nearest double: 53 significant bits, ties to even.\<close>

fun num_bits :: "nat \<Rightarrow> nat" where
  "num_bits n = (if n = 0 then 0 else Suc (num_bits (n div 2)))"

declare num_bits.simps [simp del]

definition to_double :: "nat \<Rightarrow> nat" where
  "to_double n =
     (let k = num_bits n - 53; m = n div 2 ^ k; r = n mod 2 ^ k in
      if k = 0 then n
      else if 2 * r > 2 ^ k \<or> 2 * r = 2 ^ k \<and> odd m then (m + 1) * 2 ^ k else m * 2 ^ k)"

definition fe_number :: "nat \<Rightarrow> fe_object" where
  "fe_number n = Fe_number (Finite (of_nat (to_double n)))"

definition fe_bool :: "bool \<Rightarrow> fe_object" where
  "fe_bool b = (if b then Fe_symbol ''t'' else Fe_nil)"

definition fe_list :: "fe_object list \<Rightarrow> fe_object" where
  "fe_list xs = foldr Fe_pair xs Fe_nil"

text \<open>The conversion to 32 bits is undefined for a value that does not fit.\<close>

definition number_u32 :: "fe_num \<Rightarrow> u32 res" where
  "number_u32 n =
     (case n of
        Not_finite \<Rightarrow> Inl Crash_undefined
      | Finite r \<Rightarrow>
          if - 1 < r \<and> r < 4294967296 then Inr (of_int (if r < 0 then 0 else \<lfloor>r\<rfloor>)) else Inl Crash_undefined)"

section \<open>The state\<close>

record prgm_stim =
  ps_a1_addr :: u64
  ps_a2_addr :: u64
  ps_stim :: nat

record prgm =
  prgm_path :: "string option"
  is_path_open :: bool
  db_prgm_id :: int
  prgm_db_path :: "string option"
  prgm_db :: "database option"
  fe_ctx :: bool
  prgm_profile :: "nat option"
  num_a1_loaded_stims :: u64
  num_a2_loaded_stims :: u64
  cur_a1_stim_addr :: u64
  cur_a2_stim_addr :: u64
  a1_loaded_stims :: "nat option"
  a2_loaded_stims :: "nat option"
  last_prgm_stim :: "nat option"

text \<open>
  With the rest of the process: the board, the handles of the hash tables, the entries, the stimuli
  with the profiles they were opened with, the profiles, the archives that were written, the value of
  the global symbol \<^verbatim>\<open>prgm\<close>, and whether an error handler was installed.
\<close>

record prgm_world = prgm +
  the_board :: board
  hash :: hash_store
  prgm_stims :: "nat \<Rightarrow> prgm_stim"
  stims :: "nat \<Rightarrow> (stim \<times> nat) option"
  num_stims :: nat
  profiles :: "nat \<Rightarrow> profile option"
  num_profiles :: nat
  written :: "(string \<times> SerialStim) list"
  prgm_symbol :: fe_object
  has_handler :: bool

text \<open>
  The parameters: the libraries, the driver, the file system, the conversion of a value that is not a
  string to text, the lower half of the address of an entry, and what is in the memory behind the
  buffer that a profile is read into.
\<close>

record prgm_env =
  env_lz4c :: lz4_compressor
  env_lz4d :: lz4_decompressor
  env_drv :: driver
  env_files :: file_system
  env_decode :: capn_decoder
  env_sqlite :: sqlite
  env_opens :: "string \<Rightarrow> open_result"
  env_tz :: "nat \<Rightarrow> c_clock"
  env_realpath :: "string \<Rightarrow> string option"
  env_text :: "fe_object \<Rightarrow> string"
  env_address :: "nat \<Rightarrow> u32"
  env_behind :: "string \<Rightarrow> string"

section \<open>Functions of a script\<close>

datatype script_error =
    Too_few_arguments
  | Dotted_arguments
  | Expected_type fe_types fe_types
  | No_profile_set
  | Empty_stim "string option"
  | Already_loaded artix_selects u32
  | Not_loaded artix_selects u32
  | Not_a_cons_pair
  | Invalid_address_pair
  | No_stim_found
  | Not_a_dual_stim u64 u64
  | No_exit_code
  | Unbound_function string

datatype 'a outcome = Returns 'a | Raises script_error | Exits u32

type_synonym 'a script = "prgm_world \<Rightarrow> ('a outcome \<times> prgm_world) res"

definition returnS :: "'a \<Rightarrow> 'a script" where
  "returnS x = (\<lambda>w. Inr (Returns x, w))"

definition fe_error :: "script_error \<Rightarrow> 'a script" where
  "fe_error e = (\<lambda>w. Inr (Raises e, w))"

definition bindS :: "'a script \<Rightarrow> ('a \<Rightarrow> 'b script) \<Rightarrow> 'b script" where
  "bindS m f = (\<lambda>w. bindR (m w) (\<lambda>(r, w).
     case r of Returns x \<Rightarrow> f x w | Raises e \<Rightarrow> Inr (Raises e, w) | Exits c \<Rightarrow> Inr (Exits c, w)))"

definition getS :: "(prgm_world \<Rightarrow> 'a) \<Rightarrow> 'a script" where
  "getS f = (\<lambda>w. Inr (Returns (f w), w))"

definition modifyS :: "(prgm_world \<Rightarrow> prgm_world) \<Rightarrow> unit script" where
  "modifyS f = (\<lambda>w. Inr (Returns (), f w))"

definition liftS :: "'a res \<Rightarrow> 'a script" where
  "liftS r = (\<lambda>w. bindR r (\<lambda>x. Inr (Returns x, w)))"

text \<open>An operation on the board, on the tables and on the database.\<close>

definition on_board :: "'a io \<Rightarrow> 'a script" where
  "on_board m = (\<lambda>w. bindR (m (the_board w)) (\<lambda>(x, b). Inr (Returns x, w\<lparr>the_board := b\<rparr>)))"

definition on_hash :: "(hash_store \<Rightarrow> hash_store res) \<Rightarrow> unit script" where
  "on_hash f = (\<lambda>w. bindR (f (hash w)) (\<lambda>u. Inr (Returns (), w\<lparr>hash := u\<rparr>)))"

definition on_db :: "(database \<Rightarrow> ('a \<times> database) res) \<Rightarrow> 'a script" where
  "on_db f = (\<lambda>w. bindR (nonnullR (prgm_db w)) (\<lambda>db. bindR (f db) (\<lambda>(x, db).
     Inr (Returns x, w\<lparr>prgm_db := Some db\<rparr>))))"

text \<open>lib/fe: the next argument, the parts of a pair (nil has nil for both), numbers, pointers, text.\<close>

definition fe_nextarg :: "fe_object \<Rightarrow> (fe_object \<times> fe_object) script" where
  "fe_nextarg arg =
     (case arg of
        Fe_pair a d \<Rightarrow> returnS (a, d)
      | Fe_nil \<Rightarrow> fe_error Too_few_arguments
      | _ \<Rightarrow> fe_error Dotted_arguments)"

definition fe_car :: "fe_object \<Rightarrow> fe_object script" where
  "fe_car x =
     (case x of Fe_nil \<Rightarrow> returnS Fe_nil | Fe_pair a d \<Rightarrow> returnS a | _ \<Rightarrow> fe_error (Expected_type FE_TPAIR (fe_type x)))"

definition fe_cdr :: "fe_object \<Rightarrow> fe_object script" where
  "fe_cdr x =
     (case x of Fe_nil \<Rightarrow> returnS Fe_nil | Fe_pair a d \<Rightarrow> returnS d | _ \<Rightarrow> fe_error (Expected_type FE_TPAIR (fe_type x)))"

definition fe_tonumber :: "fe_object \<Rightarrow> fe_num script" where
  "fe_tonumber x = (case x of Fe_number n \<Rightarrow> returnS n | _ \<Rightarrow> fe_error (Expected_type FE_TNUMBER (fe_type x)))"

definition fe_toptr :: "fe_object \<Rightarrow> fe_ref script" where
  "fe_toptr x = (case x of Fe_ptr r \<Rightarrow> returnS r | _ \<Rightarrow> fe_error (Expected_type FE_TPTR (fe_type x)))"

definition fe_tostring :: "prgm_env \<Rightarrow> fe_object \<Rightarrow> string" where
  "fe_tostring env x = take 4095 (case x of Fe_string s \<Rightarrow> s | _ \<Rightarrow> env_text env x)"

definition fe_tou32 :: "fe_object \<Rightarrow> u32 script" where
  "fe_tou32 x = bindS (fe_tonumber x) (\<lambda>n. liftS (number_u32 n))"

text \<open>The global \<^verbatim>\<open>prgm\<close>, which a script can assign to.\<close>

definition global_prgm :: "unit script" where
  "global_prgm = (\<lambda>w. bindS (fe_toptr (prgm_symbol w)) (\<lambda>r.
     if r = Prgm_ref then returnS () else liftS (Inl Crash_undefined)) w)"

text \<open>A stimulus that a pointer refers to, and one that an entry refers to.\<close>

definition stim_of_ref :: "fe_ref \<Rightarrow> nat res" where
  "stim_of_ref r = (case r of Stim_ref i \<Rightarrow> Inr i | Prgm_ref \<Rightarrow> Inl Crash_undefined)"

definition stimR :: "prgm_world \<Rightarrow> nat \<Rightarrow> (stim \<times> nat) res" where
  "stimR w i = (case stims w i of None \<Rightarrow> Inl Crash_freed | Some s \<Rightarrow> Inr s)"

definition get_stim :: "nat \<Rightarrow> (stim \<times> nat) script" where
  "get_stim i = (\<lambda>w. liftS (stimR w i) w)"

definition put_stim :: "nat \<Rightarrow> stim \<Rightarrow> unit script" where
  "put_stim i s = modifyS (\<lambda>w. w\<lparr>stims := (stims w)(i := map_option (\<lambda>(_, k). (s, k)) (stims w i))\<rparr>)"

definition get_entry :: "nat \<Rightarrow> prgm_stim script" where
  "get_entry p = (\<lambda>w. liftS (bindR (live (hash w) p) (\<lambda>_. Inr (prgm_stims w p))) w)"

section \<open>Paths\<close>

text \<open>A path is the format of a \<^verbatim>\<open>printf\<close>: two percent signs print one, and a directive takes an argument
  that was not given.\<close>

fun utstring_printf :: "string \<Rightarrow> string res" where
  "utstring_printf [] = Inr []"
| "utstring_printf (c # s) =
     (if c = CHR 0x25 then
        (case s of
           [] \<Rightarrow> Inl Crash_undefined
         | d # t \<Rightarrow> if d = CHR 0x25 then bindR (utstring_printf t) (\<lambda>r. Inr (d # r)) else Inl Crash_undefined)
      else bindR (utstring_printf s) (\<lambda>r. Inr (c # r)))"

definition uses_db :: "prgm_world \<Rightarrow> bool" where
  "uses_db w \<longleftrightarrow> 0 \<le> db_prgm_id w \<and> prgm_db w \<noteq> None"

definition get_db_prgm :: "prgm_env \<Rightarrow> db_prgm script" where
  "get_db_prgm env =
     bindS (getS db_prgm_id) (\<lambda>i.
     bindS (on_db (db_get_prgm_by_id (env_sqlite env) (env_tz env) i)) (\<lambda>r. liftS (nonnullR r)))"

definition get_nfs_path :: "prgm_env \<Rightarrow> string \<Rightarrow> string script" where
  "get_nfs_path env file_path =
     bindS (getS uses_db) (\<lambda>use.
     if use then
       bindS (get_db_prgm env) (\<lambda>db_prgm.
       bindS (on_db (db_get_mount_by_id (env_sqlite env) (prg_mount_id db_prgm))) (\<lambda>db_mount.
       bindS (liftS (nonnullR db_mount)) (\<lambda>db_mount.
       bindS (liftS (bindR (derefR (mnt_local_point db_mount)) utstring_printf)) (\<lambda>point.
       bindS (liftS (utstring_printf file_path)) (\<lambda>path.
       returnS (point @ (if file_path \<noteq> [] \<and> hd file_path = CHR ''/'' then path else ''/'' @ path)))))))
     else liftS (utstring_printf file_path))"

section \<open>Opening and writing stimuli\<close>

definition open_stim_path :: "prgm_env \<Rightarrow> string \<Rightarrow> nat script" where
  "open_stim_path env path = (\<lambda>w.
     bindR (nonnullR (prgm_profile w)) (\<lambda>k.
     bindR (case profiles w k of None \<Rightarrow> Inl Crash_freed | Some p \<Rightarrow> Inr p) (\<lambda>profile.
     bindR (get_stim_by_path (env_files env) (env_decode env) profile path) (\<lambda>s.
     Inr (Returns (num_stims w),
       w\<lparr>stims := (stims w)(num_stims w \<mapsto> (s, k)), num_stims := Suc (num_stims w)\<rparr>)))))"

text \<open>The argument of \<^verbatim>\<open>load\<close> and \<^verbatim>\<open>reads\<close>: a path, which needs a profile.\<close>

definition open_stim_arg :: "prgm_env \<Rightarrow> fe_object \<Rightarrow> nat script" where
  "open_stim_arg env arg =
     bindS (getS prgm_profile) (\<lambda>profile.
     if profile = None then fe_error No_profile_set
     else
       bindS (fe_nextarg arg) (\<lambda>(stim_path, _).
       bindS (get_nfs_path env (fe_tostring env stim_path)) (\<lambda>path. open_stim_path env path)))"

definition f_reads :: "prgm_env \<Rightarrow> fe_object \<Rightarrow> fe_object script" where
  "f_reads env arg =
     bindS global_prgm (\<lambda>_. bindS (open_stim_arg env arg) (\<lambda>i. returnS (Fe_ptr (Stim_ref i))))"

definition f_writes :: "prgm_env \<Rightarrow> fe_object \<Rightarrow> fe_object script" where
  "f_writes env arg =
     bindS global_prgm (\<lambda>_.
     bindS (fe_nextarg arg) (\<lambda>(stim, arg).
     bindS (fe_toptr stim) (\<lambda>r.
     bindS (fe_nextarg arg) (\<lambda>(stim_path, _).
     bindS (get_nfs_path env (fe_tostring env stim_path)) (\<lambda>path.
     bindS (liftS (stim_of_ref r)) (\<lambda>i.
     bindS (get_stim i) (\<lambda>(s, _).
     bindS (liftS (stim_serialize_to_path (env_lz4c env) (env_lz4d env) s)) (\<lambda>(m, s).
     bindS (put_stim i s) (\<lambda>_.
     bindS (modifyS (\<lambda>w. w\<lparr>written := written w @ [(path, m)]\<rparr>)) (\<lambda>_.
     returnS (Fe_ptr r)))))))))))"

section \<open>The tables of loaded stimuli\<close>

text \<open>One table per unit, keyed by the lower half of an address.\<close>

definition loaded :: "artix_selects \<Rightarrow> prgm_world \<Rightarrow> nat option" where
  "loaded sel w = (if sel = ARTIX_SELECT_A1 then a1_loaded_stims w else a2_loaded_stims w)"

definition set_loaded :: "artix_selects \<Rightarrow> nat option \<Rightarrow> prgm_world \<Rightarrow> prgm_world" where
  "set_loaded sel h w = (if sel = ARTIX_SELECT_A1 then w\<lparr>a1_loaded_stims := h\<rparr> else w\<lparr>a2_loaded_stims := h\<rparr>)"

definition add_count :: "artix_selects \<Rightarrow> u64 \<Rightarrow> prgm_world \<Rightarrow> prgm_world" where
  "add_count sel n w =
     (if sel = ARTIX_SELECT_A1 then w\<lparr>num_a1_loaded_stims := num_a1_loaded_stims w + n\<rparr>
      else w\<lparr>num_a2_loaded_stims := num_a2_loaded_stims w + n\<rparr>)"

definition add_addr :: "artix_selects \<Rightarrow> u64 \<Rightarrow> prgm_world \<Rightarrow> prgm_world" where
  "add_addr sel n w =
     (if sel = ARTIX_SELECT_A1 then w\<lparr>cur_a1_stim_addr := cur_a1_stim_addr w + n\<rparr>
      else w\<lparr>cur_a2_stim_addr := cur_a2_stim_addr w + n\<rparr>)"

definition entry_addr :: "artix_selects \<Rightarrow> prgm_stim \<Rightarrow> u64" where
  "entry_addr sel ps = (if sel = ARTIX_SELECT_A1 then ps_a1_addr ps else ps_a2_addr ps)"

definition find_loaded :: "artix_selects \<Rightarrow> u32 \<Rightarrow> nat option script" where
  "find_loaded sel addr = (\<lambda>w. liftS (HASH_FIND (hash w) (loaded sel w) addr) w)"

definition add_loaded :: "nat \<Rightarrow> artix_selects \<Rightarrow> unit script" where
  "add_loaded p sel = (\<lambda>w.
     let addr = ucast (entry_addr sel (prgm_stims w p)) in
     bindS (find_loaded sel addr) (\<lambda>s.
     if s \<noteq> None then fe_error (Already_loaded sel addr)
     else (\<lambda>w. bindR (HASH_ADD (hash w) (loaded sel w) addr p) (\<lambda>(u, h).
       Inr (Returns (), set_loaded sel h (w\<lparr>hash := u\<rparr>))))) w)"

definition del_loaded :: "artix_selects \<Rightarrow> nat \<Rightarrow> unit script" where
  "del_loaded sel p = (\<lambda>w.
     bindR (HASH_DELETE (hash w) (loaded sel w) p) (\<lambda>(u, h).
     Inr (Returns (), set_loaded sel h (w\<lparr>hash := u\<rparr>))))"

fun seqS :: "unit script list \<Rightarrow> unit script" where
  "seqS [] = returnS ()"
| "seqS (m # ms) = bindS m (\<lambda>_. seqS ms)"

section \<open>Loading\<close>

definition create_prgm_stim :: "nat \<Rightarrow> u32 \<Rightarrow> u32 \<Rightarrow> nat script" where
  "create_prgm_stim i a1_addr a2_addr = (\<lambda>w.
     let (p, u) = new_element (hash w) in
     Inr (Returns p, w\<lparr>hash := u,
       prgm_stims := (prgm_stims w)(p := \<lparr>ps_a1_addr = ucast a1_addr, ps_a2_addr = ucast a2_addr, ps_stim = i\<rparr>)\<rparr>))"

datatype load_types = LOAD | LOADS | LOADA

text \<open>Where the stimulus comes from, and for \<^verbatim>\<open>LOADA\<close> the address, one for both units.\<close>

definition load_source :: "prgm_env \<Rightarrow> fe_object \<Rightarrow> load_types \<Rightarrow> (fe_ref \<times> u32 option) script" where
  "load_source env arg load_type =
     (case load_type of
        LOAD \<Rightarrow> bindS (open_stim_arg env arg) (\<lambda>i. returnS (Stim_ref i, None))
      | LOADS \<Rightarrow> bindS (fe_nextarg arg) (\<lambda>(stim, _). bindS (fe_toptr stim) (\<lambda>r. returnS (r, None)))
      | LOADA \<Rightarrow>
          bindS (fe_nextarg arg) (\<lambda>(stim, arg).
          bindS (fe_toptr stim) (\<lambda>r.
          bindS (fe_nextarg arg) (\<lambda>(addr, _).
          bindS (fe_tou32 addr) (\<lambda>a. returnS (r, Some a))))))"

text \<open>The pattern goes to the tester. Filling a chunk of a bitstream reads the profile of the stimulus, which
  may have been freed.\<close>

definition load_pattern :: "prgm_env \<Rightarrow> nat \<Rightarrow> u32 \<Rightarrow> u32 \<Rightarrow> nat script" where
  "load_pattern env i a1_addr a2_addr =
     bindS (get_stim i) (\<lambda>(s, k).
     bindS (getS (\<lambda>w. profiles w k)) (\<lambda>profile.
     if profile = None \<and> stim_type s \<in> {STIM_TYPE_RBT, STIM_TYPE_BIN, STIM_TYPE_BIT} \<and>
        load_addr_ok (ucast a1_addr) \<and> load_addr_ok (ucast a2_addr)
     then liftS (Inl Crash_freed)
     else
       bindS (on_board (artix_load_stim (env_lz4d env) (env_drv env) s (ucast a1_addr) (ucast a2_addr))) (\<lambda>(s, n).
       bindS (put_stim i s) (\<lambda>_. returnS n))))"

definition load_object :: "prgm_env \<Rightarrow> nat \<Rightarrow> u32 option \<Rightarrow> (u32 \<times> u32 \<times> stim_modes) script" where
  "load_object env i addr =
     bindS (get_stim i) (\<lambda>(s, _).
     let mode = stim_get_mode s in
     if mode = STIM_MODE_NONE then fe_error (Empty_stim (stim_path s))
     else
       bindS (getS (\<lambda>w. case addr of None \<Rightarrow> (ucast (cur_a1_stim_addr w), ucast (cur_a2_stim_addr w)) | Some a \<Rightarrow> (a, a)))
         (\<lambda>(a1_addr, a2_addr).
       bindS (create_prgm_stim i a1_addr a2_addr) (\<lambda>p.
       bindS (seqS (map (add_loaded p) (load_units mode))) (\<lambda>_.
       bindS (load_pattern env i a1_addr a2_addr) (\<lambda>n.
       bindS (modifyS (fold (\<lambda>sel w. add_count sel 1 (if addr = None then add_addr sel (of_nat n) w else w))
         (load_units mode))) (\<lambda>_.
       returnS (a1_addr, a2_addr, mode)))))))"

definition load_stim :: "prgm_env \<Rightarrow> fe_object \<Rightarrow> load_types \<Rightarrow> (u32 \<times> u32 \<times> stim_modes) script" where
  "load_stim env arg load_type =
     bindS global_prgm (\<lambda>_.
     bindS (load_source env arg load_type) (\<lambda>(r, addr).
     bindS (liftS (stim_of_ref r)) (\<lambda>i. load_object env i addr)))"

definition load_result :: "u32 \<times> u32 \<times> stim_modes \<Rightarrow> fe_object script" where
  "load_result = (\<lambda>(a1_addr, a2_addr, mode).
     case mode of
       STIM_MODE_NONE \<Rightarrow> liftS (Inl Bad_state)
     | STIM_MODE_DUAL \<Rightarrow> returnS (Fe_pair (fe_number (unat a1_addr)) (fe_number (unat a2_addr)))
     | STIM_MODE_A1 \<Rightarrow> returnS (Fe_pair (fe_number (unat a1_addr)) (fe_bool False))
     | STIM_MODE_A2 \<Rightarrow> returnS (Fe_pair (fe_bool False) (fe_number (unat a2_addr))))"

definition f_load :: "prgm_env \<Rightarrow> fe_object \<Rightarrow> fe_object script" where
  "f_load env arg = bindS (load_stim env arg LOAD) load_result"

definition f_loads :: "prgm_env \<Rightarrow> fe_object \<Rightarrow> fe_object script" where
  "f_loads env arg = bindS (load_stim env arg LOADS) load_result"

definition f_loada :: "prgm_env \<Rightarrow> fe_object \<Rightarrow> fe_object script" where
  "f_loada env arg = bindS (load_stim env arg LOADA) load_result"

section \<open>Unloading\<close>

text \<open>\<^verbatim>\<open>free_stim\<close> of src/stim.c frees the profile that the stimulus was opened with.\<close>

definition free_stim :: "nat \<Rightarrow> unit script" where
  "free_stim i = (\<lambda>w.
     bindR (stimR w i) (\<lambda>(_, k).
     if profiles w k = None then Inl Crash_freed
     else Inr (Returns (), w\<lparr>stims := (stims w)(i := None), profiles := (profiles w)(k := None)\<rparr>)))"

definition free_prgm_stim :: "nat \<Rightarrow> unit script" where
  "free_prgm_stim p =
     bindS (get_entry p) (\<lambda>ps. bindS (free_stim (ps_stim ps)) (\<lambda>_. on_hash (free_element p)))"

definition unload_unit :: "artix_selects \<Rightarrow> fe_object \<Rightarrow> nat option script" where
  "unload_unit sel addr =
     (if addr = Fe_nil then returnS None
      else
        bindS (fe_tou32 addr) (\<lambda>a.
        bindS (find_loaded sel a) (\<lambda>s.
        case s of
          None \<Rightarrow> fe_error (Not_loaded sel a)
        | Some p \<Rightarrow>
            bindS (modifyS (add_count sel (- 1))) (\<lambda>_. bindS (del_loaded sel p) (\<lambda>_. returnS (Some p))))))"

text \<open>The pair of addresses that a script gives.\<close>

definition addr_pair :: "fe_object \<Rightarrow> (fe_object \<times> fe_object) script" where
  "addr_pair addrs =
     bindS (fe_car addrs) (\<lambda>a1.
     bindS (fe_cdr addrs) (\<lambda>a2.
     if fe_type a2 = FE_TPAIR then fe_error Not_a_cons_pair else returnS (a1, a2)))"

definition free_unloaded :: "nat option \<Rightarrow> nat option \<Rightarrow> unit script" where
  "free_unloaded a1 a2 =
     seqS (map free_prgm_stim
       (case (a1, a2) of
          (Some p, Some q) \<Rightarrow> if p = q then [p] else [p, q]
        | (Some p, None) \<Rightarrow> [p]
        | (None, Some q) \<Rightarrow> [q]
        | (None, None) \<Rightarrow> []))"

definition f_unload :: "fe_object \<Rightarrow> fe_object script" where
  "f_unload arg =
     bindS global_prgm (\<lambda>_.
     bindS (fe_nextarg arg) (\<lambda>(addrs, _).
     bindS (addr_pair addrs) (\<lambda>(a1_addr, a2_addr).
     bindS (unload_unit ARTIX_SELECT_A1 a1_addr) (\<lambda>a1.
     bindS (unload_unit ARTIX_SELECT_A2 a2_addr) (\<lambda>a2.
     bindS (free_unloaded a1 a2) (\<lambda>_. returnS (fe_bool False)))))))"

text \<open>
  \<^verbatim>\<open>unload-all\<close> collects the entries of both tables in a third one, keyed by the lower half of their
  addresses, so that each is freed once: \<open>del_of\<close> is the entry that an element of it stands for. A
  loop over a table (\<^verbatim>\<open>HASH_ITER\<close>) reads the next element before the body and passes each allocated
  element at most once.
\<close>

record del_state =
  del_head :: "nat option"
  del_of :: "nat \<Rightarrow> nat"
  num_unloaded :: nat

definition hash_next :: "nat option \<Rightarrow> nat option script" where
  "hash_next el = (\<lambda>w.
     case el of None \<Rightarrow> Inr (Returns None, w)
     | Some p \<Rightarrow> liftS (bindR (live (hash w) p) (\<lambda>_. Inr (app_next (hash w) p))) w)"

definition collect_entry :: "prgm_env \<Rightarrow> nat \<Rightarrow> del_state \<Rightarrow> del_state script" where
  "collect_entry env p d = (\<lambda>w.
     let key = env_address env p in
     bindR (HASH_FIND (hash w) (del_head d) key) (\<lambda>s.
     case s of
       Some _ \<Rightarrow> Inr (Returns d, w)
     | None \<Rightarrow>
         let (q, u) = new_element (hash w) in
         bindR (HASH_ADD u (del_head d) key q) (\<lambda>(u, h).
         Inr (Returns (d\<lparr>del_head := h, del_of := (del_of d)(q := p)\<rparr>), w\<lparr>hash := u\<rparr>))))"

fun unload_table ::
    "nat \<Rightarrow> prgm_env \<Rightarrow> artix_selects \<Rightarrow> nat option \<Rightarrow> nat option \<Rightarrow> del_state \<Rightarrow> del_state script" where
  "unload_table fuel env sel None tmp d = returnS d"
| "unload_table 0 env sel (Some p) tmp d = liftS (Inl Out_of_fuel)"
| "unload_table (Suc fuel) env sel (Some p) tmp d =
     bindS (del_loaded sel p) (\<lambda>_.
     bindS (modifyS (add_count sel (- 1))) (\<lambda>_.
     bindS (collect_entry env p (d\<lparr>num_unloaded := Suc (num_unloaded d)\<rparr>)) (\<lambda>d.
     bindS (hash_next tmp) (\<lambda>tmp'.
     unload_table fuel env sel tmp tmp' d))))"

definition unload_all_of :: "prgm_env \<Rightarrow> artix_selects \<Rightarrow> del_state \<Rightarrow> del_state script" where
  "unload_all_of env sel d =
     bindS (getS (loaded sel)) (\<lambda>el.
     bindS (getS (\<lambda>w. Suc (brk (hash w)))) (\<lambda>fuel.
     bindS (hash_next el) (\<lambda>tmp.
     bindS (unload_table fuel env sel el tmp (d\<lparr>num_unloaded := 0\<rparr>)) (\<lambda>d.
     bindS (modifyS (\<lambda>w. if sel = ARTIX_SELECT_A1 then w\<lparr>cur_a1_stim_addr := 0\<rparr> else w\<lparr>cur_a2_stim_addr := 0\<rparr>)) (\<lambda>_.
     returnS d)))))"

fun free_collected :: "nat \<Rightarrow> del_state \<Rightarrow> nat option \<Rightarrow> nat option \<Rightarrow> unit script" where
  "free_collected fuel d None tmp = returnS ()"
| "free_collected 0 d (Some q) tmp = liftS (Inl Out_of_fuel)"
| "free_collected (Suc fuel) d (Some q) tmp =
     bindS (free_prgm_stim (del_of d q)) (\<lambda>_.
     bindS (on_hash (free_element q)) (\<lambda>_.
     bindS (hash_next tmp) (\<lambda>tmp'.
     free_collected fuel d tmp tmp')))"

definition f_unload_all :: "prgm_env \<Rightarrow> fe_object \<Rightarrow> fe_object script" where
  "f_unload_all env arg =
     bindS global_prgm (\<lambda>_.
     bindS (unload_all_of env ARTIX_SELECT_A1 \<lparr>del_head = None, del_of = (\<lambda>_. 0), num_unloaded = 0\<rparr>) (\<lambda>d1.
     bindS (unload_all_of env ARTIX_SELECT_A2 d1) (\<lambda>d2.
     bindS (getS (\<lambda>w. Suc (brk (hash w)))) (\<lambda>fuel.
     bindS (hash_next (del_head d2)) (\<lambda>tmp.
     bindS (free_collected fuel d2 (del_head d2) tmp) (\<lambda>_.
     returnS (Fe_pair (fe_number (num_unloaded d1)) (fe_number (num_unloaded d2)))))))))"

section \<open>Running\<close>

record run_state =
  num_tests_ran :: nat
  did_test_fail :: bool
  test_cycle :: nat
  run_db_prgm :: "db_prgm option"
  run_db_stim_id :: int

definition run_lookup :: "artix_selects \<Rightarrow> fe_object \<Rightarrow> (u64 \<times> nat option) script" where
  "run_lookup sel addr =
     (if addr = Fe_nil then returnS (0, None)
      else
        bindS (fe_tou32 addr) (\<lambda>a.
        bindS (find_loaded sel a) (\<lambda>s.
        if s = None then fe_error (Not_loaded sel a) else returnS (ucast a, s))))"

text \<open>The pending result of a stimulus, before it is run, and the results of the stimulus and the program.\<close>

definition insert_pending :: "prgm_env \<Rightarrow> nat \<Rightarrow> run_state \<Rightarrow> run_state script" where
  "insert_pending env p st =
     bindS (getS uses_db) (\<lambda>use.
     if \<not> use then returnS st
     else
       bindS (get_entry p) (\<lambda>ps.
       bindS (get_stim (ps_stim ps)) (\<lambda>(s, _).
       bindS (getS db_prgm_id) (\<lambda>i.
       bindS (on_db (db_insert_stim (env_sqlite env) i (stim_path s) 0 (- 1) STIM_PENDING)) (\<lambda>stim_id.
       returnS (st\<lparr>run_db_stim_id := stim_id\<rparr>))))))"

definition save_results :: "prgm_env \<Rightarrow> bool \<Rightarrow> run_state \<Rightarrow> run_state script" where
  "save_results env failed st =
     (case run_db_prgm st of
        None \<Rightarrow> returnS st
      | Some db_prgm \<Rightarrow>
          if run_db_stim_id st < 0 then returnS st
          else
            bindS (on_db (db_get_stim_by_id (env_sqlite env) (run_db_stim_id st))) (\<lambda>r.
            bindS (liftS (nonnullR r)) (\<lambda>db_stim.
            let did_fail = (if failed then 1 else 0); cycle = (if test_cycle st < 2 ^ 63 then int (test_cycle st) else int (test_cycle st) - 2 ^ 64);
                db_prgm = db_prgm\<lparr>prg_last_stim_id := run_db_stim_id st, prg_did_fail := did_fail, prg_failing_vec := cycle\<rparr> in
            bindS (on_db (db_update_stim (env_sqlite env)
              (db_stim\<lparr>stm_did_fail := did_fail, stm_failing_vec := cycle, stm_state := STIM_DONE\<rparr>))) (\<lambda>_.
            bindS (on_db (db_update_prgm (env_sqlite env) db_prgm)) (\<lambda>_.
            returnS (st\<lparr>run_db_prgm := Some db_prgm\<rparr>))))))"

text \<open>The stimulus of an entry is run; the entry becomes the last one that ran.\<close>

definition run_entry :: "prgm_env \<Rightarrow> nat \<Rightarrow> u64 \<Rightarrow> u64 \<Rightarrow> (nat \<times> bool) script" where
  "run_entry env p a1_addr a2_addr =
     bindS (get_entry p) (\<lambda>ps.
     bindS (get_stim (ps_stim ps)) (\<lambda>(s, _).
     bindS (on_board (artix_run_stim (env_drv env) s a1_addr a2_addr)) (\<lambda>r.
     bindS (modifyS (\<lambda>w. w\<lparr>last_prgm_stim := Some p\<rparr>)) (\<lambda>_. returnS r))))"

definition run_solo :: "prgm_env \<Rightarrow> nat \<Rightarrow> (nat \<times> bool) script" where
  "run_solo env p = bindS (get_entry p) (\<lambda>ps. run_entry env p (ps_a1_addr ps) (ps_a2_addr ps))"

definition run_dual :: "prgm_env \<Rightarrow> nat \<Rightarrow> nat \<Rightarrow> u64 \<Rightarrow> u64 \<Rightarrow> (nat \<times> bool) script" where
  "run_dual env p q a1_addr a2_addr =
     bindS (get_entry p) (\<lambda>ps.
     bindS (get_entry q) (\<lambda>qs.
     if p \<noteq> q \<or> ps_stim ps \<noteq> ps_stim qs then fe_error (Not_a_dual_stim a1_addr a2_addr)
     else run_entry env p a1_addr a2_addr))"

text \<open>One pair of addresses.\<close>

definition run_pair :: "prgm_env \<Rightarrow> fe_object \<Rightarrow> run_state \<Rightarrow> run_state script" where
  "run_pair env addrs st =
     bindS (addr_pair addrs) (\<lambda>(fe_a1, fe_a2).
     if fe_a1 = Fe_nil \<and> fe_a2 = Fe_nil then fe_error Invalid_address_pair
     else
       bindS (run_lookup ARTIX_SELECT_A1 fe_a1) (\<lambda>(a1_addr, a1).
       bindS (run_lookup ARTIX_SELECT_A2 fe_a2) (\<lambda>(a2_addr, a2).
       bindS (case (a1, a2) of (Some p, _) \<Rightarrow> insert_pending env p st | (None, Some q) \<Rightarrow> insert_pending env q st
              | _ \<Rightarrow> fe_error No_stim_found) (\<lambda>st.
       bindS (case (a1, a2) of
                (Some p, Some q) \<Rightarrow> run_dual env p q a1_addr a2_addr
              | (Some p, None) \<Rightarrow> run_solo env p
              | (None, Some q) \<Rightarrow> run_solo env q
              | (None, None) \<Rightarrow> fe_error No_stim_found) (\<lambda>(cycle, failed).
       bindS (save_results env failed (st\<lparr>test_cycle := cycle\<rparr>)) (\<lambda>st.
       returnS (st\<lparr>num_tests_ran := wrap32 (Suc (num_tests_ran st)),
         did_test_fail := (did_test_fail st \<or> failed)\<rparr>)))))))"

fun run_loop :: "prgm_env \<Rightarrow> bool \<Rightarrow> run_state \<Rightarrow> fe_object \<Rightarrow> run_state script" where
  "run_loop env run_continue st Fe_nil = returnS st"
| "run_loop env run_continue st (Fe_pair addrs arg) =
     bindS (run_pair env addrs st) (\<lambda>st.
     if \<not> run_continue \<and> did_test_fail st then returnS st else run_loop env run_continue st arg)"
| "run_loop env run_continue st _ = fe_error Dotted_arguments"

text \<open>The program's row is read once, before the loop.\<close>

definition run_start :: "prgm_env \<Rightarrow> run_state script" where
  "run_start env =
     bindS (getS uses_db) (\<lambda>use.
     bindS (if use
       then bindS (get_db_prgm env) (\<lambda>r. returnS (Some (r\<lparr>prg_did_fail := 0, prg_failing_vec := - 1\<rparr>)))
       else returnS None) (\<lambda>db_prgm.
     returnS \<lparr>num_tests_ran = 0, did_test_fail = False, test_cycle = 0, run_db_prgm = db_prgm, run_db_stim_id = - 1\<rparr>))"

definition run_stim :: "prgm_env \<Rightarrow> fe_object \<Rightarrow> bool \<Rightarrow> fe_object script" where
  "run_stim env arg run_continue =
     bindS global_prgm (\<lambda>_.
     bindS (run_start env) (\<lambda>st.
     bindS (run_loop env run_continue st arg) (\<lambda>st.
     returnS (fe_list [fe_number (num_tests_ran st), fe_bool (did_test_fail st), fe_number (test_cycle st)]))))"

definition f_run :: "prgm_env \<Rightarrow> fe_object \<Rightarrow> fe_object script" where
  "f_run env arg = run_stim env arg False"

definition f_runc :: "prgm_env \<Rightarrow> fe_object \<Rightarrow> fe_object script" where
  "f_runc env arg = run_stim env arg True"

section \<open>Profile, pins, exit\<close>

definition f_set_profile :: "prgm_env \<Rightarrow> fe_object \<Rightarrow> fe_object script" where
  "f_set_profile env arg =
     bindS global_prgm (\<lambda>_.
     bindS (fe_nextarg arg) (\<lambda>(profile_path, _).
     bindS (get_nfs_path env (fe_tostring env profile_path)) (\<lambda>path.
     bindS (liftS (get_profile_by_path (env_files env) (env_behind env path) path)) (\<lambda>profile.
     bindS (modifyS (\<lambda>w. w\<lparr>profiles := (profiles w)(num_profiles w \<mapsto> profile),
       prgm_profile := Some (num_profiles w), num_profiles := Suc (num_profiles w)\<rparr>)) (\<lambda>_.
     returnS (fe_bool False))))))"

text \<open>The pins of the stimulus that ran last. The failing pins are read from the board in both functions.\<close>

definition last_pins :: "prgm_env \<Rightarrow> nat \<Rightarrow> (profile_pin list \<times> u8 list) script" where
  "last_pins env p =
     bindS (get_entry p) (\<lambda>ps.
     bindS (on_board (artix_get_stim_fail_pins (env_drv env))) (\<lambda>fail_pins.
     bindS (get_stim (ps_stim ps)) (\<lambda>(s, _).
     returnS (stim_pins s, fail_pins))))"

definition of_last :: "prgm_env \<Rightarrow> (profile_pin list \<times> u8 list \<Rightarrow> fe_object list res) \<Rightarrow> fe_object script" where
  "of_last env f =
     bindS global_prgm (\<lambda>_.
     bindS (getS last_prgm_stim) (\<lambda>r.
     case r of
       None \<Rightarrow> returnS (fe_bool False)
     | Some p \<Rightarrow> bindS (last_pins env p) (\<lambda>x. bindS (liftS (f x)) (\<lambda>xs. returnS (fe_list xs)))))"

definition f_get_pin_names :: "prgm_env \<Rightarrow> fe_object \<Rightarrow> fe_object script" where
  "f_get_pin_names env arg =
     of_last env (\<lambda>(pins, _). mapR (\<lambda>pin. bindR (derefR (net_name pin)) (\<lambda>name. Inr (Fe_string name))) pins)"

definition f_get_fail_pins :: "prgm_env \<Rightarrow> fe_object \<Rightarrow> fe_object script" where
  "f_get_fail_pins env arg =
     of_last env (\<lambda>(pins, fail_pins).
       mapR (\<lambda>pin. bindR (nthR fail_pins (u32_of_int (dut_io_id pin))) (\<lambda>b. Inr (fe_bool (b \<noteq> 0)))) pins)"

definition prgm_close :: "prgm_world \<Rightarrow> prgm_world" where
  "prgm_close w =
     (if is_path_open w then w\<lparr>prgm_db := map_option db_close (prgm_db w), is_path_open := False\<rparr> else w)"

definition f_exit :: "fe_object \<Rightarrow> fe_object script" where
  "f_exit arg =
     bindS global_prgm (\<lambda>_.
     bindS (fe_nextarg arg) (\<lambda>(code, _).
     if code = Fe_nil then fe_error No_exit_code
     else bindS (fe_tou32 code) (\<lambda>c. bindS (modifyS prgm_close) (\<lambda>_. (\<lambda>w. Inr (Exits c, w))))))"

text \<open>The functions by the names that scripts call them with.\<close>

definition fe_gemini_funcs :: "prgm_env \<Rightarrow> (string \<times> (fe_object \<Rightarrow> fe_object script)) list" where
  "fe_gemini_funcs env =
     [(''load'', f_load env), (''reads'', f_reads env), (''writes'', f_writes env), (''loads'', f_loads env),
      (''loada'', f_loada env), (''unload'', f_unload), (''unload-all'', f_unload_all env), (''run'', f_run env),
      (''runc'', f_runc env), (''set-profile'', f_set_profile env), (''get-pin-names'', f_get_pin_names env),
      (''get-fail-pins'', f_get_fail_pins env), (''exit'', f_exit)]"

definition fe_call :: "prgm_env \<Rightarrow> string \<Rightarrow> fe_object \<Rightarrow> fe_object script" where
  "fe_call env name arg =
     (case map_of (fe_gemini_funcs env) name of None \<Rightarrow> fe_error (Unbound_function name) | Some f \<Rightarrow> f arg)"

section \<open>A program\<close>

definition prgm_create_fe_ctx :: "prgm_world \<Rightarrow> prgm_world res" where
  "prgm_create_fe_ctx w =
     (if fe_ctx w then Inl Bad_state else Inr (w\<lparr>fe_ctx := True, prgm_symbol := Fe_ptr Prgm_ref\<rparr>))"

definition prgm_free_fe_ctx :: "prgm_world \<Rightarrow> prgm_world res" where
  "prgm_free_fe_ctx w = (if \<not> fe_ctx w then Inl Bad_state else Inr (w\<lparr>fe_ctx := False\<rparr>))"

text \<open>
  A new program. The structure comes from \<^verbatim>\<open>malloc\<close>; three fields are never set, so they hold what was
  in the memory: \<open>open0\<close>, \<open>path0\<close>, \<open>db_path0\<close>.
\<close>

definition prgm_create :: "bool \<Rightarrow> string option \<Rightarrow> string option \<Rightarrow> prgm_world \<Rightarrow> prgm_world res" where
  "prgm_create open0 path0 db_path0 w =
     bindR (prgm_create_fe_ctx (w\<lparr>is_path_open := open0, prgm_path := path0, prgm_db_path := db_path0,
       db_prgm_id := - 1, prgm_db := None, fe_ctx := False\<rparr>)) (\<lambda>w.
     Inr (w\<lparr>prgm_profile := None, num_a1_loaded_stims := 0, num_a2_loaded_stims := 0, cur_a1_stim_addr := 0,
       cur_a2_stim_addr := 0, a1_loaded_stims := None, a2_loaded_stims := None, last_prgm_stim := None,
       has_handler := False\<rparr>))"

definition prgm_open :: "prgm_env \<Rightarrow> string \<Rightarrow> int \<Rightarrow> string option \<Rightarrow> prgm_world \<Rightarrow> prgm_world res" where
  "prgm_open env path prgm_id db_path w =
     (if is_path_open w then Inl Bad_state
      else case env_realpath env path of
        None \<Rightarrow> Inl Not_found
      | Some real_path \<Rightarrow>
          let w = w\<lparr>prgm_path := Some real_path\<rparr> in
          bindR
           (if prgm_id < 0 then if prgm_id \<noteq> - 1 then Inl Out_of_range else Inr (w\<lparr>db_prgm_id := prgm_id\<rparr>)
            else
              bindR (nonnullR db_path) (\<lambda>p.
              bindR (db_open (env_sqlite env) (env_opens env) p db_create) (\<lambda>db.
              bindR (db_get_prgm_by_id (env_sqlite env) (env_tz env) prgm_id db) (\<lambda>(r, db).
              bindR (if r = None then Inl Not_found else Inr ()) (\<lambda>_.
              Inr (w\<lparr>db_prgm_id := prgm_id, prgm_db_path := Some p, prgm_db := Some db\<rparr>)))))) (\<lambda>w.
          if env_files env real_path = None then Inl Not_found else Inr (w\<lparr>is_path_open := True\<rparr>)))"

text \<open>The database is freed before the program is closed, and freeing an open database is refused.\<close>

definition prgm_free :: "prgm_world \<Rightarrow> prgm_world res" where
  "prgm_free w =
     bindR (case prgm_db w of None \<Rightarrow> Inr () | Some db \<Rightarrow> db_free db) (\<lambda>_.
     bindR (if is_path_open w \<and> prgm_db w \<noteq> None then Inl Crash_freed else Inr (prgm_close w)) (\<lambda>w.
     bindR (prgm_free_fe_ctx w) (\<lambda>w.
     case prgm_profile w of
       None \<Rightarrow> Inr w
     | Some k \<Rightarrow> if profiles w k = None then Inl Crash_freed else Inr (w\<lparr>profiles := (profiles w)(k := None)\<rparr>))))"

text \<open>
  The loop of the interpreter, for the calls of the functions above that a script makes. An error ends
  it: with a handler \<^verbatim>\<open>prgm_repl\<close> returns 1, without one the process exits with 1. The handler is
  installed only when the input is the terminal, and stays.
\<close>

datatype repl_end = Repl_returns int | Process_exits int

fun repl_calls :: "prgm_env \<Rightarrow> (string \<times> fe_object) list \<Rightarrow> prgm_world \<Rightarrow> (repl_end \<times> prgm_world) res" where
  "repl_calls env [] w = Inr (Repl_returns 0, w)"
| "repl_calls env ((name, arg) # calls) w =
     bindR (fe_call env name arg w) (\<lambda>(r, w).
     case r of
       Returns x \<Rightarrow> repl_calls env calls w
     | Raises e \<Rightarrow> Inr (if has_handler w then Repl_returns 1 else Process_exits 1, w)
     | Exits c \<Rightarrow> Inr (Process_exits (int (unat c mod 256)), w))"

definition prgm_repl :: "prgm_env \<Rightarrow> bool \<Rightarrow> (string \<times> fe_object) list \<Rightarrow> prgm_world \<Rightarrow> (repl_end \<times> prgm_world) res" where
  "prgm_repl env is_stdin calls w = repl_calls env calls (if is_stdin then w\<lparr>has_handler := True\<rparr> else w)"

definition prgm_run :: "prgm_env \<Rightarrow> (string \<times> fe_object) list \<Rightarrow> prgm_world \<Rightarrow> (repl_end \<times> prgm_world) res" where
  "prgm_run env calls w = (if \<not> is_path_open w then Inl Bad_state else prgm_repl env False calls w)"

end
