(* ===== verification/Prgm_Dual.thy ===== *)
theory Prgm_Dual
  imports Prgm
begin

text \<open>
  A dual stimulus is added to both tables of a program through the one handle that its entry has. The
  second addition makes a table of its own for the entry, so that both heads name the same table from
  then on; what the program can do with a dual stimulus follows from that.
\<close>

lemmas script_defs = returnS_def bindS_def fe_error_def getS_def modifyS_def liftS_def

text \<open>The state after the first load of a program, when that was of a dual stimulus: its entry is alone in the table
  that both heads name.\<close>

definition dual_loaded :: "prgm_world \<Rightarrow> nat \<Rightarrow> bool" where
  "dual_loaded w p \<longleftrightarrow> loaded ARTIX_SELECT_A1 w = Some p \<and> loaded ARTIX_SELECT_A2 w = Some p \<and>
     store_ok (hash w) \<and> represents (hash w) (Some p) [p] \<and> cur_a1_stim_addr w = cur_a2_stim_addr w"

lemma add_loaded_new:
  assumes ok: "store_ok (hash w)" and rep: "represents (hash w) (loaded sel w) xs" and al: "alive (hash w) p"
    and p: "p \<notin> set xs" and k: "ucast (entry_addr sel (prgm_stims w p)) \<notin> hh_key (hash w) ` set xs"
  shows "\<exists>u h. add_loaded p sel w = Inr (Returns (), set_loaded sel h (w\<lparr>hash := u\<rparr>)) \<and> represents u h (xs @ [p]) \<and>
    store_ok u \<and> hh_key u = (hh_key (hash w))(p := ucast (entry_addr sel (prgm_stims w p))) \<and>
    h = head_link (xs @ [p]) None \<and> alive u = alive (hash w)"
proof -
  have "find (\<lambda>x. hh_key (hash w) x = ucast (entry_addr sel (prgm_stims w p))) xs = None"
    using k unfolding find_None_iff by (metis imageI)
  then have f: "HASH_FIND (hash w) (loaded sel w) (ucast (entry_addr sel (prgm_stims w p))) = Inr None"
    using HASH_FIND_represents [OF ok rep] by simp
  obtain u h where "HASH_ADD (hash w) (loaded sel w) (ucast (entry_addr sel (prgm_stims w p))) p = Inr (u, h)"
    "represents u h (xs @ [p])" "store_ok u" "hh_key u = (hh_key (hash w))(p := ucast (entry_addr sel (prgm_stims w p)))"
    "alive u = alive (hash w)"
    using HASH_ADD_represents [OF ok rep al p k] by (auto simp: touches_def)
  then show ?thesis using f represents_head by (intro exI [of _ u] exI [of _ h])
    (simp add: add_loaded_def find_loaded_def script_defs Let_def)
qed

lemma add_loaded_taken:
  assumes "store_ok (hash w)" and "represents (hash w) (loaded sel w) xs"
    and "ucast (entry_addr sel (prgm_stims w p)) \<in> hh_key (hash w) ` set xs"
  shows "add_loaded p sel w = Inr (Raises (Already_loaded sel (ucast (entry_addr sel (prgm_stims w p)))), w)"
proof -
  obtain x where "find (\<lambda>x. hh_key (hash w) x = ucast (entry_addr sel (prgm_stims w p))) xs = Some x"
    using assms(3) by (cases "find (\<lambda>x. hh_key (hash w) x = ucast (entry_addr sel (prgm_stims w p))) xs")
      (auto simp: find_None_iff)
  then show ?thesis using HASH_FIND_represents [OF assms(1,2)]
    by (simp add: add_loaded_def find_loaded_def script_defs Let_def)
qed

lemma loaded_set [simp]:
  "loaded ARTIX_SELECT_A1 (set_loaded ARTIX_SELECT_A1 h w) = h" "loaded ARTIX_SELECT_A2 (set_loaded ARTIX_SELECT_A2 h w) = h"
  "loaded ARTIX_SELECT_A1 (set_loaded ARTIX_SELECT_A2 h w) = loaded ARTIX_SELECT_A1 w"
  "loaded ARTIX_SELECT_A2 (set_loaded ARTIX_SELECT_A1 h w) = loaded ARTIX_SELECT_A2 w"
  "hash (set_loaded sel h w) = hash w" "prgm_stims (set_loaded sel h w) = prgm_stims w"
  "loaded sel (w\<lparr>hash := u\<rparr>) = loaded sel w"
  by (simp_all add: loaded_def set_loaded_def)

text \<open>The two additions of an entry to empty tables, and to the tables of a program with a dual stimulus.\<close>

lemma add_first_dual:
  assumes "store_ok (hash w)" and "alive (hash w) p" and "loaded ARTIX_SELECT_A1 w = None" and "loaded ARTIX_SELECT_A2 w = None"
  shows "\<exists>u. seqS (map (add_loaded p) [ARTIX_SELECT_A1, ARTIX_SELECT_A2]) w =
      Inr (Returns (), w\<lparr>hash := u, a1_loaded_stims := Some p, a2_loaded_stims := Some p\<rparr>) \<and>
    store_ok u \<and> represents u (Some p) [p]"
proof -
  obtain u where u: "add_loaded p ARTIX_SELECT_A1 w = Inr (Returns (), set_loaded ARTIX_SELECT_A1 (Some p) (w\<lparr>hash := u\<rparr>))"
    "store_ok u" "alive u = alive (hash w)"
    using add_loaded_new [of w ARTIX_SELECT_A1 "[]" p] assms by auto
  define w1 where "w1 = set_loaded ARTIX_SELECT_A1 (Some p) (w\<lparr>hash := u\<rparr>)"
  obtain v where v: "add_loaded p ARTIX_SELECT_A2 w1 = Inr (Returns (), set_loaded ARTIX_SELECT_A2 (Some p) (w1\<lparr>hash := v\<rparr>))"
    "store_ok v" "represents v (Some p) [p]"
    using add_loaded_new [of w1 ARTIX_SELECT_A2 "[]" p] assms u by (auto simp: w1_def)
  show ?thesis using u(1) v
    by (intro exI [of _ v]) (simp add: script_defs w1_def set_loaded_def)
qed

lemma add_second_dual:
  assumes "dual_loaded w p" and "alive (hash w) q" and "q \<noteq> p" and "ps_a1_addr (prgm_stims w q) = ps_a2_addr (prgm_stims w q)"
  shows "\<exists>sel w'. seqS (map (add_loaded q) [ARTIX_SELECT_A1, ARTIX_SELECT_A2]) w =
    Inr (Raises (Already_loaded sel (ucast (ps_a1_addr (prgm_stims w q)))), w')"
proof -
  let ?k = "ucast (ps_a1_addr (prgm_stims w q)) :: u32"
  note d = assms(1) [unfolded dual_loaded_def]
  have addr: "ucast (entry_addr sel (prgm_stims w q)) = ?k" for sel using assms(4) by (simp add: entry_addr_def)
  show ?thesis
  proof (cases "hh_key (hash w) p = ?k")
    case True
    then have "add_loaded q ARTIX_SELECT_A1 w = Inr (Raises (Already_loaded ARTIX_SELECT_A1 ?k), w)"
      using add_loaded_taken [of w ARTIX_SELECT_A1 "[p]" q] d addr by simp
    then show ?thesis by (auto simp: script_defs)
  next
    case False
    obtain u where u: "add_loaded q ARTIX_SELECT_A1 w = Inr (Returns (), set_loaded ARTIX_SELECT_A1 (Some p) (w\<lparr>hash := u\<rparr>))"
      "store_ok u" "represents u (Some p) [p, q]" "hh_key u q = ?k"
      using add_loaded_new [of w ARTIX_SELECT_A1 "[p]" q] d addr assms(2,3) False by auto
    define w1 where "w1 = set_loaded ARTIX_SELECT_A1 (Some p) (w\<lparr>hash := u\<rparr>)"
    have "add_loaded q ARTIX_SELECT_A2 w1 = Inr (Raises (Already_loaded ARTIX_SELECT_A2 ?k), w1)"
      using add_loaded_taken [of w1 ARTIX_SELECT_A2 "[p, q]" q] u d addr by (simp add: w1_def)
    then show ?thesis using u(1) by (auto simp: script_defs w1_def)
  qed
qed

section \<open>Loading\<close>

lemma bindS_Returns:
  "bindS m f w = Inr (Returns y, w') \<longleftrightarrow> (\<exists>x w1. m w = Inr (Returns x, w1) \<and> f x w1 = Inr (Returns y, w'))"
  by (cases "m w") (auto simp: bindS_def split: prod.splits outcome.splits)

lemma get_stim_Inr: "stims w i = Some (s, k) \<Longrightarrow> get_stim i w = Inr (Returns (s, k), w)"
  by (simp add: get_stim_def stimR_def liftS_def)

lemma load_pattern_keeps:
  assumes "load_pattern env i a1 a2 w = Inr (Returns n, w')"
  obtains b f where "w' = w\<lparr>the_board := b, stims := f\<rparr>"
proof -
  obtain s k where s: "get_stim i w = Inr (Returns (s, k), w)"
    using assms by (auto simp: load_pattern_def bindS_Returns get_stim_def liftS_def bindR_Inr_iff)
  then obtain s2 m w1 where "on_board (artix_load_stim (env_lz4d env) (env_drv env) s (ucast a1) (ucast a2)) w = Inr (Returns (s2, m), w1)"
    "put_stim i s2 w1 = Inr (Returns (), w')"
    using assms by (auto simp: load_pattern_def bindS_Returns getS_def liftS_def returnS_def split: if_splits)
  then show thesis using that by (auto simp: on_board_def put_stim_def modifyS_def bindR_Inr_iff)
qed

lemma first_dual_load:
  assumes ok: "store_ok (hash w)" and empty: "loaded ARTIX_SELECT_A1 w = None" "loaded ARTIX_SELECT_A2 w = None"
    and cur: "cur_a1_stim_addr w = cur_a2_stim_addr w"
    and s: "stims w i = Some (s, k)" and dual: "stim_get_mode s = STIM_MODE_DUAL"
    and load: "load_object env i None w = Inr (Returns r, w1)"
  shows "\<exists>p. dual_loaded w1 p" and "prgm_symbol w1 = prgm_symbol w"
proof -
  obtain p u where new: "new_element (hash w) = (p, u)" by fastforce
  note el = new_element_represents [OF ok new]
  let ?a = "ucast (cur_a1_stim_addr w) :: u32"
  define w2 where "w2 = w\<lparr>hash := u, prgm_stims := (prgm_stims w)(p := \<lparr>ps_a1_addr = ucast ?a, ps_a2_addr = ucast ?a, ps_stim = i\<rparr>)\<rparr>"
  obtain v where v: "seqS (map (add_loaded p) [ARTIX_SELECT_A1, ARTIX_SELECT_A2]) w2 =
      Inr (Returns (), w2\<lparr>hash := v, a1_loaded_stims := Some p, a2_loaded_stims := Some p\<rparr>)"
    "store_ok v" "represents v (Some p) [p]"
    using add_first_dual [of w2 p] el(1,2) empty by (auto simp: w2_def loaded_def)
  define w3 where "w3 = w2\<lparr>hash := v, a1_loaded_stims := Some p, a2_loaded_stims := Some p\<rparr>"
  have "create_prgm_stim i ?a ?a w = Inr (Returns p, w2)"
    using new by (simp add: create_prgm_stim_def w2_def)
  then obtain n w4 where w4: "load_pattern env i ?a ?a w3 = Inr (Returns n, w4)"
    and w1: "w1 = fold (\<lambda>sel w. add_count sel 1 (add_addr sel (of_nat n) w)) [ARTIX_SELECT_A1, ARTIX_SELECT_A2] w4"
    using load get_stim_Inr [OF s] v(1) cur dual
    by (auto simp: load_object_def bindS_Returns getS_def modifyS_def returnS_def load_units_def w3_def [symmetric])
  obtain b f where "w4 = w3\<lparr>the_board := b, stims := f\<rparr>" using load_pattern_keeps [OF w4] .
  then have "dual_loaded w1 p" "prgm_symbol w1 = prgm_symbol w"
    using v(2,3) cur by (simp_all add: w1 dual_loaded_def loaded_def w3_def w2_def add_count_def add_addr_def)
  then show "\<exists>p. dual_loaded w1 p" "prgm_symbol w1 = prgm_symbol w" by blast+
qed

lemma second_dual_load:
  assumes d: "dual_loaded w p" and s: "stims w j = Some (s, k)" and dual: "stim_get_mode s = STIM_MODE_DUAL"
  shows "\<exists>sel a w'. load_object env j addr w = Inr (Raises (Already_loaded sel a), w')"
proof -
  note d' = d [unfolded dual_loaded_def]
  obtain q u where new: "new_element (hash w) = (q, u)" by fastforce
  have ok: "store_ok (hash w)" and rep: "represents (hash w) (Some p) [p]" using d' by auto
  note el = new_element_represents [OF ok new]
  let ?a = "case addr of None \<Rightarrow> ucast (cur_a1_stim_addr w) :: u32 | Some a \<Rightarrow> a"
  define w2 where "w2 = w\<lparr>hash := u, prgm_stims := (prgm_stims w)(q := \<lparr>ps_a1_addr = ucast ?a, ps_a2_addr = ucast ?a, ps_stim = j\<rparr>)\<rparr>"
  have d2: "dual_loaded w2 p" using d' el(1) el(4) [OF rep] by (simp add: dual_loaded_def w2_def loaded_def)
  have q: "alive (hash w2) q" "q \<noteq> p" "ps_a1_addr (prgm_stims w2 q) = ps_a2_addr (prgm_stims w2 q)"
    using el(2) el(5) [OF rep] by (simp_all add: w2_def)
  obtain sel w3 where "seqS (map (add_loaded q) [ARTIX_SELECT_A1, ARTIX_SELECT_A2]) w2 =
      Inr (Raises (Already_loaded sel (ucast (ps_a1_addr (prgm_stims w2 q)))), w3)"
    using add_second_dual [OF d2 q] by blast
  moreover have "create_prgm_stim j ?a ?a w = Inr (Returns q, w2)" using new by (simp add: create_prgm_stim_def w2_def)
  moreover have "(case addr of None \<Rightarrow> (ucast (cur_a1_stim_addr w), ucast (cur_a2_stim_addr w)) | Some a \<Rightarrow> (a, a)) = (?a, ?a)"
    using d' by (simp split: option.split)
  ultimately show ?thesis
    using get_stim_Inr [OF s] dual by (auto simp: load_object_def script_defs load_units_def)
qed

lemma global_ok: "prgm_symbol w = Fe_ptr Prgm_ref \<Longrightarrow> global_prgm w = Inr (Returns (), w)"
  by (simp add: global_prgm_def fe_toptr_def script_defs)

lemma global_Returns: "global_prgm w = Inr (Returns x, w') \<longleftrightarrow> prgm_symbol w = Fe_ptr Prgm_ref \<and> w' = w"
  by (cases "prgm_symbol w") (auto simp: global_prgm_def fe_toptr_def script_defs)

lemma f_loads_object:
  assumes "prgm_symbol w = Fe_ptr Prgm_ref"
  shows "f_loads env (Fe_pair (Fe_ptr (Stim_ref i)) rest) w = bindS (load_object env i None) load_result w"
  using global_ok [OF assms]
  by (simp add: f_loads_def load_stim_def load_source_def fe_nextarg_def fe_toptr_def stim_of_ref_def script_defs)

lemma loads_makes_dual:
  assumes "store_ok (hash w)" and "a1_loaded_stims w = None" and "a2_loaded_stims w = None"
    and "cur_a1_stim_addr w = cur_a2_stim_addr w" and "stims w i = Some (s, k)" and "stim_get_mode s = STIM_MODE_DUAL"
    and load: "f_loads env (Fe_pair (Fe_ptr (Stim_ref i)) rest) w = Inr (Returns v, w1)"
  obtains p where "dual_loaded w1 p" and "prgm_symbol w1 = Fe_ptr Prgm_ref"
proof -
  have sym: "prgm_symbol w = Fe_ptr Prgm_ref" using load by (auto simp: f_loads_def load_stim_def bindS_Returns global_Returns)
  from load obtain r w2 where r: "load_object env i None w = Inr (Returns r, w2)" "load_result r w2 = Inr (Returns v, w1)"
    unfolding f_loads_object [OF sym] bindS_Returns by blast
  have "w1 = w2" using r(2) by (auto simp: load_result_def script_defs split: prod.splits stim_modes.splits)
  then show thesis using that first_dual_load [OF assms(1) _ _ assms(4-6) r(1)] assms(2,3) sym by (auto simp: loaded_def)
qed

text \<open>C23. Two loads of dual stimuli, one right after the other, when nothing is loaded before and both units have
  the same next address: if the first \<^verbatim>\<open>loads\<close> returns, the second one raises that its address is taken in one of
  the tables, since both heads name the table of the first. (What happens after a stimulus for one unit was
  loaded is not stated here: the addresses and tables differ then.)\<close>

theorem second_dual_load_fails:
  assumes "store_ok (hash w)" and "a1_loaded_stims w = None" and "a2_loaded_stims w = None"
    and "cur_a1_stim_addr w = cur_a2_stim_addr w"
    and "stims w i = Some (s, k)" and "stim_get_mode s = STIM_MODE_DUAL"
    and "f_loads env (Fe_pair (Fe_ptr (Stim_ref i)) rest) w = Inr (Returns v, w1)"
    and "stims w1 j = Some (s', k')" and "stim_get_mode s' = STIM_MODE_DUAL"
  shows "\<exists>sel a w2. f_loads env (Fe_pair (Fe_ptr (Stim_ref j)) rest') w1 = Inr (Raises (Already_loaded sel a), w2)"
proof -
  obtain p where p: "dual_loaded w1 p" "prgm_symbol w1 = Fe_ptr Prgm_ref" using loads_makes_dual [OF assms(1-7)] .
  obtain sel a w2 where "load_object env j None w1 = Inr (Raises (Already_loaded sel a), w2)"
    using second_dual_load [OF p(1) assms(8,9)] by blast
  then show ?thesis by (simp add: f_loads_object [OF p(2)]) (simp add: bindS_def)
qed

section \<open>Unloading\<close>

lemma num_bits_le: "n < 2 ^ k \<Longrightarrow> num_bits n \<le> k"
proof (induction k arbitrary: n)
  case (Suc k)
  have "num_bits (n div 2) \<le> k" using Suc.prems by (intro Suc.IH) auto
  then show ?case by (simp add: num_bits.simps [of n])
qed (simp add: num_bits.simps)

lemma fe_number_facts [simp]: "fe_number n \<noteq> Fe_nil" "fe_type (fe_number n) = FE_TNUMBER"
  by (simp_all add: fe_number_def)

lemma u32_less: "unat (a :: u32) < 4294967296"
  using unsigned_less [of a, where ?'a = nat] by simp

lemma to_double_small: "n < 2 ^ 53 \<Longrightarrow> to_double n = n"
  using num_bits_le [of n 53] by (simp add: to_double_def Let_def)

lemma number_u32_nat: "n < 4294967296 \<Longrightarrow> number_u32 (Finite (of_nat n)) = Inr (of_nat n)"
  by (simp add: number_u32_def not_le of_nat_less_0_iff)

lemma fe_tou32_number [simp]: "fe_tou32 (fe_number (unat a)) w = Inr (Returns a, w)"
proof -
  define n where "n = unat a"
  have "n < 4294967296" using u32_less by (simp add: n_def)
  then have "fe_tou32 (fe_number n) w = Inr (Returns (of_nat n), w)"
    by (simp add: fe_tou32_def fe_tonumber_def fe_number_def to_double_small number_u32_nat script_defs)
  then show ?thesis by (simp add: n_def)
qed

lemma delete_only:
  assumes "store_ok u" and "represents u (Some p) [p]"
  shows "HASH_DELETE u (Some p) p = Inr (u\<lparr>tables := (tables u)(hh_tbl u p := None)\<rparr>, None)"
proof -
  have "alive u p" "app_prev u p = None" "app_next u p = None" "\<exists>tb. tables u (hh_tbl u p) = Some tb"
    using assms(2) by (auto simp: represents_def table_of_def)
  then show ?thesis by (auto simp: HASH_DELETE_def)
qed

text \<open>C24. When one dual stimulus is all that is loaded (\<open>dual_loaded\<close>: both heads name the table that has its entry as
  the only element), unloading it uses freed memory: the table of both units is freed with the entry of the
  first, and the second is looked up in it; \<^verbatim>\<open>unload-all\<close> deletes from it.\<close>

theorem dual_unload_uses_freed:
  assumes "dual_loaded w p" and "prgm_symbol w = Fe_ptr Prgm_ref" and "hh_key (hash w) p = a"
  shows "f_unload (Fe_pair (Fe_pair (fe_number (unat a)) (fe_number (unat (b :: u32)))) Fe_nil) w = Inl Crash_freed \<and>
    f_unload_all env arg w = Inl Crash_freed"
proof -
  note d = assms(1) [unfolded dual_loaded_def]
  have ok: "store_ok (hash w)" and rep: "represents (hash w) (Some p) [p]"
    and a1: "loaded ARTIX_SELECT_A1 w = Some p" and a2: "loaded ARTIX_SELECT_A2 w = Some p" using d by auto
  have p: "alive (hash w) p" "app_next (hash w) p = None" using rep by (auto simp: represents_def)
  define u where "u = (hash w)\<lparr>tables := (tables (hash w))(hh_tbl (hash w) p := None)\<rparr>"
  show ?thesis
  proof
    define w1 where "w1 = add_count ARTIX_SELECT_A1 (- 1) w"
    define w2 where "w2 = set_loaded ARTIX_SELECT_A1 None (w1\<lparr>hash := u\<rparr>)"
    have w1: "hash w1 = hash w" "loaded sel w1 = loaded sel w" for sel
      by (simp_all add: w1_def add_count_def loaded_def)
    have "find_loaded ARTIX_SELECT_A1 a w = Inr (Returns (Some p), w)"
      using HASH_FIND_represents [OF ok rep] a1 assms(3) by (simp add: find_loaded_def liftS_def)
    moreover have "del_loaded ARTIX_SELECT_A1 p w1 = Inr (Returns (), w2)"
      using delete_only [OF ok rep] a1 by (simp add: del_loaded_def w1 w2_def u_def)
    ultimately have un1: "unload_unit ARTIX_SELECT_A1 (fe_number (unat a)) w = Inr (Returns (Some p), w2)"
      by (simp add: unload_unit_def fe_tou32_number script_defs w1_def [symmetric])
    have "find_loaded ARTIX_SELECT_A2 b w2 = Inl Crash_freed"
      using a2 p by (simp add: find_loaded_def liftS_def w2_def w1 u_def HASH_FIND_def tableR_def live_def)
    then have un2: "unload_unit ARTIX_SELECT_A2 (fe_number (unat b)) w2 = Inl Crash_freed"
      by (simp add: unload_unit_def fe_tou32_number script_defs)
    show "f_unload (Fe_pair (Fe_pair (fe_number (unat a)) (fe_number (unat (b :: u32)))) Fe_nil) w = Inl Crash_freed"
      using global_ok [OF assms(2)] un1 un2
      by (simp add: f_unload_def fe_nextarg_def addr_pair_def fe_car_def fe_cdr_def script_defs)
  next
    define d0 :: del_state where "d0 = \<lparr>del_head = None, del_of = (\<lambda>_. 0), num_unloaded = 0\<rparr>"
    obtain q v where new: "new_element u = (q, v)" by fastforce
    have oku: "store_ok u" using ok by (auto simp: store_ok_def u_def)
    note el = new_element_represents [OF oku new]
    obtain v' h where add: "HASH_ADD v None (env_address env p) q = Inr (v', h)" and t: "touches {q} (next_table v) v v'"
      using HASH_ADD_represents [OF el(1) _ el(2), of None "[]" "env_address env p"] by (auto simp: added_table_def)
    define d1 where "d1 = d0\<lparr>num_unloaded := 1, del_head := h, del_of := (del_of d0)(q := p)\<rparr>"
    define w2 where "w2 = add_count ARTIX_SELECT_A1 (- 1) (set_loaded ARTIX_SELECT_A1 None (w\<lparr>hash := u\<rparr>))"
    define w3 where "w3 = w2\<lparr>hash := v', cur_a1_stim_addr := 0\<rparr>"
    have w2: "hash w2 = u" "loaded ARTIX_SELECT_A2 w2 = Some p"
      using a2 by (simp_all add: w2_def add_count_def loaded_def set_loaded_def)
    have "del_loaded ARTIX_SELECT_A1 p w = Inr (Returns (), set_loaded ARTIX_SELECT_A1 None (w\<lparr>hash := u\<rparr>))"
      using delete_only [OF ok rep] a1 by (simp add: del_loaded_def u_def)
    moreover have "collect_entry env p (d0\<lparr>num_unloaded := 1\<rparr>) w2 = Inr (Returns d1, w2\<lparr>hash := v'\<rparr>)"
      using new add by (simp add: collect_entry_def w2 d0_def d1_def HASH_FIND_def)
    ultimately have first: "unload_all_of env ARTIX_SELECT_A1 d0 w = Inr (Returns d1, w3)"
      using a1 p by (simp add: unload_all_of_def hash_next_def script_defs w2_def [symmetric] w3_def d0_def)
    have q: "q \<noteq> p" and tbl: "hh_tbl (hash w) p < next_table (hash w)"
      using el(3) p ok rep by (auto simp: u_def represents_def store_ok_def table_of_def)
    have "alive v' p" "app_next v' p = None" "tables v' (hh_tbl v' p) = None"
      using t q tbl p new by (auto simp: touches_def new_element_def u_def)
    then have "unload_all_of env ARTIX_SELECT_A2 d1 w3 = Inl Crash_freed"
      using w2 by (simp add: unload_all_of_def hash_next_def script_defs w3_def loaded_def del_loaded_def HASH_DELETE_def
        tableR_def Let_def)
    then show "f_unload_all env arg w = Inl Crash_freed"
      using first global_ok [OF assms(2)] by (simp add: f_unload_all_def script_defs d0_def)
  qed
qed

end
