(* ===== verification/Prgm_Session.thy ===== *)
theory Prgm_Session
  imports Prgm_Dual
begin

text \<open>
  Sessions without dual stimuli: whatever a script calls, the two tables of the program stay separate
  finite maps from addresses to entries, and the counters are their sizes. The third table is the one
  that \<^verbatim>\<open>unload-all\<close> builds.
\<close>

section \<open>Loading keeps the units of a stimulus\<close>

definition same_units :: "stim \<Rightarrow> stim \<Rightarrow> bool" where
  "same_units s s' \<longleftrightarrow> num_a1_vec_chunks s' = num_a1_vec_chunks s \<and> num_a2_vec_chunks s' = num_a2_vec_chunks s"

lemma same_units_mode: "same_units s s' \<Longrightarrow> stim_get_mode s' = stim_get_mode s"
  by (simp add: same_units_def stim_get_mode_def)

lemma same_units_refl [simp]: "same_units s s"
  by (simp add: same_units_def)

lemma same_units_trans: "same_units a b \<Longrightarrow> same_units b c \<Longrightarrow> same_units a c"
  by (simp add: same_units_def)

lemma same_units_set [simp]:
  "same_units s (set_unit_chunks sel cs s') = same_units s s'" "same_units s (set_unit_cur sel k s') = same_units s s'"
  "same_units s (s'\<lparr>cur_map_byte := n\<rparr>) = same_units s s'" "same_units s (s'\<lparr>stim_dots := d\<rparr>) = same_units s s'"
  "same_units (set_unit_chunks sel cs s) s' = same_units s s'" "same_units (set_unit_cur sel k s) s' = same_units s s'"
  by (cases sel; simp add: same_units_def)+

lemma next_word_units: "stim_get_next_bitstream_subvecs s = Inr (x, s') \<Longrightarrow> same_units s s'"
  by (auto simp: stim_get_next_bitstream_subvecs_def stim_get_next_bitstream_word_def read_map_32_def read_map_n_def
    bindR_Inr_iff Let_def split: stim_types.splits if_splits prod.splits)

lemma fill_vec_units: "fill_vec body cur (s, c, d) = Inr (s', c', d') \<Longrightarrow> same_units s s'"
  by (auto simp: fill_vec_def next_data_subvecs_def bindR_Inr_iff Let_def split: if_splits dest: next_word_units)

lemma fill_loop_units: "fill_loop n body cur (s, c, d) = Inr (s', c', d') \<Longrightarrow> same_units s s'"
proof (induction n arbitrary: cur s c d)
  case (Suc n)
  then show ?case
    by (auto simp: bindR_Inr_iff split: if_splits dest!: fill_vec_units intro: same_units_trans)
qed simp

lemma fill_dots_units: "stim_fill_chunk_by_dots s c d body = Inr (s', c', d') \<Longrightarrow> same_units s s'"
  by (auto simp: stim_fill_chunk_by_dots_def bindR_Inr_iff Let_def split: if_splits dest: fill_loop_units)

lemma fill_config_units: "fill_config type n pad (s, c) = Inr (s', c') \<Longrightarrow> same_units s s'"
  by (auto simp: fill_config_def bindR_Inr_iff split: if_splits dest: fill_dots_units)

lemma fill_bitstream_units: "fill_bitstream s c b = Inr (s', c') \<Longrightarrow> same_units s s'"
  by (auto simp: fill_bitstream_def bindR_Inr_iff Let_def split: if_splits dest!: fill_config_units intro: same_units_trans)

lemma fill_chunk_units: "stim_fill_chunk lz4 s c = Inr (s', c') \<Longrightarrow> same_units s s'"
  by (cases "stim_type s"; cases "stim_dots s") (auto simp: stim_fill_chunk_def bindR_Inr_iff split: if_splits
    dest: fill_dots_units fill_bitstream_units)

lemma unload_current_units: "unload_current sel s = Inr s' \<Longrightarrow> same_units s s'"
  by (auto simp: unload_current_def bindR_Inr_iff Let_def split: if_splits)

lemma next_chunk_units:
  assumes "next_chunk lz4 sel s = Inr (r, s')"
  shows "same_units s s'"
proof -
  obtain q s2 where q: "stim_load_next_chunk lz4 s sel = Inr (q, s2)" and "s' = s2"
    using assms by (auto simp: next_chunk_def bindR_Inr_iff split: option.splits)
  moreover obtain s1 where "same_units s s1" and "same_units s1 s2"
    using q by (auto simp: stim_load_next_chunk_def bindR_Inr_iff Let_def split: if_splits option.splits
      dest!: fill_chunk_units unload_current_units)
  ultimately show ?thesis using same_units_trans by blast
qed

lemma drain_units: "drain n (next_chunk lz4 sel) f s x = Inr (s', x') \<Longrightarrow> same_units s s'"
proof (induction n arbitrary: s x)
  case (Suc n)
  from Suc.prems obtain r s1 where s1: "next_chunk lz4 sel s = Inr (r, s1)"
    and rest: "(case r of None \<Rightarrow> Inr (s1, x) | Some c \<Rightarrow> bindR (f c x) (drain n (next_chunk lz4 sel) f s1)) = Inr (s', x')"
    by (auto simp: bindR_Inr_iff)
  note same_units_trans [OF next_chunk_units [OF s1]]
  then show ?case using rest Suc.IH by (auto simp: bindR_Inr_iff split: option.splits)
qed simp

declare drain.simps [simp del]

lemma artix_load_units: "artix_load_stim lz4 drv s a1 a2 b = Inr ((s', n), b') \<Longrightarrow> same_units s s'"
proof -
  have unit: "same_units s s'" if "load_unit lz4 drv a sel (s, n0) b = Inr ((s', n), b')" for a sel s n0 b s' n b'
    using that by (auto simp: load_unit_def bindR_Inr_iff dest: drain_units)
  have "same_units s s'" if "foldB (load_unit lz4 drv a) us (s, n0) b = Inr ((s', n), b')" for a us s n0 b s' n b'
    using that
  proof (induction us arbitrary: s n0 b)
    case (Cons u us)
    then show ?case by (auto simp: bindB_def bindR_Inr_iff dest!: unit intro: same_units_trans)
  qed (simp add: returnB_def)
  then show "artix_load_stim lz4 drv s a1 a2 b = Inr ((s', n), b') \<Longrightarrow> same_units s s'"
    by (auto simp: artix_load_stim_def failB_def split: if_splits)
qed

lemma serialize_chunk_units: "stim_serialize_chunk lz4c lz4d s sel cs = Inr (s', x') \<Longrightarrow> same_units s s'"
  by (auto simp: stim_serialize_chunk_def split: if_splits dest: drain_units)

lemma serialize_units:
  assumes "stim_serialize_to_path lz4c lz4d s = Inr (m, s')"
  shows "same_units s s'"
proof -
  obtain s1 cs1 n1 cs2 n2 where
    1: "(if num_a1_vec_chunks s > 0 then stim_serialize_chunk lz4c lz4d s ARTIX_SELECT_A1 (replicate (num_a1_vec_chunks s) new_VecChunk)
       else Inr (s, replicate (num_a1_vec_chunks s) new_VecChunk, 0)) = Inr (s1, cs1, n1)" and
    2: "(if num_a2_vec_chunks s1 > 0 then stim_serialize_chunk lz4c lz4d s1 ARTIX_SELECT_A2 (replicate (num_a2_vec_chunks s) new_VecChunk)
       else Inr (s1, replicate (num_a2_vec_chunks s) new_VecChunk, 0)) = Inr (s', cs2, n2)"
    using assms unfolding stim_serialize_to_path_def Let_def by (fastforce simp: bindR_Inr_iff split: prod.splits)
  from 1 have "same_units s s1" by (auto split: if_splits dest: serialize_chunk_units)
  moreover from 2 have "same_units s1 s'" by (auto split: if_splits dest: serialize_chunk_units)
  ultimately show ?thesis by (rule same_units_trans)
qed

section \<open>Tables side by side\<close>

text \<open>A head with the entries it stands for. Two of them are apart when neither shares an element or, unless one is
  empty, the table with the other.\<close>

type_synonym listed = "nat option \<times> nat list"

definition apart :: "hash_store \<Rightarrow> listed \<Rightarrow> listed \<Rightarrow> bool" where
  "apart u A B \<longleftrightarrow> set (snd A) \<inter> set (snd B) = {} \<and>
     (snd A = [] \<or> snd B = [] \<or> table_of u (snd A) \<noteq> table_of u (snd B))"

definition separate :: "hash_store \<Rightarrow> listed \<Rightarrow> listed \<Rightarrow> listed \<Rightarrow> bool" where
  "separate u A B C \<longleftrightarrow> store_ok u \<and> (\<forall>X\<in>{A, B, C}. represents u (fst X) (snd X)) \<and>
     apart u A B \<and> apart u A C \<and> apart u B C"

lemma apart_sym: "apart u A B \<longleftrightarrow> apart u B A"
  by (auto simp: apart_def)

lemma separate_perm: "separate u A B C \<longleftrightarrow> separate u B A C" "separate u A B C \<longleftrightarrow> separate u C B A"
  by (auto simp: separate_def apart_sym [of u])

lemma separate_parts:
  "separate u A B C \<Longrightarrow> store_ok u" "separate u A B C \<Longrightarrow> represents u (fst A) (snd A)"
  "separate u A B C \<Longrightarrow> represents u (fst B) (snd B)" "separate u A B C \<Longrightarrow> represents u (fst C) (snd C)"
  by (auto simp: separate_def)

text \<open>An operation on the first of three that touches only its elements and its table.\<close>

lemma separate_touches:
  assumes sep: "separate u A B C" and t: "touches X t u u'" and ok: "store_ok u'"
    and rep: "represents u' (fst A') (snd A')" and X: "set (snd A') \<subseteq> X"
    and B: "set (snd B) \<inter> X = {}" "snd B = [] \<or> table_of u (snd B) \<noteq> t"
    and C: "set (snd C) \<inter> X = {}" "snd C = [] \<or> table_of u (snd C) \<noteq> t"
    and tab: "snd A' = [] \<or> table_of u' (snd A') = t"
  shows "separate u' A' B C"
proof -
  note frameB = represents_frame [OF t separate_parts(3) [OF sep] B]
  note frameC = represents_frame [OF t separate_parts(4) [OF sep] C]
  have ap: "apart u' A' Y" if "set (snd Y) \<inter> X = {}" "snd Y = [] \<or> table_of u' (snd Y) \<noteq> t" for Y
  proof -
    have "set (snd A') \<inter> set (snd Y) = {}" using that(1) X by auto
    moreover have "snd A' = [] \<or> snd Y = [] \<or> table_of u' (snd A') \<noteq> table_of u' (snd Y)" using that(2) tab by argo
    ultimately show ?thesis unfolding apart_def by (rule conjI)
  qed
  have "apart u' A' B" using frameB(2) B by (intro ap) argo+
  moreover have "apart u' A' C" using frameC(2) C by (intro ap) argo+
  moreover have "apart u' B C"
    using sep frameB(2) frameC(2) unfolding separate_def apart_def by (metis (no_types))
  ultimately show ?thesis unfolding separate_def using ok rep frameB(1) frameC(1) by simp
qed

lemma new_table_apart:
  assumes "store_ok u" and "represents u h ys"
  shows "ys = [] \<or> table_of u ys \<noteq> next_table u"
  using assms by (auto simp: store_ok_def represents_def)

lemma separate_add:
  assumes sep: "separate u (h, xs) B C" and al: "alive u p"
    and p: "p \<notin> set xs" "p \<notin> set (snd B)" "p \<notin> set (snd C)" and k: "k \<notin> hh_key u ` set xs"
  obtains u' h' where "HASH_ADD u h k p = Inr (u', h')" and "separate u' (h', xs @ [p]) B C"
    and "hh_key u' = (hh_key u)(p := k)" and "alive u' = alive u" and "brk u' = brk u"
proof -
  have ok: "store_ok u" and rep: "represents u h xs" using separate_parts(1,2) [OF sep] by auto
  obtain u' h' where u': "HASH_ADD u h k p = Inr (u', h')" "represents u' h' (xs @ [p])" "store_ok u'"
    "hh_key u' = (hh_key u)(p := k)" "touches (insert p (set xs)) (added_table u xs) u u'"
    "table_of u' (xs @ [p]) = added_table u xs"
    using HASH_ADD_represents [OF ok rep al p(1) k] by blast
  have apart: "snd Y = [] \<or> table_of u (snd Y) \<noteq> added_table u xs" if "Y \<in> {B, C}" for Y
  proof -
    have "represents u (fst Y) (snd Y)" "apart u (h, xs) Y" using that sep by (auto simp: separate_def)
    then show ?thesis using new_table_apart [OF ok] by (auto simp: added_table_def apart_def)
  qed
  have "separate u' (h', xs @ [p]) B C"
    using sep p u'(2,6) apart by (intro separate_touches [OF sep u'(5,3)]) (auto simp: separate_def apart_def)
  then show thesis using that u' by (auto simp: touches_def)
qed

lemma separate_del:
  assumes sep: "separate u (h, xs @ x # ys) B C"
  obtains u' h' where "HASH_DELETE u h x = Inr (u', h')" and "separate u' (h', xs @ ys) B C"
    and "hh_key u' = hh_key u" and "alive u' = alive u" and "brk u' = brk u"
proof -
  have ok: "store_ok u" and rep: "represents u h (xs @ x # ys)" using separate_parts(1,2) [OF sep] by auto
  obtain u' h' where u': "HASH_DELETE u h x = Inr (u', h')" "represents u' h' (xs @ ys)" "store_ok u'"
    "hh_key u' = hh_key u" "touches (set (xs @ x # ys)) (table_of u (xs @ x # ys)) u u'"
    "xs @ ys \<noteq> [] \<longrightarrow> table_of u' (xs @ ys) = table_of u (xs @ x # ys)"
    using HASH_DELETE_represents [OF ok rep] by blast
  have "separate u' (h', xs @ ys) B C"
    using sep u'(2,6) by (intro separate_touches [OF sep u'(5,3)]) (auto simp: separate_def apart_def)
  then show thesis using that u' by (auto simp: touches_def)
qed

lemma separate_new:
  assumes "separate u A B C" and "new_element u = (p, u')"
  shows "separate u' A B C" and "alive u' p" and "hh_key u' = hh_key u" and "brk u' = Suc (brk u)"
    and "p \<notin> set (snd A) \<union> set (snd B) \<union> set (snd C)"
proof -
  note new = new_element_represents [OF separate_parts(1) [OF assms(1)] assms(2)]
  show "separate u' A B C" using assms(1) new by (auto simp: separate_def apart_def)
  show "alive u' p" "hh_key u' = hh_key u" using new by auto
  show "brk u' = Suc (brk u)" using assms(2) by (auto simp: new_element_def)
  show "p \<notin> set (snd A) \<union> set (snd B) \<union> set (snd C)" using new(5) assms(1) by (auto simp: separate_def)
qed

lemma separate_free:
  assumes "separate u A B C" and "free_element p u = Inr u'" and "p \<notin> set (snd A) \<union> set (snd B) \<union> set (snd C)"
  shows "separate u' A B C" and "hh_key u' = hh_key u"
proof -
  have al: "alive u p" using assms(2) by (auto simp: free_element_def split: if_splits)
  obtain v where v: "free_element p u = Inr v" "store_ok v"
    "\<And>head xs. represents u head xs \<Longrightarrow> p \<notin> set xs \<Longrightarrow> represents v head xs" "hh_key v = hh_key u"
    "\<And>xs. table_of v xs = table_of u xs"
    using free_element_represents [OF separate_parts(1) [OF assms(1)] al] by metis
  show "separate u' A B C" "hh_key u' = hh_key u" using v assms by (auto simp: separate_def apart_def)
qed

section \<open>The tables of a program\<close>

definition keys_ok :: "hash_store \<Rightarrow> (nat \<Rightarrow> prgm_stim) \<Rightarrow> (artix_selects \<Rightarrow> nat list) \<Rightarrow> bool" where
  "keys_ok u ps f \<longleftrightarrow> (\<forall>sel\<in>{ARTIX_SELECT_A1, ARTIX_SELECT_A2}. \<forall>p\<in>set (f sel). hh_key u p = ucast (entry_addr sel (ps p)))"

definition tabs :: "prgm_world \<Rightarrow> (artix_selects \<Rightarrow> nat list) \<Rightarrow> listed \<Rightarrow> bool" where
  "tabs w f D \<longleftrightarrow> keys_ok (hash w) (prgm_stims w) f \<and>
     separate (hash w) (a1_loaded_stims w, f ARTIX_SELECT_A1) (a2_loaded_stims w, f ARTIX_SELECT_A2) D"

definition sizes :: "prgm_world \<Rightarrow> (artix_selects \<Rightarrow> nat list) \<Rightarrow> bool" where
  "sizes w f \<longleftrightarrow> num_a1_loaded_stims w = of_nat (length (f ARTIX_SELECT_A1)) \<and>
     num_a2_loaded_stims w = of_nat (length (f ARTIX_SELECT_A2))"

abbreviation other :: "artix_selects \<Rightarrow> artix_selects" where
  "other sel \<equiv> (if sel = ARTIX_SELECT_A1 then ARTIX_SELECT_A2 else ARTIX_SELECT_A1)"

lemma tabs_unit:
  assumes "one_unit sel"
  shows "tabs w f D \<longleftrightarrow> keys_ok (hash w) (prgm_stims w) f \<and>
    separate (hash w) (loaded sel w, f sel) (loaded (other sel) w, f (other sel)) D"
proof -
  have "separate (hash w) (a1_loaded_stims w, f ARTIX_SELECT_A1) (a2_loaded_stims w, f ARTIX_SELECT_A2) D =
      separate (hash w) (a2_loaded_stims w, f ARTIX_SELECT_A2) (a1_loaded_stims w, f ARTIX_SELECT_A1) D"
    by (rule separate_perm(1))
  with assms show ?thesis unfolding one_unit_def tabs_def loaded_def by (elim disjE) simp_all
qed

lemma tabs_represents:
  assumes "tabs w f D" and "one_unit sel"
  shows "store_ok (hash w)" and "represents (hash w) (loaded sel w) (f sel)"
proof -
  have "separate (hash w) (loaded sel w, f sel) (loaded (other sel) w, f (other sel)) D"
    using assms tabs_unit by simp
  from separate_parts(1,2) [OF this] show "store_ok (hash w)" "represents (hash w) (loaded sel w) (f sel)" by simp_all
qed

lemma find_loaded_tabs:
  assumes "tabs w f D" and "one_unit sel"
  shows "find_loaded sel a w = Inr (Returns (find (\<lambda>p. ucast (entry_addr sel (prgm_stims w p)) = a) (f sel)), w)"
proof -
  have "find (\<lambda>p. hh_key (hash w) p = a) (f sel) = find (\<lambda>p. ucast (entry_addr sel (prgm_stims w p)) = a) (f sel)"
    using assms by (intro find_cong refl) (auto simp: tabs_def keys_ok_def one_unit_def)
  moreover have "store_ok (hash w)" "represents (hash w) (loaded sel w) (f sel)" using tabs_represents [OF assms] by auto
  ultimately show ?thesis using HASH_FIND_represents [of "hash w" "loaded sel w" "f sel" a]
    by (simp add: find_loaded_def liftS_def)
qed

lemma add_loaded_tabs:
  assumes t: "tabs w f D" and sel: "one_unit sel" and al: "alive (hash w) p"
    and p: "p \<notin> set (f ARTIX_SELECT_A1) \<union> set (f ARTIX_SELECT_A2)" "p \<notin> set (snd D)"
  shows "add_loaded p sel w = Inr (Raises (Already_loaded sel (ucast (entry_addr sel (prgm_stims w p)))), w) \<or>
    (\<exists>u h. add_loaded p sel w = Inr (Returns (), set_loaded sel h (w\<lparr>hash := u\<rparr>)) \<and>
      tabs (set_loaded sel h (w\<lparr>hash := u\<rparr>)) (f(sel := f sel @ [p])) D \<and> alive u = alive (hash w))"
proof (cases "ucast (entry_addr sel (prgm_stims w p)) \<in> hh_key (hash w) ` set (f sel)")
  case True
  then show ?thesis using add_loaded_taken tabs_represents [OF t sel] by blast
next
  case False
  let ?a = "ucast (entry_addr sel (prgm_stims w p)) :: u32"
  have sep: "separate (hash w) (loaded sel w, f sel) (loaded (other sel) w, f (other sel)) D"
    and keys: "keys_ok (hash w) (prgm_stims w) f" using t tabs_unit [OF sel] by auto
  have a: "p \<notin> set (f sel)" "p \<notin> set (snd (loaded (other sel) w, f (other sel)))"
    using p(1) sel by (auto simp: one_unit_def)
  obtain u h where u: "HASH_ADD (hash w) (loaded sel w) ?a p = Inr (u, h)"
    "separate u (h, f sel @ [p]) (loaded (other sel) w, f (other sel)) D" "hh_key u = (hh_key (hash w))(p := ?a)"
    "alive u = alive (hash w)"
    using separate_add [OF sep al a(1,2) p(2) False] by metis
  have "find (\<lambda>x. hh_key (hash w) x = ?a) (f sel) = None" using False unfolding find_None_iff by (metis imageI)
  then have "HASH_FIND (hash w) (loaded sel w) ?a = Inr None"
    using HASH_FIND_represents [OF tabs_represents [OF t sel]] by simp
  then have run: "add_loaded p sel w = Inr (Returns (), set_loaded sel h (w\<lparr>hash := u\<rparr>))"
    using u(1) by (simp add: add_loaded_def find_loaded_def script_defs Let_def)
  have "keys_ok u (prgm_stims w) (f(sel := f sel @ [p]))"
    using keys p(1) u(3) by (auto simp: keys_ok_def)
  moreover have "separate u (h, (f(sel := f sel @ [p])) sel) (loaded (other sel) w, (f(sel := f sel @ [p])) (other sel)) D"
    using u(2) sel by (auto simp: one_unit_def)
  ultimately have "tabs (set_loaded sel h (w\<lparr>hash := u\<rparr>)) (f(sel := f sel @ [p])) D"
    using sel unfolding tabs_unit [OF sel] by (auto simp: one_unit_def)
  then show ?thesis using run u(4) by blast
qed

lemma del_loaded_tabs:
  assumes t: "tabs w f D" and sel: "one_unit sel" and f: "f sel = xs @ x # ys"
  shows "\<exists>u h. del_loaded sel x w = Inr (Returns (), set_loaded sel h (w\<lparr>hash := u\<rparr>)) \<and>
    tabs (set_loaded sel h (w\<lparr>hash := u\<rparr>)) (f(sel := xs @ ys)) D \<and> alive u = alive (hash w) \<and>
    hh_key u = hh_key (hash w)"
proof -
  have sep: "separate (hash w) (loaded sel w, xs @ x # ys) (loaded (other sel) w, f (other sel)) D"
    and keys: "keys_ok (hash w) (prgm_stims w) f" using t tabs_unit [OF sel] f by auto
  obtain u h where u: "HASH_DELETE (hash w) (loaded sel w) x = Inr (u, h)"
    "separate u (h, xs @ ys) (loaded (other sel) w, f (other sel)) D" "hh_key u = hh_key (hash w)" "alive u = alive (hash w)"
    using separate_del [OF sep] by metis
  have "keys_ok u (prgm_stims w) (f(sel := xs @ ys))" using keys u(3) f by (auto simp: keys_ok_def)
  moreover have "separate u (h, (f(sel := xs @ ys)) sel) (loaded (other sel) w, (f(sel := xs @ ys)) (other sel)) D"
    using u(2) sel by (auto simp: one_unit_def)
  ultimately have "tabs (set_loaded sel h (w\<lparr>hash := u\<rparr>)) (f(sel := xs @ ys)) D"
    using sel unfolding tabs_unit [OF sel] by (auto simp: one_unit_def)
  then show ?thesis using u(1,3,4) by (auto simp: del_loaded_def)
qed

text \<open>The invariant: no dual stimulus is open, and the tables are as said; \<open>S\<close> are entries that are in
  neither.\<close>

definition solo :: "prgm_world \<Rightarrow> bool" where
  "solo w \<longleftrightarrow> (\<forall>i s k. stims w i = Some (s, k) \<longrightarrow> stim_get_mode s \<noteq> STIM_MODE_DUAL)"

definition tables_out :: "nat set \<Rightarrow> prgm_world \<Rightarrow> bool" where
  "tables_out S w \<longleftrightarrow> (\<exists>f. tabs w f (None, []) \<and> sizes w f \<and>
     S \<inter> (set (f ARTIX_SELECT_A1) \<union> set (f ARTIX_SELECT_A2)) = {})"

definition session_out :: "nat set \<Rightarrow> prgm_world \<Rightarrow> bool" where
  "session_out S w \<longleftrightarrow> solo w \<and> tables_out S w"

abbreviation session_ok :: "prgm_world \<Rightarrow> bool" where
  "session_ok \<equiv> session_out {}"

lemma session_out_mono: "session_out S w \<Longrightarrow> T \<subseteq> S \<Longrightarrow> session_out T w"
  by (auto simp: session_out_def tables_out_def)

lemma tables_frame [simp]:
  "tables_out S (w\<lparr>stims := ss\<rparr>) = tables_out S w" "tables_out S (w\<lparr>stims := ss, num_stims := n\<rparr>) = tables_out S w"
  "tables_out S (w\<lparr>stims := ss, profiles := ps\<rparr>) = tables_out S w"
  by (simp_all add: tables_out_def tabs_def sizes_def)

lemma session_frame [simp]:
  "session_out S (w\<lparr>the_board := b\<rparr>) = session_out S w" "session_out S (w\<lparr>prgm_db := db\<rparr>) = session_out S w"
  "session_out S (w\<lparr>last_prgm_stim := l\<rparr>) = session_out S w" "session_out S (w\<lparr>written := wr\<rparr>) = session_out S w"
  "session_out S (w\<lparr>profiles := ps, prgm_profile := pp, num_profiles := n\<rparr>) = session_out S w"
  "session_out S (w\<lparr>prgm_db := db, is_path_open := op\<rparr>) = session_out S w"
  by (simp_all add: session_out_def tables_out_def solo_def tabs_def sizes_def)

text \<open>What a function establishes when it returns, and when it raises or exits.\<close>

definition script_spec ::
    "(prgm_world \<Rightarrow> bool) \<Rightarrow> 'a script \<Rightarrow> ('a \<Rightarrow> prgm_world \<Rightarrow> bool) \<Rightarrow> (prgm_world \<Rightarrow> bool) \<Rightarrow> bool" where
  "script_spec P m Q E \<longleftrightarrow> (\<forall>w r w'. P w \<longrightarrow> m w = Inr (r, w') \<longrightarrow>
     (case r of Returns x \<Rightarrow> Q x w' | Raises e \<Rightarrow> E w' | Exits c \<Rightarrow> E w'))"

abbreviation keeps :: "(prgm_world \<Rightarrow> bool) \<Rightarrow> 'a script \<Rightarrow> bool" where
  "keeps I m \<equiv> script_spec I m (\<lambda>_. I) I"

named_theorems script_rules \<open>rules for \<open>script_spec\<close>\<close>

lemma spec_bind:
  "script_spec P m Q E \<Longrightarrow> (\<And>x. script_spec (Q x) (f x) R E) \<Longrightarrow> script_spec P (bindS m f) R E"
  unfolding script_spec_def
proof (intro allI impI)
  fix w r w'
  assume m: "\<forall>w r w'. P w \<longrightarrow> m w = Inr (r, w') \<longrightarrow> (case r of Returns x \<Rightarrow> Q x w' | _ \<Rightarrow> E w')"
    and f: "\<And>x. \<forall>w r w'. Q x w \<longrightarrow> f x w = Inr (r, w') \<longrightarrow> (case r of Returns x \<Rightarrow> R x w' | _ \<Rightarrow> E w')"
    and w: "P w" "bindS m f w = Inr (r, w')"
  then obtain r1 w1 where 1: "m w = Inr (r1, w1)" by (cases "m w") (auto simp: bindS_def)
  with m w(1) have "case r1 of Returns x \<Rightarrow> Q x w1 | _ \<Rightarrow> E w1" by blast
  with f w(2) 1 show "case r of Returns x \<Rightarrow> R x w' | _ \<Rightarrow> E w'"
    by (cases r1) (auto simp: bindS_def)
qed

lemma keeps_bind [script_rules]: "keeps I m \<Longrightarrow> (\<And>x. keeps I (f x)) \<Longrightarrow> keeps I (bindS m f)"
  by (rule spec_bind)

lemma keeps_case [script_rules]:
  "(\<And>a b. keeps I (g a b)) \<Longrightarrow> keeps I (case x of (a, b) \<Rightarrow> g a b)"
  "keeps I m \<Longrightarrow> (\<And>a. keeps I (h a)) \<Longrightarrow> keeps I (case y of None \<Rightarrow> m | Some a \<Rightarrow> h a)"
  by (auto split: prod.split option.split)

lemma spec_return: "(\<And>w. P w \<Longrightarrow> Q x w) \<Longrightarrow> script_spec P (returnS x) Q E"
  by (simp add: script_spec_def returnS_def)

lemma keeps_simple [script_rules]:
  "keeps I (returnS x)" "keeps I (fe_error e)" "keeps I (getS g)" "keeps I (liftS r)"
  by (auto simp: script_spec_def script_defs bindR_Inr_iff)

lemma keeps_modify: "(\<And>w. I w \<Longrightarrow> I (g w)) \<Longrightarrow> keeps I (modifyS g)"
  by (simp add: script_spec_def modifyS_def)

lemma keeps_if [script_rules]: "(b \<Longrightarrow> keeps I m) \<Longrightarrow> (\<not> b \<Longrightarrow> keeps I n) \<Longrightarrow> keeps I (if b then m else n)"
  by simp

lemma keeps_seq: "(\<And>m. m \<in> set ms \<Longrightarrow> keeps I m) \<Longrightarrow> keeps I (seqS ms)"
proof (induction ms)
  case (Cons m ms)
  then show ?case by (auto intro!: script_rules)
qed (simp add: script_rules)

lemma keeps_state: "(\<And>w. keeps I (f w)) \<Longrightarrow> keeps I (\<lambda>w. f w w)"
  by (simp add: script_spec_def)

lemma spec_weaken:
  "script_spec P m Q E \<Longrightarrow> (\<And>w. P' w \<Longrightarrow> P w) \<Longrightarrow> (\<And>x w. Q x w \<Longrightarrow> Q' x w) \<Longrightarrow> (\<And>w. E w \<Longrightarrow> E' w) \<Longrightarrow>
   script_spec P' m Q' E'"
  unfolding script_spec_def by (fastforce split: outcome.splits)

section \<open>The functions keep the tables\<close>

lemma keeps_board [script_rules]: "keeps (session_out S) (on_board m)"
  by (auto simp: script_spec_def on_board_def bindR_Inr_iff)

lemma keeps_db [script_rules]: "keeps (session_out S) (on_db m)"
  by (auto simp: script_spec_def on_db_def bindR_Inr_iff)

lemma keeps_reads [script_rules]:
  "keeps I (find_loaded sel a)" "keeps I (get_stim i)" "keeps I (get_entry p)" "keeps I (hash_next el)"
  by (auto simp: script_spec_def find_loaded_def get_stim_def get_entry_def hash_next_def liftS_def bindR_Inr_iff
    split: option.splits)

lemma keeps_fe [script_rules]:
  "keeps I (fe_nextarg x)" "keeps I (fe_car x)" "keeps I (fe_cdr x)" "keeps I (fe_tonumber x)" "keeps I (fe_toptr x)"
  by (auto simp: fe_nextarg_def fe_car_def fe_cdr_def fe_tonumber_def fe_toptr_def script_rules split: fe_object.splits)

lemma keeps_tou32 [script_rules]: "keeps I (fe_tou32 x)"
  by (auto simp: fe_tou32_def intro!: script_rules)

lemma keeps_global [script_rules]: "keeps I global_prgm"
  by (auto simp: global_prgm_def script_spec_def script_defs fe_toptr_def bindR_Inr_iff
    split: fe_object.splits outcome.splits if_splits)

lemma keeps_addr_pair [script_rules]: "keeps I (addr_pair x)"
  by (auto simp: addr_pair_def intro!: script_rules)

lemma keeps_db_prgm [script_rules]: "keeps (session_out S) (get_db_prgm env)"
  by (auto simp: get_db_prgm_def intro!: script_rules)

lemma keeps_nfs_path [script_rules]: "keeps (session_out S) (get_nfs_path env p)"
  by (auto simp: get_nfs_path_def intro!: script_rules)

text \<open>Running changes no table.\<close>

lemma keeps_last [script_rules]: "keeps (session_out S) (modifyS (\<lambda>w. w\<lparr>last_prgm_stim := x\<rparr>))"
  by (intro keeps_modify) simp

lemma keeps_run_parts [script_rules]:
  "keeps (session_out S) (run_lookup sel x)" "keeps (session_out S) (insert_pending env p st)"
  "keeps (session_out S) (save_results env b st)" "keeps (session_out S) (run_entry env p a1 a2)"
  "keeps (session_out S) (run_start env)"
  by (auto simp: run_lookup_def insert_pending_def save_results_def run_entry_def run_start_def Let_def
    intro!: script_rules split: option.split prod.split)

lemma keeps_run_units [script_rules]:
  "keeps (session_out S) (run_solo env p)" "keeps (session_out S) (run_dual env p q a1 a2)"
  by (auto simp: run_solo_def run_dual_def intro!: script_rules)

lemma keeps_run_pair [script_rules]: "keeps (session_out S) (run_pair env x st)"
  unfolding run_pair_def by (intro script_rules)

lemma keeps_run_loop [script_rules]: "keeps (session_out S) (run_loop env b st x)"
  by (induction env b st x rule: run_loop.induct) (auto intro!: script_rules)

lemma keeps_run [script_rules]: "keeps (session_out S) (run_stim env x b)"
  by (auto simp: run_stim_def intro!: script_rules)

text \<open>The pins, the profile and the exit.\<close>

lemma keeps_pins [script_rules]: "keeps (session_out S) (of_last env g)"
  by (auto simp: of_last_def last_pins_def intro!: script_rules split: option.split prod.split)

lemma keeps_set_profile [script_rules]: "keeps (session_out S) (f_set_profile env x)"
  by (auto simp: f_set_profile_def intro!: script_rules keeps_modify split: prod.split)

lemma session_close: "session_out S (prgm_close w) = session_out S w"
  by (simp add: prgm_close_def)

lemma keeps_exit [script_rules]: "keeps (session_out S) (f_exit x)"
proof -
  have "keeps (session_out S) (\<lambda>w. Inr (Exits c, w) :: (fe_object outcome \<times> prgm_world) res)" for c
    by (simp add: script_spec_def)
  then show ?thesis
    by (auto simp: f_exit_def session_close intro!: script_rules keeps_modify split: prod.split)
qed

text \<open>Opening a stimulus, when the files hold no dual patterns, and writing one.\<close>

definition solo_files :: "prgm_env \<Rightarrow> bool" where
  "solo_files env \<longleftrightarrow> (\<forall>profile path s. get_stim_by_path (env_files env) (env_decode env) profile path = Inr s \<longrightarrow>
     stim_get_mode s \<noteq> STIM_MODE_DUAL)"

lemma keeps_open [script_rules]:
  assumes "solo_files env"
  shows "keeps (session_out S) (open_stim_path env path)"
  using assms unfolding script_spec_def
  by (auto simp: open_stim_path_def bindR_Inr_iff session_out_def solo_def solo_files_def
    split: option.splits if_splits)

lemma keeps_open_arg [script_rules]: "solo_files env \<Longrightarrow> keeps (session_out S) (open_stim_arg env x)"
  by (auto simp: open_stim_arg_def intro!: script_rules split: prod.split)

lemma get_stim_solo: "solo w \<Longrightarrow> get_stim i w = Inr (Returns (s, k), w') \<Longrightarrow> stim_get_mode s \<noteq> STIM_MODE_DUAL"
  by (auto simp: get_stim_def stimR_def liftS_def bindR_Inr_iff solo_def split: option.splits)

lemma put_stim_solo:
  "session_out S w \<Longrightarrow> stim_get_mode s \<noteq> STIM_MODE_DUAL \<Longrightarrow> put_stim i s w = Inr (r, w') \<Longrightarrow> session_out S w'"
  by (auto simp: put_stim_def modifyS_def session_out_def solo_def split: if_splits) blast

lemma spec_get_stim:
  "script_spec (session_out S) (get_stim i) (\<lambda>x w. session_out S w \<and> stim_get_mode (fst x) \<noteq> STIM_MODE_DUAL) (session_out S)"
  using get_stim_solo keeps_reads(2) [of "session_out S" i] unfolding script_spec_def session_out_def
  by (fastforce split: outcome.splits)

lemma spec_fact: "(C \<Longrightarrow> script_spec P m Q E) \<Longrightarrow> script_spec (\<lambda>w. P w \<and> C) m Q E"
  by (auto simp: script_spec_def)

lemma keeps_write [script_rules]: "keeps (session_out S) (f_writes env x)"
proof -
  have m: "keeps (session_out S) (modifyS (\<lambda>w. w\<lparr>written := written w @ [p]\<rparr>))" for p
    by (intro keeps_modify) simp
  have rest: "keeps (session_out S) (bindS (get_stim i) (\<lambda>(s, _).
     bindS (liftS (stim_serialize_to_path (env_lz4c env) (env_lz4d env) s)) (\<lambda>(m, s).
     bindS (put_stim i s) (\<lambda>_.
     bindS (modifyS (\<lambda>w. w\<lparr>written := written w @ [(path, m)]\<rparr>)) (\<lambda>_. returnS (Fe_ptr r))))))" for i path r
  proof (rule spec_bind [OF spec_get_stim])
    fix y :: "stim \<times> nat"
    obtain s k where y: "y = (s, k)" by fastforce
    have "script_spec (\<lambda>w. session_out S w \<and> stim_get_mode s \<noteq> STIM_MODE_DUAL)
       (bindS (liftS (stim_serialize_to_path (env_lz4c env) (env_lz4d env) s)) (\<lambda>(m, s).
       bindS (put_stim i s) (\<lambda>_.
       bindS (modifyS (\<lambda>w. w\<lparr>written := written w @ [(path, m)]\<rparr>)) (\<lambda>_. returnS (Fe_ptr r))))) (\<lambda>_. session_out S) (session_out S)"
    proof (rule spec_bind [where Q = "\<lambda>x w. session_out S w \<and> stim_get_mode (snd x) \<noteq> STIM_MODE_DUAL"])
      show "script_spec (\<lambda>w. session_out S w \<and> stim_get_mode s \<noteq> STIM_MODE_DUAL)
         (liftS (stim_serialize_to_path (env_lz4c env) (env_lz4d env) s))
         (\<lambda>x w. session_out S w \<and> stim_get_mode (snd x) \<noteq> STIM_MODE_DUAL) (session_out S)"
        by (auto simp: script_spec_def liftS_def bindR_Inr_iff dest!: serialize_units same_units_mode)
    next
      fix z :: "SerialStim \<times> stim"
      obtain m s' where z: "z = (m, s')" by fastforce
      show "script_spec (\<lambda>w. session_out S w \<and> stim_get_mode (snd z) \<noteq> STIM_MODE_DUAL) (case z of (m, s) \<Rightarrow>
         bindS (put_stim i s) (\<lambda>_.
         bindS (modifyS (\<lambda>w. w\<lparr>written := written w @ [(path, m)]\<rparr>)) (\<lambda>_. returnS (Fe_ptr r)))) (\<lambda>_. session_out S) (session_out S)"
        unfolding z split snd_conv
      proof (rule spec_bind [where Q = "\<lambda>_. session_out S"])
        show "script_spec (\<lambda>w. session_out S w \<and> stim_get_mode s' \<noteq> STIM_MODE_DUAL) (put_stim i s') (\<lambda>_. session_out S) (session_out S)"
          unfolding script_spec_def using put_stim_solo by (fastforce split: outcome.splits)
      qed (intro script_rules m)
    qed
    then show "script_spec (\<lambda>w. session_out S w \<and> stim_get_mode (fst y) \<noteq> STIM_MODE_DUAL) (case y of (s, _) \<Rightarrow>
       bindS (liftS (stim_serialize_to_path (env_lz4c env) (env_lz4d env) s)) (\<lambda>(m, s).
       bindS (put_stim i s) (\<lambda>_.
       bindS (modifyS (\<lambda>w. w\<lparr>written := written w @ [(path, m)]\<rparr>)) (\<lambda>_. returnS (Fe_ptr r))))) (\<lambda>_. session_out S) (session_out S)"
      by (simp add: y)
  qed
  show ?thesis unfolding f_writes_def by (auto intro!: script_rules rest split: prod.split)
qed

section \<open>Loading\<close>

lemma bindS_at: "m w = Inr (Returns x, w') \<Longrightarrow> bindS m f w = f x w'"
  by (simp add: bindS_def)

lemma bindS_return [simp]: "bindS (returnS x) f = f x"
  by (rule ext) (simp add: bindS_def returnS_def)

lemma bindS_assoc: "bindS (bindS m f) g = bindS m (\<lambda>x. bindS (f x) g)"
proof (rule ext)
  fix w
  show "bindS (bindS m f) g w = bindS m (\<lambda>x. bindS (f x) g) w"
    by (cases "m w") (auto simp: bindS_def split: outcome.splits prod.splits)
qed

lemma tabs_frame [simp]:
  "tabs (w\<lparr>the_board := b, stims := ss\<rparr>) f D = tabs w f D" "tabs (add_count sel n w) f D = tabs w f D"
  "tabs (add_addr sel n w) f D = tabs w f D" "tabs (w\<lparr>cur_a1_stim_addr := a\<rparr>) f D = tabs w f D"
  "tabs (w\<lparr>cur_a2_stim_addr := a\<rparr>) f D = tabs w f D"
  "solo (set_loaded sel h w) = solo w" "solo (w\<lparr>hash := u\<rparr>) = solo w" "solo (add_count sel n w) = solo w"
  "solo (add_addr sel n w) = solo w" "solo (w\<lparr>hash := u, prgm_stims := ps\<rparr>) = solo w"
  "solo (w\<lparr>prgm_stims := ps\<rparr>) = solo w"
  "solo (w\<lparr>cur_a1_stim_addr := a\<rparr>) = solo w" "solo (w\<lparr>cur_a2_stim_addr := a\<rparr>) = solo w"
  by (simp_all add: tabs_def solo_def add_count_def add_addr_def set_loaded_def)

lemma sizes_frame [simp]:
  "sizes (w\<lparr>hash := u, prgm_stims := ps\<rparr>) f = sizes w f" "sizes (w\<lparr>hash := u\<rparr>) f = sizes w f"
  "sizes (set_loaded sel h w) f = sizes w f" "sizes (w\<lparr>the_board := b, stims := ss\<rparr>) f = sizes w f"
  "sizes (w\<lparr>prgm_stims := ps\<rparr>) f = sizes w f"
  "sizes (add_addr sel n w) f = sizes w f" "sizes (w\<lparr>cur_a1_stim_addr := a\<rparr>) f = sizes w f"
  "sizes (w\<lparr>cur_a2_stim_addr := a\<rparr>) f = sizes w f"
  by (simp_all add: sizes_def set_loaded_def add_addr_def)

lemma sizes_add: "sizes w f \<Longrightarrow> one_unit sel \<Longrightarrow> sizes (add_count sel 1 w) (f(sel := f sel @ [p]))"
  by (auto simp: sizes_def add_count_def one_unit_def)

lemma sizes_del: "sizes w f \<Longrightarrow> one_unit sel \<Longrightarrow> f sel = xs @ x # ys \<Longrightarrow> sizes (add_count sel (- 1) w) (f(sel := xs @ ys))"
  by (auto simp: sizes_def add_count_def one_unit_def)

lemma load_pattern_solo:
  assumes "load_pattern env i a1 a2 w = Inr (r, w')" and "solo w"
  shows "solo w'" and "\<exists>n. r = Returns n"
    and "\<exists>b s k. w' = w\<lparr>the_board := b, stims := (stims w)(i \<mapsto> (s, k))\<rparr>"
proof -
  obtain s k where s: "stims w i = Some (s, k)"
    using assms(1) by (cases "stims w i") (auto simp: load_pattern_def get_stim_def stimR_def script_defs)
  have dual: "stim_get_mode s \<noteq> STIM_MODE_DUAL" using assms(2) s by (auto simp: solo_def)
  obtain s' n b where l: "artix_load_stim (env_lz4d env) (env_drv env) s (ucast a1) (ucast a2) (the_board w) = Inr ((s', n), b)"
    and w': "r = Returns n" "w' = w\<lparr>the_board := b, stims := (stims w)(i := Some (s', k))\<rparr>"
    using assms(1) s
    by (auto simp: load_pattern_def get_stim_def stimR_def script_defs on_board_def put_stim_def bindR_Inr_iff split: if_splits)
  have "stim_get_mode s' \<noteq> STIM_MODE_DUAL" using same_units_mode [OF artix_load_units [OF l]] dual by simp
  then show "solo w'" using assms(2) w'(2) by (auto simp: solo_def)
  show "\<exists>n. r = Returns n" "\<exists>b s k. w' = w\<lparr>the_board := b, stims := (stims w)(i \<mapsto> (s, k))\<rparr>" using w' by auto
qed

lemma create_tabs:
  assumes "tabs w f (None, [])" and "create_prgm_stim i a1 a2 w = Inr (r, w')"
  obtains p u ps where "r = Returns p" and "w' = w\<lparr>hash := u, prgm_stims := ps\<rparr>" and "tabs w' f (None, [])"
    and "alive u p" and "p \<notin> set (f ARTIX_SELECT_A1) \<union> set (f ARTIX_SELECT_A2)"
    and "ps = (prgm_stims w)(p := \<lparr>ps_a1_addr = ucast a1, ps_a2_addr = ucast a2, ps_stim = i\<rparr>)"
proof -
  obtain p u where new: "new_element (hash w) = (p, u)" by fastforce
  let ?ps = "(prgm_stims w)(p := \<lparr>ps_a1_addr = ucast a1, ps_a2_addr = ucast a2, ps_stim = i\<rparr>)"
  have sep: "separate (hash w) (a1_loaded_stims w, f ARTIX_SELECT_A1) (a2_loaded_stims w, f ARTIX_SELECT_A2) (None, [])"
    and keys: "keys_ok (hash w) (prgm_stims w) f" using assms(1) by (auto simp: tabs_def)
  note el = separate_new [OF sep new]
  have out: "p \<notin> set (f ARTIX_SELECT_A1) \<union> set (f ARTIX_SELECT_A2)" using el(5) by auto
  then have "keys_ok u ?ps f" using keys el(3) by (auto simp: keys_ok_def)
  then have "tabs (w\<lparr>hash := u, prgm_stims := ?ps\<rparr>) f (None, [])" using el(1) by (simp add: tabs_def)
  moreover have "r = Returns p" "w' = w\<lparr>hash := u, prgm_stims := ?ps\<rparr>"
    using assms(2) new by (auto simp: create_prgm_stim_def)
  ultimately show thesis by (intro that [of p ?ps u] el(2) out refl) simp_all
qed

text \<open>The pair of addresses at which a stimulus is loaded: the given one for both units, or the next free ones.\<close>

definition load_addrs :: "u32 option \<Rightarrow> prgm_world \<Rightarrow> u32 \<times> u32" where
  "load_addrs addr w = (case addr of None \<Rightarrow> (ucast (cur_a1_stim_addr w), ucast (cur_a2_stim_addr w)) | Some a \<Rightarrow> (a, a))"

text \<open>What loading does to the tables: nothing, when it ends with an error, or an entry is added to the table of the
  unit of the stimulus.\<close>

lemma load_object_solo:
  assumes run: "load_object env i addr w = Inr (r, w')" and solo: "solo w" and t: "tabs w f (None, [])" and sz: "sizes w f"
  shows "session_ok w' \<and> (\<forall>x. r \<noteq> Returns x) \<or>
    (\<exists>sel p a1 a2 mode s k. r = Returns (a1, a2, mode) \<and> load_units mode = [sel] \<and> one_unit sel \<and> load_addrs addr w = (a1, a2) \<and>
      tabs w' (f(sel := f sel @ [p])) (None, []) \<and> sizes w' (f(sel := f sel @ [p])) \<and> solo w' \<and>
      prgm_stims w' p = \<lparr>ps_a1_addr = ucast a1, ps_a2_addr = ucast a2, ps_stim = i\<rparr> \<and> stims w' i = Some (s, k) \<and>
      prgm_symbol w' = prgm_symbol w \<and> prgm_db w' = prgm_db w \<and> db_prgm_id w' = db_prgm_id w \<and>
      (\<forall>q. q \<noteq> p \<longrightarrow> prgm_stims w' q = prgm_stims w q))"
proof -
  obtain s k where s: "stims w i = Some (s, k)"
    using run by (cases "stims w i") (auto simp: load_object_def get_stim_def stimR_def script_defs)
  have fin: "session_ok w'" if "solo w'" "tabs w' g (None, [])" "sizes w' g" for g
    using that by (auto simp: session_out_def tables_out_def)
  show ?thesis
  proof (cases "stim_get_mode s = STIM_MODE_NONE")
    case True
    then have "w' = w \<and> (\<forall>x. r \<noteq> Returns x)" using run s by (auto simp: load_object_def get_stim_def stimR_def script_defs)
    then show ?thesis using fin solo t sz by blast
  next
    case False
    have "stim_get_mode s \<noteq> STIM_MODE_DUAL" using solo s by (auto simp: solo_def)
    then obtain sel where sel: "load_units (stim_get_mode s) = [sel]" "one_unit sel"
      using False by (cases "stim_get_mode s") (auto simp: load_units_def one_unit_def)
    define a where "a = (case addr of None \<Rightarrow> (ucast (cur_a1_stim_addr w), ucast (cur_a2_stim_addr w)) | Some a \<Rightarrow> (a, a :: u32))"
    obtain a1 a2 where a: "a = (a1, a2)" by fastforce
    obtain r1 w1 where c: "create_prgm_stim i a1 a2 w = Inr (r1, w1)"
      by (cases "new_element (hash w)") (simp add: create_prgm_stim_def)
    obtain p u ps where p: "r1 = Returns p" "w1 = w\<lparr>hash := u, prgm_stims := ps\<rparr>" "tabs w1 f (None, [])" "alive u p"
      "p \<notin> set (f ARTIX_SELECT_A1) \<union> set (f ARTIX_SELECT_A2)" and ps: "ps = (prgm_stims w)(p := \<lparr>ps_a1_addr = ucast a1, ps_a2_addr = ucast a2, ps_stim = i\<rparr>)"
      using create_tabs [OF t c] by metis
    have rest: "bindS (add_loaded p sel) (\<lambda>_. bindS (load_pattern env i a1 a2) (\<lambda>n.
        bindS (modifyS (\<lambda>w. add_count sel 1 (if addr = None then add_addr sel (of_nat n) w else w))) (\<lambda>_.
        returnS (a1, a2, stim_get_mode s)))) w1 = Inr (r, w')"
    proof -
      let ?g = "\<lambda>w. case addr of None \<Rightarrow> (ucast (cur_a1_stim_addr w), ucast (cur_a2_stim_addr w)) | Some a \<Rightarrow> (a, a)"
      have 1: "bindS (get_stim i) g w = g (s, k) w" for g :: "stim \<times> nat \<Rightarrow> 'x script"
        using s by (simp add: get_stim_def stimR_def script_defs)
      have 2: "bindS (getS ?g) g w = g (a1, a2) w" for g :: "u32 \<times> u32 \<Rightarrow> 'x script"
        using a by (simp add: script_defs a_def)
      have 3: "bindS (create_prgm_stim i a1 a2) g w = g p w1" for g :: "nat \<Rightarrow> 'x script"
        using c p(1) by (simp add: bindS_def)
      show ?thesis using run False sel(1) by (simp add: load_object_def 1 2 3 bindS_assoc)
    qed
    show ?thesis
    proof (cases "add_loaded p sel w1 = Inr (Raises (Already_loaded sel (ucast (entry_addr sel (prgm_stims w1 p)))), w1)")
      case True
      then have w': "w' = w1" "\<forall>x. r \<noteq> Returns x" using rest by (auto simp: bindS_def)
      have "session_ok w'" using w'(1) p(2,3) solo sz by (intro fin) simp_all
      then show ?thesis using w'(2) by blast
    next
      case False
      obtain v h where add: "add_loaded p sel w1 = Inr (Returns (), set_loaded sel h (w1\<lparr>hash := v\<rparr>))"
        and t2: "tabs (set_loaded sel h (w1\<lparr>hash := v\<rparr>)) (f(sel := f sel @ [p])) (None, [])"
        using add_loaded_tabs [OF p(3) sel(2) _ p(5)] p(2,4) False by auto
      define w2 where "w2 = set_loaded sel h (w1\<lparr>hash := v\<rparr>)"
      obtain r3 w3 where l: "load_pattern env i a1 a2 w2 = Inr (r3, w3)"
        using rest add by (cases "load_pattern env i a1 a2 w2") (auto simp: bindS_def w2_def)
      have "solo w2" using solo p(2) by (simp add: w2_def)
      note l' = load_pattern_solo [OF l this]
      obtain n b s' k' where n: "r3 = Returns n" and w3: "w3 = w2\<lparr>the_board := b, stims := (stims w2)(i \<mapsto> (s', k'))\<rparr>"
        using l'(2,3) by blast
      have w': "w' = add_count sel 1 (if addr = None then add_addr sel (of_nat n) w3 else w3)"
        and r: "r = Returns (a1, a2, stim_get_mode s)"
        using rest add l n by (simp_all add: bindS_def modifyS_def returnS_def w2_def)
      have "sizes w3 f" using sz p(2) by (simp add: w3 w2_def)
      then have "sizes w' (f(sel := f sel @ [p]))" using sizes_add [OF _ sel(2)] by (simp add: w')
      moreover have "tabs w' (f(sel := f sel @ [p])) (None, [])" using t2 by (simp add: w' w3 w2_def)
      moreover have "solo w'" using l'(1) by (simp add: w')
      moreover have "prgm_stims w' p = \<lparr>ps_a1_addr = ucast a1, ps_a2_addr = ucast a2, ps_stim = i\<rparr>" "stims w' i = Some (s', k')"
        "prgm_symbol w' = prgm_symbol w" "prgm_db w' = prgm_db w" "db_prgm_id w' = db_prgm_id w"
        "\<forall>q. q \<noteq> p \<longrightarrow> prgm_stims w' q = prgm_stims w q"
        using ps by (simp_all add: w' w3 w2_def p(2) add_count_def add_addr_def set_loaded_def)
      moreover have "load_addrs addr w = (a1, a2)" using a by (simp add: a_def load_addrs_def)
      ultimately show ?thesis using r sel by blast
    qed
  qed
qed

lemma keeps_load_object [script_rules]: "keeps session_ok (load_object env i addr)"
  unfolding script_spec_def
proof (intro allI impI)
  fix w r w'
  assume ok: "session_ok w" and run: "load_object env i addr w = Inr (r, w')"
  obtain f where "solo w" "tabs w f (None, [])" "sizes w f" using ok by (auto simp: session_out_def tables_out_def)
  from load_object_solo [OF run this] have "session_ok w'" by (auto simp: session_out_def tables_out_def)
  then show "case r of Returns x \<Rightarrow> session_ok w' | Raises e \<Rightarrow> session_ok w' | Exits c \<Rightarrow> session_ok w'"
    by (cases r) auto
qed

end
