(* ===== verification/Prgm_Unload.thy ===== *)
theory Prgm_Unload
  imports Prgm_Session
begin

text \<open>
  Loading and unloading keep the tables of a program: what \<open>load\<close>, \<open>loads\<close>, \<open>loada\<close>, \<open>unload\<close> and
  \<open>unload-all\<close> do to the two tables of loaded stimuli, and with it the invariant of a session.
\<close>

section \<open>Loading\<close>

lemma keeps_load_result [script_rules]: "keeps I (load_result r)"
  by (auto simp: load_result_def intro!: script_rules split: prod.split stim_modes.split)

lemma keeps_load_stim [script_rules]:
  assumes "solo_files env"
  shows "keeps session_ok (load_stim env x t)"
proof -
  have "keeps session_ok (load_source env x t)"
    using keeps_open_arg [OF assms] assms by (cases t) (auto simp: load_source_def intro!: script_rules)
  then show ?thesis by (auto simp: load_stim_def intro!: script_rules)
qed

lemma keeps_loads [script_rules]:
  assumes "solo_files env"
  shows "keeps session_ok (f_load env x)" and "keeps session_ok (f_loads env x)" and "keeps session_ok (f_loada env x)"
    and "keeps session_ok (f_reads env x)"
  using keeps_load_stim [OF assms] keeps_open_arg [OF assms] assms
  by (auto simp: f_load_def f_loads_def f_loada_def f_reads_def intro!: script_rules)

section \<open>Unloading one stimulus\<close>

lemma units [simp]: "one_unit ARTIX_SELECT_A1" "one_unit ARTIX_SELECT_A2"
  by (simp_all add: one_unit_def)

lemma find_split:
  assumes "find P xs = Some p"
  obtains ys zs where "xs = ys @ p # zs" and "P p"
  using assms by (auto simp: find_Some_iff dest!: id_take_nth_drop)

lemma tabs_lists:
  assumes "tabs w f D"
  shows "set (f ARTIX_SELECT_A1) \<inter> set (f ARTIX_SELECT_A2) = {}" and "distinct (f ARTIX_SELECT_A1)" and "distinct (f ARTIX_SELECT_A2)"
  using assms by (auto simp: tabs_def separate_def apart_def represents_def)

text \<open>The entry that is taken out of the table of a unit is in neither table.\<close>

lemma taken_out:
  assumes "tabs w f D" and "one_unit sel" and "f sel = xs @ p # ys"
    and "S \<inter> (set (f ARTIX_SELECT_A1) \<union> set (f ARTIX_SELECT_A2)) = {}"
  shows "insert p S \<inter> (set ((f(sel := xs @ ys)) ARTIX_SELECT_A1) \<union> set ((f(sel := xs @ ys)) ARTIX_SELECT_A2)) = {}"
  using assms(2-4) tabs_lists [OF assms(1)] unfolding one_unit_def by (elim disjE) auto

lemma spec_unload_unit:
  assumes sel: "one_unit sel"
  shows "script_spec (session_out S) (unload_unit sel x) (\<lambda>r. session_out (S \<union> set_option r)) session_ok"
proof -
  have mono: "session_out S w \<Longrightarrow> session_ok w" for w using session_out_mono by blast
  have found: "script_spec (session_out S)
      (bindS (find_loaded sel a) (\<lambda>s. case s of None \<Rightarrow> fe_error (Not_loaded sel a) | Some p \<Rightarrow>
         bindS (modifyS (add_count sel (- 1))) (\<lambda>_. bindS (del_loaded sel p) (\<lambda>_. returnS (Some p)))))
      (\<lambda>r. session_out (S \<union> set_option r)) session_ok" for a
    unfolding script_spec_def
  proof (intro allI impI)
    fix w r w'
    assume ok: "session_out S w" and run: "bindS (find_loaded sel a) (\<lambda>s. case s of None \<Rightarrow> fe_error (Not_loaded sel a) | Some p \<Rightarrow>
         bindS (modifyS (add_count sel (- 1))) (\<lambda>_. bindS (del_loaded sel p) (\<lambda>_. returnS (Some p)))) w = Inr (r, w')"
    obtain f where t: "tabs w f (None, [])" and sz: "sizes w f" and solo: "solo w"
      and S: "S \<inter> (set (f ARTIX_SELECT_A1) \<union> set (f ARTIX_SELECT_A2)) = {}"
      using ok by (auto simp: session_out_def tables_out_def)
    show "case r of Returns x \<Rightarrow> session_out (S \<union> set_option x) w' | _ \<Rightarrow> session_ok w'"
    proof (cases "find (\<lambda>p. ucast (entry_addr sel (prgm_stims w p)) = a) (f sel)")
      case None
      then show ?thesis using run find_loaded_tabs [OF t sel, of a] mono [OF ok] by (auto simp: script_defs)
    next
      case (Some p)
      then obtain xs ys where f: "f sel = xs @ p # ys" using find_split by metis
      let ?f = "f(sel := xs @ ys)" and ?w = "add_count sel (- 1) w"
      have "tabs ?w f (None, [])" using t by simp
      from del_loaded_tabs [OF this sel f] obtain u h where
        u: "del_loaded sel p ?w = Inr (Returns (), set_loaded sel h (?w\<lparr>hash := u\<rparr>))"
          "tabs (set_loaded sel h (?w\<lparr>hash := u\<rparr>)) ?f (None, [])" by blast
      have w': "r = Returns (Some p)" "w' = set_loaded sel h (?w\<lparr>hash := u\<rparr>)"
        using run find_loaded_tabs [OF t sel, of a] Some u(1) by (auto simp: script_defs)
      have "sizes w' ?f" using sizes_del [OF sz sel f] by (simp add: w')
      moreover have "solo w'" using solo by (simp add: w')
      moreover have "insert p S \<inter> (set (?f ARTIX_SELECT_A1) \<union> set (?f ARTIX_SELECT_A2)) = {}" by (rule taken_out [OF t sel f S])
      moreover have "tabs w' ?f (None, [])" using u(2) by (simp add: w')
      ultimately have "session_out (insert p S) w'" unfolding session_out_def tables_out_def by blast
      then show ?thesis by (simp add: w')
    qed
  qed
  have "script_spec (session_out S) (if x = Fe_nil then returnS None else bindS (fe_tou32 x) (\<lambda>a.
      bindS (find_loaded sel a) (\<lambda>s. case s of None \<Rightarrow> fe_error (Not_loaded sel a) | Some p \<Rightarrow>
         bindS (modifyS (add_count sel (- 1))) (\<lambda>_. bindS (del_loaded sel p) (\<lambda>_. returnS (Some p))))))
      (\<lambda>r. session_out (S \<union> set_option r)) session_ok"
  proof (cases "x = Fe_nil")
    case False
    have "script_spec (session_out S) (fe_tou32 x) (\<lambda>_. session_out S) session_ok"
      by (rule spec_weaken [OF keeps_tou32 [of "session_out S"]]) (use mono in auto)
    then show ?thesis using False found by (simp add: spec_bind)
  qed (simp add: script_spec_def returnS_def)
  then show ?thesis by (simp add: unload_unit_def)
qed

text \<open>An entry that is in neither table is freed, with its stimulus.\<close>

lemma session_free_stim: "session_out S w \<Longrightarrow> free_stim i w = Inr (r, w') \<Longrightarrow> session_out S w'"
  by (auto simp: free_stim_def bindR_Inr_iff session_out_def solo_def split: if_splits) blast

lemma keeps_free_stim [script_rules]: "keeps (session_out S) (free_stim i)"
  unfolding script_spec_def using session_free_stim by (auto split: outcome.split)

lemma session_free_element:
  assumes "session_out S w" and "p \<in> S" and "on_hash (free_element p) w = Inr (r, w')"
  shows "session_out S w'"
proof -
  obtain u where u: "free_element p (hash w) = Inr u" and w': "w' = w\<lparr>hash := u\<rparr>"
    using assms(3) by (auto simp: on_hash_def bindR_Inr_iff)
  obtain f where f: "tabs w f (None, [])" "sizes w f" "S \<inter> (set (f ARTIX_SELECT_A1) \<union> set (f ARTIX_SELECT_A2)) = {}"
    using assms(1) by (auto simp: session_out_def tables_out_def)
  have sep: "separate (hash w) (a1_loaded_stims w, f ARTIX_SELECT_A1) (a2_loaded_stims w, f ARTIX_SELECT_A2) (None, [])"
    using f(1) by (simp add: tabs_def)
  have "separate u (a1_loaded_stims w, f ARTIX_SELECT_A1) (a2_loaded_stims w, f ARTIX_SELECT_A2) (None, [])" "hh_key u = hh_key (hash w)"
    using separate_free [OF sep u] f(3) assms(2) by auto
  then have "tabs w' f (None, [])" using f(1) by (simp add: tabs_def w' keys_ok_def)
  then show ?thesis using assms(1) f(2,3) unfolding session_out_def tables_out_def w' by fastforce
qed

lemma keeps_free_prgm_stim: "p \<in> S \<Longrightarrow> keeps (session_out S) (free_prgm_stim p)"
proof -
  assume p: "p \<in> S"
  have "keeps (session_out S) (on_hash (free_element p))"
    unfolding script_spec_def using session_free_element [OF _ p] by (auto split: outcome.split)
  then show ?thesis by (auto simp: free_prgm_stim_def intro!: script_rules)
qed

lemma keeps_unload [script_rules]: "keeps session_ok (f_unload x)"
proof -
  have free: "script_spec (session_out ({} \<union> set_option a \<union> set_option b)) (bindS (free_unloaded a b) (\<lambda>_. returnS (fe_bool False)))
      (\<lambda>_. session_ok) session_ok" for a b
  proof -
    have "keeps (session_out ({} \<union> set_option a \<union> set_option b)) (free_unloaded a b)"
      unfolding free_unloaded_def
      by (rule keeps_seq) (auto intro!: keeps_free_prgm_stim split: option.splits if_splits)
    then have "keeps (session_out ({} \<union> set_option a \<union> set_option b)) (bindS (free_unloaded a b) (\<lambda>_. returnS (fe_bool False)))"
      by (auto intro!: script_rules)
    then show ?thesis by (rule spec_weaken) (auto intro: session_out_mono)
  qed
  have "script_spec session_ok (bindS (unload_unit ARTIX_SELECT_A1 a) (\<lambda>a1. bindS (unload_unit ARTIX_SELECT_A2 b) (\<lambda>a2.
      bindS (free_unloaded a1 a2) (\<lambda>_. returnS (fe_bool False))))) (\<lambda>_. session_ok) session_ok" for a b
    by (rule spec_bind [OF spec_unload_unit [OF units(1)]], rule spec_bind [OF spec_unload_unit [OF units(2)]], rule free)
  then show ?thesis
    unfolding f_unload_def
    by (intro keeps_bind [OF keeps_global] keeps_bind [OF keeps_fe(1)] keeps_bind [OF keeps_addr_pair] keeps_case(1))
qed

section \<open>Unloading all of them\<close>

text \<open>An entry is collected: the third table grows by at most one element, which stands for the entry.\<close>

definition stands_for :: "del_state \<Rightarrow> nat list \<Rightarrow> nat set" where
  "stands_for d zs = del_of d ` set zs"

lemma tabs_frame_hash [simp]:
  "tabs (w\<lparr>hash := u\<rparr>) f D \<longleftrightarrow> keys_ok u (prgm_stims w) f \<and>
     separate u (a1_loaded_stims w, f ARTIX_SELECT_A1) (a2_loaded_stims w, f ARTIX_SELECT_A2) D"
  by (simp add: tabs_def)

lemma keys_ok_frame:
  assumes "keys_ok u ps f" and "q \<notin> set (f ARTIX_SELECT_A1)" and "q \<notin> set (f ARTIX_SELECT_A2)" and "hh_key v = (hh_key u)(q := k)"
  shows "keys_ok v ps f"
  using assms by (auto simp: keys_ok_def)

text \<open>The elements of the third table stand for different live entries, none of which is an element of it, and
  are found by the lower halves of their addresses.\<close>

definition collected :: "prgm_env \<Rightarrow> hash_store \<Rightarrow> del_state \<Rightarrow> nat list \<Rightarrow> bool" where
  "collected env u d zs \<longleftrightarrow> inj_on (del_of d) (set zs) \<and>
     (\<forall>q\<in>set zs. alive u (del_of d q) \<and> del_of d q \<notin> set zs \<and> hh_key u q = env_address env (del_of d q))"

lemma collect_entry_tabs:
  assumes "tabs w f (del_head d, zs)" and coll: "collected env (hash w) d zs"
    and p: "alive (hash w) p" "p \<notin> set zs" "p \<notin> stands_for d zs"
  shows "\<exists>d' zs' u. collect_entry env p d w = Inr (Returns d', w\<lparr>hash := u\<rparr>) \<and>
    tabs (w\<lparr>hash := u\<rparr>) f (del_head d', zs') \<and> stands_for d' zs' \<subseteq> insert p (stands_for d zs) \<and>
    num_unloaded d' = num_unloaded d \<and> collected env u d' zs' \<and>
    (inj_on (env_address env) (insert p (stands_for d zs)) \<longrightarrow> stands_for d' zs' = insert p (stands_for d zs))"
proof -
  let ?A = "(a1_loaded_stims w, f ARTIX_SELECT_A1)" and ?B = "(a2_loaded_stims w, f ARTIX_SELECT_A2)" and ?k = "env_address env p"
  have sep: "separate (hash w) ?A ?B (del_head d, zs)" and keys: "keys_ok (hash w) (prgm_stims w) f"
    using assms by (auto simp: tabs_def)
  have find: "HASH_FIND (hash w) (del_head d) ?k = Inr (find (\<lambda>x. hh_key (hash w) x = ?k) zs)"
    using HASH_FIND_represents separate_parts(1,4) [OF sep] by simp
  show ?thesis
  proof (cases "find (\<lambda>x. hh_key (hash w) x = ?k) zs")
    case None
    obtain q u where new: "new_element (hash w) = (q, u)" by fastforce
    note el = separate_new [OF sep new]
    have sepC: "separate u (del_head d, zs) ?B ?A" using el(1) by (rule separate_perm(2) [THEN iffD1])
    have q: "q \<notin> set zs" "q \<notin> set (snd ?B)" "q \<notin> set (snd ?A)" using el(5) by auto
    have "?k \<notin> hh_key u ` set zs" using None el(3) by (auto simp: find_None_iff)
    from separate_add [OF sepC el(2) q this] obtain v h where v: "HASH_ADD u (del_head d) ?k q = Inr (v, h)"
      "separate v (h, zs @ [q]) ?B ?A" "hh_key v = (hh_key u)(q := ?k)" "alive v = alive u" by metis
    let ?d = "d\<lparr>del_head := h, del_of := (del_of d)(q := p)\<rparr>"
    have "collect_entry env p d w = Inr (Returns ?d, w\<lparr>hash := v\<rparr>)" using find None new v(1) by (simp add: collect_entry_def)
    moreover have "tabs (w\<lparr>hash := v\<rparr>) f (h, zs @ [q])"
    proof -
      have "keys_ok v (prgm_stims w) f" by (rule keys_ok_frame [OF keys, of q]) (use el(3,5) v(3) in auto)
      moreover have "separate v ?A ?B (h, zs @ [q])" using v(2) by (rule separate_perm(2) [THEN iffD1])
      ultimately show ?thesis by simp
    qed
    moreover have stands: "stands_for ?d (zs @ [q]) = insert p (stands_for d zs)" using q(1) by (auto simp: stands_for_def)
    moreover have "collected env v ?d (zs @ [q])"
    proof -
      have fresh: "\<not> alive (hash w) q" "alive u = (alive (hash w))(q := True)" "hh_key u = hh_key (hash w)"
        using new separate_parts(1) [OF sep] by (auto simp: new_element_def store_ok_def)
      then have ne: "p \<noteq> q" "q \<notin> del_of d ` set zs" using p(1) coll by (auto simp: collected_def)
      have "inj_on (del_of ?d) (set (zs @ [q]))"
        using coll q(1) p(3) by (auto simp: collected_def stands_for_def inj_on_def)
      then show ?thesis using coll q(1) p ne fresh v(3,4) unfolding collected_def by auto
    qed
    ultimately show ?thesis by (intro exI [of _ ?d] exI [of _ "zs @ [q]"] exI [of _ v]) simp
  next
    case (Some x)
    then have run: "collect_entry env p d w = Inr (Returns d, w\<lparr>hash := hash w\<rparr>)" using find by (simp add: collect_entry_def)
    have "x \<in> set zs" "hh_key (hash w) x = ?k" using Some by (auto simp: find_Some_iff)
    then have "\<not> inj_on (env_address env) (insert p (stands_for d zs))"
      using coll p(3) by (auto simp: collected_def stands_for_def inj_on_def)
    moreover have "tabs (w\<lparr>hash := hash w\<rparr>) f (del_head d, zs)" using assms(1) by simp
    ultimately show ?thesis using coll by (intro exI [of _ d] exI [of _ zs] exI [of _ "hash w"] conjI run) auto
  qed
qed

lemma next_in_table:
  assumes "represents u h (x # xs)"
  shows "app_next u x = head_link xs None"
proof -
  have "dseg (app_next u) (app_prev u) None h ([] @ x # xs) None" using assms by (simp add: represents_def)
  from dseg_at(2) [OF this] show ?thesis .
qed

lemma hash_next_tabs:
  assumes "tabs w f D" and "one_unit sel" and "f sel = xs"
  shows "hash_next (head_link xs None) w = Inr (Returns (head_link (tl xs) None), w)"
proof (cases xs)
  case (Cons x ys)
  have rep: "represents (hash w) (loaded sel w) (x # ys)" using tabs_represents(2) [OF assms(1,2)] assms(3) Cons by simp
  have "alive (hash w) x" using rep by (simp add: represents_def)
  then show ?thesis using next_in_table [OF rep] by (simp add: hash_next_def Cons liftS_def)
qed (simp add: hash_next_def)

lemma head_of_table: "tabs w f D \<Longrightarrow> one_unit sel \<Longrightarrow> loaded sel w = head_link (f sel) None"
  using tabs_represents(2) [of w f D sel] dseg_head by (fastforce simp: represents_def)

text \<open>Emptying the table of a unit: every entry is collected, and the loop has fuel for all of them.\<close>

definition same_rest :: "prgm_world \<Rightarrow> prgm_world \<Rightarrow> bool" where
  "same_rest w w' \<longleftrightarrow> stims w' = stims w \<and> profiles w' = profiles w \<and> prgm_stims w' = prgm_stims w"

lemma same_rest_frame [simp]:
  "same_rest w (w\<lparr>hash := u\<rparr>)" "same_rest w (set_loaded sel h w)" "same_rest w (add_count sel n w)"
  by (simp_all add: same_rest_def set_loaded_def add_count_def)

lemma same_rest_trans: "same_rest u v \<Longrightarrow> same_rest v w \<Longrightarrow> same_rest u w"
  by (simp add: same_rest_def)

lemma same_rest_solo: "same_rest w w' \<Longrightarrow> solo w' = solo w"
  by (simp add: same_rest_def solo_def)

lemma unload_table_tabs:
  assumes "tabs w f (del_head d, zs)" and "sizes w f" and "one_unit sel" and "f sel = ps" and "length ps \<le> fuel"
    and "collected env (hash w) d zs" and "stands_for d zs \<inter> set ps = {}"
  shows "\<exists>d' zs' w'. unload_table fuel env sel (head_link ps None) (head_link (tl ps) None) d w = Inr (Returns d', w') \<and>
    tabs w' (f(sel := [])) (del_head d', zs') \<and> sizes w' (f(sel := [])) \<and>
    stands_for d' zs' \<subseteq> set ps \<union> stands_for d zs \<and> num_unloaded d' = num_unloaded d + length ps \<and> same_rest w w' \<and>
    collected env (hash w') d' zs' \<and>
    (inj_on (env_address env) (set ps \<union> stands_for d zs) \<longrightarrow> stands_for d' zs' = set ps \<union> stands_for d zs)"
  using assms
proof (induction ps arbitrary: fuel w f d zs)
  case Nil
  then have "f(sel := []) = f" by auto
  then show ?case using Nil by (intro exI [of _ d] exI [of _ zs] exI [of _ w]) (simp add: returnS_def same_rest_def)
next
  case (Cons p ps)
  note sel = Cons.prems(3)
  from Cons.prems(5) obtain n where fuel: "fuel = Suc n" "length ps \<le> n" by (cases fuel) auto
  have f: "f sel = [] @ p # ps" using Cons.prems(4) by simp
  from del_loaded_tabs [OF Cons.prems(1) sel f] obtain u h where
    del: "del_loaded sel p w = Inr (Returns (), set_loaded sel h (w\<lparr>hash := u\<rparr>))" and
    t1: "tabs (set_loaded sel h (w\<lparr>hash := u\<rparr>)) (f(sel := ps)) (del_head d, zs)" and
    u: "alive u = alive (hash w)" "hh_key u = hh_key (hash w)" by auto
  have rep: "represents (hash w) (loaded sel w) (p # ps)" using tabs_represents(2) [OF Cons.prems(1) sel] Cons.prems(4) by simp
  have "separate (hash w) (a1_loaded_stims w, f ARTIX_SELECT_A1) (a2_loaded_stims w, f ARTIX_SELECT_A2) (del_head d, zs)"
    using Cons.prems(1) by (simp add: tabs_def)
  then have "set (f sel) \<inter> set zs = {}" using sel by (auto simp: separate_def apart_def one_unit_def)
  then have p: "alive (hash w) p" "p \<notin> set ps" "p \<notin> set zs" "p \<notin> stands_for d zs"
    using rep Cons.prems(4,7) by (auto simp: represents_def)
  define w2 where "w2 = add_count sel (- 1) (set_loaded sel h (w\<lparr>hash := u\<rparr>))"
  let ?d = "d\<lparr>num_unloaded := Suc (num_unloaded d)\<rparr>"
  have t2: "tabs w2 (f(sel := ps)) (del_head ?d, zs)" using t1 by (simp add: w2_def)
  have s2: "sizes w2 (f(sel := ps))" using sizes_del [where xs = "[]" and x = p and ys = ps and f = f and sel = sel] Cons.prems(2,4) sel by (simp add: w2_def)
  have w2: "hash w2 = u" "stands_for ?d zs = stands_for d zs" by (simp_all add: w2_def set_loaded_def add_count_def stands_for_def)
  have "collected env (hash w2) ?d zs" using Cons.prems(6) by (simp add: w2 collected_def u)
  from collect_entry_tabs [OF t2 this, of p] p obtain d1 zs1 v where
    c: "collect_entry env p ?d w2 = Inr (Returns d1, w2\<lparr>hash := v\<rparr>)" "tabs (w2\<lparr>hash := v\<rparr>) (f(sel := ps)) (del_head d1, zs1)"
      "stands_for d1 zs1 \<subseteq> insert p (stands_for d zs)" "num_unloaded d1 = Suc (num_unloaded d)" "collected env v d1 zs1"
      "inj_on (env_address env) (insert p (stands_for d zs)) \<longrightarrow> stands_for d1 zs1 = insert p (stands_for d zs)"
    by (auto simp: w2 u)
  have nx: "hash_next (head_link ps None) (w2\<lparr>hash := v\<rparr>) = Inr (Returns (head_link (tl ps) None), w2\<lparr>hash := v\<rparr>)"
    by (rule hash_next_tabs [OF c(2) sel]) simp
  have "sizes (w2\<lparr>hash := v\<rparr>) (f(sel := ps))" using s2 by simp
  have "collected env (hash (w2\<lparr>hash := v\<rparr>)) d1 zs1" "stands_for d1 zs1 \<inter> set ps = {}"
    using c(3,5) p(2) Cons.prems(7) by auto
  from Cons.IH [OF c(2) \<open>sizes (w2\<lparr>hash := v\<rparr>) (f(sel := ps))\<close> sel fun_upd_same fuel(2) this, unfolded fun_upd_upd]
  obtain d' zs' w' where
    r: "unload_table n env sel (head_link ps None) (head_link (tl ps) None) d1 (w2\<lparr>hash := v\<rparr>) = Inr (Returns d', w')"
      "tabs w' (f(sel := [])) (del_head d', zs')" "sizes w' (f(sel := []))"
      "stands_for d' zs' \<subseteq> set ps \<union> stands_for d1 zs1" "num_unloaded d' = num_unloaded d1 + length ps"
      "same_rest (w2\<lparr>hash := v\<rparr>) w'" "collected env (hash w') d' zs'"
      "inj_on (env_address env) (set ps \<union> stands_for d1 zs1) \<longrightarrow> stands_for d' zs' = set ps \<union> stands_for d1 zs1" by blast
  have run: "unload_table fuel env sel (head_link (p # ps) None) (head_link (tl (p # ps)) None) d w = Inr (Returns d', w')"
    using del c(1) nx r(1) by (simp add: fuel(1) script_defs w2_def)
  have rest: "same_rest w w'" using r(6) by (simp add: same_rest_def w2_def add_count_def set_loaded_def)
  have stands: "stands_for d' zs' \<subseteq> set (p # ps) \<union> stands_for d zs" using r(4) c(3) by (auto simp: stands_for_def)
  have all: "stands_for d' zs' = set (p # ps) \<union> stands_for d zs"
    if "inj_on (env_address env) (set (p # ps) \<union> stands_for d zs)"
  proof -
    have "inj_on (env_address env) (insert p (stands_for d zs))" by (rule inj_on_subset [OF that]) auto
    then have one: "stands_for d1 zs1 = insert p (stands_for d zs)" using c(6) by simp
    then have "inj_on (env_address env) (set ps \<union> stands_for d1 zs1)" using that by simp
    then show ?thesis using r(8) one by simp
  qed
  have "num_unloaded d' = num_unloaded d + length (p # ps)" using r(5) c(4) by simp
  with run r(2,3,7) rest stands all show ?case by blast
qed

lemma represents_le_brk:
  assumes "store_ok u" and "represents u h xs"
  shows "length xs \<le> brk u"
proof -
  have "distinct xs" and "set xs \<subseteq> {..<brk u}" using assms by (auto simp: represents_def store_ok_def)
  then show ?thesis using card_mono [of "{..<brk u}" "set xs"] by (simp add: distinct_card)
qed

lemma unload_all_of_tabs:
  assumes "tabs w f (del_head d, zs)" and "sizes w f" and sel: "one_unit sel"
    and coll: "collected env (hash w) d zs" "stands_for d zs \<inter> set (f sel) = {}"
  shows "\<exists>d' zs' w'. unload_all_of env sel d w = Inr (Returns d', w') \<and>
    tabs w' (f(sel := [])) (del_head d', zs') \<and> sizes w' (f(sel := [])) \<and>
    stands_for d' zs' \<subseteq> set (f sel) \<union> stands_for d zs \<and> num_unloaded d' = length (f sel) \<and> same_rest w w' \<and>
    collected env (hash w') d' zs' \<and>
    (inj_on (env_address env) (set (f sel) \<union> stands_for d zs) \<longrightarrow> stands_for d' zs' = set (f sel) \<union> stands_for d zs)"
proof -
  let ?d = "d\<lparr>num_unloaded := 0\<rparr>"
  have len: "length (f sel) \<le> Suc (brk (hash w))"
    using represents_le_brk tabs_represents [OF assms(1) sel] by (simp add: le_SucI)
  have t: "tabs w f (del_head ?d, zs)" using assms(1) by simp
  have stands: "stands_for ?d zs = stands_for d zs" by (simp add: stands_for_def)
  have "collected env (hash w) ?d zs" "stands_for ?d zs \<inter> set (f sel) = {}"
    using coll by (simp_all add: collected_def stands)
  from unload_table_tabs [OF t assms(2) sel refl len this] obtain d' zs' w1 where
    r: "unload_table (Suc (brk (hash w))) env sel (head_link (f sel) None) (head_link (tl (f sel)) None) ?d w = Inr (Returns d', w1)"
      "tabs w1 (f(sel := [])) (del_head d', zs')" "sizes w1 (f(sel := []))"
      "stands_for d' zs' \<subseteq> set (f sel) \<union> stands_for d zs" "num_unloaded d' = length (f sel)" "same_rest w w1"
      "collected env (hash w1) d' zs'"
      "inj_on (env_address env) (set (f sel) \<union> stands_for d zs) \<longrightarrow> stands_for d' zs' = set (f sel) \<union> stands_for d zs"
    unfolding stands by auto
  define w2 where "w2 = (if sel = ARTIX_SELECT_A1 then w1\<lparr>cur_a1_stim_addr := 0\<rparr> else w1\<lparr>cur_a2_stim_addr := 0\<rparr>)"
  have nx: "hash_next (head_link (f sel) None) w = Inr (Returns (head_link (tl (f sel)) None), w)"
    by (rule hash_next_tabs [OF assms(1) sel refl])
  have "unload_all_of env sel d w = Inr (Returns d', w2)"
    using head_of_table [OF assms(1) sel] nx r(1)
    by (simp add: unload_all_of_def bindS_def getS_def modifyS_def returnS_def w2_def)
  moreover have "tabs w2 (f(sel := [])) (del_head d', zs')" "sizes w2 (f(sel := []))" "same_rest w w2"
    using r(2,3,6) unfolding w2_def by (cases "sel = ARTIX_SELECT_A1"; simp add: same_rest_def)+
  moreover have "hash w2 = hash w1" by (simp add: w2_def)
  ultimately show ?thesis using r(4,5,7,8) by (intro exI [of _ d'] exI [of _ zs'] exI [of _ w2]) simp
qed

text \<open>With empty tables nothing that is freed can be in them.\<close>

lemma tabs_forget: "tabs w f D \<Longrightarrow> tabs w f (None, [])"
  by (auto simp: tabs_def separate_def apart_def represents_def)

lemma keeps_free_collected: "keeps (session_out UNIV) (free_collected n d el tmp)"
proof (induction n d el tmp rule: free_collected.induct)
  case (3 n d q tmp)
  have "keeps (session_out UNIV) (on_hash (free_element q))"
    unfolding script_spec_def using session_free_element [of UNIV] by (auto split: outcome.split)
  moreover note keeps_free_prgm_stim [of "del_of d q" UNIV]
  ultimately show ?case unfolding free_collected.simps by (intro keeps_bind keeps_reads "3.IH") simp_all
qed (simp_all add: script_rules)

lemma unload_all_tables:
  assumes sym: "prgm_symbol w = Fe_ptr Prgm_ref" and t: "tabs w f (None, [])" and sz: "sizes w f" and "solo w"
  obtains d zs w' where "f_unload_all env x w =
      bindS (free_collected (Suc (brk (hash w'))) d (head_link zs None) (head_link (tl zs) None)) (\<lambda>_.
      returnS (Fe_pair (fe_number (length (f ARTIX_SELECT_A1))) (fe_number (length (f ARTIX_SELECT_A2))))) w'"
    and "session_out UNIV w'" and "represents (hash w') (del_head d) zs" and "length zs \<le> brk (hash w')"
    and "collected env (hash w') d zs" and "same_rest w w'"
    and "inj_on (env_address env) (set (f ARTIX_SELECT_A1 @ f ARTIX_SELECT_A2)) \<longrightarrow>
      stands_for d zs = set (f ARTIX_SELECT_A1 @ f ARTIX_SELECT_A2)"
    and "stands_for d zs \<subseteq> set (f ARTIX_SELECT_A1 @ f ARTIX_SELECT_A2)"
proof -
  let ?d = "\<lparr>del_head = None, del_of = (\<lambda>_. 0), num_unloaded = 0\<rparr>"
  have none: "stands_for ?d [] = {}" "collected env u ?d []" for u by (simp_all add: stands_for_def collected_def)
  have "tabs w f (del_head ?d, [])" using t by simp
  from unload_all_of_tabs [OF this sz units(1) none(2)] none(1) obtain d1 zs1 w1 where 1:
    "unload_all_of env ARTIX_SELECT_A1 ?d w = Inr (Returns d1, w1)" "tabs w1 (f(ARTIX_SELECT_A1 := [])) (del_head d1, zs1)"
    "sizes w1 (f(ARTIX_SELECT_A1 := []))" "num_unloaded d1 = length (f ARTIX_SELECT_A1)" "same_rest w w1"
    "collected env (hash w1) d1 zs1" "stands_for d1 zs1 \<subseteq> set (f ARTIX_SELECT_A1)"
    "inj_on (env_address env) (set (f ARTIX_SELECT_A1)) \<longrightarrow> stands_for d1 zs1 = set (f ARTIX_SELECT_A1)"
    by auto
  have "stands_for d1 zs1 \<inter> set ((f(ARTIX_SELECT_A1 := [])) ARTIX_SELECT_A2) = {}"
    using 1(7) tabs_lists(1) [OF t] by auto
  have second: "(f(ARTIX_SELECT_A1 := [])) ARTIX_SELECT_A2 = f ARTIX_SELECT_A2" by simp
  from unload_all_of_tabs [OF 1(2,3) units(2) 1(6) \<open>stands_for d1 zs1 \<inter> set ((f(ARTIX_SELECT_A1 := [])) ARTIX_SELECT_A2) = {}\<close>]
  obtain d2 zs2 w2 where 2:
    "unload_all_of env ARTIX_SELECT_A2 d1 w1 = Inr (Returns d2, w2)"
    "tabs w2 (f(ARTIX_SELECT_A1 := [], ARTIX_SELECT_A2 := [])) (del_head d2, zs2)"
    "sizes w2 (f(ARTIX_SELECT_A1 := [], ARTIX_SELECT_A2 := []))" "num_unloaded d2 = length (f ARTIX_SELECT_A2)" "same_rest w1 w2"
    "collected env (hash w2) d2 zs2" "stands_for d2 zs2 \<subseteq> set (f ARTIX_SELECT_A2) \<union> stands_for d1 zs1"
    "inj_on (env_address env) (set (f ARTIX_SELECT_A2) \<union> stands_for d1 zs1) \<longrightarrow>
      stands_for d2 zs2 = set (f ARTIX_SELECT_A2) \<union> stands_for d1 zs1" unfolding second by blast
  let ?g = "f(ARTIX_SELECT_A1 := [], ARTIX_SELECT_A2 := [])"
  have rep: "store_ok (hash w2)" "represents (hash w2) (del_head d2) zs2"
    using separate_parts(1,4) 2(2) unfolding tabs_def by fastforce+
  have "tabs w2 ?g (None, [])" "solo w2" using tabs_forget [OF 2(2)] same_rest_solo 1(5) 2(5) assms(4) by auto
  then have out: "session_out UNIV w2" using 2(3) unfolding session_out_def tables_out_def by (auto intro!: exI [of _ ?g])
  have head: "del_head d2 = head_link zs2 None" using represents_head [OF rep(2)] .
  have "hash_next (head_link zs2 None) w2 = Inr (Returns (head_link (tl zs2) None), w2)"
  proof (cases zs2)
    case (Cons q qs)
    have q: "represents (hash w2) (del_head d2) (q # qs)" using rep(2) by (simp add: Cons)
    have "alive (hash w2) q" using q by (simp add: represents_def)
    moreover have "app_next (hash w2) q = head_link qs None" by (rule next_in_table [OF q])
    ultimately show ?thesis using Cons by (simp add: hash_next_def liftS_def)
  qed (simp add: hash_next_def)
  then have run: "f_unload_all env x w =
      bindS (free_collected (Suc (brk (hash w2))) d2 (head_link zs2 None) (head_link (tl zs2) None)) (\<lambda>_.
      returnS (Fe_pair (fe_number (length (f ARTIX_SELECT_A1))) (fe_number (length (f ARTIX_SELECT_A2))))) w2"
    using global_ok [OF sym] 1(1) 2(1) by (simp add: f_unload_all_def bindS_def getS_def head 1(4) [symmetric] 2(4) [symmetric])
  have all: "stands_for d2 zs2 = set (f ARTIX_SELECT_A1 @ f ARTIX_SELECT_A2)"
    if inj: "inj_on (env_address env) (set (f ARTIX_SELECT_A1 @ f ARTIX_SELECT_A2))"
  proof -
    have "inj_on (env_address env) (set (f ARTIX_SELECT_A1))" by (rule inj_on_subset [OF inj]) auto
    then have "stands_for d1 zs1 = set (f ARTIX_SELECT_A1)" using 1(8) by simp
    then show ?thesis using 2(8) inj by (simp add: Un_commute)
  qed
  show thesis
    by (rule that [OF run out rep(2) represents_le_brk [OF rep] 2(6) same_rest_trans [OF 1(5) 2(5)]])
      (use all 2(7) 1(7) in auto)
qed

lemma spec_unload_all: "script_spec session_ok (f_unload_all env x) (\<lambda>_. session_out UNIV) session_ok"
  unfolding script_spec_def
proof (intro allI impI)
  fix w r w'
  assume ok: "session_ok w" and run: "f_unload_all env x w = Inr (r, w')"
  show "case r of Returns v \<Rightarrow> session_out UNIV w' | _ \<Rightarrow> session_ok w'"
  proof (cases "global_prgm w = Inr (Returns (), w)")
    case True
    then have sym: "prgm_symbol w = Fe_ptr Prgm_ref" by (simp add: global_Returns)
    obtain f where "tabs w f (None, [])" "sizes w f" "solo w" using ok by (auto simp: session_out_def tables_out_def)
    from unload_all_tables [OF sym this, of env x] obtain n d el tmp v w2 where
      u: "f_unload_all env x w = bindS (free_collected n d el tmp) (\<lambda>_. returnS v) w2" "session_out UNIV w2" by metis
    have "keeps (session_out UNIV) (bindS (free_collected n d el tmp) (\<lambda>_. returnS v))"
      by (intro keeps_bind keeps_free_collected keeps_simple)
    then have "case r of Returns v \<Rightarrow> session_out UNIV w' | _ \<Rightarrow> session_out UNIV w'"
      using run u unfolding script_spec_def by metis
    then show ?thesis by (cases r) (auto intro: session_out_mono)
  next
    case False
    have g: "global_prgm w = Inr (s, w1) \<Longrightarrow> w1 = w" for s w1
      by (auto simp: global_prgm_def fe_toptr_def script_defs bindR_Inr_iff split: fe_object.splits if_splits)
    then obtain s where s: "global_prgm w = Inr (s, w)"
      using run by (cases "global_prgm w") (auto simp: f_unload_all_def bindS_def)
    then have "w' = w \<and> (\<forall>v. r \<noteq> Returns v)"
      using False run by (cases s) (auto simp: f_unload_all_def bindS_def)
    then show ?thesis using ok by (cases r) auto
  qed
qed

lemma keeps_unload_all [script_rules]: "keeps session_ok (f_unload_all env x)"
  by (rule spec_weaken [OF spec_unload_all]) (auto intro: session_out_mono)

section \<open>Freeing what was collected\<close>

text \<open>
  The last loop of \<open>f_unload_all\<close> frees the third table while it walks along it. \<open>linked\<close> is what the walk needs
  of the elements that are left: they are live, different, and each links to the next.
\<close>

fun linked :: "hash_store \<Rightarrow> nat list \<Rightarrow> bool" where
  "linked u [] \<longleftrightarrow> True"
| "linked u (q # qs) \<longleftrightarrow> alive u q \<and> q \<notin> set qs \<and> app_next u q = head_link qs None \<and> linked u qs"

lemma represents_linked:
  assumes "represents u h xs"
  shows "linked u xs"
proof -
  have "linked u zs" if "xs = ys @ zs" for ys zs
    using that
  proof (induction zs arbitrary: ys)
    case (Cons z zs)
    have "dseg (app_next u) (app_prev u) None h (ys @ z # zs) None" using assms Cons.prems by (simp add: represents_def)
    from dseg_at(2) [OF this] have "app_next u z = head_link zs None" .
    moreover have "alive u z" "z \<notin> set zs" using assms Cons.prems by (auto simp: represents_def)
    moreover have "linked u zs" using Cons.prems by (intro Cons.IH [of "ys @ [z]"]) simp
    ultimately show ?case by simp
  qed simp
  from this [of "[]" xs] show ?thesis by simp
qed

lemma linked_free: "p \<notin> set qs \<Longrightarrow> linked (u\<lparr>alive := (alive u)(p := False)\<rparr>) qs = linked u qs"
  by (induction qs) auto

lemma linked_next:
  assumes "linked (hash w) qs"
  shows "hash_next (head_link qs None) w = Inr (Returns (head_link (tl qs) None), w)"
  using assms by (cases qs) (simp_all add: hash_next_def liftS_def)

text \<open>Freeing an entry: it ends the process when its stimulus or its profile was freed before.\<close>

lemma free_prgm_stim_cases:
  assumes "alive (hash w) p"
  obtains (freed) "free_prgm_stim p w = Inl Crash_freed"
  | (frees) s k where "stims w (ps_stim (prgm_stims w p)) = Some (s, k)"
      "free_prgm_stim p w = Inr (Returns (), w\<lparr>stims := (stims w)(ps_stim (prgm_stims w p) := None),
         profiles := (profiles w)(k := None), hash := (hash w)\<lparr>alive := (alive (hash w))(p := False)\<rparr>\<rparr>)"
proof -
  have e: "get_entry p w = Inr (Returns (prgm_stims w p), w)" using assms by (simp add: get_entry_def script_defs)
  show thesis
  proof (cases "\<exists>s k. stims w (ps_stim (prgm_stims w p)) = Some (s, k) \<and> profiles w k \<noteq> None")
    case True
    then show thesis using frees e assms
      by (auto simp: free_prgm_stim_def free_stim_def stimR_def bindS_def on_hash_def free_element_def)
  next
    case False
    then have "free_prgm_stim p w = Inl Crash_freed" using e
      by (auto simp: free_prgm_stim_def free_stim_def stimR_def bindS_def split: option.splits)
    then show thesis by (rule freed)
  qed
qed

text \<open>One round of the loop, and with it all of them: the fuel is enough for the elements of the table.\<close>

lemma free_collected_step:
  assumes "linked (hash w) (q # qs)" and "p \<notin> set (q # qs)" and "del_of d q = p"
    and "free_prgm_stim p w = Inr (Returns (), w\<lparr>stims := ss, profiles := ks, hash := (hash w)\<lparr>alive := (alive (hash w))(p := False)\<rparr>\<rparr>)"
  defines "w' \<equiv> w\<lparr>stims := ss, profiles := ks, hash := (hash w)\<lparr>alive := (alive (hash w))(p := False, q := False)\<rparr>\<rparr>"
  shows "free_collected (Suc n) d (head_link (q # qs) None) (head_link qs None) w =
      free_collected n d (head_link qs None) (head_link (tl qs) None) w'" and "linked (hash w') qs"
proof -
  have "linked (hash w) qs" "q \<notin> set qs" "p \<notin> set qs" "alive (hash w) q" "q \<noteq> p" using assms(1,2) by auto
  then show l: "linked (hash w') qs"
    using linked_free [of p qs "hash w"] linked_free [of q qs "(hash w)\<lparr>alive := (alive (hash w))(p := False)\<rparr>"]
    by (simp add: w'_def)
  show "free_collected (Suc n) d (head_link (q # qs) None) (head_link qs None) w =
      free_collected n d (head_link qs None) (head_link (tl qs) None) w'"
    using assms(3,4) \<open>alive (hash w) q\<close> \<open>q \<noteq> p\<close> linked_next [OF l]
    by (simp add: bindS_def on_hash_def free_element_def w'_def)
qed

lemma free_collected_fuel:
  assumes "linked (hash w) zs" and "\<forall>q\<in>set zs. alive (hash w) (del_of d q) \<and> del_of d q \<notin> set zs"
    and "inj_on (del_of d) (set zs)" and "length zs \<le> n"
  shows "free_collected n d (head_link zs None) (head_link (tl zs) None) w = Inl Crash_freed \<or>
    (\<exists>w'. free_collected n d (head_link zs None) (head_link (tl zs) None) w = Inr (Returns (), w'))"
  using assms
proof (induction zs arbitrary: n w)
  case Nil
  then show ?case by (simp add: returnS_def)
next
  case (Cons q qs)
  from Cons.prems(4) obtain m where n: "n = Suc m" "length qs \<le> m" by (cases n) auto
  let ?p = "del_of d q"
  have p: "alive (hash w) ?p" "?p \<notin> set (q # qs)" using Cons.prems(2) by auto
  have rest: "del_of d q' \<noteq> ?p" if "q' \<in> set qs" for q' using Cons.prems(1,3) that by (force simp: inj_on_def)
  from p(1) show ?case
  proof (cases rule: free_prgm_stim_cases)
    case freed
    then show ?thesis by (simp add: n bindS_def)
  next
    case (frees s k)
    note step = free_collected_step [OF Cons.prems(1) p(2) refl frees(2)]
    show ?thesis unfolding n(1) list.sel step(1)
      by (rule Cons.IH [OF step(2) _ _ n(2)]) (use Cons.prems(2,3) rest in auto)
  qed
qed

text \<open>When the stimuli and their profiles are live and no two stimuli have the same profile, all of them are freed.\<close>

lemma free_collected_all:
  assumes "linked (hash w) zs" and "\<forall>q\<in>set zs. alive (hash w) (del_of d q) \<and> del_of d q \<notin> set zs"
    and "inj_on (del_of d) (set zs)" and "length zs \<le> n"
    and "\<forall>p\<in>stands_for d zs. (\<exists>s. stims w (ps_stim (prgm_stims w p)) = Some (s, k p)) \<and> profiles w (k p) \<noteq> None"
    and "inj_on k (stands_for d zs)"
  shows "\<exists>w'. free_collected n d (head_link zs None) (head_link (tl zs) None) w = Inr (Returns (), w') \<and>
    (\<forall>p\<in>stands_for d zs. stims w' (ps_stim (prgm_stims w p)) = None \<and> profiles w' (k p) = None \<and> \<not> alive (hash w') p) \<and>
    (\<forall>i. stims w i = None \<longrightarrow> stims w' i = None) \<and> (\<forall>j. profiles w j = None \<longrightarrow> profiles w' j = None) \<and>
    (\<forall>x. \<not> alive (hash w) x \<longrightarrow> \<not> alive (hash w') x) \<and> prgm_stims w' = prgm_stims w"
  using assms
proof (induction zs arbitrary: n w)
  case Nil
  then show ?case by (simp add: returnS_def stands_for_def)
next
  case (Cons q qs)
  from Cons.prems(4) obtain m where n: "n = Suc m" "length qs \<le> m" by (cases n) auto
  let ?p = "del_of d q"
  have stands: "stands_for d (q # qs) = insert ?p (stands_for d qs)" by (simp add: stands_for_def)
  have new: "?p \<notin> stands_for d qs" using Cons.prems(1,3) by (auto simp: stands_for_def)
  have p: "alive (hash w) ?p" "?p \<notin> set (q # qs)" using Cons.prems(2) by auto
  obtain s where s: "stims w (ps_stim (prgm_stims w ?p)) = Some (s, k ?p)" "profiles w (k ?p) \<noteq> None"
    using Cons.prems(5) by (auto simp: stands)
  have frees: "free_prgm_stim ?p w = Inr (Returns (), w\<lparr>stims := (stims w)(ps_stim (prgm_stims w ?p) := None),
      profiles := (profiles w)(k ?p := None), hash := (hash w)\<lparr>alive := (alive (hash w))(?p := False)\<rparr>\<rparr>)"
    using p(1) s by (auto simp: free_prgm_stim_def get_entry_def free_stim_def stimR_def script_defs on_hash_def free_element_def)
  note step = free_collected_step [OF Cons.prems(1) p(2) refl frees]
  let ?w = "w\<lparr>stims := (stims w)(ps_stim (prgm_stims w ?p) := None), profiles := (profiles w)(k ?p := None),
    hash := (hash w)\<lparr>alive := (alive (hash w))(?p := False, q := False)\<rparr>\<rparr>"
  have other: "k x \<noteq> k ?p \<and> ps_stim (prgm_stims w x) \<noteq> ps_stim (prgm_stims w ?p)" if x: "x \<in> stands_for d qs" for x
  proof -
    have "k x \<noteq> k ?p" using Cons.prems(6) x new by (auto simp: stands inj_on_def)
    moreover obtain t where "stims w (ps_stim (prgm_stims w x)) = Some (t, k x)" using Cons.prems(5) x by (auto simp: stands)
    ultimately show ?thesis using s(1) by auto
  qed
  have live: "\<forall>p\<in>stands_for d qs. (\<exists>s. stims ?w (ps_stim (prgm_stims ?w p)) = Some (s, k p)) \<and> profiles ?w (k p) \<noteq> None"
    using Cons.prems(5) other by (auto simp: stands)
  have diff: "del_of d q' \<noteq> ?p" if "q' \<in> set qs" for q'
    using new imageI [OF that, of "del_of d"] unfolding stands_for_def by metis
  have rest: "\<forall>q'\<in>set qs. alive (hash ?w) (del_of d q') \<and> del_of d q' \<notin> set qs" "inj_on (del_of d) (set qs)"
    using Cons.prems(2,3) diff by auto
  have "inj_on k (stands_for d qs)" using Cons.prems(6) by (simp add: stands)
  from Cons.IH [OF step(2) rest n(2) live this] obtain w' where
    w': "free_collected m d (head_link qs None) (head_link (tl qs) None) ?w = Inr (Returns (), w')"
      "\<forall>p\<in>stands_for d qs. stims w' (ps_stim (prgm_stims ?w p)) = None \<and> profiles w' (k p) = None \<and> \<not> alive (hash w') p"
      "\<forall>i. stims ?w i = None \<longrightarrow> stims w' i = None" "\<forall>j. profiles ?w j = None \<longrightarrow> profiles w' j = None"
      "\<forall>x. \<not> alive (hash ?w) x \<longrightarrow> \<not> alive (hash w') x" "prgm_stims w' = prgm_stims ?w" by blast
  have "free_collected n d (head_link (q # qs) None) (head_link (tl (q # qs)) None) w = Inr (Returns (), w')"
    using step(1) w'(1) by (simp add: n)
  then show ?case using w'(2-6) by (intro exI [of _ w']) (auto simp: stands)
qed

section \<open>A session\<close>

text \<open>What a program can go through: it is created in a process that has loaded nothing and has no dual stimulus open,
  it is opened, closed, and a script calls its functions, with any arguments.\<close>

inductive session :: "prgm_env \<Rightarrow> prgm_world \<Rightarrow> bool" for env where
  created: "prgm_create open0 path0 db_path0 w = Inr w' \<Longrightarrow> hash w = empty_store \<Longrightarrow> solo w \<Longrightarrow> session env w'"
| opened: "session env w \<Longrightarrow> prgm_open env path i db_path w = Inr w' \<Longrightarrow> session env w'"
| called: "session env w \<Longrightarrow> fe_call env name arg w = Inr (r, w') \<Longrightarrow> session env w'"
| closed: "session env w \<Longrightarrow> session env (prgm_close w)"

lemma keeps_call:
  assumes "solo_files env"
  shows "keeps session_ok (fe_call env name arg)"
proof (cases "map_of (fe_gemini_funcs env) name")
  case (Some f)
  then have "(name, f) \<in> set (fe_gemini_funcs env)" by (rule map_of_SomeD)
  then have "keeps session_ok (f arg)" for arg
    using assms by (auto simp: fe_gemini_funcs_def f_run_def f_runc_def f_get_pin_names_def f_get_fail_pins_def intro!: script_rules)
  then show ?thesis using Some by (simp add: fe_call_def)
qed (simp add: fe_call_def script_rules)

lemma session_out_open:
  "session_out S (w\<lparr>prgm_path := a\<rparr>) = session_out S w" "session_out S (w\<lparr>db_prgm_id := i\<rparr>) = session_out S w"
  "session_out S (w\<lparr>prgm_db_path := a\<rparr>) = session_out S w" "session_out S (w\<lparr>prgm_db := db\<rparr>) = session_out S w"
  "session_out S (w\<lparr>is_path_open := b\<rparr>) = session_out S w"
  by (simp_all add: session_out_def tables_out_def solo_def tabs_def sizes_def)

lemma session_session_ok:
  assumes "solo_files env" and "session env w"
  shows "session_ok w"
  using assms(2)
proof (induction rule: session.induct)
  case (created open0 path0 db_path0 w w')
  then have w': "hash w' = empty_store" "stims w' = stims w" "a1_loaded_stims w' = None" "a2_loaded_stims w' = None"
    "num_a1_loaded_stims w' = 0" "num_a2_loaded_stims w' = 0"
    by (auto simp: prgm_create_def prgm_create_fe_ctx_def solo_def)
  have "tabs w' (\<lambda>_. []) (None, [])" "sizes w' (\<lambda>_. [])"
    using w' by (auto simp: tabs_def keys_ok_def separate_def apart_def represents_def sizes_def store_ok_def empty_store_def)
  then show ?case using w'(2) created(3) unfolding session_out_def tables_out_def solo_def by auto
next
  case (opened w path i db_path w')
  then show ?case
    by (auto simp: prgm_open_def bindR_Inr_iff session_out_open Let_def split: if_splits option.splits)
next
  case (called w name arg r w')
  then show ?case using keeps_call [OF assms(1), of name arg] unfolding script_spec_def
    by (cases r) fastforce+
next
  case (closed w)
  then show ?case by (simp add: session_close)
qed

end
