(* ===== verification/Prgm_Run.thy ===== *)
theory Prgm_Run
  imports Prgm_Unload
begin

text \<open>
  What scripts see of the functions: the types of their results, how \<open>run\<close> and \<open>runc\<close> relate, and that
  the addresses that a load returns are the ones that a run takes.
\<close>

section \<open>Types of the results\<close>

text \<open>
  The results as the code gives them. The comments of prgm.c agree for most of the functions; they differ for \<^verbatim>\<open>load\<close>,
  \<^verbatim>\<open>loads\<close> and \<^verbatim>\<open>loada\<close>, which are said to return two numbers but return nil in the place of a unit that the
  stimulus does not use, and for \<^verbatim>\<open>exit\<close>, which is said to return nil but does not return.
\<close>

definition is_bool :: "fe_object \<Rightarrow> bool" where
  "is_bool x \<longleftrightarrow> x = Fe_nil \<or> x = Fe_symbol ''t''"

fun list_of :: "(fe_object \<Rightarrow> bool) \<Rightarrow> fe_object \<Rightarrow> bool" where
  "list_of P Fe_nil \<longleftrightarrow> True"
| "list_of P (Fe_pair a d) \<longleftrightarrow> P a \<and> list_of P d"
| "list_of P _ \<longleftrightarrow> False"

fun address_pair :: "fe_object \<Rightarrow> bool" where
  "address_pair (Fe_pair a b) \<longleftrightarrow>
     fe_type a \<in> {FE_TNUMBER, FE_TNIL} \<and> fe_type b \<in> {FE_TNUMBER, FE_TNIL} \<and> (fe_type a = FE_TNUMBER \<or> fe_type b = FE_TNUMBER)"
| "address_pair _ \<longleftrightarrow> False"

fun run_result :: "fe_object \<Rightarrow> bool" where
  "run_result (Fe_pair n (Fe_pair b (Fe_pair c Fe_nil))) \<longleftrightarrow> fe_type n = FE_TNUMBER \<and> is_bool b \<and> fe_type c = FE_TNUMBER"
| "run_result _ \<longleftrightarrow> False"

fun number_pair :: "fe_object \<Rightarrow> bool" where
  "number_pair (Fe_pair a b) \<longleftrightarrow> fe_type a = FE_TNUMBER \<and> fe_type b = FE_TNUMBER"
| "number_pair _ \<longleftrightarrow> False"

definition result_types :: "(string \<times> (fe_object \<Rightarrow> bool)) list" where
  "result_types =
     [(''load'', address_pair), (''reads'', \<lambda>v. fe_type v = FE_TPTR), (''writes'', \<lambda>v. fe_type v = FE_TPTR),
      (''loads'', address_pair), (''loada'', address_pair), (''unload'', \<lambda>v. v = Fe_nil), (''unload-all'', number_pair),
      (''run'', run_result), (''runc'', run_result), (''set-profile'', \<lambda>v. v = Fe_nil),
      (''get-pin-names'', list_of (\<lambda>x. fe_type x = FE_TSTRING)), (''get-fail-pins'', list_of is_bool), (''exit'', \<lambda>_. False)]"

lemma list_of_fe_list: "list_of P (fe_list xs) \<longleftrightarrow> (\<forall>x\<in>set xs. P x)"
  by (induction xs) (auto simp: fe_list_def)

lemma fe_bool_is_bool [simp]: "is_bool (fe_bool b)"
  by (simp add: fe_bool_def is_bool_def)

lemma case_pair_Returns:
  "(case x of (a, b) \<Rightarrow> g a b) w = Inr (Returns y, w') \<longleftrightarrow> g (fst x) (snd x) w = Inr (Returns y, w')"
  by (cases x) simp

lemma return_Returns [simp]: "returnS x w = Inr (Returns y, w') \<longleftrightarrow> y = x \<and> w' = w"
  by (auto simp: returnS_def)

lemma load_object_mode:
  assumes "load_object env i a w = Inr (Returns (a1, a2, mode), w')"
  shows "mode \<noteq> STIM_MODE_NONE"
  using assms by (auto simp: load_object_def bindS_Returns case_pair_Returns fe_error_def Let_def split: if_splits)

lemma load_result_type:
  assumes "load_result r w = Inr (Returns v, w')"
  shows "address_pair v"
  using assms
  by (cases r) (auto simp: load_result_def liftS_def fe_bool_def split: stim_modes.splits)

lemma mapR_set:
  assumes "mapR f xs = Inr ys" and "\<And>x y. f x = Inr y \<Longrightarrow> P y"
  shows "\<forall>y\<in>set ys. P y"
  using assms(1) by (induction xs arbitrary: ys) (auto simp: bindR_Inr_iff assms(2))

lemma of_last_type:
  assumes "of_last env f w = Inr (Returns v, w')" and "\<And>x ys. f x = Inr ys \<Longrightarrow> \<forall>y\<in>set ys. P y"
  shows "list_of P v"
  using assms
  by (auto simp: of_last_def bindS_Returns liftS_def bindR_Inr_iff fe_bool_def list_of_fe_list split: option.splits)

lemma run_stim_type: "run_stim env arg c w = Inr (Returns v, w') \<Longrightarrow> run_result v"
  by (auto simp: run_stim_def bindS_Returns fe_list_def)

lemma load_types [simp]:
  "f_load env x w = Inr (Returns v, w') \<Longrightarrow> address_pair v" "f_loads env x w = Inr (Returns v, w') \<Longrightarrow> address_pair v"
  "f_loada env x w = Inr (Returns v, w') \<Longrightarrow> address_pair v"
  by (auto simp: f_load_def f_loads_def f_loada_def bindS_Returns dest: load_result_type)

lemma pointer_types [simp]:
  "f_reads env x w = Inr (Returns v, w') \<Longrightarrow> fe_type v = FE_TPTR" "f_writes env x w = Inr (Returns v, w') \<Longrightarrow> fe_type v = FE_TPTR"
  by (auto simp: f_reads_def f_writes_def bindS_Returns case_pair_Returns)

lemma unload_types [simp]:
  "f_unload x w = Inr (Returns v, w') \<Longrightarrow> v = Fe_nil" "f_unload_all env x w = Inr (Returns v, w') \<Longrightarrow> number_pair v"
  by (auto simp: f_unload_def f_unload_all_def bindS_Returns case_pair_Returns fe_bool_def)

lemma run_types [simp]:
  "f_run env x w = Inr (Returns v, w') \<Longrightarrow> run_result v" "f_runc env x w = Inr (Returns v, w') \<Longrightarrow> run_result v"
  by (auto simp: f_run_def f_runc_def dest: run_stim_type)

lemma profile_types [simp]:
  "f_set_profile env x w = Inr (Returns v, w') \<Longrightarrow> v = Fe_nil" "f_exit x w = Inr (Returns v, w') \<Longrightarrow> False"
  by (auto simp: f_set_profile_def f_exit_def bindS_Returns case_pair_Returns fe_bool_def fe_error_def split: if_splits)

lemma pin_types [simp]:
  "f_get_pin_names env x w = Inr (Returns v, w') \<Longrightarrow> list_of (\<lambda>x. fe_type x = FE_TSTRING) v"
  "f_get_fail_pins env x w = Inr (Returns v, w') \<Longrightarrow> list_of is_bool v"
proof -
  show "list_of (\<lambda>x. fe_type x = FE_TSTRING) v" if "f_get_pin_names env x w = Inr (Returns v, w')"
    using that unfolding f_get_pin_names_def
    by (rule of_last_type) (auto dest!: mapR_set [where P = "\<lambda>x. fe_type x = FE_TSTRING"] simp: bindR_Inr_iff)
  show "list_of is_bool v" if "f_get_fail_pins env x w = Inr (Returns v, w')"
    using that unfolding f_get_fail_pins_def
    by (rule of_last_type) (auto dest!: mapR_set [where P = is_bool] simp: bindR_Inr_iff)
qed

lemma typed_functions:
  "list_all (\<lambda>(name, f). \<exists>P. map_of result_types name = Some P \<and> (\<forall>arg w v w'. f arg w = Inr (Returns v, w') \<longrightarrow> P v))
     (fe_gemini_funcs env)"
  unfolding fe_gemini_funcs_def list.pred_inject split by (intro conjI) (auto simp: result_types_def dest: profile_types)

text \<open>C19. The values that the functions return to a script, by \<open>result_types\<close>: a load returns a dotted pair of which
  each part is a number or nil and at least one a number (the comments promise two numbers: a stimulus for one
  unit has nil for the other), \<^verbatim>\<open>reads\<close> and \<^verbatim>\<open>writes\<close> a pointer, \<^verbatim>\<open>unload\<close> and \<^verbatim>\<open>set-profile\<close> nil, \<^verbatim>\<open>unload-all\<close> a dotted pair
  of numbers, \<^verbatim>\<open>run\<close> and \<^verbatim>\<open>runc\<close> a list of a number, a boolean and a number, \<^verbatim>\<open>get-pin-names\<close> a list of strings,
  \<^verbatim>\<open>get-fail-pins\<close> a list of booleans; \<^verbatim>\<open>exit\<close> never returns, although its comment gives nil.\<close>

theorem call_result_type:
  assumes "fe_call env name arg w = Inr (Returns v, w')"
  shows "\<exists>P. map_of result_types name = Some P \<and> P v"
proof -
  obtain f where f: "map_of (fe_gemini_funcs env) name = Some f" "f arg w = Inr (Returns v, w')"
    using assms by (auto simp: fe_call_def fe_error_def split: option.splits)
  from map_of_SomeD [OF f(1)] typed_functions [of env] have "\<exists>P. map_of result_types name = Some P \<and>
      (\<forall>arg w v w'. f arg w = Inr (Returns v, w') \<longrightarrow> P v)"
    unfolding list_all_iff by blast
  then show ?thesis using f(2) by blast
qed

section \<open>Running up to the first failure\<close>

lemma run_pair_counts:
  assumes "run_pair env x st w = Inr (Returns st', w')"
  shows "num_tests_ran st' = wrap32 (Suc (num_tests_ran st))"
proof -
  have pending: "num_tests_ran st2 = num_tests_ran st" if "insert_pending env p st v = Inr (Returns st2, v')" for p st st2 v v'
    using that by (auto simp: insert_pending_def bindS_Returns case_pair_Returns split: if_splits)
  have saved: "num_tests_ran st2 = num_tests_ran st" if "save_results env b st v = Inr (Returns st2, v')" for b st st2 v v'
    using that by (auto simp: save_results_def bindS_Returns case_pair_Returns Let_def split: if_splits option.splits)
  show ?thesis using assms
    by (auto simp: run_pair_def bindS_Returns case_pair_Returns fe_error_def split: if_splits option.splits
      dest!: pending saved)
qed

lemma wrap32_Suc_add: "wrap32 (wrap32 (Suc a) + b) = wrap32 (a + Suc b)"
  by (simp add: wrap32_def mod_add_left_eq)

lemma run_loop_prefix:
  assumes "\<not> did_test_fail st"
  shows "\<exists>n\<le>length xs. run_loop env False st (fe_list xs) w = run_loop env True st (fe_list (take n xs)) w \<and>
     (\<forall>k<n. \<forall>st' w'. run_loop env True st (fe_list (take k xs)) w = Inr (Returns st', w') \<longrightarrow> \<not> did_test_fail st') \<and>
     (n < length xs \<longrightarrow> (\<exists>st' w'. run_loop env True st (fe_list (take n xs)) w = Inr (Returns st', w') \<and>
        did_test_fail st' \<and> num_tests_ran st' = wrap32 (num_tests_ran st + n)))"
  using assms
proof (induction xs arbitrary: st w)
  case (Cons x xs)
  have first: "\<forall>st' w'. run_loop env True st (fe_list (take 0 (x # xs))) w = Inr (Returns st', w') \<longrightarrow> \<not> did_test_fail st'"
    using Cons.prems by (simp add: fe_list_def)
  consider (stops) st1 w1 where "run_pair env x st w = Inr (Returns st1, w1)" "did_test_fail st1"
    | (goes) st1 w1 where "run_pair env x st w = Inr (Returns st1, w1)" "\<not> did_test_fail st1"
    | (ends) "\<forall>st1 w1. run_pair env x st w \<noteq> Inr (Returns st1, w1)" by blast
  then show ?case
  proof cases
    case stops
    then show ?thesis using run_pair_counts [OF stops(1)] first
      by (intro exI [of _ 1]) (simp add: fe_list_def bindS_def returnS_def)
  next
    case goes
    obtain n where n: "n \<le> length xs" "run_loop env False st1 (fe_list xs) w1 = run_loop env True st1 (fe_list (take n xs)) w1"
      "\<forall>k<n. \<forall>st' w'. run_loop env True st1 (fe_list (take k xs)) w1 = Inr (Returns st', w') \<longrightarrow> \<not> did_test_fail st'"
      "n < length xs \<longrightarrow> (\<exists>st' w'. run_loop env True st1 (fe_list (take n xs)) w1 = Inr (Returns st', w') \<and>
        did_test_fail st' \<and> num_tests_ran st' = wrap32 (num_tests_ran st1 + n))" using Cons.IH [OF goes(2)] by blast
    have step: "run_loop env b st (fe_list (x # ys)) w = run_loop env b st1 (fe_list ys) w1" for b ys
      using goes by (simp add: fe_list_def bindS_def)
    have "\<forall>k<Suc n. \<forall>st' w'. run_loop env True st (fe_list (take k (x # xs))) w = Inr (Returns st', w') \<longrightarrow> \<not> did_test_fail st'"
      using n(3) first by (auto simp: step less_Suc_eq_0_disj)
    then show ?thesis using n run_pair_counts [OF goes(1)]
      by (intro exI [of _ "Suc n"]) (simp add: step wrap32_Suc_add)
  next
    case ends
    have never: "run_loop env True st (fe_list (x # ys)) w \<noteq> Inr (Returns st', w')" for ys st' w'
      using ends by (auto simp: fe_list_def bindS_Returns)
    have "run_loop env b st (fe_list (x # xs)) w = run_loop env True st (fe_list (x # xs)) w" for b
    proof (cases "run_pair env x st w")
      case (Inr z)
      then show ?thesis using ends by (cases z; cases "fst z") (auto simp: fe_list_def bindS_def)
    qed (simp add: fe_list_def bindS_def)
    moreover have "\<forall>k<length (x # xs). \<forall>st' w'. run_loop env True st (fe_list (take k (x # xs))) w = Inr (Returns st', w') \<longrightarrow> \<not> did_test_fail st'"
    proof (intro allI impI)
      fix k st' w' assume k: "run_loop env True st (fe_list (take k (x # xs))) w = Inr (Returns st', w')"
      show "\<not> did_test_fail st'"
      proof (cases k)
        case 0
        then show ?thesis using first k by blast
      next
        case (Suc m)
        then show ?thesis using k never [of "take m xs"] by simp
      qed
    qed
    ultimately show ?thesis by (intro exI [of _ "length (x # xs)"]) simp
  qed
qed (simp add: fe_list_def)

text \<open>The first \<open>k\<close> tests of a list, all run by \<^verbatim>\<open>runc\<close>, report a failure, and how many they were.\<close>

definition fails_within :: "prgm_env \<Rightarrow> fe_object list \<Rightarrow> prgm_world \<Rightarrow> nat \<Rightarrow> bool" where
  "fails_within env xs w k \<longleftrightarrow> (\<exists>m cycle w'. f_runc env (fe_list (take k xs)) w =
     Inr (Returns (fe_list [m, fe_bool True, cycle]), w'))"

text \<open>C18. \<^verbatim>\<open>run\<close> stops at the first test that fails: it does what \<^verbatim>\<open>runc\<close> does with the shortest prefix of its
  arguments in which a test fails, and then reports the number of tests of that prefix and the failure; it does
  what \<^verbatim>\<open>runc\<close> does with all of its arguments when no shorter prefix has a failing test.\<close>

theorem run_is_runc_prefix:
  "\<exists>n\<le>length xs. f_run env (fe_list xs) w = f_runc env (fe_list (take n xs)) w \<and>
     (\<forall>k<n. \<not> fails_within env xs w k) \<and>
     (n < length xs \<longrightarrow> (\<exists>cycle w'. f_runc env (fe_list (take n xs)) w =
        Inr (Returns (fe_list [fe_number (wrap32 n), fe_bool True, cycle]), w')))"
proof -
  have same: "f_run env ys w = bindS (bindS global_prgm (\<lambda>_. run_start env)) (\<lambda>st. bindS (run_loop env False st ys) (\<lambda>st.
      returnS (fe_list [fe_number (num_tests_ran st), fe_bool (did_test_fail st), fe_number (test_cycle st)]))) w"
    "f_runc env ys w = bindS (bindS global_prgm (\<lambda>_. run_start env)) (\<lambda>st. bindS (run_loop env True st ys) (\<lambda>st.
      returnS (fe_list [fe_number (num_tests_ran st), fe_bool (did_test_fail st), fe_number (test_cycle st)]))) w" for ys
    by (simp_all add: f_run_def f_runc_def run_stim_def bindS_assoc)
  show ?thesis
  proof (cases "bindS global_prgm (\<lambda>_. run_start env) w")
  case (Inl e)
  then have "bindS (bindS global_prgm (\<lambda>_. run_start env)) g w = Inl e" for g :: "run_state \<Rightarrow> fe_object script"
    by (subst bindS_def) simp
  then show ?thesis by (intro exI [of _ "length xs"]) (simp add: same fails_within_def)
next
  case (Inr z)
  obtain r w1 where z: "z = (r, w1)" by fastforce
  show ?thesis
  proof (cases r)
    case (Returns st)
    have "num_tests_ran st = 0" "\<not> did_test_fail st" using Inr Returns z by (auto simp: run_start_def bindS_Returns)
    with run_loop_prefix [of st xs env w1] obtain n where n: "n \<le> length xs"
      "run_loop env False st (fe_list xs) w1 = run_loop env True st (fe_list (take n xs)) w1"
      "\<forall>k<n. \<forall>st' w'. run_loop env True st (fe_list (take k xs)) w1 = Inr (Returns st', w') \<longrightarrow> \<not> did_test_fail st'"
      "n < length xs \<longrightarrow> (\<exists>st' w'. run_loop env True st (fe_list (take n xs)) w1 = Inr (Returns st', w') \<and>
        did_test_fail st' \<and> num_tests_ran st' = wrap32 n)" by auto
    have run: "f_run env ys w = bindS (run_loop env False st ys) (\<lambda>st.
      returnS (fe_list [fe_number (num_tests_ran st), fe_bool (did_test_fail st), fe_number (test_cycle st)])) w1"
      "f_runc env ys w = bindS (run_loop env True st ys) (\<lambda>st.
      returnS (fe_list [fe_number (num_tests_ran st), fe_bool (did_test_fail st), fe_number (test_cycle st)])) w1" for ys
      using Inr Returns z unfolding same by (simp_all add: bindS_at)
    have "\<not> fails_within env xs w k" if "k < n" for k
      using n(3) that by (auto simp: fails_within_def run(2) bindS_Returns fe_list_def fe_bool_def split: if_splits)
    then show ?thesis using n by (intro exI [of _ n]) (auto simp: run bindS_def returnS_def)
  qed (use Inr z in \<open>auto simp: same bindS_def fails_within_def intro!: exI [of _ "length xs"]\<close>)
  qed
qed

end
