(* ===== verification/Prgm_Lifecycle.thy ===== *)
theory Prgm_Lifecycle
  imports Prgm_Run
begin

text \<open>
  Loading, running and unloading together: what the sequences of calls that a script makes do to the
  stimuli, for programs that load no dual stimulus (theory Prgm_Dual is about those).
\<close>

section \<open>The tables in a session\<close>

lemma session_obtains:
  assumes "solo_files env" and "session env w"
  obtains f where "tabs w f (None, [])" and "sizes w f" and "solo w"
  using session_session_ok [OF assms] by (auto simp: session_out_def tables_out_def)

text \<open>C3. In a program without dual stimuli (none is open when it starts, and no file that it opens holds one), in
  every state that it can reach, each table of loaded stimuli
  represents a list of entries, the two lists have no entry in common, a lookup by an address finds the entry with
  that address or nothing, and the counters are the lengths of the lists.\<close>

theorem session_tables:
  assumes "solo_files env" and "session env w"
  shows "\<exists>xs ys. represents (hash w) (a1_loaded_stims w) xs \<and> represents (hash w) (a2_loaded_stims w) ys \<and> set xs \<inter> set ys = {} \<and>
    (\<forall>a. find_loaded ARTIX_SELECT_A1 a w = Inr (Returns (find (\<lambda>p. ucast (ps_a1_addr (prgm_stims w p)) = a) xs), w)) \<and>
    (\<forall>a. find_loaded ARTIX_SELECT_A2 a w = Inr (Returns (find (\<lambda>p. ucast (ps_a2_addr (prgm_stims w p)) = a) ys), w)) \<and>
    num_a1_loaded_stims w = of_nat (length xs) \<and> num_a2_loaded_stims w = of_nat (length ys)"
proof -
  obtain f where t: "tabs w f (None, [])" and sz: "sizes w f" using session_obtains [OF assms] by metis
  let ?xs = "f ARTIX_SELECT_A1" and ?ys = "f ARTIX_SELECT_A2"
  have "represents (hash w) (a1_loaded_stims w) ?xs" "represents (hash w) (a2_loaded_stims w) ?ys"
    using tabs_represents(2) [OF t units(1)] tabs_represents(2) [OF t units(2)] by (simp_all add: loaded_def)
  moreover have "find_loaded ARTIX_SELECT_A1 a w = Inr (Returns (find (\<lambda>p. ucast (ps_a1_addr (prgm_stims w p)) = a) ?xs), w)"
    "find_loaded ARTIX_SELECT_A2 a w = Inr (Returns (find (\<lambda>p. ucast (ps_a2_addr (prgm_stims w p)) = a) ?ys), w)" for a
    using find_loaded_tabs [OF t units(1), of a] find_loaded_tabs [OF t units(2), of a] by (simp_all add: entry_addr_def)
  ultimately show ?thesis using tabs_lists(1) [OF t] sz by (intro exI [of _ ?xs] exI [of _ ?ys]) (simp add: sizes_def)
qed

section \<open>Loading and running\<close>

lemma find_key:
  assumes "tabs w f D" and sel: "one_unit sel" and p: "p \<in> set (f sel)"
  shows "find (\<lambda>q. ucast (entry_addr sel (prgm_stims w q)) = (ucast (entry_addr sel (prgm_stims w p)) :: u32)) (f sel) = Some p"
proof -
  let ?key = "\<lambda>q. ucast (entry_addr sel (prgm_stims w q)) :: u32"
  have keys: "\<forall>q\<in>set (f sel). hh_key (hash w) q = ?key q" using assms(1) sel by (auto simp: tabs_def keys_ok_def one_unit_def)
  have "inj_on (hh_key (hash w)) (set (f sel))" using tabs_represents(2) [OF assms(1) sel] by (simp add: represents_def)
  then have inj: "\<forall>q\<in>set (f sel). ?key q = ?key p \<longrightarrow> q = p" using keys p by (auto simp: inj_on_def)
  obtain q where q: "find (\<lambda>q. ?key q = ?key p) (f sel) = Some q"
    using p by (cases "find (\<lambda>q. ?key q = ?key p) (f sel)") (auto simp: find_None_iff)
  then have "q \<in> set (f sel)" "?key q = ?key p" using find_split [OF q] by (metis in_set_conv_decomp)+
  then show ?thesis using q inj by simp
qed

text \<open>The address of an entry in the table of a unit, as a load returns it.\<close>

definition solo_pair :: "artix_selects \<Rightarrow> u32 \<Rightarrow> fe_object" where
  "solo_pair sel a = (if sel = ARTIX_SELECT_A1 then Fe_pair (fe_number (unat a)) Fe_nil else Fe_pair Fe_nil (fe_number (unat a)))"

lemma load_units_one: "load_units mode = [sel] \<Longrightarrow> mode = STIM_MODE_A1 \<and> sel = ARTIX_SELECT_A1 \<or> mode = STIM_MODE_A2 \<and> sel = ARTIX_SELECT_A2"
  by (cases mode) (auto simp: load_units_def)

lemma fe_nil_bool: "fe_bool False = Fe_nil"
  by (simp add: fe_bool_def)

lemma run_lookup_nil: "run_lookup sel Fe_nil w = Inr (Returns (0, None), w)"
  by (simp add: run_lookup_def returnS_def)

lemma run_lookup_found:
  assumes "find_loaded sel a w = Inr (Returns (Some p), w)"
  shows "run_lookup sel (fe_number (unat a)) w = Inr (Returns (ucast a, Some p), w)"
  using assms by (simp add: run_lookup_def script_defs)

lemma run_solo_pair:
  assumes "one_unit sel" and found: "find_loaded sel a w = Inr (Returns (Some p), w)" and "\<not> uses_db w"
    and db: "run_db_prgm st = None"
  shows "run_pair env (solo_pair sel a) st w = bindS (run_solo env p) (\<lambda>(cycle, failed). returnS
    (st\<lparr>test_cycle := cycle, num_tests_ran := wrap32 (Suc (num_tests_ran st)), did_test_fail := (did_test_fail st \<or> failed)\<rparr>)) w"
proof -
  have ins: "insert_pending env p st w = Inr (Returns st, w)"
    using assms(3) by (simp add: insert_pending_def script_defs)
  have save: "save_results env failed (st\<lparr>test_cycle := c\<rparr>) = returnS (st\<lparr>test_cycle := c\<rparr>)" for failed c
    using db by (simp add: save_results_def)
  have rest: "bindS (insert_pending env p st) (\<lambda>st. bindS (run_solo env p) (\<lambda>(cycle, failed).
      bindS (save_results env failed (st\<lparr>test_cycle := cycle\<rparr>)) (\<lambda>st.
      returnS (st\<lparr>num_tests_ran := wrap32 (Suc (num_tests_ran st)), did_test_fail := (did_test_fail st \<or> failed)\<rparr>)))) w =
    bindS (run_solo env p) (\<lambda>(cycle, failed). returnS
    (st\<lparr>test_cycle := cycle, num_tests_ran := wrap32 (Suc (num_tests_ran st)), did_test_fail := (did_test_fail st \<or> failed)\<rparr>)) w"
    by (simp add: bindS_at [of "insert_pending env p st", OF ins] save case_prod_beta)
  show ?thesis
  proof (cases "sel = ARTIX_SELECT_A1")
    case True
    then show ?thesis using rest run_lookup_found [OF found] run_lookup_nil
      by (simp add: run_pair_def solo_pair_def addr_pair_def fe_car_def fe_cdr_def bindS_at)
  next
    case False
    then have "sel = ARTIX_SELECT_A2" using assms(1) by (simp add: one_unit_def)
    then show ?thesis using rest run_lookup_found [OF found] run_lookup_nil
      by (simp add: run_pair_def solo_pair_def addr_pair_def fe_car_def fe_cdr_def bindS_at)
  qed
qed

lemma run_solo_runs:
  assumes "alive (hash w) p" and "prgm_stims w p = \<lparr>ps_a1_addr = a1, ps_a2_addr = a2, ps_stim = i\<rparr>" and "stims w i = Some (s, k)"
  shows "bindS (run_solo env p) g w = bindS (on_board (artix_run_stim (env_drv env) s a1 a2)) (\<lambda>r.
    bindS (modifyS (\<lambda>w. w\<lparr>last_prgm_stim := Some p\<rparr>)) (\<lambda>_. g r)) w"
proof -
  have 1: "bindS (get_entry p) h w = h \<lparr>ps_a1_addr = a1, ps_a2_addr = a2, ps_stim = i\<rparr> w" for h :: "prgm_stim \<Rightarrow> 'x script"
    using assms(1,2) by (simp add: get_entry_def script_defs)
  have 2: "bindS (get_stim i) h w = h (s, k) w" for h :: "stim \<times> nat \<Rightarrow> 'x script"
    using assms(3) by (simp add: get_stim_def stimR_def script_defs)
  show ?thesis by (simp add: run_solo_def run_entry_def 1 2 bindS_assoc)
qed

lemma run_stim_pair:
  assumes sym: "prgm_symbol w = Fe_ptr Prgm_ref" and db: "\<not> uses_db w"
    and sel: "one_unit sel" and found: "find_loaded sel a w = Inr (Returns (Some p), w)"
  shows "run_stim env (fe_list [solo_pair sel a]) c w = bindS (run_solo env p) (\<lambda>(cycle, failed).
    returnS (fe_list [fe_number 1, fe_bool failed, fe_number cycle])) w"
proof -
  let ?st = "\<lparr>num_tests_ran = 0, did_test_fail = False, test_cycle = 0, run_db_prgm = None, run_db_stim_id = - 1\<rparr>"
  have start: "run_start env w = Inr (Returns ?st, w)" using db by (simp add: run_start_def script_defs)
  have loop: "run_loop env c ?st (fe_list [x]) = run_pair env x ?st" for x
  proof (rule ext)
    fix v
    show "run_loop env c ?st (fe_list [x]) v = run_pair env x ?st v"
      by (cases "run_pair env x ?st v") (auto simp: fe_list_def bindS_def returnS_def split: outcome.splits)
  qed
  have "run_stim env (fe_list [solo_pair sel a]) c w = bindS (run_pair env (solo_pair sel a) ?st) (\<lambda>st.
      returnS (fe_list [fe_number (num_tests_ran st), fe_bool (did_test_fail st), fe_number (test_cycle st)])) w"
    using global_ok [OF sym] start by (simp add: run_stim_def bindS_at loop)
  also have "\<dots> = bindS (bindS (run_solo env p) (\<lambda>(cycle, failed). returnS
    (?st\<lparr>test_cycle := cycle, num_tests_ran := wrap32 (Suc (num_tests_ran ?st)), did_test_fail := (did_test_fail ?st \<or> failed)\<rparr>)))
      (\<lambda>st. returnS (fe_list [fe_number (num_tests_ran st), fe_bool (did_test_fail st), fe_number (test_cycle st)])) w"
    using run_solo_pair [OF sel found db, of ?st env] by (simp add: bindS_def)
  finally show ?thesis by (simp add: bindS_assoc case_prod_unfold wrap32_def)
qed

lemmas run_one_pair = run_stim_pair [of _ _ _ _ _ False, folded f_run_def]

lemma u32_u64 [simp]: "ucast (ucast a :: u64) = (a :: u32)"
  by (rule bit_word_eqI) (simp add: bit_ucast_iff)

text \<open>C6. In a program without dual stimuli and without a database, what \<^verbatim>\<open>loads\<close> returns is
  what \<^verbatim>\<open>run\<close> takes: running the returned pair runs exactly the stimulus that
  was loaded, at the addresses that were the next free ones, and returns one test with its verdict and cycle.\<close>

theorem loaded_stim_runs:
  assumes "solo_files env" and "session env w" and "\<not> uses_db w"
    and load: "f_loads env (Fe_pair (Fe_ptr (Stim_ref i)) rest) w = Inr (Returns v, w1)"
  shows "\<exists>p s k. stims w1 i = Some (s, k) \<and> f_run env (fe_list [v]) w1 =
    bindS (on_board (artix_run_stim (env_drv env) s (ucast (ucast (cur_a1_stim_addr w) :: u32)) (ucast (ucast (cur_a2_stim_addr w) :: u32))))
      (\<lambda>(cycle, failed). bindS (modifyS (\<lambda>w. w\<lparr>last_prgm_stim := Some p\<rparr>)) (\<lambda>_.
       returnS (fe_list [fe_number 1, fe_bool failed, fe_number cycle]))) w1"
proof -
  obtain f where t: "tabs w f (None, [])" and sz: "sizes w f" and solo: "solo w" using session_obtains [OF assms(1,2)] .
  have sym: "prgm_symbol w = Fe_ptr Prgm_ref" using load by (auto simp: f_loads_def load_stim_def bindS_Returns global_Returns)
  from load obtain r w2 where r: "load_object env i None w = Inr (Returns r, w2)" "load_result r w2 = Inr (Returns v, w1)"
    unfolding f_loads_object [OF sym] bindS_Returns by blast
  from load_object_solo [OF r(1) solo t sz] obtain sel p a1 a2 mode s k where
    w2: "r = (a1, a2, mode)" "load_units mode = [sel]" "one_unit sel" "load_addrs None w = (a1, a2)"
      "tabs w2 (f(sel := f sel @ [p])) (None, [])"
      "prgm_stims w2 p = \<lparr>ps_a1_addr = ucast a1, ps_a2_addr = ucast a2, ps_stim = i\<rparr>" "stims w2 i = Some (s, k)"
      "prgm_symbol w2 = prgm_symbol w" "prgm_db w2 = prgm_db w" "db_prgm_id w2 = db_prgm_id w" by auto
  let ?a = "ucast (entry_addr sel (prgm_stims w2 p)) :: u32"
  have v: "w1 = w2" "v = solo_pair sel ?a"
    using r(2) load_units_one [OF w2(2)]
    by (auto simp: w2(1,6) load_result_def returnS_def solo_pair_def fe_nil_bool entry_addr_def)
  have "find_loaded sel ?a w2 = Inr (Returns (Some p), w2)"
    using find_loaded_tabs [OF w2(5,3)] find_key [OF w2(5,3), of p] by simp
  moreover have "\<not> uses_db w2" using assms(3) w2(9,10) by (simp add: uses_db_def)
  moreover have "prgm_symbol w2 = Fe_ptr Prgm_ref" using sym w2(8) by simp
  ultimately have run: "f_run env (fe_list [v]) w2 = bindS (run_solo env p) (\<lambda>(cycle, failed).
    returnS (fe_list [fe_number 1, fe_bool failed, fe_number cycle])) w2"
    using run_one_pair w2(3) v(2) by simp
  have "alive (hash w2) p" using tabs_represents(2) [OF w2(5,3)] by (simp add: represents_def)
  with run show ?thesis
    using w2(4,7) by (intro exI [of _ p] exI [of _ s] exI [of _ k])
      (simp add: run_solo_runs [OF _ w2(6,7)] v(1) load_addrs_def case_prod_unfold)
qed

section \<open>Unloading\<close>

lemma unload_solo_runs:
  assumes sym: "prgm_symbol w = Fe_ptr Prgm_ref" and t: "tabs w f (None, [])" and sel: "one_unit sel"
    and found: "find_loaded sel a w = Inr (Returns (Some p), w)"
  shows "\<exists>u h. f_unload (Fe_pair (solo_pair sel a) rest) w =
      bindS (free_prgm_stim p) (\<lambda>_. returnS Fe_nil) (set_loaded sel h ((add_count sel (- 1) w)\<lparr>hash := u\<rparr>)) \<and>
    tabs (set_loaded sel h ((add_count sel (- 1) w)\<lparr>hash := u\<rparr>)) (f(sel := remove1 p (f sel))) (None, []) \<and> alive u p \<and> p \<in> set (f sel)"
proof -
  have find: "find (\<lambda>p. ucast (entry_addr sel (prgm_stims w p)) = a) (f sel) = Some p"
    using found find_loaded_tabs [OF t sel, of a] by simp
  from find_split [OF this] obtain xs ys where f: "f sel = xs @ p # ys" by metis
  let ?w = "add_count sel (- 1) w"
  have "tabs ?w f (None, [])" using t by simp
  from del_loaded_tabs [OF this sel f] obtain u h where
    u: "del_loaded sel p ?w = Inr (Returns (), set_loaded sel h (?w\<lparr>hash := u\<rparr>))"
      "tabs (set_loaded sel h (?w\<lparr>hash := u\<rparr>)) (f(sel := xs @ ys)) (None, [])" "alive u = alive (hash w)"
    by (auto simp: add_count_def)
  have rep: "represents (hash w) (loaded sel w) (f sel)" using tabs_represents(2) [OF t sel] .
  then have "distinct (f sel)" "alive (hash w) p" using f by (auto simp: represents_def)
  then have "remove1 p (f sel) = xs @ ys" by (simp add: f remove1_append)
  moreover have unit: "unload_unit sel (fe_number (unat a)) w = Inr (Returns (Some p), set_loaded sel h (?w\<lparr>hash := u\<rparr>))"
    using found u(1) by (simp add: unload_unit_def script_defs)
  moreover have "unload_unit s Fe_nil v = Inr (Returns None, v)" for s v by (simp add: unload_unit_def returnS_def)
  ultimately show ?thesis using u(2,3) sel \<open>alive (hash w) p\<close> global_ok [OF sym] unfolding one_unit_def
    by (intro exI [of _ u] exI [of _ h]) (auto simp: f_unload_def fe_nextarg_def addr_pair_def fe_car_def fe_cdr_def solo_pair_def
      free_unloaded_def bindS_at fe_nil_bool bindS_assoc f)
qed

lemma free_prgm_stim_runs:
  assumes "alive (hash w) p" and "stims w (ps_stim (prgm_stims w p)) = Some (s, k)"
    and run: "free_prgm_stim p w = Inr (r, w')"
  shows "\<exists>u. free_element p (hash w) = Inr u \<and>
    w' = w\<lparr>stims := (stims w)(ps_stim (prgm_stims w p) := None), profiles := (profiles w)(k := None), hash := u\<rparr>"
proof -
  have "get_entry p w = Inr (Returns (prgm_stims w p), w)" using assms(1) by (simp add: get_entry_def script_defs)
  then have "bindS (free_stim (ps_stim (prgm_stims w p))) (\<lambda>_. on_hash (free_element p)) w = Inr (r, w')"
    using run by (simp add: free_prgm_stim_def bindS_at)
  then show ?thesis using assms(1,2)
    by (auto simp: free_stim_def stimR_def bindS_def on_hash_def free_element_def split: if_splits)
qed

lemma find_remove1: "\<not> P p \<Longrightarrow> find P (remove1 p xs) = find P xs"
  by (induction xs) auto

text \<open>C11. Unloading a stimulus frees the profile that it was opened with, which other stimuli were opened with too:
  unloading another one of them uses freed memory.\<close>

theorem second_unload_uses_freed_profile:
  assumes "solo_files env" and "session env w" and sels: "one_unit sel" "one_unit sel'"
    and p: "find_loaded sel a w = Inr (Returns (Some p), w)" and q: "find_loaded sel' b w = Inr (Returns (Some q), w)" and "p \<noteq> q"
    and s: "stims w (ps_stim (prgm_stims w p)) = Some (s, k)" and s': "stims w (ps_stim (prgm_stims w q)) = Some (s', k)"
    and un: "f_unload (Fe_pair (solo_pair sel a) Fe_nil) w = Inr (Returns v, w1)"
  shows "f_unload (Fe_pair (solo_pair sel' b) Fe_nil) w1 = Inl Crash_freed"
proof -
  obtain f where t: "tabs w f (None, [])" using session_obtains [OF assms(1,2)] by metis
  have sym: "prgm_symbol w = Fe_ptr Prgm_ref" using un by (auto simp: f_unload_def bindS_Returns global_Returns)
  let ?f = "f(sel := remove1 p (f sel))"
  obtain u h where 1: "f_unload (Fe_pair (solo_pair sel a) Fe_nil) w =
      bindS (free_prgm_stim p) (\<lambda>_. returnS Fe_nil) (set_loaded sel h ((add_count sel (- 1) w)\<lparr>hash := u\<rparr>))"
    "tabs (set_loaded sel h ((add_count sel (- 1) w)\<lparr>hash := u\<rparr>)) ?f (None, [])" "alive u p" "p \<in> set (f sel)"
    using unload_solo_runs [OF sym t sels(1) p] by blast
  define w2 where "w2 = set_loaded sel h ((add_count sel (- 1) w)\<lparr>hash := u\<rparr>)"
  have w2: "hash w2 = u" "stims w2 = stims w" "prgm_stims w2 = prgm_stims w" "prgm_symbol w2 = prgm_symbol w" "profiles w2 = profiles w"
    by (simp_all add: w2_def set_loaded_def add_count_def)
  obtain x where "free_prgm_stim p w2 = Inr (x, w1)"
    using un 1(1) by (auto simp: w2_def [symmetric] bindS_Returns)
  from free_prgm_stim_runs [OF _ _ this, of s k] obtain u2 where u2: "free_element p u = Inr u2" and
    w1: "w1 = w2\<lparr>stims := (stims w)(ps_stim (prgm_stims w p) := None), profiles := (profiles w)(k := None), hash := u2\<rparr>"
    using 1(3) s w2 by auto
  have out: "p \<notin> set (?f ARTIX_SELECT_A1) \<union> set (?f ARTIX_SELECT_A2)"
    using 1(4) sels(1) tabs_lists [OF t] by (auto simp: one_unit_def)
  have t2: "keys_ok u (prgm_stims w) ?f" "separate u (a1_loaded_stims w2, ?f ARTIX_SELECT_A1) (a2_loaded_stims w2, ?f ARTIX_SELECT_A2) (None, [])"
    using 1(2) w2 by (simp_all add: w2_def [symmetric] tabs_def)
  have t1: "tabs w1 ?f (None, [])"
    using separate_free [OF t2(2) u2] out t2(1) by (simp add: w1 tabs_def keys_ok_def w2)
  have "find_loaded sel' b w1 = Inr (Returns (Some q), w1)"
  proof -
    let ?P = "\<lambda>p. ucast (entry_addr sel' (prgm_stims w p)) = b"
    have fq: "find ?P (f sel') = Some q" using q find_loaded_tabs [OF t sels(2), of b] by simp
    have "find ?P (?f sel') = Some q"
    proof (cases "sel' = sel")
      case True
      have fp: "find (\<lambda>p. ucast (entry_addr sel (prgm_stims w p)) = a) (f sel) = Some p" using p find_loaded_tabs [OF t sels(1), of a] by simp
      have "a \<noteq> b" using fp fq \<open>p \<noteq> q\<close> True by auto
      moreover have "ucast (entry_addr sel (prgm_stims w p)) = a" using find_split [OF fp] by metis
      ultimately show ?thesis using fq True find_remove1 [of ?P p] by simp
    qed (use fq in simp)
    then show ?thesis using find_loaded_tabs [OF t1 sels(2), of b] by (simp add: w1 w2)
  qed
  moreover have "prgm_symbol w1 = Fe_ptr Prgm_ref" using sym by (simp add: w1 w2)
  ultimately obtain u3 h3 where 2: "f_unload (Fe_pair (solo_pair sel' b) Fe_nil) w1 =
      bindS (free_prgm_stim q) (\<lambda>_. returnS Fe_nil) (set_loaded sel' h3 ((add_count sel' (- 1) w1)\<lparr>hash := u3\<rparr>))" "alive u3 q"
    using unload_solo_runs [OF _ t1 sels(2)] by blast
  define w3 where "w3 = set_loaded sel' h3 ((add_count sel' (- 1) w1)\<lparr>hash := u3\<rparr>)"
  have w3: "hash w3 = u3" "profiles w3 k = None" "prgm_stims w3 = prgm_stims w"
    "stims w3 (ps_stim (prgm_stims w q)) = (if ps_stim (prgm_stims w q) = ps_stim (prgm_stims w p) then None else Some (s', k))"
    using s' by (simp_all add: w3_def set_loaded_def add_count_def w1 w2)
  have "free_prgm_stim q w3 = Inl Crash_freed"
    using 2(2) w3 by (simp add: free_prgm_stim_def get_entry_def free_stim_def stimR_def script_defs)
  then show ?thesis using 2(1) by (simp add: w3_def bindS_def)
qed

lemma dseg_unique: "dseg nx pv a p xs None \<Longrightarrow> dseg nx pv a p ys None \<Longrightarrow> xs = ys"
proof (induction xs arbitrary: a p ys)
  case Nil
  then show ?case by (cases ys) auto
next
  case (Cons x xs)
  then show ?case by (cases ys) auto
qed

lemma represents_unique: "represents u h xs \<Longrightarrow> represents u h ys \<Longrightarrow> xs = ys"
  unfolding represents_def using dseg_unique by blast

text \<open>The loop that frees what was collected has fuel for it: unloading all of them returns, or dereferences a
  stimulus or a profile that was freed before.\<close>

lemma unload_all_ends:
  assumes "solo_files env" and "session env w" and sym: "prgm_symbol w = Fe_ptr Prgm_ref"
  shows "f_unload_all env x w = Inl Crash_freed \<or> (\<exists>v w'. f_unload_all env x w = Inr (Returns v, w'))"
proof -
  obtain f where t: "tabs w f (None, [])" "sizes w f" "solo w" using session_obtains [OF assms(1,2)] .
  obtain d zs w1 where run: "f_unload_all env x w =
      bindS (free_collected (Suc (brk (hash w1))) d (head_link zs None) (head_link (tl zs) None)) (\<lambda>_.
      returnS (Fe_pair (fe_number (length (f ARTIX_SELECT_A1))) (fe_number (length (f ARTIX_SELECT_A2))))) w1"
    and rep: "represents (hash w1) (del_head d) zs" "length zs \<le> brk (hash w1)" "collected env (hash w1) d zs"
    by (rule unload_all_tables [OF sym t, of env x])
  have "length zs \<le> Suc (brk (hash w1))" using rep(2) by simp
  then show ?thesis
    using free_collected_fuel [OF represents_linked [OF rep(1)]] rep(3) unfolding run collected_def
    by (fastforce simp: bindS_def returnS_def)
qed

text \<open>C25. In a program without dual stimuli, \<^verbatim>\<open>unload-all\<close> unloads everything: when the stimuli of all loaded entries
  and the profiles they were opened with are live, no two of them have the same profile (otherwise the profile is
  freed twice, see \<open>second_unload_uses_freed_profile\<close>), and the addresses of the entries differ in their lower 32 bits
  (the part that the code hashes), it returns. It returns the numbers of entries that the tables had; both tables are
  empty and the counters are zero afterwards; and every entry is freed, with its stimulus and the profile of that.\<close>

theorem unload_all_empties:
  assumes "solo_files env" and "session env w" and sym: "prgm_symbol w = Fe_ptr Prgm_ref"
    and "represents (hash w) (a1_loaded_stims w) xs" and "represents (hash w) (a2_loaded_stims w) ys"
    and live: "\<forall>p\<in>set (xs @ ys). (\<exists>s. stims w (ps_stim (prgm_stims w p)) = Some (s, k p)) \<and> profiles w (k p) \<noteq> None"
    and apart: "inj_on k (set (xs @ ys))" "inj_on (env_address env) (set (xs @ ys))"
  shows "\<exists>w'. f_unload_all env x w = Inr (Returns (Fe_pair (fe_number (length xs)) (fe_number (length ys))), w') \<and>
    a1_loaded_stims w' = None \<and> a2_loaded_stims w' = None \<and> num_a1_loaded_stims w' = 0 \<and> num_a2_loaded_stims w' = 0 \<and>
    (\<forall>p\<in>set (xs @ ys). \<not> alive (hash w') p \<and> stims w' (ps_stim (prgm_stims w p)) = None \<and> profiles w' (k p) = None)"
proof -
  obtain f where t: "tabs w f (None, [])" "sizes w f" "solo w" using session_obtains [OF assms(1,2)] .
  have lists: "f ARTIX_SELECT_A1 = xs" "f ARTIX_SELECT_A2 = ys"
    using tabs_represents(2) [OF t(1) units(1)] tabs_represents(2) [OF t(1) units(2)] assms(4,5) represents_unique
    by (auto simp: loaded_def)
  obtain d zs w1 where run: "f_unload_all env x w =
      bindS (free_collected (Suc (brk (hash w1))) d (head_link zs None) (head_link (tl zs) None)) (\<lambda>_.
      returnS (Fe_pair (fe_number (length xs)) (fe_number (length ys)))) w1"
    and rep: "represents (hash w1) (del_head d) zs" "length zs \<le> brk (hash w1)" "collected env (hash w1) d zs"
    and rest: "same_rest w w1" and all: "stands_for d zs = set (xs @ ys)"
    using unload_all_tables [OF sym t, of env x] apart(2) unfolding lists by metis
  have "\<forall>q\<in>set zs. alive (hash w1) (del_of d q) \<and> del_of d q \<notin> set zs" "inj_on (del_of d) (set zs)"
    "length zs \<le> Suc (brk (hash w1))" using rep(2,3) by (auto simp: collected_def)
  moreover have "\<forall>p\<in>stands_for d zs. (\<exists>s. stims w1 (ps_stim (prgm_stims w1 p)) = Some (s, k p)) \<and> profiles w1 (k p) \<noteq> None"
    using live rest unfolding all by (simp add: same_rest_def)
  ultimately obtain w' where
    w': "free_collected (Suc (brk (hash w1))) d (head_link zs None) (head_link (tl zs) None) w1 = Inr (Returns (), w')"
      "\<forall>p\<in>set (xs @ ys). stims w' (ps_stim (prgm_stims w1 p)) = None \<and> profiles w' (k p) = None \<and> \<not> alive (hash w') p"
    using free_collected_all [OF represents_linked [OF rep(1)], of d "Suc (brk (hash w1))" k] apart(1) unfolding all by metis
  have returns: "f_unload_all env x w = Inr (Returns (Fe_pair (fe_number (length xs)) (fe_number (length ys))), w')"
    using run w'(1) by (simp add: bindS_def returnS_def)
  then have "session_out UNIV w'"
    using spec_unload_all [of env x] session_session_ok [OF assms(1,2)] unfolding script_spec_def by fastforce
  then obtain g where g: "tabs w' g (None, [])" "sizes w' g" "g ARTIX_SELECT_A1 = []" "g ARTIX_SELECT_A2 = []"
    by (auto simp: session_out_def tables_out_def)
  then have "a1_loaded_stims w' = None \<and> a2_loaded_stims w' = None \<and> num_a1_loaded_stims w' = 0 \<and> num_a2_loaded_stims w' = 0"
    using head_of_table [OF g(1) units(1)] head_of_table [OF g(1) units(2)] by (simp add: loaded_def sizes_def)
  moreover have "prgm_stims w1 = prgm_stims w" using rest by (simp add: same_rest_def)
  ultimately show ?thesis using returns w'(2) by auto
qed

section \<open>The end of a program\<close>

text \<open>A program that writes to a database can not be freed while it is open: the database is freed before it is
  closed, and freeing an open database ends the process. After closing, freeing succeeds.\<close>

theorem prgm_free_needs_close:
  assumes "prgm_open env path i (Some db_path) w = Inr w1" and "0 \<le> i" and "fe_ctx w" and "prgm_profile w = None"
  shows "prgm_free w1 = Inl Bad_state \<and> (\<exists>w2. prgm_free (prgm_close w1) = Inr w2)"
proof -
  obtain rp db db' r where o: "db_open (env_sqlite env) (env_opens env) db_path db_create = Inr db"
    and g: "db_get_prgm_by_id (env_sqlite env) (env_tz env) i db = Inr (r, db')"
    and w1: "w1 = w\<lparr>prgm_path := Some rp, db_prgm_id := i, prgm_db_path := Some db_path, prgm_db := Some db', is_path_open := True\<rparr>"
    using assms(1,2) by (auto simp: prgm_open_def bindR_Inr_iff Let_def split: if_splits option.splits)
  have "database.is_open db" using o by (auto simp: db_open_def db_create_def db_step_def Let_def split: open_result.splits if_splits)
  then have "database.is_open db'"
    using g by (auto simp: db_get_prgm_by_id_def select_one_def db_prepare_def db_step_def bindR_Inr_iff Let_def
      split: connection.splits if_splits list.splits)
  then show ?thesis using assms(3,4)
    by (simp add: w1 prgm_free_def db_free_def prgm_close_def db_close_def prgm_free_fe_ctx_def)
qed

end
