(* ===== verification/Prgm_Load.thy ===== *)
theory Prgm_Load
  imports Prgm_Lifecycle Artix_Load
begin

text \<open>
  When a script's load succeeds, and what it then brings to the tester: the functions of prgm.c composed
  with the compilation of patterns and the transfers of the board.
\<close>

section \<open>Loading succeeds\<close>

text \<open>A load of a pattern at an address that no entry of its unit has returns when the load to the tester returns.\<close>

lemma load_object_loads:
  assumes s: "stims w i = Some (s, k)" and type: "stim_type s \<notin> {STIM_TYPE_RBT, STIM_TYPE_BIN, STIM_TYPE_BIT}"
    and mode: "load_units (stim_get_mode s) = [sel]" and addrs: "load_addrs addr w = (a1, a2)"
    and t: "tabs w f (None, [])" and free: "find_loaded sel (if sel = ARTIX_SELECT_A1 then a1 else a2) w = Inr (Returns None, w)"
    and load: "artix_load_stim (env_lz4d env) (env_drv env) s (ucast a1) (ucast a2) (the_board w) = Inr ((s', n), b)"
  shows "\<exists>w'. load_object env i addr w = Inr (Returns (a1, a2, stim_get_mode s), w') \<and> the_board w' = b \<and>
    stims w' = (stims w)(i \<mapsto> (s', k)) \<and> profiles w' = profiles w"
proof -
  have sel: "one_unit sel" and not_none: "stim_get_mode s \<noteq> STIM_MODE_NONE"
    using load_units_one [OF mode] by (auto simp: one_unit_def)
  obtain r1 w1 where c: "create_prgm_stim i a1 a2 w = Inr (r1, w1)"
    by (cases "new_element (hash w)") (simp add: create_prgm_stim_def)
  obtain p u ps where p: "r1 = Returns p" "w1 = w\<lparr>hash := u, prgm_stims := ps\<rparr>" "tabs w1 f (None, [])" "alive u p"
    "p \<notin> set (f ARTIX_SELECT_A1) \<union> set (f ARTIX_SELECT_A2)" and ps: "ps = (prgm_stims w)(p := \<lparr>ps_a1_addr = ucast a1, ps_a2_addr = ucast a2, ps_stim = i\<rparr>)"
    using create_tabs [OF t c] by metis
  let ?a = "if sel = ARTIX_SELECT_A1 then a1 else a2"
  have key: "ucast (entry_addr sel (prgm_stims w1 p)) = ?a" using ps by (simp add: p(2) entry_addr_def)
  have same: "prgm_stims w1 q = prgm_stims w q" if "q \<in> set (f sel)" for q
  proof -
    have "q \<noteq> p" using that p(5) sel by (auto simp: one_unit_def)
    then show ?thesis by (simp add: p(2) ps)
  qed
  have "find (\<lambda>q. ucast (entry_addr sel (prgm_stims w q)) = ?a) (f sel) = None"
    using free find_loaded_tabs [OF t sel, of ?a] by simp
  then have none: "find (\<lambda>q. ucast (entry_addr sel (prgm_stims w1 q)) = ?a) (f sel) = None"
    using same by (auto simp: find_None_iff)
  have "add_loaded p sel w1 \<noteq> Inr (Raises e, w1)" for e
  proof
    assume "add_loaded p sel w1 = Inr (Raises e, w1)"
    then show False using find_loaded_tabs [OF p(3) sel, of ?a] none
      by (auto simp: add_loaded_def Let_def key bindS_def bindR_Inr_iff)
  qed
  then obtain v h where add: "add_loaded p sel w1 = Inr (Returns (), set_loaded sel h (w1\<lparr>hash := v\<rparr>))"
    using add_loaded_tabs [OF p(3) sel _ p(5)] p(2,4) by auto
  define w2 where "w2 = set_loaded sel h (w1\<lparr>hash := v\<rparr>)"
  have w2: "stims w2 = stims w" "the_board w2 = the_board w" "profiles w2 = profiles w"
    by (simp_all add: w2_def set_loaded_def p(2))
  define w3 where "w3 = w2\<lparr>the_board := b, stims := (stims w)(i \<mapsto> (s', k))\<rparr>"
  have l: "load_pattern env i a1 a2 w2 = Inr (Returns n, w3)"
    using type s load w2
    by (simp add: load_pattern_def get_stim_def stimR_def script_defs on_board_def put_stim_def w3_def)
  let ?g = "\<lambda>w. case addr of None \<Rightarrow> (ucast (cur_a1_stim_addr w), ucast (cur_a2_stim_addr w)) | Some a \<Rightarrow> (a, a)"
  have 1: "bindS (get_stim i) g w = g (s, k) w" for g :: "stim \<times> nat \<Rightarrow> 'x script"
    using s by (simp add: get_stim_def stimR_def script_defs)
  have 2: "bindS (getS ?g) g w = g (a1, a2) w" for g :: "u32 \<times> u32 \<Rightarrow> 'x script"
    using addrs by (simp add: script_defs load_addrs_def)
  have 3: "bindS (create_prgm_stim i a1 a2) g w = g p w1" for g :: "nat \<Rightarrow> 'x script"
    using c p(1) by (simp add: bindS_def)
  have 4: "bindS (add_loaded p sel) g w1 = g () w2" for g :: "unit \<Rightarrow> 'x script"
    using add by (simp add: bindS_def w2_def)
  have 5: "bindS (load_pattern env i a1 a2) g w2 = g n w3" for g :: "nat \<Rightarrow> 'x script"
    using l by (simp add: bindS_def)
  let ?w' = "add_count sel 1 (if addr = None then add_addr sel (of_nat n) w3 else w3)"
  have "load_object env i addr w = Inr (Returns (a1, a2, stim_get_mode s), ?w')"
    using not_none mode by (simp add: load_object_def 1 2 3 4 5 bindS_assoc) (simp add: script_defs)
  moreover have "the_board ?w' = b" "stims ?w' = (stims w)(i \<mapsto> (s', k))" "profiles ?w' = profiles w"
    by (simp_all add: add_count_def add_addr_def w3_def w2)
  ultimately show ?thesis by blast
qed

lemma load_result_solo:
  assumes "load_units mode = [sel]"
  shows "load_result (a1, a2, mode) w = Inr (Returns (solo_pair sel (if sel = ARTIX_SELECT_A1 then a1 else a2)), w)"
  using load_units_one [OF assms] by (auto simp: load_result_def solo_pair_def fe_nil_bool returnS_def)

text \<open>The type of a stimulus that a pattern was made into.\<close>

lemma stim_by_dots_type:
  assumes "get_stim_by_dots profile dots = Inr st"
  shows "stim_type st = STIM_TYPE_DOTS"
proof -
  have "stim_type st' = stim_type s" if "init_stim s ps nv nu = Inr st'" for s ps nv nu st'
    using that by (auto simp: init_stim_def bindR_Inr_iff Let_def split: if_splits)
  then show ?thesis using assms
    by (auto simp: get_stim_by_dots_def bindR_Inr_iff Let_def split: if_splits)
qed

text \<open>C4. A script that loads a pattern for one unit brings exactly that pattern to the tester: in a session without
  dual stimuli, on a driver that accepts the requests and whose units show the states they wait in, at an
  address that is free, \<^verbatim>\<open>loads\<close> returns the address, the DMA transmissions carry the vectors compiled for the
  unit, each chunk is a burst for that unit at that address, and the address finds an entry for the stimulus
  from then on.\<close>

theorem loads_transmits:
  assumes "solo_files env" and "session env w" and sym: "prgm_symbol w = Fe_ptr Prgm_ref"
    and s: "stims w i = Some (stim, k)" and stim: "get_stim_by_dots profile dots = Inr stim"
    and dots: "dots_full dots vs" "\<forall>v\<in>set vs. vec_plain (dots_num_pins dots) v"
      "length (dots_pins dots) = dots_num_pins dots" "dots_num_pins dots < 2 ^ 16"
      "cur_appended_dots_vec_id dots = num_dots_vecs dots"
    and pins: "get_artix_select_by_profile_pins (dots_pins dots) = Inr sel" and sel: "one_unit sel"
    and ok: "\<forall>rng. artix_range sel = Inr rng \<longrightarrow> unit_pins_ok rng (dots_pins dots)"
    and ready: "reports_states (env_drv env)" "at_rest (hist (the_board w))" "DMA_SIZE \<le> length (gcore_map (the_board w))"
    and addrs: "load_addrs None w = (a1, a2)" "load_addr_ok (ucast a1)" "load_addr_ok (ucast a2)"
    and free: "find_loaded sel (if sel = ARTIX_SELECT_A1 then a1 else a2) w = Inr (Returns None, w)"
  shows "\<exists>w' p bss. f_loads env (Fe_pair (Fe_ptr (Stim_ref i)) Fe_nil) w =
      Inr (Returns (solo_pair sel (if sel = ARTIX_SELECT_A1 then a1 else a2)), w') \<and>
    moved (env_drv env) (the_board w) (the_board w') (concat (map (compile_vec sel (dots_pins dots)) (padded_vecs dots vs stim))) [] \<and>
    pattern_chunks sel stim (dots_pins dots) (padded_vecs dots vs stim) bss \<and>
    bursts (device_of (hist (the_board w'))) = bursts (device_of (hist (the_board w))) @
      map (burst_of sel (ucast (if sel = ARTIX_SELECT_A1 then a1 else a2))) bss \<and>
    find_loaded sel (if sel = ARTIX_SELECT_A1 then a1 else a2) w' = Inr (Returns (Some p), w') \<and> ps_stim (prgm_stims w' p) = i"
proof -
  obtain f where t: "tabs w f (None, [])" and sz: "sizes w f" and solo: "solo w" using session_obtains [OF assms(1,2)] .
  have units: "select_units sel = [sel]" using sel by (auto simp: one_unit_def)
  then have mode: "load_units (stim_get_mode stim) = [sel]" using dots_load_units [OF stim pins] by simp
  have oks: "\<forall>u\<in>set (select_units sel). \<forall>rng. artix_range u = Inr rng \<longrightarrow> unit_pins_ok rng (dots_pins dots)"
    using ok units by simp
  obtain s' n b bss where load: "artix_load_stim (env_lz4d env) (env_drv env) stim (ucast a1) (ucast a2) (the_board w) = Inr ((s', n), b)"
    and m: "moved (env_drv env) (the_board w) b (concat (map (compile_vec sel (dots_pins dots)) (padded_vecs dots vs stim))) []"
    and chunks: "pattern_chunks sel stim (dots_pins dots) (padded_vecs dots vs stim) bss"
    and log: "bursts (device_of (hist b)) = bursts (device_of (hist (the_board w))) @
      map (burst_of sel (ucast (if sel = ARTIX_SELECT_A1 then a1 else a2))) bss"
    using dots_load_transmits [OF stim dots pins oks ready(1,2) addrs(2,3) ready(3), of "env_lz4d env"] units
    by (auto simp: load_address_def)
  have type: "stim_type stim \<notin> {STIM_TYPE_RBT, STIM_TYPE_BIN, STIM_TYPE_BIT}" using stim_by_dots_type [OF stim] by simp
  obtain w' where w': "load_object env i None w = Inr (Returns (a1, a2, stim_get_mode stim), w')" "the_board w' = b"
    using load_object_loads [OF s type mode addrs(1) t free load] by blast
  from load_object_solo [OF w'(1) solo t sz] obtain sel' p where
    p: "load_units (stim_get_mode stim) = [sel']" "one_unit sel'" "tabs w' (f(sel' := f sel' @ [p])) (None, [])"
      "prgm_stims w' p = \<lparr>ps_a1_addr = ucast a1, ps_a2_addr = ucast a2, ps_stim = i\<rparr>" using addrs(1) by auto
  have "sel' = sel" using p(1) mode by simp
  moreover have "ucast (entry_addr sel (prgm_stims w' p)) = (if sel = ARTIX_SELECT_A1 then a1 else a2)"
    using p(4) by (simp add: entry_addr_def)
  ultimately have "find_loaded sel (if sel = ARTIX_SELECT_A1 then a1 else a2) w' = Inr (Returns (Some p), w')"
    using find_loaded_tabs [OF p(3,2)] find_key [OF p(3,2), of p] by simp
  moreover have "f_loads env (Fe_pair (Fe_ptr (Stim_ref i)) Fe_nil) w =
      Inr (Returns (solo_pair sel (if sel = ARTIX_SELECT_A1 then a1 else a2)), w')"
    using load_result_solo [OF mode] w'(1) by (simp add: f_loads_object [OF sym] bindS_def)
  ultimately show ?thesis using m chunks log w'(2) p(4) by (intro exI [of _ w'] exI [of _ p] exI [of _ bss]) simp
qed

end
