(* ===== verification/Prgm_Samples.thy ===== *)
theory Prgm_Samples
  imports Prgm_Load
begin

text \<open>
  Concrete programs for the properties of prgm.c: a tester whose driver accepts every request, stimuli
  that were made from a small pattern, and the calls of a script on them.
\<close>

section \<open>A program in a fresh process\<close>

definition sample_env :: prgm_env where
  "sample_env =
     \<lparr>env_lz4c = (\<lambda>bs. bs), env_lz4d = (\<lambda>_ _. None), env_drv = reporting_driver, env_files = (\<lambda>_. None),
      env_decode = (\<lambda>_. None), env_sqlite = \<lparr>prepares = (\<lambda>_ _. True), steps = (\<lambda>_. \<lparr>rows = [], finished = True, last_rowid = 1\<rparr>)\<rparr>,
      env_opens = (\<lambda>_. Open_ok), env_tz = (\<lambda>_. \<lparr>zone = (\<lambda>_ _. 0), stale = (\<lambda>_. 0)\<rparr>), env_realpath = Some, env_text = (\<lambda>_. []), env_address = of_nat,
      env_behind = (\<lambda>_. [])\<rparr>"

definition start_world :: "(nat \<Rightarrow> (stim \<times> nat) option) \<Rightarrow> prgm_world" where
  "start_world ss =
     \<lparr>prgm_path = None, is_path_open = False, db_prgm_id = - 1, prgm_db_path = None, prgm_db = None, fe_ctx = True,
      prgm_profile = None, num_a1_loaded_stims = 0, num_a2_loaded_stims = 0, cur_a1_stim_addr = 0, cur_a2_stim_addr = 0,
      a1_loaded_stims = None, a2_loaded_stims = None, last_prgm_stim = None, the_board = fresh_board (replicate DMA_SIZE 0),
      hash = empty_store, prgm_stims = (\<lambda>_. \<lparr>ps_a1_addr = 0, ps_a2_addr = 0, ps_stim = 0\<rparr>), stims = ss, num_stims = 2,
      profiles = (\<lambda>k. if k = 0 then Some config_profile else None), num_profiles = 1, written = [],
      prgm_symbol = Fe_ptr Prgm_ref, has_handler = False\<rparr>"

lemma sample_files: "solo_files sample_env"
  by (auto simp: solo_files_def sample_env_def get_stim_by_path_def open_dots_def open_stim_def bindR_Inr_iff Let_def
    split: if_splits)

lemma start_session:
  assumes "\<forall>i s k. ss i = Some (s, k) \<longrightarrow> stim_get_mode s \<noteq> STIM_MODE_DUAL"
  shows "session env (start_world ss)"
proof (rule session.created)
  show "prgm_create False None None (start_world ss) = Inr (start_world ss)"
    by (simp add: prgm_create_def prgm_create_fe_ctx_def start_world_def)
  show "hash (start_world ss) = empty_store" by (simp add: start_world_def)
  show "solo (start_world ss)" using assms by (simp add: solo_def start_world_def)
qed

section \<open>A stimulus on the pins of one unit\<close>

text \<open>The board can take a transfer, and no unit is in the middle of an exchange.\<close>

definition ready_board :: "board \<Rightarrow> bool" where
  "ready_board b \<longleftrightarrow> DMA_SIZE \<le> length (gcore_map b) \<and> at_rest (hist b)"

lemma solo_sample:
  assumes "get_stim_by_dots config_profile sample_dots = Inr st"
  shows "load_units (stim_get_mode st) = [ARTIX_SELECT_A1]" and "stim_get_mode st \<noteq> STIM_MODE_DUAL"
    and "\<forall>rng. artix_range ARTIX_SELECT_A1 = Inr rng \<longrightarrow> unit_pins_ok rng (dots_pins sample_dots)"
    and "get_artix_select_by_profile_pins (dots_pins sample_dots) = Inr ARTIX_SELECT_A1"
    and "\<forall>v\<in>set [new_vec 2 (''3'', ''V01''), new_vec 2 (''1'', ''VCX'')]. vec_plain (dots_num_pins sample_dots) v"
proof -
  show pins: "get_artix_select_by_profile_pins (dots_pins sample_dots) = Inr ARTIX_SELECT_A1"
    by (simp add: get_artix_select_by_profile_pins_def get_artix_select_by_profile_pin_def data_pin_def sample_dots_def)
  have ids: "unit_ids (0, 199) [data_pin 0, data_pin 1] = [0, 1]"
    by (simp add: unit_ids_def in_range_def data_pin_def upt_rec)
  have "unit_pins_ok (0, 199) (dots_pins sample_dots)"
    by (simp add: sample_dots_def unit_pins_ok_def ids) (simp add: pin_io_def data_pin_def)
  then show "\<forall>rng. artix_range ARTIX_SELECT_A1 = Inr rng \<longrightarrow> unit_pins_ok rng (dots_pins sample_dots)"
    by (simp add: DUT_NUM_PINS_def)
  show "\<forall>v\<in>set [new_vec 2 (''3'', ''V01''), new_vec 2 (''1'', ''VCX'')]. vec_plain (dots_num_pins sample_dots) v"
    by (simp add: vec_plain_def new_vec_def sample_dots_def)
  show units: "load_units (stim_get_mode st) = [ARTIX_SELECT_A1]" using dots_load_units [OF assms pins] by simp
  then show "stim_get_mode st \<noteq> STIM_MODE_DUAL" by (auto simp: load_units_def)
qed

lemma sample_numbers:
  "length (dots_pins sample_dots) = dots_num_pins sample_dots" "dots_num_pins sample_dots < 2 ^ 16"
  "cur_appended_dots_vec_id sample_dots = num_dots_vecs sample_dots"
  "load_addr_ok 0" "load_addr_ok 4096" "reports_states (env_drv sample_env)"
  using reporting_driver_reports by (simp_all add: sample_dots_def load_addr_ok_def BURST_BYTES_def sample_env_def)

lemma sample_runs:
  assumes st: "get_stim_by_dots config_profile sample_dots = Inr st" and "load_addr_ok a1" and "load_addr_ok a2"
    and "ready_board b"
  shows "\<exists>st' n b'. artix_load_stim (env_lz4d sample_env) (env_drv sample_env) st a1 a2 b = Inr ((st', n), b') \<and> ready_board b'"
proof -
  have "\<forall>u\<in>set (select_units ARTIX_SELECT_A1). \<forall>rng. artix_range u = Inr rng \<longrightarrow> unit_pins_ok rng (dots_pins sample_dots)"
    using solo_sample(3) [OF st] by simp
  moreover have "at_rest (hist b)" "DMA_SIZE \<le> length (gcore_map b)" using assms(4) by (simp_all add: ready_board_def)
  ultimately obtain st' n b' where "artix_load_stim (env_lz4d sample_env) (env_drv sample_env) st a1 a2 b = Inr ((st', n), b')"
    "length (gcore_map b') = length (gcore_map b)" "at_rest (hist b')"
    using dots_load_transmits [OF st sample_dots_full solo_sample(5) [OF st] sample_numbers(1-3) solo_sample(4) [OF st] _
      sample_numbers(6) _ assms(2,3)] by blast
  then show ?thesis using assms(4) by (auto simp: ready_board_def)
qed

text \<open>A call that loads the stimulus \<open>i\<close> at a free address.\<close>

lemma sample_load:
  assumes st: "get_stim_by_dots config_profile sample_dots = Inr st" and s: "stims w i = Some (st, 0)"
    and ses: "session sample_env w" and addrs: "load_addrs addr w = (a1, a2)" "load_addr_ok (ucast a1)" "load_addr_ok (ucast a2)"
    and free: "find_loaded ARTIX_SELECT_A1 a1 w = Inr (Returns None, w)" and b: "ready_board (the_board w)"
  shows "\<exists>w' st'. load_object sample_env i addr w = Inr (Returns (a1, a2, stim_get_mode st), w') \<and>
    ready_board (the_board w') \<and> stims w' = (stims w)(i \<mapsto> (st', 0)) \<and> profiles w' = profiles w"
proof -
  obtain f where t: "tabs w f (None, [])" using session_obtains [OF sample_files ses] by metis
  have type: "stim_type st \<notin> {STIM_TYPE_RBT, STIM_TYPE_BIN, STIM_TYPE_BIT}" using stim_by_dots_type [OF st] by simp
  have free': "find_loaded ARTIX_SELECT_A1 (if ARTIX_SELECT_A1 = ARTIX_SELECT_A1 then a1 else a2) w = Inr (Returns None, w)"
    using free by simp
  obtain st' n b' where load: "artix_load_stim (env_lz4d sample_env) (env_drv sample_env) st (ucast a1) (ucast a2) (the_board w) =
      Inr ((st', n), b')" "ready_board b'" using sample_runs [OF st addrs(2,3) b] by blast
  from load_object_loads [OF s type solo_sample(1) [OF st] addrs(1) t free' load(1)] b load(2) show ?thesis by fastforce
qed

definition sample_stims :: "stim \<Rightarrow> nat \<Rightarrow> (stim \<times> nat) option" where
  "sample_stims st = (\<lambda>i. if i < 2 then Some (st, 0) else None)"

lemma sample_session: "stim_get_mode st \<noteq> STIM_MODE_DUAL \<Longrightarrow> session sample_env (start_world (sample_stims st))"
  by (rule start_session) (simp add: sample_stims_def)

lemma start_facts [simp]:
  "prgm_symbol (start_world ss) = Fe_ptr Prgm_ref" "load_addrs None (start_world ss) = (0, 0)" "\<not> uses_db (start_world ss)"
  "find_loaded sel a (start_world ss) = Inr (Returns None, start_world ss)" "stims (start_world ss) = ss"
  "profiles (start_world ss) 0 = Some config_profile" "ready_board (the_board (start_world ss))"
  by (simp_all add: start_world_def load_addrs_def uses_db_def find_loaded_def loaded_def HASH_FIND_def liftS_def
      ready_board_def fresh_at_rest)

lemma call_loads: "fe_call env ''loads'' arg = f_loads env arg" "fe_call env ''loada'' arg = f_loada env arg"
  "fe_call env ''unload'' arg = f_unload arg" "fe_call env ''unload-all'' arg = f_unload_all env arg"
  by (simp_all add: fe_call_def fe_gemini_funcs_def)

lemma sample_first:
  assumes st: "get_stim_by_dots config_profile sample_dots = Inr st"
  obtains w1 where "f_loads sample_env (Fe_pair (Fe_ptr (Stim_ref 0)) Fe_nil) (start_world (sample_stims st)) =
      Inr (Returns (solo_pair ARTIX_SELECT_A1 0), w1)" and "session sample_env w1" and "stims w1 1 = Some (st, 0)"
    and "profiles w1 0 = Some config_profile" and "ready_board (the_board w1)" and "prgm_symbol w1 = Fe_ptr Prgm_ref"
    and "\<exists>p s. find_loaded ARTIX_SELECT_A1 0 w1 = Inr (Returns (Some p), w1) \<and> ps_stim (prgm_stims w1 p) = 0 \<and> stims w1 0 = Some (s, 0)"
    and "\<exists>f p. tabs w1 f (None, []) \<and> sizes w1 f \<and> solo w1 \<and> f ARTIX_SELECT_A1 = [p] \<and> f ARTIX_SELECT_A2 = [] \<and>
      ps_a1_addr (prgm_stims w1 p) = 0 \<and> ps_stim (prgm_stims w1 p) = 0"
proof -
  let ?w = "start_world (sample_stims st)"
  have ses: "session sample_env ?w" using sample_session solo_sample(2) [OF st] .
  have zero: "load_addr_ok (ucast (0 :: u32))" using sample_numbers(4) by simp
  have s: "stims ?w 0 = Some (st, 0)" by (simp add: sample_stims_def)
  obtain w1 s' where l: "load_object sample_env 0 None ?w = Inr (Returns (0, 0, stim_get_mode st), w1)"
    "ready_board (the_board w1)" "stims w1 = (stims ?w)(0 \<mapsto> (s', 0))" "profiles w1 = profiles ?w"
    using sample_load [OF st s ses start_facts(2) zero zero start_facts(4,7)] by blast
  have loads: "f_loads sample_env (Fe_pair (Fe_ptr (Stim_ref 0)) Fe_nil) ?w = Inr (Returns (solo_pair ARTIX_SELECT_A1 0), w1)"
    using l(1) load_result_solo [OF solo_sample(1) [OF st]] by (simp add: f_loads_object bindS_def)
  then have ses1: "session sample_env w1" using session.called [OF ses] call_loads(1) by metis
  have t0: "tabs ?w (\<lambda>_. []) (None, [])" and sz0: "sizes ?w (\<lambda>_. [])" and solo0: "solo ?w"
    using solo_sample(2) [OF st] by (auto simp: start_world_def tabs_def keys_ok_def separate_def apart_def represents_def
      sizes_def store_ok_def empty_store_def solo_def sample_stims_def)
  from load_object_solo [OF l(1) solo0 t0 sz0] obtain sel p where
    p: "load_units (stim_get_mode st) = [sel]" "tabs w1 ((\<lambda>_. [])(sel := [p])) (None, [])"
      "prgm_stims w1 p = \<lparr>ps_a1_addr = 0, ps_a2_addr = 0, ps_stim = 0\<rparr>" "prgm_symbol w1 = prgm_symbol ?w"
      "sizes w1 ((\<lambda>_. [])(sel := [p]))" "solo w1" by auto
  have sel: "sel = ARTIX_SELECT_A1" using p(1) solo_sample(1) [OF st] by simp
  have "find_loaded ARTIX_SELECT_A1 0 w1 = Inr (Returns (Some p), w1)"
    using find_loaded_tabs [OF p(2) units(1), of 0] p(3) by (simp add: sel entry_addr_def)
  moreover have "\<exists>f p. tabs w1 f (None, []) \<and> sizes w1 f \<and> solo w1 \<and> f ARTIX_SELECT_A1 = [p] \<and> f ARTIX_SELECT_A2 = [] \<and>
      ps_a1_addr (prgm_stims w1 p) = 0 \<and> ps_stim (prgm_stims w1 p) = 0"
    using p(2,3,5,6) sel by (intro exI [of _ "(\<lambda>_. [])(sel := [p])"] exI [of _ p]) simp
  ultimately show thesis
    using that [OF loads ses1 _ _ l(2)] l(3,4) p(3,4) start_facts(1,6) by (auto simp: sample_stims_def)
qed

section \<open>Witnesses\<close>

theorem session_tables_witness:
  "\<exists>w xs ys. session sample_env w \<and> a1_loaded_stims w \<noteq> None \<and>
    represents (hash w) (a1_loaded_stims w) xs \<and> represents (hash w) (a2_loaded_stims w) ys \<and> set xs \<inter> set ys = {} \<and>
    num_a1_loaded_stims w = of_nat (length xs)"
proof -
  obtain st where st: "get_stim_by_dots config_profile sample_dots = Inr st" using sample_stim by blast
  obtain w1 where w1: "session sample_env w1" "\<exists>p. find_loaded ARTIX_SELECT_A1 0 w1 = Inr (Returns (Some p), w1)"
    using sample_first [OF st] by metis
  have "a1_loaded_stims w1 \<noteq> None" using w1(2) by (cases "a1_loaded_stims w1") (auto simp: find_loaded_def loaded_def liftS_def HASH_FIND_def)
  with session_tables [OF sample_files w1(1)] w1(1) show ?thesis by blast
qed

theorem loaded_stim_runs_witness:
  "\<exists>st v w1 p s k. f_loads sample_env (Fe_pair (Fe_ptr (Stim_ref 0)) Fe_nil) (start_world (sample_stims st)) = Inr (Returns v, w1) \<and>
    stims w1 0 = Some (s, k) \<and> f_run sample_env (fe_list [v]) w1 =
    bindS (on_board (artix_run_stim (env_drv sample_env) s 0 0)) (\<lambda>(cycle, failed).
      bindS (modifyS (\<lambda>w. w\<lparr>last_prgm_stim := Some p\<rparr>)) (\<lambda>_.
       returnS (fe_list [fe_number 1, fe_bool failed, fe_number cycle]))) w1"
proof -
  obtain st where st: "get_stim_by_dots config_profile sample_dots = Inr st" using sample_stim by blast
  obtain w1 where w1: "f_loads sample_env (Fe_pair (Fe_ptr (Stim_ref 0)) Fe_nil) (start_world (sample_stims st)) =
      Inr (Returns (solo_pair ARTIX_SELECT_A1 0), w1)" using sample_first [OF st] by metis
  have "cur_a1_stim_addr (start_world (sample_stims st)) = 0" "cur_a2_stim_addr (start_world (sample_stims st)) = 0"
    by (simp_all add: start_world_def)
  with loaded_stim_runs [OF sample_files sample_session [OF solo_sample(2) [OF st]] start_facts(3) w1] show ?thesis
    using w1 by auto blast
qed

text \<open>A tester whose units flag a failure: two tests are asked for, and the first one fails.\<close>

definition failing_env :: prgm_env where
  "failing_env = sample_env\<lparr>env_drv := steady_driver 0x10000\<rparr>"

lemma read_packet_steady: "subcore_read_packet (steady_driver d) p st = Inr (q, st') \<Longrightarrow> q = packet 0 0 d"
  by (auto simp: subcore_read_packet_def io_simps steady_driver_def bindR_Inr_iff split: if_splits)

lemma status_steady: "helper_get_agent_status (steady_driver d) sel st = Inr (q, st') \<Longrightarrow> q = packet 0 0 d"
  by (auto simp: helper_get_agent_status_def bindB_Inr_iff returnB_def dest: read_packet_steady)

lemma flagged_fails:
  assumes "artix_run_stim (steady_driver 0x10000) s a1 a2 st = Inr ((cycle, failed), st')" and "stim_get_mode s \<noteq> STIM_MODE_DUAL"
  shows "failed"
proof -
  have "test_failed (packet 0 0 0x10000)" by (simp add: test_failed_def has_mask_def packet_def)
  then show ?thesis using assms
    by (auto simp: artix_run_stim_def bindB_Inr_iff returnB_def failB_def solo_verdict_def Let_def
      dest!: status_steady simp del: doB.simps split: if_splits)
qed

theorem run_is_runc_prefix_witness:
  "\<exists>st w1 cycle w2. f_loads sample_env (Fe_pair (Fe_ptr (Stim_ref 0)) Fe_nil) (start_world (sample_stims st)) =
      Inr (Returns (solo_pair ARTIX_SELECT_A1 0), w1) \<and>
    f_run failing_env (fe_list [solo_pair ARTIX_SELECT_A1 0, solo_pair ARTIX_SELECT_A1 0])
      (w1\<lparr>stims := (\<lambda>_. Some (create_stim\<lparr>stim_profile := Some config_profile, num_a1_vec_chunks := 1\<rparr>, 0)), db_prgm_id := - 1\<rparr>) =
      Inr (Returns (fe_list [fe_number 1, fe_bool True, cycle]), w2)"
proof -
  obtain st where st: "get_stim_by_dots config_profile sample_dots = Inr st" using sample_stim by blast
  obtain w1 where w1: "f_loads sample_env (Fe_pair (Fe_ptr (Stim_ref 0)) Fe_nil) (start_world (sample_stims st)) =
      Inr (Returns (solo_pair ARTIX_SELECT_A1 0), w1)" "ready_board (the_board w1)" "prgm_symbol w1 = Fe_ptr Prgm_ref"
    "\<exists>p s. find_loaded ARTIX_SELECT_A1 0 w1 = Inr (Returns (Some p), w1) \<and> ps_stim (prgm_stims w1 p) = 0 \<and> stims w1 0 = Some (s, 0)"
    "session sample_env w1" using sample_first [OF st] by metis
  let ?s = "create_stim\<lparr>stim_profile := Some config_profile, num_a1_vec_chunks := 1\<rparr>"
  define w where "w = w1\<lparr>stims := (\<lambda>_. Some (?s, 0)), db_prgm_id := - 1\<rparr>"
  let ?x = "solo_pair ARTIX_SELECT_A1 0"
  obtain p where p: "find_loaded ARTIX_SELECT_A1 0 w1 = Inr (Returns (Some p), w1)" using w1(4) by blast
  obtain f where t: "tabs w1 f (None, [])" using session_obtains [OF sample_files w1(5)] by metis
  have "find (\<lambda>q. ucast (entry_addr ARTIX_SELECT_A1 (prgm_stims w1 q)) = (0 :: u32)) (f ARTIX_SELECT_A1) = Some p"
    using p find_loaded_tabs [OF t units(1), of 0] by simp
  then have "p \<in> set (f ARTIX_SELECT_A1)" by (metis find_split in_set_conv_decomp)
  then have "alive (hash w1) p" using tabs_represents(2) [OF t units(1)] by (simp add: represents_def)
  then have alive: "alive (hash w) p" by (simp add: w_def)
  have found: "find_loaded ARTIX_SELECT_A1 0 w = Inr (Returns (Some p), w)"
    using p by (auto simp: find_loaded_def liftS_def loaded_def w_def bindR_Inr_iff split: if_splits)
  have sym: "prgm_symbol w = Fe_ptr Prgm_ref" and db: "\<not> uses_db w" using w1(3) by (simp_all add: w_def uses_db_def)
  obtain a1 a2 i where ps: "prgm_stims w p = \<lparr>ps_a1_addr = a1, ps_a2_addr = a2, ps_stim = i\<rparr>"
    by (cases "prgm_stims w p") auto
  have s: "stims w i = Some (?s, 0)" by (simp add: w_def)
  have map: "BURST_BYTES \<le> length (gcore_map (the_board w))"
    using w1(2) by (simp add: ready_board_def w_def DMA_SIZE_def BURST_BYTES_def)
  obtain cycle failed b where run: "artix_run_stim (steady_driver 0x10000) ?s a1 a2 (the_board w) = Inr ((cycle, failed), b)"
    using run_stim_total [OF steady_accepting [of "0x10000"] _ _ map, where stim = ?s] by fastforce
  have "stim_get_mode ?s \<noteq> STIM_MODE_DUAL" by (simp add: stim_get_mode_def create_stim_def)
  from flagged_fails [OF run this] have failed: "failed" .
  have one: "\<exists>w2. run_stim failing_env (fe_list [?x]) c w = Inr (Returns (fe_list [fe_number 1, fe_bool True, fe_number cycle]), w2)" for c
    unfolding run_stim_pair [OF sym db units(1) found] run_solo_runs [OF alive ps s]
    using run failed by (simp add: failing_env_def on_board_def script_defs)
  have none: "\<not> fails_within failing_env [?x, ?x] w 0"
    using db by (auto simp: fails_within_def f_runc_def run_stim_def run_start_def fe_list_def fe_bool_def bindS_Returns)
  have some: "fails_within failing_env [?x, ?x] w 1"
    using one [of True] by (auto simp: fails_within_def f_runc_def)
  obtain n where n: "n \<le> length [?x, ?x]" "f_run failing_env (fe_list [?x, ?x]) w = f_runc failing_env (fe_list (take n [?x, ?x])) w"
    "\<forall>k<n. \<not> fails_within failing_env [?x, ?x] w k"
    "n < length [?x, ?x] \<longrightarrow> (\<exists>cycle w'. f_runc failing_env (fe_list (take n [?x, ?x])) w =
      Inr (Returns (fe_list [fe_number (wrap32 n), fe_bool True, cycle]), w'))"
    using run_is_runc_prefix [of "[?x, ?x]" failing_env w] by blast
  have "n \<le> 1" using n(3) some by (metis not_le)
  moreover have "n \<noteq> 0"
  proof
    assume "n = 0"
    then have "fails_within failing_env [?x, ?x] w 0" using n(4) unfolding fails_within_def by force
    with none show False ..
  qed
  ultimately have "n = 1" by simp
  then show ?thesis using n(2) one [of True] w1(1)
    by (auto simp: f_runc_def w_def intro!: exI [of _ st] exI [of _ w1])
qed

theorem loads_transmits_witness:
  "\<exists>st w' bss. f_loads sample_env (Fe_pair (Fe_ptr (Stim_ref 0)) Fe_nil) (start_world (sample_stims st)) =
      Inr (Returns (solo_pair ARTIX_SELECT_A1 0), w') \<and>
    moved reporting_driver (the_board (start_world (sample_stims st))) (the_board w')
      (concat (map (compile_vec ARTIX_SELECT_A1 (dots_pins sample_dots))
        (padded_vecs sample_dots [new_vec 2 (''3'', ''V01''), new_vec 2 (''1'', ''VCX'')] st))) [] \<and>
    bursts (device_of (hist (the_board w'))) = map (burst_of ARTIX_SELECT_A1 0) bss"
proof -
  obtain st where st: "get_stim_by_dots config_profile sample_dots = Inr st" using sample_stim by blast
  let ?w = "start_world (sample_stims st)"
  have s: "stims ?w 0 = Some (st, 0)" by (simp add: sample_stims_def)
  have zero: "load_addr_ok (ucast (0 :: u32))" using sample_numbers(4) by simp
  have rest: "at_rest (hist (the_board ?w))" "DMA_SIZE \<le> length (gcore_map (the_board ?w))"
    using start_facts(7) by (simp_all add: ready_board_def)
  have none: "bursts (device_of (hist (the_board ?w))) = []"
    by (simp add: start_world_def device_of_def fresh_device_def)
  have "env_drv sample_env = reporting_driver" by (simp add: sample_env_def)
  with loads_transmits [OF sample_files sample_session [OF solo_sample(2) [OF st]] start_facts(1) s st sample_dots_full
      solo_sample(5) [OF st] sample_numbers(1-3) solo_sample(4) [OF st] units(1) solo_sample(3) [OF st] sample_numbers(6)
      rest start_facts(2) zero zero start_facts(4)] none show ?thesis by auto
qed

theorem call_result_type_witness:
  "\<exists>st v w1 P. fe_call sample_env ''loads'' (Fe_pair (Fe_ptr (Stim_ref 0)) Fe_nil) (start_world (sample_stims st)) =
      Inr (Returns v, w1) \<and> map_of result_types ''loads'' = Some P \<and> P v"
proof -
  obtain st where st: "get_stim_by_dots config_profile sample_dots = Inr st" using sample_stim by blast
  obtain w1 where w1: "fe_call sample_env ''loads'' (Fe_pair (Fe_ptr (Stim_ref 0)) Fe_nil) (start_world (sample_stims st)) =
      Inr (Returns (solo_pair ARTIX_SELECT_A1 0), w1)" using sample_first [OF st] call_loads(1) by metis
  from call_result_type [OF this] w1 show ?thesis by blast
qed

theorem unload_all_empties_witness:
  "\<exists>w p w'. session sample_env w \<and> num_a1_loaded_stims w = 1 \<and> represents (hash w) (a1_loaded_stims w) [p] \<and>
    f_unload_all sample_env Fe_nil w = Inr (Returns (Fe_pair (fe_number 1) (fe_number 0)), w') \<and>
    a1_loaded_stims w' = None \<and> num_a1_loaded_stims w' = 0 \<and> \<not> alive (hash w') p \<and>
    stims w 0 \<noteq> None \<and> stims w' 0 = None \<and> profiles w 0 \<noteq> None \<and> profiles w' 0 = None"
proof -
  obtain st where st: "get_stim_by_dots config_profile sample_dots = Inr st" using sample_stim by blast
  obtain w1 where w1: "session sample_env w1" "profiles w1 0 = Some config_profile" "prgm_symbol w1 = Fe_ptr Prgm_ref"
    "\<exists>s. stims w1 0 = Some (s, 0)" "\<exists>f p. tabs w1 f (None, []) \<and> sizes w1 f \<and> solo w1 \<and> f ARTIX_SELECT_A1 = [p] \<and>
      f ARTIX_SELECT_A2 = [] \<and> ps_a1_addr (prgm_stims w1 p) = 0 \<and> ps_stim (prgm_stims w1 p) = 0"
    using sample_first [OF st] by metis
  then obtain f p s where f: "tabs w1 f (None, [])" "sizes w1 f" "f ARTIX_SELECT_A1 = [p]" "f ARTIX_SELECT_A2 = []"
    "ps_stim (prgm_stims w1 p) = 0" and s: "stims w1 0 = Some (s, 0)" by blast
  have rep: "represents (hash w1) (a1_loaded_stims w1) [p]" "represents (hash w1) (a2_loaded_stims w1) []"
    using tabs_represents(2) [OF f(1) units(1)] tabs_represents(2) [OF f(1) units(2)] f(3,4) by (simp_all add: loaded_def)
  have one: "num_a1_loaded_stims w1 = 1" using f(2,3) by (simp add: sizes_def)
  obtain w' where "f_unload_all sample_env Fe_nil w1 = Inr (Returns (Fe_pair (fe_number 1) (fe_number 0)), w')"
    "a1_loaded_stims w' = None" "num_a1_loaded_stims w' = 0" "\<not> alive (hash w') p" "stims w' 0 = None" "profiles w' 0 = None"
    using unload_all_empties [OF sample_files w1(1,3) rep, of "\<lambda>_. 0" Fe_nil] w1(2) f(5) s by auto
  with one w1(1,2) s rep(1) show ?thesis by (intro exI [of _ w1] exI [of _ p] exI [of _ w']) simp
qed

definition prgm_env_opened :: prgm_env where
  "prgm_env_opened = sample_env
     \<lparr>env_files := (\<lambda>_. Some ([], [])), env_sqlite := \<lparr>prepares = (\<lambda>_ _. True),
      steps = (\<lambda>_. \<lparr>rows = [replicate 14 Sql_null], finished = True, last_rowid = 1\<rparr>)\<rparr>\<rparr>"

theorem prgm_free_needs_close_witness:
  "\<exists>w1. prgm_open prgm_env_opened ''p'' 0 (Some ''db'') (start_world (\<lambda>_. None)) = Inr w1 \<and> prgm_free w1 = Inl Bad_state"
proof -
  obtain w1 where "prgm_open prgm_env_opened ''p'' 0 (Some ''db'') (start_world (\<lambda>_. None)) = Inr w1"
    by (simp add: prgm_open_def prgm_env_opened_def sample_env_def db_open_def db_create_def db_step_def Let_def start_world_def
     db_get_prgm_by_id_def select_one_def db_prepare_def db_make_prgm_def column_text_def column_def STRDUP_def util_dt_to_epoch_def)
  then show ?thesis using prgm_free_needs_close by (auto simp: start_world_def)
qed

lemma f_loada_object:
  assumes "prgm_symbol w = Fe_ptr Prgm_ref"
  shows "f_loada env (Fe_pair (Fe_ptr (Stim_ref i)) (Fe_pair (fe_number (unat a)) rest)) w =
    bindS (load_object env i (Some a)) load_result w"
  using global_ok [OF assms]
  by (simp add: f_loada_def load_stim_def load_source_def fe_nextarg_def fe_toptr_def stim_of_ref_def bindS_at script_defs)

text \<open>The second stimulus is loaded behind the first one; both were opened with the profile 0.\<close>

lemma sample_second:
  assumes st: "get_stim_by_dots config_profile sample_dots = Inr st"
  obtains w p q s s' where "session sample_env w" and "p \<noteq> q" and "prgm_symbol w = Fe_ptr Prgm_ref"
    and "find_loaded ARTIX_SELECT_A1 0 w = Inr (Returns (Some p), w)" and "find_loaded ARTIX_SELECT_A1 4096 w = Inr (Returns (Some q), w)"
    and "stims w (ps_stim (prgm_stims w p)) = Some (s, 0)" and "stims w (ps_stim (prgm_stims w q)) = Some (s', 0)"
    and "profiles w 0 = Some config_profile"
proof -
  obtain w1 f p where ses1: "session sample_env w1" and s1: "stims w1 1 = Some (st, 0)" and pr: "profiles w1 0 = Some config_profile"
    and b1: "ready_board (the_board w1)" and sym: "prgm_symbol w1 = Fe_ptr Prgm_ref"
    and s0: "\<exists>s. stims w1 0 = Some (s, 0)"
    and f: "tabs w1 f (None, [])" "sizes w1 f" "solo w1" "f ARTIX_SELECT_A1 = [p]" "ps_a1_addr (prgm_stims w1 p) = 0" "ps_stim (prgm_stims w1 p) = 0"
    using sample_first [OF st] by metis
  have addr: "load_addrs (Some 4096) w1 = (4096, 4096)" by (simp add: load_addrs_def)
  have ok: "load_addr_ok (ucast (4096 :: u32))" using sample_numbers(5) by simp
  have free: "find_loaded ARTIX_SELECT_A1 4096 w1 = Inr (Returns None, w1)"
    using find_loaded_tabs [OF f(1) units(1), of 4096] f(4,5) by (simp add: entry_addr_def)
  obtain w2 s' where l: "load_object sample_env 1 (Some 4096) w1 = Inr (Returns (4096, 4096, stim_get_mode st), w2)"
    "stims w2 = (stims w1)(1 \<mapsto> (s', 0))" "profiles w2 = profiles w1"
    using sample_load [OF st s1 ses1 addr ok ok free b1] by blast
  from load_object_solo [OF l(1) f(3,1,2)] obtain sel q where q: "load_units (stim_get_mode st) = [sel]"
      "tabs w2 (f(sel := f sel @ [q])) (None, [])" "prgm_stims w2 q = \<lparr>ps_a1_addr = 4096, ps_a2_addr = 4096, ps_stim = 1\<rparr>"
      "prgm_symbol w2 = prgm_symbol w1" "\<forall>r. r \<noteq> q \<longrightarrow> prgm_stims w2 r = prgm_stims w1 r" by auto
  have sel: "sel = ARTIX_SELECT_A1" using q(1) solo_sample(1) [OF st] by simp
  have "represents (hash w2) (loaded ARTIX_SELECT_A1 w2) [p, q]" using tabs_represents(2) [OF q(2) units(1)] sel f(4) by simp
  then have pq: "p \<noteq> q" by (simp add: represents_def)
  then have p: "prgm_stims w2 p = prgm_stims w1 p" using q(5) by simp
  have "fe_call sample_env ''loada'' (Fe_pair (Fe_ptr (Stim_ref 1)) (Fe_pair (fe_number (unat (4096 :: u32))) Fe_nil)) w1 =
      Inr (Returns (solo_pair ARTIX_SELECT_A1 4096), w2)"
    unfolding call_loads f_loada_object [OF sym] using l(1) load_result_solo [OF solo_sample(1) [OF st]] by (simp add: bindS_def)
  then have ses2: "session sample_env w2" using session.called [OF ses1] by metis
  have "find_loaded ARTIX_SELECT_A1 0 w2 = Inr (Returns (Some p), w2)" "find_loaded ARTIX_SELECT_A1 4096 w2 = Inr (Returns (Some q), w2)"
    using find_loaded_tabs [OF q(2) units(1)] sel f(4,5) p q(3) by (simp_all add: entry_addr_def)
  moreover obtain s where "stims w1 0 = Some (s, 0)" using s0 by blast
  then have "stims w2 (ps_stim (prgm_stims w2 p)) = Some (s, 0)" using l(2) p f(6) by simp
  moreover have "stims w2 (ps_stim (prgm_stims w2 q)) = Some (s', 0)" using l(2) q(3) by simp
  ultimately show thesis using that [OF ses2 pq] sym q(4) pr l(3) by simp
qed

theorem second_unload_uses_freed_profile_witness:
  "\<exists>w v w1. session sample_env w \<and> f_unload (Fe_pair (solo_pair ARTIX_SELECT_A1 0) Fe_nil) w = Inr (Returns v, w1) \<and>
    f_unload (Fe_pair (solo_pair ARTIX_SELECT_A1 4096) Fe_nil) w1 = Inl Crash_freed"
proof -
  obtain st where st: "get_stim_by_dots config_profile sample_dots = Inr st" using sample_stim by blast
  obtain w p q s s' where w: "session sample_env w" "p \<noteq> q" "prgm_symbol w = Fe_ptr Prgm_ref"
    "find_loaded ARTIX_SELECT_A1 0 w = Inr (Returns (Some p), w)" "find_loaded ARTIX_SELECT_A1 4096 w = Inr (Returns (Some q), w)"
    "stims w (ps_stim (prgm_stims w p)) = Some (s, 0)" "stims w (ps_stim (prgm_stims w q)) = Some (s', 0)"
    "profiles w 0 = Some config_profile" using sample_second [OF st] .
  obtain f where t: "tabs w f (None, [])" using session_obtains [OF sample_files w(1)] by metis
  obtain u h where u: "f_unload (Fe_pair (solo_pair ARTIX_SELECT_A1 0) Fe_nil) w = bindS (free_prgm_stim p) (\<lambda>_. returnS Fe_nil)
      (set_loaded ARTIX_SELECT_A1 h ((add_count ARTIX_SELECT_A1 (- 1) w)\<lparr>hash := u\<rparr>))" "alive u p"
    using unload_solo_runs [OF w(3) t units(1) w(4)] by blast
  define w2 where "w2 = set_loaded ARTIX_SELECT_A1 h ((add_count ARTIX_SELECT_A1 (- 1) w)\<lparr>hash := u\<rparr>)"
  have "hash w2 = u" "stims w2 = stims w" "prgm_stims w2 = prgm_stims w" "profiles w2 = profiles w"
    by (simp_all add: w2_def set_loaded_def add_count_def)
  then obtain w1 where "free_prgm_stim p w2 = Inr (Returns (), w1)"
    using u(2) w(6,8) by (auto simp: free_prgm_stim_def get_entry_def free_stim_def stimR_def free_element_def on_hash_def script_defs)
  then have un: "f_unload (Fe_pair (solo_pair ARTIX_SELECT_A1 0) Fe_nil) w = Inr (Returns Fe_nil, w1)"
    using u(1) by (simp add: w2_def [symmetric] bindS_def returnS_def)
  from second_unload_uses_freed_profile [OF sample_files w(1) units(1) units(1) w(4,5,2,6,7) un] un w(1) show ?thesis by blast
qed

section \<open>A stimulus on the pins of both units\<close>

definition dual_dots :: dots where
  "dual_dots = sample_dots\<lparr>dots_pins := [data_pin 0, data_pin 200]\<rparr>"

lemma dual_select: "get_artix_select_by_profile_pins [data_pin 0, data_pin 200] = Inr ARTIX_SELECT_BOTH"
  by (simp add: get_artix_select_by_profile_pins_def get_artix_select_by_profile_pin_def data_pin_def)

lemma dual_units: "\<forall>u\<in>set (select_units ARTIX_SELECT_BOTH). \<forall>rng. artix_range u = Inr rng \<longrightarrow> unit_pins_ok rng (dots_pins dual_dots)"
proof -
  have "unit_ids (0, 199) [data_pin 0, data_pin 200] = [0]" "unit_ids (200, 399) [data_pin 0, data_pin 200] = [1]"
    by (simp_all add: unit_ids_def in_range_def data_pin_def upt_rec)
  then have "unit_pins_ok (0, 199) [data_pin 0, data_pin 200]" "unit_pins_ok (200, 399) [data_pin 0, data_pin 200]"
    by (simp_all add: unit_pins_ok_def pin_io_def data_pin_def)
  then show ?thesis by (simp add: dual_dots_def DUT_NUM_PINS_def DUT_TOTAL_NUM_PINS_def)
qed

lemma dual_stim:
  obtains st where "get_stim_by_dots config_profile dual_dots = Inr st" and "stim_get_mode st = STIM_MODE_DUAL"
    and "\<And>b. ready_board b \<Longrightarrow>
      \<exists>st' n b'. artix_load_stim (env_lz4d sample_env) (env_drv sample_env) st 0 0 b = Inr ((st', n), b')"
proof -
  obtain st where st: "get_stim_by_dots config_profile dual_dots = Inr st"
    using sample_stim_on [OF dual_select] by (auto simp: dual_dots_def)
  have sel: "get_artix_select_by_profile_pins (dots_pins dual_dots) = Inr ARTIX_SELECT_BOTH"
    using dual_select by (simp add: dual_dots_def)
  have "load_units (stim_get_mode st) = [ARTIX_SELECT_A1, ARTIX_SELECT_A2]" using dots_load_units [OF st sel] by simp
  then have mode: "stim_get_mode st = STIM_MODE_DUAL" by (cases "stim_get_mode st") (auto simp: load_units_def)
  have full: "dots_full dual_dots [new_vec 2 (''3'', ''V01''), new_vec 2 (''1'', ''VCX'')]"
    using sample_dots_full by (simp add: dots_full_def dual_dots_def)
  have "\<forall>v\<in>set [new_vec 2 (''3'', ''V01''), new_vec 2 (''1'', ''VCX'')]. vec_plain (dots_num_pins dual_dots) v"
    "length (dots_pins dual_dots) = dots_num_pins dual_dots" "dots_num_pins dual_dots < 2 ^ 16"
    "cur_appended_dots_vec_id dual_dots = num_dots_vecs dual_dots"
    by (simp_all add: vec_plain_def new_vec_def dual_dots_def sample_dots_def)
  then have "\<exists>st' n b'. artix_load_stim (env_lz4d sample_env) (env_drv sample_env) st 0 0 b = Inr ((st', n), b')" if "ready_board b" for b
    using that dots_load_transmits [OF st full _ _ _ _ sel dual_units sample_numbers(6) _ sample_numbers(4,4)]
    unfolding ready_board_def by blast
  then show thesis using that [OF st mode] by blast
qed

lemma dual_first:
  obtains st v w1 where "f_loads sample_env (Fe_pair (Fe_ptr (Stim_ref 0)) Fe_nil) (start_world (sample_stims st)) = Inr (Returns v, w1)"
    and "stim_get_mode st = STIM_MODE_DUAL" and "stims w1 1 = Some (st, 0)"
proof -
  obtain st where mode: "stim_get_mode st = STIM_MODE_DUAL" and runs: "\<And>b. ready_board b \<Longrightarrow>
      \<exists>st' n b'. artix_load_stim (env_lz4d sample_env) (env_drv sample_env) st 0 0 b = Inr ((st', n), b')" using dual_stim by metis
  let ?w = "start_world (sample_stims st)"
  have s: "stims ?w 0 = Some (st, 0)" by (simp add: sample_stims_def)
  have ok: "store_ok (hash ?w)" by (simp add: start_world_def store_ok_def empty_store_def)
  obtain p u where new: "new_element (hash ?w) = (p, u)" by fastforce
  note el = new_element_represents [OF ok new]
  define w2 where "w2 = ?w\<lparr>hash := u, prgm_stims := (prgm_stims ?w)(p := \<lparr>ps_a1_addr = 0, ps_a2_addr = 0, ps_stim = 0\<rparr>)\<rparr>"
  obtain v where v: "seqS (map (add_loaded p) [ARTIX_SELECT_A1, ARTIX_SELECT_A2]) w2 =
      Inr (Returns (), w2\<lparr>hash := v, a1_loaded_stims := Some p, a2_loaded_stims := Some p\<rparr>)"
    using add_first_dual [of w2 p] el(1,2) by (auto simp: w2_def loaded_def start_world_def)
  define w3 where "w3 = w2\<lparr>hash := v, a1_loaded_stims := Some p, a2_loaded_stims := Some p\<rparr>"
  have w3: "stims w3 = stims ?w" "profiles w3 0 = Some config_profile" "the_board w3 = the_board ?w" "prgm_symbol w3 = prgm_symbol ?w"
    by (simp_all add: w3_def w2_def)
  obtain st' n b where "artix_load_stim (env_lz4d sample_env) (env_drv sample_env) st 0 0 (the_board w3) = Inr ((st', n), b)"
    using runs [of "the_board w3"] w3(3) start_facts(7) by metis
  then have l: "load_pattern sample_env 0 0 0 w3 = Inr (Returns n, w3\<lparr>the_board := b, stims := (stims w3)(0 \<mapsto> (st', 0))\<rparr>)"
    using w3(1,2) s by (simp add: load_pattern_def get_stim_def stimR_def on_board_def put_stim_def script_defs)
  have c: "create_prgm_stim 0 0 0 ?w = Inr (Returns p, w2)" using new by (simp add: create_prgm_stim_def w2_def)
  have cur: "cur_a1_stim_addr ?w = 0" "cur_a2_stim_addr ?w = 0" by (simp_all add: start_world_def)
  obtain w1 where w1: "load_object sample_env 0 None ?w = Inr (Returns (0, 0, STIM_MODE_DUAL), w1)" "stims w1 1 = Some (st, 0)"
    using get_stim_Inr [OF s] v l c cur mode w3(1)
    by (auto simp: load_object_def load_units_def script_defs w3_def [symmetric] sample_stims_def add_count_def add_addr_def)
  have "load_result (0, 0, STIM_MODE_DUAL) w1 = Inr (Returns (Fe_pair (fe_number 0) (fe_number 0)), w1)"
    by (simp add: load_result_def returnS_def)
  then have "f_loads sample_env (Fe_pair (Fe_ptr (Stim_ref 0)) Fe_nil) ?w = Inr (Returns (Fe_pair (fe_number 0) (fe_number 0)), w1)"
    using w1(1) by (simp add: f_loads_object bindS_def)
  then show thesis using that mode w1(2) by blast
qed

lemma start_dual: "store_ok (hash (start_world ss))" "a1_loaded_stims (start_world ss) = None" "a2_loaded_stims (start_world ss) = None"
  "cur_a1_stim_addr (start_world ss) = cur_a2_stim_addr (start_world ss)" "stims (start_world (sample_stims st)) 0 = Some (st, 0)"
  by (simp_all add: start_world_def store_ok_def empty_store_def sample_stims_def)

theorem second_dual_load_fails_witness:
  "\<exists>st v w1 sel a w2. f_loads sample_env (Fe_pair (Fe_ptr (Stim_ref 0)) Fe_nil) (start_world (sample_stims st)) = Inr (Returns v, w1) \<and>
    f_loads sample_env (Fe_pair (Fe_ptr (Stim_ref 1)) Fe_nil) w1 = Inr (Raises (Already_loaded sel a), w2)"
proof -
  obtain st v w1 where first: "f_loads sample_env (Fe_pair (Fe_ptr (Stim_ref 0)) Fe_nil) (start_world (sample_stims st)) = Inr (Returns v, w1)"
    and st: "stim_get_mode st = STIM_MODE_DUAL" "stims w1 1 = Some (st, 0)" using dual_first .
  from second_dual_load_fails [OF start_dual st(1) first st(2,1), of Fe_nil] first show ?thesis by blast
qed

theorem dual_unload_uses_freed_witness:
  "\<exists>w p. dual_loaded w p \<and>
    f_unload (Fe_pair (Fe_pair (fe_number (unat (hh_key (hash w) p))) (fe_number 0)) Fe_nil) w = Inl Crash_freed"
proof -
  obtain st v w1 where first: "f_loads sample_env (Fe_pair (Fe_ptr (Stim_ref 0)) Fe_nil) (start_world (sample_stims st)) = Inr (Returns v, w1)"
    and st: "stim_get_mode st = STIM_MODE_DUAL" using dual_first by metis
  obtain p where p: "dual_loaded w1 p" "prgm_symbol w1 = Fe_ptr Prgm_ref" using loads_makes_dual [OF start_dual st first] .
  from dual_unload_uses_freed [OF p refl, of 0 sample_env Fe_nil] p(1) show ?thesis by auto
qed

end
