(* ===== verification/Spec2Isabelle.thy ===== *)
theory Spec2Isabelle
  imports Subvec Profile Profile_Json Stim_Faults Board_Reachable Board_Files Artix_Archive Artix_Memtest Db_Tables Db_Queries Prgm_Samples
begin

text \<open>
  A verification library of gcorelib, the C library that drives the Gemini digital tester. The tester
  has two test units (Artix FPGAs, called a1 and a2 in the code, 200 pins each) below a Linux driver.
  A test is a pattern, a table of vectors with one character per pin. The library compiles it to
  vectors of 128 bytes, cuts them into chunks for each unit, sends these to the memory of the unit by
  DMA, and runs them there. Test programs, scripts in a small Lisp, load and run stimuli through it
  and record results in a database.

  \<^bold>\<open>The parts and their theories.\<close> Each theory names the C functions it models by their own names.

  \<^item> \<^verbatim>\<open>Gcore_Prelude\<close>: the integer types \<open>u8\<close> to \<open>u64\<close>, the faults that end a process (\<open>fault\<close>: assertions
    and \<^verbatim>\<open>die\<close>, dereferences of NULL or of freed memory, accesses out of bounds), the result type
    \<open>'a res = fault + 'a\<close> with \<open>bindR\<close>, and bounded array access (\<open>nthR\<close>, \<open>updR\<close>, \<open>mapR\<close>, \<open>foldR\<close>).
  \<^item> \<^verbatim>\<open>Subvec\<close> (src/subvec.c): the nibbles, the opcode and the operand of a test vector.
  \<^item> \<^verbatim>\<open>Util\<close>, \<^verbatim>\<open>Util_Time\<close> (src/util.c): strings and test data; dates between seconds and text.
  \<^item> \<^verbatim>\<open>Profile\<close> (src/profile.c): pins, copies of them, the lookups by tag, id and name, sorting, and the unit
    that a set of pins belongs to. \<^verbatim>\<open>Profile_Json\<close> (the same file): reading a profile, on top of \<^verbatim>\<open>Jsmn\<close>
    (src/lib/jsmn/jsmn.c), the tokenizer of JSON, and \<^verbatim>\<open>Avl\<close> (src/lib/avl/avl.c), the tree of the check for
    duplicate pins.
  \<^item> \<^verbatim>\<open>Dots\<close> (src/dots.c): patterns: reading a file, appending, expanding, unrolling.
  \<^item> \<^verbatim>\<open>Config\<close> (src/config.c): the tables that drive the configuration pins of a device.
  \<^item> \<^verbatim>\<open>Stim\<close>, \<^verbatim>\<open>Stim_Fill\<close>, \<^verbatim>\<open>Stim_Faults\<close> (src/stim.c): a stimulus and the plan of its chunks; filling
    a chunk and iterating over the chunks; what a second pass and a bitstream do.
  \<^item> \<^verbatim>\<open>Stim_Archive\<close>, \<^verbatim>\<open>Stim_Open\<close> (src/stim.c, src/serialize/stim_serdes.capnp): the archive of a stimulus, and
    opening one by its path with the headers of bitstream files.
  \<^item> \<^verbatim>\<open>Board\<close> (src/board/driver.h, subcore.c, dma.c), \<^verbatim>\<open>Board_Helper\<close> (src/board/helper.c), \<^verbatim>\<open>Artix\<close> and
    \<^verbatim>\<open>Artix_Memtest\<close> (src/board/artix.c): requests to the driver, the layers that proxy each other, and
    the operations on the units. \<^verbatim>\<open>Board_Protocol\<close>, \<^verbatim>\<open>Artix_Safety\<close> and \<^verbatim>\<open>Board_Reachable\<close> hold the protocol of
    the driver and its invariant, \<^verbatim>\<open>Artix_Transfer\<close>, \<^verbatim>\<open>Artix_Load\<close> and \<^verbatim>\<open>Artix_Archive\<close> what reaches the device.
    \<^verbatim>\<open>Board_Device\<close> is not a model of code but the other side of the requests: what a device is told by them,
    as an automaton over the history (which unit waits in which state, which bursts were set up and
    which transfers belong to them), after the states and packets of driver.h.
    \<^verbatim>\<open>Board_Files\<close> (src/board/gpio.c, i2c.c, dev.c): the files of the operating system below them.
  \<^item> \<^verbatim>\<open>Uthash\<close> (src/lib/uthash/uthash.h): the hash tables as the macros build them: elements with links in
    a store, buckets, expansion of the buckets.
  \<^item> \<^verbatim>\<open>Sha256\<close> (src/lib/sha2/sha-256.c): the hash of passwords, with SHA-256 as its standard states it.
  \<^item> \<^verbatim>\<open>Db\<close> (src/db.c, db.h, sql.h): every operation with the text of its statement and the values it binds.
    \<^verbatim>\<open>Db_Sql\<close> is a reference semantics of the statements that db.c builds, \<^verbatim>\<open>Db_Texts\<close> what its texts parse
    to, \<^verbatim>\<open>Db_Rows\<close>, \<^verbatim>\<open>Db_Tables\<close> and \<^verbatim>\<open>Db_Queries\<close> the round trips of rows and the meaning of the queries.
  \<^item> \<^verbatim>\<open>Prgm\<close> (src/prgm.c, prgm.h, and the accessors of src/lib/fe/fe.c): the functions that scripts call and
    the life of a program. \<^verbatim>\<open>Prgm_Session\<close>, \<^verbatim>\<open>Prgm_Unload\<close> (invariant of the tables), \<^verbatim>\<open>Prgm_Run\<close> (types of
    results, \<open>run\<close> and \<open>runc\<close>), \<^verbatim>\<open>Prgm_Dual\<close>, \<^verbatim>\<open>Prgm_Lifecycle\<close>, \<^verbatim>\<open>Prgm_Load\<close> hold its properties,
    \<^verbatim>\<open>Prgm_Samples\<close> the concrete programs of their witnesses.

  \<^bold>\<open>State and effects.\<close> Structures are records with the fields of the C structures, enumerations are
  datatypes, arrays are lists whose every access is checked. A function that changes an argument
  returns the changed one. The operations on the board pass \<open>gcore\<close>, the mapped memory, the channel
  configuration and the history of requests (\<open>io\<close>, \<open>bindB\<close>); the database passes \<open>database\<close>, the
  connection and the log of its statements; scripts pass \<open>prgm_world\<close>, the globals of prgm.c with the
  board, the database, and heaps of stimuli, profiles and hash elements (\<open>script\<close>, \<open>bindS\<close>). What is
  shared through pointers is an index into one of these heaps, so that freeing through one pointer is
  seen through the others. A script function has three outcomes besides a fault: a value, an error that
  it raises, and the end of the process.

  \<^bold>\<open>What is not under src/ is a parameter.\<close> The driver answers each request depending on the history of
  all requests (\<open>driver\<close>), and so does the kernel for calls on files (\<open>kernel\<close>); LZ4 is a compressor and a decompressor, of which round trips assume that one
  undoes the other; Cap'n Proto is its message as a value; files are a function from paths to contents;
  SQLite decides which texts it prepares and how a statement is answered, given the log
  (\<open>follows_sql\<close>: on the fragment of \<^verbatim>\<open>Db_Sql\<close> it behaves as documented); the clock, the local time zone with
  the value that the stack leaves in the uninitialised \<^verbatim>\<open>tm_isdst\<close> (\<open>c_clock\<close>), \<^verbatim>\<open>rand\<close>,
  \<^verbatim>\<open>realpath\<close>, the addresses of objects, the text of script values and what is in memory behind the buffer of a
  profile are functions.
  The hypotheses on them are stated where they are used, and every one is met by the function that a
  witness instantiates it with (\<open>steady_driver\<close>, \<open>reporting_driver\<close>, \<open>reference\<close>, \<open>sample_env\<close>). On the driver
  these are, from weak to strong: \<open>keeps_config\<close> (it reports the channel configuration it was given), \<open>accepting\<close>
  (it refuses no request), and \<open>reports_states\<close> (when the status of a unit is read while the unit waits in a
  state of the memory load, the status shows that state; nothing is asked of it at other times). A board is
  \<open>at_rest\<close> when no unit is in the middle of such an exchange.

  \<^bold>\<open>Interfaces.\<close> \<open>keyed_table\<close> in \<^verbatim>\<open>Uthash\<close> is the contract of a finite map with an order of insertion, with the
  lemmas of its clients; the macros are an interpretation of it. \<open>slot_store\<close> and \<open>item_source\<close> in
  \<^verbatim>\<open>Gcore_Prelude\<close> are the contracts of stores of numbered slots (arrays and the nibbles of a vector, in \<^verbatim>\<open>Subvec\<close>)
  and of sources that are drained item by item (the chunks of a pattern and of an archive, in \<^verbatim>\<open>Stim_Fill\<close> and
  \<^verbatim>\<open>Stim_Archive\<close>). \<open>key_order\<close> in \<^verbatim>\<open>Avl\<close> is what the tree requires of a comparator, with the theorems
  that the tree is a map; the order of pins by name is the interpretation.
  Collections of rules carry the repetitive proofs: \<open>obeys\<close> (every operation of the board keeps to
  the protocol, whatever the driver answers) and \<open>script_rules\<close> (every function of a script keeps the
  tables of its program).

  \<^bold>\<open>What is shown.\<close>
  \<^item> From a pattern to the device: a vector compiles to the documented bytes (\<open>compiled_vec_spec\<close>); the
    chunks of a unit hold every vector once, in order, then the padding (\<open>pattern_loads_completely\<close>); a
    transfer sends and delivers exactly its bytes (\<open>mem_write_sends\<close>, \<open>mem_read_delivers\<close>); so loading a
    stimulus transmits exactly its pattern (\<open>load_stim_transmits_pattern\<close>), also after archiving it
    (\<open>archived_stim_transmits_pattern\<close>), also from a script (\<open>loads_transmits\<close>). These three also state the
    bursts: their units, their numbers and their addresses. The address does not advance between the
    chunks, which is reported as a finding.
  \<^item> Accesses to pins and registers close the files that they open (\<open>files_are_closed\<close>).
  \<^item> Every sequence of operations of artix.h and helper.h follows the protocol of the driver
    (\<open>requests_follow_protocol\<close>), by rule induction over the reachable states. A caller of
    \<open>helper_subcore_load\<close> must not ask for config load or config wait; the raw operations of subcore.h and
    dma.h are left to their callers.
  \<^item> Programs: without dual stimuli, the tables of loaded stimuli are finite maps in every reachable state
    (\<open>session_tables\<close>, by rule induction over the calls a script can make); what \<open>loads\<close> returns runs exactly that
    stimulus (\<open>loaded_stim_runs\<close>), and \<open>unload-all\<close> frees all of them (\<open>unload_all_empties\<close>); \<open>run\<close> is \<open>runc\<close> on the
    prefix up to the first failing test (\<open>run_is_runc_prefix\<close>); the types of results (\<open>call_result_type\<close>); and
    the uses of freed memory that the code has, for a profile that two stimuli share, for a dual stimulus
    that is alone in the tables, and for databases.
  \<^item> Database: rows read back as they were written, up to the width with which a column is read
    (\<open>prgm_row_roundtrip\<close>, \<open>prgm_update_roundtrip\<close>), and the queries select what \<open>job_wanted\<close> says
    (\<open>get_jobs_spec\<close>). Passwords are stored as SHA-256 of their salted text, which the code computes
    however the data is divided (\<open>sha_256_is_standard\<close>).
  \<^item> Profiles: the tokens of every input below 2 GB are within it (\<open>jsmn_tokens_in_bounds\<close>), the text of a JSON document
    is split into the tokens of its values (\<open>jsmn_reads_document\<close>), so that the loops over the tokens read what
    a recursion over the value reads (\<open>get_profile_interprets_value\<close>), and a profile that is written as a document
    reads back (\<open>profile_file_roundtrip\<close>). The check for duplicate pins finds none (\<open>duplicate_pins_accepted\<close>).
  \<^item> The components by themselves: the functional behaviour of parsing, unrolling, sorting, lookups,
    configuration tables and headers, with their error branches.

  \<^bold>\<open>Bounds and fuel.\<close> Loops over data are structural. The others take a number of steps that is enough:
  filling a chunk takes the vectors that are left; \<open>drain\<close> the chunks of the unit and one more, which
  returns that nothing is left; \<open>poll_test\<close> the 0xfffff polls of the code and one more; waiting for
  the CRC the bound that its caller gives; freeing what \<open>unload-all\<close> collected the elements that were ever
  allocated and one more (\<open>unload_all_ends\<close>); the sections of a bit file the length of the file and one more,
  since each section takes at least a byte (\<open>bit_header_ends\<close>); a walk along a chain of a hash table the
  elements that were ever allocated and one more (\<open>length_le_brk\<close>); parsing a statement the number of its
  tokens. \<open>Out_of_fuel\<close> is a fault, so that every theorem that an operation returns excludes it.
  Counters of the code keep their width: \<open>wrap32\<close> and \<open>wrap64\<close> where a counter is a natural number, words elsewhere.

  \<^bold>\<open>Not modelled.\<close> The branches for the simulator (\<^verbatim>\<open>VERILATOR\<close>). Output to the log, except where a function makes text, and
  its setup in src/common.c. Functions that only release memory, except where the code
  uses it again. The evaluator and the garbage collector of lib/fe: a script is the sequence of
  calls that it makes; \<^verbatim>\<open>free_stim\<close> and the frees of prgm.c are modelled. Functions of uthash
  that the code does not use, and removing from and traversing the AVL tree, which it does not use either. SQLite,
  LZ4, Cap'n Proto and the logger, which are vendored.
\<close>

end
